(* ===== verification/Prelude.thy ===== *)
theory Prelude
  imports Complex_Main "HOL-Library.Word" "HOL-Library.AList"
begin

text \<open>
  Shared vocabulary of the jkbase development: the machine integers, clocks and containers
  of the Rust sources, and the generic lemmas about them that the component theories use.

  \<^item> \<open>u8\<close>, \<open>u16\<close>, \<open>u32\<close>, \<open>u64\<close> are machine words; byte counts and sizes whose
    overflow is written out by the code as \<open>saturating_add\<close> and \<open>saturating_mul\<close> are natural
    numbers below \<open>2 ^ 64\<close> with the saturation written out.
  \<^item> \<open>std::time::Instant\<close> and \<open>Duration\<close> are nanosecond counts. The clock is monotonic,
    and \<open>saturating_duration_since\<close> is subtraction on \<open>nat\<close>, which stops at 0.
  \<^item> A \<open>HashMap\<close> is an association list with distinct keys (\<open>hm_wf\<close>). Its order is the
    iteration order of the hash table, which Rust leaves unspecified: every theorem holds for
    every order.
  \<^item> \<open>f64\<close> quantities (token-bucket levels and rates) are read as exact real numbers;
    rounding is not modelled.
\<close>

named_theorems hmap_simps "lookup, size and well-formedness of hash maps"

section \<open>Machine integers and clocks\<close>

type_synonym u8 = "8 word"
type_synonym u16 = "16 word"
type_synonym u32 = "32 word"
type_synonym u64 = "64 word"
type_synonym bytes = "u8 list"

type_synonym instant = nat
type_synonym duration = nat

definition u64_max :: nat where
  "u64_max = 18446744073709551615"

definition saturating_add :: "nat \<Rightarrow> nat \<Rightarrow> nat" where
  "saturating_add a b = min (a + b) u64_max"

definition saturating_mul :: "nat \<Rightarrow> nat \<Rightarrow> nat" where
  "saturating_mul a b = min (a * b) u64_max"

definition from_secs :: "nat \<Rightarrow> duration" where
  "from_secs s = s * 1000000000"

definition from_millis :: "nat \<Rightarrow> duration" where
  "from_millis s = s * 1000000"

definition as_secs_f64 :: "duration \<Rightarrow> real" where
  "as_secs_f64 d = real d / 1000000000"

lemma u64_max_pow: "u64_max = 2 ^ 64 - 1"
  by (simp add: u64_max_def)

lemma unat_inverse: "word_of_nat (unat (w::'a::len word)) = w"
  by simp

lemma unat_inj_iff: "unat (a::'a::len word) = unat b \<longleftrightarrow> a = b"
  by (metis unat_inverse)

lemma unat_less_power: "unat (w::'a::len word) < 2 ^ LENGTH('a)"
  by (rule unsigned_less)

lemma saturating_add_le [simp]: "saturating_add a b \<le> u64_max"
  by (simp add: saturating_add_def)

lemma saturating_add_exact: "a + b \<le> u64_max \<Longrightarrow> saturating_add a b = a + b"
  by (simp add: saturating_add_def)

lemma saturating_add_mono: "a \<le> a' \<Longrightarrow> b \<le> b' \<Longrightarrow> saturating_add a b \<le> saturating_add a' b'"
  by (auto simp: saturating_add_def)

lemma as_secs_f64_nonneg [simp]: "0 \<le> as_secs_f64 d"
  by (simp add: as_secs_f64_def)

lemma as_secs_f64_pos_iff [simp]: "0 < as_secs_f64 d \<longleftrightarrow> 0 < d"
  by (simp add: as_secs_f64_def)

lemma as_secs_f64_0 [simp]: "as_secs_f64 0 = 0"
  by (simp add: as_secs_f64_def)

lemma as_secs_f64_mono: "a \<le> b \<Longrightarrow> as_secs_f64 a \<le> as_secs_f64 b"
  by (simp add: as_secs_f64_def divide_right_mono)

lemma as_secs_f64_diff:
  assumes "a \<le> b" and "b \<le> c"
  shows "as_secs_f64 (c - a) = as_secs_f64 (c - b) + as_secs_f64 (b - a)"
proof -
  have "c - a = (c - b) + (b - a)" using assms by simp
  then show ?thesis
    by (simp add: as_secs_f64_def add_divide_distrib)
qed

section \<open>Hash maps\<close>

type_synonym ('k, 'v) hmap = "('k \<times> 'v) list"

abbreviation hupd :: "'k \<Rightarrow> 'v \<Rightarrow> ('k, 'v) hmap \<Rightarrow> ('k, 'v) hmap" where
  "hupd \<equiv> AList.update"

abbreviation hdel :: "'k \<Rightarrow> ('k, 'v) hmap \<Rightarrow> ('k, 'v) hmap" where
  "hdel \<equiv> AList.delete"

definition hm_wf :: "('k, 'v) hmap \<Rightarrow> bool" where
  "hm_wf m \<longleftrightarrow> distinct (map fst m)"

definition hretain :: "('k \<Rightarrow> 'v \<Rightarrow> bool) \<Rightarrow> ('k, 'v) hmap \<Rightarrow> ('k, 'v) hmap" where
  "hretain P m = filter (\<lambda>(k, v). P k v) m"

definition get_or_default :: "'v \<Rightarrow> ('k, 'v) hmap \<Rightarrow> 'k \<Rightarrow> 'v" where
  "get_or_default d m k = (case map_of m k of None \<Rightarrow> d | Some v \<Rightarrow> v)"

lemma hm_wf_Nil [simp, hmap_simps]: "hm_wf []"
  by (simp add: hm_wf_def)

lemma hm_wf_hupd [simp, hmap_simps]: "hm_wf m \<Longrightarrow> hm_wf (hupd k v m)"
  by (simp add: hm_wf_def distinct_update)

lemma hm_wf_hdel [simp, hmap_simps]: "hm_wf m \<Longrightarrow> hm_wf (hdel k m)"
  by (simp add: hm_wf_def distinct_delete)

lemma hm_wf_hretain [simp, hmap_simps]: "hm_wf m \<Longrightarrow> hm_wf (hretain P m)"
  unfolding hm_wf_def hretain_def by (induction m) auto

lemma map_of_hupd [simp, hmap_simps]: "map_of (hupd k v m) = (map_of m)(k \<mapsto> v)"
  by (rule update_conv')

lemma map_of_hdel [simp, hmap_simps]: "map_of (hdel k m) = (map_of m)(k := None)"
  by (rule delete_conv')

lemma map_of_hretain [hmap_simps]:
  "hm_wf m \<Longrightarrow>
   map_of (hretain P m) k =
     (case map_of m k of None \<Rightarrow> None | Some v \<Rightarrow> if P k v then Some v else None)"
proof (induction m)
  case Nil
  then show ?case by (simp add: hretain_def)
next
  case (Cons p m)
  obtain a b where p: "p = (a, b)" by (cases p)
  from Cons.prems have "map_of m a = None"
    by (auto simp: hm_wf_def p map_of_eq_None_iff)
  with Cons show ?case
    by (auto simp: hretain_def hm_wf_def p split: option.splits)
qed

lemma hretain_subset: "set (hretain P m) \<subseteq> set m"
  by (auto simp: hretain_def)

lemma length_hretain_le [simp, hmap_simps]: "length (hretain P m) \<le> length m"
  by (simp add: hretain_def)

lemma length_hupd [hmap_simps]:
  "length (hupd k v m) = (case map_of m k of None \<Rightarrow> Suc (length m) | Some _ \<Rightarrow> length m)"
  by (induction m) (auto split: option.splits)

lemma length_hdel_le [simp, hmap_simps]: "length (hdel k m) \<le> length m"
  by (rule length_delete_le)

lemma hdel_filter: "hdel k m = filter (\<lambda>p. fst p \<noteq> k) m"
  by (induction m) auto

lemma length_hdel [hmap_simps]:
  "hm_wf m \<Longrightarrow> length (hdel k m) = (case map_of m k of None \<Rightarrow> length m | Some _ \<Rightarrow> length m - 1)"
proof (induction m)
  case Nil
  then show ?case by simp
next
  case (Cons p m)
  show ?case
  proof (cases "fst p = k")
    case True
    with Cons.prems have "k \<notin> fst ` set m" by (simp add: hm_wf_def)
    then have "hdel k m = m" by simp
    with True show ?thesis by (cases p) simp
  next
    case False
    with Cons show ?thesis
      by (cases p) (auto simp: hm_wf_def split: option.splits dest: map_of_SomeD
          intro!: Suc_pred length_pos_if_in_set)
  qed
qed

lemma map_of_Some_in_set: "map_of m k = Some v \<Longrightarrow> (k, v) \<in> set m"
  by (rule map_of_SomeD)

lemma hm_wf_map_of_iff: "hm_wf m \<Longrightarrow> map_of m k = Some v \<longleftrightarrow> (k, v) \<in> set m"
  by (simp add: hm_wf_def)

lemma map_of_all_None: "(\<And>k. map_of m k = None) \<Longrightarrow> m = []"
  by (cases m) (auto simp: map_of_eq_None_iff, metis option.distinct(1))

lemma hm_wf_card_dom: "hm_wf m \<Longrightarrow> card (dom (map_of m)) = length m"
  by (simp add: hm_wf_def dom_map_of_conv_image_fst distinct_card flip: set_map)

lemma hm_wf_length_le:
  assumes "hm_wf m" and "finite A" and "dom (map_of m) \<subseteq> A"
  shows "length m \<le> card A"
  using assms card_mono hm_wf_card_dom by metis

lemma get_or_default_hupd [simp]:
  "get_or_default d (hupd k v m) k' = (if k' = k then v else get_or_default d m k')"
  by (simp add: get_or_default_def)

lemma get_or_default_hdel [simp]:
  "get_or_default d (hdel k m) k' = (if k' = k then d else get_or_default d m k')"
  by (simp add: get_or_default_def)

lemma get_or_default_Nil [simp]: "get_or_default d [] k = d"
  by (simp add: get_or_default_def)

lemma filter_same_length: "length (filter P xs) = length xs \<Longrightarrow> filter P xs = xs"
proof (induction xs)
  case (Cons x xs)
  then show ?case
    using length_filter_le[of P xs] by (cases "P x") simp_all
qed simp

section \<open>Results\<close>

text \<open>A \<open>Result\<close> is a sum with the error on the left.\<close>

abbreviation is_ok :: "'e + 'a \<Rightarrow> bool" where
  "is_ok r \<equiv> \<not> isl r"

lemma option_case_bool_iff:
  "(case x of None \<Rightarrow> False | Some y \<Rightarrow> P y) \<longleftrightarrow> (\<exists>y. x = Some y \<and> P y)"
  by (cases x) auto

end
