(* ===== verification/L4_Counters.thy ===== *)
theory L4_Counters
  imports Prelude
begin

text \<open>
  The limits and the drop / event counters of \<open>crates/jkbase-proxy/src/l4_plane.rs\<close>:
  \<open>L4PlaneLimits\<close>, \<open>DropReason\<close>, \<open>L4Event\<close>, \<open>L4Counters\<close> and its atomic mirror. A counter is a
  \<open>u64\<close>, so \<open>fetch_add\<close> wraps. The lemmas show that no counted drop is lost between two drains.
\<close>

section \<open>Plane limits\<close>

record l4_plane_limits =
  wake_rate_burst :: nat
  wake_rate_refill_per_sec :: real
  wake_budget :: nat
  wake_fair_share :: nat
  global_warm_ceiling :: nat
  host_ram_reserve_mib :: nat
  flow_per_project_max :: nat
  flow_global_max :: nat
  flow_global_fair_share :: nat
  egress_per_project_bps :: nat
  egress_per_24_bps :: nat
  egress_global_bps :: nat
  c0_bytes :: nat
  c0_grant_per_sec_global :: real
  per_victim_bps :: nat
  per_victim_burst :: nat
  default_per_source_bps :: nat
  default_per_source_burst :: nat
  source_map_max :: nat

definition default_limits :: l4_plane_limits where
  "default_limits =
     \<lparr>wake_rate_burst = 5, wake_rate_refill_per_sec = 1 / 2, wake_budget = 16, wake_fair_share = 4,
      global_warm_ceiling = 32, host_ram_reserve_mib = 512, flow_per_project_max = 256,
      flow_global_max = 4096, flow_global_fair_share = 512,
      egress_per_project_bps = 16 * 1024 * 1024, egress_per_24_bps = 8 * 1024 * 1024,
      egress_global_bps = 64 * 1024 * 1024, c0_bytes = 1500, c0_grant_per_sec_global = 500,
      per_victim_bps = 1024 * 1024, per_victim_burst = 64 * 1024,
      default_per_source_bps = 1024 * 1024, default_per_source_burst = 64 * 1024,
      source_map_max = 65536\<rparr>"

record l4_port_egress_limits =
  per_source_bps :: nat
  per_source_burst :: nat
  per_project_bps :: nat

definition default_port_egress_limits :: "l4_plane_limits \<Rightarrow> l4_port_egress_limits" where
  "default_port_egress_limits lm =
     \<lparr>per_source_bps = default_per_source_bps lm, per_source_burst = default_per_source_burst lm,
      per_project_bps = egress_per_project_bps lm\<rparr>"

section \<open>Counters\<close>

datatype drop_reason =
    RateCap | BudgetFull | WarmFullGlobal | FlowFullProject | FlowFullGlobal | HeaderAuthFail
  | NonceReplay | StaleEpoch | UnknownFlow | EgressAmpClamp | EgressPerSource | EgressPerVictim
  | EgressPerProject | EgressPer24 | EgressGlobal | C0GrantRejected | ReplayBufferOverflow
  | EdgeBindEaddrinuse

datatype l4_event = WakeAdmitted | WakeCoalesced | Promotion | ProvisionalExpired | C0Grant

record l4_counters =
  c_rate_cap :: u64
  c_budget_full :: u64
  c_warm_full_global :: u64
  c_flow_full_project :: u64
  c_flow_full_global :: u64
  c_agent_map_full :: u64
  c_unknown_port :: u64
  c_header_auth_fail :: u64
  c_nonce_replay :: u64
  c_stale_epoch :: u64
  c_unknown_flow :: u64
  c_egress_amp_clamp :: u64
  c_egress_per_source :: u64
  c_egress_per_victim :: u64
  c_egress_per_project :: u64
  c_egress_per_24 :: u64
  c_egress_global :: u64
  c_c0_grant_rejected :: u64
  c_replay_buffer_overflow :: u64
  c_udp_readiness_timeout :: u64
  c_edge_bind_eaddrinuse :: u64
  c_wakes_admitted :: u64
  c_wakes_coalesced :: u64
  c_promotions :: u64
  c_provisional_expired :: u64
  c_c0_grants :: u64
  c_reflection_shape_flagged :: u64

definition drop_reasons :: "l4_counters \<Rightarrow> (string \<times> u64) list" where
  "drop_reasons c =
     [(''rate_cap'', c_rate_cap c), (''budget_full'', c_budget_full c),
      (''warm_full_global'', c_warm_full_global c), (''flow_full_project'', c_flow_full_project c),
      (''flow_full_global'', c_flow_full_global c), (''agent_map_full'', c_agent_map_full c),
      (''unknown_port'', c_unknown_port c), (''header_auth_fail'', c_header_auth_fail c),
      (''nonce_replay'', c_nonce_replay c), (''stale_epoch'', c_stale_epoch c),
      (''unknown_flow'', c_unknown_flow c), (''egress_amp_clamp'', c_egress_amp_clamp c),
      (''egress_per_source'', c_egress_per_source c), (''egress_per_victim'', c_egress_per_victim c),
      (''egress_per_project'', c_egress_per_project c), (''egress_per_24'', c_egress_per_24 c),
      (''egress_global'', c_egress_global c), (''c0_grant_rejected'', c_c0_grant_rejected c),
      (''replay_buffer_overflow'', c_replay_buffer_overflow c),
      (''udp_readiness_timeout'', c_udp_readiness_timeout c)]"

definition total_drops :: "l4_counters \<Rightarrow> u64" where
  "total_drops c = sum_list (map snd (drop_reasons c))"

text \<open>The proxy-side mirror, incremented on the hot path.\<close>

record atomic_counters =
  a_rate_cap :: u64
  a_budget_full :: u64
  a_warm_full_global :: u64
  a_flow_full_project :: u64
  a_flow_full_global :: u64
  a_header_auth_fail :: u64
  a_nonce_replay :: u64
  a_stale_epoch :: u64
  a_unknown_flow :: u64
  a_egress_amp_clamp :: u64
  a_egress_per_source :: u64
  a_egress_per_victim :: u64
  a_egress_per_project :: u64
  a_egress_per_24 :: u64
  a_egress_global :: u64
  a_c0_grant_rejected :: u64
  a_replay_buffer_overflow :: u64
  a_edge_bind_eaddrinuse :: u64
  a_wakes_admitted :: u64
  a_wakes_coalesced :: u64
  a_promotions :: u64
  a_provisional_expired :: u64
  a_c0_grants :: u64
  a_reflection_shape_flagged :: u64

definition atomic_counters_default :: atomic_counters where
  "atomic_counters_default =
     \<lparr>a_rate_cap = 0, a_budget_full = 0, a_warm_full_global = 0, a_flow_full_project = 0,
      a_flow_full_global = 0, a_header_auth_fail = 0, a_nonce_replay = 0, a_stale_epoch = 0,
      a_unknown_flow = 0, a_egress_amp_clamp = 0, a_egress_per_source = 0, a_egress_per_victim = 0,
      a_egress_per_project = 0, a_egress_per_24 = 0, a_egress_global = 0, a_c0_grant_rejected = 0,
      a_replay_buffer_overflow = 0, a_edge_bind_eaddrinuse = 0, a_wakes_admitted = 0,
      a_wakes_coalesced = 0, a_promotions = 0, a_provisional_expired = 0, a_c0_grants = 0,
      a_reflection_shape_flagged = 0\<rparr>"

definition counters_drain :: "atomic_counters \<Rightarrow> l4_counters \<times> atomic_counters" where
  "counters_drain a =
     (\<lparr>c_rate_cap = a_rate_cap a, c_budget_full = a_budget_full a,
       c_warm_full_global = a_warm_full_global a, c_flow_full_project = a_flow_full_project a,
       c_flow_full_global = a_flow_full_global a, c_agent_map_full = 0, c_unknown_port = 0,
       c_header_auth_fail = a_header_auth_fail a, c_nonce_replay = a_nonce_replay a,
       c_stale_epoch = a_stale_epoch a, c_unknown_flow = a_unknown_flow a,
       c_egress_amp_clamp = a_egress_amp_clamp a, c_egress_per_source = a_egress_per_source a,
       c_egress_per_victim = a_egress_per_victim a, c_egress_per_project = a_egress_per_project a,
       c_egress_per_24 = a_egress_per_24 a, c_egress_global = a_egress_global a,
       c_c0_grant_rejected = a_c0_grant_rejected a,
       c_replay_buffer_overflow = a_replay_buffer_overflow a, c_udp_readiness_timeout = 0,
       c_edge_bind_eaddrinuse = a_edge_bind_eaddrinuse a, c_wakes_admitted = a_wakes_admitted a,
       c_wakes_coalesced = a_wakes_coalesced a, c_promotions = a_promotions a,
       c_provisional_expired = a_provisional_expired a, c_c0_grants = a_c0_grants a,
       c_reflection_shape_flagged = a_reflection_shape_flagged a\<rparr>,
      atomic_counters_default)"

fun count_drop :: "drop_reason \<Rightarrow> atomic_counters \<Rightarrow> atomic_counters" where
  "count_drop RateCap a = a\<lparr>a_rate_cap := a_rate_cap a + 1\<rparr>"
| "count_drop BudgetFull a = a\<lparr>a_budget_full := a_budget_full a + 1\<rparr>"
| "count_drop WarmFullGlobal a = a\<lparr>a_warm_full_global := a_warm_full_global a + 1\<rparr>"
| "count_drop FlowFullProject a = a\<lparr>a_flow_full_project := a_flow_full_project a + 1\<rparr>"
| "count_drop FlowFullGlobal a = a\<lparr>a_flow_full_global := a_flow_full_global a + 1\<rparr>"
| "count_drop HeaderAuthFail a = a\<lparr>a_header_auth_fail := a_header_auth_fail a + 1\<rparr>"
| "count_drop NonceReplay a = a\<lparr>a_nonce_replay := a_nonce_replay a + 1\<rparr>"
| "count_drop StaleEpoch a = a\<lparr>a_stale_epoch := a_stale_epoch a + 1\<rparr>"
| "count_drop UnknownFlow a = a\<lparr>a_unknown_flow := a_unknown_flow a + 1\<rparr>"
| "count_drop EgressAmpClamp a = a\<lparr>a_egress_amp_clamp := a_egress_amp_clamp a + 1\<rparr>"
| "count_drop EgressPerSource a = a\<lparr>a_egress_per_source := a_egress_per_source a + 1\<rparr>"
| "count_drop EgressPerVictim a = a\<lparr>a_egress_per_victim := a_egress_per_victim a + 1\<rparr>"
| "count_drop EgressPerProject a = a\<lparr>a_egress_per_project := a_egress_per_project a + 1\<rparr>"
| "count_drop EgressPer24 a = a\<lparr>a_egress_per_24 := a_egress_per_24 a + 1\<rparr>"
| "count_drop EgressGlobal a = a\<lparr>a_egress_global := a_egress_global a + 1\<rparr>"
| "count_drop C0GrantRejected a = a\<lparr>a_c0_grant_rejected := a_c0_grant_rejected a + 1\<rparr>"
| "count_drop ReplayBufferOverflow a = a\<lparr>a_replay_buffer_overflow := a_replay_buffer_overflow a + 1\<rparr>"
| "count_drop EdgeBindEaddrinuse a = a\<lparr>a_edge_bind_eaddrinuse := a_edge_bind_eaddrinuse a + 1\<rparr>"

fun count_event :: "l4_event \<Rightarrow> atomic_counters \<Rightarrow> atomic_counters" where
  "count_event WakeAdmitted a = a\<lparr>a_wakes_admitted := a_wakes_admitted a + 1\<rparr>"
| "count_event WakeCoalesced a = a\<lparr>a_wakes_coalesced := a_wakes_coalesced a + 1\<rparr>"
| "count_event Promotion a = a\<lparr>a_promotions := a_promotions a + 1\<rparr>"
| "count_event ProvisionalExpired a = a\<lparr>a_provisional_expired := a_provisional_expired a + 1\<rparr>"
| "count_event C0Grant a = a\<lparr>a_c0_grants := a_c0_grants a + 1\<rparr>"

section \<open>No drop is lost\<close>

definition drained_drops :: "atomic_counters \<Rightarrow> u64" where
  "drained_drops a = total_drops (fst (counters_drain a))"

lemma drained_drops_count:
  "drained_drops (count_drop r a) = drained_drops a + (if r = EdgeBindEaddrinuse then 0 else 1)"
  by (cases r)
    (simp_all add: drained_drops_def total_drops_def drop_reasons_def counters_drain_def)

lemma drained_drops_event: "drained_drops (count_event e a) = drained_drops a"
  by (cases e)
    (simp_all add: drained_drops_def total_drops_def drop_reasons_def counters_drain_def)

lemma drained_drops_default [simp]: "drained_drops atomic_counters_default = 0"
  by (simp add: drained_drops_def total_drops_def drop_reasons_def counters_drain_def
      atomic_counters_default_def)

text \<open>What the pump reports between two metering ticks, in order.\<close>

datatype counter_op = CountDrop drop_reason | CountEvent l4_event

fun counter_step :: "counter_op \<Rightarrow> atomic_counters \<Rightarrow> atomic_counters" where
  "counter_step (CountDrop r) a = count_drop r a"
| "counter_step (CountEvent e) a = count_event e a"

fun is_datagram_drop :: "counter_op \<Rightarrow> bool" where
  "is_datagram_drop (CountDrop r) = (r \<noteq> EdgeBindEaddrinuse)"
| "is_datagram_drop (CountEvent e) = False"

lemma drained_drops_fold:
  "drained_drops (fold counter_step ops a)
     = drained_drops a + of_nat (length (filter is_datagram_drop ops))"
proof (induction ops arbitrary: a)
  case (Cons x ops)
  then show ?case
    by (cases x) (simp_all add: drained_drops_count drained_drops_event)
qed simp

text \<open>
  A metering tick reports every dropped datagram: the total of all drop reasons drained
  after any sequence of counted drops and events equals the number of datagram drops counted
  since the last drain (modulo \<open>2 ^ 64\<close>; a failed port bind is not a datagram drop), and the
  drain leaves every counter at zero.
\<close>

theorem drain_reports_every_drop:
  "total_drops (fst (counters_drain (fold counter_step ops (snd (counters_drain a)))))
     = of_nat (length (filter is_datagram_drop ops))"
  using drained_drops_fold[of ops atomic_counters_default]
  by (simp add: counters_drain_def[of a]) (simp add: drained_drops_def)

end
