(* ===== verification/L4_Flows.thy ===== *)
theory L4_Flows
  imports L4_Counters "HOL-Library.Multiset"
begin

text \<open>
  The flow accounting of \<open>crates/jkbase-proxy/src/l4_plane.rs\<close>: \<open>FlowState\<close>,
  \<open>try_reserve_flow\<close>, \<open>try_establish\<close> and the drops of \<open>FlowReservation\<close> and \<open>L4FlowGuard\<close>.
  A reservation or guard is the pair of its base project and owning tenant (the plane pointer
  is the state itself).

  The abstract specification is two multisets of base projects: the reservations held and the
  guards held. \<open>flows_rel\<close> says the code's counters and maps are exactly the counts of those
  multisets; every operation preserves it, and the caps of the limits hold in every reachable
  state.
\<close>

section \<open>State and operations\<close>

record base_flows =
  bf_total :: nat
  bf_established :: nat

record flow_state =
  fs_by_base :: "(string, base_flows) hmap"
  fs_global_total :: nat
  fs_tenant_total :: "(string, nat) hmap"
  fs_tenant_established :: "(string, string set) hmap"

type_synonym flow_reservation = "string \<times> string option"
type_synonym l4_flow_guard = "string \<times> string option"

datatype reserve_reject = RejProject | RejGlobal | RejWarmCeiling | RejRam

definition flow_state_default :: flow_state where
  "flow_state_default =
     \<lparr>fs_by_base = [], fs_global_total = 0, fs_tenant_total = [], fs_tenant_established = []\<rparr>"

definition EST_VM_BOOT_MIB :: nat where
  "EST_VM_BOOT_MIB = 512"

definition ram_floor_ok :: "nat option \<Rightarrow> nat \<Rightarrow> nat \<Rightarrow> bool" where
  "ram_floor_ok mem_mib inflight_boots reserve_mib =
     (case mem_mib of
        Some m \<Rightarrow> m - inflight_boots * EST_VM_BOOT_MIB \<ge> reserve_mib
      | None \<Rightarrow> True)"

definition conn_count :: "flow_state \<Rightarrow> string \<Rightarrow> nat" where
  "conn_count fs base =
     (case map_of (fs_by_base fs) base of None \<Rightarrow> 0 | Some b \<Rightarrow> bf_established b)"

definition base_total :: "flow_state \<Rightarrow> string \<Rightarrow> nat" where
  "base_total fs base =
     (case map_of (fs_by_base fs) base of None \<Rightarrow> 0 | Some b \<Rightarrow> bf_total b)"

definition tenant_total_of :: "flow_state \<Rightarrow> string option \<Rightarrow> nat" where
  "tenant_total_of fs tenant =
     (case tenant of None \<Rightarrow> 0 | Some t \<Rightarrow> get_or_default 0 (fs_tenant_total fs) t)"

definition bump_tenant :: "string option \<Rightarrow> (string, nat) hmap \<Rightarrow> (string, nat) hmap" where
  "bump_tenant tenant m =
     (case tenant of None \<Rightarrow> m | Some t \<Rightarrow> hupd t (get_or_default 0 m t + 1) m)"

definition unbump_tenant :: "string option \<Rightarrow> (string, nat) hmap \<Rightarrow> (string, nat) hmap" where
  "unbump_tenant tenant m =
     (case tenant of None \<Rightarrow> m
      | Some t \<Rightarrow>
          (case map_of m t of None \<Rightarrow> m
           | Some n \<Rightarrow> if n - 1 = 0 then hdel t m else hupd t (n - 1) m))"

definition try_reserve_flow ::
  "l4_plane_limits \<Rightarrow> nat option \<Rightarrow> nat \<Rightarrow> string \<Rightarrow> string option \<Rightarrow> flow_state
   \<Rightarrow> (reserve_reject + flow_reservation) \<times> flow_state" where
  "try_reserve_flow lm mem_mib inflight base tenant fs =
     (let new_base = map_of (fs_by_base fs) base = None
      in if new_base \<and> length (fs_by_base fs) \<ge> global_warm_ceiling lm
         then (Inl RejWarmCeiling, fs)
         else if new_base \<and> \<not> ram_floor_ok mem_mib inflight (host_ram_reserve_mib lm)
         then (Inl RejRam, fs)
         else if base_total fs base \<ge> flow_per_project_max lm
         then (Inl RejProject, fs)
         else if fs_global_total fs \<ge> flow_global_max lm
         then (Inl RejGlobal, fs)
         else if tenant \<noteq> None \<and> tenant_total_of fs tenant \<ge> flow_global_fair_share lm
         then (Inl RejGlobal, fs)
         else
           (let bf = (case map_of (fs_by_base fs) base of
                        None \<Rightarrow> \<lparr>bf_total = 0, bf_established = 0\<rparr> | Some b \<Rightarrow> b)
            in (Inr (base, tenant),
                fs\<lparr>fs_by_base := hupd base (bf\<lparr>bf_total := bf_total bf + 1\<rparr>) (fs_by_base fs),
                   fs_global_total := fs_global_total fs + 1,
                   fs_tenant_total := bump_tenant tenant (fs_tenant_total fs)\<rparr>)))"

definition per_tenant_warm_share :: "l4_plane_limits \<Rightarrow> nat" where
  "per_tenant_warm_share lm =
     (let budget = max (wake_budget lm) 1
      in min (max (global_warm_ceiling lm * wake_fair_share lm div budget) 1)
           (global_warm_ceiling lm))"

definition tenant_held :: "flow_state \<Rightarrow> string \<Rightarrow> nat" where
  "tenant_held fs t =
     (case map_of (fs_tenant_established fs) t of None \<Rightarrow> 0 | Some s \<Rightarrow> card s)"

definition try_establish ::
  "l4_plane_limits \<Rightarrow> string \<Rightarrow> string option \<Rightarrow> flow_state \<Rightarrow> l4_flow_guard option \<times> flow_state" where
  "try_establish lm base tenant fs =
     (case map_of (fs_by_base fs) base of
        None \<Rightarrow> (None, fs)
      | Some b \<Rightarrow>
          (if bf_established b = 0 \<and>
              (case tenant of None \<Rightarrow> False
               | Some t \<Rightarrow> tenant_held fs t \<ge> per_tenant_warm_share lm)
           then (None, fs)
           else (Some (base, tenant),
                 fs\<lparr>fs_by_base := hupd base (b\<lparr>bf_established := bf_established b + 1\<rparr>) (fs_by_base fs),
                    fs_tenant_established :=
                      (case tenant of None \<Rightarrow> fs_tenant_established fs
                       | Some t \<Rightarrow> hupd t
                           (insert base (get_or_default {} (fs_tenant_established fs) t))
                           (fs_tenant_established fs))\<rparr>)))"

definition drop_flow_reservation :: "flow_reservation \<Rightarrow> flow_state \<Rightarrow> flow_state" where
  "drop_flow_reservation r fs =
     (let (base, tenant) = r;
          fs1 = (case map_of (fs_by_base fs) base of None \<Rightarrow> fs
                 | Some bf \<Rightarrow>
                     if bf_total bf - 1 = 0
                     then fs\<lparr>fs_by_base := hdel base (fs_by_base fs)\<rparr>
                     else fs\<lparr>fs_by_base := hupd base (bf\<lparr>bf_total := bf_total bf - 1\<rparr>) (fs_by_base fs)\<rparr>)
      in fs1\<lparr>fs_global_total := fs_global_total fs1 - 1,
             fs_tenant_total := unbump_tenant tenant (fs_tenant_total fs1)\<rparr>)"

definition drop_l4_flow_guard :: "l4_flow_guard \<Rightarrow> flow_state \<Rightarrow> flow_state" where
  "drop_l4_flow_guard g fs =
     (let (base, tenant) = g;
          (went_cold, fs1) =
            (case map_of (fs_by_base fs) base of
               Some bf \<Rightarrow>
                 if bf_established bf > 0
                 then (bf_established bf - 1 = 0,
                       fs\<lparr>fs_by_base := hupd base (bf\<lparr>bf_established := bf_established bf - 1\<rparr>)
                            (fs_by_base fs)\<rparr>)
                 else (False, fs)
             | None \<Rightarrow> (False, fs))
      in case tenant of
           Some t \<Rightarrow>
             (case map_of (fs_tenant_established fs1) t of
                Some s \<Rightarrow>
                  if went_cold
                  then (if s - {base} = {}
                        then fs1\<lparr>fs_tenant_established := hdel t (fs_tenant_established fs1)\<rparr>
                        else fs1\<lparr>fs_tenant_established := hupd t (s - {base}) (fs_tenant_established fs1)\<rparr>)
                  else fs1
              | None \<Rightarrow> fs1)
         | None \<Rightarrow> fs1)"

text \<open>Bases with an established flow that are not reflection-suspected.\<close>

definition warm_projects :: "flow_state \<Rightarrow> string set \<Rightarrow> string list" where
  "warm_projects fs suspected =
     filter (\<lambda>b. b \<notin> suspected)
       (map fst (filter (\<lambda>(_, b). bf_established b > 0) (fs_by_base fs)))"

section \<open>Refinement of the two multisets\<close>

text \<open>
  \<open>own\<close> gives the tenant that owns a base project: every port of a base is registered with the
  same owner.
\<close>

definition tenant_count :: "(string \<Rightarrow> string option) \<Rightarrow> string \<Rightarrow> string multiset \<Rightarrow> nat" where
  "tenant_count own t R = size (filter_mset (\<lambda>b. own b = Some t) R)"

definition tenant_bases :: "(string \<Rightarrow> string option) \<Rightarrow> string \<Rightarrow> string multiset \<Rightarrow> string set" where
  "tenant_bases own t G = {b \<in> set_mset G. own b = Some t}"

definition by_base_rel :: "(string, base_flows) hmap \<Rightarrow> string multiset \<Rightarrow> string multiset \<Rightarrow> bool" where
  "by_base_rel m R G \<longleftrightarrow> hm_wf m \<and>
     (\<forall>b. map_of m b =
        (if b \<in># R then Some \<lparr>bf_total = count R b, bf_established = count G b\<rparr> else None))"

definition tenant_total_rel ::
  "(string \<Rightarrow> string option) \<Rightarrow> (string, nat) hmap \<Rightarrow> string multiset \<Rightarrow> bool" where
  "tenant_total_rel own m R \<longleftrightarrow> hm_wf m \<and>
     (\<forall>t. map_of m t = (if tenant_count own t R = 0 then None else Some (tenant_count own t R)))"

definition tenant_est_rel ::
  "(string \<Rightarrow> string option) \<Rightarrow> (string, string set) hmap \<Rightarrow> string multiset \<Rightarrow> bool" where
  "tenant_est_rel own m G \<longleftrightarrow> hm_wf m \<and>
     (\<forall>t. map_of m t = (if tenant_bases own t G = {} then None else Some (tenant_bases own t G)))"

definition flows_rel ::
  "(string \<Rightarrow> string option) \<Rightarrow> flow_state \<Rightarrow> string multiset \<Rightarrow> string multiset \<Rightarrow> bool" where
  "flows_rel own fs R G \<longleftrightarrow> by_base_rel (fs_by_base fs) R G \<and> fs_global_total fs = size R
     \<and> tenant_total_rel own (fs_tenant_total fs) R
     \<and> tenant_est_rel own (fs_tenant_established fs) G \<and> G \<subseteq># R"

lemmas flows_rel_defs = flows_rel_def by_base_rel_def tenant_total_rel_def tenant_est_rel_def

lemma flows_rel_default: "flows_rel own flow_state_default {#} {#}"
  by (simp add: flows_rel_defs flow_state_default_def tenant_count_def tenant_bases_def)

lemma tenant_count_add [simp]:
  "tenant_count own t (add_mset b R) = tenant_count own t R + (if own b = Some t then 1 else 0)"
  by (simp add: tenant_count_def)

lemma tenant_count_remove:
  "b \<in># R \<Longrightarrow> tenant_count own t (R - {#b#}) = tenant_count own t R - (if own b = Some t then 1 else 0)"
  by (simp add: tenant_count_def size_Diff_singleton)

lemma tenant_bases_add [simp]:
  "tenant_bases own t (add_mset b G)
     = (if own b = Some t then insert b (tenant_bases own t G) else tenant_bases own t G)"
  by (auto simp: tenant_bases_def)

lemma finite_tenant_bases [simp]: "finite (tenant_bases own t G)"
  by (simp add: tenant_bases_def)

lemma by_base_rel_length: "by_base_rel m R G \<Longrightarrow> length m = card (set_mset R)"
proof -
  assume m: "by_base_rel m R G"
  then have "dom (map_of m) = set_mset R"
    by (auto simp: by_base_rel_def dom_def split: if_splits)
  with m show ?thesis
    by (metis by_base_rel_def hm_wf_card_dom)
qed

lemma tenant_total_rel_get:
  "tenant_total_rel own m R \<Longrightarrow> get_or_default 0 m t = tenant_count own t R"
  by (simp add: tenant_total_rel_def get_or_default_def)

lemma tenant_total_rel_bump:
  "tenant_total_rel own m R \<Longrightarrow> tenant_total_rel own (bump_tenant (own b) m) (add_mset b R)"
  by (auto simp: tenant_total_rel_def bump_tenant_def get_or_default_def split: option.splits)

lemma tenant_total_rel_unbump:
  assumes "tenant_total_rel own m R" and "b \<in># R"
  shows "tenant_total_rel own (unbump_tenant (own b) m) (R - {#b#})"
proof (cases "own b")
  case None
  then show ?thesis
    using assms by (simp add: tenant_total_rel_def unbump_tenant_def tenant_count_remove)
next
  case (Some t)
  have "b \<in># filter_mset (\<lambda>b. own b = Some t) R" using assms(2) Some by simp
  then have pos: "tenant_count own t R \<noteq> 0"
    by (auto simp: tenant_count_def)
  then show ?thesis
    using assms Some by (auto simp: tenant_total_rel_def unbump_tenant_def tenant_count_remove)
qed

lemma tenant_est_rel_get: "tenant_est_rel own m G \<Longrightarrow> get_or_default {} m t = tenant_bases own t G"
  by (simp add: tenant_est_rel_def get_or_default_def)

lemma tenant_held_eq: "flows_rel own fs R G \<Longrightarrow> tenant_held fs t = card (tenant_bases own t G)"
  by (simp add: tenant_held_def flows_rel_defs)

lemma conn_count_eq: "flows_rel own fs R G \<Longrightarrow> conn_count fs b = count G b"
  using mset_subset_eq_count[of G R b] by (auto simp: conn_count_def flows_rel_defs not_in_iff)

lemma base_total_eq: "flows_rel own fs R G \<Longrightarrow> base_total fs b = count R b"
  by (simp add: base_total_def flows_rel_defs not_in_iff)

lemma by_base_rel_None: "by_base_rel m R G \<Longrightarrow> map_of m b = None \<longleftrightarrow> b \<notin># R"
  by (simp add: by_base_rel_def)

text \<open>Admission: the abstract condition under which a reservation is granted.\<close>

definition reserve_admissible ::
  "l4_plane_limits \<Rightarrow> nat option \<Rightarrow> nat \<Rightarrow> (string \<Rightarrow> string option) \<Rightarrow> string
   \<Rightarrow> string multiset \<Rightarrow> bool" where
  "reserve_admissible lm mem_mib inflight own b R \<longleftrightarrow>
     (b \<notin># R \<longrightarrow> card (set_mset R) < global_warm_ceiling lm
                 \<and> ram_floor_ok mem_mib inflight (host_ram_reserve_mib lm))
     \<and> count R b < flow_per_project_max lm \<and> size R < flow_global_max lm
     \<and> (\<forall>t. own b = Some t \<longrightarrow> tenant_count own t R < flow_global_fair_share lm)"

lemma try_reserve_flow_Inr:
  assumes "try_reserve_flow lm mem infl b tn fs = (Inr r, fs')"
  shows "fs' = (let bf = (case map_of (fs_by_base fs) b of
                        None \<Rightarrow> \<lparr>bf_total = 0, bf_established = 0\<rparr> | Some b \<Rightarrow> b)
            in fs\<lparr>fs_by_base := hupd b (bf\<lparr>bf_total := bf_total bf + 1\<rparr>) (fs_by_base fs),
                   fs_global_total := fs_global_total fs + 1,
                   fs_tenant_total := bump_tenant tn (fs_tenant_total fs)\<rparr>)"
  using assms by (simp add: try_reserve_flow_def Let_def split: if_splits)

lemma try_reserve_flow_rel:
  assumes "flows_rel own fs R G"
  shows "case try_reserve_flow lm mem infl b (own b) fs of
      (Inr r, fs') \<Rightarrow> r = (b, own b) \<and> reserve_admissible lm mem infl own b R
                    \<and> flows_rel own fs' (add_mset b R) G
    | (Inl _, fs') \<Rightarrow> fs' = fs \<and> \<not> reserve_admissible lm mem infl own b R"
proof -
  note r = assms[unfolded flows_rel_def]
  have len: "length (fs_by_base fs) = card (set_mset R)"
    using r by_base_rel_length by blast
  have adm: "fst (try_reserve_flow lm mem infl b (own b) fs) = Inr (b, own b)
      \<longleftrightarrow> reserve_admissible lm mem infl own b R"
    using r by_base_rel_None[of "fs_by_base fs" R G b] base_total_eq[OF assms, of b]
      tenant_total_rel_get[of own "fs_tenant_total fs" R]
    by (auto simp: try_reserve_flow_def Let_def reserve_admissible_def len tenant_total_of_def
        split: option.splits)
  show ?thesis
  proof (cases "reserve_admissible lm mem infl own b R")
    case False
    with adm show ?thesis
      by (auto simp: try_reserve_flow_def Let_def split: if_splits)
  next
    case True
    define fs' where "fs' = snd (try_reserve_flow lm mem infl b (own b) fs)"
    have G0: "count R b = 0 \<and> count G b = 0" if "b \<notin># R"
      using r mset_subset_eq_count[of G R b] that by (simp add: not_in_iff)
    have fst: "fst (try_reserve_flow lm mem infl b (own b) fs) = Inr (b, own b)"
      using adm True by simp
    then have eq: "try_reserve_flow lm mem infl b (own b) fs = (Inr (b, own b), fs')"
      by (metis fs'_def prod.collapse)
    have look: "map_of (fs_by_base fs) b
        = (if b \<in># R then Some \<lparr>bf_total = count R b, bf_established = count G b\<rparr> else None)"
      using r by (simp add: by_base_rel_def)
    have fs': "fs' = fs\<lparr>fs_by_base := hupd b \<lparr>bf_total = Suc (count R b), bf_established = count G b\<rparr>
            (fs_by_base fs),
          fs_global_total := fs_global_total fs + 1,
          fs_tenant_total := bump_tenant (own b) (fs_tenant_total fs)\<rparr>"
      using try_reserve_flow_Inr[OF eq] G0 look by (simp add: Let_def)
    have "flows_rel own fs' (add_mset b R) G"
      unfolding flows_rel_def
    proof (intro conjI)
      show "by_base_rel (fs_by_base fs') (add_mset b R) G"
        using r by (auto simp: fs' by_base_rel_def)
      show "tenant_total_rel own (fs_tenant_total fs') (add_mset b R)"
        using r by (simp add: fs' tenant_total_rel_bump)
      show "G \<subseteq># add_mset b R"
        using r by (metis add_mset_add_single mset_subset_eq_add_left subset_mset.order_trans)
    qed (use r in \<open>simp_all add: fs'\<close>)
    with fst True show ?thesis
      by (cases "try_reserve_flow lm mem infl b (own b) fs") (auto simp: fs'_def)
  qed
qed

text \<open>
  Promotion: granted unless the base has no reservation, or it would make a base warm for a
  tenant already at its share.
\<close>

definition establish_admissible ::
  "l4_plane_limits \<Rightarrow> (string \<Rightarrow> string option) \<Rightarrow> string \<Rightarrow> string multiset \<Rightarrow> string multiset \<Rightarrow> bool" where
  "establish_admissible lm own b R G \<longleftrightarrow> b \<in># R \<and>
     (b \<notin># G \<longrightarrow> (\<forall>t. own b = Some t \<longrightarrow> card (tenant_bases own t G) < per_tenant_warm_share lm))"

lemma tenant_est_rel_insert:
  "tenant_est_rel own m G \<Longrightarrow>
   tenant_est_rel own
     (case own b of None \<Rightarrow> m | Some t \<Rightarrow> hupd t (insert b (get_or_default {} m t)) m) (add_mset b G)"
  by (auto simp: tenant_est_rel_def get_or_default_def split: option.splits)

lemma try_establish_rel:
  assumes "flows_rel own fs R G" and "count G b < count R b"
  shows "case try_establish lm b (own b) fs of
      (Some g, fs') \<Rightarrow> g = (b, own b) \<and> establish_admissible lm own b R G
                    \<and> flows_rel own fs' R (add_mset b G)
    | (None, fs') \<Rightarrow> fs' = fs \<and> \<not> establish_admissible lm own b R G"
proof -
  note r = assms(1)[unfolded flows_rel_def]
  have b: "b \<in># R" using assms(2) by (simp add: count_greater_zero_iff[symmetric] del: count_greater_zero_iff)
  then have look: "map_of (fs_by_base fs) b = Some \<lparr>bf_total = count R b, bf_established = count G b\<rparr>"
    using r by (simp add: by_base_rel_def)
  have held: "tenant_held fs t = card (tenant_bases own t G)" for t
    using assms(1) by (rule tenant_held_eq)
  define est where "est = (case own b of None \<Rightarrow> fs_tenant_established fs
      | Some t \<Rightarrow> hupd t (insert b (get_or_default {} (fs_tenant_established fs) t)) (fs_tenant_established fs))"
  define fs' where "fs' = fs\<lparr>fs_by_base := hupd b \<lparr>bf_total = count R b, bf_established = Suc (count G b)\<rparr>
      (fs_by_base fs), fs_tenant_established := est\<rparr>"
  have eq: "try_establish lm b (own b) fs =
      (if establish_admissible lm own b R G then (Some (b, own b), fs') else (None, fs))"
    using b by (auto simp: try_establish_def look held establish_admissible_def fs'_def est_def not_in_iff
        split: option.splits)
  have "flows_rel own fs' R (add_mset b G)"
    unfolding flows_rel_def
  proof (intro conjI)
    show "by_base_rel (fs_by_base fs') R (add_mset b G)"
      using r b by (auto simp: fs'_def by_base_rel_def)
    show "tenant_est_rel own (fs_tenant_established fs') (add_mset b G)"
      using r by (simp add: fs'_def est_def tenant_est_rel_insert)
    show "add_mset b G \<subseteq># R"
      using r assms(2) by (simp add: insert_subset_eq_iff subseteq_mset_def)
  qed (use r in \<open>simp_all add: fs'_def\<close>)
  then show ?thesis by (simp add: eq)
qed

lemma drop_flow_reservation_rel:
  assumes "flows_rel own fs R G" and "count G b < count R b"
  shows "flows_rel own (drop_flow_reservation (b, own b) fs) (R - {#b#}) G"
proof -
  note r = assms(1)[unfolded flows_rel_def]
  have b: "b \<in># R" using assms(2) by (simp add: count_greater_zero_iff[symmetric] del: count_greater_zero_iff)
  then have look: "map_of (fs_by_base fs) b = Some \<lparr>bf_total = count R b, bf_established = count G b\<rparr>"
    using r by (simp add: by_base_rel_def)
  define bb where "bb = (if count R b - 1 = 0 then hdel b (fs_by_base fs)
      else hupd b \<lparr>bf_total = count R b - 1, bf_established = count G b\<rparr> (fs_by_base fs))"
  have eq: "drop_flow_reservation (b, own b) fs =
      fs\<lparr>fs_by_base := bb, fs_global_total := fs_global_total fs - 1,
         fs_tenant_total := unbump_tenant (own b) (fs_tenant_total fs)\<rparr>"
    by (simp add: drop_flow_reservation_def look bb_def Let_def)
  have mem: "b' \<in># R - {#b#} \<longleftrightarrow> (if b' = b then count R b - 1 \<noteq> 0 else b' \<in># R)" for b'
    by (auto simp: count_greater_zero_iff[symmetric] simp del: count_greater_zero_iff)
  show ?thesis
    unfolding flows_rel_def
  proof (intro conjI)
    show "by_base_rel (fs_by_base (drop_flow_reservation (b, own b) fs)) (R - {#b#}) G"
      using r b unfolding eq by_base_rel_def by (auto simp: mem bb_def split: if_splits)
    show "tenant_total_rel own (fs_tenant_total (drop_flow_reservation (b, own b) fs)) (R - {#b#})"
      using r b by (simp add: eq tenant_total_rel_unbump)
    show "G \<subseteq># R - {#b#}"
      using r assms(2) by (auto simp: subseteq_mset_def)
    show "fs_global_total (drop_flow_reservation (b, own b) fs) = size (R - {#b#})"
      using r b by (simp add: eq size_Diff_singleton)
    show "tenant_est_rel own (fs_tenant_established (drop_flow_reservation (b, own b) fs)) G"
      using r by (simp add: eq)
  qed
qed

lemma drop_l4_flow_guard_rel:
  assumes "flows_rel own fs R G" and "b \<in># G"
  shows "flows_rel own (drop_l4_flow_guard (b, own b) fs) R (G - {#b#})"
proof -
  note r = assms(1)[unfolded flows_rel_def]
  have c: "0 < count G b" using assms(2) by simp
  have b: "b \<in># R" using r assms(2) by (meson mset_subset_eqD)
  then have look: "map_of (fs_by_base fs) b = Some \<lparr>bf_total = count R b, bf_established = count G b\<rparr>"
    using r by (simp add: by_base_rel_def)
  define cold where "cold \<longleftrightarrow> count G b - 1 = 0"
  define fs1 where "fs1 = fs\<lparr>fs_by_base := hupd b \<lparr>bf_total = count R b, bf_established = count G b - 1\<rparr>
      (fs_by_base fs)\<rparr>"
  have mem: "b' \<in># G - {#b#} \<longleftrightarrow> (if b' = b then \<not> cold else b' \<in># G)" for b'
    by (auto simp: cold_def count_greater_zero_iff[symmetric] simp del: count_greater_zero_iff)
  have bases: "tenant_bases own t (G - {#b#})
      = (if cold then tenant_bases own t G - {b} else tenant_bases own t G)" for t
    using assms(2) by (auto simp: tenant_bases_def mem)
  have lookt: "map_of (fs_tenant_established fs) t
      = (if tenant_bases own t G = {} then None else Some (tenant_bases own t G))" for t
    using r by (simp add: tenant_est_rel_def)
  have sub: "G - {#b#} \<subseteq># R" using r by (meson diff_subset_eq_self subset_mset.order_trans)
  have bb: "by_base_rel (fs_by_base fs1) R (G - {#b#})"
    using r b by (auto simp: fs1_def by_base_rel_def)
  show ?thesis
  proof (cases "own b")
    case None
    have "drop_l4_flow_guard (b, own b) fs = fs1"
      using c by (simp add: drop_l4_flow_guard_def look None fs1_def)
    moreover have "b \<notin> tenant_bases own t G" for t by (simp add: tenant_bases_def None)
    ultimately show ?thesis
      using r bb sub by (simp add: flows_rel_def tenant_est_rel_def bases) (simp add: fs1_def)
  next
    case (Some t)
    have ne: "tenant_bases own t G \<noteq> {}" using assms(2) Some by (auto simp: tenant_bases_def)
    have eq: "drop_l4_flow_guard (b, own b) fs =
        (if \<not> cold then fs1
         else if tenant_bases own t G - {b} = {}
              then fs1\<lparr>fs_tenant_established := hdel t (fs_tenant_established fs)\<rparr>
              else fs1\<lparr>fs_tenant_established := hupd t (tenant_bases own t G - {b}) (fs_tenant_established fs)\<rparr>)"
      using c ne by (simp add: drop_l4_flow_guard_def look Some fs1_def cold_def lookt)
    have notin: "b \<notin> tenant_bases own t' G" if "t' \<noteq> t" for t'
      using that by (simp add: tenant_bases_def Some)
    have "tenant_est_rel own (fs_tenant_established (drop_l4_flow_guard (b, own b) fs)) (G - {#b#})"
      using r ne notin unfolding eq tenant_est_rel_def by (auto simp: bases fs1_def)
    then show ?thesis
      using r bb sub unfolding flows_rel_def by (auto simp: eq fs1_def)
  qed
qed

section \<open>Every interleaving of reservations, promotions and evictions\<close>

text \<open>
  The states the flow table can reach: ports reserve, promote and evict flows in any order, for
  any projects and any memory readings. A promotion is attempted for a live provisional flow (a
  reservation of the base without a guard); an evicted flow drops its guard before its
  reservation, as the field order of \<open>Flow\<close> makes it.
\<close>

type_synonym flow_conf = "flow_state \<times> string multiset \<times> string multiset"

inductive flow_step :: "l4_plane_limits \<Rightarrow> (string \<Rightarrow> string option) \<Rightarrow> flow_conf \<Rightarrow> flow_conf \<Rightarrow> bool"
  for lm own where
  reserve: "try_reserve_flow lm mem infl b (own b) fs = (Inr r, fs') \<Longrightarrow>
     flow_step lm own (fs, R, G) (fs', add_mset b R, G)"
| reserve_refused: "try_reserve_flow lm mem infl b (own b) fs = (Inl e, fs') \<Longrightarrow>
     flow_step lm own (fs, R, G) (fs', R, G)"
| establish: "count G b < count R b \<Longrightarrow> try_establish lm b (own b) fs = (Some g, fs') \<Longrightarrow>
     flow_step lm own (fs, R, G) (fs', R, add_mset b G)"
| establish_refused: "count G b < count R b \<Longrightarrow> try_establish lm b (own b) fs = (None, fs') \<Longrightarrow>
     flow_step lm own (fs, R, G) (fs', R, G)"
| drop_guard: "b \<in># G \<Longrightarrow>
     flow_step lm own (fs, R, G) (drop_l4_flow_guard (b, own b) fs, R, G - {#b#})"
| drop_reservation: "count G b < count R b \<Longrightarrow>
     flow_step lm own (fs, R, G) (drop_flow_reservation (b, own b) fs, R - {#b#}, G)"

inductive flow_reachable :: "l4_plane_limits \<Rightarrow> (string \<Rightarrow> string option) \<Rightarrow> flow_conf \<Rightarrow> bool"
  for lm own where
  start: "flow_reachable lm own (flow_state_default, {#}, {#})"
| step: "flow_reachable lm own s \<Longrightarrow> flow_step lm own s s' \<Longrightarrow> flow_reachable lm own s'"

definition flow_caps ::
  "l4_plane_limits \<Rightarrow> (string \<Rightarrow> string option) \<Rightarrow> string multiset \<Rightarrow> string multiset \<Rightarrow> bool" where
  "flow_caps lm own R G \<longleftrightarrow> size R \<le> flow_global_max lm \<and> (\<forall>b. count R b \<le> flow_per_project_max lm)
     \<and> (\<forall>t. tenant_count own t R \<le> flow_global_fair_share lm)
     \<and> card (set_mset R) \<le> global_warm_ceiling lm
     \<and> (\<forall>t. card (tenant_bases own t G) \<le> per_tenant_warm_share lm)"

lemma flow_caps_reserve:
  assumes "flow_caps lm own R G" and "reserve_admissible lm mem infl own b R"
  shows "flow_caps lm own (add_mset b R) G"
  using assms by (auto simp: flow_caps_def reserve_admissible_def card_insert_if Suc_le_eq)

lemma flow_caps_establish:
  assumes "flow_caps lm own R G" and "establish_admissible lm own b R G"
  shows "flow_caps lm own R (add_mset b G)"
proof -
  have "card (insert b (tenant_bases own t G)) \<le> per_tenant_warm_share lm" if "own b = Some t" for t
  proof (cases "b \<in># G")
    case True
    then have "b \<in> tenant_bases own t G" using that by (simp add: tenant_bases_def)
    then show ?thesis using assms(1) by (simp add: insert_absorb flow_caps_def)
  next
    case False
    then show ?thesis
      using assms(2) that by (auto simp: establish_admissible_def card_insert_if Suc_le_eq
          intro: less_imp_le)
  qed
  then show ?thesis using assms(1) by (simp add: flow_caps_def)
qed

lemma flow_caps_mono:
  assumes "flow_caps lm own R G" and "R' \<subseteq># R" and "G' \<subseteq># G"
  shows "flow_caps lm own R' G'"
proof -
  have "size R' \<le> size R" using assms(2) by (rule size_mset_mono)
  moreover have "count R' b \<le> count R b" for b using assms(2) by (simp add: subseteq_mset_def)
  moreover have "tenant_count own t R' \<le> tenant_count own t R" for t
    unfolding tenant_count_def by (rule size_mset_mono) (rule multiset_filter_mono[OF assms(2)])
  moreover have "card (set_mset R') \<le> card (set_mset R)"
    by (rule card_mono) (simp_all add: set_mset_mono[OF assms(2)])
  moreover have "card (tenant_bases own t G') \<le> card (tenant_bases own t G)" for t
    by (rule card_mono) (use set_mset_mono[OF assms(3)] in \<open>auto simp: tenant_bases_def\<close>)
  ultimately show ?thesis
    using assms(1) unfolding flow_caps_def by (meson le_trans)
qed

lemma flow_step_preserves:
  assumes "flow_step lm own s s'" and "s = (fs, R, G)" and "flows_rel own fs R G" and "flow_caps lm own R G"
  shows "case s' of (fs', R', G') \<Rightarrow> flows_rel own fs' R' G' \<and> flow_caps lm own R' G'"
  using assms
proof (induction rule: flow_step.induct)
  case (reserve mem infl b fs0 r fs' R0 G0)
  then show ?case
    using try_reserve_flow_rel[of own fs0 R0 G0 lm mem infl b] by (auto intro: flow_caps_reserve)
next
  case (reserve_refused mem infl b fs0 e fs' R0 G0)
  then show ?case using try_reserve_flow_rel[of own fs0 R0 G0 lm mem infl b] by auto
next
  case (establish G0 b R0 fs0 g fs')
  then show ?case using try_establish_rel[of own fs0 R0 G0 b lm] by (auto intro: flow_caps_establish)
next
  case (establish_refused G0 b R0 fs0 fs')
  then show ?case using try_establish_rel[of own fs0 R0 G0 b lm] by auto
next
  case (drop_guard b G0 fs0 R0)
  then show ?case
    by (auto intro: drop_l4_flow_guard_rel flow_caps_mono[OF _ subset_mset.order_refl diff_subset_eq_self])
next
  case (drop_reservation G0 b R0 fs0)
  then show ?case
    by (auto intro: drop_flow_reservation_rel flow_caps_mono[OF _ diff_subset_eq_self subset_mset.order_refl])
qed

lemma flow_reachable_inv:
  assumes "flow_reachable lm own s" and "s = (fs, R, G)"
  shows "flows_rel own fs R G \<and> flow_caps lm own R G"
  using assms
proof (induction arbitrary: fs R G rule: flow_reachable.induct)
  case start
  then show ?case
    by (auto simp: flows_rel_default flow_caps_def tenant_count_def tenant_bases_def)
next
  case (step s s')
  obtain fs0 R0 G0 where s: "s = (fs0, R0, G0)" by (cases s)
  then show ?case
    using flow_step_preserves[OF step.hyps(2) s] step.IH[OF s] step.prems by auto
qed

lemma flows_rel_empty:
  assumes "flows_rel own fs {#} G"
  shows "fs = flow_state_default"
proof -
  have "fs_by_base fs = []" "fs_tenant_total fs = []" "fs_tenant_established fs = []"
    using assms
    by (auto intro!: map_of_all_None simp: flows_rel_defs tenant_count_def tenant_bases_def)
  then show ?thesis
    using assms by (cases fs) (auto simp: flow_state_default_def flows_rel_def)
qed

text \<open>
  C25. The flow table counts exactly the reservations and guards that are held, under every
  interleaving: the per-base totals and the \<open>conn_count\<close> gauge are the numbers of outstanding
  reservations and guards of the base (so established is at most total), the global total is the
  number of reservations, and once the last reservation is dropped the table is empty again: no
  slot leaks.
\<close>

theorem flow_accounting_exact:
  assumes "flow_reachable lm own (fs, R, G)"
  shows "base_total fs b = count R b \<and> conn_count fs b = count G b \<and> conn_count fs b \<le> base_total fs b
    \<and> fs_global_total fs = size R \<and> (R = {#} \<longrightarrow> fs = flow_state_default)"
proof -
  have r: "flows_rel own fs R G" using flow_reachable_inv[OF assms refl] by simp
  then have "G \<subseteq># R" "fs_global_total fs = size R" by (simp_all add: flows_rel_def)
  then show ?thesis
    using base_total_eq[OF r] conn_count_eq[OF r] flows_rel_empty[of own fs G] r
    by (auto simp: mset_subset_eq_count)
qed

text \<open>A run used by the witnesses: project \<open>a\<close> of tenant \<open>t\<close> reserves a flow and promotes it.\<close>

definition run_own :: "string \<Rightarrow> string option" where
  "run_own b = (if b = ''a'' then Some ''t'' else None)"

definition run_fs1 :: flow_state where
  "run_fs1 = \<lparr>fs_by_base = [(''a'', \<lparr>bf_total = 1, bf_established = 0\<rparr>)], fs_global_total = 1,
     fs_tenant_total = [(''t'', 1)], fs_tenant_established = []\<rparr>"

definition run_fs2 :: flow_state where
  "run_fs2 = \<lparr>fs_by_base = [(''a'', \<lparr>bf_total = 1, bf_established = 1\<rparr>)], fs_global_total = 1,
     fs_tenant_total = [(''t'', 1)], fs_tenant_established = [(''t'', {''a''})]\<rparr>"

lemma run_reachable: "flow_reachable default_limits run_own (run_fs2, {#''a''#}, {#''a''#})"
proof -
  have "try_reserve_flow default_limits None 0 ''a'' (run_own ''a'') flow_state_default
      = (Inr (''a'', run_own ''a''), run_fs1)"
    by (simp add: try_reserve_flow_def flow_state_default_def default_limits_def run_own_def run_fs1_def
        ram_floor_ok_def base_total_def tenant_total_of_def bump_tenant_def get_or_default_def)
  then have "flow_reachable default_limits run_own (run_fs1, {#''a''#}, {#})"
    by (rule flow_reachable.step[OF flow_reachable.start flow_step.reserve])
  moreover have "try_establish default_limits ''a'' (run_own ''a'') run_fs1
      = (Some (''a'', run_own ''a''), run_fs2)"
    by (simp add: try_establish_def run_fs1_def run_fs2_def run_own_def tenant_held_def
        per_tenant_warm_share_def default_limits_def get_or_default_def)
  ultimately show ?thesis
    using flow_reachable.step[OF _ flow_step.establish] by fastforce
qed

theorem flow_accounting_exact_witness:
  "base_total run_fs2 ''a'' = 1 \<and> conn_count run_fs2 ''a'' = 1"
  using flow_accounting_exact[OF run_reachable, of "''a''"] by simp

text \<open>
  The caps of the plane limits hold in every reachable state: the flow table as a whole,
  each base project and each tenant stay within their flow caps, the number of distinct warm
  projects stays within the global ceiling, and the warm projects of one tenant within its fair
  share of that ceiling.
\<close>

theorem flow_caps_hold:
  assumes "flow_reachable lm own (fs, R, G)"
  shows "fs_global_total fs \<le> flow_global_max lm \<and> base_total fs b \<le> flow_per_project_max lm
    \<and> tenant_total_of fs (Some t) \<le> flow_global_fair_share lm
    \<and> length (fs_by_base fs) \<le> global_warm_ceiling lm \<and> tenant_held fs t \<le> per_tenant_warm_share lm"
proof -
  have r: "flows_rel own fs R G" and c: "flow_caps lm own R G"
    using flow_reachable_inv[OF assms refl] by simp_all
  have "tenant_total_of fs (Some t) = tenant_count own t R"
    using r by (simp add: tenant_total_of_def flows_rel_def tenant_total_rel_get)
  moreover have "length (fs_by_base fs) = card (set_mset R)" "fs_global_total fs = size R"
    using r by (auto simp: flows_rel_def by_base_rel_length)
  ultimately show ?thesis
    using c base_total_eq[OF r] tenant_held_eq[OF r] by (simp add: flow_caps_def)
qed

theorem flow_caps_hold_witness:
  "length (fs_by_base run_fs2) \<le> 32 \<and> tenant_held run_fs2 ''t'' \<le> 8"
  using flow_caps_hold[OF run_reachable, of "''a''" "''t''"]
  by (simp add: default_limits_def per_tenant_warm_share_def)

end
