(* ===== verification/L4_Egress.thy ===== *)
theory L4_Egress
  imports Prelude
begin

text \<open>
  The anti-reflection primitives of \<open>crates/jkbase-proxy/src/l4_egress.rs\<close>: \<open>TokenBucket\<close>
  (a rate cap), \<open>RatioCredit\<close> (the per-flow amplification clamp) and \<open>BoundedTtlMap\<close>
  (a cardinality-bounded map that refuses a newcomer instead of evicting a live entry).
  A method taking \<open>&mut self\<close> returns the new value beside its result.

  The lemmas show the rate bound of a bucket over any run (through the interface
  \<open>rate_limiter\<close>), the amplification bound of a flow, the fail-closed behaviour of the map,
  and that a map of buckets keeps each key's budget across evictions (\<open>klevel\<close>).
\<close>

section \<open>TokenBucket\<close>

record token_bucket =
  tb_rate :: real
  tb_capacity :: real
  tb_tokens :: real
  tb_last :: instant

definition tb_new :: "real \<Rightarrow> real \<Rightarrow> instant \<Rightarrow> token_bucket" where
  "tb_new r c now =
     (let capacity = max c 0
      in \<lparr>tb_rate = max r 0, tb_capacity = capacity, tb_tokens = capacity, tb_last = now\<rparr>)"

definition tb_refill :: "instant \<Rightarrow> token_bucket \<Rightarrow> token_bucket" where
  "tb_refill now b =
     (let dt = as_secs_f64 (now - tb_last b)
      in if dt > 0
         then b\<lparr>tb_tokens := min (tb_tokens b + dt * tb_rate b) (tb_capacity b), tb_last := now\<rparr>
         else b)"

definition tb_try_take :: "real \<Rightarrow> instant \<Rightarrow> token_bucket \<Rightarrow> bool \<times> token_bucket" where
  "tb_try_take amount now b =
     (let b = tb_refill now b
      in if tb_tokens b \<ge> amount
         then (True, b\<lparr>tb_tokens := tb_tokens b - amount\<rparr>)
         else (False, b))"

definition tb_can_take :: "real \<Rightarrow> instant \<Rightarrow> token_bucket \<Rightarrow> bool \<times> token_bucket" where
  "tb_can_take amount now b =
     (let b = tb_refill now b in (tb_tokens b \<ge> amount, b))"

definition tb_retune :: "real \<Rightarrow> real \<Rightarrow> token_bucket \<Rightarrow> token_bucket" where
  "tb_retune r c b =
     (let capacity = max c 0
      in b\<lparr>tb_rate := max r 0, tb_capacity := capacity, tb_tokens := min (tb_tokens b) capacity\<rparr>)"

definition tb_commit :: "real \<Rightarrow> token_bucket \<Rightarrow> token_bucket" where
  "tb_commit amount b = b\<lparr>tb_tokens := max (tb_tokens b - amount) 0\<rparr>"

section \<open>RatioCredit\<close>

datatype ratio_verdict = Allowed | NeedC0 | Denied

record ratio_credit =
  rc_credit :: int
  rc_c0_used :: bool

definition CREDIT_CAP :: int where
  "CREDIT_CAP = 256 * 1024"

definition i64_sat :: "int \<Rightarrow> int" where
  "i64_sat x = max (- 9223372036854775808) (min x 9223372036854775807)"

definition as_i64 :: "nat \<Rightarrow> int" where
  "as_i64 n = sint (of_nat n :: u64)"

definition rc_new :: ratio_credit where
  "rc_new = \<lparr>rc_credit = 0, rc_c0_used = False\<rparr>"

definition rc_on_ingress :: "nat \<Rightarrow> u8 \<Rightarrow> ratio_credit \<Rightarrow> ratio_credit" where
  "rc_on_ingress n amp_k r =
     (let add = i64_sat (int (max (unat amp_k) 1) * as_i64 n)
      in r\<lparr>rc_credit := min (i64_sat (rc_credit r + add)) CREDIT_CAP\<rparr>)"

definition rc_try_egress :: "nat \<Rightarrow> nat \<Rightarrow> ratio_credit \<Rightarrow> ratio_verdict \<times> ratio_credit" where
  "rc_try_egress n c0_bytes r =
     (let b = as_i64 n
      in if rc_credit r \<ge> b then (Allowed, r\<lparr>rc_credit := rc_credit r - b\<rparr>)
         else if rc_c0_used r then (Denied, r)
         else if b - rc_credit r > as_i64 c0_bytes then (Denied, r)
         else (NeedC0, r))"

definition rc_commit_c0 :: "nat \<Rightarrow> ratio_credit \<Rightarrow> ratio_credit" where
  "rc_commit_c0 n r = r\<lparr>rc_credit := rc_credit r - as_i64 n, rc_c0_used := True\<rparr>"

section \<open>BoundedTtlMap\<close>

record ('k, 'v) bounded_ttl_map =
  bm_map :: "('k, 'v \<times> instant) hmap"
  bm_max :: nat
  bm_ttl :: duration

definition bm_new :: "nat \<Rightarrow> duration \<Rightarrow> ('k, 'v) bounded_ttl_map" where
  "bm_new mx ttl = \<lparr>bm_map = [], bm_max = max mx 1, bm_ttl = ttl\<rparr>"

definition bm_evict_expired :: "instant \<Rightarrow> ('k, 'v) bounded_ttl_map \<Rightarrow> ('k, 'v) bounded_ttl_map" where
  "bm_evict_expired now m =
     m\<lparr>bm_map := hretain (\<lambda>_ (_, t). now - t < bm_ttl m) (bm_map m)\<rparr>"

text \<open>
  \<open>get_or_insert_with\<close> hands out \<open>&mut V\<close>: the model returns the value found or made, and
  \<open>bm_put\<close> writes a value back through that reference (the time stamp stays).
\<close>

definition bm_get_or_insert_with ::
  "'k \<Rightarrow> instant \<Rightarrow> 'v \<Rightarrow> ('k, 'v) bounded_ttl_map \<Rightarrow> 'v option \<times> ('k, 'v) bounded_ttl_map" where
  "bm_get_or_insert_with k now mk m =
     (let full = map_of (bm_map m) k = None \<and> length (bm_map m) \<ge> bm_max m;
          m = (if full then bm_evict_expired now m else m)
      in if full \<and> length (bm_map m) \<ge> bm_max m then (None, m)
         else (let v = (case map_of (bm_map m) k of None \<Rightarrow> mk | Some (v, _) \<Rightarrow> v)
               in (Some v, m\<lparr>bm_map := hupd k (v, now) (bm_map m)\<rparr>)))"

definition bm_put :: "'k \<Rightarrow> 'v \<Rightarrow> ('k, 'v) bounded_ttl_map \<Rightarrow> ('k, 'v) bounded_ttl_map" where
  "bm_put k v m =
     (case map_of (bm_map m) k of None \<Rightarrow> m
      | Some (_, t) \<Rightarrow> m\<lparr>bm_map := hupd k (v, t) (bm_map m)\<rparr>)"

definition bm_get :: "('k, 'v) bounded_ttl_map \<Rightarrow> 'k \<Rightarrow> 'v option" where
  "bm_get m k = map_option fst (map_of (bm_map m) k)"

definition bm_get_fresh :: "('k, 'v) bounded_ttl_map \<Rightarrow> 'k \<Rightarrow> instant \<Rightarrow> 'v option" where
  "bm_get_fresh m k now =
     (case map_of (bm_map m) k of None \<Rightarrow> None
      | Some (v, t) \<Rightarrow> if now - t < bm_ttl m then Some v else None)"

definition bm_iter :: "('k, 'v) bounded_ttl_map \<Rightarrow> ('k \<times> 'v) list" where
  "bm_iter m = map (\<lambda>(k, v, _). (k, v)) (bm_map m)"

definition bm_clear :: "('k, 'v) bounded_ttl_map \<Rightarrow> ('k, 'v) bounded_ttl_map" where
  "bm_clear m = m\<lparr>bm_map := []\<rparr>"

definition bm_remove :: "'k \<Rightarrow> ('k, 'v) bounded_ttl_map \<Rightarrow> 'v option \<times> ('k, 'v) bounded_ttl_map" where
  "bm_remove k m = (bm_get m k, m\<lparr>bm_map := hdel k (bm_map m)\<rparr>)"

definition bm_contains :: "('k, 'v) bounded_ttl_map \<Rightarrow> 'k \<Rightarrow> bool" where
  "bm_contains m k \<longleftrightarrow> map_of (bm_map m) k \<noteq> None"

definition bm_sweep :: "instant \<Rightarrow> ('k, 'v) bounded_ttl_map \<Rightarrow> ('k, 'v) bounded_ttl_map" where
  "bm_sweep now m = bm_evict_expired now m"

definition bm_len :: "('k, 'v) bounded_ttl_map \<Rightarrow> nat" where
  "bm_len m = length (bm_map m)"

section \<open>The rate bound of a limiter\<close>

text \<open>
  A limiter serves requests \<open>(a, now)\<close> of cost \<open>cost a\<close> in time order; \<open>limiter_run\<close> sums the
  cost of what it admits. The interface \<open>rate_limiter\<close> says how the level may move in one step;
  the bound over a whole run is proved once, in the locale.
\<close>

fun chronological :: "instant \<Rightarrow> ('a \<times> instant) list \<Rightarrow> bool" where
  "chronological t [] = True"
| "chronological t ((_, now) # rs) = (t \<le> now \<and> chronological now rs)"

fun end_time :: "instant \<Rightarrow> ('a \<times> instant) list \<Rightarrow> instant" where
  "end_time t [] = t"
| "end_time t ((_, now) # rs) = end_time now rs"

fun limiter_run ::
  "('a \<Rightarrow> instant \<Rightarrow> 's \<Rightarrow> bool \<times> 's) \<Rightarrow> ('a \<Rightarrow> real) \<Rightarrow> 's \<Rightarrow> ('a \<times> instant) list
   \<Rightarrow> real \<times> 's" where
  "limiter_run take_op cost s [] = (0, s)"
| "limiter_run take_op cost s ((a, now) # rs) =
     (let (ok, s') = take_op a now s;
          (sent, s'') = limiter_run take_op cost s' rs
      in ((if ok then cost a else 0) + sent, s''))"

lemma chronological_end_time: "chronological t rs \<Longrightarrow> t \<le> end_time t rs"
  by (induction t rs rule: chronological.induct) auto

locale rate_limiter =
  fixes take_op :: "'a \<Rightarrow> instant \<Rightarrow> 's \<Rightarrow> bool \<times> 's"
    and cost :: "'a \<Rightarrow> real"
    and inv :: "'s \<Rightarrow> bool"
    and level :: "'s \<Rightarrow> real"
    and rate :: real
    and clock :: "'s \<Rightarrow> instant"
  assumes level_nonneg: "inv s \<Longrightarrow> 0 \<le> level s"
    and inv_take: "inv s \<Longrightarrow> 0 \<le> cost a \<Longrightarrow> clock s \<le> now \<Longrightarrow> inv (snd (take_op a now s))"
    and clock_take: "clock s \<le> now \<Longrightarrow> clock (snd (take_op a now s)) = now"
    and level_take: "inv s \<Longrightarrow> 0 \<le> cost a \<Longrightarrow> clock s \<le> now \<Longrightarrow>
      level (snd (take_op a now s)) + (if fst (take_op a now s) then cost a else 0)
        \<le> level s + as_secs_f64 (now - clock s) * rate"
begin

lemma run_level:
  assumes "inv s" and "chronological (clock s) rs" and "\<forall>(a, _) \<in> set rs. 0 \<le> cost a"
  shows "inv (snd (limiter_run take_op cost s rs))
    \<and> fst (limiter_run take_op cost s rs) + level (snd (limiter_run take_op cost s rs))
        \<le> level s + as_secs_f64 (end_time (clock s) rs - clock s) * rate"
  using assms
proof (induction rs arbitrary: s)
  case Nil
  then show ?case by simp
next
  case (Cons r rs)
  obtain a now where r: "r = (a, now)" by (cases r)
  define s' where "s' = snd (take_op a now s)"
  from Cons.prems have a: "0 \<le> cost a" and le: "clock s \<le> now" and ch: "chronological now rs"
    by (auto simp: r)
  have s': "inv s'" "clock s' = now"
    unfolding s'_def using Cons.prems(1) a le inv_take clock_take by auto
  have IH: "inv (snd (limiter_run take_op cost s' rs))
      \<and> fst (limiter_run take_op cost s' rs) + level (snd (limiter_run take_op cost s' rs))
      \<le> level s' + as_secs_f64 (end_time now rs - now) * rate"
    using Cons.IH[of s'] Cons.prems(3) s' ch by auto
  have step: "level s' + (if fst (take_op a now s) then cost a else 0)
      \<le> level s + as_secs_f64 (now - clock s) * rate"
    unfolding s'_def using Cons.prems(1) a le by (rule level_take)
  have split: "as_secs_f64 (end_time now rs - clock s) * rate
      = as_secs_f64 (end_time now rs - now) * rate + as_secs_f64 (now - clock s) * rate"
    using as_secs_f64_diff[OF le chronological_end_time[OF ch]] by (simp add: distrib_right)
  show ?case
    using IH step split by (simp add: r s'_def split_beta Let_def)
qed

text \<open>Over any run the limiter admits at most its level plus what it accrues.\<close>

lemma run_bound:
  assumes "inv s" and "chronological (clock s) rs" and "\<forall>(a, _) \<in> set rs. 0 \<le> cost a"
  shows "fst (limiter_run take_op cost s rs)
           \<le> level s + as_secs_f64 (end_time (clock s) rs - clock s) * rate"
  using run_level[OF assms] level_nonneg by fastforce

end

definition tb_ok :: "token_bucket \<Rightarrow> bool" where
  "tb_ok b \<longleftrightarrow> 0 \<le> tb_rate b \<and> 0 \<le> tb_tokens b \<and> tb_tokens b \<le> tb_capacity b"

text \<open>A check followed by a commit at the same instant: the all-or-nothing use of a bucket.\<close>

definition tb_check_commit :: "real \<Rightarrow> instant \<Rightarrow> token_bucket \<Rightarrow> bool \<times> token_bucket" where
  "tb_check_commit amount now b =
     (let (ok, b) = tb_can_take amount now b in if ok then (True, tb_commit amount b) else (False, b))"

lemmas tb_defs = tb_new_def tb_refill_def tb_try_take_def tb_can_take_def tb_retune_def
  tb_commit_def

lemma tb_ok_new [simp]: "tb_ok (tb_new r c now)"
  by (simp add: tb_ok_def tb_new_def Let_def)

lemma tb_refill_sel [simp]:
  "tb_rate (tb_refill now b) = tb_rate b" "tb_capacity (tb_refill now b) = tb_capacity b"
  by (simp_all add: tb_refill_def Let_def)

lemma tb_last_refill: "tb_last b \<le> now \<Longrightarrow> tb_last (tb_refill now b) = now"
  by (simp add: tb_refill_def Let_def)

lemma tb_ok_refill [simp]: "tb_ok b \<Longrightarrow> tb_ok (tb_refill now b)"
  by (auto simp: tb_ok_def tb_refill_def Let_def)

lemma tb_tokens_refill:
  "tb_ok b \<Longrightarrow> tb_tokens (tb_refill now b)
     = min (tb_capacity b) (tb_tokens b + as_secs_f64 (now - tb_last b) * tb_rate b)"
  by (auto simp: tb_refill_def tb_ok_def Let_def min_def)

lemma tb_ok_retune [simp]: "tb_ok b \<Longrightarrow> tb_ok (tb_retune r c b)"
  by (auto simp: tb_ok_def tb_retune_def Let_def)

lemma tb_ok_commit [simp]: "tb_ok b \<Longrightarrow> 0 \<le> a \<Longrightarrow> tb_ok (tb_commit a b)"
  by (auto simp: tb_ok_def tb_commit_def)

lemma tb_check_commit_eq_try_take:
  "0 \<le> a \<Longrightarrow> tb_check_commit a now b = tb_try_take a now b"
  by (simp add: tb_check_commit_def tb_try_take_def tb_can_take_def tb_commit_def Let_def)

lemma tb_ok_try_take: "tb_ok b \<Longrightarrow> 0 \<le> a \<Longrightarrow> tb_ok (snd (tb_try_take a now b))"
  using tb_ok_refill[of b now] by (auto simp: tb_try_take_def Let_def tb_ok_def)

lemma tb_level_try_take:
  assumes "tb_ok b"
  shows "tb_tokens (snd (tb_try_take a now b)) + (if fst (tb_try_take a now b) then a else 0)
           \<le> tb_tokens b + as_secs_f64 (now - tb_last b) * tb_rate b"
  using tb_tokens_refill[OF assms, of now] by (simp add: tb_try_take_def Let_def)

lemma tb_okD: "tb_ok b \<Longrightarrow> 0 \<le> tb_tokens b" "tb_ok b \<Longrightarrow> 0 \<le> tb_rate b"
  "tb_ok b \<Longrightarrow> tb_tokens b \<le> tb_capacity b"
  by (simp_all add: tb_ok_def)

interpretation tb: rate_limiter tb_try_take "\<lambda>a. a" "\<lambda>b. tb_ok b \<and> tb_rate b = r" tb_tokens r tb_last
  for r
proof
  fix s a now
  show "tb_last s \<le> now \<Longrightarrow> tb_last (snd (tb_try_take a now s)) = now"
    using tb_last_refill[of s now] by (simp add: tb_try_take_def Let_def)
  assume "tb_ok s \<and> tb_rate s = r"
  then show "0 \<le> a \<Longrightarrow> tb_ok (snd (tb_try_take a now s)) \<and> tb_rate (snd (tb_try_take a now s)) = r"
    and "tb_tokens (snd (tb_try_take a now s)) + (if fst (tb_try_take a now s) then a else 0)
           \<le> tb_tokens s + as_secs_f64 (now - tb_last s) * r"
    using tb_level_try_take[of s a now] tb_ok_try_take[of s a now]
    by (auto simp: tb_try_take_def Let_def)
qed (auto intro: tb_okD)

lemma tb_take_sel:
  "tb_capacity (snd (tb_try_take a now b)) = tb_capacity b"
  "tb_last b \<le> now \<Longrightarrow> tb_last (snd (tb_try_take a now b)) = now"
  using tb_last_refill[of b now] by (simp_all add: tb_try_take_def Let_def)

lemma tb_run_capacity: "tb_capacity (snd (limiter_run tb_try_take cost b rs)) = tb_capacity b"
  by (induction rs arbitrary: b) (auto simp: split_beta Let_def tb_take_sel)

lemma tb_run_last: "chronological (tb_last b) rs \<Longrightarrow> tb_last (snd (limiter_run tb_try_take cost b rs)) = end_time (tb_last b) rs"
  by (induction rs arbitrary: b) (auto simp: split_beta Let_def tb_take_sel)

lemma tb_refill_twice:
  assumes "tb_ok b" "tb_last b \<le> w" "w \<le> now"
  shows "tb_refill now (tb_refill w b) = tb_refill now b"
proof -
  have d: "as_secs_f64 (now - tb_last b) = as_secs_f64 (now - w) + as_secs_f64 (w - tb_last b)"
    using as_secs_f64_diff[OF assms(2,3)] .
  have p: "0 \<le> as_secs_f64 (now - w) * tb_rate b" "0 \<le> as_secs_f64 (w - tb_last b) * tb_rate b"
    using assms(1) by (simp_all add: tb_ok_def as_secs_f64_def)
  have "tb_tokens (tb_refill now (tb_refill w b)) = tb_tokens (tb_refill now b)"
    using tb_tokens_refill[OF assms(1)] tb_tokens_refill[OF tb_ok_refill[OF assms(1)]] tb_last_refill[OF assms(2)] p
    by (simp add: d distrib_right min_def)
  moreover have "tb_last (tb_refill now (tb_refill w b)) = tb_last (tb_refill now b)"
    using assms(2,3) by (simp add: tb_last_refill)
  ultimately show ?thesis by (intro token_bucket.equality) simp_all
qed

lemma tb_run_refilled:
  assumes "tb_ok b" "tb_last b \<le> w" "chronological w rs"
  shows "fst (limiter_run tb_try_take cost (tb_refill w b) rs) = fst (limiter_run tb_try_take cost b rs)"
proof (cases rs)
  case (Cons r rs')
  obtain a now where r: "r = (a, now)" by (cases r)
  have "tb_try_take a now (tb_refill w b) = tb_try_take a now b"
    using tb_refill_twice[OF assms(1,2), of now] assms(3) by (simp add: tb_try_take_def Cons r)
  then show ?thesis by (simp add: Cons r)
qed simp

text \<open>
  C1. A token bucket of rate \<open>r\<close> and burst \<open>c\<close>, whatever it was offered before, admits in any window of time
  at most \<open>c\<close> plus \<open>r\<close> times the seconds of the window: idle time never saves up more than the burst.
\<close>

theorem token_bucket_rate_bound:
  assumes "0 \<le> r" and "0 \<le> c"
    and "chronological t0 earlier" and "end_time t0 earlier \<le> w" and "chronological w rs"
    and "\<forall>(a, _) \<in> set (earlier @ rs). 0 \<le> a"
  shows "fst (limiter_run tb_try_take (\<lambda>a. a) (snd (limiter_run tb_try_take (\<lambda>a. a) (tb_new r c t0) earlier)) rs)
           \<le> c + r * as_secs_f64 (end_time w rs - w)"
proof -
  define b where "b = snd (limiter_run tb_try_take (\<lambda>a. a) (tb_new r c t0) earlier)"
  have new: "tb_last (tb_new r c t0) = t0" "tb_capacity (tb_new r c t0) = c" "tb_ok (tb_new r c t0) \<and> tb_rate (tb_new r c t0) = r"
    using assms(1,2) by (simp_all add: tb_new_def Let_def tb_ok_def)
  have ok: "tb_ok b" "tb_rate b = r" using tb.run_level[of "tb_new r c t0" r earlier] new assms(3,6) by (auto simp: b_def)
  have cap: "tb_capacity b = c" "tb_last b \<le> w"
    using new assms(3,4) tb_run_last[of "tb_new r c t0" earlier "\<lambda>a. a"] by (simp_all add: b_def tb_run_capacity)
  have "tb_tokens (tb_refill w b) \<le> c" using tb_okD(3)[OF tb_ok_refill[OF ok(1), of w]] cap by simp
  moreover have "fst (limiter_run tb_try_take (\<lambda>a. a) (tb_refill w b) rs)
      \<le> tb_tokens (tb_refill w b) + as_secs_f64 (end_time w rs - w) * r"
    using tb.run_bound[of "tb_refill w b" r rs] ok cap assms(5,6) by (simp add: tb_last_refill)
  ultimately show ?thesis
    using tb_run_refilled[OF ok(1) cap(2) assms(5), of "\<lambda>a. a"] by (simp add: b_def mult.commute)
qed

theorem token_bucket_rate_bound_witness:
  "fst (limiter_run tb_try_take (\<lambda>a. a) (snd (limiter_run tb_try_take (\<lambda>a. a) (tb_new 100 10 0) [(10, 0)])) [(10, 5000000000), (1, 5000000000)])
     \<le> 10 + 100 * 0
   \<and> fst (limiter_run tb_try_take (\<lambda>a. a) (snd (limiter_run tb_try_take (\<lambda>a. a) (tb_new 100 10 0) [(10, 0)])) [(10, 5000000000), (1, 5000000000)]) = 10"
proof
  show "fst (limiter_run tb_try_take (\<lambda>a. a) (snd (limiter_run tb_try_take (\<lambda>a. a) (tb_new 100 10 0) [(10, 0)])) [(10, 5000000000), (1, 5000000000)])
     \<le> 10 + 100 * 0"
    using token_bucket_rate_bound[of 100 10 0 "[(10, 0)]" 5000000000 "[(10, 5000000000), (1, 5000000000)]"]
    by (simp add: as_secs_f64_def)
  show "fst (limiter_run tb_try_take (\<lambda>a. a) (snd (limiter_run tb_try_take (\<lambda>a. a) (tb_new 100 10 0) [(10, 0)])) [(10, 5000000000), (1, 5000000000)]) = 10"
    by (simp add: tb_defs as_secs_f64_def)
qed

section \<open>The amplification clamp of a flow\<close>

text \<open>
  What happens to one flow's credit: an admitted inbound datagram, or a reply offered for
  sending, where \<open>grant\<close> says whether an external C0 grant would be given. \<open>rc_send\<close> is the
  protocol the return loop follows: \<open>try_egress\<close>, and \<open>commit_c0\<close> after \<open>NeedC0\<close> and a grant.
\<close>

datatype rc_event = RcIngress nat u8 | RcReply nat bool

definition rc_send :: "nat \<Rightarrow> nat \<Rightarrow> bool \<Rightarrow> ratio_credit \<Rightarrow> bool \<times> ratio_credit" where
  "rc_send c0_bytes n grant r =
     (case rc_try_egress n c0_bytes r of
        (Allowed, r') \<Rightarrow> (True, r')
      | (Denied, r') \<Rightarrow> (False, r')
      | (NeedC0, r') \<Rightarrow> if grant then (True, rc_commit_c0 n r') else (False, r'))"

fun rc_run :: "nat \<Rightarrow> ratio_credit \<Rightarrow> rc_event list \<Rightarrow> nat \<times> ratio_credit" where
  "rc_run c0 r [] = (0, r)"
| "rc_run c0 r (RcIngress n k # es) = rc_run c0 (rc_on_ingress n k r) es"
| "rc_run c0 r (RcReply n g # es) =
     (let (ok, r') = rc_send c0 n g r; (sent, r'') = rc_run c0 r' es
      in ((if ok then n else 0) + sent, r''))"

fun rc_ingress :: "rc_event list \<Rightarrow> nat" where
  "rc_ingress [] = 0"
| "rc_ingress (RcIngress n k # es) = max (unat k) 1 * n + rc_ingress es"
| "rc_ingress (RcReply n g # es) = rc_ingress es"

fun rc_small :: "rc_event \<Rightarrow> bool" where
  "rc_small (RcIngress n k) = (n \<le> 65535)"
| "rc_small (RcReply n g) = (n \<le> 65535)"

text \<open>The credit is bounded below by the one-shot dip, and by 0 while the dip is unused.\<close>

definition rc_ok :: "nat \<Rightarrow> ratio_credit \<Rightarrow> bool" where
  "rc_ok c0 r \<longleftrightarrow> rc_credit r \<le> CREDIT_CAP \<and> rc_credit r \<ge> - int c0
     \<and> (\<not> rc_c0_used r \<longrightarrow> 0 \<le> rc_credit r)"

lemma as_i64_small: "n < 2 ^ 63 \<Longrightarrow> as_i64 n = int n"
proof -
  assume n: "n < 2 ^ 63"
  have "as_i64 n = signed_take_bit 63 (int n)"
    using sint_sbintrunc'[where 'a = 64, of "int n"] by (simp add: as_i64_def)
  also have "\<dots> = int n"
    using n by (simp add: signed_take_bit_int_eq_self_iff)
  finally show ?thesis .
qed

lemma rc_ok_new [simp]: "rc_ok c0 rc_new"
  by (simp add: rc_ok_def rc_new_def CREDIT_CAP_def)

lemma unat_u8_le: "unat (k :: u8) \<le> 255"
  using unsigned_less[of k, where ?'a = nat] by simp

lemma rc_on_ingress_credit:
  assumes "rc_ok c0 r" and "n \<le> 65535" and "c0 < 2 ^ 62"
  shows "rc_credit (rc_on_ingress n k r) = min (rc_credit r + int (max (unat k) 1 * n)) CREDIT_CAP"
proof -
  define a where "a = int (max (unat k) 1 * n)"
  have a: "0 \<le> a" "a \<le> 255 * 65535"
    using assms(2) unat_u8_le[of k] mult_mono[of "max (unat k) 1" 255 n 65535]
    by (auto simp: a_def simp flip: of_nat_mult)
  have "as_i64 n = int n" using assms(2) by (simp add: as_i64_small)
  then have eq: "int (max (unat k) 1) * as_i64 n = a"
    unfolding a_def by (simp only: of_nat_mult)
  have "rc_credit (rc_on_ingress n k r) = min (i64_sat (rc_credit r + i64_sat a)) CREDIT_CAP"
    by (simp only: rc_on_ingress_def Let_def eq) simp
  also have "\<dots> = min (rc_credit r + a) CREDIT_CAP"
    using a assms(1,3) by (auto simp: i64_sat_def rc_ok_def CREDIT_CAP_def)
  finally show ?thesis by (simp only: a_def)
qed

lemma rc_ok_on_ingress:
  assumes "rc_ok c0 r" and "n \<le> 65535" and "c0 < 2 ^ 62"
  shows "rc_ok c0 (rc_on_ingress n k r)"
proof -
  have "0 \<le> int (max (unat k) 1 * n)" by simp
  moreover have "rc_c0_used (rc_on_ingress n k r) = rc_c0_used r"
    by (simp add: rc_on_ingress_def Let_def)
  ultimately show ?thesis
    using rc_on_ingress_credit[OF assms, of k] assms(1)
    unfolding rc_ok_def CREDIT_CAP_def by linarith
qed

lemma rc_send_step:
  assumes "rc_ok c0 r" and "n \<le> 65535" and "c0 < 2 ^ 62"
  shows "rc_ok c0 (snd (rc_send c0 n g r))
    \<and> rc_credit (snd (rc_send c0 n g r)) + (if fst (rc_send c0 n g r) then int n else 0) = rc_credit r"
  using assms
  by (auto simp: rc_send_def rc_try_egress_def rc_commit_c0_def Let_def as_i64_small rc_ok_def)

lemma rc_run_bound:
  assumes "rc_ok c0 r" and "\<forall>e \<in> set es. rc_small e" and "c0 < 2 ^ 62"
  shows "rc_ok c0 (snd (rc_run c0 r es))
    \<and> int (fst (rc_run c0 r es)) + rc_credit (snd (rc_run c0 r es)) \<le> rc_credit r + int (rc_ingress es)"
  using assms
proof (induction c0 r es rule: rc_run.induct)
  case (1 c0 r)
  then show ?case by simp
next
  case (2 c0 r n k es)
  then have "rc_ok c0 (rc_on_ingress n k r)"
    and "rc_credit (rc_on_ingress n k r) \<le> rc_credit r + int (max (unat k) 1 * n)"
    using rc_ok_on_ingress[of c0 r n k] rc_on_ingress_credit[of c0 r n k] by auto
  then show ?case using 2 by fastforce
next
  case (3 c0 r n g es)
  obtain ok r' where s: "rc_send c0 n g r = (ok, r')" by fastforce
  obtain sent r'' where t: "rc_run c0 r' es = (sent, r'')" by fastforce
  have "rc_ok c0 r'" and "rc_credit r' + (if ok then int n else 0) = rc_credit r"
    using rc_send_step[of c0 r n g] 3 s by auto
  then show ?case
    using 3(1)[OF s[symmetric]] 3(3,4) by (auto simp: s t Let_def)
qed

text \<open>
  C2. Over the whole life of a flow, whatever C0 grants are given, the bytes reflected to the
  client are at most \<open>amp_k\<close> times the bytes received from it, plus one C0 floor.
\<close>

theorem amplification_bound:
  assumes "\<forall>e \<in> set es. rc_small e" and "c0 < 2 ^ 62"
  shows "fst (rc_run c0 rc_new es) \<le> rc_ingress es + c0"
proof -
  have "rc_ok c0 (snd (rc_run c0 rc_new es))
    \<and> int (fst (rc_run c0 rc_new es)) + rc_credit (snd (rc_run c0 rc_new es))
        \<le> rc_credit rc_new + int (rc_ingress es)"
    by (rule rc_run_bound) (use assms in auto)
  then show ?thesis
    unfolding rc_ok_def by (simp add: rc_new_def)
qed

theorem amplification_bound_witness:
  "fst (rc_run 1500 rc_new [RcIngress 1000 1, RcReply 1200 True, RcReply 1200 True]) \<le> 1000 + 1500
   \<and> fst (rc_run 1500 rc_new [RcIngress 1000 1, RcReply 1200 True, RcReply 1200 True]) = 1200"
proof
  show "fst (rc_run 1500 rc_new [RcIngress 1000 1, RcReply 1200 True, RcReply 1200 True]) \<le> 1000 + 1500"
    using amplification_bound[of "[RcIngress 1000 1, RcReply 1200 True, RcReply 1200 True]" 1500]
    by simp
  show "fst (rc_run 1500 rc_new [RcIngress 1000 1, RcReply 1200 True, RcReply 1200 True]) = 1200"
    by (simp add: rc_send_def rc_try_egress_def rc_commit_c0_def rc_on_ingress_def rc_new_def
        as_i64_def i64_sat_def CREDIT_CAP_def Let_def)
qed

section \<open>The bounded map is fail-closed\<close>

definition bm_wf :: "('k, 'v) bounded_ttl_map \<Rightarrow> bool" where
  "bm_wf m \<longleftrightarrow> hm_wf (bm_map m) \<and> length (bm_map m) \<le> bm_max m \<and> 1 \<le> bm_max m"

definition bm_live :: "('k, 'v) bounded_ttl_map \<Rightarrow> instant \<Rightarrow> 'k \<Rightarrow> bool" where
  "bm_live m now k \<longleftrightarrow> (\<exists>v t. map_of (bm_map m) k = Some (v, t) \<and> now - t < bm_ttl m)"

lemmas bm_defs = bm_new_def bm_evict_expired_def bm_get_or_insert_with_def bm_put_def bm_get_def
  bm_get_fresh_def bm_iter_def bm_clear_def bm_remove_def bm_contains_def bm_sweep_def bm_len_def

lemma bm_wf_new [simp]: "bm_wf (bm_new mx ttl)"
  by (simp add: bm_wf_def bm_new_def)

lemma bm_evict_sel [simp]:
  "bm_max (bm_evict_expired now m) = bm_max m" "bm_ttl (bm_evict_expired now m) = bm_ttl m"
  by (simp_all add: bm_evict_expired_def)

lemma map_of_bm_evict:
  "bm_wf m \<Longrightarrow> map_of (bm_map (bm_evict_expired now m)) k =
     (case map_of (bm_map m) k of None \<Rightarrow> None
      | Some (v, t) \<Rightarrow> if now - t < bm_ttl m then Some (v, t) else None)"
  by (auto simp: bm_evict_expired_def bm_wf_def map_of_hretain split: option.splits)

lemma length_bm_evict_le: "length (bm_map (bm_evict_expired now m)) \<le> length (bm_map m)"
  by (simp add: bm_evict_expired_def)

lemma bm_wf_evict [simp]: "bm_wf m \<Longrightarrow> bm_wf (bm_evict_expired now m)"
  using length_bm_evict_le[of now m]
  by (auto simp: bm_wf_def) (simp_all add: bm_evict_expired_def)

lemma bm_evict_full:
  assumes "length (bm_map (bm_evict_expired now m)) = length (bm_map m)"
  shows "bm_evict_expired now m = m"
  using filter_same_length[OF assms[unfolded bm_evict_expired_def hretain_def, simplified]]
  by (simp add: bm_evict_expired_def hretain_def)

lemma bm_get_or_insert_Some:
  assumes "bm_wf m" and "bm_get_or_insert_with k now mk m = (Some v, m')"
  shows "map_of (bm_map m') k = Some (v, now)"
    and "v = (case map_of (bm_map m) k of None \<Rightarrow> mk | Some (w, _) \<Rightarrow> w)"
    and "k' \<noteq> k \<Longrightarrow> map_of (bm_map m') k' = map_of (bm_map m) k'
           \<or> map_of (bm_map m') k' = map_of (bm_map (bm_evict_expired now m)) k'"
    and "bm_wf m'" and "bm_max m' = bm_max m" and "bm_ttl m' = bm_ttl m"
proof -
  define full where "full \<longleftrightarrow> map_of (bm_map m) k = None \<and> length (bm_map m) \<ge> bm_max m"
  define m1 where "m1 = (if full then bm_evict_expired now m else m)"
  have wf1: "bm_wf m1" using assms(1) by (simp add: m1_def)
  have k1: "map_of (bm_map m1) k = map_of (bm_map m) k"
    using assms(1) by (simp add: m1_def full_def map_of_bm_evict)
  from assms(2) have v: "v = (case map_of (bm_map m1) k of None \<Rightarrow> mk | Some (w, _) \<Rightarrow> w)"
    and m': "m' = m1\<lparr>bm_map := hupd k (v, now) (bm_map m1)\<rparr>"
    and nf: "\<not> (full \<and> length (bm_map m1) \<ge> bm_max m1)"
    by (auto simp: bm_get_or_insert_with_def Let_def m1_def full_def split: if_splits)
  show "map_of (bm_map m') k = Some (v, now)" by (simp add: m')
  show "v = (case map_of (bm_map m) k of None \<Rightarrow> mk | Some (w, _) \<Rightarrow> w)" using v k1 by simp
  show "k' \<noteq> k \<Longrightarrow> map_of (bm_map m') k' = map_of (bm_map m) k'
          \<or> map_of (bm_map m') k' = map_of (bm_map (bm_evict_expired now m)) k'"
    by (simp add: m' m1_def)
  show "bm_max m' = bm_max m" "bm_ttl m' = bm_ttl m" by (simp_all add: m' m1_def)
  show "bm_wf m'"
    using wf1 nf k1 unfolding full_def bm_wf_def
    by (auto simp: m' length_hupd m1_def full_def split: option.splits)
qed

lemma bm_get_or_insert_None:
  assumes "bm_wf m" and "bm_get_or_insert_with k now mk m = (None, m')"
  shows "m' = m" and "map_of (bm_map m) k = None" and "length (bm_map m) = bm_max m"
    and "map_of (bm_map m) k' = Some (v, t) \<Longrightarrow> now - t < bm_ttl m"
proof -
  from assms(2) have a: "map_of (bm_map m) k = None" "length (bm_map m) \<ge> bm_max m"
    "m' = bm_evict_expired now m" "length (bm_map (bm_evict_expired now m)) \<ge> bm_max m"
    by (auto simp: bm_get_or_insert_with_def Let_def split: if_splits)
  with assms(1) length_bm_evict_le[of now m]
  have "length (bm_map (bm_evict_expired now m)) = length (bm_map m)"
    by (auto simp: bm_wf_def)
  then have e: "bm_evict_expired now m = m" by (rule bm_evict_full)
  show "m' = m" using a(3) e by simp
  show "map_of (bm_map m) k = None" by (rule a(1))
  show "length (bm_map m) = bm_max m" using a(2) assms(1) by (simp add: bm_wf_def)
  show "map_of (bm_map m) k' = Some (v, t) \<Longrightarrow> now - t < bm_ttl m"
    using map_of_bm_evict[OF assms(1), of now k'] e by (auto split: if_splits)
qed

lemma bm_wf_get_or_insert [simp]:
  "bm_wf m \<Longrightarrow> bm_wf (snd (bm_get_or_insert_with k now mk m))"
  by (cases "bm_get_or_insert_with k now mk m"; cases "fst (bm_get_or_insert_with k now mk m)")
    (auto dest: bm_get_or_insert_Some(4) bm_get_or_insert_None(1))

lemma bm_put_sel [simp]:
  "bm_max (bm_put k v m) = bm_max m" "bm_ttl (bm_put k v m) = bm_ttl m"
  by (auto simp: bm_put_def split: option.splits)

lemma map_of_bm_put:
  "map_of (bm_map (bm_put k v m)) k' =
     (if k' = k then map_option (\<lambda>(_, t). (v, t)) (map_of (bm_map m) k) else map_of (bm_map m) k')"
  by (auto simp: bm_put_def split: option.splits)

lemma bm_wf_put [simp]: "bm_wf m \<Longrightarrow> bm_wf (bm_put k v m)"
  by (auto simp: bm_put_def bm_wf_def length_hupd split: option.splits)

lemma bm_wf_clear [simp]: "bm_wf m \<Longrightarrow> bm_wf (bm_clear m)"
  by (simp add: bm_wf_def bm_clear_def)

lemma bm_wf_remove [simp]: "bm_wf m \<Longrightarrow> bm_wf (snd (bm_remove k m))"
  by (auto simp: bm_wf_def bm_remove_def intro: le_trans[OF length_hdel_le])

lemma bm_wf_sweep [simp]: "bm_wf m \<Longrightarrow> bm_wf (bm_sweep now m)"
  by (simp add: bm_sweep_def)

lemma bm_sweep_sel [simp]: "bm_max (bm_sweep now m) = bm_max m" "bm_ttl (bm_sweep now m) = bm_ttl m"
  by (simp_all add: bm_sweep_def)

text \<open>
  The interface the egress and wake gates rely on: a bounded store of limiters in which touching
  other keys never disturbs a live one.
\<close>

fun goi_run ::
  "('k \<Rightarrow> instant \<Rightarrow> 'v \<Rightarrow> 'm \<Rightarrow> 'v option \<times> 'm) \<Rightarrow> 'm \<Rightarrow> ('k \<times> 'v \<times> instant) list \<Rightarrow> 'm" where
  "goi_run goi m [] = m"
| "goi_run goi m ((k, v, now) # rs) = goi_run goi (snd (goi k now v m)) rs"

locale fail_closed_map =
  fixes goi :: "'k \<Rightarrow> instant \<Rightarrow> 'v \<Rightarrow> 'm \<Rightarrow> 'v option \<times> 'm"
    and lookup :: "'m \<Rightarrow> 'k \<Rightarrow> 'v option"
    and live :: "'m \<Rightarrow> instant \<Rightarrow> 'k \<Rightarrow> bool"
    and inv :: "'m \<Rightarrow> bool"
    and card_of :: "'m \<Rightarrow> nat"
    and bound :: "'m \<Rightarrow> nat"
  assumes inv_goi: "inv m \<Longrightarrow> inv (snd (goi k now v m))"
    and bound_goi: "inv m \<Longrightarrow> bound (snd (goi k now v m)) = bound m"
    and card_bound: "inv m \<Longrightarrow> card_of m \<le> bound m"
    and lookup_goi_live: "inv m \<Longrightarrow> k' \<noteq> k \<Longrightarrow> live m now k' \<Longrightarrow>
          lookup (snd (goi k now v m)) k' = lookup m k'"
    and live_goi: "inv m \<Longrightarrow> k' \<noteq> k \<Longrightarrow> live m now k' \<Longrightarrow> live m later k' \<Longrightarrow>
          live (snd (goi k now v m)) later k'"
begin

lemma inv_run: "inv m \<Longrightarrow> inv (goi_run goi m rs)"
  by (induction rs arbitrary: m) (auto simp: inv_goi)

lemma card_run: "inv m \<Longrightarrow> card_of (goi_run goi m rs) \<le> bound m"
proof (induction rs arbitrary: m)
  case Nil
  then show ?case by (simp add: card_bound)
next
  case (Cons r rs)
  then show ?case
    by (cases r) (metis goi_run.simps(2) inv_goi bound_goi)
qed

lemma rotation_keeps_live:
  assumes "inv m" and "\<forall>(k', _, now) \<in> set rs. k' \<noteq> k \<and> live m now k"
  shows "lookup (goi_run goi m rs) k = lookup m k"
  using assms
proof (induction rs arbitrary: m)
  case Nil
  then show ?case by simp
next
  case (Cons r rs)
  obtain k' v now where r: "r = (k', v, now)" by (cases r)
  have live: "live m now k" and ne: "k \<noteq> k'" using Cons.prems(2) by (auto simp: r)
  define m' where "m' = snd (goi k' now v m)"
  have "\<forall>(k', _, now) \<in> set rs. k' \<noteq> k \<and> live m' now k"
    using Cons.prems(2) live_goi[OF Cons.prems(1) ne live] by (auto simp: m'_def)
  then have "lookup (goi_run goi m' rs) k = lookup m' k"
    using Cons.IH[of m'] inv_goi[OF Cons.prems(1)] by (simp add: m'_def)
  then show ?case
    using lookup_goi_live[OF Cons.prems(1) ne live] by (simp add: r m'_def)
qed

end

lemma bm_goi_other:
  assumes "bm_wf m" and "k' \<noteq> k" and "bm_live m now k'"
  shows "map_of (bm_map (snd (bm_get_or_insert_with k now mk m))) k' = map_of (bm_map m) k'"
proof (cases "bm_get_or_insert_with k now mk m")
  case (Pair r m')
  show ?thesis
  proof (cases r)
    case None
    then show ?thesis using Pair bm_get_or_insert_None(1)[OF assms(1), of k now mk m'] by simp
  next
    case (Some v)
    then show ?thesis
      using Pair bm_get_or_insert_Some(3)[OF assms(1), of k now mk v m', OF _ assms(2)] assms(1,3)
      by (auto simp: map_of_bm_evict bm_live_def)
  qed
qed

lemma bm_goi_ttl: "bm_ttl (snd (bm_get_or_insert_with k now mk m)) = bm_ttl m"
  "bm_max (snd (bm_get_or_insert_with k now mk m)) = bm_max m"
  by (simp_all add: bm_get_or_insert_with_def Let_def)

interpretation bm: fail_closed_map bm_get_or_insert_with bm_get bm_live bm_wf bm_len bm_max
proof
  fix m :: "('a, 'b) bounded_ttl_map" and k k' :: 'a and now later :: instant and v :: 'b
  assume m: "bm_wf m"
  show "bm_wf (snd (bm_get_or_insert_with k now v m))" using m by simp
  show "bm_max (snd (bm_get_or_insert_with k now v m)) = bm_max m" by (rule bm_goi_ttl)
  show "bm_len m \<le> bm_max m" using m by (simp add: bm_wf_def bm_len_def)
  assume ne: "k' \<noteq> k" and live: "bm_live m now k'"
  show "bm_get (snd (bm_get_or_insert_with k now v m)) k' = bm_get m k'"
    using bm_goi_other[OF m ne live] by (simp add: bm_get_def)
  assume "bm_live m later k'"
  then show "bm_live (snd (bm_get_or_insert_with k now v m)) later k'"
    using bm_goi_other[OF m ne live] by (simp add: bm_live_def bm_goi_ttl)
qed

text \<open>
  A bounded map never grows past its cardinality bound, whatever keys are offered, and
  an attacker rotating keys cannot reset a live limiter: as long as a key's entry is within its
  time-to-live, no sequence of accesses to other keys changes its value.
\<close>

theorem bounded_map_fail_closed:
  assumes "bm_wf m" and "\<forall>(k', _, now) \<in> set rs. k' \<noteq> k \<and> bm_live m now k"
  shows "bm_get (goi_run bm_get_or_insert_with m rs) k = bm_get m k
    \<and> bm_len (goi_run bm_get_or_insert_with m rs) \<le> bm_max m"
  using bm.rotation_keeps_live[OF assms] bm.card_run[OF assms(1)] by simp

theorem bounded_map_fail_closed_witness:
  "let m = snd (bm_get_or_insert_with (1::nat) 10 (7::nat) (bm_new 1 100)) in
   bm_get (goi_run bm_get_or_insert_with m [(2, 0, 20), (3, 0, 60)]) 1 = Some 7
   \<and> fst (bm_get_or_insert_with 2 20 0 m) = None"
proof -
  define m where "m = snd (bm_get_or_insert_with (1::nat) 10 (7::nat) (bm_new 1 100))"
  have m: "m = \<lparr>bm_map = [(1, 7, 10)], bm_max = 1, bm_ttl = 100\<rparr>"
    by (simp add: m_def bm_get_or_insert_with_def bm_new_def)
  have "bm_get (goi_run bm_get_or_insert_with m [(2, 0, 20), (3, 0, 60)]) 1 = bm_get m 1"
    using bounded_map_fail_closed[of m "[(2, 0, 20), (3, 0, 60)]" 1]
    by (simp add: m bm_wf_def hm_wf_def bm_live_def)
  moreover have "bm_get m 1 = Some 7" by (simp add: m bm_get_def)
  moreover have "fst (bm_get_or_insert_with 2 20 0 m) = None"
    by (simp add: m bm_get_or_insert_with_def bm_evict_expired_def hretain_def)
  ultimately show ?thesis by (simp add: m_def)
qed

end
