(* ===== verification/Limiter_Map.thy ===== *)
theory Limiter_Map
  imports L4_Egress
begin

text \<open>
  A \<open>BoundedTtlMap\<close> of \<open>TokenBucket\<close>s, the shape of every per-key cap of the L4 plane
  (per victim address, per /24, per project, per port destination, per wake). \<open>klevel\<close> is the
  budget a key has at an instant: the refilled level of its bucket, or a whole burst when it has
  none. When the time-to-live is at least the time a bucket needs to fill, evicting and re-making
  a bucket never changes a key's budget, so the map as a whole is a rate limiter for each key.
\<close>

definition kb_ok :: "real \<Rightarrow> real \<Rightarrow> ('k, token_bucket) bounded_ttl_map \<Rightarrow> bool" where
  "kb_ok r c m \<longleftrightarrow> bm_wf m \<and> 0 \<le> r \<and> 0 \<le> c \<and> c \<le> as_secs_f64 (bm_ttl m) * r \<and>
     (\<forall>k b t. map_of (bm_map m) k = Some (b, t) \<longrightarrow>
        tb_ok b \<and> tb_rate b = r \<and> tb_capacity b = c \<and> tb_last b \<le> t)"

definition blevel :: "token_bucket \<Rightarrow> instant \<Rightarrow> real" where
  "blevel b now = tb_tokens (tb_refill now b)"

definition klevel :: "real \<Rightarrow> ('k, token_bucket) bounded_ttl_map \<Rightarrow> 'k \<Rightarrow> instant \<Rightarrow> real" where
  "klevel c m k now =
     (case map_of (bm_map m) k of None \<Rightarrow> c | Some (b, _) \<Rightarrow> blevel b now)"

lemma blevel_eq:
  "tb_ok b \<Longrightarrow> blevel b now = min (tb_capacity b) (tb_tokens b + as_secs_f64 (now - tb_last b) * tb_rate b)"
  by (simp add: blevel_def tb_tokens_refill)

lemma blevel_bounds: "tb_ok b \<Longrightarrow> 0 \<le> blevel b now \<and> blevel b now \<le> tb_capacity b"
  using tb_ok_refill[of b now] by (simp add: blevel_def tb_ok_def)

lemma min_shift: "0 \<le> (y :: real) \<Longrightarrow> min c (min c x + y) = min c (x + y)"
  by (auto simp: min_def)

lemma blevel_refill:
  assumes "tb_ok b" and "now \<le> now'"
  shows "blevel (tb_refill now b) now' = blevel b now'"
proof (cases "tb_last b \<le> now")
  case True
  have d: "as_secs_f64 (now' - tb_last b) = as_secs_f64 (now' - now) + as_secs_f64 (now - tb_last b)"
    by (rule as_secs_f64_diff) (use True assms in auto)
  have "blevel (tb_refill now b) now'
      = min (tb_capacity b) (min (tb_capacity b) (tb_tokens b + as_secs_f64 (now - tb_last b) * tb_rate b)
          + as_secs_f64 (now' - now) * tb_rate b)"
    using assms True by (simp add: blevel_eq tb_tokens_refill tb_last_refill)
  also have "\<dots> = blevel b now'"
    using assms(1) by (subst min_shift) (simp_all add: tb_okD blevel_eq d algebra_simps)
  finally show ?thesis .
next
  case False
  then have "tb_refill now b = b" by (simp add: tb_refill_def)
  then show ?thesis by simp
qed

lemma blevel_advance:
  assumes "tb_ok b" and "now \<le> now'"
  shows "blevel b now' \<le> blevel b now + as_secs_f64 (now' - now) * tb_rate b"
proof (cases "tb_last b \<le> now")
  case True
  have d: "as_secs_f64 (now' - tb_last b) = as_secs_f64 (now' - now) + as_secs_f64 (now - tb_last b)"
    by (rule as_secs_f64_diff) (use True assms in auto)
  have "0 \<le> as_secs_f64 (now' - now) * tb_rate b" using assms(1) by (simp add: tb_okD)
  then show ?thesis
    using assms(1) by (simp add: blevel_eq d distrib_right)
next
  case False
  then have "as_secs_f64 (now' - tb_last b) \<le> as_secs_f64 (now' - now)"
    by (intro as_secs_f64_mono) simp
  then have "as_secs_f64 (now' - tb_last b) * tb_rate b \<le> as_secs_f64 (now' - now) * tb_rate b"
    using assms(1) by (simp add: tb_okD mult_right_mono)
  moreover have "now - tb_last b = 0" using False by simp
  ultimately show ?thesis
    using assms(1) tb_okD(3)[OF assms(1)] by (simp add: blevel_eq)
qed

text \<open>A bucket left alone for a whole time-to-live is full again.\<close>

lemma blevel_expired:
  assumes "tb_ok b" and "tb_last b \<le> t" and "ttl \<le> now - t" and "now \<le> now'"
    and "tb_capacity b \<le> as_secs_f64 ttl * tb_rate b"
  shows "blevel b now' = tb_capacity b"
proof -
  have "as_secs_f64 ttl \<le> as_secs_f64 (now' - tb_last b)"
    using assms by (intro as_secs_f64_mono) simp
  then have "as_secs_f64 ttl * tb_rate b \<le> as_secs_f64 (now' - tb_last b) * tb_rate b"
    using assms(1) by (simp add: tb_okD mult_right_mono)
  with assms tb_okD(1)[OF assms(1)] show ?thesis by (simp add: blevel_eq)
qed

lemma kb_okD:
  assumes "kb_ok r c m" and "map_of (bm_map m) k = Some (b, t)"
  shows "tb_ok b" "tb_rate b = r" "tb_capacity b = c" "tb_last b \<le> t"
  using assms by (auto simp: kb_ok_def)

lemma kb_ok_wf: "kb_ok r c m \<Longrightarrow> bm_wf m"
  by (simp add: kb_ok_def)

lemma kb_ok_new:
  "0 \<le> r \<Longrightarrow> 0 \<le> c \<Longrightarrow> c \<le> as_secs_f64 ttl * r \<Longrightarrow> kb_ok r c (bm_new mx ttl)"
  by (simp add: kb_ok_def) (simp add: bm_new_def)

lemma klevel_bounds: "kb_ok r c m \<Longrightarrow> 0 \<le> klevel c m k now \<and> klevel c m k now \<le> c"
  using blevel_bounds by (auto simp: klevel_def kb_ok_def split: option.splits) fastforce+

lemma klevel_advance:
  assumes "kb_ok r c m" and "now \<le> now'"
  shows "klevel c m k now' \<le> klevel c m k now + as_secs_f64 (now' - now) * r"
proof -
  have "0 \<le> as_secs_f64 (now' - now) * r" using assms by (simp add: kb_ok_def)
  then show ?thesis
    using blevel_advance[OF _ assms(2)] kb_okD[OF assms(1)]
    by (auto simp: klevel_def split: option.splits) fastforce
qed

lemma klevel_evict_entry:
  assumes "kb_ok r c m" and "now \<le> now'"
  shows "klevel c (bm_evict_expired now m) k now' = klevel c m k now'"
proof (cases "map_of (bm_map m) k")
  case None
  then show ?thesis
    using map_of_bm_evict[OF kb_ok_wf[OF assms(1)], of now k] by (simp add: klevel_def)
next
  case (Some p)
  obtain b t where p: "p = (b, t)" by (cases p)
  note b = kb_okD[OF assms(1) Some[unfolded p]]
  have full: "blevel b now' = c" if "bm_ttl m \<le> now - t"
    using blevel_expired[OF b(1,4) that assms(2)] b assms(1) by (simp add: kb_ok_def)
  show ?thesis
    using map_of_bm_evict[OF kb_ok_wf[OF assms(1)], of now k] Some full
    by (simp add: klevel_def p)
qed

lemma kb_ok_evict: "kb_ok r c m \<Longrightarrow> kb_ok r c (bm_evict_expired now m)"
  by (auto simp: kb_ok_def map_of_bm_evict split: option.splits if_splits)

lemma klevel_sweep: "kb_ok r c m \<Longrightarrow> now \<le> now' \<Longrightarrow> klevel c (bm_sweep now m) k now' = klevel c m k now'"
  by (simp add: bm_sweep_def klevel_evict_entry)

lemma kb_ok_sweep: "kb_ok r c m \<Longrightarrow> kb_ok r c (bm_sweep now m)"
  by (simp add: bm_sweep_def kb_ok_evict)

lemma tb_new_sel [simp]:
  "0 \<le> r \<Longrightarrow> tb_rate (tb_new r c now) = r" "0 \<le> c \<Longrightarrow> tb_capacity (tb_new r c now) = c"
  "0 \<le> c \<Longrightarrow> tb_tokens (tb_new r c now) = c" "tb_last (tb_new r c now) = now"
  by (simp_all add: tb_new_def Let_def)

text \<open>
  The clock of the map: no entry was touched after \<open>now\<close>. Every access keeps it as time goes on.
\<close>

definition kb_before :: "('k, 'v) bounded_ttl_map \<Rightarrow> instant \<Rightarrow> bool" where
  "kb_before m now \<longleftrightarrow> (\<forall>k v t. map_of (bm_map m) k = Some (v, t) \<longrightarrow> t \<le> now)"

lemma kb_before_sweep: "bm_wf m \<Longrightarrow> kb_before m now \<Longrightarrow> kb_before (bm_sweep now' m) now"
  by (auto simp: kb_before_def bm_sweep_def map_of_bm_evict split: option.splits if_splits)

lemma kb_get_or_insert:
  assumes ok: "kb_ok r c m"
    and goi: "bm_get_or_insert_with k now (tb_new r c now) m = (ob, m')"
    and bef: "kb_before m now"
  shows "kb_ok r c m' \<and> kb_before m' now \<and> (\<forall>now' \<ge> now. klevel c m' k' now' = klevel c m k' now')
    \<and> (\<forall>b. ob = Some b \<longrightarrow> map_of (bm_map m') k = Some (b, now))"
proof (cases ob)
  case None
  then show ?thesis
    using goi bm_get_or_insert_None(1)[OF kb_ok_wf[OF ok], of k now] ok bef by auto
next
  case (Some b)
  note S = bm_get_or_insert_Some[OF kb_ok_wf[OF ok] goi[unfolded Some]]
  have rc: "0 \<le> r" "0 \<le> c" using ok by (simp_all add: kb_ok_def)
  have b: "tb_ok b \<and> tb_rate b = r \<and> tb_capacity b = c \<and> tb_last b \<le> now
      \<and> (\<forall>now' \<ge> now. blevel b now' = klevel c m k now')"
  proof (cases "map_of (bm_map m) k")
    case None
    then show ?thesis
      using S(2) rc by (simp add: klevel_def blevel_eq)
  next
    case (Some p)
    then show ?thesis
      using S(2) kb_okD[OF ok, of k "fst p" "snd p"] bef
      by (auto simp: klevel_def kb_before_def split: prod.splits intro: le_trans)
  qed
  have other: "map_of (bm_map m') k'' = map_of (bm_map m) k''
      \<or> map_of (bm_map m') k'' = map_of (bm_map (bm_evict_expired now m)) k''" if "k'' \<noteq> k" for k''
    using S(3)[OF that] .
  have ok': "kb_ok r c m'"
    unfolding kb_ok_def
  proof (intro conjI allI impI)
    fix k'' b' t'
    assume l: "map_of (bm_map m') k'' = Some (b', t')"
    have "tb_ok b' \<and> tb_rate b' = r \<and> tb_capacity b' = c \<and> tb_last b' \<le> t'"
    proof (cases "k'' = k")
      case True
      then show ?thesis using l S(1) b by simp
    next
      case False
      then show ?thesis
        using other[OF False] l kb_okD[OF ok, of k'' b' t'] kb_okD[OF kb_ok_evict[OF ok], of now k'' b' t']
        by auto
    qed
    then show "tb_ok b'" "tb_rate b' = r" "tb_capacity b' = c" "tb_last b' \<le> t'" by simp_all
  qed (use S rc ok in \<open>auto simp: kb_ok_def\<close>)
  have "klevel c m' k' now' = klevel c m k' now'" if "now \<le> now'" for now'
  proof (cases "k' = k")
    case True
    then show ?thesis using S(1) b that by (simp add: klevel_def)
  next
    case False
    then show ?thesis
      using other[OF False] klevel_evict_entry[OF ok that, of k'] by (auto simp: klevel_def)
  qed
  moreover have "kb_before m' now"
    unfolding kb_before_def
  proof (intro allI impI)
    fix k'' v t assume l: "map_of (bm_map m') k'' = Some (v, t)"
    show "t \<le> now"
    proof (cases "k'' = k")
      case False
      then show ?thesis
        using other[OF False] l bef map_of_bm_evict[OF kb_ok_wf[OF ok], of now k'']
        by (auto simp: kb_before_def split: option.splits if_splits)
    qed (use l S(1) in simp)
  qed
  ultimately show ?thesis using ok' S(1) Some by simp
qed

text \<open>Writing a bucket back through the reference \<open>get_or_insert_with\<close> returned.\<close>

lemma kb_put:
  assumes ok: "kb_ok r c m" and l: "map_of (bm_map m) k = Some (b0, t)"
    and b: "tb_ok b" "tb_rate b = r" "tb_capacity b = c" "tb_last b \<le> t"
  shows "kb_ok r c (bm_put k b m)"
    and "klevel c (bm_put k b m) k' now = (if k' = k then blevel b now else klevel c m k' now)"
    and "map_of (bm_map (bm_put k b m)) k = Some (b, t)"
    and "kb_before m now' \<Longrightarrow> kb_before (bm_put k b m) now'"
proof -
  show "kb_ok r c (bm_put k b m)"
    using ok l b by (auto simp: kb_ok_def map_of_bm_put split: if_splits)
  show "klevel c (bm_put k b m) k' now = (if k' = k then blevel b now else klevel c m k' now)"
    using l by (simp add: klevel_def map_of_bm_put)
  show "map_of (bm_map (bm_put k b m)) k = Some (b, t)"
    using l by (simp add: map_of_bm_put)
  show "kb_before m now' \<Longrightarrow> kb_before (bm_put k b m) now'"
    using l by (auto simp: kb_before_def map_of_bm_put split: if_splits)
qed

text \<open>A check (\<open>get_or_insert_with\<close>, then \<open>can_take\<close>) keeps every budget.\<close>

definition kb_check ::
  "real \<Rightarrow> real \<Rightarrow> 'k \<Rightarrow> real \<Rightarrow> instant \<Rightarrow> ('k, token_bucket) bounded_ttl_map
   \<Rightarrow> token_bucket option \<times> ('k, token_bucket) bounded_ttl_map" where
  "kb_check r c k amount now m =
     (case bm_get_or_insert_with k now (tb_new r c now) m of
        (None, m) \<Rightarrow> (None, m)
      | (Some b, m) \<Rightarrow>
          (let (ok, b) = tb_can_take amount now b
           in (if ok then Some b else None, bm_put k b m)))"

lemma kb_check_level:
  assumes ok: "kb_ok r c m" and bef: "kb_before m now"
    and chk: "kb_check r c k amount now m = (ob, m')"
  shows "kb_ok r c m'" and "kb_before m' now"
    and "now \<le> now' \<Longrightarrow> klevel c m' k' now' = klevel c m k' now'"
    and "ob = Some b \<Longrightarrow> map_of (bm_map m') k = Some (b, now) \<and> amount \<le> tb_tokens b \<and> tb_ok b
           \<and> tb_rate b = r \<and> tb_capacity b = c \<and> tb_last b = now \<and> tb_tokens b = klevel c m k now"
proof -
  obtain ob1 m1 where goi: "bm_get_or_insert_with k now (tb_new r c now) m = (ob1, m1)" by fastforce
  note G = kb_get_or_insert[OF ok goi bef]
  have "kb_ok r c m' \<and> kb_before m' now \<and> (now \<le> now' \<longrightarrow> klevel c m' k' now' = klevel c m k' now')
    \<and> (ob = Some b \<longrightarrow> map_of (bm_map m') k = Some (b, now) \<and> amount \<le> tb_tokens b \<and> tb_ok b
           \<and> tb_rate b = r \<and> tb_capacity b = c \<and> tb_last b = now \<and> tb_tokens b = klevel c m k now)"
  proof (cases ob1)
    case None
    then show ?thesis using chk goi G[of k'] by (auto simp: kb_check_def)
  next
    case (Some b1)
    define b2 where "b2 = tb_refill now b1"
    have l: "map_of (bm_map m1) k = Some (b1, now)" using G[of k] Some by simp
    note b1 = kb_okD[OF G[of k, THEN conjunct1] l]
    have b2: "tb_ok b2" "tb_rate b2 = r" "tb_capacity b2 = c" "tb_last b2 \<le> now"
      using b1 tb_last_refill[OF b1(4)] by (simp_all add: b2_def)
    have m': "m' = bm_put k b2 m1" and ob: "ob = (if amount \<le> tb_tokens b2 then Some b2 else None)"
      using chk goi Some by (auto simp: kb_check_def tb_can_take_def Let_def b2_def)
    note P = kb_put[OF G[of k, THEN conjunct1] l b2]
    have lev: "blevel b2 now' = klevel c m k now'" if "now \<le> now'" for now'
      using blevel_refill[OF b1(1) that] G[of k] l that by (simp add: b2_def klevel_def)
    have "tb_tokens b2 = blevel b1 now" by (simp add: b2_def blevel_def)
    also have "\<dots> = klevel c m k now" using G[of k] l by (simp add: klevel_def)
    finally have tok: "tb_tokens b2 = klevel c m k now" .
    have "now \<le> now' \<longrightarrow> klevel c m' k' now' = klevel c m k' now'"
      using P(2)[of k' now'] lev G[of k'] by (simp add: m')
    then show ?thesis
      using P(1,3,4) G[of k] b2 tok tb_last_refill[OF b1(4)] ob
      by (auto simp: m' b2_def split: if_splits)
  qed
  then show "kb_ok r c m'" "kb_before m' now" "now \<le> now' \<Longrightarrow> klevel c m' k' now' = klevel c m k' now'"
    "ob = Some b \<Longrightarrow> map_of (bm_map m') k = Some (b, now) \<and> amount \<le> tb_tokens b \<and> tb_ok b
           \<and> tb_rate b = r \<and> tb_capacity b = c \<and> tb_last b = now \<and> tb_tokens b = klevel c m k now"
    by auto
qed

text \<open>A commit at the instant of the check takes exactly the amount from that key's budget.\<close>

lemma kb_commit_level:
  assumes ok: "kb_ok r c m" and l: "map_of (bm_map m) k = Some (b, now)"
    and a: "0 \<le> a" "a \<le> tb_tokens b" and last: "tb_last b = now"
  shows "kb_ok r c (bm_put k (tb_commit a b) m)"
    and "klevel c (bm_put k (tb_commit a b) m) k' now = klevel c m k' now - (if k' = k then a else 0)"
    and "kb_before m now' \<Longrightarrow> kb_before (bm_put k (tb_commit a b) m) now'"
proof -
  note b = kb_okD[OF ok l]
  have cb: "tb_ok (tb_commit a b)" "tb_rate (tb_commit a b) = r" "tb_capacity (tb_commit a b) = c"
    "tb_last (tb_commit a b) \<le> now"
    using b a last by (simp_all add: tb_commit_def tb_ok_def)
  note P = kb_put[OF ok l cb]
  show "kb_ok r c (bm_put k (tb_commit a b) m)" by (rule P(1))
  have "blevel (tb_commit a b) now = blevel b now - a"
    using b a last by (simp add: blevel_def tb_refill_def tb_commit_def)
  then show "klevel c (bm_put k (tb_commit a b) m) k' now = klevel c m k' now - (if k' = k then a else 0)"
    using P(2)[of k' now] l by (simp add: klevel_def)
  show "kb_before m now' \<Longrightarrow> kb_before (bm_put k (tb_commit a b) m) now'" by (rule P(4))
qed

text \<open>The one-step use of a keyed bucket: \<open>get_or_insert_with\<close>, then \<open>try_take\<close>.\<close>

definition kb_take ::
  "real \<Rightarrow> real \<Rightarrow> 'k \<Rightarrow> real \<Rightarrow> instant \<Rightarrow> ('k, token_bucket) bounded_ttl_map
   \<Rightarrow> bool \<times> ('k, token_bucket) bounded_ttl_map" where
  "kb_take r c k amount now m =
     (case bm_get_or_insert_with k now (tb_new r c now) m of
        (Some b, m) \<Rightarrow> (let (ok, b) = tb_try_take amount now b in (ok, bm_put k b m))
      | (None, m) \<Rightarrow> (False, m))"

lemma bm_put_put: "bm_put k b (bm_put k b' m) = bm_put k b m"
  by (auto simp: bm_put_def split: option.splits)

lemma kb_take_check:
  assumes "0 \<le> a"
  shows "kb_take r c k a now m =
    (case kb_check r c k a now m of
       (Some b, m') \<Rightarrow> (True, bm_put k (tb_commit a b) m') | (None, m') \<Rightarrow> (False, m'))"
  using assms
  by (auto simp: kb_take_def kb_check_def tb_try_take_def tb_can_take_def tb_commit_def Let_def
      bm_put_put split: option.splits prod.splits)

lemma kb_take_level:
  assumes ok: "kb_ok r c m" and bef: "kb_before m now" and a: "0 \<le> a"
    and take: "kb_take r c k a now m = (granted, m')"
  shows "kb_ok r c m'" and "kb_before m' now"
    and "klevel c m' k' now = klevel c m k' now - (if granted \<and> k' = k then a else 0)"
proof -
  obtain ob m1 where chk: "kb_check r c k a now m = (ob, m1)" by fastforce
  note C = kb_check_level[OF ok bef chk]
  have "kb_ok r c m' \<and> kb_before m' now
    \<and> klevel c m' k' now = klevel c m k' now - (if granted \<and> k' = k then a else 0)"
  proof (cases ob)
    case None
    then show ?thesis
      using take chk C(1,2) C(3)[of now k'] by (auto simp: kb_take_check[OF a])
  next
    case (Some b)
    then have g: "granted" "m' = bm_put k (tb_commit a b) m1"
      using take chk by (auto simp: kb_take_check[OF a])
    have B: "map_of (bm_map m1) k = Some (b, now)" "a \<le> tb_tokens b" "tb_last b = now"
      using C(4)[OF Some] by simp_all
    note K = kb_commit_level[OF C(1) B(1) a B(2,3)]
    show ?thesis
      using K(1) K(2)[of k'] K(3)[OF C(2)] C(3)[of now k'] B g by auto
  qed
  then show "kb_ok r c m'" "kb_before m' now"
    "klevel c m' k' now = klevel c m k' now - (if granted \<and> k' = k then a else 0)" by auto
qed

text \<open>A check, and a later commit at the same instant when \<open>sent\<close>.\<close>

lemma kb_checked_commit:
  assumes ok: "kb_ok r c m" and bef: "kb_before m now" and chk: "kb_check r c k (real n) now m = (ob, m1)"
  shows "kb_ok r c m1 \<and> kb_before m1 now \<and> klevel c m1 k' now = klevel c m k' now"
    and "sent \<Longrightarrow> ob \<noteq> None \<Longrightarrow>
      kb_ok r c (bm_put k (tb_commit (real n) (the ob)) m1)
      \<and> kb_before (bm_put k (tb_commit (real n) (the ob)) m1) now
      \<and> klevel c (bm_put k (tb_commit (real n) (the ob)) m1) k' now
        = klevel c m k' now - (if sent \<and> k' = k then real n else 0)"
proof -
  note C = kb_check_level[OF ok bef chk]
  show base: "kb_ok r c m1 \<and> kb_before m1 now \<and> klevel c m1 k' now = klevel c m k' now"
    using C(1,2) C(3)[of now k'] by simp
  assume sent and "ob \<noteq> None"
  then obtain b where b: "ob = Some b" by auto
  have B: "map_of (bm_map m1) k = Some (b, now)" "real n \<le> tb_tokens b" "tb_last b = now"
    using C(4)[OF b] by simp_all
  note K = kb_commit_level[OF C(1) B(1) _ B(2,3)]
  show "kb_ok r c (bm_put k (tb_commit (real n) (the ob)) m1)
      \<and> kb_before (bm_put k (tb_commit (real n) (the ob)) m1) now
      \<and> klevel c (bm_put k (tb_commit (real n) (the ob)) m1) k' now
        = klevel c m k' now - (if sent \<and> k' = k then real n else 0)"
    using K(1) K(2)[of k'] K(3)[of now] base b \<open>sent\<close> by simp
qed

end
