(* ===== verification/L4_Wake.thy ===== *)
theory L4_Wake
  imports L4_Counters Limiter_Map
begin

text \<open>
  The wake gate of \<open>crates/jkbase-proxy/src/l4_plane.rs\<close>: the per-project wake-rate buckets
  (\<open>try_wake_rate\<close>), the single-flight boot admission under the global wake budget and the
  tenant's fair share (\<open>ensure_boot\<close>), and the drop of the \<open>WakeInFlight\<close> guard. The semaphore
  is its number of free permits.

  The lemmas show that the permits, the in-flight map and the per-tenant counts always agree
  with the set of live guards, under every interleaving, and that a project is woken no faster
  than its bucket allows.
\<close>

section \<open>State and operations\<close>

definition WAKE_RATE_MAP_MAX :: nat where
  "WAKE_RATE_MAP_MAX = 8192"

definition WAKE_RATE_TTL :: duration where
  "WAKE_RATE_TTL = from_secs 300"

record wake_gate =
  wk_rate :: "(string, token_bucket) bounded_ttl_map"
  wk_inflight :: "(string, string option) hmap"
  wk_tenant_inflight :: "(string, nat) hmap"
  wk_permits :: nat
  wk_inflight_boots :: nat

type_synonym wake_in_flight = "string \<times> string option"

datatype boot_admit = Spawn wake_in_flight | Coalesced | BootBudgetFull

definition wake_gate_new :: "l4_plane_limits \<Rightarrow> wake_gate" where
  "wake_gate_new lm =
     \<lparr>wk_rate = bm_new WAKE_RATE_MAP_MAX WAKE_RATE_TTL, wk_inflight = [], wk_tenant_inflight = [],
      wk_permits = max (wake_budget lm) 1, wk_inflight_boots = 0\<rparr>"

definition try_wake_rate :: "l4_plane_limits \<Rightarrow> string \<Rightarrow> instant \<Rightarrow> wake_gate \<Rightarrow> bool \<times> wake_gate" where
  "try_wake_rate lm base now w =
     (let (ok, m) = kb_take (wake_rate_refill_per_sec lm) (real (wake_rate_burst lm)) base 1 now (wk_rate w)
      in (ok, w\<lparr>wk_rate := m\<rparr>))"

definition ensure_boot :: "l4_plane_limits \<Rightarrow> string \<Rightarrow> string option \<Rightarrow> wake_gate \<Rightarrow> boot_admit \<times> wake_gate" where
  "ensure_boot lm base tenant w =
     (if map_of (wk_inflight w) base \<noteq> None then (Coalesced, w)
      else if (case tenant of None \<Rightarrow> False
               | Some t \<Rightarrow> get_or_default 0 (wk_tenant_inflight w) t \<ge> wake_fair_share lm)
      then (BootBudgetFull, w)
      else if wk_permits w = 0 then (BootBudgetFull, w)
      else (Spawn (base, tenant),
            w\<lparr>wk_permits := wk_permits w - 1,
              wk_inflight := hupd base tenant (wk_inflight w),
              wk_tenant_inflight :=
                (case tenant of None \<Rightarrow> wk_tenant_inflight w
                 | Some t \<Rightarrow> hupd t (get_or_default 0 (wk_tenant_inflight w) t + 1) (wk_tenant_inflight w)),
              wk_inflight_boots := wk_inflight_boots w + 1\<rparr>))"

definition drop_wake_in_flight :: "wake_in_flight \<Rightarrow> wake_gate \<Rightarrow> wake_gate" where
  "drop_wake_in_flight g w =
     (let (base, tenant) = g
      in w\<lparr>wk_inflight_boots := wk_inflight_boots w - 1,
           wk_inflight := hdel base (wk_inflight w),
           wk_tenant_inflight :=
             (case tenant of None \<Rightarrow> wk_tenant_inflight w
              | Some t \<Rightarrow>
                  (case map_of (wk_tenant_inflight w) t of None \<Rightarrow> wk_tenant_inflight w
                   | Some n \<Rightarrow> if n - 1 = 0 then hdel t (wk_tenant_inflight w)
                              else hupd t (n - 1) (wk_tenant_inflight w))),
           wk_permits := wk_permits w + 1\<rparr>)"

definition wake_sweep :: "instant \<Rightarrow> wake_gate \<Rightarrow> wake_gate" where
  "wake_sweep now w = w\<lparr>wk_rate := bm_sweep now (wk_rate w)\<rparr>"

section \<open>The gate and its live guards\<close>

text \<open>
  The live guards are the entries of the in-flight map. \<open>inflight_of t\<close> counts the boots in
  flight for a tenant.
\<close>

definition inflight_of :: "string \<Rightarrow> (string, string option) hmap \<Rightarrow> nat" where
  "inflight_of t m = length (filter (\<lambda>(_, o'). o' = Some t) m)"

definition wake_ok :: "l4_plane_limits \<Rightarrow> wake_gate \<Rightarrow> bool" where
  "wake_ok lm w \<longleftrightarrow> hm_wf (wk_inflight w) \<and> hm_wf (wk_tenant_inflight w)
     \<and> wk_permits w + length (wk_inflight w) = max (wake_budget lm) 1
     \<and> wk_inflight_boots w = length (wk_inflight w)
     \<and> (\<forall>t. map_of (wk_tenant_inflight w) t =
          (if inflight_of t (wk_inflight w) = 0 then None else Some (inflight_of t (wk_inflight w))))
     \<and> (\<forall>t. inflight_of t (wk_inflight w) \<le> wake_fair_share lm)"

lemma inflight_of_hupd:
  "map_of m b = None \<Longrightarrow> inflight_of t (hupd b tn m) = inflight_of t m + (if tn = Some t then 1 else 0)"
  by (induction m) (auto simp: inflight_of_def split: if_splits)

lemma hdel_notin: "map_of m b = None \<Longrightarrow> hdel b m = m"
  by (induction m) (auto split: if_splits)

lemma inflight_of_hdel:
  "hm_wf m \<Longrightarrow> map_of m b = Some tn \<Longrightarrow>
   inflight_of t (hdel b m) + (if tn = Some t then 1 else 0) = inflight_of t m"
proof (induction m)
  case (Cons p m)
  show ?case
  proof (cases "fst p = b")
    case True
    then have "map_of m b = None" using Cons.prems(1) by (auto simp: hm_wf_def map_of_eq_None_iff)
    then show ?thesis
      using True Cons.prems(2) by (cases p) (simp add: inflight_of_def hdel_notin)
  next
    case False
    then show ?thesis
      using Cons by (cases p) (auto simp: inflight_of_def hm_wf_def)
  qed
qed simp

lemma wake_ok_new: "wake_ok lm (wake_gate_new lm)"
  by (simp add: wake_ok_def wake_gate_new_def inflight_of_def)

lemma wake_ok_get:
  "wake_ok lm w \<Longrightarrow> get_or_default 0 (wk_tenant_inflight w) t = inflight_of t (wk_inflight w)"
  by (simp add: wake_ok_def get_or_default_def)

lemma wake_ok_rate [simp]: "wake_ok lm (w\<lparr>wk_rate := m\<rparr>) = wake_ok lm w"
  by (simp add: wake_ok_def)

lemma wake_ok_ensure_boot:
  assumes "wake_ok lm w" and "ensure_boot lm b tn w = (a, w')"
  shows "wake_ok lm w'"
proof (cases "a = Spawn (b, tn)")
  case False
  then show ?thesis
    using assms by (auto simp: ensure_boot_def split: if_splits option.splits)
next
  case True
  have fresh: "map_of (wk_inflight w) b = None" and pos: "wk_permits w \<noteq> 0"
    and share: "\<And>t. tn = Some t \<Longrightarrow> inflight_of t (wk_inflight w) < wake_fair_share lm"
    and w': "w' = w\<lparr>wk_permits := wk_permits w - 1, wk_inflight := hupd b tn (wk_inflight w),
        wk_tenant_inflight := (case tn of None \<Rightarrow> wk_tenant_inflight w
           | Some t \<Rightarrow> hupd t (inflight_of t (wk_inflight w) + 1) (wk_tenant_inflight w)),
        wk_inflight_boots := wk_inflight_boots w + 1\<rparr>"
    using assms True wake_ok_get[OF assms(1)]
    by (auto simp: ensure_boot_def split: if_splits option.splits)
  have len: "length (hupd b tn (wk_inflight w)) = Suc (length (wk_inflight w))"
    using fresh by (simp add: length_hupd)
  have le: "inflight_of t (wk_inflight w) + (if tn = Some t then 1 else 0) \<le> wake_fair_share lm" for t
    using assms(1) share[of t] by (auto simp: wake_ok_def Suc_le_eq)
  show ?thesis
    using assms(1) pos le unfolding w' wake_ok_def
    by (auto simp: inflight_of_hupd[OF fresh] len split: option.splits)
qed

lemma wake_ok_drop:
  assumes "wake_ok lm w" and "map_of (wk_inflight w) b = Some tn"
  shows "wake_ok lm (drop_wake_in_flight (b, tn) w)"
proof -
  note wf = assms(1)[unfolded wake_ok_def]
  have "0 < length (wk_inflight w)"
    using assms(2) by (cases "wk_inflight w") auto
  then have len: "length (wk_inflight w) = Suc (length (hdel b (wk_inflight w)))"
    using wf assms(2) by (simp add: length_hdel)
  have cnt: "inflight_of t (hdel b (wk_inflight w))
      = inflight_of t (wk_inflight w) - (if tn = Some t then 1 else 0)"
    and pos_t: "tn = Some t \<Longrightarrow> 0 < inflight_of t (wk_inflight w)" for t
    using inflight_of_hdel[OF _ assms(2), of t] wf by auto
  show ?thesis
  proof (cases tn)
    case None
    then show ?thesis
      using wf cnt by (auto simp: wake_ok_def drop_wake_in_flight_def len)
  next
    case (Some t)
    have look: "map_of (wk_tenant_inflight w) t = Some (inflight_of t (wk_inflight w))"
      using wf pos_t[OF Some] by simp
    have "inflight_of t' (hdel b (wk_inflight w)) \<le> wake_fair_share lm" for t'
    proof -
      have "inflight_of t' (wk_inflight w) \<le> wake_fair_share lm" using wf by blast
      then show ?thesis by (simp add: cnt)
    qed
    then show ?thesis
      using wf pos_t[OF Some] look
      unfolding wake_ok_def by (auto simp: drop_wake_in_flight_def Some cnt len)
  qed
qed

section \<open>Every interleaving of wake requests and boot completions\<close>

inductive wake_step :: "l4_plane_limits \<Rightarrow> wake_gate \<Rightarrow> wake_gate \<Rightarrow> bool" for lm where
  rate: "try_wake_rate lm b now w = (ok, w') \<Longrightarrow> wake_step lm w w'"
| boot: "ensure_boot lm b tn w = (a, w') \<Longrightarrow> wake_step lm w w'"
| finish: "map_of (wk_inflight w) b = Some tn \<Longrightarrow> wake_step lm w (drop_wake_in_flight (b, tn) w)"
| sweep: "wake_step lm w (wake_sweep now w)"

inductive wake_reachable :: "l4_plane_limits \<Rightarrow> wake_gate \<Rightarrow> bool" for lm where
  start: "wake_reachable lm (wake_gate_new lm)"
| step: "wake_reachable lm w \<Longrightarrow> wake_step lm w w' \<Longrightarrow> wake_reachable lm w'"

lemma wake_step_ok: "wake_step lm w w' \<Longrightarrow> wake_ok lm w \<Longrightarrow> wake_ok lm w'"
proof (induction rule: wake_step.induct)
  case (rate b now w ok w')
  then show ?case by (auto simp: try_wake_rate_def split: prod.splits)
qed (auto simp: wake_ok_ensure_boot wake_ok_drop wake_sweep_def)

lemma wake_reachable_ok: "wake_reachable lm w \<Longrightarrow> wake_ok lm w"
  by (induction rule: wake_reachable.induct) (auto simp: wake_ok_new wake_step_ok)

text \<open>
  In every reachable state of the wake gate the free permits plus the boots in flight make up
  the wake budget (so a finished boot always returns its permit, and never more), the boots
  charged against the RAM floor are exactly the boots in flight, no tenant has more boots in
  flight than its fair share, and a project with a boot in flight is never booted a second time.
\<close>

theorem wake_gate_accounting:
  assumes "wake_reachable lm w"
  shows "wk_permits w + length (wk_inflight w) = max (wake_budget lm) 1
    \<and> wk_inflight_boots w = length (wk_inflight w)
    \<and> inflight_of t (wk_inflight w) \<le> wake_fair_share lm
    \<and> (map_of (wk_inflight w) b = Some tn \<longrightarrow> ensure_boot lm b tn' w = (Coalesced, w))"
  using wake_reachable_ok[OF assms] by (auto simp: wake_ok_def ensure_boot_def)

definition run_wake :: wake_gate where
  "run_wake = snd (ensure_boot default_limits ''a'' (Some ''t'') (wake_gate_new default_limits))"

lemma run_wake_reachable: "wake_reachable default_limits run_wake"
  unfolding run_wake_def
  by (rule wake_reachable.step[OF wake_reachable.start wake_step.boot]) (rule surjective_pairing)

theorem wake_gate_accounting_witness:
  "wk_permits run_wake = 15 \<and> length (wk_inflight run_wake) = 1
   \<and> wk_permits run_wake + length (wk_inflight run_wake) = 16
   \<and> ensure_boot default_limits ''a'' (Some ''t'') run_wake = (Coalesced, run_wake)"
proof -
  have r: "wk_permits run_wake = 15" "length (wk_inflight run_wake) = 1"
    "map_of (wk_inflight run_wake) ''a'' = Some (Some ''t'')"
    by (simp_all add: run_wake_def ensure_boot_def wake_gate_new_def default_limits_def get_or_default_def)
  then show ?thesis
    using wake_gate_accounting[OF run_wake_reachable, of "''t''" "''a''" "Some ''t''" "Some ''t''"]
    by (simp add: default_limits_def)
qed

section \<open>The wake rate of a project\<close>

definition wake_take ::
  "l4_plane_limits \<Rightarrow> string \<Rightarrow> instant \<Rightarrow> wake_gate \<times> instant \<Rightarrow> bool \<times> wake_gate \<times> instant" where
  "wake_take lm b now s = (case try_wake_rate lm b now (fst s) of (ok, w) \<Rightarrow> (ok, w, now))"

interpretation wake: rate_limiter "wake_take lm" "\<lambda>b. if b = b0 then 1 else 0"
  "\<lambda>(w, t). kb_ok (wake_rate_refill_per_sec lm) (real (wake_rate_burst lm)) (wk_rate w) \<and> kb_before (wk_rate w) t"
  "\<lambda>(w, t). klevel (real (wake_rate_burst lm)) (wk_rate w) b0 t" "wake_rate_refill_per_sec lm" snd
  for lm b0
proof
  fix s :: "wake_gate \<times> instant" and a now
  define r where "r = wake_rate_refill_per_sec lm"
  define c where "c = real (wake_rate_burst lm)"
  obtain w t where s: "s = (w, t)" by (cases s)
  obtain ok m' where tk: "kb_take r c a 1 now (wk_rate w) = (ok, m')" by fastforce
  have op: "wake_take lm a now s = (ok, w\<lparr>wk_rate := m'\<rparr>, now)"
    using tk by (simp add: wake_take_def try_wake_rate_def s r_def c_def)
  show "snd s \<le> now \<Longrightarrow> snd (snd (wake_take lm a now s)) = now" by (simp add: op)
  assume i: "case s of (w, t) \<Rightarrow> kb_ok (wake_rate_refill_per_sec lm) (real (wake_rate_burst lm)) (wk_rate w)
      \<and> kb_before (wk_rate w) t"
  then have ok: "kb_ok r c (wk_rate w)" and bef: "kb_before (wk_rate w) t"
    by (simp_all add: s r_def c_def)
  show "0 \<le> (case s of (w, t) \<Rightarrow> klevel (real (wake_rate_burst lm)) (wk_rate w) b0 t)"
    using klevel_bounds[OF ok] by (simp add: s c_def)
  assume "snd s \<le> now"
  then have le: "t \<le> now" by (simp add: s)
  have bef': "kb_before (wk_rate w) now" using bef le by (auto simp: kb_before_def intro: le_trans)
  note T = kb_take_level[OF ok bef' _ tk, simplified]
  show "case snd (wake_take lm a now s) of (w, t) \<Rightarrow>
      kb_ok (wake_rate_refill_per_sec lm) (real (wake_rate_burst lm)) (wk_rate w) \<and> kb_before (wk_rate w) t"
    using T(1,2) by (simp add: op r_def c_def)
  show "(case snd (wake_take lm a now s) of (w, t) \<Rightarrow> klevel (real (wake_rate_burst lm)) (wk_rate w) b0 t)
      + (if fst (wake_take lm a now s) then if a = b0 then 1 else 0 else 0)
      \<le> (case s of (w, t) \<Rightarrow> klevel (real (wake_rate_burst lm)) (wk_rate w) b0 t)
        + as_secs_f64 (now - snd s) * wake_rate_refill_per_sec lm"
    using T(3)[of b0] klevel_advance[OF ok le, of b0] by (auto simp: op[unfolded s] s c_def r_def)
qed

text \<open>
  However many projects are woken and in whatever order, one project is granted at most its
  wake burst plus its refill rate times the elapsed seconds, as long as a bucket refills within
  the map's time-to-live (so an evicted and re-made bucket grants nothing extra).
\<close>

theorem wake_rate_bound:
  assumes "0 \<le> wake_rate_refill_per_sec lm"
    and "real (wake_rate_burst lm) \<le> as_secs_f64 WAKE_RATE_TTL * wake_rate_refill_per_sec lm"
    and "chronological t0 rs"
  shows "fst (limiter_run (wake_take lm) (\<lambda>b. if b = b0 then 1 else 0) (wake_gate_new lm, t0) rs)
    \<le> real (wake_rate_burst lm) + as_secs_f64 (end_time t0 rs - t0) * wake_rate_refill_per_sec lm"
proof -
  have m: "wk_rate (wake_gate_new lm) = bm_new WAKE_RATE_MAP_MAX WAKE_RATE_TTL"
    by (simp add: wake_gate_new_def)
  have lev: "klevel c (bm_new WAKE_RATE_MAP_MAX WAKE_RATE_TTL) b0 t0 = c" for c
    by (simp add: klevel_def bm_new_def)
  have bef: "kb_before (bm_new WAKE_RATE_MAP_MAX WAKE_RATE_TTL) t0"
    by (simp add: kb_before_def bm_new_def)
  have "\<forall>(a, _) \<in> set rs. 0 \<le> (if a = b0 then 1 else 0 :: real)" by auto
  then show ?thesis
    using wake.run_bound[of lm "(wake_gate_new lm, t0)" rs b0] assms
      kb_ok_new[OF assms(1) _ assms(2), of WAKE_RATE_MAP_MAX]
    by (simp add: m lev bef)
qed

theorem wake_rate_bound_witness:
  "fst (limiter_run (wake_take default_limits) (\<lambda>b. if b = ''a'' then 1 else 0)
      (wake_gate_new default_limits, 0) [(''a'', 0), (''b'', 5), (''a'', 2000000000)]) \<le> 5 + 2 * (1 / 2)"
  using wake_rate_bound[of default_limits 0 "[(''a'', 0), (''b'', 5), (''a'', 2000000000)]" "''a''"]
  by (simp add: default_limits_def WAKE_RATE_TTL_def from_secs_def as_secs_f64_def)

end
