(* ===== verification/Net_Addr.thy ===== *)
theory Net_Addr
  imports Prelude
begin

unbundle bit_operations_syntax

text \<open>
  \<open>std::net::IpAddr\<close> and \<open>SocketAddr\<close>: a v4 address by its octets, a v6 address by its eight
  segments; and the destination-network key of \<open>l4_plane.rs\<close> (the /24 of a v4 address, the /64 of
  a v6 one).
\<close>

datatype ip_addr =
    V4 u8 u8 u8 u8
  | V6 u16 u16 u16 u16 u16 u16 u16 u16

type_synonym sock_addr = "ip_addr \<times> u16"

definition segment_octets :: "u16 \<Rightarrow> u8 list" where
  "segment_octets s = [ucast (drop_bit 8 s), ucast s]"

datatype netkey = NetV4 u8 u8 u8 | NetV6 "u8 list"

fun net_key :: "ip_addr \<Rightarrow> netkey" where
  "net_key (V4 a b c d) = NetV4 a b c"
| "net_key (V6 a b c d e f g h) =
     NetV6 (take 8 (concat (map segment_octets [a, b, c, d, e, f, g, h])))"

lemma segment_octets_inj: "segment_octets s = segment_octets s' \<Longrightarrow> s = s'"
proof (rule bit_word_eqI)
  fix n assume eq: "segment_octets s = segment_octets s'" and n: "n < LENGTH(16)"
  then have hi: "bit (ucast (drop_bit 8 s) :: u8) m = bit (ucast (drop_bit 8 s') :: u8) m"
    and lo: "bit (ucast s :: u8) m = bit (ucast s' :: u8) m" for m
    by (simp_all add: segment_octets_def)
  show "bit s n = bit s' n"
  proof (cases "n < 8")
    case True
    then show ?thesis using lo[of n] by (simp add: bit_ucast_iff)
  next
    case False
    then have "n - 8 < 8" using n by simp
    then show ?thesis using hi[of "n - 8"] False by (simp add: bit_ucast_iff bit_drop_bit_eq)
  qed
qed

text \<open>Two v6 addresses share a key exactly when they share their /64.\<close>

lemma net_key_v6_iff:
  "net_key (V6 a b c d e f g h) = net_key (V6 a' b' c' d' e' f' g' h')
     \<longleftrightarrow> a = a' \<and> b = b' \<and> c = c' \<and> d = d'"
proof -
  have eq: "net_key (V6 a b c d e f g h)
      = NetV6 (segment_octets a @ segment_octets b @ segment_octets c @ segment_octets d)"
    for a b c d e f g h :: u16
    by (simp add: segment_octets_def)
  have len: "length (segment_octets x) = 2" for x by (simp add: segment_octets_def)
  show ?thesis
    by (auto simp: eq len segment_octets_inj)
qed

end
