(* ===== verification/L4_Caps.thy ===== *)
theory L4_Caps
  imports L4_Counters Limiter_Map Net_Addr
begin

text \<open>
  The egress caps of \<open>crates/jkbase-proxy/src/l4_plane.rs\<close>: \<open>EgressState\<close>, the one-shot C0 grant
  (\<open>try_c0_grant\<close>) and the chain of aggregate caps (\<open>try_egress_aggregate\<close>): the platform victim
  backstop, the per-/24 backstop, the calling project's cap and the global ceiling.

  The lemmas show that the chain is all-or-nothing and that the platform bounds hold over every
  run of requests of every project, through three instances of \<open>rate_limiter\<close>.
\<close>

section \<open>State and operations\<close>

definition PER_PROJECT_MAP_MAX :: nat where "PER_PROJECT_MAP_MAX = 8192"
definition PER_PROJECT_TTL :: duration where "PER_PROJECT_TTL = from_secs 600"
definition PER_24_TTL :: duration where "PER_24_TTL = from_secs 120"
definition PER_SOURCE_TTL :: duration where "PER_SOURCE_TTL = from_secs 120"
definition C0_SOURCE_TTL :: duration where "C0_SOURCE_TTL = from_secs 300"

record egress_state =
  eg_per_victim :: "(ip_addr, token_bucket) bounded_ttl_map"
  eg_per_24 :: "(netkey, token_bucket) bounded_ttl_map"
  eg_per_project :: "(string, token_bucket) bounded_ttl_map"
  eg_global :: token_bucket
  eg_c0_global :: token_bucket
  eg_c0_sources :: "(ip_addr, unit) bounded_ttl_map"

datatype egress_reject = PerVictim | Per24 | PerProject | GlobalCap

definition egress_new :: "l4_plane_limits \<Rightarrow> instant \<Rightarrow> egress_state" where
  "egress_new lm now =
     \<lparr>eg_per_victim = bm_new (source_map_max lm) PER_SOURCE_TTL,
      eg_per_24 = bm_new (source_map_max lm) PER_24_TTL,
      eg_per_project = bm_new PER_PROJECT_MAP_MAX PER_PROJECT_TTL,
      eg_global = tb_new (real (egress_global_bps lm)) (real (egress_global_bps lm)) now,
      eg_c0_global = tb_new (c0_grant_per_sec_global lm) (max (c0_grant_per_sec_global lm * (4 / 10)) 1) now,
      eg_c0_sources = bm_new (source_map_max lm) C0_SOURCE_TTL\<rparr>"

definition try_c0_grant :: "ip_addr \<Rightarrow> instant \<Rightarrow> egress_state \<Rightarrow> bool \<times> egress_state" where
  "try_c0_grant dest_ip now eg =
     (if bm_contains (eg_c0_sources eg) dest_ip then (False, eg)
      else (let (ok, g) = tb_try_take 1 now (eg_c0_global eg); eg = eg\<lparr>eg_c0_global := g\<rparr>
            in if \<not> ok then (False, eg)
               else (case bm_get_or_insert_with dest_ip now () (eg_c0_sources eg) of
                       (None, m) \<Rightarrow> (False, eg\<lparr>eg_c0_sources := m\<rparr>)
                     | (Some _, m) \<Rightarrow> (True, eg\<lparr>eg_c0_sources := m\<rparr>))))"

text \<open>The per-project level: the bucket is re-pointed at the caller's rate before the check.\<close>

definition project_check ::
  "string \<Rightarrow> real \<Rightarrow> real \<Rightarrow> instant \<Rightarrow> (string, token_bucket) bounded_ttl_map
   \<Rightarrow> token_bucket option \<times> (string, token_bucket) bounded_ttl_map" where
  "project_check base pp_bps amount now m =
     (case bm_get_or_insert_with base now (tb_new pp_bps pp_bps now) m of
        (None, m) \<Rightarrow> (None, m)
      | (Some bp, m) \<Rightarrow>
          (let bp = (if tb_rate bp \<noteq> pp_bps then tb_retune pp_bps pp_bps bp else bp);
               (ok, bp) = tb_can_take amount now bp
           in (if ok then Some bp else None, bm_put base bp m)))"

definition try_egress_aggregate ::
  "l4_plane_limits \<Rightarrow> string \<Rightarrow> ip_addr \<Rightarrow> nat \<Rightarrow> l4_port_egress_limits \<Rightarrow> instant \<Rightarrow> egress_state
   \<Rightarrow> (egress_reject + unit) \<times> egress_state" where
  "try_egress_aggregate lm base dest_ip n limits now eg =
     (let amount = real n;
          (bv, pv) = kb_check (real (per_victim_bps lm)) (real (per_victim_burst lm)) dest_ip amount now
                       (eg_per_victim eg);
          eg = eg\<lparr>eg_per_victim := pv\<rparr>
      in case bv of None \<Rightarrow> (Inl PerVictim, eg) | Some bv \<Rightarrow>
     (let (b24, p24) = kb_check (real (egress_per_24_bps lm)) (real (egress_per_24_bps lm))
                         (net_key dest_ip) amount now (eg_per_24 eg);
          eg = eg\<lparr>eg_per_24 := p24\<rparr>
      in case b24 of None \<Rightarrow> (Inl Per24, eg) | Some b24 \<Rightarrow>
     (let (bp, pp) = project_check base (real (per_project_bps limits)) amount now (eg_per_project eg);
          eg = eg\<lparr>eg_per_project := pp\<rparr>
      in case bp of None \<Rightarrow> (Inl PerProject, eg) | Some bp \<Rightarrow>
     (let (ok, g) = tb_can_take amount now (eg_global eg); eg = eg\<lparr>eg_global := g\<rparr>
      in if \<not> ok then (Inl GlobalCap, eg)
         else (Inr (),
               eg\<lparr>eg_per_victim := bm_put dest_ip (tb_commit amount bv) (eg_per_victim eg),
                  eg_per_24 := bm_put (net_key dest_ip) (tb_commit amount b24) (eg_per_24 eg),
                  eg_per_project := bm_put base (tb_commit amount bp) (eg_per_project eg),
                  eg_global := tb_commit amount (eg_global eg)\<rparr>)))))"

definition egress_sweep :: "instant \<Rightarrow> egress_state \<Rightarrow> egress_state" where
  "egress_sweep now eg =
     eg\<lparr>eg_per_victim := bm_sweep now (eg_per_victim eg), eg_per_24 := bm_sweep now (eg_per_24 eg),
        eg_per_project := bm_sweep now (eg_per_project eg), eg_c0_sources := bm_sweep now (eg_c0_sources eg)\<rparr>"

section \<open>Budgets\<close>

definition victim_budget :: "l4_plane_limits \<Rightarrow> egress_state \<Rightarrow> ip_addr \<Rightarrow> instant \<Rightarrow> real" where
  "victim_budget lm eg ip now = klevel (real (per_victim_burst lm)) (eg_per_victim eg) ip now"

definition net_budget :: "l4_plane_limits \<Rightarrow> egress_state \<Rightarrow> netkey \<Rightarrow> instant \<Rightarrow> real" where
  "net_budget lm eg k now = klevel (real (egress_per_24_bps lm)) (eg_per_24 eg) k now"

definition global_budget :: "egress_state \<Rightarrow> instant \<Rightarrow> real" where
  "global_budget eg now = blevel (eg_global eg) now"

definition caps_refill_in_ttl :: "l4_plane_limits \<Rightarrow> bool" where
  "caps_refill_in_ttl lm \<longleftrightarrow>
     real (per_victim_burst lm) \<le> as_secs_f64 PER_SOURCE_TTL * real (per_victim_bps lm)"

definition eg_ok :: "l4_plane_limits \<Rightarrow> egress_state \<Rightarrow> instant \<Rightarrow> bool" where
  "eg_ok lm eg now \<longleftrightarrow>
     kb_ok (real (per_victim_bps lm)) (real (per_victim_burst lm)) (eg_per_victim eg)
     \<and> kb_before (eg_per_victim eg) now
     \<and> kb_ok (real (egress_per_24_bps lm)) (real (egress_per_24_bps lm)) (eg_per_24 eg)
     \<and> kb_before (eg_per_24 eg) now
     \<and> tb_ok (eg_global eg) \<and> tb_rate (eg_global eg) = real (egress_global_bps lm)
     \<and> tb_capacity (eg_global eg) = real (egress_global_bps lm) \<and> tb_last (eg_global eg) \<le> now"

lemma kb_before_mono: "kb_before m t \<Longrightarrow> t \<le> t' \<Longrightarrow> kb_before m t'"
  by (auto simp: kb_before_def intro: le_trans)

lemma eg_ok_mono: "eg_ok lm eg t \<Longrightarrow> t \<le> t' \<Longrightarrow> eg_ok lm eg t'"
  by (auto simp: eg_ok_def intro: kb_before_mono)

lemma eg_ok_new:
  assumes "caps_refill_in_ttl lm"
  shows "eg_ok lm (egress_new lm now) now"
proof -
  have "real (egress_per_24_bps lm) \<le> as_secs_f64 PER_24_TTL * real (egress_per_24_bps lm)"
    by (simp add: PER_24_TTL_def from_secs_def as_secs_f64_def)
  then show ?thesis
    using assms
    by (simp add: eg_ok_def egress_new_def caps_refill_in_ttl_def kb_ok_new)
      (simp add: kb_before_def bm_new_def)
qed

text \<open>One step of the chain: every platform budget moves by the amount sent, or not at all.\<close>

lemma try_egress_aggregate_step:
  assumes ok: "eg_ok lm eg now" and agg: "try_egress_aggregate lm base ip n limits now eg = (res, eg')"
  shows "eg_ok lm eg' now"
    and "victim_budget lm eg' ip' now = victim_budget lm eg ip' now - (if is_ok res \<and> ip' = ip then real n else 0)"
    and "net_budget lm eg' k now = net_budget lm eg k now - (if is_ok res \<and> k = net_key ip then real n else 0)"
    and "global_budget eg' now = global_budget eg now - (if is_ok res then real n else 0)"
proof -
  obtain bv pv where cv: "kb_check (real (per_victim_bps lm)) (real (per_victim_burst lm)) ip (real n) now
      (eg_per_victim eg) = (bv, pv)" by fastforce
  obtain b24 p24 where c24: "kb_check (real (egress_per_24_bps lm)) (real (egress_per_24_bps lm)) (net_key ip)
      (real n) now (eg_per_24 eg) = (b24, p24)" by fastforce
  obtain bp pp where cp: "project_check base (real (per_project_bps limits)) (real n) now (eg_per_project eg)
      = (bp, pp)" by fastforce
  define g where "g = tb_refill now (eg_global eg)"
  define sent where "sent = is_ok res"
  have shape: "eg_per_victim eg' = (if sent then bm_put ip (tb_commit (real n) (the bv)) pv else pv)"
    "eg_per_24 eg' = (if sent then bm_put (net_key ip) (tb_commit (real n) (the b24)) p24
       else if bv = None then eg_per_24 eg else p24)"
    "eg_global eg' = (if sent then tb_commit (real n) g
       else if bv = None \<or> b24 = None \<or> bp = None then eg_global eg else g)"
    "sent \<Longrightarrow> bv \<noteq> None \<and> b24 \<noteq> None \<and> real n \<le> tb_tokens g"
    using agg
    by (auto simp: try_egress_aggregate_def cv c24 cp sent_def tb_can_take_def g_def Let_def
        split: option.splits if_splits)
  have ov: "kb_ok (real (per_victim_bps lm)) (real (per_victim_burst lm)) (eg_per_victim eg)"
    "kb_before (eg_per_victim eg) now"
    and on: "kb_ok (real (egress_per_24_bps lm)) (real (egress_per_24_bps lm)) (eg_per_24 eg)"
    "kb_before (eg_per_24 eg) now"
    and og: "tb_ok (eg_global eg)" "tb_rate (eg_global eg) = real (egress_global_bps lm)"
    "tb_capacity (eg_global eg) = real (egress_global_bps lm)" "tb_last (eg_global eg) \<le> now"
    using ok by (simp_all add: eg_ok_def)
  have V: "kb_ok (real (per_victim_bps lm)) (real (per_victim_burst lm)) (eg_per_victim eg')
      \<and> kb_before (eg_per_victim eg') now
      \<and> klevel (real (per_victim_burst lm)) (eg_per_victim eg') ip' now
        = klevel (real (per_victim_burst lm)) (eg_per_victim eg) ip' now - (if sent \<and> ip' = ip then real n else 0)"
    using kb_checked_commit(1)[OF ov cv, of ip'] kb_checked_commit(2)[OF ov cv, of sent ip'] shape(1,4)
    by auto
  have N: "kb_ok (real (egress_per_24_bps lm)) (real (egress_per_24_bps lm)) (eg_per_24 eg')
      \<and> kb_before (eg_per_24 eg') now
      \<and> klevel (real (egress_per_24_bps lm)) (eg_per_24 eg') k now
        = klevel (real (egress_per_24_bps lm)) (eg_per_24 eg) k now
          - (if sent \<and> k = net_key ip then real n else 0)"
    using kb_checked_commit(1)[OF on c24, of k] kb_checked_commit(2)[OF on c24, of sent k] on shape(2,4)
    by auto
  have G: "tb_ok (eg_global eg')" "tb_rate (eg_global eg') = real (egress_global_bps lm)"
    "tb_capacity (eg_global eg') = real (egress_global_bps lm)" "tb_last (eg_global eg') \<le> now"
    "blevel (eg_global eg') now = blevel (eg_global eg) now - (if sent then real n else 0)"
    using og shape(3,4) tb_last_refill[OF og(4)] blevel_refill[OF og(1), of now now]
    by (auto simp: g_def tb_commit_def tb_ok_def blevel_def) (auto simp: tb_refill_def tb_ok_def)
  show "eg_ok lm eg' now" using V N G by (simp add: eg_ok_def)
  show "victim_budget lm eg' ip' now = victim_budget lm eg ip' now - (if is_ok res \<and> ip' = ip then real n else 0)"
    using V by (simp add: victim_budget_def sent_def)
  show "net_budget lm eg' k now = net_budget lm eg k now - (if is_ok res \<and> k = net_key ip then real n else 0)"
    using N by (simp add: net_budget_def sent_def)
  show "global_budget eg' now = global_budget eg now - (if is_ok res then real n else 0)"
    using G by (simp add: global_budget_def sent_def)
qed

section \<open>The project level\<close>

definition project_budget :: "egress_state \<Rightarrow> string \<Rightarrow> real \<Rightarrow> instant \<Rightarrow> real" where
  "project_budget eg base pp now = klevel pp (eg_per_project eg) base now"

text \<open>The project's bucket, if it has one, runs at the rate its ports are configured with.\<close>

definition project_at_rate :: "egress_state \<Rightarrow> string \<Rightarrow> real \<Rightarrow> instant \<Rightarrow> bool" where
  "project_at_rate eg base pp now \<longleftrightarrow> bm_wf (eg_per_project eg) \<and> 0 \<le> pp \<and>
     (\<forall>b t. map_of (bm_map (eg_per_project eg)) base = Some (b, t) \<longrightarrow>
        tb_ok b \<and> tb_rate b = pp \<and> tb_capacity b = pp \<and> tb_last b \<le> now)"

lemma project_check_level:
  assumes wf: "bm_wf m" and pp: "0 \<le> pp"
    and e: "\<And>b t. map_of (bm_map m) base = Some (b, t) \<Longrightarrow>
              tb_ok b \<and> tb_rate b = pp \<and> tb_capacity b = pp \<and> tb_last b \<le> now"
    and chk: "project_check base pp a now m = (ob, m')"
  shows "klevel pp m' base now = klevel pp m base now"
    and "ob = Some b \<Longrightarrow> 0 \<le> a \<Longrightarrow>
      klevel pp (bm_put base (tb_commit a b) m') base now = klevel pp m base now - a"
proof -
  obtain ob1 m1 where goi: "bm_get_or_insert_with base now (tb_new pp pp now) m = (ob1, m1)" by fastforce
  have "klevel pp m' base now = klevel pp m base now \<and> (ob = Some b \<and> 0 \<le> a \<longrightarrow>
      klevel pp (bm_put base (tb_commit a b) m') base now = klevel pp m base now - a)"
  proof (cases ob1)
    case None
    then show ?thesis
      using chk goi bm_get_or_insert_None(1)[OF wf, of base now] by (auto simp: project_check_def)
  next
    case (Some b1)
    note S = bm_get_or_insert_Some[OF wf goi[unfolded Some]]
    have b1: "tb_ok b1" "tb_rate b1 = pp" "tb_last b1 \<le> now" "blevel b1 now = klevel pp m base now"
      using S(2) e pp by (auto simp: klevel_def blevel_eq split: option.splits)
    define b2 where "b2 = tb_refill now b1"
    have m': "m' = bm_put base b2 m1" "ob = (if a \<le> tb_tokens b2 then Some b2 else None)"
      using chk goi Some b1 by (auto simp: project_check_def tb_can_take_def Let_def b2_def)
    have b2: "tb_ok b2" "tb_last b2 = now" "blevel b2 now = klevel pp m base now"
      using b1 tb_last_refill[OF b1(3)] blevel_refill[OF b1(1), of now now] by (simp_all add: b2_def)
    have "blevel (tb_commit a b2) now = blevel b2 now - a" if "0 \<le> a" "a \<le> tb_tokens b2"
      using b2 that by (simp add: blevel_def tb_refill_def tb_commit_def)
    then show ?thesis
      using b2 S(1) by (auto simp: m' klevel_def map_of_bm_put bm_put_put split: if_splits)
  qed
  then show "klevel pp m' base now = klevel pp m base now"
    and "ob = Some b \<Longrightarrow> 0 \<le> a \<Longrightarrow>
      klevel pp (bm_put base (tb_commit a b) m') base now = klevel pp m base now - a" by auto
qed

lemma try_egress_aggregate_project:
  assumes "project_at_rate eg base (real (per_project_bps limits)) now"
    and agg: "try_egress_aggregate lm base ip n limits now eg = (res, eg')"
  shows "project_budget eg' base (real (per_project_bps limits)) now
    = project_budget eg base (real (per_project_bps limits)) now - (if is_ok res then real n else 0)"
proof -
  obtain bv pv where cv: "kb_check (real (per_victim_bps lm)) (real (per_victim_burst lm)) ip (real n) now
      (eg_per_victim eg) = (bv, pv)" by fastforce
  obtain b24 p24 where c24: "kb_check (real (egress_per_24_bps lm)) (real (egress_per_24_bps lm)) (net_key ip)
      (real n) now (eg_per_24 eg) = (b24, p24)" by fastforce
  obtain bp pp where cp: "project_check base (real (per_project_bps limits)) (real n) now (eg_per_project eg)
      = (bp, pp)" by fastforce
  have a: "bm_wf (eg_per_project eg)" "0 \<le> real (per_project_bps limits)"
    "\<And>b t. map_of (bm_map (eg_per_project eg)) base = Some (b, t) \<Longrightarrow>
       tb_ok b \<and> tb_rate b = real (per_project_bps limits) \<and> tb_capacity b = real (per_project_bps limits)
       \<and> tb_last b \<le> now"
    using assms(1) by (auto simp: project_at_rate_def)
  have shape: "eg_per_project eg' = (if is_ok res then bm_put base (tb_commit (real n) (the bp)) pp
       else if bv = None \<or> b24 = None then eg_per_project eg else pp)"
    "is_ok res \<Longrightarrow> bp \<noteq> None"
    using agg
    by (auto simp: try_egress_aggregate_def cv c24 cp tb_can_take_def Let_def
        split: option.splits if_splits)
  note P = project_check_level[OF a cp]
  show ?thesis
    using shape P(1) P(2)[where b = "the bp"] by (auto simp: project_budget_def)
qed

text \<open>
  The egress chain is all-or-nothing. A refused reply leaves the budget of every level (victim
  address, /24, project and global) as it was, so a tenant that loses a shared race is not charged
  for a datagram that was never sent; an admitted reply is charged exactly once, at its own
  victim, network, project and the global bucket, and nowhere else.
\<close>

theorem egress_all_or_nothing:
  assumes "eg_ok lm eg now" and "project_at_rate eg base (real (per_project_bps limits)) now"
    and "try_egress_aggregate lm base ip n limits now eg = (res, eg')"
  shows "(is_ok res \<longrightarrow>
      (\<forall>ip'. victim_budget lm eg' ip' now = victim_budget lm eg ip' now - (if ip' = ip then real n else 0))
      \<and> (\<forall>k. net_budget lm eg' k now = net_budget lm eg k now - (if k = net_key ip then real n else 0))
      \<and> project_budget eg' base (real (per_project_bps limits)) now
          = project_budget eg base (real (per_project_bps limits)) now - real n
      \<and> global_budget eg' now = global_budget eg now - real n)
    \<and> (\<not> is_ok res \<longrightarrow>
      (\<forall>ip'. victim_budget lm eg' ip' now = victim_budget lm eg ip' now)
      \<and> (\<forall>k. net_budget lm eg' k now = net_budget lm eg k now)
      \<and> project_budget eg' base (real (per_project_bps limits)) now
          = project_budget eg base (real (per_project_bps limits)) now
      \<and> global_budget eg' now = global_budget eg now)"
  using try_egress_aggregate_step[OF assms(1,3)] try_egress_aggregate_project[OF assms(2,3)] by auto

theorem egress_all_or_nothing_witness:
  "let lm = default_limits; pl = default_port_egress_limits lm; eg = egress_new lm 0;
       ip = V4 1 2 3 4; (res, eg') = try_egress_aggregate lm ''a'' ip 1500 pl 0 eg
   in res = Inr () \<and> global_budget eg' 0 = global_budget eg 0 - 1500
      \<and> victim_budget lm eg' ip 0 = victim_budget lm eg ip 0 - 1500"
proof -
  define lm where "lm = default_limits"
  define pl where "pl = default_port_egress_limits lm"
  define eg where "eg = egress_new lm 0"
  define ip where "ip = V4 1 2 3 4"
  obtain res eg' where agg: "try_egress_aggregate lm ''a'' ip 1500 pl 0 eg = (res, eg')" by fastforce
  have e: "eg_ok lm eg 0"
    unfolding eg_def
    by (rule eg_ok_new) (simp add: caps_refill_in_ttl_def lm_def default_limits_def PER_SOURCE_TTL_def
        from_secs_def as_secs_f64_def)
  have p: "project_at_rate eg ''a'' (real (per_project_bps pl)) 0"
    by (simp add: project_at_rate_def eg_def egress_new_def) (simp add: bm_new_def)
  have "fst (try_egress_aggregate lm ''a'' ip 1500 pl 0 eg) = Inr ()"
    by (simp add: try_egress_aggregate_def eg_def egress_new_def lm_def default_limits_def pl_def
        default_port_egress_limits_def ip_def kb_check_def project_check_def bm_get_or_insert_with_def
        bm_new_def tb_defs PER_PROJECT_MAP_MAX_def Let_def)
  with agg have r: "res = Inr ()" by simp
  show ?thesis
    using egress_all_or_nothing[OF e p agg] agg r
    by (simp add: Let_def flip: lm_def) (simp flip: pl_def eg_def ip_def)
qed

section \<open>Platform bounds over every run\<close>

text \<open>Everything that touches the egress state: replies of any project, C0 grants, the sweep.\<close>

datatype egress_req =
    Reply string ip_addr nat l4_port_egress_limits
  | C0Request ip_addr
  | EgressSweep

fun egress_op :: "l4_plane_limits \<Rightarrow> egress_req \<Rightarrow> instant \<Rightarrow> egress_state \<Rightarrow> bool \<times> egress_state" where
  "egress_op lm (Reply base ip n limits) now eg =
     (let (res, eg') = try_egress_aggregate lm base ip n limits now eg in (is_ok res, eg'))"
| "egress_op lm (C0Request ip) now eg = try_c0_grant ip now eg"
| "egress_op lm EgressSweep now eg = (True, egress_sweep now eg)"

fun reply_bytes :: "(ip_addr \<Rightarrow> bool) \<Rightarrow> egress_req \<Rightarrow> real" where
  "reply_bytes P (Reply base ip n limits) = (if P ip then real n else 0)"
| "reply_bytes P (C0Request ip) = 0"
| "reply_bytes P EgressSweep = 0"

definition egress_take ::
  "l4_plane_limits \<Rightarrow> egress_req \<Rightarrow> instant \<Rightarrow> egress_state \<times> instant \<Rightarrow> bool \<times> egress_state \<times> instant" where
  "egress_take lm q now s = (case egress_op lm q now (fst s) of (ok, eg) \<Rightarrow> (ok, eg, now))"

lemma reply_bytes_nonneg [simp]: "0 \<le> reply_bytes P q"
  by (cases q) auto

lemma try_c0_grant_frame:
  "eg_per_victim (snd (try_c0_grant ip now eg)) = eg_per_victim eg"
  "eg_per_24 (snd (try_c0_grant ip now eg)) = eg_per_24 eg"
  "eg_global (snd (try_c0_grant ip now eg)) = eg_global eg"
  by (auto simp: try_c0_grant_def Let_def split: prod.splits option.splits)

lemma egress_op_step:
  assumes "eg_ok lm eg now" and "egress_op lm q now eg = (ok, eg')"
  shows "eg_ok lm eg' now"
    and "victim_budget lm eg' ip now = victim_budget lm eg ip now - (if ok then reply_bytes (\<lambda>d. d = ip) q else 0)"
    and "net_budget lm eg' k now = net_budget lm eg k now - (if ok then reply_bytes (\<lambda>d. net_key d = k) q else 0)"
    and "global_budget eg' now = global_budget eg now - (if ok then reply_bytes (\<lambda>_. True) q else 0)"
proof -
  have "eg_ok lm eg' now
    \<and> victim_budget lm eg' ip now = victim_budget lm eg ip now - (if ok then reply_bytes (\<lambda>d. d = ip) q else 0)
    \<and> net_budget lm eg' k now = net_budget lm eg k now - (if ok then reply_bytes (\<lambda>d. net_key d = k) q else 0)
    \<and> global_budget eg' now = global_budget eg now - (if ok then reply_bytes (\<lambda>_. True) q else 0)"
  proof (cases q)
    case (Reply base d n limits)
    obtain res eg1 where agg: "try_egress_aggregate lm base d n limits now eg = (res, eg1)" by fastforce
    then have "ok = is_ok res" "eg' = eg1" using assms(2) Reply by auto
    then show ?thesis
      using try_egress_aggregate_step[OF assms(1) agg] Reply by auto
  next
    case (C0Request d)
    have eg': "eg' = snd (try_c0_grant d now eg)" using assms(2) C0Request by (metis egress_op.simps(2) snd_conv)
    then show ?thesis
      using assms(1) C0Request by (simp add: eg_ok_def victim_budget_def net_budget_def global_budget_def try_c0_grant_frame)
  next
    case EgressSweep
    then have "eg' = egress_sweep now eg" using assms(2) by simp
    moreover have v: "kb_ok (real (per_victim_bps lm)) (real (per_victim_burst lm)) (eg_per_victim eg)"
      and n: "kb_ok (real (egress_per_24_bps lm)) (real (egress_per_24_bps lm)) (eg_per_24 eg)"
      using assms(1) by (simp_all add: eg_ok_def)
    ultimately show ?thesis
      using assms(1) EgressSweep kb_before_sweep[OF kb_ok_wf[OF v]] kb_before_sweep[OF kb_ok_wf[OF n]]
        klevel_sweep[OF v, of now now ip] klevel_sweep[OF n, of now now k]
      by (simp add: eg_ok_def victim_budget_def net_budget_def global_budget_def egress_sweep_def kb_ok_sweep)
  qed
  then show "eg_ok lm eg' now"
    and "victim_budget lm eg' ip now = victim_budget lm eg ip now - (if ok then reply_bytes (\<lambda>d. d = ip) q else 0)"
    and "net_budget lm eg' k now = net_budget lm eg k now - (if ok then reply_bytes (\<lambda>d. net_key d = k) q else 0)"
    and "global_budget eg' now = global_budget eg now - (if ok then reply_bytes (\<lambda>_. True) q else 0)"
    by auto
qed

lemma egress_take_eq: "egress_take lm q now (eg, t) = (fst (egress_op lm q now eg), snd (egress_op lm q now eg), now)"
  by (simp add: egress_take_def split_beta)

lemma eg_ok_take:
  "eg_ok lm eg t \<Longrightarrow> t \<le> now \<Longrightarrow> eg_ok lm (snd (egress_op lm q now eg)) now"
  using egress_op_step(1)[OF eg_ok_mono surjective_pairing] by blast

interpretation victim: rate_limiter "egress_take lm" "reply_bytes (\<lambda>d. d = ip)"
  "\<lambda>(eg, t). eg_ok lm eg t" "\<lambda>(eg, t). victim_budget lm eg ip t" "real (per_victim_bps lm)" snd
  for lm ip
proof
  fix s :: "egress_state \<times> instant" and q now
  obtain eg t where s: "s = (eg, t)" by (cases s)
  assume i: "case s of (eg, t) \<Rightarrow> eg_ok lm eg t"
  then have ok: "kb_ok (real (per_victim_bps lm)) (real (per_victim_burst lm)) (eg_per_victim eg)"
    by (simp add: s eg_ok_def)
  show "0 \<le> (case s of (eg, t) \<Rightarrow> victim_budget lm eg ip t)"
    using klevel_bounds[OF ok] by (simp add: s victim_budget_def)
  assume le: "snd s \<le> now"
  show "(case snd (egress_take lm q now s) of (eg, t) \<Rightarrow> victim_budget lm eg ip t)
      + (if fst (egress_take lm q now s) then reply_bytes (\<lambda>d. d = ip) q else 0)
      \<le> (case s of (eg, t) \<Rightarrow> victim_budget lm eg ip t) + as_secs_f64 (now - snd s) * real (per_victim_bps lm)"
    using egress_op_step(2)[OF eg_ok_mono surjective_pairing, of lm eg t now q ip] i le
      klevel_advance[OF ok, of t now ip]
    by (simp add: s egress_take_eq victim_budget_def)
qed (auto simp: egress_take_eq eg_ok_take)

interpretation net24: rate_limiter "egress_take lm" "reply_bytes (\<lambda>d. net_key d = k)"
  "\<lambda>(eg, t). eg_ok lm eg t" "\<lambda>(eg, t). net_budget lm eg k t" "real (egress_per_24_bps lm)" snd
  for lm k
proof
  fix s :: "egress_state \<times> instant" and q now
  obtain eg t where s: "s = (eg, t)" by (cases s)
  assume i: "case s of (eg, t) \<Rightarrow> eg_ok lm eg t"
  then have ok: "kb_ok (real (egress_per_24_bps lm)) (real (egress_per_24_bps lm)) (eg_per_24 eg)"
    by (simp add: s eg_ok_def)
  show "0 \<le> (case s of (eg, t) \<Rightarrow> net_budget lm eg k t)"
    using klevel_bounds[OF ok] by (simp add: s net_budget_def)
  assume le: "snd s \<le> now"
  show "(case snd (egress_take lm q now s) of (eg, t) \<Rightarrow> net_budget lm eg k t)
      + (if fst (egress_take lm q now s) then reply_bytes (\<lambda>d. net_key d = k) q else 0)
      \<le> (case s of (eg, t) \<Rightarrow> net_budget lm eg k t) + as_secs_f64 (now - snd s) * real (egress_per_24_bps lm)"
    using egress_op_step(3)[OF eg_ok_mono surjective_pairing, of lm eg t now q k] i le
      klevel_advance[OF ok, of t now k]
    by (simp add: s egress_take_eq net_budget_def)
qed (auto simp: egress_take_eq eg_ok_take)

interpretation platform: rate_limiter "egress_take lm" "reply_bytes (\<lambda>_. True)"
  "\<lambda>(eg, t). eg_ok lm eg t" "\<lambda>(eg, t). global_budget eg t" "real (egress_global_bps lm)" snd
  for lm
proof
  fix s :: "egress_state \<times> instant" and q now
  obtain eg t where s: "s = (eg, t)" by (cases s)
  assume i: "case s of (eg, t) \<Rightarrow> eg_ok lm eg t"
  then have ok: "tb_ok (eg_global eg)" "tb_rate (eg_global eg) = real (egress_global_bps lm)"
    by (simp_all add: s eg_ok_def)
  show "0 \<le> (case s of (eg, t) \<Rightarrow> global_budget eg t)"
    using blevel_bounds[OF ok(1)] by (simp add: s global_budget_def)
  assume le: "snd s \<le> now"
  show "(case snd (egress_take lm q now s) of (eg, t) \<Rightarrow> global_budget eg t)
      + (if fst (egress_take lm q now s) then reply_bytes (\<lambda>_. True) q else 0)
      \<le> (case s of (eg, t) \<Rightarrow> global_budget eg t) + as_secs_f64 (now - snd s) * real (egress_global_bps lm)"
    using egress_op_step(4)[OF eg_ok_mono surjective_pairing, of lm eg t now q] i le
      blevel_advance[OF ok(1), of t now] ok(2)
    by (simp add: s egress_take_eq global_budget_def)
qed (auto simp: egress_take_eq eg_ok_take)

text \<open>
  The platform victim backstop. Whatever the projects send, under whatever per-project
  overrides, and however buckets are evicted and re-made, the bytes admitted toward one
  destination address are at most the victim burst plus the victim rate times the elapsed
  seconds.
\<close>

theorem victim_backstop_bound:
  assumes "caps_refill_in_ttl lm" and "chronological t0 rs"
  shows "fst (limiter_run (egress_take lm) (reply_bytes (\<lambda>d. d = ip)) (egress_new lm t0, t0) rs)
    \<le> real (per_victim_burst lm) + as_secs_f64 (end_time t0 rs - t0) * real (per_victim_bps lm)"
proof -
  have "victim_budget lm (egress_new lm t0) ip t0 = real (per_victim_burst lm)"
    by (simp add: victim_budget_def egress_new_def klevel_def bm_new_def)
  then show ?thesis
    using victim.run_bound[of lm "(egress_new lm t0, t0)" rs ip] eg_ok_new[OF assms(1)] assms(2) by simp
qed

theorem victim_backstop_bound_witness:
  "fst (limiter_run (egress_take default_limits) (reply_bytes (\<lambda>d. d = V4 1 2 3 4))
      (egress_new default_limits 0, 0)
      [(Reply ''a'' (V4 1 2 3 4) 60000 \<lparr>per_source_bps = 9, per_source_burst = 9, per_project_bps = 10 ^ 12\<rparr>, 0),
       (Reply ''b'' (V4 1 2 3 4) 60000 (default_port_egress_limits default_limits), 1000000)])
   \<le> 65536 + 0.001 * 1048576"
  using victim_backstop_bound[of default_limits 0
      "[(Reply ''a'' (V4 1 2 3 4) 60000 \<lparr>per_source_bps = 9, per_source_burst = 9, per_project_bps = 10 ^ 12\<rparr>, 0),
       (Reply ''b'' (V4 1 2 3 4) 60000 (default_port_egress_limits default_limits), 1000000)]" "V4 1 2 3 4"]
  by (simp add: caps_refill_in_ttl_def default_limits_def PER_SOURCE_TTL_def from_secs_def as_secs_f64_def)

text \<open>
  The same bound for every destination network (/24 of a v4 address, /64 of a v6 one) at the
  per-/24 rate, and for the platform as a whole at the global rate.
\<close>

theorem network_and_global_bound:
  assumes "caps_refill_in_ttl lm" and "chronological t0 rs"
  shows "fst (limiter_run (egress_take lm) (reply_bytes (\<lambda>d. net_key d = k)) (egress_new lm t0, t0) rs)
      \<le> real (egress_per_24_bps lm) + as_secs_f64 (end_time t0 rs - t0) * real (egress_per_24_bps lm)
    \<and> fst (limiter_run (egress_take lm) (reply_bytes (\<lambda>_. True)) (egress_new lm t0, t0) rs)
      \<le> real (egress_global_bps lm) + as_secs_f64 (end_time t0 rs - t0) * real (egress_global_bps lm)"
proof -
  have "net_budget lm (egress_new lm t0) k t0 = real (egress_per_24_bps lm)"
    "global_budget (egress_new lm t0) t0 = real (egress_global_bps lm)"
    by (simp_all add: net_budget_def global_budget_def egress_new_def klevel_def bm_new_def blevel_eq)
  then show ?thesis
    using net24.run_bound[of lm "(egress_new lm t0, t0)" rs k]
      platform.run_bound[of lm "(egress_new lm t0, t0)" rs] eg_ok_new[OF assms(1)] assms(2)
    by simp
qed

theorem network_and_global_bound_witness:
  "fst (limiter_run (egress_take default_limits) (reply_bytes (\<lambda>d. net_key d = NetV4 1 2 3))
      (egress_new default_limits 0, 0) [(Reply ''a'' (V4 1 2 3 4) 60000 (default_port_egress_limits default_limits), 0)])
   \<le> 8388608"
  using network_and_global_bound[of default_limits 0
      "[(Reply ''a'' (V4 1 2 3 4) 60000 (default_port_egress_limits default_limits), 0)]" "NetV4 1 2 3"]
  by (simp add: caps_refill_in_ttl_def default_limits_def PER_SOURCE_TTL_def from_secs_def as_secs_f64_def)

end
