(* ===== verification/L4_Activity.thy ===== *)
theory L4_Activity
  imports L4_Counters L4_Egress Net_Addr
begin

text \<open>
  The activity clock and reflection kill-switch of \<open>crates/jkbase-proxy/src/l4_plane.rs\<close>:
  \<open>RefWindow\<close>, \<open>ActivityState\<close>, \<open>note\<close> (behind \<open>note_ingress\<close> and \<open>note_egress\<close>) and the
  activity part of \<open>sweep\<close>.

  The lemmas show what trips the switch when a window closes, that only a project with a port
  that opted into the per-flow shaper can be suspected, that a quiet project recovers at the next
  sweep, and that a window's memory is bounded.
\<close>

section \<open>State and operations\<close>

definition REFLECTION_WINDOW :: duration where "REFLECTION_WINDOW = from_secs 10"
definition REFLECTION_MIN_EGRESS :: nat where "REFLECTION_MIN_EGRESS = 256 * 1024"
definition REFLECTION_SLACK_BYTES :: nat where "REFLECTION_SLACK_BYTES = 32 * 1024"
definition REFLECTION_DEST_ENTROPY :: nat where "REFLECTION_DEST_ENTROPY = 64"
definition DEST_SET_CAP :: nat where "DEST_SET_CAP = 128"
definition ACTIVITY_MAP_MAX :: nat where "ACTIVITY_MAP_MAX = 8192"
definition ACTIVITY_TTL :: duration where "ACTIVITY_TTL = from_secs 900"
definition REFL_MAP_MAX :: nat where "REFL_MAP_MAX = 8192"
definition REFL_TTL :: duration where "REFL_TTL = from_secs 60"
definition REFLECTION_CLEAR :: duration where "REFLECTION_CLEAR = REFLECTION_WINDOW"

datatype dir = DirIn | DirOut

record ref_window =
  rw_start :: instant
  rw_last_activity :: instant
  rw_ingress :: nat
  rw_egress :: nat
  rw_dests :: "ip_addr set"
  rw_dest_overflow :: bool
  rw_amp_k :: u8

definition ref_window_fresh :: "instant \<Rightarrow> u8 \<Rightarrow> ref_window" where
  "ref_window_fresh now amp_k =
     \<lparr>rw_start = now, rw_last_activity = now, rw_ingress = 0, rw_egress = 0, rw_dests = {},
      rw_dest_overflow = False, rw_amp_k = amp_k\<rparr>"

record activity_state =
  ac_last :: "(string, instant) bounded_ttl_map"
  ac_refl :: "(string, ref_window) bounded_ttl_map"
  ac_suspected :: "string set"

definition activity_new :: activity_state where
  "activity_new =
     \<lparr>ac_last = bm_new ACTIVITY_MAP_MAX ACTIVITY_TTL, ac_refl = bm_new REFL_MAP_MAX REFL_TTL,
      ac_suspected = {}\<rparr>"

definition last_activity_age :: "activity_state \<Rightarrow> string \<Rightarrow> instant \<Rightarrow> duration option" where
  "last_activity_age act base now = map_option (\<lambda>t. now - t) (bm_get (ac_last act) base)"

definition is_reflection_suspected :: "activity_state \<Rightarrow> string \<Rightarrow> bool" where
  "is_reflection_suspected act base \<longleftrightarrow> base \<in> ac_suspected act"

text \<open>What one admitted datagram adds to a window.\<close>

definition window_accrue :: "dir \<Rightarrow> nat \<Rightarrow> u8 \<Rightarrow> ip_addr option \<Rightarrow> instant \<Rightarrow> ref_window \<Rightarrow> ref_window" where
  "window_accrue d n amp_k dest now w =
     (let w = w\<lparr>rw_amp_k := max (rw_amp_k w) amp_k, rw_last_activity := now\<rparr>
      in case d of
           DirIn \<Rightarrow> w\<lparr>rw_ingress := saturating_add (rw_ingress w) n\<rparr>
         | DirOut \<Rightarrow>
             (let w = w\<lparr>rw_egress := saturating_add (rw_egress w) n\<rparr>
              in case dest of None \<Rightarrow> w
                 | Some ip \<Rightarrow>
                     if card (rw_dests w) < DEST_SET_CAP
                     then w\<lparr>rw_dests := insert ip (rw_dests w)\<rparr>
                     else w\<lparr>rw_dest_overflow := True\<rparr>))"

text \<open>The shape signal evaluated when a window closes.\<close>

definition shape_signal :: "ref_window \<Rightarrow> bool" where
  "shape_signal w \<longleftrightarrow>
     (let ratio_exceeded = rw_egress w >
            saturating_add (saturating_mul (unat (max (rw_amp_k w) 1)) (rw_ingress w)) REFLECTION_SLACK_BYTES;
          entropy_exceeded = rw_dest_overflow w \<or> card (rw_dests w) > REFLECTION_DEST_ENTROPY
      in rw_egress w \<ge> REFLECTION_MIN_EGRESS \<and> (ratio_exceeded \<or> entropy_exceeded))"

definition note_act ::
  "string \<Rightarrow> dir \<Rightarrow> nat \<Rightarrow> u8 \<Rightarrow> ip_addr option \<Rightarrow> instant \<Rightarrow> activity_state \<times> atomic_counters
   \<Rightarrow> activity_state \<times> atomic_counters" where
  "note_act base d n amp_k dest now s =
     (let (act, cnt) = s;
          act = (case bm_get_or_insert_with base now now (ac_last act) of
                   (Some _, m) \<Rightarrow> act\<lparr>ac_last := bm_put base now m\<rparr>
                 | (None, m) \<Rightarrow> act\<lparr>ac_last := m\<rparr>)
      in case bm_get_or_insert_with base now (ref_window_fresh now amp_k) (ac_refl act) of
           (None, m) \<Rightarrow> (act\<lparr>ac_refl := m\<rparr>, cnt)
         | (Some w, m) \<Rightarrow>
             (let w = window_accrue d n amp_k dest now w
              in if now - rw_start w \<ge> REFLECTION_WINDOW
                 then (act\<lparr>ac_refl := bm_put base (ref_window_fresh now amp_k) m,
                           ac_suspected :=
                             (if rw_amp_k w \<noteq> 0
                              then (if shape_signal w then insert base (ac_suspected act)
                                    else ac_suspected act - {base})
                              else ac_suspected act)\<rparr>,
                       (if rw_amp_k w = 0 \<and> shape_signal w
                        then cnt\<lparr>a_reflection_shape_flagged := a_reflection_shape_flagged cnt + 1\<rparr>
                        else cnt))
                 else (act\<lparr>ac_refl := bm_put base w m\<rparr>, cnt)))"

definition note_ingress ::
  "string \<Rightarrow> nat \<Rightarrow> u8 \<Rightarrow> instant \<Rightarrow> activity_state \<times> atomic_counters \<Rightarrow> activity_state \<times> atomic_counters" where
  "note_ingress base n amp_k now s = note_act base DirIn n amp_k None now s"

definition note_egress ::
  "string \<Rightarrow> nat \<Rightarrow> u8 \<Rightarrow> ip_addr \<Rightarrow> instant \<Rightarrow> activity_state \<times> atomic_counters
   \<Rightarrow> activity_state \<times> atomic_counters" where
  "note_egress base n amp_k dest_ip now s = note_act base DirOut n amp_k (Some dest_ip) now s"

definition activity_sweep :: "instant \<Rightarrow> activity_state \<Rightarrow> activity_state" where
  "activity_sweep now act =
     (let l = bm_sweep now (ac_last act); r = bm_sweep now (ac_refl act)
      in act\<lparr>ac_last := l, ac_refl := r,
             ac_suspected := {base \<in> ac_suspected act.
               (case bm_get r base of
                  Some w \<Rightarrow> now - rw_last_activity w < REFLECTION_CLEAR
                | None \<Rightarrow> False)}\<rparr>)"

section \<open>Runs\<close>

datatype act_op =
    Note string dir nat u8 "ip_addr option" instant
  | ActSweep instant

fun act_step :: "act_op \<Rightarrow> activity_state \<times> atomic_counters \<Rightarrow> activity_state \<times> atomic_counters" where
  "act_step (Note base d n k dest now) s = note_act base d n k dest now s"
| "act_step (ActSweep now) s = (activity_sweep now (fst s), snd s)"

fun shaped_base :: "act_op \<Rightarrow> string \<Rightarrow> bool" where
  "shaped_base (Note base d n k dest now) b \<longleftrightarrow> base = b \<and> k \<noteq> 0"
| "shaped_base (ActSweep now) b \<longleftrightarrow> False"

text \<open>
  The invariant of a run: \<open>K\<close> is the set of bases that have sent or received on a port with a
  nonzero ratio. Every window's ratio and every suspicion comes from \<open>K\<close>; every window holds at
  most \<open>DEST_SET_CAP\<close> destinations.
\<close>

definition act_ok :: "string set \<Rightarrow> activity_state \<Rightarrow> bool" where
  "act_ok K act \<longleftrightarrow> bm_wf (ac_last act) \<and> bm_wf (ac_refl act) \<and> ac_suspected act \<subseteq> K
     \<and> (\<forall>b w t. map_of (bm_map (ac_refl act)) b = Some (w, t) \<longrightarrow>
          (rw_amp_k w \<noteq> 0 \<longrightarrow> b \<in> K) \<and> finite (rw_dests w) \<and> card (rw_dests w) \<le> DEST_SET_CAP)"

definition window_ok :: "bool \<Rightarrow> ref_window \<Rightarrow> bool" where
  "window_ok shaped w \<longleftrightarrow> (rw_amp_k w \<noteq> 0 \<longrightarrow> shaped) \<and> finite (rw_dests w) \<and> card (rw_dests w) \<le> DEST_SET_CAP"

lemma window_ok_fresh: "(k \<noteq> 0 \<longrightarrow> sh) \<Longrightarrow> window_ok sh (ref_window_fresh now k)"
  by (simp add: window_ok_def ref_window_fresh_def)

lemma window_ok_accrue:
  assumes "window_ok sh w" and "k \<noteq> 0 \<longrightarrow> sh"
  shows "window_ok sh (window_accrue d n k dest now w)"
proof -
  have "card (insert ip (rw_dests w)) \<le> DEST_SET_CAP" if "card (rw_dests w) < DEST_SET_CAP" for ip
    using that assms(1) by (auto simp: window_ok_def card_insert_if)
  then show ?thesis
    using assms
    by (auto simp: window_ok_def window_accrue_def Let_def max_def split: dir.splits option.splits if_splits)
qed

lemma act_ok_new: "act_ok {} activity_new"
  by (simp add: act_ok_def activity_new_def) (simp add: bm_new_def)

lemma act_ok_mono: "act_ok K act \<Longrightarrow> K \<subseteq> K' \<Longrightarrow> act_ok K' act"
  by (auto simp: act_ok_def)

lemma act_ok_note:
  assumes ok: "act_ok K act" and k: "k \<noteq> 0 \<longrightarrow> base \<in> K"
  shows "act_ok K (fst (note_act base d n k dest now (act, cnt)))"
proof -
  obtain ol ml where gl: "bm_get_or_insert_with base now now (ac_last act) = (ol, ml)" by fastforce
  obtain ow mw where gw: "bm_get_or_insert_with base now (ref_window_fresh now k) (ac_refl act) = (ow, mw)"
    by fastforce
  define act1 where "act1 = (case ol of Some _ \<Rightarrow> act\<lparr>ac_last := bm_put base now ml\<rparr> | None \<Rightarrow> act\<lparr>ac_last := ml\<rparr>)"
  have wl: "bm_wf ml" using bm_wf_get_or_insert[of "ac_last act" base now now] ok gl by (simp add: act_ok_def)
  have refl1: "ac_refl act1 = ac_refl act" "ac_suspected act1 = ac_suspected act" "bm_wf (ac_last act1)"
    using wl by (simp_all add: act1_def split: option.splits)
  have wf: "bm_wf (ac_refl act)" using ok by (simp add: act_ok_def)
  have entry: "window_ok (b \<in> K) w" if "map_of (bm_map (ac_refl act)) b = Some (w, t)" for b w t
    using ok that by (auto simp: act_ok_def window_ok_def)
  show ?thesis
  proof (cases ow)
    case None
    then have "mw = ac_refl act" using gw bm_get_or_insert_None(1)[OF wf, of base now] by simp
    then have "fst (note_act base d n k dest now (act, cnt)) = act1\<lparr>ac_refl := ac_refl act\<rparr>"
      using None gl gw by (auto simp: note_act_def act1_def Let_def split: option.splits)
    then show ?thesis using ok refl1 by (simp add: act_ok_def)
  next
    case (Some w0)
    note S = bm_get_or_insert_Some[OF wf gw[unfolded Some]]
    define w where "w = window_accrue d n k dest now w0"
    have w0: "window_ok (base \<in> K) w0"
      using S(2) entry[of base] window_ok_fresh[of k "base \<in> K" now] k by (auto split: option.splits)
    have wok: "window_ok (base \<in> K) w" unfolding w_def by (rule window_ok_accrue[OF w0 k])
    define w1 where "w1 = (if now - rw_start w \<ge> REFLECTION_WINDOW then ref_window_fresh now k else w)"
    have w1: "window_ok (base \<in> K) w1" using wok window_ok_fresh[of k "base \<in> K" now] k by (simp add: w1_def)
    have refl: "ac_refl (fst (note_act base d n k dest now (act, cnt))) = bm_put base w1 mw"
      and last: "bm_wf (ac_last (fst (note_act base d n k dest now (act, cnt))))"
      and susp: "ac_suspected (fst (note_act base d n k dest now (act, cnt))) \<subseteq> K"
      using Some gl gw wl ok wok
      by (auto simp: note_act_def w1_def w_def Let_def window_ok_def act_ok_def split: option.splits if_splits)
    have "window_ok (b \<in> K) v" if "map_of (bm_map (bm_put base w1 mw)) b = Some (v, t)" for b v t
    proof (cases "b = base")
      case True
      then show ?thesis using that S(1) w1 by (simp add: map_of_bm_put)
    next
      case False
      then have "map_of (bm_map mw) b = Some (v, t)" using that by (simp add: map_of_bm_put)
      then have "map_of (bm_map (ac_refl act)) b = Some (v, t)"
        using S(3)[OF False] map_of_bm_evict[OF wf, of now b] by (auto split: option.splits if_splits)
      then show ?thesis by (rule entry)
    qed
    then show ?thesis
      using refl last susp S(4) by (auto simp: act_ok_def window_ok_def)
  qed
qed

lemma act_ok_sweep: "act_ok K act \<Longrightarrow> act_ok K (activity_sweep now act)"
  by (auto simp: act_ok_def activity_sweep_def Let_def bm_sweep_def map_of_bm_evict
      split: option.splits if_splits)

lemma act_ok_run:
  assumes "act_ok K (fst s)"
  shows "act_ok (K \<union> {b. \<exists>p \<in> set ops. shaped_base p b}) (fst (fold act_step ops s))"
  using assms
proof (induction ops arbitrary: K s)
  case (Cons p ops)
  have step: "act_ok (K \<union> {b. shaped_base p b}) (fst (act_step p s))"
  proof (cases p)
    case (Note base d n k dest now)
    have "act_ok (K \<union> {b. shaped_base p b}) (fst s)" using Cons.prems by (rule act_ok_mono) auto
    then show ?thesis
      using act_ok_note[of "K \<union> {b. shaped_base p b}" "fst s" k base d n dest now "snd s"] Note by simp
  next
    case (ActSweep now)
    then show ?thesis using Cons.prems act_ok_sweep by simp
  qed
  have "act_ok (K \<union> {b. shaped_base p b} \<union> {b. \<exists>p \<in> set ops. shaped_base p b})
      (fst (fold act_step (p # ops) s))"
    using Cons.IH[OF step] by simp
  then show ?case by (rule act_ok_mono) auto
qed simp

text \<open>
  The kill-switch only ever suspects a project that opted into the per-flow shaper: if all
  of a project's traffic is on clamp-off ports (\<open>amp_k = 0\<close>), no run of traffic and sweeps, of any
  shape and volume, makes it suspected. And no run makes a window hold more than
  \<open>DEST_SET_CAP\<close> destinations.
\<close>

theorem kill_switch_only_opted_in:
  assumes "fold act_step ops (activity_new, cnt) = (act, cnt')"
    and "\<forall>p \<in> set ops. \<not> shaped_base p base"
  shows "\<not> is_reflection_suspected act base
    \<and> (bm_get (ac_refl act) base' = Some w \<longrightarrow> card (rw_dests w) \<le> DEST_SET_CAP)"
proof -
  have "act_ok {b. \<exists>p \<in> set ops. shaped_base p b} act"
    using act_ok_run[of "{}" "(activity_new, cnt)" ops] act_ok_new assms(1) by simp
  then show ?thesis
    using assms(2) by (auto simp: act_ok_def is_reflection_suspected_def bm_get_def)
qed

text \<open>A run of one shaped and one clamp-off project: only the first can be suspected.\<close>

theorem kill_switch_only_opted_in_witness:
  "\<not> is_reflection_suspected
     (fst (fold act_step [Note ''open'' DirOut 900000 0 None 5, Note ''shaped'' DirOut 900000 3 None 6,
                          Note ''open'' DirOut 900000 0 None 20000000000]
             (activity_new, atomic_counters_default))) ''open''"
proof -
  let ?ops = "[Note ''open'' DirOut 900000 0 None 5, Note ''shaped'' DirOut 900000 3 None 6,
               Note ''open'' DirOut 900000 0 None 20000000000]"
  let ?r = "fold act_step ?ops (activity_new, atomic_counters_default)"
  have "\<forall>p \<in> set ?ops. \<not> shaped_base p ''open''" by simp
  then show ?thesis
    using kill_switch_only_opted_in[of ?ops atomic_counters_default "fst ?r" "snd ?r" "''open''"]
    unfolding prod.collapse by blast
qed

section \<open>The decision at window close, and recovery\<close>

lemma window_accrue_keeps [simp]:
  "rw_start (window_accrue d n k dest now w) = rw_start w"
  "rw_last_activity (window_accrue d n k dest now w) = now"
  "rw_amp_k (window_accrue d n k dest now w) = max (rw_amp_k w) k"
  by (auto simp: window_accrue_def Let_def split: dir.splits option.splits)

text \<open>
  What one datagram does when the project's window is live: before the close nothing changes in
  the suspected set, at the close the sticky-maximum ratio and the shape signal decide.
\<close>

lemma note_act_live:
  assumes "bm_get_or_insert_with base now (ref_window_fresh now k) (ac_refl act) = (Some w0, m)"
  shows "ac_suspected (fst (note_act base d n k dest now (act, cnt))) =
      (if now - rw_start w0 \<ge> REFLECTION_WINDOW \<and> max (rw_amp_k w0) k \<noteq> 0
       then (if shape_signal (window_accrue d n k dest now w0) then insert base (ac_suspected act) else ac_suspected act - {base})
       else ac_suspected act)"
    and "ac_refl (fst (note_act base d n k dest now (act, cnt))) =
      bm_put base (if now - rw_start w0 \<ge> REFLECTION_WINDOW then ref_window_fresh now k
                    else window_accrue d n k dest now w0) m"
  using assms
  by (auto simp: note_act_def Let_def split: option.splits if_splits prod.splits)

lemma bm_get_or_insert_present:
  "bm_get m k = Some v \<Longrightarrow>
   \<exists>m'. bm_get_or_insert_with k now mk m = (Some v, m') \<and> bm_get m' k = Some v"
  by (auto simp: bm_get_def bm_get_or_insert_with_def Let_def split: option.splits prod.splits)

lemma activity_sweep_clears:
  assumes "bm_wf (ac_refl act)" and "bm_get (ac_refl act) base = Some w"
    and "rw_last_activity w + REFLECTION_CLEAR \<le> now"
  shows "\<not> is_reflection_suspected (activity_sweep now act) base"
  using assms
  by (auto simp: is_reflection_suspected_def activity_sweep_def Let_def bm_sweep_def bm_get_def
      map_of_bm_evict split: option.splits if_splits)

lemma note_act_other:
  assumes "b \<noteq> base"
  shows "is_reflection_suspected (fst (note_act base d n k dest now (act, cnt))) b
    = is_reflection_suspected act b"
  using assms
  by (auto simp: note_act_def Let_def is_reflection_suspected_def split: option.splits prod.splits if_splits)

text \<open>
  C26. The kill-switch decides on the shape of a whole window and lets go by itself. A datagram
  that arrives while the project's window is younger than \<open>REFLECTION_WINDOW\<close> changes no
  verdict. One that closes the window makes the project suspected exactly when a shaped port took
  part in the window and the window's shape signal holds, and clears it when a shaped window
  closes without the signal. No other project's verdict moves. Afterwards a sweep that runs
  \<open>REFLECTION_CLEAR\<close> after the project's last datagram clears it with no further traffic.
\<close>

theorem kill_switch_decides_and_recovers:
  assumes wf: "bm_wf (ac_refl act)" and w0: "bm_get (ac_refl act) base = Some w0"
    and run: "note_act base d n k dest now (act, cnt) = (act', cnt')"
  shows "is_reflection_suspected act' b =
      (if b = base \<and> REFLECTION_WINDOW \<le> now - rw_start w0 \<and> (rw_amp_k w0 \<noteq> 0 \<or> k \<noteq> 0)
       then shape_signal (window_accrue d n k dest now w0)
       else is_reflection_suspected act b)
    \<and> (now + REFLECTION_CLEAR \<le> later \<longrightarrow> \<not> is_reflection_suspected (activity_sweep later act') base)"
proof -
  obtain m where g: "bm_get_or_insert_with base now (ref_window_fresh now k) (ac_refl act) = (Some w0, m)"
    and gm: "bm_get m base = Some w0"
    using bm_get_or_insert_present[OF w0] by blast
  have mx: "max (rw_amp_k w0) k \<noteq> 0 \<longleftrightarrow> rw_amp_k w0 \<noteq> 0 \<or> k \<noteq> 0"
    by (auto simp: max_def)
  note live = note_act_live[OF g, of d n dest cnt]
  have act': "act' = fst (note_act base d n k dest now (act, cnt))" using run by simp
  have verdict: "is_reflection_suspected act' b =
      (if b = base \<and> REFLECTION_WINDOW \<le> now - rw_start w0 \<and> (rw_amp_k w0 \<noteq> 0 \<or> k \<noteq> 0)
       then shape_signal (window_accrue d n k dest now w0)
       else is_reflection_suspected act b)"
  proof (cases "b = base")
    case True
    then show ?thesis
      using live(1) unfolding act' is_reflection_suspected_def mx by auto
  next
    case False
    then show ?thesis using note_act_other[of b base] by (simp add: act')
  qed
  obtain w where w: "bm_get (ac_refl act') base = Some w" and lst: "rw_last_activity w = now"
    using live(2) gm unfolding act' by (auto simp: bm_get_def map_of_bm_put ref_window_fresh_def)
  have wf': "bm_wf (ac_refl act')"
    unfolding act' live(2) using bm_wf_get_or_insert[OF wf, of base now "ref_window_fresh now k"] g by simp
  show ?thesis
    using verdict activity_sweep_clears[OF wf' w] lst by auto
qed

text \<open>A 3 MB burst on a port with ratio 3 trips the switch; a sweep 10 s later clears it.\<close>

theorem kill_switch_decides_and_recovers_witness:
  "\<exists>act act'. bm_get (ac_refl act) ''p'' \<noteq> None
     \<and> act' = fst (note_act ''p'' DirOut 3000000 3 None (from_secs 10) (act, atomic_counters_default))
     \<and> is_reflection_suspected act' ''p''
     \<and> \<not> is_reflection_suspected (activity_sweep (from_secs 20) act') ''p''"
proof -
  define act where "act = fst (note_act ''p'' DirIn 100 3 None 0 (activity_new, atomic_counters_default))"
  let ?w0 = "window_accrue DirIn 100 3 None 0 (ref_window_fresh 0 3)"
  let ?r = "note_act ''p'' DirOut 3000000 3 None (from_secs 10) (act, atomic_counters_default)"
  have wf: "bm_wf (ac_refl act)" and w0: "bm_get (ac_refl act) ''p'' = Some ?w0"
    using act_ok_note[OF act_ok_mono[OF act_ok_new, of "{''p''}"], of 3 "''p''" DirIn 100 None 0 atomic_counters_default]
    by (simp_all add: act_def act_ok_def)
      (simp add: note_act_def activity_new_def bm_defs Let_def window_accrue_def ref_window_fresh_def
        REFLECTION_WINDOW_def from_secs_def ACTIVITY_MAP_MAX_def REFL_MAP_MAX_def)
  have sig: "shape_signal (window_accrue DirOut 3000000 3 None (from_secs 10) ?w0)"
    by (simp add: shape_signal_def window_accrue_def ref_window_fresh_def saturating_add_def
        saturating_mul_def u64_max_def REFLECTION_MIN_EGRESS_def REFLECTION_SLACK_BYTES_def)
  have "is_reflection_suspected (fst ?r) ''p''
      \<and> \<not> is_reflection_suspected (activity_sweep (from_secs 20) (fst ?r)) ''p''"
    using kill_switch_decides_and_recovers[OF wf w0, of DirOut 3000000 3 None "from_secs 10" _ "fst ?r" "snd ?r" "''p''" "from_secs 20"]
      sig
    by (simp add: REFLECTION_WINDOW_def REFLECTION_CLEAR_def from_secs_def ref_window_fresh_def)
  then show ?thesis using w0 by blast
qed

end
