(* ===== verification/Rust_Str.thy ===== *)
theory Rust_Str
  imports Prelude
begin

text \<open>
  The operations of Rust's \<open>str\<close> the sources use: splitting, trimming, prefixes, lines and
  integer parsing. A \<open>str\<close> is a HOL \<open>string\<close>, one \<open>char\<close> per byte; the classification functions
  are the ASCII ones (of the Unicode white space only the ASCII characters are recognised).
\<close>

section \<open>Splitting and trimming\<close>

definition is_whitespace :: "char \<Rightarrow> bool" where
  "is_whitespace c \<longleftrightarrow> c \<in> {CHR 0x20, CHR 0x09, CHR 0x0A, CHR 0x0B, CHR 0x0C, CHR 0x0D}"

text \<open>\<open>s.split(c)\<close>: always at least one piece, empty pieces kept.\<close>

fun split_char :: "char \<Rightarrow> string \<Rightarrow> string list" where
  "split_char c [] = [[]]"
| "split_char c (x # xs) =
     (if x = c then [] # split_char c xs
      else (case split_char c xs of [] \<Rightarrow> [[x]] | p # ps \<Rightarrow> (x # p) # ps))"

fun split_once :: "char \<Rightarrow> string \<Rightarrow> (string \<times> string) option" where
  "split_once c [] = None"
| "split_once c (x # xs) =
     (if x = c then Some ([], xs)
      else map_option (\<lambda>(a, b). (x # a, b)) (split_once c xs))"

definition rsplit_once :: "char \<Rightarrow> string \<Rightarrow> (string \<times> string) option" where
  "rsplit_once c s = map_option (\<lambda>(a, b). (rev b, rev a)) (split_once c (rev s))"

definition strip_cr :: "string \<Rightarrow> string" where
  "strip_cr s = (if s \<noteq> [] \<and> last s = CHR 0x0D then butlast s else s)"

definition str_lines :: "string \<Rightarrow> string list" where
  "str_lines s =
     (let ps = split_char (CHR 0x0A) s
      in map strip_cr (butlast ps) @ (if last ps = [] then [] else [last ps]))"

fun split_whitespace_aux :: "string \<Rightarrow> string \<Rightarrow> string list" where
  "split_whitespace_aux cur [] = (if cur = [] then [] else [rev cur])"
| "split_whitespace_aux cur (x # xs) =
     (if is_whitespace x
      then (if cur = [] then split_whitespace_aux [] xs else rev cur # split_whitespace_aux [] xs)
      else split_whitespace_aux (x # cur) xs)"

definition split_whitespace :: "string \<Rightarrow> string list" where
  "split_whitespace s = split_whitespace_aux [] s"

definition trim_start :: "string \<Rightarrow> string" where
  "trim_start s = dropWhile is_whitespace s"

definition trim_end :: "string \<Rightarrow> string" where
  "trim_end s = rev (dropWhile is_whitespace (rev s))"

definition str_trim :: "string \<Rightarrow> string" where
  "str_trim s = trim_end (trim_start s)"

definition trim_end_char :: "char \<Rightarrow> string \<Rightarrow> string" where
  "trim_end_char c s = rev (dropWhile (\<lambda>x. x = c) (rev s))"

definition trim_start_char :: "char \<Rightarrow> string \<Rightarrow> string" where
  "trim_start_char c s = dropWhile (\<lambda>x. x = c) s"

fun strip_prefix :: "string \<Rightarrow> string \<Rightarrow> string option" where
  "strip_prefix [] s = Some s"
| "strip_prefix (p # ps) [] = None"
| "strip_prefix (p # ps) (x # xs) = (if p = x then strip_prefix ps xs else None)"

definition strip_suffix :: "string \<Rightarrow> string \<Rightarrow> string option" where
  "strip_suffix p s = map_option rev (strip_prefix (rev p) (rev s))"

definition starts_with :: "string \<Rightarrow> string \<Rightarrow> bool" where
  "starts_with p s \<longleftrightarrow> strip_prefix p s \<noteq> None"

definition ends_with :: "string \<Rightarrow> string \<Rightarrow> bool" where
  "ends_with p s \<longleftrightarrow> strip_suffix p s \<noteq> None"

definition ascii_lower :: "char \<Rightarrow> char" where
  "ascii_lower c =
     (if (of_char c :: nat) \<in> {65..90} then char_of ((of_char c :: nat) + 32) else c)"

definition to_ascii_lowercase :: "string \<Rightarrow> string" where
  "to_ascii_lowercase s = map ascii_lower s"

section \<open>Integer parsing\<close>

definition is_ascii_digit :: "char \<Rightarrow> bool" where
  "is_ascii_digit c \<longleftrightarrow> (of_char c :: nat) \<in> {48..57}"

definition digit_val :: "char \<Rightarrow> nat" where
  "digit_val c = (of_char c :: nat) - 48"

definition digits_val :: "string \<Rightarrow> nat" where
  "digits_val s = foldl (\<lambda>n c. 10 * n + digit_val c) 0 s"

text \<open>
  \<open>str::parse\<close> for an unsigned integer of \<open>w\<close> bits: one optional leading plus sign, at least one
  digit, nothing but digits, and no overflow.
\<close>

definition parse_uint :: "nat \<Rightarrow> string \<Rightarrow> nat option" where
  "parse_uint w s =
     (let ds = (if s \<noteq> [] \<and> hd s = CHR ''+'' then tl s else s)
      in if ds \<noteq> [] \<and> list_all is_ascii_digit ds \<and> digits_val ds < 2 ^ w
         then Some (digits_val ds) else None)"

section \<open>Lemmas\<close>

lemma split_char_not_Nil [simp]: "split_char c s \<noteq> []"
  by (induction s) (auto split: list.splits)

lemma split_char_join:
  "split_char c (a @ c # b) = split_char c a @ split_char c b"
  by (induction a) (auto split: list.splits)

lemma split_char_none: "c \<notin> set a \<Longrightarrow> split_char c a = [a]"
  by (induction a) auto

lemma split_once_Some_iff:
  "split_once c s = Some (a, b) \<longleftrightarrow> s = a @ c # b \<and> c \<notin> set a"
proof (induction s arbitrary: a)
  case (Cons x xs)
  then show ?case by (cases a) auto
qed simp

lemma split_once_None_iff: "split_once c s = None \<longleftrightarrow> c \<notin> set s"
  by (induction s) auto

lemma strip_prefix_Some_iff: "strip_prefix p s = Some r \<longleftrightarrow> s = p @ r"
  by (induction p s rule: strip_prefix.induct) auto

lemma strip_suffix_Some_iff: "strip_suffix p s = Some r \<longleftrightarrow> s = r @ p"
proof -
  have "rev s = rev p @ rev r \<longleftrightarrow> s = r @ p" by (metis rev_append rev_rev_ident)
  then show ?thesis
    by (auto simp: strip_suffix_def strip_prefix_Some_iff)
qed

lemma starts_with_iff: "starts_with p s \<longleftrightarrow> (\<exists>r. s = p @ r)"
  by (auto simp: starts_with_def strip_prefix_Some_iff)

lemma ends_with_iff: "ends_with p s \<longleftrightarrow> (\<exists>r. s = r @ p)"
  by (auto simp: ends_with_def strip_suffix_Some_iff)

lemma split_whitespace_aux_word:
  "\<forall>x \<in> set w. \<not> is_whitespace x \<Longrightarrow>
   split_whitespace_aux cur (w @ r) = split_whitespace_aux (rev w @ cur) r"
  by (induction w arbitrary: cur) auto

lemma split_whitespace_blanks:
  "\<forall>x \<in> set ws. is_whitespace x \<Longrightarrow> split_whitespace (ws @ r) = split_whitespace r"
  by (induction ws) (auto simp: split_whitespace_def)

lemma split_whitespace_word:
  assumes "w \<noteq> []" and "\<forall>x \<in> set w. \<not> is_whitespace x" and "r = [] \<or> is_whitespace (hd r)"
  shows "split_whitespace (w @ r) = w # split_whitespace r"
proof (cases r)
  case Nil
  then show ?thesis
    using split_whitespace_aux_word[OF assms(2), of "[]" "[]"] assms(1) by (simp add: split_whitespace_def)
next
  case (Cons c r')
  then show ?thesis
    using split_whitespace_aux_word[OF assms(2), of "[]" r] assms by (simp add: split_whitespace_def)
qed

lemma ascii_lower_idem [simp]: "ascii_lower (ascii_lower c) = ascii_lower c"
proof (cases "(of_char c :: nat) \<in> {65..90}")
  case True
  then have "(of_char (char_of ((of_char c :: nat) + 32)) :: nat) = of_char c + 32"
    by (simp add: of_char_of)
  then show ?thesis using True by (simp add: ascii_lower_def)
qed (auto simp: ascii_lower_def)

lemma to_ascii_lowercase_idem [simp]: "to_ascii_lowercase (to_ascii_lowercase s) = to_ascii_lowercase s"
  by (simp add: to_ascii_lowercase_def)

lemma to_ascii_lowercase_append [simp]:
  "to_ascii_lowercase (a @ b) = to_ascii_lowercase a @ to_ascii_lowercase b"
  by (simp add: to_ascii_lowercase_def)

lemma digits_val_snoc: "digits_val (ds @ [c]) = 10 * digits_val ds + digit_val c"
  by (simp add: digits_val_def)

text \<open>Decimal printing, the inverse of \<open>parse_uint\<close>.\<close>

fun show_nat :: "nat \<Rightarrow> string" where
  "show_nat n = (if n < 10 then [char_of (n + 48)] else show_nat (n div 10) @ [char_of (n mod 10 + 48)])"

declare show_nat.simps [simp del]

lemma show_nat_digits: "show_nat n \<noteq> [] \<and> list_all is_ascii_digit (show_nat n)"
proof (induction n rule: show_nat.induct)
  case (1 n)
  then show ?case
    by (subst (1 2) show_nat.simps) (auto simp: is_ascii_digit_def of_char_of list_all_iff)
qed

lemma digits_val_show_nat: "digits_val (show_nat n) = n"
proof (induction n rule: show_nat.induct)
  case (1 n)
  then show ?case
    by (subst show_nat.simps) (auto simp: digits_val_snoc digits_val_def digit_val_def of_char_of)
qed

lemma hd_show_nat: "hd (show_nat n) \<noteq> CHR ''+''"
  using show_nat_digits[of n] by (cases "show_nat n") (auto simp: is_ascii_digit_def)

lemma parse_uint_show_nat: "n < 2 ^ w \<Longrightarrow> parse_uint w (show_nat n) = Some n"
  using show_nat_digits[of n] hd_show_nat[of n] by (simp add: parse_uint_def digits_val_show_nat)

lemma parse_uint_bound: "parse_uint w s = Some n \<Longrightarrow> n < 2 ^ w"
  by (auto simp: parse_uint_def Let_def split: if_splits)

lemma str_lines_rows:
  assumes "\<forall>r \<in> set rows. CHR 0x0A \<notin> set (f r) \<and> (f r = [] \<or> last (f r) \<noteq> CHR 0x0D)"
  shows "str_lines (concat (map (\<lambda>r. f r @ [CHR 0x0A]) rows)) = map f rows"
proof -
  have "split_char (CHR 0x0A) (concat (map (\<lambda>r. f r @ [CHR 0x0A]) rows)) = map f rows @ [[]]"
    using assms
  proof (induction rows)
    case (Cons r rows)
    then show ?case
      by (simp add: split_char_join split_char_none)
  qed simp
  moreover have "map strip_cr (map f rows) = map f rows"
    using assms by (auto simp: strip_cr_def)
  ultimately show ?thesis by (simp add: str_lines_def)
qed

end
