(* ===== verification/L4_Plane.thy ===== *)
theory L4_Plane
  imports L4_Flows L4_Wake L4_Caps L4_Activity Rust_Str
begin

text \<open>
  The plane controller \<open>L4Plane\<close> of \<open>crates/jkbase-proxy/src/l4_plane.rs\<close>, put together from its
  parts: one record with the limits, the flow table's accounting, the wake gate, the egress caps,
  the activity state, the cached host-memory reading and the counters; and the operations the
  datagram pump calls on it, each of which takes one of the plane's mutexes.

  \<open>/proc/meminfo\<close> is outside the program: the text a read of it gives (or \<open>None\<close> when it cannot be
  read) is an argument.
\<close>

section \<open>The host-memory reading\<close>

definition MEM_CACHE_TTL :: duration where
  "MEM_CACHE_TTL = from_secs 1"

record mem_cache =
  mc_read_at :: "instant option"
  mc_mib :: "nat option"

fun scan_meminfo :: "string list \<Rightarrow> nat option" where
  "scan_meminfo [] = None"
| "scan_meminfo (line # rest) =
     (case strip_prefix ''MemAvailable:'' line of
        Some r \<Rightarrow> (case split_whitespace r of
                    [] \<Rightarrow> None
                  | w # _ \<Rightarrow> map_option (\<lambda>kb. kb div 1024) (parse_uint 64 w))
      | None \<Rightarrow> scan_meminfo rest)"

definition read_mem_available_mib :: "string option \<Rightarrow> nat option" where
  "read_mem_available_mib meminfo =
     (case meminfo of None \<Rightarrow> None | Some text \<Rightarrow> scan_meminfo (str_lines text))"

definition mem_available_mib :: "string option \<Rightarrow> instant \<Rightarrow> mem_cache \<Rightarrow> nat option \<times> mem_cache" where
  "mem_available_mib meminfo now mc =
     (case mc_read_at mc of
        Some read_at \<Rightarrow>
          (if now - read_at < MEM_CACHE_TTL then (mc_mib mc, mc)
           else (let mib = read_mem_available_mib meminfo
                 in (mib, mc\<lparr>mc_read_at := Some now, mc_mib := mib\<rparr>)))
      | None \<Rightarrow>
          (let mib = read_mem_available_mib meminfo
           in (mib, mc\<lparr>mc_read_at := Some now, mc_mib := mib\<rparr>)))"

section \<open>The plane\<close>

record plane =
  pl_limits :: l4_plane_limits
  pl_wake :: wake_gate
  pl_flow :: flow_state
  pl_egress :: egress_state
  pl_activity :: activity_state
  pl_mem :: mem_cache
  pl_counters :: atomic_counters

definition plane_new :: "l4_plane_limits \<Rightarrow> instant \<Rightarrow> plane" where
  "plane_new lm now =
     \<lparr>pl_limits = lm, pl_wake = wake_gate_new lm, pl_flow = flow_state_default,
      pl_egress = egress_new lm now, pl_activity = activity_new,
      pl_mem = \<lparr>mc_read_at = None, mc_mib = None\<rparr>, pl_counters = atomic_counters_default\<rparr>"

definition pl_count :: "drop_reason \<Rightarrow> plane \<Rightarrow> plane" where
  "pl_count r p = p\<lparr>pl_counters := count_drop r (pl_counters p)\<rparr>"

definition pl_event :: "l4_event \<Rightarrow> plane \<Rightarrow> plane" where
  "pl_event e p = p\<lparr>pl_counters := count_event e (pl_counters p)\<rparr>"

definition pl_drain_counters :: "plane \<Rightarrow> l4_counters \<times> plane" where
  "pl_drain_counters p = (let (c, a) = counters_drain (pl_counters p) in (c, p\<lparr>pl_counters := a\<rparr>))"

definition pl_try_wake_rate :: "string \<Rightarrow> instant \<Rightarrow> plane \<Rightarrow> bool \<times> plane" where
  "pl_try_wake_rate base now p =
     (let (ok, w) = try_wake_rate (pl_limits p) base now (pl_wake p) in (ok, p\<lparr>pl_wake := w\<rparr>))"

definition pl_try_reserve_flow ::
  "string option \<Rightarrow> string \<Rightarrow> string option \<Rightarrow> instant \<Rightarrow> plane \<Rightarrow> (reserve_reject + flow_reservation) \<times> plane" where
  "pl_try_reserve_flow meminfo base tenant now p =
     (let (mem, mc) = mem_available_mib meminfo now (pl_mem p);
          (r, fs) = try_reserve_flow (pl_limits p) mem (wk_inflight_boots (pl_wake p)) base tenant (pl_flow p)
      in (r, p\<lparr>pl_mem := mc, pl_flow := fs\<rparr>))"

definition pl_ensure_boot :: "string \<Rightarrow> string option \<Rightarrow> plane \<Rightarrow> boot_admit \<times> plane" where
  "pl_ensure_boot base tenant p =
     (let (a, w) = ensure_boot (pl_limits p) base tenant (pl_wake p) in (a, p\<lparr>pl_wake := w\<rparr>))"

definition pl_try_establish :: "string \<Rightarrow> string option \<Rightarrow> plane \<Rightarrow> l4_flow_guard option \<times> plane" where
  "pl_try_establish base tenant p =
     (let (g, fs) = try_establish (pl_limits p) base tenant (pl_flow p) in (g, p\<lparr>pl_flow := fs\<rparr>))"

definition pl_try_c0_grant :: "ip_addr \<Rightarrow> instant \<Rightarrow> plane \<Rightarrow> bool \<times> plane" where
  "pl_try_c0_grant ip now p =
     (let (ok, eg) = try_c0_grant ip now (pl_egress p) in (ok, p\<lparr>pl_egress := eg\<rparr>))"

definition pl_try_egress_aggregate ::
  "string \<Rightarrow> ip_addr \<Rightarrow> nat \<Rightarrow> l4_port_egress_limits \<Rightarrow> instant \<Rightarrow> plane \<Rightarrow> (egress_reject + unit) \<times> plane" where
  "pl_try_egress_aggregate base ip n limits now p =
     (let (r, eg) = try_egress_aggregate (pl_limits p) base ip n limits now (pl_egress p)
      in (r, p\<lparr>pl_egress := eg\<rparr>))"

definition pl_note_ingress :: "string \<Rightarrow> nat \<Rightarrow> u8 \<Rightarrow> instant \<Rightarrow> plane \<Rightarrow> plane" where
  "pl_note_ingress base n k now p =
     (let (a, c) = note_ingress base n k now (pl_activity p, pl_counters p)
      in p\<lparr>pl_activity := a, pl_counters := c\<rparr>)"

definition pl_note_egress :: "string \<Rightarrow> nat \<Rightarrow> u8 \<Rightarrow> ip_addr \<Rightarrow> instant \<Rightarrow> plane \<Rightarrow> plane" where
  "pl_note_egress base n k ip now p =
     (let (a, c) = note_egress base n k ip now (pl_activity p, pl_counters p)
      in p\<lparr>pl_activity := a, pl_counters := c\<rparr>)"

definition pl_sweep :: "instant \<Rightarrow> plane \<Rightarrow> plane" where
  "pl_sweep now p =
     p\<lparr>pl_wake := wake_sweep now (pl_wake p), pl_egress := egress_sweep now (pl_egress p),
       pl_activity := activity_sweep now (pl_activity p)\<rparr>"

definition pl_drop_wake :: "wake_in_flight \<Rightarrow> plane \<Rightarrow> plane" where
  "pl_drop_wake g p = p\<lparr>pl_wake := drop_wake_in_flight g (pl_wake p)\<rparr>"

definition pl_drop_reservation :: "flow_reservation \<Rightarrow> plane \<Rightarrow> plane" where
  "pl_drop_reservation r p = p\<lparr>pl_flow := drop_flow_reservation r (pl_flow p)\<rparr>"

definition pl_drop_guard :: "l4_flow_guard \<Rightarrow> plane \<Rightarrow> plane" where
  "pl_drop_guard g p = p\<lparr>pl_flow := drop_l4_flow_guard g (pl_flow p)\<rparr>"

definition pl_warm_projects :: "plane \<Rightarrow> string list" where
  "pl_warm_projects p = warm_projects (pl_flow p) (ac_suspected (pl_activity p))"

section \<open>The plane invariant\<close>

text \<open>
  \<open>R\<close> and \<open>G\<close> are the bases of the live reservations and of the live established guards, over all
  ports: what the holders of the plane's RAII values own.
\<close>

definition plane_ok :: "(string \<Rightarrow> string option) \<Rightarrow> plane \<Rightarrow> string multiset \<Rightarrow> string multiset \<Rightarrow> bool" where
  "plane_ok own p R G \<longleftrightarrow> flows_rel own (pl_flow p) R G \<and> flow_caps (pl_limits p) own R G
     \<and> wake_ok (pl_limits p) (pl_wake p)"

named_theorems plane_frame "operations that leave the flow accounting alone"

lemma plane_ok_new: "plane_ok own (plane_new lm now) {#} {#}"
  by (simp add: plane_ok_def plane_new_def flows_rel_default wake_ok_new)
    (simp add: flow_caps_def tenant_count_def tenant_bases_def)

lemma pl_count_ok [simp, plane_frame]: "plane_ok own (pl_count r p) R G = plane_ok own p R G"
  by (simp add: plane_ok_def pl_count_def)

lemma pl_event_ok [simp, plane_frame]: "plane_ok own (pl_event e p) R G = plane_ok own p R G"
  by (simp add: plane_ok_def pl_event_def)

lemma pl_drain_ok [simp, plane_frame]: "plane_ok own (snd (pl_drain_counters p)) R G = plane_ok own p R G"
  by (simp add: plane_ok_def pl_drain_counters_def split: prod.splits)

lemma pl_note_ok [simp, plane_frame]:
  "plane_ok own (pl_note_ingress b n k now p) R G = plane_ok own p R G"
  "plane_ok own (pl_note_egress b n k ip now p) R G = plane_ok own p R G"
  by (simp_all add: plane_ok_def pl_note_ingress_def pl_note_egress_def split: prod.splits)

lemma pl_c0_ok [simp, plane_frame]: "plane_ok own (snd (pl_try_c0_grant ip now p)) R G = plane_ok own p R G"
  by (simp add: plane_ok_def pl_try_c0_grant_def split: prod.splits)

lemma pl_aggregate_ok [simp, plane_frame]:
  "plane_ok own (snd (pl_try_egress_aggregate b ip n l now p)) R G = plane_ok own p R G"
  by (simp add: plane_ok_def pl_try_egress_aggregate_def split: prod.splits)

lemma pl_wake_rate_ok [simp, plane_frame]:
  "plane_ok own (snd (pl_try_wake_rate b now p)) R G = plane_ok own p R G"
  by (simp add: plane_ok_def pl_try_wake_rate_def try_wake_rate_def split: prod.splits)

lemma pl_sweep_ok [simp, plane_frame]: "plane_ok own (pl_sweep now p) R G = plane_ok own p R G"
  by (simp add: plane_ok_def pl_sweep_def wake_sweep_def)

lemma pl_ensure_boot_ok:
  assumes "plane_ok own p R G" and "pl_ensure_boot b tn p = (a, p')"
  shows "plane_ok own p' R G"
  using assms wake_ok_ensure_boot[of "pl_limits p" "pl_wake p" b tn]
  by (auto simp: plane_ok_def pl_ensure_boot_def split: prod.splits)

lemma pl_drop_wake_ok:
  "plane_ok own p R G \<Longrightarrow> map_of (wk_inflight (pl_wake p)) b = Some tn \<Longrightarrow>
   plane_ok own (pl_drop_wake (b, tn) p) R G"
  by (simp add: plane_ok_def pl_drop_wake_def wake_ok_drop)

lemma pl_limits_reserve: "pl_limits (snd (pl_try_reserve_flow mi b tn now p)) = pl_limits p"
  by (simp add: pl_try_reserve_flow_def split: prod.splits)

lemma pl_reserve_ok:
  assumes "plane_ok own p R G" and "pl_try_reserve_flow mi b (own b) now p = (r, p')"
  shows "(case r of
            Inr rv \<Rightarrow> rv = (b, own b) \<and> plane_ok own p' (add_mset b R) G
          | Inl _ \<Rightarrow> plane_ok own p' R G)"
proof -
  obtain mem mc where mem: "mem_available_mib mi now (pl_mem p) = (mem, mc)" by fastforce
  obtain fs where fs: "try_reserve_flow (pl_limits p) mem (wk_inflight_boots (pl_wake p)) b (own b) (pl_flow p) = (r, fs)"
    and p': "p' = p\<lparr>pl_mem := mc, pl_flow := fs\<rparr>"
    using assms(2) mem by (auto simp: pl_try_reserve_flow_def split: prod.splits)
  have f: "flows_rel own (pl_flow p) R G" and c: "flow_caps (pl_limits p) own R G"
    using assms(1) by (simp_all add: plane_ok_def)
  have "flow_step (pl_limits p) own (pl_flow p, R, G) (fs, (case r of Inr _ \<Rightarrow> add_mset b R | Inl _ \<Rightarrow> R), G)"
    using fs by (cases r) (auto intro: flow_step.intros)
  from flow_step_preserves[OF this refl f c]
  show ?thesis
    using try_reserve_flow_rel[OF f, of "pl_limits p" mem "wk_inflight_boots (pl_wake p)" b] fs assms(1)
    by (auto simp: p' plane_ok_def split: sum.splits)
qed

lemma pl_establish_ok:
  assumes "plane_ok own p R G" and "count G b < count R b" and "pl_try_establish b (own b) p = (g, p')"
  shows "(case g of
            Some gv \<Rightarrow> gv = (b, own b) \<and> plane_ok own p' R (add_mset b G)
          | None \<Rightarrow> plane_ok own p' R G)"
proof -
  obtain fs where fs: "try_establish (pl_limits p) b (own b) (pl_flow p) = (g, fs)"
    and p': "p' = p\<lparr>pl_flow := fs\<rparr>"
    using assms(3) by (auto simp: pl_try_establish_def split: prod.splits)
  have f: "flows_rel own (pl_flow p) R G" and c: "flow_caps (pl_limits p) own R G"
    using assms(1) by (simp_all add: plane_ok_def)
  have "flow_step (pl_limits p) own (pl_flow p, R, G) (fs, R, (case g of Some _ \<Rightarrow> add_mset b G | None \<Rightarrow> G))"
    using fs assms(2) by (cases g) (auto intro: flow_step.intros)
  from flow_step_preserves[OF this refl f c]
  show ?thesis
    using try_establish_rel[OF f assms(2), of "pl_limits p"] fs assms(1)
    by (auto simp: p' plane_ok_def split: option.splits)
qed

lemma pl_drop_guard_ok:
  assumes "plane_ok own p R G" and "b \<in># G"
  shows "plane_ok own (pl_drop_guard (b, own b) p) R (G - {#b#})"
  using assms flow_step_preserves[OF flow_step.drop_guard[OF assms(2)] refl, of own "pl_flow p" R "pl_limits p"]
  by (simp add: plane_ok_def pl_drop_guard_def)

lemma pl_drop_reservation_ok:
  assumes "plane_ok own p R G" and "count G b < count R b"
  shows "plane_ok own (pl_drop_reservation (b, own b) p) (R - {#b#}) G"
  using assms flow_step_preserves[OF flow_step.drop_reservation[OF assms(2)] refl, of own "pl_flow p" "pl_limits p"]
  by (simp add: plane_ok_def pl_drop_reservation_def)

section \<open>The host-RAM floor\<close>

lemma mem_available_fresh:
  assumes "mem_available_mib mi now mc = (m, mc')"
  shows "m = mc_mib mc' \<and> (\<exists>t. mc_read_at mc' = Some t \<and> now < t + MEM_CACHE_TTL
           \<and> (mc_read_at mc = Some t \<and> mc' = mc \<or> t = now \<and> m = read_mem_available_mib mi))"
  using assms
  by (auto simp: mem_available_mib_def Let_def MEM_CACHE_TTL_def from_secs_def split: option.splits if_splits)

lemma scan_meminfo_skip:
  "\<forall>l \<in> set ls. \<not> starts_with ''MemAvailable:'' l \<Longrightarrow> scan_meminfo (ls @ rest) = scan_meminfo rest"
  by (induction ls) (auto simp: starts_with_def)

lemma scan_meminfo_line:
  assumes "kb < 2 ^ 64" and "\<forall>x \<in> set ws. is_whitespace x"
  shows "scan_meminfo ((''MemAvailable:'' @ ws @ show_nat kb @ '' kB'') # rest) = Some (kb div 1024)"
proof -
  have d: "show_nat kb \<noteq> []" "\<forall>x \<in> set (show_nat kb). \<not> is_whitespace x"
    using show_nat_digits[of kb]
    by (auto simp: list_all_iff is_ascii_digit_def is_whitespace_def)
  have "strip_prefix ''MemAvailable:'' (''MemAvailable:'' @ ws @ show_nat kb @ '' kB'') = Some (ws @ show_nat kb @ '' kB'')"
    by (simp only: strip_prefix_Some_iff)
  moreover have "split_whitespace (ws @ show_nat kb @ '' kB'') = show_nat kb # split_whitespace '' kB''"
    using split_whitespace_blanks[OF assms(2)] split_whitespace_word[OF d, of "'' kB''"]
    by (simp add: is_whitespace_def)
  ultimately show ?thesis by (simp add: parse_uint_show_nat[OF assms(1)])
qed

text \<open>
  The host-RAM floor holds over concurrent boots. When the plane admits the first flow of a
  base (the flow that may wake a machine), the memory reading it decided on is less than
  \<open>MEM_CACHE_TTL\<close> old, and either memory could not be read or the reading covers the reserve plus
  \<open>EST_VM_BOOT_MIB\<close> for every boot in flight at that moment, of which there are at most the wake
  budget. A reading comes from the text of \<open>/proc/meminfo\<close>: for every text whose first
  \<open>MemAvailable:\<close> line carries \<open>kb\<close>, it is \<open>kb div 1024\<close>.
\<close>

theorem ram_floor_charged:
  assumes ok: "plane_ok own p R G" and new: "b \<notin># R" and floor: "0 < host_ram_reserve_mib (pl_limits p)"
    and adm: "pl_try_reserve_flow (Some text) b (own b) now p = (Inr rv, p')"
    and mi: "str_lines text = ls @ (''MemAvailable:'' @ ws @ show_nat kb @ '' kB'') # rest"
      "\<forall>l \<in> set ls. \<not> starts_with ''MemAvailable:'' l" "kb < 2 ^ 64" "\<forall>x \<in> set ws. is_whitespace x"
  shows "\<exists>t. mc_read_at (pl_mem p') = Some t \<and> now < t + MEM_CACHE_TTL
    \<and> (mc_read_at (pl_mem p) = Some t \<or> t = now \<and> mc_mib (pl_mem p') = Some (kb div 1024))
    \<and> (\<forall>m. mc_mib (pl_mem p') = Some m \<longrightarrow>
          host_ram_reserve_mib (pl_limits p) + EST_VM_BOOT_MIB * length (wk_inflight (pl_wake p)) \<le> m)
    \<and> length (wk_inflight (pl_wake p)) \<le> max (wake_budget (pl_limits p)) 1"
proof -
  obtain mem mc where mem: "mem_available_mib (Some text) now (pl_mem p) = (mem, mc)" by fastforce
  obtain fs where fs: "try_reserve_flow (pl_limits p) mem (wk_inflight_boots (pl_wake p)) b (own b) (pl_flow p) = (Inr rv, fs)"
    and p': "p' = p\<lparr>pl_mem := mc, pl_flow := fs\<rparr>"
    using adm mem by (auto simp: pl_try_reserve_flow_def split: prod.splits)
  have f: "flows_rel own (pl_flow p) R G" and w: "wake_ok (pl_limits p) (pl_wake p)"
    using ok by (simp_all add: plane_ok_def)
  have floor_ok: "ram_floor_ok mem (wk_inflight_boots (pl_wake p)) (host_ram_reserve_mib (pl_limits p))"
    using try_reserve_flow_rel[OF f, of "pl_limits p" mem "wk_inflight_boots (pl_wake p)" b] fs new
    by (auto simp: reserve_admissible_def)
  have boots: "wk_inflight_boots (pl_wake p) = length (wk_inflight (pl_wake p))"
    "length (wk_inflight (pl_wake p)) \<le> max (wake_budget (pl_limits p)) 1"
    using w by (auto simp: wake_ok_def)
  have "read_mem_available_mib (Some text) = Some (kb div 1024)"
    using scan_meminfo_skip[OF mi(2)] scan_meminfo_line[OF mi(3,4)] by (simp add: read_mem_available_mib_def mi(1))
  with mem_available_fresh[OF mem] floor_ok floor boots show ?thesis
    by (fastforce simp: p' ram_floor_ok_def mult.commute)
qed

text \<open>A host with 2000 MiB available admits the first flow of a base.\<close>

definition meminfo_example :: string where
  "meminfo_example = ''MemTotal: 9 kB'' @ [CHR 0x0A] @ ''MemAvailable: 2048000 kB'' @ [CHR 0x0A]"

lemma meminfo_example_lines:
  "str_lines meminfo_example = [''MemTotal: 9 kB''] @ (''MemAvailable:'' @ '' '' @ show_nat 2048000 @ '' kB'') # []"
  by (simp add: meminfo_example_def str_lines_def strip_cr_def show_nat.simps char_of_def bit_simps)

theorem ram_floor_charged_witness:
  "\<exists>rv p'. pl_try_reserve_flow (Some meminfo_example) ''a'' None 0 (plane_new default_limits 0) = (Inr rv, p')
     \<and> (\<exists>t. mc_read_at (pl_mem p') = Some t \<and> 0 < t + MEM_CACHE_TTL
          \<and> (\<forall>m. mc_mib (pl_mem p') = Some m \<longrightarrow> 512 \<le> m))"
proof -
  let ?p = "plane_new default_limits 0"
  have "read_mem_available_mib (Some meminfo_example) = Some 2000"
    using scan_meminfo_skip[of "[''MemTotal: 9 kB'']"] scan_meminfo_line[of 2048000 "'' ''" "[]"]
    by (simp add: read_mem_available_mib_def meminfo_example_lines starts_with_def is_whitespace_def)
  then have r: "fst (pl_try_reserve_flow (Some meminfo_example) ''a'' None 0 ?p) = Inr (''a'', None)"
    by (simp add: pl_try_reserve_flow_def mem_available_mib_def split_beta Let_def)
      (simp add: plane_new_def Let_def try_reserve_flow_def flow_state_default_def
        default_limits_def ram_floor_ok_def wake_gate_new_def base_total_def)
  obtain p' where e: "pl_try_reserve_flow (Some meminfo_example) ''a'' None 0 ?p = (Inr (''a'', None), p')"
    using r by (metis prod.collapse)
  show ?thesis
    using ram_floor_charged[OF plane_ok_new[of "\<lambda>_. None" default_limits 0], of "''a''" meminfo_example 0 "(''a'', None)" p'
        "[''MemTotal: 9 kB'']" "'' ''" 2048000 "[]"]
    by (simp add: e meminfo_example_lines starts_with_def is_whitespace_def)
      (auto simp: plane_new_def default_limits_def wake_gate_new_def)
qed

end
