(* ===== verification/Wire.thy ===== *)
theory Wire
  imports Prelude
begin

unbundle bit_operations_syntax

text \<open>
  Bytes on the wire: big-endian integers (\<open>to_be_bytes\<close>, \<open>from_be_bytes\<close>) and the constant-time
  comparison \<open>ct_eq\<close> of \<open>crates/jkbase-common/src/db_preamble.rs\<close>, shared by the database preamble
  and the L4 transit frame.
\<close>

section \<open>Big-endian integers\<close>

fun be_bytes :: "nat \<Rightarrow> nat \<Rightarrow> bytes" where
  "be_bytes 0 v = []"
| "be_bytes (Suc n) v = be_bytes n (v div 256) @ [word_of_nat v]"

definition from_be :: "bytes \<Rightarrow> nat" where
  "from_be bs = foldl (\<lambda>v b. 256 * v + unat b) 0 bs"

definition u16_to_be :: "u16 \<Rightarrow> bytes" where "u16_to_be w = be_bytes 2 (unat w)"
definition u32_to_be :: "u32 \<Rightarrow> bytes" where "u32_to_be w = be_bytes 4 (unat w)"
definition u64_to_be :: "u64 \<Rightarrow> bytes" where "u64_to_be w = be_bytes 8 (unat w)"
definition u32_from_be :: "bytes \<Rightarrow> u32" where "u32_from_be bs = word_of_nat (from_be bs)"
definition u64_from_be :: "bytes \<Rightarrow> u64" where "u64_from_be bs = word_of_nat (from_be bs)"

lemma length_be_bytes [simp]: "length (be_bytes n v) = n"
  by (induction n arbitrary: v) auto

lemma hd_be_bytes: "hd (be_bytes (Suc n) v) = word_of_nat (v div 256 ^ n)"
proof (induction n arbitrary: v)
  case (Suc n)
  have "be_bytes (Suc n) (v div 256) \<noteq> []" by simp
  then have "hd (be_bytes (Suc (Suc n)) v) = hd (be_bytes (Suc n) (v div 256))"
    by (metis be_bytes.simps(2) hd_append2)
  also have "\<dots> = word_of_nat (v div 256 div 256 ^ n)" by (rule Suc)
  finally show ?case by (simp only: div_mult2_eq power_Suc)
qed simp

lemma from_be_Nil [simp]: "from_be [] = 0"
  by (simp add: from_be_def)

lemma from_be_snoc [simp]: "from_be (bs @ [b]) = 256 * from_be bs + unat b"
  by (simp add: from_be_def)

lemma unat_bounds:
  "unat (a :: u8) < 256" "unat (b :: u16) < 65536" "unat (c :: u32) < 4294967296"
  "unat (d :: u64) < 18446744073709551616"
  using unsigned_less[of a] unsigned_less[of b] unsigned_less[of c] unsigned_less[of d] by simp_all

lemma unat_byte: "unat (word_of_nat v :: u8) = v mod 256"
  by (simp add: unat_of_nat)

lemma from_be_be_bytes: "from_be (be_bytes n v) = v mod 256 ^ n"
proof (induction n arbitrary: v)
  case (Suc n)
  have "v mod (256 * 256 ^ n) = 256 * (v div 256 mod 256 ^ n) + v mod 256"
    by (rule mod_mult2_eq)
  then show ?case using Suc by (simp add: unat_byte)
qed simp

lemma byte_of_nat: "word_of_nat (256 * k + unat b) = (b :: u8)"
proof -
  have "unat (word_of_nat (256 * k + unat b) :: u8) = unat b"
    using unat_bounds(1)[of b] by (simp only: unat_byte) simp
  then show ?thesis by (simp only: word_unat_eq_iff)
qed

lemma be_bytes_from_be: "be_bytes (length bs) (from_be bs) = bs"
proof (induction bs rule: rev_induct)
  case (snoc b bs)
  have "(256 * from_be bs + unat b) div 256 = from_be bs" using unat_bounds(1)[of b] by simp
  then show ?case using snoc by (simp add: byte_of_nat del: of_nat_add of_nat_mult)
qed simp

lemma from_be_lt: "from_be bs < 256 ^ length bs"
proof -
  have "from_be bs = from_be bs mod 256 ^ length bs"
    using from_be_be_bytes[of "length bs" "from_be bs"] by (simp add: be_bytes_from_be)
  also have "\<dots> < 256 ^ length bs" by simp
  finally show ?thesis .
qed

lemma length_to_be [simp]:
  "length (u16_to_be a) = 2" "length (u32_to_be b) = 4" "length (u64_to_be c) = 8"
  by (simp_all add: u16_to_be_def u32_to_be_def u64_to_be_def)

lemma u32_be_roundtrip [simp]: "u32_from_be (u32_to_be w) = w"
  using unat_bounds(3)[of w] by (simp add: u32_from_be_def u32_to_be_def from_be_be_bytes)

lemma u64_be_roundtrip [simp]: "u64_from_be (u64_to_be w) = w"
  using unat_bounds(4)[of w] by (simp add: u64_from_be_def u64_to_be_def from_be_be_bytes)

lemma u16_be_value [simp]: "from_be (u16_to_be w) = unat w"
  using unat_bounds(2)[of w] by (simp add: u16_to_be_def from_be_be_bytes)

lemma u32_from_be_roundtrip: "length bs = 4 \<Longrightarrow> u32_to_be (u32_from_be bs) = bs"
  using from_be_lt[of bs] be_bytes_from_be[of bs]
  by (simp add: u32_from_be_def u32_to_be_def unat_of_nat)

lemma u64_from_be_roundtrip: "length bs = 8 \<Longrightarrow> u64_to_be (u64_from_be bs) = bs"
  using from_be_lt[of bs] be_bytes_from_be[of bs]
  by (simp add: u64_from_be_def u64_to_be_def unat_of_nat)

lemma u32_to_be_inj [simp]: "u32_to_be a = u32_to_be b \<longleftrightarrow> a = b"
  by (metis u32_be_roundtrip)

lemma u64_to_be_inj [simp]: "u64_to_be a = u64_to_be b \<longleftrightarrow> a = b"
  by (metis u64_be_roundtrip)

section \<open>Constant-time equality\<close>

definition ct_eq :: "bytes \<Rightarrow> bytes \<Rightarrow> bool" where
  "ct_eq a b =
     (if length a \<noteq> length b then False
      else fold (\<lambda>(x, y) diff. diff OR (x XOR y)) (zip a b) 0 = 0)"

lemma or_eq_0_iff: "(a :: 'a :: len word) OR b = 0 \<longleftrightarrow> a = 0 \<and> b = 0"
  by (auto simp: bit_eq_iff bit_simps)

lemma ct_eq_fold:
  "length a = length b \<Longrightarrow>
   fold (\<lambda>(x, y) diff. diff OR (x XOR y)) (zip a b) d = 0 \<longleftrightarrow> d = 0 \<and> a = (b :: bytes)"
proof (induction a b arbitrary: d rule: list_induct2)
  case (Cons x xs y ys)
  have "x XOR y = 0 \<longleftrightarrow> x = y" by (auto simp: bit_eq_iff bit_simps)
  then show ?case using Cons by (auto simp: or_eq_0_iff)
qed simp

text \<open>The accumulating comparison is equality.\<close>

lemma ct_eq_iff [simp]: "ct_eq a b \<longleftrightarrow> a = b"
  by (auto simp: ct_eq_def ct_eq_fold)

end
