(* ===== verification/L4_Transit.thy ===== *)
theory L4_Transit
  imports Wire
begin

text \<open>
  The authenticated transit frame of \<open>crates/jkbase-common/src/l4_transit.rs\<close>: \<open>L4Dir\<close>,
  \<open>L4TransitHeader\<close>, \<open>tag\<close>, \<open>seal\<close> and \<open>open\<close>.

  HMAC-SHA256 is a library the sources call: it is the argument \<open>hmac\<close>, a function of the key and
  the message into 256-bit digests (\<open>[u8; 32]\<close> in the code, so no hypothesis on its length is
  needed). Nothing is assumed of it; statements about forgery say which digests would have to agree.
\<close>

section \<open>Frames\<close>

type_synonym hmac = "bytes \<Rightarrow> bytes \<Rightarrow> 256 word"

definition L4_TAG_LEN :: nat where "L4_TAG_LEN = 16"
definition L4_HEADER_LEN :: nat where "L4_HEADER_LEN = 4 + 4 + 8 + L4_TAG_LEN"

datatype l4_dir = HostToAgent | AgentToHost

fun dir_byte :: "l4_dir \<Rightarrow> u8" where
  "dir_byte HostToAgent = 1"
| "dir_byte AgentToHost = 2"

record l4_transit_header =
  h_flow_id :: u32
  h_epoch :: u32
  h_nonce :: u64

definition hdr_bytes :: "l4_transit_header \<Rightarrow> bytes" where
  "hdr_bytes h = u32_to_be (h_flow_id h) @ u32_to_be (h_epoch h) @ u64_to_be (h_nonce h)"

definition mac_input :: "l4_dir \<Rightarrow> l4_transit_header \<Rightarrow> bytes \<Rightarrow> bytes" where
  "mac_input d h payload = [dir_byte d] @ hdr_bytes h @ payload"

definition l4_tag :: "hmac \<Rightarrow> bytes \<Rightarrow> l4_dir \<Rightarrow> l4_transit_header \<Rightarrow> bytes \<Rightarrow> bytes" where
  "l4_tag hmac secret d h payload =
     take L4_TAG_LEN (be_bytes 32 (unat (hmac secret (mac_input d h payload))))"

definition l4_seal :: "hmac \<Rightarrow> bytes \<Rightarrow> l4_dir \<Rightarrow> l4_transit_header \<Rightarrow> bytes \<Rightarrow> bytes" where
  "l4_seal hmac secret d h payload = hdr_bytes h @ l4_tag hmac secret d h payload @ payload"

definition l4_open :: "hmac \<Rightarrow> bytes \<Rightarrow> l4_dir \<Rightarrow> bytes \<Rightarrow> (l4_transit_header \<times> bytes) option" where
  "l4_open hmac secret d frame =
     (if length frame < L4_HEADER_LEN then None
      else (let h = \<lparr>h_flow_id = u32_from_be (take 4 frame),
                     h_epoch = u32_from_be (take 4 (drop 4 frame)),
                     h_nonce = u64_from_be (take 8 (drop 8 frame))\<rparr>;
                wire_tag = take L4_TAG_LEN (drop 16 frame);
                payload = drop L4_HEADER_LEN frame
            in if \<not> ct_eq wire_tag (l4_tag hmac secret d h payload) then None
               else Some (h, payload)))"

section \<open>The channel interface\<close>

text \<open>
  What the two ends of the seam rely on: \<open>open\<close> accepts a frame exactly when it is the sealing of
  what it returns, and the sealing determines header and payload.
\<close>

locale sealed_channel =
  fixes seal_op :: "'d \<Rightarrow> 'h \<Rightarrow> 'p \<Rightarrow> 'f" and open_op :: "'d \<Rightarrow> 'f \<Rightarrow> ('h \<times> 'p) option"
  assumes open_iff: "open_op d f = Some (h, p) \<longleftrightarrow> f = seal_op d h p"
begin

lemma open_seal: "open_op d (seal_op d h p) = Some (h, p)"
  by (simp add: open_iff)

lemma seal_inj: "seal_op d h p = seal_op d h' p' \<longleftrightarrow> h = h' \<and> p = p'"
  using open_iff[of d "seal_op d h p" h' p'] by (auto simp: open_seal)

lemma open_None_iff: "open_op d f = None \<longleftrightarrow> (\<forall>h p. f \<noteq> seal_op d h p)"
  by (metis open_iff not_None_eq surj_pair)

end

lemma length_hdr_bytes [simp]: "length (hdr_bytes h) = 16"
  by (simp add: hdr_bytes_def)

lemma length_l4_tag [simp]: "length (l4_tag hmac s d h p) = 16"
  by (simp add: l4_tag_def L4_TAG_LEN_def)

lemma hdr_bytes_fields [simp]:
  "u32_from_be (take 4 (hdr_bytes h @ r)) = h_flow_id h"
  "u32_from_be (take 4 (drop 4 (hdr_bytes h @ r))) = h_epoch h"
  "u64_from_be (take 8 (drop 8 (hdr_bytes h @ r))) = h_nonce h"
  by (simp_all add: hdr_bytes_def)

lemma hdr_bytes_fields' [simp]:
  "u32_from_be (take 4 (hdr_bytes h)) = h_flow_id h"
  "u32_from_be (take 4 (drop 4 (hdr_bytes h))) = h_epoch h"
  "u64_from_be (drop 8 (hdr_bytes h)) = h_nonce h"
  by (simp_all add: hdr_bytes_def)

lemma hdr_bytes_parse:
  assumes "16 \<le> length f"
  shows "hdr_bytes \<lparr>h_flow_id = u32_from_be (take 4 f), h_epoch = u32_from_be (take 4 (drop 4 f)),
           h_nonce = u64_from_be (take 8 (drop 8 f))\<rparr> = take 16 f"
proof -
  have "take 16 f = take 4 f @ take 4 (drop 4 f) @ take 8 (drop 8 f)"
    by (simp add: take_add[symmetric] flip: append_assoc)
  then show ?thesis
    using assms by (simp add: hdr_bytes_def u32_from_be_roundtrip u64_from_be_roundtrip)
qed

lemma hdr_bytes_inj [simp]: "hdr_bytes h = hdr_bytes h' \<longleftrightarrow> h = h'"
  by (auto simp: hdr_bytes_def intro: l4_transit_header.equality)

lemma mac_input_inj: "mac_input d h p = mac_input d' h' p' \<longleftrightarrow> d = d' \<and> h = h' \<and> p = p'"
  by (cases d; cases d') (auto simp: mac_input_def)

lemma l4_open_iff: "l4_open hmac s d f = Some (h, p) \<longleftrightarrow> f = l4_seal hmac s d h p"
proof
  assume o: "l4_open hmac s d f = Some (h, p)"
  then have len: "32 \<le> length f" by (auto simp: l4_open_def L4_HEADER_LEN_def L4_TAG_LEN_def split: if_splits)
  have h: "h = \<lparr>h_flow_id = u32_from_be (take 4 f), h_epoch = u32_from_be (take 4 (drop 4 f)),
           h_nonce = u64_from_be (take 8 (drop 8 f))\<rparr>"
    and p: "p = drop 32 f" and t: "take 16 (drop 16 f) = l4_tag hmac s d h p"
    using o len by (auto simp: l4_open_def L4_HEADER_LEN_def L4_TAG_LEN_def Let_def split: if_splits)
  have "f = take 16 f @ take 16 (drop 16 f) @ drop 32 f"
    by (metis add_numeral_special(2) append_assoc append_take_drop_id drop_drop numeral_Bit0)
  then show "f = l4_seal hmac s d h p"
    using hdr_bytes_parse[of f] len h p t by (simp add: l4_seal_def)
next
  assume "f = l4_seal hmac s d h p"
  then show "l4_open hmac s d f = Some (h, p)"
    by (cases h) (simp add: l4_open_def l4_seal_def L4_HEADER_LEN_def L4_TAG_LEN_def Let_def)
qed

interpretation transit: sealed_channel "l4_seal hmac secret" "l4_open hmac secret" for hmac secret
  by unfold_locales (rule l4_open_iff)

text \<open>
  C27. \<open>open\<close> inverts \<open>seal\<close> and accepts nothing else: for every MAC, key, direction and byte
  string, \<open>open\<close> returns a header and a payload exactly when the byte string is their sealing under
  that key and direction. So no byte of a frame can be changed, and a short frame is refused.
\<close>

theorem open_accepts_exactly_sealed:
  "l4_open hmac secret d frame = Some (h, payload) \<longleftrightarrow> frame = l4_seal hmac secret d h payload"
  by (rule transit.open_iff)

text \<open>
  Direction binding. A frame sealed for one leg is accepted on the other leg only if the MAC
  gives two different messages the same 128-bit tag; and what it is then accepted as is the same
  header and payload. So replaying a frame across directions needs a tag collision.
\<close>

theorem cross_direction_needs_collision:
  assumes "d \<noteq> d'"
  shows "(l4_open hmac secret d' (l4_seal hmac secret d h payload) = None) =
      (l4_tag hmac secret d h payload \<noteq> l4_tag hmac secret d' h payload)
    \<and> mac_input d h payload \<noteq> mac_input d' h payload"
proof -
  have "l4_seal hmac secret d h payload = l4_seal hmac secret d' h' p' \<longleftrightarrow>
      h = h' \<and> payload = p' \<and> l4_tag hmac secret d h payload = l4_tag hmac secret d' h payload" for h' p'
    by (auto simp: l4_seal_def)
  then have "(l4_open hmac secret d' (l4_seal hmac secret d h payload) = None) =
      (l4_tag hmac secret d h payload \<noteq> l4_tag hmac secret d' h payload)"
    using transit.open_None_iff[of hmac secret d' "l4_seal hmac secret d h payload"] by simp
  then show ?thesis using assms by (simp add: mac_input_inj)
qed

text \<open>With a MAC that tells the first byte of the message apart, nothing crosses over.\<close>

definition first_byte_mac :: hmac where
  "first_byte_mac k m = (case m of [] \<Rightarrow> 0 | b # _ \<Rightarrow> word_of_nat (unat b * 2 ^ 248))"

theorem cross_direction_needs_collision_witness:
  "l4_open first_byte_mac [7] AgentToHost
     (l4_seal first_byte_mac [7] HostToAgent \<lparr>h_flow_id = 5, h_epoch = 6, h_nonce = 7\<rparr> [1, 2]) = None"
proof -
  have "hd (l4_tag first_byte_mac [7] HostToAgent h p) \<noteq> hd (l4_tag first_byte_mac [7] AgentToHost h p)" for h p
    using hd_be_bytes[of 31] by (simp add: l4_tag_def mac_input_def first_byte_mac_def L4_TAG_LEN_def)
  then have "l4_tag first_byte_mac [7] HostToAgent h p \<noteq> l4_tag first_byte_mac [7] AgentToHost h p" for h p
    by metis
  then show ?thesis
    using cross_direction_needs_collision[of HostToAgent AgentToHost first_byte_mac "[7]"
        "\<lparr>h_flow_id = 5, h_epoch = 6, h_nonce = 7\<rparr>" "[1, 2]"]
    by simp
qed

end
