(* ===== verification/Net_Parse.thy ===== *)
theory Net_Parse
  imports Net_Addr Rust_Str
begin

text \<open>
  Parsing of addresses as \<open>core::net::parser\<close> does it: \<open>str::parse\<close> into \<open>IpAddr\<close> and \<open>SocketAddr\<close>,
  which the sources apply to backend addresses (\<open>format!("{}:{}", ip, port).parse()\<close>) and to
  resolver answers. A reader consumes a prefix of the input and returns the value and the rest. The
  scope id of an IPv6 socket address is read and not kept.
\<close>

definition hex_val :: "char \<Rightarrow> nat option" where
  "hex_val c =
     (let n = of_char c :: nat
      in if 48 \<le> n \<and> n \<le> 57 then Some (n - 48)
         else if 97 \<le> n \<and> n \<le> 102 then Some (n - 87)
         else if 65 \<le> n \<and> n \<le> 70 then Some (n - 55)
         else None)"

definition radix_val :: "nat \<Rightarrow> char \<Rightarrow> nat option" where
  "radix_val radix c = (case hex_val c of Some d \<Rightarrow> if d < radix then Some d else None | None \<Rightarrow> None)"

text \<open>
  \<open>read_number\<close>: the longest run of digits; it fails when there is none, when there are more than
  \<open>max_digits\<close>, when the value does not fit in \<open>w\<close> bits, and on a leading zero of a longer run
  unless \<open>allow_zero_prefix\<close>.
\<close>

definition read_number :: "nat \<Rightarrow> nat option \<Rightarrow> bool \<Rightarrow> nat \<Rightarrow> string \<Rightarrow> (nat \<times> string) option" where
  "read_number radix max_digits allow_zero_prefix w s =
     (let ds = takeWhile (\<lambda>c. radix_val radix c \<noteq> None) s;
          v = foldl (\<lambda>n c. radix * n + the (radix_val radix c)) 0 ds
      in if ds = [] \<or> (case max_digits of Some m \<Rightarrow> length ds > m | None \<Rightarrow> False) \<or> v \<ge> 2 ^ w
            \<or> (\<not> allow_zero_prefix \<and> hd ds = CHR ''0'' \<and> length ds > 1)
         then None else Some (v, drop (length ds) s))"

fun read_char :: "char \<Rightarrow> string \<Rightarrow> string option" where
  "read_char c [] = None"
| "read_char c (x # xs) = (if x = c then Some xs else None)"

definition read_octet :: "string \<Rightarrow> (nat \<times> string) option" where
  "read_octet s = read_number 10 (Some 3) False 8 s"

definition read_ipv4_addr :: "string \<Rightarrow> (ip_addr \<times> string) option" where
  "read_ipv4_addr s0 =
     (case read_octet s0 of None \<Rightarrow> None | Some (a, s) \<Rightarrow>
      (case Option.bind (read_char (CHR ''.'') s) read_octet of None \<Rightarrow> None | Some (b, s) \<Rightarrow>
      (case Option.bind (read_char (CHR ''.'') s) read_octet of None \<Rightarrow> None | Some (c, s) \<Rightarrow>
      (case Option.bind (read_char (CHR ''.'') s) read_octet of None \<Rightarrow> None | Some (d, s) \<Rightarrow>
         Some (V4 (word_of_nat a) (word_of_nat b) (word_of_nat c) (word_of_nat d), s)))))"

text \<open>One group of an IPv6 address, after its separator (none before the first group).\<close>

definition read_sep :: "nat \<Rightarrow> string \<Rightarrow> string option" where
  "read_sep i s = (if i = 0 then Some s else read_char (CHR '':'') s)"

fun v4_groups :: "ip_addr \<Rightarrow> nat list" where
  "v4_groups (V4 a b c d) = [unat a * 256 + unat b, unat c * 256 + unat d]"
| "v4_groups (V6 a b c d e f g h) = []"

text \<open>
  \<open>read_groups\<close>: up to \<open>n\<close> more groups from index \<open>i\<close> on; a trailing embedded IPv4 address takes
  two. The result carries the groups read and whether they end in an IPv4 address.
\<close>

fun read_groups :: "nat \<Rightarrow> nat \<Rightarrow> string \<Rightarrow> nat list \<times> bool \<times> string" where
  "read_groups 0 i s = ([], False, s)"
| "read_groups (Suc n) i s =
     (case (if n > 0 then Option.bind (read_sep i s) read_ipv4_addr else None) of
        Some (v4, r) \<Rightarrow> (v4_groups v4, True, r)
      | None \<Rightarrow>
          (case Option.bind (read_sep i s) (read_number 16 (Some 4) True 16) of
             None \<Rightarrow> ([], False, s)
           | Some (g, r) \<Rightarrow> (let (gs, v4, r') = read_groups n (Suc i) r in (g # gs, v4, r'))))"

definition v6_of_groups :: "nat list \<Rightarrow> ip_addr" where
  "v6_of_groups gs =
     V6 (word_of_nat (gs ! 0)) (word_of_nat (gs ! 1)) (word_of_nat (gs ! 2)) (word_of_nat (gs ! 3))
        (word_of_nat (gs ! 4)) (word_of_nat (gs ! 5)) (word_of_nat (gs ! 6)) (word_of_nat (gs ! 7))"

definition read_ipv6_addr :: "string \<Rightarrow> (ip_addr \<times> string) option" where
  "read_ipv6_addr s0 =
     (let (hs, v4, s) = read_groups 8 0 s0
      in if length hs = 8 then Some (v6_of_groups hs, s)
         else if v4 then None
         else (case Option.bind (read_char (CHR '':'') s) (read_char (CHR '':'')) of
                 None \<Rightarrow> None
               | Some s \<Rightarrow>
                   (let (ts, _, s) = read_groups (8 - (length hs + 1)) 0 s
                    in Some (v6_of_groups (hs @ replicate (8 - length hs - length ts) 0 @ ts), s))))"

definition read_port :: "string \<Rightarrow> (nat \<times> string) option" where
  "read_port s = Option.bind (read_char (CHR '':'') s) (read_number 10 None True 16)"

definition read_scope :: "string \<Rightarrow> string" where
  "read_scope s =
     (case Option.bind (read_char (CHR ''%'') s) (read_number 10 None True 32) of
        None \<Rightarrow> s | Some (_, r) \<Rightarrow> r)"

definition read_socket_addr :: "string \<Rightarrow> (sock_addr \<times> string) option" where
  "read_socket_addr s =
     (case Option.bind (read_ipv4_addr s) (\<lambda>(ip, r). map_option (\<lambda>(p, r). ((ip, word_of_nat p), r)) (read_port r)) of
        Some x \<Rightarrow> Some x
      | None \<Rightarrow>
          Option.bind (read_char (CHR ''['') s) (\<lambda>s.
          Option.bind (read_ipv6_addr s) (\<lambda>(ip, s).
          Option.bind (read_char (CHR '']'') (read_scope s)) (\<lambda>s.
          map_option (\<lambda>(p, r). ((ip, word_of_nat p), r)) (read_port s)))))"

definition parse_all :: "(string \<Rightarrow> ('a \<times> string) option) \<Rightarrow> string \<Rightarrow> 'a option" where
  "parse_all rd s = (case rd s of Some (x, []) \<Rightarrow> Some x | _ \<Rightarrow> None)"

definition parse_socket_addr :: "string \<Rightarrow> sock_addr option" where
  "parse_socket_addr s = parse_all read_socket_addr s"

definition parse_ip_addr :: "string \<Rightarrow> ip_addr option" where
  "parse_ip_addr s =
     (case parse_all read_ipv4_addr s of Some a \<Rightarrow> Some a | None \<Rightarrow> parse_all read_ipv6_addr s)"

definition parse_ipv4_addr :: "string \<Rightarrow> ip_addr option" where
  "parse_ipv4_addr s = (if length s > 15 then None else parse_all read_ipv4_addr s)"

section \<open>Printing\<close>

fun show_v4 :: "u8 \<Rightarrow> u8 \<Rightarrow> u8 \<Rightarrow> u8 \<Rightarrow> string" where
  "show_v4 a b c d = show_nat (unat a) @ ''.'' @ show_nat (unat b) @ ''.'' @ show_nat (unat c) @ ''.'' @ show_nat (unat d)"

lemma radix_val_10: "radix_val 10 c = (if is_ascii_digit c then Some (digit_val c) else None)"
  by (auto simp: radix_val_def hex_val_def is_ascii_digit_def digit_val_def Let_def)

lemma foldl_digits:
  "list_all is_ascii_digit ds \<Longrightarrow> foldl (\<lambda>n c. 10 * n + the (radix_val 10 c)) v ds = foldl (\<lambda>n c. 10 * n + digit_val c) v ds"
  by (induction ds arbitrary: v) (auto simp: radix_val_10)

lemma show_nat_no_zero: "0 < n \<Longrightarrow> hd (show_nat n) \<noteq> CHR ''0''"
proof (induction n rule: show_nat.induct)
  case (1 n)
  show ?case
  proof (cases "n < 10")
    case True
    then have "show_nat n = [char_of (n + 48)]" by (subst show_nat.simps) simp
    moreover have "char_of (n + 48) \<noteq> CHR ''0''"
    proof
      assume "char_of (n + 48) = CHR ''0''"
      then have "(of_char (char_of (n + 48)) :: nat) = 48" by simp
      then show False using True 1 by (simp add: of_char_of)
    qed
    ultimately show ?thesis by simp
  next
    case False
    then have "show_nat n = show_nat (n div 10) @ [char_of (n mod 10 + 48)]" by (subst show_nat.simps) simp
    moreover have "hd (show_nat (n div 10)) \<noteq> CHR ''0''" using 1 False by simp
    ultimately show ?thesis using show_nat_digits[of "n div 10"] by simp
  qed
qed

lemma length_show_nat: "n < 10 ^ k \<Longrightarrow> 0 < k \<Longrightarrow> length (show_nat n) \<le> k"
proof (induction k arbitrary: n)
  case (Suc k)
  then show ?case
  proof (cases "n < 10")
    case True
    then show ?thesis by (subst show_nat.simps) simp
  next
    case False
    then have "k \<noteq> 0" using Suc.prems by (cases k) auto
    moreover have "n div 10 < 10 ^ k" using Suc.prems by (simp add: less_mult_imp_div_less mult.commute)
    ultimately have "0 < k" "n div 10 < 10 ^ k" by simp_all
    then have "length (show_nat (n div 10)) \<le> k" using Suc.IH by simp
    then show ?thesis using False by (subst show_nat.simps) simp
  qed
qed simp

text \<open>A reader stops at the first character that is no digit.\<close>

definition no_digit :: "string \<Rightarrow> bool" where
  "no_digit r \<longleftrightarrow> r = [] \<or> \<not> is_ascii_digit (hd r)"

lemma read_number_show_nat:
  assumes "n < 2 ^ w" and "no_digit r" and "case mx of Some m \<Rightarrow> length (show_nat n) \<le> m | None \<Rightarrow> True"
  shows "read_number 10 mx z w (show_nat n @ r) = Some (n, r)"
proof -
  have d: "list_all is_ascii_digit (show_nat n)" "show_nat n \<noteq> []" using show_nat_digits by auto
  have p: "(\<lambda>c. radix_val 10 c \<noteq> None) = is_ascii_digit" by (auto simp: radix_val_10)
  have tw: "takeWhile is_ascii_digit (show_nat n @ r) = show_nat n"
    using d(1) assms(2) by (cases r) (auto simp: list_all_iff no_digit_def)
  have z: "hd (show_nat n) = CHR ''0'' \<Longrightarrow> length (show_nat n) = 1"
    using show_nat_no_zero[of n] by (cases n) (simp_all add: show_nat.simps[of 0])
  show ?thesis
    using d(2) assms z
    unfolding read_number_def Let_def p tw foldl_digits[OF d(1)] digits_val_show_nat[unfolded digits_val_def]
    by (auto split: option.splits)
qed

lemma read_octet_show: "no_digit r \<Longrightarrow> read_octet (show_nat (unat (a :: u8)) @ r) = Some (unat a, r)"
proof -
  assume r: "no_digit r"
  have "unat a < 256" using unsigned_less[of a] by simp
  then show ?thesis
    unfolding read_octet_def
    using length_show_nat[of "unat a" 3] r by (intro read_number_show_nat) simp_all
qed

lemma no_digit_dot [simp]: "no_digit (CHR ''.'' # r)" "no_digit (CHR '':'' # r)" "no_digit []"
  by (simp_all add: no_digit_def is_ascii_digit_def)

lemma read_ipv4_show:
  assumes "no_digit r"
  shows "read_ipv4_addr (show_v4 a b c d @ r) = Some (V4 a b c d, r)"
  using assms by (simp add: read_ipv4_addr_def read_octet_show)

lemma parse_socket_addr_v4:
  "parse_socket_addr (show_v4 a b c d @ '':'' @ show_nat (unat (p :: u16))) = Some (V4 a b c d, p)"
proof -
  have "unat p < 65536" using unsigned_less[of p] by simp
  then have "read_number 10 None True 16 (show_nat (unat p)) = Some (unat p, [])"
    using read_number_show_nat[of "unat p" 16 "[]" None True] by simp
  then show ?thesis
    using read_ipv4_show[of "'':'' @ show_nat (unat p)" a b c d]
    by (simp add: parse_socket_addr_def parse_all_def read_socket_addr_def read_port_def del: show_v4.simps)
qed

lemma parse_ip_addr_v4: "parse_ip_addr (show_v4 a b c d) = Some (V4 a b c d)"
  using read_ipv4_show[of "[]" a b c d] by (simp add: parse_ip_addr_def parse_all_def del: show_v4.simps)

end
