(* ===== verification/L4_Ingress.thy ===== *)
theory L4_Ingress
  imports L4_Plane L4_Transit Net_Parse
begin

text \<open>
  The per-port datagram pump of \<open>crates/jkbase-proxy/src/l4_ingress.rs\<close>: the flow table of one
  public UDP port and the decisions its loops take under the port lock (\<open>reach_decide\<close>,
  \<open>reach_admit\<close>, \<open>return_decide\<close>, \<open>sweep\<close>, \<open>on_ready\<close>, \<open>clear_booting\<close>), with the plane operations they
  call. Dropping a flow releases its guard, then its reservation, on the plane.

  \<open>/proc/meminfo\<close> (read inside \<open>try_reserve_flow\<close>), the resolver's answer (\<open>live\<close>), the wake result
  and the clock are arguments. Sockets are not modelled: a decision returns what is to be sent.
  This theory holds the state and the operations; \<open>L4_Ingress_Inv\<close> their invariant and properties.
\<close>

section \<open>Constants\<close>

definition PROVISIONAL_IDLE :: duration where "PROVISIONAL_IDLE = from_secs 5"
definition MIN_ESTABLISH_BYTES :: nat where "MIN_ESTABLISH_BYTES = 1024"
definition MIN_ESTABLISH_PKTS :: nat where "MIN_ESTABLISH_PKTS = 3"
definition MIN_ESTABLISH_MS :: duration where "MIN_ESTABLISH_MS = from_millis 250"
definition PORT_SOURCE_MAP_MAX :: nat where "PORT_SOURCE_MAP_MAX = 16384"
definition PORT_SOURCE_TTL :: duration where "PORT_SOURCE_TTL = from_secs 120"
definition IDENTITY_MEMO_TTL :: duration where "IDENTITY_MEMO_TTL = from_secs 45"
definition IDENTITY_MEMO_MAX :: nat where "IDENTITY_MEMO_MAX = 16384"
definition REUSE_QUARANTINE :: duration where "REUSE_QUARANTINE = from_secs 5"
definition REPLAY_MAX_PKTS :: nat where "REPLAY_MAX_PKTS = 4"
definition REPLAY_MAX_BYTES :: nat where "REPLAY_MAX_BYTES = 8 * 1024"
definition C0_PER_PORT_RATE :: real where "C0_PER_PORT_RATE = 50"
definition C0_PER_PORT_BURST :: real where "C0_PER_PORT_BURST = 200"
definition MAX_PLAUSIBLE_OUT_NONCE :: u64 where "MAX_PLAUSIBLE_OUT_NONCE = 1099511627776"

section \<open>State\<close>

record l4_port_spec =
  sp_project_id :: string
  sp_base_project :: string
  sp_tenant_id :: "string option"
  sp_name :: string
  sp_proto :: string
  sp_external_port :: u16
  sp_agent_udp_port :: u16
  sp_guest_port :: u16
  sp_idle_timeout :: duration
  sp_amp_k :: u8
  sp_transit_secret :: bytes
  sp_egress :: l4_port_egress_limits

datatype flow_kind = Provisional | Established

record flow_identity =
  fi_flow_id :: u32
  fi_epoch :: u32
  fi_out_nonce :: u64

record flow =
  fl_flow_id :: u32
  fl_epoch :: u32
  fl_kind :: flow_kind
  fl_created :: instant
  fl_last_seen :: instant
  fl_in_nonce_hw :: u64
  fl_out_nonce :: u64
  fl_bytes_in :: nat
  fl_bytes_out :: nat
  fl_pkts :: nat
  fl_egress :: ratio_credit
  fl_buffer :: "bytes list"
  fl_buffer_bytes :: nat
  fl_guard :: "l4_flow_guard option"
  fl_reservation :: flow_reservation

definition flow_provisional :: "u32 \<Rightarrow> u32 \<Rightarrow> flow_reservation \<Rightarrow> instant \<Rightarrow> flow" where
  "flow_provisional flow_id epoch r now =
     \<lparr>fl_flow_id = flow_id, fl_epoch = epoch, fl_kind = Provisional, fl_created = now,
      fl_last_seen = now, fl_in_nonce_hw = 0, fl_out_nonce = 0, fl_bytes_in = 0, fl_bytes_out = 0,
      fl_pkts = 0, fl_egress = rc_new, fl_buffer = [], fl_buffer_bytes = 0, fl_guard = None,
      fl_reservation = r\<rparr>"

definition identity_of :: "flow \<Rightarrow> flow_identity" where
  "identity_of f = \<lparr>fi_flow_id = fl_flow_id f, fi_epoch = fl_epoch f, fi_out_nonce = fl_out_nonce f\<rparr>"

record port_state =
  ps_flows :: "(sock_addr, flow) hmap"
  ps_by_flow_id :: "(u32, sock_addr) hmap"
  ps_next_flow_id :: u32
  ps_epoch_base :: u32
  ps_epoch_for :: "(u32, u32) hmap"
  ps_quarantine :: "(u32 \<times> u32 \<times> instant) list"
  ps_identity :: "(sock_addr, flow_identity) bounded_ttl_map"
  ps_vm_dst :: "sock_addr option"
  ps_booting :: bool
  ps_c0_rate :: token_bucket
  ps_per_source :: "(ip_addr, token_bucket) bounded_ttl_map"
  ps_egress :: l4_port_egress_limits

datatype reach_outcome =
    CheckLiveness string sock_addr flow_reservation
  | Forward u32 u32 u64 sock_addr
  | BootSpawn wake_in_flight string
  | BootWait string
  | Buffered
  | Dropped

text \<open>
  \<open>process_epoch_seed\<close> from the wall clock (seconds and sub-second nanoseconds), and the state
  \<open>bind\<close> builds; it refuses an empty transit secret.
\<close>

definition process_epoch_seed :: "nat \<Rightarrow> nat \<Rightarrow> u32 \<times> u32" where
  "process_epoch_seed secs subsec_nanos = (word_of_nat secs, word_of_nat subsec_nanos)"

definition port_bind :: "l4_port_spec \<Rightarrow> nat \<Rightarrow> nat \<Rightarrow> instant \<Rightarrow> port_state option" where
  "port_bind spec secs subsec_nanos now =
     (if sp_transit_secret spec = [] then None
      else (let (epoch_base, flow_id_seed) = process_epoch_seed secs subsec_nanos
            in Some \<lparr>ps_flows = [], ps_by_flow_id = [], ps_next_flow_id = flow_id_seed,
                     ps_epoch_base = epoch_base, ps_epoch_for = [], ps_quarantine = [],
                     ps_identity = bm_new IDENTITY_MEMO_MAX IDENTITY_MEMO_TTL, ps_vm_dst = None,
                     ps_booting = False, ps_c0_rate = tb_new C0_PER_PORT_RATE C0_PER_PORT_BURST now,
                     ps_per_source = bm_new PORT_SOURCE_MAP_MAX PORT_SOURCE_TTL,
                     ps_egress = sp_egress spec\<rparr>))"

section \<open>Flow helpers\<close>

fun probe_flow_id :: "nat \<Rightarrow> (u32 \<Rightarrow> bool) \<Rightarrow> u32 \<Rightarrow> u32" where
  "probe_flow_id 0 in_use next = next"
| "probe_flow_id (Suc n) in_use next =
     (if \<not> in_use next then next else probe_flow_id n in_use (next + 1))"

definition MAX_PROBE :: nat where "MAX_PROBE = 8"

definition alloc_flow_id ::
  "u32 \<Rightarrow> (u32, u32) hmap \<Rightarrow> u32 \<Rightarrow> (u32 \<Rightarrow> bool) \<Rightarrow> (u32 \<times> u32) \<times> u32 \<times> (u32, u32) hmap" where
  "alloc_flow_id next epoch_for epoch_base in_use =
     (let fid = probe_flow_id MAX_PROBE in_use next;
          epoch = (case map_of epoch_for fid of Some e \<Rightarrow> e + 1 | None \<Rightarrow> epoch_base)
      in ((fid, epoch), fid + 1, hupd fid epoch epoch_for))"

definition maybe_promote ::
  "string \<Rightarrow> string option \<Rightarrow> instant \<Rightarrow> flow \<Rightarrow> plane \<Rightarrow> flow \<times> plane" where
  "maybe_promote base tenant now f p =
     (if fl_kind f \<noteq> Provisional then (f, p)
      else (let n = saturating_add (fl_bytes_in f) (fl_bytes_out f); age = now - fl_created f
            in if n \<ge> MIN_ESTABLISH_BYTES \<and> fl_pkts f \<ge> MIN_ESTABLISH_PKTS \<and> age \<ge> MIN_ESTABLISH_MS
               then (case pl_try_establish base tenant p of
                       (Some g, p) \<Rightarrow> (f\<lparr>fl_guard := Some g, fl_kind := Established\<rparr>, pl_event Promotion p)
                     | (None, p) \<Rightarrow> (f, p))
               else (f, p)))"

definition buffer_push :: "bytes \<Rightarrow> flow \<Rightarrow> plane \<Rightarrow> flow \<times> plane" where
  "buffer_push payload f p =
     (let n = length payload
      in if length (fl_buffer f) < REPLAY_MAX_PKTS \<and> fl_buffer_bytes f + n \<le> REPLAY_MAX_BYTES
         then (f\<lparr>fl_buffer := fl_buffer f @ [payload], fl_buffer_bytes := fl_buffer_bytes f + n\<rparr>, p)
         else (f, pl_count ReplayBufferOverflow p))"

text \<open>Dropping a flow: its established guard first, then its reservation (declaration order).\<close>

definition drop_flow :: "flow \<Rightarrow> plane \<Rightarrow> plane" where
  "drop_flow f p =
     pl_drop_reservation (fl_reservation f)
       (case fl_guard f of Some g \<Rightarrow> pl_drop_guard g p | None \<Rightarrow> p)"

section \<open>The reach loop\<close>

definition flow_saw :: "instant \<Rightarrow> nat \<Rightarrow> u8 \<Rightarrow> flow \<Rightarrow> flow" where
  "flow_saw now n amp_k f =
     f\<lparr>fl_last_seen := now, fl_bytes_in := saturating_add (fl_bytes_in f) n,
       fl_pkts := saturating_add (fl_pkts f) 1, fl_egress := rc_on_ingress n amp_k (fl_egress f)\<rparr>"

definition reach_hit ::
  "l4_port_spec \<Rightarrow> sock_addr \<Rightarrow> bytes \<Rightarrow> instant \<Rightarrow> flow \<Rightarrow> port_state \<Rightarrow> plane
   \<Rightarrow> reach_outcome \<times> port_state \<times> plane" where
  "reach_hit spec src payload now f st p =
     (let n = length payload; base = sp_base_project spec; amp_k = sp_amp_k spec;
          f = flow_saw now n amp_k f; p = pl_note_ingress base n amp_k now p
      in case ps_vm_dst st of
           Some dst \<Rightarrow>
             (let (f, p) = maybe_promote base (sp_tenant_id spec) now f p;
                  f = f\<lparr>fl_out_nonce := fl_out_nonce f + 1\<rparr>
              in (Forward (fl_flow_id f) (fl_epoch f) (fl_out_nonce f) dst,
                  st\<lparr>ps_flows := hupd src f (ps_flows st)\<rparr>, p))
         | None \<Rightarrow>
             (let (f, p) = buffer_push payload f p
              in (Buffered, st\<lparr>ps_flows := hupd src f (ps_flows st)\<rparr>, p)))"

definition reject_reason :: "reserve_reject \<Rightarrow> drop_reason" where
  "reject_reason r =
     (case r of RejProject \<Rightarrow> FlowFullProject | RejGlobal \<Rightarrow> FlowFullGlobal
      | RejWarmCeiling \<Rightarrow> WarmFullGlobal | RejRam \<Rightarrow> WarmFullGlobal)"

definition reach_decide ::
  "string option \<Rightarrow> l4_port_spec \<Rightarrow> sock_addr \<Rightarrow> bytes \<Rightarrow> instant \<Rightarrow> port_state \<Rightarrow> plane
   \<Rightarrow> reach_outcome \<times> port_state \<times> plane" where
  "reach_decide meminfo spec src payload now st p =
     (case map_of (ps_flows st) src of
        Some f \<Rightarrow> reach_hit spec src payload now f st p
      | None \<Rightarrow>
          (case pl_try_reserve_flow meminfo (sp_base_project spec) (sp_tenant_id spec) now p of
             (Inr r, p) \<Rightarrow> (CheckLiveness (sp_project_id spec) src r, st, p)
           | (Inl rej, p) \<Rightarrow> (Dropped, st, pl_count (reject_reason rej) p)))"

definition vm_addr :: "l4_port_spec \<Rightarrow> string \<Rightarrow> sock_addr option" where
  "vm_addr spec ip = parse_socket_addr (ip @ '':'' @ show_nat (unat (sp_agent_udp_port spec)))"

definition id_in_use :: "port_state \<Rightarrow> u32 \<Rightarrow> bool" where
  "id_in_use st fid \<longleftrightarrow> map_of (ps_by_flow_id st) fid \<noteq> None
     \<or> list_ex (\<lambda>(_, v). fi_flow_id v = fid) (bm_iter (ps_identity st))"

text \<open>
  The identity of a new flow: the remembered one on the warm path (consumed), a fresh one
  otherwise. The result is the flow before its first datagram is counted, and the port state.
\<close>

definition admit_identity ::
  "sock_addr \<Rightarrow> instant \<Rightarrow> flow_reservation \<Rightarrow> sock_addr option \<Rightarrow> port_state \<Rightarrow> flow \<times> port_state" where
  "admit_identity src now r live_dst st =
     (case (if live_dst \<noteq> None then bm_get_fresh (ps_identity st) src now else None) of
        Some i \<Rightarrow>
          ((flow_provisional (fi_flow_id i) (fi_epoch i) r now)\<lparr>fl_out_nonce := fi_out_nonce i\<rparr>,
           st\<lparr>ps_epoch_for := hupd (fi_flow_id i) (fi_epoch i) (ps_epoch_for st),
              ps_identity := snd (bm_remove src (ps_identity st))\<rparr>)
      | None \<Rightarrow>
          (let ((fid, epoch), next, ef) =
                 alloc_flow_id (ps_next_flow_id st) (ps_epoch_for st) (ps_epoch_base st) (id_in_use st)
           in (flow_provisional fid epoch r now, st\<lparr>ps_next_flow_id := next, ps_epoch_for := ef\<rparr>)))"

definition flow_first :: "nat \<Rightarrow> flow \<Rightarrow> flow" where
  "flow_first n f = f\<lparr>fl_bytes_in := n, fl_pkts := 1\<rparr>"

definition install_flow ::
  "l4_port_spec \<Rightarrow> sock_addr \<Rightarrow> bytes \<Rightarrow> instant \<Rightarrow> flow \<Rightarrow> port_state \<Rightarrow> plane \<Rightarrow> port_state \<times> plane" where
  "install_flow spec src payload now f st p =
     (let n = length payload; amp_k = sp_amp_k spec;
          f = f\<lparr>fl_egress := rc_on_ingress n amp_k (fl_egress f)\<rparr>
      in (st\<lparr>ps_flows := hupd src f (ps_flows st),
             ps_by_flow_id := hupd (fl_flow_id f) src (ps_by_flow_id st)\<rparr>,
          pl_note_ingress (sp_base_project spec) n amp_k now p))"

definition reach_admit ::
  "l4_port_spec \<Rightarrow> sock_addr \<Rightarrow> bytes \<Rightarrow> instant \<Rightarrow> flow_reservation \<Rightarrow> string \<Rightarrow> string option
   \<Rightarrow> port_state \<Rightarrow> plane \<Rightarrow> reach_outcome \<times> port_state \<times> plane" where
  "reach_admit spec src payload now r project_id live st p =
     (case map_of (ps_flows st) src of
        Some f \<Rightarrow> reach_hit spec src payload now f st (pl_drop_reservation r p)
      | None \<Rightarrow>
          (let base = sp_base_project spec; tenant = sp_tenant_id spec;
               live_dst = Option.bind live (vm_addr spec);
               (f, st) = admit_identity src now r live_dst st;
               f = flow_first (length payload) f
           in case live_dst of
                Some dst \<Rightarrow>
                  (let f = f\<lparr>fl_out_nonce := fl_out_nonce f + 1\<rparr>;
                       (st, p) = install_flow spec src payload now f (st\<lparr>ps_vm_dst := Some dst\<rparr>) p
                   in (Forward (fl_flow_id f) (fl_epoch f) (fl_out_nonce f) dst, st, p))
              | None \<Rightarrow>
                  (if ps_booting st
                   then (let (f, p) = buffer_push payload f p;
                             (st, p) = install_flow spec src payload now f st p
                         in (Buffered, st, p))
                   else
                     (let (ok, p) = pl_try_wake_rate base now p
                      in if \<not> ok then (Dropped, st, drop_flow f (pl_count RateCap p))
                         else
                           (let (f, p) = buffer_push payload f p
                            in case pl_ensure_boot base tenant p of
                                 (Spawn g, p) \<Rightarrow>
                                   (let (st, p) = install_flow spec src payload now f (st\<lparr>ps_booting := True\<rparr>) p
                                    in (BootSpawn g project_id, st, p))
                               | (Coalesced, p) \<Rightarrow>
                                   (let (st, p) = install_flow spec src payload now f (st\<lparr>ps_booting := True\<rparr>)
                                                    (pl_event WakeCoalesced p)
                                    in (BootWait project_id, st, p))
                               | (BootBudgetFull, p) \<Rightarrow>
                                   (Dropped, st, drop_flow f (pl_count BudgetFull p)))))))"

section \<open>The return loop\<close>

definition cap_reason :: "egress_reject \<Rightarrow> drop_reason" where
  "cap_reason r =
     (case r of PerVictim \<Rightarrow> EgressPerVictim | Per24 \<Rightarrow> EgressPer24
      | PerProject \<Rightarrow> EgressPerProject | GlobalCap \<Rightarrow> EgressGlobal)"

text \<open>The opt-in per-flow shaper with its one-shot C0 grant: a drop reason, or the flow goes on.\<close>

definition shape_egress ::
  "u8 \<Rightarrow> nat \<Rightarrow> ip_addr \<Rightarrow> instant \<Rightarrow> flow \<Rightarrow> token_bucket \<Rightarrow> plane
   \<Rightarrow> (drop_reason + flow) \<times> token_bucket \<times> plane" where
  "shape_egress amp_k n ip now f c0 p =
     (if amp_k = 0 then (Inr f, c0, p)
      else (case rc_try_egress n (c0_bytes (pl_limits p)) (fl_egress f) of
              (Allowed, rc) \<Rightarrow> (Inr (f\<lparr>fl_egress := rc\<rparr>), c0, p)
            | (Denied, rc) \<Rightarrow> (Inl EgressAmpClamp, c0, p)
            | (NeedC0, rc) \<Rightarrow>
                (let (ok, c0) = tb_try_take 1 now c0
                 in if \<not> ok then (Inl C0GrantRejected, c0, p)
                    else (let (ok, p) = pl_try_c0_grant ip now p
                          in if \<not> ok then (Inl C0GrantRejected, c0, p)
                             else (Inr (f\<lparr>fl_egress := rc_commit_c0 n (fl_egress f)\<rparr>), c0,
                                   pl_event C0Grant p)))))"

definition flow_heard :: "u64 \<Rightarrow> instant \<Rightarrow> flow \<Rightarrow> flow" where
  "flow_heard nonce now f = f\<lparr>fl_in_nonce_hw := nonce, fl_last_seen := now\<rparr>"

definition flow_replied :: "nat \<Rightarrow> flow \<Rightarrow> flow" where
  "flow_replied n f =
     f\<lparr>fl_bytes_out := saturating_add (fl_bytes_out f) n, fl_pkts := saturating_add (fl_pkts f) 1\<rparr>"

text \<open>
  The egress controls, for a reply of \<open>n\<close> bytes on the flow \<open>f\<close> of client \<open>src\<close>: the shaper, the
  per-(port, destination) bucket at the project's rate, the plane's chain of caps, and on admission
  the debit of the port bucket, the flow's counters, promotion and the activity stamp.
\<close>

definition egress_controls ::
  "l4_port_spec \<Rightarrow> sock_addr \<Rightarrow> nat \<Rightarrow> instant \<Rightarrow> flow \<Rightarrow> port_state \<Rightarrow> plane
   \<Rightarrow> sock_addr option \<times> port_state \<times> plane" where
  "egress_controls spec src n now f st p =
     (let base = sp_base_project spec; ip = fst src;
          (shaped, c0, p) = shape_egress (sp_amp_k spec) n ip now f (ps_c0_rate st) p;
          st = st\<lparr>ps_c0_rate := c0\<rparr>
      in case shaped of
           Inl why \<Rightarrow> (None, st, pl_count why p)
         | Inr f \<Rightarrow>
             (let st = st\<lparr>ps_flows := hupd src f (ps_flows st)\<rparr>;
                  (b, m) = kb_check (real (per_source_bps (ps_egress st)))
                             (real (per_source_burst (ps_egress st))) ip (real n) now (ps_per_source st);
                  st = st\<lparr>ps_per_source := m\<rparr>
              in case b of
                   None \<Rightarrow> (None, st, pl_count EgressPerSource p)
                 | Some b \<Rightarrow>
                     (case pl_try_egress_aggregate base ip n (ps_egress st) now p of
                        (Inl rej, p) \<Rightarrow> (None, st, pl_count (cap_reason rej) p)
                      | (Inr _, p) \<Rightarrow>
                          (let st = st\<lparr>ps_per_source := bm_put ip (tb_commit (real n) b) (ps_per_source st)\<rparr>;
                               (f, p) = maybe_promote base (sp_tenant_id spec) now (flow_replied n f) p
                           in (Some src, st\<lparr>ps_flows := hupd src f (ps_flows st)\<rparr>,
                               pl_note_egress base n (sp_amp_k spec) ip now p)))))"

definition return_decide ::
  "l4_port_spec \<Rightarrow> l4_transit_header \<Rightarrow> bytes \<Rightarrow> instant \<Rightarrow> port_state \<Rightarrow> plane
   \<Rightarrow> sock_addr option \<times> port_state \<times> plane" where
  "return_decide spec hdr payload now st p =
     (if is_reflection_suspected (pl_activity p) (sp_base_project spec)
      then (None, st, pl_count EgressAmpClamp p)
      else (case map_of (ps_by_flow_id st) (h_flow_id hdr) of
              None \<Rightarrow> (None, st, pl_count UnknownFlow p)
            | Some src \<Rightarrow>
                (case map_of (ps_flows st) src of
                   None \<Rightarrow> (None, st, p)
                 | Some f \<Rightarrow>
                     (if fl_epoch f \<noteq> h_epoch hdr then (None, st, pl_count StaleEpoch p)
                      else if h_nonce hdr \<le> fl_in_nonce_hw f then (None, st, pl_count NonceReplay p)
                      else (let f = flow_heard (h_nonce hdr) now f
                            in egress_controls spec src (length payload) now f
                                 (st\<lparr>ps_flows := hupd src f (ps_flows st)\<rparr>) p)))))"

text \<open>What the return loop does with one datagram from the guest side: verify, strip, decide.\<close>

definition return_frame ::
  "hmac \<Rightarrow> l4_port_spec \<Rightarrow> bytes \<Rightarrow> instant \<Rightarrow> port_state \<Rightarrow> plane
   \<Rightarrow> (sock_addr \<times> bytes) option \<times> port_state \<times> plane" where
  "return_frame hmac spec frame now st p =
     (case l4_open hmac (sp_transit_secret spec) AgentToHost frame of
        None \<Rightarrow> (None, st, pl_count HeaderAuthFail p)
      | Some (hdr, payload) \<Rightarrow>
          (case return_decide spec hdr payload now st p of
             (None, st, p) \<Rightarrow> (None, st, p)
           | (Some src, st, p) \<Rightarrow> (Some (src, payload), st, p)))"

section \<open>The idle sweep\<close>

definition flow_timeout :: "l4_port_spec \<Rightarrow> flow \<Rightarrow> duration" where
  "flow_timeout spec f =
     (case fl_kind f of Provisional \<Rightarrow> PROVISIONAL_IDLE | Established \<Rightarrow> sp_idle_timeout spec)"

definition flow_keeps :: "l4_port_spec \<Rightarrow> instant \<Rightarrow> flow \<Rightarrow> bool" where
  "flow_keeps spec now f \<longleftrightarrow> now - fl_last_seen f < flow_timeout spec f"

definition remember ::
  "sock_addr \<Rightarrow> instant \<Rightarrow> flow_identity \<Rightarrow> (sock_addr, flow_identity) bounded_ttl_map
   \<Rightarrow> (sock_addr, flow_identity) bounded_ttl_map" where
  "remember src now ident m =
     (case bm_get_or_insert_with src now ident m of
        (Some _, m) \<Rightarrow> bm_put src ident m
      | (None, m) \<Rightarrow> m)"

type_synonym sweep_acc =
  "(u32 \<times> u32) list \<times> (sock_addr, flow_identity) bounded_ttl_map \<times> plane"

definition evict_flow :: "instant \<Rightarrow> sock_addr \<times> flow \<Rightarrow> sweep_acc \<Rightarrow> sweep_acc" where
  "evict_flow now e acc =
     (let (src, f) = e; (removed, m, p) = acc;
          p = (if fl_kind f = Provisional then pl_event ProvisionalExpired p else p)
      in (removed @ [(fl_flow_id f, fl_epoch f)], remember src now (identity_of f) m, drop_flow f p))"

definition port_sweep :: "l4_port_spec \<Rightarrow> instant \<Rightarrow> port_state \<Rightarrow> plane \<Rightarrow> port_state \<times> plane" where
  "port_sweep spec now st p =
     (let per_source = bm_sweep now (ps_per_source st);
          identity = bm_sweep now (ps_identity st);
          gone = filter (\<lambda>(_, f). \<not> flow_keeps spec now f) (ps_flows st);
          flows = hretain (\<lambda>_ f. flow_keeps spec now f) (ps_flows st);
          (removed, identity, p) = fold (evict_flow now) gone ([], identity, p);
          by_flow_id = fold (\<lambda>(fid, _). hdel fid) removed (ps_by_flow_id st);
          quarantine = filter (\<lambda>(_, _, until). until > now)
            (ps_quarantine st @ map (\<lambda>(fid, ep). (fid, ep, now + REUSE_QUARANTINE)) removed);
          epoch_for = hretain (\<lambda>fid _. map_of by_flow_id fid \<noteq> None \<or> fid \<in> set (map fst quarantine))
            (ps_epoch_for st)
      in (st\<lparr>ps_flows := flows, ps_by_flow_id := by_flow_id, ps_quarantine := quarantine,
             ps_epoch_for := epoch_for, ps_per_source := per_source, ps_identity := identity\<rparr>,
          pl_sweep now p))"

section \<open>Boot and readiness\<close>

definition clear_booting :: "port_state \<Rightarrow> port_state" where
  "clear_booting st = st\<lparr>ps_booting := False\<rparr>"

type_synonym job = "l4_transit_header \<times> bytes"

fun flush_bufs :: "flow \<Rightarrow> bytes list \<Rightarrow> job list \<times> flow" where
  "flush_bufs f [] = ([], f)"
| "flush_bufs f (d # ds) =
     (let f = f\<lparr>fl_out_nonce := fl_out_nonce f + 1\<rparr>; (jobs, f') = flush_bufs f ds
      in ((\<lparr>h_flow_id = fl_flow_id f, h_epoch = fl_epoch f, h_nonce = fl_out_nonce f\<rparr>, d) # jobs, f'))"

definition flush_flow :: "flow \<Rightarrow> job list \<times> flow" where
  "flush_flow f =
     (if fl_buffer f = [] then ([], f)
      else flush_bufs (f\<lparr>fl_buffer := [], fl_buffer_bytes := 0\<rparr>) (fl_buffer f))"

definition on_ready :: "l4_port_spec \<Rightarrow> string \<Rightarrow> port_state \<Rightarrow> (sock_addr \<times> job list) option \<times> port_state" where
  "on_ready spec vm_ip st =
     (case vm_addr spec vm_ip of
        None \<Rightarrow> (None, clear_booting st)
      | Some dst \<Rightarrow>
          (Some (dst, concat (map (\<lambda>(_, f). fst (flush_flow f)) (ps_flows st))),
           st\<lparr>ps_vm_dst := Some dst, ps_booting := False, ps_identity := bm_clear (ps_identity st),
              ps_flows := map (\<lambda>(src, f). (src, snd (flush_flow f))) (ps_flows st)\<rparr>))"

section \<open>Live limits and the upgrade hand-off\<close>

definition update_egress_limits :: "l4_port_egress_limits \<Rightarrow> port_state \<Rightarrow> bool \<times> port_state" where
  "update_egress_limits new st =
     (if ps_egress st = new then (False, st) else (True, st\<lparr>ps_egress := new\<rparr>))"

definition export_identities :: "port_state \<Rightarrow> (sock_addr \<times> flow_identity) list" where
  "export_identities st =
     map (\<lambda>(src, f). (src, identity_of f)) (ps_flows st) @
     filter (\<lambda>(src, _). map_of (ps_flows st) src = None) (bm_iter (ps_identity st))"

definition seed_identity ::
  "instant \<Rightarrow> sock_addr \<times> flow_identity \<Rightarrow> port_state \<Rightarrow> port_state" where
  "seed_identity now e st =
     (let (src, i) = e
      in if fi_out_nonce i \<ge> MAX_PLAUSIBLE_OUT_NONCE then st
         else st\<lparr>ps_identity := remember src now i (ps_identity st)\<rparr>)"

definition seed_identities ::
  "(sock_addr \<times> flow_identity) list \<Rightarrow> instant \<Rightarrow> port_state \<Rightarrow> port_state" where
  "seed_identities entries now st = fold (seed_identity now) entries st"

end
