(* ===== verification/L4_Ingress_Inv.thy ===== *)
theory L4_Ingress_Inv
  imports L4_Ingress
begin

text \<open>
  The invariant of one L4 port and its preservation by every operation of \<open>L4_Ingress\<close>:

  \<^item> \<open>demux_ok\<close>: the reply index points only at live flows (so the two maps never desync);
  \<^item> \<open>ids_ok\<close>: it points at every live flow, and no remembered identity shares an id with a live one;
  \<^item> \<open>flow_ok\<close>: buffers within their caps, guards exactly on the established flows;
  \<^item> \<open>acct\<close>: on the plane, the port holds one reservation per flow and one guard per established flow.
\<close>

section \<open>Multisets of map entries\<close>

lemma mset_hupd_new: "map_of m k = None \<Longrightarrow> mset (hupd k v m) = add_mset (k, v) (mset m)"
  by (induction m) (auto split: if_splits)

lemma mset_hdel: "hm_wf m \<Longrightarrow> map_of m k = Some v \<Longrightarrow> mset m = add_mset (k, v) (mset (hdel k m))"
proof (induction m)
  case (Cons e m)
  then show ?case
  proof (cases "fst e = k")
    case True
    with Cons.prems have "k \<notin> fst ` set m" by (simp add: hm_wf_def)
    then have "hdel k m = m" by simp
    with True Cons.prems show ?thesis by (cases e) simp
  next
    case False
    with Cons show ?thesis by (cases e) (simp add: hm_wf_def)
  qed
qed simp

lemma mset_hupd_old:
  assumes "hm_wf m" and "map_of m k = Some w"
  shows "mset (hupd k v m) = add_mset (k, v) (mset (hdel k m))"
  using assms
proof (induction m)
  case (Cons e m)
  show ?case
  proof (cases "fst e = k")
    case True
    with Cons.prems have "k \<notin> fst ` set m" by (simp add: hm_wf_def)
    then have "hdel k m = m" by simp
    with True show ?thesis by (cases e) simp
  next
    case False
    with Cons show ?thesis by (cases e) (simp add: hm_wf_def)
  qed
qed simp

lemma mset_filter_split: "mset m = mset (filter P m) + mset (filter (\<lambda>x. \<not> P x) m)"
  by (induction m) auto

section \<open>Accounting on the plane\<close>

definition is_est :: "sock_addr \<times> flow \<Rightarrow> bool" where
  "is_est e \<longleftrightarrow> fl_kind (snd e) = Established"

definition resv :: "string \<Rightarrow> (sock_addr \<times> flow) multiset \<Rightarrow> string multiset" where
  "resv b M = replicate_mset (size M) b"

definition estv :: "string \<Rightarrow> (sock_addr \<times> flow) multiset \<Rightarrow> string multiset" where
  "estv b M = replicate_mset (size (filter_mset is_est M)) b"

definition acct ::
  "(string \<Rightarrow> string option) \<Rightarrow> string \<Rightarrow> plane \<Rightarrow> string multiset \<Rightarrow> string multiset
   \<Rightarrow> (sock_addr \<times> flow) multiset \<Rightarrow> bool" where
  "acct own b p R0 G0 M \<longleftrightarrow> G0 \<subseteq># R0 \<and> plane_ok own p (R0 + resv b M) (G0 + estv b M)"

definition boots_of :: "plane \<Rightarrow> wake_in_flight multiset" where
  "boots_of p = mset (wk_inflight (pl_wake p))"

lemma resv_simps [simp]: "resv b {#} = {#}" "resv b (add_mset e M) = add_mset b (resv b M)"
  by (simp_all add: resv_def)

lemma estv_simps [simp]:
  "estv b {#} = {#}" "estv b (add_mset e M) = (if is_est e then add_mset b (estv b M) else estv b M)"
  by (simp_all add: estv_def)

lemma estv_le_resv: "estv b M \<subseteq># resv b M"
  by (simp add: estv_def resv_def subseteq_mset_def size_filter_mset_lesseq count_replicate_mset)

lemma count_acct: "G0 \<subseteq># R0 \<Longrightarrow> count (G0 + estv b M) b \<le> count (R0 + resv b M) b"
  using estv_le_resv[of b M] by (simp add: mset_subset_eq_count add_mono)

lemma acct_frame [simp]:
  "acct own b (pl_count r p) R0 G0 M = acct own b p R0 G0 M"
  "acct own b (pl_event ev p) R0 G0 M = acct own b p R0 G0 M"
  "acct own b (pl_note_ingress b' n k now p) R0 G0 M = acct own b p R0 G0 M"
  "acct own b (pl_note_egress b' n k ip now p) R0 G0 M = acct own b p R0 G0 M"
  "acct own b (snd (pl_try_c0_grant ip now p)) R0 G0 M = acct own b p R0 G0 M"
  "acct own b (snd (pl_try_egress_aggregate b' ip n l now p)) R0 G0 M = acct own b p R0 G0 M"
  "acct own b (snd (pl_try_wake_rate b' now p)) R0 G0 M = acct own b p R0 G0 M"
  "acct own b (pl_sweep now p) R0 G0 M = acct own b p R0 G0 M"
  by (simp_all add: acct_def)

lemma boots_frame [simp]:
  "boots_of (pl_count r p) = boots_of p"
  "boots_of (pl_event ev p) = boots_of p"
  "boots_of (pl_note_ingress b' n k now p) = boots_of p"
  "boots_of (pl_note_egress b' n k ip now p) = boots_of p"
  "boots_of (snd (pl_try_c0_grant ip now p)) = boots_of p"
  "boots_of (snd (pl_try_egress_aggregate b' ip n l now p)) = boots_of p"
  "boots_of (snd (pl_try_wake_rate b' now p)) = boots_of p"
  "boots_of (pl_sweep now p) = boots_of p"
  "boots_of (snd (pl_try_reserve_flow mi b' tn now p)) = boots_of p"
  "boots_of (snd (pl_try_establish b' tn p)) = boots_of p"
  "boots_of (pl_drop_reservation r' p) = boots_of p"
  "boots_of (pl_drop_guard g p) = boots_of p"
  by (simp_all add: boots_of_def pl_count_def pl_event_def pl_note_ingress_def pl_note_egress_def
      pl_try_c0_grant_def pl_try_egress_aggregate_def pl_try_wake_rate_def try_wake_rate_def pl_sweep_def
      wake_sweep_def pl_try_reserve_flow_def pl_try_establish_def pl_drop_reservation_def pl_drop_guard_def
      split: prod.splits)

lemma boots_drop_flow [simp]: "boots_of (drop_flow f p) = boots_of p"
  by (simp add: drop_flow_def split: option.splits)

lemma acct_ensure_boot:
  assumes "acct own b p R0 G0 M" and "pl_ensure_boot b' tn p = (a, p')"
  shows "acct own b p' R0 G0 M"
    and "boots_of p' = (case a of Spawn g \<Rightarrow> add_mset g (boots_of p) | _ \<Rightarrow> boots_of p)"
    and "a = Spawn g \<Longrightarrow> g = (b', tn)"
proof -
  show "acct own b p' R0 G0 M" using assms pl_ensure_boot_ok by (auto simp: acct_def)
  show "boots_of p' = (case a of Spawn g \<Rightarrow> add_mset g (boots_of p) | _ \<Rightarrow> boots_of p)"
    and "a = Spawn g \<Longrightarrow> g = (b', tn)"
    using assms(2)
    by (auto simp: pl_ensure_boot_def ensure_boot_def boots_of_def Let_def mset_hupd_new split: if_splits prod.splits)
qed

lemma acct_drop_wake:
  assumes "acct own b p R0 G0 M" and "g \<in># boots_of p"
  shows "acct own b (pl_drop_wake g p) R0 G0 M" and "boots_of p = add_mset g (boots_of (pl_drop_wake g p))"
proof -
  obtain b' tn where g: "g = (b', tn)" by fastforce
  have wf: "hm_wf (wk_inflight (pl_wake p))" using assms(1) by (simp add: acct_def plane_ok_def wake_ok_def)
  then have look: "map_of (wk_inflight (pl_wake p)) b' = Some tn"
    using assms(2) by (simp add: boots_of_def g hm_wf_map_of_iff)
  show "acct own b (pl_drop_wake g p) R0 G0 M"
    using assms(1) pl_drop_wake_ok[OF _ look] by (auto simp: acct_def g)
  show "boots_of p = add_mset g (boots_of (pl_drop_wake g p))"
    using mset_hdel[OF wf look] by (simp add: boots_of_def g pl_drop_wake_def drop_wake_in_flight_def Let_def)
qed

section \<open>Flows\<close>

definition flow_ok :: "l4_port_spec \<Rightarrow> flow \<Rightarrow> bool" where
  "flow_ok spec f \<longleftrightarrow> length (fl_buffer f) \<le> REPLAY_MAX_PKTS
     \<and> fl_buffer_bytes f = sum_list (map length (fl_buffer f)) \<and> fl_buffer_bytes f \<le> REPLAY_MAX_BYTES
     \<and> fl_reservation f = (sp_base_project spec, sp_tenant_id spec)
     \<and> fl_guard f = (if fl_kind f = Established then Some (sp_base_project spec, sp_tenant_id spec) else None)"

definition spec_own :: "(string \<Rightarrow> string option) \<Rightarrow> l4_port_spec \<Rightarrow> bool" where
  "spec_own own spec \<longleftrightarrow> own (sp_base_project spec) = sp_tenant_id spec"

lemma buffer_push_ok:
  assumes "flow_ok spec f" and "buffer_push d f p = (f', p')"
  shows "flow_ok spec f'" and "fl_flow_id f' = fl_flow_id f" "fl_epoch f' = fl_epoch f"
    and "fl_kind f' = fl_kind f" "fl_out_nonce f' = fl_out_nonce f" "fl_in_nonce_hw f' = fl_in_nonce_hw f"
    and "acct own b p' R0 G0 M = acct own b p R0 G0 M" and "boots_of p' = boots_of p"
  using assms by (auto simp: buffer_push_def flow_ok_def Let_def split: if_splits)

lemma maybe_promote_ok:
  assumes own: "spec_own own spec" and ok: "flow_ok spec f"
    and ac: "acct own (sp_base_project spec) p R0 G0 (add_mset (src, f) M)"
    and mp: "maybe_promote (sp_base_project spec) (sp_tenant_id spec) now f p = (f', p')"
  shows "flow_ok spec f'" and "acct own (sp_base_project spec) p' R0 G0 (add_mset (src, f') M)"
    and "boots_of p' = boots_of p" and "fl_flow_id f' = fl_flow_id f" "fl_epoch f' = fl_epoch f"
    "fl_out_nonce f' = fl_out_nonce f" "fl_in_nonce_hw f' = fl_in_nonce_hw f"
proof -
  let ?b = "sp_base_project spec"
  obtain g p1 where e: "pl_try_establish ?b (own ?b) p = (g, p1)" by fastforce
  have b1: "boots_of p1 = boots_of p" using boots_frame(10)[of ?b "own ?b" p] e by simp
  have sel: "fl_flow_id f' = fl_flow_id f \<and> fl_epoch f' = fl_epoch f \<and> fl_out_nonce f' = fl_out_nonce f
      \<and> fl_in_nonce_hw f' = fl_in_nonce_hw f \<and> boots_of p' = boots_of p"
    using mp e b1 own by (auto simp: maybe_promote_def spec_own_def Let_def split: if_splits option.splits prod.splits)
  then show "boots_of p' = boots_of p" "fl_flow_id f' = fl_flow_id f" "fl_epoch f' = fl_epoch f"
    "fl_out_nonce f' = fl_out_nonce f" "fl_in_nonce_hw f' = fl_in_nonce_hw f" by simp_all
  have main: "flow_ok spec f' \<and> acct own ?b p' R0 G0 (add_mset (src, f') M)"
  proof (cases "fl_kind f = Provisional \<and> (f', p') \<noteq> (f, p)")
    case False
    then have "f' = f \<and> p' = p" using mp by (auto simp: maybe_promote_def)
    then show ?thesis using ok ac by simp
  next
    case True
    then have kind: "fl_kind f = Provisional" by simp
    then have cnt: "count (G0 + estv ?b M) ?b < count (R0 + resv ?b (add_mset (src, f) M)) ?b"
      using count_acct[of G0 R0 ?b M] ac by (simp add: acct_def is_est_def)
    have pl: "plane_ok own p (R0 + resv ?b (add_mset (src, f) M)) (G0 + estv ?b M)"
      using ac kind by (simp add: acct_def is_est_def)
    have res: "(case g of None \<Rightarrow> f' = f \<and> p' = p1 | Some gv \<Rightarrow> f' = f\<lparr>fl_guard := Some gv, fl_kind := Established\<rparr> \<and> p' = pl_event Promotion p1)"
      using mp e True own by (auto simp: maybe_promote_def spec_own_def Let_def split: if_splits option.splits)
    show ?thesis
      using pl_establish_ok[OF pl cnt e] res ok ac own kind
      by (auto simp: acct_def is_est_def flow_ok_def spec_own_def split: option.splits)
  qed
  then show "flow_ok spec f'" "acct own ?b p' R0 G0 (add_mset (src, f') M)" by simp_all
qed

lemma drop_flow_acct:
  assumes own: "spec_own own spec" and ok: "flow_ok spec f"
    and ac: "acct own (sp_base_project spec) p R0 G0 (add_mset (src, f) M)"
  shows "acct own (sp_base_project spec) (drop_flow f p) R0 G0 M"
proof -
  let ?b = "sp_base_project spec"
  let ?R = "R0 + resv ?b (add_mset (src, f) M)" and ?G = "G0 + estv ?b M"
  let ?p1 = "case fl_guard f of Some g \<Rightarrow> pl_drop_guard g p | None \<Rightarrow> p"
  have o: "sp_tenant_id spec = own ?b" and r: "fl_reservation f = (?b, own ?b)"
    using own ok by (simp_all add: spec_own_def flow_ok_def)
  have "plane_ok own ?p1 ?R ?G"
  proof (cases "fl_kind f = Established")
    case True
    then have "plane_ok own p ?R (add_mset ?b ?G)" using ac by (simp add: acct_def is_est_def)
    then show ?thesis
      using pl_drop_guard_ok[of own p ?R "add_mset ?b ?G" ?b] True ok o by (simp add: flow_ok_def)
  next
    case False
    then show ?thesis using ac ok by (simp add: acct_def is_est_def flow_ok_def)
  qed
  moreover have "count ?G ?b < count ?R ?b" using count_acct[of G0 R0 ?b M] ac by (simp add: acct_def)
  ultimately show ?thesis
    using pl_drop_reservation_ok[of own ?p1 ?R ?G ?b] ac r by (simp add: acct_def drop_flow_def)
qed

text \<open>A reservation held outside the table becomes the reservation of a new provisional flow.\<close>

lemma acct_adopt:
  assumes "acct own b p (add_mset b R0) G0 M" and "G0 \<subseteq># R0" and "fl_kind f = Provisional"
  shows "acct own b p R0 G0 (add_mset (src, f) M)"
  using assms by (simp add: acct_def is_est_def)

lemma acct_unreserve:
  assumes "acct own b p (add_mset b R0) G0 M" and "G0 \<subseteq># R0"
  shows "acct own b (pl_drop_reservation (b, own b) p) R0 G0 M"
proof -
  have "count (G0 + estv b M) b < count (add_mset b R0 + resv b M) b"
    using count_acct[OF assms(2), of b M] by simp
  then show ?thesis
    using assms pl_drop_reservation_ok[of own p "add_mset b R0 + resv b M" "G0 + estv b M" b]
    by (simp add: acct_def)
qed

lemma acct_reserve:
  assumes "acct own b p R0 G0 M" and "pl_try_reserve_flow mi b (own b) now p = (r, p')"
  shows "(case r of Inr rv \<Rightarrow> rv = (b, own b) \<and> acct own b p' (add_mset b R0) G0 M
          | Inl _ \<Rightarrow> acct own b p' R0 G0 M)"
  using pl_reserve_ok[of own p "R0 + resv b M" "G0 + estv b M" mi b now r p'] assms
    subset_mset.order_trans[of G0 R0 "add_mset b R0"]
  by (auto simp: acct_def split: sum.splits)

section \<open>The reply index and the flow identities\<close>

text \<open>
  The index seen as maps: \<open>F\<close> gives each client its flow's id and epoch, \<open>D\<close> each id its client, \<open>E\<close> each
  id its current epoch, and \<open>I\<close> each remembered client its id.
\<close>

definition demux_rel :: "('a \<rightharpoonup> 'i \<times> 'e) \<Rightarrow> ('i \<rightharpoonup> 'a) \<Rightarrow> bool" where
  "demux_rel F D \<longleftrightarrow> (\<forall>fid s. D fid = Some s \<longrightarrow> (\<exists>e. F s = Some (fid, e)))"

definition ids_rel :: "('a \<rightharpoonup> 'i \<times> 'e) \<Rightarrow> ('i \<rightharpoonup> 'a) \<Rightarrow> ('i \<rightharpoonup> 'e) \<Rightarrow> ('a \<rightharpoonup> 'i) \<Rightarrow> bool" where
  "ids_rel F D E I \<longleftrightarrow> demux_rel F D
     \<and> (\<forall>s fid e. F s = Some (fid, e) \<longrightarrow> D fid = Some s \<and> E fid = Some e)
     \<and> (\<forall>s fid. I s = Some fid \<longrightarrow> D fid = None)
     \<and> (\<forall>s s' fid. I s = Some fid \<and> I s' = Some fid \<longrightarrow> s = s')"

lemma demux_relD: "demux_rel F D \<Longrightarrow> D fid = Some s \<Longrightarrow> \<exists>e. F s = Some (fid, e)"
  by (simp add: demux_rel_def)

lemma ids_relD:
  assumes "ids_rel F D E I"
  shows "demux_rel F D" and "F s = Some (fid, e) \<Longrightarrow> D fid = Some s"
    and "F s = Some (fid, e) \<Longrightarrow> E fid = Some e" and "I s = Some fid \<Longrightarrow> D fid = None"
    and "I s = Some fid \<Longrightarrow> I s' = Some fid \<Longrightarrow> s = s'"
  using assms by (auto simp: ids_rel_def)

lemma ids_relI:
  assumes "demux_rel F D" and "\<And>s fid e. F s = Some (fid, e) \<Longrightarrow> D fid = Some s"
    and "\<And>s fid e. F s = Some (fid, e) \<Longrightarrow> E fid = Some e" and "\<And>s fid. I s = Some fid \<Longrightarrow> D fid = None"
    and "\<And>s s' fid. I s = Some fid \<Longrightarrow> I s' = Some fid \<Longrightarrow> s = s'"
  shows "ids_rel F D E I"
  unfolding ids_rel_def using assms by blast

lemma demux_rel_insert:
  "demux_rel F D \<Longrightarrow> F s = None \<Longrightarrow> demux_rel (F(s \<mapsto> (fid, e))) (D(fid \<mapsto> s))"
  by (auto simp: demux_rel_def) force

lemma demux_rel_evict:
  assumes "demux_rel F D" and "F s = Some (fid, e)"
  shows "demux_rel (F(s := None)) (D(fid := None))"
  unfolding demux_rel_def
proof (intro allI impI)
  fix fid' s' assume "(D(fid := None)) fid' = Some s'"
  then have "fid' \<noteq> fid" "D fid' = Some s'" by (auto split: if_splits)
  then show "\<exists>e. (F(s := None)) s' = Some (fid', e)" using assms demux_relD[OF assms(1)] by fastforce
qed

lemma ids_rel_insert:
  assumes "ids_rel F D E I" and "F s = None" and "D fid = None" and "\<forall>s'. I s' \<noteq> Some fid"
  shows "ids_rel (F(s \<mapsto> (fid, e))) (D(fid \<mapsto> s)) (E(fid \<mapsto> e)) I"
proof (rule ids_relI)
  show "demux_rel (F(s \<mapsto> (fid, e))) (D(fid \<mapsto> s))"
    using ids_relD(1)[OF assms(1)] assms(2) by (rule demux_rel_insert)
qed (use assms(2-4) ids_relD(2-5)[OF assms(1)] in \<open>fastforce split: if_splits\<close>)+

lemma ids_rel_forget:
  assumes "ids_rel F D E I" and "\<And>s fid. I' s = Some fid \<Longrightarrow> I s = Some fid"
    and "\<And>fid e. E fid = Some e \<Longrightarrow> D fid \<noteq> None \<Longrightarrow> E' fid = Some e"
  shows "ids_rel F D E' I'"
proof (rule ids_relI)
  fix s fid e assume "F s = Some (fid, e)"
  then show "E' fid = Some e" using ids_relD(2,3)[OF assms(1)] assms(3) by fastforce
qed (use ids_relD[OF assms(1)] assms(2) in blast)+

lemma ids_rel_evict:
  assumes "ids_rel F D E I" and "F s = Some (fid, e)"
    and "\<And>s' fid'. I' s' = Some fid' \<Longrightarrow> (if s' = s then fid' = fid else I s' = Some fid')"
  shows "ids_rel (F(s := None)) (D(fid := None)) E I'"
proof (rule ids_relI)
  note r = ids_relD[OF assms(1)]
  have D: "D fid = Some s" by (rule r(2)[OF assms(2)])
  show "demux_rel (F(s := None)) (D(fid := None))" using r(1) assms(2) by (rule demux_rel_evict)
  show "(D(fid := None)) fid' = Some s'" if "(F(s := None)) s' = Some (fid', e')" for s' fid' e'
  proof -
    have "F s' = Some (fid', e')" "s' \<noteq> s" using that by (auto split: if_splits)
    then show ?thesis using r(2)[of s' fid' e'] D by auto
  qed
  show "E fid' = Some e'" if "(F(s := None)) s' = Some (fid', e')" for s' fid' e'
    using that r(3)[of s' fid' e'] by (auto split: if_splits)
  show "(D(fid := None)) fid' = None" if "I' s' = Some fid'" for s' fid'
    using assms(3)[OF that] r(4)[of s' fid'] by (auto split: if_splits)
  show "s1 = s2" if "I' s1 = Some fid'" "I' s2 = Some fid'" for s1 s2 fid'
    using assms(3)[OF that(1)] assms(3)[OF that(2)] r(4)[of s1 fid'] r(4)[of s2 fid'] r(5)[of s1 fid' s2] D
    by (auto split: if_splits)
qed

definition flow_ids :: "(sock_addr, flow) hmap \<Rightarrow> sock_addr \<rightharpoonup> u32 \<times> u32" where
  "flow_ids fl = (\<lambda>s. map_option (\<lambda>f. (fl_flow_id f, fl_epoch f)) (map_of fl s))"

definition memo_ids :: "(sock_addr, flow_identity) bounded_ttl_map \<Rightarrow> sock_addr \<rightharpoonup> u32" where
  "memo_ids m = (\<lambda>s. map_option fi_flow_id (bm_get m s))"

definition demux_ok :: "port_state \<Rightarrow> bool" where
  "demux_ok st \<longleftrightarrow> hm_wf (ps_flows st) \<and> hm_wf (ps_by_flow_id st)
     \<and> demux_rel (flow_ids (ps_flows st)) (map_of (ps_by_flow_id st))"

definition ids_ok :: "port_state \<Rightarrow> bool" where
  "ids_ok st \<longleftrightarrow> demux_ok st \<and> bm_wf (ps_identity st) \<and> hm_wf (ps_epoch_for st)
     \<and> ids_rel (flow_ids (ps_flows st)) (map_of (ps_by_flow_id st)) (map_of (ps_epoch_for st))
         (memo_ids (ps_identity st))"

lemma flow_ids_hupd: "flow_ids (hupd s f fl) = (flow_ids fl)(s \<mapsto> (fl_flow_id f, fl_epoch f))"
  by (auto simp: flow_ids_def)

lemma flow_ids_None_iff: "flow_ids fl s = None \<longleftrightarrow> map_of fl s = None"
  by (simp add: flow_ids_def)

lemma demux_ok_lookup:
  "demux_ok st \<Longrightarrow> map_of (ps_by_flow_id st) fid = Some src \<Longrightarrow>
   \<exists>f. map_of (ps_flows st) src = Some f \<and> fl_flow_id f = fid"
  using demux_relD[of "flow_ids (ps_flows st)" "map_of (ps_by_flow_id st)" fid src]
  by (auto simp: demux_ok_def flow_ids_def)

lemma ids_ok_lookup:
  "ids_ok st \<Longrightarrow> map_of (ps_flows st) src = Some f \<Longrightarrow>
   map_of (ps_by_flow_id st) (fl_flow_id f) = Some src \<and> map_of (ps_epoch_for st) (fl_flow_id f) = Some (fl_epoch f)"
  using ids_relD(2,3)[of "flow_ids (ps_flows st)" "map_of (ps_by_flow_id st)" "map_of (ps_epoch_for st)"
      "memo_ids (ps_identity st)" src "fl_flow_id f" "fl_epoch f"]
  by (simp add: ids_ok_def flow_ids_def)

text \<open>Rewriting one live flow without touching its identity.\<close>

lemma flow_ids_touch:
  assumes "map_of fl src = Some f" and "fl_flow_id f' = fl_flow_id f" "fl_epoch f' = fl_epoch f"
  shows "flow_ids (hupd src f' fl) = flow_ids fl"
  using assms by (auto simp: flow_ids_def)

lemma demux_touch:
  assumes "demux_ok st" and "map_of (ps_flows st) src = Some f"
    and "fl_flow_id f' = fl_flow_id f" "fl_epoch f' = fl_epoch f"
  shows "demux_ok (st\<lparr>ps_flows := hupd src f' (ps_flows st)\<rparr>)"
  using assms by (simp add: demux_ok_def flow_ids_touch[OF assms(2-4)])

lemma ids_touch:
  assumes "ids_ok st" and "map_of (ps_flows st) src = Some f"
    and "fl_flow_id f' = fl_flow_id f" "fl_epoch f' = fl_epoch f"
  shows "ids_ok (st\<lparr>ps_flows := hupd src f' (ps_flows st)\<rparr>)"
  using assms by (simp add: ids_ok_def demux_ok_def flow_ids_touch[OF assms(2-4)])

lemma demux_cong:
  assumes "demux_ok st" and "ps_flows st' = ps_flows st" "ps_by_flow_id st' = ps_by_flow_id st"
  shows "demux_ok st'"
  using assms unfolding demux_ok_def by simp

lemma ids_cong:
  assumes "ids_ok st" and "ps_flows st' = ps_flows st" "ps_by_flow_id st' = ps_by_flow_id st"
    "ps_epoch_for st' = ps_epoch_for st" "ps_identity st' = ps_identity st"
  shows "ids_ok st'"
  using assms demux_cong[of st st'] unfolding ids_ok_def by simp

subsection \<open>Fresh ids\<close>

lemma probe_flow_id_eq: "\<exists>i \<le> n. probe_flow_id n u x = x + word_of_nat i \<and> (i < n \<longrightarrow> \<not> u (probe_flow_id n u x))
    \<and> (\<forall>j < i. u (x + word_of_nat j))"
proof (induction n arbitrary: x)
  case (Suc n)
  show ?case
  proof (cases "u x")
    case False
    then show ?thesis by (intro exI[of _ 0]) simp
  next
    case True
    obtain i where i: "i \<le> n" "probe_flow_id n u (x + 1) = x + 1 + word_of_nat i"
      "i < n \<longrightarrow> \<not> u (probe_flow_id n u (x + 1))" "\<forall>j < i. u (x + 1 + word_of_nat j)"
      using Suc[of "x + 1"] by blast
    have "u (x + word_of_nat j)" if "j < Suc i" for j
      using that True i(4) by (cases j) (auto simp: ac_simps)
    then show ?thesis
      using True i by (intro exI[of _ "Suc i"]) (simp add: ac_simps)
  qed
qed simp

text \<open>The bounded probe finds a free id whenever one of the nine candidates is free.\<close>

lemma probe_flow_id_free:
  assumes "k \<le> n" and "\<not> u (x + word_of_nat k)"
  shows "\<not> u (probe_flow_id n u x)"
proof -
  obtain i where i: "i \<le> n" "probe_flow_id n u x = x + word_of_nat i"
    "i < n \<longrightarrow> \<not> u (probe_flow_id n u x)" "\<forall>j < i. u (x + word_of_nat j)"
    using probe_flow_id_eq[of n u x] by blast
  show ?thesis
  proof (cases "i < n")
    case False
    then have "k = i" using assms i(1,4) by (metis le_antisym linorder_neqE_nat nat_less_le order.trans)
    then show ?thesis using assms(2) i(2) by simp
  qed (use i(3) in simp)
qed

definition probe_ok :: "port_state \<Rightarrow> bool" where
  "probe_ok st \<longleftrightarrow> (\<exists>k \<le> MAX_PROBE. \<not> id_in_use st (ps_next_flow_id st + word_of_nat k))"

lemma bm_iter_iff:
  assumes "bm_wf m"
  shows "(k, v) \<in> set (bm_iter m) \<longleftrightarrow> bm_get m k = Some v"
proof -
  have "bm_get m k = Some v \<longleftrightarrow> (\<exists>t. (k, v, t) \<in> set (bm_map m))"
    using assms by (auto simp: bm_get_def bm_wf_def hm_wf_map_of_iff[symmetric])
  then show ?thesis by (force simp: bm_iter_def)
qed

lemma bm_iter_ex:
  assumes "bm_wf m"
  shows "(\<exists>e \<in> set (bm_iter m). P (snd e)) \<longleftrightarrow> (\<exists>k v. bm_get m k = Some v \<and> P v)"
  using bm_iter_iff[OF assms] by force

lemma id_not_in_use_iff:
  assumes "bm_wf (ps_identity st)"
  shows "\<not> id_in_use st fid \<longleftrightarrow> map_of (ps_by_flow_id st) fid = None \<and> (\<forall>s. memo_ids (ps_identity st) s \<noteq> Some fid)"
proof -
  have "list_ex (\<lambda>(_, v). fi_flow_id v = fid) (bm_iter (ps_identity st)) \<longleftrightarrow>
      (\<exists>e \<in> set (bm_iter (ps_identity st)). fi_flow_id (snd e) = fid)"
    by (simp add: list_ex_iff case_prod_beta)
  also have "\<dots> \<longleftrightarrow> (\<exists>s. memo_ids (ps_identity st) s = Some fid)"
    unfolding memo_ids_def map_option_eq_Some by (rule bm_iter_ex[OF assms])
  finally show ?thesis
    by (simp add: id_in_use_def del: split_paired_All split_paired_Ex not_None_eq)
qed

subsection \<open>Admission\<close>

lemma demux_install:
  assumes "demux_ok st" and "map_of (ps_flows st) src = None"
  shows "demux_ok (fst (install_flow spec src d now f st p))"
  using assms demux_rel_insert[of "flow_ids (ps_flows st)" _ src]
  by (simp add: demux_ok_def install_flow_def Let_def flow_ids_hupd flow_ids_None_iff)

text \<open>Installing a new flow under an id that is neither live nor remembered.\<close>

lemma ids_install:
  assumes "ids_ok st" and "map_of (ps_flows st) src = None"
    and "map_of (ps_by_flow_id st) (fl_flow_id f) = None"
    and "map_of (ps_epoch_for st) (fl_flow_id f) = Some (fl_epoch f)"
    and "\<forall>s. memo_ids (ps_identity st) s \<noteq> Some (fl_flow_id f)"
  shows "ids_ok (fst (install_flow spec src d now f st p))"
proof -
  have "(map_of (ps_epoch_for st))(fl_flow_id f \<mapsto> fl_epoch f) = map_of (ps_epoch_for st)"
    using assms(4) by (simp add: map_upd_triv)
  then show ?thesis
    using assms demux_install[of st src spec d now f p]
      ids_rel_insert[of "flow_ids (ps_flows st)" _ "map_of (ps_epoch_for st)" _ src "fl_flow_id f" "fl_epoch f"]
    by (simp add: ids_ok_def install_flow_def Let_def flow_ids_hupd flow_ids_None_iff)
qed

lemma admit_identity_frame:
  assumes "admit_identity src now r live st = (f, st')"
  shows "ps_flows st' = ps_flows st" "ps_by_flow_id st' = ps_by_flow_id st" "ps_vm_dst st' = ps_vm_dst st"
    "ps_booting st' = ps_booting st" "ps_per_source st' = ps_per_source st" "ps_egress st' = ps_egress st"
    and "\<exists>fid ep nonce. f = (flow_provisional fid ep r now)\<lparr>fl_out_nonce := nonce\<rparr>"
proof -
  have z: "flow_provisional a b r now = (flow_provisional a b r now)\<lparr>fl_out_nonce := 0\<rparr>" for a b
    by (simp add: flow_provisional_def)
  show "ps_flows st' = ps_flows st" "ps_by_flow_id st' = ps_by_flow_id st" "ps_vm_dst st' = ps_vm_dst st"
    "ps_booting st' = ps_booting st" "ps_per_source st' = ps_per_source st" "ps_egress st' = ps_egress st"
    using assms by (auto simp: admit_identity_def Let_def split: option.splits prod.splits)
  show "\<exists>fid ep nonce. f = (flow_provisional fid ep r now)\<lparr>fl_out_nonce := nonce\<rparr>"
  proof (cases "if live \<noteq> None then bm_get_fresh (ps_identity st) src now else None")
    case None
    then have "\<exists>fid ep. f = flow_provisional fid ep r now"
      using assms by (auto simp: admit_identity_def Let_def split: prod.splits)
    then show ?thesis using z by metis
  qed (use assms in \<open>auto simp: admit_identity_def\<close>)
qed

lemma bm_get_remove: "bm_get (snd (bm_remove k m)) k' = (if k' = k then None else bm_get m k')"
  by (simp add: bm_remove_def bm_get_def)

lemma bm_get_fresh_get: "bm_get_fresh m k now = Some v \<Longrightarrow> bm_get m k = Some v"
  by (auto simp: bm_get_fresh_def bm_get_def split: option.splits if_splits)

lemma memo_ids_remove: "memo_ids (snd (bm_remove k m)) = (memo_ids m)(k := None)"
  by (auto simp: memo_ids_def bm_get_remove)

text \<open>
  The identity chosen for a new flow is free: not live, not remembered by anyone else any more, and
  its epoch is on record. On the fresh path this needs a free id within the probe.
\<close>

lemma admit_identity_ok:
  assumes ids: "ids_ok st" and new: "map_of (ps_flows st) src = None" and pr: "probe_ok st"
    and ai: "admit_identity src now r live st = (f, st')"
  shows "ids_ok st' \<and> map_of (ps_by_flow_id st') (fl_flow_id f) = None
    \<and> map_of (ps_epoch_for st') (fl_flow_id f) = Some (fl_epoch f)
    \<and> (\<forall>s. memo_ids (ps_identity st') s \<noteq> Some (fl_flow_id f))"
proof -
  have wf: "bm_wf (ps_identity st)" "demux_ok st" "hm_wf (ps_epoch_for st)" using ids by (simp_all add: ids_ok_def)
  note rel = ids[unfolded ids_ok_def, THEN conjunct2, THEN conjunct2, THEN conjunct2]
  show ?thesis
  proof (cases "if live \<noteq> None then bm_get_fresh (ps_identity st) src now else None")
    case (Some idn)
    then have g: "memo_ids (ps_identity st) src = Some (fi_flow_id idn)"
      by (auto simp: memo_ids_def split: if_splits dest: bm_get_fresh_get)
    have f: "fl_flow_id f = fi_flow_id idn" "fl_epoch f = fi_epoch idn"
      and st': "st' = st\<lparr>ps_epoch_for := hupd (fi_flow_id idn) (fi_epoch idn) (ps_epoch_for st),
              ps_identity := snd (bm_remove src (ps_identity st))\<rparr>"
      using ai Some by (auto simp: admit_identity_def flow_provisional_def)
    have free: "map_of (ps_by_flow_id st) (fi_flow_id idn) = None" using ids_relD(4)[OF rel g] .
    have "ids_rel (flow_ids (ps_flows st)) (map_of (ps_by_flow_id st)) (map_of (ps_epoch_for st'))
        (memo_ids (ps_identity st'))"
    proof (rule ids_rel_forget[OF rel])
      show "map_of (ps_epoch_for st') fid = Some e"
        if "map_of (ps_epoch_for st) fid = Some e" "map_of (ps_by_flow_id st) fid \<noteq> None" for fid e
        using that free by (auto simp: st')
    qed (simp add: st' memo_ids_remove split: if_splits)
    moreover have "demux_ok st'" using wf(2) by (rule demux_cong) (simp_all add: st')
    moreover have "\<forall>s. memo_ids (ps_identity st') s \<noteq> Some (fi_flow_id idn)"
    proof (intro allI notI)
      fix s assume "memo_ids (ps_identity st') s = Some (fi_flow_id idn)"
      then have "s \<noteq> src" "memo_ids (ps_identity st) s = Some (fi_flow_id idn)"
        by (simp_all add: st' memo_ids_remove split: if_splits)
      then show False using ids_relD(5)[OF rel g] by blast
    qed
    ultimately show ?thesis using free wf by (simp add: ids_ok_def f st')
  next
    case None
    define fid where "fid = probe_flow_id MAX_PROBE (id_in_use st) (ps_next_flow_id st)"
    define ep where "ep = (case map_of (ps_epoch_for st) fid of Some e \<Rightarrow> e + 1 | None \<Rightarrow> ps_epoch_base st)"
    have f: "fl_flow_id f = fid" "fl_epoch f = ep"
      and st': "st' = st\<lparr>ps_next_flow_id := fid + 1, ps_epoch_for := hupd fid ep (ps_epoch_for st)\<rparr>"
      using ai None by (auto simp: admit_identity_def alloc_flow_id_def Let_def fid_def ep_def flow_provisional_def)
    have "\<not> id_in_use st fid" using pr probe_flow_id_free unfolding fid_def probe_ok_def by blast
    then have free: "map_of (ps_by_flow_id st) fid = None" "\<forall>s. memo_ids (ps_identity st) s \<noteq> Some fid"
      using id_not_in_use_iff[OF wf(1)] by auto
    have "ids_rel (flow_ids (ps_flows st)) (map_of (ps_by_flow_id st)) (map_of (ps_epoch_for st'))
        (memo_ids (ps_identity st'))"
    proof (rule ids_rel_forget[OF rel])
      show "map_of (ps_epoch_for st') fid' = Some e"
        if "map_of (ps_epoch_for st) fid' = Some e" "map_of (ps_by_flow_id st) fid' \<noteq> None" for fid' e
        using that free by (auto simp: st')
    qed (simp add: st')
    moreover have "demux_ok st'" using wf(2) by (rule demux_cong) (simp_all add: st')
    ultimately show ?thesis using free wf by (simp add: ids_ok_def f st')
  qed
qed

section \<open>The port invariant\<close>

definition port_inv ::
  "(string \<Rightarrow> string option) \<Rightarrow> l4_port_spec \<Rightarrow> port_state \<Rightarrow> plane \<Rightarrow> string multiset \<Rightarrow> string multiset \<Rightarrow> bool" where
  "port_inv own spec st p R0 G0 \<longleftrightarrow> spec_own own spec \<and> demux_ok st \<and> bm_wf (ps_identity st)
     \<and> (\<forall>e \<in> set (ps_flows st). flow_ok spec (snd e))
     \<and> acct own (sp_base_project spec) p R0 G0 (mset (ps_flows st))"

lemma port_inv_flow_ok: "port_inv own spec st p R0 G0 \<Longrightarrow> map_of (ps_flows st) src = Some f \<Longrightarrow> flow_ok spec f"
  using map_of_SomeD[of "ps_flows st" src f] by (force simp: port_inv_def)

lemma port_inv_hm_wf: "port_inv own spec st p R0 G0 \<Longrightarrow> hm_wf (ps_flows st)"
  by (simp add: port_inv_def demux_ok_def)

lemma port_inv_plane:
  "port_inv own spec st p R0 G0 \<Longrightarrow> acct own (sp_base_project spec) p' R1 G1 (mset (ps_flows st)) \<Longrightarrow>
   port_inv own spec st p' R1 G1"
  by (simp add: port_inv_def)

lemma port_inv_frame [simp]:
  "port_inv own spec st (pl_count r p) R0 G0 = port_inv own spec st p R0 G0"
  "port_inv own spec st (pl_event e p) R0 G0 = port_inv own spec st p R0 G0"
  "port_inv own spec st (pl_note_ingress b n k now p) R0 G0 = port_inv own spec st p R0 G0"
  "port_inv own spec st (pl_note_egress b n k ip now p) R0 G0 = port_inv own spec st p R0 G0"
  by (simp_all add: port_inv_def)

lemma set_hupd: "hm_wf m \<Longrightarrow> set (hupd k v m) = insert (k, v) (set (hdel k m))"
proof (cases "map_of m k")
  case None
  then have "hdel k m = m" by (simp add: map_of_eq_None_iff)
  then show ?thesis using mset_hupd_new[OF None, of v] by (metis set_mset_add_mset_insert set_mset_mset)
next
  case (Some w)
  assume "hm_wf m"
  then show ?thesis using mset_hupd_old[OF _ Some, of v] by (metis set_mset_add_mset_insert set_mset_mset)
qed

text \<open>Writing back a live flow: the plane's view of the port changes with that flow only.\<close>

lemma port_inv_touch:
  assumes inv: "port_inv own spec st p R0 G0" and f: "map_of (ps_flows st) src = Some f"
    and id: "fl_flow_id f' = fl_flow_id f" "fl_epoch f' = fl_epoch f" and ok: "flow_ok spec f'"
    and ac: "acct own (sp_base_project spec) p' R0 G0 (add_mset (src, f') (mset (hdel src (ps_flows st))))"
  shows "port_inv own spec (st\<lparr>ps_flows := hupd src f' (ps_flows st)\<rparr>) p' R0 G0"
proof -
  have wf: "hm_wf (ps_flows st)" using inv by (rule port_inv_hm_wf)
  have "set (hdel src (ps_flows st)) \<subseteq> set (ps_flows st)" by (auto simp: hdel_filter)
  then show ?thesis
    using inv ok ac demux_touch[OF _ f id] mset_hupd_old[OF wf f, of f']
    by (auto simp: port_inv_def set_hupd[OF wf])
qed

lemma acct_split:
  assumes "port_inv own spec st p R0 G0" and "map_of (ps_flows st) src = Some f"
  shows "acct own (sp_base_project spec) p R0 G0 (add_mset (src, f) (mset (hdel src (ps_flows st))))"
  using assms mset_hdel[OF port_inv_hm_wf[OF assms(1)] assms(2)] by (simp add: port_inv_def)

lemma acct_same_kind:
  "fl_kind f' = fl_kind f \<Longrightarrow> acct own b p R0 G0 (add_mset (src, f') M) = acct own b p R0 G0 (add_mset (src, f) M)"
  by (simp add: acct_def is_est_def)

lemma reach_hit_inv:
  assumes inv: "port_inv own spec st p R0 G0" and f: "map_of (ps_flows st) src = Some f"
    and run: "reach_hit spec src d now f st p = (o', st', p')"
  shows "port_inv own spec st' p' R0 G0 \<and> boots_of p' = boots_of p \<and> (ids_ok st \<longrightarrow> ids_ok st')
    \<and> (o' = Buffered \<or> (\<exists>a b c dst. o' = Forward a b c dst))"
proof -
  let ?b = "sp_base_project spec" and ?M = "mset (hdel src (ps_flows st))"
  define f1 where "f1 = flow_saw now (length d) (sp_amp_k spec) f"
  have f1: "fl_flow_id f1 = fl_flow_id f" "fl_epoch f1 = fl_epoch f" "fl_kind f1 = fl_kind f"
    by (simp_all add: f1_def flow_saw_def)
  define p1 where "p1 = pl_note_ingress ?b (length d) (sp_amp_k spec) now p"
  have ok1: "flow_ok spec f1" using port_inv_flow_ok[OF inv f] by (simp add: f1_def flow_saw_def flow_ok_def)
  have ac1: "acct own ?b p1 R0 G0 (add_mset (src, f1) ?M)"
    using acct_split[OF inv f] acct_same_kind[OF f1(3)] by (simp add: p1_def)
  have own: "spec_own own spec" using inv by (simp add: port_inv_def)
  have b1: "boots_of p1 = boots_of p" by (simp add: p1_def)
  show ?thesis
  proof (cases "ps_vm_dst st")
    case None
    obtain f2 p2 where bp: "buffer_push d f1 p1 = (f2, p2)" by fastforce
    have st': "o' = Buffered" "st' = st\<lparr>ps_flows := hupd src f2 (ps_flows st)\<rparr>" "p' = p2"
      using run None bp by (simp_all add: reach_hit_def Let_def f1_def[symmetric] p1_def[symmetric])
    note B = buffer_push_ok[OF ok1 bp]
    have id: "fl_flow_id f2 = fl_flow_id f" "fl_epoch f2 = fl_epoch f" using B(2,3) f1 by simp_all
    have "acct own ?b p2 R0 G0 (add_mset (src, f2) ?M)" using ac1 B(7) acct_same_kind[OF B(4)] by simp
    then have "port_inv own spec st' p' R0 G0" using port_inv_touch[OF inv f id B(1)] by (simp add: st')
    then show ?thesis using ids_touch[OF _ f id] B(8) b1 by (simp add: st')
  next
    case (Some dst)
    obtain f2 p2 where mp: "maybe_promote ?b (sp_tenant_id spec) now f1 p1 = (f2, p2)" by fastforce
    define f3 where "f3 = f2\<lparr>fl_out_nonce := fl_out_nonce f2 + 1\<rparr>"
    have st': "o' = Forward (fl_flow_id f3) (fl_epoch f3) (fl_out_nonce f3) dst"
      "st' = st\<lparr>ps_flows := hupd src f3 (ps_flows st)\<rparr>" "p' = p2"
      using run Some mp by (simp_all add: reach_hit_def Let_def f1_def[symmetric] p1_def[symmetric] f3_def)
    note P = maybe_promote_ok[OF own ok1 ac1 mp]
    have id: "fl_flow_id f3 = fl_flow_id f" "fl_epoch f3 = fl_epoch f" using P(4,5) f1 by (simp_all add: f3_def)
    have ok3: "flow_ok spec f3" using P(1) by (simp add: f3_def flow_ok_def)
    have "acct own ?b p2 R0 G0 (add_mset (src, f3) ?M)" using P(2) acct_same_kind[of f3 f2] by (simp add: f3_def)
    then have "port_inv own spec st' p' R0 G0" using port_inv_touch[OF inv f id ok3] by (simp add: st')
    then show ?thesis using ids_touch[OF _ f id] P(3) b1 by (simp add: st')
  qed
qed

section \<open>The reach loop keeps the invariant\<close>

lemma port_inv_fields [simp]:
  "port_inv own spec (st\<lparr>ps_c0_rate := c\<rparr>) p R0 G0 = port_inv own spec st p R0 G0"
  "port_inv own spec (st\<lparr>ps_per_source := m\<rparr>) p R0 G0 = port_inv own spec st p R0 G0"
  "port_inv own spec (st\<lparr>ps_vm_dst := v\<rparr>) p R0 G0 = port_inv own spec st p R0 G0"
  "port_inv own spec (st\<lparr>ps_booting := bo\<rparr>) p R0 G0 = port_inv own spec st p R0 G0"
  "port_inv own spec (st\<lparr>ps_egress := l\<rparr>) p R0 G0 = port_inv own spec st p R0 G0"
  by (simp_all add: port_inv_def demux_ok_def)

lemma ids_ok_fields [simp]:
  "ids_ok (st\<lparr>ps_c0_rate := c\<rparr>) = ids_ok st"
  "ids_ok (st\<lparr>ps_per_source := m\<rparr>) = ids_ok st"
  "ids_ok (st\<lparr>ps_vm_dst := v\<rparr>) = ids_ok st"
  "ids_ok (st\<lparr>ps_booting := bo\<rparr>) = ids_ok st"
  "ids_ok (st\<lparr>ps_egress := l\<rparr>) = ids_ok st"
  by (simp_all add: ids_ok_def demux_ok_def)

lemma reach_decide_inv:
  assumes inv: "port_inv own spec st p R0 G0" and run: "reach_decide mi spec src d now st p = (o', st', p')"
  shows "(case o' of
            CheckLiveness pid s r \<Rightarrow> s = src \<and> st' = st \<and> map_of (ps_flows st) src = None
              \<and> r = (sp_base_project spec, sp_tenant_id spec)
              \<and> port_inv own spec st' p' (add_mset (sp_base_project spec) R0) G0
          | BootSpawn g pid \<Rightarrow> False
          | BootWait pid \<Rightarrow> False
          | _ \<Rightarrow> port_inv own spec st' p' R0 G0)
    \<and> boots_of p' = boots_of p \<and> (ids_ok st \<longrightarrow> ids_ok st')"
proof (cases "map_of (ps_flows st) src")
  case (Some f)
  then show ?thesis
    using reach_hit_inv[OF inv Some, of d now o' st' p'] run by (auto simp: reach_decide_def)
next
  case None
  let ?b = "sp_base_project spec"
  have own: "sp_tenant_id spec = own ?b" using inv by (simp add: port_inv_def spec_own_def)
  obtain r p1 where rf: "pl_try_reserve_flow mi ?b (own ?b) now p = (r, p1)" by fastforce
  have b1: "boots_of p1 = boots_of p" using boots_frame(9)[of mi ?b "own ?b" now p] rf by simp
  have "acct own ?b p R0 G0 (mset (ps_flows st))" using inv by (simp add: port_inv_def)
  from acct_reserve[OF this rf] show ?thesis
    using run None rf own b1 port_inv_plane[OF inv]
    by (auto simp: reach_decide_def split: sum.splits)
qed

lemma port_inv_install:
  assumes inv: "port_inv own spec st p (add_mset (sp_base_project spec) R0) G0" and sub: "G0 \<subseteq># R0"
    and new: "map_of (ps_flows st) src = None" and ok: "flow_ok spec f" and prov: "fl_kind f = Provisional"
    and run: "install_flow spec src d now f st p = (st', p')"
  shows "port_inv own spec st' p' R0 G0" and "boots_of p' = boots_of p"
proof -
  let ?b = "sp_base_project spec"
  define f1 where "f1 = f\<lparr>fl_egress := rc_on_ingress (length d) (sp_amp_k spec) (fl_egress f)\<rparr>"
  have f1: "flow_ok spec f1" "fl_kind f1 = Provisional" using ok prov by (simp_all add: f1_def flow_ok_def)
  have st': "ps_flows st' = hupd src f1 (ps_flows st)" "ps_identity st' = ps_identity st"
    and p': "p' = pl_note_ingress ?b (length d) (sp_amp_k spec) now p"
    using run by (auto simp: install_flow_def Let_def f1_def)
  have dm: "demux_ok st'" using demux_install[of st src spec d now f p] inv new run by (simp add: port_inv_def)
  have wf: "hm_wf (ps_flows st)" using inv by (rule port_inv_hm_wf)
  have hd: "hdel src (ps_flows st) = ps_flows st" using new by (simp add: map_of_eq_None_iff)
  have "acct own ?b p R0 G0 (add_mset (src, f1) (mset (ps_flows st)))"
    using acct_adopt[OF _ sub f1(2)] inv by (simp add: port_inv_def)
  then show "port_inv own spec st' p' R0 G0"
    using inv dm f1 mset_hupd_new[OF new, of f1] by (auto simp: port_inv_def st' p' set_hupd[OF wf] hd)
  show "boots_of p' = boots_of p" by (simp add: p')
qed

lemma flow_provisional_ok:
  "r = (sp_base_project spec, sp_tenant_id spec) \<Longrightarrow>
   flow_ok spec ((flow_provisional fid ep r now)\<lparr>fl_out_nonce := x, fl_bytes_in := n, fl_pkts := k\<rparr>)"
  by (simp add: flow_ok_def flow_provisional_def)

lemma admit_identity_inv:
  assumes "port_inv own spec st p R1 G0" and "admit_identity src now r live st = (f, st')"
  shows "port_inv own spec st' p R1 G0"
proof -
  have "bm_wf (ps_identity st')"
    using assms by (auto simp: port_inv_def admit_identity_def Let_def split: option.splits prod.splits)
  moreover have "demux_ok st'"
    using demux_cong[of st st'] assms(1) admit_identity_frame(1,2)[OF assms(2)] by (simp add: port_inv_def)
  ultimately show ?thesis using assms(1) admit_identity_frame(1)[OF assms(2)] by (simp add: port_inv_def)
qed

text \<open>What is known of the new flow while its first datagram is handled.\<close>

definition admit_ready ::
  "(string \<Rightarrow> string option) \<Rightarrow> l4_port_spec \<Rightarrow> sock_addr \<Rightarrow> flow \<Rightarrow> port_state \<Rightarrow> plane
   \<Rightarrow> string multiset \<Rightarrow> string multiset \<Rightarrow> bool" where
  "admit_ready own spec src f st p R0 G0 \<longleftrightarrow>
     port_inv own spec st p (add_mset (sp_base_project spec) R0) G0 \<and> G0 \<subseteq># R0
     \<and> map_of (ps_flows st) src = None \<and> flow_ok spec f \<and> fl_kind f = Provisional"

definition fresh_id :: "port_state \<Rightarrow> flow \<Rightarrow> bool" where
  "fresh_id st f \<longleftrightarrow> ids_ok st \<and> map_of (ps_by_flow_id st) (fl_flow_id f) = None
     \<and> map_of (ps_epoch_for st) (fl_flow_id f) = Some (fl_epoch f)
     \<and> (\<forall>s. memo_ids (ps_identity st) s \<noteq> Some (fl_flow_id f))"

lemma fresh_id_fields [simp]:
  "fresh_id (st\<lparr>ps_vm_dst := v\<rparr>) f = fresh_id st f" "fresh_id (st\<lparr>ps_booting := bo\<rparr>) f = fresh_id st f"
  by (simp_all add: fresh_id_def)

lemma install_ready:
  assumes "admit_ready own spec src f st p R0 G0" and "install_flow spec src d now f st p = (st', p')"
  shows "port_inv own spec st' p' R0 G0 \<and> boots_of p' = boots_of p"
  using assms port_inv_install[of own spec st p R0 G0 src f d now st' p'] by (simp add: admit_ready_def)

lemma install_fresh:
  assumes "fresh_id st f" and "map_of (ps_flows st) src = None" and "install_flow spec src d now f st p = (st', p')"
  shows "ids_ok st'"
  using ids_install[of st src f spec d now p] assms by (simp add: fresh_id_def)

lemma admit_ready_drop:
  assumes "admit_ready own spec src f st p R0 G0"
  shows "port_inv own spec st (drop_flow f p) R0 G0"
proof -
  have inv: "port_inv own spec st p (add_mset (sp_base_project spec) R0) G0" and "spec_own own spec"
    using assms by (simp_all add: admit_ready_def port_inv_def)
  moreover have "acct own (sp_base_project spec) p R0 G0 (add_mset (src, f) (mset (ps_flows st)))"
    using assms by (intro acct_adopt) (simp_all add: admit_ready_def port_inv_def)
  ultimately show ?thesis
    using assms drop_flow_acct[of own spec f p R0 G0 src] port_inv_plane[OF inv] by (simp add: admit_ready_def)
qed

lemma admit_ready_plane:
  assumes "admit_ready own spec src f st p R0 G0" and "port_inv own spec st p' (add_mset (sp_base_project spec) R0) G0"
    and "flow_ok spec f'" and "fl_kind f' = fl_kind f"
  shows "admit_ready own spec src f' (st\<lparr>ps_booting := bo\<rparr>) p' R0 G0"
    and "admit_ready own spec src f' st p' R0 G0"
  using assms by (simp_all add: admit_ready_def)

lemma admit_cold:
  assumes rd: "admit_ready own spec src f st p R0 G0" and fr: "fr \<longrightarrow> fresh_id st f"
    and wr: "pl_try_wake_rate (sp_base_project spec) now p = (ok, p1)" and bp: "buffer_push d f p1 = (f2, p2)"
    and eb: "pl_ensure_boot (sp_base_project spec) tn p2 = (a, p3)"
    and run: "(o', st', p') =
      (if \<not> ok then (Dropped, st, drop_flow f (pl_count RateCap p1))
       else (case a of
           Spawn g \<Rightarrow> (let (st, p) = install_flow spec src d now f2 (st\<lparr>ps_booting := True\<rparr>) p3
                       in (BootSpawn g pid, st, p))
         | Coalesced \<Rightarrow> (let (st, p) = install_flow spec src d now f2 (st\<lparr>ps_booting := True\<rparr>) (pl_event WakeCoalesced p3)
                       in (BootWait pid, st, p))
         | BootBudgetFull \<Rightarrow> (Dropped, st, drop_flow f2 (pl_count BudgetFull p3))))"
    and ids: "fr \<longrightarrow> ids_ok st"
  shows "port_inv own spec st' p' R0 G0 \<and> (fr \<longrightarrow> ids_ok st')
    \<and> boots_of p' = (case o' of BootSpawn g _ \<Rightarrow> add_mset g (boots_of p) | _ \<Rightarrow> boots_of p)"
proof -
  let ?b = "sp_base_project spec" and ?R = "add_mset (sp_base_project spec) R0"
  have inv: "port_inv own spec st p ?R G0" and okf: "flow_ok spec f" and new: "map_of (ps_flows st) src = None"
    using rd by (simp_all add: admit_ready_def)
  have inv1: "port_inv own spec st p1 ?R G0" and b1: "boots_of p1 = boots_of p"
    using inv acct_frame(7)[of own ?b ?b now p] boots_frame(7)[of ?b now p] wr by (simp_all add: port_inv_def)
  note B = buffer_push_ok[OF okf bp]
  have inv2: "port_inv own spec st p2 ?R G0" using inv1 B(7) by (simp add: port_inv_def)
  note E = acct_ensure_boot[of own ?b p2 ?R G0 "mset (ps_flows st)", OF _ eb]
  have inv3: "port_inv own spec st p3 ?R G0" and b3: "boots_of p3 = (case a of Spawn g \<Rightarrow> add_mset g (boots_of p) | _ \<Rightarrow> boots_of p)"
    using inv2 E(1,2) B(8) b1 by (auto simp: port_inv_def split: boot_admit.splits)
  have fr2: "fr \<longrightarrow> fresh_id st f2" using fr B(2,3) by (simp add: fresh_id_def)
  show ?thesis
  proof (cases ok)
    case False
    have "admit_ready own spec src f st (pl_count RateCap p1) R0 G0"
      using admit_ready_plane(2)[OF rd _ okf refl] inv1 by simp
    then show ?thesis using admit_ready_drop run False ids b1 by fastforce
  next
    case True
    show ?thesis
    proof (cases a)
      case (Spawn g)
      obtain st4 p4 where i: "install_flow spec src d now f2 (st\<lparr>ps_booting := True\<rparr>) p3 = (st4, p4)" by fastforce
      show ?thesis
        using install_ready[OF admit_ready_plane(1)[OF rd inv3 B(1,4)] i] install_fresh[OF _ _ i] fr2 new
          run True Spawn i b3 by auto
    next
      case Coalesced
      obtain st4 p4 where i: "install_flow spec src d now f2 (st\<lparr>ps_booting := True\<rparr>) (pl_event WakeCoalesced p3) = (st4, p4)"
        by fastforce
      have inv3': "port_inv own spec st (pl_event WakeCoalesced p3) ?R G0" using inv3 by simp
      show ?thesis
        using install_ready[OF admit_ready_plane(1)[OF rd inv3' B(1,4)] i] install_fresh[OF _ _ i] fr2 new
          run True Coalesced i b3 by auto
    next
      case BootBudgetFull
      have "admit_ready own spec src f2 st (pl_count BudgetFull p3) R0 G0"
        using admit_ready_plane(2)[OF rd _ B(1,4)] inv3 by simp
      then show ?thesis using admit_ready_drop run True BootBudgetFull ids b3 by fastforce
    qed
  qed
qed

lemma reach_admit_inv:
  assumes inv: "port_inv own spec st p (add_mset (sp_base_project spec) R0) G0" and sub: "G0 \<subseteq># R0"
    and r: "r = (sp_base_project spec, sp_tenant_id spec)"
    and run: "reach_admit spec src d now r pid live st p = (o', st', p')"
  shows "port_inv own spec st' p' R0 G0 \<and> (ids_ok st \<and> probe_ok st \<longrightarrow> ids_ok st')
    \<and> boots_of p' = (case o' of BootSpawn g _ \<Rightarrow> add_mset g (boots_of p) | _ \<Rightarrow> boots_of p)"
proof (cases "map_of (ps_flows st) src")
  case (Some f)
  have "own (sp_base_project spec) = sp_tenant_id spec" using inv by (simp add: port_inv_def spec_own_def)
  then have "port_inv own spec st (pl_drop_reservation r p) R0 G0"
    using acct_unreserve[of own "sp_base_project spec" p R0 G0 "mset (ps_flows st)"] inv sub r by (simp add: port_inv_def)
  from reach_hit_inv[OF this Some, of d now o' st' p'] show ?thesis
    using run Some by (auto simp: reach_admit_def)
next
  case None
  let ?fr = "ids_ok st \<and> probe_ok st"
  define ld where "ld = Option.bind live (vm_addr spec)"
  obtain f0 st1 where ai: "admit_identity src now r ld st = (f0, st1)" by fastforce
  define f where "f = flow_first (length d) f0"
  note F = admit_identity_frame[OF ai]
  have inv1: "port_inv own spec st1 p (add_mset (sp_base_project spec) R0) G0" by (rule admit_identity_inv[OF inv ai])
  have okf: "flow_ok spec f" "fl_kind f = Provisional"
    using F(7) r by (auto simp: f_def flow_first_def flow_ok_def flow_provisional_def)
  then have rd: "admit_ready own spec src f st1 p R0 G0" using inv1 sub None F(1) by (simp add: admit_ready_def)
  have fr: "?fr \<longrightarrow> fresh_id st1 f" and ids1: "?fr \<longrightarrow> ids_ok st1"
    using admit_identity_ok[OF _ None _ ai] by (auto simp: fresh_id_def f_def flow_first_def)
  have new1: "map_of (ps_flows st1) src = None" using None F(1) by simp
  show ?thesis
  proof (cases ld)
    case (Some dst)
    define f2 where "f2 = f\<lparr>fl_out_nonce := fl_out_nonce f + 1\<rparr>"
    obtain st2 p2 where i: "install_flow spec src d now f2 (st1\<lparr>ps_vm_dst := Some dst\<rparr>) p = (st2, p2)" by fastforce
    have rd2: "admit_ready own spec src f2 (st1\<lparr>ps_vm_dst := Some dst\<rparr>) p R0 G0"
      using rd by (simp add: admit_ready_def f2_def flow_ok_def)
    have "?fr \<longrightarrow> fresh_id (st1\<lparr>ps_vm_dst := Some dst\<rparr>) f2" using fr by (simp add: fresh_id_def f2_def)
    moreover have "st' = st2" "p' = p2" "o' = Forward (fl_flow_id f2) (fl_epoch f2) (fl_out_nonce f2) dst"
      using run None Some ai i by (simp_all add: reach_admit_def Let_def ld_def[symmetric] f_def[symmetric] f2_def)
    ultimately show ?thesis using install_ready[OF rd2 i] install_fresh[OF _ _ i] new1 by auto
  next
    case ldN: None
    show ?thesis
    proof (cases "ps_booting st1")
      case True
      obtain f2 p2 where bp: "buffer_push d f p = (f2, p2)" by fastforce
      obtain st3 p3 where i: "install_flow spec src d now f2 st1 p2 = (st3, p3)" by fastforce
      note B = buffer_push_ok[OF okf(1) bp]
      have rd2: "admit_ready own spec src f2 st1 p2 R0 G0"
        using admit_ready_plane(2)[OF rd _ B(1,4)] inv1 B(7) by (simp add: port_inv_def)
      have "?fr \<longrightarrow> fresh_id st1 f2" using fr B(2,3) by (simp add: fresh_id_def)
      moreover have "st' = st3" "p' = p3" "o' = Buffered"
        using run None ldN True ai bp i by (simp_all add: reach_admit_def Let_def ld_def[symmetric] f_def[symmetric])
      ultimately show ?thesis using install_ready[OF rd2 i] install_fresh[OF _ _ i] new1 B(8) by auto
    next
      case False
      obtain ok p1 where wr: "pl_try_wake_rate (sp_base_project spec) now p = (ok, p1)" by fastforce
      obtain f2 p2 where bp: "buffer_push d f p1 = (f2, p2)" by fastforce
      obtain a p3 where eb: "pl_ensure_boot (sp_base_project spec) (sp_tenant_id spec) p2 = (a, p3)" by fastforce
      have eq: "(o', st', p') =
          (if \<not> ok then (Dropped, st1, drop_flow f (pl_count RateCap p1))
           else (case a of
               Spawn g \<Rightarrow> (let (st, p) = install_flow spec src d now f2 (st1\<lparr>ps_booting := True\<rparr>) p3
                           in (BootSpawn g pid, st, p))
             | Coalesced \<Rightarrow> (let (st, p) = install_flow spec src d now f2 (st1\<lparr>ps_booting := True\<rparr>) (pl_event WakeCoalesced p3)
                           in (BootWait pid, st, p))
             | BootBudgetFull \<Rightarrow> (Dropped, st1, drop_flow f2 (pl_count BudgetFull p3))))"
        using run None ldN False ai wr bp eb
        by (cases ok; cases a) (auto simp: reach_admit_def Let_def ld_def[symmetric] f_def[symmetric] split: prod.splits)
      show ?thesis using admit_cold[OF rd fr wr bp eb eq ids1] .
    qed
  qed
qed

section \<open>The return loop keeps the invariant\<close>

lemma shape_egress_ok:
  assumes "shape_egress k n ip now f c0 p = (res, c0', p')"
  shows "acct own b p' R0 G0 M = acct own b p R0 G0 M" and "boots_of p' = boots_of p"
    and "res = Inr f' \<Longrightarrow> \<exists>e. f' = f\<lparr>fl_egress := e\<rparr>"
proof -
  obtain ok p1 where g: "pl_try_c0_grant ip now p = (ok, p1)" by fastforce
  have g': "acct own b p1 R0 G0 M = acct own b p R0 G0 M" "boots_of p1 = boots_of p"
    using acct_frame(5)[of own b ip now p] boots_frame(5)[of ip now p] g by simp_all
  have self: "\<exists>e. f = f\<lparr>fl_egress := e\<rparr>" by (rule exI[of _ "fl_egress f"]) simp
  show "acct own b p' R0 G0 M = acct own b p R0 G0 M" "boots_of p' = boots_of p"
    using assms g g'
    by (auto simp: shape_egress_def split: if_splits prod.splits ratio_verdict.splits)
  show "res = Inr f' \<Longrightarrow> \<exists>e. f' = f\<lparr>fl_egress := e\<rparr>"
    using assms g self
    by (auto simp: shape_egress_def split: if_splits prod.splits ratio_verdict.splits)
qed

lemma hupd_hupd: "hupd k v (hupd k w m) = hupd k v m"
  by (induction m) auto

lemma hupd_triv: "map_of m k = Some v \<Longrightarrow> hupd k v m = m"
  by (induction m) auto

text \<open>
  The egress controls rewrite one flow, never its identity or nonces, and touch neither the index
  nor the remembered identities.
\<close>

lemma egress_controls_shape:
  assumes look: "map_of (ps_flows st) src = Some f"
    and run: "egress_controls spec src n now f st p = (res, st', p')"
  shows "\<exists>f' m c0. st' = st\<lparr>ps_flows := hupd src f' (ps_flows st), ps_per_source := m, ps_c0_rate := c0\<rparr>
      \<and> fl_flow_id f' = fl_flow_id f \<and> fl_epoch f' = fl_epoch f \<and> fl_out_nonce f' = fl_out_nonce f
      \<and> fl_in_nonce_hw f' = fl_in_nonce_hw f \<and> res \<in> {None, Some src}
      \<and> (\<forall>own R0 G0 M. spec_own own spec \<longrightarrow> flow_ok spec f \<longrightarrow>
          acct own (sp_base_project spec) p R0 G0 (add_mset (src, f) M) \<longrightarrow>
          flow_ok spec f' \<and> acct own (sp_base_project spec) p' R0 G0 (add_mset (src, f') M))
      \<and> boots_of p' = boots_of p"
proof -
  let ?b = "sp_base_project spec" and ?ip = "fst src"
  obtain sh c0 p1 where s: "shape_egress (sp_amp_k spec) n ?ip now f (ps_c0_rate st) p = (sh, c0, p1)"
    by (metis prod_cases3)
  note S = shape_egress_ok[OF s]
  show ?thesis
  proof (cases sh)
    case (Inl why)
    then have "res = None" "st' = st\<lparr>ps_c0_rate := c0\<rparr>" "p' = pl_count why p1"
      using run s by (simp_all add: egress_controls_def Let_def)
    then show ?thesis
      using S(1,2) hupd_triv[OF look]
      by (intro exI[of _ f] exI[of _ "ps_per_source st"] exI[of _ c0]) simp
  next
    case (Inr f2)
    then obtain e where f2: "f2 = f\<lparr>fl_egress := e\<rparr>" using S(3) by blast
    have ok2: "flow_ok spec f2 = flow_ok spec f"
      and ac2: "acct own ?b p1 R0 G0 (add_mset (src, f2) M) = acct own ?b p R0 G0 (add_mset (src, f) M)" for own R0 G0 M
      using S(1) acct_same_kind[of f2 f] by (simp_all add: f2 flow_ok_def)
    obtain b m where kb: "kb_check (real (per_source_bps (ps_egress st))) (real (per_source_burst (ps_egress st)))
        ?ip (real n) now (ps_per_source st) = (b, m)" by fastforce
    obtain ra p2 where ag: "pl_try_egress_aggregate ?b ?ip n (ps_egress st) now p1 = (ra, p2)" by fastforce
    have ac3: "acct own ?b p2 R0 G0 M = acct own ?b p1 R0 G0 M" and b2: "boots_of p2 = boots_of p" for own R0 G0 M
      using acct_frame(6)[of own ?b ?b ?ip n "ps_egress st" now p1] boots_frame(6)[of ?b ?ip n "ps_egress st" now p1] ag S(2)
      by simp_all
    show ?thesis
    proof (cases "b = None \<or> isl ra")
      case True
      then have "res = None" "st' = st\<lparr>ps_flows := hupd src f2 (ps_flows st), ps_per_source := m, ps_c0_rate := c0\<rparr>"
        "\<exists>r. p' = pl_count r p1 \<or> p' = pl_count r p2"
        using run s Inr kb ag by (auto simp: egress_controls_def Let_def split: option.splits sum.splits)
      then show ?thesis
        using ok2 ac2 ac3 b2 S(2) by (intro exI[of _ f2] exI[of _ m] exI[of _ c0]) (auto simp: f2)
    next
      case False
      then obtain b' u where br: "b = Some b'" "ra = Inr u" by (cases b; cases ra) auto
      obtain f3 p3 where mp: "maybe_promote ?b (sp_tenant_id spec) now (flow_replied n f2) p2 = (f3, p3)" by fastforce
      have r: "res = Some src" "p' = pl_note_egress ?b n (sp_amp_k spec) ?ip now p3"
        "st' = st\<lparr>ps_c0_rate := c0, ps_per_source := bm_put ?ip (tb_commit (real n) b') m, ps_flows := hupd src f3 (ps_flows st)\<rparr>"
        using run s Inr kb ag br mp by (simp_all add: egress_controls_def Let_def hupd_hupd)
      have sel: "fl_flow_id f3 = fl_flow_id f" "fl_epoch f3 = fl_epoch f" "fl_out_nonce f3 = fl_out_nonce f"
        "fl_in_nonce_hw f3 = fl_in_nonce_hw f" "boots_of p3 = boots_of p"
        using mp b2 by (auto simp: maybe_promote_def flow_replied_def f2 Let_def pl_try_establish_def boots_of_def
            pl_event_def split: if_splits option.splits prod.splits)
      have "flow_ok spec f3 \<and> acct own ?b p' R0 G0 (add_mset (src, f3) M)"
        if "spec_own own spec" "flow_ok spec f" "acct own ?b p R0 G0 (add_mset (src, f) M)" for own R0 G0 M
      proof -
        have "flow_ok spec (flow_replied n f2)" using that(2) ok2 by (simp add: flow_replied_def flow_ok_def)
        moreover have "acct own ?b p2 R0 G0 (add_mset (src, flow_replied n f2) M)"
          using that(3) ac2 ac3 acct_same_kind[of "flow_replied n f2" f2] by (simp add: flow_replied_def)
        ultimately show ?thesis using maybe_promote_ok(1,2)[OF that(1) _ _ mp] r(2) by simp
      qed
      then show ?thesis
        using r sel by (intro exI[of _ f3] exI[of _ "bm_put ?ip (tb_commit (real n) b') m"] exI[of _ c0]) simp
    qed
  qed
qed

text \<open>
  Either nothing but a counter changes and nothing is sent, or exactly one flow is rewritten: the one
  the header names, whose epoch matches and whose high-water mark was below the nonce and now is it.
\<close>

lemma return_decide_cases:
  assumes run: "return_decide spec hdr d now st p = (res, st', p')"
  obtains (quiet) "res = None" "st' = st" "p' = p \<or> (\<exists>r. p' = pl_count r p)"
  | (heard) src f f' m c0 where "map_of (ps_by_flow_id st) (h_flow_id hdr) = Some src"
      "map_of (ps_flows st) src = Some f" "fl_epoch f = h_epoch hdr" "fl_in_nonce_hw f < h_nonce hdr"
      "fl_in_nonce_hw f' = h_nonce hdr"
      "st' = st\<lparr>ps_flows := hupd src f' (ps_flows st), ps_per_source := m, ps_c0_rate := c0\<rparr>"
      "fl_flow_id f' = fl_flow_id f" "fl_epoch f' = fl_epoch f" "fl_out_nonce f' = fl_out_nonce f"
      "res \<in> {None, Some src}" "\<not> is_reflection_suspected (pl_activity p) (sp_base_project spec)"
      "\<forall>own R0 G0 M. spec_own own spec \<longrightarrow> flow_ok spec f \<longrightarrow>
          acct own (sp_base_project spec) p R0 G0 (add_mset (src, f) M) \<longrightarrow>
          flow_ok spec f' \<and> acct own (sp_base_project spec) p' R0 G0 (add_mset (src, f') M)"
      "boots_of p' = boots_of p"
proof -
  let ?early = "is_reflection_suspected (pl_activity p) (sp_base_project spec)"
  consider (early) "res = None" "st' = st" "p' = p \<or> (\<exists>r. p' = pl_count r p)"
    | (go) src f where "\<not> ?early" "map_of (ps_by_flow_id st) (h_flow_id hdr) = Some src" "map_of (ps_flows st) src = Some f"
        "fl_epoch f = h_epoch hdr" "fl_in_nonce_hw f < h_nonce hdr"
        "egress_controls spec src (length d) now (flow_heard (h_nonce hdr) now f)
           (st\<lparr>ps_flows := hupd src (flow_heard (h_nonce hdr) now f) (ps_flows st)\<rparr>) p = (res, st', p')"
    using run unfolding return_decide_def
    by (force split: if_splits option.splits simp: Let_def not_le)
  then show thesis
  proof cases
    case early
    then show thesis by (rule quiet)
  next
    case go
    let ?f1 = "flow_heard (h_nonce hdr) now f"
    let ?st1 = "st\<lparr>ps_flows := hupd src ?f1 (ps_flows st)\<rparr>"
    have l1: "map_of (ps_flows ?st1) src = Some ?f1" by simp
    from egress_controls_shape[OF l1 go(6)] obtain f' m c0 where E:
      "st' = ?st1\<lparr>ps_flows := hupd src f' (ps_flows ?st1), ps_per_source := m, ps_c0_rate := c0\<rparr>"
      "fl_flow_id f' = fl_flow_id ?f1" "fl_epoch f' = fl_epoch ?f1" "fl_out_nonce f' = fl_out_nonce ?f1"
      "fl_in_nonce_hw f' = fl_in_nonce_hw ?f1" "res \<in> {None, Some src}"
      "\<forall>own R0 G0 M. spec_own own spec \<longrightarrow> flow_ok spec ?f1 \<longrightarrow>
          acct own (sp_base_project spec) p R0 G0 (add_mset (src, ?f1) M) \<longrightarrow>
          flow_ok spec f' \<and> acct own (sp_base_project spec) p' R0 G0 (add_mset (src, f') M)"
      "boots_of p' = boots_of p" by blast
    have same: "flow_ok spec ?f1 = flow_ok spec f"
      "acct own b p R0 G0 (add_mset (src, ?f1) M) = acct own b p R0 G0 (add_mset (src, f) M)" for own b R0 G0 M
      using acct_same_kind[of ?f1 f] by (simp_all add: flow_heard_def flow_ok_def)
    show thesis
      using go E same by (intro heard[of src f f' c0 m]) (simp_all add: flow_heard_def hupd_hupd)
  qed
qed

lemma return_decide_inv:
  assumes inv: "port_inv own spec st p R0 G0" and run: "return_decide spec hdr d now st p = (res, st', p')"
  shows "port_inv own spec st' p' R0 G0 \<and> boots_of p' = boots_of p \<and> (ids_ok st \<longrightarrow> ids_ok st')"
  using run
proof (cases rule: return_decide_cases)
  case quiet
  then show ?thesis using inv by auto
next
  case (heard src f f' m c0)
  have own: "spec_own own spec" using inv by (simp add: port_inv_def)
  have a: "flow_ok spec f' \<and> acct own (sp_base_project spec) p' R0 G0 (add_mset (src, f') (mset (hdel src (ps_flows st))))"
    using heard(12) own port_inv_flow_ok[OF inv heard(2)] acct_split[OF inv heard(2)] by blast
  then have "port_inv own spec (st\<lparr>ps_flows := hupd src f' (ps_flows st)\<rparr>) p' R0 G0"
    using port_inv_touch[OF inv heard(2) heard(7,8)] by blast
  then show ?thesis
    using ids_touch[OF _ heard(2) heard(7,8)] heard(6,13) by simp
qed

section \<open>The sweep keeps the invariant\<close>

definition gone_flows :: "l4_port_spec \<Rightarrow> instant \<Rightarrow> (sock_addr, flow) hmap \<Rightarrow> (sock_addr \<times> flow) list" where
  "gone_flows spec now fl = filter (\<lambda>(_, f). \<not> flow_keeps spec now f) fl"

definition flow_key :: "sock_addr \<times> flow \<Rightarrow> u32 \<times> u32" where
  "flow_key e = (fl_flow_id (snd e), fl_epoch (snd e))"

lemma bm_wf_remember [simp]: "bm_wf m \<Longrightarrow> bm_wf (remember src now i m)"
  using bm_wf_get_or_insert[of m src now i]
  by (cases "bm_get_or_insert_with src now i m") (auto simp: remember_def split: option.splits)

lemma remember_get:
  assumes wf: "bm_wf m" and g: "bm_get (remember src now i m) s = Some j"
  shows "(if s = src then j = i else bm_get m s = Some j)"
proof -
  obtain v m' where e: "bm_get_or_insert_with src now i m = (v, m')" by fastforce
  show ?thesis
  proof (cases v)
    case None
    then have "m' = m" "map_of (bm_map m) src = None" using bm_get_or_insert_None[OF wf] e by auto
    then show ?thesis using g e None by (auto simp: remember_def bm_get_def)
  next
    case (Some w)
    note S = bm_get_or_insert_Some[OF wf e[unfolded Some]]
    show ?thesis
    proof (cases "s = src")
      case True
      then show ?thesis using g e Some S(1) by (simp add: remember_def bm_get_def map_of_bm_put)
    next
      case False
      then have "\<exists>t. map_of (bm_map m') s = Some (j, t)"
        using g e Some by (auto simp: remember_def bm_get_def map_of_bm_put)
      then have "\<exists>t. map_of (bm_map m) s = Some (j, t)"
        using S(3)[OF False] map_of_bm_evict[OF wf, of now s] by (auto split: option.splits if_splits)
      then show ?thesis using False by (auto simp: bm_get_def)
    qed
  qed
qed

lemma memo_ids_remember:
  assumes "bm_wf m" and "memo_ids (remember src now i m) s = Some x"
  shows "(if s = src then x = fi_flow_id i else memo_ids m s = Some x)"
  using remember_get[OF assms(1), of src now i s] assms(2) by (auto simp: memo_ids_def split: if_splits)

definition expire_event :: "flow \<Rightarrow> plane \<Rightarrow> plane" where
  "expire_event f p = (if fl_kind f = Provisional then pl_event ProvisionalExpired p else p)"

lemma evict_flow_eq:
  "evict_flow now e (rem, m, p) =
     (rem @ [flow_key e], remember (fst e) now (identity_of (snd e)) m, drop_flow (snd e) (expire_event (snd e) p))"
  by (cases e) (simp add: evict_flow_def flow_key_def expire_event_def Let_def)

lemma evict_fold:
  assumes "fold (evict_flow now) es (rem, m, p) = (rem', m', p')"
  shows "rem' = rem @ map flow_key es" and "boots_of p' = boots_of p" and "bm_wf m \<Longrightarrow> bm_wf m'"
    and "spec_own own spec \<Longrightarrow> \<forall>e \<in> set es. flow_ok spec (snd e) \<Longrightarrow>
      acct own (sp_base_project spec) p R0 G0 (mset es + M) \<Longrightarrow> acct own (sp_base_project spec) p' R0 G0 M"
proof -
  have "rem' = rem @ map flow_key es \<and> boots_of p' = boots_of p \<and> (bm_wf m \<longrightarrow> bm_wf m') \<and>
    (spec_own own spec \<longrightarrow> (\<forall>e \<in> set es. flow_ok spec (snd e)) \<longrightarrow>
      acct own (sp_base_project spec) p R0 G0 (mset es + M) \<longrightarrow> acct own (sp_base_project spec) p' R0 G0 M)"
    using assms
  proof (induction es arbitrary: rem m p)
    case (Cons e es)
    define p1 where "p1 = expire_event (snd e) p"
    note ev = evict_flow_eq[of now e rem m p, folded p1_def]
    have ac: "acct own b p1 R0 G0 M' = acct own b p R0 G0 M'" and b1: "boots_of p1 = boots_of p" for b M'
      by (simp_all add: p1_def expire_event_def)
    have "acct own (sp_base_project spec) (drop_flow (snd e) p1) R0 G0 (mset es + M)"
      if "spec_own own spec" "flow_ok spec (snd e)" "acct own (sp_base_project spec) p R0 G0 (mset (e # es) + M)"
      using drop_flow_acct[OF that(1,2), of p1 R0 G0 "fst e" "mset es + M"] that(3) ac by simp
    then show ?case using Cons.IH Cons.prems ev b1 by fastforce
  qed simp
  then show "rem' = rem @ map flow_key es" "boots_of p' = boots_of p" "bm_wf m \<Longrightarrow> bm_wf m'"
    "spec_own own spec \<Longrightarrow> \<forall>e \<in> set es. flow_ok spec (snd e) \<Longrightarrow>
      acct own (sp_base_project spec) p R0 G0 (mset es + M) \<Longrightarrow> acct own (sp_base_project spec) p' R0 G0 M"
    by blast+
qed

text \<open>The index after the evictions: an entry is deleted for each evicted id.\<close>

definition unindex :: "(u32 \<times> u32) list \<Rightarrow> (u32, sock_addr) hmap \<Rightarrow> (u32, sock_addr) hmap" where
  "unindex ks D = fold (\<lambda>(fid, _). hdel fid) ks D"

lemma unindex_simps [simp]: "unindex [] D = D" "unindex (k # ks) D = unindex ks (hdel (fst k) D)"
  by (auto simp: unindex_def split: prod.splits)

lemma hm_wf_unindex: "hm_wf D \<Longrightarrow> hm_wf (unindex ks D)"
  by (induction ks arbitrary: D) auto

lemma restrict_UNIV: "F |` UNIV = F"
  by (auto simp: restrict_map_def)

lemma restrict_minus_insert: "(F(s := None)) |` (- A) = F |` (- insert s A)"
  by (auto simp: restrict_map_def)

lemma evict_others:
  assumes "fst e \<notin> fst ` set es" and "\<forall>e' \<in> set es. F (fst e') = Some (flow_key e')"
  shows "\<forall>e' \<in> set es. (F(fst e := None)) (fst e') = Some (flow_key e')"
proof
  fix e' assume e': "e' \<in> set es"
  then have "fst e' \<noteq> fst e" using assms(1) by (metis imageI)
  then show "(F(fst e := None)) (fst e') = Some (flow_key e')" using assms(2) e' by simp
qed

lemma evict_demux:
  assumes "distinct (map fst es)" and "\<forall>e \<in> set es. F (fst e) = Some (flow_key e)" and "demux_rel F (map_of D)"
  shows "demux_rel (F |` (- fst ` set es)) (map_of (unindex (map flow_key es) D))"
  using assms
proof (induction es arbitrary: F D)
  case (Cons e es)
  have d: "demux_rel (F(fst e := None)) (map_of (hdel (fst (flow_key e)) D))"
    using demux_rel_evict[of F "map_of D" "fst e" "fst (flow_key e)" "snd (flow_key e)"] Cons.prems by simp
  have o: "\<forall>e' \<in> set es. (F(fst e := None)) (fst e') = Some (flow_key e')"
    by (rule evict_others) (use Cons.prems in simp_all)
  have "distinct (map fst es)" using Cons.prems(1) by simp
  from Cons.IH[OF this o d] show ?case unfolding restrict_minus_insert by simp
qed (simp add: restrict_UNIV)

lemma evict_ids:
  assumes "distinct (map fst es)" and "\<forall>e \<in> set es. F (fst e) = Some (flow_key e)"
    and "ids_rel F (map_of D) E (memo_ids m)" and "bm_wf m"
    and "fold (evict_flow now) es (rem, m, p) = (rem', m', p')"
  shows "ids_rel (F |` (- fst ` set es)) (map_of (unindex (map flow_key es) D)) E (memo_ids m')"
  using assms
proof (induction es arbitrary: F D rem m p)
  case (Cons e es)
  let ?m = "remember (fst e) now (identity_of (snd e)) m"
  have Fe: "F (fst e) = Some (fst (flow_key e), snd (flow_key e))" using Cons.prems(2) by simp
  have "ids_rel (F(fst e := None)) ((map_of D)(fst (flow_key e) := None)) E (memo_ids ?m)"
  proof (rule ids_rel_evict[OF Cons.prems(3) Fe])
    show "if s' = fst e then fid' = fst (flow_key e) else memo_ids m s' = Some fid'"
      if "memo_ids ?m s' = Some fid'" for s' fid'
      using memo_ids_remember[OF Cons.prems(4) that] by (simp add: flow_key_def identity_of_def)
  qed
  moreover have "\<forall>e' \<in> set es. (F(fst e := None)) (fst e') = Some (flow_key e')"
    by (rule evict_others) (use Cons.prems in simp_all)
  moreover have "\<exists>p1. fold (evict_flow now) es (rem @ [flow_key e], ?m, p1) = (rem', m', p')"
    using Cons.prems(5) by (auto simp: evict_flow_eq)
  ultimately have "ids_rel ((F(fst e := None)) |` (- fst ` set es))
      (map_of (unindex (map flow_key es) (hdel (fst (flow_key e)) D))) E (memo_ids m')"
    using Cons.IH[of "F(fst e := None)" "hdel (fst (flow_key e)) D" ?m] Cons.prems(1,4) by fastforce
  then show ?case unfolding restrict_minus_insert by simp
qed (simp add: restrict_UNIV)

lemma flow_ids_kept:
  assumes "hm_wf fl"
  shows "flow_ids (hretain (\<lambda>_ f. flow_keeps spec now f) fl) = flow_ids fl |` (- fst ` set (gone_flows spec now fl))"
proof
  fix s
  have "s \<in> fst ` set (gone_flows spec now fl) \<longleftrightarrow> (\<exists>f. map_of fl s = Some f \<and> \<not> flow_keeps spec now f)"
    using assms by (force simp: gone_flows_def hm_wf_map_of_iff)
  then show "flow_ids (hretain (\<lambda>_ f. flow_keeps spec now f) fl) s = (flow_ids fl |` (- fst ` set (gone_flows spec now fl))) s"
    using map_of_hretain[OF assms, of "\<lambda>_ f. flow_keeps spec now f" s]
    by (auto simp: flow_ids_def restrict_map_def split: option.splits)
qed

lemma memo_ids_sweep: "bm_wf m \<Longrightarrow> memo_ids (bm_sweep now m) s = Some x \<Longrightarrow> memo_ids m s = Some x"
  by (auto simp: memo_ids_def bm_get_def bm_sweep_def map_of_bm_evict split: option.splits if_splits)

lemma port_sweep_inv:
  assumes inv: "port_inv own spec st p R0 G0" and run: "port_sweep spec now st p = (st', p')"
  shows "port_inv own spec st' p' R0 G0 \<and> boots_of p' = boots_of p \<and> (ids_ok st \<longrightarrow> ids_ok st')"
proof -
  let ?fl = "ps_flows st" and ?b = "sp_base_project spec"
  let ?es = "gone_flows spec now ?fl" and ?keep = "hretain (\<lambda>_ f. flow_keeps spec now f) ?fl"
  let ?D = "unindex (map flow_key ?es) (ps_by_flow_id st)"
  obtain rem m p1 where fo: "fold (evict_flow now) ?es ([], bm_sweep now (ps_identity st), p) = (rem, m, p1)"
    by (metis prod_cases3)
  note E = evict_fold[OF fo]
  have rem: "rem = map flow_key ?es" using E(1) by simp
  have st': "ps_flows st' = ?keep" "ps_by_flow_id st' = ?D" "ps_identity st' = m" "p' = pl_sweep now p1"
    "\<exists>Q. ps_epoch_for st' = hretain (\<lambda>fid _. map_of ?D fid \<noteq> None \<or> fid \<in> Q) (ps_epoch_for st)"
    using run fo by (auto simp: port_sweep_def gone_flows_def[symmetric] unindex_def[symmetric] rem Let_def)
  have wf: "hm_wf ?fl" "hm_wf (ps_by_flow_id st)" "bm_wf (ps_identity st)" using inv by (simp_all add: port_inv_def demux_ok_def)
  have dist: "distinct (map fst ?es)" using wf(1) by (simp add: hm_wf_def gone_flows_def distinct_map_filter)
  have F: "\<forall>e \<in> set ?es. flow_ids ?fl (fst e) = Some (flow_key e)"
    using wf(1) by (auto simp: gone_flows_def flow_ids_def flow_key_def hm_wf_map_of_iff[symmetric])
  have "demux_ok st'"
    using evict_demux[OF dist F] inv wf hm_wf_unindex[OF wf(2)]
    by (simp add: port_inv_def demux_ok_def st' flow_ids_kept)
  moreover have "\<forall>e \<in> set (ps_flows st'). flow_ok spec (snd e)"
    using inv by (auto simp: port_inv_def st' hretain_def)
  moreover have "acct own ?b p' R0 G0 (mset (ps_flows st'))"
  proof -
    have gone: "\<forall>e \<in> set ?es. flow_ok spec (snd e)"
      using inv unfolding port_inv_def gone_flows_def by (meson filter_is_subset subsetD)
    have "mset ?fl = mset ?es + mset ?keep"
      using mset_filter_split[of ?fl "\<lambda>(_, f). \<not> flow_keeps spec now f"]
      by (simp add: gone_flows_def hretain_def case_prod_beta)
    then show ?thesis
      using E(4)[of own spec R0 G0 "mset ?keep"] inv gone by (simp add: port_inv_def st')
  qed
  moreover have "bm_wf m" using E(3) wf(3) by simp
  ultimately have "port_inv own spec st' p' R0 G0" using inv by (simp add: port_inv_def st')
  moreover have "ids_ok st'" if "ids_ok st"
  proof -
    have r: "ids_rel (flow_ids ?fl) (map_of (ps_by_flow_id st)) (map_of (ps_epoch_for st)) (memo_ids (ps_identity st))"
      and we: "hm_wf (ps_epoch_for st)" using that by (simp_all add: ids_ok_def)
    have "ids_rel (flow_ids ?fl) (map_of (ps_by_flow_id st)) (map_of (ps_epoch_for st)) (memo_ids (bm_sweep now (ps_identity st)))"
      by (rule ids_rel_forget[OF r]) (use memo_ids_sweep[OF wf(3)] in auto)
    from evict_ids[OF dist F this _ fo]
    have r2: "ids_rel (flow_ids ?keep) (map_of ?D) (map_of (ps_epoch_for st)) (memo_ids m)"
      using wf by (simp add: flow_ids_kept)
    have "ids_rel (flow_ids ?keep) (map_of ?D) (map_of (ps_epoch_for st')) (memo_ids m)"
      by (rule ids_rel_forget[OF r2]) (use st'(5) map_of_hretain[OF we] in auto)
    moreover have "hm_wf (ps_epoch_for st')" using st'(5) we by auto
    ultimately show ?thesis using \<open>demux_ok st'\<close> \<open>bm_wf m\<close> by (simp add: ids_ok_def st')
  qed
  ultimately show ?thesis using E(2) by (simp add: st')
qed

section \<open>Readiness, limits and the hand-off\<close>

lemma flush_bufs_sel:
  assumes "flush_bufs f ds = (jobs, f')"
  shows "fl_flow_id f' = fl_flow_id f" "fl_epoch f' = fl_epoch f" "fl_kind f' = fl_kind f"
    "fl_guard f' = fl_guard f" "fl_reservation f' = fl_reservation f" "fl_buffer f' = fl_buffer f"
    "fl_buffer_bytes f' = fl_buffer_bytes f" "fl_out_nonce f' = fl_out_nonce f + word_of_nat (length ds)"
    "map snd jobs = ds" "\<forall>(h, d) \<in> set jobs. h_flow_id h = fl_flow_id f \<and> h_epoch h = fl_epoch f"
    "\<forall>i < length ds. h_nonce (fst (jobs ! i)) = fl_out_nonce f + 1 + word_of_nat i"
proof -
  have "fl_flow_id f' = fl_flow_id f \<and> fl_epoch f' = fl_epoch f \<and> fl_kind f' = fl_kind f
    \<and> fl_guard f' = fl_guard f \<and> fl_reservation f' = fl_reservation f \<and> fl_buffer f' = fl_buffer f
    \<and> fl_buffer_bytes f' = fl_buffer_bytes f \<and> fl_out_nonce f' = fl_out_nonce f + word_of_nat (length ds)
    \<and> map snd jobs = ds \<and> (\<forall>(h, d) \<in> set jobs. h_flow_id h = fl_flow_id f \<and> h_epoch h = fl_epoch f)
    \<and> (\<forall>i < length ds. h_nonce (fst (jobs ! i)) = fl_out_nonce f + 1 + word_of_nat i)"
    using assms
  proof (induction ds arbitrary: f jobs)
    case (Cons d ds)
    let ?f = "f\<lparr>fl_out_nonce := fl_out_nonce f + 1\<rparr>"
    obtain js where js: "flush_bufs ?f ds = (js, f')"
      "jobs = (\<lparr>h_flow_id = fl_flow_id f, h_epoch = fl_epoch f, h_nonce = fl_out_nonce f + 1\<rparr>, d) # js"
      using Cons.prems by (auto simp: Let_def split: prod.splits)
    have "h_nonce (fst (jobs ! i)) = fl_out_nonce f + 1 + word_of_nat i" if "i < length (d # ds)" for i
      using that Cons.IH[OF js(1)] js(2) by (cases i) (simp_all add: ac_simps)
    then show ?case using Cons.IH[OF js(1)] js(2) by (simp add: ac_simps)
  qed simp
  then show "fl_flow_id f' = fl_flow_id f" "fl_epoch f' = fl_epoch f" "fl_kind f' = fl_kind f"
    "fl_guard f' = fl_guard f" "fl_reservation f' = fl_reservation f" "fl_buffer f' = fl_buffer f"
    "fl_buffer_bytes f' = fl_buffer_bytes f" "fl_out_nonce f' = fl_out_nonce f + word_of_nat (length ds)"
    "map snd jobs = ds" "\<forall>(h, d) \<in> set jobs. h_flow_id h = fl_flow_id f \<and> h_epoch h = fl_epoch f"
    "\<forall>i < length ds. h_nonce (fst (jobs ! i)) = fl_out_nonce f + 1 + word_of_nat i"
    by simp_all
qed

lemma flush_flow_sel:
  assumes "flush_flow f = (jobs, f')"
  shows "fl_flow_id f' = fl_flow_id f" "fl_epoch f' = fl_epoch f" "fl_kind f' = fl_kind f"
    "fl_buffer f' = []" "map snd jobs = fl_buffer f"
    "fl_out_nonce f' = fl_out_nonce f + word_of_nat (length (fl_buffer f))"
    "\<forall>(h, d) \<in> set jobs. h_flow_id h = fl_flow_id f \<and> h_epoch h = fl_epoch f"
    "\<forall>i < length (fl_buffer f). h_nonce (fst (jobs ! i)) = fl_out_nonce f + 1 + word_of_nat i"
    "flow_ok spec f \<Longrightarrow> flow_ok spec f'"
proof -
  let ?f = "f\<lparr>fl_buffer := [], fl_buffer_bytes := 0\<rparr>"
  have e: "fl_buffer f = [] \<Longrightarrow> jobs = [] \<and> f' = f" and
    n: "fl_buffer f \<noteq> [] \<Longrightarrow> flush_bufs ?f (fl_buffer f) = (jobs, f')"
    using assms by (auto simp: flush_flow_def split: if_splits)
  have "fl_flow_id f' = fl_flow_id f \<and> fl_epoch f' = fl_epoch f \<and> fl_kind f' = fl_kind f
    \<and> fl_buffer f' = [] \<and> map snd jobs = fl_buffer f
    \<and> fl_out_nonce f' = fl_out_nonce f + word_of_nat (length (fl_buffer f))
    \<and> (\<forall>(h, d) \<in> set jobs. h_flow_id h = fl_flow_id f \<and> h_epoch h = fl_epoch f)
    \<and> (\<forall>i < length (fl_buffer f). h_nonce (fst (jobs ! i)) = fl_out_nonce f + 1 + word_of_nat i)
    \<and> (flow_ok spec f \<longrightarrow> flow_ok spec f')"
  proof (cases "fl_buffer f = []")
    case True
    then show ?thesis using e by simp
  next
    case False
    show ?thesis using flush_bufs_sel[OF n[OF False]] by (simp add: flow_ok_def)
  qed
  then show "fl_flow_id f' = fl_flow_id f" "fl_epoch f' = fl_epoch f" "fl_kind f' = fl_kind f"
    "fl_buffer f' = []" "map snd jobs = fl_buffer f"
    "fl_out_nonce f' = fl_out_nonce f + word_of_nat (length (fl_buffer f))"
    "\<forall>(h, d) \<in> set jobs. h_flow_id h = fl_flow_id f \<and> h_epoch h = fl_epoch f"
    "\<forall>i < length (fl_buffer f). h_nonce (fst (jobs ! i)) = fl_out_nonce f + 1 + word_of_nat i"
    "flow_ok spec f \<Longrightarrow> flow_ok spec f'"
    by blast+
qed

lemma map_of_map_snd: "map_of (map (\<lambda>(k, v). (k, g v)) m) k = map_option g (map_of m k)"
  by (induction m) auto

lemma map_fst_map_snd: "map fst (map (\<lambda>(k, v). (k, g v)) m) = map fst m"
  by (induction m) auto

lemma acct_map:
  assumes "\<forall>e \<in> set fl. is_est (g e) = is_est e"
  shows "acct own b p R0 G0 (mset (map g fl)) = acct own b p R0 G0 (mset fl)"
proof -
  have "size (filter_mset is_est (mset (map g fl))) = size (filter_mset is_est (mset fl))"
    using assms by (induction fl) auto
  then show ?thesis by (simp add: acct_def resv_def estv_def)
qed

lemma on_ready_inv:
  assumes inv: "port_inv own spec st p R0 G0" and run: "on_ready spec ip st = (out, st')"
  shows "port_inv own spec st' p R0 G0 \<and> (ids_ok st \<longrightarrow> ids_ok st')"
proof (cases "vm_addr spec ip")
  case None
  then show ?thesis using run inv by (auto simp: on_ready_def clear_booting_def)
next
  case (Some dst)
  let ?g = "\<lambda>(src :: sock_addr, f). (src, snd (flush_flow f))"
  have st': "ps_flows st' = map ?g (ps_flows st)" "ps_by_flow_id st' = ps_by_flow_id st"
    "ps_identity st' = bm_clear (ps_identity st)" "ps_epoch_for st' = ps_epoch_for st"
    using run Some by (auto simp: on_ready_def)
  have sel: "fl_flow_id (snd (flush_flow f)) = fl_flow_id f" "fl_epoch (snd (flush_flow f)) = fl_epoch f"
    "fl_kind (snd (flush_flow f)) = fl_kind f" "flow_ok spec f \<Longrightarrow> flow_ok spec (snd (flush_flow f))" for f
    using flush_flow_sel(1-3,9)[OF prod.collapse[symmetric, of "flush_flow f"]] by blast+
  have ids: "flow_ids (map ?g (ps_flows st)) = flow_ids (ps_flows st)"
  proof
    fix s
    show "flow_ids (map ?g (ps_flows st)) s = flow_ids (ps_flows st) s"
      unfolding flow_ids_def map_of_map_snd[of "\<lambda>f. snd (flush_flow f)"]
      by (cases "map_of (ps_flows st) s") (simp_all add: sel)
  qed
  have wf: "hm_wf (map ?g (ps_flows st)) = hm_wf (ps_flows st)"
    unfolding hm_wf_def map_fst_map_snd[of "\<lambda>f. snd (flush_flow f)"] ..
  have "acct own (sp_base_project spec) p R0 G0 (mset (map ?g (ps_flows st)))"
    using inv by (subst acct_map) (auto simp: port_inv_def is_est_def sel)
  then have "port_inv own spec st' p R0 G0"
    using inv sel(4) by (auto simp: port_inv_def demux_ok_def st' ids wf)
  moreover have "memo_ids (bm_clear m) = Map.empty" for m
    by (auto simp: memo_ids_def bm_get_def bm_clear_def)
  then have "ids_ok st \<longrightarrow> ids_ok st'"
    using ids_rel_forget[of "flow_ids (ps_flows st)" "map_of (ps_by_flow_id st)" "map_of (ps_epoch_for st)"
        "memo_ids (ps_identity st)" Map.empty "map_of (ps_epoch_for st)"]
    by (simp add: ids_ok_def demux_ok_def st' ids wf)
  ultimately show ?thesis by simp
qed

lemma update_egress_limits_inv:
  assumes "update_egress_limits new st = (ch, st')"
  shows "port_inv own spec st' p R0 G0 = port_inv own spec st p R0 G0" and "ids_ok st' = ids_ok st"
  using assms by (auto simp: update_egress_limits_def split: if_splits)

lemma port_bind_inv:
  assumes "port_bind spec secs nanos now = Some st" and "spec_own own spec"
    and "plane_ok own p R0 G0" and "G0 \<subseteq># R0"
  shows "port_inv own spec st p R0 G0 \<and> ids_ok st"
proof -
  have "bm_wf (bm_new IDENTITY_MEMO_MAX IDENTITY_MEMO_TTL :: (sock_addr, flow_identity) bounded_ttl_map)" by simp
  moreover have "memo_ids (bm_new a b) = Map.empty" for a b
    by (auto simp: memo_ids_def bm_get_def bm_new_def)
  moreover have "flow_ids [] = Map.empty" by (auto simp: flow_ids_def)
  ultimately show ?thesis
    using assms
    by (auto simp: port_bind_def port_inv_def ids_ok_def demux_ok_def demux_rel_def ids_rel_def acct_def Let_def
        split: if_splits prod.splits)
qed

end
