(* ===== verification/L4_Port_Run.thy ===== *)
theory L4_Port_Run
  imports L4_Ingress_Inv
begin

text \<open>
  The tasks of the L4 ports as one interleaved system over the shared plane: the reach loop (with
  its asynchronous liveness resolve between \<open>reach_decide\<close> and \<open>reach_admit\<close>), the return loop, the
  sweep, the boot and wait tasks and the live limit update of \<open>crates/jkbase-proxy/src/l4_ingress.rs\<close>.
  Each rule is one critical section under the port lock; the tasks of all ports interleave freely.
  The resolver's answers, the wake results, the datagrams and the clock are unconstrained.

  Ports are added at any time and never removed (tearing a port down is not modelled).
\<close>

section \<open>Configurations and steps\<close>

record port_conf =
  pc_spec :: l4_port_spec
  pc_st :: port_state
  pc_pending :: "(sock_addr \<times> bytes \<times> flow_reservation) option"
  pc_boots :: "wake_in_flight list"
  pc_done :: "wake_in_flight list"
  pc_waits :: nat

datatype out = ToGuest bytes sock_addr | ToClient bytes sock_addr

definition reach_out :: "hmac \<Rightarrow> l4_port_spec \<Rightarrow> bytes \<Rightarrow> reach_outcome \<Rightarrow> out list" where
  "reach_out hmac spec d o' =
     (case o' of
        Forward fid ep nonce dst \<Rightarrow>
          [ToGuest (l4_seal hmac (sp_transit_secret spec) HostToAgent
              \<lparr>h_flow_id = fid, h_epoch = ep, h_nonce = nonce\<rparr> d) dst]
      | _ \<Rightarrow> [])"

definition ready_out :: "hmac \<Rightarrow> l4_port_spec \<Rightarrow> (sock_addr \<times> job list) option \<Rightarrow> out list" where
  "ready_out hmac spec r =
     (case r of None \<Rightarrow> []
      | Some (dst, jobs) \<Rightarrow> map (\<lambda>(h, d). ToGuest (l4_seal hmac (sp_transit_secret spec) HostToAgent h d) dst) jobs)"

definition reply_out :: "(sock_addr \<times> bytes) option \<Rightarrow> out list" where
  "reply_out r = (case r of None \<Rightarrow> [] | Some (src, d) \<Rightarrow> [ToClient d src])"

definition after_reach :: "sock_addr \<Rightarrow> bytes \<Rightarrow> reach_outcome \<Rightarrow> port_conf \<Rightarrow> port_conf" where
  "after_reach src d o' c =
     (case o' of
        CheckLiveness pid s r \<Rightarrow> c\<lparr>pc_pending := Some (src, d, r)\<rparr>
      | BootSpawn g pid \<Rightarrow> c\<lparr>pc_boots := g # pc_boots c\<rparr>
      | BootWait pid \<Rightarrow> c\<lparr>pc_waits := pc_waits c + 1\<rparr>
      | _ \<Rightarrow> c)"

inductive port_step :: "hmac \<Rightarrow> port_conf \<times> plane \<Rightarrow> out list \<Rightarrow> port_conf \<times> plane \<Rightarrow> bool" for hmac where
  recv: "pc_pending c = None \<Longrightarrow>
     reach_decide mi (pc_spec c) src d now (pc_st c) p = (o', st', p') \<Longrightarrow>
     port_step hmac (c, p) (reach_out hmac (pc_spec c) d o') (after_reach src d o' (c\<lparr>pc_st := st'\<rparr>), p')"
| admit: "pc_pending c = Some (src, d, r) \<Longrightarrow>
     reach_admit (pc_spec c) src d now r (sp_project_id (pc_spec c)) live (pc_st c) p = (o', st', p') \<Longrightarrow>
     port_step hmac (c, p) (reach_out hmac (pc_spec c) d o')
       (after_reach src d o' (c\<lparr>pc_st := st', pc_pending := None\<rparr>), p')"
| reply: "return_frame hmac (pc_spec c) frame now (pc_st c) p = (res, st', p') \<Longrightarrow>
     port_step hmac (c, p) (reply_out res) (c\<lparr>pc_st := st'\<rparr>, p')"
| sweep: "port_sweep (pc_spec c) now (pc_st c) p = (st', p') \<Longrightarrow>
     port_step hmac (c, p) [] (c\<lparr>pc_st := st'\<rparr>, p')"
| wake_up: "g \<in> set (pc_boots c) \<Longrightarrow> on_ready (pc_spec c) ip (pc_st c) = (r, st') \<Longrightarrow>
     port_step hmac (c, p) (ready_out hmac (pc_spec c) r)
       (c\<lparr>pc_st := st', pc_boots := remove1 g (pc_boots c), pc_done := g # pc_done c\<rparr>, pl_event WakeAdmitted p)"
| wake_fail: "g \<in> set (pc_boots c) \<Longrightarrow>
     port_step hmac (c, p) []
       (c\<lparr>pc_st := clear_booting (pc_st c), pc_boots := remove1 g (pc_boots c), pc_done := g # pc_done c\<rparr>, p)"
| release: "g \<in> set (pc_done c) \<Longrightarrow>
     port_step hmac (c, p) [] (c\<lparr>pc_done := remove1 g (pc_done c)\<rparr>, pl_drop_wake g p)"
| wait_up: "0 < pc_waits c \<Longrightarrow> on_ready (pc_spec c) ip (pc_st c) = (r, st') \<Longrightarrow>
     port_step hmac (c, p) (ready_out hmac (pc_spec c) r) (c\<lparr>pc_st := st', pc_waits := pc_waits c - 1\<rparr>, p)"
| wait_timeout: "0 < pc_waits c \<Longrightarrow>
     port_step hmac (c, p) [] (c\<lparr>pc_st := clear_booting (pc_st c), pc_waits := pc_waits c - 1\<rparr>, p)"
| limits: "update_egress_limits new (pc_st c) = (ch, st') \<Longrightarrow>
     port_step hmac (c, p) [] (c\<lparr>pc_st := st'\<rparr>, p)"

section \<open>The invariant of one port among others\<close>

definition port_res :: "port_conf \<Rightarrow> string multiset" where
  "port_res c = resv (sp_base_project (pc_spec c)) (mset (ps_flows (pc_st c)))
     + (if pc_pending c = None then {#} else {#sp_base_project (pc_spec c)#})"

definition port_est :: "port_conf \<Rightarrow> string multiset" where
  "port_est c = estv (sp_base_project (pc_spec c)) (mset (ps_flows (pc_st c)))"

definition port_boots :: "port_conf \<Rightarrow> wake_in_flight multiset" where
  "port_boots c = mset (pc_boots c) + mset (pc_done c)"

definition conf_ok :: "(string \<Rightarrow> string option) \<Rightarrow> port_conf \<Rightarrow> bool" where
  "conf_ok own c \<longleftrightarrow> spec_own own (pc_spec c) \<and> demux_ok (pc_st c) \<and> bm_wf (ps_identity (pc_st c))
     \<and> (\<forall>e \<in> set (ps_flows (pc_st c)). flow_ok (pc_spec c) (snd e))
     \<and> (\<forall>src d r. pc_pending c = Some (src, d, r) \<longrightarrow>
          r = (sp_base_project (pc_spec c), sp_tenant_id (pc_spec c)))"

definition pend_res :: "port_conf \<Rightarrow> string multiset" where
  "pend_res c = (if pc_pending c = None then {#} else {#sp_base_project (pc_spec c)#})"

lemma conf_ok_port_inv:
  "conf_ok own c \<Longrightarrow> G0 \<subseteq># R0 \<Longrightarrow> plane_ok own p (R0 + port_res c) (G0 + port_est c) \<Longrightarrow>
   port_inv own (pc_spec c) (pc_st c) p (R0 + pend_res c) G0"
  by (auto simp: conf_ok_def port_inv_def acct_def port_res_def port_est_def pend_res_def ac_simps
      intro: subset_mset.order_trans)

lemma port_inv_conf:
  assumes "port_inv own (pc_spec c) (pc_st c) p (R0 + pend_res c) G0"
    and "\<forall>src d r. pc_pending c = Some (src, d, r) \<longrightarrow> r = (sp_base_project (pc_spec c), sp_tenant_id (pc_spec c))"
  shows "conf_ok own c \<and> plane_ok own p (R0 + port_res c) (G0 + port_est c)"
  using assms by (auto simp: conf_ok_def port_inv_def acct_def port_res_def port_est_def pend_res_def ac_simps)

text \<open>
  One step of one port: the accounting of the plane stays exact for this port's new table, whatever
  the other ports hold, and so do the boots in flight.
\<close>

lemma return_frame_inv:
  assumes inv: "port_inv own spec st p R0 G0" and run: "return_frame hmac spec frame now st p = (res, st', p')"
  shows "port_inv own spec st' p' R0 G0 \<and> boots_of p' = boots_of p \<and> (ids_ok st \<longrightarrow> ids_ok st')"
proof (cases "l4_open hmac (sp_transit_secret spec) AgentToHost frame")
  case None
  then show ?thesis using run inv by (auto simp: return_frame_def)
next
  case (Some hd)
  obtain r2 st2 p2 where rd: "return_decide spec (fst hd) (snd hd) now st p = (r2, st2, p2)" by (metis prod_cases3)
  then have "st' = st2" "p' = p2" using run Some by (auto simp: return_frame_def split: option.splits prod.splits)
  then show ?thesis using return_decide_inv[OF inv rd] by simp
qed

lemma clear_booting_simps [simp]:
  "port_inv own spec (clear_booting st) p R0 G0 = port_inv own spec st p R0 G0"
  "ids_ok (clear_booting st) = ids_ok st"
  by (simp_all add: clear_booting_def)

lemma port_step_ok:
  assumes "port_step hmac s outs s'" and "s = (c, p)" and "s' = (c', p')"
    and "conf_ok own c" and "G0 \<subseteq># R0" and "plane_ok own p (R0 + port_res c) (G0 + port_est c)"
    and "boots_of p = B0 + port_boots c"
  shows "conf_ok own c' \<and> plane_ok own p' (R0 + port_res c') (G0 + port_est c') \<and> boots_of p' = B0 + port_boots c'
    \<and> pc_spec c' = pc_spec c"
proof -
  let ?b = "sp_base_project (pc_spec c)"
  have inv: "port_inv own (pc_spec c) (pc_st c) p (R0 + pend_res c) G0"
    using conf_ok_port_inv assms(4-6) by blast
  have pend: "\<forall>src d r. pc_pending c = Some (src, d, r) \<longrightarrow> r = (?b, sp_tenant_id (pc_spec c))"
    using assms(4) by (simp add: conf_ok_def)
  have ac: "acct own ?b p (R0 + pend_res c) G0 (mset (ps_flows (pc_st c)))" using inv by (simp add: port_inv_def)
  have "port_inv own (pc_spec c') (pc_st c') p' (R0 + pend_res c') G0 \<and> boots_of p' = B0 + port_boots c'
      \<and> pc_spec c' = pc_spec c
      \<and> (\<forall>src d r. pc_pending c' = Some (src, d, r) \<longrightarrow> r = (?b, sp_tenant_id (pc_spec c)))"
    using assms(1)
  proof (cases rule: port_step.cases)
    case (recv c1 mi src d now p1 o' st1 p1')
    have eq: "c1 = c" "p1 = p" "c' = after_reach src d o' (c\<lparr>pc_st := st1\<rparr>)" "p' = p1'"
      using recv(1,3) assms(2,3) by simp_all
    have "pend_res c = {#}" using recv(4) eq by (simp add: pend_res_def)
    then show ?thesis
      using reach_decide_inv[OF inv, of mi src d now o' st1 p1'] recv(4,5) eq assms(7)
      by (cases o') (auto simp: after_reach_def pend_res_def port_boots_def)
  next
    case (admit c1 src d r now live p1 o' st1 p1')
    have eq: "c1 = c" "p1 = p" "c' = after_reach src d o' (c\<lparr>pc_st := st1, pc_pending := None\<rparr>)" "p' = p1'"
      using admit(1,3) assms(2,3) by simp_all
    have r: "r = (?b, sp_tenant_id (pc_spec c))" using pend admit(4)[unfolded eq(1)] by blast
    have i2: "port_inv own (pc_spec c) (pc_st c) p (add_mset ?b R0) G0"
      using inv admit(4) eq by (simp add: pend_res_def)
    have no: "\<forall>pid s r. o' \<noteq> CheckLiveness pid s r"
      using admit(5)[symmetric] unfolding reach_admit_def reach_hit_def Let_def
      by (auto split: option.splits prod.splits if_splits boot_admit.splits)
    show ?thesis
      using reach_admit_inv[OF i2 assms(5) r, of src d now _ live o' st1 p1'] admit(5) eq no assms(7)
      by (cases o') (auto simp: after_reach_def pend_res_def port_boots_def)
  next
    case (reply c1 frame now p1 res st1 p1')
    then show ?thesis
      using return_frame_inv[OF inv, of hmac frame now res st1 p1'] assms(2,3,7) pend
      by (auto simp: pend_res_def port_boots_def)
  next
    case (sweep c1 now p1 st1 p1')
    then show ?thesis
      using port_sweep_inv[OF inv, of now st1 p1'] assms(2,3,7) pend by (auto simp: pend_res_def port_boots_def)
  next
    case (wake_up g c1 ip r st1 p1)
    then show ?thesis
      using on_ready_inv[OF inv, of ip r st1] assms(2,3,7) pend by (auto simp: pend_res_def port_boots_def)
  next
    case (wake_fail g c1 p1)
    then show ?thesis
      using inv assms(2,3,7) pend by (auto simp: pend_res_def port_boots_def)
  next
    case (release g c1 p1)
    have eq: "c1 = c" "p1 = p" "c' = c\<lparr>pc_done := remove1 g (pc_done c)\<rparr>" "p' = pl_drop_wake g p"
      using release(1,3) assms(2,3) by simp_all
    have g: "g \<in># boots_of p" using assms(7) release(4) eq by (simp add: port_boots_def)
    note D = acct_drop_wake[OF ac g]
    define X where "X = mset (remove1 g (pc_done c))"
    have "mset (pc_done c) = add_mset g X" using release(4) eq by (simp add: X_def)
    then have "boots_of p' = B0 + port_boots c'"
      using D(2) assms(7) by (simp add: eq port_boots_def X_def[symmetric] del: mset_remove1)
    moreover have "pend_res c' = pend_res c" by (simp add: eq pend_res_def)
    ultimately show ?thesis
      using port_inv_plane[OF inv D(1)] pend by (simp add: eq(3,4))
  next
    case (wait_up c1 ip r st1 p1)
    then show ?thesis
      using on_ready_inv[OF inv, of ip r st1] assms(2,3,7) pend by (auto simp: pend_res_def port_boots_def)
  next
    case (wait_timeout c1 p1)
    then show ?thesis
      using inv assms(2,3,7) pend by (auto simp: pend_res_def port_boots_def)
  next
    case (limits new c1 ch st1 p1)
    then show ?thesis
      using update_egress_limits_inv(1) inv assms(2,3,7) pend by (auto simp: pend_res_def port_boots_def)
  qed
  then show ?thesis using port_inv_conf[of own c' p' R0 G0] by metis
qed

section \<open>The system of all ports\<close>

type_synonym system = "port_conf list \<times> plane"

definition conf_init :: "l4_port_spec \<Rightarrow> port_state \<Rightarrow> port_conf" where
  "conf_init spec st =
     \<lparr>pc_spec = spec, pc_st = st, pc_pending = None, pc_boots = [], pc_done = [], pc_waits = 0\<rparr>"

inductive sys_step :: "hmac \<Rightarrow> (string \<Rightarrow> string option) \<Rightarrow> system \<Rightarrow> system \<Rightarrow> bool" for hmac own where
  port: "i < length cs \<Longrightarrow> port_step hmac (cs ! i, p) outs (c', p') \<Longrightarrow> sys_step hmac own (cs, p) (cs[i := c'], p')"
| bind: "spec_own own spec \<Longrightarrow> port_bind spec secs nanos now = Some st \<Longrightarrow>
     sys_step hmac own (cs, p) (cs @ [conf_init spec st], p)"

inductive sys_reachable ::
  "hmac \<Rightarrow> (string \<Rightarrow> string option) \<Rightarrow> l4_plane_limits \<Rightarrow> instant \<Rightarrow> system \<Rightarrow> bool" for hmac own lm t0 where
  start: "sys_reachable hmac own lm t0 ([], plane_new lm t0)"
| step: "sys_reachable hmac own lm t0 s \<Longrightarrow> sys_step hmac own s s' \<Longrightarrow> sys_reachable hmac own lm t0 s'"

definition over_ports :: "('a \<Rightarrow> 'b multiset) \<Rightarrow> 'a list \<Rightarrow> 'b multiset" where
  "over_ports f cs = sum_list (map f cs)"

definition sys_ok :: "(string \<Rightarrow> string option) \<Rightarrow> system \<Rightarrow> bool" where
  "sys_ok own s \<longleftrightarrow> (case s of (cs, p) \<Rightarrow> (\<forall>c \<in> set cs. conf_ok own c)
     \<and> plane_ok own p (over_ports port_res cs) (over_ports port_est cs) \<and> boots_of p = over_ports port_boots cs)"

lemma over_ports_split: "i < length cs \<Longrightarrow> over_ports f cs = over_ports f (take i cs @ drop (Suc i) cs) + f (cs ! i)"
  by (subst id_take_nth_drop[of i cs]) (simp_all add: over_ports_def ac_simps)

lemma over_ports_update:
  "i < length cs \<Longrightarrow> over_ports f (cs[i := c]) = over_ports f (take i cs @ drop (Suc i) cs) + f c"
  by (simp add: upd_conv_take_nth_drop over_ports_def ac_simps)

lemma over_ports_mono: "(\<And>c. f c \<subseteq># g c) \<Longrightarrow> over_ports f cs \<subseteq># over_ports g cs"
  by (induction cs) (simp_all add: over_ports_def subset_mset.add_mono)

lemma port_est_le_res: "port_est c \<subseteq># port_res c"
  using estv_le_resv[of "sp_base_project (pc_spec c)" "mset (ps_flows (pc_st c))"]
  by (auto simp: port_est_def port_res_def intro: subset_mset.order_trans mset_subset_eq_add_left)

lemma sys_step_ok: "sys_step hmac own s s' \<Longrightarrow> sys_ok own s \<Longrightarrow> sys_ok own s'"
proof (induction rule: sys_step.induct)
  case (port i cs p outs c' p')
  let ?o = "take i cs @ drop (Suc i) cs"
  have c: "conf_ok own (cs ! i)" using port by (auto simp: sys_ok_def)
  have le: "over_ports port_est ?o \<subseteq># over_ports port_res ?o" by (rule over_ports_mono) (rule port_est_le_res)
  note S = port_step_ok[OF port(2) refl refl c le, of "over_ports port_boots ?o"]
  have "conf_ok own c' \<and> plane_ok own p' (over_ports port_res ?o + port_res c') (over_ports port_est ?o + port_est c')
      \<and> boots_of p' = over_ports port_boots ?o + port_boots c'"
    using S port.prems port.hyps(1) by (simp add: sys_ok_def over_ports_split[of i cs] ac_simps)
  then show ?case
    using port.prems port.hyps(1) by (auto simp: sys_ok_def over_ports_update ac_simps dest: set_update_subset_insert[THEN subsetD])
next
  case (bind spec secs nanos now st cs p)
  have "port_inv own spec st p (over_ports port_res cs) (over_ports port_est cs)"
    using port_bind_inv[OF bind(2,1) _ over_ports_mono, of p port_res cs port_est] port_est_le_res bind.prems
    by (simp add: sys_ok_def)
  moreover have "ps_flows st = []" using bind(2) by (auto simp: port_bind_def Let_def split: if_splits prod.splits)
  ultimately have "conf_ok own (conf_init spec st)" "port_res (conf_init spec st) = {#}"
    "port_est (conf_init spec st) = {#}" "port_boots (conf_init spec st) = {#}"
    by (auto simp: conf_ok_def port_inv_def conf_init_def port_res_def port_est_def port_boots_def)
  then show ?case using bind.prems by (auto simp: sys_ok_def over_ports_def)
qed

lemma sys_reachable_ok: "sys_reachable hmac own lm t0 s \<Longrightarrow> sys_ok own s"
proof (induction rule: sys_reachable.induct)
  case start
  then show ?case
    using plane_ok_new[of own lm t0]
    by (simp add: sys_ok_def over_ports_def) (simp add: boots_of_def plane_new_def wake_gate_new_def)
qed (rule sys_step_ok)

section \<open>Properties of the running system\<close>

definition port_slots :: "string \<Rightarrow> port_conf \<Rightarrow> nat" where
  "port_slots b c =
     (if sp_base_project (pc_spec c) = b
      then length (ps_flows (pc_st c)) + (if pc_pending c = None then 0 else 1) else 0)"

definition port_warm :: "string \<Rightarrow> port_conf \<Rightarrow> nat" where
  "port_warm b c =
     (if sp_base_project (pc_spec c) = b
      then length (filter (\<lambda>(_, f). fl_kind f = Established) (ps_flows (pc_st c))) else 0)"

lemma count_over_ports: "count (over_ports f cs) b = sum_list (map (\<lambda>c. count (f c) b) cs)"
  by (induction cs) (simp_all add: over_ports_def)

lemma count_port_res: "count (port_res c) b = port_slots b c"
  by (simp add: port_res_def resv_def port_slots_def)

lemma count_port_est: "count (port_est c) b = port_warm b c"
proof -
  have "size (filter_mset is_est (mset fl)) = length (filter (\<lambda>(_, f). fl_kind f = Established) fl)" for fl
    by (induction fl) (auto simp: is_est_def)
  then show ?thesis by (simp add: port_est_def estv_def port_warm_def)
qed

lemma over_ports_empty: "\<forall>c \<in> set cs. f c = {#} \<Longrightarrow> over_ports f cs = {#}"
  by (induction cs) (simp_all add: over_ports_def)

text \<open>
  C28. The plane's accounting is exact for the whole system, in every reachable state of any number of
  ports whose tasks interleave freely: a base's slot count on the plane is the number of flows its
  ports hold (plus the datagrams whose liveness resolve is under way), its connection count is the
  number of its established flows, and the boots in flight are exactly the guards that boot tasks
  hold. Every cap of the limits holds, and once all tables are empty nothing is left on the plane.
\<close>

theorem system_accounting:
  assumes "sys_reachable hmac own lm t0 (cs, p)"
  shows "base_total (pl_flow p) b = sum_list (map (port_slots b) cs)
    \<and> conn_count (pl_flow p) b = sum_list (map (port_warm b) cs)
    \<and> mset (wk_inflight (pl_wake p)) = sum_list (map (\<lambda>c. mset (pc_boots c @ pc_done c)) cs)
    \<and> fs_global_total (pl_flow p) \<le> flow_global_max (pl_limits p)
    \<and> base_total (pl_flow p) b \<le> flow_per_project_max (pl_limits p)
    \<and> ((\<forall>c \<in> set cs. ps_flows (pc_st c) = [] \<and> pc_pending c = None) \<longrightarrow> pl_flow p = flow_state_default)"
proof -
  let ?R = "over_ports port_res cs" and ?G = "over_ports port_est cs"
  have ok: "plane_ok own p ?R ?G" and bo: "boots_of p = over_ports port_boots cs"
    using sys_reachable_ok[OF assms] by (simp_all add: sys_ok_def)
  have rel: "flows_rel own (pl_flow p) ?R ?G" and caps: "flow_caps (pl_limits p) own ?R ?G"
    using ok by (simp_all add: plane_ok_def)
  have bt: "base_total (pl_flow p) b = sum_list (map (port_slots b) cs)"
    using base_total_eq[OF rel, of b] by (simp add: count_over_ports count_port_res)
  moreover have "conn_count (pl_flow p) b = sum_list (map (port_warm b) cs)"
    using conn_count_eq[OF rel, of b] by (simp add: count_over_ports count_port_est)
  moreover have "mset (wk_inflight (pl_wake p)) = sum_list (map (\<lambda>c. mset (pc_boots c @ pc_done c)) cs)"
    using bo by (simp add: boots_of_def over_ports_def port_boots_def[abs_def])
  moreover have "fs_global_total (pl_flow p) \<le> flow_global_max (pl_limits p)"
    using rel caps by (simp add: flows_rel_def flow_caps_def)
  moreover have "base_total (pl_flow p) b \<le> flow_per_project_max (pl_limits p)"
    using base_total_eq[OF rel, of b] caps by (simp add: flow_caps_def)
  moreover have "pl_flow p = flow_state_default"
    if "\<forall>c \<in> set cs. ps_flows (pc_st c) = [] \<and> pc_pending c = None"
  proof -
    have "?R = {#}" by (rule over_ports_empty) (use that in \<open>simp add: port_res_def\<close>)
    then show ?thesis using flows_rel_empty[of own "pl_flow p" ?G] rel by simp
  qed
  ultimately show ?thesis by blast
qed

text \<open>A system of one port that has just received its first datagram.\<close>

definition demo_spec :: l4_port_spec where
  "demo_spec =
     \<lparr>sp_project_id = ''proj'', sp_base_project = ''base'', sp_tenant_id = Some ''t'', sp_name = ''game'',
      sp_proto = ''udp'', sp_external_port = 4000, sp_agent_udp_port = 9000, sp_guest_port = 7777,
      sp_idle_timeout = from_secs 30, sp_amp_k = 0, sp_transit_secret = [1, 2, 3],
      sp_egress = default_port_egress_limits default_limits\<rparr>"

definition demo_own :: "string \<Rightarrow> string option" where
  "demo_own b = Some ''t''"

definition demo_st :: port_state where
  "demo_st = the (port_bind demo_spec 1000 77 0)"

definition demo_src :: sock_addr where
  "demo_src = (V4 1 2 3 4, 5555)"

lemma demo_bind: "port_bind demo_spec 1000 77 0 = Some demo_st"
  by (simp add: demo_st_def port_bind_def demo_spec_def process_epoch_seed_def)

lemma demo_st_flows [simp]: "ps_flows demo_st = []" "ps_by_flow_id demo_st = []" "ps_booting demo_st = False"
    "ps_vm_dst demo_st = None"
  by (simp_all add: demo_st_def port_bind_def demo_spec_def process_epoch_seed_def)

lemma demo_reserve:
  "fst (pl_try_reserve_flow None ''base'' (Some ''t'') 0 (plane_new default_limits 0)) = Inr (''base'', Some ''t'')"
  by (simp add: pl_try_reserve_flow_def mem_available_mib_def split_beta Let_def read_mem_available_mib_def)
    (simp add: plane_new_def Let_def try_reserve_flow_def flow_state_default_def default_limits_def ram_floor_ok_def
      wake_gate_new_def base_total_def tenant_total_of_def read_mem_available_mib_def)

lemma demo_decide:
  "\<exists>p'. reach_decide None demo_spec demo_src [9] 0 demo_st (plane_new default_limits 0)
     = (CheckLiveness ''proj'' demo_src (''base'', Some ''t''), demo_st, p')"
proof -
  obtain p' where "pl_try_reserve_flow None ''base'' (Some ''t'') 0 (plane_new default_limits 0) = (Inr (''base'', Some ''t''), p')"
    using demo_reserve by (metis prod.collapse)
  then show ?thesis by (simp add: reach_decide_def) (simp add: demo_spec_def)
qed

lemma demo_reachable:
  "\<exists>c p. sys_reachable hmac demo_own default_limits 0 ([c], p)
     \<and> pc_spec c = demo_spec \<and> pc_st c = demo_st \<and> pc_pending c = Some (demo_src, [9], (''base'', Some ''t''))"
proof -
  let ?p = "plane_new default_limits 0" and ?c = "conf_init demo_spec demo_st"
  obtain p' where d: "reach_decide None demo_spec demo_src [9] 0 demo_st ?p
      = (CheckLiveness ''proj'' demo_src (''base'', Some ''t''), demo_st, p')"
    using demo_decide by blast
  have "spec_own demo_own demo_spec" by (simp add: spec_own_def demo_own_def demo_spec_def)
  then have "sys_step hmac demo_own ([], ?p) ([] @ [?c], ?p)" by (rule sys_step.bind[OF _ demo_bind])
  then have r1: "sys_reachable hmac demo_own default_limits 0 ([?c], ?p)"
    using sys_reachable.step[OF sys_reachable.start] by simp
  let ?o = "CheckLiveness ''proj'' demo_src (''base'', Some ''t'')"
  let ?c' = "after_reach demo_src [9] ?o (?c\<lparr>pc_st := demo_st\<rparr>)"
  have ps: "port_step hmac (?c, ?p) (reach_out hmac (pc_spec ?c) [9] ?o) (?c', p')"
    by (rule port_step.recv[where mi = None and now = 0]) (simp_all add: conf_init_def d)
  have "sys_step hmac demo_own ([?c], ?p) ([?c][0 := ?c'], p')"
    by (rule sys_step.port) (use ps in simp_all)
  then have "sys_reachable hmac demo_own default_limits 0 ([?c'], p')"
    using sys_reachable.step[OF r1] by simp
  moreover have "pc_spec ?c' = demo_spec" "pc_st ?c' = demo_st" "pc_pending ?c' = Some (demo_src, [9], (''base'', Some ''t''))"
    by (simp_all add: after_reach_def conf_init_def)
  ultimately show ?thesis by blast
qed

theorem system_accounting_witness:
  "\<exists>cs p. sys_reachable (\<lambda>_ _. 0) demo_own default_limits 0 (cs, p)
     \<and> base_total (pl_flow p) ''base'' = 1 \<and> conn_count (pl_flow p) ''base'' = 0"
proof -
  obtain c p where r: "sys_reachable (\<lambda>_ _. 0) demo_own default_limits 0 ([c], p)"
    and c: "pc_spec c = demo_spec" "pc_st c = demo_st" "pc_pending c = Some (demo_src, [9], (''base'', Some ''t''))"
    using demo_reachable by blast
  have "port_slots ''base'' c = 1" "port_warm ''base'' c = 0"
    by (simp_all add: port_slots_def port_warm_def c) (simp_all add: demo_spec_def)
  then have "base_total (pl_flow p) ''base'' = 1 \<and> conn_count (pl_flow p) ''base'' = 0"
    using system_accounting[OF r, of "''base''"] by simp
  then show ?thesis using r by blast
qed

end
