(* ===== verification/L4_Port_Props.thy ===== *)
theory L4_Port_Props
  imports L4_Port_Run
begin

text \<open>
  What a client of an L4 port can rely on: the reply index never desyncs, flow ids stay unique, no
  reply is admitted twice, an evicted client gets its identity back (also across a hand-off to a
  successor process), and first packets buffered during a boot are delivered in order. Two behaviours
  of the sources that contradict their comments are stated and proved at the end.
\<close>

section \<open>The index and the tables\<close>

text \<open>
  In every reachable state the reply index points only at live flows with that very id, so the
  "desync" branch of \<open>return_decide\<close> is never taken; every flow's boot buffer is within
  \<open>REPLAY_MAX_PKTS\<close> and \<open>REPLAY_MAX_BYTES\<close>; and a flow pins its project warm (holds an established
  guard) exactly when it has been promoted.
\<close>

theorem demux_never_desyncs:
  assumes "sys_reachable hmac own lm t0 (cs, p)" and "c \<in> set cs"
  shows "(map_of (ps_by_flow_id (pc_st c)) fid = Some src \<longrightarrow>
      (\<exists>f. map_of (ps_flows (pc_st c)) src = Some f \<and> fl_flow_id f = fid))
    \<and> ((src', f') \<in> set (ps_flows (pc_st c)) \<longrightarrow>
      length (fl_buffer f') \<le> REPLAY_MAX_PKTS \<and> sum_list (map length (fl_buffer f')) \<le> REPLAY_MAX_BYTES
      \<and> (fl_guard f' \<noteq> None) = (fl_kind f' = Established))"
proof -
  have c: "conf_ok own c" using sys_reachable_ok[OF assms(1)] assms(2) by (simp add: sys_ok_def)
  then have "demux_ok (pc_st c)" by (simp add: conf_ok_def)
  moreover have "flow_ok (pc_spec c) f'" if "(src', f') \<in> set (ps_flows (pc_st c))"
    using c that by (force simp: conf_ok_def)
  ultimately show ?thesis
    using demux_ok_lookup[of "pc_st c" fid src] by (auto simp: flow_ok_def)
qed

theorem demux_never_desyncs_witness:
  "\<exists>c p. sys_reachable (\<lambda>_ _. 0) demo_own default_limits 0 ([c], p)
     \<and> (map_of (ps_by_flow_id (pc_st c)) 7 = Some demo_src \<longrightarrow>
          (\<exists>f. map_of (ps_flows (pc_st c)) demo_src = Some f \<and> fl_flow_id f = 7))"
proof -
  obtain c p where r: "sys_reachable (\<lambda>_ _. 0) demo_own default_limits 0 ([c], p)"
    using demo_reachable by blast
  then show ?thesis using demux_never_desyncs[OF r, of c 7 demo_src] by auto
qed

text \<open>
  Every step keeps the ids of a port unique, given that an admission finds a free id within its
  bounded probe.
\<close>

lemma port_step_ids:
  assumes "port_step hmac s outs s'" and "s = (c, p)" and "s' = (c', p')"
    and inv: "port_inv own (pc_spec c) (pc_st c) p (R0 + pend_res c) G0" and sub: "G0 \<subseteq># R0"
    and pend: "\<forall>src d r. pc_pending c = Some (src, d, r) \<longrightarrow> r = (sp_base_project (pc_spec c), sp_tenant_id (pc_spec c))"
    and "ids_ok (pc_st c)" and "pc_pending c \<noteq> None \<longrightarrow> probe_ok (pc_st c)"
  shows "ids_ok (pc_st c')"
  using assms(1)
proof (cases rule: port_step.cases)
  case (recv c1 mi src d now p1 o' st1 p1')
  have eq: "c1 = c" "p1 = p" "c' = after_reach src d o' (c\<lparr>pc_st := st1\<rparr>)"
    using recv(1,3) assms(2,3) by simp_all
  then have "pc_st c' = st1" by (simp add: after_reach_def split: reach_outcome.splits)
  then show ?thesis using reach_decide_inv[OF inv, of mi src d now o' st1 p1'] recv(5) eq assms(7) by simp
next
  case (admit c1 src d r now live p1 o' st1 p1')
  have eq: "c1 = c" "p1 = p" "c' = after_reach src d o' (c\<lparr>pc_st := st1, pc_pending := None\<rparr>)"
    using admit(1,3) assms(2,3) by simp_all
  have r: "r = (sp_base_project (pc_spec c), sp_tenant_id (pc_spec c))" using pend admit(4)[unfolded eq(1)] by blast
  have i2: "port_inv own (pc_spec c) (pc_st c) p (add_mset (sp_base_project (pc_spec c)) R0) G0"
    using inv admit(4) eq by (simp add: pend_res_def)
  have "pc_st c' = st1" by (simp add: eq after_reach_def split: reach_outcome.splits)
  then show ?thesis
    using reach_admit_inv[OF i2 sub r, of src d now _ live o' st1 p1'] admit(4,5) eq assms(7,8) by simp
next
  case (reply c1 frame now p1 res st1 p1')
  then show ?thesis using return_frame_inv[OF inv, of hmac frame now res st1 p1'] assms(2,3,7) by simp
next
  case (sweep c1 now p1 st1 p1')
  then show ?thesis using port_sweep_inv[OF inv, of now st1 p1'] assms(2,3,7) by simp
next
  case (wake_up g c1 ip r st1 p1)
  then show ?thesis using on_ready_inv[OF inv, of ip r st1] assms(2,3,7) by simp
next
  case (wait_up c1 ip r st1 p1)
  then show ?thesis using on_ready_inv[OF inv, of ip r st1] assms(2,3,7) by simp
next
  case (limits new c1 ch st1 p1)
  then show ?thesis using update_egress_limits_inv(2) assms(2,3,7) by simp
qed (use assms(2,3,7) in simp_all)

text \<open>
  Flow ids stay unique. From a reachable state in which a port's ids are in order, every step of
  that port, except an admission whose nine candidate ids are all taken, leaves them in order: no
  two clients share an id, the index finds every live flow, and the id a client would resume is not
  the id of anyone's live flow.
\<close>

theorem flow_ids_stay_unique:
  assumes "sys_reachable hmac own lm t0 (cs, p)" and "i < length cs"
    and "port_step hmac (cs ! i, p) outs (c', p')"
    and "ids_ok (pc_st (cs ! i))" and "pc_pending (cs ! i) \<noteq> None \<longrightarrow> probe_ok (pc_st (cs ! i))"
  shows "ids_ok (pc_st c')
    \<and> (map_of (ps_flows (pc_st c')) src = Some f \<longrightarrow> map_of (ps_by_flow_id (pc_st c')) (fl_flow_id f) = Some src)
    \<and> (map_of (ps_flows (pc_st c')) src = Some f \<and> map_of (ps_flows (pc_st c')) src' = Some f'
        \<and> fl_flow_id f = fl_flow_id f' \<longrightarrow> src = src')
    \<and> (bm_get (ps_identity (pc_st c')) src' = Some idn \<and> map_of (ps_flows (pc_st c')) src = Some f
        \<longrightarrow> fi_flow_id idn \<noteq> fl_flow_id f)"
proof -
  let ?c = "cs ! i" and ?o = "take i cs @ drop (Suc i) cs"
  have s: "sys_ok own (cs, p)" by (rule sys_reachable_ok[OF assms(1)])
  have c: "conf_ok own ?c" using s assms(2) by (auto simp: sys_ok_def)
  have le: "over_ports port_est ?o \<subseteq># over_ports port_res ?o" by (rule over_ports_mono) (rule port_est_le_res)
  have inv: "port_inv own (pc_spec ?c) (pc_st ?c) p (over_ports port_res ?o + pend_res ?c) (over_ports port_est ?o)"
    using conf_ok_port_inv[OF c le] s assms(2) by (simp add: sys_ok_def over_ports_split)
  have pend: "\<forall>src d r. pc_pending ?c = Some (src, d, r) \<longrightarrow> r = (sp_base_project (pc_spec ?c), sp_tenant_id (pc_spec ?c))"
    using c by (simp add: conf_ok_def)
  have ok: "ids_ok (pc_st c')" by (rule port_step_ids[OF assms(3) refl refl inv le pend assms(4,5)])
  have L: "map_of (ps_flows (pc_st c')) s = Some g \<Longrightarrow> map_of (ps_by_flow_id (pc_st c')) (fl_flow_id g) = Some s" for s g
    using ids_ok_lookup[OF ok] by blast
  have M: "bm_get (ps_identity (pc_st c')) s = Some j \<Longrightarrow> map_of (ps_by_flow_id (pc_st c')) (fi_flow_id j) = None" for s j
    using ids_relD(4)[of "flow_ids (ps_flows (pc_st c'))" "map_of (ps_by_flow_id (pc_st c'))" "map_of (ps_epoch_for (pc_st c'))"
        "memo_ids (ps_identity (pc_st c'))" s "fi_flow_id j"] ok
    by (simp add: ids_ok_def memo_ids_def)
  show ?thesis
    using ok L[of src f] L[of src' f'] M[of src' idn] by auto
qed

lemma demo_st_ids: "ids_ok demo_st" and demo_st_probe: "probe_ok demo_st"
proof -
  show "ids_ok demo_st"
    using port_bind_inv[OF demo_bind, of demo_own "plane_new default_limits 0" "{#}" "{#}"] plane_ok_new
    by (simp add: spec_own_def demo_own_def demo_spec_def)
  have "\<not> id_in_use demo_st (ps_next_flow_id demo_st + word_of_nat 0)"
    by (simp add: id_in_use_def demo_st_def port_bind_def demo_spec_def process_epoch_seed_def bm_iter_def bm_new_def)
  then show "probe_ok demo_st" unfolding probe_ok_def by blast
qed

theorem flow_ids_stay_unique_witness:
  "\<exists>c p c' p'. sys_reachable (\<lambda>_ _. 0) demo_own default_limits 0 ([c], p)
     \<and> port_step (\<lambda>_ _. 0) (c, p) [] (c', p') \<and> ids_ok (pc_st c')"
proof -
  obtain c p where r: "sys_reachable (\<lambda>_ _. 0) demo_own default_limits 0 ([c], p)"
    and c: "pc_st c = demo_st" using demo_reachable by blast
  obtain st' p' where sw: "port_sweep (pc_spec c) 5 (pc_st c) p = (st', p')" by fastforce
  have st: "port_step (\<lambda>_ _. 0) (c, p) [] (c\<lparr>pc_st := st'\<rparr>, p')" by (rule port_step.sweep[OF sw])
  have "ids_ok st'"
    using flow_ids_stay_unique[OF r, of 0 "[]" "c\<lparr>pc_st := st'\<rparr>" p'] st demo_st_ids demo_st_probe c by simp
  then have "ids_ok (pc_st (c\<lparr>pc_st := st'\<rparr>))" by simp
  then show ?thesis using r st by blast
qed

section \<open>Replies\<close>

text \<open>
  No reply is admitted twice, and none out of turn. When the return path admits a reply, the
  project is not under the kill-switch, the header names a live flow of that client in its current
  epoch, and the nonce is above the flow's high-water mark, which becomes the nonce: whatever
  happens to the plane, a frame of that flow and epoch with that nonce or a lower one is refused from
  then on.
\<close>

theorem reply_admitted_once:
  assumes "demux_ok st" and "return_decide spec hdr d now st p = (Some src, st', p')"
  shows "\<not> is_reflection_suspected (pl_activity p) (sp_base_project spec)
    \<and> (\<exists>f f'. map_of (ps_flows st) src = Some f \<and> fl_flow_id f = h_flow_id hdr \<and> fl_epoch f = h_epoch hdr
        \<and> fl_in_nonce_hw f < h_nonce hdr
        \<and> map_of (ps_flows st') src = Some f' \<and> fl_in_nonce_hw f' = h_nonce hdr)
    \<and> (h_flow_id hdr' = h_flow_id hdr \<and> h_nonce hdr' \<le> h_nonce hdr \<longrightarrow>
        fst (return_decide spec hdr' d' later st' p'') = None)"
  using assms(2)
proof (cases rule: return_decide_cases)
  case (heard s f f' m c0)
  have s: "s = src" using heard(10) by simp
  obtain g where g: "map_of (ps_flows st) src = Some g" "fl_flow_id g = h_flow_id hdr"
    using demux_ok_lookup[OF assms(1)] heard(1) s by blast
  have st': "map_of (ps_flows st') src = Some f'" "map_of (ps_by_flow_id st') (h_flow_id hdr) = Some src"
    using heard(1,6) s by simp_all
  have "fst (return_decide spec hdr' d' later st' p'') = None"
    if "h_flow_id hdr' = h_flow_id hdr" "h_nonce hdr' \<le> h_nonce hdr"
    using that st' heard(5) by (simp add: return_decide_def)
  then show ?thesis using heard g st' s by auto
qed simp_all

definition demo_flow :: flow where
  "demo_flow = flow_provisional 7 1000 (''base'', Some ''t'') 0"

definition demo_live :: port_state where
  "demo_live = demo_st\<lparr>ps_flows := [(demo_src, demo_flow)], ps_by_flow_id := [(7, demo_src)]\<rparr>"

definition demo_hdr :: "u64 \<Rightarrow> l4_transit_header" where
  "demo_hdr n = \<lparr>h_flow_id = 7, h_epoch = 1000, h_nonce = n\<rparr>"

lemma egress_controls_admits:
  assumes "sp_amp_k spec = 0"
    and "kb_check (real (per_source_bps (ps_egress st))) (real (per_source_burst (ps_egress st))) (fst src)
           (real n) now (ps_per_source st) = (Some b, m)"
    and "pl_try_egress_aggregate (sp_base_project spec) (fst src) n (ps_egress st) now p = (Inr u, p2)"
  shows "fst (egress_controls spec src n now f st p) = Some src"
  using assms by (simp add: egress_controls_def shape_egress_def Let_def split: prod.splits)

lemma demo_source_bucket:
  "\<exists>b m. kb_check (real (per_source_bps (ps_egress demo_st))) (real (per_source_burst (ps_egress demo_st))) (V4 1 2 3 4)
     (real 2) 5 (ps_per_source demo_st) = (Some b, m)"
  by (simp add: kb_check_def demo_st_def port_bind_def demo_spec_def process_epoch_seed_def bm_get_or_insert_with_def
      bm_new_def PORT_SOURCE_MAP_MAX_def tb_defs default_port_egress_limits_def default_limits_def Let_def as_secs_f64_def)

lemma demo_aggregate:
  "\<exists>p2. pl_try_egress_aggregate ''base'' (V4 1 2 3 4) 2 (ps_egress demo_st) 5 (plane_new default_limits 0) = (Inr (), p2)"
proof -
  have "fst (try_egress_aggregate default_limits ''base'' (V4 1 2 3 4) 2 (default_port_egress_limits default_limits) 5
      (egress_new default_limits 0)) = Inr ()"
    by (simp add: try_egress_aggregate_def egress_new_def default_limits_def
        default_port_egress_limits_def kb_check_def project_check_def bm_get_or_insert_with_def
        bm_new_def tb_defs PER_PROJECT_MAP_MAX_def Let_def as_secs_f64_def)
  then obtain eg where "try_egress_aggregate default_limits ''base'' (V4 1 2 3 4) 2 (default_port_egress_limits default_limits) 5
      (egress_new default_limits 0) = (Inr (), eg)" by (metis prod.collapse)
  moreover have "ps_egress demo_st = default_port_egress_limits default_limits"
    by (simp add: demo_st_def port_bind_def demo_spec_def process_epoch_seed_def)
  ultimately show ?thesis by (simp add: pl_try_egress_aggregate_def plane_new_def)
qed

lemma demo_reply_admitted:
  "fst (return_decide demo_spec (demo_hdr 3) [1, 2] 5 demo_live (plane_new default_limits 0)) = Some demo_src"
proof -
  let ?f = "flow_heard 3 5 demo_flow" and ?p = "plane_new default_limits 0"
  let ?st = "demo_live\<lparr>ps_flows := hupd demo_src ?f (ps_flows demo_live)\<rparr>"
  obtain b m where kb: "kb_check (real (per_source_bps (ps_egress demo_st))) (real (per_source_burst (ps_egress demo_st)))
      (V4 1 2 3 4) (real 2) 5 (ps_per_source demo_st) = (Some b, m)" using demo_source_bucket by blast
  obtain p2 where ag: "pl_try_egress_aggregate ''base'' (V4 1 2 3 4) 2 (ps_egress demo_st) 5 ?p = (Inr (), p2)"
    using demo_aggregate by blast
  have "fst (egress_controls demo_spec demo_src 2 5 ?f ?st ?p) = Some demo_src"
    by (rule egress_controls_admits)
      (use kb ag in \<open>simp_all add: demo_live_def demo_src_def\<close>, simp_all add: demo_spec_def)
  moreover have "return_decide demo_spec (demo_hdr 3) [1, 2] 5 demo_live ?p = egress_controls demo_spec demo_src 2 5 ?f ?st ?p"
  proof -
    have n: "length [1 :: u8, 2] = 2" by simp
    have "\<not> is_reflection_suspected (pl_activity ?p) (sp_base_project demo_spec)"
      by (simp add: is_reflection_suspected_def plane_new_def activity_new_def)
    then show ?thesis
      unfolding return_decide_def n
      by (simp add: demo_live_def demo_hdr_def demo_flow_def flow_provisional_def Let_def)
  qed
  ultimately show ?thesis by simp
qed

theorem reply_admitted_once_witness:
  "\<exists>st' p'. return_decide demo_spec (demo_hdr 3) [1, 2] 5 demo_live (plane_new default_limits 0) = (Some demo_src, st', p')
     \<and> fst (return_decide demo_spec (demo_hdr 3) [1, 2] 6 st' p') = None
     \<and> fst (return_decide demo_spec (demo_hdr 2) [1, 2] 6 st' p') = None"
proof -
  obtain st' p' where r: "return_decide demo_spec (demo_hdr 3) [1, 2] 5 demo_live (plane_new default_limits 0) = (Some demo_src, st', p')"
    using demo_reply_admitted by (metis prod.collapse)
  have d: "demux_ok demo_live"
    by (simp add: demux_ok_def demo_live_def hm_wf_def)
      (simp add: demux_rel_def flow_ids_def demo_flow_def flow_provisional_def)
  have "fst (return_decide demo_spec (demo_hdr k) [1, 2] 6 st' p') = None" if "k \<le> 3" for k
    using reply_admitted_once[OF d r, of "demo_hdr k" "[1, 2]" 6 p'] that by (simp add: demo_hdr_def)
  then show ?thesis using r by simp
qed

section \<open>Resuming an identity\<close>

definition remember_all ::
  "instant \<Rightarrow> (sock_addr \<times> flow_identity) list \<Rightarrow> (sock_addr, flow_identity) bounded_ttl_map
   \<Rightarrow> (sock_addr, flow_identity) bounded_ttl_map" where
  "remember_all now es m = fold (\<lambda>e. remember (fst e) now (snd e)) es m"

lemma remember_room:
  assumes "bm_wf m" and "length (bm_map m) < bm_max m"
  shows "map_of (bm_map (remember s now i m)) s = Some (i, now)"
    and "s' \<noteq> s \<Longrightarrow> map_of (bm_map (remember s now i m)) s' = map_of (bm_map m) s'"
    and "length (bm_map (remember s now i m)) \<le> Suc (length (bm_map m))"
    and "bm_max (remember s now i m) = bm_max m" and "bm_ttl (remember s now i m) = bm_ttl m"
proof -
  have e: "remember s now i m = m\<lparr>bm_map := hupd s (i, now) (bm_map m)\<rparr>"
    using assms(2) by (simp add: remember_def bm_get_or_insert_with_def Let_def bm_put_def hupd_hupd split: option.splits)
  show "map_of (bm_map (remember s now i m)) s = Some (i, now)"
    "s' \<noteq> s \<Longrightarrow> map_of (bm_map (remember s now i m)) s' = map_of (bm_map m) s'"
    "length (bm_map (remember s now i m)) \<le> Suc (length (bm_map m))"
    "bm_max (remember s now i m) = bm_max m" "bm_ttl (remember s now i m) = bm_ttl m"
    by (simp_all add: e length_hupd split: option.splits)
qed

lemma remember_all_other:
  assumes "bm_wf m" and "length (bm_map m) + length es \<le> bm_max m" and "s \<notin> fst ` set es"
  shows "map_of (bm_map (remember_all now es m)) s = map_of (bm_map m) s \<and> bm_ttl (remember_all now es m) = bm_ttl m"
  using assms
proof (induction es arbitrary: m)
  case (Cons e es)
  note R = remember_room[OF Cons.prems(1), where s = "fst e" and now = now and i = "snd e"]
  have "length (bm_map (remember (fst e) now (snd e) m)) + length es \<le> bm_max (remember (fst e) now (snd e) m)"
    using R(3,4) Cons.prems(2) by simp
  then show ?case
    using Cons.IH[of "remember (fst e) now (snd e) m"] R(2)[where s' = s] R(5) Cons.prems by (simp add: remember_all_def)
qed (simp add: remember_all_def)

lemma remember_all_get:
  assumes "bm_wf m" and "length (bm_map m) + length es \<le> bm_max m" and "distinct (map fst es)" and "(s, i) \<in> set es"
  shows "map_of (bm_map (remember_all now es m)) s = Some (i, now) \<and> bm_ttl (remember_all now es m) = bm_ttl m"
  using assms
proof (induction es arbitrary: m)
  case (Cons e es)
  let ?m = "remember (fst e) now (snd e) m"
  note R = remember_room[OF Cons.prems(1), where s = "fst e" and now = now and i = "snd e"]
  have wf: "bm_wf ?m" and room: "length (bm_map ?m) + length es \<le> bm_max ?m"
    using R(3,4) Cons.prems(1,2) by simp_all
  show ?case
  proof (cases "e = (s, i)")
    case True
    then have "s \<notin> fst ` set es" using Cons.prems(3) by simp
    then show ?thesis
      using remember_all_other[OF wf room, of s now] R(1,5) True Cons.prems(2) by (simp add: remember_all_def)
  next
    case False
    then show ?thesis
      using Cons.IH[OF wf room] Cons.prems(2-4) R(5) by (simp add: remember_all_def)
  qed
qed simp

lemma evict_fold_memo:
  "fst (snd (fold (evict_flow now) es (rem, m, p))) = remember_all now (map (\<lambda>e. (fst e, identity_of (snd e))) es) m"
  by (induction es arbitrary: rem m p) (simp_all add: evict_flow_eq remember_all_def)

text \<open>The warm path of \<open>reach_admit\<close> for a client with a remembered identity.\<close>

lemma reach_admit_resumes:
  assumes "map_of (ps_flows st) src = None" and "map_of (bm_map (ps_identity st)) src = Some (i, t1)"
    and "t2 - t1 < bm_ttl (ps_identity st)" and "vm_addr spec ip = Some dst"
  shows "fst (reach_admit spec src d t2 r pid (Some ip) st p)
    = Forward (fi_flow_id i) (fi_epoch i) (fi_out_nonce i + 1) dst"
  using assms
  by (simp add: reach_admit_def admit_identity_def bm_get_fresh_def flow_first_def flow_provisional_def Let_def
      split: prod.splits)

text \<open>
  An evicted client gets its tuple back. If the sweep at time \<open>t1\<close> evicts the flow of a client and
  the memo of identities has room, then the client's next datagram, arriving within the memo's time
  to live while the machine is up, is forwarded under the same flow id and epoch, with the next nonce,
  so the agent takes it for the flow it already has.
\<close>

theorem evicted_client_resumes:
  assumes "hm_wf (ps_flows st)" and "bm_wf (ps_identity st)"
    and "length (bm_map (ps_identity st)) + length (ps_flows st) \<le> bm_max (ps_identity st)"
    and f: "map_of (ps_flows st) src = Some f" and "\<not> flow_keeps spec t1 f"
    and sw: "port_sweep spec t1 st p = (st1, p1)"
    and "t2 - t1 < bm_ttl (ps_identity st)" and "vm_addr spec ip = Some dst"
  shows "map_of (ps_flows st1) src = None
    \<and> fst (reach_admit spec src d t2 r pid (Some ip) st1 p2)
      = Forward (fl_flow_id f) (fl_epoch f) (fl_out_nonce f + 1) dst"
proof -
  let ?es = "gone_flows spec t1 (ps_flows st)" and ?m = "bm_sweep t1 (ps_identity st)"
  let ?ids = "map (\<lambda>e. (fst e, identity_of (snd e))) ?es"
  have st1: "ps_flows st1 = hretain (\<lambda>_ f. flow_keeps spec t1 f) (ps_flows st)"
    "ps_identity st1 = remember_all t1 ?ids ?m"
    using sw evict_fold_memo[of t1 ?es "[]" ?m p]
    by (auto simp: port_sweep_def gone_flows_def[symmetric] Let_def split: prod.splits)
  have "length ?es \<le> length (ps_flows st)" by (simp add: gone_flows_def)
  moreover have "length (bm_map ?m) \<le> length (bm_map (ps_identity st))"
    by (simp add: bm_sweep_def length_bm_evict_le)
  ultimately have room: "length (bm_map ?m) + length ?ids \<le> bm_max ?m" using assms(3) by simp
  have dist: "distinct (map fst ?ids)"
    using assms(1) by (simp add: gone_flows_def hm_wf_def distinct_map_filter comp_def)
  have mem: "(src, identity_of f) \<in> set ?ids"
    using map_of_SomeD[OF f] assms(5) by (force simp: gone_flows_def)
  have gone: "map_of (ps_flows st1) src = None"
    using map_of_hretain[OF assms(1), of "\<lambda>_ f. flow_keeps spec t1 f" src] f assms(5) by (simp add: st1)
  have e: "map_of (bm_map (ps_identity st1)) src = Some (identity_of f, t1)" "bm_ttl (ps_identity st1) = bm_ttl (ps_identity st)"
    using remember_all_get[OF _ room dist mem, of t1] assms(2) by (simp_all add: st1)
  show ?thesis
    using reach_admit_resumes[OF gone e(1) _ assms(8), of t2] gone e(2) assms(7) by (simp add: identity_of_def)
qed

text \<open>The witness: the demo flow goes silent, is swept after six seconds, and comes back.\<close>

lemma demo_vm_addr: "vm_addr demo_spec (show_v4 10 0 0 5) = Some (V4 10 0 0 5, 9000)"
  using parse_socket_addr_v4[of 10 0 0 5 9000] by (simp add: vm_addr_def demo_spec_def del: show_v4.simps)

lemma demo_st_memo: "ps_identity demo_st = bm_new IDENTITY_MEMO_MAX IDENTITY_MEMO_TTL"
  by (simp add: demo_st_def port_bind_def demo_spec_def process_epoch_seed_def)

theorem evicted_client_resumes_witness:
  "\<exists>st1 p1. port_sweep demo_spec (from_secs 6) demo_live (plane_new default_limits 0) = (st1, p1)
     \<and> fst (reach_admit demo_spec demo_src [9] (from_secs 20) (''base'', Some ''t'') ''proj'' (Some (show_v4 10 0 0 5)) st1 p1)
       = Forward 7 1000 1 (V4 10 0 0 5, 9000)"
proof -
  obtain st1 p1 where sw: "port_sweep demo_spec (from_secs 6) demo_live (plane_new default_limits 0) = (st1, p1)" by fastforce
  have look: "map_of (ps_flows demo_live) demo_src = Some demo_flow" by (simp add: demo_live_def)
  have "fst (reach_admit demo_spec demo_src [9] (from_secs 20) (''base'', Some ''t'') ''proj'' (Some (show_v4 10 0 0 5)) st1 p1)
       = Forward (fl_flow_id demo_flow) (fl_epoch demo_flow) (fl_out_nonce demo_flow + 1) (V4 10 0 0 5, 9000)"
    by (rule evicted_client_resumes[OF _ _ _ look _ sw _ demo_vm_addr, THEN conjunct2])
      (simp_all add: demo_live_def demo_st_memo hm_wf_def demo_flow_def flow_provisional_def flow_keeps_def
        flow_timeout_def PROVISIONAL_IDLE_def from_secs_def, simp_all add: bm_new_def IDENTITY_MEMO_MAX_def
        IDENTITY_MEMO_TTL_def from_secs_def)
  then show ?thesis using sw by (simp add: demo_flow_def flow_provisional_def)
qed

section \<open>The hand-off to a successor process\<close>

lemma seed_identities_memo:
  "ps_identity (seed_identities es now st) =
     remember_all now (filter (\<lambda>e. fi_out_nonce (snd e) < MAX_PLAUSIBLE_OUT_NONCE) es) (ps_identity st)
   \<and> ps_flows (seed_identities es now st) = ps_flows st"
proof (induction es arbitrary: st)
  case (Cons e es)
  show ?case
    using Cons[of "seed_identity now e st"]
    by (simp add: seed_identities_def seed_identity_def remember_all_def case_prod_beta not_le Let_def)
qed (simp add: seed_identities_def remember_all_def)

lemma distinct_export:
  assumes "hm_wf (ps_flows st)" and "bm_wf (ps_identity st)"
  shows "distinct (map fst (export_identities st))"
proof -
  have "map fst (bm_iter (ps_identity st)) = map fst (bm_map (ps_identity st))"
    by (simp add: bm_iter_def comp_def case_prod_beta)
  then have "distinct (map fst (bm_iter (ps_identity st)))" using assms(2) by (simp add: bm_wf_def hm_wf_def)
  then have "distinct (map fst (filter (\<lambda>(src, _). map_of (ps_flows st) src = None) (bm_iter (ps_identity st))))"
    by (rule distinct_map_filter)
  moreover have "fst \<circ> (\<lambda>(src :: sock_addr, f). (src, identity_of f)) = fst" by auto
  moreover have "fst ` set (ps_flows st) \<inter> fst ` set (filter (\<lambda>(src, _). map_of (ps_flows st) src = None) (bm_iter (ps_identity st))) = {}"
    by (auto simp: map_of_eq_None_iff image_iff)
  ultimately show ?thesis
    using assms(1) by (simp add: export_identities_def hm_wf_def image_image case_prod_beta)
qed

text \<open>
  An upgrade of the host process is invisible to a client. The identities one process exports,
  seeded into the port its successor binds, make the first datagram of a client with a live flow go
  out under the old flow id and epoch with the next nonce, provided the memo's time to live has not
  passed, the hand-off fits the memo and the nonce is a plausible one.
\<close>

theorem handover_resumes:
  assumes "hm_wf (ps_flows old)" and "bm_wf (ps_identity old)" and f: "map_of (ps_flows old) src = Some f"
    and "fl_out_nonce f < MAX_PLAUSIBLE_OUT_NONCE" and "length (export_identities old) \<le> IDENTITY_MEMO_MAX"
    and new: "port_bind spec secs nanos t0 = Some new"
    and "t2 - t1 < IDENTITY_MEMO_TTL" and "vm_addr spec ip = Some dst"
  shows "fst (reach_admit spec src d t2 r pid (Some ip) (seed_identities (export_identities old) t1 new) p)
    = Forward (fl_flow_id f) (fl_epoch f) (fl_out_nonce f + 1) dst"
proof -
  let ?es = "filter (\<lambda>e. fi_out_nonce (snd e) < MAX_PLAUSIBLE_OUT_NONCE) (export_identities old)"
  let ?st = "seed_identities (export_identities old) t1 new"
  have n: "ps_flows new = []" "ps_identity new = bm_new IDENTITY_MEMO_MAX IDENTITY_MEMO_TTL"
    using new by (auto simp: port_bind_def Let_def split: if_splits prod.splits)
  have "length ?es \<le> IDENTITY_MEMO_MAX" using le_trans[OF length_filter_le assms(5)] .
  then have room: "length (bm_map (ps_identity new)) + length ?es \<le> bm_max (ps_identity new)"
    unfolding n by (simp add: bm_new_def)
  have dist: "distinct (map fst ?es)" by (rule distinct_map_filter[OF distinct_export[OF assms(1,2)]])
  have "(src, identity_of f) \<in> set (export_identities old)"
    using map_of_SomeD[OF f] by (force simp: export_identities_def)
  then have mem: "(src, identity_of f) \<in> set ?es" using assms(4) by (simp add: identity_of_def)
  have e: "map_of (bm_map (ps_identity ?st)) src = Some (identity_of f, t1)" "bm_ttl (ps_identity ?st) = IDENTITY_MEMO_TTL"
    using remember_all_get[OF _ room dist mem, of t1] n seed_identities_memo[of "export_identities old" t1 new]
    by (simp_all) (simp add: bm_new_def)
  have "map_of (ps_flows ?st) src = None" using seed_identities_memo[of "export_identities old" t1 new] n by simp
  from reach_admit_resumes[OF this e(1) _ assms(8), of t2] show ?thesis
    using e(2) assms(7) by (simp add: identity_of_def)
qed

theorem handover_resumes_witness:
  "fst (reach_admit demo_spec demo_src [9] (from_secs 20) (''base'', Some ''t'') ''proj'' (Some (show_v4 10 0 0 5))
      (seed_identities (export_identities demo_live) (from_secs 2) demo_st) (plane_new default_limits 0))
    = Forward 7 1000 1 (V4 10 0 0 5, 9000)"
  using handover_resumes[of demo_live demo_src demo_flow demo_spec 1000 77 0 demo_st "from_secs 20" "from_secs 2"
      "show_v4 10 0 0 5" "(V4 10 0 0 5, 9000)" "[9]" "(''base'', Some ''t'')" "''proj''" "plane_new default_limits 0",
      OF _ _ _ _ _ demo_bind _ demo_vm_addr]
  by (simp add: demo_live_def demo_st_memo hm_wf_def demo_flow_def flow_provisional_def export_identities_def
      bm_iter_def MAX_PLAUSIBLE_OUT_NONCE_def) (simp add: bm_new_def IDENTITY_MEMO_MAX_def
        IDENTITY_MEMO_TTL_def from_secs_def)

section \<open>First packets\<close>

lemma filter_concat_map: "filter P (concat (map g xs)) = concat (map (\<lambda>x. filter P (g x)) xs)"
  by (simp add: filter_concat comp_def)

lemma concat_single:
  assumes "distinct (map fst fl)" and "(k, v) \<in> set fl" and "\<And>k' v'. (k', v') \<in> set fl \<Longrightarrow> k' \<noteq> k \<Longrightarrow> g (k', v') = []"
  shows "concat (map g fl) = g (k, v)"
  using assms
proof (induction fl)
  case (Cons e fl)
  show ?case
  proof (cases "fst e = k")
    case True
    then have e: "e = (k, v)" and nk: "k \<notin> fst ` set fl" using Cons.prems(1,2) by (auto simp: image_iff)
    have "g x = []" if "x \<in> set fl" for x
      using that nk Cons.prems(3)[of "fst x" "snd x"] by (metis image_eqI list.set_intros(2) prod.collapse)
    then have "concat (map g fl) = []" by (induction fl) auto
    then show ?thesis using e by simp
  next
    case False
    then have "g e = []" using Cons.prems(3)[of "fst e" "snd e"] by simp
    moreover have "concat (map g fl) = g (k, v)"
      using Cons.prems False by (intro Cons.IH) auto
    ultimately show ?thesis by simp
  qed
qed simp

text \<open>
  A cold start loses no buffered datagram and reorders none. When the machine comes up, what is
  sent to it for a flow is exactly that flow's buffered datagrams, in arrival order, under its id
  and epoch with consecutive nonces; afterwards the buffer is empty, and the next datagram of the
  flow is forwarded directly, above all of them.
\<close>

theorem cold_start_in_order:
  assumes ids: "ids_ok st" and f: "map_of (ps_flows st) src = Some f"
    and run: "on_ready spec ip st = (Some (dst, jobs), st')"
  shows "map snd (filter (\<lambda>(h, _). h_flow_id h = fl_flow_id f) jobs) = fl_buffer f
    \<and> (\<forall>i < length (fl_buffer f). fst (filter (\<lambda>(h, _). h_flow_id h = fl_flow_id f) jobs ! i)
        = \<lparr>h_flow_id = fl_flow_id f, h_epoch = fl_epoch f, h_nonce = fl_out_nonce f + 1 + word_of_nat i\<rparr>)
    \<and> fst (reach_decide mi spec src d now st' p)
      = Forward (fl_flow_id f) (fl_epoch f) (fl_out_nonce f + 1 + word_of_nat (length (fl_buffer f))) dst"
proof -
  let ?P = "\<lambda>(h, _). h_flow_id h = fl_flow_id f"
  have wf: "hm_wf (ps_flows st)" using ids by (simp add: ids_ok_def demux_ok_def)
  obtain js f' where fl: "flush_flow f = (js, f')" by fastforce
  note S = flush_flow_sel[OF fl]
  have jobs: "jobs = concat (map (\<lambda>(_, g). fst (flush_flow g)) (ps_flows st))"
    and st': "ps_flows st' = map (\<lambda>(s, g). (s, snd (flush_flow g))) (ps_flows st)" "ps_vm_dst st' = Some dst"
    using run by (auto simp: on_ready_def split: option.splits)
  have "filter ?P jobs = filter ?P (fst (flush_flow f))"
    unfolding jobs filter_concat_map
  proof (subst concat_single[of "ps_flows st" src f])
    show "distinct (map fst (ps_flows st))" using wf by (simp add: hm_wf_def)
    show "(src, f) \<in> set (ps_flows st)" by (rule map_of_SomeD[OF f])
    fix s g assume g: "(s, g) \<in> set (ps_flows st)" "s \<noteq> src"
    then have "map_of (ps_flows st) s = Some g" using wf by (simp add: hm_wf_map_of_iff)
    then have "fl_flow_id g \<noteq> fl_flow_id f" using ids_ok_lookup[OF ids f] ids_ok_lookup[OF ids, of s g] g(2) by auto
    then show "filter ?P (case (s, g) of (_, g) \<Rightarrow> fst (flush_flow g)) = []"
      using flush_flow_sel(7)[OF prod.collapse[symmetric, of "flush_flow g"]] by (fastforce simp: filter_empty_conv)
  qed simp
  then have fj: "filter ?P jobs = js" using S(7) by (auto simp: fl filter_id_conv)
  have hdr: "fst (js ! i) = \<lparr>h_flow_id = fl_flow_id f, h_epoch = fl_epoch f, h_nonce = fl_out_nonce f + 1 + word_of_nat i\<rparr>"
    if "i < length (fl_buffer f)" for i
  proof -
    have "i < length js" using that S(5) by (metis length_map)
    then have "js ! i \<in> set js" by (rule nth_mem)
    then have "h_flow_id (fst (js ! i)) = fl_flow_id f" "h_epoch (fst (js ! i)) = fl_epoch f"
      using S(7) by (auto simp: case_prod_beta)
    then show ?thesis using S(8) that by (intro l4_transit_header.equality) simp_all
  qed
  have "map_of (ps_flows st') src = Some f'"
    using f fl by (simp add: st' map_of_map_snd[of "\<lambda>g. snd (flush_flow g)"])
  then have "\<exists>x y z. fst (reach_decide mi spec src d now st' p) = Forward x y z dst \<and> x = fl_flow_id f' \<and> y = fl_epoch f' \<and> z = fl_out_nonce f' + 1"
    by (auto simp: reach_decide_def reach_hit_def st' Let_def maybe_promote_def flow_saw_def split: prod.splits if_splits option.splits)
  then show ?thesis using fj hdr S by (simp add: ac_simps)
qed

definition demo_boot :: port_state where
  "demo_boot = demo_st\<lparr>ps_flows := [(demo_src, demo_flow\<lparr>fl_buffer := [[1], [2]], fl_buffer_bytes := 2\<rparr>)],
     ps_by_flow_id := [(7, demo_src)], ps_epoch_for := [(7, 1000)]\<rparr>"

theorem cold_start_in_order_witness:
  "\<exists>jobs st'. on_ready demo_spec (show_v4 10 0 0 5) demo_boot = (Some ((V4 10 0 0 5, 9000), jobs), st')
     \<and> map snd (filter (\<lambda>(h, _). h_flow_id h = 7) jobs) = [[1], [2]]
     \<and> fst (reach_decide None demo_spec demo_src [3] 9 st' (plane_new default_limits 0)) = Forward 7 1000 3 (V4 10 0 0 5, 9000)"
proof -
  let ?f = "demo_flow\<lparr>fl_buffer := [[1], [2]], fl_buffer_bytes := 2\<rparr>"
  obtain jobs st' where run: "on_ready demo_spec (show_v4 10 0 0 5) demo_boot = (Some ((V4 10 0 0 5, 9000), jobs), st')"
    using demo_vm_addr by (simp add: on_ready_def del: show_v4.simps)
  have "memo_ids (ps_identity demo_boot) = Map.empty"
    by (auto simp: memo_ids_def bm_get_def demo_boot_def demo_st_memo bm_new_def)
  moreover have "flow_ids (ps_flows demo_boot) = [demo_src \<mapsto> (7, 1000)]"
    by (auto simp: flow_ids_def demo_boot_def demo_flow_def flow_provisional_def)
  moreover have "ids_rel [demo_src \<mapsto> (7 :: u32, 1000 :: u32)] [7 \<mapsto> demo_src] [7 \<mapsto> 1000] Map.empty"
    by (rule ids_relI) (auto simp: demux_rel_def split: if_splits)
  ultimately have ids: "ids_ok demo_boot"
    by (auto simp: ids_ok_def demux_ok_def demo_boot_def hm_wf_def demo_st_memo ids_rel_def)
  have look: "map_of (ps_flows demo_boot) demo_src = Some ?f" by (simp add: demo_boot_def)
  show ?thesis
    using cold_start_in_order[OF ids look run, of None "[3]" 9 "plane_new default_limits 0"] run
    by (simp add: demo_flow_def flow_provisional_def)
qed

section \<open>Where the sources differ from their comments\<close>

text \<open>
  The cached machine address is never cleared. When a port that has forwarded before wakes its
  machine again, the datagrams that follow the first one of the new flow are sent to the address of
  the previous incarnation while the boot is under way, and are not buffered; the comment in
  \<open>reach_decide\<close> says that the address a hit uses was validated by the miss that created the flow.
\<close>

lemma reboot_forwards_to_old_address:
  assumes old: "ps_vm_dst st = Some old" and new: "map_of (ps_flows st) src = None"
    and run: "reach_admit spec src d t r pid None st p = (BootSpawn g pid', st', p')"
  shows "ps_booting st' \<and> (\<exists>fid ep nonce. fst (reach_decide mi spec src d2 t2 st' p2) = Forward fid ep nonce old)"
proof -
  obtain f0 st1 where ai: "admit_identity src t r None st = (f0, st1)" by fastforce
  note F = admit_identity_frame[OF ai]
  have "ps_booting st' \<and> ps_vm_dst st' = Some old \<and> (\<exists>f. map_of (ps_flows st') src = Some f)"
    using run new ai F(3) old
    by (auto simp: reach_admit_def Let_def install_flow_def split: if_splits prod.splits boot_admit.splits)
  then obtain f where "ps_booting st'" "ps_vm_dst st' = Some old" "map_of (ps_flows st') src = Some f" by blast
  then show ?thesis
    by (auto simp: reach_decide_def reach_hit_def Let_def split: prod.splits)
qed

text \<open>
  A changed per-source limit does not reach a destination that already has a bucket:
  \<open>update_egress_limits\<close> stores the new limits, but the bucket keeps the rate and capacity it was
  created with for as long as its entry lives, and every datagram refreshes the entry. The comment of
  \<open>update_egress_limits\<close> says that a lowered rate binds from the next refill.
\<close>

lemma kb_check_existing:
  assumes "map_of (bm_map m) k = Some (b, t)"
  shows "kb_check r c k a now m = kb_check r' c' k a now m"
  using assms by (simp add: kb_check_def bm_get_or_insert_with_def Let_def)

lemma aggregate_limits_cong:
  assumes "per_project_bps l = per_project_bps l'"
  shows "pl_try_egress_aggregate b ip n l now p = pl_try_egress_aggregate b ip n l' now p"
  by (simp only: pl_try_egress_aggregate_def try_egress_aggregate_def assms)

lemma lowered_source_rate_does_not_bind:
  assumes live: "map_of (bm_map (ps_per_source st)) (fst src) = Some (b, t)"
    and upd: "update_egress_limits new st = (ch, st')" and pp: "per_project_bps new = per_project_bps (ps_egress st)"
  shows "fst (egress_controls spec src n now f st' p) = fst (egress_controls spec src n now f st p)"
proof -
  have st': "st' = st\<lparr>ps_egress := new\<rparr>"
    using upd by (cases "ps_egress st = new") (auto simp: update_egress_limits_def)
  show ?thesis
    using kb_check_existing[OF live, of "real (per_source_bps new)" "real (per_source_burst new)" "real n" now
        "real (per_source_bps (ps_egress st))" "real (per_source_burst (ps_egress st))"]
      aggregate_limits_cong[OF pp]
    by (auto simp: st' egress_controls_def Let_def split: prod.splits sum.splits option.splits)
qed

text \<open>
  An id whose epoch record has been pruned is handed out again with the process's base epoch, the
  one its previous owner had, although the comment of \<open>alloc_flow_id\<close> says that a reused id carries a
  bumped epoch.
\<close>

lemma pruned_id_keeps_base_epoch:
  assumes "\<not> in_use fid" and "map_of epoch_for fid = None"
  shows "fst (alloc_flow_id fid epoch_for epoch_base in_use) = (fid, epoch_base)"
  using assms by (simp add: alloc_flow_id_def MAX_PROBE_def numeral_eq_Suc)

end
