(* ===== verification/Guest_Ports.thy ===== *)
theory Guest_Ports
  imports Net_Parse
begin

unbundle bit_operations_syntax

text \<open>
  The pure port arithmetic of \<open>crates/jkbase-agent/src/l4_forward.rs\<close>: the loopback source port
  derived from a flow id (\<open>derived_source_port\<close>, \<open>ephemeral_range\<close>), the search over its candidates
  (\<open>connect_loopback\<close>) and the parser of \<open>/proc/net/udp\<close> that tells whether the guest has bound its
  port (\<open>guest_udp_port_bound\<close>, \<open>guest_udp_port_bound_in\<close>, \<open>addr_is_loopback_or_wildcard\<close>).

  The texts of the \<open>/proc\<close> files are arguments, \<open>None\<close> when the file cannot be read; whether the
  kernel grants a bind is the argument \<open>free\<close>.
\<close>

section \<open>The ephemeral range and the derived port\<close>

definition PORT_PROBES :: nat where "PORT_PROBES = 8"
definition BAND_SPAN :: nat where "BAND_SPAN = 4536"

definition ephemeral_default :: "nat \<times> nat" where
  "ephemeral_default = (32768, 60999)"

definition ephemeral_range :: "string option \<Rightarrow> nat \<times> nat" where
  "ephemeral_range file =
     (case file of None \<Rightarrow> ephemeral_default
      | Some s \<Rightarrow>
          (case split_whitespace s of
             a # b # _ \<Rightarrow>
               (case (parse_uint 16 a, parse_uint 16 b) of
                  (Some lo, Some hi) \<Rightarrow> if lo < hi then (lo, hi) else ephemeral_default
                | _ \<Rightarrow> ephemeral_default)
           | _ \<Rightarrow> ephemeral_default))"

text \<open>The band: above the ephemeral range when 256 ports fit there, else just below it.\<close>

definition port_band :: "nat \<times> nat \<Rightarrow> (nat \<times> nat) option" where
  "port_band eph =
     (let above = (snd eph + 1, 65535);
          below = (max (fst eph - BAND_SPAN) 1024, fst eph - 1)
      in if fst above \<le> snd above \<and> snd above - fst above \<ge> 255 then Some above
         else if fst below \<le> snd below \<and> snd below - fst below \<ge> 255 then Some below
         else None)"

definition mix_flow_id :: "u32 \<Rightarrow> u64" where
  "mix_flow_id flow_id =
     (let h = ucast flow_id * 0x9E3779B97F4A7C15;
          h = h XOR drop_bit 29 h;
          h = h * 0xBF58476D1CE4E5B9
      in h XOR drop_bit 32 h)"

definition derived_source_port :: "string option \<Rightarrow> u32 \<Rightarrow> u16 \<Rightarrow> nat \<Rightarrow> u16 option" where
  "derived_source_port file flow_id guest_port attempt =
     (case port_band (ephemeral_range file) of None \<Rightarrow> None
      | Some (band_lo, band_hi) \<Rightarrow>
          (let span = band_hi - band_lo + 1;
               idx = unat (mix_flow_id flow_id) mod span;
               port = band_lo + (idx + attempt) mod span;
               port = (if unat guest_port = port then band_lo + (idx + attempt + 1) mod span else port)
           in if port < 2 ^ 16 then Some (word_of_nat port) else None))"

text \<open>
  \<open>connect_loopback\<close>: the first of the eight candidates the kernel grants, otherwise the ephemeral
  port it picks (\<open>None\<close> when that bind fails as well). A missing band ends the search at once.
\<close>

fun probe_ports :: "(nat \<Rightarrow> u16 option) \<Rightarrow> (u16 \<Rightarrow> bool) \<Rightarrow> nat \<Rightarrow> nat \<Rightarrow> u16 option" where
  "probe_ports cand free attempt 0 = None"
| "probe_ports cand free attempt (Suc n) =
     (case cand attempt of None \<Rightarrow> None
      | Some p \<Rightarrow> if free p then Some p else probe_ports cand free (attempt + 1) n)"

definition connect_loopback ::
  "string option \<Rightarrow> (u16 \<Rightarrow> bool) \<Rightarrow> u16 option \<Rightarrow> u16 \<Rightarrow> u32 \<Rightarrow> u16 option" where
  "connect_loopback file free ephemeral guest_port flow_id =
     (case probe_ports (derived_source_port file flow_id guest_port) free 0 PORT_PROBES of
        Some p \<Rightarrow> Some p
      | None \<Rightarrow> ephemeral)"

section \<open>The guest's bind, from /proc/net/udp\<close>

text \<open>\<open>uN::from_str_radix\<close>: an optional plus sign, then digits of the radix, no overflow.\<close>

definition from_str_radix :: "nat \<Rightarrow> nat \<Rightarrow> string \<Rightarrow> nat option" where
  "from_str_radix w radix s =
     (let ds = (if s \<noteq> [] \<and> hd s = CHR ''+'' then tl s else s);
          v = foldl (\<lambda>n c. radix * n + the (radix_val radix c)) 0 ds
      in if ds \<noteq> [] \<and> list_all (\<lambda>c. radix_val radix c \<noteq> None) ds \<and> v < 2 ^ w then Some v else None)"

definition to_ascii_uppercase :: "string \<Rightarrow> string" where
  "to_ascii_uppercase s =
     map (\<lambda>c. if (of_char c :: nat) \<in> {97..122} then char_of ((of_char c :: nat) - 32) else c) s"

definition addr_is_loopback_or_wildcard :: "string \<Rightarrow> bool" where
  "addr_is_loopback_or_wildcard addr_hex =
     (if length addr_hex = 8 then
        (let a = to_ascii_uppercase addr_hex in a = ''00000000'' \<or> a = ''0100007F'')
      else if length addr_hex = 32 then
        (let a = to_ascii_uppercase addr_hex
         in a = replicate 32 (CHR ''0'') \<or> a = ''00000000000000000000000001000000'')
      else False)"

definition udp_row_binds :: "u16 \<Rightarrow> string \<Rightarrow> bool" where
  "udp_row_binds port line =
     (case split_whitespace line of
        sl # local # _ \<Rightarrow>
          (case split_once (CHR '':'') local of None \<Rightarrow> False
           | Some (addr_hex, port_hex) \<Rightarrow>
               (case from_str_radix 16 16 port_hex of None \<Rightarrow> False
                | Some p \<Rightarrow> p = unat port \<and> addr_is_loopback_or_wildcard addr_hex))
      | _ \<Rightarrow> False)"

definition guest_udp_port_bound_in :: "string \<Rightarrow> u16 \<Rightarrow> bool" where
  "guest_udp_port_bound_in contents port = list_ex (udp_row_binds port) (drop 1 (str_lines contents))"

definition guest_udp_port_bound :: "string option \<Rightarrow> string option \<Rightarrow> u16 \<Rightarrow> bool" where
  "guest_udp_port_bound udp udp6 port =
     (let read = (\<lambda>f. case f of None \<Rightarrow> [] | Some s \<Rightarrow> s)
      in guest_udp_port_bound_in (read udp) port \<or> guest_udp_port_bound_in (read udp6) port)"

section \<open>Derived ports\<close>

lemma ephemeral_range_ordered:
  "fst (ephemeral_range file) < snd (ephemeral_range file) \<and> snd (ephemeral_range file) < 65536"
  using parse_uint_bound[of 16]
  by (auto simp: ephemeral_range_def ephemeral_default_def split: option.splits list.splits)

lemma port_band_Some:
  assumes "port_band eph = Some (lo, hi)"
  shows "lo + 255 \<le> hi" and "{lo..hi} \<inter> {fst eph..snd eph} = {}"
    and "fst eph < snd eph \<Longrightarrow> snd eph < 65536 \<Longrightarrow> hi < 65536"
proof -
  define m where "m = max (fst eph - BAND_SPAN) 1024"
  have "(lo = snd eph + 1 \<and> hi = 65535 \<and> snd eph \<le> 65279) \<or> (lo = m \<and> hi = fst eph - 1 \<and> m + 255 \<le> hi)"
    using assms unfolding port_band_def Let_def m_def[symmetric] by (auto split: if_splits)
  then show "lo + 255 \<le> hi" and "{lo..hi} \<inter> {fst eph..snd eph} = {}"
    and "fst eph < snd eph \<Longrightarrow> snd eph < 65536 \<Longrightarrow> hi < 65536" by auto
qed

text \<open>The band of a port range and the anchor of a flow in it.\<close>

definition band_lo :: "string option \<Rightarrow> nat" where
  "band_lo file = fst (the (port_band (ephemeral_range file)))"

definition band_width :: "string option \<Rightarrow> nat" where
  "band_width file = (case the (port_band (ephemeral_range file)) of (lo, hi) \<Rightarrow> hi - lo + 1)"

definition slot :: "string option \<Rightarrow> u32 \<Rightarrow> nat \<Rightarrow> nat" where
  "slot file flow_id a = band_lo file + (unat (mix_flow_id flow_id) mod band_width file + a) mod band_width file"

lemma band_facts:
  assumes "port_band (ephemeral_range file) \<noteq> None"
  shows "256 \<le> band_width file"
    and "band_lo file + band_width file \<le> 65536"
    and "{band_lo file..<band_lo file + band_width file} \<inter> {fst (ephemeral_range file)..snd (ephemeral_range file)} = {}"
proof -
  obtain lo hi where b: "port_band (ephemeral_range file) = Some (lo, hi)" using assms by auto
  note f = port_band_Some[OF b] ephemeral_range_ordered[of "file"]
  have e: "band_lo file = lo" "band_width file = hi - lo + 1" by (simp_all add: band_lo_def band_width_def b)
  show "256 \<le> band_width file" "band_lo file + band_width file \<le> 65536" using e f by auto
  have "{lo..<lo + (hi - lo + 1)} = {lo..hi}" using f by auto
  then show "{band_lo file..<band_lo file + band_width file} \<inter> {fst (ephemeral_range file)..snd (ephemeral_range file)} = {}"
    using e f(2) by simp
qed

lemma slot_bounds:
  assumes "port_band (ephemeral_range file) \<noteq> None"
  shows "band_lo file \<le> slot file fid a" and "slot file fid a < band_lo file + band_width file"
  using band_facts(1)[OF assms] by (simp_all add: slot_def)

lemma mod_shift_inj:
  fixes i w :: nat
  assumes "(i + a) mod w = (i + b) mod w" and "a < w" and "b < w"
  shows "a = b"
proof -
  have "b = a" if "a \<le> b" "(i + a) mod w = (i + b) mod w" "b < w" for a b
  proof -
    have "w dvd (i + b) - (i + a)" using that by (metis mod_eq_dvd_iff_nat add_le_cancel_left)
    then show ?thesis using that by (simp add: dvd_imp_le nat_dvd_not_less) (metis dvd_imp_le le_antisym diff_is_0_eq' less_imp_diff_less not_le zero_less_diff)
  qed
  then show ?thesis using assms by (metis nat_le_linear)
qed

lemma slot_inj:
  assumes "a < band_width file" and "b < band_width file" and "slot file fid a = slot file fid b"
  shows "a = b"
  using assms by (auto simp: slot_def dest: mod_shift_inj)

lemma derived_source_port_slot:
  assumes "port_band (ephemeral_range file) \<noteq> None"
  shows "derived_source_port file fid gp a =
    Some (word_of_nat (if unat gp = slot file fid a then slot file fid (a + 1) else slot file fid a))"
proof -
  have "slot file fid b < 65536" for b
    using slot_bounds(2)[OF assms, of fid b] band_facts(2)[OF assms] by simp
  from this[of a] this[of "a + 1"] show ?thesis
    using assms by (auto simp: derived_source_port_def slot_def band_lo_def band_width_def Let_def add.assoc)
qed

lemma slot_step:
  assumes "port_band (ephemeral_range file) \<noteq> None"
  shows "slot file fid (a + 1) \<noteq> slot file fid a"
proof
  let ?w = "band_width file"
  assume "slot file fid (a + 1) = slot file fid a"
  then have "(unat (mix_flow_id fid) mod ?w + a + 1) mod ?w = (unat (mix_flow_id fid) mod ?w + a + 0) mod ?w"
    by (simp add: slot_def)
  then have "(1::nat) = 0"
    using band_facts(1)[OF assms] by (intro mod_shift_inj[of _ 1 ?w 0]) auto
  then show False by simp
qed

lemma slot_port:
  assumes "port_band (ephemeral_range file) \<noteq> None"
  shows "unat (word_of_nat (slot file fid a) :: u16) = slot file fid a"
  using slot_bounds(2)[OF assms, of fid a] band_facts(2)[OF assms] by (simp add: unat_of_nat)

lemma slot_outside:
  assumes "port_band (ephemeral_range file) \<noteq> None"
  shows "slot file fid a \<notin> {fst (ephemeral_range file)..snd (ephemeral_range file)}"
  using slot_bounds[OF assms, of fid a] band_facts(3)[OF assms] by (metis atLeastLessThan_iff disjoint_iff)

lemma derived_port_is_slot:
  assumes "port_band (ephemeral_range file) \<noteq> None"
  shows "\<exists>b \<in> {a, a + 1}. derived_source_port file fid gp a = Some (word_of_nat (slot file fid b))
      \<and> word_of_nat (slot file fid b) \<noteq> gp"
proof (cases "unat gp = slot file fid a")
  case True
  then have "word_of_nat (slot file fid (a + 1)) \<noteq> gp"
    using slot_step[OF assms, of fid a] slot_port[OF assms, of fid "a + 1"] by auto
  then show ?thesis using True by (simp add: derived_source_port_slot[OF assms])
next
  case False
  then have "word_of_nat (slot file fid a) \<noteq> gp" using slot_port[OF assms, of fid a] by auto
  then show ?thesis using False by (simp add: derived_source_port_slot[OF assms])
qed

lemma derived_ports_cover:
  assumes "port_band (ephemeral_range file) \<noteq> None"
  shows "word_of_nat ` slot file fid ` {..<PORT_PROBES} - {gp}
     \<subseteq> {p. \<exists>a < PORT_PROBES. derived_source_port file fid gp a = Some p}"
proof
  fix p assume "p \<in> word_of_nat ` slot file fid ` {..<PORT_PROBES} - {gp}"
  then obtain a where a: "a < PORT_PROBES" "p = word_of_nat (slot file fid a)" "p \<noteq> gp" by auto
  then have "unat gp \<noteq> slot file fid a" by (metis unat_inverse)
  then show "p \<in> {p. \<exists>a < PORT_PROBES. derived_source_port file fid gp a = Some p}"
    using a by (auto simp: derived_source_port_slot[OF assms])
qed

lemma derived_ports_card:
  assumes "port_band (ephemeral_range file) \<noteq> None"
  shows "7 \<le> card {p. \<exists>a < PORT_PROBES. derived_source_port file fid gp a = Some p}"
proof -
  let ?I = "word_of_nat ` slot file fid ` {..<PORT_PROBES} :: u16 set"
  have i1: "inj_on (slot file fid) {..<PORT_PROBES}"
  proof (rule inj_onI)
    fix a b assume "a \<in> {..<PORT_PROBES}" and "b \<in> {..<PORT_PROBES}" and e: "slot file fid a = slot file fid b"
    then have "a < band_width file" and "b < band_width file"
      using band_facts(1)[OF assms] by (simp_all add: PORT_PROBES_def)
    then show "a = b" using e by (rule slot_inj)
  qed
  have i2: "inj_on (word_of_nat :: nat \<Rightarrow> u16) (slot file fid ` {..<PORT_PROBES})"
    by (rule inj_on_inverseI[where g = unat]) (auto simp: slot_port[OF assms])
  have "card ?I = 8" using card_image[OF i2] card_image[OF i1] by (simp add: PORT_PROBES_def)
  then have "7 \<le> card (?I - {gp})"
    using card_Diff_singleton_if[of ?I gp] by simp
  also have "\<dots> \<le> card {p. \<exists>a < PORT_PROBES. derived_source_port file fid gp a = Some p}"
    by (rule card_mono[OF _ derived_ports_cover[OF assms]]) simp
  finally show ?thesis .
qed

text \<open>
  The loopback source port. Whenever the guest's port range leaves a usable band, every attempt
  yields a port; that port lies in the band, hence outside the ephemeral range the kernel hands to the
  tenant's own sockets, and it is never the application's own port. The eight attempts of a flow reach
  at least seven different ports.
\<close>

theorem derived_port_in_band:
  assumes "port_band (ephemeral_range file) = Some (lo, hi)"
  shows "(\<exists>p. derived_source_port file flow_id guest_port attempt = Some p
        \<and> unat p \<in> {lo..hi} - {fst (ephemeral_range file)..snd (ephemeral_range file)} \<and> p \<noteq> guest_port)
    \<and> 7 \<le> card {p. \<exists>attempt < PORT_PROBES. derived_source_port file flow_id guest_port attempt = Some p}"
proof -
  have b: "port_band (ephemeral_range file) \<noteq> None" using assms by simp
  have "slot file flow_id a \<in> {lo..hi}" for a
    using slot_bounds[OF b, of flow_id a] port_band_Some(1)[OF assms] assms by (simp add: band_lo_def band_width_def)
  then show ?thesis
    using derived_port_is_slot[OF b, of attempt flow_id guest_port] derived_ports_card[OF b]
      slot_port[OF b, of flow_id] slot_outside[OF b, of flow_id] by (metis DiffI)
qed

theorem derived_port_in_band_witness:
  "(\<exists>p. derived_source_port (Some ''32768 60999'') 7 61234 3 = Some p
        \<and> unat p \<in> {61000..65535} - {32768..60999} \<and> p \<noteq> 61234)
    \<and> 7 \<le> card {p. \<exists>attempt < PORT_PROBES. derived_source_port (Some ''32768 60999'') 7 61234 attempt = Some p}"
proof -
  have e: "ephemeral_range (Some ''32768 60999'') = (32768, 60999)"
    by (simp add: ephemeral_range_def split_whitespace_def is_whitespace_def parse_uint_def digits_val_def
        digit_val_def is_ascii_digit_def)
  have "port_band (ephemeral_range (Some ''32768 60999'')) = Some (61000, 65535)"
    unfolding e by (simp add: port_band_def)
  from derived_port_in_band[OF this, of 7 61234 3] show ?thesis unfolding e fst_conv snd_conv .
qed

text \<open>
  The source port of a flow is reproduced. If a search over the flow's candidates bound \<open>p\<close>, then
  a later search binds \<open>p\<close> again as soon as \<open>p\<close> is free and no port has been freed that was taken
  the first time; in particular a flow whose first candidate is free always gets it. Both hold
  whatever the kernel would have picked as ephemeral port.
\<close>

theorem source_port_reproduced:
  assumes "probe_ports (derived_source_port file flow_id guest_port) free 0 PORT_PROBES = Some p"
    and "free' p" and "\<And>q. \<not> free q \<Longrightarrow> \<not> free' q"
  shows "connect_loopback file free' eph guest_port flow_id = Some p
      \<and> connect_loopback file free eph guest_port flow_id = Some p"
proof -
  have "probe_ports cand free a n = Some p \<Longrightarrow> probe_ports cand free' a n = Some p" for cand a n
    using assms(2,3) by (induction n arbitrary: a) (auto split: option.splits if_splits)
  then show ?thesis using assms(1) by (simp add: connect_loopback_def)
qed

theorem source_port_reproduced_witness:
  "connect_loopback None (\<lambda>q. Some q \<noteq> derived_source_port None 5 9999 0) (Some 40000) 9999 5
     = derived_source_port None 5 9999 1"
proof -
  have b: "port_band (ephemeral_range None) = Some (61000, 65535)"
    by (simp add: ephemeral_range_def ephemeral_default_def port_band_def)
  then have b': "port_band (ephemeral_range None) \<noteq> None" by simp
  have "unat (9999::u16) \<noteq> slot None 5 a" for a
    using slot_bounds(1)[OF b', of 5 a] b by (simp add: band_lo_def)
  then have d: "derived_source_port None 5 9999 a = Some (word_of_nat (slot None 5 a))" for a
    by (simp add: derived_source_port_slot[OF b'])
  have ne: "(word_of_nat (slot None 5 1) :: u16) \<noteq> word_of_nat (slot None 5 0)"
    using slot_step[OF b', of 5 0] slot_port[OF b', of 5] by (metis add.left_neutral)
  let ?free = "\<lambda>q. Some q \<noteq> derived_source_port None 5 9999 0"
  have n: "PORT_PROBES = Suc (Suc 6)" by (simp add: PORT_PROBES_def)
  have p: "probe_ports (derived_source_port None 5 9999) ?free 0 PORT_PROBES = Some (word_of_nat (slot None 5 1))"
    unfolding n probe_ports.simps using ne by (simp add: d)
  show ?thesis
    using source_port_reproduced[OF p, of ?free "Some 40000"] ne by (simp add: d)
qed

section \<open>Reading the socket table\<close>

text \<open>
  The kernel's side of \<open>/proc/net/udp\<close> and \<open>udp6\<close>: a header line, then one line per socket with
  the slot, the local address in 32-bit words of host byte order, and the port, all in capital
  hexadecimal digits (\<open>%5d: %08X:%04X ...\<close>).
\<close>

datatype proc_addr = A4 u32 | A6 u32 u32 u32 u32

record proc_row =
  pr_slot :: string
  pr_addr :: proc_addr
  pr_port :: u16
  pr_rest :: string

definition hex_digit :: "nat \<Rightarrow> char" where
  "hex_digit d = (if d < 10 then char_of (d + 48) else char_of (d + 55))"

fun hex_fixed :: "nat \<Rightarrow> nat \<Rightarrow> string" where
  "hex_fixed 0 v = []"
| "hex_fixed (Suc k) v = hex_fixed k (v div 16) @ [hex_digit (v mod 16)]"

fun show_proc_addr :: "proc_addr \<Rightarrow> string" where
  "show_proc_addr (A4 a) = hex_fixed 8 (unat a)"
| "show_proc_addr (A6 a b c d) =
     hex_fixed 8 (unat a) @ hex_fixed 8 (unat b) @ hex_fixed 8 (unat c) @ hex_fixed 8 (unat d)"

definition show_row :: "proc_row \<Rightarrow> string" where
  "show_row r = '' '' @ pr_slot r @ '': '' @ show_proc_addr (pr_addr r) @ '':''
     @ hex_fixed 4 (unat (pr_port r)) @ '' '' @ pr_rest r"

definition row_ok :: "proc_row \<Rightarrow> bool" where
  "row_ok r \<longleftrightarrow> (\<forall>c \<in> set (pr_slot r). \<not> is_whitespace c) \<and> CHR 0x0A \<notin> set (pr_rest r)
     \<and> CHR 0x0D \<notin> set (pr_rest r)"

definition show_udp :: "string \<Rightarrow> proc_row list \<Rightarrow> string" where
  "show_udp header rows = header @ [CHR 0x0A] @ concat (map (\<lambda>r. show_row r @ [CHR 0x0A]) rows)"

fun loopback_or_wildcard :: "proc_addr \<Rightarrow> bool" where
  "loopback_or_wildcard (A4 a) = (a = 0 \<or> a = 0x0100007F)"
| "loopback_or_wildcard (A6 a b c d) = (a = 0 \<and> b = 0 \<and> c = 0 \<and> (d = 0 \<or> d = 0x01000000))"

lemma hex_digit_props:
  assumes "d < 16"
  shows "radix_val 16 (hex_digit d) = Some d" and "\<not> is_whitespace (hex_digit d)"
    and "hex_digit d \<noteq> CHR '':''" and "hex_digit d \<noteq> CHR ''+''"
    and "(of_char (hex_digit d) :: nat) \<notin> {97..122}"
proof -
  have d: "d = 0 \<or> d = 1 \<or> d = 2 \<or> d = 3 \<or> d = 4 \<or> d = 5 \<or> d = 6 \<or> d = 7 \<or> d = 8 \<or> d = 9
      \<or> d = 10 \<or> d = 11 \<or> d = 12 \<or> d = 13 \<or> d = 14 \<or> d = 15" using assms by presburger
  show "radix_val 16 (hex_digit d) = Some d" and "(of_char (hex_digit d) :: nat) \<notin> {97..122}"
    using d by (auto simp: radix_val_def hex_val_def hex_digit_def of_char_of)
  show "\<not> is_whitespace (hex_digit d)" "hex_digit d \<noteq> CHR '':''" "hex_digit d \<noteq> CHR ''+''"
    using d by (elim disjE; simp add: hex_digit_def is_whitespace_def char_of_def bit_simps)+
qed

lemma length_hex_fixed [simp]: "length (hex_fixed k v) = k"
  by (induction k arbitrary: v) auto

lemma hex_fixed_chars: "c \<in> set (hex_fixed k v) \<Longrightarrow> \<exists>d < 16. c = hex_digit d"
proof (induction k arbitrary: v)
  case (Suc k)
  then consider "c \<in> set (hex_fixed k (v div 16))" | "c = hex_digit (v mod 16)" by auto
  then show ?case
  proof cases
    case 2
    then show ?thesis by (intro exI[of _ "v mod 16"]) simp
  qed (rule Suc.IH)
qed simp

lemma hex_fixed_value:
  "foldl (\<lambda>n c. 16 * n + the (radix_val 16 c)) 0 (hex_fixed k v) = v mod 16 ^ k"
proof (induction k arbitrary: v)
  case (Suc k)
  then show ?case by (simp add: hex_digit_props mod_mult2_eq)
qed simp

lemma hex_fixed_inj: "v < 16 ^ k \<Longrightarrow> w < 16 ^ k \<Longrightarrow> hex_fixed k v = hex_fixed k w \<longleftrightarrow> v = w"
  by (metis hex_fixed_value mod_less)

lemma from_str_radix_hex: "v < 16 ^ k \<Longrightarrow> v < 2 ^ w \<Longrightarrow> 0 < k \<Longrightarrow> from_str_radix w 16 (hex_fixed k v) = Some v"
proof -
  assume v: "v < 16 ^ k" "v < 2 ^ w" and k: "0 < k"
  have ne: "hex_fixed k v \<noteq> []" using k by (metis length_hex_fixed list.size(3) not_less_zero)
  then have "hd (hex_fixed k v) \<noteq> CHR ''+''"
    using hex_fixed_chars[of "hd (hex_fixed k v)" k v] hex_digit_props(4) hd_in_set[OF ne] by metis
  moreover have "list_all (\<lambda>c. radix_val 16 c \<noteq> None) (hex_fixed k v)"
    using hex_fixed_chars hex_digit_props(1) by (fastforce simp: list_all_iff)
  ultimately show ?thesis using v ne by (simp add: from_str_radix_def hex_fixed_value)
qed

lemma uppercase_hex [simp]: "to_ascii_uppercase (hex_fixed k v) = hex_fixed k v"
  unfolding to_ascii_uppercase_def using hex_fixed_chars hex_digit_props(5)
  by (intro map_idI) (metis (full_types))

lemma hex_clean: "c \<in> set (hex_fixed k v) \<Longrightarrow> \<not> is_whitespace c \<and> c \<noteq> CHR '':''"
  using hex_fixed_chars hex_digit_props(2,3) by metis

lemma show_proc_addr_clean: "c \<in> set (show_proc_addr a) \<Longrightarrow> \<not> is_whitespace c \<and> c \<noteq> CHR '':''"
  by (cases a) (auto dest: hex_clean)

lemma u32_hex_bound: "unat (a::u32) < 16 ^ 8"
  by (rule less_le_trans[OF unat_less_power]) simp

lemma show_proc_addr_eq [simp]:
  "hex_fixed 8 (unat (a::u32)) = hex_fixed 8 (unat (b::u32)) \<longleftrightarrow> a = b"
  using hex_fixed_inj[OF u32_hex_bound u32_hex_bound, of a b] unat_inverse by metis

lemma hex_fixed_numeral:
  "hex_fixed (numeral k) v = hex_fixed (pred_numeral k) (v div 16) @ [hex_digit (v mod 16)]"
  by (metis hex_fixed.simps(2) numeral_eq_Suc)

lemma addr_literals:
  "''00000000'' = hex_fixed 8 (unat (0::u32))"
  "''0100007F'' = hex_fixed 8 (unat (0x0100007F::u32))"
  "''01000000'' = hex_fixed 8 (unat (0x01000000::u32))"
  by (simp_all add: hex_fixed_numeral hex_digit_def char_of_def bit_Suc_0_iff)

lemma addr_is_loopback_show: "addr_is_loopback_or_wildcard (show_proc_addr a) = loopback_or_wildcard a"
proof (cases a)
  case (A4 x)
  then show ?thesis
    by (simp only: addr_is_loopback_or_wildcard_def Let_def show_proc_addr.simps uppercase_hex length_hex_fixed
        addr_literals show_proc_addr_eq loopback_or_wildcard.simps simp_thms if_True)
next
  case (A6 p q r s)
  have u: "to_ascii_uppercase (show_proc_addr a) = show_proc_addr a"
    using A6 uppercase_hex by (simp add: to_ascii_uppercase_def)
  let ?z = "hex_fixed 8 (unat (0::u32))"
  have z: "replicate 32 (CHR ''0'') = ?z @ ?z @ ?z @ ?z"
    "''00000000000000000000000001000000'' = ?z @ ?z @ ?z @ hex_fixed 8 (unat (0x01000000::u32))"
    unfolding addr_literals(1,3)[symmetric] by (simp_all add: numeral_eq_Suc)
  have e: "show_proc_addr a = replicate 32 (CHR ''0'') \<longleftrightarrow> p = 0 \<and> q = 0 \<and> r = 0 \<and> s = 0"
    "show_proc_addr a = ''00000000000000000000000001000000'' \<longleftrightarrow> p = 0 \<and> q = 0 \<and> r = 0 \<and> s = 0x01000000"
    by (simp_all only: A6 show_proc_addr.simps z append_eq_append_conv length_append
        length_hex_fixed show_proc_addr_eq simp_thms)
  have "length (show_proc_addr a) = 32" using A6 by simp
  then have "addr_is_loopback_or_wildcard (show_proc_addr a) \<longleftrightarrow>
      show_proc_addr a = replicate 32 (CHR ''0'') \<or> show_proc_addr a = ''00000000000000000000000001000000''"
    unfolding addr_is_loopback_or_wildcard_def Let_def u by simp
  then show ?thesis unfolding e using A6 by auto
qed

lemma split_once_clean: "CHR '':'' \<notin> set a \<Longrightarrow> split_once (CHR '':'') (a @ '':'' @ b) = Some (a, b)"
  by (simp add: split_once_Some_iff)

lemma udp_row_binds_show:
  assumes "row_ok r"
  shows "udp_row_binds port (show_row r) \<longleftrightarrow> pr_port r = port \<and> loopback_or_wildcard (pr_addr r)"
proof -
  let ?local = "show_proc_addr (pr_addr r) @ '':'' @ hex_fixed 4 (unat (pr_port r))"
  have nows: "\<not> is_whitespace (CHR '':'')" and ws: "is_whitespace (CHR '' '')"
    by (simp_all add: is_whitespace_def)
  have "split_whitespace (show_row r) = split_whitespace ((pr_slot r @ '':'') @ '' '' @ ?local @ '' '' @ pr_rest r)"
    using split_whitespace_blanks[of "'' ''"] ws by (simp add: show_row_def)
  also have "\<dots> = (pr_slot r @ '':'') # split_whitespace ('' '' @ ?local @ '' '' @ pr_rest r)"
    using assms nows ws by (intro split_whitespace_word) (auto simp: row_ok_def)
  also have "split_whitespace ('' '' @ ?local @ '' '' @ pr_rest r) = split_whitespace (?local @ '' '' @ pr_rest r)"
    using split_whitespace_blanks[of "'' ''"] ws by simp
  also have "\<dots> = ?local # split_whitespace ('' '' @ pr_rest r)"
    using nows ws by (intro split_whitespace_word) (auto dest: hex_clean show_proc_addr_clean)
  finally have s: "split_whitespace (show_row r) = (pr_slot r @ '':'') # ?local # split_whitespace ('' '' @ pr_rest r)" .
  have "split_once (CHR '':'') ?local = Some (show_proc_addr (pr_addr r), hex_fixed 4 (unat (pr_port r)))"
    by (rule split_once_clean) (auto dest: show_proc_addr_clean)
  moreover have "from_str_radix 16 16 (hex_fixed 4 (unat (pr_port r))) = Some (unat (pr_port r))"
    using unat_less_power[of "pr_port r"] by (intro from_str_radix_hex) simp_all
  ultimately show ?thesis
    by (auto simp: udp_row_binds_def s addr_is_loopback_show unat_inj_iff)
qed

lemma show_row_line:
  assumes "row_ok r"
  shows "CHR 0x0A \<notin> set (show_row r)" and "last (show_row r) \<noteq> CHR 0x0D"
proof -
  have c: "CHR 0x0A \<notin> set (hex_fixed k v)" "CHR 0x0A \<notin> set (show_proc_addr a)" for k v a
    using hex_clean[of "CHR 0x0A" k v] show_proc_addr_clean[of "CHR 0x0A" a] by (auto simp: is_whitespace_def)
  have "CHR 0x0A \<notin> set (pr_slot r)" using assms by (auto simp: row_ok_def is_whitespace_def)
  then show "CHR 0x0A \<notin> set (show_row r)" using assms c by (auto simp: show_row_def row_ok_def)
  have l: "show_row r = (pre @ '' '') @ pr_rest r" if "pre = '' '' @ pr_slot r @ '': '' @ show_proc_addr (pr_addr r)
      @ '':'' @ hex_fixed 4 (unat (pr_port r))" for pre using that by (simp add: show_row_def)
  show "last (show_row r) \<noteq> CHR 0x0D"
    using assms by (cases "pr_rest r = []") (auto simp: l[OF refl] last_append row_ok_def dest: last_in_set)
qed

lemma show_udp_binds:
  assumes "CHR 0x0A \<notin> set header" and "\<forall>r \<in> set rows. row_ok r"
  shows "guest_udp_port_bound_in (show_udp header rows) port \<longleftrightarrow>
    (\<exists>r \<in> set rows. pr_port r = port \<and> loopback_or_wildcard (pr_addr r))"
proof -
  have "\<forall>r \<in> set rows. CHR 0x0A \<notin> set (show_row r) \<and> (show_row r = [] \<or> last (show_row r) \<noteq> CHR 0x0D)"
    using assms(2) show_row_line by blast
  from str_lines_rows[OF this]
  have "drop 1 (str_lines (show_udp header rows)) = map show_row rows"
    using assms(1) split_char_join[of "CHR 0x0A" header]
    by (simp add: show_udp_def str_lines_def split_char_none Let_def split: if_splits)
  then show ?thesis
    using assms(2) udp_row_binds_show by (auto simp: guest_udp_port_bound_in_def list_ex_iff)
qed

text \<open>
  The readiness test reads the socket table exactly. On any table the kernel prints - a header line
  and one line per socket, for either address family - it answers that the guest has bound the port
  exactly when some socket has that local port and the loopback or the wildcard address of its family.
  A socket bound to another address (the public interface) never counts.
\<close>

theorem guest_bind_read_exactly:
  assumes "CHR 0x0A \<notin> set header" and "\<forall>r \<in> set rows. row_ok r"
  shows "guest_udp_port_bound_in (show_udp header rows) port \<longleftrightarrow>
    (\<exists>r \<in> set rows. pr_port r = port \<and> loopback_or_wildcard (pr_addr r))"
  using assms by (rule show_udp_binds)

definition demo_rows :: "proc_row list" where
  "demo_rows = [\<lparr>pr_slot = ''12'', pr_addr = A4 0x0202000A, pr_port = 5000, pr_rest = ''07''\<rparr>,
                \<lparr>pr_slot = ''13'', pr_addr = A4 0x0100007F, pr_port = 6000, pr_rest = ''07''\<rparr>]"

theorem guest_bind_read_exactly_witness:
  "guest_udp_port_bound_in (show_udp ''sl local'' demo_rows) 6000
   \<and> \<not> guest_udp_port_bound_in (show_udp ''sl local'' demo_rows) 5000"
proof -
  have h: "CHR 0x0A \<notin> set ''sl local''" by simp
  have r: "\<forall>r \<in> set demo_rows. row_ok r" by (simp add: demo_rows_def row_ok_def is_whitespace_def)
  show ?thesis
    using guest_bind_read_exactly[OF h r, of 6000] guest_bind_read_exactly[OF h r, of 5000]
    by (simp add: demo_rows_def)
qed
end
