(* ===== verification/L4_Forward.thy ===== *)
theory L4_Forward
  imports Guest_Ports L4_Transit
begin

text \<open>
  The in-VM end of the datagram seam, \<open>crates/jkbase-agent/src/l4_forward.rs\<close>: one port's land-forward
  (\<open>LandForward\<close>), its readiness machine, its flow map with the anti-replay window, and the reply pumps
  it spawns. This theory holds the state and the operations; \<open>L4_Forward_Props\<close> their properties.

  \<^item> A loopback socket is named by the local port it is bound to: the kernel grants a port to one
    socket at a time, so a bind to a port that a flow or a pump of this task still holds fails
    (\<open>held\<close>); whether it succeeds otherwise is up to the tenant's processes (\<open>en_bind_ok\<close>).
  \<^item> The reply pumps are tasks. \<open>ld_pumps\<close> holds the running ones under the identity their flow
    keeps (\<open>lf_pump\<close>, for the \<open>JoinHandle\<close>, the \<open>cancel\<close> handle and the shared \<open>last_seen\<close> cell). A
    cancelled pump that has not stopped within \<open>PUMP_JOIN_MAX\<close> stays running and cancelled.
  \<^item> What a handler reads of its environment (clock, \<open>/proc\<close> texts, bind results, whether a
    cancelled pump stopped in time) is the argument \<open>agent_env\<close>. Send errors are only logged by the
    code and are not modelled; counters are natural numbers.
\<close>

section \<open>Constants\<close>

definition AGENT_L4_MAX_FLOWS :: nat where "AGENT_L4_MAX_FLOWS = 256"
definition UDP_MAX_DATAGRAM :: nat where "UDP_MAX_DATAGRAM = 65535"
definition READINESS_TIMEOUT :: duration where "READINESS_TIMEOUT = from_secs 10"
definition READINESS_NEG_TTL :: duration where "READINESS_NEG_TTL = from_secs 30"
definition AGENT_REPLAY_MAX_PKTS :: nat where "AGENT_REPLAY_MAX_PKTS = 4"
definition AGENT_REPLAY_MAX_BYTES :: nat where "AGENT_REPLAY_MAX_BYTES = 8 * 1024"
definition FLOW_IDLE_HEADROOM_SECS :: nat where "FLOW_IDLE_HEADROOM_SECS = 60"
definition IDLE_CEIL :: nat where "IDLE_CEIL = 600"

definition HOST_IDLE_CEIL_FALLBACK_SECS :: nat where
  "HOST_IDLE_CEIL_FALLBACK_SECS = IDLE_CEIL"

text \<open>Adding two \<open>Duration\<close>s panics when the seconds overflow: \<open>None\<close>.\<close>

definition flow_idle_ttl_for :: "nat \<Rightarrow> duration option" where
  "flow_idle_ttl_for host_idle_secs =
     (let host = (if host_idle_secs = 0 then HOST_IDLE_CEIL_FALLBACK_SECS else host_idle_secs)
      in if host + FLOW_IDLE_HEADROOM_SECS \<le> u64_max
         then Some (from_secs host + from_secs FLOW_IDLE_HEADROOM_SECS) else None)"

section \<open>State\<close>

datatype readiness = Unknown | Probing instant | Ready | NotReady instant

record loopback_flow =
  lf_epoch :: u32
  lf_sock :: u16
  lf_in_nonce_hw :: u64
  lf_last_seen :: nat
  lf_pump :: nat

record drop_counters =
  dc_header_auth_fail :: nat
  dc_nonce_replay :: nat
  dc_stale_epoch :: nat
  dc_agent_map_full :: nat
  dc_replay_buffer_overflow :: nat
  dc_udp_readiness_timeout :: nat
  dc_loopback_bind_fail :: nat
  dc_map_full_evicted :: nat

record reply_pump =
  rp_flow_id :: u32
  rp_epoch :: u32
  rp_loopback :: u16
  rp_reply_to :: sock_addr
  rp_out_nonce :: u64
  rp_cancelled :: bool

record land_forward =
  ld_guest_port :: u16
  ld_secret :: bytes
  ld_flows :: "(u32, loopback_flow) hmap"
  ld_readiness :: readiness
  ld_pending :: "(bytes \<times> sock_addr) list"
  ld_pending_bytes :: nat
  ld_flow_idle_ttl :: duration
  ld_base :: instant
  ld_drops :: drop_counters
  ld_pumps :: "(nat, reply_pump) hmap"
  ld_next_pump :: nat

record agent_env =
  en_now :: instant
  en_udp :: "string option"
  en_udp6 :: "string option"
  en_port_range :: "string option"
  en_bind_ok :: "u16 \<Rightarrow> bool"
  en_ephemeral :: "u16 option"
  en_joined :: "u32 \<Rightarrow> bool"

text \<open>The host-asserted fact of one port (\<open>L4PortFact\<close>, config.rs).\<close>

record l4_port_fact =
  pf_proto :: string
  pf_agent_udp_port :: u16
  pf_guest_port :: u16
  pf_idle_timeout_secs :: nat

type_synonym delivery = "l4_transit_header \<times> bytes \<times> u16"

definition drop_counters_default :: drop_counters where
  "drop_counters_default =
     \<lparr>dc_header_auth_fail = 0, dc_nonce_replay = 0, dc_stale_epoch = 0, dc_agent_map_full = 0,
      dc_replay_buffer_overflow = 0, dc_udp_readiness_timeout = 0, dc_loopback_bind_fail = 0,
      dc_map_full_evicted = 0\<rparr>"

definition drops_total :: "drop_counters \<Rightarrow> nat" where
  "drops_total d =
     dc_header_auth_fail d + dc_nonce_replay d + dc_stale_epoch d + dc_agent_map_full d
     + dc_replay_buffer_overflow d + dc_udp_readiness_timeout d + dc_loopback_bind_fail d
     + dc_map_full_evicted d"

definition drops_flush :: "drop_counters \<Rightarrow> drop_counters" where
  "drops_flush d = (if drops_total d = 0 then d else drop_counters_default)"

definition elapsed_ms :: "instant \<Rightarrow> instant \<Rightarrow> nat" where
  "elapsed_ms base now = ((now - base) div 1000000) mod 2 ^ 64"

text \<open>\<open>run_l4_land_forward\<close> up to its loop: \<open>None\<close> when it starts nothing.\<close>

definition run_l4_land_forward ::
  "l4_port_fact \<Rightarrow> bytes \<Rightarrow> bool \<Rightarrow> instant \<Rightarrow> land_forward option" where
  "run_l4_land_forward pfact transit_secret bind_ok now =
     (if transit_secret = [] then None
      else if to_ascii_lowercase (pf_proto pfact) \<noteq> ''udp'' then None
      else if \<not> bind_ok then None
      else map_option (\<lambda>ttl.
             \<lparr>ld_guest_port = pf_guest_port pfact, ld_secret = transit_secret, ld_flows = [],
              ld_readiness = Unknown, ld_pending = [], ld_pending_bytes = 0, ld_flow_idle_ttl = ttl,
              ld_base = now, ld_drops = drop_counters_default, ld_pumps = [], ld_next_pump = 0\<rparr>)
           (flow_idle_ttl_for (pf_idle_timeout_secs pfact)))"

section \<open>Tasks and sockets\<close>

definition held :: "land_forward \<Rightarrow> u16 \<Rightarrow> bool" where
  "held a p \<longleftrightarrow> list_ex (\<lambda>(_, f). lf_sock f = p) (ld_flows a)
     \<or> list_ex (\<lambda>(_, r). rp_loopback r = p) (ld_pumps a)"

definition open_loopback :: "agent_env \<Rightarrow> u32 \<Rightarrow> land_forward \<Rightarrow> u16 option" where
  "open_loopback en flow_id a =
     connect_loopback (en_port_range en) (\<lambda>p. en_bind_ok en p \<and> \<not> held a p)
       (case en_ephemeral en of Some p \<Rightarrow> if held a p then None else Some p | None \<Rightarrow> None)
       (ld_guest_port a) flow_id"

text \<open>
  Cancelling a pump and waiting for it: a pump that already ended is joined at once, another one
  within the ceiling or not. The result says whether it has stopped.
\<close>

definition pump_stops :: "agent_env \<Rightarrow> u32 \<Rightarrow> loopback_flow \<Rightarrow> land_forward \<Rightarrow> bool" where
  "pump_stops en flow_id f a \<longleftrightarrow> map_of (ld_pumps a) (lf_pump f) = None \<or> en_joined en flow_id"

definition retire :: "agent_env \<Rightarrow> u32 \<Rightarrow> loopback_flow \<Rightarrow> land_forward \<Rightarrow> land_forward" where
  "retire en flow_id f a =
     (case map_of (ld_pumps a) (lf_pump f) of None \<Rightarrow> a
      | Some r \<Rightarrow>
          if en_joined en flow_id then a\<lparr>ld_pumps := hdel (lf_pump f) (ld_pumps a)\<rparr>
          else a\<lparr>ld_pumps := hupd (lf_pump f) (r\<lparr>rp_cancelled := True\<rparr>) (ld_pumps a)\<rparr>)"

fun lru_victim :: "(u32 \<times> loopback_flow) list \<Rightarrow> (u32 \<times> loopback_flow) option" where
  "lru_victim [] = None"
| "lru_victim (x # xs) =
     (case lru_victim xs of None \<Rightarrow> Some x
      | Some y \<Rightarrow> if lf_last_seen (snd x) \<le> lf_last_seen (snd y) then Some x else Some y)"

section \<open>Delivering a frame\<close>

text \<open>Room for one more flow: \<open>None\<close> when the datagram is dropped instead.\<close>

definition make_room :: "agent_env \<Rightarrow> land_forward \<Rightarrow> land_forward \<times> bool" where
  "make_room en a =
     (if length (ld_flows a) < AGENT_L4_MAX_FLOWS then (a, True)
      else (case lru_victim (ld_flows a) of
              None \<Rightarrow> (a\<lparr>ld_drops := (ld_drops a)\<lparr>dc_agent_map_full := dc_agent_map_full (ld_drops a) + 1\<rparr>\<rparr>, False)
            | Some (victim, old) \<Rightarrow>
                (retire en victim old
                   (a\<lparr>ld_flows := hdel victim (ld_flows a),
                      ld_drops := (ld_drops a)\<lparr>dc_map_full_evicted := dc_map_full_evicted (ld_drops a) + 1\<rparr>\<rparr>),
                 True)))"

definition spawn_flow ::
  "agent_env \<Rightarrow> l4_transit_header \<Rightarrow> sock_addr \<Rightarrow> u16 \<Rightarrow> land_forward \<Rightarrow> land_forward" where
  "spawn_flow en hdr src sock a =
     a\<lparr>ld_pumps := hupd (ld_next_pump a)
          \<lparr>rp_flow_id = h_flow_id hdr, rp_epoch = h_epoch hdr, rp_loopback = sock, rp_reply_to = src,
           rp_out_nonce = 1, rp_cancelled = False\<rparr> (ld_pumps a),
       ld_flows := hupd (h_flow_id hdr)
          \<lparr>lf_epoch = h_epoch hdr, lf_sock = sock, lf_in_nonce_hw = h_nonce hdr,
           lf_last_seen = elapsed_ms (ld_base a) (en_now en), lf_pump = ld_next_pump a\<rparr> (ld_flows a),
       ld_next_pump := ld_next_pump a + 1\<rparr>"

definition create_flow_on ::
  "agent_env \<Rightarrow> l4_transit_header \<Rightarrow> bytes \<Rightarrow> sock_addr \<Rightarrow> u16 option \<Rightarrow> land_forward
   \<Rightarrow> delivery list \<times> land_forward" where
  "create_flow_on en hdr payload src reuse a0 =
     (let (a, room) = make_room en a0
      in if \<not> room then ([], a)
         else (case (case reuse of Some s \<Rightarrow> Some s | None \<Rightarrow> open_loopback en (h_flow_id hdr) a) of
                 None \<Rightarrow> ([], a\<lparr>ld_drops := (ld_drops a)\<lparr>dc_loopback_bind_fail := dc_loopback_bind_fail (ld_drops a) + 1\<rparr>\<rparr>)
               | Some sock \<Rightarrow> ([(hdr, payload, sock)], spawn_flow en hdr src sock a)))"

definition create_flow ::
  "agent_env \<Rightarrow> l4_transit_header \<Rightarrow> bytes \<Rightarrow> sock_addr \<Rightarrow> land_forward \<Rightarrow> delivery list \<times> land_forward" where
  "create_flow en hdr payload src a = create_flow_on en hdr payload src None a"

datatype decision = DForward | DReplay | DStale | DSupersede | DNew

definition decide :: "(u32, loopback_flow) hmap \<Rightarrow> l4_transit_header \<Rightarrow> decision" where
  "decide flows hdr =
     (case map_of flows (h_flow_id hdr) of
        None \<Rightarrow> DNew
      | Some f \<Rightarrow>
          if lf_epoch f = h_epoch hdr
          then (if h_nonce hdr \<le> lf_in_nonce_hw f then DReplay else DForward)
          else if h_epoch hdr < lf_epoch f then DStale else DSupersede)"

definition forward_on :: "agent_env \<Rightarrow> l4_transit_header \<Rightarrow> bytes \<Rightarrow> land_forward \<Rightarrow> delivery list \<times> land_forward" where
  "forward_on en hdr payload a =
     (case map_of (ld_flows a) (h_flow_id hdr) of None \<Rightarrow> ([], a)
      | Some f \<Rightarrow>
          ([(hdr, payload, lf_sock f)],
           a\<lparr>ld_flows := hupd (h_flow_id hdr)
               (f\<lparr>lf_in_nonce_hw := h_nonce hdr, lf_last_seen := elapsed_ms (ld_base a) (en_now en)\<rparr>)
               (ld_flows a)\<rparr>))"

definition supersede :: "agent_env \<Rightarrow> l4_transit_header \<Rightarrow> bytes \<Rightarrow> sock_addr \<Rightarrow> land_forward \<Rightarrow> delivery list \<times> land_forward" where
  "supersede en hdr payload src a =
     (case map_of (ld_flows a) (h_flow_id hdr) of
        None \<Rightarrow> create_flow_on en hdr payload src None a
      | Some old \<Rightarrow>
          create_flow_on en hdr payload src
            (if pump_stops en (h_flow_id hdr) old a then Some (lf_sock old) else None)
            (retire en (h_flow_id hdr) old (a\<lparr>ld_flows := hdel (h_flow_id hdr) (ld_flows a)\<rparr>)))"

definition deliver ::
  "hmac \<Rightarrow> agent_env \<Rightarrow> bytes \<Rightarrow> sock_addr \<Rightarrow> land_forward \<Rightarrow> delivery list \<times> land_forward" where
  "deliver hmac en frame src a =
     (case l4_open hmac (ld_secret a) HostToAgent frame of
        None \<Rightarrow> ([], a\<lparr>ld_drops := (ld_drops a)\<lparr>dc_header_auth_fail := dc_header_auth_fail (ld_drops a) + 1\<rparr>\<rparr>)
      | Some (hdr, payload) \<Rightarrow>
          (case decide (ld_flows a) hdr of
             DReplay \<Rightarrow> ([], a\<lparr>ld_drops := (ld_drops a)\<lparr>dc_nonce_replay := dc_nonce_replay (ld_drops a) + 1\<rparr>\<rparr>)
           | DStale \<Rightarrow> ([], a\<lparr>ld_drops := (ld_drops a)\<lparr>dc_stale_epoch := dc_stale_epoch (ld_drops a) + 1\<rparr>\<rparr>)
           | DForward \<Rightarrow> forward_on en hdr payload a
           | DSupersede \<Rightarrow> supersede en hdr payload src a
           | DNew \<Rightarrow> create_flow en hdr payload src a))"

section \<open>The readiness gate\<close>

definition guest_bound :: "agent_env \<Rightarrow> land_forward \<Rightarrow> bool" where
  "guest_bound en a = guest_udp_port_bound (en_udp en) (en_udp6 en) (ld_guest_port a)"

definition buffer :: "bytes \<Rightarrow> sock_addr \<Rightarrow> land_forward \<Rightarrow> land_forward" where
  "buffer frame src a =
     (if length (ld_pending a) \<ge> AGENT_REPLAY_MAX_PKTS
         \<or> ld_pending_bytes a + length frame > AGENT_REPLAY_MAX_BYTES
      then a\<lparr>ld_drops := (ld_drops a)\<lparr>dc_replay_buffer_overflow := dc_replay_buffer_overflow (ld_drops a) + 1\<rparr>\<rparr>
      else a\<lparr>ld_pending_bytes := ld_pending_bytes a + length frame,
             ld_pending := ld_pending a @ [(frame, src)]\<rparr>)"

definition on_inbound ::
  "hmac \<Rightarrow> agent_env \<Rightarrow> bytes \<Rightarrow> sock_addr \<Rightarrow> land_forward \<Rightarrow> delivery list \<times> land_forward" where
  "on_inbound hmac en frame src a =
     (case ld_readiness a of
        Ready \<Rightarrow> deliver hmac en frame src a
      | Unknown \<Rightarrow>
          (if guest_bound en a then deliver hmac en frame src (a\<lparr>ld_readiness := Ready\<rparr>)
           else ([], buffer frame src (a\<lparr>ld_readiness := Probing (en_now en + READINESS_TIMEOUT)\<rparr>)))
      | Probing deadline \<Rightarrow> ([], buffer frame src a)
      | NotReady until \<Rightarrow>
          (if en_now en \<ge> until
           then ([], buffer frame src (a\<lparr>ld_readiness := Probing (en_now en + READINESS_TIMEOUT)\<rparr>))
           else ([], a\<lparr>ld_drops := (ld_drops a)\<lparr>dc_udp_readiness_timeout := dc_udp_readiness_timeout (ld_drops a) + 1\<rparr>\<rparr>)))"

text \<open>Each delivery of the drained buffer meets its own environment (\<open>ens\<close>).\<close>

fun deliver_all ::
  "hmac \<Rightarrow> (nat \<Rightarrow> agent_env) \<Rightarrow> (bytes \<times> sock_addr) list \<Rightarrow> land_forward \<Rightarrow> delivery list \<times> land_forward" where
  "deliver_all hmac ens [] a = ([], a)"
| "deliver_all hmac ens ((frame, src) # rest) a =
     (let (ds, a1) = deliver hmac (ens 0) frame src a;
          (ds', a2) = deliver_all hmac (\<lambda>i. ens (Suc i)) rest a1
      in (ds @ ds', a2))"

definition drain_pending :: "hmac \<Rightarrow> (nat \<Rightarrow> agent_env) \<Rightarrow> land_forward \<Rightarrow> delivery list \<times> land_forward" where
  "drain_pending hmac ens a =
     deliver_all hmac ens (ld_pending a) (a\<lparr>ld_pending := [], ld_pending_bytes := 0\<rparr>)"

definition poll_readiness ::
  "hmac \<Rightarrow> agent_env \<Rightarrow> (nat \<Rightarrow> agent_env) \<Rightarrow> land_forward \<Rightarrow> delivery list \<times> land_forward" where
  "poll_readiness hmac en ens a =
     (case ld_readiness a of
        Probing deadline \<Rightarrow>
          (if guest_bound en a then drain_pending hmac ens (a\<lparr>ld_readiness := Ready\<rparr>)
           else if en_now en \<ge> deadline
           then ([], a\<lparr>ld_drops := (ld_drops a)\<lparr>dc_udp_readiness_timeout :=
                          dc_udp_readiness_timeout (ld_drops a) + length (ld_pending a)\<rparr>,
                       ld_pending := [], ld_pending_bytes := 0,
                       ld_readiness := NotReady (en_now en + READINESS_NEG_TTL)\<rparr>)
           else ([], a))
      | _ \<Rightarrow> ([], a))"

section \<open>Idle sweep and reply pumps\<close>

definition flow_idle :: "agent_env \<Rightarrow> land_forward \<Rightarrow> loopback_flow \<Rightarrow> bool" where
  "flow_idle en a f \<longleftrightarrow>
     elapsed_ms (ld_base a) (en_now en) - lf_last_seen f > (ld_flow_idle_ttl a div 1000000) mod 2 ^ 64"

definition agent_sweep :: "agent_env \<Rightarrow> land_forward \<Rightarrow> land_forward" where
  "agent_sweep en a =
     (let gone = filter (\<lambda>(_, f). flow_idle en a f) (ld_flows a);
          a1 = a\<lparr>ld_flows := filter (\<lambda>(_, f). \<not> flow_idle en a f) (ld_flows a)\<rparr>;
          a2 = fold (\<lambda>(k, f). retire en k f) gone a1
      in a2\<lparr>ld_drops := drops_flush (ld_drops a2)\<rparr>)"

definition touch :: "nat \<Rightarrow> nat \<Rightarrow> (u32, loopback_flow) hmap \<Rightarrow> (u32, loopback_flow) hmap" where
  "touch pid now_ms flows =
     map (\<lambda>(k, f). (k, if lf_pump f = pid then f\<lparr>lf_last_seen := now_ms\<rparr> else f)) flows"

text \<open>One datagram of the application through its flow's pump (\<open>ReplyPump::run\<close>).\<close>

definition pump_reply ::
  "hmac \<Rightarrow> agent_env \<Rightarrow> nat \<Rightarrow> bytes \<Rightarrow> land_forward \<Rightarrow> (bytes \<times> sock_addr) option \<times> land_forward" where
  "pump_reply hmac en pid datagram a =
     (case map_of (ld_pumps a) pid of None \<Rightarrow> (None, a)
      | Some r \<Rightarrow>
          (let payload = take UDP_MAX_DATAGRAM datagram;
               a1 = a\<lparr>ld_flows := touch pid (elapsed_ms (ld_base a) (en_now en)) (ld_flows a)\<rparr>
           in if length payload + L4_HEADER_LEN > UDP_MAX_DATAGRAM then (None, a1)
              else (Some (l4_seal hmac (ld_secret a) AgentToHost
                            \<lparr>h_flow_id = rp_flow_id r, h_epoch = rp_epoch r, h_nonce = rp_out_nonce r\<rparr> payload,
                          rp_reply_to r),
                    a1\<lparr>ld_pumps := hupd pid (r\<lparr>rp_out_nonce := rp_out_nonce r + 1\<rparr>) (ld_pumps a)\<rparr>)))"

definition pump_exit :: "nat \<Rightarrow> land_forward \<Rightarrow> land_forward" where
  "pump_exit pid a = a\<lparr>ld_pumps := hdel pid (ld_pumps a)\<rparr>"

section \<open>Runs\<close>

datatype agent_out = ToApp delivery | ToHost bytes sock_addr

inductive agent_step :: "hmac \<Rightarrow> land_forward \<Rightarrow> agent_out list \<Rightarrow> land_forward \<Rightarrow> bool" for hmac where
  inbound: "on_inbound hmac en frame src a = (ds, a') \<Longrightarrow> agent_step hmac a (map ToApp ds) a'"
| probe: "poll_readiness hmac en ens a = (ds, a') \<Longrightarrow> agent_step hmac a (map ToApp ds) a'"
| sweep: "agent_step hmac a [] (agent_sweep en a)"
| reply: "pump_reply hmac en pid datagram a = (r, a') \<Longrightarrow>
     agent_step hmac a (case r of None \<Rightarrow> [] | Some (f, dst) \<Rightarrow> [ToHost f dst]) a'"
| exit: "agent_step hmac a [] (pump_exit pid a)"

inductive agent_reachable :: "hmac \<Rightarrow> land_forward \<Rightarrow> agent_out list \<Rightarrow> bool" for hmac where
  start: "run_l4_land_forward pfact secret True now = Some a \<Longrightarrow> agent_reachable hmac a []"
| step: "agent_reachable hmac a os \<Longrightarrow> agent_step hmac a os' a' \<Longrightarrow> agent_reachable hmac a' (os @ os')"

inductive_cases agent_stepE: "agent_step hmac a os a'"

end
