(* ===== verification/L4_Forward_Inv.thy ===== *)
theory L4_Forward_Inv
  imports L4_Forward
begin

text \<open>
  The invariant of the in-VM land-forward of \<open>crates/jkbase-agent/src/l4_forward.rs\<close> and its
  preservation by every handler: the flow map stays within its bound, the first-packet buffer within
  its caps and only while probing, flows and reply pumps belong to each other, and a loopback socket
  has one reader.
\<close>

section \<open>Flows, pumps and sockets\<close>

text \<open>
  The relation between the flow map \<open>F\<close> and the running pumps \<open>P\<close>: a flow's pump, while it runs,
  serves that flow and its socket; a pump that is not cancelled belongs to a flow of the map; and a
  socket is used under one pump identity only, so no two pumps read the same socket.
\<close>

definition sock_user :: "(u32 \<rightharpoonup> loopback_flow) \<Rightarrow> (nat \<rightharpoonup> reply_pump) \<Rightarrow> u16 \<Rightarrow> nat \<Rightarrow> bool" where
  "sock_user F P s i \<longleftrightarrow>
     (\<exists>k f. F k = Some f \<and> lf_sock f = s \<and> lf_pump f = i) \<or> (\<exists>r. P i = Some r \<and> rp_loopback r = s)"

definition seam_ok :: "(u32 \<rightharpoonup> loopback_flow) \<Rightarrow> (nat \<rightharpoonup> reply_pump) \<Rightarrow> nat \<Rightarrow> bool" where
  "seam_ok F P n \<longleftrightarrow>
     (\<forall>i r. P i = Some r \<longrightarrow> i < n) \<and> (\<forall>k f. F k = Some f \<longrightarrow> lf_pump f < n)
     \<and> (\<forall>k f k' f'. F k = Some f \<longrightarrow> F k' = Some f' \<longrightarrow> lf_pump f = lf_pump f' \<longrightarrow> k = k')
     \<and> (\<forall>k f r. F k = Some f \<longrightarrow> P (lf_pump f) = Some r \<longrightarrow>
          rp_flow_id r = k \<and> rp_epoch r = lf_epoch f \<and> rp_loopback r = lf_sock f \<and> \<not> rp_cancelled r)
     \<and> (\<forall>i r. P i = Some r \<longrightarrow> \<not> rp_cancelled r \<longrightarrow> (\<exists>k f. F k = Some f \<and> lf_pump f = i))
     \<and> (\<forall>s i j. sock_user F P s i \<longrightarrow> sock_user F P s j \<longrightarrow> i = j)"

lemma seam_okD:
  assumes "seam_ok F P n"
  shows "P i = Some r \<Longrightarrow> i < n" and "F k = Some f \<Longrightarrow> lf_pump f < n"
    and "F k = Some f \<Longrightarrow> F k' = Some f' \<Longrightarrow> lf_pump f = lf_pump f' \<Longrightarrow> k = k'"
    and "F k = Some f \<Longrightarrow> P (lf_pump f) = Some r \<Longrightarrow>
          rp_flow_id r = k \<and> rp_epoch r = lf_epoch f \<and> rp_loopback r = lf_sock f \<and> \<not> rp_cancelled r"
    and "P i = Some r \<Longrightarrow> \<not> rp_cancelled r \<Longrightarrow> \<exists>k f. F k = Some f \<and> lf_pump f = i"
    and "sock_user F P s i \<Longrightarrow> sock_user F P s j \<Longrightarrow> i = j"
  using assms unfolding seam_ok_def by blast+

lemma seam_okI:
  assumes "\<And>i r. P i = Some r \<Longrightarrow> i < n" and "\<And>k f. F k = Some f \<Longrightarrow> lf_pump f < n"
    and "\<And>k f k' f'. F k = Some f \<Longrightarrow> F k' = Some f' \<Longrightarrow> lf_pump f = lf_pump f' \<Longrightarrow> k = k'"
    and "\<And>k f r. F k = Some f \<Longrightarrow> P (lf_pump f) = Some r \<Longrightarrow>
          rp_flow_id r = k \<and> rp_epoch r = lf_epoch f \<and> rp_loopback r = lf_sock f \<and> \<not> rp_cancelled r"
    and "\<And>i r. P i = Some r \<Longrightarrow> \<not> rp_cancelled r \<Longrightarrow> \<exists>k f. F k = Some f \<and> lf_pump f = i"
    and "\<And>s i j. sock_user F P s i \<Longrightarrow> sock_user F P s j \<Longrightarrow> i = j"
  shows "seam_ok F P n"
  using assms unfolding seam_ok_def by meson

lemma seam_ok_empty [simp]: "seam_ok Map.empty Map.empty n"
  by (simp add: seam_ok_def sock_user_def)

text \<open>Removing a flow and its pump, or removing it and leaving the pump cancelled.\<close>

lemma seam_ok_shrink:
  assumes ok: "seam_ok F P n" and k: "F k = Some f"
    and P': "\<And>i r. P' i = Some r \<Longrightarrow> i \<noteq> lf_pump f \<Longrightarrow> P i = Some r"
    and c: "\<And>r. P' (lf_pump f) = Some r \<Longrightarrow> rp_cancelled r \<and> (\<exists>r'. P (lf_pump f) = Some r' \<and> rp_loopback r' = rp_loopback r)"
  shows "seam_ok (F(k := None)) P' n"
proof (rule seam_okI)
  note d = seam_okD[OF ok]
  have F': "F k' = Some f' \<and> lf_pump f' \<noteq> lf_pump f" if "(F(k := None)) k' = Some f'" for k' f'
    using that d(3)[OF _ k] by (auto split: if_splits)
  show "i < n" if "P' i = Some r" for i r
    using that P' c d(1) d(2)[OF k] by (cases "i = lf_pump f") auto
  show "lf_pump f' < n" if "(F(k := None)) k' = Some f'" for k' f'
    using F'[OF that] d(2) by blast
  show "a = b" if "(F(k := None)) a = Some x" "(F(k := None)) b = Some y" "lf_pump x = lf_pump y" for a x b y
    using F'[OF that(1)] F'[OF that(2)] that(3) d(3) by blast
  show "rp_flow_id r = a \<and> rp_epoch r = lf_epoch x \<and> rp_loopback r = lf_sock x \<and> \<not> rp_cancelled r"
    if "(F(k := None)) a = Some x" "P' (lf_pump x) = Some r" for a x r
    using F'[OF that(1)] P'[OF that(2)] d(4) by blast
  show "\<exists>a x. (F(k := None)) a = Some x \<and> lf_pump x = i" if r: "P' i = Some r" "\<not> rp_cancelled r" for i r
  proof -
    have i: "i \<noteq> lf_pump f" using r c by blast
    then obtain a x where "F a = Some x" "lf_pump x = i" using d(5)[OF P'[OF r(1)]] r(2) by blast
    moreover have "a \<noteq> k" using calculation i k by auto
    ultimately show ?thesis by (intro exI[of _ a] exI[of _ x]) simp
  qed
  have u: "sock_user F P s i" if "sock_user (F(k := None)) P' s i" for s i
    using that F' P' c unfolding sock_user_def by metis
  show "i = j" if "sock_user (F(k := None)) P' s i" "sock_user (F(k := None)) P' s j" for s i j
    using d(6)[OF u[OF that(1)] u[OF that(2)]] .
qed

text \<open>Adding a flow on a socket nobody uses, under a new pump.\<close>

lemma seam_ok_add:
  assumes ok: "seam_ok F P n" and k: "F k = None" and s: "\<And>i. \<not> sock_user F P (lf_sock f) i"
    and f: "lf_pump f = n" "rp_loopback r = lf_sock f" "rp_flow_id r = k" "rp_epoch r = lf_epoch f" "\<not> rp_cancelled r"
  shows "seam_ok (F(k \<mapsto> f)) (P(n \<mapsto> r)) (n + 1)"
proof (rule seam_okI)
  note d = seam_okD[OF ok]
  have u: "sock_user F P t i \<or> t = lf_sock f \<and> i = n" if "sock_user (F(k \<mapsto> f)) (P(n \<mapsto> r)) t i" for t i
    using that f unfolding sock_user_def by (auto split: if_splits)
  show "i = j" if "sock_user (F(k \<mapsto> f)) (P(n \<mapsto> r)) t i" "sock_user (F(k \<mapsto> f)) (P(n \<mapsto> r)) t j" for t i j
    using u[OF that(1)] u[OF that(2)] s d(6) by blast
  show "i < n + 1" if "(P(n \<mapsto> r)) i = Some r'" for i r'
    using that d(1)[of i] by (cases "i = n") auto
  show "lf_pump x < n + 1" if "(F(k \<mapsto> f)) a = Some x" for a x
    using that d(2)[of a x] f by (cases "a = k") auto
  show "a = b" if "(F(k \<mapsto> f)) a = Some x" "(F(k \<mapsto> f)) b = Some y" "lf_pump x = lf_pump y" for a x b y
    using that d(2)[of a x] d(2)[of b y] d(3)[of a x b y] f by (auto split: if_splits)
  show "rp_flow_id r' = a \<and> rp_epoch r' = lf_epoch x \<and> rp_loopback r' = lf_sock x \<and> \<not> rp_cancelled r'"
    if "(F(k \<mapsto> f)) a = Some x" "(P(n \<mapsto> r)) (lf_pump x) = Some r'" for a x r'
    using that d(2)[of a x] d(4)[of a x r'] d(1)[of n] f by (auto split: if_splits)
  show "\<exists>a x. (F(k \<mapsto> f)) a = Some x \<and> lf_pump x = i" if p: "(P(n \<mapsto> r)) i = Some r'" "\<not> rp_cancelled r'" for i r'
  proof (cases "i = n")
    case True
    then show ?thesis using f by (intro exI[of _ k] exI[of _ f]) simp
  next
    case False
    then obtain a x where ax: "F a = Some x" "lf_pump x = i" using p d(5)[of i r'] by auto
    then have "a \<noteq> k" using k by auto
    then show ?thesis using ax by (intro exI[of _ a] exI[of _ x]) simp
  qed
qed

text \<open>Changes of nonces and clocks keep the relation.\<close>

lemma seam_ok_update:
  assumes ok: "seam_ok F P n"
    and F': "\<And>k f'. F' k = Some f' \<Longrightarrow> \<exists>f. F k = Some f \<and> lf_pump f = lf_pump f' \<and> lf_sock f = lf_sock f' \<and> lf_epoch f = lf_epoch f'"
    and F: "\<And>k f. F k = Some f \<Longrightarrow> \<exists>f'. F' k = Some f' \<and> lf_pump f = lf_pump f'"
    and P': "\<And>i r'. P' i = Some r' \<Longrightarrow> \<exists>r. P i = Some r \<and> rp_flow_id r' = rp_flow_id r \<and> rp_epoch r' = rp_epoch r
      \<and> rp_loopback r' = rp_loopback r \<and> rp_cancelled r' = rp_cancelled r"
  shows "seam_ok F' P' n"
proof (rule seam_okI)
  note d = seam_okD[OF ok]
  show "i < n" if "P' i = Some r" for i r using P'[OF that] d(1) by blast
  show "lf_pump f < n" if "F' k = Some f" for k f using F'[OF that] d(2) by metis
  show "a = b" if "F' a = Some x" "F' b = Some y" "lf_pump x = lf_pump y" for a x b y
    using F'[OF that(1)] F'[OF that(2)] that(3) d(3) by metis
  show "rp_flow_id r = a \<and> rp_epoch r = lf_epoch x \<and> rp_loopback r = lf_sock x \<and> \<not> rp_cancelled r"
    if "F' a = Some x" "P' (lf_pump x) = Some r" for a x r
    using F'[OF that(1)] P'[OF that(2)] d(4) by metis
  show "\<exists>a x. F' a = Some x \<and> lf_pump x = i" if "P' i = Some r" "\<not> rp_cancelled r" for i r
    using P'[OF that(1)] that(2) d(5) F by metis
  have u: "sock_user F P s i" if "sock_user F' P' s i" for s i
    using that F' P' unfolding sock_user_def by metis
  show "i = j" if "sock_user F' P' s i" "sock_user F' P' s j" for s i j
    using d(6)[OF u[OF that(1)] u[OF that(2)]] .
qed

section \<open>The invariant of a land-forward\<close>

definition pending_ok :: "land_forward \<Rightarrow> bool" where
  "pending_ok a \<longleftrightarrow> length (ld_pending a) \<le> AGENT_REPLAY_MAX_PKTS
     \<and> ld_pending_bytes a = sum_list (map (length \<circ> fst) (ld_pending a))
     \<and> ld_pending_bytes a \<le> AGENT_REPLAY_MAX_BYTES
     \<and> (ld_pending a \<noteq> [] \<longrightarrow> (\<exists>t. ld_readiness a = Probing t))"

definition agent_inv :: "land_forward \<Rightarrow> bool" where
  "agent_inv a \<longleftrightarrow> hm_wf (ld_flows a) \<and> hm_wf (ld_pumps a) \<and> length (ld_flows a) \<le> AGENT_L4_MAX_FLOWS
     \<and> seam_ok (map_of (ld_flows a)) (map_of (ld_pumps a)) (ld_next_pump a)"

lemma held_iff:
  assumes "hm_wf (ld_flows a)" and "hm_wf (ld_pumps a)"
  shows "held a p \<longleftrightarrow> (\<exists>i. sock_user (map_of (ld_flows a)) (map_of (ld_pumps a)) p i)"
  using assms by (auto simp: held_def list_ex_iff sock_user_def hm_wf_map_of_iff)

lemma agent_inv_drops [simp]:
  "agent_inv (a\<lparr>ld_drops := d\<rparr>) = agent_inv a" "agent_inv (a\<lparr>ld_readiness := r\<rparr>) = agent_inv a"
  "agent_inv (a\<lparr>ld_pending := p\<rparr>) = agent_inv a" "agent_inv (a\<lparr>ld_pending_bytes := b\<rparr>) = agent_inv a"
  by (simp_all add: agent_inv_def)

lemma retire_frame [simp]:
  "ld_flows (retire en k f a) = ld_flows a" "ld_next_pump (retire en k f a) = ld_next_pump a"
  "ld_readiness (retire en k f a) = ld_readiness a" "ld_pending (retire en k f a) = ld_pending a"
  "ld_pending_bytes (retire en k f a) = ld_pending_bytes a" "ld_guest_port (retire en k f a) = ld_guest_port a"
  "ld_secret (retire en k f a) = ld_secret a" "ld_base (retire en k f a) = ld_base a"
  "ld_flow_idle_ttl (retire en k f a) = ld_flow_idle_ttl a"
  by (simp_all add: retire_def split: option.splits)

lemma retire_pumps:
  "map_of (ld_pumps (retire en k f a)) i =
     (if i = lf_pump f then (if en_joined en k then None
        else map_option (\<lambda>r. r\<lparr>rp_cancelled := True\<rparr>) (map_of (ld_pumps a) i))
      else map_of (ld_pumps a) i)"
  by (auto simp: retire_def split: option.splits)

lemma hm_wf_retire [simp]: "hm_wf (ld_pumps a) \<Longrightarrow> hm_wf (ld_pumps (retire en k f a))"
  by (simp add: retire_def split: option.splits)

text \<open>Taking a flow out of the map and retiring its pump.\<close>

lemma seam_ok_retire:
  assumes "seam_ok (map_of fl) (map_of (ld_pumps a)) n" and "map_of fl k = Some f"
  shows "seam_ok ((map_of fl)(k := None)) (map_of (ld_pumps (retire en k' f a))) n"
  by (rule seam_ok_shrink[OF assms]) (auto simp: retire_pumps split: if_splits)

lemma evict_inv:
  assumes "agent_inv a" and "map_of (ld_flows a) k = Some f"
  shows "agent_inv (retire en k f (a\<lparr>ld_flows := hdel k (ld_flows a)\<rparr>))"
  using assms seam_ok_retire[of "ld_flows a" "a\<lparr>ld_flows := hdel k (ld_flows a)\<rparr>" "ld_next_pump a" k f en k]
  by (auto simp: agent_inv_def intro: le_trans[OF length_hdel_le])

lemma evict_inv_counted:
  assumes "agent_inv a" and "map_of (ld_flows a) k = Some f"
  shows "agent_inv (retire en k f (a\<lparr>ld_flows := hdel k (ld_flows a), ld_drops := d\<rparr>))"
  using assms seam_ok_retire[of "ld_flows a" "a\<lparr>ld_flows := hdel k (ld_flows a), ld_drops := d\<rparr>" "ld_next_pump a" k f en k]
  by (auto simp: agent_inv_def intro: le_trans[OF length_hdel_le])

lemma lru_victim_Some: "lru_victim xs = Some y \<Longrightarrow> y \<in> set xs \<and> (\<forall>x \<in> set xs. lf_last_seen (snd y) \<le> lf_last_seen (snd x))"
proof (induction xs arbitrary: y)
  case (Cons x xs)
  show ?case
  proof (cases "lru_victim xs")
    case None
    then have "xs = []" by (cases xs) (auto split: option.splits if_splits)
    then show ?thesis using Cons.prems by simp
  next
    case (Some z)
    note z = Cons.IH[OF Some]
    have "y = (if lf_last_seen (snd x) \<le> lf_last_seen (snd z) then x else z)"
      using Cons.prems Some by (simp split: if_splits)
    then show ?thesis using z by (auto intro: order_trans)
  qed
qed simp

lemma lru_victim_None: "lru_victim xs = None \<longleftrightarrow> xs = []"
  by (cases xs) (auto split: option.splits)

lemma lru_victim_flow:
  assumes "agent_inv a" and "lru_victim (ld_flows a) = Some (k, f)"
  shows "map_of (ld_flows a) k = Some f"
  using assms lru_victim_Some[of "ld_flows a" "(k, f)"] by (simp add: agent_inv_def hm_wf_map_of_iff)

text \<open>What making room does: it always succeeds, takes at most one flow away, and leaves a free slot.\<close>

lemma make_room_spec:
  assumes "agent_inv a" and "make_room en a = (a', room)"
  shows "agent_inv a'" and "room" and "length (ld_flows a') < AGENT_L4_MAX_FLOWS"
    and "map_of (ld_flows a') k = Some f \<Longrightarrow> map_of (ld_flows a) k = Some f"
    and "held a' p \<Longrightarrow> held a p"
    and "ld_readiness a' = ld_readiness a \<and> ld_pending a' = ld_pending a \<and> ld_pending_bytes a' = ld_pending_bytes a
      \<and> ld_guest_port a' = ld_guest_port a \<and> ld_secret a' = ld_secret a \<and> ld_base a' = ld_base a
      \<and> ld_next_pump a' = ld_next_pump a"
proof -
  have wf: "hm_wf (ld_flows a)" "hm_wf (ld_pumps a)" "length (ld_flows a) \<le> AGENT_L4_MAX_FLOWS"
    using assms(1) by (simp_all add: agent_inv_def)
  have "agent_inv a' \<and> room \<and> length (ld_flows a') < AGENT_L4_MAX_FLOWS
    \<and> (\<forall>k f. map_of (ld_flows a') k = Some f \<longrightarrow> map_of (ld_flows a) k = Some f) \<and> (\<forall>p. held a' p \<longrightarrow> held a p)
    \<and> ld_readiness a' = ld_readiness a \<and> ld_pending a' = ld_pending a \<and> ld_pending_bytes a' = ld_pending_bytes a
    \<and> ld_guest_port a' = ld_guest_port a \<and> ld_secret a' = ld_secret a \<and> ld_base a' = ld_base a
    \<and> ld_next_pump a' = ld_next_pump a"
  proof (cases "length (ld_flows a) < AGENT_L4_MAX_FLOWS")
    case True
    then show ?thesis using assms by (simp add: make_room_def)
  next
    case False
    then have "ld_flows a \<noteq> []" by (auto simp: AGENT_L4_MAX_FLOWS_def)
    then obtain v old where v: "lru_victim (ld_flows a) = Some (v, old)" using lru_victim_None by (metis not_None_eq surj_pair)
    let ?d = "(ld_drops a)\<lparr>dc_map_full_evicted := dc_map_full_evicted (ld_drops a) + 1\<rparr>"
    have a': "a' = retire en v old (a\<lparr>ld_flows := hdel v (ld_flows a), ld_drops := ?d\<rparr>)" and room
      using assms(2) False v by (simp_all add: make_room_def)
    have o: "map_of (ld_flows a) v = Some old" by (rule lru_victim_flow[OF assms(1) v])
    have inv: "agent_inv a'"
      unfolding a' by (rule evict_inv_counted[OF assms(1) o])
    have len: "length (ld_flows a') < AGENT_L4_MAX_FLOWS"
      using wf o length_hdel[OF wf(1), of v] by (simp add: a' AGENT_L4_MAX_FLOWS_def)
    have "held a' p \<Longrightarrow> held a p" for p
      using wf by (auto simp: held_iff a' sock_user_def retire_pumps split: if_splits) blast+
    then show ?thesis using inv len \<open>room\<close> by (auto simp: a' split: if_splits)
  qed
  then show "agent_inv a'" and "room" and "length (ld_flows a') < AGENT_L4_MAX_FLOWS"
    and "map_of (ld_flows a') k = Some f \<Longrightarrow> map_of (ld_flows a) k = Some f" and "held a' p \<Longrightarrow> held a p"
    and "ld_readiness a' = ld_readiness a \<and> ld_pending a' = ld_pending a \<and> ld_pending_bytes a' = ld_pending_bytes a
      \<and> ld_guest_port a' = ld_guest_port a \<and> ld_secret a' = ld_secret a \<and> ld_base a' = ld_base a
      \<and> ld_next_pump a' = ld_next_pump a" by blast+
qed

lemma connect_loopback_free:
  "connect_loopback file free eph gp fid = Some p \<Longrightarrow> free p \<or> eph = Some p"
proof -
  have "probe_ports cand free i n = Some p \<Longrightarrow> free p" for cand i n
    by (induction n arbitrary: i) (auto split: option.splits if_splits)
  then show "connect_loopback file free eph gp fid = Some p \<Longrightarrow> free p \<or> eph = Some p"
    by (auto simp: connect_loopback_def split: option.splits)
qed

lemma open_loopback_free: "open_loopback en fid a = Some p \<Longrightarrow> \<not> held a p"
  by (auto simp: open_loopback_def dest!: connect_loopback_free split: option.splits if_splits)

section \<open>Every operation keeps the invariant\<close>

definition same_gate :: "land_forward \<Rightarrow> land_forward \<Rightarrow> bool" where
  "same_gate a' a \<longleftrightarrow> ld_readiness a' = ld_readiness a \<and> ld_pending a' = ld_pending a
     \<and> ld_pending_bytes a' = ld_pending_bytes a \<and> ld_guest_port a' = ld_guest_port a \<and> ld_secret a' = ld_secret a
     \<and> ld_base a' = ld_base a"

lemma same_gate_trans: "same_gate a b \<Longrightarrow> same_gate b c \<Longrightarrow> same_gate a c"
  by (simp add: same_gate_def)

lemma same_gate_pending: "same_gate a' a \<Longrightarrow> pending_ok a \<Longrightarrow> pending_ok a'"
  by (simp add: same_gate_def pending_ok_def)

lemma spawn_flow_inv:
  assumes "agent_inv a" and "length (ld_flows a) < AGENT_L4_MAX_FLOWS" and "map_of (ld_flows a) (h_flow_id hdr) = None"
    and "\<not> held a s"
  shows "agent_inv (spawn_flow en hdr src s a)"
proof -
  have wf: "hm_wf (ld_flows a)" "hm_wf (ld_pumps a)" and
    ok: "seam_ok (map_of (ld_flows a)) (map_of (ld_pumps a)) (ld_next_pump a)"
    using assms(1) by (simp_all add: agent_inv_def)
  let ?r = "\<lparr>rp_flow_id = h_flow_id hdr, rp_epoch = h_epoch hdr, rp_loopback = s, rp_reply_to = src,
           rp_out_nonce = 1, rp_cancelled = False\<rparr>"
  let ?f = "\<lparr>lf_epoch = h_epoch hdr, lf_sock = s, lf_in_nonce_hw = h_nonce hdr,
           lf_last_seen = elapsed_ms (ld_base a) (en_now en), lf_pump = ld_next_pump a\<rparr>"
  have "seam_ok ((map_of (ld_flows a))(h_flow_id hdr \<mapsto> ?f)) ((map_of (ld_pumps a))(ld_next_pump a \<mapsto> ?r)) (ld_next_pump a + 1)"
    by (rule seam_ok_add[OF ok assms(3)]) (use assms(4) held_iff[OF wf] in auto)
  then show ?thesis
    using wf assms(2,3) by (simp add: agent_inv_def spawn_flow_def length_hupd)
qed

lemma create_flow_on_inv:
  assumes "agent_inv a" and "map_of (ld_flows a) (h_flow_id hdr) = None" and "\<And>s. reuse = Some s \<Longrightarrow> \<not> held a s"
    and "create_flow_on en hdr payload src reuse a = (ds, a')"
  shows "agent_inv a' \<and> same_gate a' a"
proof -
  obtain a1 room where r: "make_room en a = (a1, room)" by fastforce
  note m = make_room_spec[OF assms(1) r]
  have n: "map_of (ld_flows a1) (h_flow_id hdr) = None"
    using m(4) assms(2) by (metis option.exhaust option.distinct(1))
  define sock where "sock = (case reuse of Some s \<Rightarrow> Some s | None \<Rightarrow> open_loopback en (h_flow_id hdr) a1)"
  have g: "same_gate a1 a" using m(6) by (simp add: same_gate_def)
  show ?thesis
  proof (cases sock)
    case None
    then show ?thesis using assms(4) m(1,2) g r by (auto simp: create_flow_on_def sock_def same_gate_def)
  next
    case (Some s)
    have "\<not> held a1 s"
      using Some assms(3) m(5) open_loopback_free by (auto simp: sock_def split: option.splits)
    then have "agent_inv (spawn_flow en hdr src s a1)" by (rule spawn_flow_inv[OF m(1) m(3) n])
    moreover have "a' = spawn_flow en hdr src s a1"
      using assms(4) m(2) r Some by (simp add: create_flow_on_def sock_def)
    ultimately show ?thesis using g by (simp add: same_gate_def spawn_flow_def)
  qed
qed

text \<open>A superseded flow's socket is free once its pump has stopped.\<close>

lemma stopped_socket_free:
  assumes "agent_inv a" and "map_of (ld_flows a) k = Some f" and "pump_stops en k f a"
  shows "\<not> held (retire en k f (a\<lparr>ld_flows := hdel k (ld_flows a)\<rparr>)) (lf_sock f)"
proof
  let ?a = "retire en k f (a\<lparr>ld_flows := hdel k (ld_flows a)\<rparr>)"
  let ?F = "map_of (ld_flows a)" and ?P = "map_of (ld_pumps a)"
  assume h: "held ?a (lf_sock f)"
  have ok: "seam_ok ?F ?P (ld_next_pump a)" and inv: "agent_inv ?a"
    using assms(1) evict_inv[OF assms(1,2)] by (simp_all add: agent_inv_def)
  have none: "map_of (ld_pumps ?a) (lf_pump f) = None"
    using assms(3) by (auto simp: retire_pumps pump_stops_def)
  obtain i where u: "sock_user (map_of (ld_flows ?a)) (map_of (ld_pumps ?a)) (lf_sock f) i"
    using h inv by (auto simp: held_iff agent_inv_def)
  have own: "sock_user ?F ?P (lf_sock f) (lf_pump f)" using assms(2) by (auto simp: sock_user_def)
  have "sock_user ?F ?P (lf_sock f) i"
    using u by (auto simp: sock_user_def retire_pumps split: if_splits)
  then have i: "i = lf_pump f" using seam_okD(6)[OF ok _ own] by blast
  with u none obtain k' f' where "k' \<noteq> k" "?F k' = Some f'" "lf_pump f' = lf_pump f"
    by (auto simp: sock_user_def split: if_splits)
  then show False using seam_okD(3)[OF ok _ assms(2)] by blast
qed

lemma supersede_inv:
  assumes "agent_inv a" and "supersede en hdr payload src a = (ds, a')" and "map_of (ld_flows a) (h_flow_id hdr) = Some old"
  shows "agent_inv a' \<and> same_gate a' a"
proof -
  let ?k = "h_flow_id hdr"
  let ?a = "retire en ?k old (a\<lparr>ld_flows := hdel ?k (ld_flows a)\<rparr>)"
  have "agent_inv a' \<and> same_gate a' ?a"
  proof (rule create_flow_on_inv)
    show "agent_inv ?a" by (rule evict_inv[OF assms(1,3)])
    show "create_flow_on en hdr payload src (if pump_stops en ?k old a then Some (lf_sock old) else None) ?a = (ds, a')"
      using assms(2,3) by (simp add: supersede_def)
    show "\<not> held ?a s" if "(if pump_stops en ?k old a then Some (lf_sock old) else None) = Some s" for s
      using that stopped_socket_free[OF assms(1,3)] by (auto split: if_splits)
  qed simp
  then show ?thesis by (simp add: same_gate_def)
qed

lemma forward_on_inv:
  assumes "agent_inv a" and "forward_on en hdr payload a = (ds, a')"
  shows "agent_inv a' \<and> same_gate a' a"
proof (cases "map_of (ld_flows a) (h_flow_id hdr)")
  case None
  then show ?thesis using assms by (simp add: forward_on_def same_gate_def)
next
  case (Some f)
  let ?f = "f\<lparr>lf_in_nonce_hw := h_nonce hdr, lf_last_seen := elapsed_ms (ld_base a) (en_now en)\<rparr>"
  have "seam_ok ((map_of (ld_flows a))(h_flow_id hdr \<mapsto> ?f)) (map_of (ld_pumps a)) (ld_next_pump a)"
    by (rule seam_ok_update[of "map_of (ld_flows a)" "map_of (ld_pumps a)"])
      (use assms(1) Some in \<open>auto simp: agent_inv_def split: if_splits\<close>)
  then show ?thesis
    using assms Some by (auto simp: agent_inv_def forward_on_def same_gate_def length_hupd)
qed

lemma deliver_inv:
  assumes "agent_inv a" and "deliver hmac en frame src a = (ds, a')"
  shows "agent_inv a' \<and> same_gate a' a"
proof (cases "l4_open hmac (ld_secret a) HostToAgent frame")
  case None
  then show ?thesis using assms by (auto simp: deliver_def same_gate_def)
next
  case (Some hp)
  obtain hdr payload where hp: "hp = (hdr, payload)" by (cases hp)
  show ?thesis
  proof (cases "decide (ld_flows a) hdr")
    case DForward
    then show ?thesis using assms Some hp forward_on_inv by (simp add: deliver_def)
  next
    case DReplay
    then show ?thesis using assms Some hp by (auto simp: deliver_def same_gate_def)
  next
    case DStale
    then show ?thesis using assms Some hp by (auto simp: deliver_def same_gate_def)
  next
    case DSupersede
    then obtain old where "map_of (ld_flows a) (h_flow_id hdr) = Some old"
      by (auto simp: decide_def split: option.splits)
    then show ?thesis using assms Some hp DSupersede supersede_inv by (simp add: deliver_def)
  next
    case DNew
    then have "map_of (ld_flows a) (h_flow_id hdr) = None"
      by (auto simp: decide_def split: option.splits if_splits)
    then show ?thesis using assms Some hp DNew create_flow_on_inv[of a hdr None] by (simp add: deliver_def create_flow_def)
  qed
qed

lemma deliver_all_inv:
  assumes "agent_inv a" and "deliver_all hmac ens fs a = (ds, a')"
  shows "agent_inv a' \<and> same_gate a' a"
  using assms
proof (induction hmac ens fs a arbitrary: ds a' rule: deliver_all.induct)
  case (1 hmac ens a)
  then show ?case by (simp add: same_gate_def)
next
  case (2 hmac ens frame src rest a)
  obtain d1 a1 where d: "deliver hmac (ens 0) frame src a = (d1, a1)" by fastforce
  obtain d2 a2 where r: "deliver_all hmac (\<lambda>i. ens (Suc i)) rest a1 = (d2, a2)" by fastforce
  have "agent_inv a1" "same_gate a1 a" using deliver_inv[OF 2(2) d] by auto
  with 2(1)[OF d[symmetric] refl _ r] d r 2(3) show ?case by (auto intro: same_gate_trans)
qed

definition agent_ok :: "land_forward \<Rightarrow> bool" where
  "agent_ok a \<longleftrightarrow> agent_inv a \<and> pending_ok a"

lemma deliver_ok: "agent_ok a \<Longrightarrow> deliver hmac en frame src a = (ds, a') \<Longrightarrow> agent_ok a'"
  using deliver_inv same_gate_pending unfolding agent_ok_def by blast

lemma deliver_all_ok: "agent_ok a \<Longrightarrow> deliver_all hmac ens fs a = (ds, a') \<Longrightarrow> agent_ok a'"
  using deliver_all_inv same_gate_pending unfolding agent_ok_def by blast

lemma buffer_ok:
  assumes "agent_inv a" and "pending_ok (a\<lparr>ld_readiness := Probing t\<rparr>)"
  shows "agent_ok (buffer frame src (a\<lparr>ld_readiness := Probing t\<rparr>))"
  using assms by (auto simp: agent_ok_def buffer_def pending_ok_def agent_inv_def)

lemma pending_empty: "pending_ok a \<Longrightarrow> (\<And>t. ld_readiness a \<noteq> Probing t) \<Longrightarrow> ld_pending a = [] \<and> ld_pending_bytes a = 0"
  by (auto simp: pending_ok_def)

lemma on_inbound_ok:
  assumes "agent_ok a" and "on_inbound hmac en frame src a = (ds, a')"
  shows "agent_ok a'"
proof (cases "ld_readiness a")
  case Ready
  then show ?thesis
    using assms deliver_ok[of a hmac en frame src ds a'] by (simp add: on_inbound_def)
next
  case Unknown
  then have e: "ld_pending a = []" "ld_pending_bytes a = 0" using assms(1) pending_empty by (auto simp: agent_ok_def)
  show ?thesis
  proof (cases "guest_bound en a")
    case True
    then have "deliver hmac en frame src (a\<lparr>ld_readiness := Ready\<rparr>) = (ds, a')"
      using assms(2) Unknown by (simp add: on_inbound_def)
    moreover have "agent_ok (a\<lparr>ld_readiness := Ready\<rparr>)"
      using assms(1) e by (simp add: agent_ok_def pending_ok_def)
    ultimately show ?thesis by (rule deliver_ok[rotated])
  next
    case False
    then show ?thesis
      using assms Unknown e buffer_ok[of a "en_now en + READINESS_TIMEOUT" frame src]
      by (auto simp: on_inbound_def agent_ok_def pending_ok_def)
  qed
next
  case (Probing t)
  then have e: "a\<lparr>ld_readiness := Probing t\<rparr> = a" by simp
  have "a' = buffer frame src a" using assms(2) Probing by (simp add: on_inbound_def)
  then show ?thesis
    using assms(1) buffer_ok[of a t frame src] unfolding e agent_ok_def by blast
next
  case (NotReady t)
  then have e: "ld_pending a = []" "ld_pending_bytes a = 0" using assms(1) pending_empty by (auto simp: agent_ok_def)
  show ?thesis
    using assms NotReady e buffer_ok[of a "en_now en + READINESS_TIMEOUT" frame src]
    by (auto simp: on_inbound_def agent_ok_def pending_ok_def split: if_splits)
qed

lemma poll_readiness_ok:
  assumes "agent_ok a" and "poll_readiness hmac en ens a = (ds, a')"
  shows "agent_ok a'"
proof (cases "(\<exists>t. ld_readiness a = Probing t) \<and> guest_bound en a")
  case True
  let ?a = "a\<lparr>ld_readiness := Ready, ld_pending := [], ld_pending_bytes := 0\<rparr>"
  have "deliver_all hmac ens (ld_pending a) ?a = (ds, a')"
    using True assms(2) by (auto simp: poll_readiness_def drain_pending_def)
  moreover have "agent_ok ?a" using assms(1) by (simp add: agent_ok_def agent_inv_def pending_ok_def)
  ultimately show ?thesis by (rule deliver_all_ok[rotated])
next
  case False
  then show ?thesis
    using assms by (auto simp: poll_readiness_def agent_ok_def agent_inv_def pending_ok_def split: readiness.splits if_splits)
qed

text \<open>The sweep takes the idle flows out one by one.\<close>

lemma fold_retire_frame [simp]:
  "ld_flows (fold (\<lambda>(k, f). retire en k f) xs a) = ld_flows a"
  "ld_next_pump (fold (\<lambda>(k, f). retire en k f) xs a) = ld_next_pump a"
  "ld_readiness (fold (\<lambda>(k, f). retire en k f) xs a) = ld_readiness a"
  "ld_pending (fold (\<lambda>(k, f). retire en k f) xs a) = ld_pending a"
  "ld_pending_bytes (fold (\<lambda>(k, f). retire en k f) xs a) = ld_pending_bytes a"
  "ld_guest_port (fold (\<lambda>(k, f). retire en k f) xs a) = ld_guest_port a"
  "ld_secret (fold (\<lambda>(k, f). retire en k f) xs a) = ld_secret a"
  "ld_base (fold (\<lambda>(k, f). retire en k f) xs a) = ld_base a"
  by (induction xs arbitrary: a) auto

lemma seam_ok_fold_retire:
  assumes "seam_ok (map_of fl) (map_of (ld_pumps a)) n" and "hm_wf fl" and "hm_wf (ld_pumps a)"
    and "distinct (map fst xs)" and "\<forall>(k, f) \<in> set xs. map_of fl k = Some f"
  shows "seam_ok (\<lambda>k. if k \<in> fst ` set xs then None else map_of fl k)
      (map_of (ld_pumps (fold (\<lambda>(k, f). retire en k f) xs a))) n
    \<and> hm_wf (ld_pumps (fold (\<lambda>(k, f). retire en k f) xs a))"
  using assms
proof (induction xs arbitrary: a fl)
  case (Cons x xs)
  obtain k f where x: "x = (k, f)" by (cases x)
  have "seam_ok (map_of (hdel k fl)) (map_of (ld_pumps (retire en k f a))) n"
    using seam_ok_retire[of fl a n k f] Cons.prems x by simp
  moreover have "\<forall>(k', f') \<in> set xs. map_of (hdel k fl) k' = Some f'"
    using Cons.prems x by force
  ultimately have s: "seam_ok (\<lambda>k'. if k' \<in> fst ` set xs then None else map_of (hdel k fl) k')
      (map_of (ld_pumps (fold (\<lambda>(k, f). retire en k f) xs (retire en k f a)))) n
    \<and> hm_wf (ld_pumps (fold (\<lambda>(k, f). retire en k f) xs (retire en k f a)))"
    by (intro Cons.IH) (use Cons.prems in \<open>simp_all del: map_of_hdel\<close>)
  have "(\<lambda>k'. if k' \<in> fst ` set xs then None else map_of (hdel k fl) k')
      = (\<lambda>k'. if k' \<in> fst ` set (x # xs) then None else map_of fl k')"
    using x by auto
  then show ?case using s x by simp
qed simp

lemma map_of_filter_value:
  assumes "hm_wf m"
  shows "map_of (filter (\<lambda>(_, v). \<not> Q v) m) = (\<lambda>k. if k \<in> fst ` set (filter (\<lambda>(_, v). Q v) m) then None else map_of m k)"
proof
  fix k
  have "(k \<in> fst ` set (filter (\<lambda>(_, v). Q v) m)) = (\<exists>v. map_of m k = Some v \<and> Q v)"
    using assms by (force simp: hm_wf_map_of_iff)
  then show "map_of (filter (\<lambda>(_, v). \<not> Q v) m) k = (if k \<in> fst ` set (filter (\<lambda>(_, v). Q v) m) then None else map_of m k)"
    using map_of_hretain[OF assms, of "\<lambda>_ v. \<not> Q v" k] by (simp add: hretain_def split: option.splits)
qed

lemma agent_sweep_inv:
  assumes "agent_inv a"
  shows "agent_inv (agent_sweep en a) \<and> same_gate (agent_sweep en a) a"
proof -
  let ?Q = "flow_idle en a"
  let ?gone = "filter (\<lambda>(_, f). ?Q f) (ld_flows a)" and ?kept = "filter (\<lambda>(_, f). \<not> ?Q f) (ld_flows a)"
  let ?a2 = "fold (\<lambda>(k, f). retire en k f) ?gone (a\<lparr>ld_flows := ?kept\<rparr>)"
  have wf: "hm_wf (ld_flows a)" "hm_wf (ld_pumps a)" and
    ok: "seam_ok (map_of (ld_flows a)) (map_of (ld_pumps a)) (ld_next_pump a)" and
    len: "length (ld_flows a) \<le> AGENT_L4_MAX_FLOWS"
    using assms by (simp_all add: agent_inv_def)
  have k: "?kept = hretain (\<lambda>_ f. \<not> ?Q f) (ld_flows a)" by (simp add: hretain_def)
  have "distinct (map fst ?gone)" "\<forall>(k, f) \<in> set ?gone. map_of (ld_flows a) k = Some f"
    using wf hm_wf_hretain[OF wf(1), of "\<lambda>_ f. ?Q f"] by (auto simp: hm_wf_map_of_iff hretain_def hm_wf_def)
  from seam_ok_fold_retire[of "ld_flows a" "a\<lparr>ld_flows := ?kept\<rparr>", OF _ wf(1) _ this]
  have "seam_ok (map_of ?kept) (map_of (ld_pumps ?a2)) (ld_next_pump a) \<and> hm_wf (ld_pumps ?a2)"
    using ok wf by (simp add: map_of_filter_value[OF wf(1)])
  moreover have "length ?kept \<le> AGENT_L4_MAX_FLOWS" "hm_wf ?kept"
    using wf len le_trans[OF length_filter_le len] hm_wf_hretain[OF wf(1)] by (simp, simp add: k)
  ultimately have "agent_inv ?a2" by (simp add: agent_inv_def)
  then show ?thesis by (simp add: same_gate_def agent_sweep_def Let_def)
qed

lemma map_of_touch: "map_of (touch pid t fl) k =
    map_option (\<lambda>f. if lf_pump f = pid then f\<lparr>lf_last_seen := t\<rparr> else f) (map_of fl k)"
proof (induction fl)
  case (Cons x xs)
  then show ?case by (cases x) (simp add: touch_def)
qed (simp add: touch_def)

lemma touch_shape [simp]: "length (touch pid t fl) = length fl" "hm_wf (touch pid t fl) = hm_wf fl"
  by (simp_all add: touch_def hm_wf_def case_prod_beta' comp_def)

lemma pump_reply_inv:
  assumes "agent_inv a" and "pump_reply hmac en pid d a = (r, a')"
  shows "agent_inv a' \<and> same_gate a' a"
proof (cases "map_of (ld_pumps a) pid")
  case None
  then show ?thesis using assms by (simp add: pump_reply_def same_gate_def)
next
  case (Some p)
  let ?fl = "touch pid (elapsed_ms (ld_base a) (en_now en)) (ld_flows a)"
  let ?p = "p\<lparr>rp_out_nonce := rp_out_nonce p + 1\<rparr>"
  have ok: "seam_ok (map_of (ld_flows a)) (map_of (ld_pumps a)) (ld_next_pump a)"
    using assms by (simp add: agent_inv_def)
  have "seam_ok (map_of ?fl) (map_of (ld_pumps a)) (ld_next_pump a)"
    by (rule seam_ok_update[OF ok]) (auto simp: map_of_touch)
  moreover have "seam_ok (map_of ?fl) ((map_of (ld_pumps a))(pid \<mapsto> ?p)) (ld_next_pump a)"
    by (rule seam_ok_update[OF ok]) (use Some in \<open>auto simp: map_of_touch split: if_splits\<close>)
  ultimately show ?thesis
    using assms Some by (auto simp: agent_inv_def same_gate_def pump_reply_def Let_def split: if_splits)
qed

lemma pump_exit_inv:
  assumes "agent_inv a"
  shows "agent_inv (pump_exit pid a) \<and> same_gate (pump_exit pid a) a"
proof -
  have ok: "seam_ok (map_of (ld_flows a)) (map_of (ld_pumps a)) (ld_next_pump a)"
    using assms by (simp add: agent_inv_def)
  have "seam_ok (map_of (ld_flows a)) ((map_of (ld_pumps a))(pid := None)) (ld_next_pump a)"
    by (rule seam_ok_update[OF ok]) (auto split: if_splits)
  then show ?thesis using assms by (simp add: agent_inv_def same_gate_def pump_exit_def)
qed

lemma gate_kept_ok: "agent_inv a' \<and> same_gate a' a \<Longrightarrow> agent_ok a \<Longrightarrow> agent_ok a'"
  using same_gate_pending unfolding agent_ok_def by blast

lemma agent_step_ok: "agent_step hmac a os a' \<Longrightarrow> agent_ok a \<Longrightarrow> agent_ok a'"
proof (induction rule: agent_step.induct)
  case (inbound en frame src a ds a')
  then show ?case by (rule on_inbound_ok[rotated])
next
  case (probe en ens a ds a')
  then show ?case by (rule poll_readiness_ok[rotated])
next
  case (sweep a en)
  then show ?case using gate_kept_ok[OF agent_sweep_inv] unfolding agent_ok_def by blast
next
  case (reply en pid datagram a r a')
  then show ?case using gate_kept_ok[OF pump_reply_inv] unfolding agent_ok_def by blast
next
  case (exit a pid)
  then show ?case using gate_kept_ok[OF pump_exit_inv] unfolding agent_ok_def by blast
qed

lemma agent_start_ok: "run_l4_land_forward fc secret b now = Some a \<Longrightarrow> agent_ok a"
  by (auto simp: run_l4_land_forward_def agent_ok_def agent_inv_def pending_ok_def AGENT_L4_MAX_FLOWS_def
      AGENT_REPLAY_MAX_PKTS_def AGENT_REPLAY_MAX_BYTES_def split: if_splits)

lemma agent_reachable_ok: "agent_reachable hmac a os \<Longrightarrow> agent_ok a"
  by (induction rule: agent_reachable.induct) (auto intro: agent_start_ok agent_step_ok)

end
