(* ===== verification/L4_Forward_Props.thy ===== *)
theory L4_Forward_Props
  imports L4_Forward_Inv
begin

text \<open>
  What the in-VM land-forward guarantees: bounds and ownership of its tables, that the application
  sees only sealed frames and none of them twice while its flow lives, what happens to every kind of
  frame, and how a probing port is decided. A concrete run provides the witnesses.
\<close>

section \<open>A concrete run\<close>

text \<open>
  An agent for guest port 6000 whose application has bound it, in an environment where no candidate
  port is granted and the kernel hands out port 40000.
\<close>

definition demo_udp :: string where
  "demo_udp = show_udp ''sl local'' demo_rows"

definition demo_env :: agent_env where
  "demo_env = \<lparr>en_now = from_secs 5, en_udp = Some demo_udp, en_udp6 = None, en_port_range = None,
     en_bind_ok = (\<lambda>_. False), en_ephemeral = Some 40000, en_joined = (\<lambda>_. True)\<rparr>"

definition demo_fact :: l4_port_fact where
  "demo_fact = \<lparr>pf_proto = ''UDP'', pf_agent_udp_port = 9000, pf_guest_port = 6000, pf_idle_timeout_secs = 60\<rparr>"

definition demo_agent :: land_forward where
  "demo_agent = \<lparr>ld_guest_port = 6000, ld_secret = [7], ld_flows = [], ld_readiness = Unknown, ld_pending = [],
     ld_pending_bytes = 0, ld_flow_idle_ttl = from_secs 60 + from_secs 60, ld_base = 0,
     ld_drops = drop_counters_default, ld_pumps = [], ld_next_pump = 0\<rparr>"

definition demo_frame_hdr :: l4_transit_header where
  "demo_frame_hdr = \<lparr>h_flow_id = 5, h_epoch = 6, h_nonce = 7\<rparr>"

definition demo_host :: sock_addr where
  "demo_host = (V4 10 0 0 1, 7000)"

definition demo_flow1 :: loopback_flow where
  "demo_flow1 = \<lparr>lf_epoch = 6, lf_sock = 40000, lf_in_nonce_hw = 7, lf_last_seen = 5000, lf_pump = 0\<rparr>"

definition demo_pump1 :: reply_pump where
  "demo_pump1 = \<lparr>rp_flow_id = 5, rp_epoch = 6, rp_loopback = 40000, rp_reply_to = demo_host, rp_out_nonce = 1, rp_cancelled = False\<rparr>"

definition demo_agent1 :: land_forward where
  "demo_agent1 = demo_agent\<lparr>ld_readiness := Ready, ld_flows := [(5, demo_flow1)], ld_pumps := [(0, demo_pump1)],
     ld_next_pump := 1\<rparr>"

lemma demo_start: "run_l4_land_forward demo_fact [7] True 0 = Some demo_agent"
proof -
  have "to_ascii_lowercase ''UDP'' = ''udp''" by code_simp
  then show ?thesis
    by (simp add: run_l4_land_forward_def demo_fact_def demo_agent_def flow_idle_ttl_for_def FLOW_IDLE_HEADROOM_SECS_def u64_max_def)
qed

lemma demo_bound: "guest_udp_port_bound (Some demo_udp) None 6000"
proof -
  have h: "CHR 0x0A \<notin> set ''sl local''" by simp
  have r: "\<forall>r \<in> set demo_rows. row_ok r" by (simp add: demo_rows_def row_ok_def is_whitespace_def)
  show ?thesis
    using show_udp_binds[OF h r, of 6000] by (simp add: guest_udp_port_bound_def demo_udp_def demo_rows_def)
qed

lemma probe_ports_none: "(\<And>p. \<not> free p) \<Longrightarrow> probe_ports cand free i n = None"
  by (induction n arbitrary: i) (auto split: option.splits)

lemma demo_open: "open_loopback demo_env k a = (if held a 40000 then None else Some 40000)"
  by (simp add: open_loopback_def connect_loopback_def probe_ports_none demo_env_def)

lemma demo_now: "en_now demo_env = from_secs 5"
  by (simp add: demo_env_def)

lemma demo_deliver:
  "deliver hmac demo_env (l4_seal hmac [7] HostToAgent demo_frame_hdr [1, 2]) demo_host (demo_agent\<lparr>ld_readiness := Ready\<rparr>)
    = ([(demo_frame_hdr, [1, 2], 40000)], demo_agent1)"
  by (simp add: deliver_def transit.open_seal demo_agent_def decide_def create_flow_def create_flow_on_def make_room_def
      AGENT_L4_MAX_FLOWS_def demo_open held_def spawn_flow_def demo_frame_hdr_def demo_agent1_def demo_flow1_def demo_pump1_def
      elapsed_ms_def demo_now from_secs_def)

lemma demo_inbound:
  "on_inbound hmac demo_env (l4_seal hmac [7] HostToAgent demo_frame_hdr [1, 2]) demo_host demo_agent
    = ([(demo_frame_hdr, [1, 2], 40000)], demo_agent1)"
proof -
  have "guest_bound demo_env demo_agent" "ld_readiness demo_agent = Unknown"
    using demo_bound by (simp_all add: guest_bound_def demo_env_def demo_agent_def)
  then show ?thesis by (simp add: on_inbound_def demo_deliver)
qed

lemma demo_agent_reachable: "agent_reachable hmac demo_agent1 [ToApp (demo_frame_hdr, [1, 2], 40000)]"
  using agent_reachable.step[OF agent_reachable.start[OF demo_start] agent_step.inbound[OF demo_inbound]] by simp

section \<open>Properties\<close>

text \<open>
  In every reachable state of the agent, whatever frames and replies arrive and however the
  cancelled pumps linger: the flow map holds at most 256 flows, the first-packet buffer at most 4
  frames of 8 KiB together and nothing once the port is decided; no two running pumps read the same
  loopback socket; and a pump that is not cancelled belongs to the flow of the map with its id, epoch
  and socket.
\<close>

theorem agent_stays_bounded:
  assumes "agent_reachable hmac a os"
  shows "length (ld_flows a) \<le> 256 \<and> length (ld_pending a) \<le> 4
    \<and> sum_list (map (length \<circ> fst) (ld_pending a)) \<le> 8192
    \<and> (ld_pending a = [] \<or> (\<exists>deadline. ld_readiness a = Probing deadline))
    \<and> (\<forall>i r j r'. map_of (ld_pumps a) i = Some r \<and> map_of (ld_pumps a) j = Some r'
          \<and> rp_loopback r = rp_loopback r' \<longrightarrow> i = j)
    \<and> (\<forall>i r. map_of (ld_pumps a) i = Some r \<and> \<not> rp_cancelled r \<longrightarrow>
          (\<exists>f. map_of (ld_flows a) (rp_flow_id r) = Some f \<and> lf_pump f = i \<and> lf_epoch f = rp_epoch r
            \<and> lf_sock f = rp_loopback r))"
proof -
  have inv: "agent_inv a" and p: "pending_ok a" using agent_reachable_ok[OF assms] by (simp_all add: agent_ok_def)
  note d = seam_okD[of "map_of (ld_flows a)" "map_of (ld_pumps a)" "ld_next_pump a"]
  have ok: "seam_ok (map_of (ld_flows a)) (map_of (ld_pumps a)) (ld_next_pump a)" using inv by (simp add: agent_inv_def)
  have "\<forall>i r j r'. map_of (ld_pumps a) i = Some r \<and> map_of (ld_pumps a) j = Some r'
          \<and> rp_loopback r = rp_loopback r' \<longrightarrow> i = j"
    using d(6)[OF ok] unfolding sock_user_def by blast
  moreover have "\<forall>i r. map_of (ld_pumps a) i = Some r \<and> \<not> rp_cancelled r \<longrightarrow>
          (\<exists>f. map_of (ld_flows a) (rp_flow_id r) = Some f \<and> lf_pump f = i \<and> lf_epoch f = rp_epoch r
            \<and> lf_sock f = rp_loopback r)"
    using d(4,5)[OF ok] by metis
  ultimately show ?thesis
    using inv p by (auto simp: agent_inv_def pending_ok_def AGENT_L4_MAX_FLOWS_def AGENT_REPLAY_MAX_PKTS_def AGENT_REPLAY_MAX_BYTES_def)
qed

theorem agent_stays_bounded_witness:
  "length (ld_flows demo_agent1) \<le> 256 \<and> map_of (ld_pumps demo_agent1) 0 = Some demo_pump1
   \<and> (\<exists>f. map_of (ld_flows demo_agent1) 5 = Some f \<and> lf_pump f = 0 \<and> lf_epoch f = 6 \<and> lf_sock f = 40000)"
proof -
  have p: "map_of (ld_pumps demo_agent1) 0 = Some demo_pump1" "\<not> rp_cancelled demo_pump1"
    "rp_flow_id demo_pump1 = 5" "rp_epoch demo_pump1 = 6" "rp_loopback demo_pump1 = 40000"
    by (simp_all add: demo_agent1_def demo_pump1_def)
  show ?thesis
    using agent_stays_bounded[OF demo_agent_reachable[of first_byte_mac]] p by metis
qed

lemma create_flow_on_deliveries:
  "create_flow_on en hdr payload src reuse a = (ds, a') \<Longrightarrow> ds = [] \<or> (\<exists>s. ds = [(hdr, payload, s)])"
  by (auto simp: create_flow_on_def split: prod.splits option.splits if_splits)

lemma deliver_deliveries:
  assumes "deliver hmac en frame src a = (ds, a')"
  shows "ds = [] \<or> (\<exists>hdr payload s. ds = [(hdr, payload, s)] \<and> frame = l4_seal hmac (ld_secret a) HostToAgent hdr payload)"
proof (cases "l4_open hmac (ld_secret a) HostToAgent frame")
  case None
  then show ?thesis using assms by (simp add: deliver_def)
next
  case (Some hp)
  obtain hdr payload where hp: "hp = (hdr, payload)" by (cases hp)
  have f: "frame = l4_seal hmac (ld_secret a) HostToAgent hdr payload" using Some hp transit.open_iff by simp
  have "ds = [] \<or> (\<exists>s. ds = [(hdr, payload, s)])"
    using assms Some hp
    by (auto simp: deliver_def forward_on_def supersede_def create_flow_def split: decision.splits option.splits
        dest: create_flow_on_deliveries)
  then show ?thesis using f by blast
qed

lemma deliver_all_deliveries:
  assumes "agent_inv a" and "deliver_all hmac ens fs a = (ds, a')" and "(hdr, payload, s) \<in> set ds"
  shows "\<exists>src. (l4_seal hmac (ld_secret a) HostToAgent hdr payload, src) \<in> set fs"
  using assms
proof (induction hmac ens fs a arbitrary: ds a' rule: deliver_all.induct)
  case (2 hmac ens frame src rest a)
  note IH = 2(1)
  obtain d1 a1 where d: "deliver hmac (ens 0) frame src a = (d1, a1)" by fastforce
  obtain d2 a2 where r: "deliver_all hmac (\<lambda>i. ens (Suc i)) rest a1 = (d2, a2)" by fastforce
  have i: "agent_inv a1" "ld_secret a1 = ld_secret a"
    using deliver_inv[OF 2(2) d] by (auto simp: same_gate_def)
  consider "(hdr, payload, s) \<in> set d1" | "(hdr, payload, s) \<in> set d2" using 2(3,4) d r by auto
  then show ?case
  proof cases
    case 1
    then have "frame = l4_seal hmac (ld_secret a) HostToAgent hdr payload" using deliver_deliveries[OF d] by auto
    then show ?thesis by (intro exI[of _ src]) simp
  next
    case 2
    obtain src' where "(l4_seal hmac (ld_secret a) HostToAgent hdr payload, src') \<in> set rest"
      using IH[OF d[symmetric] refl i(1) r 2] i(2) by (metis)
    then show ?thesis by (intro exI[of _ src']) simp
  qed
qed simp

text \<open>
  A port's life with what its gate was shown: the environments - clock and \<open>/proc\<close> texts - that its handlers for a frame and
  for the probe were given so far, the latest first.
\<close>

inductive agent_shown :: "hmac \<Rightarrow> agent_env list \<Rightarrow> land_forward \<Rightarrow> bool" for hmac where
  start: "run_l4_land_forward pfact secret True now = Some a \<Longrightarrow> agent_shown hmac [] a"
| inbound: "agent_shown hmac shown a \<Longrightarrow> on_inbound hmac en frame src a = (ds, a') \<Longrightarrow> agent_shown hmac (en # shown) a'"
| probe: "agent_shown hmac shown a \<Longrightarrow> poll_readiness hmac en ens a = (ds, a') \<Longrightarrow> agent_shown hmac (en # shown) a'"
| sweep: "agent_shown hmac shown a \<Longrightarrow> agent_shown hmac shown (agent_sweep en a)"
| reply: "agent_shown hmac shown a \<Longrightarrow> pump_reply hmac en pid datagram a = (r, a') \<Longrightarrow> agent_shown hmac shown a'"
| exit: "agent_shown hmac shown a \<Longrightarrow> agent_shown hmac shown (pump_exit pid a)"

text \<open>The gate opens only when a handler reads the bind, and nothing but the two handlers moves it.\<close>

lemma on_inbound_gate:
  assumes "agent_inv a" "on_inbound hmac en frame src a = (ds, a')"
  shows "ld_guest_port a' = ld_guest_port a \<and> (ld_readiness a' = Ready \<longrightarrow> ld_readiness a = Ready \<or> guest_bound en a)"
proof -
  have "agent_inv (a\<lparr>ld_readiness := Ready\<rparr>)" using assms(1) by (simp add: agent_inv_def)
  note D = deliver_inv[OF this, of hmac en frame src ds a'] deliver_inv[OF assms(1), of hmac en frame src ds a']
  show ?thesis
    using assms(2) D by (cases "ld_readiness a") (auto simp: on_inbound_def same_gate_def buffer_def split: if_splits)
qed

lemma poll_readiness_gate:
  assumes "agent_inv a" "poll_readiness hmac en ens a = (ds, a')"
  shows "ld_guest_port a' = ld_guest_port a \<and> (ld_readiness a' = Ready \<longrightarrow> ld_readiness a = Ready \<or> guest_bound en a)"
proof -
  have "agent_inv (a\<lparr>ld_readiness := Ready, ld_pending := [], ld_pending_bytes := 0\<rparr>)" using assms(1) by (simp add: agent_inv_def)
  note D = deliver_all_inv[OF this, of hmac ens "ld_pending a" ds a']
  show ?thesis
    using assms(2) D by (cases "ld_readiness a") (auto simp: poll_readiness_def drain_pending_def same_gate_def split: if_splits)
qed

lemma guest_bound_port: "ld_guest_port a' = ld_guest_port a \<Longrightarrow> guest_bound en a' = guest_bound en a"
  by (simp add: guest_bound_def)

lemma agent_shown_ready:
  "agent_shown hmac shown a \<Longrightarrow> agent_ok a \<and> (ld_readiness a = Ready \<longrightarrow> (\<exists>e \<in> set shown. guest_bound e a))"
proof (induction rule: agent_shown.induct)
  case (start pfact secret now a)
  then show ?case using agent_start_ok[OF start] by (auto simp: run_l4_land_forward_def split: if_splits)
next
  case (inbound shown a en frame src ds a')
  then have "agent_inv a" by (simp add: agent_ok_def)
  note G = on_inbound_gate[OF this inbound(2)]
  have "guest_bound e a' = guest_bound e a" for e by (rule guest_bound_port) (use G in simp)
  then show ?case using G on_inbound_ok[OF _ inbound(2)] inbound.IH by auto
next
  case (probe shown a en ens ds a')
  then have "agent_inv a" by (simp add: agent_ok_def)
  note G = poll_readiness_gate[OF this probe(2)]
  have "guest_bound e a' = guest_bound e a" for e by (rule guest_bound_port) (use G in simp)
  then show ?case using G poll_readiness_ok[OF _ probe(2)] probe.IH by auto
next
  case (sweep shown a en)
  then show ?case using agent_sweep_inv[of a en] gate_kept_ok[of "agent_sweep en a" a]
    by (auto simp: agent_ok_def same_gate_def guest_bound_def)
next
  case (reply shown a en pid datagram r a')
  then show ?case using pump_reply_inv[of a hmac en pid datagram r a'] gate_kept_ok[of a' a]
    by (auto simp: agent_ok_def same_gate_def guest_bound_def)
next
  case (exit shown a pid)
  then show ?case using pump_exit_inv[of a pid] gate_kept_ok[of "pump_exit pid a" a]
    by (auto simp: agent_ok_def same_gate_def guest_bound_def)
qed

text \<open>
  C29. The application sees nothing but datagrams the host sealed, and only once its bind was
  observed. In any life of the port, whatever the handler for a frame hands to the loopback port is the
  payload of that frame, sealed under the port's transit secret for this direction, and this or an
  earlier reading of the guest's socket table by the gate listed the port as bound; whatever the probe
  hands over is the payload of such a sealed frame that was waiting in the buffer, and the probe has
  just read the port as bound. A readiness timeout never opens the gate.
\<close>

theorem only_sealed_frames_reach_guest:
  assumes "agent_shown hmac shown a" and "delivered = (hdr, payload, s)"
  shows "(on_inbound hmac en frame src a = (ds, a') \<and> delivered \<in> set ds \<longrightarrow>
        frame = l4_seal hmac (ld_secret a) HostToAgent hdr payload \<and> (\<exists>e \<in> set (en # shown). guest_bound e a))
    \<and> (poll_readiness hmac en ens a = (ds, a') \<and> delivered \<in> set ds \<longrightarrow>
        (\<exists>src. (l4_seal hmac (ld_secret a) HostToAgent hdr payload, src) \<in> set (ld_pending a)) \<and> guest_bound en a)"
proof (intro conjI impI; elim conjE)
  have inv: "agent_inv a" and seen: "ld_readiness a = Ready \<Longrightarrow> \<exists>e \<in> set shown. guest_bound e a"
    using agent_shown_ready[OF assms(1)] by (simp_all add: agent_ok_def)
  have "frame = l4_seal hmac (ld_secret a) HostToAgent hdr payload \<and> (ld_readiness a = Ready \<or> guest_bound en a)"
    if "on_inbound hmac en frame src a = (ds, a')" "delivered \<in> set ds"
    using that assms(2) deliver_deliveries[of hmac en frame src a ds a']
      deliver_deliveries[of hmac en frame src "a\<lparr>ld_readiness := Ready\<rparr>" ds a']
    by (auto simp: on_inbound_def split: readiness.splits if_splits)
  then show "frame = l4_seal hmac (ld_secret a) HostToAgent hdr payload" "\<exists>e \<in> set (en # shown). guest_bound e a"
    if "on_inbound hmac en frame src a = (ds, a')" "delivered \<in> set ds"
    using that seen by auto
  assume p: "poll_readiness hmac en ens a = (ds, a')" "delivered \<in> set ds"
  then show b: "guest_bound en a" by (auto simp: poll_readiness_def split: readiness.splits if_splits)
  have "deliver_all hmac ens (ld_pending a) (a\<lparr>ld_readiness := Ready, ld_pending := [], ld_pending_bytes := 0\<rparr>) = (ds, a')"
    using p b by (auto simp: poll_readiness_def drain_pending_def split: readiness.splits)
  from deliver_all_deliveries[OF _ this, of hdr payload s]
  show "\<exists>src. (l4_seal hmac (ld_secret a) HostToAgent hdr payload, src) \<in> set (ld_pending a)"
    using p(2) inv assms(2) by simp
qed

theorem only_sealed_frames_reach_guest_witness:
  "on_inbound first_byte_mac demo_env (l4_seal first_byte_mac [7] HostToAgent demo_frame_hdr [1, 2]) demo_host demo_agent
      = ([(demo_frame_hdr, [1, 2], 40000)], demo_agent1) \<and> (\<exists>e \<in> set [demo_env]. guest_bound e demo_agent)"
proof -
  have "demo_env \<in> set [demo_env]" by simp
  have d: "(demo_frame_hdr, [1, 2], 40000) \<in> set [(demo_frame_hdr, [1, 2], 40000 :: u16)]" by simp
  note only_sealed_frames_reach_guest[OF agent_shown.start[OF demo_start] refl, THEN conjunct1, THEN mp, OF conjI[OF demo_inbound[of first_byte_mac] d]]
  with demo_inbound[of first_byte_mac] show ?thesis by blast
qed

section \<open>The anti-replay window\<close>

text \<open>
  The mark of a flow is its epoch and its high-water nonce; marks are ordered lexicographically.
\<close>

definition mark :: "land_forward \<Rightarrow> u32 \<Rightarrow> (u32 \<times> u64) option" where
  "mark a k = map_option (\<lambda>f. (lf_epoch f, lf_in_nonce_hw f)) (map_of (ld_flows a) k)"

definition mark_less :: "u32 \<times> u64 \<Rightarrow> u32 \<times> u64 \<Rightarrow> bool" where
  "mark_less m m' \<longleftrightarrow> fst m < fst m' \<or> fst m = fst m' \<and> snd m < snd m'"

definition hdr_mark :: "delivery \<Rightarrow> u32 \<times> u64" where
  "hdr_mark d = (h_epoch (fst d), h_nonce (fst d))"

definition flow_marks :: "u32 \<Rightarrow> delivery list \<Rightarrow> (u32 \<times> u64) list" where
  "flow_marks k ds = map hdr_mark (filter (\<lambda>d. h_flow_id (fst d) = k) ds)"

lemma mark_less_trans: "mark_less a b \<Longrightarrow> mark_less b c \<Longrightarrow> mark_less a c"
  by (auto simp: mark_less_def)

lemma mark_less_irrefl: "\<not> mark_less a a"
  by (simp add: mark_less_def)

lemma make_room_marks:
  assumes "agent_inv a" and "make_room en a = (a', room)"
  shows "mark a' k = mark a k \<or> mark a' k = None"
  using make_room_spec(4)[OF assms, of k] by (cases "map_of (ld_flows a') k") (auto simp: mark_def)

lemma create_flow_on_marks:
  assumes "agent_inv a" and "create_flow_on en hdr payload src reuse a = (ds, a')"
  shows "(ds = [] \<and> (mark a' k = mark a k \<or> mark a' k = None))
    \<or> (\<exists>s. ds = [(hdr, payload, s)] \<and> (if k = h_flow_id hdr then mark a' k = Some (h_epoch hdr, h_nonce hdr)
          else mark a' k = mark a k \<or> mark a' k = None))"
proof -
  obtain a1 room where r: "make_room en a = (a1, room)" by fastforce
  show ?thesis
    using make_room_marks[OF assms(1) r, of k] make_room_spec(2)[OF assms(1) r] assms(2) r
    by (auto simp: create_flow_on_def spawn_flow_def mark_def split: option.splits if_splits)
qed

text \<open>One delivery moves the mark of its flow up, and no other mark.\<close>

lemma deliver_marks:
  assumes "agent_inv a" and "deliver hmac en frame src a = (ds, a')"
  shows "(flow_marks k ds = [] \<and> (mark a' k = mark a k \<or> mark a' k = None))
    \<or> (\<exists>m. flow_marks k ds = [m] \<and> mark a' k = Some m \<and> (\<forall>m0. mark a k = Some m0 \<longrightarrow> mark_less m0 m))"
proof (cases "l4_open hmac (ld_secret a) HostToAgent frame")
  case None
  then show ?thesis using assms by (auto simp: deliver_def flow_marks_def mark_def)
next
  case (Some hp)
  obtain hdr payload where hp: "hp = (hdr, payload)" by (cases hp)
  have dv: "(ds, a') = (case decide (ld_flows a) hdr of
             DReplay \<Rightarrow> ([], a\<lparr>ld_drops := (ld_drops a)\<lparr>dc_nonce_replay := dc_nonce_replay (ld_drops a) + 1\<rparr>\<rparr>)
           | DStale \<Rightarrow> ([], a\<lparr>ld_drops := (ld_drops a)\<lparr>dc_stale_epoch := dc_stale_epoch (ld_drops a) + 1\<rparr>\<rparr>)
           | DForward \<Rightarrow> forward_on en hdr payload a
           | DSupersede \<Rightarrow> supersede en hdr payload src a
           | DNew \<Rightarrow> create_flow en hdr payload src a)"
    using assms(2) Some hp by (simp add: deliver_def)
  have fm: "flow_marks k [(hdr, p, s)] = (if h_flow_id hdr = k then [(h_epoch hdr, h_nonce hdr)] else [])" for p s
    by (simp add: flow_marks_def hdr_mark_def)
  show ?thesis
  proof (cases "decide (ld_flows a) hdr")
    case DForward
    then show ?thesis
      using dv fm by (auto simp: forward_on_def decide_def mark_def mark_less_def flow_marks_def hdr_mark_def
          split: option.splits if_splits)
  next
    case DSupersede
    then obtain old where o: "map_of (ld_flows a) (h_flow_id hdr) = Some old" and e: "lf_epoch old < h_epoch hdr"
      by (auto simp: decide_def split: option.splits if_splits)
    let ?a = "retire en (h_flow_id hdr) old (a\<lparr>ld_flows := hdel (h_flow_id hdr) (ld_flows a)\<rparr>)"
    let ?r = "if pump_stops en (h_flow_id hdr) old a then Some (lf_sock old) else None"
    have c: "create_flow_on en hdr payload src ?r ?a = (ds, a')" using dv DSupersede o by (simp add: supersede_def)
    have m: "mark ?a k = (if k = h_flow_id hdr then None else mark a k)" by (simp add: mark_def)
    show ?thesis
      using create_flow_on_marks[OF evict_inv[OF assms(1) o] c, of k] m fm o e
      by (auto simp: flow_marks_def mark_less_def mark_def split: if_splits)
  next
    case DNew
    then have n: "map_of (ld_flows a) (h_flow_id hdr) = None"
      by (auto simp: decide_def split: option.splits if_splits)
    have "create_flow_on en hdr payload src None a = (ds, a')" using dv DNew by (simp add: create_flow_def)
    from create_flow_on_marks[OF assms(1) this, of k] show ?thesis
      using fm n by (auto simp: flow_marks_def mark_def split: if_splits)
  qed (use dv in \<open>auto simp: flow_marks_def mark_def\<close>)
qed

text \<open>
  The life of one flow: any sequence of deliveries, gate changes, sweeps and replies along which the
  flow, once it is in the map, stays there.
\<close>

inductive flow_life :: "hmac \<Rightarrow> u32 \<Rightarrow> land_forward \<Rightarrow> delivery list \<Rightarrow> land_forward \<Rightarrow> bool" for hmac k where
  stop: "flow_life hmac k a [] a"
| deliver: "flow_life hmac k a ds a1 \<Longrightarrow> deliver hmac en frame src a1 = (ds', a2) \<Longrightarrow>
     mark a1 k = None \<or> mark a2 k \<noteq> None \<Longrightarrow> flow_life hmac k a (ds @ ds') a2"
| gate: "flow_life hmac k a ds a1 \<Longrightarrow>
     flow_life hmac k a ds (a1\<lparr>ld_readiness := r, ld_pending := p, ld_pending_bytes := b, ld_drops := d\<rparr>)"
| sweep: "flow_life hmac k a ds a1 \<Longrightarrow> mark a1 k = None \<or> mark (agent_sweep en a1) k \<noteq> None \<Longrightarrow>
     flow_life hmac k a ds (agent_sweep en a1)"
| reply: "flow_life hmac k a ds a1 \<Longrightarrow> pump_reply hmac en pid d a1 = (r, a2) \<Longrightarrow> flow_life hmac k a ds a2"
| exit: "flow_life hmac k a ds a1 \<Longrightarrow> flow_life hmac k a ds (pump_exit pid a1)"

lemma agent_sweep_flows: "ld_flows (agent_sweep en a) = filter (\<lambda>(_, f). \<not> flow_idle en a f) (ld_flows a)"
  by (simp add: agent_sweep_def Let_def)

lemma agent_sweep_map:
  assumes "agent_inv a"
  shows "map_of (ld_flows (agent_sweep en a)) k =
    (case map_of (ld_flows a) k of None \<Rightarrow> None | Some f \<Rightarrow> if flow_idle en a f then None else Some f)"
  using assms map_of_hretain[of "ld_flows a" "\<lambda>_ f. \<not> flow_idle en a f" k]
  by (auto simp: agent_sweep_flows hretain_def agent_inv_def split: option.splits)

lemma agent_sweep_mark:
  "agent_inv a \<Longrightarrow> mark (agent_sweep en a) k = mark a k \<or> mark (agent_sweep en a) k = None"
  by (auto simp: mark_def agent_sweep_map split: option.splits)

lemma pump_reply_mark: "pump_reply hmac en pid d a = (r, a') \<Longrightarrow> mark a' k = mark a k"
  by (cases "map_of (ld_flows a) k")
    (auto simp: pump_reply_def mark_def Let_def map_of_touch split: option.splits if_splits)

lemma sorted_wrt_last_less:
  "sorted_wrt R xs \<Longrightarrow> (\<And>a b c. R a b \<Longrightarrow> R b c \<Longrightarrow> R a c) \<Longrightarrow> R (last xs) m \<Longrightarrow> x \<in> set xs \<Longrightarrow> R x m"
proof (induction xs)
  case (Cons y ys)
  then show ?case by (cases "ys = []") (auto, metis last_in_set)
qed simp

lemma flow_life_marks:
  assumes "flow_life hmac k a ds a'" and "agent_inv a" and "mark a k = Some m0"
  shows "agent_inv a' \<and> sorted_wrt mark_less (m0 # flow_marks k ds) \<and> mark a' k = Some (last (m0 # flow_marks k ds))"
  using assms
proof (induction rule: flow_life.induct)
  case (stop a)
  then show ?case by (simp add: flow_marks_def)
next
  case (deliver a ds a1 en frame src ds' a2)
  let ?l = "m0 # flow_marks k ds"
  have IH: "agent_inv a1" "sorted_wrt mark_less ?l" "mark a1 k = Some (last ?l)" using deliver by auto
  have app: "m0 # flow_marks k (ds @ ds') = ?l @ flow_marks k ds'" by (simp add: flow_marks_def)
  consider "flow_marks k ds' = []" "mark a2 k = mark a1 k"
    | m where "flow_marks k ds' = [m]" "mark a2 k = Some m" "mark_less (last ?l) m"
    using deliver_marks[OF IH(1) deliver.hyps(2), of k] deliver.hyps(3) IH(3) by auto
  then show ?case
  proof cases
    case 1
    then show ?thesis using IH deliver_inv[OF IH(1) deliver.hyps(2)] app by simp
  next
    case 2
    have "mark_less x m" if "x \<in> set ?l" for x
      by (rule sorted_wrt_last_less[OF IH(2) _ 2(3) that]) (rule mark_less_trans)
    then show ?thesis
      unfolding app using IH(2) 2 deliver_inv[OF IH(1) deliver.hyps(2)] by (simp only: sorted_wrt_append) simp
  qed
next
  case (sweep a ds a1 en)
  then show ?case using agent_sweep_mark[of a1 en k] agent_sweep_inv by auto
next
  case (reply a ds a1 en pid d r a2)
  then show ?case using pump_reply_mark[of hmac en pid d a1 r a2 k] pump_reply_inv by metis
next
  case (exit a ds a1 pid)
  then show ?case using pump_exit_inv by (simp add: mark_def pump_exit_def)
qed (simp add: mark_def)

lemma sorted_marks_distinct: "sorted_wrt mark_less xs \<Longrightarrow> distinct xs"
  by (induction xs) (auto simp: mark_less_irrefl)

text \<open>
  C30. No replay while the flow lives. From any state with the invariant in which a flow is in the
  map, along any sequence of deliveries, sweeps, replies and gate changes that keeps it there, the
  frames handed to the application for that flow have strictly increasing (epoch, nonce) pairs, all
  above the high-water mark at the start. So no frame is handed over twice, and none of a superseded
  epoch.
\<close>

theorem no_replay_while_flow_lives:
  assumes "flow_life hmac k a ds a'" and "agent_inv a" and "mark a k = Some m0"
  shows "sorted_wrt mark_less (m0 # flow_marks k ds) \<and> distinct (flow_marks k ds)
    \<and> mark a' k = Some (last (m0 # flow_marks k ds))"
  using flow_life_marks[OF assms] sorted_marks_distinct[of "m0 # flow_marks k ds"] by simp

definition demo_next :: l4_transit_header where
  "demo_next = \<lparr>h_flow_id = 5, h_epoch = 6, h_nonce = 8\<rparr>"

definition demo_agent2 :: land_forward where
  "demo_agent2 = demo_agent1\<lparr>ld_flows := [(5, demo_flow1\<lparr>lf_in_nonce_hw := 8\<rparr>)]\<rparr>"

lemma demo_agent1_inv: "agent_inv demo_agent1"
  using agent_reachable_ok[OF demo_agent_reachable] by (simp add: agent_ok_def)

lemma demo_forward:
  "deliver hmac demo_env (l4_seal hmac [7] HostToAgent demo_next p) src demo_agent1 = ([(demo_next, p, 40000)], demo_agent2)"
  by (simp add: deliver_def transit.open_seal demo_agent_def demo_agent1_def demo_agent2_def demo_flow1_def decide_def
      forward_on_def demo_next_def elapsed_ms_def demo_now from_secs_def)

theorem no_replay_while_flow_lives_witness:
  "sorted_wrt mark_less [(6, 7), (6, 8)] \<and> mark demo_agent2 5 = Some (6, 8)"
proof -
  have "flow_life first_byte_mac 5 demo_agent1 ([] @ [(demo_next, [9], 40000)]) demo_agent2"
    by (rule flow_life.deliver[OF flow_life.stop demo_forward]) (simp add: mark_def demo_agent2_def)
  from no_replay_while_flow_lives[OF this demo_agent1_inv, of "(6, 7)"] show ?thesis
    by (simp add: mark_def demo_agent1_def demo_flow1_def flow_marks_def hdr_mark_def demo_next_def)
qed

text \<open>
  The window does not outlive the map entry. Once a flow has left the map - swept as idle, or
  recycled because the map was full - a frame that was already handed to the application is handed to
  it again when it is sent again, as long as a loopback socket can be opened: the new entry takes the
  replayed nonce as its high-water mark.
\<close>

lemma inbound_recreates:
  assumes "agent_inv a" and "map_of (ld_flows a) (h_flow_id hdr) = None" and "ld_readiness a = Ready"
    and "open_loopback en (h_flow_id hdr) (fst (make_room en a)) = Some s"
  shows "on_inbound hmac en (l4_seal hmac (ld_secret a) HostToAgent hdr payload) src a
      = ([(hdr, payload, s)], spawn_flow en hdr src s (fst (make_room en a)))"
proof -
  obtain a1 room where r: "make_room en a = (a1, room)" by fastforce
  have "create_flow_on en hdr payload src None a = ([(hdr, payload, s)], spawn_flow en hdr src s a1)"
    using make_room_spec(2)[OF assms(1) r] assms(4) r by (simp add: create_flow_on_def)
  moreover have "decide (ld_flows a) hdr = DNew" using assms(2) by (simp add: decide_def)
  ultimately show ?thesis
    using assms(3) r by (simp add: on_inbound_def deliver_def transit.open_seal create_flow_def)
qed

lemma evicted_flow_accepts_replay:
  assumes "agent_inv a" and "map_of (ld_flows a) (h_flow_id hdr) = None" and "ld_readiness a = Ready"
    and "open_loopback en (h_flow_id hdr) (fst (make_room en a)) = Some s"
  shows "\<exists>a'. on_inbound hmac en (l4_seal hmac (ld_secret a) HostToAgent hdr payload) src a = ([(hdr, payload, s)], a')
    \<and> mark a' (h_flow_id hdr) = Some (h_epoch hdr, h_nonce hdr)"
  using inbound_recreates[OF assms] by (simp add: mark_def spawn_flow_def)

definition late_env :: agent_env where
  "late_env = demo_env\<lparr>en_now := from_secs 500\<rparr>"

text \<open>The frame of the first run, sent again after the idle sweep, reaches the application twice.\<close>

lemma evicted_flow_replayed:
  "fst (on_inbound first_byte_mac demo_env (l4_seal first_byte_mac [7] HostToAgent demo_frame_hdr [1, 2]) demo_host demo_agent)
     = [(demo_frame_hdr, [1, 2], 40000)]
   \<and> fst (on_inbound first_byte_mac late_env (l4_seal first_byte_mac [7] HostToAgent demo_frame_hdr [1, 2]) demo_host
            (agent_sweep late_env demo_agent1)) = [(demo_frame_hdr, [1, 2], 40000)]"
proof -
  let ?a = "agent_sweep late_env demo_agent1"
  have inv: "agent_inv ?a" using agent_sweep_inv[OF demo_agent1_inv] by simp
  have idle: "flow_idle late_env demo_agent1 demo_flow1"
    by (simp add: flow_idle_def late_env_def demo_flow1_def demo_agent1_def demo_agent_def elapsed_ms_def from_secs_def)
  have fl: "ld_flows ?a = []" using idle by (simp add: agent_sweep_flows demo_agent1_def)
  have idle': "flow_idle late_env (demo_agent\<lparr>ld_readiness := Ready, ld_flows := [(5, demo_flow1)], ld_pumps := [(0, demo_pump1)],
     ld_next_pump := 1\<rparr>) demo_flow1" using idle by (simp add: demo_agent1_def)
  have pu: "ld_pumps ?a = []"
    using idle' by (simp add: agent_sweep_def Let_def demo_agent1_def retire_def late_env_def demo_env_def demo_flow1_def)
  have rest: "ld_readiness ?a = Ready" "ld_secret ?a = [7]"
    by (simp_all add: agent_sweep_def Let_def demo_agent1_def demo_agent_def)
  have "open_loopback late_env (h_flow_id demo_frame_hdr) (fst (make_room late_env ?a)) = Some 40000"
    using fl pu by (simp add: make_room_def AGENT_L4_MAX_FLOWS_def open_loopback_def connect_loopback_def probe_ports_none
        late_env_def demo_env_def held_def)
  from evicted_flow_accepts_replay[OF inv _ rest(1) this, of first_byte_mac "[1, 2]" demo_host] fl rest(2)
  show ?thesis by (auto simp: demo_inbound)
qed

lemma deliver_sealed:
  "deliver hmac en (l4_seal hmac (ld_secret a) HostToAgent hdr payload) src a =
     (case decide (ld_flows a) hdr of
        DReplay \<Rightarrow> ([], a\<lparr>ld_drops := (ld_drops a)\<lparr>dc_nonce_replay := dc_nonce_replay (ld_drops a) + 1\<rparr>\<rparr>)
      | DStale \<Rightarrow> ([], a\<lparr>ld_drops := (ld_drops a)\<lparr>dc_stale_epoch := dc_stale_epoch (ld_drops a) + 1\<rparr>\<rparr>)
      | DForward \<Rightarrow> forward_on en hdr payload a
      | DSupersede \<Rightarrow> supersede en hdr payload src a
      | DNew \<Rightarrow> create_flow en hdr payload src a)"
  by (simp add: deliver_def transit.open_seal)

lemma decide_cases:
  assumes "map_of fl k = Some f" and "h_flow_id hdr = k"
  shows "lf_epoch f < h_epoch hdr \<Longrightarrow> decide fl hdr = DSupersede"
    and "h_epoch hdr < lf_epoch f \<Longrightarrow> decide fl hdr = DStale"
    and "h_epoch hdr = lf_epoch f \<Longrightarrow> h_nonce hdr \<le> lf_in_nonce_hw f \<Longrightarrow> decide fl hdr = DReplay"
    and "h_epoch hdr = lf_epoch f \<Longrightarrow> lf_in_nonce_hw f < h_nonce hdr \<Longrightarrow> decide fl hdr = DForward"
  using assms by (auto simp: decide_def leD)

text \<open>
  What happens to an authentic frame of a flow in the map. A frame of an older epoch and a frame
  of the current epoch at or below the high-water mark are dropped and change no flow; a newer nonce
  of the current epoch is handed over on the flow's socket and moves the mark; a newer epoch
  supersedes the entry, and when the old pump stops in time the flow keeps its loopback socket, so the
  application sees the same peer. No other flow changes in any of these cases.
\<close>

theorem deliver_decides:
  assumes "agent_inv a" and "map_of (ld_flows a) k = Some f" and "h_flow_id hdr = k"
    and "deliver hmac en (l4_seal hmac (ld_secret a) HostToAgent hdr payload) src a = (ds, a')"
  shows "(h_epoch hdr < lf_epoch f \<or> h_epoch hdr = lf_epoch f \<and> h_nonce hdr \<le> lf_in_nonce_hw f \<longrightarrow>
        ds = [] \<and> ld_flows a' = ld_flows a \<and> ld_pumps a' = ld_pumps a)
    \<and> (h_epoch hdr = lf_epoch f \<and> lf_in_nonce_hw f < h_nonce hdr \<longrightarrow>
        ds = [(hdr, payload, lf_sock f)] \<and> map_of (ld_flows a') = (map_of (ld_flows a))(k \<mapsto>
          f\<lparr>lf_in_nonce_hw := h_nonce hdr, lf_last_seen := elapsed_ms (ld_base a) (en_now en)\<rparr>))
    \<and> (lf_epoch f < h_epoch hdr \<and> pump_stops en k f a \<longrightarrow>
        ds = [(hdr, payload, lf_sock f)] \<and> map_of (ld_flows a') = (map_of (ld_flows a))(k \<mapsto>
          \<lparr>lf_epoch = h_epoch hdr, lf_sock = lf_sock f, lf_in_nonce_hw = h_nonce hdr,
           lf_last_seen = elapsed_ms (ld_base a) (en_now en), lf_pump = ld_next_pump a\<rparr>))"
proof (intro conjI impI; elim conjE disjE)
  assume e: "lf_epoch f < h_epoch hdr" "pump_stops en k f a"
  let ?a = "retire en k f (a\<lparr>ld_flows := hdel k (ld_flows a)\<rparr>)"
  have len: "length (ld_flows ?a) < AGENT_L4_MAX_FLOWS"
    using assms(1,2) length_hdel[of "ld_flows a" k] by (auto simp: agent_inv_def AGENT_L4_MAX_FLOWS_def)
  have "supersede en hdr payload src a = ([(hdr, payload, lf_sock f)], spawn_flow en hdr src (lf_sock f) ?a)"
    using assms(2,3) e(2) len by (simp add: supersede_def create_flow_on_def make_room_def)
  then have r: "ds = [(hdr, payload, lf_sock f)]" "a' = spawn_flow en hdr src (lf_sock f) ?a"
    using assms(4) deliver_sealed[of hmac en a hdr payload src] decide_cases(1)[OF assms(2,3) e(1)] by simp_all
  show "ds = [(hdr, payload, lf_sock f)]" by (rule r)
  show "map_of (ld_flows a') = (map_of (ld_flows a))(k \<mapsto>
          \<lparr>lf_epoch = h_epoch hdr, lf_sock = lf_sock f, lf_in_nonce_hw = h_nonce hdr,
           lf_last_seen = elapsed_ms (ld_base a) (en_now en), lf_pump = ld_next_pump a\<rparr>)"
    using r assms(3) by (simp add: spawn_flow_def)
qed (use assms(4) decide_cases(2-4)[OF assms(2,3)] assms(2,3) in \<open>auto simp: deliver_sealed forward_on_def\<close>)

theorem deliver_decides_witness:
  "deliver first_byte_mac demo_env (l4_seal first_byte_mac (ld_secret demo_agent1) HostToAgent (demo_frame_hdr\<lparr>h_epoch := 9\<rparr>) [3]) demo_host demo_agent1
     = ([(demo_frame_hdr\<lparr>h_epoch := 9\<rparr>, [3], 40000)],
        snd (deliver first_byte_mac demo_env (l4_seal first_byte_mac (ld_secret demo_agent1) HostToAgent (demo_frame_hdr\<lparr>h_epoch := 9\<rparr>) [3]) demo_host demo_agent1))"
  using deliver_decides[OF demo_agent1_inv, of 5 demo_flow1 "demo_frame_hdr\<lparr>h_epoch := 9\<rparr>" first_byte_mac demo_env "[3]" demo_host,
      OF _ _ prod.collapse[symmetric]]
  by (simp add: demo_agent1_def demo_frame_hdr_def demo_flow1_def pump_stops_def demo_env_def prod_eq_iff)

section \<open>The readiness machine\<close>

text \<open>
  A probing port is decided. At a probe the guest's bind opens the gate and every buffered frame
  is delivered in arrival order; without it nothing happens before the deadline, and from the deadline
  on the buffer is dropped, each frame counted, and the port is refused for 30 seconds, during which
  an arriving frame is neither buffered nor delivered. A frame arriving after that starts a new probe.
\<close>

theorem probing_is_decided:
  assumes "ld_readiness a = Probing deadline" and "poll_readiness hmac en ens a = (ds, a')"
  shows "(guest_bound en a \<longrightarrow>
        (ds, a') = deliver_all hmac ens (ld_pending a) (a\<lparr>ld_readiness := Ready, ld_pending := [], ld_pending_bytes := 0\<rparr>))
    \<and> (\<not> guest_bound en a \<and> en_now en < deadline \<longrightarrow> ds = [] \<and> a' = a)
    \<and> (\<not> guest_bound en a \<and> deadline \<le> en_now en \<longrightarrow>
        ds = [] \<and> ld_pending a' = [] \<and> ld_flows a' = ld_flows a
        \<and> drops_total (ld_drops a') = drops_total (ld_drops a) + length (ld_pending a)
        \<and> (\<forall>en' frame src. on_inbound hmac en' frame src a' =
             (if en_now en' < en_now en + from_secs 30
              then ([], a'\<lparr>ld_drops := (ld_drops a')\<lparr>dc_udp_readiness_timeout := dc_udp_readiness_timeout (ld_drops a') + 1\<rparr>\<rparr>)
              else ([], buffer frame src (a'\<lparr>ld_readiness := Probing (en_now en' + from_secs 10)\<rparr>)))))"
  using assms
  by (auto simp: poll_readiness_def drain_pending_def on_inbound_def drops_total_def READINESS_NEG_TTL_def
      READINESS_TIMEOUT_def split: if_splits)

definition demo_probing :: land_forward where
  "demo_probing = demo_agent\<lparr>ld_readiness := Probing (from_secs 4), ld_pending := [([1], demo_host)], ld_pending_bytes := 1\<rparr>"

definition blind_env :: agent_env where
  "blind_env = demo_env\<lparr>en_udp := None\<rparr>"

theorem probing_is_decided_witness:
  "fst (poll_readiness first_byte_mac blind_env (\<lambda>_. blind_env) demo_probing) = []
   \<and> ld_pending (snd (poll_readiness first_byte_mac blind_env (\<lambda>_. blind_env) demo_probing)) = []
   \<and> drops_total (ld_drops (snd (poll_readiness first_byte_mac blind_env (\<lambda>_. blind_env) demo_probing))) = 1"
proof -
  have r: "ld_readiness demo_probing = Probing (from_secs 4)" by (simp add: demo_probing_def)
  have "guest_udp_port_bound_in [] p = False" for p by (simp add: guest_udp_port_bound_in_def str_lines_def)
  then have b: "\<not> guest_bound blind_env demo_probing"
    by (simp add: guest_bound_def blind_env_def demo_env_def guest_udp_port_bound_def)
  have t: "from_secs 4 \<le> en_now blind_env" by (simp add: blind_env_def demo_now from_secs_def)
  have d: "drops_total (ld_drops demo_probing) = 0" "length (ld_pending demo_probing) = 1"
    by (simp_all add: demo_probing_def demo_agent_def drops_total_def drop_counters_default_def)
  show ?thesis
    using probing_is_decided[where hmac = first_byte_mac and en = blind_env and ens = "\<lambda>_. blind_env",
        OF r prod.collapse[symmetric]] b t d by simp
qed

end
