(* ===== verification/L4_Seam.thy ===== *)
theory L4_Seam
  imports L4_Port_Props L4_Forward_Props
begin

text \<open>
  The host port (\<open>L4_Ingress\<close>) and the in-VM land-forward (\<open>L4_Forward\<close>) composed: streams of datagrams
  from a client through the port and the agent to the application, and of replies from the
  application through its pump to the port.
\<close>

section \<open>The two ends of the seam together\<close>

text \<open>
  A client's datagrams through the host port, one reach decision each, and the frames through the
  agent, one inbound handler each. Every frame is handed on: a frame above what a UDP datagram can
  carry, whose send fails without a trace, is outside of this composition.
\<close>

fun send_stream ::
  "hmac \<Rightarrow> l4_port_spec \<Rightarrow> sock_addr \<Rightarrow> (bytes \<times> instant) list \<Rightarrow> port_state \<Rightarrow> plane \<Rightarrow> out list" where
  "send_stream hmac spec src [] st p = []"
| "send_stream hmac spec src ((d, now) # ds) st p =
     (let (o', st', p') = reach_decide None spec src d now st p
      in reach_out hmac spec d o' @ send_stream hmac spec src ds st' p')"

fun receive_stream :: "hmac \<Rightarrow> sock_addr \<Rightarrow> (agent_env \<times> out) list \<Rightarrow> land_forward \<Rightarrow> delivery list" where
  "receive_stream hmac host [] a = []"
| "receive_stream hmac host ((en, o') # os) a =
     (case o' of
        ToGuest frame _ \<Rightarrow>
          (let (ds, a') = on_inbound hmac en frame host a in ds @ receive_stream hmac host os a')
      | ToClient _ _ \<Rightarrow> receive_stream hmac host os a)"

lemma maybe_promote_keeps:
  "maybe_promote base tenant now f p = (f', p') \<Longrightarrow>
   fl_flow_id f' = fl_flow_id f \<and> fl_epoch f' = fl_epoch f \<and> fl_out_nonce f' = fl_out_nonce f"
  by (auto simp: maybe_promote_def Let_def split: if_splits prod.splits option.splits)

lemma reach_hit_forwards:
  assumes "map_of (ps_flows st) src = Some f" and "ps_vm_dst st = Some dst"
  shows "\<exists>f' st' p'. reach_decide mi spec src d now st p = (Forward (fl_flow_id f) (fl_epoch f) (fl_out_nonce f + 1) dst, st', p')
    \<and> map_of (ps_flows st') src = Some f' \<and> ps_vm_dst st' = Some dst
    \<and> fl_flow_id f' = fl_flow_id f \<and> fl_epoch f' = fl_epoch f \<and> fl_out_nonce f' = fl_out_nonce f + 1"
proof -
  let ?f = "flow_saw now (length d) (sp_amp_k spec) f"
  obtain g q where g: "maybe_promote (sp_base_project spec) (sp_tenant_id spec) now ?f
      (pl_note_ingress (sp_base_project spec) (length d) (sp_amp_k spec) now p) = (g, q)" by fastforce
  show ?thesis
    using maybe_promote_keeps[OF g] g assms by (simp add: reach_decide_def reach_hit_def Let_def flow_saw_def)
qed

lemma inbound_forwards:
  assumes "ld_readiness a = Ready" and "map_of (ld_flows a) k = Some g" and "h_flow_id hdr = k"
    and "h_epoch hdr = lf_epoch g" and "lf_in_nonce_hw g < h_nonce hdr"
  shows "\<exists>g' a'. on_inbound hmac en (l4_seal hmac (ld_secret a) HostToAgent hdr d) host a = ([(hdr, d, lf_sock g)], a')
    \<and> ld_readiness a' = Ready \<and> ld_secret a' = ld_secret a \<and> map_of (ld_flows a') k = Some g'
    \<and> lf_epoch g' = lf_epoch g \<and> lf_sock g' = lf_sock g \<and> lf_in_nonce_hw g' = h_nonce hdr"
  using assms decide_cases(4)[OF assms(2,3,4,5)]
  by (simp add: on_inbound_def deliver_sealed forward_on_def)

lemma word_succ_less: "unat (x::u64) + 1 < 2 ^ 64 \<Longrightarrow> y \<le> x \<Longrightarrow> y < x + 1 \<and> unat (x + 1) = unat x + 1"
  by (simp add: word_less_nat_alt word_le_nat_alt unat_word_ariths)

lemma stream_arrives:
  assumes "map_of (ps_flows st) src = Some f" and "ps_vm_dst st = Some dst"
    and "unat (fl_out_nonce f) + length ds < 2 ^ 64" and "ld_secret a = sp_transit_secret spec"
    and "ld_readiness a = Ready" and "map_of (ld_flows a) (fl_flow_id f) = Some g"
    and "lf_epoch g = fl_epoch f" and "lf_in_nonce_hw g \<le> fl_out_nonce f" and "length ens = length ds"
  shows "map snd
      (receive_stream hmac host (zip ens (send_stream hmac spec src ds st p)) a) = map (\<lambda>(d, _). (d, lf_sock g)) ds"
  using assms
proof (induction ds arbitrary: st p f a g ens)
  case Nil
  then show ?case by simp
next
  case (Cons dn ds)
  obtain d now where dn: "dn = (d, now)" by (cases dn)
  obtain en ens' where ens: "ens = en # ens'" using Cons.prems(9) by (cases ens) auto
  obtain f' st' p' where r: "reach_decide None spec src d now st p = (Forward (fl_flow_id f) (fl_epoch f) (fl_out_nonce f + 1) dst, st', p')"
    "map_of (ps_flows st') src = Some f'" "ps_vm_dst st' = Some dst"
    "fl_flow_id f' = fl_flow_id f" "fl_epoch f' = fl_epoch f" "fl_out_nonce f' = fl_out_nonce f + 1"
    using reach_hit_forwards[OF Cons.prems(1,2), of None spec d now p] by blast
  let ?h = "\<lparr>h_flow_id = fl_flow_id f, h_epoch = fl_epoch f, h_nonce = fl_out_nonce f + 1\<rparr>"
  have w: "lf_in_nonce_hw g < fl_out_nonce f + 1" "unat (fl_out_nonce f + 1) = unat (fl_out_nonce f) + 1"
    using word_succ_less[of "fl_out_nonce f" "lf_in_nonce_hw g"] Cons.prems(3,8) by simp_all
  obtain g' a' where i: "on_inbound hmac en (l4_seal hmac (ld_secret a) HostToAgent ?h d) host a = ([(?h, d, lf_sock g)], a')"
    "ld_readiness a' = Ready" "ld_secret a' = ld_secret a" "map_of (ld_flows a') (fl_flow_id f) = Some g'"
    "lf_epoch g' = lf_epoch g" "lf_sock g' = lf_sock g" "lf_in_nonce_hw g' = fl_out_nonce f + 1"
    using inbound_forwards[OF Cons.prems(5,6), of ?h hmac en d host] Cons.prems(7) w(1) by auto
  have "map snd
      (receive_stream hmac host (zip ens' (send_stream hmac spec src ds st' p')) a') = map (\<lambda>(d, _). (d, lf_sock g')) ds"
    by (rule Cons.IH[OF r(2,3)]) (use Cons.prems r i w ens in simp_all)
  then show ?case using r(1) i(1,6) ens Cons.prems(4) by (simp add: dn reach_out_def)
qed

definition seam_agent :: land_forward where
  "seam_agent = demo_agent\<lparr>ld_secret := sp_transit_secret demo_spec, ld_readiness := Ready,
     ld_flows := [(7, \<lparr>lf_epoch = 1000, lf_sock = 61001, lf_in_nonce_hw = 0, lf_last_seen = 0, lf_pump = 0\<rparr>)],
     ld_pumps := [(0, \<lparr>rp_flow_id = 7, rp_epoch = 1000, rp_loopback = 61001, rp_reply_to = demo_host, rp_out_nonce = 1, rp_cancelled = False\<rparr>)],
     ld_next_pump := 1\<rparr>"

text \<open>The same agent after its idle sweep took the flow.\<close>

definition lost_agent :: land_forward where
  "lost_agent = agent_sweep late_env seam_agent"

lemma lost_agent_facts:
  "agent_inv lost_agent" "ld_readiness lost_agent = Ready" "map_of (ld_flows lost_agent) k = None"
  "open_loopback demo_env k (fst (make_room demo_env lost_agent)) = Some 40000" "ld_secret lost_agent = sp_transit_secret demo_spec"
proof -
  let ?g = "\<lparr>lf_epoch = 1000, lf_sock = 61001, lf_in_nonce_hw = 0, lf_last_seen = 0, lf_pump = 0\<rparr>"
  have "agent_inv seam_agent"
    by (auto simp: agent_inv_def seam_agent_def demo_agent_def AGENT_L4_MAX_FLOWS_def hm_wf_def seam_ok_def sock_user_def split: if_splits)
  then show "agent_inv lost_agent" unfolding lost_agent_def using agent_sweep_inv by blast
  have idle: "flow_idle late_env seam_agent ?g"
    by (simp add: flow_idle_def late_env_def seam_agent_def demo_agent_def elapsed_ms_def from_secs_def)
  have fl: "ld_flows lost_agent = []" using idle by (simp add: lost_agent_def agent_sweep_flows) (simp add: seam_agent_def)
  have pu: "ld_pumps lost_agent = []"
    using idle by (simp add: lost_agent_def agent_sweep_def Let_def) (simp add: seam_agent_def retire_def late_env_def demo_env_def)
  show "map_of (ld_flows lost_agent) k = None" by (simp add: fl)
  show "open_loopback demo_env k (fst (make_room demo_env lost_agent)) = Some 40000"
    by (simp add: demo_open make_room_def fl pu AGENT_L4_MAX_FLOWS_def held_def)
qed (simp_all add: lost_agent_def agent_sweep_def Let_def seam_agent_def demo_agent_def)

definition seam_port :: port_state where
  "seam_port = demo_live\<lparr>ps_vm_dst := Some (V4 10 0 0 5, 9000)\<rparr>"

text \<open>
  A reply of the application, sealed by its pump, at the host: the comparison of the pump's counter
  with the flow's high-water mark decides, and only then do the egress controls.
\<close>

lemma reply_frame_at_host:
  assumes "map_of (ld_pumps a) pid = Some r" and "length d + 32 \<le> 65535" and "ld_secret a = sp_transit_secret spec"
    and "map_of (ps_by_flow_id st) (rp_flow_id r) = Some src" and "map_of (ps_flows st) src = Some f"
    and "fl_epoch f = rp_epoch r" and "\<not> is_reflection_suspected (pl_activity p) (sp_base_project spec)"
  shows "\<exists>frame a'. pump_reply hmac en pid d a = (Some (frame, rp_reply_to r), a')
    \<and> map_of (ld_pumps a') pid = Some (r\<lparr>rp_out_nonce := rp_out_nonce r + 1\<rparr>) \<and> ld_secret a' = ld_secret a
    \<and> return_frame hmac spec frame now st p =
        (if rp_out_nonce r \<le> fl_in_nonce_hw f then (None, st, pl_count NonceReplay p)
         else (case egress_controls spec src (length d) now (flow_heard (rp_out_nonce r) now f)
                      (st\<lparr>ps_flows := hupd src (flow_heard (rp_out_nonce r) now f) (ps_flows st)\<rparr>) p of
                 (None, st, p) \<Rightarrow> (None, st, p)
               | (Some s, st, p) \<Rightarrow> (Some (s, d), st, p)))"
proof -
  let ?h = "\<lparr>h_flow_id = rp_flow_id r, h_epoch = rp_epoch r, h_nonce = rp_out_nonce r\<rparr>"
  have d: "take UDP_MAX_DATAGRAM d = d" "\<not> UDP_MAX_DATAGRAM < length d + L4_HEADER_LEN"
    using assms(2) by (simp_all add: UDP_MAX_DATAGRAM_def L4_HEADER_LEN_def L4_TAG_LEN_def)
  obtain a' where "pump_reply hmac en pid d a = (Some (l4_seal hmac (ld_secret a) AgentToHost ?h d, rp_reply_to r), a')
     \<and> map_of (ld_pumps a') pid = Some (r\<lparr>rp_out_nonce := rp_out_nonce r + 1\<rparr>) \<and> ld_secret a' = ld_secret a"
    using that assms(1) d by (simp add: pump_reply_def)
  moreover have "return_frame hmac spec (l4_seal hmac (ld_secret a) AgentToHost ?h d) now st p =
        (if rp_out_nonce r \<le> fl_in_nonce_hw f then (None, st, pl_count NonceReplay p)
         else (case egress_controls spec src (length d) now (flow_heard (rp_out_nonce r) now f)
                      (st\<lparr>ps_flows := hupd src (flow_heard (rp_out_nonce r) now f) (ps_flows st)\<rparr>) p of
                 (None, st, p) \<Rightarrow> (None, st, p)
               | (Some s, st, p) \<Rightarrow> (Some (s, d), st, p)))"
    using assms by (simp add: return_frame_def return_decide_def transit.open_seal Let_def)
  ultimately show ?thesis
    by (intro exI[of _ "l4_seal hmac (ld_secret a) AgentToHost ?h d"] exI[of _ a']) simp
qed

text \<open>The replies of a pump, one after the other, at the host: what becomes of each.\<close>

fun reply_stream ::
  "hmac \<Rightarrow> l4_port_spec \<Rightarrow> nat \<Rightarrow> (agent_env \<times> bytes \<times> instant) list \<Rightarrow> land_forward \<Rightarrow> port_state \<Rightarrow> plane
   \<Rightarrow> (sock_addr \<times> bytes) option list" where
  "reply_stream hmac spec pid [] a st p = []"
| "reply_stream hmac spec pid ((en, d, now) # ds) a st p =
     (case pump_reply hmac en pid d a of
        (None, a') \<Rightarrow> None # reply_stream hmac spec pid ds a' st p
      | (Some (frame, _), a') \<Rightarrow>
          (case return_frame hmac spec frame now st p of
             (r, st', p') \<Rightarrow> r # reply_stream hmac spec pid ds a' st' p'))"

lemma pl_count_activity [simp]: "pl_activity (pl_count r p) = pl_activity p"
  by (simp add: pl_count_def)

lemma blackout:
  assumes "map_of (ld_pumps a) pid = Some r" and "\<forall>(en, d, now) \<in> set ds. length d + 32 \<le> 65535"
    and "ld_secret a = sp_transit_secret spec"
    and "map_of (ps_by_flow_id st) (rp_flow_id r) = Some src" and "map_of (ps_flows st) src = Some f"
    and "fl_epoch f = rp_epoch r" and "\<not> is_reflection_suspected (pl_activity p) (sp_base_project spec)"
    and "unat (rp_out_nonce r) + length ds \<le> unat (fl_in_nonce_hw f) + 1"
  shows "reply_stream hmac spec pid ds a st p = replicate (length ds) None"
  using assms
proof (induction ds arbitrary: a r p)
  case (Cons x ds)
  obtain en d now where x: "x = (en, d, now)" by (cases x)
  have b: "unat (fl_in_nonce_hw f) < 2 ^ 64" using unat_less_power[of "fl_in_nonce_hw f"] by simp
  have le: "rp_out_nonce r \<le> fl_in_nonce_hw f" using Cons.prems(8) by (simp add: word_le_nat_alt)
  obtain frame a' where fr: "pump_reply hmac en pid d a = (Some (frame, rp_reply_to r), a')"
    "map_of (ld_pumps a') pid = Some (r\<lparr>rp_out_nonce := rp_out_nonce r + 1\<rparr>)" "ld_secret a' = ld_secret a"
    "return_frame hmac spec frame now st p = (None, st, pl_count NonceReplay p)"
    using reply_frame_at_host[OF Cons.prems(1) _ Cons.prems(3-7), of d hmac en now] Cons.prems(2) x le by auto
  show ?case
  proof (cases ds)
    case Nil
    then show ?thesis using fr by (simp add: x)
  next
    case (Cons y ys)
    then have "unat (rp_out_nonce r) + 1 < 2 ^ 64" using Cons.prems(8) b by simp
    then have "unat (rp_out_nonce r + 1) = unat (rp_out_nonce r) + 1" by (simp add: unat_word_ariths)
    then have "reply_stream hmac spec pid ds a' st (pl_count NonceReplay p) = replicate (length ds) None"
      by (intro Cons.IH[OF fr(2)]) (use Cons.prems fr in simp_all)
    then show ?thesis using fr by (simp add: x)
  qed
qed simp

end
