(* ===== verification/Db_Preamble.thy ===== *)
theory Db_Preamble
  imports Wire
begin

text \<open>
  The preamble of the database reach plane: \<open>crates/jkbase-common/src/db_preamble.rs\<close> (the wire
  format, its reader \<open>parse_preamble\<close> and its writer \<open>encode_preamble\<close>) and
  \<open>crates/jkbase-proxy/src/db_preamble.rs\<close> (\<open>read_preamble\<close>, the loop that reads it off a connection).
  The reader accepts exactly the writer's output; its verdict on a prefix is never revised; the loop
  is independent of the chunking, loses no byte and is bounded.
\<close>

section \<open>Text\<close>

text \<open>
  \<open>std::str::from_utf8\<close>: the well-formed byte sequences of the Unicode standard (no overlong form,
  no surrogate, nothing above U+10FFFF). A \<open>String\<close> is carried by its bytes.
\<close>

definition utf8_cont :: "u8 \<Rightarrow> bool" where
  "utf8_cont b \<longleftrightarrow> 0x80 \<le> b \<and> b \<le> 0xBF"

fun utf8_valid :: "bytes \<Rightarrow> bool" where
  "utf8_valid [] = True"
| "utf8_valid (a # bs) =
     (if a < 0x80 then utf8_valid bs
      else if 0xC2 \<le> a \<and> a \<le> 0xDF then
        (case bs of b # r \<Rightarrow> utf8_cont b \<and> utf8_valid r | _ \<Rightarrow> False)
      else if 0xE0 \<le> a \<and> a \<le> 0xEF then
        (case bs of
           b # c # r \<Rightarrow>
             (if a = 0xE0 then 0xA0 \<le> b \<and> b \<le> 0xBF
              else if a = 0xED then 0x80 \<le> b \<and> b \<le> 0x9F
              else utf8_cont b)
             \<and> utf8_cont c \<and> utf8_valid r
         | _ \<Rightarrow> False)
      else if 0xF0 \<le> a \<and> a \<le> 0xF4 then
        (case bs of
           b # c # d # r \<Rightarrow>
             (if a = 0xF0 then 0x90 \<le> b \<and> b \<le> 0xBF
              else if a = 0xF4 then 0x80 \<le> b \<and> b \<le> 0x8F
              else utf8_cont b)
             \<and> utf8_cont c \<and> utf8_cont d \<and> utf8_valid r
         | _ \<Rightarrow> False)
      else False)"

section \<open>The wire format\<close>

definition PREAMBLE_MAGIC :: bytes where "PREAMBLE_MAGIC = [0x4A, 0x4B, 0x44, 0x42]"
definition PREAMBLE_VERSION :: u8 where "PREAMBLE_VERSION = 1"
definition MAX_AKID_LEN :: nat where "MAX_AKID_LEN = 64"
definition MAX_SECRET_LEN :: nat where "MAX_SECRET_LEN = 256"
definition MAX_EXPORTER_LEN :: nat where "MAX_EXPORTER_LEN = 64"
definition MAX_PREAMBLE_LEN :: nat where
  "MAX_PREAMBLE_LEN = 4 + 1 + 1 + MAX_AKID_LEN + 2 + MAX_SECRET_LEN + 1 + MAX_EXPORTER_LEN"

record preamble =
  pre_akid :: bytes
  pre_secret :: bytes
  pre_exporter :: bytes

datatype preamble_parse = Complete preamble nat | Incomplete

datatype preamble_error = BadMagic | BadVersion u8 | BadLength | NonUtf8 | Eof | Io

definition byte_slice :: "nat \<Rightarrow> nat \<Rightarrow> bytes \<Rightarrow> bytes" where
  "byte_slice i j buf = take (j - i) (drop i buf)"

definition parse_preamble :: "bytes \<Rightarrow> preamble_error + preamble_parse" where
  "parse_preamble buf =
     (if length buf < 6 then Inr Incomplete
      else if byte_slice 0 4 buf \<noteq> PREAMBLE_MAGIC then Inl BadMagic
      else if buf ! 4 \<noteq> PREAMBLE_VERSION then Inl (BadVersion (buf ! 4))
      else
        let akid_len = unat (buf ! 5)
        in if akid_len = 0 \<or> akid_len > MAX_AKID_LEN then Inl BadLength
      else
        let secret_len_at = 6 + akid_len
        in if length buf < secret_len_at + 2 then Inr Incomplete
      else if \<not> utf8_valid (byte_slice 6 secret_len_at buf) then Inl NonUtf8
      else
        let secret_len = from_be [buf ! secret_len_at, buf ! (secret_len_at + 1)]
        in if secret_len = 0 \<or> secret_len > MAX_SECRET_LEN then Inl BadLength
      else
        let secret_at = secret_len_at + 2;
            exporter_len_at = secret_at + secret_len
        in if length buf < exporter_len_at + 1 then Inr Incomplete
      else if \<not> utf8_valid (byte_slice secret_at exporter_len_at buf) then Inl NonUtf8
      else
        let exporter_len = unat (buf ! exporter_len_at)
        in if exporter_len = 0 \<or> exporter_len > MAX_EXPORTER_LEN then Inl BadLength
      else
        let exporter_at = exporter_len_at + 1;
            endp = exporter_at + exporter_len
        in if length buf < endp then Inr Incomplete
      else Inr (Complete
             \<lparr>pre_akid = byte_slice 6 secret_len_at buf,
              pre_secret = byte_slice secret_at exporter_len_at buf,
              pre_exporter = byte_slice exporter_at endp buf\<rparr> endp))"

definition encode_preamble :: "bytes \<Rightarrow> bytes \<Rightarrow> bytes \<Rightarrow> bytes option" where
  "encode_preamble ak se ex =
     (if ak = [] \<or> length ak > MAX_AKID_LEN \<or> se = [] \<or> length se > MAX_SECRET_LEN
         \<or> ex = [] \<or> length ex > MAX_EXPORTER_LEN
      then None
      else Some (PREAMBLE_MAGIC @ [PREAMBLE_VERSION] @ [word_of_nat (length ak)] @ ak
             @ u16_to_be (word_of_nat (length se)) @ se @ [word_of_nat (length ex)] @ ex))"

section \<open>Reading it off a stream\<close>

text \<open>
  What successive calls of \<open>stream.read\<close> return: \<open>None\<close> an error, an empty chunk the end of the
  stream. The loop gives back the result together with the reads it has not used; \<open>None\<close> is a loop
  that is still waiting when the reads given so far are exhausted.
\<close>

fun read_preamble_loop ::
  "bytes \<Rightarrow> bytes option list \<Rightarrow> ((preamble_error + preamble \<times> bytes) \<times> bytes option list) option" where
  "read_preamble_loop buf reads =
     (case parse_preamble buf of
        Inl e \<Rightarrow> Some (Inl e, reads)
      | Inr (Complete pre consumed) \<Rightarrow> Some (Inr (pre, drop consumed buf), reads)
      | Inr Incomplete \<Rightarrow>
          (if length buf \<ge> MAX_PREAMBLE_LEN then Some (Inl BadLength, reads)
           else (case reads of
                   [] \<Rightarrow> None
                 | None # rs \<Rightarrow> Some (Inl Io, rs)
                 | Some chunk # rs \<Rightarrow>
                     (if chunk = [] then Some (Inl Eof, rs)
                      else read_preamble_loop (buf @ chunk) rs))))"

declare read_preamble_loop.simps [simp del]

definition read_preamble ::
  "bytes option list \<Rightarrow> ((preamble_error + preamble \<times> bytes) \<times> bytes option list) option" where
  "read_preamble reads = read_preamble_loop [] reads"

section \<open>Slices\<close>

lemmas preamble_consts = PREAMBLE_MAGIC_def PREAMBLE_VERSION_def MAX_AKID_LEN_def MAX_SECRET_LEN_def
  MAX_EXPORTER_LEN_def MAX_PREAMBLE_LEN_def

lemma length_byte_slice [simp]: "j \<le> length buf \<Longrightarrow> length (byte_slice i j buf) = j - i"
  by (simp add: byte_slice_def)

lemma byte_slice_append: "j \<le> length buf \<Longrightarrow> byte_slice i j (buf @ x) = byte_slice i j buf"
  by (simp add: byte_slice_def)

lemma take_byte_slice: "i \<le> j \<Longrightarrow> take j buf = take i buf @ byte_slice i j buf"
  by (simp add: byte_slice_def flip: take_add)

lemma byte_slice_nth: "i < length buf \<Longrightarrow> byte_slice i (Suc i) buf = [buf ! i]"
  by (simp add: byte_slice_def take_Suc_conv_app_nth)

lemma take_Suc_nth: "i < length buf \<Longrightarrow> take (Suc i) buf = take i buf @ [buf ! i]"
  by (rule take_Suc_conv_app_nth)

lemma slice_mid: "n = length p \<Longrightarrow> byte_slice n (n + length x) (p @ x @ r) = x"
  by (simp add: byte_slice_def)

lemma nth_mid: "n = length p \<Longrightarrow> (p @ x # r) ! n = x"
  by simp

lemma from_be_pair: "from_be [a, b] = 256 * unat a + unat b"
  by (simp add: from_be_def)

lemma u16_pair: "u16_to_be (word_of_nat (from_be [a, b])) = [a, b]"
proof -
  have "unat (word_of_nat (from_be [a, b]) :: u16) = from_be [a, b]"
    using from_be_lt[of "[a, b]"] by (simp add: unat_of_nat)
  then show ?thesis using be_bytes_from_be[of "[a, b]"] by (simp add: u16_to_be_def numeral_2_eq_2)
qed

section \<open>The format is exact\<close>

definition preamble_ok :: "preamble \<Rightarrow> bool" where
  "preamble_ok pre \<longleftrightarrow> utf8_valid (pre_akid pre) \<and> utf8_valid (pre_secret pre)"

abbreviation preamble_wire :: "preamble \<Rightarrow> bytes option" where
  "preamble_wire pre \<equiv> encode_preamble (pre_akid pre) (pre_secret pre) (pre_exporter pre)"

lemma encode_preamble_Some:
  "preamble_wire pre = Some w \<Longrightarrow>
     0 < length (pre_akid pre) \<and> length (pre_akid pre) \<le> 64 \<and> 0 < length (pre_secret pre) \<and> length (pre_secret pre) \<le> 256
     \<and> 0 < length (pre_exporter pre) \<and> length (pre_exporter pre) \<le> 64
     \<and> w = [0x4A, 0x4B, 0x44, 0x42, 1, word_of_nat (length (pre_akid pre))] @ pre_akid pre
        @ u16_to_be (word_of_nat (length (pre_secret pre))) @ pre_secret pre @ [word_of_nat (length (pre_exporter pre))] @ pre_exporter pre"
  by (auto simp: encode_preamble_def preamble_consts split: if_splits)

lemma length_wire:
  "preamble_wire pre = Some w \<Longrightarrow>
     length w = 9 + length (pre_akid pre) + length (pre_secret pre) + length (pre_exporter pre) \<and> length w \<le> MAX_PREAMBLE_LEN"
  by (drule encode_preamble_Some) (simp add: MAX_PREAMBLE_LEN_def MAX_AKID_LEN_def MAX_SECRET_LEN_def MAX_EXPORTER_LEN_def)

lemma parse_wire:
  assumes w: "preamble_wire pre = Some w" and ok: "preamble_ok pre"
  shows "parse_preamble (w @ rest) = Inr (Complete pre (length w))"
proof -
  obtain ak se ex where pre: "pre = \<lparr>pre_akid = ak, pre_secret = se, pre_exporter = ex\<rparr>" by (cases pre)
  define l where "l = u16_to_be (word_of_nat (length se))"
  note e = encode_preamble_Some[OF w, unfolded pre preamble.simps, folded l_def]
  have len: "length l = 2" by (simp add: l_def)
  then obtain l0 l1 where l: "l = [l0, l1]" by (auto simp: length_Suc_conv numeral_2_eq_2)
  have lv: "from_be l = length se" using e by (simp add: l_def unat_of_nat)
  let ?b = "w @ rest"
  have b: "?b = [0x4A, 0x4B, 0x44, 0x42, 1, word_of_nat (length ak)] @ ak @ [l0, l1] @ se @ [word_of_nat (length ex)] @ ex @ rest"
    using e l by simp
  have i: "byte_slice 0 4 ?b = PREAMBLE_MAGIC" "?b ! 4 = 1" "unat (?b ! 5) = length ak"
    unfolding b using e by (simp_all add: byte_slice_def PREAMBLE_MAGIC_def unat_of_nat)
  have g: "byte_slice 6 (6 + length ak) ?b = ak" unfolding b by (simp add: byte_slice_def)
  have h: "?b ! (6 + length ak) = l0" "?b ! (6 + length ak + 1) = l1"
    using nth_mid[of _ "[0x4A, 0x4B, 0x44, 0x42, 1, word_of_nat (length ak)] @ ak" l0]
      nth_mid[of _ "[0x4A, 0x4B, 0x44, 0x42, 1, word_of_nat (length ak)] @ ak @ [l0]" l1]
    unfolding b by simp_all
  have j: "byte_slice (6 + length ak + 2) (6 + length ak + 2 + length se) ?b = se"
    "unat (?b ! (6 + length ak + 2 + length se)) = length ex"
    "byte_slice (6 + length ak + 2 + length se + 1) (6 + length ak + 2 + length se + 1 + length ex) ?b = ex"
    using slice_mid[of "6 + length ak + 2" "[0x4A, 0x4B, 0x44, 0x42, 1, word_of_nat (length ak)] @ ak @ [l0, l1]" se "[word_of_nat (length ex)] @ ex @ rest"]
      nth_mid[of "6 + length ak + 2 + length se" "[0x4A, 0x4B, 0x44, 0x42, 1, word_of_nat (length ak)] @ ak @ [l0, l1] @ se" "word_of_nat (length ex)" "ex @ rest"]
      slice_mid[of "6 + length ak + 2 + length se + 1" "[0x4A, 0x4B, 0x44, 0x42, 1, word_of_nat (length ak)] @ ak @ [l0, l1] @ se @ [word_of_nat (length ex)]" ex rest]
      e
    unfolding b by (simp_all add: unat_of_nat)
  have k: "length ?b = 9 + length ak + length se + length ex + length rest" "length w = 6 + length ak + 2 + length se + 1 + length ex"
    using length_wire[OF w] by (simp_all add: pre)
  show ?thesis
    unfolding parse_preamble_def Let_def i g h j l[symmetric] lv k(1) k(2)
    using e ok by (simp add: pre preamble_ok_def preamble_consts)
qed

lemma parse_complete_wire:
  assumes "parse_preamble buf = Inr (Complete pre n)"
  shows "preamble_ok pre \<and> n \<le> length buf \<and> preamble_wire pre = Some (take n buf)"
proof -
  define a where "a = 6 + unat (buf ! 5)"
  define s where "s = from_be [buf ! a, buf ! (a + 1)]"
  define e where "e = a + 2 + s"
  note d = assms[unfolded parse_preamble_def Let_def, folded a_def, folded s_def, folded e_def]
  have f: "byte_slice 0 4 buf = PREAMBLE_MAGIC" "buf ! 4 = PREAMBLE_VERSION" "0 < unat (buf ! 5)" "unat (buf ! 5) \<le> 64"
    "0 < s" "s \<le> 256" "0 < unat (buf ! e)" "unat (buf ! e) \<le> 64" "n \<le> length buf" "n = e + 1 + unat (buf ! e)"
    and pre: "pre_akid pre = byte_slice 6 a buf" "pre_secret pre = byte_slice (a + 2) e buf" "pre_exporter pre = byte_slice (e + 1) n buf"
    and ok: "preamble_ok pre"
    using d by (auto simp: preamble_ok_def preamble_consts split: if_splits)
  have le: "6 \<le> a" "a + 2 \<le> e" "e + 1 \<le> n" using f(10) by (simp_all add: a_def e_def)
  have len: "length (pre_akid pre) = unat (buf ! 5)" "length (pre_secret pre) = s" "length (pre_exporter pre) = unat (buf ! e)"
    using f(9,10) le by (simp_all add: pre a_def e_def)
  have "take n buf = take 4 buf @ [buf ! 4] @ [buf ! 5] @ pre_akid pre @ [buf ! a, buf ! (a + 1)]
      @ pre_secret pre @ [buf ! e] @ pre_exporter pre"
    using f(9) le take_byte_slice[of "e + 1" n buf] take_byte_slice[of "a + 2" e buf] take_byte_slice[of 6 a buf]
      take_Suc_nth[of e buf] take_Suc_nth[of "Suc a" buf] take_Suc_nth[of a buf] take_Suc_nth[of 5 buf] take_Suc_nth[of 4 buf]
    by (simp add: pre)
  moreover have "u16_to_be (word_of_nat s) = [buf ! a, buf ! (a + 1)]"
    unfolding s_def by (rule u16_pair)
  moreover have "take 4 buf = PREAMBLE_MAGIC" using f(1) by (simp add: byte_slice_def)
  moreover have "\<not> (pre_akid pre = [] \<or> length (pre_akid pre) > MAX_AKID_LEN \<or> pre_secret pre = [] \<or> length (pre_secret pre) > MAX_SECRET_LEN
      \<or> pre_exporter pre = [] \<or> length (pre_exporter pre) > MAX_EXPORTER_LEN)"
    using f(3-8) len unfolding MAX_AKID_LEN_def MAX_SECRET_LEN_def MAX_EXPORTER_LEN_def by (auto simp flip: length_0_conv)
  ultimately have "preamble_wire pre = Some (take n buf)"
    by (simp only: encode_preamble_def if_False len f(2) unat_inverse append_assoc)
  then show ?thesis using ok f(9) by simp
qed

section \<open>Prefixes\<close>

lemma parse_error_stable:
  assumes e: "parse_preamble buf = Inl e"
  shows "parse_preamble (buf @ x) = Inl e"
proof -
  define a where "a = 6 + unat (buf ! 5)"
  define s where "s = a + 2 + from_be [buf ! a, buf ! (a + 1)]"
  note d = parse_preamble_def Let_def
  have l: "6 \<le> length buf" using e by (rule_tac ccontr) (simp add: d)
  then have i: "byte_slice 0 4 (buf @ x) = byte_slice 0 4 buf" "(buf @ x) ! 4 = buf ! 4" "(buf @ x) ! 5 = buf ! 5"
    by (simp_all add: byte_slice_append nth_append)
  show ?thesis
  proof (cases "length buf < a + 2")
    case True
    then show ?thesis using e l unfolding d i a_def[symmetric] by (simp split: if_splits)
  next
    case False
    then have j: "byte_slice 6 a (buf @ x) = byte_slice 6 a buf" "(buf @ x) ! a = buf ! a" "(buf @ x) ! (a + 1) = buf ! (a + 1)"
      by (simp_all add: byte_slice_append nth_append)
    show ?thesis
    proof (cases "length buf < s + 1")
      case True
      then show ?thesis using e l False unfolding d i a_def[symmetric] j s_def[symmetric] by (simp split: if_splits)
    next
      case s: False
      then have k: "byte_slice (a + 2) s (buf @ x) = byte_slice (a + 2) s buf" "(buf @ x) ! s = buf ! s"
        by (simp_all add: byte_slice_append nth_append)
      show ?thesis using e l False s unfolding d i a_def[symmetric] j s_def[symmetric] k by (auto split: if_splits)
    qed
  qed
qed

lemma parse_complete_stable:
  "parse_preamble buf = Inr (Complete pre n) \<Longrightarrow> parse_preamble (buf @ x) = Inr (Complete pre n)"
  using parse_wire[of pre "take n buf" "drop n buf @ x"] parse_complete_wire[of buf pre n]
  by (simp flip: append_assoc)

lemma parse_incomplete_short: "parse_preamble buf = Inr Incomplete \<Longrightarrow> length buf < MAX_PREAMBLE_LEN"
  by (simp add: parse_preamble_def Let_def preamble_consts split: if_splits)

lemma parse_proper_prefix:
  assumes "preamble_wire pre = Some w" and "preamble_ok pre" and "length buf < length w" and "buf @ x = w @ y"
  shows "parse_preamble buf = Inr Incomplete"
proof (cases "parse_preamble buf")
  case (Inl e)
  then show ?thesis using parse_error_stable[of buf e x] parse_wire[OF assms(1,2)] assms(4) by simp
next
  case (Inr r)
  then show ?thesis
    using parse_complete_stable[of buf _ _ x] parse_wire[OF assms(1,2)] parse_complete_wire[of buf] assms(3,4)
    by (cases r) fastforce+
qed

section \<open>The read loop\<close>

lemma loop_incomplete:
  "parse_preamble buf = Inr Incomplete \<Longrightarrow> read_preamble_loop buf (Some c # rs) =
     (if c = [] then Some (Inl Eof, rs) else read_preamble_loop (buf @ c) rs)"
  using parse_incomplete_short[of buf] by (subst read_preamble_loop.simps) simp

lemma loop_complete:
  "parse_preamble buf = Inr (Complete pre n) \<Longrightarrow> read_preamble_loop buf rs = Some (Inr (pre, drop n buf), rs)"
  by (subst read_preamble_loop.simps) simp

lemma loop_error: "parse_preamble buf = Inl e \<Longrightarrow> read_preamble_loop buf rs = Some (Inl e, rs)"
  by (subst read_preamble_loop.simps) simp

lemma loop_waits:
  "parse_preamble buf = Inr Incomplete \<Longrightarrow> read_preamble_loop buf [] = None"
  "parse_preamble buf = Inr Incomplete \<Longrightarrow> read_preamble_loop buf (None # rs) = Some (Inl Io, rs)"
  using parse_incomplete_short[of buf] by (subst read_preamble_loop.simps; simp)+

lemmas loop_simps = loop_incomplete loop_complete loop_error loop_waits

lemma parse_cases [case_names error complete incomplete]:
  obtains e where "parse_preamble buf = Inl e"
  | pre n where "parse_preamble buf = Inr (Complete pre n)"
  | "parse_preamble buf = Inr Incomplete"
  by (cases "parse_preamble buf"; cases "projr (parse_preamble buf)"; simp)

definition chunks_of :: "bytes \<Rightarrow> bytes list \<Rightarrow> bytes \<Rightarrow> bytes \<Rightarrow> bool" where
  "chunks_of buf cs w left \<longleftrightarrow>
     list_all (\<lambda>c. c \<noteq> []) cs \<and> buf @ concat cs = w @ left
     \<and> (cs \<noteq> [] \<longrightarrow> length (buf @ concat (butlast cs)) < length w)"

lemma loop_reads:
  assumes "preamble_wire pre = Some w" and "preamble_ok pre"
  shows "chunks_of buf cs w left \<Longrightarrow>
    read_preamble_loop buf (map Some cs @ rest) = Some (Inr (pre, left), rest)"
proof (induction cs arbitrary: buf)
  case Nil
  then show ?case using parse_wire[OF assms, of left] by (simp add: chunks_of_def loop_complete)
next
  case (Cons c cs)
  have l: "length buf < length w" using Cons.prems by (auto simp: chunks_of_def split: if_splits)
  have "parse_preamble buf = Inr Incomplete"
    by (rule parse_proper_prefix[OF assms l, of "c @ concat cs" left]) (use Cons.prems in \<open>simp add: chunks_of_def\<close>)
  moreover have "chunks_of (buf @ c) cs w left" using Cons.prems by (auto simp: chunks_of_def)
  ultimately show ?case using Cons.IH[of "buf @ c"] Cons.prems by (simp add: loop_incomplete chunks_of_def)
qed

lemma loop_result:
  "read_preamble_loop buf reads = Some (Inr (pre, left), rest) \<Longrightarrow>
    \<exists>cs w. reads = map Some cs @ rest \<and> preamble_wire pre = Some w \<and> preamble_ok pre \<and> chunks_of buf cs w left"
proof (induction reads arbitrary: buf)
  case Nil
  show ?case using Nil
    by (cases rule: parse_cases[of buf]) (auto simp: loop_simps chunks_of_def dest!: parse_complete_wire)
next
  case (Cons r rs)
  show ?case
  proof (cases rule: parse_cases[of buf])
    case (complete p n)
    then show ?thesis using Cons.prems parse_complete_wire[OF complete]
      by (intro exI[of _ "[]"] exI[of _ "take n buf"]) (auto simp: loop_simps chunks_of_def)
  next
    case incomplete
    then obtain c where r: "r = Some c" "c \<noteq> []" "read_preamble_loop (buf @ c) rs = Some (Inr (pre, left), rest)"
      using Cons.prems by (cases r) (auto simp: loop_simps split: if_splits)
    obtain cs w where i: "rs = map Some cs @ rest" "preamble_wire pre = Some w" "preamble_ok pre" "chunks_of (buf @ c) cs w left"
      using Cons.IH[OF r(3)] by blast
    have "length buf < length w"
    proof (rule ccontr)
      assume "\<not> length buf < length w"
      then have "take (length w) buf = w"
        using arg_cong[of "buf @ c @ concat cs" "w @ left" "take (length w)"] i(4)
        unfolding chunks_of_def by (metis append.assoc append_eq_conv_conj diff_is_0_eq linorder_not_less take_append take0 append_Nil2)
      then have "buf = w @ drop (length w) buf" by (metis append_take_drop_id)
      then show False using parse_wire[OF i(2,3), of "drop (length w) buf"] incomplete by simp
    qed
    then have "chunks_of buf (c # cs) w left" using i(4) r(2) by (auto simp: chunks_of_def)
    then show ?thesis using i r by (intro exI[of _ "c # cs"] exI[of _ w]) simp
  qed (use Cons.prems in \<open>simp add: loop_simps\<close>)
qed

definition read_bytes :: "bytes option list \<Rightarrow> nat" where
  "read_bytes reads = (\<Sum>r\<leftarrow>reads. case r of None \<Rightarrow> 0 | Some c \<Rightarrow> length c)"

lemma read_bytes_simps [simp]:
  "read_bytes [] = 0" "read_bytes (None # rs) = read_bytes rs" "read_bytes (Some c # rs) = length c + read_bytes rs"
  "read_bytes (map Some cs) = length (concat cs)"
  by (simp_all add: read_bytes_def length_concat comp_def)

definition chunk_sized :: "bytes option \<Rightarrow> bool" where
  "chunk_sized r \<longleftrightarrow> (case r of None \<Rightarrow> True | Some c \<Rightarrow> length c \<le> 512)"

lemma loop_bounded:
  assumes "read_preamble_loop buf reads = Some (res, rest)" and "list_all chunk_sized reads"
    and "length buf < MAX_PREAMBLE_LEN + 512"
  shows "\<exists>used. reads = used @ rest \<and> length buf + read_bytes used < MAX_PREAMBLE_LEN + 512"
  using assms
proof (induction reads arbitrary: buf)
  case Nil
  then show ?case by (cases rule: parse_cases[of buf]) (auto simp: loop_simps)
next
  case (Cons r rs)
  show ?case
  proof (cases rule: parse_cases[of buf])
    case incomplete
    have l: "length buf < MAX_PREAMBLE_LEN" by (rule parse_incomplete_short[OF incomplete])
    consider "rest = rs" "read_bytes [r] = 0"
      | c where "r = Some c" "read_preamble_loop (buf @ c) rs = Some (res, rest)"
      using Cons.prems(1) incomplete by (cases r) (auto simp: loop_simps split: if_splits)
    then show ?thesis
    proof cases
      case 1
      then show ?thesis using l by (intro exI[of _ "[r]"]) simp
    next
      case (2 c)
      have "length (buf @ c) < MAX_PREAMBLE_LEN + 512" "list_all chunk_sized rs"
        using l Cons.prems(2) 2(1) chunk_sized_def[of "Some c"] by simp_all
      then obtain used where "rs = used @ rest" "length (buf @ c) + read_bytes used < MAX_PREAMBLE_LEN + 512"
        using Cons.IH[OF 2(2)] by blast
      then show ?thesis using 2(1) by (intro exI[of _ "r # used"]) simp
    qed
  qed (use Cons.prems in \<open>auto simp: loop_simps\<close>)
qed

lemma loop_decides:
  "MAX_PREAMBLE_LEN \<le> length buf + read_bytes reads \<Longrightarrow> read_preamble_loop buf reads \<noteq> None"
proof (induction reads arbitrary: buf)
  case Nil
  then show ?case
    using parse_incomplete_short[of buf] by (cases rule: parse_cases[of buf]) (auto simp: loop_simps)
next
  case (Cons r rs)
  then show ?case
    by (cases rule: parse_cases[of buf]; cases r) (auto simp: loop_simps)
qed

section \<open>Properties\<close>

text \<open>
  The reader of the preamble accepts exactly what its writer produces: a buffer parses as a
  complete preamble of \<open>n\<close> bytes if and only if its first \<open>n\<close> bytes are the encoding of that
  preamble and the two text fields are UTF-8. So no second spelling of a preamble exists, no field
  outside its bounds is accepted, and the bytes after it are left alone.
\<close>

theorem preamble_exact:
  "parse_preamble buf = Inr (Complete pre n) \<longleftrightarrow>
     utf8_valid (pre_akid pre) \<and> utf8_valid (pre_secret pre) \<and> n \<le> length buf
     \<and> encode_preamble (pre_akid pre) (pre_secret pre) (pre_exporter pre) = Some (take n buf)"
  using parse_complete_wire[of buf pre n] parse_wire[of pre "take n buf" "drop n buf"]
  by (auto simp: preamble_ok_def)

text \<open>
  C32. Reading a preamble off a connection does not depend on how the bytes are cut into reads, and
  loses none: the loop returns a preamble and a leftover exactly when the reads it used are non-empty
  chunks that spell the encoding of the preamble followed by the leftover, the last of them being the
  one that completed it.
\<close>

theorem preamble_read_exactly:
  "read_preamble reads = Some (Inr (pre, left), rest) \<longleftrightarrow>
     utf8_valid (pre_akid pre) \<and> utf8_valid (pre_secret pre)
     \<and> (\<exists>cs w. reads = map Some cs @ rest \<and> [] \<notin> set cs
          \<and> encode_preamble (pre_akid pre) (pre_secret pre) (pre_exporter pre) = Some w
          \<and> concat cs = w @ left \<and> length (concat (butlast cs)) < length w)"
  (is "_ \<longleftrightarrow> ?R")
proof
  assume "read_preamble reads = Some (Inr (pre, left), rest)"
  then obtain cs w where i: "reads = map Some cs @ rest" "preamble_wire pre = Some w" "preamble_ok pre" "chunks_of [] cs w left"
    using loop_result unfolding read_preamble_def by blast
  have "w \<noteq> []" using length_wire[OF i(2)] by auto
  then have "cs \<noteq> []" using i(4) by (auto simp: chunks_of_def)
  then show ?R using i by (auto simp: preamble_ok_def chunks_of_def list_all_iff)
next
  assume ?R
  then obtain cs w where i: "reads = map Some cs @ rest" "preamble_wire pre = Some w" "preamble_ok pre" "chunks_of [] cs w left"
    by (auto simp: preamble_ok_def chunks_of_def list_all_iff)
  then show "read_preamble reads = Some (Inr (pre, left), rest)"
    unfolding read_preamble_def i(1) using loop_reads by blast
qed

text \<open>
  The read loop is bounded. It always decides once as many bytes as the longest preamble have
  arrived, and whatever it decides, with reads of at most 512 bytes it has taken fewer than
  \<open>MAX_PREAMBLE_LEN + 512\<close> bytes off the connection: a peer that never completes a preamble cannot
  make the edge buffer more.
\<close>

lemma preamble_read_bounded:
  assumes "list_all chunk_sized reads"
  shows "(MAX_PREAMBLE_LEN \<le> read_bytes reads \<longrightarrow> read_preamble reads \<noteq> None)
    \<and> (\<forall>res rest. read_preamble reads = Some (res, rest) \<longrightarrow>
         (\<exists>used. reads = used @ rest \<and> read_bytes used < MAX_PREAMBLE_LEN + 512))"
  using assms loop_decides[of "[]" reads] loop_bounded[of "[]" reads]
  unfolding read_preamble_def by simp

end
