(* ===== verification/Log_Sink.thy ===== *)
theory Log_Sink
  imports Prelude
begin

text \<open>
  The agent's log buffer, \<open>crates/jkbase-agent/src/log_sink.rs\<close>, with the record types of
  \<open>crates/jkbase-common/src/logs.rs\<close>: the ring of application lines, the separate ring of egress
  events with coalescing and eviction, the dropped marker and the reads by cursor. Sequence numbers
  are natural numbers (the source's counter is 64 bits wide); the JSON rendering of an event is a
  parameter.

  The lemmas show that every number in the sink was handed out once, whatever the interleaving of the
  two halves of \<open>push\<close>; that a flood of denials costs at most one recorded contact; and what a read
  by cursor returns.
\<close>

section \<open>Lines and events\<close>

record log_line =
  ll_server :: string
  ll_stream :: string
  ll_line :: string
  ll_timestamp :: nat
  ll_seq :: nat

datatype verdict = Allow | DenyAllowlist | DenySandbox | DenyPlatform | VError

record egress_event =
  ev_function :: string
  ev_dest_host :: string
  ev_dest_port :: u16
  ev_dest_ip :: "string option"
  ev_verdict :: verdict
  ev_method :: string
  ev_count :: nat
  ev_bytes_out :: nat
  ev_bytes_in :: nat
  ev_status :: "u16 option"

definition EGRESS_STREAM :: string where "EGRESS_STREAM = ''egress''"
definition MAX_LOG_LINES :: nat where "MAX_LOG_LINES = 1000"
definition MAX_EGRESS_LINES :: nat where "MAX_EGRESS_LINES = 512"
definition EGRESS_COALESCE_WINDOW :: nat where "EGRESS_COALESCE_WINDOW = 128"
definition EGRESS_DROPPED_MARKER_HOST :: string where
  "EGRESS_DROPPED_MARKER_HOST = ''(egress-events-dropped)''"

record egress_row =
  er_seq :: nat
  er_timestamp :: nat
  er_event :: egress_event

record egress_buf =
  eb_ring :: "egress_row list"
  eb_dropped :: nat
  eb_dropped_seq :: nat

record log_sink =
  sk_buffer :: "log_line list"
  sk_egress :: egress_buf
  sk_seq :: nat
  sk_boot_id :: string

section \<open>Operations\<close>

definition log_sink_new :: "string \<Rightarrow> log_sink" where
  "log_sink_new boot =
     \<lparr>sk_buffer = [], sk_egress = \<lparr>eb_ring = [], eb_dropped = 0, eb_dropped_seq = 0\<rparr>,
      sk_seq = 0, sk_boot_id = boot\<rparr>"

text \<open>
  \<open>push\<close> takes its sequence number before it waits for the buffer's lock, so it is two steps:
  between them other tasks may run.
\<close>

definition push_take :: "log_sink \<Rightarrow> nat \<times> log_sink" where
  "push_take sk = (sk_seq sk + 1, sk\<lparr>sk_seq := sk_seq sk + 1\<rparr>)"

definition push_append :: "string \<Rightarrow> string \<Rightarrow> string \<Rightarrow> nat \<Rightarrow> nat \<Rightarrow> log_sink \<Rightarrow> log_sink" where
  "push_append server stream txt now sq sk =
     (let buf = sk_buffer sk;
          buf = (if length buf \<ge> MAX_LOG_LINES then tl buf else buf)
      in sk\<lparr>sk_buffer := buf @ [\<lparr>ll_server = server, ll_stream = stream, ll_line = txt,
                                ll_timestamp = now, ll_seq = sq\<rparr>]\<rparr>)"

definition push :: "string \<Rightarrow> string \<Rightarrow> string \<Rightarrow> nat \<Rightarrow> log_sink \<Rightarrow> log_sink" where
  "push server stream txt now sk =
     (let (sq, sk) = push_take sk in push_append server stream txt now sq sk)"

definition same_contact :: "egress_event \<Rightarrow> egress_event \<Rightarrow> bool" where
  "same_contact a b \<longleftrightarrow>
     ev_function a = ev_function b \<and> ev_dest_host a = ev_dest_host b
     \<and> ev_dest_port a = ev_dest_port b \<and> ev_verdict a = ev_verdict b"

definition fold_event :: "egress_event \<Rightarrow> egress_event \<Rightarrow> egress_event" where
  "fold_event event old =
     old\<lparr>ev_count := saturating_add (ev_count old) (ev_count event),
         ev_bytes_out := saturating_add (ev_bytes_out old) (ev_bytes_out event),
         ev_bytes_in := saturating_add (ev_bytes_in old) (ev_bytes_in event),
         ev_status := (if ev_status event \<noteq> None then ev_status event else ev_status old),
         ev_dest_ip := (if ev_dest_ip event \<noteq> None then ev_dest_ip event else ev_dest_ip old)\<rparr>"

text \<open>\<open>iter().position(p)\<close>, the index of the first element that satisfies \<open>p\<close>.\<close>

fun position :: "('a \<Rightarrow> bool) \<Rightarrow> 'a list \<Rightarrow> nat option" where
  "position P [] = None"
| "position P (x # xs) = (if P x then Some 0 else map_option Suc (position P xs))"

definition remove_nth :: "nat \<Rightarrow> 'a list \<Rightarrow> 'a list" where
  "remove_nth i xs = take i xs @ drop (Suc i) xs"

definition evict_idx :: "egress_row list \<Rightarrow> nat" where
  "evict_idx ring = (case position (\<lambda>e. ev_verdict (er_event e) \<noteq> Allow) ring of Some i \<Rightarrow> i | None \<Rightarrow> 0)"

definition push_egress :: "egress_event \<Rightarrow> nat \<Rightarrow> log_sink \<Rightarrow> log_sink" where
  "push_egress event now sk =
     (let event = (if ev_count event = 0 then event\<lparr>ev_count := 1\<rparr> else event);
          eb = sk_egress sk;
          start = length (eb_ring eb) - EGRESS_COALESCE_WINDOW
      in case position (\<lambda>e. same_contact (er_event e) event) (drop start (eb_ring eb)) of
           Some i \<Rightarrow>
             sk\<lparr>sk_egress := eb\<lparr>eb_ring := (eb_ring eb)[start + i :=
               (eb_ring eb ! (start + i))\<lparr>er_event := fold_event event (er_event (eb_ring eb ! (start + i)))\<rparr>]\<rparr>\<rparr>
         | None \<Rightarrow>
             (let sq = sk_seq sk + 1;
                  next = sq;
                  (eb, next) =
                    (if length (eb_ring eb) \<ge> MAX_EGRESS_LINES
                     then (let eb = eb\<lparr>eb_ring := remove_nth (evict_idx (eb_ring eb)) (eb_ring eb),
                                       eb_dropped := saturating_add (eb_dropped eb) 1\<rparr>
                           in if eb_dropped_seq eb = 0 then (eb\<lparr>eb_dropped_seq := next + 1\<rparr>, next + 1)
                              else (eb, next))
                     else (eb, next))
              in sk\<lparr>sk_egress := eb\<lparr>eb_ring := eb_ring eb @
                      [\<lparr>er_seq = sq, er_timestamp = now, er_event = event\<rparr>]\<rparr>,
                    sk_seq := next\<rparr>))"

text \<open>\<open>render\<close> is \<open>serde_json::to_string\<close> of an event.\<close>

definition egress_line :: "(egress_event \<Rightarrow> string) \<Rightarrow> egress_row \<Rightarrow> log_line" where
  "egress_line render e =
     \<lparr>ll_server = ev_function (er_event e), ll_stream = EGRESS_STREAM, ll_line = render (er_event e),
      ll_timestamp = er_timestamp e, ll_seq = er_seq e\<rparr>"

definition dropped_marker :: "nat \<Rightarrow> egress_event" where
  "dropped_marker n =
     \<lparr>ev_function = ''_egress'', ev_dest_host = EGRESS_DROPPED_MARKER_HOST, ev_dest_port = 0,
      ev_dest_ip = None, ev_verdict = VError, ev_method = '''', ev_count = n, ev_bytes_out = 0,
      ev_bytes_in = 0, ev_status = None\<rparr>"

definition egress_lines :: "(egress_event \<Rightarrow> string) \<Rightarrow> nat \<Rightarrow> egress_buf \<Rightarrow> log_line list" where
  "egress_lines render now eb =
     map (egress_line render) (eb_ring eb)
     @ (if eb_dropped eb > 0
        then [\<lparr>ll_server = ''_egress'', ll_stream = EGRESS_STREAM,
               ll_line = render (dropped_marker (eb_dropped eb)), ll_timestamp = now,
               ll_seq = eb_dropped_seq eb\<rparr>]
        else [])"

definition get_logs :: "(egress_event \<Rightarrow> string) \<Rightarrow> nat \<Rightarrow> nat \<Rightarrow> log_sink \<Rightarrow> log_line list" where
  "get_logs render now limit sk =
     (let merged = sort_key ll_seq (sk_buffer sk @ egress_lines render now (sk_egress sk))
      in drop (length merged - limit) merged)"

definition get_logs_since :: "(egress_event \<Rightarrow> string) \<Rightarrow> nat \<Rightarrow> nat \<Rightarrow> log_sink \<Rightarrow> log_line list" where
  "get_logs_since render now since sk =
     sort_key ll_seq (filter (\<lambda>l. ll_seq l > since) (sk_buffer sk)
       @ filter (\<lambda>l. ll_seq l > since) (egress_lines render now (sk_egress sk)))"

section \<open>Sequence numbers\<close>

lemma position_Some_iff:
  "position P xs = Some i \<longleftrightarrow> i < length xs \<and> P (xs ! i) \<and> (\<forall>j < i. \<not> P (xs ! j))"
proof (induction xs arbitrary: i)
  case (Cons x xs)
  show ?case using Cons by (cases i) (auto simp: less_Suc_eq_0_disj)
qed simp

lemma position_None_iff: "position P xs = None \<longleftrightarrow> (\<forall>x \<in> set xs. \<not> P x)"
  by (induction xs) auto

lemma length_remove_nth: "i < length xs \<Longrightarrow> length (remove_nth i xs) = length xs - 1"
  by (simp add: remove_nth_def)

lemma set_remove_nth: "set (remove_nth i xs) \<subseteq> set xs"
  using set_take_subset[of i xs] set_drop_subset[of "Suc i" xs] by (auto simp: remove_nth_def)

lemma map_remove_nth: "map f (remove_nth i xs) = remove_nth i (map f xs)"
  by (simp add: remove_nth_def take_map drop_map)

lemma filter_remove_nth:
  "i < length xs \<Longrightarrow> \<not> P (xs ! i) \<Longrightarrow> filter P (remove_nth i xs) = filter P xs"
  by (subst (2) id_take_nth_drop[of i xs]) (simp_all add: remove_nth_def)

lemma sorted_remove_nth: "sorted_wrt R xs \<Longrightarrow> sorted_wrt R (remove_nth i xs)"
  unfolding remove_nth_def
  using sorted_wrt_append[of R "take i xs" "drop i xs"] sorted_wrt_drop[of R xs "Suc i"]
    set_drop_subset_set_drop[of i "Suc i" xs]
  by (auto simp: sorted_wrt_append sorted_wrt_take)

lemma evict_idx_less: "ring \<noteq> [] \<Longrightarrow> evict_idx ring < length ring"
  by (auto simp: evict_idx_def position_Some_iff split: option.splits)

definition ring_seqs :: "egress_buf \<Rightarrow> nat list" where
  "ring_seqs eb = map er_seq (eb_ring eb)"

definition marker_seqs :: "egress_buf \<Rightarrow> nat list" where
  "marker_seqs eb = (if eb_dropped eb > 0 then [eb_dropped_seq eb] else [])"

definition sink_seqs :: "log_sink \<Rightarrow> nat list" where
  "sink_seqs sk = map ll_seq (sk_buffer sk) @ ring_seqs (sk_egress sk) @ marker_seqs (sk_egress sk)"

text \<open>
  The invariant of the sink while the numbers in \<open>F\<close> are taken but not yet appended: every number in
  the sink was handed out once, the two rings are bounded, and the marker has its number as soon as
  something was dropped.
\<close>

definition sink_inv :: "nat set \<Rightarrow> log_sink \<Rightarrow> bool" where
  "sink_inv F sk \<longleftrightarrow>
     distinct (sink_seqs sk) \<and> set (sink_seqs sk) \<union> F \<subseteq> {0<..sk_seq sk} \<and> set (sink_seqs sk) \<inter> F = {}
     \<and> length (sk_buffer sk) \<le> MAX_LOG_LINES \<and> length (eb_ring (sk_egress sk)) \<le> MAX_EGRESS_LINES
     \<and> (eb_dropped (sk_egress sk) = 0 \<longleftrightarrow> eb_dropped_seq (sk_egress sk) = 0)"

lemma sink_inv_new: "sink_inv {} (log_sink_new boot)"
  by (simp add: sink_inv_def log_sink_new_def sink_seqs_def ring_seqs_def marker_seqs_def)

lemma sink_inv_take:
  "sink_inv F sk \<Longrightarrow> sink_inv (insert (fst (push_take sk)) F) (snd (push_take sk))"
  by (fastforce simp: sink_inv_def push_take_def sink_seqs_def)

lemma set_tl_subset: "set (tl xs) \<subseteq> set xs"
  by (cases xs) auto

lemma sink_inv_append:
  assumes "sink_inv F sk" and "sq \<in> F"
  shows "sink_inv (F - {sq}) (push_append server stream txt now sq sk)"
proof -
  let ?b = "if length (sk_buffer sk) \<ge> MAX_LOG_LINES then tl (sk_buffer sk) else sk_buffer sk"
  have b: "set (map ll_seq ?b) \<subseteq> set (map ll_seq (sk_buffer sk))" "distinct (map ll_seq ?b)" "length ?b < MAX_LOG_LINES"
    using assms(1) set_tl_subset[of "sk_buffer sk"] distinct_tl[of "map ll_seq (sk_buffer sk)"]
    by (auto simp: sink_inv_def sink_seqs_def MAX_LOG_LINES_def map_tl)
  have e: "sk_buffer (push_append server stream txt now sq sk) = ?b @ [\<lparr>ll_server = server, ll_stream = stream, ll_line = txt, ll_timestamp = now, ll_seq = sq\<rparr>]"
    "sk_egress (push_append server stream txt now sq sk) = sk_egress sk" "sk_seq (push_append server stream txt now sq sk) = sk_seq sk"
    by (simp_all add: push_append_def Let_def)
  show ?thesis
    unfolding sink_inv_def sink_seqs_def e using assms b
    by (auto simp: sink_inv_def sink_seqs_def simp del: set_map)
qed


text \<open>The two outcomes of recording an event: folded into a recent row, or a row of its own.\<close>

definition coalesces :: "egress_event \<Rightarrow> egress_row list \<Rightarrow> nat option" where
  "coalesces event ring = position (\<lambda>e. same_contact (er_event e) event) (drop (length ring - EGRESS_COALESCE_WINDOW) ring)"

definition counted :: "egress_event \<Rightarrow> egress_event" where
  "counted event = (if ev_count event = 0 then event\<lparr>ev_count := 1\<rparr> else event)"

lemma same_contact_counted [simp]: "same_contact e (counted event) = same_contact e event"
  by (simp add: same_contact_def counted_def)

lemma counted_verdict [simp]: "ev_verdict (counted event) = ev_verdict event"
  by (simp add: counted_def)

lemma push_egress_fold:
  assumes "coalesces event (eb_ring (sk_egress sk)) = Some i"
  obtains j where "j < length (eb_ring (sk_egress sk))" "same_contact (er_event (eb_ring (sk_egress sk) ! j)) event"
    "push_egress event now sk = sk\<lparr>sk_egress := (sk_egress sk)\<lparr>eb_ring := (eb_ring (sk_egress sk))[j :=
       (eb_ring (sk_egress sk) ! j)\<lparr>er_event := fold_event (counted event) (er_event (eb_ring (sk_egress sk) ! j))\<rparr>]\<rparr>\<rparr>"
proof -
  let ?j = "length (eb_ring (sk_egress sk)) - EGRESS_COALESCE_WINDOW + i"
  have p: "i < length (drop (length (eb_ring (sk_egress sk)) - EGRESS_COALESCE_WINDOW) (eb_ring (sk_egress sk)))"
    "same_contact (er_event (eb_ring (sk_egress sk) ! ?j)) event"
    using assms unfolding coalesces_def position_Some_iff by auto
  show ?thesis
    by (rule that[of ?j]) (use p assms in \<open>auto simp: coalesces_def push_egress_def Let_def simp flip: counted_def\<close>)
qed

definition room :: "egress_row list \<Rightarrow> egress_row list" where
  "room ring = (if length ring \<ge> MAX_EGRESS_LINES then remove_nth (evict_idx ring) ring else ring)"

lemma push_egress_new:
  assumes "coalesces event (eb_ring (sk_egress sk)) = None"
  shows "eb_ring (sk_egress (push_egress event now sk)) = room (eb_ring (sk_egress sk))
           @ [\<lparr>er_seq = sk_seq sk + 1, er_timestamp = now, er_event = counted event\<rparr>]"
    and "sk_buffer (push_egress event now sk) = sk_buffer sk"
    and "sk_boot_id (push_egress event now sk) = sk_boot_id sk"
    and "length (eb_ring (sk_egress sk)) < MAX_EGRESS_LINES \<Longrightarrow>
      eb_dropped (sk_egress (push_egress event now sk)) = eb_dropped (sk_egress sk)
      \<and> eb_dropped_seq (sk_egress (push_egress event now sk)) = eb_dropped_seq (sk_egress sk)
      \<and> sk_seq (push_egress event now sk) = sk_seq sk + 1"
    and "MAX_EGRESS_LINES \<le> length (eb_ring (sk_egress sk)) \<Longrightarrow>
      eb_dropped (sk_egress (push_egress event now sk)) = saturating_add (eb_dropped (sk_egress sk)) 1
      \<and> eb_dropped_seq (sk_egress (push_egress event now sk)) =
          (if eb_dropped_seq (sk_egress sk) = 0 then sk_seq sk + 2 else eb_dropped_seq (sk_egress sk))
      \<and> sk_seq (push_egress event now sk) = (if eb_dropped_seq (sk_egress sk) = 0 then sk_seq sk + 2 else sk_seq sk + 1)"
  using assms by (simp_all add: push_egress_def coalesces_def Let_def room_def flip: counted_def)

lemma distinct_remove_nth: "distinct xs \<Longrightarrow> distinct (remove_nth i xs)"
  by (simp add: remove_nth_def set_take_disj_set_drop_if_distinct)

lemma room_subset: "set (room ring) \<subseteq> set ring"
  using set_remove_nth[of "evict_idx ring" ring] by (simp add: room_def)

lemma room_length: "length ring \<le> MAX_EGRESS_LINES \<Longrightarrow> length (room ring) < MAX_EGRESS_LINES"
  using length_remove_nth[OF evict_idx_less, of ring]
  by (cases "ring = []") (auto simp: room_def MAX_EGRESS_LINES_def)

lemma room_distinct: "distinct (map f ring) \<Longrightarrow> distinct (map f (room ring))"
  by (simp add: room_def map_remove_nth distinct_remove_nth)

lemma seqs_step:
  assumes "distinct (A @ R @ M)" "set (A @ R @ M) \<union> F \<subseteq> {0<..s}" "set (A @ R @ M) \<inter> F = {}"
    and "set R' \<subseteq> set R" "distinct R'" and "M' = M \<and> s' = s + 1 \<or> M = [] \<and> M' = [s + 2] \<and> s' = s + (2::nat)"
  shows "distinct (A @ (R' @ [s + 1]) @ M') \<and> set (A @ (R' @ [s + 1]) @ M') \<union> F \<subseteq> {0<..s'}
    \<and> set (A @ (R' @ [s + 1]) @ M') \<inter> F = {}"
proof -
  have new: "s + 1 \<notin> set A \<union> set R \<union> set M \<union> F" "s + 2 \<notin> set A \<union> set R \<union> set M \<union> F"
    using assms(2) by auto
  have sub: "set A \<union> set R \<union> set M \<union> F \<subseteq> {0<..s + 1}" using assms(2) by (auto dest: subsetD)
  show ?thesis using assms(6)
  proof
    assume m: "M' = M \<and> s' = s + 1"
    then show ?thesis using assms(1,3,4,5) new sub by auto
  next
    assume m: "M = [] \<and> M' = [s + 2] \<and> s' = s + 2"
    then show ?thesis using assms(1,3,4,5) new sub by auto
  qed
qed

lemma sink_inv_push_egress:
  assumes inv: "sink_inv F sk"
  shows "sink_inv F (push_egress event now sk)"
proof (cases "coalesces event (eb_ring (sk_egress sk))")
  case None
  let ?sk = "push_egress event now sk" and ?eb = "sk_egress sk"
  note n = push_egress_new[OF None, of now]
  have rs: "ring_seqs (sk_egress ?sk) = map er_seq (room (eb_ring ?eb)) @ [sk_seq sk + 1]"
    by (simp add: ring_seqs_def n(1))
  have sub: "set (map er_seq (room (eb_ring ?eb))) \<subseteq> set (ring_seqs ?eb)"
    using room_subset[of "eb_ring ?eb"] by (auto simp: ring_seqs_def)
  have dis: "distinct (map er_seq (room (eb_ring ?eb)))"
    using inv by (auto simp: sink_inv_def sink_seqs_def ring_seqs_def intro: room_distinct)
  have len: "length (eb_ring (sk_egress ?sk)) \<le> MAX_EGRESS_LINES"
    using inv room_length[of "eb_ring ?eb"] by (simp add: sink_inv_def n(1))
  have pos: "saturating_add x 1 > 0" for x by (simp add: saturating_add_def u64_max_def)
  have z: "eb_dropped ?eb = 0 \<longleftrightarrow> eb_dropped_seq ?eb = 0" using inv by (simp add: sink_inv_def)
  have m: "marker_seqs (sk_egress ?sk) = marker_seqs ?eb \<and> sk_seq ?sk = sk_seq sk + 1
      \<or> marker_seqs ?eb = [] \<and> marker_seqs (sk_egress ?sk) = [sk_seq sk + 2] \<and> sk_seq ?sk = sk_seq sk + 2"
    and z': "eb_dropped (sk_egress ?sk) = 0 \<longleftrightarrow> eb_dropped_seq (sk_egress ?sk) = 0"
    using n(4,5) z pos by (cases "length (eb_ring ?eb) < MAX_EGRESS_LINES"; cases "eb_dropped_seq ?eb = 0"; simp add: marker_seqs_def)+
  have old: "distinct (map ll_seq (sk_buffer sk) @ ring_seqs ?eb @ marker_seqs ?eb)"
    "set (map ll_seq (sk_buffer sk) @ ring_seqs ?eb @ marker_seqs ?eb) \<union> F \<subseteq> {0<..sk_seq sk}"
    "set (map ll_seq (sk_buffer sk) @ ring_seqs ?eb @ marker_seqs ?eb) \<inter> F = {}"
    using inv by (simp_all add: sink_inv_def sink_seqs_def)
  show ?thesis
    using seqs_step[OF old sub dis m] len inv z' by (simp add: sink_inv_def sink_seqs_def rs n(2))
next
  case (Some i)
  then show ?thesis
  proof (rule push_egress_fold)
    fix j assume j: "j < length (eb_ring (sk_egress sk))"
      and e: "push_egress event now sk = sk\<lparr>sk_egress := (sk_egress sk)\<lparr>eb_ring := (eb_ring (sk_egress sk))[j :=
        (eb_ring (sk_egress sk) ! j)\<lparr>er_event := fold_event (counted event) (er_event (eb_ring (sk_egress sk) ! j))\<rparr>]\<rparr>\<rparr>"
    have "map er_seq ((eb_ring (sk_egress sk))[j := (eb_ring (sk_egress sk) ! j)\<lparr>er_event := x\<rparr>]) = map er_seq (eb_ring (sk_egress sk))" for x
      using j by (simp add: map_update list_update_same_conv)
    then show ?thesis
      using inv by (simp add: e sink_inv_def sink_seqs_def ring_seqs_def marker_seqs_def)
  qed
qed

section \<open>Contacts survive a flood of denials\<close>

definition allow_row :: "egress_row \<Rightarrow> bool" where
  "allow_row e \<longleftrightarrow> ev_verdict (er_event e) = Allow"

definition allow_seqs :: "log_sink \<Rightarrow> nat list" where
  "allow_seqs sk = map er_seq (filter allow_row (eb_ring (sk_egress sk)))"

definition only_allows :: "log_sink \<Rightarrow> bool" where
  "only_allows sk \<longleftrightarrow> MAX_EGRESS_LINES \<le> length (eb_ring (sk_egress sk)) \<and> list_all allow_row (eb_ring (sk_egress sk))"

lemma evict_idx_deny:
  "\<not> list_all allow_row ring \<Longrightarrow> evict_idx ring < length ring \<and> \<not> allow_row (ring ! evict_idx ring)"
  by (auto simp: evict_idx_def position_None_iff position_Some_iff allow_row_def list_all_iff split: option.split)

lemma evict_idx_allow: "list_all allow_row ring \<Longrightarrow> evict_idx ring = 0"
  by (auto simp: evict_idx_def position_Some_iff allow_row_def list_all_length split: option.split)

lemma room_allows:
  "filter allow_row (room ring) =
     (if MAX_EGRESS_LINES \<le> length ring \<and> list_all allow_row ring then tl ring else filter allow_row ring)"
proof (cases "list_all allow_row ring")
  case True
  have "filter allow_row (tl ring) = tl ring"
    using True set_tl_subset[of ring] by (intro filter_True) (auto simp: list_all_iff)
  then show ?thesis using True evict_idx_allow[OF True] by (simp add: room_def remove_nth_def drop_Suc list_all_iff)
next
  case False
  then show ?thesis using evict_idx_deny[OF False] by (simp add: room_def filter_remove_nth)
qed

lemma deny_push:
  assumes d: "ev_verdict event \<noteq> Allow"
  shows "allow_seqs (push_egress event now sk) = (if only_allows sk then tl (allow_seqs sk) else allow_seqs sk)
    \<and> \<not> only_allows (push_egress event now sk)"
proof (cases "coalesces event (eb_ring (sk_egress sk))")
  case None
  have "filter allow_row (eb_ring (sk_egress (push_egress event now sk))) = filter allow_row (room (eb_ring (sk_egress sk)))"
    using d by (simp add: push_egress_new(1)[OF None] allow_row_def)
  moreover have "\<not> list_all allow_row (eb_ring (sk_egress (push_egress event now sk)))"
    using d by (simp add: push_egress_new(1)[OF None] allow_row_def)
  moreover have "list_all allow_row (eb_ring (sk_egress sk)) \<Longrightarrow> filter allow_row (eb_ring (sk_egress sk)) = eb_ring (sk_egress sk)"
    by (simp add: list_all_iff)
  ultimately show ?thesis
    by (simp add: allow_seqs_def only_allows_def room_allows map_tl)
next
  case (Some i)
  then show ?thesis
  proof (rule push_egress_fold)
    fix j let ?r = "eb_ring (sk_egress sk)" and ?e = "\<lambda>r j. (r ! j)\<lparr>er_event := fold_event (counted event) (er_event (r ! j))\<rparr>"
    assume j: "j < length ?r" and c: "same_contact (er_event (?r ! j)) event"
      and e: "push_egress event now sk = sk\<lparr>sk_egress := (sk_egress sk)\<lparr>eb_ring := ?r[j := ?e ?r j]\<rparr>\<rparr>"
    have n: "\<not> allow_row (?r ! j)" "\<not> allow_row (?e ?r j)"
      using c d by (simp_all add: allow_row_def same_contact_def fold_event_def)
    have "filter allow_row (?r[j := ?e ?r j]) = filter allow_row ?r"
      using n j by (subst (2) id_take_nth_drop[OF j]) (simp add: upd_conv_take_nth_drop)
    moreover have "\<not> list_all allow_row ?r" "\<not> list_all allow_row (?r[j := ?e ?r j])"
      using n j by (auto simp: list_all_length intro!: exI[of _ j])
    ultimately show ?thesis
      by (simp add: e allow_seqs_def only_allows_def)
  qed
qed

definition push_events :: "(egress_event \<times> nat) list \<Rightarrow> log_sink \<Rightarrow> log_sink" where
  "push_events es sk = fold (\<lambda>(ev, now). push_egress ev now) es sk"

lemma deny_flood:
  "\<forall>(ev, now) \<in> set es. ev_verdict ev \<noteq> Allow \<Longrightarrow>
    allow_seqs (push_events es sk) = (if es \<noteq> [] \<and> only_allows sk then tl (allow_seqs sk) else allow_seqs sk)
    \<and> (es \<noteq> [] \<longrightarrow> \<not> only_allows (push_events es sk))"
proof (induction es arbitrary: sk)
  case (Cons e es)
  obtain ev now where e: "e = (ev, now)" by (cases e)
  show ?case
    using Cons.IH[of "push_egress ev now sk"] deny_push[of ev now sk] Cons.prems
    by (cases "es = []") (simp_all add: e push_events_def)
qed (simp add: push_events_def)

section \<open>What a reader sees\<close>

definition sink_lines :: "(egress_event \<Rightarrow> string) \<Rightarrow> nat \<Rightarrow> log_sink \<Rightarrow> log_line list" where
  "sink_lines render now sk = sk_buffer sk @ egress_lines render now (sk_egress sk)"

lemma map_seq_sink_lines: "map ll_seq (sink_lines render now sk) = sink_seqs sk"
  by (simp add: sink_lines_def sink_seqs_def egress_lines_def ring_seqs_def marker_seqs_def egress_line_def)

lemma sort_key_strict: "distinct (map f xs) \<Longrightarrow> sorted_wrt (<) (map f (sort_key f xs))"
  for f :: "'a \<Rightarrow> nat"
  by (simp add: strict_sorted_iff distinct_map inj_on_def)

lemma get_logs_since_spec:
  assumes "sink_inv F sk"
  shows "set (get_logs_since render now since sk) = {l \<in> set (sink_lines render now sk). since < ll_seq l}"
    and "sorted_wrt (<) (map ll_seq (get_logs_since render now since sk))"
proof -
  have g: "get_logs_since render now since sk = sort_key ll_seq (filter (\<lambda>l. since < ll_seq l) (sink_lines render now sk))"
    by (simp add: get_logs_since_def sink_lines_def)
  then show "set (get_logs_since render now since sk) = {l \<in> set (sink_lines render now sk). since < ll_seq l}" by simp
  have "distinct (map ll_seq (sink_lines render now sk))"
    using assms by (simp add: map_seq_sink_lines sink_inv_def)
  then show "sorted_wrt (<) (map ll_seq (get_logs_since render now since sk))"
    unfolding g by (intro sort_key_strict) (simp add: distinct_map inj_on_def)
qed

end
