(* ===== verification/Net_Egress.thy ===== *)
theory Net_Egress
  imports Net_Addr Rust_Str
begin

unbundle bit_operations_syntax

text \<open>
  Where tenant code may connect to: \<open>crates/jkbase-common/src/egress.rs\<close> (which addresses are
  public, which host is on an allowlist, which resolved address to pin) and the egress policies of
  \<open>crates/jkbase-common/src/config.rs\<close> (\<open>EgressPolicy\<close>, \<open>ResolvedEgress\<close>, \<open>resolve_egress\<close>). The
  address test is shown to be membership in a table of reserved blocks, and the resolution of a
  project and a function policy to be their meet.
\<close>

section \<open>Public addresses\<close>

text \<open>The classification functions of \<open>std::net\<close> the source calls.\<close>

fun to_canonical :: "ip_addr \<Rightarrow> ip_addr" where
  "to_canonical (V4 a b c d) = V4 a b c d"
| "to_canonical (V6 a b c d e f g h) =
     (if a = 0 \<and> b = 0 \<and> c = 0 \<and> d = 0 \<and> e = 0 \<and> f = 0xFFFF
      then (case segment_octets g @ segment_octets h of
              [w, x, y, z] \<Rightarrow> V4 w x y z | _ \<Rightarrow> V6 a b c d e f g h)
      else V6 a b c d e f g h)"

definition v4_is_loopback :: "u8 \<Rightarrow> u8 \<Rightarrow> u8 \<Rightarrow> u8 \<Rightarrow> bool" where
  "v4_is_loopback a b c d \<longleftrightarrow> a = 127"

definition v4_is_private :: "u8 \<Rightarrow> u8 \<Rightarrow> u8 \<Rightarrow> u8 \<Rightarrow> bool" where
  "v4_is_private a b c d \<longleftrightarrow> a = 10 \<or> a = 172 \<and> 16 \<le> b \<and> b \<le> 31 \<or> a = 192 \<and> b = 168"

definition v4_is_link_local :: "u8 \<Rightarrow> u8 \<Rightarrow> u8 \<Rightarrow> u8 \<Rightarrow> bool" where
  "v4_is_link_local a b c d \<longleftrightarrow> a = 169 \<and> b = 254"

definition v4_is_broadcast :: "u8 \<Rightarrow> u8 \<Rightarrow> u8 \<Rightarrow> u8 \<Rightarrow> bool" where
  "v4_is_broadcast a b c d \<longleftrightarrow> a = 255 \<and> b = 255 \<and> c = 255 \<and> d = 255"

definition v4_is_unspecified :: "u8 \<Rightarrow> u8 \<Rightarrow> u8 \<Rightarrow> u8 \<Rightarrow> bool" where
  "v4_is_unspecified a b c d \<longleftrightarrow> a = 0 \<and> b = 0 \<and> c = 0 \<and> d = 0"

definition v4_is_multicast :: "u8 \<Rightarrow> u8 \<Rightarrow> u8 \<Rightarrow> u8 \<Rightarrow> bool" where
  "v4_is_multicast a b c d \<longleftrightarrow> 224 \<le> a \<and> a \<le> 239"

definition v4_is_documentation :: "u8 \<Rightarrow> u8 \<Rightarrow> u8 \<Rightarrow> u8 \<Rightarrow> bool" where
  "v4_is_documentation a b c d \<longleftrightarrow>
     a = 192 \<and> b = 0 \<and> c = 2 \<or> a = 198 \<and> b = 51 \<and> c = 100 \<or> a = 203 \<and> b = 0 \<and> c = 113"

definition v4_is_public :: "u8 \<Rightarrow> u8 \<Rightarrow> u8 \<Rightarrow> u8 \<Rightarrow> bool" where
  "v4_is_public a b c d =
     (if v4_is_loopback a b c d \<or> v4_is_private a b c d \<or> v4_is_link_local a b c d
         \<or> v4_is_broadcast a b c d \<or> v4_is_unspecified a b c d \<or> v4_is_multicast a b c d
         \<or> v4_is_documentation a b c d then False
      else if a = 0 then False
      else if a = 100 \<and> b AND 0xC0 = 64 then False
      else if a = 192 \<and> b = 0 \<and> c = 0 then False
      else if a = 192 \<and> b = 88 \<and> c = 99 then False
      else if a = 198 \<and> b AND 0xFE = 18 then False
      else if a \<ge> 240 then False
      else True)"

definition v6_is_public :: "u16 \<Rightarrow> u16 \<Rightarrow> u16 \<Rightarrow> u16 \<Rightarrow> u16 \<Rightarrow> u16 \<Rightarrow> u16 \<Rightarrow> u16 \<Rightarrow> bool" where
  "v6_is_public a b c d e f g h =
     (if a = 0 \<and> b = 0 \<and> c = 0 \<and> d = 0 \<and> e = 0 \<and> f = 0 \<and> g = 0 \<and> h = 1
         \<or> a = 0 \<and> b = 0 \<and> c = 0 \<and> d = 0 \<and> e = 0 \<and> f = 0 \<and> g = 0 \<and> h = 0
         \<or> a AND 0xFF00 = 0xFF00 then False
      else if a AND 0xE000 \<noteq> 0x2000 then False
      else if a = 0x2001 \<and> b = 0x0DB8 then False
      else if a = 0x2002 then False
      else True)"

definition ip_is_public :: "ip_addr \<Rightarrow> bool" where
  "ip_is_public ip =
     (case to_canonical ip of
        V4 a b c d \<Rightarrow> v4_is_public a b c d
      | V6 a b c d e f g h \<Rightarrow> v6_is_public a b c d e f g h)"

definition pick_safe_addr :: "sock_addr list \<Rightarrow> sock_addr option" where
  "pick_safe_addr addrs = find (\<lambda>a. ip_is_public (fst a)) addrs"

section \<open>Allowlists and policies\<close>

definition eq_ignore_ascii_case :: "string \<Rightarrow> string \<Rightarrow> bool" where
  "eq_ignore_ascii_case a b \<longleftrightarrow> to_ascii_lowercase a = to_ascii_lowercase b"

definition host_allowed :: "string \<Rightarrow> string list \<Rightarrow> bool" where
  "host_allowed host allowlist =
     (let h = to_ascii_lowercase (trim_end_char (CHR ''.'') host)
      in list_ex (\<lambda>a. eq_ignore_ascii_case a h) allowlist)"

datatype egress_policy = Toggle bool | Allowlist "string list"

datatype resolved_egress = RDefault | RSandbox | RAllowlist "string list"

definition norm_host :: "string \<Rightarrow> string" where
  "norm_host h = to_ascii_lowercase (trim_end_char (CHR ''.'') h)"

definition dedup_hosts :: "string list \<Rightarrow> string list" where
  "dedup_hosts hosts =
     foldl (\<lambda>acc h. let n = norm_host h in if n \<noteq> [] \<and> n \<notin> set acc then acc @ [n] else acc) [] hosts"

definition intersect_hosts :: "string list \<Rightarrow> string list \<Rightarrow> string list" where
  "intersect_hosts cl req =
     (let c = dedup_hosts cl in filter (\<lambda>h. h \<in> set c) (dedup_hosts req))"

fun resolve_egress :: "egress_policy option \<Rightarrow> egress_policy option \<Rightarrow> resolved_egress" where
  "resolve_egress None None = RDefault"
| "resolve_egress None (Some (Toggle True)) = RDefault"
| "resolve_egress (Some (Toggle True)) None = RDefault"
| "resolve_egress (Some (Toggle True)) (Some (Toggle True)) = RDefault"
| "resolve_egress None (Some (Toggle False)) = RSandbox"
| "resolve_egress (Some (Toggle True)) (Some (Toggle False)) = RSandbox"
| "resolve_egress None (Some (Allowlist f)) = RAllowlist (dedup_hosts f)"
| "resolve_egress (Some (Toggle True)) (Some (Allowlist f)) = RAllowlist (dedup_hosts f)"
| "resolve_egress (Some (Toggle False)) _ = RSandbox"
| "resolve_egress (Some (Allowlist p)) None = RAllowlist (dedup_hosts p)"
| "resolve_egress (Some (Allowlist p)) (Some (Toggle True)) = RAllowlist (dedup_hosts p)"
| "resolve_egress (Some (Allowlist p)) (Some (Toggle False)) = RSandbox"
| "resolve_egress (Some (Allowlist p)) (Some (Allowlist f)) = RAllowlist (intersect_hosts p f)"

section \<open>The reserved address blocks\<close>

text \<open>
  What public means: an IPv4 address outside every special-purpose block, each given by its network
  number and prefix length; an IPv6 address of \<open>2000::/3\<close> outside the documentation and 6to4 blocks.
\<close>

definition v4_num :: "nat \<Rightarrow> nat \<Rightarrow> nat \<Rightarrow> nat \<Rightarrow> nat" where
  "v4_num a b c d = a * 2 ^ 24 + b * 2 ^ 16 + c * 2 ^ 8 + d"

definition in_block :: "nat \<Rightarrow> nat \<Rightarrow> nat \<times> nat \<Rightarrow> bool" where
  "in_block w n b \<longleftrightarrow> n div 2 ^ (w - snd b) = fst b div 2 ^ (w - snd b)"

definition RESERVED_V4 :: "(nat \<times> nat) list" where
  "RESERVED_V4 =
     [(v4_num 0 0 0 0, 8), (v4_num 10 0 0 0, 8), (v4_num 100 64 0 0, 10), (v4_num 127 0 0 0, 8),
      (v4_num 169 254 0 0, 16), (v4_num 172 16 0 0, 12), (v4_num 192 0 0 0, 24),
      (v4_num 192 0 2 0, 24), (v4_num 192 88 99 0, 24), (v4_num 192 168 0 0, 16),
      (v4_num 198 18 0 0, 15), (v4_num 198 51 100 0, 24), (v4_num 203 0 113 0, 24),
      (v4_num 224 0 0 0, 4), (v4_num 240 0 0 0, 4)]"

fun addr_public :: "ip_addr \<Rightarrow> bool" where
  "addr_public (V4 a b c d) \<longleftrightarrow>
     (\<forall>blk \<in> set RESERVED_V4. \<not> in_block 32 (v4_num (unat a) (unat b) (unat c) (unat d)) blk)"
| "addr_public (V6 a b c d e f g h) \<longleftrightarrow>
     in_block 32 (unat a * 2 ^ 16 + unat b) (0x20000000, 3)
     \<and> \<not> in_block 32 (unat a * 2 ^ 16 + unat b) (0x20010DB8, 32)
     \<and> \<not> in_block 32 (unat a * 2 ^ 16 + unat b) (0x20020000, 16)"

section \<open>The classification is the block table\<close>

lemma unat_and_not_mask: "unat (x AND NOT (mask n) :: 'a::len word) = unat x div 2 ^ n * 2 ^ n"
proof -
  have "x AND NOT (mask n) = push_bit n (drop_bit n x)"
    by (auto simp: bit_eq_iff bit_simps)
  moreover have l: "unat x div 2 ^ n * 2 ^ n < 2 ^ LENGTH('a)"
    using unat_less_power[of x] by (metis div_times_less_eq_dividend le_less_trans)
  moreover have "unat (push_bit n (drop_bit n x)) = unat x div 2 ^ n * 2 ^ n"
    unfolding unsigned_push_bit_eq unsigned_drop_bit_eq take_bit_nat_eq_self[OF unat_less_power]
      drop_bit_eq_div[of n "unat x"] push_bit_eq_mult[of n "unat x div 2 ^ n"] by (rule take_bit_nat_eq_self[OF l])
  ultimately show ?thesis by (simp only:)
qed

lemma and_high:
  "(b :: u8) AND 0xC0 = 64 \<longleftrightarrow> unat b div 64 = 1" "(b :: u8) AND 0xFE = 18 \<longleftrightarrow> unat b div 2 = 9"
  "(s :: u16) AND 0xE000 = 0x2000 \<longleftrightarrow> unat s div 8192 = 1" "(s :: u16) AND 0xFF00 = 0xFF00 \<longleftrightarrow> unat s div 256 = 255"
proof -
  have m: "NOT (mask 6) = (0xC0 :: u8)" "NOT (mask 1) = (0xFE :: u8)" "NOT (mask 13) = (0xE000 :: u16)" "NOT (mask 8) = (0xFF00 :: u16)"
    by (simp_all add: mask_eq_exp_minus_1)
  have u: "unat (b AND 0xC0) = unat b div 64 * 64" "unat (b AND 0xFE) = unat b div 2 * 2"
    "unat (s AND 0xE000) = unat s div 8192 * 8192" "unat (s AND 0xFF00) = unat s div 256 * 256"
    using unat_and_not_mask[of b 6] unat_and_not_mask[of b 1] unat_and_not_mask[of s 13] unat_and_not_mask[of s 8]
    unfolding m by simp_all
  have "b AND 0xC0 = 64 \<longleftrightarrow> unat (b AND 0xC0) = unat (64 :: u8)" "b AND 0xFE = 18 \<longleftrightarrow> unat (b AND 0xFE) = unat (18 :: u8)"
    "s AND 0xE000 = 0x2000 \<longleftrightarrow> unat (s AND 0xE000) = unat (0x2000 :: u16)" "s AND 0xFF00 = 0xFF00 \<longleftrightarrow> unat (s AND 0xFF00) = unat (0xFF00 :: u16)"
    by (rule unat_inj_iff[symmetric])+
  then show "b AND 0xC0 = 64 \<longleftrightarrow> unat b div 64 = 1" "b AND 0xFE = 18 \<longleftrightarrow> unat b div 2 = 9"
    "s AND 0xE000 = 0x2000 \<longleftrightarrow> unat s div 8192 = 1" "s AND 0xFF00 = 0xFF00 \<longleftrightarrow> unat s div 256 = 255"
    unfolding u by simp_all
qed

lemma word_num:
  "a = numeral k \<longleftrightarrow> unat (a :: u8) = unat (numeral k :: u8)" "a = 0 \<longleftrightarrow> unat (a :: u8) = 0"
  "s = numeral k \<longleftrightarrow> unat (s :: u16) = unat (numeral k :: u16)" 
  by (simp_all only: unat_inj_iff unat_eq_0)

lemma div_eq_range: "0 < k \<Longrightarrow> n div k = q \<longleftrightarrow> q * k \<le> n \<and> n < (q + 1) * (k::nat)"
  by (metis Suc_eq_plus1 div_nat_eqI dividend_less_div_times div_times_less_eq_dividend mult.commute mult_Suc)

lemma v4_is_public_nat:
  "v4_is_public a b c d \<longleftrightarrow>
     (let a = unat a; b = unat b; c = unat c in
       a \<notin> {0, 10, 127} \<and> \<not> (a = 100 \<and> b div 64 = 1) \<and> \<not> (a = 169 \<and> b = 254) \<and> \<not> (a = 172 \<and> b div 16 = 1)
       \<and> \<not> (a = 192 \<and> (b = 0 \<and> (c = 0 \<or> c = 2) \<or> b = 88 \<and> c = 99 \<or> b = 168))
       \<and> \<not> (a = 198 \<and> (b div 2 = 9 \<or> b = 51 \<and> c = 100)) \<and> \<not> (a = 203 \<and> b = 0 \<and> c = 113) \<and> a < 224)"
proof -
  have r: "16 \<le> b \<and> b \<le> 31 \<longleftrightarrow> unat b div 16 = 1" "a \<ge> 240 \<longleftrightarrow> 240 \<le> unat a" "224 \<le> a \<and> a \<le> 239 \<longleftrightarrow> 224 \<le> unat a \<and> unat a \<le> 239"
    by (auto simp: word_le_nat_alt)
  show ?thesis
    unfolding v4_is_public_def v4_is_loopback_def v4_is_private_def v4_is_link_local_def v4_is_broadcast_def
      v4_is_unspecified_def v4_is_multicast_def v4_is_documentation_def r and_high
    unfolding word_num Let_def
  proof (cases "unat a \<in> {0, 10, 100, 127, 169, 172, 192, 198, 203}", goal_cases)
    case 1
    then show ?case by (elim insertE) (simp; blast?)+
  next
    case 2
    then show ?case by simp
  qed
qed


lemma pair_num: "b < k \<Longrightarrow> y < k \<Longrightarrow> a * k + b = x * k + y \<longleftrightarrow> a = x \<and> b = (y::nat)"
  by (metis add_right_cancel add.commute div_mult_self3 div_less mod_less mod_mult_self3 gr_zeroI not_less_zero plus_nat.add_0)

lemma v4_blocks:
  assumes "b < 256" "c < 256" "d < 256"
  shows "in_block 32 (v4_num a b c d) (v4_num x 0 0 0, 8) \<longleftrightarrow> a = x"
    and "y < 256 \<Longrightarrow> in_block 32 (v4_num a b c d) (v4_num x y 0 0, 16) \<longleftrightarrow> a = x \<and> b = y"
    and "y < 256 \<Longrightarrow> z < 256 \<Longrightarrow> in_block 32 (v4_num a b c d) (v4_num x y z 0, 24) \<longleftrightarrow> a = x \<and> b = y \<and> c = z"
    and "in_block 32 (v4_num a b c d) (v4_num 100 64 0 0, 10) \<longleftrightarrow> a = 100 \<and> b div 64 = 1"
    and "in_block 32 (v4_num a b c d) (v4_num 172 16 0 0, 12) \<longleftrightarrow> a = 172 \<and> b div 16 = 1"
    and "in_block 32 (v4_num a b c d) (v4_num 198 18 0 0, 15) \<longleftrightarrow> a = 198 \<and> b div 2 = 9"
    and "in_block 32 (v4_num a b c d) (v4_num 224 0 0 0, 4) \<longleftrightarrow> a div 16 = 14"
    and "in_block 32 (v4_num a b c d) (v4_num 240 0 0 0, 4) \<longleftrightarrow> a div 16 = 15"
proof -
  have d: "v4_num a b c d div 2 ^ 24 = a" "v4_num a b c d div 2 ^ 16 = a * 256 + b"
    "v4_num a b c d div 2 ^ 8 = (a * 256 + b) * 256 + c"
    "v4_num x y z 0 div 2 ^ 8 = (x * 256 + y) * 256 + z" "v4_num x y 0 0 div 2 ^ 16 = x * 256 + y" "v4_num x 0 0 0 div 2 ^ 24 = x"
    using assms by (simp_all add: v4_num_def)
  show "in_block 32 (v4_num a b c d) (v4_num x 0 0 0, 8) \<longleftrightarrow> a = x"
    and "y < 256 \<Longrightarrow> in_block 32 (v4_num a b c d) (v4_num x y 0 0, 16) \<longleftrightarrow> a = x \<and> b = y"
    and "y < 256 \<Longrightarrow> z < 256 \<Longrightarrow> in_block 32 (v4_num a b c d) (v4_num x y z 0, 24) \<longleftrightarrow> a = x \<and> b = y \<and> c = z"
    using d pair_num[OF assms(1), of y a x] pair_num[OF assms(2), of z "a * 256 + b" "x * 256 + y"]
    by (simp_all add: in_block_def)
  have p: "v4_num a b c d div 2 ^ 22 = a * 4 + b div 64" "v4_num a b c d div 2 ^ 20 = a * 16 + b div 16"
    "v4_num a b c d div 2 ^ 17 = a * 128 + b div 2" "v4_num a b c d div 2 ^ 28 = a div 16"
    "v4_num 100 64 0 0 div 2 ^ 22 = 100 * 4 + 1" "v4_num 172 16 0 0 div 2 ^ 20 = 172 * 16 + 1"
    "v4_num 198 18 0 0 div 2 ^ 17 = 198 * 128 + 9" "v4_num 224 0 0 0 div 2 ^ 28 = 14" "v4_num 240 0 0 0 div 2 ^ 28 = 15"
    using assms by (simp_all add: v4_num_def)
  have q: "b div 64 < 4" "b div 16 < 16" "b div 2 < 128" using assms(1) by simp_all
  show "in_block 32 (v4_num a b c d) (v4_num 100 64 0 0, 10) \<longleftrightarrow> a = 100 \<and> b div 64 = 1"
    "in_block 32 (v4_num a b c d) (v4_num 172 16 0 0, 12) \<longleftrightarrow> a = 172 \<and> b div 16 = 1"
    "in_block 32 (v4_num a b c d) (v4_num 198 18 0 0, 15) \<longleftrightarrow> a = 198 \<and> b div 2 = 9"
    "in_block 32 (v4_num a b c d) (v4_num 224 0 0 0, 4) \<longleftrightarrow> a div 16 = 14"
    "in_block 32 (v4_num a b c d) (v4_num 240 0 0 0, 4) \<longleftrightarrow> a div 16 = 15"
    using p pair_num[of "b div 64" 4 1 a 100] pair_num[of "b div 16" 16 1 a 172] pair_num[of "b div 2" 128 9 a 198] q
    by (simp_all only: in_block_def fst_conv snd_conv) simp_all
qed

lemma v4_public_blocks: "v4_is_public a b c d \<longleftrightarrow> addr_public (V4 a b c d)"
proof -
  have bs: "unat b < 256" "unat c < 256" "unat d < 256"
    using unat_less_power[of b] unat_less_power[of c] unat_less_power[of d] by simp_all
  let ?n = "v4_num (unat a) (unat b) (unat c) (unat d)"
  have q: "unat a div 16 = 14 \<or> unat a div 16 = 15 \<longleftrightarrow> \<not> unat a < 224"
    using unat_less_power[of a] by auto
  have n: "\<not> (unat a = 0 \<or> unat a = 10 \<or> unat a = 100 \<and> unat b div 64 = 1 \<or> unat a = 127
      \<or> unat a = 169 \<and> unat b = 254 \<or> unat a = 172 \<and> unat b div 16 = 1 \<or> unat a = 192 \<and> unat b = 0 \<and> unat c = 0
      \<or> unat a = 192 \<and> unat b = 0 \<and> unat c = 2 \<or> unat a = 192 \<and> unat b = 88 \<and> unat c = 99 \<or> unat a = 192 \<and> unat b = 168
      \<or> unat a = 198 \<and> unat b div 2 = 9 \<or> unat a = 198 \<and> unat b = 51 \<and> unat c = 100 \<or> unat a = 203 \<and> unat b = 0 \<and> unat c = 113
      \<or> unat a div 16 = 14 \<or> unat a div 16 = 15) \<longleftrightarrow> addr_public (V4 a b c d)"
    unfolding addr_public.simps RESERVED_V4_def list.set
    by (simp add: v4_blocks[OF bs])
  show ?thesis
    unfolding n[symmetric] v4_is_public_nat Let_def insert_iff empty_iff using q by blast
qed

lemma v6_public_blocks: "v6_is_public a b c d e f g h \<longleftrightarrow> addr_public (V6 a b c d e f g h)"
proof -
  have l: "unat b < 65536" using unat_less_power[of b] by simp
  have "(unat a * 2 ^ 16 + unat b) div 2 ^ 29 = unat a div 8192" "(unat a * 2 ^ 16 + unat b) div 2 ^ 16 = unat a"
    using l by simp_all
  then have "addr_public (V6 a b c d e f g h) \<longleftrightarrow>
      unat a div 8192 = 1 \<and> \<not> (unat a = 0x2001 \<and> unat b = 0x0DB8) \<and> unat a \<noteq> 0x2002"
    using pair_num[OF l, of "0x0DB8" "unat a" "0x2001"] by (simp add: in_block_def)
  moreover have "v6_is_public a b c d e f g h \<longleftrightarrow>
      unat a div 8192 = 1 \<and> \<not> (unat a = 0x2001 \<and> unat b = 0x0DB8) \<and> unat a \<noteq> 0x2002"
    unfolding v6_is_public_def and_high unfolding word_num(3) by (auto simp: unat_eq_0)
  ultimately show ?thesis by blast
qed

lemma ip_is_public_blocks: "ip_is_public ip \<longleftrightarrow> addr_public (to_canonical ip)"
  by (simp add: ip_is_public_def v4_public_blocks v6_public_blocks split: ip_addr.split)

section \<open>What a policy permits\<close>

text \<open>A declared policy read as the set of hosts it permits; absent and \<open>true\<close> are no restriction.\<close>

fun policy_allows :: "egress_policy option \<Rightarrow> string \<Rightarrow> bool" where
  "policy_allows None host \<longleftrightarrow> True"
| "policy_allows (Some (Toggle t)) host \<longleftrightarrow> t"
| "policy_allows (Some (Allowlist hs)) host \<longleftrightarrow> norm_host host \<noteq> [] \<and> norm_host host \<in> norm_host ` set hs"

fun resolved_allows :: "resolved_egress \<Rightarrow> string \<Rightarrow> bool" where
  "resolved_allows RDefault host \<longleftrightarrow> True"
| "resolved_allows RSandbox host \<longleftrightarrow> False"
| "resolved_allows (RAllowlist hs) host \<longleftrightarrow> host_allowed host hs"

lemma ascii_lower_dot [simp]: "ascii_lower c = CHR ''.'' \<longleftrightarrow> c = CHR ''.''"
proof
  assume "ascii_lower c = CHR ''.''"
  then have e: "(of_char (ascii_lower c) :: nat) = 46" by simp
  show "c = CHR ''.''"
  proof (cases "(of_char c :: nat) \<in> {65..90}")
    case True
    then have "(of_char (ascii_lower c) :: nat) = of_char c + 32" by (auto simp: ascii_lower_def)
    then show ?thesis using e True by simp
  qed (use \<open>ascii_lower c = CHR ''.''\<close> in \<open>auto simp: ascii_lower_def split: if_splits\<close>)
qed (simp add: ascii_lower_def)

lemma lowercase_Nil_iff [simp]: "to_ascii_lowercase s = [] \<longleftrightarrow> s = []"
  by (simp add: to_ascii_lowercase_def)

lemma lowercase_rev: "to_ascii_lowercase (rev s) = rev (to_ascii_lowercase s)"
  by (simp add: to_ascii_lowercase_def rev_map)

lemma trim_end_lowercase:
  "trim_end_char (CHR ''.'') (to_ascii_lowercase s) = to_ascii_lowercase (trim_end_char (CHR ''.'') s)"
  by (simp add: trim_end_char_def to_ascii_lowercase_def dropWhile_map comp_def rev_map)

lemma dropWhile_idem: "dropWhile P (dropWhile P xs) = dropWhile P xs"
  by (induction xs) auto

lemma trim_end_char_idem: "trim_end_char c (trim_end_char c s) = trim_end_char c s"
  by (simp add: trim_end_char_def dropWhile_idem)

lemma norm_host_idem [simp]: "norm_host (norm_host h) = norm_host h"
  by (simp add: norm_host_def trim_end_lowercase trim_end_char_idem)

lemma norm_host_lower [simp]: "to_ascii_lowercase (norm_host h) = norm_host h"
  by (simp add: norm_host_def)

lemma foldl_dedup:
  "set (foldl (\<lambda>acc h. let n = norm_host h in if n \<noteq> [] \<and> n \<notin> set acc then acc @ [n] else acc) acc hs)
     = set acc \<union> {n \<in> norm_host ` set hs. n \<noteq> []}"
  by (induction hs arbitrary: acc) (auto simp: Let_def)

lemma set_dedup_hosts: "set (dedup_hosts hs) = {n \<in> norm_host ` set hs. n \<noteq> []}"
  unfolding dedup_hosts_def foldl_dedup by simp

lemma distinct_dedup_hosts: "distinct (dedup_hosts hs)"
proof -
  have "distinct acc \<Longrightarrow>
    distinct (foldl (\<lambda>acc h. let n = norm_host h in if n \<noteq> [] \<and> n \<notin> set acc then acc @ [n] else acc) acc hs)" for acc
    by (induction hs arbitrary: acc) (auto simp: Let_def)
  then show ?thesis by (simp add: dedup_hosts_def)
qed

lemma host_allowed_norm:
  assumes "\<And>a. a \<in> set hs \<Longrightarrow> norm_host a = a"
  shows "host_allowed host hs \<longleftrightarrow> norm_host host \<in> set hs"
proof -
  have "eq_ignore_ascii_case a (norm_host host) \<longleftrightarrow> a = norm_host host" if "a \<in> set hs" for a
    using norm_host_lower[of a] assms[OF that] by (simp add: eq_ignore_ascii_case_def)
  then show ?thesis
    by (auto simp: host_allowed_def list_ex_iff Let_def simp flip: norm_host_def)
qed

lemma host_allowed_dedup:
  "host_allowed host (dedup_hosts hs) \<longleftrightarrow> norm_host host \<noteq> [] \<and> norm_host host \<in> norm_host ` set hs"
  by (subst host_allowed_norm) (auto simp: set_dedup_hosts)

lemma host_allowed_intersect:
  "host_allowed host (intersect_hosts p f) \<longleftrightarrow> host_allowed host (dedup_hosts p) \<and> host_allowed host (dedup_hosts f)"
  by (subst (1 2 3) host_allowed_norm) (auto simp: intersect_hosts_def set_dedup_hosts Let_def)

lemma resolve_egress_allows:
  "resolved_allows (resolve_egress p f) host \<longleftrightarrow> policy_allows p host \<and> policy_allows f host"
  by (cases "(p, f)" rule: resolve_egress.cases) (simp_all add: host_allowed_dedup host_allowed_intersect)

end
