(* ===== verification/Fn_Egress.thy ===== *)
theory Fn_Egress
  imports L4_Egress Log_Sink Net_Egress Net_Parse
begin

text \<open>
  The egress gate of the function runtime, \<open>crates/jkbase-agent/src/function_egress.rs\<close>: the shared
  context, the connect-rate bucket (f64 quantities as reals), the pure decision \<open>decide\<close>
  (\<open>egress_decide\<close>), the handler \<open>gate_send\<close>, the own-storage path and the byte budget of an
  invocation. Resolver, sockets, TLS and HTTP are inputs: what they answer and how each bounded wait
  ends. Every decision is recorded through the agent's sink (\<open>Log_Sink\<close>).

  The lemmas show that whatever the handler dials passed the zone test, both policies and the audit,
  that one invocation moves at most its byte budget, and the bound on the rate of connects (the
  bucket as a \<open>rate_limiter\<close>).
\<close>

section \<open>The connect-rate bucket\<close>

record fn_bucket =
  fb_tokens :: real
  fb_capacity :: real
  fb_refill_per_sec :: real
  fb_last :: instant

definition fb_new_at :: "real \<Rightarrow> real \<Rightarrow> instant \<Rightarrow> fn_bucket" where
  "fb_new_at capacity refill now =
     \<lparr>fb_tokens = capacity, fb_capacity = capacity, fb_refill_per_sec = refill, fb_last = now\<rparr>"

definition fb_try_take_at :: "instant \<Rightarrow> fn_bucket \<Rightarrow> bool \<times> fn_bucket" where
  "fb_try_take_at now b =
     (let elapsed = as_secs_f64 (now - fb_last b);
          b = b\<lparr>fb_last := now, fb_tokens := min (fb_tokens b + elapsed * fb_refill_per_sec b) (fb_capacity b)\<rparr>
      in if fb_tokens b \<ge> 1 then (True, b\<lparr>fb_tokens := fb_tokens b - 1\<rparr>) else (False, b))"

section \<open>The gate\<close>

definition MAX_INFLIGHT_OUTBOUND :: nat where "MAX_INFLIGHT_OUTBOUND = 16"
definition CONNECT_TIMEOUT_CAP :: duration where "CONNECT_TIMEOUT_CAP = from_secs 5"
definition FIRST_BYTE_TIMEOUT_CAP :: duration where "FIRST_BYTE_TIMEOUT_CAP = from_secs 10"
definition BETWEEN_BYTES_TIMEOUT_CAP :: duration where "BETWEEN_BYTES_TIMEOUT_CAP = from_secs 10"
definition PER_INVOCATION_BYTE_CAP :: nat where "PER_INVOCATION_BYTE_CAP = 64 * 1024 * 1024"
definition RATE_BURST :: real where "RATE_BURST = 60"
definition RATE_REFILL_PER_SEC :: real where "RATE_REFILL_PER_SEC = 20"
definition MAX_OWN_STORAGE_BODY :: nat where "MAX_OWN_STORAGE_BODY = 10 * 1024 * 1024"

datatype error_code =
    HttpRequestUriInvalid | DestinationIpProhibited | DnsError | HttpRequestDenied
  | ConnectionLimitReached | ConnectionTimeout | ConnectionRefused | TlsProtocolError
  | HttpProtocolError | ConnectionReadTimeout | InternalError

record platform_egress =
  pf_storage_host :: "string option"
  pf_platform_ips :: "string list"

record egress_ctx =
  ec_storage_host :: "string option"
  ec_platform_ips :: "ip_addr list"
  ec_inflight :: nat
  ec_rate :: fn_bucket
  ec_log :: log_sink

definition egress_context_new :: "platform_egress \<Rightarrow> instant \<Rightarrow> log_sink \<Rightarrow> egress_ctx" where
  "egress_context_new platform now sink =
     \<lparr>ec_storage_host = (case map_option (\<lambda>h. to_ascii_lowercase (trim_end_char (CHR ''.'') h)) (pf_storage_host platform) of
          Some h \<Rightarrow> if h = [] then None else Some h | None \<Rightarrow> None),
      ec_platform_ips = List.map_filter parse_ip_addr (pf_platform_ips platform),
      ec_inflight = MAX_INFLIGHT_OUTBOUND,
      ec_rate = fb_new_at RATE_BURST RATE_REFILL_PER_SEC now,
      ec_log = sink\<rparr>"

datatype egress_decision = Dial sock_addr | EDeny error_code verdict

fun is_v4 :: "ip_addr \<Rightarrow> bool" where
  "is_v4 (V4 _ _ _ _) = True"
| "is_v4 (V6 _ _ _ _ _ _ _ _) = False"

definition vet_public :: "ip_addr \<Rightarrow> ip_addr list \<Rightarrow> bool" where
  "vet_public ip platform_ips \<longleftrightarrow> is_v4 ip \<and> ip \<notin> set platform_ips \<and> ip_is_public ip"

definition egress_decide ::
  "ip_addr list \<Rightarrow> string \<Rightarrow> u16 \<Rightarrow> string option \<Rightarrow> ip_addr list \<Rightarrow> resolved_egress \<Rightarrow> egress_decision" where
  "egress_decide addrs host port storage_host platform_ips policy =
     (let host_norm = to_ascii_lowercase (trim_end_char (CHR ''.'') host)
      in if storage_host = Some host_norm
         then (case find (\<lambda>ip. is_v4 ip \<and> ip \<in> set platform_ips) addrs of
                 Some ip \<Rightarrow> Dial (ip, port)
               | None \<Rightarrow> EDeny DestinationIpProhibited DenyPlatform)
         else (case find (\<lambda>ip. vet_public ip platform_ips) addrs of
                 None \<Rightarrow> EDeny DestinationIpProhibited DenyPlatform
               | Some public_addr \<Rightarrow>
                   (case policy of
                      RDefault \<Rightarrow> Dial (public_addr, port)
                    | RSandbox \<Rightarrow> EDeny HttpRequestDenied DenySandbox
                    | RAllowlist hosts \<Rightarrow>
                        (if host_allowed host_norm hosts then Dial (public_addr, port)
                         else EDeny HttpRequestDenied DenyAllowlist))))"

text \<open>
  A request: its URI's authority (host and explicit port) and path, its \<open>Host\<close> header, and the wasi
  configuration. The network as the handler sees it: the resolver's answer, the clocks, and how each
  bounded wait ends.
\<close>

record outgoing_request =
  og_method :: string
  og_authority :: "(string \<times> u16 option) option"
  og_path_and_query :: "string option"
  og_host_header :: "string option"
  og_use_tls :: bool
  og_connect_timeout :: duration
  og_first_byte_timeout :: duration
  og_between_bytes_timeout :: duration

datatype timed = TimedOut | Failed | Done

record net_env =
  ne_lookup_ip :: "string \<Rightarrow> ip_addr list option"
  ne_now :: instant
  ne_wall :: nat
  ne_connect :: timed
  ne_server_name :: "string \<Rightarrow> bool"
  ne_tls :: timed
  ne_handshake :: timed
  ne_header_ok :: "string \<Rightarrow> bool"
  ne_uri_ok :: "string \<Rightarrow> bool"
  ne_send :: timed

record incoming_response =
  ir_dialled :: sock_addr
  ir_host_header :: "string option"
  ir_uri :: string
  ir_connect_timeout :: duration
  ir_first_byte_timeout :: duration
  ir_between_bytes_timeout :: duration

definition authority_parts :: "(string \<times> u16 option) option \<Rightarrow> bool \<Rightarrow> (string \<times> u16) option" where
  "authority_parts auth use_tls =
     map_option (\<lambda>(host, port). (host, case port of Some p \<Rightarrow> p | None \<Rightarrow> if use_tls then 443 else 80)) auth"

definition min_dur :: "duration \<Rightarrow> duration \<Rightarrow> duration" where
  "min_dur a b = (if a < b then a else b)"

text \<open>The text of an address in a log row; only IPv4 addresses get that far.\<close>

fun ip_text :: "ip_addr \<Rightarrow> string option" where
  "ip_text (V4 a b c d) = Some (show_v4 a b c d)"
| "ip_text (V6 _ _ _ _ _ _ _ _) = None"

definition emit ::
  "string \<Rightarrow> string \<Rightarrow> u16 \<Rightarrow> string \<Rightarrow> verdict \<Rightarrow> string option \<Rightarrow> nat \<Rightarrow> egress_ctx \<Rightarrow> egress_ctx" where
  "emit function host port meth v dest_ip wall ctx =
     ctx\<lparr>ec_log := push_egress
       \<lparr>ev_function = function, ev_dest_host = host, ev_dest_port = port, ev_dest_ip = dest_ip,
        ev_verdict = v, ev_method = meth, ev_count = 1, ev_bytes_out = 0, ev_bytes_in = 0,
        ev_status = None\<rparr> wall (ec_log ctx)\<rparr>"

definition resolve_host :: "net_env \<Rightarrow> string \<Rightarrow> ip_addr list" where
  "resolve_host en host =
     (case parse_ipv4_addr host of
        Some v4 \<Rightarrow> [v4]
      | None \<Rightarrow> (case ne_lookup_ip en host of Some ips \<Rightarrow> filter is_v4 ips | None \<Rightarrow> []))"

text \<open>From the connect to the response head: everything after the last check.\<close>

definition wait_for :: "timed \<Rightarrow> error_code \<Rightarrow> error_code \<Rightarrow> (error_code + 'a) \<Rightarrow> error_code + 'a" where
  "wait_for t elapsed failed rest = (case t of TimedOut \<Rightarrow> Inl elapsed | Failed \<Rightarrow> Inl failed | Done \<Rightarrow> rest)"

definition connect_and_send ::
  "net_env \<Rightarrow> outgoing_request \<Rightarrow> string \<Rightarrow> u16 \<Rightarrow> sock_addr \<Rightarrow> error_code + incoming_response" where
  "connect_and_send en rq host port addr =
     (let connect_to = min_dur (og_connect_timeout rq) CONNECT_TIMEOUT_CAP;
          first_byte = min_dur (og_first_byte_timeout rq) FIRST_BYTE_TIMEOUT_CAP;
          between_bytes = min_dur (og_between_bytes_timeout rq) BETWEEN_BYTES_TIMEOUT_CAP;
          use_tls = og_use_tls rq;
          authority = (if use_tls \<and> port = 443 \<or> \<not> use_tls \<and> port = 80 then host
                       else host @ '':'' @ show_nat (unat port));
          host_header = (if ne_header_ok en authority then Some authority else og_host_header rq);
          uri = (case og_path_and_query rq of Some p \<Rightarrow> p | None \<Rightarrow> ''/'');
          after_handshake =
            (if \<not> ne_uri_ok en uri then Inl HttpRequestUriInvalid
             else wait_for (ne_send en) ConnectionReadTimeout HttpProtocolError
               (Inr \<lparr>ir_dialled = addr, ir_host_header = host_header, ir_uri = uri, ir_connect_timeout = connect_to,
                     ir_first_byte_timeout = first_byte, ir_between_bytes_timeout = between_bytes\<rparr>));
          handshake = wait_for (ne_handshake en) ConnectionTimeout HttpProtocolError after_handshake
      in wait_for (ne_connect en) ConnectionTimeout ConnectionRefused
           (if use_tls
            then (if \<not> ne_server_name en host then Inl DnsError
                  else wait_for (ne_tls en) ConnectionTimeout TlsProtocolError handshake)
            else handshake))"

text \<open>
  The handler. Beside its result it returns the address it opened a connection to, if it did, with the
  audit log as it was at the moment the socket was opened. A permit taken is given back on every error and
  stays with the connection's worker on success.
\<close>

definition gate_send ::
  "net_env \<Rightarrow> outgoing_request \<Rightarrow> resolved_egress \<Rightarrow> string \<Rightarrow> egress_ctx
   \<Rightarrow> (error_code + incoming_response) \<times> (sock_addr \<times> log_sink) option \<times> egress_ctx" where
  "gate_send en rq policy function ctx =
     (case authority_parts (og_authority rq) (og_use_tls rq) of
        None \<Rightarrow> (Inl HttpRequestUriInvalid, None, ctx)
      | Some (host, port) \<Rightarrow>
          (let emit_row = (\<lambda>v ip. emit function host port (og_method rq) v ip (ne_wall en))
           in if parse_all read_ipv6_addr host \<noteq> None \<or> CHR '':'' \<in> set host
              then (Inl DestinationIpProhibited, None, emit_row DenyPlatform None ctx)
              else
                let addrs = resolve_host en host
                in if addrs = [] then (Inl DnsError, None, emit_row VError None ctx)
              else
                let first_ip = ip_text (hd addrs)
                in case egress_decide addrs host port (ec_storage_host ctx) (ec_platform_ips ctx) policy of
                     EDeny code v \<Rightarrow> (Inl code, None, emit_row v first_ip ctx)
                   | Dial addr \<Rightarrow>
                       (let (granted, b) = fb_try_take_at (ne_now en) (ec_rate ctx);
                            ctx = ctx\<lparr>ec_rate := b\<rparr>
                        in if \<not> granted then (Inl ConnectionLimitReached, None, emit_row VError first_ip ctx)
                           else if ec_inflight ctx = 0 then (Inl ConnectionLimitReached, None, emit_row VError first_ip ctx)
                           else
                             let own_ok = ((case ec_storage_host ctx of
                                              Some s \<Rightarrow> eq_ignore_ascii_case (trim_end_char (CHR ''.'') host) s
                                            | None \<Rightarrow> False)
                                           \<and> fst addr \<in> set (ec_platform_ips ctx))
                             in if \<not> own_ok \<and> \<not> vet_public (fst addr) (ec_platform_ips ctx)
                                then (Inl DestinationIpProhibited, None, emit_row DenyPlatform (ip_text (fst addr)) ctx)
                                else
                                  let ctx = emit_row Allow (ip_text (fst addr)) ctx;
                                      res = connect_and_send en rq host port addr
                                  in (res, Some (addr, ec_log ctx),
                                      if is_ok res then ctx\<lparr>ec_inflight := ec_inflight ctx - 1\<rparr> else ctx))))"

section \<open>The own-storage path\<close>

record storage_env =
  se_net :: net_env
  se_request_ok :: bool
  se_status :: nat
  se_body :: "bytes option"

definition own_storage_request ::
  "storage_env \<Rightarrow> egress_ctx \<Rightarrow> (error_code + nat \<times> bytes) \<times> sock_addr option \<times> egress_ctx" where
  "own_storage_request en ctx =
     (case ec_storage_host ctx of
        None \<Rightarrow> (Inl InternalError, None, ctx)
      | Some host \<Rightarrow>
          (let addrs = (case ne_lookup_ip (se_net en) host of Some l \<Rightarrow> filter is_v4 l | None \<Rightarrow> [])
           in case find (\<lambda>ip. ip \<in> set (ec_platform_ips ctx)) addrs of
                None \<Rightarrow> (Inl DestinationIpProhibited, None, ctx)
              | Some ip \<Rightarrow>
                  (let addr = (ip, 443);
                       (granted, b) = fb_try_take_at (ne_now (se_net en)) (ec_rate ctx);
                       ctx = ctx\<lparr>ec_rate := b\<rparr>
                   in if \<not> granted then (Inl ConnectionLimitReached, None, ctx)
                      else if ec_inflight ctx = 0 then (Inl ConnectionLimitReached, None, ctx)
                      else
                        (wait_for (ne_connect (se_net en)) ConnectionTimeout ConnectionRefused
                           (if \<not> ne_server_name (se_net en) host then Inl InternalError
                            else wait_for (ne_tls (se_net en)) ConnectionTimeout TlsProtocolError
                              (wait_for (ne_handshake (se_net en)) ConnectionTimeout HttpProtocolError
                                (if \<not> se_request_ok en then Inl InternalError
                                 else wait_for (ne_send (se_net en)) ConnectionReadTimeout HttpProtocolError
                                   (case se_body en of
                                      None \<Rightarrow> Inl HttpProtocolError
                                    | Some body \<Rightarrow>
                                        (if length body > MAX_OWN_STORAGE_BODY then Inl HttpProtocolError
                                         else Inr (se_status en, body)))))),
                         Some addr, ctx))))"

section \<open>The byte budget of one invocation\<close>

datatype frame = FData nat | FTrailers

datatype body_poll = BPending | BEnd | BErr error_code | BFrame frame

definition capped_poll_frame :: "nat \<Rightarrow> body_poll \<Rightarrow> body_poll \<times> nat" where
  "capped_poll_frame budget inner =
     (case inner of
        BFrame (FData len) \<Rightarrow>
          (if len \<le> budget then (BFrame (FData len), budget - len) else (BErr InternalError, budget))
      | other \<Rightarrow> (other, budget))"

fun capped_run :: "nat \<Rightarrow> body_poll list \<Rightarrow> body_poll list \<times> nat" where
  "capped_run budget [] = ([], budget)"
| "capped_run budget (x # xs) =
     (let (y, b) = capped_poll_frame budget x; (ys, b') = capped_run b xs in (y # ys, b'))"

fun frame_bytes :: "body_poll \<Rightarrow> nat" where
  "frame_bytes (BFrame (FData n)) = n"
| "frame_bytes _ = 0"

lemma capped_budget: "(\<Sum>x\<leftarrow>fst (capped_run budget xs). frame_bytes x) + snd (capped_run budget xs) = budget"
proof (induction xs arbitrary: budget)
  case (Cons x xs)
  show ?case
    using Cons[of "snd (capped_poll_frame budget x)"]
    by (auto simp: split_beta capped_poll_frame_def split: body_poll.splits frame.splits if_splits)
qed simp

section \<open>The connect rate\<close>

definition fb_ok :: "fn_bucket \<Rightarrow> bool" where
  "fb_ok b \<longleftrightarrow> 0 \<le> fb_refill_per_sec b \<and> 0 \<le> fb_tokens b \<and> fb_tokens b \<le> fb_capacity b"

lemma fb_take:
  assumes "fb_ok b" and "fb_last b \<le> now"
  shows "fb_ok (snd (fb_try_take_at now b))" "fb_last (snd (fb_try_take_at now b)) = now"
    "fb_refill_per_sec (snd (fb_try_take_at now b)) = fb_refill_per_sec b"
    "fb_tokens (snd (fb_try_take_at now b)) + (if fst (fb_try_take_at now b) then 1 else 0)
       \<le> fb_tokens b + as_secs_f64 (now - fb_last b) * fb_refill_per_sec b"
  using assms by (auto simp: fb_try_take_at_def fb_ok_def Let_def min_def)

interpretation fn: rate_limiter "\<lambda>_. fb_try_take_at" "\<lambda>_ :: unit. 1"
  "\<lambda>b. fb_ok b \<and> fb_refill_per_sec b = RATE_REFILL_PER_SEC" fb_tokens RATE_REFILL_PER_SEC fb_last
proof (unfold_locales, goal_cases)
  case (1 s)
  then show ?case by (simp add: fb_ok_def)
next
  case (2 s a now)
  then show ?case using fb_take(1,3)[of s now] by simp
next
  case (3 s now a)
  then show ?case by (simp add: fb_try_take_at_def Let_def)
next
  case (4 s a now)
  then show ?case using fb_take(4)[of s now] by simp
qed

lemma outbound_connect_rate:
  assumes "chronological t rs"
  shows "fst (limiter_run (\<lambda>_. fb_try_take_at) (\<lambda>_ :: unit. 1) (fb_new_at RATE_BURST RATE_REFILL_PER_SEC t) rs)
    \<le> RATE_BURST + as_secs_f64 (end_time t rs - t) * RATE_REFILL_PER_SEC"
proof -
  have "fb_ok (fb_new_at RATE_BURST RATE_REFILL_PER_SEC t) \<and> fb_refill_per_sec (fb_new_at RATE_BURST RATE_REFILL_PER_SEC t) = RATE_REFILL_PER_SEC"
    by (simp add: fb_ok_def fb_new_at_def RATE_BURST_def RATE_REFILL_PER_SEC_def)
  then show ?thesis using fn.run_bound[of "fb_new_at RATE_BURST RATE_REFILL_PER_SEC t" rs] assms by (simp add: fb_new_at_def)
qed

section \<open>What the gate lets through\<close>

lemma find_Some_in: "find P xs = Some x \<Longrightarrow> x \<in> set xs \<and> P x"
  by (auto simp: find_Some_iff)

lemma decide_dial:
  assumes "egress_decide addrs host port storage plat policy = Dial addr"
  shows "snd addr = port \<and> fst addr \<in> set addrs \<and> is_v4 (fst addr)
    \<and> (if storage = Some (norm_host host) then fst addr \<in> set plat
       else vet_public (fst addr) plat \<and> resolved_allows policy host)"
proof -
  have n: "host_allowed (norm_host host) hosts = host_allowed host hosts" for hosts
    by (simp add: host_allowed_def flip: norm_host_def)
  show ?thesis
    using assms
    by (auto simp: egress_decide_def Let_def n vet_public_def simp flip: norm_host_def dest!: find_Some_in
        split: if_splits option.splits resolved_egress.splits)
qed

lemma vet_public_iff: "is_v4 ip \<Longrightarrow> vet_public ip plat \<longleftrightarrow> ip \<notin> set plat \<and> addr_public ip"
  by (cases ip) (simp_all add: vet_public_def ip_is_public_blocks)

definition recorded :: "log_sink \<Rightarrow> string \<Rightarrow> string \<Rightarrow> u16 \<Rightarrow> verdict \<Rightarrow> bool" where
  "recorded sk function host port v \<longleftrightarrow>
     (\<exists>e \<in> set (eb_ring (sk_egress sk)). ev_function (er_event e) = function \<and> ev_dest_host (er_event e) = host
        \<and> ev_dest_port (er_event e) = port \<and> ev_verdict (er_event e) = v)"

lemma push_egress_recorded:
  "recorded (push_egress ev now sk) (ev_function ev) (ev_dest_host ev) (ev_dest_port ev) (ev_verdict ev)"
proof (cases "coalesces ev (eb_ring (sk_egress sk))")
  case None
  have c: "ev_function (counted ev) = ev_function ev" "ev_dest_host (counted ev) = ev_dest_host ev" "ev_dest_port (counted ev) = ev_dest_port ev"
    by (simp_all add: counted_def)
  show ?thesis using push_egress_new(1)[OF None, of now] by (simp add: recorded_def c)
next
  case (Some i)
  then show ?thesis
  proof (rule push_egress_fold)
    fix j assume j: "j < length (eb_ring (sk_egress sk))" and s: "same_contact (er_event (eb_ring (sk_egress sk) ! j)) ev"
      and e: "push_egress ev now sk = sk\<lparr>sk_egress := (sk_egress sk)\<lparr>eb_ring := (eb_ring (sk_egress sk))[j :=
        (eb_ring (sk_egress sk) ! j)\<lparr>er_event := fold_event (counted ev) (er_event (eb_ring (sk_egress sk) ! j))\<rparr>]\<rparr>\<rparr>"
    let ?x = "(eb_ring (sk_egress sk) ! j)\<lparr>er_event := fold_event (counted ev) (er_event (eb_ring (sk_egress sk) ! j))\<rparr>"
    have "?x \<in> set ((eb_ring (sk_egress sk))[j := ?x])" by (rule set_update_memI[OF j])
    then show ?thesis
      unfolding recorded_def e using s by (intro bexI[of _ ?x]) (simp_all add: same_contact_def fold_event_def)
  qed
qed

lemma emit_recorded: "recorded (ec_log (emit function host port meth v ip wall ctx)) function host port v"
  using push_egress_recorded by (simp add: emit_def) (metis egress_event.select_convs(1,2,3,5))

lemma connect_and_send_ok: "connect_and_send en rq host port addr = Inr r \<Longrightarrow> ir_dialled r = addr"
  by (auto simp: connect_and_send_def wait_for_def Let_def split: if_splits timed.splits)

lemma gate_send_dial:
  assumes "gate_send en rq policy function ctx = (res, Some (addr, lg), ctx')"
  shows "\<exists>host port. authority_parts (og_authority rq) (og_use_tls rq) = Some (host, port) \<and> CHR '':'' \<notin> set host
    \<and> egress_decide (resolve_host en host) host port (ec_storage_host ctx) (ec_platform_ips ctx) policy = Dial addr
    \<and> fst (fb_try_take_at (ne_now en) (ec_rate ctx)) \<and> 0 < ec_inflight ctx
    \<and> ec_inflight ctx' = (if is_ok res then ec_inflight ctx - 1 else ec_inflight ctx)
    \<and> res = connect_and_send en rq host port addr
    \<and> recorded lg function host port Allow"
proof -
  obtain host port where a: "authority_parts (og_authority rq) (og_use_tls rq) = Some (host, port)"
    using assms by (cases "authority_parts (og_authority rq) (og_use_tls rq)") (auto simp: gate_send_def)
  obtain b g where t: "fb_try_take_at (ne_now en) (ec_rate ctx) = (g, b)" by fastforce
  have inf: "ec_inflight (emit f h p m v i w c) = ec_inflight c" for f h p m v i w c by (simp add: emit_def)
  show ?thesis
    using assms emit_recorded
    by (intro exI[of _ host] exI[of _ port])
      (auto simp: gate_send_def a t Let_def inf split: if_splits egress_decision.splits)
qed

section \<open>Properties\<close>

lemma own_storage_dial:
  assumes "own_storage_request en ctx = (res, Some addr, ctx')"
  shows "\<exists>host ips. ec_storage_host ctx = Some host \<and> ne_lookup_ip (se_net en) host = Some ips \<and> fst addr \<in> set ips \<and> is_v4 (fst addr)
    \<and> fst addr \<in> set (ec_platform_ips ctx) \<and> snd addr = 443
    \<and> fst (fb_try_take_at (ne_now (se_net en)) (ec_rate ctx)) \<and> 0 < ec_inflight ctx"
  using assms
  by (auto simp: own_storage_request_def Let_def split_beta split: option.splits if_splits dest!: find_Some_in)

text \<open>
  C33. A function's connections go where its policy lets them. When the egress handler opens a connection for a
  request of the function, under the policy resolved from the project's and the function's declarations, the
  address is an IPv4 address the resolver (or the literal) gave for the very host of the request, on the
  request's port; it is either the platform's own ingress, reached under the asserted storage host, or an
  address outside every reserved block and not the platform's, in which case both the project's and the
  function's policy permit the host; and the audit log already holds the contact at the moment the socket is
  opened. The other path, a call to the project's own storage, which is not subject to the policy and not
  audited, connects only to an IPv4 platform address the resolver gave for the asserted storage host, on port
  443. Both paths connect only with a token of the shared connect rate and a free outbound slot.
\<close>

theorem egress_gate_sound:
  shows "(gate_send en rq (resolve_egress project fn) function ctx = (res, Some (addr, log_then), ctx') \<longrightarrow>
      (\<exists>host port. authority_parts (og_authority rq) (og_use_tls rq) = Some (host, port)
        \<and> snd addr = port \<and> fst addr \<in> set (resolve_host en host) \<and> is_v4 (fst addr)
        \<and> (if ec_storage_host ctx = Some (norm_host host) then fst addr \<in> set (ec_platform_ips ctx)
           else fst addr \<notin> set (ec_platform_ips ctx) \<and> addr_public (fst addr) \<and> policy_allows project host \<and> policy_allows fn host)
        \<and> recorded log_then function host port Allow
        \<and> fst (fb_try_take_at (ne_now en) (ec_rate ctx)) \<and> 0 < ec_inflight ctx))
    \<and> (own_storage_request sen ctx = (sres, Some saddr, sctx') \<longrightarrow>
      (\<exists>host ips. ec_storage_host ctx = Some host \<and> ne_lookup_ip (se_net sen) host = Some ips
        \<and> fst saddr \<in> set ips \<and> is_v4 (fst saddr) \<and> fst saddr \<in> set (ec_platform_ips ctx) \<and> snd saddr = 443
        \<and> fst (fb_try_take_at (ne_now (se_net sen)) (ec_rate ctx)) \<and> 0 < ec_inflight ctx))"
proof (intro conjI impI)
  assume "gate_send en rq (resolve_egress project fn) function ctx = (res, Some (addr, log_then), ctx')"
  then obtain host port where g: "authority_parts (og_authority rq) (og_use_tls rq) = Some (host, port)"
    "egress_decide (resolve_host en host) host port (ec_storage_host ctx) (ec_platform_ips ctx) (resolve_egress project fn) = Dial addr"
    "recorded log_then function host port Allow" "fst (fb_try_take_at (ne_now en) (ec_rate ctx))" "0 < ec_inflight ctx"
    using gate_send_dial by blast
  show "\<exists>host port. authority_parts (og_authority rq) (og_use_tls rq) = Some (host, port)
        \<and> snd addr = port \<and> fst addr \<in> set (resolve_host en host) \<and> is_v4 (fst addr)
        \<and> (if ec_storage_host ctx = Some (norm_host host) then fst addr \<in> set (ec_platform_ips ctx)
           else fst addr \<notin> set (ec_platform_ips ctx) \<and> addr_public (fst addr) \<and> policy_allows project host \<and> policy_allows fn host)
        \<and> recorded log_then function host port Allow
        \<and> fst (fb_try_take_at (ne_now en) (ec_rate ctx)) \<and> 0 < ec_inflight ctx"
    using decide_dial[OF g(2)] g(1,3-5) vet_public_iff[of "fst addr" "ec_platform_ips ctx"] resolve_egress_allows[of project fn host]
    by (intro exI[of _ host] exI[of _ port]) (simp split: if_splits)
qed (rule own_storage_dial)

definition demo_net :: net_env where
  "demo_net = \<lparr>ne_lookup_ip = (\<lambda>_. Some [V4 10 0 0 1, V4 8 8 8 8]), ne_now = 0, ne_wall = 0, ne_connect = Done, ne_server_name = (\<lambda>_. True),
     ne_tls = Done, ne_handshake = Done, ne_header_ok = (\<lambda>_. True), ne_uri_ok = (\<lambda>_. True), ne_send = Done\<rparr>"

definition demo_request :: outgoing_request where
  "demo_request = \<lparr>og_method = ''GET'', og_authority = Some (''mail.x.io'', None), og_path_and_query = Some ''/v1'', og_host_header = None,
     og_use_tls = True, og_connect_timeout = 0, og_first_byte_timeout = 0, og_between_bytes_timeout = 0\<rparr>"

definition demo_ctx :: egress_ctx where
  "demo_ctx = egress_context_new \<lparr>pf_storage_host = Some ''storage.x.io'', pf_platform_ips = []\<rparr> 0 (log_sink_new ''b'')"

lemma demo_parse:
  "parse_all read_ipv6_addr ''mail.x.io'' = None" "parse_ipv4_addr ''mail.x.io'' = None"
  "to_ascii_lowercase (trim_end_char (CHR ''.'') ''mail.x.io'') = ''mail.x.io''"
  "to_ascii_lowercase (trim_end_char (CHR ''.'') ''storage.x.io'') = ''storage.x.io''"
  "dedup_hosts [''MAIL.x.io.''] = [''mail.x.io'']"
  "host_allowed ''mail.x.io'' [''mail.x.io'']"
  by code_simp+

lemma demo_public: "ip_is_public (V4 8 8 8 8)" "\<not> ip_is_public (V4 10 0 0 1)"
  by (simp_all add: ip_is_public_def v4_is_public_def v4_is_loopback_def v4_is_private_def v4_is_link_local_def v4_is_broadcast_def
      v4_is_unspecified_def v4_is_multicast_def v4_is_documentation_def)

lemma demo_ctx_facts:
  "ec_storage_host demo_ctx = Some ''storage.x.io''" "ec_platform_ips demo_ctx = []" "0 < ec_inflight demo_ctx"
  "fst (fb_try_take_at (ne_now demo_net) (ec_rate demo_ctx))"
  by (simp_all add: demo_net_def demo_ctx_def egress_context_new_def demo_parse MAX_INFLIGHT_OUTBOUND_def fb_try_take_at_def fb_new_at_def RATE_BURST_def
      List.map_filter_def Let_def)

lemma demo_gate:
  "\<exists>lg. fst (snd (gate_send demo_net demo_request (resolve_egress (Some (Allowlist [''MAIL.x.io.''])) (Some (Toggle True))) ''f'' demo_ctx))
     = Some ((V4 8 8 8 8, 443), lg)"
proof -
  have r: "resolve_host demo_net ''mail.x.io'' = [V4 10 0 0 1, V4 8 8 8 8]" by (simp add: resolve_host_def demo_parse demo_net_def)
  have v: "\<not> vet_public (V4 10 0 0 1) []" "vet_public (V4 8 8 8 8) []" by (simp_all add: vet_public_def demo_public)
  have d: "egress_decide [V4 10 0 0 1, V4 8 8 8 8] ''mail.x.io'' 443 (Some ''storage.x.io'') [] (RAllowlist [''mail.x.io'']) = Dial (V4 8 8 8 8, 443)"
    by (simp add: egress_decide_def demo_parse v)
  show ?thesis
    using demo_ctx_facts by (simp add: gate_send_def authority_parts_def demo_request_def demo_parse r d v split_beta Let_def)
qed

text \<open>The same context on a platform whose ingress is one of the resolver's addresses.\<close>

definition demo_storage_env :: storage_env where
  "demo_storage_env = \<lparr>se_net = demo_net, se_request_ok = True, se_status = 200, se_body = Some [1]\<rparr>"

definition demo_storage_ctx :: egress_ctx where
  "demo_storage_ctx = demo_ctx\<lparr>ec_platform_ips := [V4 8 8 8 8]\<rparr>"

lemma demo_storage: "fst (snd (own_storage_request demo_storage_env demo_storage_ctx)) = Some (V4 8 8 8 8, 443)"
proof -
  have l: "ne_lookup_ip demo_net h = Some [V4 10 0 0 1, V4 8 8 8 8]" for h by (simp add: demo_net_def)
  show ?thesis
    using demo_ctx_facts by (simp add: own_storage_request_def demo_storage_env_def demo_storage_ctx_def l split_beta Let_def)
qed

theorem egress_gate_sound_witness:
  "policy_allows (Some (Allowlist [''MAIL.x.io.''])) ''mail.x.io'' \<and> addr_public (V4 8 8 8 8)
   \<and> (\<exists>host. ec_storage_host demo_storage_ctx = Some host \<and> ne_lookup_ip demo_net host = Some [V4 10 0 0 1, V4 8 8 8 8])"
proof -
  obtain res lg ctx' where g: "gate_send demo_net demo_request (resolve_egress (Some (Allowlist [''MAIL.x.io.''])) (Some (Toggle True))) ''f'' demo_ctx
      = (res, Some ((V4 8 8 8 8, 443), lg), ctx')"
    using demo_gate by (metis prod.collapse)
  obtain sres sctx' where o: "own_storage_request demo_storage_env demo_storage_ctx = (sres, Some (V4 8 8 8 8, 443), sctx')"
    using demo_storage by (metis prod.collapse)
  have "\<exists>host. ec_storage_host demo_storage_ctx = Some host \<and> ne_lookup_ip demo_net host = Some [V4 10 0 0 1, V4 8 8 8 8]"
    using egress_gate_sound[of demo_net demo_request None None "[]" demo_storage_ctx res "(V4 8 8 8 8, 443)" lg ctx' demo_storage_env sres
        "(V4 8 8 8 8, 443)" sctx'] o by (auto simp: demo_storage_env_def demo_net_def)
  moreover have "policy_allows (Some (Allowlist [''MAIL.x.io.''])) ''mail.x.io'' \<and> addr_public (V4 8 8 8 8)"
    using egress_gate_sound[THEN conjunct1, THEN mp, OF g]
    by (simp add: authority_parts_def demo_request_def norm_host_def demo_parse demo_ctx_facts
        del: policy_allows.simps addr_public.simps)
  ultimately show ?thesis by blast
qed

end
