(* ===== verification/Build_Egress.thy ===== *)
theory Build_Egress
  imports Net_Egress Net_Parse
begin

text \<open>
  The egress proxy of the build VMs, \<open>crates/jkbase-server/src/egress.rs\<close>, with the mirror hosts of
  \<open>crates/jkbase-server/src/build_ca.rs\<close>: configuration, pinning, the reader of the request head, the
  parsers of its target, and the handling of one connection. The resolver, the outcome of a connect and
  the lossy decoding of bytes are inputs; what is done with a connection is a value (\<open>proxy_action\<close>),
  the copying of bytes afterwards is not modelled.
\<close>

section \<open>Configuration\<close>

definition DEFAULT_ALLOWLIST :: "string list" where
  "DEFAULT_ALLOWLIST =
     [''crates.io'', ''static.crates.io'', ''index.crates.io'', ''registry.npmjs.org'', ''pypi.org'',
      ''files.pythonhosted.org'', ''proxy.golang.org'', ''sum.golang.org'', ''github.com'',
      ''codeload.github.com'', ''objects.githubusercontent.com'', ''release-assets.githubusercontent.com'',
      ''raw.githubusercontent.com'', ''gitlab.com'']"

definition MIRROR_HOSTS :: "string list" where
  "MIRROR_HOSTS =
     [''index.crates.io'', ''static.crates.io'', ''registry.npmjs.org'', ''pypi.org'', ''files.pythonhosted.org'']"

definition host_is_mirrorable :: "string \<Rightarrow> bool" where
  "host_is_mirrorable host =
     (let h = trim_end_char (CHR ''.'') host in list_ex (\<lambda>m. eq_ignore_ascii_case h m) MIRROR_HOSTS)"

datatype deny = HostNotAllowed | ResolveFailed | NoSafeAddr

text \<open>\<open>cf_mirror\<close>: whether a TLS-terminating mirror is attached.\<close>

record egress_config =
  cf_allowlist :: "string list"
  cf_allow_any :: bool
  cf_mirror :: bool

definition with_default_allowlist :: egress_config where
  "with_default_allowlist = \<lparr>cf_allowlist = DEFAULT_ALLOWLIST, cf_allow_any = False, cf_mirror = False\<rparr>"

definition allow_any_public :: egress_config where
  "allow_any_public = \<lparr>cf_allowlist = [], cf_allow_any = True, cf_mirror = False\<rparr>"

definition with_mirror :: "bool \<Rightarrow> egress_config \<Rightarrow> egress_config" where
  "with_mirror mirror cfg =
     (if cf_allow_any cfg \<and> mirror then cfg\<lparr>cf_mirror := False\<rparr> else cfg\<lparr>cf_mirror := mirror\<rparr>)"

section \<open>Pinning\<close>

text \<open>\<open>lookup_host\<close> is the system resolver: the addresses of a host and port, or an error.\<close>

type_synonym resolver = "string \<Rightarrow> u16 \<Rightarrow> sock_addr list option"

definition resolve_pinned :: "resolver \<Rightarrow> string \<Rightarrow> u16 \<Rightarrow> egress_config \<Rightarrow> deny + sock_addr" where
  "resolve_pinned lookup_host host port cfg =
     (if \<not> cf_allow_any cfg \<and> \<not> host_allowed host (cf_allowlist cfg) then Inl HostNotAllowed
      else if port \<noteq> 80 \<and> port \<noteq> 443 then Inl HostNotAllowed
      else (case lookup_host host port of
              None \<Rightarrow> Inl ResolveFailed
            | Some addrs \<Rightarrow> (case pick_safe_addr addrs of None \<Rightarrow> Inl NoSafeAddr | Some a \<Rightarrow> Inr a)))"

definition should_mirror :: "egress_config \<Rightarrow> string \<Rightarrow> u16 \<Rightarrow> bool" where
  "should_mirror cfg host port \<longleftrightarrow> cf_mirror cfg \<and> \<not> cf_allow_any cfg \<and> port = 443 \<and> host_is_mirrorable host"

definition deny_code :: "deny \<Rightarrow> nat" where
  "deny_code d = (case d of HostNotAllowed \<Rightarrow> 403 | ResolveFailed \<Rightarrow> 502 | NoSafeAddr \<Rightarrow> 403)"

section \<open>Requests\<close>

definition MAX_HEAD_BYTES :: nat where "MAX_HEAD_BYTES = 16 * 1024"

text \<open>One byte per read: \<open>None\<close> a read error, the end of the list the end of the stream.\<close>

fun read_head_loop :: "string \<Rightarrow> char option list \<Rightarrow> string option \<times> char option list" where
  "read_head_loop buf [] = (Some buf, [])"
| "read_head_loop buf (None # rs) = (None, rs)"
| "read_head_loop buf (Some c # rs) =
     (let buf = buf @ [c]
      in if ends_with [CHR 0x0D, CHR 0x0A, CHR 0x0D, CHR 0x0A] buf then (Some buf, rs)
         else if length buf > MAX_HEAD_BYTES then (None, rs)
         else read_head_loop buf rs)"

definition read_head :: "char option list \<Rightarrow> string option \<times> char option list" where
  "read_head reads = read_head_loop [] reads"

definition split_authority :: "string \<Rightarrow> u16 \<Rightarrow> (string \<times> u16) option" where
  "split_authority authority default_port =
     (if authority = [] then None
      else case strip_prefix ''['' authority of
        Some rest \<Rightarrow>
          (case split_once (CHR '']'') rest of
             None \<Rightarrow> None
           | Some (host, after) \<Rightarrow>
               (let port = (case Option.bind (strip_prefix '':'' after) (parse_uint 16) of
                              Some p \<Rightarrow> word_of_nat p | None \<Rightarrow> default_port)
                in Some (host, port)))
      | None \<Rightarrow>
          (case rsplit_once (CHR '':'') authority of
             Some (h, p) \<Rightarrow>
               (if h \<noteq> [] then map_option (\<lambda>n. (h, word_of_nat n)) (parse_uint 16 p)
                else Some (authority, default_port))
           | None \<Rightarrow> Some (authority, default_port)))"

definition parse_absolute_http :: "string \<Rightarrow> (string \<times> u16 \<times> string) option" where
  "parse_absolute_http target =
     Option.bind (strip_prefix ''http://'' target) (\<lambda>rest.
       let (authority, path) =
             (case split_once (CHR ''/'') rest of Some (a, p) \<Rightarrow> (a, CHR ''/'' # p) | None \<Rightarrow> (rest, ''/''))
       in map_option (\<lambda>(host, port). (host, port, path)) (split_authority authority 80))"

text \<open>\<open>s.replacen(pat, to, 1)\<close> for a non-empty pattern.\<close>

fun replace_first :: "string \<Rightarrow> string \<Rightarrow> string \<Rightarrow> string" where
  "replace_first pat to [] = []"
| "replace_first pat to (c # cs) =
     (case strip_prefix pat (c # cs) of Some r \<Rightarrow> to @ r | None \<Rightarrow> c # replace_first pat to cs)"

text \<open>What a connection comes to: dropped, answered with a status, or a connection to an address.\<close>

datatype proxy_action =
    Dropped
  | Respond nat
  | Mitm string sock_addr
  | Tunnel string sock_addr
  | Forward string sock_addr string

text \<open>\<open>head\<close> is the request head after \<open>from_utf8_lossy\<close>; the tunnel's and the forward's own connect may fail.\<close>

definition handle_request :: "resolver \<Rightarrow> (sock_addr \<Rightarrow> bool) \<Rightarrow> egress_config \<Rightarrow> string \<Rightarrow> proxy_action" where
  "handle_request lookup_host connects cfg head_str =
     (let request_line = (case str_lines head_str of [] \<Rightarrow> '''' | l # _ \<Rightarrow> l);
          parts = split_whitespace request_line;
          meth = (case parts of [] \<Rightarrow> '''' | m # _ \<Rightarrow> m);
          target = (case parts of _ # t # _ \<Rightarrow> t | _ \<Rightarrow> '''')
      in if eq_ignore_ascii_case meth ''CONNECT''
         then (case split_authority target 443 of
                 None \<Rightarrow> Respond 400
               | Some (host, port) \<Rightarrow>
                   (case resolve_pinned lookup_host host port cfg of
                      Inr addr \<Rightarrow>
                        (if should_mirror cfg host port then Mitm host addr
                         else if connects addr then Tunnel host addr else Dropped)
                    | Inl d \<Rightarrow> Respond (deny_code d)))
         else (case parse_absolute_http target of
                 None \<Rightarrow> Respond 400
               | Some (host, port, path) \<Rightarrow>
                   (case resolve_pinned lookup_host host port cfg of
                      Inr addr \<Rightarrow> (if connects addr then Forward host addr (replace_first target path head_str) else Dropped)
                    | Inl d \<Rightarrow> Respond (deny_code d))))"

definition handle_conn ::
  "resolver \<Rightarrow> (sock_addr \<Rightarrow> bool) \<Rightarrow> (string \<Rightarrow> string) \<Rightarrow> egress_config \<Rightarrow> bool \<Rightarrow> char option list \<Rightarrow> proxy_action" where
  "handle_conn lookup_host connects lossy cfg in_time reads =
     (if \<not> in_time then Dropped
      else case fst (read_head reads) of
             None \<Rightarrow> Dropped
           | Some head_bytes \<Rightarrow> handle_request lookup_host connects cfg (lossy head_bytes))"

section \<open>What the proxy connects to\<close>

fun dialled :: "proxy_action \<Rightarrow> (string \<times> sock_addr) option" where
  "dialled (Mitm host addr) = Some (host, addr)"
| "dialled (Tunnel host addr) = Some (host, addr)"
| "dialled (Forward host addr _) = Some (host, addr)"
| "dialled _ = None"

lemma resolve_pinned_ok:
  "resolve_pinned lookup_host host port cfg = Inr addr \<longleftrightarrow>
     (cf_allow_any cfg \<or> host_allowed host (cf_allowlist cfg)) \<and> (port = 80 \<or> port = 443)
     \<and> (\<exists>addrs. lookup_host host port = Some addrs \<and> find (\<lambda>a. addr_public (to_canonical (fst a))) addrs = Some addr)"
  by (auto simp: resolve_pinned_def pick_safe_addr_def ip_is_public_blocks split: option.splits)

lemma pinned_addr:
  assumes "resolve_pinned lookup_host host port cfg = Inr addr"
  shows "(cf_allow_any cfg \<or> host_allowed host (cf_allowlist cfg)) \<and> addr_public (to_canonical (fst addr))
    \<and> (\<exists>p \<in> {80, 443}. \<exists>addrs. lookup_host host p = Some addrs \<and> addr \<in> set addrs)"
proof -
  obtain addrs where a: "cf_allow_any cfg \<or> host_allowed host (cf_allowlist cfg)" "port = 80 \<or> port = 443"
    "lookup_host host port = Some addrs" "find (\<lambda>a. addr_public (to_canonical (fst a))) addrs = Some addr"
    using assms unfolding resolve_pinned_ok by blast
  have "addr \<in> set addrs \<and> addr_public (to_canonical (fst addr))" using a(4) by (auto simp: find_Some_iff)
  then show ?thesis using a(1,2,3) by (intro conjI bexI[of _ port] exI[of _ addrs]) auto
qed

lemma request_dials:
  assumes "dialled (handle_request lookup_host connects cfg head_str) = Some (host, addr)"
  shows "\<exists>port. resolve_pinned lookup_host host port cfg = Inr addr"
  using assms
  by (auto simp: handle_request_def Let_def split: if_splits option.splits sum.splits prod.splits)

lemma request_mitm:
  assumes "handle_request lookup_host connects cfg head_str = Mitm host addr"
  shows "cf_mirror cfg \<and> \<not> cf_allow_any cfg \<and> host_is_mirrorable host"
  using assms
  by (auto simp: handle_request_def should_mirror_def Let_def split: if_splits option.splits sum.splits prod.splits)

lemma mirror_never_on_allow_any: "\<not> (cf_allow_any (with_mirror m cfg) \<and> cf_mirror (with_mirror m cfg))"
  by (simp add: with_mirror_def)

lemma read_head_bounded:
  "length buf \<le> MAX_HEAD_BYTES \<Longrightarrow> fst (read_head_loop buf reads) = Some head \<Longrightarrow>
    length head \<le> MAX_HEAD_BYTES + 1"
  by (induction buf reads rule: read_head_loop.induct) (auto simp: Let_def split: if_splits)

lemma split_authority_port:
  assumes "h \<noteq> []" and "hd h \<noteq> CHR ''[''" and "unat p = n"
  shows "split_authority (h @ '':'' @ show_nat n) d = Some (h, p)"
proof -
  have d: "CHR '':'' \<notin> set (show_nat n)"
  proof -
    have "\<not> is_ascii_digit (CHR '':'')" by (simp add: is_ascii_digit_def)
    then show ?thesis using show_nat_digits[of n] unfolding list_all_iff by blast
  qed
  have "rsplit_once (CHR '':'') (h @ '':'' @ show_nat n) = Some (h, show_nat n)"
    using split_once_Some_iff[of "CHR '':''" "rev (show_nat n) @ CHR '':'' # rev h" "rev (show_nat n)" "rev h"] d
    by (simp add: rsplit_once_def)
  moreover have "strip_prefix ''['' (h @ '':'' @ show_nat n) = None"
    using assms(1,2) by (cases h) auto
  moreover have "parse_uint 16 (show_nat n) = Some n" using unat_less_power[of p] assms(3) by (intro parse_uint_show_nat) simp
  moreover have "word_of_nat n = p" using unat_inverse[of p] assms(3) by simp
  ultimately show ?thesis using assms(1) by (simp add: split_authority_def)
qed

section \<open>Properties\<close>

text \<open>
  C34. The build proxy reaches only public addresses of allowed hosts. Whatever bytes a build sends, if
  the proxy connects anywhere, by tunnel, by forwarding or by the mirror, then the address is one the
  resolver gave for the host on port 80 or 443, it is outside every reserved block (an IPv4 address
  mapped into IPv6 counts as the IPv4 address), and the host is on the allowlist unless the proxy is the
  public-any one; and only a mirrorable host, and never on the public-any proxy, is intercepted.
\<close>

theorem build_proxy_reaches_only_public:
  assumes "handle_conn lookup_host connects lossy cfg in_time reads = act" and "dialled act = Some (host, addr)"
  shows "(cf_allow_any cfg \<or> host_allowed host (cf_allowlist cfg)) \<and> addr_public (to_canonical (fst addr))
    \<and> (\<exists>p \<in> {80, 443}. \<exists>addrs. lookup_host host p = Some addrs \<and> addr \<in> set addrs)
    \<and> (act = Mitm host addr \<longrightarrow> cf_mirror cfg \<and> \<not> cf_allow_any cfg \<and> host_is_mirrorable host)"
proof -
  obtain h where a: "act = handle_request lookup_host connects cfg h"
    using assms by (auto simp: handle_conn_def split: if_splits option.splits)
  obtain port where r: "resolve_pinned lookup_host host port cfg = Inr addr"
    using request_dials[of lookup_host connects cfg h host addr] assms(2) a by blast
  have "act = Mitm host addr \<longrightarrow> cf_mirror cfg \<and> \<not> cf_allow_any cfg \<and> host_is_mirrorable host"
    using request_mitm[of lookup_host connects cfg h host addr] a by simp
  then show ?thesis using pinned_addr[OF r] by (elim conjE, intro conjI)
qed

definition demo_head :: string where
  "demo_head = ''CONNECT Crates.io HTTP/1.1'' @ [CHR 0x0D, CHR 0x0A, CHR 0x0D, CHR 0x0A]"

definition demo_lookup :: resolver where
  "demo_lookup host port = Some [(V4 10 0 0 1, port), (V4 8 8 8 8, port)]"

lemma demo_request_line:
  "str_lines demo_head = [''CONNECT Crates.io HTTP/1.1'', '''']"
  "split_whitespace ''CONNECT Crates.io HTTP/1.1'' = [''CONNECT'', ''Crates.io'', ''HTTP/1.1'']"
  "eq_ignore_ascii_case ''CONNECT'' ''CONNECT''" "strip_prefix ''['' ''Crates.io'' = None" "rsplit_once (CHR '':'') ''Crates.io'' = None"
  "host_allowed ''Crates.io'' DEFAULT_ALLOWLIST" "\<not> host_is_mirrorable ''Crates.io''"
  by code_simp+

lemma demo_head_read: "fst (read_head (map Some demo_head)) = Some demo_head"
  by (simp add: read_head_def demo_head_def ends_with_def strip_suffix_def MAX_HEAD_BYTES_def)

lemma demo_pick: "pick_safe_addr [(V4 10 0 0 1, 443), (V4 8 8 8 8, 443)] = Some (V4 8 8 8 8, 443)"
  by (simp add: pick_safe_addr_def ip_is_public_def v4_is_public_def v4_is_loopback_def v4_is_private_def v4_is_link_local_def
      v4_is_broadcast_def v4_is_unspecified_def v4_is_multicast_def v4_is_documentation_def)

theorem build_proxy_reaches_only_public_witness:
  "handle_conn demo_lookup (\<lambda>_. True) id with_default_allowlist True (map Some demo_head) = Tunnel ''Crates.io'' (V4 8 8 8 8, 443)
   \<and> addr_public (V4 8 8 8 8)"
proof -
  have h: "handle_conn demo_lookup (\<lambda>_. True) id with_default_allowlist True (map Some demo_head) = Tunnel ''Crates.io'' (V4 8 8 8 8, 443)"
    by (simp add: handle_conn_def demo_head_read handle_request_def demo_request_line split_authority_def resolve_pinned_def demo_lookup_def
        demo_pick with_default_allowlist_def should_mirror_def)
  from build_proxy_reaches_only_public[OF h, of "''Crates.io''" "(V4 8 8 8 8, 443)"] h show ?thesis
    by (simp del: addr_public.simps)
qed

end
