(* ===== verification/Log_Store.thy ===== *)
theory Log_Store
  imports Log_Sink Rust_Str
begin

text \<open>
  The host's log store, \<open>crates/jkbase-control/src/logstore.rs\<close>: append-only JSONL files per project
  with rotation, one file set for application output and one for egress audit rows, a counter shared
  by both, and the reads. The directory is a map from file names to texts; serde's rendering and
  parsing of a line are parameters (\<open>json_ok\<close> states that parsing inverts rendering, and that a
  rendered line has no line break); a failing write of either file is an input.

  The lemmas show that rotation shifts the files by one, that the two streams stay in strictly
  increasing order of their numbers across rotation and restarts, that a read by cursor returns exactly
  what was appended since, and that application output never displaces audit rows.
\<close>

section \<open>Files\<close>

definition MAX_FILE_BYTES :: nat where "MAX_FILE_BYTES = 5 * 1024 * 1024"
definition MAX_ROTATED :: nat where "MAX_ROTATED = 3"
definition EGRESS_MAX_FILE_BYTES :: nat where "EGRESS_MAX_FILE_BYTES = 5 * 1024 * 1024"
definition EGRESS_MAX_ROTATED :: nat where "EGRESS_MAX_ROTATED = 11"

abbreviation APP_LOG :: string where "APP_LOG \<equiv> ''app.log''"
abbreviation EGRESS_LOG :: string where "EGRESS_LOG \<equiv> ''egress.log''"

text \<open>
  A project's directory: the file \<open>{base}\<close> is at \<open>(base, 0)\<close>, the rotated file \<open>{base}.{i}\<close> at
  \<open>(base, i)\<close>; a file is its text.
\<close>

type_synonym log_dir = "(string \<times> nat, string) hmap"

record project_state =
  pj_next_seq :: nat
  pj_initialized :: bool

record log_store =
  st_dirs :: "(string, log_dir) hmap"
  st_state :: "(string, project_state) hmap"

definition file_len :: "string \<times> nat \<Rightarrow> log_dir \<Rightarrow> nat" where
  "file_len path dir = (case map_of dir path of Some c \<Rightarrow> length c | None \<Rightarrow> 0)"

definition fs_rename :: "string \<times> nat \<Rightarrow> string \<times> nat \<Rightarrow> log_dir \<Rightarrow> log_dir" where
  "fs_rename from to dir =
     (case map_of dir from of Some c \<Rightarrow> hupd to c (hdel from dir) | None \<Rightarrow> dir)"

definition rotate_files :: "string \<Rightarrow> nat \<Rightarrow> log_dir \<Rightarrow> log_dir" where
  "rotate_files base max_rotated dir =
     (let dir = hdel (base, max_rotated) dir;
          dir = fold (\<lambda>i. fs_rename (base, i) (base, i + 1)) (rev [1..<max_rotated]) dir
      in fs_rename (base, 0) (base, 1) dir)"

text \<open>\<open>wr\<close> says whether opening and writing the active file succeeds.\<close>

definition append_stream :: "bool \<Rightarrow> string \<Rightarrow> string \<Rightarrow> nat \<Rightarrow> nat \<Rightarrow> log_dir \<Rightarrow> bool \<times> log_dir" where
  "append_stream wr base buf max_bytes max_rotated dir =
     (if buf = [] then (True, dir)
      else
        let dir = (if file_len (base, 0) dir \<ge> max_bytes then rotate_files base max_rotated dir else dir)
        in if wr then (True, hupd (base, 0) (get_or_default [] dir (base, 0) @ buf) dir)
           else (False, dir))"

text \<open>\<open>to_json\<close> and \<open>from_json\<close> are serde's rendering and parsing of a line.\<close>

definition read_lines_into :: "(string \<Rightarrow> log_line option) \<Rightarrow> string \<times> nat \<Rightarrow> log_dir \<Rightarrow> log_line list" where
  "read_lines_into from_json path dir =
     (case map_of dir path of
        None \<Rightarrow> []
      | Some c \<Rightarrow> List.map_filter from_json (filter (\<lambda>l. l \<noteq> []) (str_lines c)))"

definition last_seq :: "(string \<Rightarrow> log_line option) \<Rightarrow> string \<times> nat \<Rightarrow> log_dir \<Rightarrow> nat" where
  "last_seq from_json path dir =
     (let ls = read_lines_into from_json path dir in if ls = [] then 0 else ll_seq (last ls))"

definition highest_seq_on_disk :: "(string \<Rightarrow> log_line option) \<Rightarrow> log_dir \<Rightarrow> nat" where
  "highest_seq_on_disk from_json dir =
     max (max (max (last_seq from_json (APP_LOG, 0) dir) (last_seq from_json (APP_LOG, 1) dir))
       (last_seq from_json (EGRESS_LOG, 0) dir)) (last_seq from_json (EGRESS_LOG, 1) dir)"

definition sanitize :: "string \<Rightarrow> string" where
  "sanitize project_id =
     (let s = map (\<lambda>c. if (of_char c :: nat) \<in> {48..57} \<union> {65..90} \<union> {97..122} \<or> c = CHR ''-'' \<or> c = CHR ''_''
                       then c else CHR ''-'') project_id
      in if s = [] then ''_'' else s)"

section \<open>The store\<close>

definition log_store_new :: "(string, log_dir) hmap \<Rightarrow> log_store" where
  "log_store_new dirs = \<lparr>st_dirs = dirs, st_state = []\<rparr>"

fun number_lines :: "nat \<Rightarrow> log_line list \<Rightarrow> log_line list" where
  "number_lines n [] = []"
| "number_lines n (l # ls) = l\<lparr>ll_seq := n + 1\<rparr> # number_lines (n + 1) ls"

definition log_text :: "(log_line \<Rightarrow> string) \<Rightarrow> log_line list \<Rightarrow> string" where
  "log_text to_json ls = concat (map (\<lambda>l. to_json l @ [CHR 0x0A]) ls)"

definition log_append ::
  "(log_line \<Rightarrow> string) \<Rightarrow> (string \<Rightarrow> log_line option) \<Rightarrow> (string \<Rightarrow> bool) \<Rightarrow> string \<Rightarrow> log_line list
   \<Rightarrow> log_store \<Rightarrow> bool \<times> log_store" where
  "log_append to_json from_json wr project_id lines st =
     (if lines = [] then (True, st)
      else
        let dir = get_or_default [] (st_dirs st) (sanitize project_id);
            pj = get_or_default \<lparr>pj_next_seq = 0, pj_initialized = False\<rparr> (st_state st) project_id;
            n = (if pj_initialized pj then pj_next_seq pj else highest_seq_on_disk from_json dir);
            stored = number_lines n lines;
            app_buf = log_text to_json (filter (\<lambda>l. ll_stream l \<noteq> EGRESS_STREAM) stored);
            egr_buf = log_text to_json (filter (\<lambda>l. ll_stream l = EGRESS_STREAM) stored);
            (ok, dir) = append_stream (wr APP_LOG) APP_LOG app_buf MAX_FILE_BYTES MAX_ROTATED dir;
            (ok, dir) = (if ok then append_stream (wr EGRESS_LOG) EGRESS_LOG egr_buf EGRESS_MAX_FILE_BYTES EGRESS_MAX_ROTATED dir
                         else (False, dir))
        in (ok, st\<lparr>st_dirs := hupd (sanitize project_id) dir (st_dirs st),
                   st_state := hupd project_id \<lparr>pj_next_seq = n + length lines, pj_initialized = True\<rparr> (st_state st)\<rparr>))"

definition dir_lines :: "(string \<Rightarrow> log_line option) \<Rightarrow> string \<Rightarrow> nat \<Rightarrow> log_dir \<Rightarrow> log_line list" where
  "dir_lines from_json base max_rotated dir =
     concat (map (\<lambda>i. read_lines_into from_json (base, i) dir) (rev [1..<max_rotated + 1]))
     @ read_lines_into from_json (base, 0) dir"

definition log_read ::
  "(string \<Rightarrow> log_line option) \<Rightarrow> string \<Rightarrow> nat \<Rightarrow> string option \<Rightarrow> nat option \<Rightarrow> log_store \<Rightarrow> log_line list" where
  "log_read from_json project_id limit service since st =
     (let dir = get_or_default [] (st_dirs st) (sanitize project_id);
          al = sort_key ll_seq (dir_lines from_json APP_LOG MAX_ROTATED dir @ dir_lines from_json EGRESS_LOG EGRESS_MAX_ROTATED dir);
          al = (case service of Some svc \<Rightarrow> filter (\<lambda>l. ll_server l = svc) al | None \<Rightarrow> al)
      in case since of
           Some s \<Rightarrow> filter (\<lambda>l. ll_seq l > s) al
         | None \<Rightarrow> drop (length al - limit) al)"

definition log_clear :: "string \<Rightarrow> log_store \<Rightarrow> log_store" where
  "log_clear project_id st =
     st\<lparr>st_state := hdel project_id (st_state st), st_dirs := hdel (sanitize project_id) (st_dirs st)\<rparr>"

section \<open>The files as lists of lines\<close>

definition json_ok :: "(log_line \<Rightarrow> string) \<Rightarrow> (string \<Rightarrow> log_line option) \<Rightarrow> log_line set \<Rightarrow> bool" where
  "json_ok to_json from_json L \<longleftrightarrow>
     (\<forall>l \<in> L. from_json (to_json l) = Some l \<and> to_json l \<noteq> [] \<and> CHR 0x0A \<notin> set (to_json l) \<and> last (to_json l) \<noteq> CHR 0x0D)"

type_synonym log_files = "string \<times> nat \<Rightarrow> log_line list option"

definition files_are :: "(log_line \<Rightarrow> string) \<Rightarrow> log_dir \<Rightarrow> log_files \<Rightarrow> bool" where
  "files_are to_json dir D \<longleftrightarrow> (\<forall>k. map_of dir k = map_option (log_text to_json) (D k))"

definition file_lines :: "log_files \<Rightarrow> string \<Rightarrow> nat \<Rightarrow> log_line list" where
  "file_lines D base i = (case D (base, i) of Some ls \<Rightarrow> ls | None \<Rightarrow> [])"

definition stream_lines :: "log_files \<Rightarrow> string \<Rightarrow> nat \<Rightarrow> log_line list" where
  "stream_lines D base n = concat (map (file_lines D base) (rev [0..<n + 1]))"

definition shift_files :: "string \<Rightarrow> nat \<Rightarrow> log_files \<Rightarrow> log_files" where
  "shift_files base n D =
     (\<lambda>(b, i). if b = base \<and> i \<le> n then (if i = 0 then None else D (b, i - 1)) else D (b, i))"

lemma log_text_simps [simp]:
  "log_text tj [] = []" "log_text tj (a @ b) = log_text tj a @ log_text tj b" "log_text tj ls = [] \<longleftrightarrow> ls = []"
  by (auto simp: log_text_def)

lemma map_filter_codec: "(\<And>l. l \<in> set ls \<Longrightarrow> f (g l) = Some l) \<Longrightarrow> List.map_filter f (map g ls) = ls"
  by (induction ls) (auto simp: List.map_filter_def)

lemma read_lines_text:
  assumes "json_ok tj fj (set ls)"
  shows "List.map_filter fj (filter (\<lambda>l. l \<noteq> []) (str_lines (log_text tj ls))) = ls"
proof -
  have "str_lines (log_text tj ls) = map tj ls"
    unfolding log_text_def using assms by (intro str_lines_rows) (auto simp: json_ok_def)
  moreover have "filter (\<lambda>l. l \<noteq> []) (map tj ls) = map tj ls"
    using assms by (intro filter_True) (auto simp: json_ok_def)
  ultimately show ?thesis using assms by (simp add: map_filter_codec json_ok_def)
qed

lemma file_lines_None [simp]: "D (base, i) = None \<Longrightarrow> file_lines D base i = []"
  by (simp add: file_lines_def)

lemma file_lines_Some [simp]: "D (base, i) = Some ls \<Longrightarrow> file_lines D base i = ls"
  by (simp add: file_lines_def)

lemma read_lines_files:
  assumes "files_are tj dir D" and "json_ok tj fj (set (file_lines D base i))"
  shows "read_lines_into fj (base, i) dir = file_lines D base i"
  using assms read_lines_text[of tj fj]
  by (cases "D (base, i)") (auto simp: read_lines_into_def files_are_def)

lemma json_ok_subset: "json_ok tj fj L \<Longrightarrow> L' \<subseteq> L \<Longrightarrow> json_ok tj fj L'"
  by (auto simp: json_ok_def)

lemma set_stream_lines: "set (stream_lines D base n) = (\<Union>i \<in> {..n}. set (file_lines D base i))"
  by (simp add: stream_lines_def atLeast0LessThan lessThan_Suc_atMost flip: atLeastLessThan_eq_atLeastAtMost_diff del: upt_Suc)

lemma file_lines_subset: "i \<le> n \<Longrightarrow> set (file_lines D base i) \<subseteq> set (stream_lines D base n)"
  by (auto simp: set_stream_lines)

lemma dir_lines_files:
  assumes "files_are tj dir D" and "json_ok tj fj (set (stream_lines D base n))"
  shows "dir_lines fj base n dir = stream_lines D base n"
proof -
  have j: "json_ok tj fj (set (file_lines D base i))" if "i \<le> n" for i
    by (rule json_ok_subset[OF assms(2) file_lines_subset[OF that]])
  have "map (\<lambda>i. read_lines_into fj (base, i) dir) (rev [1..<n + 1]) = map (file_lines D base) (rev [1..<n + 1])"
    by (intro map_cong refl read_lines_files[OF assms(1)] j) auto
  moreover have "rev [0..<n + 1] = rev [1..<n + 1] @ [0]" by (simp add: upt_rec[of 0])
  ultimately show ?thesis
    unfolding dir_lines_def stream_lines_def using read_lines_files[OF assms(1) j, of 0]
    by (simp only: map_append concat_append) simp
qed

lemma files_are_rename:
  "files_are tj dir D \<Longrightarrow> from \<noteq> to \<Longrightarrow>
    files_are tj (fs_rename from to dir) (if D from = None then D else D(from := None, to := D from))"
proof -
  assume d: "files_are tj dir D" and n: "from \<noteq> to"
  have "map_of dir from = map_option (log_text tj) (D from)" using d by (simp only: files_are_def)
  then show ?thesis
    using d n by (cases "D from") (simp_all add: files_are_def fs_rename_def del: split_paired_All)
qed

lemma files_are_del: "files_are tj dir D \<Longrightarrow> files_are tj (hdel k dir) (D(k := None))"
  by (auto simp: files_are_def)

lemma files_are_upd: "files_are tj dir D \<Longrightarrow> files_are tj (hupd k (log_text tj ls) dir) (D(k := Some ls))"
  by (auto simp: files_are_def)

text \<open>Renaming the files from \<open>n - 1\<close> down to \<open>k\<close>, with \<open>n\<close> already free, shifts them by one.\<close>

definition shifted_from :: "string \<Rightarrow> nat \<Rightarrow> nat \<Rightarrow> log_files \<Rightarrow> log_files" where
  "shifted_from base k n D =
     (\<lambda>(b, i). if b = base \<and> k \<le> i \<and> i \<le> n then (if i = k then None else D (b, i - 1)) else D (b, i))"

lemma rename_down:
  assumes "files_are tj dir (shifted_from base n n D)" and "k \<le> n"
  shows "files_are tj (fold (\<lambda>i. fs_rename (base, i) (base, i + 1)) (rev [k..<n]) dir) (shifted_from base k n D)"
  using assms
proof (induction "n - k" arbitrary: k)
  case 0
  then show ?case by simp
next
  case (Suc m)
  then have k: "k < n" "m = n - Suc k" by simp_all
  let ?d = "fold (\<lambda>i. fs_rename (base, i) (base, i + 1)) (rev [Suc k..<n]) dir"
  have IH: "files_are tj ?d (shifted_from base (Suc k) n D)"
    using Suc.hyps(1)[OF k(2)] Suc.prems(1) k(1) by simp
  have "rev [k..<n] = rev [Suc k..<n] @ [k]" using k(1) by (simp add: upt_conv_Cons)
  moreover have "(if shifted_from base (Suc k) n D (base, k) = None then shifted_from base (Suc k) n D
      else (shifted_from base (Suc k) n D)((base, k) := None, (base, k + 1) := shifted_from base (Suc k) n D (base, k)))
      = shifted_from base k n D"
    using k(1) by (auto simp: shifted_from_def fun_eq_iff)
  ultimately show ?case
    using files_are_rename[OF IH, of "(base, k)" "(base, k + 1)"] by simp
qed

lemma rotate_files_shift:
  assumes "files_are tj dir D" and "0 < n"
  shows "files_are tj (rotate_files base n dir) (shift_files base n D)"
proof -
  have "files_are tj (hdel (base, n) dir) (shifted_from base n n D)"
    using files_are_del[OF assms(1), of "(base, n)"]
    by (rule back_subst[where P = "files_are tj _"]) (auto simp: shifted_from_def fun_eq_iff)
  then have d: "files_are tj (fold (\<lambda>i. fs_rename (base, i) (base, i + 1)) (rev [1..<n]) (hdel (base, n) dir)) (shifted_from base 1 n D)"
    using assms(2) by (intro rename_down) simp_all
  have "(if shifted_from base 1 n D (base, 0) = None then shifted_from base 1 n D
      else (shifted_from base 1 n D)((base, 0) := None, (base, 1) := shifted_from base 1 n D (base, 0))) = shift_files base n D"
    using assms(2) by (auto simp: shifted_from_def shift_files_def fun_eq_iff)
  then show ?thesis
    using files_are_rename[OF d, of "(base, 0)" "(base, 1)"] by (simp add: rotate_files_def Let_def)
qed

section \<open>Appending to one stream\<close>

lemma rev_upt_0: "rev [0..<n + 1] = rev [1..<n + 1] @ [0]"
  by (simp add: upt_rec[of 0])

lemma stream_lines_split: "stream_lines D base n = concat (map (file_lines D base) (rev [1..<n + 1])) @ file_lines D base 0"
  unfolding stream_lines_def rev_upt_0 by (simp only: map_append concat_append) simp

lemma stream_lines_upd:
  assumes "ls = file_lines D base 0 @ new"
  shows "stream_lines (D((base, 0) := Some ls)) base n = stream_lines D base n @ new"
proof -
  have "map (file_lines (D((base, 0) := Some ls)) base) (rev [1..<n + 1]) = map (file_lines D base) (rev [1..<n + 1])"
    by (rule map_cong) (auto simp: file_lines_def)
  then show ?thesis
    unfolding stream_lines_split by (simp only:) (simp add: assms file_lines_def)
qed

lemma stream_lines_shift:
  "stream_lines D base n = file_lines D base n @ stream_lines (shift_files base n D) base n"
proof -
  have "map (file_lines (shift_files base n D) base) (map Suc [0..<n]) = map (file_lines D base) [0..<n]"
    unfolding map_map by (rule map_cong) (auto simp: file_lines_def shift_files_def)
  then have "map (file_lines (shift_files base n D) base) [1..<n + 1] = map (file_lines D base) [0..<n]"
    by (simp add: map_Suc_upt del: upt_Suc)
  then have m: "map (file_lines (shift_files base n D) base) (rev [1..<n + 1]) = map (file_lines D base) (rev [0..<n])"
    by (metis rev_map)
  have z: "file_lines (shift_files base n D) base 0 = []" by (simp add: shift_files_def)
  have "stream_lines (shift_files base n D) base n = concat (map (file_lines D base) (rev [0..<n]))"
    unfolding stream_lines_split m z by (rule append_Nil2)
  then show ?thesis by (simp add: stream_lines_def)
qed

lemma stream_lines_cong: "(\<And>i. D' (base, i) = D (base, i)) \<Longrightarrow> stream_lines D' base n = stream_lines D base n"
proof -
  assume "\<And>i. D' (base, i) = D (base, i)"
  then have "file_lines D' base = file_lines D base" by (intro ext) (simp add: file_lines_def)
  then show ?thesis by (simp add: stream_lines_def)
qed

definition recent_ok :: "log_files \<Rightarrow> string \<Rightarrow> nat \<Rightarrow> bool" where
  "recent_ok D base n \<longleftrightarrow> (file_lines D base 0 = [] \<and> file_lines D base 1 = [] \<longrightarrow> stream_lines D base n = [])"

lemma file_len_files: "files_are tj dir D \<Longrightarrow> 0 < file_len (base, 0) dir \<Longrightarrow> file_lines D base 0 \<noteq> []"
  by (cases "D (base, 0)") (auto simp: file_len_def files_are_def)

lemma get_file_text: "files_are tj dir D \<Longrightarrow> get_or_default [] dir (base, 0) = log_text tj (file_lines D base 0)"
  by (cases "D (base, 0)") (auto simp: get_or_default_def files_are_def)

lemma append_stream_spec:
  assumes f: "files_are tj dir D" and n: "0 < n" and mb: "0 < mb" and r: "recent_ok D base n"
  shows "\<exists>D' dropped kept. files_are tj (snd (append_stream wr base (log_text tj new) mb n dir)) D'
    \<and> (\<forall>b i. b \<noteq> base \<longrightarrow> D' (b, i) = D (b, i)) \<and> recent_ok D' base n
    \<and> stream_lines D base n = dropped @ kept \<and> stream_lines D' base n = kept @ (if wr then new else [])
    \<and> (new = [] \<or> length (log_text tj (file_lines D base 0)) < mb \<longrightarrow> dropped = [])
    \<and> fst (append_stream wr base (log_text tj new) mb n dir) = (new = [] \<or> wr)"
proof (cases "new = []")
  case True
  then show ?thesis using f r by (intro exI[of _ D] exI[of _ "[]"] exI[of _ "stream_lines D base n"]) (simp add: append_stream_def)
next
  case new: False
  define full where "full \<longleftrightarrow> file_len (base, 0) dir \<ge> mb"
  define dir1 where "dir1 = (if full then rotate_files base n dir else dir)"
  define D1 where "D1 = (if full then shift_files base n D else D)"
  have f1: "files_are tj dir1 D1" using f rotate_files_shift[OF f n] by (simp add: dir1_def D1_def)
  define dropped where "dropped = (if full then file_lines D base n else [])"
  have s1: "stream_lines D base n = dropped @ stream_lines D1 base n"
    using stream_lines_shift[of D base n] by (simp add: dropped_def D1_def)
  have o1: "b \<noteq> base \<Longrightarrow> D1 (b, i) = D (b, i)" for b i by (simp add: D1_def shift_files_def)
  have l: "full \<longleftrightarrow> mb \<le> length (log_text tj (file_lines D base 0))"
    using f by (cases "D (base, 0)") (auto simp: full_def file_len_def files_are_def mb)
  have r1: "recent_ok D1 base n"
  proof (cases full)
    case True
    then have "file_lines D1 base 1 \<noteq> []" using l mb n by (auto simp: D1_def shift_files_def file_lines_def)
    then show ?thesis by (simp add: recent_ok_def)
  qed (use r in \<open>simp add: D1_def\<close>)
  have e: "append_stream wr base (log_text tj new) mb n dir =
      (if wr then (True, hupd (base, 0) (log_text tj (file_lines D1 base 0 @ new)) dir1) else (False, dir1))"
    using new get_file_text[OF f1, of base] by (simp add: append_stream_def Let_def dir1_def full_def)
  have ok: "fst (append_stream wr base (log_text tj new) mb n dir) = wr" unfolding e by simp
  show ?thesis
  proof (cases wr)
    case True
    define D2 where "D2 = D1((base, 0) := Some (file_lines D1 base 0 @ new))"
    have "files_are tj (snd (append_stream wr base (log_text tj new) mb n dir)) D2"
      unfolding e D2_def using True files_are_upd[OF f1, of "(base, 0)" "file_lines D1 base 0 @ new"] by simp
    moreover have "stream_lines D2 base n = stream_lines D1 base n @ new"
      unfolding D2_def by (rule stream_lines_upd) simp
    moreover have "recent_ok D2 base n" using new by (simp add: recent_ok_def D2_def)
    ultimately show ?thesis
      using s1 o1 l ok True new by (intro exI[of _ D2] exI[of _ dropped] exI[of _ "stream_lines D1 base n"]) (auto simp: D2_def dropped_def)
  next
    case False
    have e2: "append_stream wr base (log_text tj new) mb n dir = (False, dir1)" unfolding e using False by simp
    show ?thesis
      unfolding e2 using False s1 o1 f1 r1 l new by (intro exI[of _ D1] exI[of _ dropped] exI[of _ "stream_lines D1 base n"]) (simp add: dropped_def)
  qed
qed

section \<open>The store keeps its numbers in order\<close>

definition app_lines :: "log_files \<Rightarrow> log_line list" where
  "app_lines D = stream_lines D APP_LOG MAX_ROTATED"

definition egr_lines :: "log_files \<Rightarrow> log_line list" where
  "egr_lines D = stream_lines D EGRESS_LOG EGRESS_MAX_ROTATED"

definition seq_sorted :: "log_line list \<Rightarrow> bool" where
  "seq_sorted ls \<longleftrightarrow> sorted_wrt (<) (map ll_seq ls)"

definition log_inv :: "log_files \<Rightarrow> nat \<Rightarrow> bool" where
  "log_inv D N \<longleftrightarrow>
     seq_sorted (app_lines D) \<and> seq_sorted (egr_lines D)
     \<and> ll_seq ` set (app_lines D) \<inter> ll_seq ` set (egr_lines D) = {}
     \<and> recent_ok D APP_LOG MAX_ROTATED \<and> recent_ok D EGRESS_LOG EGRESS_MAX_ROTATED
     \<and> (\<forall>l \<in> set (app_lines D) \<union> set (egr_lines D). ll_seq l \<le> N)
     \<and> (\<forall>l \<in> set (app_lines D). ll_stream l \<noteq> EGRESS_STREAM) \<and> (\<forall>l \<in> set (egr_lines D). ll_stream l = EGRESS_STREAM)"

lemmas log_consts = MAX_FILE_BYTES_def MAX_ROTATED_def EGRESS_MAX_FILE_BYTES_def EGRESS_MAX_ROTATED_def

lemma seq_sorted_append:
  "seq_sorted (a @ b) \<longleftrightarrow> seq_sorted a \<and> seq_sorted b \<and> (\<forall>x \<in> set a. \<forall>y \<in> set b. ll_seq x < ll_seq y)"
  by (simp add: seq_sorted_def sorted_wrt_append)

lemma seq_sorted_last: "seq_sorted ls \<Longrightarrow> l \<in> set ls \<Longrightarrow> ll_seq l \<le> ll_seq (last ls)"
  by (induction ls rule: rev_induct) (auto simp: seq_sorted_append less_imp_le)

lemma seq_sorted_filter: "seq_sorted ls \<Longrightarrow> seq_sorted (filter P ls)"
  by (induction ls) (auto simp: seq_sorted_def)

lemma seq_sorted_unique:
  assumes "seq_sorted a" and "seq_sorted b" and "set a = set b"
  shows "a = b"
proof -
  have d: "distinct (map ll_seq a)" "distinct (map ll_seq b)" "sorted (map ll_seq a)" "sorted (map ll_seq b)"
    using assms(1,2) by (simp_all add: seq_sorted_def strict_sorted_iff)
  then have "map ll_seq a = map ll_seq b"
    by (intro sorted_distinct_set_unique) (simp_all add: assms(3))
  then show ?thesis
    using d(1) assms(3) by (intro map_inj_on[of ll_seq]) (simp_all add: distinct_map)
qed

lemma seq_sorted_number: "seq_sorted (number_lines n ls) \<and> (\<forall>l \<in> set (number_lines n ls). n < ll_seq l \<and> ll_seq l \<le> n + length ls)"
proof (induction ls arbitrary: n)
  case (Cons l ls)
  then show ?case using Cons[of "n + 1"] by (fastforce simp: seq_sorted_def)
qed (simp add: seq_sorted_def)

lemma length_number_lines [simp]: "length (number_lines n ls) = length ls"
  by (induction ls arbitrary: n) auto

lemma number_lines_mem: "l \<in> set (number_lines n ls) \<Longrightarrow> \<exists>m \<in> set ls. l = m\<lparr>ll_seq := ll_seq l\<rparr>"
  by (induction ls arbitrary: n) force+

lemma last_seq_file:
  assumes "files_are tj dir D" and "json_ok tj fj (set (stream_lines D base n))" and "i \<le> n"
  shows "last_seq fj (base, i) dir = (if file_lines D base i = [] then 0 else ll_seq (last (file_lines D base i)))"
  using read_lines_files[OF assms(1) json_ok_subset[OF assms(2) file_lines_subset[OF assms(3)]]]
  by (simp add: last_seq_def Let_def)

lemma stream_lines_10:
  "0 < n \<Longrightarrow> \<exists>old. stream_lines D base n = old @ file_lines D base 1 @ file_lines D base 0"
proof -
  assume "0 < n"
  then have "rev [1..<n + 1] = rev [2..<n + 1] @ [1]" by (simp add: upt_conv_Cons numeral_2_eq_2 del: upt_Suc)
  then show ?thesis unfolding stream_lines_split by (simp only: map_append concat_append) simp
qed

lemma last_seq_stream:
  assumes f: "files_are tj dir D" and j: "json_ok tj fj (set (stream_lines D base n))" and n: "0 < n"
    and s: "seq_sorted (stream_lines D base n)" and r: "recent_ok D base n" and l: "l \<in> set (stream_lines D base n)"
  shows "ll_seq l \<le> max (last_seq fj (base, 0) dir) (last_seq fj (base, 1) dir)"
proof -
  obtain old where e: "stream_lines D base n = old @ file_lines D base 1 @ file_lines D base 0"
    using stream_lines_10[OF n] by blast
  have t: "ll_seq l \<le> ll_seq (last (stream_lines D base n))" by (rule seq_sorted_last[OF s l])
  show ?thesis
  proof (cases "file_lines D base 0 = []")
    case True
    then have "file_lines D base 1 \<noteq> []" using r l by (auto simp: recent_ok_def)
    then show ?thesis using t n last_seq_file[OF f j, of 1] by (simp add: e True)
  next
    case False
    then show ?thesis using t last_seq_file[OF f j, of 0] by (simp add: e)
  qed
qed

lemma highest_seq_bounds:
  assumes f: "files_are tj dir D" and i: "log_inv D N" and j: "json_ok tj fj (set (app_lines D) \<union> set (egr_lines D))"
    and l: "l \<in> set (app_lines D) \<union> set (egr_lines D)"
  shows "ll_seq l \<le> highest_seq_on_disk fj dir"
proof -
  have ja: "json_ok tj fj (set (stream_lines D APP_LOG MAX_ROTATED))" and je: "json_ok tj fj (set (stream_lines D EGRESS_LOG EGRESS_MAX_ROTATED))"
    using j by (auto intro: json_ok_subset simp: app_lines_def egr_lines_def)
  show ?thesis
    using l i last_seq_stream[OF f ja, of l] last_seq_stream[OF f je, of l]
    by (fastforce simp: log_inv_def app_lines_def egr_lines_def highest_seq_on_disk_def log_consts le_max_iff_disj)
qed

section \<open>Appending to a project\<close>

definition project_dir :: "string \<Rightarrow> log_store \<Rightarrow> log_dir" where
  "project_dir pid st = get_or_default [] (st_dirs st) (sanitize pid)"

definition project_state_of :: "string \<Rightarrow> log_store \<Rightarrow> project_state" where
  "project_state_of pid st = get_or_default \<lparr>pj_next_seq = 0, pj_initialized = False\<rparr> (st_state st) pid"

text \<open>
  A project's logs are sound: the directory holds two streams of lines of \<open>L\<close>, each in strictly
  increasing order of their numbers, and a counter already read from disk is above all of them.
\<close>

definition store_ok :: "(log_line \<Rightarrow> string) \<Rightarrow> log_line set \<Rightarrow> string \<Rightarrow> log_store \<Rightarrow> bool" where
  "store_ok tj L pid st \<longleftrightarrow>
     (\<exists>D N. files_are tj (project_dir pid st) D \<and> log_inv D N \<and> set (app_lines D) \<union> set (egr_lines D) \<subseteq> L
        \<and> (pj_initialized (project_state_of pid st) \<longrightarrow> N \<le> pj_next_seq (project_state_of pid st)))"

definition next_base :: "(string \<Rightarrow> log_line option) \<Rightarrow> string \<Rightarrow> log_store \<Rightarrow> nat" where
  "next_base fj pid st =
     (if pj_initialized (project_state_of pid st) then pj_next_seq (project_state_of pid st)
      else highest_seq_on_disk fj (project_dir pid st))"

lemma log_inv_mono: "log_inv D N \<Longrightarrow> (\<forall>l \<in> set (app_lines D) \<union> set (egr_lines D). ll_seq l \<le> M) \<Longrightarrow> log_inv D M"
  by (simp add: log_inv_def)

lemma store_ok_at_base:
  assumes "store_ok tj L pid st" and "json_ok tj fj L"
  obtains D where "files_are tj (project_dir pid st) D" "log_inv D (next_base fj pid st)"
    "set (app_lines D) \<union> set (egr_lines D) \<subseteq> L"
proof -
  obtain D N where d: "files_are tj (project_dir pid st) D" "log_inv D N" "set (app_lines D) \<union> set (egr_lines D) \<subseteq> L"
    "pj_initialized (project_state_of pid st) \<longrightarrow> N \<le> pj_next_seq (project_state_of pid st)"
    using assms(1) by (auto simp: store_ok_def)
  have "ll_seq l \<le> next_base fj pid st" if "l \<in> set (app_lines D) \<union> set (egr_lines D)" for l
  proof (cases "pj_initialized (project_state_of pid st)")
    case True
    have "ll_seq l \<le> N" using d(2) that unfolding log_inv_def by blast
    then show ?thesis using d(4) True by (simp add: next_base_def)
  next
    case False
    then show ?thesis
      using highest_seq_bounds[OF d(1,2) json_ok_subset[OF assms(2) d(3)] that] by (simp add: next_base_def)
  qed
  then have "log_inv D (next_base fj pid st)" using d(2) by (blast intro: log_inv_mono)
  then show ?thesis using that d(1,3) by blast
qed

lemma log_append_eq:
  assumes "lines \<noteq> []"
  shows "log_append tj fj wr pid lines st =
    (let stored = number_lines (next_base fj pid st) lines;
         r = append_stream (wr APP_LOG) APP_LOG (log_text tj (filter (\<lambda>l. ll_stream l \<noteq> EGRESS_STREAM) stored)) MAX_FILE_BYTES MAX_ROTATED (project_dir pid st);
         r = (if fst r then append_stream (wr EGRESS_LOG) EGRESS_LOG (log_text tj (filter (\<lambda>l. ll_stream l = EGRESS_STREAM) stored)) EGRESS_MAX_FILE_BYTES EGRESS_MAX_ROTATED (snd r) else r)
     in (fst r, st\<lparr>st_dirs := hupd (sanitize pid) (snd r) (st_dirs st),
        st_state := hupd pid \<lparr>pj_next_seq = next_base fj pid st + length lines, pj_initialized = True\<rparr> (st_state st)\<rparr>))"
  using assms unfolding log_append_def project_dir_def[symmetric] project_state_of_def[symmetric] next_base_def[symmetric] Let_def
  by (auto simp: split_beta)

lemma stream_append_inv:
  assumes s: "seq_sorted old" and b: "\<forall>l \<in> set old. ll_seq l \<le> N" and new: "seq_sorted new" "\<forall>l \<in> set new. N < ll_seq l"
    and e: "old = dropped @ kept" and new': "new' = new \<or> new' = []"
  shows "seq_sorted (kept @ new')" "set (kept @ new') \<subseteq> set old \<union> set new"
proof -
  have "\<forall>x \<in> set old. \<forall>y \<in> set new. ll_seq x < ll_seq y" using b new(2) by (meson le_less_trans)
  then have "seq_sorted (old @ new)" "seq_sorted (old @ [])" using s new(1) by (simp_all add: seq_sorted_append)
  then have "seq_sorted (old @ new')" using new' by blast
  then show "seq_sorted (kept @ new')" unfolding e by (simp add: seq_sorted_append)
  show "set (kept @ new') \<subseteq> set old \<union> set new" using e new' by auto
qed

lemma recent_ok_cong: "(\<And>i. D' (base, i) = D (base, i)) \<Longrightarrow> recent_ok D' base n = recent_ok D base n"
  using stream_lines_cong[of D' base D n] by (simp add: recent_ok_def file_lines_def)

lemma log_pos: "0 < MAX_ROTATED" "0 < MAX_FILE_BYTES" "0 < EGRESS_MAX_ROTATED" "0 < EGRESS_MAX_FILE_BYTES"
  by (simp_all add: log_consts)

lemma log_append_files:
  fixes wr :: "string \<Rightarrow> bool"
  assumes so: "store_ok tj L pid st" and j: "json_ok tj fj L" and ne: "lines \<noteq> []"
    and cl: "\<forall>l \<in> set lines. \<forall>n. l\<lparr>ll_seq := n\<rparr> \<in> L"
  defines "N \<equiv> next_base fj pid st" and "st' \<equiv> snd (log_append tj fj wr pid lines st)"
  defines "newA \<equiv> filter (\<lambda>l. ll_stream l \<noteq> EGRESS_STREAM) (number_lines N lines)"
    and "newE \<equiv> filter (\<lambda>l. ll_stream l = EGRESS_STREAM) (number_lines N lines)"
  obtains D D' dA kA dE kE where "files_are tj (project_dir pid st) D" "log_inv D N" "set (app_lines D) \<union> set (egr_lines D) \<subseteq> L"
    "files_are tj (project_dir pid st') D'" "log_inv D' (N + length lines)" "set (app_lines D') \<union> set (egr_lines D') \<subseteq> L"
    "app_lines D = dA @ kA" "app_lines D' = kA @ (if wr APP_LOG then newA else [])"
    "egr_lines D = dE @ kE" "egr_lines D' = kE @ (if (newA = [] \<or> wr APP_LOG) \<and> wr EGRESS_LOG then newE else [])"
    "newA = [] \<longrightarrow> dA = []" "newE = [] \<longrightarrow> dE = []"
    "fst (log_append tj fj wr pid lines st) = ((newA = [] \<or> wr APP_LOG) \<and> (newE = [] \<or> wr EGRESS_LOG))"
    "project_state_of pid st' = \<lparr>pj_next_seq = N + length lines, pj_initialized = True\<rparr>"
proof -
  let ?dir = "project_dir pid st"
  obtain D where D: "files_are tj ?dir D" "log_inv D N" "set (app_lines D) \<union> set (egr_lines D) \<subseteq> L"
    using store_ok_at_base[OF so j] unfolding N_def by blast
  have r: "recent_ok D APP_LOG MAX_ROTATED" "recent_ok D EGRESS_LOG EGRESS_MAX_ROTATED" using D(2) by (simp_all add: log_inv_def)
  define rA where "rA = append_stream (wr APP_LOG) APP_LOG (log_text tj newA) MAX_FILE_BYTES MAX_ROTATED ?dir"
  obtain D1 dA kA where A: "files_are tj (snd rA) D1" "\<And>b i. b \<noteq> APP_LOG \<Longrightarrow> D1 (b, i) = D (b, i)" "recent_ok D1 APP_LOG MAX_ROTATED"
    "app_lines D = dA @ kA \<and> app_lines D1 = kA @ (if wr APP_LOG then newA else [])" "newA = [] \<longrightarrow> dA = []" "fst rA = (newA = [] \<or> wr APP_LOG)"
    using append_stream_spec[OF D(1) log_pos(1,2) r(1), of "wr APP_LOG" newA, folded app_lines_def rA_def] by blast
  have r1: "recent_ok D1 EGRESS_LOG EGRESS_MAX_ROTATED" and e1: "egr_lines D1 = egr_lines D"
    using r(2) A(2) recent_ok_cong[of D1 EGRESS_LOG D] stream_lines_cong[of D1 EGRESS_LOG D] by (simp_all add: egr_lines_def)
  define rE where "rE = (if fst rA then append_stream (wr EGRESS_LOG) EGRESS_LOG (log_text tj newE) EGRESS_MAX_FILE_BYTES EGRESS_MAX_ROTATED (snd rA) else rA)"
  obtain D2 dE kE where E: "files_are tj (snd rE) D2" "\<And>b i. b \<noteq> EGRESS_LOG \<Longrightarrow> D2 (b, i) = D1 (b, i)" "recent_ok D2 EGRESS_LOG EGRESS_MAX_ROTATED"
    "egr_lines D = dE @ kE \<and> egr_lines D2 = kE @ (if (newA = [] \<or> wr APP_LOG) \<and> wr EGRESS_LOG then newE else [])" "newE = [] \<longrightarrow> dE = []"
    "fst rE = ((newA = [] \<or> wr APP_LOG) \<and> (newE = [] \<or> wr EGRESS_LOG))"
  proof (cases "fst rA")
    case True
    then have e: "rE = append_stream (wr EGRESS_LOG) EGRESS_LOG (log_text tj newE) EGRESS_MAX_FILE_BYTES EGRESS_MAX_ROTATED (snd rA)"
      by (simp add: rE_def)
    from append_stream_spec[OF A(1) log_pos(3,4) r1, of "wr EGRESS_LOG" newE, folded egr_lines_def, unfolded e1, folded e]
    obtain D' dropped k where d: "files_are tj (snd rE) D'" "\<forall>b i. b \<noteq> EGRESS_LOG \<longrightarrow> D' (b, i) = D1 (b, i)"
      "recent_ok D' EGRESS_LOG EGRESS_MAX_ROTATED" "egr_lines D = dropped @ k \<and> egr_lines D' = k @ (if wr EGRESS_LOG then newE else [])"
      "newE = [] \<longrightarrow> dropped = []" "fst rE = (newE = [] \<or> wr EGRESS_LOG)" by blast
    show ?thesis
      by (rule that[of D' dropped k]) (use d A(6) True in \<open>simp_all\<close>)
  next
    case False
    then show ?thesis using A(1,6) r1 e1 that[of D1 "[]" "egr_lines D"] by (simp add: rE_def)
  qed
  have a2: "app_lines D2 = app_lines D1" "recent_ok D2 APP_LOG MAX_ROTATED"
    using E(2) A(3) recent_ok_cong[of D2 APP_LOG D1] stream_lines_cong[of D2 APP_LOG D1] by (simp_all add: app_lines_def)
  have la: "log_append tj fj wr pid lines st = (fst rE, st\<lparr>st_dirs := hupd (sanitize pid) (snd rE) (st_dirs st),
      st_state := hupd pid \<lparr>pj_next_seq = N + length lines, pj_initialized = True\<rparr> (st_state st)\<rparr>)"
    unfolding log_append_eq[OF ne] Let_def N_def[symmetric] newA_def[symmetric] newE_def[symmetric] rA_def[symmetric] rE_def[symmetric] ..
  have st': "fst (log_append tj fj wr pid lines st) = fst rE" "project_dir pid st' = snd rE"
    "project_state_of pid st' = \<lparr>pj_next_seq = N + length lines, pj_initialized = True\<rparr>"
    by (simp_all add: st'_def la project_dir_def project_state_of_def)
  note num = seq_sorted_number[of N lines]
  have nA: "seq_sorted newA" "\<forall>l \<in> set newA. N < ll_seq l" and nE: "seq_sorted newE" "\<forall>l \<in> set newE. N < ll_seq l"
    using num by (auto simp: newA_def newE_def seq_sorted_filter)
  have inL: "set newA \<union> set newE \<subseteq> L"
  proof -
    have "l \<in> L" if "l \<in> set (number_lines N lines)" for l using number_lines_mem[OF that] cl by metis
    then show ?thesis by (auto simp: newA_def newE_def)
  qed
  have sA: "seq_sorted (app_lines D2)" "set (app_lines D2) \<subseteq> set (app_lines D) \<union> set newA"
    using stream_append_inv[OF _ _ nA conjunct1[OF A(4)], of "if wr APP_LOG then newA else []"] D(2) A(4)
    unfolding a2(1) by (simp_all add: log_inv_def)
  have sE: "seq_sorted (egr_lines D2)" "set (egr_lines D2) \<subseteq> set (egr_lines D) \<union> set newE"
    using stream_append_inv[OF _ _ nE conjunct1[OF E(4)], of "if (newA = [] \<or> wr APP_LOG) \<and> wr EGRESS_LOG then newE else []"] D(2) E(4)
    by (simp_all add: log_inv_def)
  have inv: "log_inv D2 (N + length lines)"
  proof -
    have inj: "inj_on ll_seq (set (number_lines N lines))"
      using num by (simp add: seq_sorted_def strict_sorted_iff distinct_map)
    have b: "\<forall>x \<in> set (app_lines D) \<union> set (egr_lines D). ll_seq x \<le> N" and d: "ll_seq ` set (app_lines D) \<inter> ll_seq ` set (egr_lines D) = {}"
      using D(2) unfolding log_inv_def by blast+
    have "ll_seq l \<noteq> ll_seq m" if "l \<in> set (app_lines D) \<union> set newA" "m \<in> set (egr_lines D) \<union> set newE" for l m
    proof
      assume e: "ll_seq l = ll_seq m"
      have "\<not> (l \<in> set (app_lines D) \<and> m \<in> set (egr_lines D))" using d e by blast
      then have "l \<in> set newA \<and> m \<in> set newE" using that b nA(2) nE(2) e by (metis Un_iff linorder_not_less)
      then show False using inj_onD[OF inj e] by (auto simp: newA_def newE_def)
    qed
    then have "ll_seq ` set (app_lines D2) \<inter> ll_seq ` set (egr_lines D2) = {}" using sA(2) sE(2) by fastforce
    moreover have "ll_seq l \<le> N + length lines" if "l \<in> set (app_lines D2) \<union> set (egr_lines D2)" for l
    proof -
      have "l \<in> set (app_lines D) \<union> set (egr_lines D) \<or> l \<in> set (number_lines N lines)"
        using that sA(2) sE(2) by (auto simp: newA_def newE_def)
      then show ?thesis using b num by (meson trans_le_add1)
    qed
    moreover have "\<forall>l \<in> set (app_lines D2). ll_stream l \<noteq> EGRESS_STREAM" "\<forall>l \<in> set (egr_lines D2). ll_stream l = EGRESS_STREAM"
      using sA(2) sE(2) D(2) by (auto simp: log_inv_def newA_def newE_def)
    ultimately show ?thesis using sA(1) sE(1) a2(2) E(3) unfolding log_inv_def by blast
  qed
  show ?thesis
    by (rule that[OF D, of D2 dA kA dE kE]) (use A E a2 st' inv sA sE inL D(3) in \<open>simp_all, blast?\<close>)
qed

section \<open>What a reader sees\<close>

definition stored_lines :: "(string \<Rightarrow> log_line option) \<Rightarrow> string \<Rightarrow> log_store \<Rightarrow> log_line list" where
  "stored_lines fj pid st =
     sort_key ll_seq (dir_lines fj APP_LOG MAX_ROTATED (project_dir pid st) @ dir_lines fj EGRESS_LOG EGRESS_MAX_ROTATED (project_dir pid st))"

lemma log_read_since: "log_read fj pid k None (Some s) st = filter (\<lambda>l. s < ll_seq l) (stored_lines fj pid st)"
  by (simp add: log_read_def stored_lines_def project_dir_def Let_def)

lemma stored_lines_files:
  assumes "files_are tj (project_dir pid st) D" and "log_inv D N" and "set (app_lines D) \<union> set (egr_lines D) \<subseteq> L" and "json_ok tj fj L"
  shows "seq_sorted (stored_lines fj pid st)" and "set (stored_lines fj pid st) = set (app_lines D) \<union> set (egr_lines D)"
    and "filter (\<lambda>l. ll_stream l \<noteq> EGRESS_STREAM) (stored_lines fj pid st) = app_lines D"
    and "filter (\<lambda>l. ll_stream l = EGRESS_STREAM) (stored_lines fj pid st) = egr_lines D"
proof -
  have "json_ok tj fj (set (stream_lines D APP_LOG MAX_ROTATED))" "json_ok tj fj (set (stream_lines D EGRESS_LOG EGRESS_MAX_ROTATED))"
    using assms(3,4) by (auto intro: json_ok_subset simp: app_lines_def egr_lines_def)
  then have e: "stored_lines fj pid st = sort_key ll_seq (app_lines D @ egr_lines D)"
    using dir_lines_files[OF assms(1)] by (simp add: stored_lines_def app_lines_def egr_lines_def)
  have d: "distinct (map ll_seq (app_lines D @ egr_lines D))"
    using assms(2) by (simp add: log_inv_def seq_sorted_def strict_sorted_iff)
  show s: "seq_sorted (stored_lines fj pid st)" unfolding e seq_sorted_def by (rule sort_key_strict[OF d])
  show m: "set (stored_lines fj pid st) = set (app_lines D) \<union> set (egr_lines D)" by (simp add: e)
  have k: "\<forall>l \<in> set (app_lines D). ll_stream l \<noteq> EGRESS_STREAM" "\<forall>l \<in> set (egr_lines D). ll_stream l = EGRESS_STREAM"
    "seq_sorted (app_lines D)" "seq_sorted (egr_lines D)" using assms(2) unfolding log_inv_def by blast+
  show "filter (\<lambda>l. ll_stream l \<noteq> EGRESS_STREAM) (stored_lines fj pid st) = app_lines D"
    by (rule seq_sorted_unique[OF seq_sorted_filter[OF s] k(3)]) (use k(1,2) m in auto)
  show "filter (\<lambda>l. ll_stream l = EGRESS_STREAM) (stored_lines fj pid st) = egr_lines D"
    by (rule seq_sorted_unique[OF seq_sorted_filter[OF s] k(4)]) (use k(1,2) m in auto)
qed

lemma store_ok_restart: "store_ok tj L pid st \<Longrightarrow> store_ok tj L pid (log_store_new (st_dirs st))"
  by (auto simp: store_ok_def log_store_new_def project_dir_def project_state_of_def)

lemma store_ok_empty: "store_ok tj L pid (log_store_new [])"
proof -
  have "stream_lines (\<lambda>_. None) base n = []" for base n by (simp add: stream_lines_def file_lines_def)
  then show ?thesis
    unfolding store_ok_def
    by (intro exI[of _ "\<lambda>_. None"] exI[of _ 0])
      (simp add: files_are_def log_inv_def app_lines_def egr_lines_def seq_sorted_def recent_ok_def log_store_new_def project_dir_def
        project_state_of_def)
qed

lemma store_ok_append:
  assumes "store_ok tj L pid st" and "json_ok tj fj L" and "\<forall>l \<in> set lines. \<forall>n. l\<lparr>ll_seq := n\<rparr> \<in> L"
  shows "store_ok tj L pid (snd (log_append tj fj wr pid lines st))"
proof (cases "lines = []")
  case True
  then show ?thesis using assms(1) by (simp add: log_append_def)
next
  case False
  show ?thesis
  proof (rule log_append_files[OF assms(1,2) False assms(3), of wr], goal_cases)
    case (1 D D' dA kA dE kE)
    show ?case unfolding store_ok_def 1(14) by (intro exI[of _ D'] exI[of _ "next_base fj pid st + length lines"] conjI 1(4,5,6)) simp
  qed
qed

lemma append_tail:
  assumes "store_ok tj L pid st" and "json_ok tj fj L" and "\<forall>l \<in> set lines. \<forall>n. l\<lparr>ll_seq := n\<rparr> \<in> L"
    and ok: "log_append tj fj wr pid lines st = (True, st')" and ne: "lines \<noteq> []"
  shows "log_read fj pid k None (Some (next_base fj pid st)) st' = number_lines (next_base fj pid st) lines
    \<and> log_read fj pid k None (Some (next_base fj pid st)) st = []"
proof (rule log_append_files[OF assms(1,2) ne assms(3), of wr, unfolded ok], goal_cases)
  case (1 D D' dA kA dE kE)
  let ?N = "next_base fj pid st" and ?new = "number_lines (next_base fj pid st) lines"
  have n: "seq_sorted ?new" "\<forall>l \<in> set ?new. ?N < ll_seq l" using seq_sorted_number[of ?N lines] by blast+
  have b: "\<forall>l \<in> set (app_lines D) \<union> set (egr_lines D). ll_seq l \<le> ?N" using 1(2) unfolding log_inv_def by blast
  have s: "seq_sorted (stored_lines fj pid st')" "set (stored_lines fj pid st') = set (app_lines D') \<union> set (egr_lines D')"
    using stored_lines_files[OF _ 1(5,6) assms(2)] 1(4) by simp_all
  have a: "app_lines D' = kA @ filter (\<lambda>l. ll_stream l \<noteq> EGRESS_STREAM) ?new" "egr_lines D' = kE @ filter (\<lambda>l. ll_stream l = EGRESS_STREAM) ?new"
    using 1(8,10,13) by (auto split: if_splits)
  have "filter (\<lambda>l. ?N < ll_seq l) (stored_lines fj pid st') = ?new"
  proof (rule seq_sorted_unique[OF seq_sorted_filter[OF s(1)] n(1)])
    show "set (filter (\<lambda>l. ?N < ll_seq l) (stored_lines fj pid st')) = set ?new"
      using n(2) b unfolding set_filter s(2) a 1(7,9) by (auto dest: leD)
  qed
  moreover have "filter (\<lambda>l. ?N < ll_seq l) (stored_lines fj pid st) = []"
    using b unfolding filter_empty_conv stored_lines_files(2)[OF 1(1,2,3) assms(2)] by (simp add: linorder_not_less)
  ultimately show ?case by (simp add: log_read_since)
qed

lemma append_isolated:
  assumes "store_ok tj L pid st" and "json_ok tj fj L" and "\<forall>l \<in> set lines. \<forall>n. l\<lparr>ll_seq := n\<rparr> \<in> L"
    and "\<forall>l \<in> set lines. ll_stream l \<noteq> EGRESS_STREAM"
  shows "filter (\<lambda>l. ll_stream l = EGRESS_STREAM) (log_read fj pid k None (Some s) (snd (log_append tj fj wr pid lines st)))
    = filter (\<lambda>l. ll_stream l = EGRESS_STREAM) (log_read fj pid k None (Some s) st)"
proof (cases "lines = []")
  case True
  then show ?thesis by (simp add: log_append_def)
next
  case False
  let ?st = "snd (log_append tj fj wr pid lines st)"
  show ?thesis
  proof (rule log_append_files[OF assms(1,2) False assms(3), of wr], goal_cases)
    case (1 D D' dA kA dE kE)
    have "filter (\<lambda>l. ll_stream l = EGRESS_STREAM) (number_lines (next_base fj pid st) lines) = []"
    proof -
      have "ll_stream l \<noteq> EGRESS_STREAM" if n: "l \<in> set (number_lines (next_base fj pid st) lines)" for l
      proof -
        obtain m where "m \<in> set lines" "l = m\<lparr>ll_seq := ll_seq l\<rparr>" using number_lines_mem[OF n] by blast
        then have "ll_stream l = ll_stream m" by (metis log_line.simps(2) log_line.surjective log_line.update_convs(5))
        then show ?thesis using assms(4) \<open>m \<in> set lines\<close> by simp
      qed
      then show ?thesis by (simp add: filter_empty_conv)
    qed
    then have "egr_lines D' = egr_lines D" using 1(9,10,12) by simp
    then have "filter (\<lambda>l. ll_stream l = EGRESS_STREAM) (stored_lines fj pid ?st) = filter (\<lambda>l. ll_stream l = EGRESS_STREAM) (stored_lines fj pid st)"
      using stored_lines_files(4)[OF 1(1,2,3) assms(2)] stored_lines_files(4)[OF 1(4,5,6) assms(2)] by simp
    then have "filter (\<lambda>l. s < ll_seq l) (filter (\<lambda>l. ll_stream l = EGRESS_STREAM) (stored_lines fj pid ?st))
        = filter (\<lambda>l. s < ll_seq l) (filter (\<lambda>l. ll_stream l = EGRESS_STREAM) (stored_lines fj pid st))" by (rule arg_cong)
    then show ?case by (simp add: log_read_since conj_commute)
  qed
qed

text \<open>
  The size limit of a file is only looked at before an append: one append writes its whole text to
  the active file, whatever its length.
\<close>

lemma append_size_unbounded:
  "0 < mb \<Longrightarrow> buf \<noteq> [] \<Longrightarrow> append_stream True base buf mb n [] = (True, [((base, 0), buf)])"
  by (simp add: append_stream_def file_len_def get_or_default_def)

section \<open>Properties\<close>

text \<open>
  Shipped lines are numbered above everything the project has on disk and can be tailed: after a
  successful append, reading from the cursor that was the end of the log returns exactly the appended
  lines, in order, under consecutive numbers; before it that read returns nothing. The log stays
  sound, also for a process that restarts and takes its counter from the files, whatever was rotated.
\<close>

theorem appended_lines_are_the_tail:
  assumes "store_ok tj L pid st" and "json_ok tj fj L" and "\<forall>l \<in> set lines. \<forall>n. l\<lparr>ll_seq := n\<rparr> \<in> L"
    and "log_append tj fj wr pid lines st = (True, st')" and "lines \<noteq> []"
  shows "log_read fj pid k None (Some (next_base fj pid st)) st' = number_lines (next_base fj pid st) lines
    \<and> log_read fj pid k None (Some (next_base fj pid st)) st = []
    \<and> store_ok tj L pid st' \<and> store_ok tj L pid (log_store_new (st_dirs st'))"
  using append_tail[OF assms] store_ok_append[OF assms(1-3), of wr] store_ok_restart[of tj L pid st'] assms(4) by simp

definition demo_log_line :: "string \<Rightarrow> nat \<Rightarrow> log_line" where
  "demo_log_line stream n = \<lparr>ll_server = ''web'', ll_stream = stream, ll_line = ''hi'', ll_timestamp = 0, ll_seq = n\<rparr>"

definition demo_to_json :: "log_line \<Rightarrow> string" where
  "demo_to_json l = (if ll_stream l = EGRESS_STREAM then CHR ''e'' else CHR ''a'') # show_nat (ll_seq l)"

fun demo_from_json :: "string \<Rightarrow> log_line option" where
  "demo_from_json [] = None"
| "demo_from_json (c # s) = Some (demo_log_line (if c = CHR ''e'' then EGRESS_STREAM else ''stdout'') (digits_val s))"

definition demo_lines :: "log_line set" where
  "demo_lines = {demo_log_line stream n | stream n. stream \<in> {''stdout'', EGRESS_STREAM}}"

lemma digit_not_control: "is_ascii_digit c \<Longrightarrow> c \<noteq> CHR 0x0A \<and> c \<noteq> CHR 0x0D"
  by (auto simp: is_ascii_digit_def)

lemma demo_json_ok: "json_ok demo_to_json demo_from_json demo_lines"
proof -
  have "CHR 0x0A \<notin> set (show_nat n) \<and> CHR 0x0D \<noteq> last (show_nat n) \<and> show_nat n \<noteq> []" for n
    using digit_not_control show_nat_digits[of n] last_in_set[of "show_nat n"] unfolding list_all_iff by metis
  then show ?thesis
    by (auto simp: json_ok_def demo_lines_def demo_to_json_def demo_log_line_def digits_val_show_nat EGRESS_STREAM_def dest: sym)
qed

lemma demo_renumber: "\<forall>l \<in> set [demo_log_line ''stdout'' 0, demo_log_line EGRESS_STREAM 0]. \<forall>n. l\<lparr>ll_seq := n\<rparr> \<in> demo_lines"
  by (auto simp: demo_lines_def demo_log_line_def)

lemma log_append_ok: "lines \<noteq> [] \<Longrightarrow> \<exists>st'. log_append tj fj (\<lambda>_. True) pid lines st = (True, st')"
  by (simp add: log_append_eq Let_def append_stream_def)

theorem appended_lines_are_the_tail_witness:
  "log_read demo_from_json ''shop'' 10 None (Some 0)
     (snd (log_append demo_to_json demo_from_json (\<lambda>_. True) ''shop'' [demo_log_line ''stdout'' 0, demo_log_line EGRESS_STREAM 0] (log_store_new [])))
   = [demo_log_line ''stdout'' 1, demo_log_line EGRESS_STREAM 2]"
proof -
  obtain st' where e: "log_append demo_to_json demo_from_json (\<lambda>_. True) ''shop'' [demo_log_line ''stdout'' 0, demo_log_line EGRESS_STREAM 0] (log_store_new []) = (True, st')"
    using log_append_ok by blast
  have n: "next_base demo_from_json ''shop'' (log_store_new []) = 0"
    by (simp add: next_base_def project_state_of_def project_dir_def log_store_new_def highest_seq_on_disk_def last_seq_def read_lines_into_def)
  show ?thesis
    using appended_lines_are_the_tail[OF store_ok_empty demo_json_ok demo_renumber e, unfolded n, of 10] e
    by (simp add: demo_log_line_def numeral_2_eq_2)
qed

text \<open>
  C35. A flood of application output never costs an audit row. Appending application lines, whether
  the append succeeds or fails and whatever it rotates away, leaves every retained egress row of the
  project as it was.
\<close>

theorem audit_rows_survive_log_flood:
  assumes "store_ok tj L pid st" and "json_ok tj fj L" and "\<forall>l \<in> set lines. \<forall>n. l\<lparr>ll_seq := n\<rparr> \<in> L"
    and "\<forall>l \<in> set lines. ll_stream l \<noteq> EGRESS_STREAM"
  shows "filter (\<lambda>l. ll_stream l = EGRESS_STREAM) (log_read fj pid k None (Some s) (snd (log_append tj fj wr pid lines st)))
    = filter (\<lambda>l. ll_stream l = EGRESS_STREAM) (log_read fj pid k None (Some s) st)"
  by (rule append_isolated[OF assms])

theorem audit_rows_survive_log_flood_witness:
  "filter (\<lambda>l. ll_stream l = EGRESS_STREAM) (log_read demo_from_json ''shop'' 10 None (Some 0)
     (snd (log_append demo_to_json demo_from_json (\<lambda>_. True) ''shop'' [demo_log_line ''stdout'' 0]
       (snd (log_append demo_to_json demo_from_json (\<lambda>_. True) ''shop'' [demo_log_line EGRESS_STREAM 0] (log_store_new []))))))
   = [demo_log_line EGRESS_STREAM 1]"
proof -
  let ?l = "[demo_log_line EGRESS_STREAM 0]"
  obtain st1 where e: "log_append demo_to_json demo_from_json (\<lambda>_. True) ''shop'' ?l (log_store_new []) = (True, st1)"
    using log_append_ok by blast
  have r: "\<forall>l \<in> set ?l. \<forall>n. l\<lparr>ll_seq := n\<rparr> \<in> demo_lines" "\<forall>l \<in> set [demo_log_line ''stdout'' 0]. \<forall>n. l\<lparr>ll_seq := n\<rparr> \<in> demo_lines"
    "\<forall>l \<in> set [demo_log_line ''stdout'' 0]. ll_stream l \<noteq> EGRESS_STREAM"
    using demo_renumber by (simp_all add: demo_log_line_def EGRESS_STREAM_def)
  have n: "next_base demo_from_json ''shop'' (log_store_new []) = 0"
    by (simp add: next_base_def project_state_of_def project_dir_def log_store_new_def highest_seq_on_disk_def last_seq_def read_lines_into_def)
  have "log_read demo_from_json ''shop'' 10 None (Some 0) st1 = [demo_log_line EGRESS_STREAM 1]"
    using append_tail[OF store_ok_empty demo_json_ok r(1) e, unfolded n, of 10] by (simp add: demo_log_line_def)
  moreover have "store_ok demo_to_json demo_lines ''shop'' st1"
    using store_ok_append[OF store_ok_empty demo_json_ok r(1), of "''shop''" "\<lambda>_. True"] e by simp
  ultimately show ?thesis
    using audit_rows_survive_log_flood[OF _ demo_json_ok r(2,3), of "''shop''" st1 10 0 "\<lambda>_. True"] e
    by (simp add: demo_log_line_def)
qed

end
