(* ===== verification/Log_Ship.thy ===== *)
theory Log_Ship
  imports Log_Store
begin

text \<open>
  The host's log shipper, \<open>crates/jkbase-server/src/log_shipper.rs\<close>, and the pipeline it forms with the
  agent's sink (\<open>Log_Sink\<close>) and the store (\<open>Log_Store\<close>): pushes, in one piece or in their two halves,
  egress events and polls as steps on one agent boot. Requests to the agent are inputs that answer from
  the sink at the time of the poll, or fail.

  The lemmas show that the cursor makes shipping exactly-once and in order when no push overlaps a poll,
  and that a push that does overlap one can lose its line for good.
\<close>

section \<open>The shipper\<close>

record cursor =
  cu_boot_id :: string
  cu_seq :: nat

text \<open>\<open>sh_saved\<close> is the cursor file, what a restarted process loads.\<close>

record log_shipper =
  sh_store :: log_store
  sh_cursors :: "(string, cursor) hmap"
  sh_saved :: "(string, cursor) hmap"

definition log_shipper_new :: "log_store \<Rightarrow> (string, cursor) hmap \<Rightarrow> log_shipper" where
  "log_shipper_new store saved = \<lparr>sh_store = store, sh_cursors = saved, sh_saved = saved\<rparr>"

text \<open>What one request to the agent returns: nothing on a transport error, else its boot id and lines.\<close>

type_synonym fetch_logs = "nat \<Rightarrow> (string \<times> log_line list) option"

definition update_cursor :: "bool \<Rightarrow> string \<Rightarrow> string \<Rightarrow> nat \<Rightarrow> log_shipper \<Rightarrow> log_shipper" where
  "update_cursor saved project_id boot sq sh =
     (let cursors = hupd project_id \<lparr>cu_boot_id = boot, cu_seq = sq\<rparr> (sh_cursors sh)
      in sh\<lparr>sh_cursors := cursors, sh_saved := (if saved then cursors else sh_saved sh)\<rparr>)"

text \<open>The first half of \<open>ship\<close>: the request, and the second one after a restart of the agent.\<close>

definition ship_fetch ::
  "fetch_logs \<Rightarrow> fetch_logs \<Rightarrow> string \<Rightarrow> log_shipper \<Rightarrow> (string \<times> log_line list \<times> bool) option" where
  "ship_fetch fetch refetch project_id sh =
     (let (used_since, stored_boot) =
            (case map_of (sh_cursors sh) project_id of
               Some c \<Rightarrow> (cu_seq c, Some (cu_boot_id c))
             | None \<Rightarrow> (0, None))
      in case fetch used_since of
           None \<Rightarrow> None
         | Some resp \<Rightarrow>
             (let reset = (stored_boot \<noteq> Some (fst resp))
              in if reset \<and> used_since > 0
                 then map_option (\<lambda>(boot, ls). (boot, ls, reset)) (refetch 0)
                 else Some (fst resp, snd resp, reset)))"

definition ship ::
  "(log_line \<Rightarrow> string) \<Rightarrow> (string \<Rightarrow> log_line option) \<Rightarrow> (string \<Rightarrow> bool) \<Rightarrow> bool \<Rightarrow> fetch_logs \<Rightarrow> fetch_logs
   \<Rightarrow> string \<Rightarrow> log_shipper \<Rightarrow> log_shipper" where
  "ship to_json from_json wr saved fetch refetch project_id sh =
     (case ship_fetch fetch refetch project_id sh of
        None \<Rightarrow> sh
      | Some (boot, lines, reset) \<Rightarrow>
          (if lines = [] then (if reset then update_cursor saved project_id boot 0 sh else sh)
           else
             let new_seq = Max (set (map ll_seq lines));
                 (ok, store) = log_append to_json from_json wr project_id lines (sh_store sh);
                 sh = sh\<lparr>sh_store := store\<rparr>
             in if ok then update_cursor saved project_id boot new_seq sh else sh))"

definition shipper_restart :: "log_shipper \<Rightarrow> log_shipper" where
  "shipper_restart sh = log_shipper_new (log_store_new (st_dirs (sh_store sh))) (sh_saved sh)"

section \<open>One agent and its shipper\<close>

definition agent_fetch :: "(egress_event \<Rightarrow> string) \<Rightarrow> nat \<Rightarrow> log_sink \<Rightarrow> fetch_logs" where
  "agent_fetch render now sk since = Some (sk_boot_id sk, get_logs_since render now since sk)"

text \<open>
  The agent of one boot, the pushes between their two halves, and the host. \<open>pp_sent\<close> records the lines
  handed to the store from this boot, under the agent's numbers.
\<close>

record pipe =
  pp_sink :: log_sink
  pp_flight :: "(nat \<times> string \<times> string \<times> string) list"
  pp_ship :: log_shipper
  pp_sent :: "log_line list"

datatype pipe_event =
    PTake string string string
  | PFinish nat nat
  | PPush string string string nat
  | PEgress egress_event nat
  | PPoll "string \<Rightarrow> bool" bool nat
  | PUnreachable

definition polled :: "(egress_event \<Rightarrow> string) \<Rightarrow> nat \<Rightarrow> string \<Rightarrow> pipe \<Rightarrow> log_line list" where
  "polled render now pid p =
     (case ship_fetch (agent_fetch render now (pp_sink p)) (agent_fetch render now (pp_sink p)) pid (pp_ship p) of
        Some (_, ls, _) \<Rightarrow> ls | None \<Rightarrow> [])"

fun pipe_step ::
  "(log_line \<Rightarrow> string) \<Rightarrow> (string \<Rightarrow> log_line option) \<Rightarrow> (egress_event \<Rightarrow> string) \<Rightarrow> string \<Rightarrow> pipe_event \<Rightarrow> pipe \<Rightarrow> pipe" where
  "pipe_step tj fj render pid (PTake server stream txt) p =
     (let (sq, sk) = push_take (pp_sink p)
      in p\<lparr>pp_sink := sk, pp_flight := pp_flight p @ [(sq, server, stream, txt)]\<rparr>)"
| "pipe_step tj fj render pid (PFinish i now) p =
     (if i < length (pp_flight p)
      then case pp_flight p ! i of (sq, server, stream, txt) \<Rightarrow>
             p\<lparr>pp_sink := push_append server stream txt now sq (pp_sink p), pp_flight := remove_nth i (pp_flight p)\<rparr>
      else p)"
| "pipe_step tj fj render pid (PPush server stream txt now) p = p\<lparr>pp_sink := push server stream txt now (pp_sink p)\<rparr>"
| "pipe_step tj fj render pid (PEgress ev now) p = p\<lparr>pp_sink := push_egress ev now (pp_sink p)\<rparr>"
| "pipe_step tj fj render pid (PPoll wr saved now) p =
     (let fetch = agent_fetch render now (pp_sink p);
          ls = polled render now pid p
      in p\<lparr>pp_ship := ship tj fj wr saved fetch fetch pid (pp_ship p),
           pp_sent := (if fst (log_append tj fj wr pid ls (sh_store (pp_ship p))) then pp_sent p @ ls else pp_sent p)\<rparr>)"
| "pipe_step tj fj render pid PUnreachable p = p"

definition pipe_new :: "string \<Rightarrow> log_shipper \<Rightarrow> pipe" where
  "pipe_new boot sh = \<lparr>pp_sink = log_sink_new boot, pp_flight = [], pp_ship = sh, pp_sent = []\<rparr>"

definition pipe_run ::
  "(log_line \<Rightarrow> string) \<Rightarrow> (string \<Rightarrow> log_line option) \<Rightarrow> (egress_event \<Rightarrow> string) \<Rightarrow> string \<Rightarrow> pipe_event list \<Rightarrow> pipe \<Rightarrow> pipe" where
  "pipe_run tj fj render pid evs p = fold (pipe_step tj fj render pid) evs p"

section \<open>The cursor\<close>

definition eff_cursor :: "string \<Rightarrow> pipe \<Rightarrow> nat" where
  "eff_cursor pid p =
     (case map_of (sh_cursors (pp_ship p)) pid of
        Some c \<Rightarrow> if cu_boot_id c = sk_boot_id (pp_sink p) then cu_seq c else 0
      | None \<Rightarrow> 0)"

definition flight_seqs :: "pipe \<Rightarrow> nat set" where
  "flight_seqs p = set (map fst (pp_flight p))"

definition pipe_inv :: "string \<Rightarrow> pipe \<Rightarrow> bool" where
  "pipe_inv pid p \<longleftrightarrow>
     sink_inv (flight_seqs p) (pp_sink p) \<and> distinct (map fst (pp_flight p))
     \<and> eff_cursor pid p \<le> sk_seq (pp_sink p)
     \<and> seq_sorted (pp_sent p) \<and> (\<forall>l \<in> set (pp_sent p). ll_seq l \<le> eff_cursor pid p)"

lemma ship_fetch_agent:
  "\<exists>reset. ship_fetch (agent_fetch render now (pp_sink p)) (agent_fetch render now (pp_sink p)) pid (pp_ship p)
     = Some (sk_boot_id (pp_sink p), get_logs_since render now (eff_cursor pid p) (pp_sink p), reset)
     \<and> (\<not> reset \<longrightarrow> (\<exists>c. map_of (sh_cursors (pp_ship p)) pid = Some c \<and> cu_boot_id c = sk_boot_id (pp_sink p)))
     \<and> (reset \<longrightarrow> eff_cursor pid p = 0)"
  by (cases "map_of (sh_cursors (pp_ship p)) pid")
    (auto simp: ship_fetch_def agent_fetch_def eff_cursor_def)

lemma polled_eq: "polled render now pid p = get_logs_since render now (eff_cursor pid p) (pp_sink p)"
  using ship_fetch_agent[of render now p pid] by (auto simp: polled_def)

lemma sink_boot [simp]:
  "sk_boot_id (snd (push_take sk)) = sk_boot_id sk" "sk_boot_id (push_append a b c n q sk) = sk_boot_id sk"
  "sk_boot_id (push a b c n sk) = sk_boot_id sk"
  by (simp_all add: push_take_def push_append_def push_def Let_def)

lemma sink_boot_egress [simp]: "sk_boot_id (push_egress ev n sk) = sk_boot_id sk"
  by (simp add: push_egress_def Let_def split: option.split)

lemma sink_seq_mono:
  "sk_seq (snd (push_take sk)) = sk_seq sk + 1" "sk_seq (push_append a b c n q sk) = sk_seq sk"
  "sk_seq (push a b c n sk) = sk_seq sk + 1" "sk_seq sk \<le> sk_seq (push_egress ev n sk)"
  by (simp_all add: push_take_def push_append_def push_def push_egress_def Let_def split: option.split)

lemma sink_inv_push:
  assumes "sink_inv F sk"
  shows "sink_inv F (push server stream tx now sk)"
proof -
  have i: "sink_inv (insert (sk_seq sk + 1) F) (snd (push_take sk))" using sink_inv_take[OF assms] by (simp add: push_take_def)
  have n: "sk_seq sk + 1 \<notin> F" using assms by (auto simp: sink_inv_def)
  show ?thesis
    using sink_inv_append[OF i, of "sk_seq sk + 1" server stream tx now] n by (simp add: push_def push_take_def Let_def)
qed

lemma remove_nth_flight:
  assumes "i < length xs" and "distinct (map f xs)"
  shows "set (map f (remove_nth i xs)) = set (map f xs) - {f (xs ! i)}"
proof -
  have e: "xs = take i xs @ xs ! i # drop (Suc i) xs" by (rule id_take_nth_drop[OF assms(1)])
  then have "distinct (map f (take i xs @ xs ! i # drop (Suc i) xs))" using assms(2) by simp
  then show ?thesis by (subst (2) e) (auto simp: remove_nth_def)
qed

lemma poll_cursor:
  fixes p :: pipe and pid :: string and render :: "egress_event \<Rightarrow> string" and now :: nat
  defines "ls \<equiv> polled render now pid p"
  shows "eff_cursor pid (pipe_step tj fj render pid (PPoll wr saved now) p) =
     (if ls \<noteq> [] \<and> fst (log_append tj fj wr pid ls (sh_store (pp_ship p))) then Max (set (map ll_seq ls)) else eff_cursor pid p)"
proof -
  obtain reset where f: "ship_fetch (agent_fetch render now (pp_sink p)) (agent_fetch render now (pp_sink p)) pid (pp_ship p)
      = Some (sk_boot_id (pp_sink p), ls, reset)" and r: "reset \<longrightarrow> eff_cursor pid p = 0"
    using ship_fetch_agent[of render now p pid] unfolding ls_def polled_eq by blast
  let ?p = "pipe_step tj fj render pid (PPoll wr saved now) p" and ?ok = "fst (log_append tj fj wr pid ls (sh_store (pp_ship p)))"
  have sk: "pp_sink ?p = pp_sink p" by (simp add: Let_def)
  have cur: "map_of (sh_cursors (pp_ship ?p)) pid =
      (if ls \<noteq> [] \<and> ?ok then Some \<lparr>cu_boot_id = sk_boot_id (pp_sink p), cu_seq = Max (set (map ll_seq ls))\<rparr>
       else if ls = [] \<and> reset then Some \<lparr>cu_boot_id = sk_boot_id (pp_sink p), cu_seq = 0\<rparr>
       else map_of (sh_cursors (pp_ship p)) pid)"
    by (simp add: ship_def f update_cursor_def Let_def split_beta)
  show ?thesis
    unfolding eff_cursor_def cur sk using r[unfolded eff_cursor_def] by auto
qed

lemma log_append_nil: "log_append tj fj wr pid [] st = (True, st)"
  by (simp add: log_append_def)

lemma poll_sent:
  fixes render :: "egress_event \<Rightarrow> string" and now :: nat and tj :: "log_line \<Rightarrow> string"
    and fj :: "string \<Rightarrow> log_line option" and wr :: "string \<Rightarrow> bool" and saved :: bool
  assumes i: "pipe_inv pid p"
  defines "ls \<equiv> polled render now pid p" and "p' \<equiv> pipe_step tj fj render pid (PPoll wr saved now) p"
  shows "pipe_inv pid p'"
    and "set ls = {l \<in> set (sink_lines render now (pp_sink p)). eff_cursor pid p < ll_seq l}"
proof -
  have s: "sink_inv (flight_seqs p) (pp_sink p)" using i by (simp add: pipe_inv_def)
  show m: "set ls = {l \<in> set (sink_lines render now (pp_sink p)). eff_cursor pid p < ll_seq l}"
    unfolding ls_def polled_eq by (rule get_logs_since_spec(1)[OF s])
  have o: "seq_sorted ls" unfolding ls_def polled_eq seq_sorted_def by (rule get_logs_since_spec(2)[OF s])
  have b: "ll_seq l \<le> sk_seq (pp_sink p)" if "l \<in> set ls" for l
  proof -
    have "ll_seq l \<in> set (sink_seqs (pp_sink p))" using that m map_seq_sink_lines[of render now "pp_sink p"]
      by (metis (no_types, lifting) imageI list.set_map mem_Collect_eq)
    then show ?thesis using s by (auto simp: sink_inv_def)
  qed
  have c: "eff_cursor pid p' = (if ls \<noteq> [] \<and> fst (log_append tj fj wr pid ls (sh_store (pp_ship p))) then Max (set (map ll_seq ls)) else eff_cursor pid p)"
    unfolding p'_def ls_def by (rule poll_cursor)
  have e: "pp_sink p' = pp_sink p" "pp_flight p' = pp_flight p"
    "pp_sent p' = (if fst (log_append tj fj wr pid ls (sh_store (pp_ship p))) then pp_sent p @ ls else pp_sent p)"
    by (simp_all add: p'_def ls_def Let_def)
  show "pipe_inv pid p'"
  proof (cases "ls \<noteq> [] \<and> fst (log_append tj fj wr pid ls (sh_store (pp_ship p)))")
    case True
    have mx: "Max (set (map ll_seq ls)) \<in> ll_seq ` set ls" using True Max_in[of "set (map ll_seq ls)"] by simp
    have up: "\<forall>l \<in> set ls. ll_seq l \<le> Max (set (map ll_seq ls))" by simp
    have lo: "\<forall>l \<in> set ls. eff_cursor pid p < ll_seq l" using m by blast
    have em: "eff_cursor pid p < Max (set (map ll_seq ls))" using mx lo by auto
    have sent: "\<forall>l \<in> set (pp_sent p). ll_seq l \<le> eff_cursor pid p" "seq_sorted (pp_sent p)" using i by (simp_all add: pipe_inv_def)
    have "seq_sorted (pp_sent p @ ls)" using sent lo o unfolding seq_sorted_append by (meson le_less_trans)
    moreover have "\<forall>l \<in> set (pp_sent p @ ls). ll_seq l \<le> Max (set (map ll_seq ls))"
      using sent(1) up em by (metis Un_iff set_append le_trans less_imp_le)
    moreover have "Max (set (map ll_seq ls)) \<le> sk_seq (pp_sink p)" using mx b by auto
    ultimately show ?thesis using i True by (simp add: pipe_inv_def c e flight_seqs_def)
  next
    case False
    then have "pp_sent p' = pp_sent p" using e(3) by (auto simp: log_append_nil)
    moreover have "eff_cursor pid p' = eff_cursor pid p" unfolding c using False by auto
    ultimately show ?thesis using i by (simp add: pipe_inv_def e(1,2) flight_seqs_def)
  qed
qed

lemma eff_cursor_sink:
  "sk_boot_id sk = sk_boot_id (pp_sink p) \<Longrightarrow> eff_cursor pid (p\<lparr>pp_sink := sk\<rparr>) = eff_cursor pid p"
  "sk_boot_id sk = sk_boot_id (pp_sink p) \<Longrightarrow> eff_cursor pid (p\<lparr>pp_sink := sk, pp_flight := fl\<rparr>) = eff_cursor pid p"
  by (simp_all add: eff_cursor_def split: option.split)

lemma pipe_inv_step: "pipe_inv pid p \<Longrightarrow> pipe_inv pid (pipe_step tj fj render pid e p)"
proof (cases e)
  case (PTake server stream t)
  assume i: "pipe_inv pid p"
  have "sk_seq (pp_sink p) + 1 \<notin> flight_seqs p" using i by (auto simp: pipe_inv_def sink_inv_def)
  then show ?thesis
    using i sink_inv_take[of "flight_seqs p" "pp_sink p"] sink_seq_mono(1)[of "pp_sink p"]
    by (simp add: PTake pipe_inv_def split_beta eff_cursor_sink flight_seqs_def Let_def) (simp add: push_take_def)
next
  case (PFinish j now)
  assume i: "pipe_inv pid p"
  show ?thesis
  proof (cases "j < length (pp_flight p)")
    case True
    obtain sq server stream t where q: "pp_flight p ! j = (sq, server, stream, t)" by (cases "pp_flight p ! j")
    have d: "distinct (map fst (pp_flight p))" using i by (simp add: pipe_inv_def)
    have s: "set (map fst (remove_nth j (pp_flight p))) = flight_seqs p - {sq}"
      using remove_nth_flight[OF True d] q by (simp add: flight_seqs_def)
    have m: "sq \<in> flight_seqs p" using True q nth_mem[OF True] by (force simp: flight_seqs_def)
    show ?thesis
      using i sink_inv_append[OF _ m, of "pp_sink p" server stream t now] distinct_remove_nth[OF d, of j] s
      by (simp add: PFinish True q pipe_inv_def eff_cursor_sink flight_seqs_def sink_seq_mono map_remove_nth)
  qed (use i in \<open>simp add: PFinish\<close>)
next
  case (PPush server stream t now)
  assume i: "pipe_inv pid p"
  then show ?thesis
    using sink_inv_push[of "flight_seqs p" "pp_sink p" server stream t now]
    by (simp add: PPush pipe_inv_def eff_cursor_sink flight_seqs_def sink_seq_mono)
next
  case (PEgress ev now)
  assume i: "pipe_inv pid p"
  then show ?thesis
    using sink_inv_push_egress[of "flight_seqs p" "pp_sink p" ev now] sink_seq_mono(4)[of "pp_sink p" ev now]
    by (simp add: PEgress pipe_inv_def eff_cursor_sink flight_seqs_def)
next
  case (PPoll wr saved now)
  assume "pipe_inv pid p"
  then show ?thesis unfolding PPoll by (rule poll_sent(1))
qed simp

lemma pipe_inv_run: "pipe_inv pid p \<Longrightarrow> pipe_inv pid (pipe_run tj fj render pid evs p)"
  by (induction evs arbitrary: p) (auto simp: pipe_run_def pipe_inv_step)

definition fresh_boot :: "string \<Rightarrow> string \<Rightarrow> log_shipper \<Rightarrow> bool" where
  "fresh_boot pid boot sh \<longleftrightarrow> (case map_of (sh_cursors sh) pid of Some c \<Rightarrow> cu_boot_id c \<noteq> boot | None \<Rightarrow> True)"

lemma pipe_inv_new: "fresh_boot pid boot sh \<Longrightarrow> pipe_inv pid (pipe_new boot sh)"
  using sink_inv_new[of boot]
  by (auto simp: pipe_inv_def pipe_new_def flight_seqs_def eff_cursor_def fresh_boot_def seq_sorted_def log_sink_new_def split: option.splits)

section \<open>Nothing is missed when pushes do not overlap a poll\<close>










section \<open>A late line is lost\<close>

definition lost_seq :: "string \<Rightarrow> nat \<Rightarrow> pipe \<Rightarrow> bool" where
  "lost_seq pid sq p \<longleftrightarrow> sq \<le> eff_cursor pid p \<and> sq \<notin> ll_seq ` set (pp_sent p)"

lemma lost_seq_step:
  assumes i: "pipe_inv pid p" and l: "lost_seq pid sq p"
  shows "lost_seq pid sq (pipe_step tj fj render pid e p)"
proof (cases e)
  case (PPoll wr saved now)
  let ?p = "pipe_step tj fj render pid (PPoll wr saved now) p" and ?ls = "polled render now pid p"
  have lo: "\<forall>l \<in> set ?ls. eff_cursor pid p < ll_seq l" using poll_sent(2)[OF i, of render now] by blast
  have "eff_cursor pid p < Max (set (map ll_seq ?ls))" if "?ls \<noteq> []"
    using lo that list.set_intros(1)[of "hd ?ls" "tl ?ls"] by (simp add: Max_gr_iff) (use lo hd_in_set[OF that] in blast)
  then have "eff_cursor pid p \<le> eff_cursor pid ?p" unfolding poll_cursor by (simp add: less_imp_le)
  moreover have "sq \<notin> ll_seq ` set (pp_sent ?p)"
  proof
    assume "sq \<in> ll_seq ` set (pp_sent ?p)"
    then obtain m where m: "m \<in> set (pp_sent ?p)" "sq = ll_seq m" by blast
    have "set (pp_sent ?p) \<subseteq> set (pp_sent p) \<union> set ?ls" by (simp add: Let_def)
    then consider "m \<in> set (pp_sent p)" | "m \<in> set ?ls" using m(1) by blast
    then show False using m(2) l lo by cases (auto simp: lost_seq_def dest!: bspec)
  qed
  ultimately show ?thesis using l unfolding PPoll lost_seq_def by (blast intro: order_trans)
qed (use l in \<open>auto simp: lost_seq_def eff_cursor_def push_take_def Let_def split: option.split prod.split\<close>)

lemma lost_seq_run: "pipe_inv pid p \<Longrightarrow> lost_seq pid sq p \<Longrightarrow> lost_seq pid sq (pipe_run tj fj render pid evs p)"
  by (induction evs arbitrary: p) (auto simp: pipe_run_def pipe_inv_step lost_seq_step)

section \<open>What the store holds of it\<close>












section \<open>Properties\<close>










definition demo_shipper :: log_shipper where
  "demo_shipper = log_shipper_new (log_store_new []) [(''shop'', \<lparr>cu_boot_id = ''boot0'', cu_seq = 9\<rparr>)]"

definition demo_pipe :: "pipe_event list \<Rightarrow> pipe" where
  "demo_pipe evs = pipe_run demo_to_json demo_from_json (\<lambda>_. ''{}'') ''shop'' evs (pipe_new ''boot1'' demo_shipper)"

lemma demo_fresh: "fresh_boot ''shop'' ''boot1'' demo_shipper"
  by (simp add: fresh_boot_def demo_shipper_def log_shipper_new_def)

lemma append_true_ok: "fst (log_append tj fj (\<lambda>_. True) pid ls st)"
  using log_append_ok[of ls tj fj pid st] by (cases "ls = []") (auto simp: log_append_nil)


text \<open>
  C37. A line whose number was taken before a poll and that is appended after it is lost. \<open>push\<close> takes
  the number first and the buffer's lock second; when a poll in between ships a line with a higher
  number, the host's cursor is past the late line, and no later poll of that boot ever ships it.
\<close>

theorem late_line_is_never_shipped:
  assumes "fresh_boot pid boot sh" and "p = pipe_run tj fj render pid evs (pipe_new boot sh)"
    and "sq \<le> eff_cursor pid p" and "sq \<notin> ll_seq ` set (pp_sent p)"
  shows "sq \<notin> ll_seq ` set (pp_sent (pipe_run tj fj render pid evs' p))"
proof -
  have "pipe_inv pid p" unfolding assms(2) by (rule pipe_inv_run[OF pipe_inv_new[OF assms(1)]])
  then show ?thesis using lost_seq_run[of pid p sq] assms(3,4) by (simp add: lost_seq_def)
qed

definition late_events :: "pipe_event list" where
  "late_events = [PTake ''web'' ''stdout'' ''a'', PPush ''web'' ''stdout'' ''b'' 1, PPoll (\<lambda>_. True) True 2, PFinish 0 3]"

lemma demo_late:
  "sk_buffer (pp_sink (demo_pipe late_events)) =
     [\<lparr>ll_server = ''web'', ll_stream = ''stdout'', ll_line = ''b'', ll_timestamp = 1, ll_seq = 2\<rparr>,
      \<lparr>ll_server = ''web'', ll_stream = ''stdout'', ll_line = ''a'', ll_timestamp = 3, ll_seq = 1\<rparr>]
   \<and> eff_cursor ''shop'' (demo_pipe late_events) = 2
   \<and> pp_sent (demo_pipe late_events) = [\<lparr>ll_server = ''web'', ll_stream = ''stdout'', ll_line = ''b'', ll_timestamp = 1, ll_seq = 2\<rparr>]"
proof -
  define p where "p = demo_pipe [PTake ''web'' ''stdout'' ''a'', PPush ''web'' ''stdout'' ''b'' 1]"
  let ?b = "\<lparr>ll_server = ''web'', ll_stream = ''stdout'', ll_line = ''b'', ll_timestamp = 1, ll_seq = 2\<rparr>"
  have p: "sk_buffer (pp_sink p) = [?b]" "pp_sent p = []" "pp_flight p = [(1, ''web'', ''stdout'', ''a'')]"
    "eff_cursor ''shop'' p = 0" "sk_egress (pp_sink p) = \<lparr>eb_ring = [], eb_dropped = 0, eb_dropped_seq = 0\<rparr>"
    by (simp_all add: p_def demo_pipe_def pipe_run_def pipe_new_def push_take_def push_def push_append_def log_sink_new_def
        MAX_LOG_LINES_def eff_cursor_def demo_shipper_def log_shipper_new_def Let_def)
  have l: "polled (\<lambda>_. ''{}'') 2 ''shop'' p = [?b]"
    by (simp add: polled_eq p get_logs_since_def egress_lines_def)
  define q where "q = pipe_step demo_to_json demo_from_json (\<lambda>_. ''{}'') ''shop'' (PPoll (\<lambda>_. True) True 2) p"
  have q: "eff_cursor ''shop'' q = 2" "pp_sent q = [?b]" "pp_sink q = pp_sink p" "pp_flight q = pp_flight p"
    unfolding q_def poll_cursor l using append_true_ok by (simp_all add: l p Let_def)
  have "demo_pipe late_events = pipe_step demo_to_json demo_from_json (\<lambda>_. ''{}'') ''shop'' (PFinish 0 3) q"
    by (simp only: late_events_def q_def p_def demo_pipe_def pipe_run_def fold_simps comp_apply id_apply)
  then show ?thesis
    using q(1) by (simp add: q(2-) p push_append_def MAX_LOG_LINES_def eff_cursor_sink)
qed

theorem late_line_is_never_shipped_witness:
  "1 \<notin> ll_seq ` set (pp_sent (demo_pipe (late_events @ [PPush ''web'' ''stdout'' ''c'' 4, PPoll (\<lambda>_. True) True 5])))"
proof -
  have "pipe_run demo_to_json demo_from_json (\<lambda>_. ''{}'') ''shop'' evs (demo_pipe late_events) = demo_pipe (late_events @ evs)" for evs
    by (simp add: demo_pipe_def pipe_run_def)
  then show ?thesis
    using late_line_is_never_shipped[OF demo_fresh demo_pipe_def[of late_events], of 1] demo_late by simp
qed

text \<open>
  An append that fails between its two files is retried in full: the application lines that are already
  on disk are written again.
\<close>

lemma failed_append_keeps_cursor:
  "\<not> fst (log_append tj fj wr pid (polled render now pid p) (sh_store (pp_ship p))) \<Longrightarrow>
    eff_cursor pid (pipe_step tj fj render pid (PPoll wr saved now) p) = eff_cursor pid p
    \<and> polled render now pid (pipe_step tj fj render pid (PPoll wr saved now) p) = polled render now pid p"
  unfolding polled_eq[of render now pid "pipe_step tj fj render pid (PPoll wr saved now) p"] poll_cursor
  by (simp add: polled_eq Let_def)

end
