(* ===== verification/Domain_Name.thy ===== *)
theory Domain_Name
  imports Rust_Str
begin

text \<open>
  Names under which tenants are reached: the canonical host key (\<open>jkbase-common/src/routing.rs\<close>),
  which names a tenant may register (\<open>jkbase-control/src/domain_name.rs\<close>, \<open>DomainKind\<close> of
  \<open>store.rs\<close>), and how the proxy maps a request's \<open>Host\<close> to a registered key
  (\<open>jkbase-proxy/src/lib.rs\<close>: the routing part of \<open>proxy_request\<close>). The error texts of the
  validators are the constructors of \<open>name_error\<close>; a domain map is a list of bindings.
\<close>

section \<open>Host keys\<close>

definition WILDCARD_PREFIX :: string where "WILDCARD_PREFIX = ''*.''"

definition normalize_host :: "string \<Rightarrow> string" where
  "normalize_host host =
     (let h = (case strip_suffix ''.'' host of Some s \<Rightarrow> s | None \<Rightarrow> host) in to_ascii_lowercase h)"

definition wildcard_key :: "string \<Rightarrow> string option" where
  "wildcard_key host =
     (case split_once (CHR ''.'') host of
        None \<Rightarrow> None
      | Some (label, rest) \<Rightarrow>
          (if label = [] \<or> label = ''*'' \<or> rest = [] \<or> starts_with ''.'' rest then None
           else if CHR ''.'' \<notin> set rest then None
           else Some (WILDCARD_PREFIX @ rest)))"

definition is_wildcard_key :: "string \<Rightarrow> bool" where
  "is_wildcard_key key = starts_with WILDCARD_PREFIX key"

section \<open>Accepting a name\<close>

definition CCTLD_GENERIC_SLDS :: "string list" where
  "CCTLD_GENERIC_SLDS =
     [''ac'', ''co'', ''com'', ''edu'', ''gov'', ''govt'', ''gv'', ''ltd'', ''me'', ''mil'', ''ne'', ''net'', ''nhs'',
      ''nic'', ''nom'', ''or'', ''org'', ''plc'', ''police'', ''sch'']"

definition SHARED_HOSTING_SUFFIXES :: "string list" where
  "SHARED_HOSTING_SUFFIXES =
     [''appspot.com'', ''azurewebsites.net'', ''blogspot.com'', ''cloudfront.net'', ''firebaseapp.com'', ''fly.dev'',
      ''github.io'', ''gitlab.io'', ''herokuapp.com'', ''netlify.app'', ''onrender.com'', ''pages.dev'', ''vercel.app'',
      ''web.app'', ''workers.dev'']"

datatype domain_kind = Subdomain | Custom | Wildcard | UnknownKind

datatype name_error =
    EmptyDomain | StarInside | PlatformApex | NestedPlatform | BadLabel | WildcardNoBase | WildcardTwoStars
  | WildcardOnPlatform | WildcardOverPlatform | WildcardFewLabels | RegistrySuffix | HostingSuffix | WildcardTooLong
  | DomainTooLong | NotQualified | BadHostname | BadTld

definition is_ascii_lowercase :: "char \<Rightarrow> bool" where
  "is_ascii_lowercase c \<longleftrightarrow> (of_char c :: nat) \<in> {97..122}"

definition ldh_char :: "char \<Rightarrow> bool" where
  "ldh_char c \<longleftrightarrow> is_ascii_lowercase c \<or> is_ascii_digit c \<or> c = CHR ''-''"

definition validate_platform_label :: "string \<Rightarrow> name_error + unit" where
  "validate_platform_label label =
     (if label \<noteq> [] \<and> length label \<le> 63 \<and> list_all ldh_char label then Inr () else Inl BadLabel)"

definition hostname_label_ok :: "string \<Rightarrow> bool" where
  "hostname_label_ok label \<longleftrightarrow>
     label \<noteq> [] \<and> length label \<le> 63 \<and> \<not> starts_with ''-'' label \<and> \<not> ends_with ''-'' label \<and> list_all ldh_char label"

definition validate_hostname :: "string \<Rightarrow> name_error + unit" where
  "validate_hostname name =
     (if length name > 253 then Inl DomainTooLong
      else let labels = split_char (CHR ''.'') name
      in if length labels < 2 then Inl NotQualified
      else if \<not> list_all hostname_label_ok labels then Inl BadHostname
      else let tld = last labels
      in if \<not> (starts_with ''xn--'' tld \<or> list_all is_ascii_lowercase tld) then Inl BadTld
      else Inr ())"

definition validate_wildcard_base :: "string \<Rightarrow> string \<Rightarrow> name_error + unit" where
  "validate_wildcard_base base platform_domain =
     (if base = [] then Inl WildcardNoBase
      else if CHR ''*'' \<in> set base then Inl WildcardTwoStars
      else if base = platform_domain \<or> ends_with (''.'' @ platform_domain) base then Inl WildcardOnPlatform
      else if ends_with (''.'' @ base) platform_domain then Inl WildcardOverPlatform
      else (case validate_hostname base of
        Inl e \<Rightarrow> Inl e
      | Inr _ \<Rightarrow>
          (let labels = split_char (CHR ''.'') base
           in if length labels < 2 then Inl WildcardFewLabels
              else let tld = last labels
              in if length labels = 2 \<and> length tld = 2 \<and> hd labels \<in> set CCTLD_GENERIC_SLDS then Inl RegistrySuffix
              else if base \<in> set SHARED_HOSTING_SUFFIXES then Inl HostingSuffix
              else if length base > 253 - 2 then Inl WildcardTooLong
              else Inr ())))"

definition derive_host_key :: "string \<Rightarrow> string \<Rightarrow> name_error + string \<times> domain_kind" where
  "derive_host_key input platform_domain =
     (let d = to_ascii_lowercase (trim_end_char (CHR ''.'') (str_trim input))
      in if d = [] then Inl EmptyDomain
      else case strip_prefix WILDCARD_PREFIX d of
        Some base \<Rightarrow>
          (case validate_wildcard_base base platform_domain of Inl e \<Rightarrow> Inl e | Inr _ \<Rightarrow> Inr (d, Wildcard))
      | None \<Rightarrow>
          (if CHR ''*'' \<in> set d then Inl StarInside
           else if d = platform_domain then Inl PlatformApex
           else case strip_suffix (''.'' @ platform_domain) d of
             Some label \<Rightarrow>
               (if label = [] \<or> CHR ''.'' \<in> set label then Inl NestedPlatform
                else case validate_platform_label label of Inl e \<Rightarrow> Inl e | Inr _ \<Rightarrow> Inr (label, Subdomain))
           | None \<Rightarrow>
               (if CHR ''.'' \<in> set d
                then (case validate_hostname d of Inl e \<Rightarrow> Inl e | Inr _ \<Rightarrow> Inr (d, Custom))
                else (case validate_platform_label d of Inl e \<Rightarrow> Inl e | Inr _ \<Rightarrow> Inr (d, Subdomain)))))"

section \<open>Routing a request\<close>

definition request_hostname :: "string \<Rightarrow> string" where
  "request_hostname host_header = normalize_host (hd (split_char (CHR '':'') host_header))"

definition is_platform_host :: "string \<Rightarrow> string \<Rightarrow> bool" where
  "is_platform_host hostname platform_domain \<longleftrightarrow>
     hostname = platform_domain \<or> ends_with (''.'' @ platform_domain) hostname"

definition extract_subdomain :: "string \<Rightarrow> string \<Rightarrow> string option" where
  "extract_subdomain hostname platform_domain =
     (case strip_suffix (''.'' @ platform_domain) hostname of
        Some subdomain \<Rightarrow> Some subdomain
      | None \<Rightarrow> (if hostname = platform_domain then None else Some hostname))"

record domain_target =
  dt_project_id :: string
  dt_site :: "string option"
  dt_acme_delegation :: "string option"

type_synonym domain_map = "(string, domain_target) hmap"

definition resolve_domain :: "domain_map \<Rightarrow> string \<Rightarrow> bool \<Rightarrow> (string \<times> domain_target) option" where
  "resolve_domain dm host_key on_platform =
     (if CHR ''*'' \<in> set host_key then None
      else case map_of dm host_key of
        Some t \<Rightarrow> Some (host_key, t)
      | None \<Rightarrow>
          (if on_platform then None
           else case wildcard_key host_key of
                  None \<Rightarrow> None
                | Some key \<Rightarrow> map_option (\<lambda>t. (key, t)) (map_of dm key)))"

text \<open>Where \<open>proxy_request\<close> sends a request; the three infrastructure services may be absent.\<close>

datatype route = ToApi | ToStorage | ToAuth | ToTenant string domain_target | NotFound string

record edge_config =
  ed_domain :: string
  ed_api :: bool
  ed_storage :: bool
  ed_auth :: bool
  ed_domains :: "domain_map option"

definition route_request :: "edge_config \<Rightarrow> string \<Rightarrow> route" where
  "route_request cfg host =
     (let hostname = request_hostname host;
          subdomain = extract_subdomain hostname (ed_domain cfg)
      in if subdomain = Some ''api'' \<and> ed_api cfg then ToApi
      else if subdomain = Some ''storage'' \<and> ed_storage cfg then ToStorage
      else if subdomain = Some ''auth'' \<and> ed_auth cfg then ToAuth
      else
        let host_key = (case subdomain of None \<Rightarrow> ''www'' | Some s \<Rightarrow> s);
            on_platform = is_platform_host hostname (ed_domain cfg)
        in case (case ed_domains cfg of Some dm \<Rightarrow> resolve_domain dm host_key on_platform | None \<Rightarrow> None) of
             None \<Rightarrow> NotFound host_key
           | Some (key, target) \<Rightarrow> ToTenant key target)"

section \<open>Accepted names\<close>

definition dns_name :: "string \<Rightarrow> bool" where
  "dns_name name \<longleftrightarrow>
     length name \<le> 253 \<and> CHR ''.'' \<in> set name \<and> list_all (\<lambda>c. ldh_char c \<or> c = CHR ''.'') name
     \<and> list_all (\<lambda>l. l \<noteq> [] \<and> length l \<le> 63) (split_char (CHR ''.'') name)"

lemma set_split_char: "x \<in> set s \<Longrightarrow> x = c \<or> (\<exists>p \<in> set (split_char c s). x \<in> set p)"
proof (induction s)
  case (Cons y s)
  then show ?case using split_char_not_Nil[of c s] by (cases "split_char c s") auto
qed simp

lemma split_char_single: "length (split_char c s) < 2 \<longleftrightarrow> c \<notin> set s"
proof
  assume l: "length (split_char c s) < 2"
  show "c \<notin> set s"
  proof
    assume "c \<in> set s"
    then obtain a b where "s = a @ c # b" by (meson split_list)
    then have "length (split_char c s) = length (split_char c a) + length (split_char c b)" by (simp add: split_char_join)
    then show False using l split_char_not_Nil[of c a] split_char_not_Nil[of c b]
      by (metis One_nat_def Suc_leI add_mono length_greater_0_conv linorder_not_less one_add_one)
  qed
qed (simp add: split_char_none)

lemma validate_hostname_ok: "validate_hostname name = Inr u \<Longrightarrow> dns_name name"
  using split_char_single[of "CHR ''.''" name] set_split_char[of _ name "CHR ''.''"]
  by (auto simp: validate_hostname_def dns_name_def hostname_label_ok_def Let_def list_all_iff split: if_splits)

lemma ldh_not: "\<not> ldh_char (CHR ''.'')" "\<not> ldh_char (CHR ''*'')" "\<not> ldh_char (CHR ''/'')"
  by (simp_all add: ldh_char_def is_ascii_lowercase_def is_ascii_digit_def)

definition safe_key :: "string \<Rightarrow> string \<Rightarrow> domain_kind \<Rightarrow> bool" where
  "safe_key platform key kind \<longleftrightarrow>
     (case kind of
        Subdomain \<Rightarrow> key \<noteq> [] \<and> length key \<le> 63 \<and> list_all ldh_char key
      | Custom \<Rightarrow> dns_name key \<and> \<not> is_platform_host key platform
      | Wildcard \<Rightarrow> (\<exists>base. key = WILDCARD_PREFIX @ base \<and> dns_name base \<and> \<not> is_platform_host base platform \<and> \<not> ends_with (''.'' @ base) platform)
      | UnknownKind \<Rightarrow> False)"

lemma validate_wildcard_base_ok:
  "validate_wildcard_base base platform = Inr u \<Longrightarrow>
     dns_name base \<and> \<not> is_platform_host base platform \<and> \<not> ends_with (''.'' @ base) platform"
  by (auto simp: validate_wildcard_base_def is_platform_host_def Let_def dest: validate_hostname_ok split: if_splits sum.splits)

lemma strip_suffix_None_iff: "strip_suffix p s = None \<longleftrightarrow> \<not> ends_with p s"
  by (simp add: ends_with_def)

lemma derive_host_key_safe:
  assumes "derive_host_key input platform = Inr (key, kind)"
  shows "safe_key platform key kind"
proof -
  define d where "d = to_ascii_lowercase (trim_end_char (CHR ''.'') (str_trim input))"
  note e = assms[unfolded derive_host_key_def Let_def, folded d_def]
  have d: "d \<noteq> []" using e by auto
  show ?thesis
  proof (cases "strip_prefix WILDCARD_PREFIX d")
    case (Some base)
    obtain u where v: "validate_wildcard_base base platform = Inr u" and k: "key = d" "kind = Wildcard"
      using e d Some by (auto split: sum.splits)
    have "d = WILDCARD_PREFIX @ base" using Some by (simp add: strip_prefix_Some_iff)
    then show ?thesis using validate_wildcard_base_ok[OF v] k by (auto simp: safe_key_def)
  next
    case None
    then show ?thesis
      using e d
      by (auto simp: safe_key_def validate_platform_label_def is_platform_host_def strip_suffix_None_iff dest: validate_hostname_ok
          split: if_splits option.splits sum.splits)
  qed
qed

lemma key_kind_unique:
  assumes "safe_key p k a" and "safe_key p k b"
  shows "a = b"
proof -
  have s: "CHR ''.'' \<notin> set k" if "safe_key p k Subdomain" using that ldh_not(1) by (auto simp: safe_key_def list_all_iff)
  have c: "CHR ''.'' \<in> set k \<and> CHR ''*'' \<notin> set k" if "safe_key p k Custom"
    using that ldh_not(2) by (auto simp: safe_key_def dns_name_def list_all_iff)
  have w: "CHR ''.'' \<in> set k \<and> CHR ''*'' \<in> set k" if "safe_key p k Wildcard"
    using that by (auto simp: safe_key_def WILDCARD_PREFIX_def)
  have u: "\<not> safe_key p k UnknownKind" by (simp add: safe_key_def)
  show ?thesis using assms s c w u by (cases a; cases b) auto
qed

lemma label_suffix:
  assumes "ends_with (''.'' @ p) (l @ CHR ''.'' # b)" and "CHR ''.'' \<notin> set l"
  shows "b = p \<or> ends_with (''.'' @ p) b \<or> ends_with (''.'' @ b) p"
proof -
  obtain x where "l @ CHR ''.'' # b = x @ CHR ''.'' # p" using assms(1) by (auto simp: ends_with_iff)
  then consider y where "l = x @ y" "y @ CHR ''.'' # b = CHR ''.'' # p" | y where "x = l @ y" "CHR ''.'' # b = y @ CHR ''.'' # p"
    by (auto simp: append_eq_append_conv2)
  then show ?thesis
  proof cases
    case (1 y)
    then show ?thesis using assms(2) by (cases y) auto
  next
    case (2 y)
    then show ?thesis by (cases y) (auto simp: ends_with_iff)
  qed
qed

lemma wildcard_key_Some:
  "wildcard_key host = Some key \<longleftrightarrow>
     (\<exists>label base. host = label @ CHR ''.'' # base \<and> CHR ''.'' \<notin> set label \<and> label \<noteq> [] \<and> label \<noteq> ''*'' \<and> base \<noteq> []
        \<and> \<not> starts_with ''.'' base \<and> CHR ''.'' \<in> set base \<and> key = WILDCARD_PREFIX @ base)"
proof (cases "split_once (CHR ''.'') host")
  case None
  then have "CHR ''.'' \<notin> set host" by (simp add: split_once_None_iff)
  then show ?thesis using None by (auto simp: wildcard_key_def)
next
  case (Some q)
  obtain l r where q: "q = (l, r)" by (cases q)
  have u: "host = label @ CHR ''.'' # base \<and> CHR ''.'' \<notin> set label \<longleftrightarrow> label = l \<and> base = r" for label base
    using split_once_Some_iff[of "CHR ''.''" host label base] Some q by auto
  have "wildcard_key host = Some key \<longleftrightarrow> l \<noteq> [] \<and> l \<noteq> ''*'' \<and> r \<noteq> [] \<and> \<not> starts_with ''.'' r \<and> CHR ''.'' \<in> set r \<and> key = WILDCARD_PREFIX @ r"
    by (auto simp: wildcard_key_def Some q)
  then show ?thesis using u by metis
qed

lemma wildcard_off_platform:
  assumes "safe_key p key Wildcard" and "wildcard_key host = Some key"
  shows "\<not> is_platform_host host p"
proof -
  obtain label base where h: "host = label @ CHR ''.'' # base" "CHR ''.'' \<notin> set label" "key = WILDCARD_PREFIX @ base"
    using assms(2) unfolding wildcard_key_Some by blast
  have b: "\<not> is_platform_host base p" "\<not> ends_with (''.'' @ base) p"
    using assms(1) h(3) by (auto simp: safe_key_def)
  have "host \<noteq> p" using b(2) h(1) by (auto simp: ends_with_iff)
  then show ?thesis using b label_suffix[of p label base] h(1,2) by (auto simp: is_platform_host_def)
qed

section \<open>Which names are accepted, and what they route\<close>

text \<open>
  What the registry accepts is safe to route. Whatever a tenant types, a name that
  \<open>derive_host_key\<close> accepts yields a key of one of three disjoint shapes: a platform label (no dot,
  letters, digits and dashes, at most 63 characters), a custom host that is a well-formed DNS name
  outside the platform's domain, or a wildcard whose base is such a name and neither lies in the
  platform's domain nor contains it. The shape determines the kind, so no two inputs give one key
  with two kinds; and no wildcard key is looked up for any host of the platform.
\<close>

theorem accepted_names_are_safe:
  assumes "derive_host_key input platform = Inr (key, kind)"
  shows "safe_key platform key kind
    \<and> (\<forall>input' kind'. derive_host_key input' platform = Inr (key, kind') \<longrightarrow> kind' = kind)
    \<and> (\<forall>host. kind = Wildcard \<longrightarrow> wildcard_key host = Some key \<longrightarrow> \<not> is_platform_host host platform)"
  using derive_host_key_safe[OF assms] derive_host_key_safe key_kind_unique wildcard_off_platform by blast

theorem accepted_names_are_safe_witness:
  "derive_host_key ''*.Shop.Example.com.'' ''jk.dev'' = Inr (''*.shop.example.com'', Wildcard)
   \<and> \<not> is_platform_host ''a.shop.example.com'' ''jk.dev''"
proof -
  have d: "derive_host_key ''*.Shop.Example.com.'' ''jk.dev'' = Inr (''*.shop.example.com'', Wildcard)" by code_simp
  have w: "wildcard_key ''a.shop.example.com'' = Some ''*.shop.example.com''" by code_simp
  show ?thesis using accepted_names_are_safe[OF d] d w by blast
qed

lemma resolve_domain_Some:
  assumes "resolve_domain dm h on = Some (k, t)"
  shows "map_of dm k = Some t \<and> CHR ''*'' \<notin> set h
    \<and> (k = h \<or> \<not> on \<and> map_of dm h = None \<and> wildcard_key h = Some k)"
  using assms by (auto simp: resolve_domain_def split: if_splits option.splits)

lemma is_wildcard_key_star: "is_wildcard_key k \<Longrightarrow> CHR ''*'' \<in> set k"
  by (auto simp: is_wildcard_key_def starts_with_iff WILDCARD_PREFIX_def)

lemma extract_subdomain_off: "\<not> is_platform_host h p \<Longrightarrow> extract_subdomain h p = Some h"
  by (auto simp: extract_subdomain_def is_platform_host_def ends_with_def)

lemma extract_subdomain_on:
  "is_platform_host h p \<Longrightarrow> (extract_subdomain h p = None \<and> h = p) \<or> (\<exists>s. extract_subdomain h p = Some s \<and> h = s @ ''.'' @ p)"
proof (cases "strip_suffix (''.'' @ p) h")
  case None
  then show "is_platform_host h p \<Longrightarrow> ?thesis" by (simp add: extract_subdomain_def is_platform_host_def ends_with_def)
next
  case (Some s)
  then show ?thesis using strip_suffix_Some_iff[of "''.'' @ p" h s] by (simp add: extract_subdomain_def)
qed

lemma route_request_tenant:
  assumes "route_request cfg host = ToTenant k t"
  obtains dm where "ed_domains cfg = Some dm"
    and "resolve_domain dm (case extract_subdomain (request_hostname host) (ed_domain cfg) of None \<Rightarrow> ''www'' | Some s \<Rightarrow> s)
           (is_platform_host (request_hostname host) (ed_domain cfg)) = Some (k, t)"
  using assms by (auto simp: route_request_def Let_def split: if_splits option.splits)

text \<open>The labels the edge answers itself, while the service is there.\<close>

definition infrastructure :: "edge_config \<Rightarrow> string \<Rightarrow> bool" where
  "infrastructure cfg label \<longleftrightarrow>
     label = ''api'' \<and> ed_api cfg \<or> label = ''storage'' \<and> ed_storage cfg \<or> label = ''auth'' \<and> ed_auth cfg"

lemma route_request_iff:
  assumes "ed_domains cfg = Some dm" "extract_subdomain (request_hostname host) (ed_domain cfg) = sub"
  shows "route_request cfg host = ToTenant k t \<longleftrightarrow>
    (\<forall>s. sub = Some s \<longrightarrow> \<not> infrastructure cfg s)
    \<and> resolve_domain dm (case sub of None \<Rightarrow> ''www'' | Some s \<Rightarrow> s) (is_platform_host (request_hostname host) (ed_domain cfg)) = Some (k, t)"
  using assms by (auto simp: route_request_def infrastructure_def Let_def split: option.splits)

lemma resolve_domain_iff:
  "resolve_domain dm h on = Some (k, t) \<longleftrightarrow>
     CHR ''*'' \<notin> set h \<and> map_of dm k = Some t \<and> (k = h \<or> \<not> on \<and> map_of dm h = None \<and> wildcard_key h = Some k)"
  by (auto simp: resolve_domain_def split: option.splits)

lemma extract_subdomain_label: "extract_subdomain (label @ ''.'' @ p) p = Some label"
  using strip_suffix_Some_iff[of "''.'' @ p" "label @ ''.'' @ p" label] by (simp add: extract_subdomain_def)

lemma extract_subdomain_bare: "extract_subdomain p p = None"
proof -
  have "strip_suffix (''.'' @ p) p = None"
  proof (cases "strip_suffix (''.'' @ p) p")
    case (Some s)
    then have "p = s @ ''.'' @ p" using strip_suffix_Some_iff[of "''.'' @ p" p s] by simp
    then have "length p = length (s @ ''.'' @ p)" by (rule arg_cong)
    then show ?thesis by simp
  qed
  then show ?thesis by (simp add: extract_subdomain_def)
qed

lemma wildcard_key_star_free:
  "CHR ''*'' \<notin> set h \<Longrightarrow> wildcard_key h = Some k \<longleftrightarrow>
     (\<exists>label base. h = label @ ''.'' @ base \<and> label \<noteq> [] \<and> CHR ''.'' \<notin> set label \<and> base \<noteq> [] \<and> \<not> starts_with ''.'' base
        \<and> CHR ''.'' \<in> set base \<and> k = WILDCARD_PREFIX @ base)"
  unfolding wildcard_key_Some by (rule iffI; elim exE conjE) auto

text \<open>
  C38. Which tenant a request reaches. The bare platform domain is routed by the key \<open>www\<close> and by nothing else. A host of
  one label under the platform domain is routed by exactly that label, unless the edge answers it itself. A host with a dot
  outside the platform domain is routed by the registration of that very name and, only when the name is not registered, by
  the wildcard over its parent: one non-empty label is taken off the front, and the parent must itself have a dot. In each
  case the request goes to the tenant of the key, and without the key it goes to no tenant; a host with a star never does.
\<close>

theorem host_routing_exact:
  assumes "ed_domains cfg = Some dm" and "request_hostname host = h"
  shows "(h = ed_domain cfg \<longrightarrow> (route_request cfg host = ToTenant k t \<longleftrightarrow> k = ''www'' \<and> map_of dm ''www'' = Some t))
    \<and> (\<forall>label. h = label @ ''.'' @ ed_domain cfg \<and> CHR ''.'' \<notin> set label \<longrightarrow>
         (route_request cfg host = ToTenant k t \<longleftrightarrow>
            \<not> infrastructure cfg label \<and> CHR ''*'' \<notin> set label \<and> k = label \<and> map_of dm label = Some t))
    \<and> (\<not> is_platform_host h (ed_domain cfg) \<and> CHR ''.'' \<in> set h \<longrightarrow>
         (route_request cfg host = ToTenant k t \<longleftrightarrow>
            CHR ''*'' \<notin> set h \<and> map_of dm k = Some t
            \<and> (k = h
               \<or> map_of dm h = None
                 \<and> (\<exists>label base. h = label @ ''.'' @ base \<and> label \<noteq> [] \<and> CHR ''.'' \<notin> set label \<and> base \<noteq> [] \<and> \<not> starts_with ''.'' base
                      \<and> CHR ''.'' \<in> set base \<and> k = WILDCARD_PREFIX @ base))))"
proof (intro conjI allI impI)
  note R = route_request_iff[OF assms(1), of host _ k t, unfolded assms(2) resolve_domain_iff]
  assume "h = ed_domain cfg"
  then show "route_request cfg host = ToTenant k t \<longleftrightarrow> k = ''www'' \<and> map_of dm ''www'' = Some t"
    using R[of None] by (auto simp: is_platform_host_def extract_subdomain_bare)
next
  note R = route_request_iff[OF assms(1), of host _ k t, unfolded assms(2) resolve_domain_iff]
  fix label
  assume l: "h = label @ ''.'' @ ed_domain cfg \<and> CHR ''.'' \<notin> set label"
  have "is_platform_host h (ed_domain cfg)" using l by (auto simp: is_platform_host_def ends_with_iff)
  moreover have "extract_subdomain h (ed_domain cfg) = Some label" using l extract_subdomain_label by simp
  ultimately show "route_request cfg host = ToTenant k t \<longleftrightarrow>
      \<not> infrastructure cfg label \<and> CHR ''*'' \<notin> set label \<and> k = label \<and> map_of dm label = Some t"
    using R by auto
next
  note R = route_request_iff[OF assms(1), of host _ k t, unfolded assms(2) resolve_domain_iff]
  assume o: "\<not> is_platform_host h (ed_domain cfg) \<and> CHR ''.'' \<in> set h"
  have i: "\<not> infrastructure cfg h" using o by (auto simp: infrastructure_def)
  have "extract_subdomain h (ed_domain cfg) = Some h" using o extract_subdomain_off by blast
  from R[OF this] o i have "route_request cfg host = ToTenant k t \<longleftrightarrow>
      CHR ''*'' \<notin> set h \<and> map_of dm k = Some t \<and> (k = h \<or> map_of dm h = None \<and> wildcard_key h = Some k)"
    by auto
  then show "route_request cfg host = ToTenant k t \<longleftrightarrow> CHR ''*'' \<notin> set h \<and> map_of dm k = Some t
      \<and> (k = h \<or> map_of dm h = None
          \<and> (\<exists>label base. h = label @ ''.'' @ base \<and> label \<noteq> [] \<and> CHR ''.'' \<notin> set label \<and> base \<noteq> [] \<and> \<not> starts_with ''.'' base
               \<and> CHR ''.'' \<in> set base \<and> k = WILDCARD_PREFIX @ base))"
    using wildcard_key_star_free[of h k] by (cases "CHR ''*'' \<in> set h") simp_all
qed

definition demo_target :: domain_target where
  "demo_target = \<lparr>dt_project_id = ''p1'', dt_site = None, dt_acme_delegation = None\<rparr>"

definition demo_edge :: edge_config where
  "demo_edge = \<lparr>ed_domain = ''jk.dev'', ed_api = True, ed_storage = False, ed_auth = False,
     ed_domains = Some [(''*.shop.example.com'', demo_target)]\<rparr>"

theorem host_routing_exact_witness:
  "route_request demo_edge ''A.shop.example.com:443'' = ToTenant ''*.shop.example.com'' demo_target"
proof -
  have h: "request_hostname ''A.shop.example.com:443'' = ''a.shop.example.com''" by code_simp
  have o: "\<not> is_platform_host ''a.shop.example.com'' (ed_domain demo_edge)" by code_simp
  have e: "ed_domains demo_edge = Some [(''*.shop.example.com'', demo_target)]" by (simp add: demo_edge_def)
  have s: "\<exists>label base. ''a.shop.example.com'' = label @ ''.'' @ base \<and> label \<noteq> [] \<and> CHR ''.'' \<notin> set label \<and> base \<noteq> []
      \<and> \<not> starts_with ''.'' base \<and> CHR ''.'' \<in> set base \<and> ''*.shop.example.com'' = WILDCARD_PREFIX @ base"
    by (intro exI[of _ "''a''"] exI[of _ "''shop.example.com''"]) (simp add: starts_with_iff WILDCARD_PREFIX_def)
  show ?thesis
    using host_routing_exact[OF e h, THEN conjunct2, THEN conjunct2, of "''*.shop.example.com''" demo_target] o s by simp
qed

text \<open>
  A nested host of the platform is not refused: it is looked up by everything in front of the
  platform's domain, so it matches the custom domain of that name.
\<close>

lemma nested_platform_host_aliases_custom:
  assumes "d \<noteq> ''api''" and "d \<noteq> ''storage''" and "d \<noteq> ''auth''" and "CHR ''*'' \<notin> set d"
    and "map_of dm d = Some t" and "ed_domains cfg = Some dm" and "request_hostname host = d @ ''.'' @ ed_domain cfg"
  shows "route_request cfg host = ToTenant d t"
proof -
  have "extract_subdomain (d @ ''.'' @ ed_domain cfg) (ed_domain cfg) = Some d"
    using strip_suffix_Some_iff[of "''.'' @ ed_domain cfg" "d @ ''.'' @ ed_domain cfg" d] by (simp add: extract_subdomain_def)
  then show ?thesis using assms by (simp add: route_request_def resolve_domain_def)
qed

end
