(* ===== verification/Obj_Index.thy ===== *)
theory Obj_Index
  imports Db_Preamble Rust_Str "HOL-Library.Char_ord" "HOL-Library.List_Lexorder"
begin

text \<open>
  The index of the object store, \<open>crates/jkbase-objectstore/src/index.rs\<close>: the tables of one project
  (buckets, object metadata, manifests, multipart uploads and their parts, pending and garbage segments),
  their keys, and every transaction on them. A transaction is a function that gives an error or a value and
  the new tables; \<open>ix_write\<close> commits or aborts it. The listing is in \<open>Obj_List\<close>. The row types come from
  \<open>store.rs\<close> and \<open>cors.rs\<close>.
\<close>

section \<open>Tables\<close>

text \<open>
  A table of the database: its rows in the order of their keys, at most one per key. A row whose
  bytes do not decode (written by something else) is \<open>Unreadable\<close>; the code writes readable rows only.
\<close>

type_synonym ('k, 'v) table = "('k \<times> 'v) list"

datatype 'v cell = Row 'v | Unreadable

fun t_insert :: "'k :: linorder \<Rightarrow> 'v \<Rightarrow> ('k, 'v) table \<Rightarrow> ('k, 'v) table" where
  "t_insert k v [] = [(k, v)]"
| "t_insert k v ((k', v') # t) =
     (if k < k' then (k, v) # (k', v') # t
      else if k = k' then (k, v) # t
      else (k', v') # t_insert k v t)"

definition t_remove :: "'k \<Rightarrow> ('k, 'v) table \<Rightarrow> ('k, 'v) table" where
  "t_remove k t = filter (\<lambda>r. fst r \<noteq> k) t"

definition t_range :: "'k :: linorder \<Rightarrow> 'k \<Rightarrow> ('k, 'v) table \<Rightarrow> ('k, 'v) table" where
  "t_range lo hi t = filter (\<lambda>r. lo \<le> fst r \<and> fst r < hi) t"

definition t_ok :: "('k :: linorder, 'v) table \<Rightarrow> bool" where
  "t_ok t \<longleftrightarrow> sorted_wrt (<) (map fst t)"

definition readable :: "'v cell \<Rightarrow> 'v option" where
  "readable c = (case c of Row v \<Rightarrow> Some v | Unreadable \<Rightarrow> None)"

section \<open>Rows\<close>

datatype object_error =
    NoSuchBucket string | NoSuchKey string | BucketAlreadyExists string | BucketNotEmpty string
  | InvalidBucketName string | InvalidKey string | CorruptMeta string | NoSuchUpload string
  | InvalidArgument | ObjTimeout | ContentSha256Mismatch | InvalidPartOrder | EntityTooSmall u32 | ObjIo

record cors_rule =
  allowed_origins :: "string list"
  allowed_methods :: "string list"
  allowed_headers :: "string list"
  expose_headers :: "string list"
  max_age_seconds :: "nat option"

type_synonym cors_config = "cors_rule list"

record bucket_row =
  bk_created :: nat
  bk_cors :: "cors_config option"

record seg_ref =
  sr_id :: string
  sr_size :: nat

record object_meta =
  om_key :: string
  om_size :: nat
  om_etag :: string
  om_content_type :: string
  om_last_modified :: nat
  om_cache_control :: "string option"

record object_row =
  or_meta :: object_meta
  or_segments :: "seg_ref list"

record part_row =
  pr_segment :: string
  pr_size :: nat
  pr_md5 :: string

record upload_info =
  ui_key :: string
  ui_content_type :: string
  ui_initiated :: nat
  ui_cache_control :: "string option"

record multipart_upload =
  mu_upload_id :: string
  mu_key :: string
  mu_initiated :: nat

record obj_index =
  ix_buckets :: "(string, bucket_row cell) table"
  ix_objects :: "(string, object_meta cell) table"
  ix_manifests :: "(string, seg_ref list cell) table"
  ix_uploads :: "(string, upload_info cell) table"
  ix_parts :: "(string, part_row cell) table"
  ix_pending :: "(string, nat) table"
  ix_garbage :: "(string, nat) table"
  ix_meta_layout :: "nat option"

definition PENDING_ORPHAN_AGE :: nat where "PENDING_ORPHAN_AGE = 12 * 3600"
definition MIN_PART_SIZE :: nat where "MIN_PART_SIZE = 5 * 1024 * 1024"
definition MAX_STAGED_PARTS :: nat where "MAX_STAGED_PARTS = 100000"
definition SWEEP_PART_ROWS :: nat where "SWEEP_PART_ROWS = 10000"
definition LAYOUT_V2 :: nat where "LAYOUT_V2 = 2"

section \<open>Keys\<close>

abbreviation NUL :: char where "NUL \<equiv> CHR 0x00"
abbreviation SOH :: char where "SOH \<equiv> CHR 0x01"

definition obj_key :: "string \<Rightarrow> string \<Rightarrow> string" where
  "obj_key bucket key = bucket @ [NUL] @ key"

definition upload_key :: "string \<Rightarrow> string \<Rightarrow> string" where
  "upload_key bucket upload_id = bucket @ [NUL] @ upload_id"

definition byte_char :: "u8 \<Rightarrow> char" where "byte_char b = char_of (unat b)"
definition char_byte :: "char \<Rightarrow> u8" where "char_byte c = word_of_nat (of_char c)"

definition part_key :: "string \<Rightarrow> u32 \<Rightarrow> string" where
  "part_key upload_id part = upload_id @ [NUL] @ map byte_char (u32_to_be part)"

definition bucket_range :: "string \<Rightarrow> string \<times> string" where
  "bucket_range bucket = (bucket @ [NUL], bucket @ [SOH])"

definition upload_part_range :: "string \<Rightarrow> string \<times> string" where
  "upload_part_range upload_id = (upload_id @ [NUL], upload_id @ [SOH])"

definition hex_digit :: "nat \<Rightarrow> char" where
  "hex_digit n = char_of (if n < 10 then 48 + n else 87 + n)"

definition hex_bytes :: "bytes \<Rightarrow> string" where
  "hex_bytes bs = concat (map (\<lambda>b. [hex_digit (unat b div 16), hex_digit (unat b mod 16)]) bs)"

definition hex_val :: "char \<Rightarrow> nat option" where
  "hex_val c =
     (let n = (of_char c :: nat)
      in if 48 \<le> n \<and> n \<le> 57 then Some (n - 48)
         else if 97 \<le> n \<and> n \<le> 102 then Some (n - 87)
         else if 65 \<le> n \<and> n \<le> 70 then Some (n - 55)
         else None)"

text \<open>\<open>u8::from_str_radix(s, 16)\<close> on two characters takes a leading plus sign.\<close>

definition hex_pair :: "char \<Rightarrow> char \<Rightarrow> u8 option" where
  "hex_pair a b =
     (case (hex_val a, hex_val b) of
        (Some x, Some y) \<Rightarrow> Some (word_of_nat (16 * x + y))
      | (None, Some y) \<Rightarrow> (if a = CHR ''+'' then Some (word_of_nat y) else None)
      | _ \<Rightarrow> None)"

fun unhex :: "string \<Rightarrow> bytes" where
  "unhex (a # b # s) = (case hex_pair a b of Some x \<Rightarrow> x # unhex s | None \<Rightarrow> unhex s)"
| "unhex _ = []"

section \<open>Transactions\<close>

text \<open>
  How a write transaction ends: an error aborts it, and so does a failure of the database before or
  at the commit.
\<close>

datatype tx = TxOk | TxFail | TxNoCommit

type_synonym 'a ix_result = "object_error + 'a \<times> obj_index"

definition ix_write :: "tx \<Rightarrow> (obj_index \<Rightarrow> 'a ix_result) \<Rightarrow> obj_index \<Rightarrow> (object_error + 'a) \<times> obj_index" where
  "ix_write res f ix =
     (if res = TxFail then (Inl ObjIo, ix)
      else (case f ix of
              Inl e \<Rightarrow> (Inl e, ix)
            | Inr (v, ix') \<Rightarrow> (if res = TxOk then (Inr v, ix') else (Inl ObjIo, ix))))"

definition index_empty :: obj_index where
  "index_empty =
     \<lparr>ix_buckets = [], ix_objects = [], ix_manifests = [], ix_uploads = [], ix_parts = [],
      ix_pending = [], ix_garbage = [], ix_meta_layout = None\<rparr>"

definition ix_layout :: "obj_index \<Rightarrow> nat" where
  "ix_layout ix = (case ix_meta_layout ix of Some v \<Rightarrow> v | None \<Rightarrow> 1)"

definition ix_set_layout :: "nat \<Rightarrow> obj_index \<Rightarrow> unit ix_result" where
  "ix_set_layout v ix = Inr ((), ix\<lparr>ix_meta_layout := Some v\<rparr>)"

definition require_bucket :: "string \<Rightarrow> obj_index \<Rightarrow> object_error + unit" where
  "require_bucket bucket ix =
     (if map_of (ix_buckets ix) bucket = None then Inl (NoSuchBucket bucket) else Inr ())"

definition require_upload :: "string \<Rightarrow> string \<Rightarrow> obj_index \<Rightarrow> object_error + upload_info" where
  "require_upload bucket upload_id ix =
     (case require_bucket bucket ix of
        Inl e \<Rightarrow> Inl e
      | Inr _ \<Rightarrow>
          (case map_of (ix_uploads ix) (upload_key bucket upload_id) of
             None \<Rightarrow> Inl (NoSuchUpload upload_id)
           | Some Unreadable \<Rightarrow> Inl (CorruptMeta upload_id)
           | Some (Row info) \<Rightarrow> Inr info))"

fun take_pending :: "string list \<Rightarrow> obj_index \<Rightarrow> object_error + obj_index" where
  "take_pending [] ix = Inr ix"
| "take_pending (i # ids) ix =
     (if map_of (ix_pending ix) i = None then Inl ObjIo
      else take_pending ids (ix\<lparr>ix_pending := t_remove i (ix_pending ix)\<rparr>))"

text \<open>Puts the ids into the garbage table.\<close>

definition retire_ids :: "string list \<Rightarrow> nat \<Rightarrow> obj_index \<Rightarrow> obj_index" where
  "retire_ids ids now ix = ix\<lparr>ix_garbage := foldl (\<lambda>g i. t_insert i now g) (ix_garbage ix) ids\<rparr>"

text \<open>The ids of an old manifest are retired; it may be absent, and one that does not decode names none.\<close>

definition manifest_ids :: "seg_ref list cell option \<Rightarrow> string list" where
  "manifest_ids m = (case m of Some (Row ss) \<Rightarrow> map sr_id ss | _ \<Rightarrow> [])"

definition retire_manifest :: "seg_ref list cell option \<Rightarrow> nat \<Rightarrow> obj_index \<Rightarrow> obj_index" where
  "retire_manifest old now ix = retire_ids (manifest_ids old) now ix"

fun part_id :: "part_row cell \<Rightarrow> string list" where
  "part_id (Row r) = [pr_segment r]"
| "part_id Unreadable = []"

definition drop_upload :: "string \<Rightarrow> string \<Rightarrow> nat \<Rightarrow> obj_index \<Rightarrow> string list \<times> obj_index" where
  "drop_upload bucket upload_id now ix =
     (let (lo, hi) = upload_part_range upload_id;
          doomed = t_range lo hi (ix_parts ix);
          segs = concat (map (\<lambda>r. part_id (snd r)) doomed);
          ix = ix\<lparr>ix_parts := foldl (\<lambda>t r. t_remove (fst r) t) (ix_parts ix) doomed\<rparr>;
          ix = retire_ids segs now ix
      in (segs, ix\<lparr>ix_uploads := t_remove (upload_key bucket upload_id) (ix_uploads ix)\<rparr>))"

section \<open>Buckets\<close>

definition ix_create_bucket :: "string \<Rightarrow> nat \<Rightarrow> obj_index \<Rightarrow> unit ix_result" where
  "ix_create_bucket bucket now ix =
     (if map_of (ix_buckets ix) bucket \<noteq> None then Inl (BucketAlreadyExists bucket)
      else Inr ((), ix\<lparr>ix_buckets := t_insert bucket (Row \<lparr>bk_created = now, bk_cors = None\<rparr>) (ix_buckets ix)\<rparr>))"

definition ix_ensure_bucket :: "string \<Rightarrow> nat \<Rightarrow> obj_index \<Rightarrow> unit ix_result" where
  "ix_ensure_bucket bucket created ix =
     Inr ((), if map_of (ix_buckets ix) bucket = None
              then ix\<lparr>ix_buckets := t_insert bucket (Row \<lparr>bk_created = created, bk_cors = None\<rparr>) (ix_buckets ix)\<rparr>
              else ix)"

definition ix_delete_bucket :: "string \<Rightarrow> obj_index \<Rightarrow> unit ix_result" where
  "ix_delete_bucket bucket ix =
     (if map_of (ix_buckets ix) bucket = None then Inl (NoSuchBucket bucket)
      else
        let (lo, hi) = bucket_range bucket;
            occupied = (t_range lo hi (ix_objects ix) \<noteq> [] \<or> t_range lo hi (ix_uploads ix) \<noteq> [])
        in if occupied then Inl (BucketNotEmpty bucket)
           else Inr ((), ix\<lparr>ix_buckets := t_remove bucket (ix_buckets ix)\<rparr>))"

definition ix_list_buckets :: "obj_index \<Rightarrow> string list" where
  "ix_list_buckets ix = map fst (ix_buckets ix)"

definition ix_bucket_exists :: "string \<Rightarrow> obj_index \<Rightarrow> bool" where
  "ix_bucket_exists bucket ix \<longleftrightarrow> map_of (ix_buckets ix) bucket \<noteq> None"

definition ix_get_cors :: "string \<Rightarrow> obj_index \<Rightarrow> cors_config option" where
  "ix_get_cors bucket ix =
     Option.bind (Option.bind (map_of (ix_buckets ix) bucket) readable) bk_cors"

definition ix_set_cors :: "string \<Rightarrow> cors_config option \<Rightarrow> obj_index \<Rightarrow> unit ix_result" where
  "ix_set_cors bucket cors ix =
     (case map_of (ix_buckets ix) bucket of
        None \<Rightarrow> (if cors \<noteq> None then Inl (NoSuchBucket bucket) else Inr ((), ix))
      | Some c \<Rightarrow>
          (let row = (case readable c of Some r \<Rightarrow> r | None \<Rightarrow> \<lparr>bk_created = 0, bk_cors = None\<rparr>)
           in Inr ((), ix\<lparr>ix_buckets := t_insert bucket (Row (row\<lparr>bk_cors := cors\<rparr>)) (ix_buckets ix)\<rparr>)))"

section \<open>Segments\<close>

definition ix_add_pending :: "string list \<Rightarrow> nat \<Rightarrow> obj_index \<Rightarrow> unit ix_result" where
  "ix_add_pending ids now ix = Inr ((), ix\<lparr>ix_pending := foldl (\<lambda>p i. t_insert i now p) (ix_pending ix) ids\<rparr>)"

fun discard_loop :: "string list \<Rightarrow> nat \<Rightarrow> obj_index \<Rightarrow> string list \<times> obj_index" where
  "discard_loop [] now ix = ([], ix)"
| "discard_loop (i # ids) now ix =
     (if map_of (ix_pending ix) i \<noteq> None
      then (let (r, ix') = discard_loop ids now
                  (ix\<lparr>ix_pending := t_remove i (ix_pending ix), ix_garbage := t_insert i now (ix_garbage ix)\<rparr>)
            in (i # r, ix'))
      else discard_loop ids now ix)"

definition ix_discard_pending :: "string list \<Rightarrow> nat \<Rightarrow> obj_index \<Rightarrow> string list ix_result" where
  "ix_discard_pending ids now ix = Inr (discard_loop ids now ix)"

definition ix_claim_due :: "nat \<Rightarrow> nat \<Rightarrow> obj_index \<Rightarrow> string list ix_result" where
  "ix_claim_due now n ix =
     (let stale = map fst (filter (\<lambda>(i, since). saturating_add since PENDING_ORPHAN_AGE \<le> now) (ix_pending ix));
          ix = snd (discard_loop stale now ix)
      in Inr (take n (map fst (ix_garbage ix)), ix))"

definition ix_forget_segments :: "string list \<Rightarrow> obj_index \<Rightarrow> unit ix_result" where
  "ix_forget_segments ids ix = Inr ((), ix\<lparr>ix_garbage := foldl (\<lambda>g i. t_remove i g) (ix_garbage ix) ids\<rparr>)"

section \<open>Objects\<close>

definition ix_get_meta :: "string \<Rightarrow> string \<Rightarrow> obj_index \<Rightarrow> object_error + object_meta" where
  "ix_get_meta bucket key ix =
     (case require_bucket bucket ix of
        Inl e \<Rightarrow> Inl e
      | Inr _ \<Rightarrow>
          (case map_of (ix_objects ix) (obj_key bucket key) of
             None \<Rightarrow> Inl (NoSuchKey key)
           | Some Unreadable \<Rightarrow> Inl (CorruptMeta key)
           | Some (Row m) \<Rightarrow> Inr m))"

definition ix_get_object :: "string \<Rightarrow> string \<Rightarrow> obj_index \<Rightarrow> object_error + object_row" where
  "ix_get_object bucket key ix =
     (case ix_get_meta bucket key ix of
        Inl e \<Rightarrow> Inl e
      | Inr m \<Rightarrow>
          (case map_of (ix_manifests ix) (obj_key bucket key) of
             Some (Row ss) \<Rightarrow> Inr \<lparr>or_meta = m, or_segments = ss\<rparr>
           | _ \<Rightarrow> Inl (CorruptMeta key)))"

text \<open>Writes an object's two rows and retires what they replace.\<close>

definition put_rows :: "string \<Rightarrow> object_row \<Rightarrow> nat \<Rightarrow> obj_index \<Rightarrow> string list \<times> obj_index" where
  "put_rows bucket row now ix =
     (let k = obj_key bucket (om_key (or_meta row));
          old = map_of (ix_manifests ix) k;
          ix = ix\<lparr>ix_objects := t_insert k (Row (or_meta row)) (ix_objects ix),
                  ix_manifests := t_insert k (Row (or_segments row)) (ix_manifests ix)\<rparr>
      in (manifest_ids old, retire_manifest old now ix))"

fun commit_rows :: "string \<Rightarrow> object_row list \<Rightarrow> nat \<Rightarrow> obj_index \<Rightarrow> string list ix_result" where
  "commit_rows bucket [] now ix = Inr ([], ix)"
| "commit_rows bucket (row # rows) now ix =
     (case take_pending (map sr_id (or_segments row)) ix of
        Inl e \<Rightarrow> Inl e
      | Inr ix \<Rightarrow>
          (let (r, ix) = put_rows bucket row now ix
           in map_sum id (apfst ((@) r)) (commit_rows bucket rows now ix)))"

definition ix_commit_objects :: "string \<Rightarrow> object_row list \<Rightarrow> nat \<Rightarrow> obj_index \<Rightarrow> string list ix_result" where
  "ix_commit_objects bucket rows now ix =
     (case require_bucket bucket ix of Inl e \<Rightarrow> Inl e | Inr _ \<Rightarrow> commit_rows bucket rows now ix)"

definition ix_commit_object :: "string \<Rightarrow> object_row \<Rightarrow> nat \<Rightarrow> obj_index \<Rightarrow> string list ix_result" where
  "ix_commit_object bucket row now ix = ix_commit_objects bucket [row] now ix"

definition ix_delete_object :: "string \<Rightarrow> string \<Rightarrow> nat \<Rightarrow> obj_index \<Rightarrow> string list ix_result" where
  "ix_delete_object bucket key now ix =
     (case require_bucket bucket ix of
        Inl e \<Rightarrow> Inl e
      | Inr _ \<Rightarrow>
          (let k = obj_key bucket key;
               old = map_of (ix_manifests ix) k;
               ix = ix\<lparr>ix_objects := t_remove k (ix_objects ix), ix_manifests := t_remove k (ix_manifests ix)\<rparr>
           in Inr (manifest_ids old, retire_manifest old now ix)))"

definition ix_counts :: "obj_index \<Rightarrow> nat \<times> nat" where
  "ix_counts ix = (length (ix_buckets ix), length (ix_objects ix))"

section \<open>Multipart uploads\<close>

definition ix_create_upload :: "string \<Rightarrow> string \<Rightarrow> upload_info \<Rightarrow> bool \<Rightarrow> obj_index \<Rightarrow> unit ix_result" where
  "ix_create_upload bucket upload_id info keep_existing ix =
     (case require_bucket bucket ix of
        Inl e \<Rightarrow> Inl e
      | Inr _ \<Rightarrow>
          (let k = upload_key bucket upload_id
           in Inr ((), if keep_existing \<and> map_of (ix_uploads ix) k \<noteq> None then ix
                       else ix\<lparr>ix_uploads := t_insert k (Row info) (ix_uploads ix)\<rparr>)))"

definition ix_upload_exists :: "string \<Rightarrow> string \<Rightarrow> obj_index \<Rightarrow> object_error + bool" where
  "ix_upload_exists bucket upload_id ix =
     (case require_bucket bucket ix of
        Inl e \<Rightarrow> Inl e
      | Inr _ \<Rightarrow> Inr (map_of (ix_uploads ix) (upload_key bucket upload_id) \<noteq> None))"

definition ix_commit_part :: "string \<Rightarrow> string \<Rightarrow> u32 \<Rightarrow> part_row \<Rightarrow> nat \<Rightarrow> obj_index \<Rightarrow> string list ix_result" where
  "ix_commit_part bucket upload_id part row now ix =
     (case require_upload bucket upload_id ix of
        Inl e \<Rightarrow> Inl e
      | Inr _ \<Rightarrow>
          (let k = part_key upload_id part
           in if map_of (ix_parts ix) k = None \<and> length (ix_parts ix) \<ge> MAX_STAGED_PARTS then Inl InvalidArgument
              else (case take_pending [pr_segment row] ix of
                      Inl e \<Rightarrow> Inl e
                    | Inr ix \<Rightarrow>
                        (let retired = (case map_of (ix_parts ix) k of Some c \<Rightarrow> part_id c | None \<Rightarrow> []);
                             ix = ix\<lparr>ix_parts := t_insert k (Row row) (ix_parts ix)\<rparr>
                         in Inr (retired, retire_ids retired now ix)))))"

text \<open>The staged parts of an upload by number; a key that does not end in four bytes is passed over.\<close>

fun stage_parts :: "string \<Rightarrow> nat \<Rightarrow> (string, part_row cell) table \<Rightarrow> (u32, part_row) table \<Rightarrow> object_error + (u32, part_row) table" where
  "stage_parts upload_id n [] staged = Inr staged"
| "stage_parts upload_id n ((k, c) # rows) staged =
     (let tail = drop n k
      in if length tail \<noteq> 4 then stage_parts upload_id n rows staged
         else (case c of
                 Unreadable \<Rightarrow> Inl (CorruptMeta upload_id)
               | Row r \<Rightarrow> stage_parts upload_id n rows (t_insert (u32_from_be (map char_byte tail)) r staged)))"

text \<open>The listed parts in order: their segments, and the bytes the etag is the digest of.\<close>

fun pick_parts :: "nat \<Rightarrow> nat \<Rightarrow> u32 list \<Rightarrow> (u32, part_row) table \<Rightarrow> object_error + seg_ref list \<times> bytes" where
  "pick_parts cnt i [] staged = Inr ([], [])"
| "pick_parts cnt i (pn # pns) staged =
     (case map_of staged pn of
        None \<Rightarrow> Inl InvalidArgument
      | Some row \<Rightarrow>
          (if pr_size row < MIN_PART_SIZE \<and> i + 1 < cnt then Inl (EntityTooSmall pn)
           else map_sum id (\<lambda>(segs, digests). (\<lparr>sr_id = pr_segment row, sr_size = pr_size row\<rparr> # segs, unhex (pr_md5 row) @ digests))
                  (pick_parts cnt (i + 1) pns (t_remove pn staged))))"

definition ix_complete_upload ::
  "(bytes \<Rightarrow> bytes) \<Rightarrow> string \<Rightarrow> string \<Rightarrow> string \<Rightarrow> u32 list \<Rightarrow> nat \<Rightarrow> obj_index \<Rightarrow> (object_meta \<times> string list) ix_result" where
  "ix_complete_upload md5 bucket key upload_id part_numbers now ix =
     (case require_upload bucket upload_id ix of
        Inl e \<Rightarrow> Inl e
      | Inr info \<Rightarrow>
          (if ui_key info \<noteq> key then Inl InvalidArgument
           else if part_numbers = [] then Inl InvalidArgument
           else if list_ex (\<lambda>(a, b). a \<ge> b) (zip part_numbers (tl part_numbers)) then Inl InvalidPartOrder
           else
             let (lo, hi) = upload_part_range upload_id
             in case stage_parts upload_id (length lo) (t_range lo hi (ix_parts ix)) [] of
                  Inl e \<Rightarrow> Inl e
                | Inr staged \<Rightarrow>
                    (case pick_parts (length part_numbers) 0 part_numbers staged of
                       Inl e \<Rightarrow> Inl e
                     | Inr (segments, digests) \<Rightarrow>
                         (let ix = ix\<lparr>ix_parts := foldl (\<lambda>t pn. t_remove (part_key upload_id pn) t) (ix_parts ix) part_numbers\<rparr>;
                              (retired, ix) = drop_upload bucket upload_id now ix;
                              meta = \<lparr>om_key = key, om_size = (\<Sum>s\<leftarrow>segments. sr_size s),
                                      om_etag = hex_bytes (md5 digests) @ ''-'' @ show_nat (length part_numbers),
                                      om_content_type = ui_content_type info, om_last_modified = now,
                                      om_cache_control = ui_cache_control info\<rparr>;
                              (replaced, ix) = put_rows bucket \<lparr>or_meta = meta, or_segments = segments\<rparr> now ix
                          in Inr ((meta, retired @ replaced), ix)))))"

definition ix_abort_upload :: "string \<Rightarrow> string \<Rightarrow> nat \<Rightarrow> obj_index \<Rightarrow> string list ix_result" where
  "ix_abort_upload bucket upload_id now ix =
     (case require_upload bucket upload_id ix of
        Inl e \<Rightarrow> Inl e
      | Inr _ \<Rightarrow> Inr (drop_upload bucket upload_id now ix))"

definition ix_list_uploads :: "string \<Rightarrow> obj_index \<Rightarrow> object_error + multipart_upload list" where
  "ix_list_uploads bucket ix =
     (case require_bucket bucket ix of
        Inl e \<Rightarrow> Inl e
      | Inr _ \<Rightarrow>
          (let (lo, hi) = bucket_range bucket
           in Inr (List.map_filter (\<lambda>(k, c). map_option (\<lambda>info. \<lparr>mu_upload_id = drop (length lo) k, mu_key = ui_key info,
                      mu_initiated = ui_initiated info\<rparr>) (readable c)) (t_range lo hi (ix_uploads ix)))))"

fun stale_uploads :: "nat \<Rightarrow> nat \<Rightarrow> nat \<Rightarrow> (string, upload_info cell) table \<Rightarrow> string list" where
  "stale_uploads threshold n found [] = []"
| "stale_uploads threshold n found ((k, c) # rows) =
     (let initiated = (case readable c of Some i \<Rightarrow> ui_initiated i | None \<Rightarrow> 0)
      in if initiated \<le> threshold
         then k # (if found + 1 = n then [] else stale_uploads threshold n (found + 1) rows)
         else stale_uploads threshold n found rows)"

fun abort_loop :: "string list \<Rightarrow> nat \<Rightarrow> nat \<Rightarrow> string list \<Rightarrow> obj_index \<Rightarrow> (nat \<times> string list) \<times> obj_index" where
  "abort_loop [] now aborted retired ix = ((aborted, retired), ix)"
| "abort_loop (k # ks) now aborted retired ix =
     (if length retired \<ge> SWEEP_PART_ROWS then ((aborted, retired), ix)
      else (case split_once NUL k of
              None \<Rightarrow> abort_loop ks now aborted retired ix
            | Some (bucket, upload_id) \<Rightarrow>
                (let (segs, ix) = drop_upload bucket upload_id now ix
                 in abort_loop ks now (aborted + 1) (retired @ segs) ix)))"

definition ix_abort_uploads_before :: "nat \<Rightarrow> nat \<Rightarrow> nat \<Rightarrow> obj_index \<Rightarrow> (nat \<times> string list) ix_result" where
  "ix_abort_uploads_before threshold now n ix =
     Inr (abort_loop (stale_uploads threshold n 0 (ix_uploads ix)) now 0 [] ix)"

definition ix_upload_count :: "obj_index \<Rightarrow> nat" where
  "ix_upload_count ix = length (ix_uploads ix)"

end
