(* ===== verification/Obj_Index_Inv.thy ===== *)
theory Obj_Index_Inv
  imports Obj_Index "HOL-Library.Multiset"
begin

text \<open>
  What the transactions of \<open>Obj_Index\<close> do to segments. Every segment has one place - it is pending,
  referenced by one object or one part, or garbage - and a transaction only moves segments between places:
  \<open>ix_moves\<close> is that contract, proved for each of them.
\<close>

section \<open>Lemmas on tables\<close>

lemma t_insert_keys: "set (map fst (t_insert k v t)) = insert k (set (map fst t))"
  by (induction k v t rule: t_insert.induct) auto

lemma t_ok_insert [simp]: "t_ok t \<Longrightarrow> t_ok (t_insert k v t)"
proof (induction k v t rule: t_insert.induct)
  case (2 k v k' v' t)
  then show ?case using t_insert_keys[of k v t] by (auto simp: t_ok_def)
qed (simp add: t_ok_def)

lemma t_ok_remove [simp]: "t_ok t \<Longrightarrow> t_ok (t_remove k t)"
  by (simp add: t_ok_def t_remove_def sorted_wrt_filter sorted_wrt_map)

lemma t_ok_Nil [simp]: "t_ok []"
  by (simp add: t_ok_def)

lemma t_ok_distinct: "t_ok t \<Longrightarrow> distinct (map fst t)"
  by (simp add: t_ok_def strict_sorted_iff)

lemma t_ok_notin: "t_ok ((k, v) # t) \<Longrightarrow> k \<notin> fst ` set t"
  using t_ok_distinct[of "(k, v) # t"] by simp

lemma t_ok_tl: "t_ok (r # t) \<Longrightarrow> t_ok t"
  by (simp add: t_ok_def)

lemma map_of_t_insert [simp]: "map_of (t_insert k v t) = (map_of t)(k \<mapsto> v)"
  by (induction k v t rule: t_insert.induct) auto

lemma map_of_t_remove [simp]: "map_of (t_remove k t) = (map_of t)(k := None)"
  by (induction t) (auto simp: t_remove_def)

lemma map_of_None_keys: "map_of t k = None \<longleftrightarrow> k \<notin> fst ` set t"
  by (rule map_of_eq_None_iff)

text \<open>The sum over the rows of a table, and how the operations change it.\<close>

definition row_sum :: "('k \<times> 'v \<Rightarrow> 'a :: cancel_comm_monoid_add) \<Rightarrow> ('k, 'v) table \<Rightarrow> 'a" where
  "row_sum F t = (\<Sum>r\<leftarrow>t. F r)"

definition old_row :: "('k \<times> 'v \<Rightarrow> 'a :: cancel_comm_monoid_add) \<Rightarrow> ('k, 'v) table \<Rightarrow> 'k \<Rightarrow> 'a" where
  "old_row F t k = (case map_of t k of None \<Rightarrow> 0 | Some v \<Rightarrow> F (k, v))"

lemma row_sum_simps [simp]: "row_sum F [] = 0" "row_sum F (r # t) = F r + row_sum F t"
  by (simp_all add: row_sum_def)

lemma row_sum_insert: "t_ok t \<Longrightarrow> row_sum F (t_insert k v t) + old_row F t k = row_sum F t + F (k, v)"
proof (induction k v t rule: t_insert.induct)
  case (2 k v k' v' t)
  consider "k < k'" | "k = k'" | "\<not> k < k'" "k \<noteq> k'" by blast
  then show ?case
  proof cases
    case 1
    then have "map_of ((k', v') # t) k = None"
      using "2.prems" by (fastforce simp: map_of_None_keys t_ok_def)
    then show ?thesis using 1 by (simp add: old_row_def add.commute)
  next
    case 2
    then show ?thesis by (simp add: old_row_def add.commute add.left_commute)
  next
    case 3
    then show ?thesis
      using "2.IH"[OF 3 t_ok_tl[OF "2.prems"]] by (simp add: old_row_def add.assoc)
  qed
qed (simp add: old_row_def)

lemma row_sum_notin: "k \<notin> fst ` set t \<Longrightarrow> t_remove k t = t"
  by (induction t) (auto simp: t_remove_def)

lemma row_sum_remove: "t_ok t \<Longrightarrow> row_sum F (t_remove k t) + old_row F t k = row_sum F t"
proof (induction t)
  case (Cons r t)
  obtain a b where r: "r = (a, b)" by (cases r)
  show ?case
  proof (cases "a = k")
    case True
    then have "t_remove k t = t" using Cons.prems t_ok_notin[of a b t] row_sum_notin r by metis
    then show ?thesis using True by (simp add: r t_remove_def old_row_def add.commute)
  next
    case False
    then show ?thesis using Cons t_ok_tl[of r t] by (simp add: r t_remove_def old_row_def add.assoc)
  qed
qed (simp add: old_row_def t_remove_def)

lemma old_row_None [simp]: "map_of t k = None \<Longrightarrow> old_row F t k = 0"
  by (simp add: old_row_def)

lemma old_row_Some [simp]: "map_of t k = Some v \<Longrightarrow> old_row F t k = F (k, v)"
  by (simp add: old_row_def)

abbreviation key_of :: "string \<times> 'v \<Rightarrow> string multiset" where "key_of r \<equiv> {#fst r#}"

lemma row_sum_keys: "row_sum key_of t = mset (map fst t)"
  by (induction t) auto

lemma in_row_sum_keys: "i \<in># row_sum key_of t \<longleftrightarrow> map_of t i \<noteq> None"
  by (simp add: row_sum_keys map_of_None_keys)

lemma in_row_sum: "i \<in># row_sum F t \<longleftrightarrow> (\<exists>r \<in> set t. i \<in># F r)"
  by (induction t) auto

lemma prefix_range: "(u @ [NUL] \<le> k \<and> k < u @ [SOH]) \<longleftrightarrow> (\<exists>t. k = u @ NUL # t)"
proof (induction u arbitrary: k)
  case Nil
  have "c = NUL" if "\<not> c < NUL" "c < SOH" for c :: char
    using that by (simp add: less_char_def of_char_eq_iff [symmetric, where ?'a = nat])
  then show ?case
    by (cases k) (auto simp: less_char_def)
next
  case (Cons a u)
  then show ?case by (cases k) auto
qed

lemma t_range_prefix: "t_range (u @ [NUL]) (u @ [SOH]) t = filter (\<lambda>r. \<exists>x. fst r = u @ NUL # x) t"
  unfolding t_range_def prefix_range ..

section \<open>Where the segments are\<close>

definition manifest_place :: "string \<times> seg_ref list cell \<Rightarrow> string multiset" where
  "manifest_place r = mset (manifest_ids (Some (snd r)))"

definition part_place :: "string \<times> part_row cell \<Rightarrow> string multiset" where
  "part_place r = mset (part_id (snd r))"

definition seg_refs :: "obj_index \<Rightarrow> string multiset" where
  "seg_refs ix = row_sum manifest_place (ix_manifests ix) + row_sum part_place (ix_parts ix)"

definition seg_places :: "obj_index \<Rightarrow> string multiset" where
  "seg_places ix = seg_refs ix + row_sum key_of (ix_pending ix) + row_sum key_of (ix_garbage ix)"

definition once :: "'a multiset \<Rightarrow> bool" where
  "once M \<longleftrightarrow> (\<forall>i. count M i \<le> 1)"

definition tables_ok :: "obj_index \<Rightarrow> bool" where
  "tables_ok ix \<longleftrightarrow> t_ok (ix_buckets ix) \<and> t_ok (ix_objects ix) \<and> t_ok (ix_manifests ix) \<and> t_ok (ix_uploads ix)
     \<and> t_ok (ix_parts ix) \<and> t_ok (ix_pending ix) \<and> t_ok (ix_garbage ix) \<and> map fst (ix_objects ix) = map fst (ix_manifests ix)"

definition ix_ok :: "obj_index \<Rightarrow> bool" where
  "ix_ok ix \<longleftrightarrow> tables_ok ix \<and> once (seg_places ix)"

lemma once_add: "once (A + B) \<Longrightarrow> once A \<and> once B \<and> (\<forall>i. i \<in># A \<longrightarrow> i \<notin># B)"
proof -
  assume o: "once (A + B)"
  have c: "count A i + count B i \<le> 1" for i using o by (simp add: once_def)
  then have "once A" "once B" unfolding once_def by (meson add_leE)+
  moreover have "i \<notin># B" if "i \<in># A" for i
    using c[of i] that by (simp add: not_in_iff flip: count_greater_zero_iff)
  ultimately show ?thesis by blast
qed

lemma once_mset: "once (mset xs) \<longleftrightarrow> distinct xs"
  unfolding once_def distinct_count_atmost_1
  by (metis count_mset_0_iff le_numeral_extra(4) less_imp_le_nat less_one linorder_not_less set_mset_mset
      nat_less_le not_in_iff)

lemma tables_okD:
  assumes "tables_ok ix"
  shows "t_ok (ix_buckets ix)" "t_ok (ix_objects ix)" "t_ok (ix_manifests ix)" "t_ok (ix_uploads ix)"
    "t_ok (ix_parts ix)" "t_ok (ix_pending ix)" "t_ok (ix_garbage ix)" "map fst (ix_objects ix) = map fst (ix_manifests ix)"
  using assms by (simp_all add: tables_ok_def)

lemma ix_okD: "ix_ok ix \<Longrightarrow> tables_ok ix" "ix_ok ix \<Longrightarrow> once (seg_places ix)"
  by (simp_all add: ix_ok_def)

lemma t_ok_inserts [simp]: "t_ok t \<Longrightarrow> t_ok (foldl (\<lambda>t i. t_insert i v t) t ids)"
  by (induction ids arbitrary: t) auto

lemma t_ok_removes [simp]: "t_ok t \<Longrightarrow> t_ok (foldl (\<lambda>t r. t_remove (f r) t) t rs)"
  by (induction rs arbitrary: t) auto

lemma map_of_inserts: "map_of (foldl (\<lambda>t i. t_insert i v t) t ids) i = (if i \<in> set ids then Some v else map_of t i)"
  by (induction ids arbitrary: t) auto

lemma map_of_removes: "map_of (foldl (\<lambda>t r. t_remove (f r) t) t rs) k = (if k \<in> f ` set rs then None else map_of t k)"
  by (induction rs arbitrary: t) auto

lemma row_sum_inserts:
  "t_ok t \<Longrightarrow> distinct ids \<Longrightarrow> \<forall>i \<in> set ids. map_of t i = None \<Longrightarrow>
    row_sum key_of (foldl (\<lambda>t i. t_insert i v t) t ids) = mset ids + row_sum key_of t"
proof (induction ids arbitrary: t)
  case (Cons i ids)
  have "row_sum key_of (t_insert i v t) = row_sum key_of t + {#i#}"
    using row_sum_insert[OF Cons.prems(1), of key_of i v] Cons.prems(3) by simp
  moreover have "\<forall>x \<in> set ids. map_of (t_insert i v t) x = None" using Cons.prems by auto
  ultimately show ?case using Cons.IH[of "t_insert i v t"] Cons.prems by simp
qed simp

lemma row_sum_removes:
  "t_ok t \<Longrightarrow> distinct (map f rs) \<Longrightarrow>
    row_sum F (foldl (\<lambda>t r. t_remove (f r) t) t rs) + (\<Sum>r\<leftarrow>rs. old_row F t (f r)) = row_sum F t"
proof (induction rs arbitrary: t)
  case (Cons r rs)
  have o: "old_row F (t_remove (f r) t) (f x) = old_row F t (f x)" if "x \<in> set rs" for x
  proof -
    have "f x \<noteq> f r" using Cons.prems(2) that by (metis distinct.simps(2) image_eqI list.simps(9) set_map)
    then show ?thesis by (simp add: old_row_def)
  qed
  have "row_sum F (foldl (\<lambda>t r. t_remove (f r) t) (t_remove (f r) t) rs) + (\<Sum>x\<leftarrow>rs. old_row F t (f x))
      = row_sum F (t_remove (f r) t)"
    using Cons.IH[of "t_remove (f r) t"] Cons.prems o by (simp cong: map_cong)
  from arg_cong[OF this, of "\<lambda>x. x + old_row F t (f r)"] show ?case
    unfolding row_sum_remove[OF Cons.prems(1), of F "f r"] by (simp add: add_ac)
qed simp

lemma refs_pending_garbage:
  assumes "once (seg_places ix)"
  shows "i \<in># seg_refs ix \<Longrightarrow> map_of (ix_pending ix) i = None \<and> map_of (ix_garbage ix) i = None"
    and "map_of (ix_pending ix) i \<noteq> None \<Longrightarrow> map_of (ix_garbage ix) i = None"
  using assms once_add[of "seg_refs ix + row_sum key_of (ix_pending ix)" "row_sum key_of (ix_garbage ix)"]
    once_add[of "seg_refs ix" "row_sum key_of (ix_pending ix)"]
  by (auto simp: seg_places_def in_row_sum_keys)

text \<open>Retiring ids that have no place yet gives them one.\<close>

lemma retire_ids_places:
  assumes "tables_ok ix" and "once (mset ids + seg_places ix)"
  shows "seg_places (retire_ids ids now ix) = mset ids + seg_places ix"
    and "seg_refs (retire_ids ids now ix) = seg_refs ix" and "tables_ok (retire_ids ids now ix)"
proof -
  have d: "distinct ids" "\<forall>i \<in> set ids. i \<notin># seg_places ix"
    using once_add[OF assms(2)] by (auto simp: once_mset)
  have n: "\<forall>i \<in> set ids. map_of (ix_garbage ix) i = None"
    using d(2) in_row_sum_keys[of _ "ix_garbage ix"] unfolding seg_places_def by (metis union_iff)
  show "seg_places (retire_ids ids now ix) = mset ids + seg_places ix"
    using row_sum_inserts[OF tables_okD(7)[OF assms(1)] d(1) n, of now]
    by (simp add: seg_places_def seg_refs_def retire_ids_def add_ac)
  show "seg_refs (retire_ids ids now ix) = seg_refs ix" "tables_ok (retire_ids ids now ix)"
    using assms(1) by (simp_all add: seg_refs_def retire_ids_def tables_ok_def)
qed

lemma take_pending_places:
  "take_pending ids ix = Inr ix' \<Longrightarrow> tables_ok ix \<Longrightarrow>
    seg_places ix' + mset ids = seg_places ix \<and> seg_refs ix' = seg_refs ix \<and> tables_ok ix'
    \<and> ix' = ix\<lparr>ix_pending := ix_pending ix'\<rparr> \<and> (\<forall>i \<in> set ids. map_of (ix_pending ix) i \<noteq> None)"
proof (induction ids arbitrary: ix)
  case (Cons i ids)
  let ?ix = "ix\<lparr>ix_pending := t_remove i (ix_pending ix)\<rparr>"
  have p: "map_of (ix_pending ix) i \<noteq> None" and t: "take_pending ids ?ix = Inr ix'"
    using Cons.prems(1) by (auto split: if_splits)
  have k: "tables_ok ?ix" using Cons.prems(2) by (simp add: tables_ok_def)
  obtain n where n: "map_of (ix_pending ix) i = Some n" using p by blast
  have "row_sum key_of (t_remove i (ix_pending ix)) + {#i#} = row_sum key_of (ix_pending ix)"
    using row_sum_remove[OF tables_okD(6)[OF Cons.prems(2)], of key_of i] n by simp
  then have "seg_places ?ix + {#i#} = seg_places ix"
    by (simp add: seg_places_def seg_refs_def)
  moreover have "seg_refs ?ix = seg_refs ix" by (simp add: seg_refs_def)
  ultimately have 1: "seg_places ix' + mset (i # ids) = seg_places ix" "seg_refs ix' = seg_refs ix"
    using Cons.IH[OF t k] by (metis add_mset_add_single mset.simps(2) union_mset_add_mset_right, metis)
  have "ix' = ix\<lparr>ix_pending := ix_pending ix'\<rparr>" using Cons.IH[OF t k] by (cases ix; cases ix') simp
  moreover have "\<forall>j \<in> set (i # ids). map_of (ix_pending ix) j \<noteq> None"
    using Cons.IH[OF t k] p by (auto split: if_splits)
  ultimately show ?case using 1 Cons.IH[OF t k] by blast
qed simp

lemma objects_manifests_insert:
  "map fst t = map fst u \<Longrightarrow> map fst (t_insert k v t) = map fst (t_insert k w u)"
proof (induction t arbitrary: u)
  case (Cons r t)
  then obtain r' u' where "u = r' # u'" by (cases u) auto
  then show ?case using Cons by (cases r; cases r') auto
qed simp

lemma objects_manifests_remove:
  "map fst t = map fst u \<Longrightarrow> map fst (t_remove k t) = map fst (t_remove k u)"
proof (induction t arbitrary: u)
  case (Cons r t)
  then obtain r' u' where "u = r' # u'" by (cases u) auto
  then show ?case using Cons by (cases r; cases r') (auto simp: t_remove_def)
qed (simp add: t_remove_def)

lemma put_rows_places:
  assumes "tables_ok ix" and "once (mset (map sr_id (or_segments row)) + seg_places ix)" and "put_rows bucket row now ix = (r, ix')"
  shows "seg_places ix' = mset (map sr_id (or_segments row)) + seg_places ix" and "tables_ok ix'"
    and "seg_refs ix' + mset r = mset (map sr_id (or_segments row)) + seg_refs ix"
proof -
  let ?k = "obj_key bucket (om_key (or_meta row))"
  let ?old = "map_of (ix_manifests ix) ?k"
  define ix1 where "ix1 = ix\<lparr>ix_objects := t_insert ?k (Row (or_meta row)) (ix_objects ix),
                  ix_manifests := t_insert ?k (Row (or_segments row)) (ix_manifests ix)\<rparr>"
  have r: "r = manifest_ids ?old" and ix': "ix' = retire_ids r now ix1"
    using assms(3) by (auto simp: put_rows_def retire_manifest_def ix1_def Let_def)
  have t1: "tables_ok ix1"
    using assms(1) objects_manifests_insert by (auto simp: tables_ok_def ix1_def)
  have "old_row manifest_place (ix_manifests ix) ?k = mset r"
    by (auto simp: old_row_def manifest_place_def r manifest_ids_def split: option.split)
  then have m: "row_sum manifest_place (ix_manifests ix1) + mset r
      = row_sum manifest_place (ix_manifests ix) + mset (map sr_id (or_segments row))"
    using row_sum_insert[OF tables_okD(3)[OF assms(1)], of manifest_place ?k "Row (or_segments row)"]
    by (simp add: ix1_def manifest_place_def manifest_ids_def)
  have rf: "seg_refs ix1 + mset r = mset (map sr_id (or_segments row)) + seg_refs ix"
    using arg_cong[OF m, of "\<lambda>x. x + row_sum part_place (ix_parts ix)"] by (simp add: seg_refs_def ix1_def add_ac)
  have p: "mset r + seg_places ix1 = mset (map sr_id (or_segments row)) + seg_places ix"
    using arg_cong[OF rf, of "\<lambda>x. x + row_sum key_of (ix_pending ix) + row_sum key_of (ix_garbage ix)"]
    by (simp add: seg_places_def ix1_def add_ac)
  then have o: "once (mset r + seg_places ix1)" using assms(2) by simp
  show "seg_places ix' = mset (map sr_id (or_segments row)) + seg_places ix" "tables_ok ix'"
    "seg_refs ix' + mset r = mset (map sr_id (or_segments row)) + seg_refs ix"
    unfolding ix' using retire_ids_places[OF t1 o] p rf by simp_all
qed

section \<open>What a transaction does to the segments\<close>

definition man_refs :: "(string, seg_ref list cell) table \<Rightarrow> (string \<times> nat) set" where
  "man_refs t = {(sr_id s, sr_size s) | s k ss. map_of t k = Some (Row ss) \<and> s \<in> set ss}"

definition part_refs :: "(string, part_row cell) table \<Rightarrow> (string \<times> nat) set" where
  "part_refs t = {(pr_segment r, pr_size r) | k r. map_of t k = Some (Row r)}"

definition ref_sizes :: "obj_index \<Rightarrow> (string \<times> nat) set" where
  "ref_sizes ix = man_refs (ix_manifests ix) \<union> part_refs (ix_parts ix)"

definition pending_ids :: "obj_index \<Rightarrow> string set" where "pending_ids ix = {i. map_of (ix_pending ix) i \<noteq> None}"
definition garbage_ids :: "obj_index \<Rightarrow> string set" where "garbage_ids ix = {i. map_of (ix_garbage ix) i \<noteq> None}"

lemma ids_upd [simp]:
  "garbage_ids (ix\<lparr>ix_objects := a\<rparr>) = garbage_ids ix" "garbage_ids (ix\<lparr>ix_manifests := b\<rparr>) = garbage_ids ix"
  "garbage_ids (ix\<lparr>ix_parts := c\<rparr>) = garbage_ids ix" "garbage_ids (ix\<lparr>ix_uploads := d\<rparr>) = garbage_ids ix"
  "garbage_ids (ix\<lparr>ix_pending := e\<rparr>) = garbage_ids ix" "garbage_ids (ix\<lparr>ix_buckets := f\<rparr>) = garbage_ids ix"
  "pending_ids (ix\<lparr>ix_objects := a\<rparr>) = pending_ids ix" "pending_ids (ix\<lparr>ix_manifests := b\<rparr>) = pending_ids ix"
  "pending_ids (ix\<lparr>ix_parts := c\<rparr>) = pending_ids ix" "pending_ids (ix\<lparr>ix_uploads := d\<rparr>) = pending_ids ix"
  "pending_ids (ix\<lparr>ix_garbage := g\<rparr>) = pending_ids ix" "pending_ids (ix\<lparr>ix_buckets := f\<rparr>) = pending_ids ix"
  by (simp_all add: garbage_ids_def pending_ids_def)

text \<open>
  The contract of a transaction that moves segments: no segment gains or loses its place, only pending
  segments become referenced (with the sizes in \<open>new\<close>), and what it reports as retired is garbage.
\<close>

definition ix_moves :: "obj_index \<Rightarrow> (string \<times> nat) set \<Rightarrow> string list \<Rightarrow> obj_index \<Rightarrow> bool" where
  "ix_moves ix new retired ix' \<longleftrightarrow>
     ix_ok ix' \<and> seg_places ix' = seg_places ix \<and> ref_sizes ix' \<subseteq> ref_sizes ix \<union> new
     \<and> fst ` new \<subseteq> pending_ids ix \<and> set retired \<subseteq> garbage_ids ix'
     \<and> pending_ids ix' \<subseteq> pending_ids ix \<and> garbage_ids ix \<subseteq> garbage_ids ix'"

lemma ix_movesD:
  assumes "ix_moves ix new r ix'"
  shows "ix_ok ix'" "seg_places ix' = seg_places ix" "ref_sizes ix' \<subseteq> ref_sizes ix \<union> new" "fst ` new \<subseteq> pending_ids ix"
    "set r \<subseteq> garbage_ids ix'" "pending_ids ix' \<subseteq> pending_ids ix" "garbage_ids ix \<subseteq> garbage_ids ix'"
  using assms by (simp_all add: ix_moves_def)

lemma ix_moves_refl: "ix_ok ix \<Longrightarrow> ix_moves ix {} [] ix"
  by (simp add: ix_moves_def)

lemma ix_moves_trans:
  assumes "ix_moves ix new r ix1" and "ix_moves ix1 new' r' ix2"
  shows "ix_moves ix (new \<union> new') (r @ r') ix2"
proof -
  note a = ix_movesD[OF assms(1)] and b = ix_movesD[OF assms(2)]
  have "ref_sizes ix2 \<subseteq> ref_sizes ix \<union> (new \<union> new')" using a(3) b(3) by blast
  moreover have "fst ` (new \<union> new') \<subseteq> pending_ids ix" unfolding image_Un using a(4,6) b(4) by blast
  moreover have "set (r @ r') \<subseteq> garbage_ids ix2" unfolding set_append using a(5) b(5,7) by blast
  moreover have "pending_ids ix2 \<subseteq> pending_ids ix" "garbage_ids ix \<subseteq> garbage_ids ix2" using a(6,7) b(6,7) by blast+
  ultimately show ?thesis using a(1,2) b(1,2) by (simp add: ix_moves_def)
qed

lemma in_seg_refs:
  assumes "tables_ok ix"
  shows "i \<in># seg_refs ix \<longleftrightarrow> i \<in> fst ` ref_sizes ix"
proof -
  have m: "i \<in># row_sum manifest_place (ix_manifests ix) \<longleftrightarrow> i \<in> fst ` man_refs (ix_manifests ix)"
  proof
    assume "i \<in># row_sum manifest_place (ix_manifests ix)"
    then obtain k c where c: "(k, c) \<in> set (ix_manifests ix)" "i \<in> set (manifest_ids (Some c))"
      by (auto simp: in_row_sum manifest_place_def)
    then obtain ss s where "c = Row ss" "s \<in> set ss" "i = sr_id s" by (cases c) (auto simp: manifest_ids_def)
    then show "i \<in> fst ` man_refs (ix_manifests ix)"
      using c t_ok_distinct[OF tables_okD(3)[OF assms]] by (force simp: man_refs_def)
  qed (force simp: man_refs_def in_row_sum manifest_place_def manifest_ids_def dest: map_of_SomeD)
  have p: "i \<in># row_sum part_place (ix_parts ix) \<longleftrightarrow> i \<in> fst ` part_refs (ix_parts ix)"
  proof
    assume "i \<in># row_sum part_place (ix_parts ix)"
    then obtain k c where c: "(k, c) \<in> set (ix_parts ix)" "i \<in> set (part_id c)" by (auto simp: in_row_sum part_place_def)
    then obtain r where "c = Row r" "i = pr_segment r" by (cases c) auto
    then show "i \<in> fst ` part_refs (ix_parts ix)"
      using c t_ok_distinct[OF tables_okD(5)[OF assms]] by (force simp: part_refs_def)
  qed (force simp: part_refs_def in_row_sum part_place_def dest: map_of_SomeD)
  show ?thesis using m p by (auto simp: seg_refs_def ref_sizes_def image_Un)
qed

lemma ix_ok_places:
  assumes "ix_ok ix"
  shows "i \<in> fst ` ref_sizes ix \<Longrightarrow> i \<notin> pending_ids ix \<and> i \<notin> garbage_ids ix"
    and "i \<in> pending_ids ix \<Longrightarrow> i \<notin> garbage_ids ix"
  using refs_pending_garbage[OF ix_okD(2)[OF assms], of i] in_seg_refs[OF ix_okD(1)[OF assms], of i]
  unfolding pending_ids_def garbage_ids_def by simp_all

lemma retire_ids_garbage: "garbage_ids (retire_ids ids now ix) = garbage_ids ix \<union> set ids"
  by (auto simp: retire_ids_def garbage_ids_def map_of_inserts split: if_splits)

lemma retire_ids_rest:
  "ix_pending (retire_ids ids now ix) = ix_pending ix" "ix_manifests (retire_ids ids now ix) = ix_manifests ix"
  "ix_parts (retire_ids ids now ix) = ix_parts ix" "ref_sizes (retire_ids ids now ix) = ref_sizes ix"
  "ix_objects (retire_ids ids now ix) = ix_objects ix" "ix_buckets (retire_ids ids now ix) = ix_buckets ix"
  "ix_uploads (retire_ids ids now ix) = ix_uploads ix"
  by (simp_all add: retire_ids_def ref_sizes_def)

lemma man_refs_insert: "man_refs (t_insert k (Row ss) t) \<subseteq> man_refs t \<union> (\<lambda>s. (sr_id s, sr_size s)) ` set ss"
  by (auto simp: man_refs_def split: if_splits)

lemma man_refs_remove: "man_refs (t_remove k t) \<subseteq> man_refs t"
  by (auto simp: man_refs_def split: if_splits)

lemma part_refs_insert: "part_refs (t_insert k (Row r) t) \<subseteq> part_refs t \<union> {(pr_segment r, pr_size r)}"
  by (auto simp: part_refs_def split: if_splits)

lemma part_refs_removes: "part_refs (foldl (\<lambda>t r. t_remove (f r) t) t rs) \<subseteq> part_refs t"
  by (auto simp: part_refs_def map_of_removes split: if_splits)

lemma put_rows_rest:
  "put_rows bucket row now ix = (r, ix') \<Longrightarrow>
     ix_pending ix' = ix_pending ix \<and> ix_parts ix' = ix_parts ix \<and> garbage_ids ix' = garbage_ids ix \<union> set r
     \<and> ref_sizes ix' \<subseteq> ref_sizes ix \<union> (\<lambda>s. (sr_id s, sr_size s)) ` set (or_segments row)"
proof -
  assume "put_rows bucket row now ix = (r, ix')"
  then obtain k where "ix' = retire_ids r now (ix\<lparr>ix_objects := t_insert k (Row (or_meta row)) (ix_objects ix),
      ix_manifests := t_insert k (Row (or_segments row)) (ix_manifests ix)\<rparr>)"
    by (auto simp: put_rows_def Let_def retire_manifest_def)
  then show ?thesis
    using man_refs_insert[of k "or_segments row" "ix_manifests ix"]
    by (auto simp: retire_ids_rest retire_ids_garbage ref_sizes_def)
qed

lemma take_pending_pending:
  "take_pending ids ix = Inr ix' \<Longrightarrow> map_of (ix_pending ix') = (\<lambda>i. if i \<in> set ids then None else map_of (ix_pending ix) i)"
  by (induction ids arbitrary: ix) (auto split: if_splits)

text \<open>A row commit: its pending segments become an object.\<close>

lemma commit_row_moves:
  assumes "ix_ok ix" and "take_pending (map sr_id (or_segments row)) ix = Inr ix1" and "put_rows bucket row now ix1 = (r, ix')"
  shows "ix_moves ix ((\<lambda>s. (sr_id s, sr_size s)) ` set (or_segments row)) r ix'"
proof -
  let ?ids = "mset (map sr_id (or_segments row))"
  note t = take_pending_places[OF assms(2) ix_okD(1)[OF assms(1)]]
  have o: "once (?ids + seg_places ix1)" using t ix_okD(2)[OF assms(1)] by (simp add: add.commute)
  note p = put_rows_places[OF _ o assms(3)] and q = put_rows_rest[OF assms(3)]
  obtain P where P: "ix1 = ix\<lparr>ix_pending := P\<rparr>" using t by blast
  have e: "garbage_ids ix' = garbage_ids ix \<union> set r" "ref_sizes ix1 = ref_sizes ix"
    using q by (simp_all add: P ref_sizes_def)
  have "pending_ids ix' \<subseteq> pending_ids ix"
    using q take_pending_pending[OF assms(2)] by (auto simp: pending_ids_def split: if_splits)
  moreover have "sr_id ` set (or_segments row) \<subseteq> pending_ids ix" using t by (auto simp: pending_ids_def)
  moreover have "seg_places ix' = seg_places ix" using p t by (simp add: add.commute)
  ultimately show ?thesis using t p q e o ix_okD(2)[OF assms(1)]
    unfolding ix_moves_def ix_ok_def by (auto simp: image_image)
qed

definition row_refs :: "object_row list \<Rightarrow> (string \<times> nat) set" where
  "row_refs rows = (\<Union>row \<in> set rows. (\<lambda>s. (sr_id s, sr_size s)) ` set (or_segments row))"

lemma commit_rows_moves:
  "ix_ok ix \<Longrightarrow> commit_rows bucket rows now ix = Inr (r, ix') \<Longrightarrow> ix_moves ix (row_refs rows) r ix'"
proof (induction rows arbitrary: ix r)
  case Nil
  then show ?case by (simp add: ix_moves_refl row_refs_def)
next
  case (Cons row rows)
  obtain ix1 where t: "take_pending (map sr_id (or_segments row)) ix = Inr ix1"
    using Cons.prems(2) by (auto split: sum.splits)
  obtain r2 ix2 where p: "put_rows bucket row now ix1 = (r2, ix2)" by fastforce
  obtain r3 where c: "commit_rows bucket rows now ix2 = Inr (r3, ix')" and r: "r = r2 @ r3"
    using Cons.prems(2) t p by (cases "commit_rows bucket rows now ix2") auto
  note m = commit_row_moves[OF Cons.prems(1) t p]
  show ?case
    using ix_moves_trans[OF m Cons.IH[OF ix_movesD(1)[OF m] c]] by (simp add: r row_refs_def)
qed

lemma commit_objects_moves:
  "ix_ok ix \<Longrightarrow> ix_commit_objects bucket rows now ix = Inr (r, ix') \<Longrightarrow> ix_moves ix (row_refs rows) r ix'"
  using commit_rows_moves by (auto simp: ix_commit_objects_def split: sum.splits)

text \<open>Giving up the places of some segments and retiring exactly these is a move.\<close>

lemma retire_moves:
  assumes "ix_ok ix" and "tables_ok ix1" and "seg_places ix1 + mset ids = seg_places ix" and "ref_sizes ix1 \<subseteq> ref_sizes ix"
    and "pending_ids ix1 \<subseteq> pending_ids ix" and "garbage_ids ix1 = garbage_ids ix"
  shows "ix_moves ix {} ids (retire_ids ids now ix1)"
proof -
  have o: "once (mset ids + seg_places ix1)" using assms(1,3) by (simp add: ix_ok_def add.commute)
  note r = retire_ids_places[OF assms(2) o, of now]
  have "pending_ids (retire_ids ids now ix1) = pending_ids ix1" by (simp add: pending_ids_def retire_ids_rest)
  then show ?thesis
    using r assms ix_okD(2)[OF assms(1)]
    by (simp add: ix_moves_def ix_ok_def retire_ids_rest retire_ids_garbage add.commute)
qed

lemma delete_object_moves:
  assumes "ix_ok ix" and "ix_delete_object bucket key now ix = Inr (r, ix')"
  shows "ix_moves ix {} r ix'"
proof -
  let ?k = "obj_key bucket key"
  define ix1 where "ix1 = ix\<lparr>ix_objects := t_remove ?k (ix_objects ix), ix_manifests := t_remove ?k (ix_manifests ix)\<rparr>"
  have r: "r = manifest_ids (map_of (ix_manifests ix) ?k)" and ix': "ix' = retire_ids r now ix1"
    using assms(2) by (auto simp: ix_delete_object_def Let_def retire_manifest_def ix1_def split: sum.splits)
  have t: "tables_ok ix1"
    using ix_okD(1)[OF assms(1)] objects_manifests_remove by (auto simp: tables_ok_def ix1_def)
  have "old_row manifest_place (ix_manifests ix) ?k = mset r"
    by (auto simp: old_row_def manifest_place_def r manifest_ids_def split: option.split)
  then have "row_sum manifest_place (ix_manifests ix1) + mset r = row_sum manifest_place (ix_manifests ix)"
    using row_sum_remove[OF tables_okD(3)[OF ix_okD(1)[OF assms(1)]], of manifest_place ?k] by (simp add: ix1_def)
  from arg_cong[OF this, of "\<lambda>x. x + row_sum part_place (ix_parts ix) + row_sum key_of (ix_pending ix) + row_sum key_of (ix_garbage ix)"]
  have "seg_places ix1 + mset r = seg_places ix"
    by (simp add: seg_places_def seg_refs_def ix1_def add_ac)
  then show ?thesis
    unfolding ix' using man_refs_remove[of ?k "ix_manifests ix"]
    by (intro retire_moves[OF assms(1) t]) (auto simp: ix1_def ref_sizes_def)
qed

lemma discard_loop_moves: "ix_ok ix \<Longrightarrow> discard_loop ids now ix = (r, ix') \<Longrightarrow> ix_moves ix {} r ix' \<and> set r \<subseteq> set ids"
proof (induction ids arbitrary: ix r)
  case (Cons i ids)
  show ?case
  proof (cases "map_of (ix_pending ix) i = None")
    case True
    then show ?thesis using Cons.IH[OF Cons.prems(1), of r] Cons.prems(2) by auto
  next
    case False
    let ?ix = "ix\<lparr>ix_pending := t_remove i (ix_pending ix), ix_garbage := t_insert i now (ix_garbage ix)\<rparr>"
    obtain ix1 where t: "take_pending [i] ix = Inr ix1" and e: "?ix = retire_ids [i] now ix1"
      using False by (simp add: retire_ids_def)
    note p = take_pending_places[OF t ix_okD(1)[OF Cons.prems(1)]]
    obtain P where P: "ix1 = ix\<lparr>ix_pending := P\<rparr>" using p by blast
    have "pending_ids ix1 \<subseteq> pending_ids ix"
      using take_pending_pending[OF t] by (auto simp: pending_ids_def split: if_splits)
    then have m: "ix_moves ix {} [i] ?ix"
      unfolding e using p by (intro retire_moves[OF Cons.prems(1)]) (auto simp: P ref_sizes_def)
    obtain r2 where d: "discard_loop ids now ?ix = (r2, ix')" and r: "r = i # r2"
      using Cons.prems(2) False by (auto split: prod.splits)
    show ?thesis
      using Cons.IH[OF ix_movesD(1)[OF m] d] ix_moves_trans[OF m, of "{}" r2 ix'] by (auto simp: r)
  qed
qed (simp add: ix_moves_refl)

lemma claim_due_moves:
  assumes "ix_ok ix" and "ix_claim_due now n ix = Inr (r, ix')"
  shows "ix_moves ix {} r ix'"
proof -
  define stale where "stale = map fst (filter (\<lambda>(i, since). saturating_add since PENDING_ORPHAN_AGE \<le> now) (ix_pending ix))"
  obtain r1 where d: "discard_loop stale now ix = (r1, ix')" and r: "r = take n (map fst (ix_garbage ix'))"
    using assms(2) by (cases "discard_loop stale now ix") (auto simp: ix_claim_due_def Let_def stale_def)
  have "set r \<subseteq> garbage_ids ix'"
    unfolding r garbage_ids_def by (auto dest!: in_set_takeD) (metis fst_conv image_eqI map_of_eq_None_iff not_None_eq)
  then show ?thesis using discard_loop_moves[OF assms(1) d] by (simp add: ix_moves_def)
qed

lemma places_parts:
  assumes "row_sum part_place q + A = row_sum part_place (ix_parts ix) + B"
  shows "seg_places (ix\<lparr>ix_parts := q\<rparr>) + A = seg_places ix + B"
proof -
  define R where "R = row_sum manifest_place (ix_manifests ix) + row_sum key_of (ix_pending ix) + row_sum key_of (ix_garbage ix)"
  have "seg_places (ix\<lparr>ix_parts := q\<rparr>) + A = (row_sum part_place q + A) + R"
    by (simp add: seg_places_def seg_refs_def R_def ac_simps)
  also have "\<dots> = seg_places ix + B" unfolding assms by (simp add: seg_places_def seg_refs_def R_def ac_simps)
  finally show ?thesis .
qed

lemma commit_part_moves:
  assumes "ix_ok ix" and "ix_commit_part bucket u part row now ix = Inr (r, ix')"
  shows "ix_moves ix {(pr_segment row, pr_size row)} r ix'"
proof -
  let ?k = "part_key u part"
  obtain ix0 where t: "take_pending [pr_segment row] ix = Inr ix0"
    and r: "r = (case map_of (ix_parts ix0) ?k of Some c \<Rightarrow> part_id c | None \<Rightarrow> [])"
    and ix': "ix' = retire_ids r now (ix0\<lparr>ix_parts := t_insert ?k (Row row) (ix_parts ix0)\<rparr>)"
    using assms(2) by (auto simp: ix_commit_part_def Let_def split: sum.splits if_splits option.splits)
  define ix1 where "ix1 = ix0\<lparr>ix_parts := t_insert ?k (Row row) (ix_parts ix0)\<rparr>"
  note p = take_pending_places[OF t ix_okD(1)[OF assms(1)]]
  obtain P where P: "ix0 = ix\<lparr>ix_pending := P\<rparr>" using p by blast
  have t1: "tables_ok ix1" using p by (simp add: tables_ok_def ix1_def)
  have "old_row part_place (ix_parts ix0) ?k = mset r" by (auto simp: old_row_def part_place_def r split: option.split)
  then have "row_sum part_place (t_insert ?k (Row row) (ix_parts ix0)) + mset r = row_sum part_place (ix_parts ix0) + {#pr_segment row#}"
    using row_sum_insert[OF tables_okD(5), of ix0 part_place ?k "Row row"] p by (simp add: part_place_def)
  from places_parts[OF this] have s: "mset r + seg_places ix1 = seg_places ix"
    using p by (simp add: ix1_def add.commute)
  have o: "once (mset r + seg_places ix1)" using s ix_okD(2)[OF assms(1)] by simp
  note q = retire_ids_places[OF t1 o, of now]
  have ids: "pending_ids ix' \<subseteq> pending_ids ix" "pr_segment row \<in> pending_ids ix" "garbage_ids ix' = garbage_ids ix \<union> set r"
    using take_pending_pending[OF t] p
    by (auto simp: ix' pending_ids_def retire_ids_rest retire_ids_garbage P split: if_splits)
  have "ref_sizes ix' \<subseteq> ref_sizes ix \<union> {(pr_segment row, pr_size row)}"
    using part_refs_insert[of ?k row "ix_parts ix"] by (auto simp: ix' retire_ids_rest ref_sizes_def P)
  then show ?thesis
    using q s ids ix_okD(2)[OF assms(1)] by (simp add: ix_moves_def ix_ok_def ix' flip: ix1_def)
qed

lemma byte_char_byte [simp]: "byte_char (char_byte c) = c"
proof -
  have "of_char c < (256 :: nat)" using of_char_mod_256[of c, where ?'a = nat] by (metis mod_less_divisor zero_less_numeral)
  then have "unat (char_byte c) = of_char c" by (simp add: char_byte_def unat_of_nat)
  then show ?thesis by (simp add: byte_char_def)
qed

lemma char_byte_char [simp]: "char_byte (byte_char b) = b"
  by (simp add: char_byte_def byte_char_def of_char_of unat_bounds)

lemma u32_be_from_be: "length bs = 4 \<Longrightarrow> u32_to_be (u32_from_be bs) = bs"
  using be_bytes_from_be[of bs] from_be_lt[of bs] by (simp add: u32_to_be_def u32_from_be_def unat_of_nat)

lemma u32_from_to_be: "u32_from_be (u32_to_be w) = w"
  using unat_bounds(3)[of w] by (simp add: u32_from_be_def u32_to_be_def from_be_be_bytes)

lemma part_key_tail: "length t = 4 \<Longrightarrow> u @ NUL # t = part_key u (u32_from_be (map char_byte t))"
  by (simp add: part_key_def u32_be_from_be o_def)

lemma part_key_inj: "part_key u p = part_key u q \<longleftrightarrow> p = q"
proof
  assume "part_key u p = part_key u q"
  then have "map char_byte (map byte_char (u32_to_be p)) = map char_byte (map byte_char (u32_to_be q))" by (simp add: part_key_def)
  then show "p = q" using u32_from_to_be by (metis char_byte_char list.map_comp list.map_ident_strong o_apply)
qed simp

lemma stage_parts_from:
  assumes "stage_parts u n rows staged = Inr st" and "map_of st pn = Some r"
  shows "map_of staged pn = Some r
    \<or> (\<exists>k. (k, Row r) \<in> set rows \<and> length (drop n k) = 4 \<and> pn = u32_from_be (map char_byte (drop n k)))"
  using assms
proof (induction u n rows staged rule: stage_parts.induct)
  case (2 u n k c rows staged)
  show ?case
  proof (cases "length (drop n k) = 4")
    case True
    then obtain r' where c: "c = Row r'" using "2.prems"(1) by (cases c) (auto simp: Let_def)
    then show ?thesis using "2.IH"(2)[OF refl _ c] "2.prems" True by (auto simp: Let_def split: if_splits)
  next
    case False
    then show ?thesis using "2.IH"(1)[OF refl False] "2.prems" by (auto simp: Let_def)
  qed
qed simp

lemma staged_part:
  assumes "stage_parts u (length (u @ [NUL])) (t_range (u @ [NUL]) (u @ [SOH]) parts) [] = Inr st" and "map_of st pn = Some r"
    and "t_ok parts"
  shows "map_of parts (part_key u pn) = Some (Row r)"
proof -
  obtain k where k: "(k, Row r) \<in> set (t_range (u @ [NUL]) (u @ [SOH]) parts)" "length (drop (Suc (length u)) k) = 4"
    "pn = u32_from_be (map char_byte (drop (Suc (length u)) k))"
    using stage_parts_from[OF assms(1,2)] by auto
  then obtain x where x: "k = u @ NUL # x" "(k, Row r) \<in> set parts" by (auto simp: t_range_prefix)
  have e: "drop (Suc (length u)) k = x" unfolding x(1) by simp
  have "length x = 4" "pn = u32_from_be (map char_byte x)" using k(2,3) unfolding e by simp_all
  then have "k = part_key u pn" using part_key_tail[of x u] x(1) by (simp only:)
  then show ?thesis using x(2) t_ok_distinct[OF assms(3)] by simp
qed

lemma pick_parts_from:
  "pick_parts cnt i pns staged = Inr (segs, ds) \<Longrightarrow>
     list_all2 (\<lambda>pn s. \<exists>row. map_of staged pn = Some row \<and> s = \<lparr>sr_id = pr_segment row, sr_size = pr_size row\<rparr>) pns segs"
proof (induction cnt i pns staged arbitrary: segs ds rule: pick_parts.induct)
  case (2 cnt i pn pns staged)
  obtain row where r: "map_of staged pn = Some row" using "2.prems" by (auto split: option.splits)
  obtain segs' ds' where p: "pick_parts cnt (i + 1) pns (t_remove pn staged) = Inr (segs', ds')"
    and s: "segs = \<lparr>sr_id = pr_segment row, sr_size = pr_size row\<rparr> # segs'"
    using "2.prems" r by (cases "pick_parts cnt (i + 1) pns (t_remove pn staged)") (auto split: if_splits)
  have n: "\<not> (pr_size row < MIN_PART_SIZE \<and> i + 1 < cnt)" using "2.prems" r by (auto split: if_splits)
  show ?case
    using "2.IH"[OF r n p] r unfolding s
    by (auto elim!: list_all2_mono split: if_splits)
qed simp

lemma drop_upload_moves:
  assumes "ix_ok ix" and "drop_upload bucket u now ix = (r, ix')"
  shows "ix_moves ix {} r ix' \<and> ix_objects ix' = ix_objects ix \<and> ix_manifests ix' = ix_manifests ix"
proof -
  define doomed where "doomed = t_range (u @ [NUL]) (u @ [SOH]) (ix_parts ix)"
  let ?q = "foldl (\<lambda>t r. t_remove (fst r) t) (ix_parts ix) doomed"
  define ix1 where "ix1 = ix\<lparr>ix_parts := ?q\<rparr>"
  note t = tables_okD[OF ix_okD(1)[OF assms(1)]]
  have r: "r = concat (map (\<lambda>r. part_id (snd r)) doomed)"
    and ix': "ix' = (retire_ids r now ix1)\<lparr>ix_uploads := t_remove (upload_key bucket u) (ix_uploads ix)\<rparr>"
    using assms(2) by (auto simp: drop_upload_def upload_part_range_def Let_def doomed_def ix1_def retire_ids_def)
  have sub: "set doomed \<subseteq> set (ix_parts ix)" and d: "distinct (map fst doomed)"
    using t_ok_distinct[OF t(5)] by (auto simp: doomed_def t_range_def distinct_map_filter)
  have "old_row part_place (ix_parts ix) (fst x) = mset (part_id (snd x))" if "x \<in> set doomed" for x
    using sub that t_ok_distinct[OF t(5)] by (cases x) (auto simp: part_place_def dest!: subsetD)
  then have "(\<Sum>x\<leftarrow>doomed. old_row part_place (ix_parts ix) (fst x)) = mset r"
    by (simp add: r mset_concat o_def cong: map_cong)
  then have "row_sum part_place ?q + mset r = row_sum part_place (ix_parts ix) + {#}"
    using row_sum_removes[OF t(5) d, of part_place] by simp
  from places_parts[OF this] have s: "seg_places ix1 + mset r = seg_places ix" by (simp add: ix1_def)
  have k: "tables_ok ix1" using ix_okD(1)[OF assms(1)] by (simp add: tables_ok_def ix1_def)
  have "ix_moves ix {} r (retire_ids r now ix1)"
    using s part_refs_removes[of fst "ix_parts ix" doomed]
    by (intro retire_moves[OF assms(1) k]) (auto simp: ix1_def ref_sizes_def)
  then show ?thesis
    by (simp add: ix_moves_def ix' ix_ok_def tables_ok_def seg_places_def seg_refs_def ref_sizes_def retire_ids_rest ix1_def)
qed

lemma abort_loop_moves:
  "ix_ok ix \<Longrightarrow> set retired \<subseteq> garbage_ids ix \<Longrightarrow> abort_loop ks now n retired ix = ((m, r), ix') \<Longrightarrow> ix_moves ix {} r ix'"
proof (induction ks now n retired ix arbitrary: m r ix' rule: abort_loop.induct)
  case (1 now n retired ix)
  then show ?case using ix_moves_refl[of ix] by (simp add: ix_moves_def)
next
  case (2 k ks now n retired ix)
  show ?case
  proof (cases "SWEEP_PART_ROWS \<le> length retired")
    case True
    then show ?thesis using "2.prems" ix_moves_refl[of ix] by (simp add: ix_moves_def)
  next
    case False
    show ?thesis
    proof (cases "split_once NUL k")
      case None
      then show ?thesis using "2.IH"(1)[OF False None "2.prems"(1,2)] "2.prems"(3) False by simp
    next
      case (Some bu)
      obtain b u where bu: "bu = (b, u)" by (cases bu)
      obtain segs ix1 where d: "drop_upload b u now ix = (segs, ix1)" by fastforce
      have m: "ix_moves ix {} segs ix1" using drop_upload_moves[OF "2.prems"(1) d] by blast
      have g: "set (retired @ segs) \<subseteq> garbage_ids ix1" using ix_movesD(5,7)[OF m] "2.prems"(2) by auto
      have "ix_moves ix1 {} r ix'"
        using "2.IH"(2)[OF False Some bu[symmetric] d[symmetric] refl ix_movesD(1)[OF m] g] "2.prems"(3) False Some d by (simp add: bu)
      from ix_moves_trans[OF m this] show ?thesis by (simp add: ix_moves_def)
    qed
  qed
qed

lemma pns_distinct:
  "\<not> list_ex (\<lambda>(a, b). a \<ge> b) (zip pns (tl pns)) \<Longrightarrow> sorted_wrt (<) (pns :: 'a :: linorder list)"
proof (induction pns)
  case (Cons x pns)
  then show ?case
  proof (cases pns)
    case (Cons y ys)
    then have "sorted_wrt (<) (y # ys)" "x < y" using Cons.IH Cons.prems by auto
    then show ?thesis using Cons by fastforce
  qed simp
qed simp

lemma complete_upload_shape:
  assumes "ix_complete_upload md5 bucket key u pns now ix = Inr ((meta, r), ix')"
  obtains segs ds st q ix1 ix2 r1 r2 where
    "stage_parts u (length (u @ [NUL])) (t_range (u @ [NUL]) (u @ [SOH]) (ix_parts ix)) [] = Inr st"
    "pick_parts (length pns) 0 pns st = Inr (segs, ds)" "sorted_wrt (<) pns" "pns \<noteq> []"
    "q = foldl (\<lambda>t pn. t_remove (part_key u pn) t) (ix_parts ix) pns" "ix1 = ix\<lparr>ix_parts := q\<rparr>"
    "drop_upload bucket u now ix1 = (r1, ix2)" "put_rows bucket \<lparr>or_meta = meta, or_segments = segs\<rparr> now ix2 = (r2, ix')"
    "r = r1 @ r2" "om_key meta = key" "om_size meta = (\<Sum>s\<leftarrow>segs. sr_size s)"
proof -
  obtain info where i: "require_upload bucket u ix = Inr info"
    using assms by (cases "require_upload bucket u ix") (auto simp: ix_complete_upload_def)
  have g: "ui_key info = key" "pns \<noteq> []" "\<not> list_ex (\<lambda>(a, b). a \<ge> b) (zip pns (tl pns))"
    using assms i by (auto simp: ix_complete_upload_def split: if_splits)
  obtain st where st: "stage_parts u (length (u @ [NUL])) (t_range (u @ [NUL]) (u @ [SOH]) (ix_parts ix)) [] = Inr st"
    using assms i g by (auto simp: ix_complete_upload_def upload_part_range_def split: sum.splits)
  obtain segs ds where p: "pick_parts (length pns) 0 pns st = Inr (segs, ds)"
    using assms i g st by (auto simp: ix_complete_upload_def upload_part_range_def split: sum.splits)
  define ix1 where "ix1 = ix\<lparr>ix_parts := foldl (\<lambda>t pn. t_remove (part_key u pn) t) (ix_parts ix) pns\<rparr>"
  obtain r1 ix2 where d: "drop_upload bucket u now ix1 = (r1, ix2)" by fastforce
  obtain r2 where w: "put_rows bucket \<lparr>or_meta = meta, or_segments = segs\<rparr> now ix2 = (r2, ix')"
    and m: "r = r1 @ r2" "om_key meta = key" "om_size meta = (\<Sum>s\<leftarrow>segs. sr_size s)"
    using assms i g st p d
    by (auto simp: ix_complete_upload_def upload_part_range_def ix1_def Let_def split: prod.splits)
  show thesis by (rule that[OF st p pns_distinct[OF g(3)] g(2) refl ix1_def d w m])
qed

lemma part_refsI: "map_of t k = Some (Row r) \<Longrightarrow> (pr_segment r, pr_size r) \<in> part_refs t"
  by (auto simp: part_refs_def)

lemma complete_upload_moves:
  assumes "ix_ok ix" and "ix_complete_upload md5 bucket key u pns now ix = Inr ((meta, r), ix')"
  shows "ix_moves ix {} r ix'"
proof -
  obtain segs ds st q ix1 ix2 r1 r2 where c:
    "stage_parts u (length (u @ [NUL])) (t_range (u @ [NUL]) (u @ [SOH]) (ix_parts ix)) [] = Inr st"
    "pick_parts (length pns) 0 pns st = Inr (segs, ds)" "sorted_wrt (<) pns" "pns \<noteq> []"
    "q = foldl (\<lambda>t pn. t_remove (part_key u pn) t) (ix_parts ix) pns" "ix1 = ix\<lparr>ix_parts := q\<rparr>"
    "drop_upload bucket u now ix1 = (r1, ix2)" "put_rows bucket \<lparr>or_meta = meta, or_segments = segs\<rparr> now ix2 = (r2, ix')"
    "r = r1 @ r2"
    by (rule complete_upload_shape[OF assms(2)])
  note t = tables_okD[OF ix_okD(1)[OF assms(1)]]
  have rows: "list_all2 (\<lambda>pn s. \<exists>row. map_of (ix_parts ix) (part_key u pn) = Some (Row row)
      \<and> s = \<lparr>sr_id = pr_segment row, sr_size = pr_size row\<rparr>) pns segs"
    using pick_parts_from[OF c(2)] staged_part[OF c(1) _ t(5)] by (auto elim!: list_all2_mono)
  then have "(\<Sum>pn\<leftarrow>pns. old_row part_place (ix_parts ix) (part_key u pn)) = mset (map sr_id segs)"
    by (induction rule: list_all2_induct) (auto simp: part_place_def)
  moreover have "distinct (map (part_key u) pns)"
    using c(3) by (simp add: distinct_map inj_on_def part_key_inj strict_sorted_iff)
  ultimately have "row_sum part_place q + mset (map sr_id segs) = row_sum part_place (ix_parts ix) + {#}"
    using row_sum_removes[OF t(5), of "part_key u" pns part_place] unfolding c(5) by simp
  from places_parts[OF this] have s: "seg_places ix1 + mset (map sr_id segs) = seg_places ix" by (simp add: c(6))
  have k1: "ix_ok ix1"
    using ix_okD[OF assms(1)] once_add[of "seg_places ix1" "mset (map sr_id segs)"] s
    by (simp add: ix_ok_def tables_ok_def c(5,6))
  note m = conjunct1[OF drop_upload_moves[OF k1 c(7)]]
  have o: "once (mset (map sr_id (or_segments \<lparr>or_meta = meta, or_segments = segs\<rparr>)) + seg_places ix2)"
    using s ix_okD(2)[OF assms(1)] ix_movesD(2)[OF m] by (simp add: add.commute)
  note p = put_rows_places[OF ix_okD(1)[OF ix_movesD(1)[OF m]] o c(8)] and e = put_rows_rest[OF c(8)]
  have a: "(\<lambda>s. (sr_id s, sr_size s)) ` set segs \<subseteq> part_refs (ix_parts ix)"
    using rows by (induction rule: list_all2_induct) (auto intro: part_refsI)
  have b: "ref_sizes ix1 \<subseteq> ref_sizes ix"
    using part_refs_removes[of "part_key u" "ix_parts ix" pns] by (auto simp: ref_sizes_def c(5,6))
  have d: "part_refs (ix_parts ix) \<subseteq> ref_sizes ix" by (simp add: ref_sizes_def)
  have f: "ref_sizes ix' \<subseteq> ref_sizes ix2 \<union> (\<lambda>s. (sr_id s, sr_size s)) ` set segs" using e by simp
  have "ref_sizes ix2 \<subseteq> ref_sizes ix1" using ix_movesD(3)[OF m] by simp
  then have rs: "ref_sizes ix' \<subseteq> ref_sizes ix"
    by (intro order_trans[OF f] Un_least order_trans[OF a d]) (rule order_trans[OF _ b])
  have "seg_places ix' = seg_places ix" using p(1) s ix_movesD(2)[OF m] by (simp add: add.commute)
  moreover have "pending_ids ix' = pending_ids ix2" using e by (simp add: pending_ids_def)
  moreover have "pending_ids ix1 = pending_ids ix" "garbage_ids ix1 = garbage_ids ix" by (simp_all add: c(6))
  ultimately show ?thesis
    using p(2) e rs ix_movesD(5-7)[OF m] ix_okD(2)[OF assms(1)] by (auto simp: ix_moves_def ix_ok_def c(9))
qed

text \<open>The transactions that do not touch segments.\<close>

lemma other_moves:
  assumes "ix_ok ix"
  shows "ix_create_bucket b n ix = Inr (v, ix') \<Longrightarrow> ix_moves ix {} [] ix'"
    and "ix_ensure_bucket b n ix = Inr (v, ix') \<Longrightarrow> ix_moves ix {} [] ix'"
    and "ix_delete_bucket b ix = Inr (v, ix') \<Longrightarrow> ix_moves ix {} [] ix'"
    and "ix_set_cors b cors ix = Inr (v, ix') \<Longrightarrow> ix_moves ix {} [] ix'"
    and "ix_set_layout n ix = Inr (v, ix') \<Longrightarrow> ix_moves ix {} [] ix'"
    and "ix_create_upload b u info keep ix = Inr (v, ix') \<Longrightarrow> ix_moves ix {} [] ix'"
  using assms
  by (auto simp: ix_create_bucket_def ix_ensure_bucket_def ix_delete_bucket_def ix_set_cors_def ix_set_layout_def ix_create_upload_def
      bucket_range_def ix_moves_def ix_ok_def tables_ok_def seg_places_def seg_refs_def ref_sizes_def pending_ids_def garbage_ids_def Let_def
      split: if_splits option.splits sum.splits)

lemma add_pending_places:
  assumes "ix_ok ix" and "ix_add_pending [i] now ix = Inr (v, ix')" and "i \<notin># seg_places ix"
  shows "ix_ok ix'" "seg_places ix' = add_mset i (seg_places ix)" "ref_sizes ix' = ref_sizes ix"
    "pending_ids ix' = insert i (pending_ids ix)" "garbage_ids ix' = garbage_ids ix"
proof -
  have ix': "ix' = ix\<lparr>ix_pending := t_insert i now (ix_pending ix)\<rparr>" using assms(2) by (simp add: ix_add_pending_def)
  have "map_of (ix_pending ix) i = None"
    using assms(3) in_row_sum_keys[of i "ix_pending ix"] by (simp add: seg_places_def)
  then have "row_sum key_of (ix_pending ix') = add_mset i (row_sum key_of (ix_pending ix))"
    using row_sum_insert[OF tables_okD(6)[OF ix_okD(1)[OF assms(1)]], of key_of i now] by (simp add: ix')
  then show p: "seg_places ix' = add_mset i (seg_places ix)" by (simp add: seg_places_def seg_refs_def ix')
  show "ix_ok ix'"
    using ix_okD[OF assms(1)] assms(3) p
    by (auto simp: ix_ok_def tables_ok_def ix' once_def not_in_iff)
qed (use assms(2) in \<open>auto simp: ix_add_pending_def ref_sizes_def pending_ids_def garbage_ids_def split: if_splits\<close>)

lemma forget_segments_places:
  assumes "ix_ok ix" and "ix_forget_segments ids ix = Inr (v, ix')"
  shows "ix_ok ix'" "set_mset (seg_places ix') \<subseteq> set_mset (seg_places ix)" "ref_sizes ix' = ref_sizes ix"
    "pending_ids ix' = pending_ids ix" "garbage_ids ix' = garbage_ids ix - set ids"
proof -
  let ?g = "foldl (\<lambda>g i. t_remove i g) (ix_garbage ix) ids"
  have ix': "ix' = ix\<lparr>ix_garbage := ?g\<rparr>" using assms(2) by (simp add: ix_forget_segments_def)
  have "t_ok g \<Longrightarrow> row_sum key_of (foldl (\<lambda>g i. t_remove i g) g ids) \<subseteq># row_sum key_of g" for g :: "(string, nat) table"
  proof (induction ids arbitrary: g)
    case (Cons i ids)
    have "row_sum key_of (t_remove i g) \<subseteq># row_sum key_of g"
      using row_sum_remove[OF Cons.prems, of key_of i] by (metis mset_subset_eq_add_left)
    then show ?case using Cons.IH[of "t_remove i g"] Cons.prems by (auto intro: subset_mset.order_trans)
  qed simp
  from this[OF tables_okD(7)[OF ix_okD(1)[OF assms(1)]]] have s: "seg_places ix' \<subseteq># seg_places ix"
    by (simp add: seg_places_def seg_refs_def ix')
  show "set_mset (seg_places ix') \<subseteq> set_mset (seg_places ix)" by (rule set_mset_mono[OF s])
  have "once (seg_places ix')" using ix_okD(2)[OF assms(1)] s unfolding once_def by (meson le_trans mset_subset_eq_count)
  then show "ix_ok ix'" using ix_okD(1)[OF assms(1)] t_ok_removes[of "ix_garbage ix" id ids] by (simp add: ix_ok_def tables_ok_def ix')
  show "garbage_ids ix' = garbage_ids ix - set ids"
    using map_of_removes[of id "ix_garbage ix" ids] by (auto simp: ix' garbage_ids_def split: if_splits)
qed (use assms(2) in \<open>auto simp: ix_forget_segments_def ref_sizes_def pending_ids_def\<close>)

end
