(* ===== verification/Obj_List.thy ===== *)
theory Obj_List
  imports Obj_Index_Inv
begin

text \<open>
  ListObjectsV2 over the index: \<open>Index::list\<close> of \<open>crates/jkbase-objectstore/src/index.rs\<close>, a range scan that
  seeks past a folder once it has emitted it. The scan is shown to end (each seek passes at least one row)
  and to compute the reference listing, and pages are shown to continue where the last one ended.
\<close>

section \<open>The scan\<close>

text \<open>\<open>s.find(d)\<close>: where \<open>d\<close> first occurs.\<close>

fun str_find :: "string \<Rightarrow> string \<Rightarrow> nat option" where
  "str_find d [] = (if d = [] then Some 0 else None)"
| "str_find d (c # s) = (if starts_with d (c # s) then Some 0 else map_option Suc (str_find d s))"

definition is_utf8 :: "string \<Rightarrow> bool" where
  "is_utf8 s = utf8_valid (map char_byte s)"

definition list_folder :: "string \<Rightarrow> string option \<Rightarrow> string \<Rightarrow> string option" where
  "list_folder prefix delimiter key =
     (case delimiter of
        None \<Rightarrow> None
      | Some d \<Rightarrow> map_option (\<lambda>i. take (length prefix + i + length d) key) (str_find d (drop (length prefix) key)))"

definition list_skip :: "string option \<Rightarrow> string \<Rightarrow> bool" where
  "list_skip start_after entry = (case start_after of Some sa \<Rightarrow> entry \<le> sa | None \<Rightarrow> False)"

text \<open>An entry of a page: an object with its metadata, or a folded folder.\<close>

type_synonym list_entry = "string \<times> object_meta option"

text \<open>
  The inner loop, over the rows from some key on: the entries so far and, when a folder was met, the key
  to go on from.
\<close>

fun list_rows ::
  "nat \<Rightarrow> string \<Rightarrow> string option \<Rightarrow> string option \<Rightarrow> nat \<Rightarrow> (string, object_meta cell) table \<Rightarrow> list_entry list
   \<Rightarrow> object_error + list_entry list \<times> string option" where
  "list_rows n prefix delimiter start_after max_keys [] es = Inr (es, None)"
| "list_rows n prefix delimiter start_after max_keys ((k, c) # rows) es =
     (let key = drop n k
      in if \<not> is_utf8 key then list_rows n prefix delimiter start_after max_keys rows es
         else if \<not> starts_with prefix key then Inr (es, None)
         else (case list_folder prefix delimiter key of
                 Some folder \<Rightarrow>
                   (let es = (if list_skip start_after folder then es else es @ [(folder, None)])
                    in if length es > max_keys then Inr (es, None) else Inr (es, Some (folder @ [CHR 0xFF])))
               | None \<Rightarrow>
                   (if list_skip start_after key then list_rows n prefix delimiter start_after max_keys rows es
                    else (case c of
                            Unreadable \<Rightarrow> Inl (CorruptMeta key)
                          | Row m \<Rightarrow>
                              (let es = es @ [(key, Some m)]
                               in if length es > max_keys then Inr (es, None)
                                  else list_rows n prefix delimiter start_after max_keys rows es)))))"

lemma utf8_no_ff: "utf8_valid bs \<Longrightarrow> 0xFF \<notin> set bs"
proof (induction bs rule: utf8_valid.induct)
  case (2 a bs)
  show ?case
    using 2 by (auto simp: utf8_cont_def split: if_splits list.splits)
qed simp

section \<open>The order of keys\<close>

lemma is_utf8_no_ff: "is_utf8 s \<Longrightarrow> CHR 0xFF \<notin> set s"
  using utf8_no_ff[of "map char_byte s"] by (force simp: is_utf8_def char_byte_def)

lemma append_less_iff: "a @ x < a @ y \<longleftrightarrow> x < (y :: string)"
  by (induction a) auto

lemma append_le_iff: "a @ x \<le> a @ y \<longleftrightarrow> x \<le> (y :: string)"
  by (induction a) auto

lemma less_ff: "CHR 0xFF \<notin> set r \<Longrightarrow> r < [CHR 0xFF]"
proof (cases r)
  case (Cons c s)
  assume "CHR 0xFF \<notin> set r"
  then have "c \<noteq> CHR 0xFF" by (auto simp: Cons)
  then have "of_char c \<noteq> (255 :: nat)" by (auto simp: of_char_eq_iff [symmetric, where ?'a = nat])
  then have "of_char c < (255 :: nat)" using nat_of_char_less_256[of c] by linarith
  then have "c < CHR 0xFF" by (simp add: less_char_def)
  then show ?thesis by (simp add: Cons)
qed simp

text \<open>The keys below \<open>f\<close> lie just under \<open>f ++ 0xFF\<close>.\<close>

lemma prefix_below: "CHR 0xFF \<notin> set k \<Longrightarrow> k = f @ r \<Longrightarrow> k < f @ [CHR 0xFF]"
  using less_ff[of r] by (simp add: append_less_iff)

lemma between_prefix: "f @ r \<le> k \<Longrightarrow> k < f @ [CHR 0xFF] \<Longrightarrow> \<exists>x. k = f @ x"
proof (induction f arbitrary: k)
  case (Cons a f)
  then show ?case by (cases k) auto
qed auto

lemma not_prefix_above:
  "p \<le> k \<Longrightarrow> \<not> starts_with p k \<Longrightarrow> k < k' \<Longrightarrow> \<not> starts_with p k'"
proof (induction p arbitrary: k k')
  case Nil
  then show ?case by (simp add: starts_with_iff)
next
  case (Cons a p)
  show ?case
  proof
    assume "starts_with (a # p) k'"
    then obtain y where y: "k' = a # y" "starts_with p y" by (auto simp: starts_with_iff)
    obtain x where x: "k = a # x" using Cons.prems y(1) by (cases k) auto
    then show False using Cons.IH[of x y] Cons.prems y by (auto simp: starts_with_iff)
  qed
qed

lemma starts_with_le: "starts_with p k \<Longrightarrow> p \<le> k"
  using append_le_iff[of p "[]"] by (auto simp: starts_with_iff)

section \<open>Termination\<close>

lemma list_folder_prefix: "list_folder p d k = Some f \<Longrightarrow> \<exists>r. k = f @ r"
  by (auto simp: list_folder_def split: option.splits) (metis append_take_drop_id)

lemma list_rows_resume:
  "list_rows n p d sa mk rows es = Inr (es', Some nxt) \<Longrightarrow>
     \<exists>k c f. (k, c) \<in> set rows \<and> nxt = f @ [CHR 0xFF] \<and> is_utf8 (drop n k) \<and> starts_with p (drop n k)
       \<and> list_folder p d (drop n k) = Some f"
proof (induction n p d sa mk rows es rule: list_rows.induct)
  case (2 n p d sa mk k c rows es)
  show ?case
    using 2 by (auto simp: Let_def split: if_splits option.splits cell.splits) blast+
qed simp

lemma resume_less:
  assumes "list_rows n p d sa mk rows es = Inr (es', Some nxt)"
  shows "\<exists>k c. (k, c) \<in> set rows \<and> drop n k < nxt"
proof -
  obtain k c f where k: "(k, c) \<in> set rows" "nxt = f @ [CHR 0xFF]" "is_utf8 (drop n k)" "list_folder p d (drop n k) = Some f"
    using list_rows_resume[OF assms] by blast
  obtain r where r: "drop n k = f @ r" using list_folder_prefix[OF k(4)] by blast
  have "drop n k < nxt" unfolding k(2) by (rule prefix_below[OF is_utf8_no_ff[OF k(3)] r])
  then show ?thesis using k(1) by blast
qed

text \<open>The outer loop over the keys of a bucket, from \<open>from\<close> on. Each round passes at least one row.\<close>

function list_scan ::
  "string \<Rightarrow> string \<Rightarrow> string option \<Rightarrow> string option \<Rightarrow> nat \<Rightarrow> (string, object_meta cell) table \<Rightarrow> string \<Rightarrow> list_entry list
   \<Rightarrow> object_error + list_entry list" where
  "list_scan bucket prefix delimiter start_after max_keys t from es =
     (case list_rows (Suc (length bucket)) prefix delimiter start_after max_keys
             (t_range (obj_key bucket from) (bucket @ [SOH]) t) es of
        Inl e \<Rightarrow> Inl e
      | Inr (es, None) \<Rightarrow> Inr es
      | Inr (es, Some nxt) \<Rightarrow> list_scan bucket prefix delimiter start_after max_keys t nxt es)"
  by auto

lemma range_shrinks:
  assumes "k \<in> fst ` set (t_range (obj_key b from) hi t)" and "k = obj_key b key" and "key < nxt"
  shows "length (t_range (obj_key b nxt) hi t) < length (t_range (obj_key b from) hi t)"
proof -
  let ?A = "t_range (obj_key b from) hi t"
  have o: "obj_key b x \<le> obj_key b y \<longleftrightarrow> x \<le> y" for x y by (simp add: obj_key_def append_le_iff)
  obtain r where r: "r \<in> set ?A" "fst r = k" using assms(1) by auto
  have f: "from \<le> key" using r assms(2) by (auto simp: t_range_def o)
  have "t_range (obj_key b nxt) hi t = filter (\<lambda>r. obj_key b nxt \<le> fst r) ?A"
    unfolding t_range_def filter_filter using f assms(3) o
    by (intro filter_cong) (auto intro: order_trans[of _ "obj_key b nxt"] simp: o)
  moreover have "\<not> obj_key b nxt \<le> fst r" using r assms(2,3) by (simp add: o)
  ultimately show ?thesis using r(1) length_filter_less[of r ?A] by simp
qed

lemma in_bucket_range:
  assumes "k \<in> fst ` set (t_range (obj_key b from) (b @ [SOH]) t)"
  shows "\<exists>key. k = obj_key b key \<and> drop (Suc (length b)) k = key"
proof -
  have r: "obj_key b from \<le> k" "k < b @ [SOH]" using assms by (auto simp: t_range_def)
  moreover have "b @ [NUL] \<le> obj_key b from" by (simp add: obj_key_def append_le_iff)
  ultimately have "\<exists>x. k = b @ NUL # x" using prefix_range[of b k] by auto
  then show ?thesis by (auto simp: obj_key_def)
qed

termination list_scan
proof (relation "measure (\<lambda>(b, p, d, sa, mk, t, from, es). length (t_range (obj_key b from) (b @ [SOH]) t))", goal_cases)
  case (2 b p d sa mk t fr es r es' o' nxt)
  then obtain k c where k: "(k, c) \<in> set (t_range (obj_key b fr) (b @ [SOH]) t)" "drop (Suc (length b)) k < nxt"
    using resume_less by metis
  have kk: "k \<in> fst ` set (t_range (obj_key b fr) (b @ [SOH]) t)" using k(1) by force
  then obtain key where "k = obj_key b key" "drop (Suc (length b)) k = key" using in_bucket_range by blast
  then show ?case using range_shrinks[OF kk, of key nxt] k(2) by simp
qed simp

declare list_scan.simps [simp del]

record list_v2_page =
  lp_objects :: "object_meta list"
  lp_common_prefixes :: "string list"
  lp_is_truncated :: bool
  lp_next_continuation_token :: "string option"

definition ix_list ::
  "string \<Rightarrow> string \<Rightarrow> string option \<Rightarrow> string option \<Rightarrow> nat \<Rightarrow> obj_index \<Rightarrow> object_error + list_v2_page" where
  "ix_list bucket prefix delimiter start_after max_keys ix =
     (case require_bucket bucket ix of
        Inl e \<Rightarrow> Inl e
      | Inr _ \<Rightarrow>
          (let delimiter = (if delimiter = Some [] then None else delimiter);
               from = (case start_after of Some sa \<Rightarrow> (if sa > prefix then sa else prefix) | None \<Rightarrow> prefix)
           in case list_scan bucket prefix delimiter start_after max_keys (ix_objects ix) from [] of
                Inl e \<Rightarrow> Inl e
              | Inr entries \<Rightarrow>
                  (let is_truncated = (length entries > max_keys);
                       entries = take max_keys entries
                   in Inr \<lparr>lp_objects = List.map_filter snd entries,
                           lp_common_prefixes = map fst (filter (\<lambda>e. snd e = None) entries),
                           lp_is_truncated = is_truncated,
                           lp_next_continuation_token =
                             (if is_truncated \<and> entries \<noteq> [] then Some (fst (last entries)) else None)\<rparr>)))"

section \<open>The reference listing\<close>

text \<open>
  What a listing means: the keys of the bucket under the prefix, in order, each folded to its folder, each
  folder once; then the part after \<open>start_after\<close>, cut to the page size.
\<close>

definition entry_of :: "string \<Rightarrow> string option \<Rightarrow> string \<times> object_meta cell \<Rightarrow> list_entry" where
  "entry_of prefix delimiter r =
     (case list_folder prefix delimiter (fst r) of Some f \<Rightarrow> (f, None) | None \<Rightarrow> (fst r, readable (snd r)))"

definition visible :: "string \<Rightarrow> string \<times> 'a \<Rightarrow> bool" where
  "visible prefix r \<longleftrightarrow> is_utf8 (fst r) \<and> starts_with prefix (fst r)"

definition all_entries :: "string \<Rightarrow> string option \<Rightarrow> (string, object_meta cell) table \<Rightarrow> list_entry list" where
  "all_entries prefix delimiter rows = remdups_adj (map (entry_of prefix delimiter) (filter (visible prefix) rows))"

definition bucket_rows :: "string \<Rightarrow> (string, 'a) table \<Rightarrow> (string, 'a) table" where
  "bucket_rows bucket t =
     map (\<lambda>r. (drop (Suc (length bucket)) (fst r), snd r)) (t_range (bucket @ [NUL]) (bucket @ [SOH]) t)"

definition page_entries ::
  "string \<Rightarrow> string option \<Rightarrow> string option \<Rightarrow> (string, object_meta cell) table \<Rightarrow> list_entry list" where
  "page_entries prefix delimiter start_after rows =
     filter (\<lambda>e. \<not> list_skip start_after (fst e)) (all_entries prefix delimiter rows)"

lemma all_entries_simps:
  "all_entries p d [] = []"
  "\<not> visible p r \<Longrightarrow> all_entries p d (r # rows) = all_entries p d rows"
  by (simp_all add: all_entries_def)

lemma all_entries_none: "\<forall>r \<in> set rows. \<not> visible p r \<Longrightarrow> all_entries p d rows = []"
  by (simp add: all_entries_def)

lemma t_ok_Cons: "t_ok (r # rows) \<longleftrightarrow> t_ok rows \<and> (\<forall>x \<in> set rows. fst r < fst x)"
  by (auto simp: t_ok_def)

lemma entry_object_neq:
  assumes "list_folder p d k = None" and "k < fst r" and "readable c \<noteq> None"
  shows "entry_of p d r \<noteq> (k, readable c)"
  using assms by (auto simp: entry_of_def split: option.splits)

lemma all_entries_object:
  assumes "t_ok ((k, Row m) # rows)" and "visible p (k, Row m)" and "list_folder p d k = None"
  shows "all_entries p d ((k, Row m) # rows) = (k, Some m) # all_entries p d rows"
proof -
  have "e \<noteq> (k, Some m)" if "e \<in> set (map (entry_of p d) (filter (visible p) rows))" for e
    using that assms entry_object_neq[of p d k _ "Row m"] by (auto simp: t_ok_Cons readable_def)
  then show ?thesis
    using assms(2,3) by (cases "map (entry_of p d) (filter (visible p) rows)")
      (auto simp: all_entries_def entry_of_def readable_def)
qed

lemma starts_with_length: "starts_with d s \<Longrightarrow> length d \<le> length s"
  by (auto simp: starts_with_iff)

lemma str_find_length: "str_find d s = Some i \<Longrightarrow> i + length d \<le> length s"
proof (induction s arbitrary: i)
  case (Cons c s)
  then show ?case using starts_with_length[of d "c # s"] by (auto split: if_splits)
qed (auto split: if_splits)

lemma starts_with_append: "starts_with d (d @ y)"
  by (auto simp: starts_with_iff)

lemma str_find_start: "starts_with d s \<Longrightarrow> str_find d s = Some 0"
  by (cases s) (simp_all add: starts_with_iff)

lemma str_find_append: "str_find d (d @ y) = Some 0"
  by (rule str_find_start[OF starts_with_append])

lemma str_find_cut: "str_find d s = Some i \<Longrightarrow> str_find d (take (i + length d) s @ y) = Some i"
proof (induction s arbitrary: i)
  case (Cons c s)
  show ?case
  proof (cases "starts_with d (c # s)")
    case True
    then obtain r where r: "c # s = d @ r" by (auto simp: starts_with_iff)
    then have "take (length d) (c # s) @ y = d @ y" by simp
    moreover have "str_find d (d @ y) = Some 0"
      by (rule str_find_append)
    ultimately show ?thesis using Cons.prems True by simp
  next
    case False
    then obtain j where j: "str_find d s = Some j" "i = Suc j" using Cons.prems by auto
    have "\<not> starts_with d (c # take (j + length d) s @ y)"
    proof
      assume "starts_with d (c # take (j + length d) s @ y)"
      then obtain r where r: "c # take (j + length d) s @ y = d @ r" by (auto simp: starts_with_iff)
      note l = str_find_length[OF j(1)]
      have "d = take (length d) (c # take (j + length d) s @ y)" unfolding r by simp
      also have "\<dots> = take (length d) (c # s)" using l by (cases "length d") (auto simp: min_def)
      finally have "c # s = d @ drop (length d) (c # s)" by (metis append_take_drop_id)
      then show False using False by (auto simp: starts_with_iff)
    qed
    then show ?thesis using Cons.IH[OF j(1)] j(2) by simp
  qed
qed (use str_find_append[of "[]" y] in \<open>auto split: if_splits\<close>)

lemma folder_shared:
  assumes "list_folder p d k = Some f" and "starts_with p k" and "k' = f @ x"
  shows "list_folder p d k' = Some f \<and> starts_with p k'"
proof -
  obtain dd i where d: "d = Some dd" "str_find dd (drop (length p) k) = Some i" "f = take (length p + i + length dd) k"
    using assms(1) by (auto simp: list_folder_def split: option.splits)
  obtain r where k: "k = p @ r" using assms(2) by (auto simp: starts_with_iff)
  have f: "f = p @ take (i + length dd) r" by (simp add: d(3) k)
  have l: "i + length dd \<le> length r"
    using str_find_length[OF d(2)] by (simp add: k)
  have "str_find dd (take (i + length dd) r @ x) = Some i" using str_find_cut[of dd r i x] d(2) by (simp add: k)
  then show ?thesis using l unfolding assms(3) f d(1) list_folder_def by (simp add: starts_with_iff)
qed

lemma sorted_split:
  "t_ok rows \<Longrightarrow> rows = filter (\<lambda>r. fst r < y) rows @ filter (\<lambda>r. y \<le> fst r) rows"
proof (induction rows)
  case (Cons r rows)
  show ?case
  proof (cases "fst r < y")
    case True
    then show ?thesis using Cons by (auto simp: t_ok_Cons)
  next
    case False
    then have "filter (\<lambda>r. fst r < y) rows = []" using Cons.prems by (auto simp: t_ok_Cons filter_empty_conv)
    then show ?thesis using Cons False by (auto simp: t_ok_Cons)
  qed
qed simp

lemma remdups_adj_run: "\<forall>a \<in> set as. a = x \<Longrightarrow> x \<notin> set ys \<Longrightarrow> remdups_adj (x # as @ ys) = x # remdups_adj ys"
proof (induction as)
  case Nil
  then show ?case by (cases ys) auto
qed simp

lemma all_entries_folder:
  assumes "t_ok ((k, c) # rows)" and "visible p (k, c)" and "list_folder p d k = Some f"
  shows "all_entries p d ((k, c) # rows) = (f, None) # all_entries p d (filter (\<lambda>r. f @ [CHR 0xFF] \<le> fst r) ((k, c) # rows))"
proof -
  let ?y = "f @ [CHR 0xFF]"
  let ?A = "filter (\<lambda>r. fst r < ?y) rows" and ?B = "filter (\<lambda>r. ?y \<le> fst r) rows"
  have u: "is_utf8 k" "starts_with p k" using assms(2) by (simp_all add: visible_def)
  obtain r0 where k: "k = f @ r0" using list_folder_prefix[OF assms(3)] by blast
  have ky: "k < ?y" by (rule prefix_below[OF is_utf8_no_ff[OF u(1)] k])
  have A: "entry_of p d r = (f, None)" if r: "r \<in> set ?A" for r
  proof -
    have "k < fst r" "fst r < ?y" using r assms(1) by (auto simp: t_ok_Cons)
    then obtain x where "fst r = f @ x" using between_prefix[of f r0 "fst r"] k by (auto dest: less_imp_le)
    then show ?thesis using folder_shared[OF assms(3) u(2)] by (simp add: entry_of_def)
  qed
  have B: "entry_of p d r \<noteq> (f, None)" if r: "r \<in> set ?B" "visible p r" for r
  proof
    assume "entry_of p d r = (f, None)"
    then obtain x where "fst r = f @ x"
      using list_folder_prefix[of p d "fst r" f] by (cases "list_folder p d (fst r)") (auto simp: entry_of_def)
    then have "fst r < ?y" using prefix_below is_utf8_no_ff r(2) unfolding visible_def by metis
    then show False using r(1) by auto
  qed
  have s: "rows = ?A @ ?B" using sorted_split assms(1) by (auto simp: t_ok_Cons)
  have "all_entries p d ((k, c) # rows)
      = remdups_adj ((f, None) # map (entry_of p d) (filter (visible p) ?A) @ map (entry_of p d) (filter (visible p) ?B))"
    by (subst s) (simp add: all_entries_def assms(2,3) entry_of_def)
  also have "\<dots> = (f, None) # remdups_adj (map (entry_of p d) (filter (visible p) ?B))"
  proof (rule remdups_adj_run)
    show "\<forall>a \<in> set (map (entry_of p d) (filter (visible p) ?A)). a = (f, None)" using A by simp
    show "(f, None) \<notin> set (map (entry_of p d) (filter (visible p) ?B))"
      using B by fastforce
  qed
  finally show ?thesis using ky by (simp add: all_entries_def leD)
qed

section \<open>The scan computes the listing\<close>

definition no_skip :: "string option \<Rightarrow> list_entry \<Rightarrow> bool" where
  "no_skip sa e \<longleftrightarrow> \<not> list_skip sa (fst e)"

text \<open>What the inner loop has done: the page is full or the rows are used up, or it stopped at a folder.\<close>

definition scan_ok ::
  "string \<Rightarrow> string option \<Rightarrow> string option \<Rightarrow> nat \<Rightarrow> (string, object_meta cell) table \<Rightarrow> list_entry list \<Rightarrow> list_entry list
   \<Rightarrow> string option \<Rightarrow> bool" where
  "scan_ok p d sa mk rows es es' res \<longleftrightarrow>
     (case res of
        None \<Rightarrow> es' = take (Suc mk) (es @ filter (no_skip sa) (all_entries p d rows))
      | Some nxt \<Rightarrow>
          es' @ filter (no_skip sa) (all_entries p d (filter (\<lambda>r. nxt \<le> fst r) rows)) = es @ filter (no_skip sa) (all_entries p d rows)
          \<and> length es' \<le> mk \<and> (\<exists>r \<in> set rows. fst r < nxt))"

lemma scan_ok_skip:
  assumes "scan_ok p d sa mk rows es es' res" and "t_ok (r # rows)"
    and "filter (no_skip sa) (all_entries p d (r # rows)) = A @ filter (no_skip sa) (all_entries p d rows)" and "es1 @ A = es"
  shows "scan_ok p d sa mk (r # rows) es1 es' res"
proof (cases res)
  case None
  then show ?thesis using assms by (auto simp: scan_ok_def)
next
  case (Some nxt)
  obtain x where x: "x \<in> set rows" "fst x < nxt" using assms(1) by (auto simp: scan_ok_def Some)
  then have "\<not> nxt \<le> fst r" using assms(2) by (force simp: t_ok_Cons)
  then show ?thesis using assms x by (auto simp: scan_ok_def Some)
qed

lemma list_rows_spec:
  assumes "length b = n" and "t_ok rows" and "\<forall>r \<in> set rows. p \<le> fst r" and "\<forall>r \<in> set rows. readable (snd r) \<noteq> None"
    and "length es \<le> mk"
  shows "\<exists>es' res. list_rows n p d sa mk (map (\<lambda>r. (b @ fst r, snd r)) rows) es = Inr (es', res) \<and> scan_ok p d sa mk rows es es' res"
  using assms(2-5)
proof (induction rows arbitrary: es)
  case Nil
  then show ?case by (simp add: all_entries_simps scan_ok_def)
next
  case (Cons r rows)
  let ?L = "\<lambda>rows. list_rows n p d sa mk (map (\<lambda>r. (b @ fst r, snd r)) rows)"
  obtain k c where r: "r = (k, c)" by (cases r)
  have pk: "p \<le> k" and ok: "t_ok rows" and ge: "\<forall>r \<in> set rows. p \<le> fst r" and rd: "\<forall>r \<in> set rows. readable (snd r) \<noteq> None"
    using Cons.prems by (auto simp: r t_ok_Cons)
  obtain m where c: "c = Row m" using Cons.prems(3) by (cases c) (auto simp: r readable_def)
  note IH = Cons.IH[OF ok ge rd]
  have go: "\<exists>es' res. ?L (r # rows) es = Inr (es', res) \<and> scan_ok p d sa mk (r # rows) es es' res"
    if "?L (r # rows) es = ?L rows (es @ A)" and "length (es @ A) \<le> mk"
      and "filter (no_skip sa) (all_entries p d (r # rows)) = A @ filter (no_skip sa) (all_entries p d rows)" for A
    using IH[OF that(2)] scan_ok_skip[OF _ Cons.prems(1) that(3) refl] that(1) by metis
  consider "\<not> is_utf8 k" | "is_utf8 k" "\<not> starts_with p k" | f where "is_utf8 k" "starts_with p k" "list_folder p d k = Some f"
    | "is_utf8 k" "starts_with p k" "list_folder p d k = None" by (cases "list_folder p d k") auto
  then show ?case
  proof cases
    case 1
    then show ?thesis using Cons.prems(4) by (intro go[of "[]"]) (simp_all add: r assms(1) all_entries_simps visible_def)
  next
    case 2
    have "\<not> visible p x" if "x \<in> set (r # rows)" for x
      using that 2 not_prefix_above[OF pk 2(2)] Cons.prems(1) by (auto simp: visible_def r t_ok_Cons)
    then have "all_entries p d (r # rows) = []" by (intro all_entries_none) blast
    then show ?thesis using 2 Cons.prems(4) by (simp add: r assms(1) scan_ok_def)
  next
    case (3 f)
    let ?y = "f @ [CHR 0xFF]" and ?es = "if list_skip sa f then es else es @ [(f, None)]"
    have a: "all_entries p d (r # rows) = (f, None) # all_entries p d (filter (\<lambda>r. ?y \<le> fst r) (r # rows))"
      unfolding r using all_entries_folder Cons.prems(1) 3 by (simp add: visible_def r)
    have ky: "k < ?y" using list_folder_prefix[OF 3(3)] prefix_below[OF is_utf8_no_ff[OF 3(1)]] by blast
    have e: "es @ filter (no_skip sa) (all_entries p d (r # rows)) = ?es @ filter (no_skip sa) (all_entries p d (filter (\<lambda>r. ?y \<le> fst r) (r # rows)))"
      by (subst a) (simp add: no_skip_def)
    have l: "length ?es \<le> Suc mk" using Cons.prems(4) by simp
    have L: "?L (r # rows) es = (if length ?es > mk then Inr (?es, None) else Inr (?es, Some ?y))"
      using 3 by (simp add: r assms(1) Let_def)
    show ?thesis
    proof (cases "length ?es > mk")
      case True
      then have "length ?es = Suc mk" using l by simp
      then have "scan_ok p d sa mk (r # rows) es ?es None" unfolding scan_ok_def e by simp
      then show ?thesis unfolding L using True by (intro exI[of _ ?es] exI[of _ None]) simp
    next
      case False
      have "scan_ok p d sa mk (r # rows) es ?es (Some ?y)"
        unfolding scan_ok_def option.case e using False ky by (simp add: r del: filter.simps)
      then show ?thesis unfolding L using False by (intro exI[of _ ?es] exI[of _ "Some ?y"]) simp
    qed
  next
    case 4
    have a: "all_entries p d (r # rows) = (k, Some m) # all_entries p d rows"
      unfolding r c using all_entries_object[of k m rows p d] Cons.prems(1) 4 by (simp add: visible_def r c)
    show ?thesis
    proof (cases "list_skip sa k")
      case True
      then show ?thesis using 4 Cons.prems(4) by (intro go[of "[]"]) (simp_all add: a no_skip_def, simp add: r assms(1))
    next
      case False
      let ?es = "es @ [(k, Some m)]"
      have e: "filter (no_skip sa) (all_entries p d (r # rows)) = [(k, Some m)] @ filter (no_skip sa) (all_entries p d rows)"
        unfolding a using False by (simp add: no_skip_def)
      show ?thesis
      proof (cases "length ?es > mk")
        case True
        then have "length ?es = Suc mk" using Cons.prems(4) by simp
        then have "scan_ok p d sa mk (r # rows) es ?es None" unfolding scan_ok_def e by simp
        then show ?thesis using 4 False True by (simp add: r c assms(1))
      next
        case F: False
        then show ?thesis using 4 False e by (intro go[of "[(k, Some m)]"]) (simp_all add: r c assms(1))
      qed
    qed
  qed
qed

lemma t_ok_filter: "t_ok t \<Longrightarrow> t_ok (filter P t)"
  by (simp add: t_ok_def sorted_wrt_filter sorted_wrt_map)

lemma bucket_rows_range:
  "t_range (obj_key b from) (b @ [SOH]) t = map (\<lambda>r. ((b @ [NUL]) @ fst r, snd r)) (filter (\<lambda>r. from \<le> fst r) (bucket_rows b t))"
proof (induction t)
  case (Cons r t)
  have o: "b @ [NUL] \<le> obj_key b from" by (simp add: obj_key_def append_le_iff)
  show ?case
  proof (cases "\<exists>x. fst r = b @ NUL # x")
    case True
    then obtain x where x: "fst r = b @ NUL # x" by blast
    have "b @ [NUL] \<le> fst r \<and> fst r < b @ [SOH]" using prefix_range[of b "fst r"] x by blast
    moreover have "obj_key b from \<le> fst r \<longleftrightarrow> from \<le> x" by (simp add: x obj_key_def append_le_iff)
    ultimately show ?thesis using Cons x by (cases r) (simp add: t_range_def bucket_rows_def)
  next
    case False
    then have "\<not> (b @ [NUL] \<le> fst r \<and> fst r < b @ [SOH])" using prefix_range[of b "fst r"] by blast
    moreover from this have "\<not> (obj_key b from \<le> fst r \<and> fst r < b @ [SOH])" using o by auto
    ultimately show ?thesis using Cons by (auto simp: t_range_def bucket_rows_def)
  qed
qed (simp add: t_range_def bucket_rows_def)

lemma t_ok_bucket_rows: "t_ok t \<Longrightarrow> t_ok (bucket_rows b t)"
proof (induction t)
  case (Cons r t)
  have IH: "t_ok (bucket_rows b t)" using Cons by (simp add: t_ok_Cons)
  show ?case
  proof (cases "\<exists>x. fst r = b @ NUL # x")
    case True
    then obtain x where x: "fst r = b @ NUL # x" by blast
    have b: "bucket_rows b (r # t) = (x, snd r) # bucket_rows b t"
      using prefix_range[of b "fst r"] x by (auto simp: bucket_rows_def t_range_def)
    have "x < fst q" if q: "q \<in> set (bucket_rows b t)" for q
    proof -
      obtain s where s: "s \<in> set t" "\<exists>y. fst s = b @ NUL # y" "fst q = drop (Suc (length b)) (fst s)"
        using q by (auto simp: bucket_rows_def t_range_prefix)
      then obtain y where "s \<in> set t" "fst s = b @ NUL # y" "fst q = y" by auto
      then show ?thesis using Cons.prems x append_less_iff[of "b @ [NUL]" x y] by (auto simp: t_ok_Cons)
    qed
    then show ?thesis using IH by (simp add: b t_ok_Cons)
  next
    case False
    then have "bucket_rows b (r # t) = bucket_rows b t"
      using prefix_range[of b "fst r"] by (auto simp: bucket_rows_def t_range_def)
    then show ?thesis using IH by simp
  qed
qed (simp add: bucket_rows_def t_range_def)

definition bucket_readable :: "string \<Rightarrow> obj_index \<Rightarrow> bool" where
  "bucket_readable b ix \<longleftrightarrow> list_all (\<lambda>r. readable (snd r) \<noteq> None) (bucket_rows b (ix_objects ix))"

lemma list_scan_spec:
  assumes "t_ok t" and "\<forall>r \<in> set (bucket_rows b t). readable (snd r) \<noteq> None" and "p \<le> from" and "length es \<le> mk"
  shows "list_scan b p d sa mk t from es
    = Inr (take (Suc mk) (es @ filter (no_skip sa) (all_entries p d (filter (\<lambda>r. from \<le> fst r) (bucket_rows b t)))))"
  using assms
proof (induction b p d sa mk t "from" es rule: list_scan.induct)
  case (1 b p d sa mk t fr es)
  let ?R = "filter (\<lambda>r. fr \<le> fst r) (bucket_rows b t)"
  have R: "t_ok ?R" "\<forall>r \<in> set ?R. p \<le> fst r" "\<forall>r \<in> set ?R. readable (snd r) \<noteq> None"
    using t_ok_filter[OF t_ok_bucket_rows[OF "1.prems"(1)]] "1.prems"(2,3) by auto
  obtain es' res where l: "list_rows (Suc (length b)) p d sa mk (t_range (obj_key b fr) (b @ [SOH]) t) es = Inr (es', res)"
    and s: "scan_ok p d sa mk ?R es es' res"
    unfolding bucket_rows_range using list_rows_spec[OF _ R "1.prems"(4), of "b @ [NUL]" "Suc (length b)" d sa] by auto
  show ?case
  proof (cases res)
    case None
    then show ?thesis using l s by (simp add: list_scan.simps[of b] scan_ok_def)
  next
    case (Some nxt)
    obtain x where x: "x \<in> set ?R" "fst x < nxt" and le: "length es' \<le> mk"
      and e: "es' @ filter (no_skip sa) (all_entries p d (filter (\<lambda>r. nxt \<le> fst r) ?R)) = es @ filter (no_skip sa) (all_entries p d ?R)"
      using s by (auto simp: scan_ok_def Some)
    have fn: "fr \<le> nxt" "p \<le> nxt" using x "1.prems"(3) by (auto intro: order_trans less_imp_le)
    have f: "filter (\<lambda>r. nxt \<le> fst r) ?R = filter (\<lambda>r. nxt \<le> fst r) (bucket_rows b t)"
      unfolding filter_filter using fn(1) by (intro filter_cong) auto
    have "list_scan b p d sa mk t nxt es'
        = Inr (take (Suc mk) (es' @ filter (no_skip sa) (all_entries p d (filter (\<lambda>r. nxt \<le> fst r) (bucket_rows b t)))))"
      by (rule "1.IH"[OF l refl Some "1.prems"(1,2) fn(2) le])
    moreover have "list_scan b p d sa mk t fr es = list_scan b p d sa mk t nxt es'"
      using l by (simp add: list_scan.simps[of b p d sa mk t fr] Some)
    ultimately show ?thesis using e unfolding f by (simp only:)
  qed
qed

lemma filter_remdups_adj_drop: "\<forall>x \<in> set xs. \<not> P x \<Longrightarrow> filter P (remdups_adj (xs @ ys)) = filter P (remdups_adj ys)"
  by (induction xs) (auto simp: remdups_adj_Cons split: list.split)

lemma entry_name_le: "fst (entry_of p d r) \<le> fst r"
proof (cases "list_folder p d (fst r)")
  case (Some f)
  then show ?thesis using list_folder_prefix[OF Some] append_le_iff[of f "[]"] by (auto simp: entry_of_def)
qed (simp add: entry_of_def)

lemma from_irrelevant:
  assumes "sa = Some from \<or> from = p" and "t_ok rows"
  shows "filter (no_skip sa) (all_entries p d (filter (\<lambda>r. from \<le> fst r) rows)) = filter (no_skip sa) (all_entries p d rows)"
proof (cases "from = p")
  case True
  have "filter (visible p) (filter (\<lambda>r. p \<le> fst r) rows) = filter (visible p) rows"
    unfolding filter_filter by (intro filter_cong) (auto simp: visible_def dest: starts_with_le)
  then show ?thesis by (simp add: True all_entries_def)
next
  case False
  then have sa: "sa = Some from" using assms(1) by simp
  let ?A = "filter (\<lambda>r. fst r < from) rows" and ?B = "filter (\<lambda>r. from \<le> fst r) rows"
  have "\<not> no_skip sa e" if "e \<in> set (map (entry_of p d) (filter (visible p) ?A))" for e
    using that entry_name_le[of p d] by (fastforce simp: sa no_skip_def list_skip_def intro: order_trans less_imp_le)
  then have "filter (no_skip sa) (remdups_adj (map (entry_of p d) (filter (visible p) ?A) @ map (entry_of p d) (filter (visible p) ?B)))
      = filter (no_skip sa) (remdups_adj (map (entry_of p d) (filter (visible p) ?B)))"
    by (intro filter_remdups_adj_drop) blast
  moreover have "all_entries p d rows
      = remdups_adj (map (entry_of p d) (filter (visible p) ?A) @ map (entry_of p d) (filter (visible p) ?B))"
    by (subst sorted_split[OF assms(2), of "from"]) (simp add: all_entries_def)
  ultimately show ?thesis by (simp add: all_entries_def)
qed

text \<open>A page of a list of entries, as the response has it.\<close>

definition page_of :: "nat \<Rightarrow> list_entry list \<Rightarrow> list_v2_page" where
  "page_of max_keys ents =
     \<lparr>lp_objects = List.map_filter snd (take max_keys ents),
      lp_common_prefixes = map fst (filter (\<lambda>e. snd e = None) (take max_keys ents)),
      lp_is_truncated = (length ents > max_keys),
      lp_next_continuation_token =
        (if length ents > max_keys \<and> 0 < max_keys then Some (fst (ents ! (max_keys - 1))) else None)\<rparr>"

abbreviation some_delim :: "string option \<Rightarrow> string option" where
  "some_delim d \<equiv> (if d = Some [] then None else d)"

lemma page_of_scan:
  "\<lparr>lp_objects = List.map_filter snd (take mk (take (Suc mk) es)),
    lp_common_prefixes = map fst (filter (\<lambda>e. snd e = None) (take mk (take (Suc mk) es))),
    lp_is_truncated = (length (take (Suc mk) es) > mk),
    lp_next_continuation_token =
      (if length (take (Suc mk) es) > mk \<and> take mk (take (Suc mk) es) \<noteq> [] then Some (fst (last (take mk (take (Suc mk) es)))) else None)\<rparr>
   = page_of mk es"
proof -
  have "last (take mk es) = es ! (mk - 1)" if "mk < length es" "0 < mk"
    using that by (subst last_conv_nth) auto
  then show ?thesis by (auto simp: page_of_def min_def)
qed

lemma ix_list_page:
  assumes "tables_ok ix" and "bucket_readable b ix" and "ix_bucket_exists b ix"
  shows "ix_list b p d sa mk ix = Inr (page_of mk (page_entries p (some_delim d) sa (bucket_rows b (ix_objects ix))))"
proof -
  define fr where "fr = (case sa of Some sa \<Rightarrow> (if sa > p then sa else p) | None \<Rightarrow> p)"
  have f: "p \<le> fr" "sa = Some fr \<or> fr = p" by (auto simp: fr_def split: option.split)
  note t = tables_okD(2)[OF assms(1)]
  have "\<forall>r \<in> set (bucket_rows b (ix_objects ix)). readable (snd r) \<noteq> None"
    using assms(2) by (simp add: bucket_readable_def list_all_iff)
  from list_scan_spec[OF t this f(1), of "[]" mk "some_delim d" sa]
  have "list_scan b p (some_delim d) sa mk (ix_objects ix) fr []
      = Inr (take (Suc mk) (page_entries p (some_delim d) sa (bucket_rows b (ix_objects ix))))"
    unfolding append_Nil from_irrelevant[OF f(2) t_ok_bucket_rows[OF t]]
    by (simp add: page_entries_def no_skip_def[abs_def])
  moreover have "require_bucket b ix = Inr ()" using assms(3) by (simp add: require_bucket_def ix_bucket_exists_def)
  ultimately show ?thesis unfolding ix_list_def Let_def fr_def[symmetric] by (simp only: sum.case page_of_scan)
qed

section \<open>Pages\<close>

lemma all_entries_sorted:
  "t_ok rows \<Longrightarrow> \<forall>r \<in> set rows. readable (snd r) \<noteq> None \<Longrightarrow> sorted_wrt (<) (map fst (all_entries p d rows))"
proof (induction "length rows" arbitrary: rows rule: less_induct)
  case less
  have nm: "e \<in> set (all_entries p d q) \<Longrightarrow> \<exists>r \<in> set q. visible p r \<and> e = entry_of p d r" for e q
    by (auto simp: all_entries_def)
  show ?case
  proof (cases rows)
    case (Cons r rs)
    obtain k c where r: "r = (k, c)" by (cases r)
    obtain m where c: "c = Row m" using less.prems(2) by (cases c) (auto simp: Cons r readable_def)
    have ok: "t_ok rs" "\<forall>x \<in> set rs. k < fst x" and rd: "\<forall>x \<in> set rs. readable (snd x) \<noteq> None"
      using less.prems by (auto simp: Cons r t_ok_Cons)
    have IH: "sorted_wrt (<) (map fst (all_entries p d (filter P rs)))" for P
      using less.hyps[of "filter P rs"] t_ok_filter[OF ok(1)] rd by (simp add: Cons le_imp_less_Suc)
    show ?thesis
    proof (cases "visible p r")
      case False
      then show ?thesis using IH[of "\<lambda>_. True"] by (simp add: Cons all_entries_simps)
    next
      case v: True
      then have u: "starts_with p k" "is_utf8 k" by (simp_all add: visible_def r)
      show ?thesis
      proof (cases "list_folder p d k")
        case None
        have "k < fst e" if e: "e \<in> set (all_entries p d rs)" for e
        proof -
          obtain x where x: "x \<in> set rs" "visible p x" "e = entry_of p d x" using nm[OF e] by blast
          show ?thesis
          proof (cases "list_folder p d (fst x)")
            case (Some f)
            have "\<not> f \<le> k"
            proof
              assume "f \<le> k"
              obtain y where y: "fst x = f @ y" using list_folder_prefix[OF Some] by blast
              have "fst x < f @ [CHR 0xFF]" using prefix_below[OF is_utf8_no_ff y] x(2) by (simp add: visible_def)
              then have "k < f @ [CHR 0xFF]" using ok(2) x(1) by (auto intro: less_trans)
              then obtain z where "k = f @ z" using between_prefix[of f "[]" k] \<open>f \<le> k\<close> by auto
              then have "list_folder p d k = Some f" using folder_shared[OF Some, of k z] x(2) by (simp add: visible_def)
              then show False using None by simp
            qed
            then show ?thesis using Some by (simp add: x(3) entry_of_def not_le)
          qed (use ok(2) x(1,3) in \<open>simp add: entry_of_def\<close>)
        qed
        then show ?thesis
          using all_entries_object[of k m rs p d] less.prems(1) v None IH[of "\<lambda>_. True"] by (simp add: Cons r c)
      next
        case (Some f)
        obtain r0 where k: "k = f @ r0" using list_folder_prefix[OF Some] by blast
        have ky: "k < f @ [CHR 0xFF]" by (rule prefix_below[OF is_utf8_no_ff[OF u(2)] k])
        let ?q = "filter (\<lambda>r. f @ [CHR 0xFF] \<le> fst r) rs"
        have "f < fst e" if e: "e \<in> set (all_entries p d ?q)" for e
        proof -
          obtain x where x: "x \<in> set ?q" "visible p x" "e = entry_of p d x" using nm[OF e] by blast
          have fx: "f < fst x" using x(1) append_less_iff[of f "[]" "[CHR 0xFF]"] by (auto intro: less_le_trans)
          have xu: "CHR 0xFF \<notin> set (fst x)" using x(2) is_utf8_no_ff by (simp add: visible_def)
          show ?thesis
          proof (cases "list_folder p d (fst x)")
            case (Some f')
            have "\<not> f' \<le> f"
            proof
              assume l: "f' \<le> f"
              obtain y where y: "fst x = f' @ y" using list_folder_prefix[OF Some] by blast
              have "f < f' @ [CHR 0xFF]" using prefix_below[OF xu y] fx by (rule less_trans[rotated])
              then obtain z where z: "f = f' @ z" using between_prefix[of f' "[]" f] l by auto
              then have "list_folder p d k = Some f'" using folder_shared[OF Some, of k "z @ r0"] x(2) k by (simp add: visible_def)
              then have "f' = f" using \<open>list_folder p d k = Some f\<close> by simp
              then have "fst x < f @ [CHR 0xFF]" using prefix_below[OF xu y] by simp
              then show False using x(1) by auto
            qed
            then show ?thesis using Some by (simp add: x(3) entry_of_def not_le)
          qed (use fx in \<open>simp add: x(3) entry_of_def\<close>)
        qed
        moreover have "filter (\<lambda>r. f @ [CHR 0xFF] \<le> fst r) rows = ?q" using ky by (simp add: Cons r leD)
        ultimately show ?thesis
          using all_entries_folder[of k c rs p d f] less.prems(1) v Some IH[of "\<lambda>r. f @ [CHR 0xFF] \<le> fst r"]
          by (simp add: Cons r)
      qed
    qed
  qed (simp add: all_entries_simps)
qed

lemma sorted_after_nth:
  "sorted_wrt (<) (map fst es) \<Longrightarrow> i < length es \<Longrightarrow> filter (\<lambda>e. \<not> fst e \<le> fst (es ! i)) es = drop (Suc i) (es :: (string \<times> 'b) list)"
proof (induction es arbitrary: i)
  case (Cons e es)
  show ?case
  proof (cases i)
    case 0
    then show ?thesis using Cons.prems by (auto simp: filter_id_conv)
  next
    case (Suc j)
    then have "fst e < fst (es ! j)" using Cons.prems by auto
    then have "fst e \<le> fst (es ! j)" by (rule less_imp_le)
    then show ?thesis using Cons Suc by auto
  qed
qed simp

text \<open>Going on after the last entry of a page gives the rest.\<close>

lemma next_page_entries:
  assumes "t_ok rows" and "\<forall>r \<in> set rows. readable (snd r) \<noteq> None" and "0 < n" and "n < length (page_entries p d sa rows)"
  shows "page_entries p d (Some (fst (page_entries p d sa rows ! (n - 1)))) rows = drop n (page_entries p d sa rows)"
proof -
  let ?es = "page_entries p d sa rows"
  have s: "sorted_wrt (<) (map fst (all_entries p d rows))" by (rule all_entries_sorted[OF assms(1,2)])
  then have sp: "sorted_wrt (<) (map fst ?es)" by (simp add: page_entries_def sorted_wrt_map sorted_wrt_filter)
  have l: "n - 1 < length ?es" using assms(3,4) by simp
  define x where "x = fst (?es ! (n - 1))"
  have "?es ! (n - 1) \<in> set ?es" using l by simp
  then have nx: "\<not> list_skip sa x" by (simp add: page_entries_def x_def)
  have "page_entries p d (Some x) rows = filter (\<lambda>e. \<not> fst e \<le> x) ?es"
    unfolding page_entries_def filter_filter using nx
    by (intro filter_cong) (auto simp: list_skip_def split: option.splits)
  also have "\<dots> = drop n ?es" unfolding x_def using sorted_after_nth[OF sp l] assms(3) by simp
  finally show ?thesis by (simp add: x_def)
qed

section \<open>Properties\<close>

text \<open>
  C18. A listing is what S3 says it is. On a bucket whose rows decode, \<open>list\<close> with its seeks past folders
  returns the same page as the reference: the keys under the prefix in byte order, each key with the
  delimiter in its rest folded to its folder, every folder once, the entries up to \<open>start_after\<close> left out,
  cut to \<open>max_keys\<close>, truncated exactly when something was cut. When a page is truncated, its token names its
  last entry, and the listing from that token consists of exactly the entries that were cut, whatever page
  size it asks for: following the tokens gives every entry once.
\<close>

theorem listing_pages_exact:
  assumes "tables_ok ix" and "bucket_readable b ix" and "ix_bucket_exists b ix"
    and "es = page_entries p (some_delim d) sa (bucket_rows b (ix_objects ix))"
  shows "ix_list b p d sa mk ix = Inr (page_of mk es)
    \<and> (0 < mk \<and> mk < length es \<longrightarrow>
        (\<exists>tok. lp_next_continuation_token (page_of mk es) = Some tok
           \<and> ix_list b p d (Some tok) mk' ix = Inr (page_of mk' (drop mk es))))"
proof -
  have rd: "\<forall>r \<in> set (bucket_rows b (ix_objects ix)). readable (snd r) \<noteq> None"
    using assms(2) by (simp add: bucket_readable_def list_all_iff)
  note t = t_ok_bucket_rows[OF tables_okD(2)[OF assms(1)]]
  have "\<exists>tok. lp_next_continuation_token (page_of mk es) = Some tok \<and> page_entries p (some_delim d) (Some tok) (bucket_rows b (ix_objects ix)) = drop mk es"
    if "0 < mk" "mk < length es"
    using next_page_entries[OF t rd that(1), of p "some_delim d" sa] that unfolding assms(4) by (simp add: page_of_def)
  then show ?thesis unfolding ix_list_page[OF assms(1-3)] assms(4) by (metis (no_types, lifting))
qed

definition demo_meta :: "string \<Rightarrow> object_meta" where
  "demo_meta k = \<lparr>om_key = k, om_size = 1, om_etag = ''e'', om_content_type = ''x'', om_last_modified = 0, om_cache_control = None\<rparr>"

definition demo_index :: obj_index where
  "demo_index = index_empty\<lparr>ix_buckets := [(''buk'', Row \<lparr>bk_created = 0, bk_cors = None\<rparr>)],
     ix_objects := map (\<lambda>k. (obj_key ''buk'' k, Row (demo_meta k))) [''a/1'', ''a/2'', ''z''],
     ix_manifests := map (\<lambda>k. (obj_key ''buk'' k, Row [\<lparr>sr_id = k, sr_size = 1\<rparr>])) [''a/1'', ''a/2'', ''z'']\<rparr>"

lemma demo_index_ok: "tables_ok demo_index \<and> bucket_readable ''buk'' demo_index \<and> ix_bucket_exists ''buk'' demo_index"
  by code_simp

lemma demo_index_entries:
  "page_entries [] (some_delim (Some ''/'')) None (bucket_rows ''buk'' (ix_objects demo_index)) = [(''a/'', None), (''z'', Some (demo_meta ''z''))]"
  by code_simp

theorem listing_pages_exact_witness:
  "ix_list ''buk'' [] (Some ''/'') None 1 demo_index = Inr (page_of 1 [(''a/'', None), (''z'', Some (demo_meta ''z''))])
   \<and> (\<exists>tok. ix_list ''buk'' [] (Some ''/'') (Some tok) 5 demo_index = Inr (page_of 5 [(''z'', Some (demo_meta ''z''))]))"
  using listing_pages_exact[OF _ _ _ demo_index_entries[symmetric], of 1 5] demo_index_ok by auto

end
