(* ===== verification/Obj_Store.thy ===== *)
theory Obj_Store
  imports Obj_List
begin

text \<open>
  The segments and the operations of the object store, \<open>crates/jkbase-objectstore/src/segments.rs\<close> and
  \<open>store.rs\<close>: the directory of segment files, the writer of one segment, pins, the reclaim of retired
  segments, and PUT, GET, DELETE, the bucket operations and multipart uploads over the index of \<open>Obj_Index\<close>.
  The lemmas show what a range of an object reads as and how pins count. The runs of many requests
  are in \<open>Obj_Store_Run\<close>.
\<close>

section \<open>Segments\<close>

text \<open>
  The segment directory: committed segments and writes in progress by id (the file names under the fan
  directories and under \<open>.tmp\<close>), and whether the directory is still the one that was opened.
\<close>

record local_segments =
  ls_files :: "(string, bytes) hmap"
  ls_tmp :: "(string, bytes) hmap"
  ls_live :: bool

definition check_id :: "string \<Rightarrow> bool" where
  "check_id i \<longleftrightarrow> 1 \<le> length i \<and> length i \<le> 64
     \<and> list_all (\<lambda>c. let n = (of_char c :: nat) in 48 \<le> n \<and> n \<le> 57 \<or> 97 \<le> n \<and> n \<le> 102) i"

definition segments_open :: "local_segments \<Rightarrow> local_segments" where
  "segments_open ls = ls\<lparr>ls_tmp := [], ls_live := True\<rparr>"

text \<open>What the file system answers to one segment write: each step may fail.\<close>

record seg_io =
  si_create :: bool
  si_sync :: bool
  si_dirs :: bool
  si_link :: bool
  si_sync_dir :: bool

definition segments_create :: "seg_io \<Rightarrow> string \<Rightarrow> local_segments \<Rightarrow> object_error + local_segments" where
  "segments_create io i ls =
     (if \<not> ls_live ls then Inl ObjIo
      else if \<not> check_id i then Inl ObjIo
      else if \<not> si_create io then Inl ObjIo
      else Inr (ls\<lparr>ls_tmp := hupd i [] (ls_tmp ls)\<rparr>))"

definition writer_write :: "string \<Rightarrow> bytes \<Rightarrow> local_segments \<Rightarrow> local_segments" where
  "writer_write i buf ls = ls\<lparr>ls_tmp := hupd i (get_or_default [] (ls_tmp ls) i @ buf) (ls_tmp ls)\<rparr>"

definition writer_drop :: "string \<Rightarrow> local_segments \<Rightarrow> local_segments" where
  "writer_drop i ls = ls\<lparr>ls_tmp := hdel i (ls_tmp ls)\<rparr>"

text \<open>
  \<open>commit\<close>: the link never replaces a segment. A failing sync of the directory is an error after the
  segment became visible; every other error leaves the directory as it was, and the writer's drop removes
  its temporary file.
\<close>

definition writer_commit :: "seg_io \<Rightarrow> string \<Rightarrow> local_segments \<Rightarrow> bool \<times> local_segments" where
  "writer_commit io i ls =
     (if \<not> si_sync io \<or> \<not> ls_live ls \<or> \<not> si_dirs io \<or> \<not> si_link io \<or> map_of (ls_files ls) i \<noteq> None
      then (False, writer_drop i ls)
      else (si_sync_dir io, writer_drop i (ls\<lparr>ls_files := hupd i (get_or_default [] (ls_tmp ls) i) (ls_files ls)\<rparr>)))"

definition segments_read :: "string \<Rightarrow> nat \<Rightarrow> nat \<Rightarrow> local_segments \<Rightarrow> object_error + bytes" where
  "segments_read i offset len ls =
     (if \<not> check_id i then Inl ObjIo
      else (case map_of (ls_files ls) i of
              None \<Rightarrow> Inl ObjIo
            | Some d \<Rightarrow>
                (if offset + len > u64_max \<or> offset + len > length d then Inl ObjIo
                 else Inr (take len (drop offset d)))))"

text \<open>How an unlink ends: done and synced, refused, or done with the sync of the directory failing.\<close>

datatype del_io = DelOk | DelFail | DelNoSync

definition segments_delete :: "del_io \<Rightarrow> string \<Rightarrow> local_segments \<Rightarrow> bool \<times> local_segments" where
  "segments_delete io i ls =
     (if \<not> check_id i then (False, ls)
      else if map_of (ls_files ls) i = None then (io \<noteq> DelFail, ls)
      else (case io of
              DelOk \<Rightarrow> (True, ls\<lparr>ls_files := hdel i (ls_files ls)\<rparr>)
            | DelFail \<Rightarrow> (False, ls)
            | DelNoSync \<Rightarrow> (False, ls\<lparr>ls_files := hdel i (ls_files ls)\<rparr>)))"

section \<open>The store\<close>

record obj_store =
  os_ix :: obj_index
  os_segs :: local_segments
  os_pins :: "(string, nat) hmap"

definition IDLE_TIMEOUT :: duration where "IDLE_TIMEOUT = from_secs 30"
definition MIN_UPLOAD_DEADLINE :: duration where "MIN_UPLOAD_DEADLINE = from_secs 3600"
definition MIN_UPLOAD_RATE :: nat where "MIN_UPLOAD_RATE = 1024 * 1024"
definition MAX_UPLOAD_DEADLINE :: duration where "MAX_UPLOAD_DEADLINE = from_secs (6 * 3600)"
definition SWEEP_BATCH :: nat where "SWEEP_BATCH = 10000"
definition SWEEP_UPLOADS :: nat where "SWEEP_UPLOADS = 1000"

definition upload_deadline :: "nat option \<Rightarrow> duration" where
  "upload_deadline declared_len =
     (case declared_len of
        Some n \<Rightarrow> min (max (from_secs (n div MIN_UPLOAD_RATE)) MIN_UPLOAD_DEADLINE) MAX_UPLOAD_DEADLINE
      | None \<Rightarrow> MIN_UPLOAD_DEADLINE)"

definition validate_bucket :: "string \<Rightarrow> object_error + unit" where
  "validate_bucket bucket =
     (if 3 \<le> length bucket \<and> length bucket \<le> 63
         \<and> list_all (\<lambda>c. let n = (of_char c :: nat) in 97 \<le> n \<and> n \<le> 122 \<or> 48 \<le> n \<and> n \<le> 57 \<or> c = CHR ''-'') bucket
         \<and> \<not> starts_with ''-'' bucket \<and> \<not> ends_with ''-'' bucket
      then Inr () else Inl (InvalidBucketName bucket))"

definition validate_key :: "string \<Rightarrow> object_error + unit" where
  "validate_key key =
     (if 1 \<le> length key \<and> length key \<le> 1024 \<and> NUL \<notin> set key then Inr () else Inl (InvalidKey key))"

definition validate_upload_id :: "string \<Rightarrow> object_error + unit" where
  "validate_upload_id i = (if i \<noteq> [] \<and> list_all (\<lambda>c. hex_val c \<noteq> None) i then Inr () else Inl InvalidArgument)"

definition check_names :: "string \<Rightarrow> string option \<Rightarrow> string option \<Rightarrow> obj_store \<Rightarrow> object_error + unit" where
  "check_names bucket key upload_id st =
     (case validate_bucket bucket of
        Inl e \<Rightarrow> Inl e
      | Inr _ \<Rightarrow>
          (let bad = (case map_option validate_key key of
                        Some (Inl e) \<Rightarrow> Some e
                      | _ \<Rightarrow> (case map_option validate_upload_id upload_id of Some (Inl e) \<Rightarrow> Some e | _ \<Rightarrow> None))
           in case bad of
                Some e \<Rightarrow> (if ix_bucket_exists bucket (os_ix st) then Inl e else Inl (NoSuchBucket bucket))
              | None \<Rightarrow> Inr ()))"

definition ixw :: "tx \<Rightarrow> (obj_index \<Rightarrow> 'a ix_result) \<Rightarrow> obj_store \<Rightarrow> (object_error + 'a) \<times> obj_store" where
  "ixw res f st = (case ix_write res f (os_ix st) of (r, ix) \<Rightarrow> (r, st\<lparr>os_ix := ix\<rparr>))"

definition is_pinned :: "string \<Rightarrow> obj_store \<Rightarrow> bool" where
  "is_pinned i st \<longleftrightarrow> map_of (os_pins st) i \<noteq> None"

fun pin_ids :: "string list \<Rightarrow> (string, nat) hmap \<Rightarrow> (string, nat) hmap" where
  "pin_ids [] pins = pins"
| "pin_ids (i # ids) pins = pin_ids ids (hupd i (get_or_default 0 pins i + 1) pins)"

fun unpin_ids :: "string list \<Rightarrow> (string, nat) hmap \<Rightarrow> (string, nat) hmap" where
  "unpin_ids [] pins = pins"
| "unpin_ids (i # ids) pins =
     unpin_ids ids (case map_of pins i of
        Some n \<Rightarrow> (if n - 1 = 0 then hdel i pins else hupd i (n - 1) pins)
      | None \<Rightarrow> pins)"

definition pin_segs :: "seg_ref list \<Rightarrow> obj_store \<Rightarrow> obj_store" where
  "pin_segs segs st = st\<lparr>os_pins := pin_ids (map sr_id segs) (os_pins st)\<rparr>"

definition unpin_segs :: "seg_ref list \<Rightarrow> obj_store \<Rightarrow> obj_store" where
  "unpin_segs segs st = st\<lparr>os_pins := unpin_ids (map sr_id segs) (os_pins st)\<rparr>"

text \<open>One chunk of \<open>reclaim\<close>: the ids whose bytes are gone. \<open>del\<close> says how each unlink ends.\<close>

fun reclaim_chunk :: "(string \<Rightarrow> del_io) \<Rightarrow> string list \<Rightarrow> obj_store \<Rightarrow> string list \<times> obj_store" where
  "reclaim_chunk del [] st = ([], st)"
| "reclaim_chunk del (i # ids) st =
     (if is_pinned i st then reclaim_chunk del ids st
      else
        let (ok, segs) = segments_delete (del i) i (os_segs st);
            (gone, st) = reclaim_chunk del ids (st\<lparr>os_segs := segs\<rparr>)
        in (if ok then i # gone else gone, st))"

fun reclaim_chunks :: "(string \<Rightarrow> del_io) \<Rightarrow> tx \<Rightarrow> string list list \<Rightarrow> nat \<Rightarrow> obj_store \<Rightarrow> (object_error + nat) \<times> obj_store" where
  "reclaim_chunks del res [] n st = (Inr n, st)"
| "reclaim_chunks del res (chunk # cs) n st =
     (let (gone, st) = reclaim_chunk del chunk st; n = n + length gone
      in if gone = [] then reclaim_chunks del res cs n st
         else (case ixw res (ix_forget_segments gone) st of
                 (Inl e, st) \<Rightarrow> (Inl e, st)
               | (Inr _, st) \<Rightarrow> reclaim_chunks del res cs n st))"

function chunks :: "nat \<Rightarrow> 'a list \<Rightarrow> 'a list list" where
  "chunks n xs = (if xs = [] \<or> n = 0 then [] else take n xs # chunks n (drop n xs))"
  by auto
termination by (relation "measure (\<lambda>(n, xs). length xs)") auto

definition reclaim :: "(string \<Rightarrow> del_io) \<Rightarrow> tx \<Rightarrow> string list \<Rightarrow> obj_store \<Rightarrow> (object_error + nat) \<times> obj_store" where
  "reclaim del res ids st = reclaim_chunks del res (chunks 1000 ids) 0 st"

text \<open>
  The world around one request: the id it mints, its clock, how its transactions and file operations end.
\<close>

record req_env =
  re_id :: string
  re_now :: nat
  re_pend :: tx
  re_commit :: tx
  re_discard :: tx
  re_forget :: tx
  re_io :: seg_io
  re_del :: "string \<Rightarrow> del_io"

definition release :: "req_env \<Rightarrow> string \<Rightarrow> obj_store \<Rightarrow> obj_store" where
  "release en i st =
     (case ixw (re_discard en) (ix_discard_pending [i] (re_now en)) st of
        (Inl _, st) \<Rightarrow> st
      | (Inr retired, st) \<Rightarrow> snd (reclaim (re_del en) (re_forget en) retired st))"

text \<open>One read of the body: when it was asked for, and what came.\<close>

datatype body_read = RChunk bytes bool | RFailed | RIdle | REof

fun write_loop :: "instant \<Rightarrow> string \<Rightarrow> (instant \<times> body_read) list \<Rightarrow> bytes \<Rightarrow> local_segments \<Rightarrow> (object_error + bytes) \<times> local_segments" where
  "write_loop deadline i [] body ls = (Inl ObjTimeout, writer_drop i ls)"
| "write_loop deadline i ((now, r) # rs) body ls =
     (if now \<ge> deadline then (Inl ObjTimeout, writer_drop i ls)
      else case r of
        RFailed \<Rightarrow> (Inl ObjIo, writer_drop i ls)
      | RIdle \<Rightarrow> (Inl ObjTimeout, writer_drop i ls)
      | REof \<Rightarrow> (Inr body, ls)
      | RChunk buf ok \<Rightarrow>
          (if buf = [] then (Inr body, ls)
           else if \<not> ok then (Inl ObjIo, writer_drop i ls)
           else write_loop deadline i rs (body @ buf) (writer_write i buf ls)))"

text \<open>\<open>sha256\<close> and \<open>md5\<close> are the digests; the clock starts at \<open>t0\<close>.\<close>

definition write_stream ::
  "(bytes \<Rightarrow> bytes) \<Rightarrow> (bytes \<Rightarrow> bytes) \<Rightarrow> seg_io \<Rightarrow> instant \<Rightarrow> string \<Rightarrow> (instant \<times> body_read) list \<Rightarrow> string option \<Rightarrow> nat option
   \<Rightarrow> local_segments \<Rightarrow> (object_error + nat \<times> bytes) \<times> local_segments" where
  "write_stream sha256 md5 io t0 i reads expected_sha256 declared_len ls =
     (case write_loop (t0 + upload_deadline declared_len) i reads [] ls of
        (Inl e, ls) \<Rightarrow> (Inl e, ls)
      | (Inr body, ls) \<Rightarrow>
          (if (case expected_sha256 of Some x \<Rightarrow> hex_bytes (sha256 body) \<noteq> to_ascii_lowercase x | None \<Rightarrow> False)
           then (Inl ContentSha256Mismatch, writer_drop i ls)
           else (case writer_commit io i ls of
                   (False, ls) \<Rightarrow> (Inl ObjIo, ls)
                 | (True, ls) \<Rightarrow> (Inr (length body, md5 body), ls))))"

record upload_body =
  ub_start :: instant
  ub_reads :: "(instant \<times> body_read) list"
  ub_sha256 :: "string option"
  ub_len :: "nat option"

text \<open>The block between the pending row and its outcome: create the segment and stream the body into it.\<close>

definition write_bytes ::
  "(bytes \<Rightarrow> bytes) \<Rightarrow> (bytes \<Rightarrow> bytes) \<Rightarrow> seg_io \<Rightarrow> string \<Rightarrow> upload_body \<Rightarrow> local_segments \<Rightarrow> (object_error + nat \<times> bytes) \<times> local_segments" where
  "write_bytes sha256 md5 io i b ls =
     (case segments_create io i ls of
        Inl e \<Rightarrow> (Inl e, ls)
      | Inr ls \<Rightarrow> write_stream sha256 md5 io (ub_start b) i (ub_reads b) (ub_sha256 b) (ub_len b) ls)"

definition write_segment ::
  "(bytes \<Rightarrow> bytes) \<Rightarrow> (bytes \<Rightarrow> bytes) \<Rightarrow> req_env \<Rightarrow> upload_body \<Rightarrow> obj_store \<Rightarrow> (object_error + nat \<times> bytes) \<times> obj_store" where
  "write_segment sha256 md5 en b st =
     (case ixw (re_pend en) (ix_add_pending [re_id en] (re_now en)) st of
        (Inl e, st) \<Rightarrow> (Inl e, st)
      | (Inr _, st) \<Rightarrow>
          (let (written, segs) = write_bytes sha256 md5 (re_io en) (re_id en) b (os_segs st);
               st = st\<lparr>os_segs := segs\<rparr>
           in case written of
                Inr r \<Rightarrow> (Inr r, st)
              | Inl e \<Rightarrow> (Inl e, release en (re_id en) st)))"

definition commit_with :: "req_env \<Rightarrow> (obj_index \<Rightarrow> string list ix_result) \<Rightarrow> obj_store \<Rightarrow> (object_error + unit) \<times> obj_store" where
  "commit_with en f st =
     (case ixw (re_commit en) f st of
        (Inr retired, st) \<Rightarrow> (Inr (), snd (reclaim (re_del en) (re_forget en) retired st))
      | (Inl e, st) \<Rightarrow> (Inl e, release en (re_id en) st))"

definition put_object_capped ::
  "(bytes \<Rightarrow> bytes) \<Rightarrow> (bytes \<Rightarrow> bytes) \<Rightarrow> req_env \<Rightarrow> string \<Rightarrow> string \<Rightarrow> upload_body \<Rightarrow> string \<Rightarrow> string option \<Rightarrow> obj_store
   \<Rightarrow> (object_error + object_meta) \<times> obj_store" where
  "put_object_capped sha256 md5 en bucket key b content_type cache_control st =
     (case validate_key key of
        Inl e \<Rightarrow> (Inl e, st)
      | Inr _ \<Rightarrow>
     (case validate_bucket bucket of
        Inl e \<Rightarrow> (Inl e, st)
      | Inr _ \<Rightarrow>
     (if \<not> ix_bucket_exists bucket (os_ix st) then (Inl (NoSuchBucket bucket), st)
      else
     (case write_segment sha256 md5 en b st of
        (Inl e, st) \<Rightarrow> (Inl e, st)
      | (Inr (sz, digest), st) \<Rightarrow>
          (let row = \<lparr>or_meta = \<lparr>om_key = key, om_size = sz, om_etag = hex_bytes digest, om_content_type = content_type,
                                 om_last_modified = re_now en, om_cache_control = cache_control\<rparr>,
                      or_segments = [\<lparr>sr_id = re_id en, sr_size = sz\<rparr>]\<rparr>
           in case commit_with en (ix_commit_object bucket row (re_now en)) st of
                (Inl e, st) \<Rightarrow> (Inl e, st)
              | (Inr _, st) \<Rightarrow> (Inr (or_meta row), st))))))"

section \<open>Reading\<close>

definition store_row :: "string \<Rightarrow> string \<Rightarrow> obj_store \<Rightarrow> object_error + object_row" where
  "store_row bucket key st =
     (case check_names bucket (Some key) None st of
        Inl e \<Rightarrow> Inl e
      | Inr _ \<Rightarrow> ix_get_object bucket key (os_ix st))"

text \<open>
  \<open>get_object\<close>: pin the manifest, look again, and hand it out if it is still the same. \<open>others n\<close> is what the
  other requests do to the store between the pin and the second look of the attempt with \<open>n\<close> left.
\<close>

fun get_loop ::
  "(nat \<Rightarrow> obj_store \<Rightarrow> obj_store) \<Rightarrow> string \<Rightarrow> string \<Rightarrow> nat \<Rightarrow> object_row \<Rightarrow> obj_store
   \<Rightarrow> (object_error + object_meta \<times> seg_ref list) \<times> obj_store" where
  "get_loop others bucket key 0 row st = (Inl ObjIo, st)"
| "get_loop others bucket key (Suc n) row st =
     (let st = others n (pin_segs (or_segments row) st)
      in case store_row bucket key st of
           Inl e \<Rightarrow> (Inl e, unpin_segs (or_segments row) st)
         | Inr now \<Rightarrow>
             (if or_segments now = or_segments row then (Inr (or_meta now, or_segments now), st)
              else get_loop others bucket key n now (unpin_segs (or_segments row) st)))"

definition get_object ::
  "(nat \<Rightarrow> obj_store \<Rightarrow> obj_store) \<Rightarrow> string \<Rightarrow> string \<Rightarrow> obj_store \<Rightarrow> (object_error + object_meta \<times> seg_ref list) \<times> obj_store" where
  "get_object others bucket key st =
     (case store_row bucket key st of
        Inl e \<Rightarrow> (Inl e, st)
      | Inr row \<Rightarrow> get_loop others bucket key 16 row st)"

text \<open>The reads that make up a range of the object: segment, offset in it, length.\<close>

fun stream_plan :: "nat \<Rightarrow> nat \<Rightarrow> nat \<Rightarrow> seg_ref list \<Rightarrow> (string \<times> nat \<times> nat) list" where
  "stream_plan start endp pos [] = []"
| "stream_plan start endp pos (s # segs) =
     (let lo = max start pos; hi = min endp (pos + sr_size s)
      in (if lo < hi then [(sr_id s, lo - pos, hi - lo)] else []) @ stream_plan start endp (pos + sr_size s) segs)"

fun read_plan :: "(string \<times> nat \<times> nat) list \<Rightarrow> local_segments \<Rightarrow> object_error + bytes" where
  "read_plan [] ls = Inr []"
| "read_plan ((i, offset, n) # plan) ls =
     (case segments_read i offset n ls of
        Inl e \<Rightarrow> Inl e
      | Inr d \<Rightarrow> (case read_plan plan ls of Inl e \<Rightarrow> Inl e | Inr ds \<Rightarrow> Inr (d @ ds)))"

definition body_stream :: "seg_ref list \<Rightarrow> nat \<Rightarrow> nat \<Rightarrow> local_segments \<Rightarrow> object_error + bytes" where
  "body_stream segs start len ls = read_plan (stream_plan start (saturating_add start len) 0 segs) ls"

definition head_object :: "string \<Rightarrow> string \<Rightarrow> obj_store \<Rightarrow> object_error + object_meta" where
  "head_object bucket key st =
     (case check_names bucket (Some key) None st of
        Inl e \<Rightarrow> Inl e
      | Inr _ \<Rightarrow> ix_get_meta bucket key (os_ix st))"

definition object_size :: "string \<Rightarrow> string \<Rightarrow> obj_store \<Rightarrow> object_error + nat option" where
  "object_size bucket key st =
     (case head_object bucket key st of
        Inr m \<Rightarrow> Inr (Some (om_size m))
      | Inl (NoSuchKey _) \<Rightarrow> Inr None
      | Inl (NoSuchBucket _) \<Rightarrow> Inr None
      | Inl e \<Rightarrow> Inl e)"

definition list_v2 ::
  "string \<Rightarrow> string \<Rightarrow> string option \<Rightarrow> string option \<Rightarrow> nat \<Rightarrow> obj_store \<Rightarrow> object_error + list_v2_page" where
  "list_v2 bucket prefix delimiter start_after max_keys st =
     (case validate_bucket bucket of
        Inl e \<Rightarrow> Inl e
      | Inr _ \<Rightarrow> ix_list bucket prefix delimiter start_after (min (max max_keys 1) 1000) (os_ix st))"

record list_page =
  pg_objects :: "object_meta list"
  pg_is_truncated :: bool
  pg_next_continuation_token :: "string option"

definition list_objects :: "string \<Rightarrow> string \<Rightarrow> string option \<Rightarrow> nat \<Rightarrow> obj_store \<Rightarrow> object_error + list_page" where
  "list_objects bucket prefix start_after max_keys st =
     map_sum id (\<lambda>page. \<lparr>pg_objects = lp_objects page, pg_is_truncated = lp_is_truncated page,
         pg_next_continuation_token = lp_next_continuation_token page\<rparr>)
       (list_v2 bucket prefix None start_after max_keys st)"

text \<open>For the listings of all buckets and uploads, whether the database could be read is an input.\<close>

definition list_buckets :: "bool \<Rightarrow> obj_store \<Rightarrow> object_error + string list" where
  "list_buckets up st = (if up then Inr (ix_list_buckets (os_ix st)) else Inl ObjIo)"

definition bucket_exists :: "string \<Rightarrow> obj_store \<Rightarrow> object_error + bool" where
  "bucket_exists bucket st = (case validate_bucket bucket of Inl e \<Rightarrow> Inl e | Inr _ \<Rightarrow> Inr (ix_bucket_exists bucket (os_ix st)))"

definition get_bucket_cors :: "string \<Rightarrow> obj_store \<Rightarrow> object_error + cors_config option" where
  "get_bucket_cors bucket st = (case validate_bucket bucket of Inl e \<Rightarrow> Inl e | Inr _ \<Rightarrow> Inr (ix_get_cors bucket (os_ix st)))"

definition list_multipart_uploads :: "string \<Rightarrow> obj_store \<Rightarrow> object_error + multipart_upload list" where
  "list_multipart_uploads bucket st = (case validate_bucket bucket of Inl e \<Rightarrow> Inl e | Inr _ \<Rightarrow> ix_list_uploads bucket (os_ix st))"

definition usage_counts :: "obj_store \<Rightarrow> nat \<times> nat" where
  "usage_counts st = ix_counts (os_ix st)"

definition count_inflight_uploads :: "bool \<Rightarrow> nat \<Rightarrow> obj_store \<Rightarrow> object_error + nat" where
  "count_inflight_uploads up cap st = (if up then Inr (min (ix_upload_count (os_ix st)) cap) else Inl ObjIo)"

section \<open>Deleting, buckets and uploads\<close>

definition delete_object :: "req_env \<Rightarrow> string \<Rightarrow> string \<Rightarrow> obj_store \<Rightarrow> (object_error + unit) \<times> obj_store" where
  "delete_object en bucket key st =
     (case head_object bucket key st of
        Inl (NoSuchKey _) \<Rightarrow> (Inr (), st)
      | Inl e \<Rightarrow> (Inl e, st)
      | Inr _ \<Rightarrow>
          (case ixw (re_commit en) (ix_delete_object bucket key (re_now en)) st of
             (Inl e, st) \<Rightarrow> (Inl e, st)
           | (Inr retired, st) \<Rightarrow> (Inr (), snd (reclaim (re_del en) (re_forget en) retired st))))"

definition on_bucket ::
  "string \<Rightarrow> (obj_store \<Rightarrow> (object_error + 'a) \<times> obj_store) \<Rightarrow> obj_store \<Rightarrow> (object_error + 'a) \<times> obj_store" where
  "on_bucket bucket f st = (case validate_bucket bucket of Inl e \<Rightarrow> (Inl e, st) | Inr _ \<Rightarrow> f st)"

definition create_bucket :: "req_env \<Rightarrow> string \<Rightarrow> obj_store \<Rightarrow> (object_error + unit) \<times> obj_store" where
  "create_bucket en bucket = on_bucket bucket (ixw (re_commit en) (ix_create_bucket bucket (re_now en)))"

definition delete_bucket :: "req_env \<Rightarrow> string \<Rightarrow> obj_store \<Rightarrow> (object_error + unit) \<times> obj_store" where
  "delete_bucket en bucket = on_bucket bucket (ixw (re_commit en) (ix_delete_bucket bucket))"

definition put_bucket_cors :: "req_env \<Rightarrow> string \<Rightarrow> cors_config \<Rightarrow> obj_store \<Rightarrow> (object_error + unit) \<times> obj_store" where
  "put_bucket_cors en bucket cfg = on_bucket bucket (ixw (re_commit en) (ix_set_cors bucket (Some cfg)))"

definition delete_bucket_cors :: "req_env \<Rightarrow> string \<Rightarrow> obj_store \<Rightarrow> (object_error + unit) \<times> obj_store" where
  "delete_bucket_cors en bucket = on_bucket bucket (ixw (re_commit en) (ix_set_cors bucket None))"

definition create_multipart ::
  "req_env \<Rightarrow> string \<Rightarrow> string \<Rightarrow> string \<Rightarrow> string option \<Rightarrow> obj_store \<Rightarrow> (object_error + string) \<times> obj_store" where
  "create_multipart en bucket key content_type cache_control st =
     (case validate_key key of
        Inl e \<Rightarrow> (Inl e, st)
      | Inr _ \<Rightarrow> on_bucket bucket (\<lambda>st.
          (let info = \<lparr>ui_key = key, ui_content_type = content_type, ui_initiated = re_now en, ui_cache_control = cache_control\<rparr>
           in case ixw (re_commit en) (ix_create_upload bucket (re_id en) info False) st of
                (Inl e, st) \<Rightarrow> (Inl e, st)
              | (Inr _, st) \<Rightarrow> (Inr (re_id en), st))) st)"

definition upload_part_capped ::
  "(bytes \<Rightarrow> bytes) \<Rightarrow> (bytes \<Rightarrow> bytes) \<Rightarrow> req_env \<Rightarrow> string \<Rightarrow> string \<Rightarrow> u32 \<Rightarrow> upload_body \<Rightarrow> obj_store
   \<Rightarrow> (object_error + string) \<times> obj_store" where
  "upload_part_capped sha256 md5 en bucket upload_id part_number b st =
     (if \<not> (1 \<le> part_number \<and> part_number \<le> 10000) then (Inl InvalidArgument, st)
      else case check_names bucket None (Some upload_id) st of
        Inl e \<Rightarrow> (Inl e, st)
      | Inr _ \<Rightarrow>
     (case ix_upload_exists bucket upload_id (os_ix st) of
        Inl e \<Rightarrow> (Inl e, st)
      | Inr False \<Rightarrow> (Inl (NoSuchUpload upload_id), st)
      | Inr True \<Rightarrow>
     (case write_segment sha256 md5 en b st of
        (Inl e, st) \<Rightarrow> (Inl e, st)
      | (Inr (sz, digest), st) \<Rightarrow>
          (let row = \<lparr>pr_segment = re_id en, pr_size = sz, pr_md5 = hex_bytes digest\<rparr>
           in case commit_with en (ix_commit_part bucket upload_id part_number row (re_now en)) st of
                (Inl e, st) \<Rightarrow> (Inl e, st)
              | (Inr _, st) \<Rightarrow> (Inr (hex_bytes digest), st)))))"

text \<open>A committed transaction that retired segments, followed by their reclaim.\<close>

definition then_reclaim ::
  "req_env \<Rightarrow> (obj_index \<Rightarrow> ('a \<times> string list) ix_result) \<Rightarrow> obj_store \<Rightarrow> (object_error + 'a) \<times> obj_store" where
  "then_reclaim en f st =
     (case ixw (re_commit en) f st of
        (Inl e, st) \<Rightarrow> (Inl e, st)
      | (Inr (v, retired), st) \<Rightarrow> (Inr v, snd (reclaim (re_del en) (re_forget en) retired st)))"

definition complete_multipart ::
  "(bytes \<Rightarrow> bytes) \<Rightarrow> req_env \<Rightarrow> string \<Rightarrow> string \<Rightarrow> string \<Rightarrow> u32 list \<Rightarrow> obj_store \<Rightarrow> (object_error + object_meta) \<times> obj_store" where
  "complete_multipart md5 en bucket key upload_id part_numbers st =
     (case validate_key key of
        Inl e \<Rightarrow> (Inl e, st)
      | Inr _ \<Rightarrow>
     (case check_names bucket None (Some upload_id) st of
        Inl e \<Rightarrow> (Inl e, st)
      | Inr _ \<Rightarrow> then_reclaim en (ix_complete_upload md5 bucket key upload_id part_numbers (re_now en)) st))"

definition abort_multipart :: "req_env \<Rightarrow> string \<Rightarrow> string \<Rightarrow> obj_store \<Rightarrow> (object_error + unit) \<times> obj_store" where
  "abort_multipart en bucket upload_id st =
     (case check_names bucket None (Some upload_id) st of
        Inl e \<Rightarrow> (Inl e, st)
      | Inr _ \<Rightarrow> then_reclaim en (\<lambda>ix. map_sum id (\<lambda>(r, ix). (((), r), ix)) (ix_abort_upload bucket upload_id (re_now en) ix)) st)"

definition collect_garbage :: "req_env \<Rightarrow> obj_store \<Rightarrow> (object_error + nat) \<times> obj_store" where
  "collect_garbage en st =
     (case ixw (re_commit en) (ix_claim_due (re_now en) SWEEP_BATCH) st of
        (Inl e, st) \<Rightarrow> (Inl e, st)
      | (Inr due, st) \<Rightarrow> reclaim (re_del en) (re_forget en) due st)"

definition sweep_stale_uploads :: "req_env \<Rightarrow> nat \<Rightarrow> obj_store \<Rightarrow> (object_error + nat) \<times> obj_store" where
  "sweep_stale_uploads en max_age st =
     (case then_reclaim en (ix_abort_uploads_before (re_now en - max_age) (re_now en) SWEEP_UPLOADS) st of
        (Inl e, st) \<Rightarrow> (Inl e, st)
      | (Inr n, st) \<Rightarrow>
          (case collect_garbage en st of (Inl e, st) \<Rightarrow> (Inl e, st) | (Inr _, st) \<Rightarrow> (Inr n, st)))"

definition store_open :: "obj_store \<Rightarrow> obj_store" where
  "store_open st = st\<lparr>os_segs := segments_open (os_segs st), os_pins := []\<rparr>"

section \<open>Reading the bytes back\<close>

text \<open>The bytes of a manifest, given what each segment holds.\<close>

definition whole :: "(string \<Rightarrow> bytes option) \<Rightarrow> seg_ref list \<Rightarrow> bytes" where
  "whole held segs = concat (map (\<lambda>s. case held (sr_id s) of Some d \<Rightarrow> d | None \<Rightarrow> []) segs)"

definition seg_held :: "(string \<Rightarrow> bytes option) \<Rightarrow> string \<Rightarrow> nat \<Rightarrow> bool" where
  "seg_held held i n \<longleftrightarrow> check_id i \<and> n \<le> u64_max \<and> (\<exists>d. held i = Some d \<and> length d = n)"

definition segs_held :: "(string \<Rightarrow> bytes option) \<Rightarrow> seg_ref list \<Rightarrow> bool" where
  "segs_held held segs \<longleftrightarrow> (\<forall>s \<in> set segs. seg_held held (sr_id s) (sr_size s))"

lemma whole_length: "segs_held held segs \<Longrightarrow> length (whole held segs) = (\<Sum>s\<leftarrow>segs. sr_size s)"
  by (induction segs) (auto simp: whole_def segs_held_def seg_held_def)

lemma segments_read_held:
  "held = map_of (ls_files ls) \<Longrightarrow> seg_held held i n \<Longrightarrow> off + len \<le> n \<Longrightarrow>
    segments_read i off len ls = Inr (take len (drop off (the (held i))))"
  by (auto simp: segments_read_def seg_held_def)

lemma read_plan_append:
  "read_plan p ls = Inr a \<Longrightarrow> read_plan q ls = Inr b \<Longrightarrow> read_plan (p @ q) ls = Inr (a @ b)"
  by (induction p arbitrary: a) (auto split: sum.splits)

lemma slice_split:
  fixes d r :: "'a list"
  assumes "lo = max start pos"
  shows "take (endp - lo) (drop (start - pos) (d @ r))
    = (if lo < min endp (pos + length d) then take (min endp (pos + length d) - lo) (drop (lo - pos) d) else [])
      @ take (endp - max start (pos + length d)) (drop (start - (pos + length d)) r)"
proof -
  have "take (endp - lo) (drop (start - pos) d) =
    (if lo < min endp (pos + length d) then take (min endp (pos + length d) - lo) (drop (lo - pos) d) else [])"
    by (auto simp: assms min_def max_def)
  moreover have "endp - lo - (length d - (start - pos)) = endp - max start (pos + length d) \<or> length r - (start - (pos + length d)) = 0
      \<or> endp - lo - (length d - (start - pos)) = 0 \<and> endp - max start (pos + length d) = 0"
    by (auto simp: assms max_def)
  ultimately show ?thesis by auto
qed

lemma read_plan_stream:
  assumes "held = map_of (ls_files ls)" and "segs_held held segs"
  shows "read_plan (stream_plan start endp pos segs) ls = Inr (take (endp - max start pos) (drop (start - pos) (whole held segs)))"
  using assms(2)
proof (induction segs arbitrary: pos)
  case (Cons s segs)
  let ?d = "the (held (sr_id s))" and ?lo = "max start pos" and ?hi = "min endp (pos + sr_size s)"
  have h: "seg_held held (sr_id s) (sr_size s)" and t: "segs_held held segs"
    using Cons.prems by (auto simp: segs_held_def)
  have l: "length ?d = sr_size s" and w: "whole held (s # segs) = ?d @ whole held segs"
    using h by (auto simp: seg_held_def whole_def)
  have "read_plan (if ?lo < ?hi then [(sr_id s, ?lo - pos, ?hi - ?lo)] else []) ls
      = Inr (if ?lo < ?hi then take (?hi - ?lo) (drop (?lo - pos) ?d) else [])"
    using segments_read_held[OF assms(1) h, of "?lo - pos" "?hi - ?lo"] by auto
  from read_plan_append[OF this Cons.IH[OF t, of "pos + sr_size s"]] show ?case
    unfolding w slice_split[OF refl] l by (simp add: Let_def)
qed (simp add: whole_def)

text \<open>A range of an object is that range of its bytes.\<close>

lemma body_stream_held:
  assumes "segs_held (map_of (ls_files ls)) segs" and "start + len \<le> u64_max"
  shows "body_stream segs start len ls = Inr (take len (drop start (whole (map_of (ls_files ls)) segs)))"
  using read_plan_stream[OF refl assms(1), of start "start + len" 0] assms(2)
  by (simp add: body_stream_def saturating_add_def)

section \<open>Pins\<close>

definition pin_count :: "(string, nat) hmap \<Rightarrow> string \<Rightarrow> nat" where
  "pin_count pins i = get_or_default 0 pins i"

definition pins_ok :: "(string, nat) hmap \<Rightarrow> bool" where
  "pins_ok pins \<longleftrightarrow> (\<forall>i. map_of pins i \<noteq> Some 0)"

lemma pinned_count: "pins_ok (os_pins st) \<Longrightarrow> is_pinned i st \<longleftrightarrow> pin_count (os_pins st) i > 0"
  by (auto simp: is_pinned_def pin_count_def pins_ok_def get_or_default_def split: option.split intro: gr0I)

lemma pin_ids_count: "pins_ok pins \<Longrightarrow>
    pins_ok (pin_ids ids pins) \<and> pin_count (pin_ids ids pins) i = pin_count pins i + count_list ids i"
proof (induction ids arbitrary: pins)
  case (Cons j ids)
  let ?p = "hupd j (get_or_default 0 pins j + 1) pins"
  have "pins_ok ?p" using Cons.prems by (auto simp: pins_ok_def)
  from Cons.IH[OF this] show ?case by (simp add: pin_count_def get_or_default_def)
qed simp

lemma unpin_ids_count: "pins_ok pins \<Longrightarrow>
    pins_ok (unpin_ids ids pins) \<and> pin_count (unpin_ids ids pins) i = pin_count pins i - count_list ids i"
proof (induction ids arbitrary: pins)
  case (Cons j ids)
  let ?p = "case map_of pins j of Some n \<Rightarrow> (if n - 1 = 0 then hdel j pins else hupd j (n - 1) pins) | None \<Rightarrow> pins"
  have "pins_ok ?p" "pin_count ?p i = pin_count pins i - (if j = i then 1 else 0)"
    using Cons.prems by (auto simp: pins_ok_def pin_count_def get_or_default_def split: option.splits)
  then show ?case using Cons.IH[of ?p] by simp
qed simp

section \<open>What a segment write leaves\<close>

text \<open>The bytes a body delivers.\<close>

fun body_of :: "(instant \<times> body_read) list \<Rightarrow> bytes" where
  "body_of ((now, RChunk buf ok) # rs) = (if buf = [] then [] else buf @ body_of rs)"
| "body_of _ = []"

lemma write_loop_effect:
  "write_loop dl i rs body ls = (r, ls') \<Longrightarrow> map_of (ls_tmp ls) i = Some body \<Longrightarrow>
     ls_files ls' = ls_files ls \<and> ls_live ls' = ls_live ls
     \<and> (\<forall>b. r = Inr b \<longrightarrow> b = body @ body_of rs \<and> map_of (ls_tmp ls') i = Some b)"
proof (induction dl i rs body ls rule: write_loop.induct)
  case (2 dl i now rd rs body ls)
  show ?case
  proof (cases "now \<ge> dl \<or> (\<forall>buf. rd \<noteq> RChunk buf True) \<or> rd = RChunk [] True")
    case True
    then show ?thesis using "2.prems" by (cases rd) (auto simp: writer_drop_def split: if_splits)
  next
    case False
    then obtain buf where b: "rd = RChunk buf True" "buf \<noteq> []" "\<not> now \<ge> dl" by auto
    have w: "write_loop dl i rs (body @ buf) (writer_write i buf ls) = (r, ls')" using "2.prems"(1) b by simp
    have "map_of (ls_tmp (writer_write i buf ls)) i = Some (body @ buf)"
      using "2.prems"(2) by (simp add: writer_write_def get_or_default_def)
    from "2.IH"[OF b(3) b(1) b(2) _ w this] show ?thesis by (simp add: b writer_write_def)
  qed
qed (auto simp: writer_drop_def)

lemma writer_commit_effect:
  assumes "writer_commit io i ls = (ok, ls')"
  shows "ls_live ls' = ls_live ls"
    and "ls_files ls' = ls_files ls \<and> \<not> ok
      \<or> map_of (ls_files ls) i = None \<and> ls_files ls' = hupd i (get_or_default [] (ls_tmp ls) i) (ls_files ls)"
  using assms by (auto simp: writer_commit_def writer_drop_def split: if_splits)

text \<open>A write adds at most the file of its own id, and never replaces one.\<close>

lemma write_bytes_files:
  assumes "write_bytes sha256 md5 io i b ls = (r, ls')"
  shows "ls_files ls' = ls_files ls \<or> map_of (ls_files ls) i = None \<and> (\<exists>d. ls_files ls' = hupd i d (ls_files ls))"
proof (cases "segments_create io i ls")
  case (Inr ls1)
  then have l: "map_of (ls_tmp ls1) i = Some []" "ls_files ls1 = ls_files ls"
    by (auto simp: segments_create_def split: if_splits)
  obtain w ls2 where w: "write_loop (ub_start b + upload_deadline (ub_len b)) i (ub_reads b) [] ls1 = (w, ls2)" by fastforce
  obtain ok ls3 where c: "writer_commit io i ls2 = (ok, ls3)" by fastforce
  have "ls' = ls2 \<or> ls' = writer_drop i ls2 \<or> ls' = ls3"
    using assms Inr w c by (auto simp: write_bytes_def write_stream_def split: sum.splits if_splits bool.splits)
  then show ?thesis
    using write_loop_effect[OF w l(1)] writer_commit_effect(2)[OF c] l(2) by (auto simp: writer_drop_def)
qed (use assms in \<open>simp add: write_bytes_def\<close>)

text \<open>A write that succeeds leaves exactly the bytes it was given.\<close>

lemma write_bytes_ok:
  assumes "write_bytes sha256 md5 io i b ls = (Inr (n, dg), ls')"
  shows "map_of (ls_files ls) i = None" and "ls_files ls' = hupd i (body_of (ub_reads b)) (ls_files ls)"
    and "n = length (body_of (ub_reads b))" and "dg = md5 (body_of (ub_reads b))" and "check_id i"
    and "case ub_sha256 b of Some x \<Rightarrow> hex_bytes (sha256 (body_of (ub_reads b))) = to_ascii_lowercase x | None \<Rightarrow> True"
proof -
  obtain ls1 where s: "segments_create io i ls = Inr ls1"
    using assms by (cases "segments_create io i ls") (auto simp: write_bytes_def)
  then have l: "map_of (ls_tmp ls1) i = Some []" "ls_files ls1 = ls_files ls" "check_id i"
    by (auto simp: segments_create_def split: if_splits)
  obtain w ls2 where w: "write_loop (ub_start b + upload_deadline (ub_len b)) i (ub_reads b) [] ls1 = (w, ls2)" by fastforce
  obtain ok ls3 where c: "writer_commit io i ls2 = (ok, ls3)" by fastforce
  have r: "w = Inr (body_of (ub_reads b))" "ok" "ls' = ls3" "n = length (body_of (ub_reads b))" "dg = md5 (body_of (ub_reads b))"
    "case ub_sha256 b of Some x \<Rightarrow> hex_bytes (sha256 (body_of (ub_reads b))) = to_ascii_lowercase x | None \<Rightarrow> True"
    using assms s w c write_loop_effect[OF w l(1)]
    by (auto simp: write_bytes_def write_stream_def split: sum.splits if_splits bool.splits option.splits)
  note e = write_loop_effect[OF w l(1)] and f = writer_commit_effect(2)[OF c]
  show "map_of (ls_files ls) i = None" "ls_files ls' = hupd i (body_of (ub_reads b)) (ls_files ls)"
    using e f r(1-3) l(2) by (auto simp: get_or_default_def)
  show "n = length (body_of (ub_reads b))" "dg = md5 (body_of (ub_reads b))" "check_id i"
    "case ub_sha256 b of Some x \<Rightarrow> hex_bytes (sha256 (body_of (ub_reads b))) = to_ascii_lowercase x | None \<Rightarrow> True"
    by (rule r l)+
qed

end
