(* ===== verification/Obj_Store_Run.thy ===== *)
theory Obj_Store_Run
  imports Obj_Store
begin

text \<open>
  Many requests on one object store: the atomic sections of uploads, transactions, reclaim passes and readers
  as a step relation, its invariant, and what a lookup and an open GET can rely on whatever the others do.
\<close>

section \<open>The transactions of a request\<close>

text \<open>The write transactions of the index that requests and sweeps run, other than \<open>add_pending\<close> and \<open>forget_segments\<close>.\<close>

datatype ix_op =
    OpCreateBucket string nat
  | OpEnsureBucket string nat
  | OpDeleteBucket string
  | OpSetCors string "cors_config option"
  | OpSetLayout nat
  | OpCommitObjects string "object_row list" nat
  | OpDeleteObject string string nat
  | OpDiscard "string list" nat
  | OpClaimDue nat nat
  | OpCreateUpload string string upload_info bool
  | OpCommitPart string string u32 part_row nat
  | OpCompleteUpload string string string "u32 list" nat
  | OpAbortUpload string string nat
  | OpAbortBefore nat nat nat

abbreviation no_retired :: "unit ix_result \<Rightarrow> string list ix_result" where
  "no_retired r \<equiv> map_sum id (apfst (\<lambda>_. [])) r"

fun run_op :: "(bytes \<Rightarrow> bytes) \<Rightarrow> ix_op \<Rightarrow> obj_index \<Rightarrow> string list ix_result" where
  "run_op md5 (OpCreateBucket b now) ix = no_retired (ix_create_bucket b now ix)"
| "run_op md5 (OpEnsureBucket b now) ix = no_retired (ix_ensure_bucket b now ix)"
| "run_op md5 (OpDeleteBucket b) ix = no_retired (ix_delete_bucket b ix)"
| "run_op md5 (OpSetCors b cors) ix = no_retired (ix_set_cors b cors ix)"
| "run_op md5 (OpSetLayout v) ix = no_retired (ix_set_layout v ix)"
| "run_op md5 (OpCommitObjects b rows now) ix = ix_commit_objects b rows now ix"
| "run_op md5 (OpDeleteObject b k now) ix = ix_delete_object b k now ix"
| "run_op md5 (OpDiscard ids now) ix = ix_discard_pending ids now ix"
| "run_op md5 (OpClaimDue now n) ix = ix_claim_due now n ix"
| "run_op md5 (OpCreateUpload b u info keep) ix = no_retired (ix_create_upload b u info keep ix)"
| "run_op md5 (OpCommitPart b u pn row now) ix = ix_commit_part b u pn row now ix"
| "run_op md5 (OpCompleteUpload b k u pns now) ix = map_sum id (apfst snd) (ix_complete_upload md5 b k u pns now ix)"
| "run_op md5 (OpAbortUpload b u now) ix = ix_abort_upload b u now ix"
| "run_op md5 (OpAbortBefore threshold now n) ix = map_sum id (apfst snd) (ix_abort_uploads_before threshold now n ix)"

text \<open>The segments an operation brings in, and whether the sizes it records are those of its segments.\<close>

fun op_refs :: "ix_op \<Rightarrow> (string \<times> nat) set" where
  "op_refs (OpCommitObjects b rows now) = row_refs rows"
| "op_refs (OpCommitPart b u pn row now) = {(pr_segment row, pr_size row)}"
| "op_refs _ = {}"

fun op_sized :: "ix_op \<Rightarrow> bool" where
  "op_sized (OpCommitObjects b rows now) = list_all (\<lambda>row. om_size (or_meta row) = (\<Sum>s\<leftarrow>or_segments row. sr_size s)) rows"
| "op_sized _ = True"

lemma map_sum_InrD: "map_sum f g r = Inr y \<Longrightarrow> \<exists>x. r = Inr x \<and> y = g x"
  by (cases r) auto

lemma run_op_moves:
  assumes "ix_ok ix" and "run_op md5 op ix = Inr (r, ix')"
  shows "ix_moves ix (op_refs op) r ix'"
proof (cases op)
  case (OpCompleteUpload b k u pns now)
  then obtain m where "ix_complete_upload md5 b k u pns now ix = Inr ((m, r), ix')"
    using assms(2) by (auto dest!: map_sum_InrD)
  then show ?thesis using complete_upload_moves[OF assms(1)] OpCompleteUpload by simp
next
  case (OpAbortUpload b u now)
  then have "drop_upload b u now ix = (r, ix')"
    using assms(2) by (auto simp: ix_abort_upload_def split: sum.splits)
  then show ?thesis using drop_upload_moves[OF assms(1)] OpAbortUpload by simp
next
  case (OpAbortBefore threshold now n)
  then obtain m where "abort_loop (stale_uploads threshold n 0 (ix_uploads ix)) now 0 [] ix = ((m, r), ix')"
    using assms(2) by (cases "abort_loop (stale_uploads threshold n 0 (ix_uploads ix)) now 0 [] ix") (auto simp: ix_abort_uploads_before_def)
  then show ?thesis using abort_loop_moves[OF assms(1), of "[]"] OpAbortBefore by simp
next
  case (OpDiscard ids now)
  then have "discard_loop ids now ix = (r, ix')" using assms(2) by (simp add: ix_discard_pending_def)
  then show ?thesis using discard_loop_moves[OF assms(1)] OpDiscard by simp
qed (use assms(2) other_moves[OF assms(1)] commit_objects_moves[OF assms(1)] delete_object_moves[OF assms(1)]
       claim_due_moves[OF assms(1)] commit_part_moves[OF assms(1)]
     in \<open>auto dest!: map_sum_InrD\<close>)

section \<open>Sizes\<close>

text \<open>The size an object's metadata states is that of its manifest.\<close>

definition sizes_ok :: "obj_index \<Rightarrow> bool" where
  "sizes_ok ix \<longleftrightarrow> (\<forall>k m ss. map_of (ix_objects ix) k = Some (Row m) \<longrightarrow> map_of (ix_manifests ix) k = Some (Row ss)
     \<longrightarrow> om_size m = (\<Sum>s\<leftarrow>ss. sr_size s))"

lemma sizes_ok_same:
  "sizes_ok ix \<Longrightarrow> ix_objects ix' = ix_objects ix \<Longrightarrow> ix_manifests ix' = ix_manifests ix \<Longrightarrow> sizes_ok ix'"
  by (simp add: sizes_ok_def)

lemma sizes_ok_put:
  "sizes_ok ix \<Longrightarrow> put_rows b row now ix = (r, ix') \<Longrightarrow> om_size (or_meta row) = (\<Sum>s\<leftarrow>or_segments row. sr_size s) \<Longrightarrow> sizes_ok ix'"
  by (auto simp: put_rows_def Let_def retire_manifest_def retire_ids_rest sizes_ok_def split: if_splits)

lemma take_pending_rest:
  "take_pending ids ix = Inr ix' \<Longrightarrow> ix_objects ix' = ix_objects ix \<and> ix_manifests ix' = ix_manifests ix
    \<and> ix_parts ix' = ix_parts ix \<and> ix_buckets ix' = ix_buckets ix"
  by (induction ids arbitrary: ix) (fastforce split: if_splits)+

lemma discard_loop_rest:
  "discard_loop ids now ix = (r, ix') \<Longrightarrow> ix_objects ix' = ix_objects ix \<and> ix_manifests ix' = ix_manifests ix \<and> ix_buckets ix' = ix_buckets ix"
proof (induction ids arbitrary: ix r)
  case (Cons i ids)
  let ?ix = "ix\<lparr>ix_pending := t_remove i (ix_pending ix), ix_garbage := t_insert i now (ix_garbage ix)\<rparr>"
  show ?case
  proof (cases "map_of (ix_pending ix) i = None")
    case False
    then have "discard_loop ids now ?ix = (fst (discard_loop ids now ?ix), ix')"
      using Cons.prems by (auto split: prod.splits)
    from Cons.IH[OF this] show ?thesis by simp
  qed (use Cons in simp)
qed simp

lemma drop_upload_rest:
  "drop_upload b u now ix = (segs, ix') \<Longrightarrow> ix_objects ix' = ix_objects ix \<and> ix_manifests ix' = ix_manifests ix"
  by (auto simp: drop_upload_def upload_part_range_def Let_def retire_ids_rest)

lemma abort_loop_rest:
  "abort_loop ks now n retired ix = (v, ix') \<Longrightarrow> ix_objects ix' = ix_objects ix \<and> ix_manifests ix' = ix_manifests ix"
proof (induction ks arbitrary: n retired ix)
  case (Cons k ks)
  show ?case
  proof (cases "SWEEP_PART_ROWS \<le> length retired")
    case False
    note len = this
    show ?thesis
    proof (cases "split_once NUL k")
      case None
      then show ?thesis using Cons len by simp
    next
      case (Some bu)
      obtain b u where bu: "bu = (b, u)" by (cases bu)
      obtain segs ix1 where d: "drop_upload b u now ix = (segs, ix1)" by fastforce
      have "abort_loop ks now (n + 1) (retired @ segs) ix1 = (v, ix')" using Cons.prems len Some d by (simp add: bu)
      from Cons.IH[OF this] show ?thesis using drop_upload_rest[OF d] by simp
    qed
  qed (use Cons.prems in simp)
qed simp

lemma sizes_ok_rows:
  "sizes_ok ix \<Longrightarrow> commit_rows b rows now ix = Inr (r, ix') \<Longrightarrow> op_sized (OpCommitObjects b rows now) \<Longrightarrow> sizes_ok ix'"
proof (induction rows arbitrary: ix r)
  case (Cons row rows)
  obtain ix1 where t: "take_pending (map sr_id (or_segments row)) ix = Inr ix1"
    using Cons.prems(2) by (auto split: sum.splits)
  obtain r2 ix2 where p: "put_rows b row now ix1 = (r2, ix2)" by fastforce
  obtain r3 where c: "commit_rows b rows now ix2 = Inr (r3, ix')"
    using Cons.prems(2) t p by (cases "commit_rows b rows now ix2") auto
  have "sizes_ok ix1" using sizes_ok_same[OF Cons.prems(1)] take_pending_rest[OF t] by blast
  then have "sizes_ok ix2" using sizes_ok_put[OF _ p] Cons.prems(3) by simp
  then show ?case using Cons.IH[OF _ c] Cons.prems(3) by simp
qed simp

lemma other_rest:
  "ix_create_bucket b n ix = Inr (v, ix') \<Longrightarrow> ix_objects ix' = ix_objects ix \<and> ix_manifests ix' = ix_manifests ix"
  "ix_ensure_bucket b n ix = Inr (v, ix') \<Longrightarrow> ix_objects ix' = ix_objects ix \<and> ix_manifests ix' = ix_manifests ix"
  "ix_delete_bucket b ix = Inr (v, ix') \<Longrightarrow> ix_objects ix' = ix_objects ix \<and> ix_manifests ix' = ix_manifests ix"
  "ix_set_cors b cors ix = Inr (v, ix') \<Longrightarrow> ix_objects ix' = ix_objects ix \<and> ix_manifests ix' = ix_manifests ix"
  "ix_set_layout n ix = Inr (v, ix') \<Longrightarrow> ix_objects ix' = ix_objects ix \<and> ix_manifests ix' = ix_manifests ix"
  "ix_create_upload b u info keep ix = Inr (v, ix') \<Longrightarrow> ix_objects ix' = ix_objects ix \<and> ix_manifests ix' = ix_manifests ix"
  by (auto simp: ix_create_bucket_def ix_ensure_bucket_def ix_delete_bucket_def ix_set_cors_def ix_set_layout_def ix_create_upload_def
      bucket_range_def Let_def split: if_splits option.splits sum.splits)

lemma run_op_sizes:
  assumes "sizes_ok ix" and "run_op md5 op ix = Inr (r, ix')" and "op_sized op"
  shows "sizes_ok ix'"
proof (cases op)
  case (OpCompleteUpload b k u pns now)
  then obtain m where "ix_complete_upload md5 b k u pns now ix = Inr ((m, r), ix')"
    using assms(2) by (auto dest!: map_sum_InrD)
  then obtain segs ix1 ix2 r1 r2 where c: "ix_objects ix1 = ix_objects ix" "ix_manifests ix1 = ix_manifests ix"
    "drop_upload b u now ix1 = (r1, ix2)" "put_rows b \<lparr>or_meta = m, or_segments = segs\<rparr> now ix2 = (r2, ix')"
    "om_size m = (\<Sum>s\<leftarrow>segs. sr_size s)"
    by (rule complete_upload_shape) (rule that; simp)
  have "sizes_ok ix2"
    using sizes_ok_same[OF assms(1)] drop_upload_rest[OF c(3)] c(1,2) by simp
  then show ?thesis using sizes_ok_put[OF _ c(4)] c(5) by simp
next
  case (OpAbortBefore threshold now n)
  then obtain v where "abort_loop (stale_uploads threshold n 0 (ix_uploads ix)) now 0 [] ix = (v, ix')"
    using assms(2) by (cases "abort_loop (stale_uploads threshold n 0 (ix_uploads ix)) now 0 [] ix") (auto simp: ix_abort_uploads_before_def)
  then show ?thesis using sizes_ok_same[OF assms(1)] abort_loop_rest by blast
next
  case (OpDiscard ids now)
  then have "discard_loop ids now ix = (r, ix')" using assms(2) by (simp add: ix_discard_pending_def)
  then show ?thesis using sizes_ok_same[OF assms(1)] discard_loop_rest by blast
next
  case (OpClaimDue now n)
  then obtain stale where "ix' = snd (discard_loop stale now ix)" using assms(2) by (auto simp: ix_claim_due_def Let_def)
  then show ?thesis using sizes_ok_same[OF assms(1)] discard_loop_rest[of stale now ix "fst (discard_loop stale now ix)" ix'] by simp
next
  case (OpCommitObjects b rows now)
  then have "commit_rows b rows now ix = Inr (r, ix')" using assms(2) by (auto simp: ix_commit_objects_def split: sum.splits)
  then show ?thesis using sizes_ok_rows[OF assms(1)] assms(3) OpCommitObjects by blast
next
  case (OpCommitPart b u pn row now)
  then obtain ix1 where "take_pending [pr_segment row] ix = Inr ix1" "ix_objects ix' = ix_objects ix1" "ix_manifests ix' = ix_manifests ix1"
    using assms(2) by (auto simp: ix_commit_part_def Let_def retire_ids_rest split: sum.splits if_splits simp del: take_pending.simps)
  then show ?thesis using sizes_ok_same[OF assms(1)] take_pending_rest[of "[pr_segment row]" ix ix1] by simp
next
  case (OpDeleteObject b k now)
  then show ?thesis
    using assms(1,2) by (auto simp: ix_delete_object_def Let_def retire_manifest_def retire_ids_rest sizes_ok_def split: sum.splits if_splits)
next
  case (OpAbortUpload b u now)
  then show ?thesis using assms(2) sizes_ok_same[OF assms(1)] drop_upload_rest[of b u now ix r ix']
    by (auto simp: ix_abort_upload_def split: sum.splits)
qed (use assms(2) sizes_ok_same[OF assms(1)] other_rest in \<open>auto dest!: map_sum_InrD\<close>)

section \<open>Many requests at once\<close>

text \<open>
  A reader: it has looked an object up, pinned what it saw, or confirmed it and streams it.
\<close>

datatype reader =
    Looked string string "seg_ref list"
  | Pinned string string "seg_ref list"
  | Active object_meta "seg_ref list"

fun held_ids :: "reader \<Rightarrow> string list" where
  "held_ids (Looked b k segs) = []"
| "held_ids (Pinned b k segs) = map sr_id segs"
| "held_ids (Active m segs) = map sr_id segs"

text \<open>
  The store with the requests on it. \<open>sy_minted\<close> are the ids minted so far, \<open>sy_body\<close> what was uploaded under each
  id that was written, \<open>sy_writers\<close> the ids of the writers alive. \<open>sy_queue\<close> are the ids handed to the reclaim
  passes alive, \<open>sy_doomed\<close> those a pass found not pinned and deletes, \<open>sy_gone\<close> those whose file it
  has deleted; several passes can hold one id.
\<close>

record sys =
  sy_st :: obj_store
  sy_minted :: "string set"
  sy_body :: "string \<Rightarrow> bytes option"
  sy_writers :: "string set"
  sy_queue :: "string set"
  sy_doomed :: "string set"
  sy_gone :: "string set"
  sy_readers :: "(nat, reader) table"

definition sys_start :: sys where
  "sys_start = \<lparr>sy_st = \<lparr>os_ix = index_empty, os_segs = \<lparr>ls_files = [], ls_tmp = [], ls_live = True\<rparr>, os_pins = []\<rparr>,
     sy_minted = {}, sy_body = (\<lambda>_. None), sy_writers = {}, sy_queue = {}, sy_doomed = {}, sy_gone = {}, sy_readers = []\<rparr>"

text \<open>
  The atomic sections of the requests: a transaction, a file operation, a section under the pin lock. A
  transaction that fails changes nothing. The stream of one segment goes to a file of its own and counts as one
  section, at its link. \<open>drop_reader\<close> is the end of a request or its cancellation, \<open>crash\<close> a restart.
\<close>

inductive sys_step :: "sys \<Rightarrow> sys \<Rightarrow> bool" where
  begin_write:
    "i \<notin> sy_minted s \<Longrightarrow> check_id i \<Longrightarrow> ixw TxOk (ix_add_pending [i] now) (sy_st s) = (Inr (), st') \<Longrightarrow>
       sys_step s (s\<lparr>sy_st := st', sy_minted := insert i (sy_minted s), sy_writers := insert i (sy_writers s)\<rparr>)"
| written:
    "i \<in> sy_writers s \<Longrightarrow> sy_body s i = None \<Longrightarrow> length (body_of (ub_reads b)) \<le> u64_max \<Longrightarrow>
       write_bytes sha256 md5 io i b (os_segs (sy_st s)) = (Inr (n, dg), ls') \<Longrightarrow>
       sys_step s (s\<lparr>sy_st := (sy_st s)\<lparr>os_segs := ls'\<rparr>, sy_body := (sy_body s)(i \<mapsto> body_of (ub_reads b))\<rparr>)"
| write_failed:
    "i \<in> sy_writers s \<Longrightarrow> sy_body s i = None \<Longrightarrow> write_bytes sha256 md5 io i b (os_segs (sy_st s)) = (Inl e, ls') \<Longrightarrow>
       sys_step s (s\<lparr>sy_st := (sy_st s)\<lparr>os_segs := ls'\<rparr>, sy_writers := sy_writers s - {i}\<rparr>)"
| transaction:
    "\<forall>(i, n) \<in> op_refs op. i \<in> sy_writers s \<and> (\<exists>d. sy_body s i = Some d \<and> length d = n) \<Longrightarrow> op_sized op \<Longrightarrow>
       ixw TxOk (run_op md5 op) (sy_st s) = (Inr retired, st') \<Longrightarrow>
       sys_step s (s\<lparr>sy_st := st', sy_queue := sy_queue s \<union> set retired\<rparr>)"
| pin_check:
    "i \<in> sy_queue s \<Longrightarrow> \<not> is_pinned i (sy_st s) \<Longrightarrow> sys_step s (s\<lparr>sy_doomed := insert i (sy_doomed s)\<rparr>)"
| delete_file:
    "i \<in> sy_doomed s \<Longrightarrow> segments_delete io i (os_segs (sy_st s)) = (ok, ls') \<Longrightarrow>
       sys_step s (s\<lparr>sy_st := (sy_st s)\<lparr>os_segs := ls'\<rparr>, sy_gone := (if ok then insert i (sy_gone s) else sy_gone s)\<rparr>)"
| forget:
    "set ids \<subseteq> sy_gone s \<Longrightarrow> ixw TxOk (ix_forget_segments ids) (sy_st s) = (Inr (), st') \<Longrightarrow> sys_step s (s\<lparr>sy_st := st'\<rparr>)"
| look:
    "map_of (sy_readers s) h = None \<Longrightarrow> store_row bucket key (sy_st s) = Inr row \<Longrightarrow>
       sys_step s (s\<lparr>sy_readers := t_insert h (Looked bucket key (or_segments row)) (sy_readers s)\<rparr>)"
| pin:
    "map_of (sy_readers s) h = Some (Looked bucket key segs) \<Longrightarrow>
       sys_step s (s\<lparr>sy_st := pin_segs segs (sy_st s), sy_readers := t_insert h (Pinned bucket key segs) (sy_readers s)\<rparr>)"
| confirm:
    "map_of (sy_readers s) h = Some (Pinned bucket key segs) \<Longrightarrow> store_row bucket key (sy_st s) = Inr row \<Longrightarrow> or_segments row = segs \<Longrightarrow>
       sys_step s (s\<lparr>sy_readers := t_insert h (Active (or_meta row) segs) (sy_readers s)\<rparr>)"
| look_again:
    "map_of (sy_readers s) h = Some (Pinned bucket key segs) \<Longrightarrow> store_row bucket key (sy_st s) = Inr row \<Longrightarrow> or_segments row \<noteq> segs \<Longrightarrow>
       sys_step s (s\<lparr>sy_st := unpin_segs segs (sy_st s), sy_readers := t_insert h (Looked bucket key (or_segments row)) (sy_readers s)\<rparr>)"
| drop_reader:
    "map_of (sy_readers s) h = Some rd \<Longrightarrow>
       sys_step s (s\<lparr>sy_st := (sy_st s)\<lparr>os_pins := unpin_ids (held_ids rd) (os_pins (sy_st s))\<rparr>, sy_readers := t_remove h (sy_readers s)\<rparr>)"
| crash:
    "sys_step s (s\<lparr>sy_st := store_open (sy_st s), sy_writers := {}, sy_queue := {}, sy_doomed := {}, sy_gone := {}, sy_readers := []\<rparr>)"

inductive sys_run :: "sys \<Rightarrow> sys \<Rightarrow> bool" where
  run_refl: "sys_run s s"
| run_step: "sys_run s s' \<Longrightarrow> sys_step s' s'' \<Longrightarrow> sys_run s s''"

section \<open>The invariant\<close>

definition sy_ix :: "sys \<Rightarrow> obj_index" where "sy_ix s = os_ix (sy_st s)"
definition sy_files :: "sys \<Rightarrow> string \<Rightarrow> bytes option" where "sy_files s = map_of (ls_files (os_segs (sy_st s)))"

text \<open>A segment whose file holds what was uploaded.\<close>

definition intact :: "sys \<Rightarrow> string \<Rightarrow> nat \<Rightarrow> bool" where
  "intact s i n \<longleftrightarrow> seg_held (sy_body s) i n \<and> sy_files s i = sy_body s i"

definition index_inv :: "sys \<Rightarrow> bool" where
  "index_inv s \<longleftrightarrow> ix_ok (sy_ix s) \<and> sizes_ok (sy_ix s)
     \<and> (\<forall>(i, n) \<in> ref_sizes (sy_ix s). intact s i n)
     \<and> (\<forall>i \<in> pending_ids (sy_ix s). sy_body s i \<noteq> None \<longrightarrow> sy_files s i = sy_body s i)"

definition ids_inv :: "sys \<Rightarrow> bool" where
  "ids_inv s \<longleftrightarrow> set_mset (seg_places (sy_ix s)) \<subseteq> sy_minted s \<and> dom (sy_body s) \<subseteq> sy_minted s \<and> sy_writers s \<subseteq> sy_minted s
     \<and> sy_queue s \<subseteq> sy_minted s \<and> (\<forall>i \<in> sy_minted s. check_id i) \<and> (\<forall>d \<in> ran (sy_body s). length d \<le> u64_max)"

definition reclaim_inv :: "sys \<Rightarrow> bool" where
  "reclaim_inv s \<longleftrightarrow> sy_gone s \<subseteq> sy_doomed s \<and> sy_doomed s \<subseteq> sy_queue s
     \<and> (\<forall>i \<in> sy_queue s. i \<notin> pending_ids (sy_ix s) \<and> i \<notin> fst ` ref_sizes (sy_ix s))"

definition pins_inv :: "sys \<Rightarrow> bool" where
  "pins_inv s \<longleftrightarrow> pins_ok (os_pins (sy_st s)) \<and> t_ok (sy_readers s)
     \<and> (\<forall>i. pin_count (os_pins (sy_st s)) i = row_sum (\<lambda>(h, rd). count_list (held_ids rd) i) (sy_readers s))"

definition active_inv :: "sys \<Rightarrow> bool" where
  "active_inv s \<longleftrightarrow> (\<forall>h m segs. map_of (sy_readers s) h = Some (Active m segs) \<longrightarrow>
     om_size m = (\<Sum>x\<leftarrow>segs. sr_size x) \<and> (\<forall>x \<in> set segs. intact s (sr_id x) (sr_size x) \<and> sr_id x \<notin> sy_doomed s))"

definition sys_inv :: "sys \<Rightarrow> bool" where
  "sys_inv s \<longleftrightarrow> index_inv s \<and> ids_inv s \<and> reclaim_inv s \<and> pins_inv s \<and> active_inv s"

lemmas sys_inv_defs = sys_inv_def index_inv_def ids_inv_def reclaim_inv_def pins_inv_def active_inv_def

lemma sys_inv_start: "sys_inv sys_start"
  by (simp add: sys_inv_defs sys_start_def sy_ix_def sy_files_def index_empty_def ix_ok_def tables_ok_def seg_places_def seg_refs_def
      once_def sizes_ok_def ref_sizes_def man_refs_def part_refs_def pending_ids_def pins_ok_def pin_count_def get_or_default_def)

lemma ixw_InrD: "ixw res f st = (Inr v, st') \<Longrightarrow> \<exists>ix'. f (os_ix st) = Inr (v, ix') \<and> st' = st\<lparr>os_ix := ix'\<rparr>"
  by (auto simp: ixw_def ix_write_def split: if_splits sum.splits)

lemma sys_invD:
  assumes "sys_inv s"
  shows "ix_ok (sy_ix s)" "sizes_ok (sy_ix s)" "(i, n) \<in> ref_sizes (sy_ix s) \<Longrightarrow> intact s i n"
    "i \<in> pending_ids (sy_ix s) \<Longrightarrow> sy_body s i \<noteq> None \<Longrightarrow> sy_files s i = sy_body s i"
    "set_mset (seg_places (sy_ix s)) \<subseteq> sy_minted s" "dom (sy_body s) \<subseteq> sy_minted s" "sy_writers s \<subseteq> sy_minted s" "sy_queue s \<subseteq> sy_minted s"
    "i \<in> sy_minted s \<Longrightarrow> check_id i" "sy_body s i = Some d \<Longrightarrow> length d \<le> u64_max"
    "sy_gone s \<subseteq> sy_doomed s" "sy_doomed s \<subseteq> sy_queue s"
    "i \<in> sy_queue s \<Longrightarrow> i \<notin> pending_ids (sy_ix s) \<and> i \<notin> fst ` ref_sizes (sy_ix s)"
    "pins_inv s" "active_inv s"
  using assms by (auto simp: sys_inv_def index_inv_def ids_inv_def reclaim_inv_def intro: ranI)

lemma sys_invI:
  assumes "ix_ok (sy_ix s)" "sizes_ok (sy_ix s)" "\<And>i n. (i, n) \<in> ref_sizes (sy_ix s) \<Longrightarrow> intact s i n"
    "\<And>i. i \<in> pending_ids (sy_ix s) \<Longrightarrow> sy_body s i \<noteq> None \<Longrightarrow> sy_files s i = sy_body s i"
    "set_mset (seg_places (sy_ix s)) \<subseteq> sy_minted s" "dom (sy_body s) \<subseteq> sy_minted s" "sy_writers s \<subseteq> sy_minted s" "sy_queue s \<subseteq> sy_minted s"
    "\<And>i. i \<in> sy_minted s \<Longrightarrow> check_id i" "\<And>i d. sy_body s i = Some d \<Longrightarrow> length d \<le> u64_max"
    "sy_gone s \<subseteq> sy_doomed s" "sy_doomed s \<subseteq> sy_queue s"
    "\<And>i. i \<in> sy_queue s \<Longrightarrow> i \<notin> pending_ids (sy_ix s) \<and> i \<notin> fst ` ref_sizes (sy_ix s)"
    "pins_inv s" "active_inv s"
  shows "sys_inv s"
  using assms by (auto simp: sys_inv_def index_inv_def ids_inv_def reclaim_inv_def ran_def)

text \<open>A step that leaves readers, pins, doomed ids and the files and bodies of segments in use alone keeps the readers' part.\<close>

lemma active_frame:
  assumes "active_inv s" and "sy_readers s' = sy_readers s" and "sy_doomed s' = sy_doomed s"
    and "\<And>i n. intact s i n \<Longrightarrow> i \<notin> sy_doomed s \<Longrightarrow> intact s' i n"
  shows "active_inv s'"
  using assms unfolding active_inv_def by metis

lemma pins_frame:
  "pins_inv s \<Longrightarrow> sy_readers s' = sy_readers s \<Longrightarrow> os_pins (sy_st s') = os_pins (sy_st s) \<Longrightarrow> pins_inv s'"
  by (simp add: pins_inv_def)

lemma begin_write_inv:
  assumes "sys_inv s" and "i \<notin> sy_minted s" and "check_id i" and "ixw TxOk (ix_add_pending [i] now) (sy_st s) = (Inr (), st')"
  shows "sys_inv (s\<lparr>sy_st := st', sy_minted := insert i (sy_minted s), sy_writers := insert i (sy_writers s)\<rparr>)" (is "sys_inv ?s")
proof -
  note v = sys_invD[OF assms(1)]
  obtain ix' where a: "ix_add_pending [i] now (sy_ix s) = Inr ((), ix')" and st: "st' = (sy_st s)\<lparr>os_ix := ix'\<rparr>"
    using ixw_InrD[OF assms(4)] by (auto simp: sy_ix_def)
  have n: "i \<notin># seg_places (sy_ix s)" using v(5) assms(2) by blast
  note p = add_pending_places[OF v(1) a n]
  have e: "sy_ix ?s = ix'" "sy_files ?s = sy_files s" by (simp_all add: sy_ix_def sy_files_def st)
  have k: "intact ?s j m = intact s j m" for j m by (simp add: intact_def e)
  have b: "sy_body s i = None" using v(6) assms(2) by auto
  have "sizes_ok ix'" using sizes_ok_same[OF v(2)] a by (auto simp: ix_add_pending_def)
  moreover have "active_inv ?s" by (rule active_frame[OF v(15)]) (simp_all add: k)
  moreover have "pins_inv ?s" by (rule pins_frame[OF v(14)]) (simp_all add: st)
  moreover have "j \<notin> pending_ids ix' \<and> j \<notin> fst ` ref_sizes ix'" if "j \<in> sy_queue s" for j
    using v(13)[OF that] v(8) that assms(2) p(3,4) by auto
  moreover have "sy_files s j = sy_body s j" if "j \<in> pending_ids ix'" "sy_body s j \<noteq> None" for j
    using v(4) that b p(4) by auto
  ultimately show ?thesis
    using v p assms(3) by (intro sys_invI) (auto simp: e k)
qed

lemma write_inv:
  assumes "sys_inv s" and "i \<in> sy_writers s" and "sy_body s i = None" and "write_bytes sha256 md5 io i b (os_segs (sy_st s)) = (r, ls')"
    and "body' = sy_body s \<or> body' = (sy_body s)(i \<mapsto> d) \<and> ls_files ls' = hupd i d (ls_files (os_segs (sy_st s))) \<and> length d \<le> u64_max"
    and "W \<subseteq> sy_writers s"
  shows "sys_inv (s\<lparr>sy_st := (sy_st s)\<lparr>os_segs := ls'\<rparr>, sy_body := body', sy_writers := W\<rparr>)" (is "sys_inv ?s")
proof -
  note v = sys_invD[OF assms(1)]
  have f: "sy_files ?s j = sy_files s j \<or> j = i" for j
    using write_bytes_files[OF assms(4)] by (auto simp: sy_files_def)
  have e: "sy_ix ?s = sy_ix s" by (simp add: sy_ix_def)
  have k: "intact ?s j n" if "intact s j n" for j n
  proof -
    have "j \<noteq> i" using that assms(3) by (auto simp: intact_def seg_held_def)
    then show ?thesis using that f[of j] assms(5) by (auto simp: intact_def seg_held_def)
  qed
  have "i \<in> sy_minted s" using v(7) assms(2) by blast
  moreover have "active_inv ?s" by (rule active_frame[OF v(15)]) (simp_all add: k)
  moreover have "pins_inv ?s" by (rule pins_frame[OF v(14)]) simp_all
  moreover have "sy_files ?s j = body' j" if "j \<in> pending_ids (sy_ix s)" "body' j \<noteq> None" for j
  proof (cases "j = i")
    case True
    then show ?thesis using that(2) assms(3,5) by (auto simp: sy_files_def)
  next
    case False
    then show ?thesis using v(4)[OF that(1)] that(2) f[of j] assms(5) by auto
  qed
  moreover have "dom body' \<subseteq> sy_minted s"
  proof -
    have "dom body' \<subseteq> insert i (dom (sy_body s))" using assms(5) by auto
    then show ?thesis using v(6,7) assms(2) by blast
  qed
  moreover have "length x \<le> u64_max" if "body' j = Some x" for j x using v(10)[of j x] that assms(5) by (auto split: if_splits)
  ultimately show ?thesis
    using v(1-3,5-13) k assms(6) by (intro sys_invI) (auto simp: e)
qed

lemma transaction_inv:
  assumes "sys_inv s" and new: "\<forall>(i, n) \<in> op_refs op. i \<in> sy_writers s \<and> (\<exists>d. sy_body s i = Some d \<and> length d = n)"
    and "op_sized op" and "ixw TxOk (run_op md5 op) (sy_st s) = (Inr retired, st')"
  shows "sys_inv (s\<lparr>sy_st := st', sy_queue := sy_queue s \<union> set retired\<rparr>)" (is "sys_inv ?s")
proof -
  note v = sys_invD[OF assms(1)]
  obtain ix' where a: "run_op md5 op (sy_ix s) = Inr (retired, ix')" and st: "st' = (sy_st s)\<lparr>os_ix := ix'\<rparr>"
    using ixw_InrD[OF assms(4)] by (auto simp: sy_ix_def)
  note m = ix_movesD[OF run_op_moves[OF v(1) a]]
  have e: "sy_ix ?s = ix'" "sy_files ?s = sy_files s" by (simp_all add: sy_ix_def sy_files_def st)
  have k: "intact ?s j n = intact s j n" for j n by (simp add: intact_def e)
  have "intact s j n" if "(j, n) \<in> ref_sizes ix'" for j n
  proof (cases "(j, n) \<in> ref_sizes (sy_ix s)")
    case False
    then have o: "(j, n) \<in> op_refs op" using m(3) that by blast
    then obtain d where d: "sy_body s j = Some d" "length d = n" "j \<in> sy_writers s" using new by auto
    have "j \<in> pending_ids (sy_ix s)" using m(4) o by force
    then show ?thesis using v(4)[of j] v(9)[of j] v(7) v(10)[OF d(1)] d by (auto simp: intact_def seg_held_def)
  qed (rule v(3))
  moreover have "j \<notin> pending_ids ix' \<and> j \<notin> fst ` ref_sizes ix'" if j: "j \<in> sy_queue s \<union> set retired" for j
  proof (cases "j \<in> sy_queue s")
    case True
    have "fst ` ref_sizes ix' \<subseteq> fst ` ref_sizes (sy_ix s) \<union> fst ` op_refs op" using m(3) by blast
    then show ?thesis using v(13)[OF True] m(4,6) by blast
  next
    case False
    then have "j \<in> garbage_ids ix'" using m(5) j by blast
    then show ?thesis using ix_ok_places[OF m(1), of j] by blast
  qed
  moreover have "set retired \<subseteq> sy_minted s"
  proof -
    have "garbage_ids ix' \<subseteq> set_mset (seg_places ix')"
      unfolding garbage_ids_def seg_places_def using in_row_sum_keys[of _ "ix_garbage ix'"] by auto
    then show ?thesis using m(2,5) v(5) by simp
  qed
  moreover have "active_inv ?s" by (rule active_frame[OF v(15)]) (simp_all add: k)
  moreover have "pins_inv ?s" by (rule pins_frame[OF v(14)]) (simp_all add: st)
  moreover have "sizes_ok ix'" by (rule run_op_sizes[OF v(2) a assms(3)])
  moreover have "sy_files s j = sy_body s j" if "j \<in> pending_ids ix'" "sy_body s j \<noteq> None" for j
    using v(4) that m(6) by blast
  ultimately show ?thesis
    using v(5-12) m(1,2) by (intro sys_invI) (auto simp: e k)
qed

lemma reclaim_steps_inv:
  assumes "sys_inv s"
  shows "i \<in> sy_queue s \<Longrightarrow> \<not> is_pinned i (sy_st s) \<Longrightarrow> sys_inv (s\<lparr>sy_doomed := insert i (sy_doomed s)\<rparr>)"
    and "i \<in> sy_doomed s \<Longrightarrow> segments_delete io i (os_segs (sy_st s)) = (ok, ls') \<Longrightarrow>
      sys_inv (s\<lparr>sy_st := (sy_st s)\<lparr>os_segs := ls'\<rparr>, sy_gone := (if ok then insert i (sy_gone s) else sy_gone s)\<rparr>)"
    and "ixw TxOk (ix_forget_segments ids) (sy_st s) = (Inr (), st') \<Longrightarrow> sys_inv (s\<lparr>sy_st := st'\<rparr>)"
proof -
  note v = sys_invD[OF assms]
  {
    assume i: "i \<in> sy_queue s" "\<not> is_pinned i (sy_st s)"
    let ?s = "s\<lparr>sy_doomed := insert i (sy_doomed s)\<rparr>"
    have e: "sy_ix ?s = sy_ix s" "sy_files ?s = sy_files s" by (simp_all add: sy_ix_def sy_files_def)
    have k: "intact ?s j n = intact s j n" for j n by (simp add: intact_def e)
    have "i \<notin> set (held_ids rd)" if "map_of (sy_readers s) h = Some rd" for h rd
    proof
      assume h: "i \<in> set (held_ids rd)"
      let ?F = "\<lambda>(h, rd). count_list (held_ids rd) i"
      have p: "pins_ok (os_pins (sy_st s))" "pin_count (os_pins (sy_st s)) i = row_sum ?F (sy_readers s)"
        using v(14) by (simp_all add: pins_inv_def)
      have "row_sum ?F (sy_readers s) = 0" using pinned_count[OF p(1), of i] i(2) p(2) by simp
      moreover have "?F (h, rd) \<in> set (map ?F (sy_readers s))" using map_of_SomeD[OF that] by (metis image_eqI set_map)
      ultimately show False using h by (auto simp: row_sum_def count_list_0_iff)
    qed
    then have "active_inv ?s" using v(15) unfolding active_inv_def k by fastforce
    moreover have "pins_inv ?s" by (rule pins_frame[OF v(14)]) simp_all
    ultimately show "sys_inv ?s" using v(1-13) i(1) by (intro sys_invI) (auto simp: e k)
  next
    assume i: "i \<in> sy_doomed s" and d: "segments_delete io i (os_segs (sy_st s)) = (ok, ls')"
    let ?s = "s\<lparr>sy_st := (sy_st s)\<lparr>os_segs := ls'\<rparr>, sy_gone := (if ok then insert i (sy_gone s) else sy_gone s)\<rparr>"
    have e: "sy_ix ?s = sy_ix s" by (simp add: sy_ix_def)
    have f: "sy_files ?s j = sy_files s j" if "j \<noteq> i" for j
      using d that by (auto simp: sy_files_def segments_delete_def split: if_splits del_io.splits)
    have n: "i \<notin> pending_ids (sy_ix s)" "i \<notin> fst ` ref_sizes (sy_ix s)" using v(13)[of i] v(12) i by blast+
    have k: "intact ?s j m" if "intact s j m" "j \<noteq> i" for j m using that f[of j] by (simp add: intact_def)
    have "active_inv ?s" by (rule active_frame[OF v(15)], simp, simp, rule k) (use i in auto)
    moreover have "pins_inv ?s" by (rule pins_frame[OF v(14)]) simp_all
    moreover have "intact ?s j m" if "(j, m) \<in> ref_sizes (sy_ix s)" for j m using k[OF v(3)[OF that]] n(2) that by force
    moreover have "sy_files ?s j = sy_body s j" if "j \<in> pending_ids (sy_ix s)" "sy_body s j \<noteq> None" for j
      using v(4)[OF that] f[of j] n(1) that(1) by metis
    ultimately show "sys_inv ?s" using v(1,2,5-13) i by (intro sys_invI) (auto simp: e)
  next
    assume x: "ixw TxOk (ix_forget_segments ids) (sy_st s) = (Inr (), st')"
    let ?s = "s\<lparr>sy_st := st'\<rparr>"
    obtain ix' where a: "ix_forget_segments ids (sy_ix s) = Inr ((), ix')" and st: "st' = (sy_st s)\<lparr>os_ix := ix'\<rparr>"
      using ixw_InrD[OF x] by (auto simp: sy_ix_def)
    note p = forget_segments_places[OF v(1) a]
    have e: "sy_ix ?s = ix'" "sy_files ?s = sy_files s" by (simp_all add: sy_ix_def sy_files_def st)
    have k: "intact ?s j n = intact s j n" for j n by (simp add: intact_def e)
    have "sizes_ok ix'" using sizes_ok_same[OF v(2)] a by (auto simp: ix_forget_segments_def)
    moreover have "active_inv ?s" by (rule active_frame[OF v(15)]) (simp_all add: k)
    moreover have "pins_inv ?s" by (rule pins_frame[OF v(14)]) (simp_all add: st)
    ultimately show "sys_inv ?s" using v(3-13) p by (intro sys_invI) (auto simp: e k)
  }
qed

text \<open>A change of pins and readers only.\<close>

lemma readers_inv:
  assumes "sys_inv s" and "pins_ok pins'" and "t_ok rs'"
    and "\<And>i. pin_count pins' i = row_sum (\<lambda>(h, rd). count_list (held_ids rd) i) rs'"
    and "\<And>h m segs. map_of rs' h = Some (Active m segs) \<Longrightarrow> map_of (sy_readers s) h = Some (Active m segs)
      \<or> om_size m = (\<Sum>x\<leftarrow>segs. sr_size x) \<and> (\<forall>x \<in> set segs. (sr_id x, sr_size x) \<in> ref_sizes (sy_ix s))"
  shows "sys_inv (s\<lparr>sy_st := (sy_st s)\<lparr>os_pins := pins'\<rparr>, sy_readers := rs'\<rparr>)" (is "sys_inv ?s")
proof -
  note v = sys_invD[OF assms(1)]
  have e: "sy_ix ?s = sy_ix s" "sy_files ?s = sy_files s" by (simp_all add: sy_ix_def sy_files_def)
  have k: "intact ?s j n = intact s j n" for j n by (simp add: intact_def e)
  have r: "intact s (sr_id x) (sr_size x) \<and> sr_id x \<notin> sy_doomed s" if "(sr_id x, sr_size x) \<in> ref_sizes (sy_ix s)" for x
    using v(3)[OF that] v(13)[of "sr_id x"] v(12) that by force
  have "active_inv ?s"
    unfolding active_inv_def k
  proof (intro allI impI)
    fix h m segs assume "map_of (sy_readers ?s) h = Some (Active m segs)"
    then have "map_of rs' h = Some (Active m segs)" by simp
    from assms(5)[OF this]
    show "om_size m = (\<Sum>x\<leftarrow>segs. sr_size x) \<and> (\<forall>x \<in> set segs. intact s (sr_id x) (sr_size x) \<and> sr_id x \<notin> sy_doomed ?s)"
      using v(15) by (auto simp: active_inv_def dest: r)
  qed
  moreover have "pins_inv ?s" using assms(2-4) by (simp add: pins_inv_def)
  ultimately show ?thesis using v(1-13) by (intro sys_invI) (auto simp: e k)
qed

lemma pins_after:
  assumes "pins_inv s" and "map_of (sy_readers s) h = old"
  defines "o_ids \<equiv> (case old of None \<Rightarrow> [] | Some rd \<Rightarrow> held_ids rd)"
  shows "pins_ok (unpin_ids o_ids (os_pins (sy_st s)))"
    and "pin_count (unpin_ids o_ids (os_pins (sy_st s))) i = row_sum (\<lambda>(h, rd). count_list (held_ids rd) i) (t_remove h (sy_readers s))"
    and "row_sum (\<lambda>(h, rd). count_list (held_ids rd) i) (t_insert h new (sy_readers s)) + count_list o_ids i
      = pin_count (os_pins (sy_st s)) i + count_list (held_ids new) i"
    and "t_ok (t_remove h (sy_readers s))" and "t_ok (t_insert h new (sy_readers s))"
proof -
  let ?F = "\<lambda>(h, rd). count_list (held_ids rd) i"
  have p: "pins_ok (os_pins (sy_st s))" "t_ok (sy_readers s)" "pin_count (os_pins (sy_st s)) i = row_sum ?F (sy_readers s)"
    using assms(1) by (simp_all add: pins_inv_def)
  have o: "old_row ?F (sy_readers s) h = count_list o_ids i" using assms(2) by (auto simp: o_ids_def old_row_def split: option.split)
  show "pins_ok (unpin_ids o_ids (os_pins (sy_st s)))" using unpin_ids_count[OF p(1)] by blast
  show "pin_count (unpin_ids o_ids (os_pins (sy_st s))) i = row_sum ?F (t_remove h (sy_readers s))"
    using unpin_ids_count[OF p(1), of o_ids i] row_sum_remove[OF p(2), of ?F h] p(3) o by simp
  show "row_sum ?F (t_insert h new (sy_readers s)) + count_list o_ids i = pin_count (os_pins (sy_st s)) i + count_list (held_ids new) i"
    using row_sum_insert[OF p(2), of ?F h new] p(3) o by simp
  show "t_ok (t_remove h (sy_readers s))" "t_ok (t_insert h new (sy_readers s))" using p(2) by simp_all
qed

lemma store_row_rows:
  assumes "store_row b k st = Inr row"
  shows "map_of (ix_objects (os_ix st)) (obj_key b k) = Some (Row (or_meta row))"
    and "map_of (ix_manifests (os_ix st)) (obj_key b k) = Some (Row (or_segments row))"
  using assms by (auto simp: store_row_def ix_get_object_def ix_get_meta_def split: sum.splits option.splits cell.splits)

lemma manifest_refs: "map_of (ix_manifests ix) k = Some (Row ss) \<Longrightarrow> x \<in> set ss \<Longrightarrow> (sr_id x, sr_size x) \<in> ref_sizes ix"
  by (auto simp: ref_sizes_def man_refs_def)

lemma sys_same_st: "s\<lparr>sy_readers := rs\<rparr> = s\<lparr>sy_st := (sy_st s)\<lparr>os_pins := os_pins (sy_st s)\<rparr>, sy_readers := rs\<rparr>"
  by (cases s) simp

lemma sys_step_inv: "sys_step s s' \<Longrightarrow> sys_inv s \<Longrightarrow> sys_inv s'"
proof (induction rule: sys_step.induct)
  case (begin_write i s now st')
  then show ?case by (intro begin_write_inv)
next
  case (written i s b sha256 md5 io n dg ls')
  have e: "s\<lparr>sy_st := (sy_st s)\<lparr>os_segs := ls'\<rparr>, sy_body := f\<rparr>
      = s\<lparr>sy_st := (sy_st s)\<lparr>os_segs := ls'\<rparr>, sy_body := f, sy_writers := sy_writers s\<rparr>" for f by (cases s) simp
  show ?case
    by (rule write_inv[OF written.prems written.hyps(1,2,4), where d = "body_of (ub_reads b)" and W = "sy_writers s", folded e])
       (use write_bytes_ok(2)[OF written.hyps(4)] written.hyps(3) in auto)
next
  case (write_failed i s sha256 md5 io b e ls')
  have x: "s\<lparr>sy_st := (sy_st s)\<lparr>os_segs := ls'\<rparr>, sy_writers := W\<rparr>
      = s\<lparr>sy_st := (sy_st s)\<lparr>os_segs := ls'\<rparr>, sy_body := sy_body s, sy_writers := W\<rparr>" for W by (cases s) simp
  show ?case by (rule write_inv[OF write_failed.prems write_failed.hyps, where body' = "sy_body s", folded x]) auto
next
  case (transaction op s md5 retired st')
  then show ?case by (intro transaction_inv)
next
  case (pin_check i s)
  then show ?case by (intro reclaim_steps_inv(1))
next
  case (delete_file i s io ok ls')
  then show ?case by (intro reclaim_steps_inv(2))
next
  case (forget ids s st')
  then show ?case by (intro reclaim_steps_inv(3))
next
  case (look s h bucket key row)
  note p = pins_after[OF sys_invD(14)[OF look.prems] look.hyps(1)]
  have "pins_ok (os_pins (sy_st s))" using sys_invD(14)[OF look.prems] by (simp add: pins_inv_def)
  then show ?case
    using p(3)[of _ "Looked bucket key (or_segments row)"] p(5)
    by (subst sys_same_st, intro readers_inv[OF look.prems]) (auto split: if_splits)
next
  case (pin s h bucket key segs)
  note p = pins_after[OF sys_invD(14)[OF pin.prems] pin.hyps]
  have k: "pins_ok (os_pins (sy_st s))" using sys_invD(14)[OF pin.prems] by (simp add: pins_inv_def)
  show ?case
    unfolding pin_segs_def
    using p(3)[of _ "Pinned bucket key segs"] p(5) pin_ids_count[OF k, of "map sr_id segs"]
    by (intro readers_inv[OF pin.prems]) (auto split: if_splits)
next
  case (confirm s h bucket key segs row)
  note p = pins_after[OF sys_invD(14)[OF confirm.prems] confirm.hyps(1)]
  note r = store_row_rows[OF confirm.hyps(2)]
  have k: "pins_ok (os_pins (sy_st s))" using sys_invD(14)[OF confirm.prems] by (simp add: pins_inv_def)
  have z: "om_size (or_meta row) = (\<Sum>x\<leftarrow>segs. sr_size x)" "\<forall>x \<in> set segs. (sr_id x, sr_size x) \<in> ref_sizes (sy_ix s)"
    using sys_invD(2)[OF confirm.prems] r manifest_refs[OF r(2)] confirm.hyps(3) by (auto simp: sizes_ok_def sy_ix_def)
  show ?case
    using p(3)[of _ "Active (or_meta row) segs"] p(5) k z
    by (subst sys_same_st, intro readers_inv[OF confirm.prems]) (auto split: if_splits)
next
  case (look_again s h bucket key segs row)
  note p = pins_after[OF sys_invD(14)[OF look_again.prems] look_again.hyps(1)]
  have k: "pins_ok (os_pins (sy_st s))" using sys_invD(14)[OF look_again.prems] by (simp add: pins_inv_def)
  have c: "pin_count (unpin_ids (map sr_id segs) (os_pins (sy_st s))) i
      = row_sum (\<lambda>(h, rd). count_list (held_ids rd) i) (t_insert h (Looked bucket key (or_segments row)) (sy_readers s))" for i
    using p(3)[of i "Looked bucket key (or_segments row)"] unpin_ids_count[OF k, of "map sr_id segs" i] by simp
  show ?case
    unfolding unpin_segs_def
    using p(5) unpin_ids_count[OF k, of "map sr_id segs"] c
    by (intro readers_inv[OF look_again.prems]) (auto split: if_splits)
next
  case (drop_reader s h rd)
  note p = pins_after[OF sys_invD(14)[OF drop_reader.prems] drop_reader.hyps]
  show ?case using p(1,2,4) by (intro readers_inv[OF drop_reader.prems]) (auto split: if_splits)
next
  case (crash s)
  note v = sys_invD[OF crash.prems]
  let ?s = "s\<lparr>sy_st := store_open (sy_st s), sy_writers := {}, sy_queue := {}, sy_doomed := {}, sy_gone := {}, sy_readers := []\<rparr>"
  have e: "sy_ix ?s = sy_ix s" "sy_files ?s = sy_files s" by (simp_all add: sy_ix_def sy_files_def store_open_def segments_open_def)
  have k: "intact ?s j n = intact s j n" for j n by (simp add: intact_def e)
  have "pins_inv ?s" by (simp add: pins_inv_def store_open_def pins_ok_def pin_count_def get_or_default_def)
  moreover have "active_inv ?s" by (simp add: active_inv_def)
  ultimately show ?case using v(1-10) by (intro sys_invI) (auto simp: e k)
qed

lemma sys_run_inv: "sys_run s s' \<Longrightarrow> sys_inv s \<Longrightarrow> sys_inv s'"
  by (induction rule: sys_run.induct) (auto intro: sys_step_inv)

lemma sys_step_body: "sys_step s s' \<Longrightarrow> sy_body s i = Some d \<Longrightarrow> sy_body s' i = Some d"
  by (induction rule: sys_step.induct) auto

lemma sys_run_body: "sys_run s s' \<Longrightarrow> sy_body s i = Some d \<Longrightarrow> sy_body s' i = Some d"
  by (induction rule: sys_run.induct) (auto intro: sys_step_body)

section \<open>What readers see\<close>

lemma intact_reads:
  assumes "\<forall>x \<in> set segs. intact s (sr_id x) (sr_size x)" and "start + len \<le> u64_max"
  shows "body_stream segs start len (os_segs (sy_st s)) = Inr (take len (drop start (whole (sy_body s) segs)))"
    and "length (whole (sy_body s) segs) = (\<Sum>x\<leftarrow>segs. sr_size x)"
proof -
  have h: "segs_held (sy_files s) segs" "segs_held (sy_body s) segs" and e: "\<forall>x \<in> set segs. sy_files s (sr_id x) = sy_body s (sr_id x)"
    using assms(1) by (auto simp: segs_held_def intact_def seg_held_def)
  have "whole (sy_files s) segs = whole (sy_body s) segs"
    unfolding whole_def using e by (intro arg_cong[where f = concat] map_cong) auto
  then show "body_stream segs start len (os_segs (sy_st s)) = Inr (take len (drop start (whole (sy_body s) segs)))"
    using body_stream_held[OF _ assms(2), of "os_segs (sy_st s)" segs] h(1) by (simp add: sy_files_def)
  show "length (whole (sy_body s) segs) = (\<Sum>x\<leftarrow>segs. sr_size x)" by (rule whole_length[OF h(2)])
qed

lemma object_reads:
  assumes "sys_run sys_start s" and "store_row bucket key (sy_st s) = Inr row" and "start + len \<le> u64_max"
  shows "om_size (or_meta row) = length (whole (sy_body s) (or_segments row))
    \<and> body_stream (or_segments row) start len (os_segs (sy_st s)) = Inr (take len (drop start (whole (sy_body s) (or_segments row))))"
proof -
  note v = sys_invD[OF sys_run_inv[OF assms(1) sys_inv_start]] and r = store_row_rows[OF assms(2)]
  have "\<forall>x \<in> set (or_segments row). intact s (sr_id x) (sr_size x)"
    using v(3) manifest_refs[OF r(2)] by (simp add: sy_ix_def)
  from intact_reads[OF this assms(3)] show ?thesis using v(2) r by (simp add: sizes_ok_def sy_ix_def)
qed

text \<open>C8. In every state the requests can reach - uploads, overwrites, deletions, multipart uploads, sweeps, reclaim
  passes, readers and restarts in any order - an object that a lookup finds can be read in full: its size is
  that of the bodies uploaded under its segments, and every range of it reads as that range of those bodies.\<close>

theorem no_torn_object:
  assumes "sys_run sys_start s" and "store_row bucket key (sy_st s) = Inr row" and "start + len \<le> u64_max"
  shows "om_size (or_meta row) = length (whole (sy_body s) (or_segments row))
    \<and> body_stream (or_segments row) start len (os_segs (sy_st s)) = Inr (take len (drop start (whole (sy_body s) (or_segments row))))"
  using assms by (rule object_reads)

text \<open>C9. A GET that has confirmed its object keeps it: whatever the other requests do meanwhile - overwriting or
  deleting the object and reclaiming its segments included - until the reader is dropped every range it
  reads is that range of the bytes the object had when the GET was answered, and the stated size is their number.\<close>

theorem open_get_keeps_its_bytes:
  assumes "sys_run sys_start s" and "map_of (sy_readers s) h = Some (Active m segs)"
    and "sys_run s s'" and "map_of (sy_readers s') h = Some (Active m segs)" and "start + len \<le> u64_max"
  shows "om_size m = length (whole (sy_body s) segs)
    \<and> body_stream segs start len (os_segs (sy_st s')) = Inr (take len (drop start (whole (sy_body s) segs)))"
proof -
  have i: "sys_inv s" "sys_inv s'" using sys_run_inv[OF assms(1) sys_inv_start] sys_run_inv[OF assms(3)] by auto
  have a: "\<forall>x \<in> set segs. intact s (sr_id x) (sr_size x)" "\<forall>x \<in> set segs. intact s' (sr_id x) (sr_size x)"
    "om_size m = (\<Sum>x\<leftarrow>segs. sr_size x)"
    using sys_invD(15)[OF i(1)] sys_invD(15)[OF i(2)] assms(2,4) by (auto simp: active_inv_def)
  have "whole (sy_body s') segs = whole (sy_body s) segs"
    unfolding whole_def
    using a(1) sys_run_body[OF assms(3)] by (intro arg_cong[where f = concat] map_cong) (fastforce simp: intact_def seg_held_def)+
  then show ?thesis using intact_reads(1)[OF a(2) assms(5)] intact_reads(2)[OF a(1) assms(5)] a(3) by simp
qed

section \<open>A run\<close>

definition demo_io :: seg_io where
  "demo_io = \<lparr>si_create = True, si_sync = True, si_dirs = True, si_link = True, si_sync_dir = True\<rparr>"

definition demo_upload :: upload_body where
  "demo_upload = \<lparr>ub_start = 0, ub_reads = [(1, RChunk [1, 2] True), (2, RChunk [3] True), (3, REof)], ub_sha256 = None, ub_len = Some 3\<rparr>"

definition demo_row :: object_row where
  "demo_row = \<lparr>or_meta = \<lparr>om_key = ''k'', om_size = 3, om_etag = ''e'', om_content_type = ''x'', om_last_modified = 0, om_cache_control = None\<rparr>,
     or_segments = [\<lparr>sr_id = ''a1'', sr_size = 3\<rparr>]\<rparr>"

definition demo1 :: obj_store where "demo1 = snd (ixw TxOk (run_op id (OpCreateBucket ''buk'' 0)) (sy_st sys_start))"
definition demo2 :: obj_store where "demo2 = snd (ixw TxOk (ix_add_pending [''a1''] 0) demo1)"
definition demo3 :: obj_store where "demo3 = demo2\<lparr>os_segs := \<lparr>ls_files = [(''a1'', [1, 2, 3])], ls_tmp = [], ls_live = True\<rparr>\<rparr>"
definition demo4 :: obj_store where "demo4 = snd (ixw TxOk (run_op id (OpCommitObjects ''buk'' [demo_row] 1)) demo3)"
definition demo5 :: obj_store where "demo5 = pin_segs (or_segments demo_row) demo4"
definition demo6 :: obj_store where "demo6 = snd (ixw TxOk (run_op id (OpDeleteObject ''buk'' ''k'' 2)) demo5)"

lemma demo_segs: "os_segs demo2 = \<lparr>ls_files = [], ls_tmp = [], ls_live = True\<rparr>"
  by code_simp

lemma demo_write: "write_bytes id id demo_io ''a1'' demo_upload (os_segs demo2) = (Inr (3, [1, 2, 3]), os_segs demo3)"
  by (simp add: demo_segs demo3_def write_bytes_def segments_create_def check_id_def demo_io_def demo_upload_def write_stream_def upload_deadline_def
      MIN_UPLOAD_RATE_def MIN_UPLOAD_DEADLINE_def MAX_UPLOAD_DEADLINE_def from_secs_def writer_write_def writer_commit_def writer_drop_def
      get_or_default_def Let_def)

lemma demo_eval:
  "ixw TxOk (run_op id (OpCreateBucket ''buk'' 0)) (sy_st sys_start) = (Inr [], demo1)"
  "ixw TxOk (ix_add_pending [''a1''] 0) demo1 = (Inr (), demo2)"
  "ixw TxOk (run_op id (OpCommitObjects ''buk'' [demo_row] 1)) demo3 = (Inr [], demo4)"
  "check_id ''a1''" "body_of (ub_reads demo_upload) = [1, 2, 3]"
  by code_simp+

lemma demo_rows:
  "store_row ''buk'' ''k'' demo4 = Inr demo_row"
  "store_row ''buk'' ''k'' demo5 = Inr demo_row"
  "ixw TxOk (run_op id (OpDeleteObject ''buk'' ''k'' 2)) demo5 = (Inr [''a1''], demo6)"
  "store_row ''buk'' ''k'' demo6 = Inl (NoSuchKey ''k'')"
  by code_simp+

lemma demo_run:
  obtains s1 s2 where "sys_run sys_start s1" "sy_st s1 = demo5" "map_of (sy_readers s1) 0 = Some (Active (or_meta demo_row) (or_segments demo_row))"
    "sys_run s1 s2" "sy_st s2 = demo6" "map_of (sy_readers s2) 0 = Some (Active (or_meta demo_row) (or_segments demo_row))"
    "sy_body s1 ''a1'' = Some [1, 2, 3]"
proof -
  define a where "a = sys_start\<lparr>sy_st := demo1, sy_queue := {}\<rparr>"
  define b where "b = a\<lparr>sy_st := demo2, sy_minted := {''a1''}, sy_writers := {''a1''}\<rparr>"
  define c where "c = b\<lparr>sy_st := demo3, sy_body := (sy_body b)(''a1'' \<mapsto> [1, 2, 3])\<rparr>"
  define d where "d = c\<lparr>sy_st := demo4, sy_queue := {}\<rparr>"
  define e where "e = d\<lparr>sy_readers := [(0, Looked ''buk'' ''k'' (or_segments demo_row))]\<rparr>"
  define f where "f = e\<lparr>sy_st := demo5, sy_readers := [(0, Pinned ''buk'' ''k'' (or_segments demo_row))]\<rparr>"
  define g where "g = f\<lparr>sy_readers := [(0, Active (or_meta demo_row) (or_segments demo_row))]\<rparr>"
  define t where "t = g\<lparr>sy_st := demo6, sy_queue := {''a1''}\<rparr>"
  note defs = a_def b_def c_def d_def e_def f_def g_def t_def sys_start_def
  have 1: "sys_step sys_start a"
    using sys_step.transaction[of "OpCreateBucket ''buk'' 0" sys_start id "[]" demo1] demo_eval(1) by (simp add: a_def sys_start_def)
  have 2: "sys_step a b"
    using sys_step.begin_write[of "''a1''" a 0 demo2] demo_eval(2,4) by (simp add: defs)
  have 3: "sys_step b c"
    using sys_step.written[of "''a1''" b demo_upload id id demo_io 3 "[1, 2, 3]" "os_segs demo3"] demo_write demo_eval(5)
    by (simp add: defs u64_max_def demo3_def)
  have 4: "sys_step c d"
    using sys_step.transaction[of "OpCommitObjects ''buk'' [demo_row] 1" c id "[]" demo4] demo_eval(3)
    by (simp add: defs row_refs_def demo_row_def)
  have 5: "sys_step d e"
    using sys_step.look[of d 0 "''buk''" "''k''" demo_row] demo_rows(1) by (simp add: defs)
  have 6: "sys_step e f"
    using sys_step.pin[of e 0 "''buk''" "''k''" "or_segments demo_row"] by (simp add: defs demo5_def)
  have 7: "sys_step f g"
    using sys_step.confirm[of f 0 "''buk''" "''k''" "or_segments demo_row" demo_row] demo_rows(2) by (simp add: defs)
  have 8: "sys_step g t"
    using sys_step.transaction[of "OpDeleteObject ''buk'' ''k'' 2" g id "[''a1'']" demo6] demo_rows(3) by (simp add: defs)
  have r: "sys_run sys_start g" "sys_run g t" using 1 2 3 4 5 6 7 8 by (meson sys_run.intros)+
  show thesis by (rule that[OF r(1) _ _ r(2)]) (simp_all add: defs)
qed

theorem no_torn_object_witness:
  "store_row ''buk'' ''k'' demo5 = Inr demo_row \<and> body_stream (or_segments demo_row) 1 1 (os_segs demo5) = Inr [2]"
proof -
  obtain s where s: "sys_run sys_start s" "sy_st s = demo5" "sy_body s ''a1'' = Some [1, 2, 3]" by (rule demo_run)
  have "whole (sy_body s) (or_segments demo_row) = [1, 2, 3]" using s(3) by (simp add: whole_def demo_row_def)
  then show ?thesis
    using no_torn_object[OF s(1), of "''buk''" "''k''" demo_row 1 1] s(2) demo_rows(2) by (simp add: u64_max_def)
qed

theorem open_get_keeps_its_bytes_witness:
  "store_row ''buk'' ''k'' demo6 = Inl (NoSuchKey ''k'') \<and> body_stream (or_segments demo_row) 0 3 (os_segs demo6) = Inr [1, 2, 3]"
proof -
  obtain s1 s2 where s: "sys_run sys_start s1" "map_of (sy_readers s1) 0 = Some (Active (or_meta demo_row) (or_segments demo_row))"
    "sys_run s1 s2" "sy_st s2 = demo6" "map_of (sy_readers s2) 0 = Some (Active (or_meta demo_row) (or_segments demo_row))"
    "sy_body s1 ''a1'' = Some [1, 2, 3]"
    by (rule demo_run)
  have "whole (sy_body s1) (or_segments demo_row) = [1, 2, 3]" using s(6) by (simp add: whole_def demo_row_def)
  then show ?thesis
    using open_get_keeps_its_bytes[OF s(1,2,3,5), of 0 3] s(4) demo_rows(4) by (simp add: u64_max_def)
qed

end
