(* ===== verification/Obj_Store_Ops.thy ===== *)
theory Obj_Store_Ops
  imports Obj_Store_Run
begin

text \<open>
  The requests of the object store one by one: a store is a map from buckets and keys to metadata and bytes, and
  PUT, DELETE and the completion of a multipart upload are its updates. Reclaim and release are invisible in it.
\<close>

section \<open>The view of an object\<close>

text \<open>What the store promises: a map from buckets and keys to metadata and bytes.\<close>

definition object_view :: "obj_store \<Rightarrow> string \<Rightarrow> string \<Rightarrow> (object_meta \<times> bytes) option" where
  "object_view st b k =
     (case store_row b k st of
        Inl _ \<Rightarrow> None
      | Inr row \<Rightarrow>
          (case body_stream (or_segments row) 0 (om_size (or_meta row)) (os_segs st) of
             Inl _ \<Rightarrow> None
           | Inr d \<Rightarrow> Some (or_meta row, d)))"

definition st_files :: "obj_store \<Rightarrow> string \<Rightarrow> bytes option" where "st_files st = map_of (ls_files (os_segs st))"

lemma read_plan_cong:
  "\<forall>(i, off, n) \<in> set plan. map_of (ls_files ls') i = map_of (ls_files ls) i \<Longrightarrow> read_plan plan ls' = read_plan plan ls"
proof (induction plan)
  case (Cons r plan)
  obtain i off n where r: "r = (i, off, n)" by (cases r) auto
  have "segments_read i off n ls' = segments_read i off n ls" using Cons.prems by (simp add: segments_read_def r)
  moreover have "read_plan plan ls' = read_plan plan ls" using Cons by simp
  ultimately show ?case unfolding r by (simp only: read_plan.simps)
qed simp

lemma stream_plan_ids: "(i, off, n) \<in> set (stream_plan start endp pos segs) \<Longrightarrow> i \<in> sr_id ` set segs"
  by (induction segs arbitrary: pos) (auto simp: Let_def split: if_splits)

lemma body_stream_cong:
  "\<forall>x \<in> set segs. st_files st' (sr_id x) = st_files st (sr_id x) \<Longrightarrow> body_stream segs start len (os_segs st') = body_stream segs start len (os_segs st)"
  unfolding body_stream_def st_files_def using stream_plan_ids by (intro read_plan_cong) fastforce

lemma store_row_cong:
  assumes "map_of (ix_buckets (os_ix st')) = map_of (ix_buckets (os_ix st))"
    and "map_of (ix_objects (os_ix st')) (obj_key b k) = map_of (ix_objects (os_ix st)) (obj_key b k)"
    and "map_of (ix_manifests (os_ix st')) (obj_key b k) = map_of (ix_manifests (os_ix st)) (obj_key b k)"
  shows "store_row b k st' = store_row b k st"
proof -
  have e: "require_bucket b (os_ix st') = require_bucket b (os_ix st)" "ix_bucket_exists b (os_ix st') = ix_bucket_exists b (os_ix st)"
    using assms(1) by (simp_all add: require_bucket_def ix_bucket_exists_def)
  show ?thesis unfolding store_row_def check_names_def ix_get_object_def ix_get_meta_def e assms(2,3) ..
qed

lemma view_cong:
  assumes "store_row b k st' = store_row b k st"
    and "\<And>row x. store_row b k st = Inr row \<Longrightarrow> x \<in> set (or_segments row) \<Longrightarrow> st_files st' (sr_id x) = st_files st (sr_id x)"
  shows "object_view st' b k = object_view st b k"
proof (cases "store_row b k st")
  case (Inr row)
  have "body_stream (or_segments row) 0 (om_size (or_meta row)) (os_segs st') = body_stream (or_segments row) 0 (om_size (or_meta row)) (os_segs st)"
    using assms(2)[OF Inr] by (intro body_stream_cong) blast
  then show ?thesis using Inr assms(1) by (simp add: object_view_def)
qed (use assms(1) in \<open>simp add: object_view_def\<close>)

section \<open>Reclaim and release\<close>

text \<open>What a reclaim pass leaves alone: the tables of objects and uploads, and every file it was not handed.\<close>

definition keeps :: "obj_store \<Rightarrow> string set \<Rightarrow> obj_store \<Rightarrow> bool" where
  "keeps st ids st' \<longleftrightarrow> (\<exists>g. os_ix st' = (os_ix st)\<lparr>ix_garbage := g\<rparr>) \<and> ix_ok (os_ix st') \<and> os_pins st' = os_pins st
     \<and> set_mset (seg_places (os_ix st')) \<subseteq> set_mset (seg_places (os_ix st)) \<and> (\<forall>j. j \<notin> ids \<longrightarrow> st_files st' j = st_files st j)"

lemma keeps_refl: "ix_ok (os_ix st) \<Longrightarrow> keeps st ids st"
  by (auto simp: keeps_def intro: exI[of _ "ix_garbage (os_ix st)"])

lemma keeps_trans: "keeps st ids st1 \<Longrightarrow> keeps st1 ids' st2 \<Longrightarrow> keeps st (ids \<union> ids') st2"
  by (auto simp: keeps_def)

lemma reclaim_chunk_keeps:
  "reclaim_chunk del ids st = (gone, st') \<Longrightarrow> ix_ok (os_ix st) \<Longrightarrow> keeps st (set ids) st' \<and> os_ix st' = os_ix st"
proof (induction ids arbitrary: st gone)
  case (Cons i ids)
  show ?case
  proof (cases "is_pinned i st")
    case True
    then have "reclaim_chunk del ids st = (gone, st')" using Cons.prems(1) by simp
    from Cons.IH[OF this Cons.prems(2)] show ?thesis unfolding keeps_def by (metis list.set_intros(2))
  next
    case False
    obtain ok segs where d: "segments_delete (del i) i (os_segs st) = (ok, segs)" by fastforce
    obtain g where g: "reclaim_chunk del ids (st\<lparr>os_segs := segs\<rparr>) = (g, st')"
      using Cons.prems(1) False d by (auto split: prod.splits)
    have "keeps st {i} (st\<lparr>os_segs := segs\<rparr>)"
      using d Cons.prems(2) by (auto simp: keeps_def st_files_def segments_delete_def intro: exI[of _ "ix_garbage (os_ix st)"] split: if_splits del_io.splits)
    from keeps_trans[OF this] show ?thesis using Cons.IH[OF g] Cons.prems(2) by auto
  qed
qed (simp add: keeps_refl)

lemma forget_keeps:
  assumes "ixw res (ix_forget_segments ids) st = (r, st')" and "ix_ok (os_ix st)"
  shows "keeps st {} st'"
proof (cases r)
  case (Inr u)
  then obtain ix' where "ix_forget_segments ids (os_ix st) = Inr (u, ix')" "st' = st\<lparr>os_ix := ix'\<rparr>"
    using ixw_InrD[of res _ st u st'] assms(1) by blast
  with forget_segments_places[OF assms(2) this(1)] show ?thesis
    by (auto simp: keeps_def ix_forget_segments_def st_files_def)
next
  case (Inl e)
  then have "st' = st" using assms(1) by (auto simp: ixw_def ix_write_def split: if_splits sum.splits)
  then show ?thesis using keeps_refl[OF assms(2)] by simp
qed

lemma reclaim_chunks_keeps:
  "reclaim_chunks del res cs n st = (r, st') \<Longrightarrow> ix_ok (os_ix st) \<Longrightarrow> keeps st (set (concat cs)) st'"
proof (induction cs arbitrary: n st)
  case (Cons c cs)
  obtain gone st1 where c: "reclaim_chunk del c st = (gone, st1)" by fastforce
  obtain f st2 where f: "ixw res (ix_forget_segments gone) st1 = (f, st2)" by fastforce
  note k1 = reclaim_chunk_keeps[OF c Cons.prems(2)]
  note k2 = forget_keeps[OF f] 
  have o: "ix_ok (os_ix st1)" "ix_ok (os_ix st2)" using k1 k2 by (auto simp: keeps_def)
  have k12: "keeps st (set c) st2" using keeps_trans[of st "set c" st1 "{}" st2] k1 k2[OF o(1)] by simp
  consider "st' = st2" | m where "reclaim_chunks del res cs m st1 = (r, st')" | m where "reclaim_chunks del res cs m st2 = (r, st')"
    using Cons.prems(1) c f by (cases f) (auto simp: Let_def split: if_splits)
  then show ?case
  proof cases
    case 1
    then show ?thesis using k12 by (auto simp: keeps_def)
  next
    case 2
    from keeps_trans[OF conjunct1[OF k1] Cons.IH[OF 2 o(1)]] show ?thesis by simp
  next
    case 3
    from keeps_trans[OF k12 Cons.IH[OF 3 o(2)]] show ?thesis by simp
  qed
qed (simp add: keeps_refl)

lemma concat_chunks: "n > 0 \<Longrightarrow> concat (chunks n xs) = xs"
  by (induction n xs rule: chunks.induct) (subst chunks.simps, simp)

declare chunks.simps [simp del]

lemma reclaim_keeps: "reclaim del res ids st = (r, st') \<Longrightarrow> ix_ok (os_ix st) \<Longrightarrow> keeps st (set ids) st'"
  unfolding reclaim_def using reclaim_chunks_keeps[of del res "chunks 1000 ids" 0 st r st'] by (simp add: concat_chunks)

lemma keeps_view:
  assumes "keeps st ids st'" and "ids \<inter> fst ` ref_sizes (os_ix st) = {}"
  shows "object_view st' = object_view st"
proof (intro ext)
  fix b k
  obtain g where g: "os_ix st' = (os_ix st)\<lparr>ix_garbage := g\<rparr>" using assms(1) by (auto simp: keeps_def)
  show "object_view st' b k = object_view st b k"
  proof (rule view_cong)
    show "store_row b k st' = store_row b k st" by (rule store_row_cong) (simp_all add: g)
    fix row x assume "store_row b k st = Inr row" "x \<in> set (or_segments row)"
    then have "(sr_id x, sr_size x) \<in> ref_sizes (os_ix st)" using manifest_refs store_row_rows(2) by blast
    then have "sr_id x \<notin> ids" using assms(2) by force
    then show "st_files st' (sr_id x) = st_files st (sr_id x)" using assms(1) by (simp add: keeps_def)
  qed
qed

text \<open>Garbage is not referenced, so reclaiming it changes no object.\<close>

lemma reclaim_view:
  assumes "reclaim del res ids st = (r, st')" and "ix_ok (os_ix st)" and "set ids \<subseteq> garbage_ids (os_ix st)"
  shows "object_view st' = object_view st" and "ix_ok (os_ix st')"
proof -
  note k = reclaim_keeps[OF assms(1,2)]
  show "ix_ok (os_ix st')" using k by (simp add: keeps_def)
  show "object_view st' = object_view st"
    using assms(3) ix_ok_places(1)[OF assms(2)] by (intro keeps_view[OF k]) blast
qed

lemma ixw_InlD: "ixw res f st = (Inl e, st') \<Longrightarrow> st' = st"
  by (auto simp: ixw_def ix_write_def split: if_splits sum.splits)

text \<open>
  The contract between a request and a transaction that retires segments: the transaction moves segments as
  \<open>ix_moves\<close> says and names the ones it retired; the request commits it and hands those to a reclaim pass.
\<close>

locale retiring_tx =
  fixes f :: "obj_index \<Rightarrow> 'a ix_result" and new :: "(string \<times> nat) set" and retired :: "'a \<Rightarrow> string list"
  assumes moves: "ix_ok ix \<Longrightarrow> f ix = Inr (v, ix') \<Longrightarrow> ix_moves ix new (retired v) ix'"
begin

lemma commit_then_reclaim:
  assumes "ix_ok (os_ix st)" and "ixw res f st = (Inr v, st1)" and "reclaim del res' (retired v) st1 = (q, st2)"
  shows "\<exists>ix'. f (os_ix st) = Inr (v, ix') \<and> st1 = st\<lparr>os_ix := ix'\<rparr> \<and> ix_ok ix' \<and> ix_ok (os_ix st2)
    \<and> object_view st2 = object_view (st\<lparr>os_ix := ix'\<rparr>)"
proof -
  obtain ix' where x: "f (os_ix st) = Inr (v, ix')" "st1 = st\<lparr>os_ix := ix'\<rparr>" using ixw_InrD[OF assms(2)] by blast
  note m = ix_movesD[OF moves[OF assms(1) x(1)]]
  have "object_view st2 = object_view st1" "ix_ok (os_ix st2)" using reclaim_view[OF assms(3)] m(1,5) x(2) by simp_all
  then show ?thesis using x m(1) by simp
qed

end

interpretation tx_discard: retiring_tx "ix_discard_pending ids now" "{}" "\<lambda>v. v" for ids now
  using discard_loop_moves by unfold_locales (simp add: ix_discard_pending_def)

interpretation tx_commit: retiring_tx "ix_commit_object bucket row now" "row_refs [row]" "\<lambda>v. v" for bucket row now
  using commit_objects_moves by unfold_locales (simp add: ix_commit_object_def)

interpretation tx_delete: retiring_tx "ix_delete_object bucket key now" "{}" "\<lambda>v. v" for bucket key now
  using delete_object_moves by unfold_locales

interpretation tx_complete: retiring_tx "ix_complete_upload md5 bucket key u pns now" "{}" snd for md5 bucket key u pns now
  by unfold_locales (auto intro: complete_upload_moves)

lemma tx_view:
  assumes "ix_buckets ix' = ix_buckets (os_ix st)" "ix_objects ix' = ix_objects (os_ix st)" "ix_manifests ix' = ix_manifests (os_ix st)"
  shows "object_view (st\<lparr>os_ix := ix'\<rparr>) = object_view st"
proof (intro ext view_cong)
  show "store_row b k (st\<lparr>os_ix := ix'\<rparr>) = store_row b k st" for b k by (rule store_row_cong) (simp_all add: assms)
qed (simp add: st_files_def)

lemma release_view:
  assumes "ix_ok (os_ix st)"
  shows "object_view (release en i st) = object_view st" "ix_ok (os_ix (release en i st))"
proof -
  obtain r st1 where w: "ixw (re_discard en) (ix_discard_pending [i] (re_now en)) st = (r, st1)" by fastforce
  have "object_view (release en i st) = object_view st \<and> ix_ok (os_ix (release en i st))"
  proof (cases r)
    case (Inl e)
    then have "st1 = st" using w ixw_InlD by blast
    then show ?thesis using w Inl assms by (simp add: release_def)
  next
    case (Inr retired)
    obtain q st2 where q: "reclaim (re_del en) (re_forget en) retired st1 = (q, st2)" by fastforce
    obtain ix' where x: "ix_discard_pending [i] (re_now en) (os_ix st) = Inr (retired, ix')" "st1 = st\<lparr>os_ix := ix'\<rparr>"
      "ix_ok (os_ix st2)" "object_view st2 = object_view (st\<lparr>os_ix := ix'\<rparr>)"
      using tx_discard.commit_then_reclaim[OF assms _ q] w Inr by blast
    have "object_view (st\<lparr>os_ix := ix'\<rparr>) = object_view st"
      using discard_loop_rest[of "[i]" "re_now en" "os_ix st" retired ix'] x(1)
      by (intro tx_view) (auto simp: ix_discard_pending_def simp del: discard_loop.simps)
    then have v: "object_view st2 = object_view st" using x(4) by simp
    then show ?thesis using w Inr q x(3) by (simp add: release_def)
  qed
  then show "object_view (release en i st) = object_view st" "ix_ok (os_ix (release en i st))" by auto
qed

lemma fresh_file_view:
  assumes "ix_ok (os_ix st)" and "i \<notin> fst ` ref_sizes (os_ix st)" and "write_bytes sha256 md5 io i b (os_segs st) = (r, ls')"
  shows "object_view (st\<lparr>os_segs := ls'\<rparr>) = object_view st"
proof (intro ext view_cong)
  show "store_row b k (st\<lparr>os_segs := ls'\<rparr>) = store_row b k st" for b k by (rule store_row_cong) simp_all
  fix b k row x assume "store_row b k st = Inr row" "x \<in> set (or_segments row)"
  then have "sr_id x \<noteq> i" using assms(2) manifest_refs store_row_rows(2) by force
  then show "st_files (st\<lparr>os_segs := ls'\<rparr>) (sr_id x) = st_files st (sr_id x)"
    using write_bytes_files[OF assms(3)] by (auto simp: st_files_def)
qed

lemma write_segment_spec:
  assumes "ix_ok (os_ix st)" and "re_id en \<notin># seg_places (os_ix st)" and "write_segment sha256 md5 en b st = (r, st2)"
  shows "object_view st2 = object_view st \<and> ix_ok (os_ix st2) \<and> (\<forall>n dg. r = Inr (n, dg) \<longrightarrow>
      n = length (body_of (ub_reads b)) \<and> dg = md5 (body_of (ub_reads b)) \<and> check_id (re_id en)
      \<and> st_files st2 (re_id en) = Some (body_of (ub_reads b)) \<and> ix_buckets (os_ix st2) = ix_buckets (os_ix st))" (is ?spec)
proof -
  let ?i = "re_id en"
  obtain p st1 where a: "ixw (re_pend en) (ix_add_pending [?i] (re_now en)) st = (p, st1)" by fastforce
  show ?spec
  proof (cases p)
    case (Inl e)
    then have "st1 = st" using a ixw_InlD by blast
    then have "st2 = st" "r = Inl e" using assms(3) a Inl by (auto simp: write_segment_def)
    then show ?thesis using assms(1) by simp
  next
    case (Inr u)
    then obtain ix1 where x: "ix_add_pending [?i] (re_now en) (os_ix st) = Inr (u, ix1)" "st1 = st\<lparr>os_ix := ix1\<rparr>"
      using ixw_InrD[of _ _ st u st1] a by auto
    note q = add_pending_places[OF assms(1) x(1) assms(2)]
    have v: "object_view st1 = object_view st" unfolding x(2) by (rule tx_view) (use x(1) in \<open>auto simp: ix_add_pending_def\<close>)
    obtain w ls' where w: "write_bytes sha256 md5 (re_io en) ?i b (os_segs st1) = (w, ls')" by fastforce
    have f: "?i \<notin> fst ` ref_sizes (os_ix st1)" using ix_ok_places(1)[OF q(1), of ?i] q(4) x(2) by auto
    have v2: "object_view (st1\<lparr>os_segs := ls'\<rparr>) = object_view st" and o: "ix_ok (os_ix (st1\<lparr>os_segs := ls'\<rparr>))"
      using fresh_file_view[OF _ f w] q(1) x(2) v by simp_all
    have "r = w" "st2 = (case w of Inr _ \<Rightarrow> st1\<lparr>os_segs := ls'\<rparr> | Inl _ \<Rightarrow> release en ?i (st1\<lparr>os_segs := ls'\<rparr>))"
      using assms(3) a Inr w by (auto simp: write_segment_def Let_def split: sum.splits)
    then show ?thesis
      using v2 o release_view[OF o] write_bytes_ok[of sha256 md5 "re_io en" ?i b "os_segs st1" _ _ ls'] w x
      by (auto simp: st_files_def ix_add_pending_def split: sum.splits)
  qed
qed

lemma commit_object_shape:
  assumes "ix_commit_object bucket row now ix = Inr (r, ix')"
  shows "map_of (ix_buckets ix) bucket \<noteq> None" "ix_buckets ix' = ix_buckets ix"
    "map_of (ix_objects ix') = (map_of (ix_objects ix))(obj_key bucket (om_key (or_meta row)) \<mapsto> Row (or_meta row))"
    "map_of (ix_manifests ix') = (map_of (ix_manifests ix))(obj_key bucket (om_key (or_meta row)) \<mapsto> Row (or_segments row))"
proof -
  obtain ix1 where t: "take_pending (map sr_id (or_segments row)) ix = Inr ix1" and b: "map_of (ix_buckets ix) bucket \<noteq> None"
    and p: "put_rows bucket row now ix1 = (r, ix')"
    using assms by (auto simp: ix_commit_object_def ix_commit_objects_def require_bucket_def split: if_splits sum.splits prod.splits)
  note e = take_pending_rest[OF t]
  show "map_of (ix_buckets ix) bucket \<noteq> None" by (rule b)
  show "ix_buckets ix' = ix_buckets ix"
    "map_of (ix_objects ix') = (map_of (ix_objects ix))(obj_key bucket (om_key (or_meta row)) \<mapsto> Row (or_meta row))"
    "map_of (ix_manifests ix') = (map_of (ix_manifests ix))(obj_key bucket (om_key (or_meta row)) \<mapsto> Row (or_segments row))"
    using p e by (auto simp: put_rows_def Let_def retire_manifest_def retire_ids_rest)
qed

lemma bucket_no_nul: "validate_bucket b = Inr u \<Longrightarrow> NUL \<notin> set b"
  by (auto simp: validate_bucket_def list_all_iff Let_def split: if_splits)

lemma obj_key_inj: "NUL \<notin> set b \<Longrightarrow> NUL \<notin> set b' \<Longrightarrow> obj_key b k = obj_key b' k' \<longleftrightarrow> b = b' \<and> k = k'"
proof (induction b arbitrary: b')
  case Nil
  then show ?case by (cases b') (auto simp: obj_key_def)
next
  case (Cons c b)
  then show ?case by (cases b') (auto simp: obj_key_def)
qed

lemma store_row_bad_bucket: "validate_bucket b = Inl e \<Longrightarrow> object_view st b k = None"
  by (simp add: object_view_def store_row_def check_names_def)

lemma store_row_found:
  assumes "validate_bucket b = Inr u" and "validate_key k = Inr v" and "map_of (ix_buckets (os_ix st)) b \<noteq> None"
    and "map_of (ix_objects (os_ix st)) (obj_key b k) = Some (Row m)" and "map_of (ix_manifests (os_ix st)) (obj_key b k) = Some (Row ss)"
  shows "store_row b k st = Inr \<lparr>or_meta = m, or_segments = ss\<rparr>"
  using assms by (simp add: store_row_def check_names_def ix_get_object_def ix_get_meta_def require_bucket_def)

text \<open>A transaction that sets one object's rows.\<close>

lemma put_view:
  assumes names: "validate_bucket bucket = Inr u" "validate_key key = Inr v" "map_of (ix_buckets (os_ix st)) bucket \<noteq> None"
    and rows: "ix_buckets ix3 = ix_buckets (os_ix st)"
      "map_of (ix_objects ix3) = (map_of (ix_objects (os_ix st)))(obj_key bucket key \<mapsto> Row m)"
      "map_of (ix_manifests ix3) = (map_of (ix_manifests (os_ix st)))(obj_key bucket key \<mapsto> Row ss)"
    and size: "om_size m = (\<Sum>s\<leftarrow>ss. sr_size s)" "om_size m \<le> u64_max" and held: "segs_held (st_files st) ss"
  shows "object_view (st\<lparr>os_ix := ix3\<rparr>) = (object_view st)(bucket := (object_view st bucket)(key \<mapsto> (m, whole (st_files st) ss)))"
proof -
  let ?st = "st\<lparr>os_ix := ix3\<rparr>"
  have f: "st_files ?st = st_files st" by (simp add: st_files_def)
  have "body_stream ss 0 (om_size m) (os_segs ?st) = Inr (whole (st_files st) ss)"
    using body_stream_held[of "os_segs ?st" ss 0 "om_size m"] size(2) held whole_length[OF held] size(1) by (simp add: st_files_def)
  then have h: "object_view ?st bucket key = Some (m, whole (st_files st) ss)"
    using store_row_found[OF names(1,2), of ?st m ss] names(3) rows by (simp add: object_view_def)
  have "object_view ?st b k = object_view st b k" if "\<not> (b = bucket \<and> k = key)" for b k
  proof (cases "validate_bucket b")
    case (Inr w)
    then have "obj_key b k \<noteq> obj_key bucket key"
      using that obj_key_inj[OF bucket_no_nul[OF Inr] bucket_no_nul[OF names(1)]] by blast
    then show ?thesis by (intro view_cong store_row_cong) (simp_all add: rows f)
  qed (simp add: store_row_bad_bucket)
  then show ?thesis using h by (intro ext) auto
qed

section \<open>PUT and DELETE on the map of objects\<close>

text \<open>PUT updates the map of objects in one piece or not at all.\<close>

lemma put_effect:
  assumes "ix_ok (os_ix st)" and "re_id en \<notin># seg_places (os_ix st)" and "length (body_of (ub_reads b)) \<le> u64_max"
    and "put_object_capped sha256 md5 en bucket key b content_type cache_control st = (r, st')"
  shows "ix_ok (os_ix st') \<and>
    (case r of
       Inr m \<Rightarrow> om_key m = key \<and> om_size m = length (body_of (ub_reads b)) \<and> om_etag m = hex_bytes (md5 (body_of (ub_reads b)))
         \<and> object_view st' = (object_view st)(bucket := (object_view st bucket)(key \<mapsto> (m, body_of (ub_reads b))))
     | Inl _ \<Rightarrow> object_view st' = object_view st)"
proof (cases "\<exists>u v. validate_key key = Inr v \<and> validate_bucket bucket = Inr u \<and> ix_bucket_exists bucket (os_ix st)")
  case False
  then have "(\<exists>e. r = Inl e) \<and> st' = st"
    using assms(4) by (auto simp: put_object_capped_def split: sum.splits if_splits)
  then show ?thesis using assms(1) by auto
next
  case True
  then obtain u v where n: "validate_bucket bucket = Inr u" "validate_key key = Inr v" "map_of (ix_buckets (os_ix st)) bucket \<noteq> None"
    by (auto simp: ix_bucket_exists_def)
  let ?d = "body_of (ub_reads b)"
  obtain w st2 where w: "write_segment sha256 md5 en b st = (w, st2)" by fastforce
  note ws = write_segment_spec[OF assms(1,2) w]
  show ?thesis
  proof (cases w)
    case (Inl e)
    then show ?thesis using assms(4) True w ws by (auto simp: put_object_capped_def)
  next
    case (Inr nd)
    then have nd: "w = Inr (length ?d, md5 ?d)" using ws by (cases nd) auto
    define m where "m = \<lparr>om_key = key, om_size = length ?d, om_etag = hex_bytes (md5 ?d), om_content_type = content_type,
      om_last_modified = re_now en, om_cache_control = cache_control\<rparr>"
    define row where "row = \<lparr>or_meta = m, or_segments = [\<lparr>sr_id = re_id en, sr_size = length ?d\<rparr>]\<rparr>"
    obtain c st3 where c: "ixw (re_commit en) (ix_commit_object bucket row (re_now en)) st2 = (c, st3)" by fastforce
    have put: "(r, st') = (case commit_with en (ix_commit_object bucket row (re_now en)) st2 of (Inl e, st) \<Rightarrow> (Inl e, st) | (Inr _, st) \<Rightarrow> (Inr (or_meta row), st))"
      using assms(4) True w nd by (auto simp: put_object_capped_def Let_def row_def m_def split: prod.splits sum.splits)
    show ?thesis
    proof (cases c)
      case (Inl e)
      then have "st3 = st2" using c ixw_InlD by blast
      then show ?thesis using put c Inl ws release_view[of st2 en "re_id en"] by (simp add: commit_with_def)
    next
      case (Inr retired)
      obtain q st4 where q: "reclaim (re_del en) (re_forget en) retired st3 = (q, st4)" by fastforce
      obtain ix3 where x: "ix_commit_object bucket row (re_now en) (os_ix st2) = Inr (retired, ix3)" "st3 = st2\<lparr>os_ix := ix3\<rparr>"
        "ix_ok (os_ix st4)" "object_view st4 = object_view (st2\<lparr>os_ix := ix3\<rparr>)"
        using tx_commit.commit_then_reclaim[OF _ _ q] c Inr ws by blast
      note sh = commit_object_shape[OF x(1)]
      have r: "r = Inr m" "st' = st4" using put c Inr q by (simp_all add: commit_with_def row_def)
      have h: "segs_held (st_files st2) (or_segments row)" "whole (st_files st2) (or_segments row) = ?d"
        using ws nd assms(3) by (auto simp: segs_held_def seg_held_def row_def whole_def)
      have "object_view st4 = (object_view st2)(bucket := (object_view st2 bucket)(key \<mapsto> (m, whole (st_files st2) (or_segments row))))"
        unfolding x(4) by (rule put_view[OF n(1,2) _ sh(2)]) (use ws nd n(3) sh h assms(3) in \<open>auto simp: row_def m_def\<close>)
      then show ?thesis using r h(2) ws x(3) by (simp add: m_def)
    qed
  qed
qed

text \<open>DELETE takes the object out of the map and changes nothing else.\<close>

lemma delete_effect:
  assumes "ix_ok (os_ix st)" and "delete_object en bucket key st = (r, st')"
  shows "ix_ok (os_ix st') \<and> object_view st' = (case r of Inr _ \<Rightarrow> (object_view st)(bucket := (object_view st bucket)(key := None)) | Inl _ \<Rightarrow> object_view st)"
proof (cases "head_object bucket key st")
  case (Inl e)
  have "object_view st bucket key = None"
    using Inl by (auto simp: head_object_def object_view_def store_row_def ix_get_object_def split: sum.splits)
  then have "object_view st = (object_view st)(bucket := (object_view st bucket)(key := None))" by (intro ext) simp
  then show ?thesis using assms Inl by (auto simp: delete_object_def split: object_error.splits)
next
  case (Inr m)
  then have nb: "validate_bucket bucket = Inr ()" by (auto simp: head_object_def check_names_def split: sum.splits)
  obtain c st3 where c: "ixw (re_commit en) (ix_delete_object bucket key (re_now en)) st = (c, st3)" by fastforce
  show ?thesis
  proof (cases c)
    case (Inl e)
    then have "st3 = st" using c ixw_InlD by blast
    then show ?thesis using assms Inr Inl c by (auto simp: delete_object_def)
  next
    case (Inr retired)
    obtain q st4 where q: "reclaim (re_del en) (re_forget en) retired st3 = (q, st4)" by fastforce
    obtain ix3 where x: "ix_delete_object bucket key (re_now en) (os_ix st) = Inr (retired, ix3)" "st3 = st\<lparr>os_ix := ix3\<rparr>"
      "ix_ok (os_ix st4)" "object_view st4 = object_view (st\<lparr>os_ix := ix3\<rparr>)"
      using tx_delete.commit_then_reclaim[OF assms(1) _ q] c Inr by blast
    have r: "r = Inr ()" "st' = st4" using assms(2) \<open>head_object bucket key st = Inr m\<close> Inr c q by (simp_all add: delete_object_def)
    have rows: "ix_buckets ix3 = ix_buckets (os_ix st)" "map_of (ix_objects ix3) = (map_of (ix_objects (os_ix st)))(obj_key bucket key := None)"
      "map_of (ix_manifests ix3) = (map_of (ix_manifests (os_ix st)))(obj_key bucket key := None)"
      using x(1) by (auto simp: ix_delete_object_def Let_def retire_manifest_def retire_ids_rest split: sum.splits)
    have "object_view st3 b k = (if b = bucket \<and> k = key then None else object_view st b k)" for b k
    proof (cases "b = bucket \<and> k = key")
      case True
      then show ?thesis using rows x(2)
        by (auto simp: object_view_def store_row_def ix_get_object_def ix_get_meta_def split: sum.splits)
    next
      case False
      show ?thesis
      proof (cases "validate_bucket b")
        case (Inr w)
        then have "obj_key b k \<noteq> obj_key bucket key" using False obj_key_inj[OF bucket_no_nul[OF Inr] bucket_no_nul[OF nb]] by blast
        then have "object_view st3 b k = object_view st b k"
          unfolding x(2) by (intro view_cong store_row_cong) (simp_all add: rows st_files_def)
        then show ?thesis using False by auto
      qed (use False in \<open>simp add: store_row_bad_bucket\<close>)
    qed
    then have "object_view st3 = (object_view st)(bucket := (object_view st bucket)(key := None))" by (intro ext) simp
    then show ?thesis using x(2-4) r by simp
  qed
qed

section \<open>Reading what was written\<close>

lemma view_get:
  assumes "object_view st b k = Some (m, d)"
  shows "\<exists>segs st1. get_object (\<lambda>_ s. s) b k st = (Inr (m, segs), st1) \<and> body_stream segs 0 (om_size m) (os_segs st1) = Inr d"
proof -
  obtain row where r: "store_row b k st = Inr row" "or_meta row = m" "body_stream (or_segments row) 0 (om_size m) (os_segs st) = Inr d"
    using assms by (auto simp: object_view_def split: sum.splits)
  let ?p = "pin_segs (or_segments row) st"
  have "store_row b k ?p = Inr row" using store_row_cong[of ?p st b k] r(1) by (simp add: pin_segs_def)
  then have "get_object (\<lambda>_ s. s) b k st = (Inr (m, or_segments row), ?p)"
    using r(1,2) by (simp add: get_object_def eval_nat_numeral Let_def)
  moreover have "os_segs ?p = os_segs st" by (simp add: pin_segs_def)
  ultimately show ?thesis using r(3) by auto
qed

section \<open>Multipart uploads\<close>

text \<open>The bytes staged as one part of an upload.\<close>

definition part_bytes :: "obj_store \<Rightarrow> string \<Rightarrow> u32 \<Rightarrow> bytes" where
  "part_bytes st upload_id pn =
     (case map_of (ix_parts (os_ix st)) (part_key upload_id pn) of
        Some (Row r) \<Rightarrow> (case st_files st (pr_segment r) of Some d \<Rightarrow> d | None \<Rightarrow> [])
      | _ \<Rightarrow> [])"

definition parts_held :: "obj_store \<Rightarrow> string \<Rightarrow> bool" where
  "parts_held st u \<longleftrightarrow> (\<forall>pn r. map_of (ix_parts (os_ix st)) (part_key u pn) = Some (Row r) \<longrightarrow> seg_held (st_files st) (pr_segment r) (pr_size r))"

lemma complete_rows:
  assumes "ix_ok (os_ix st)" and "ix_complete_upload md5 bucket key u pns now (os_ix st) = Inr ((m, retired), ix3)"
    and "parts_held st u"
  obtains ss where "ix_buckets ix3 = ix_buckets (os_ix st)"
    "map_of (ix_objects ix3) = (map_of (ix_objects (os_ix st)))(obj_key bucket key \<mapsto> Row m)"
    "map_of (ix_manifests ix3) = (map_of (ix_manifests (os_ix st)))(obj_key bucket key \<mapsto> Row ss)"
    "om_size m = (\<Sum>s\<leftarrow>ss. sr_size s)" "segs_held (st_files st) ss"
    "whole (st_files st) ss = concat (map (part_bytes st u) pns)" "om_key m = key"
proof -
  obtain segs ds stg q ix1 ix2 r1 r2 where c:
    "stage_parts u (length (u @ [NUL])) (t_range (u @ [NUL]) (u @ [SOH]) (ix_parts (os_ix st))) [] = Inr stg"
    "pick_parts (length pns) 0 pns stg = Inr (segs, ds)" "sorted_wrt (<) pns" "pns \<noteq> []"
    "q = foldl (\<lambda>t pn. t_remove (part_key u pn) t) (ix_parts (os_ix st)) pns" "ix1 = (os_ix st)\<lparr>ix_parts := q\<rparr>"
    "drop_upload bucket u now ix1 = (r1, ix2)" "put_rows bucket \<lparr>or_meta = m, or_segments = segs\<rparr> now ix2 = (r2, ix3)"
    "retired = r1 @ r2" "om_key m = key" "om_size m = (\<Sum>s\<leftarrow>segs. sr_size s)"
    by (rule complete_upload_shape[OF assms(2)])
  have rows: "list_all2 (\<lambda>pn s. \<exists>row. map_of (ix_parts (os_ix st)) (part_key u pn) = Some (Row row)
      \<and> s = \<lparr>sr_id = pr_segment row, sr_size = pr_size row\<rparr>) pns segs"
    using pick_parts_from[OF c(2)] staged_part[OF c(1) _ tables_okD(5)[OF ix_okD(1)[OF assms(1)]]] by (auto elim!: list_all2_mono)
  then have "segs_held (st_files st) segs \<and> whole (st_files st) segs = concat (map (part_bytes st u) pns)"
    by (induction rule: list_all2_induct)
       (use assms(3) in \<open>auto simp: segs_held_def whole_def part_bytes_def parts_held_def\<close>)
  moreover have "ix_buckets ix2 = ix_buckets (os_ix st)" "ix_objects ix2 = ix_objects (os_ix st)" "ix_manifests ix2 = ix_manifests (os_ix st)"
    using c(6,7) by (auto simp: drop_upload_def upload_part_range_def Let_def retire_ids_rest)
  ultimately show thesis
    using c(8,10,11) by (intro that[of segs]) (auto simp: put_rows_def Let_def retire_manifest_def retire_ids_rest)
qed

lemma complete_effect:
  assumes "ix_ok (os_ix st)" and "parts_held st u" and "complete_multipart md5 en bucket key u pns st = (r, st')"
    and "(\<Sum>pn\<leftarrow>pns. length (part_bytes st u pn)) \<le> u64_max"
  shows "ix_ok (os_ix st') \<and>
    (case r of
       Inr m \<Rightarrow> om_size m = (\<Sum>pn\<leftarrow>pns. length (part_bytes st u pn))
         \<and> object_view st' = (object_view st)(bucket := (object_view st bucket)(key \<mapsto> (m, concat (map (part_bytes st u) pns))))
     | Inl _ \<Rightarrow> object_view st' = object_view st)"
proof (cases "\<exists>v. validate_key key = Inr v \<and> check_names bucket None (Some u) st = Inr v")
  case False
  then have "(\<exists>e. r = Inl e) \<and> st' = st" using assms(3) by (auto simp: complete_multipart_def split: sum.splits)
  then show ?thesis using assms(1) by auto
next
  case True
  then have n: "validate_key key = Inr ()" "validate_bucket bucket = Inr ()" by (auto simp: check_names_def split: sum.splits)
  let ?f = "ix_complete_upload md5 bucket key u pns (re_now en)"
  obtain c st3 where c: "ixw (re_commit en) ?f st = (c, st3)" by fastforce
  have call: "then_reclaim en ?f st = (r, st')" using assms(3) True by (auto simp: complete_multipart_def)
  show ?thesis
  proof (cases c)
    case (Inl e)
    then have "st3 = st" using c ixw_InlD by blast
    then show ?thesis using call c Inl assms(1) by (auto simp: then_reclaim_def)
  next
    case (Inr mr)
    obtain m retired where mr: "mr = (m, retired)" by (cases mr)
    obtain q st4 where q: "reclaim (re_del en) (re_forget en) retired st3 = (q, st4)" by fastforce
    obtain ix3 where x: "?f (os_ix st) = Inr ((m, retired), ix3)" "st3 = st\<lparr>os_ix := ix3\<rparr>"
      "ix_ok (os_ix st4)" "object_view st4 = object_view (st\<lparr>os_ix := ix3\<rparr>)"
      using tx_complete.commit_then_reclaim[OF assms(1), of "re_commit en" md5 bucket key u pns "re_now en" mr st3 "re_del en" "re_forget en" q st4] c Inr mr q
      by auto
    obtain ss where rows: "ix_buckets ix3 = ix_buckets (os_ix st)"
      "map_of (ix_objects ix3) = (map_of (ix_objects (os_ix st)))(obj_key bucket key \<mapsto> Row m)"
      "map_of (ix_manifests ix3) = (map_of (ix_manifests (os_ix st)))(obj_key bucket key \<mapsto> Row ss)"
      "om_size m = (\<Sum>s\<leftarrow>ss. sr_size s)" "segs_held (st_files st) ss" "whole (st_files st) ss = concat (map (part_bytes st u) pns)"
      by (rule complete_rows[OF assms(1) x(1) assms(2)])
    have size: "om_size m = (\<Sum>pn\<leftarrow>pns. length (part_bytes st u pn))"
      using whole_length[OF rows(5)] rows(4,6) by (simp add: length_concat o_def)
    have nb: "map_of (ix_buckets (os_ix st)) bucket \<noteq> None"
      using x(1) by (auto simp: ix_complete_upload_def require_upload_def require_bucket_def split: sum.splits if_splits)
    have r: "r = Inr m" "st' = st4" using call c Inr mr q by (simp_all add: then_reclaim_def)
    show ?thesis
      using put_view[OF n(2,1) nb rows(1-4) _ rows(5)] size assms(4) rows(6) r x(3,4) by simp
  qed
qed

section \<open>The store as a map of objects\<close>

text \<open>
  The calls that change objects, their answers, and what they mean on the map: \<open>parts\<close> are the staged parts of uploads.
\<close>

datatype store_call =
    CallPut upload_body string string string "string option"
  | CallDelete string string
  | CallComplete string string string "u32 list"

fun do_call :: "(bytes \<Rightarrow> bytes) \<Rightarrow> (bytes \<Rightarrow> bytes) \<Rightarrow> req_env \<Rightarrow> store_call \<Rightarrow> obj_store \<Rightarrow> (object_error + object_meta option) \<times> obj_store" where
  "do_call sha256 md5 en (CallPut b bucket key ct cc) st = apfst (map_sum id Some) (put_object_capped sha256 md5 en bucket key b ct cc st)"
| "do_call sha256 md5 en (CallDelete bucket key) st = apfst (map_sum id (\<lambda>_. None)) (delete_object en bucket key st)"
| "do_call sha256 md5 en (CallComplete bucket key u pns) st = apfst (map_sum id Some) (complete_multipart md5 en bucket key u pns st)"

type_synonym object_map = "string \<Rightarrow> string \<Rightarrow> (object_meta \<times> bytes) option"

fun map_call :: "(string \<Rightarrow> u32 \<Rightarrow> bytes) \<Rightarrow> store_call \<Rightarrow> object_error + object_meta option \<Rightarrow> object_map \<Rightarrow> object_map" where
  "map_call parts (CallPut b bucket key ct cc) (Inr (Some m)) M = M(bucket := (M bucket)(key \<mapsto> (m, body_of (ub_reads b))))"
| "map_call parts (CallDelete bucket key) (Inr _) M = M(bucket := (M bucket)(key := None))"
| "map_call parts (CallComplete bucket key u pns) (Inr (Some m)) M = M(bucket := (M bucket)(key \<mapsto> (m, concat (map (parts u) pns))))"
| "map_call parts _ _ M = M"

text \<open>The metadata an answer returns: the size and key are those of the bytes it made an object of.\<close>

fun answer_ok :: "(string \<Rightarrow> u32 \<Rightarrow> bytes) \<Rightarrow> store_call \<Rightarrow> object_error + object_meta option \<Rightarrow> bool" where
  "answer_ok parts (CallPut b bucket key ct cc) (Inr m) = (map_option om_size m = Some (length (body_of (ub_reads b))))"
| "answer_ok parts (CallDelete bucket key) (Inr m) = (m = None)"
| "answer_ok parts (CallComplete bucket key u pns) (Inr m) = (map_option om_size m = Some (\<Sum>pn\<leftarrow>pns. length (parts u pn)))"
| "answer_ok parts _ (Inl e) = True"

text \<open>What a call relies on: a new id for its segment, staged parts that are on disk, sizes of at most 64 bits.\<close>

fun call_pre :: "req_env \<Rightarrow> store_call \<Rightarrow> obj_store \<Rightarrow> bool" where
  "call_pre en (CallPut b bucket key ct cc) st = (re_id en \<notin># seg_places (os_ix st) \<and> length (body_of (ub_reads b)) \<le> u64_max)"
| "call_pre en (CallDelete bucket key) st = True"
| "call_pre en (CallComplete bucket key u pns) st = (parts_held st u \<and> (\<Sum>pn\<leftarrow>pns. length (part_bytes st u pn)) \<le> u64_max)"

text \<open>C10. The calls refine a map from buckets and keys to metadata and bytes. A PUT that is answered with success sets its
  key to exactly the uploaded bytes, a completed multipart upload sets it to the staged parts joined in the order listed,
  a DELETE removes it; a call answered with an error - validation, a lost client, a failed write, an aborted
  transaction - changes no object. Every other object is as it was, reclaim included, and the index stays well formed.\<close>

theorem store_refines_map:
  assumes "ix_ok (os_ix st)" and "call_pre en c st" and "do_call sha256 md5 en c st = (r, st')"
  shows "ix_ok (os_ix st') \<and> answer_ok (part_bytes st) c r \<and> object_view st' = map_call (part_bytes st) c r (object_view st)"
proof (cases c)
  case (CallPut b bucket key ct cc)
  obtain r0 where p: "put_object_capped sha256 md5 en bucket key b ct cc st = (r0, st')" and r: "r = map_sum id Some r0"
    using assms(3) CallPut by (cases "put_object_capped sha256 md5 en bucket key b ct cc st") auto
  show ?thesis
    using put_effect[OF assms(1) _ _ p] assms(2) CallPut r by (cases r0) auto
next
  case (CallDelete bucket key)
  obtain r0 where p: "delete_object en bucket key st = (r0, st')" and r: "r = map_sum id (\<lambda>_. None) r0"
    using assms(3) CallDelete by (cases "delete_object en bucket key st") auto
  show ?thesis
    using delete_effect[OF assms(1) p] CallDelete r by (cases r0) auto
next
  case (CallComplete bucket key u pns)
  obtain r0 where p: "complete_multipart md5 en bucket key u pns st = (r0, st')" and r: "r = map_sum id Some r0"
    using assms(3) CallComplete by (cases "complete_multipart md5 en bucket key u pns st") auto
  show ?thesis
    using complete_effect[OF assms(1) _ p] assms(2) CallComplete r by (cases r0) auto
qed

text \<open>C13. A GET after a successful PUT finds the metadata the PUT returned, and the object reads back as the bytes
  that were sent, their number in the metadata and their digest in the etag.\<close>

theorem put_then_get:
  assumes "ix_ok (os_ix st)" and "re_id en \<notin># seg_places (os_ix st)" and "length (body_of (ub_reads b)) \<le> u64_max"
    and "put_object_capped sha256 md5 en bucket key b ct cc st = (Inr m, st')"
  shows "om_size m = length (body_of (ub_reads b)) \<and> om_etag m = hex_bytes (md5 (body_of (ub_reads b))) \<and>
    (\<exists>segs st1. get_object (\<lambda>_ s. s) bucket key st' = (Inr (m, segs), st1)
       \<and> body_stream segs 0 (om_size m) (os_segs st1) = Inr (body_of (ub_reads b)))"
  using put_effect[OF assms] view_get[of st' bucket key m "body_of (ub_reads b)"] by simp

section \<open>An overwriting PUT\<close>

definition demo_req :: req_env where
  "demo_req = \<lparr>re_id = ''c0'', re_now = 5, re_pend = TxOk, re_commit = TxOk, re_discard = TxOk, re_forget = TxOk, re_io = demo_io, re_del = (\<lambda>_. DelOk)\<rparr>"

definition demo_old :: obj_store where
  "demo_old = \<lparr>os_ix = index_empty\<lparr>ix_buckets := [(''buk'', Row \<lparr>bk_created = 0, bk_cors = None\<rparr>)],
       ix_objects := [(obj_key ''buk'' ''k'', Row \<lparr>om_key = ''k'', om_size = 1, om_etag = ''e'', om_content_type = ''x'', om_last_modified = 0, om_cache_control = None\<rparr>)],
       ix_manifests := [(obj_key ''buk'' ''k'', Row [\<lparr>sr_id = ''b1'', sr_size = 1\<rparr>])]\<rparr>,
     os_segs = \<lparr>ls_files = [(''b1'', [9])], ls_tmp = [], ls_live = True\<rparr>, os_pins = []\<rparr>"

definition demo_new :: object_meta where
  "demo_new = \<lparr>om_key = ''k'', om_size = 3, om_etag = ''ab'', om_content_type = ''x'', om_last_modified = 5, om_cache_control = None\<rparr>"

definition demo_md5 :: "bytes \<Rightarrow> bytes" where "demo_md5 d = [171]"

definition demo_a :: obj_store where "demo_a = snd (ixw TxOk (ix_add_pending [''c0''] 5) demo_old)"
definition demo_b :: obj_store where "demo_b = demo_a\<lparr>os_segs := \<lparr>ls_files = [(''b1'', [9]), (''c0'', [1, 2, 3])], ls_tmp = [], ls_live = True\<rparr>\<rparr>"
definition demo_c :: obj_store where
  "demo_c = snd (ixw TxOk (ix_commit_object ''buk'' \<lparr>or_meta = demo_new, or_segments = [\<lparr>sr_id = ''c0'', sr_size = 3\<rparr>]\<rparr> 5) demo_b)"
definition demo_d :: obj_store where "demo_d = snd (reclaim (\<lambda>_. DelOk) TxOk [''b1''] demo_c)"

lemma demo_put_eval:
  "ixw TxOk (ix_add_pending [''c0''] 5) demo_old = (Inr (), demo_a)"
  "ixw TxOk (ix_commit_object ''buk'' \<lparr>or_meta = demo_new, or_segments = [\<lparr>sr_id = ''c0'', sr_size = 3\<rparr>]\<rparr> 5) demo_b = (Inr [''b1''], demo_c)"
  "validate_key ''k'' = Inr ()" "validate_bucket ''buk'' = Inr ()" "ix_bucket_exists ''buk'' (os_ix demo_old)" "hex_bytes [171] = ''ab''"
  "os_segs demo_a = \<lparr>ls_files = [(''b1'', [9])], ls_tmp = [], ls_live = True\<rparr>"
  by code_simp+

lemma demo_put_reclaim: "reclaim (\<lambda>_. DelOk) TxOk [''b1''] demo_c = (Inr 1, demo_d)"
  by code_simp

lemma demo_put_write: "write_bytes id demo_md5 demo_io ''c0'' demo_upload (os_segs demo_a) = (Inr (3, [171]), os_segs demo_b)"
  by (simp add: demo_put_eval(7) demo_b_def write_bytes_def segments_create_def check_id_def demo_io_def demo_upload_def write_stream_def upload_deadline_def
      MIN_UPLOAD_RATE_def MIN_UPLOAD_DEADLINE_def MAX_UPLOAD_DEADLINE_def from_secs_def writer_write_def writer_commit_def writer_drop_def
      get_or_default_def demo_md5_def Let_def)

lemma demo_put: "put_object_capped id demo_md5 demo_req ''buk'' ''k'' demo_upload ''x'' None demo_old = (Inr demo_new, demo_d)"
proof -
  have "demo_a\<lparr>os_segs := os_segs demo_b\<rparr> = demo_b" by (simp add: demo_b_def)
  then have "write_segment id demo_md5 demo_req demo_upload demo_old = (Inr (3, [171]), demo_b)"
    by (simp add: write_segment_def demo_req_def demo_put_eval(1) demo_put_write)
  moreover have "commit_with demo_req (ix_commit_object ''buk'' \<lparr>or_meta = demo_new, or_segments = [\<lparr>sr_id = ''c0'', sr_size = 3\<rparr>]\<rparr> 5) demo_b = (Inr (), demo_d)"
    by (simp add: commit_with_def demo_req_def demo_put_eval(2) demo_put_reclaim)
  ultimately show ?thesis
    using demo_put_eval(3-6) by (simp add: put_object_capped_def demo_new_def demo_req_def)
qed

lemma demo_old_ok: "ix_ok (os_ix demo_old)" and demo_fresh: "''c0'' \<notin># seg_places (os_ix demo_old)"
proof -
  have "seg_places (os_ix demo_old) = mset [''b1'']"
    by (simp add: demo_old_def index_empty_def seg_places_def seg_refs_def manifest_place_def manifest_ids_def)
  moreover have "tables_ok (os_ix demo_old)" by code_simp
  ultimately show "ix_ok (os_ix demo_old)" "''c0'' \<notin># seg_places (os_ix demo_old)" by (simp_all add: ix_ok_def once_def)
qed

lemma demo_body: "body_of (ub_reads demo_upload) = [1, 2, 3]"
  by code_simp

theorem store_refines_map_witness:
  "do_call id demo_md5 demo_req (CallPut demo_upload ''buk'' ''k'' ''x'' None) demo_old = (Inr (Some demo_new), demo_d)
   \<and> object_view demo_d ''buk'' ''k'' = Some (demo_new, [1, 2, 3])"
  using store_refines_map[OF demo_old_ok, of demo_req "CallPut demo_upload ''buk'' ''k'' ''x'' None" id demo_md5 "Inr (Some demo_new)" demo_d]
    demo_put demo_fresh demo_body by (simp add: demo_req_def u64_max_def)

theorem put_then_get_witness:
  "\<exists>segs st1. get_object (\<lambda>_ s. s) ''buk'' ''k'' demo_d = (Inr (demo_new, segs), st1) \<and> body_stream segs 0 3 (os_segs st1) = Inr [1, 2, 3]"
  using put_then_get[OF demo_old_ok _ _ demo_put] demo_fresh demo_body demo_put_eval(6) by (simp add: demo_req_def demo_new_def demo_md5_def u64_max_def)

end
