(* ===== verification/Sig_V4.thy ===== *)
theory Sig_V4
  imports Obj_List Net_Parse "HOL-Library.Product_Lexorder"
begin

text \<open>
  AWS Signature Version 4 as \<open>src/crates/jkbase-sigv4/src/lib.rs\<close> writes it: percent encoding, the canonical query and
  request, the signing key, the calendar arithmetic of the time stamps, presigned URLs and the \<open>Authorization\<close> header,
  with the request decoding of \<open>objectstore_service.rs\<close> (\<open>pct_decode\<close>, \<open>parse_query\<close>) they meet on the server. The
  hash and the keyed hash (the crates \<open>sha2\<close> and \<open>hmac\<close>) are the fields of a record the functions take. The lemmas show
  that dates and encodings decode to what was encoded.
\<close>

section \<open>Encodings\<close>

text \<open>The hash and the keyed hash; strings enter them as their bytes.\<close>

record sig_crypto =
  cr_sha256 :: "bytes \<Rightarrow> bytes"
  cr_hmac :: "bytes \<Rightarrow> bytes \<Rightarrow> bytes"

definition str_bytes :: "string \<Rightarrow> bytes" where "str_bytes s = map char_byte s"

definition ALGORITHM :: string where "ALGORITHM = ''AWS4-HMAC-SHA256''"
definition SERVICE :: string where "SERVICE = ''s3''"
definition AWS_REQUEST :: string where "AWS_REQUEST = ''aws4_request''"

abbreviation NL :: string where "NL \<equiv> [CHR 0x0A]"

definition sha256_hex :: "sig_crypto \<Rightarrow> string \<Rightarrow> string" where
  "sha256_hex cr s = hex_bytes (cr_sha256 cr (str_bytes s))"

definition hex_upper :: "nat \<Rightarrow> char" where
  "hex_upper n = char_of (if n < 10 then 48 + n else 55 + n)"

definition is_unreserved :: "char \<Rightarrow> bool" where
  "is_unreserved c \<longleftrightarrow>
     (let n = (of_char c :: nat)
      in 65 \<le> n \<and> n \<le> 90 \<or> 97 \<le> n \<and> n \<le> 122 \<or> 48 \<le> n \<and> n \<le> 57) \<or> c \<in> {CHR ''-'', CHR ''.'', CHR ''_'', CHR ''~''}"

definition enc_char :: "bool \<Rightarrow> char \<Rightarrow> string" where
  "enc_char encode_slash c =
     (if is_unreserved c then [c]
      else if c = CHR ''/'' \<and> \<not> encode_slash then ''/''
      else [CHR ''%'', hex_upper (of_char c div 16), hex_upper (of_char c mod 16)])"

definition uri_encode :: "string \<Rightarrow> bool \<Rightarrow> string" where
  "uri_encode s encode_slash = concat (map (enc_char encode_slash) s)"

fun join :: "string \<Rightarrow> string list \<Rightarrow> string" where
  "join sep [] = []"
| "join sep [x] = x"
| "join sep (x # y # xs) = x @ sep @ join sep (y # xs)"

definition signing_key :: "sig_crypto \<Rightarrow> string \<Rightarrow> string \<Rightarrow> string \<Rightarrow> bytes" where
  "signing_key cr secret date region =
     (let k = cr_hmac cr (str_bytes (''AWS4'' @ secret)) (str_bytes date);
          k = cr_hmac cr k (str_bytes region);
          k = cr_hmac cr k (str_bytes SERVICE)
      in cr_hmac cr k (str_bytes AWS_REQUEST))"

definition canonical_query :: "(string \<times> string) list \<Rightarrow> string \<Rightarrow> string" where
  "canonical_query pairs exclude =
     (let enc = map (\<lambda>(k, v). (uri_encode k True, uri_encode v True)) (filter (\<lambda>(k, _). k \<noteq> exclude) pairs)
      in join ''&'' (map (\<lambda>(k, v). k @ ''='' @ v) (sort enc)))"

definition build_canonical_request :: "string \<Rightarrow> string \<Rightarrow> string \<Rightarrow> string \<Rightarrow> string" where
  "build_canonical_request method path cquery host =
     method @ NL @ uri_encode path False @ NL @ cquery @ NL @ ''host:'' @ host @ NL @ NL @ ''host'' @ NL @ ''UNSIGNED-PAYLOAD''"

section \<open>Dates\<close>

text \<open>\<open>as i64\<close> of a \<open>u64\<close>.\<close>

definition u64_as_i64 :: "nat \<Rightarrow> int" where
  "u64_as_i64 n = (let m = n mod 2 ^ 64 in if m < 2 ^ 63 then int m else int m - 2 ^ 64)"

definition civil :: "nat \<Rightarrow> int \<times> int \<times> int \<times> int \<times> int \<times> int" where
  "civil now_unix =
     (let secs = u64_as_i64 now_unix;
          days = secs div 86400;
          rm = secs mod 86400;
          (hh, mm, ss) = (rm div 3600, (rm mod 3600) div 60, rm mod 60);
          z = days + 719468;
          era = z div 146097;
          doe = z mod 146097;
          yoe = (doe - doe div 1460 + doe div 36524 - doe div 146096) div 365;
          y = yoe + era * 400;
          doy = doe - (365 * yoe + yoe div 4 - yoe div 100);
          mp = (5 * doy + 2) div 153;
          d = doy - (153 * mp + 2) div 5 + 1;
          m = (if mp < 10 then mp + 3 else mp - 9);
          year = (if m \<le> 2 then y + 1 else y)
      in (year, m, d, hh, mm, ss))"

text \<open>\<open>{n:0w}\<close>: the sign counts in the width, the zeros come after it.\<close>

definition fmt_zero :: "nat \<Rightarrow> int \<Rightarrow> string" where
  "fmt_zero w n =
     (let sign = (if n < 0 then ''-'' else []);
          ds = show_nat (nat \<bar>n\<bar>)
      in sign @ replicate (w - length sign - length ds) CHR ''0'' @ ds)"

definition date_stamp :: "nat \<Rightarrow> string" where
  "date_stamp now_unix = (case civil now_unix of (y, m, d, _) \<Rightarrow> fmt_zero 4 y @ fmt_zero 2 m @ fmt_zero 2 d)"

definition amz_date :: "nat \<Rightarrow> string" where
  "amz_date now_unix =
     (case civil now_unix of (y, mo, d, h, mi, s) \<Rightarrow>
        fmt_zero 4 y @ fmt_zero 2 mo @ fmt_zero 2 d @ ''T'' @ fmt_zero 2 h @ fmt_zero 2 mi @ fmt_zero 2 s @ ''Z'')"

text \<open>\<open>str::parse::<i64>\<close>: one optional sign, at least one digit, no overflow.\<close>

definition parse_i64 :: "string \<Rightarrow> int option" where
  "parse_i64 s =
     (let neg = (s \<noteq> [] \<and> hd s = CHR ''-'');
          ds = (if s \<noteq> [] \<and> (hd s = CHR ''-'' \<or> hd s = CHR ''+'') then tl s else s);
          v = (if neg then - int (digits_val ds) else int (digits_val ds))
      in if ds \<noteq> [] \<and> list_all is_ascii_digit ds \<and> - (2 ^ 63) \<le> v \<and> v < 2 ^ 63 then Some v else None)"

definition parse_amz_date :: "string \<Rightarrow> nat option" where
  "parse_amz_date s =
     (if length s \<noteq> 16 \<or> s ! 8 \<noteq> CHR ''T'' \<or> s ! 15 \<noteq> CHR ''Z'' then None
      else
        let num = (\<lambda>a b. parse_i64 (take (b - a) (drop a s)))
        in case (num 0 4, num 4 6, num 6 8, num 9 11, num 11 13, num 13 15) of
             (Some y, Some mo, Some d, Some h, Some mi, Some sec) \<Rightarrow>
               (if \<not> (1 \<le> mo \<and> mo \<le> 12) \<or> \<not> (1 \<le> d \<and> d \<le> 31) \<or> h > 23 \<or> mi > 59 \<or> sec > 60 then None
                else
                  let yy = (if mo \<le> 2 then y - 1 else y);
                      era = yy div 400;
                      yoe = yy mod 400;
                      mp = (if mo > 2 then mo - 3 else mo + 9);
                      doy = (153 * mp + 2) div 5 + d - 1;
                      doe = yoe * 365 + yoe div 4 - yoe div 100 + doy;
                      days = era * 146097 + doe - 719468;
                      t = days * 86400 + h * 3600 + mi * 60 + sec
                  in if t < 0 then None else Some (nat t))
           | _ \<Rightarrow> None)"

section \<open>Presigned requests\<close>

definition scope_of :: "string \<Rightarrow> string \<Rightarrow> string" where
  "scope_of date region = date @ ''/'' @ region @ ''/'' @ SERVICE @ ''/'' @ AWS_REQUEST"

text \<open>The string to sign, and its signature.\<close>

definition string_to_sign :: "sig_crypto \<Rightarrow> string \<Rightarrow> string \<Rightarrow> string \<Rightarrow> string" where
  "string_to_sign cr amzd scope creq = ALGORITHM @ NL @ amzd @ NL @ scope @ NL @ sha256_hex cr creq"

definition signature_of :: "sig_crypto \<Rightarrow> string \<Rightarrow> string \<Rightarrow> string \<Rightarrow> string \<Rightarrow> string" where
  "signature_of cr secret date region sts = hex_bytes (cr_hmac cr (signing_key cr secret date region) (str_bytes sts))"

definition presign_params :: "string \<Rightarrow> string \<Rightarrow> nat \<Rightarrow> nat \<Rightarrow> (string \<times> string) list" where
  "presign_params access_key region expires_secs now_unix =
     [(''X-Amz-Algorithm'', ALGORITHM),
      (''X-Amz-Credential'', access_key @ ''/'' @ scope_of (date_stamp now_unix) region),
      (''X-Amz-Date'', amz_date now_unix),
      (''X-Amz-Expires'', show_nat expires_secs),
      (''X-Amz-SignedHeaders'', ''host'')]"

definition presign ::
  "sig_crypto \<Rightarrow> string \<Rightarrow> string \<Rightarrow> string \<Rightarrow> string \<Rightarrow> string \<Rightarrow> string \<Rightarrow> nat \<Rightarrow> nat \<Rightarrow> string" where
  "presign cr method host path access_key secret region expires_secs now_unix =
     (let date = date_stamp now_unix;
          amzd = amz_date now_unix;
          scope = scope_of date region;
          params = presign_params access_key region expires_secs now_unix;
          cquery = canonical_query params [];
          creq = build_canonical_request method path cquery host;
          sg = signature_of cr secret date region (string_to_sign cr amzd scope creq);
          params = params @ [(''X-Amz-Signature'', sg)];
          qs = join ''&'' (map (\<lambda>(k, v). uri_encode k True @ ''='' @ uri_encode v True) params)
      in uri_encode path False @ ''?'' @ qs)"

definition query_get :: "string \<Rightarrow> (string \<times> string) list \<Rightarrow> string option" where
  "query_get k query = map_of query k"

definition verify_presigned ::
  "sig_crypto \<Rightarrow> string \<Rightarrow> string \<Rightarrow> string \<Rightarrow> (string \<times> string) list \<Rightarrow> (string \<Rightarrow> string option) \<Rightarrow> nat \<Rightarrow> string + string" where
  "verify_presigned cr method host path query lookup_secret now_unix =
     (case query_get ''X-Amz-Credential'' query of None \<Rightarrow> Inl ''missing X-Amz-Credential'' | Some cred \<Rightarrow>
     (case query_get ''X-Amz-Date'' query of None \<Rightarrow> Inl ''missing X-Amz-Date'' | Some amzd \<Rightarrow>
     (case query_get ''X-Amz-Expires'' query of None \<Rightarrow> Inl ''missing X-Amz-Expires'' | Some ex \<Rightarrow>
     (case parse_uint 64 ex of None \<Rightarrow> Inl ''bad X-Amz-Expires'' | Some expires \<Rightarrow>
     (if expires = 0 \<or> expires > 604800 then Inl ''X-Amz-Expires out of range (1..=604800)'' else
     (case query_get ''X-Amz-Signature'' query of None \<Rightarrow> Inl ''missing X-Amz-Signature'' | Some provided \<Rightarrow>
     (case split_char CHR ''/'' cred of
        [access_key, date, region, srv, req] \<Rightarrow>
          (if srv \<noteq> SERVICE \<or> req \<noteq> AWS_REQUEST then Inl ''malformed X-Amz-Credential'' else
          (case lookup_secret access_key of None \<Rightarrow> Inl ''unknown access key'' | Some secret \<Rightarrow>
          (case parse_amz_date amzd of None \<Rightarrow> Inl ''bad X-Amz-Date'' | Some signed_at \<Rightarrow>
          (if signed_at > saturating_add now_unix 300 then Inl ''X-Amz-Date is in the future''
           else if now_unix > saturating_add signed_at expires then Inl ''presigned URL expired''
           else
             let cquery = canonical_query query ''X-Amz-Signature'';
                 creq = build_canonical_request method path cquery host;
                 sg = signature_of cr secret date region (string_to_sign cr amzd (scope_of date region) creq)
             in if ct_eq (str_bytes sg) (str_bytes provided) then Inr access_key else Inl ''signature mismatch''))))
      | _ \<Rightarrow> Inl ''malformed X-Amz-Credential'')))))))"

section \<open>Signed headers\<close>

definition header_creq :: "string \<Rightarrow> string \<Rightarrow> (string \<times> string) list \<Rightarrow> string \<Rightarrow> string \<Rightarrow> string \<Rightarrow> string" where
  "header_creq method path query canonical_headers signed_headers payload_hash =
     method @ NL @ uri_encode path False @ NL @ canonical_query query [] @ NL @ canonical_headers @ NL @ signed_headers @ NL @ payload_hash"

definition sign_header ::
  "sig_crypto \<Rightarrow> string \<Rightarrow> string \<Rightarrow> string \<Rightarrow> (string \<times> string) list \<Rightarrow> string \<Rightarrow> string \<Rightarrow> string \<Rightarrow> string \<Rightarrow> nat \<Rightarrow> string \<times> string" where
  "sign_header cr method host path query payload_hash access_key secret region now_unix =
     (let amzd = amz_date now_unix;
          date = date_stamp now_unix;
          scope = scope_of date region;
          signed_headers = ''host;x-amz-content-sha256;x-amz-date'';
          canonical_headers = ''host:'' @ host @ NL @ ''x-amz-content-sha256:'' @ payload_hash @ NL @ ''x-amz-date:'' @ amzd @ NL;
          creq = header_creq method path query canonical_headers signed_headers payload_hash;
          sg = signature_of cr secret date region (string_to_sign cr amzd scope creq)
      in (''AWS4-HMAC-SHA256 Credential='' @ access_key @ ''/'' @ scope @ '', SignedHeaders='' @ signed_headers @ '', Signature='' @ sg, amzd))"

type_synonym auth_parts = "string option \<times> string option \<times> string option"

definition auth_part :: "auth_parts \<Rightarrow> string \<Rightarrow> auth_parts" where
  "auth_part ps part =
     (case ps of (cred, shs, sg) \<Rightarrow>
        (let part = str_trim part
         in case strip_prefix ''Credential='' part of
              Some v \<Rightarrow> (Some v, shs, sg)
            | None \<Rightarrow> (case strip_prefix ''SignedHeaders='' part of
                Some v \<Rightarrow> (cred, Some v, sg)
              | None \<Rightarrow> (case strip_prefix ''Signature='' part of
                  Some v \<Rightarrow> (cred, shs, Some v)
                | None \<Rightarrow> (cred, shs, sg)))))"

definition canonical_headers_of :: "string \<Rightarrow> (string, string) hmap \<Rightarrow> string \<Rightarrow> string" where
  "canonical_headers_of host headers signed_headers =
     concat (map (\<lambda>h.
       (let val = (if h = ''host'' then host else (case map_of headers h of Some v \<Rightarrow> v | None \<Rightarrow> []))
        in h @ '':'' @ str_trim val @ NL)) (split_char CHR '';'' signed_headers))"

definition verify_header ::
  "sig_crypto \<Rightarrow> string \<Rightarrow> string \<Rightarrow> string \<Rightarrow> (string \<times> string) list \<Rightarrow> (string, string) hmap \<Rightarrow> string
   \<Rightarrow> (string \<Rightarrow> string option) \<Rightarrow> nat \<Rightarrow> string + string" where
  "verify_header cr method host path query headers authorization lookup_secret now_unix =
     (case strip_prefix ''AWS4-HMAC-SHA256'' authorization of None \<Rightarrow> Inl ''not an AWS4-HMAC-SHA256 authorization'' | Some r \<Rightarrow>
     (case foldl auth_part (None, None, None) (split_char CHR '','' (str_trim r)) of
        (None, _, _) \<Rightarrow> Inl ''missing Credential''
      | (_, None, _) \<Rightarrow> Inl ''missing SignedHeaders''
      | (_, _, None) \<Rightarrow> Inl ''missing Signature''
      | (Some cred, Some signed_headers, Some provided) \<Rightarrow>
     (case split_char CHR ''/'' cred of
        [access_key, date, region, srv, req] \<Rightarrow>
          (if srv \<noteq> SERVICE \<or> req \<noteq> AWS_REQUEST then Inl ''malformed Credential'' else
          (case lookup_secret access_key of None \<Rightarrow> Inl ''unknown access key'' | Some secret \<Rightarrow>
          (case map_of headers ''x-amz-date'' of None \<Rightarrow> Inl ''missing x-amz-date'' | Some amzd \<Rightarrow>
          (case parse_amz_date amzd of None \<Rightarrow> Inl ''bad x-amz-date'' | Some signed_at \<Rightarrow>
          (let skew = max now_unix signed_at - min now_unix signed_at
           in if skew > 900 then Inl ''request time too skewed''
              else
                let payload_hash = (case map_of headers ''x-amz-content-sha256'' of Some v \<Rightarrow> v | None \<Rightarrow> ''UNSIGNED-PAYLOAD'');
                    creq = header_creq method path query (canonical_headers_of host headers signed_headers) signed_headers payload_hash;
                    computed = signature_of cr secret date region (string_to_sign cr amzd (scope_of date region) creq)
                in if ct_eq (str_bytes computed) (str_bytes provided) then Inr access_key else Inl ''signature mismatch'')))))
      | _ \<Rightarrow> Inl ''malformed Credential'')))"

section \<open>The calendar\<close>

text \<open>
  The year of a day in its 400-year era: \<open>yoe_count\<close> is what the code divides by 365. It grows with the
  day, so its values at the ends of the 400 years decide.
\<close>

definition yoe_count :: "int \<Rightarrow> int" where
  "yoe_count doe = doe - doe div 1460 + doe div 36524 - doe div 146096"

definition year_start :: "int \<Rightarrow> int" where
  "year_start y = 365 * y + y div 4 - y div 100"

lemma yoe_count_step: "0 \<le> x \<Longrightarrow> x < 146096 \<Longrightarrow> yoe_count x \<le> yoe_count (x + 1)"
proof -
  assume x: "0 \<le> x" "x < 146096"
  have "(x + 1) div 1460 \<le> x div 1460 + 1" by linarith
  moreover have "x div 36524 \<le> (x + 1) div 36524" by (rule zdiv_mono1) auto
  moreover have "(x + 1) div 146096 \<le> x div 146096 + 1" by linarith
  moreover have "(x + 1) div 146096 = 0 \<or> x = 146095" using x by auto
  ultimately show ?thesis using x unfolding yoe_count_def by auto
qed

lemma yoe_count_mono: "0 \<le> a \<Longrightarrow> a \<le> b \<Longrightarrow> b \<le> 146096 \<Longrightarrow> yoe_count a \<le> yoe_count b"
proof (induction "nat (b - a)" arbitrary: b)
  case (Suc n)
  have "yoe_count a \<le> yoe_count (b - 1)" using Suc by (intro Suc.hyps(1)) auto
  also have "\<dots> \<le> yoe_count b" using yoe_count_step[of "b - 1"] Suc by simp
  finally show ?case .
qed simp

lemma year_ends: "\<forall>y \<in> set [0..399]. 365 * y \<le> yoe_count (year_start y) \<and> yoe_count (year_start (y + 1) - 1) < 365 * (y + 1)"
  by code_simp

lemma last_day: "yoe_count 146096 = 145999" by (simp add: yoe_count_def)

lemma year_ends_at:
  assumes "0 \<le> y" and "y \<le> 399"
  shows "365 * y \<le> yoe_count (year_start y)" and "yoe_count (year_start (y + 1) - 1) < 365 * (y + 1)"
  using year_ends assms by simp_all

lemma year_start_step: "year_start (y + 1) \<le> year_start y + 366"
proof -
  have "(y + 1) div 4 \<le> y div 4 + 1" "y div 100 \<le> (y + 1) div 100" by linarith+
  then show ?thesis unfolding year_start_def by (simp only: distrib_left)
qed

lemma year_start_le: "0 \<le> y \<Longrightarrow> 0 \<le> year_start y \<and> (y \<le> 400 \<longrightarrow> year_start y \<le> 146096)"
  unfolding year_start_def by linarith

lemma yoe_of_day:
  assumes "0 \<le> doe" and "doe \<le> 146096"
  defines "y \<equiv> yoe_count doe div 365"
  shows "0 \<le> y" "y \<le> 399" "year_start y \<le> doe" "doe \<le> year_start y + 365"
proof -
  have c: "0 \<le> yoe_count doe" "yoe_count doe \<le> 145999"
    using yoe_count_mono[of 0 doe] yoe_count_mono[of doe 146096] assms(1,2) last_day by (auto simp: yoe_count_def)
  then show y: "0 \<le> y" "y \<le> 399" unfolding y_def by auto
  have m: "365 * y \<le> yoe_count doe" "yoe_count doe < 365 * (y + 1)"
    unfolding y_def by presburger+
  show "year_start y \<le> doe"
  proof (rule ccontr)
    assume a: "\<not> year_start y \<le> doe"
    then have "y \<noteq> 0" using assms(1) by (auto simp: year_start_def)
    then have "yoe_count (year_start y - 1) < 365 * y" using year_ends_at(2)[of "y - 1"] y by simp
    moreover have "yoe_count doe \<le> yoe_count (year_start y - 1)"
      using a assms(1) year_start_le[of y] y by (intro yoe_count_mono) auto
    ultimately show False using m(1) by simp
  qed
  show "doe \<le> year_start y + 365"
  proof (rule ccontr)
    assume a: "\<not> doe \<le> year_start y + 365"
    have "y \<noteq> 399" using a assms(2) by (auto simp: year_start_def)
    then have "365 * (y + 1) \<le> yoe_count (year_start (y + 1))" using year_ends_at(1)[of "y + 1"] y by simp
    moreover have "yoe_count (year_start (y + 1)) \<le> yoe_count doe"
      using a year_start_step[of y] year_start_le[of "y + 1"] y assms(2) by (intro yoe_count_mono) auto
    ultimately show False using m(2) by simp
  qed
qed

text \<open>The month and day of a day in its year (which starts in March), and back.\<close>

lemma month_day:
  assumes "0 \<le> doy" and "doy \<le> 365"
  defines "mp \<equiv> (5 * doy + 2) div 153" and "m \<equiv> (if (5 * doy + 2) div 153 < 10 then (5 * doy + 2) div 153 + 3 else (5 * doy + 2) div 153 - 9)"
  defines "d \<equiv> doy - (153 * ((5 * doy + 2) div 153) + 2) div 5 + (1 :: int)"
  shows "1 \<le> m" "m \<le> 12" "1 \<le> d" "d \<le> 31" "(if m > 2 then m - 3 else m + 9) = mp" "(153 * mp + 2) div 5 + d - 1 = doy"
    "m \<le> 2 \<longleftrightarrow> 10 \<le> mp"
proof -
  have mp: "0 \<le> mp" "mp \<le> 11" using assms(1,2) unfolding mp_def by auto
  show "1 \<le> m" "m \<le> 12" "(if m > 2 then m - 3 else m + 9) = mp" "m \<le> 2 \<longleftrightarrow> 10 \<le> mp"
    using mp unfolding m_def mp_def[symmetric] by auto
  show "(153 * mp + 2) div 5 + d - 1 = doy" unfolding d_def mp_def by simp
  have "153 * mp \<le> 5 * doy + 2" "5 * doy + 2 < 153 * mp + 153" unfolding mp_def by linarith+
  then show "1 \<le> d" "d \<le> 31" unfolding d_def mp_def[symmetric] by linarith+
qed

lemma digits_val_zeros: "digits_val (replicate k CHR ''0'' @ ds) = digits_val ds"
  by (induction k) (auto simp: digits_val_def digit_val_def)

lemma fmt_zero_pos: "0 \<le> n \<Longrightarrow> fmt_zero w n = replicate (w - length (show_nat (nat n))) CHR ''0'' @ show_nat (nat n)"
  by (simp add: fmt_zero_def Let_def)

lemma fmt_zero_length: "0 \<le> n \<Longrightarrow> nat n < 10 ^ w \<Longrightarrow> 0 < w \<Longrightarrow> length (fmt_zero w n) = w"
  using length_show_nat[of "nat n" w] by (simp add: fmt_zero_pos)

lemma fmt_zero_digits:
  assumes "0 \<le> n"
  shows "fmt_zero w n \<noteq> []" "list_all is_ascii_digit (fmt_zero w n)" "digits_val (fmt_zero w n) = nat n"
proof -
  have "is_ascii_digit CHR ''0''" by (simp add: is_ascii_digit_def)
  then show "fmt_zero w n \<noteq> []" "list_all is_ascii_digit (fmt_zero w n)" "digits_val (fmt_zero w n) = nat n"
    using show_nat_digits[of "nat n"] assms by (auto simp: fmt_zero_pos digits_val_zeros digits_val_show_nat list_all_iff)
qed

lemma parse_i64_fmt: "0 \<le> n \<Longrightarrow> n < 2 ^ 63 \<Longrightarrow> parse_i64 (fmt_zero w n) = Some n"
proof -
  assume n: "0 \<le> n" "n < 2 ^ 63"
  note f = fmt_zero_digits[OF n(1), of w]
  have "is_ascii_digit (hd (fmt_zero w n))" using f(1,2) by (cases "fmt_zero w n") auto
  then have "hd (fmt_zero w n) \<noteq> CHR ''-''" "hd (fmt_zero w n) \<noteq> CHR ''+''" by (auto simp: is_ascii_digit_def)
  then show ?thesis using f n by (simp add: parse_i64_def)
qed

lemma parse_amz_parts:
  assumes "length a = 4" "length b = 2" "length c = 2" "length d = 2" "length e = 2" "length f = 2"
    and "s = a @ b @ c @ ''T'' @ d @ e @ f @ ''Z''"
  shows "length s = 16" "s ! 8 = CHR ''T''" "s ! 15 = CHR ''Z''"
    "take (4 - 0) (drop 0 s) = a" "take (6 - 4) (drop 4 s) = b" "take (8 - 6) (drop 6 s) = c"
    "take (11 - 9) (drop 9 s) = d" "take (13 - 11) (drop 11 s) = e" "take (15 - 13) (drop 13 s) = f"
  using assms by (simp_all add: nth_append)

text \<open>The parts of a time: the bounds of each, and the day they stand for.\<close>

lemma civil_parts:
  assumes "t < 253402300800" and "civil t = (y, m, d, hh, mm, ss)"
  shows "0 \<le> y" "y \<le> 9999" "1 \<le> m" "m \<le> 12" "1 \<le> d" "d \<le> 31" "0 \<le> hh" "hh \<le> 23" "0 \<le> mm" "mm \<le> 59" "0 \<le> ss" "ss \<le> 59"
    and "let yy = (if m \<le> 2 then y - 1 else y); mp = (if m > 2 then m - 3 else m + 9)
      in (yy div 400 * 146097 + (yy mod 400 * 365 + (yy mod 400) div 4 - (yy mod 400) div 100 + ((153 * mp + 2) div 5 + d - 1)) - 719468) * 86400
         + hh * 3600 + mm * 60 + ss = int t"
proof -
  define days rm where "days = int t div 86400" and "rm = int t mod 86400"
  define z where "z = days + 719468"
  define era doe where "era = z div 146097" and "doe = z mod 146097"
  define yoe where "yoe = yoe_count doe div 365"
  define doy where "doy = doe - year_start yoe"
  define mp where "mp = (5 * doy + 2) div 153"
  have sec: "u64_as_i64 t = int t" using assms(1) by (simp add: u64_as_i64_def)
  have "civil t = (let m' = (if mp < 10 then mp + 3 else mp - 9) in
      (if m' \<le> 2 then yoe + era * 400 + 1 else yoe + era * 400, m', doy - (153 * mp + 2) div 5 + 1, rm div 3600, (rm mod 3600) div 60, rm mod 60))"
    unfolding civil_def Let_def sec days_def[symmetric] rm_def[symmetric] z_def[symmetric] era_def[symmetric] doe_def[symmetric]
      yoe_count_def[symmetric] yoe_def[symmetric] year_start_def[symmetric] doy_def[symmetric] mp_def[symmetric] prod.case ..
  then have c: "d = doy - (153 * mp + 2) div 5 + 1" "m = (if mp < 10 then mp + 3 else mp - 9)"
    "y = (if m \<le> 2 then yoe + era * 400 + 1 else yoe + era * 400)" "hh = rm div 3600" "mm = (rm mod 3600) div 60" "ss = rm mod 60"
    using assms(2) by (simp_all only: Let_def prod.inject)
  have dz: "z = 146097 * era + doe" "0 \<le> doe" "doe \<le> 146096" unfolding era_def doe_def by simp_all
  note yd = yoe_of_day[OF dz(2,3), folded yoe_def]
  have doy: "0 \<le> doy" "doy \<le> 365" using yd(3,4) unfolding doy_def by simp_all
  note md = month_day[OF doy, folded mp_def, folded c(1) c(2)]
  show "1 \<le> m" "m \<le> 12" "1 \<le> d" "d \<le> 31" by (rule md)+
  have rm: "0 \<le> rm" "rm < 86400" unfolding rm_def by simp_all
  show "0 \<le> hh" "hh \<le> 23" "0 \<le> mm" "mm \<le> 59" "0 \<le> ss" "ss \<le> 59" unfolding c using rm by auto
  have days: "0 \<le> days" "days \<le> 2932896" unfolding days_def using assms(1) by auto
  have e: "0 \<le> era" "era \<le> 24" using days dz unfolding z_def by auto
  have yy: "(if m \<le> 2 then y - 1 else y) = yoe + era * 400" using c(3) by simp
  show "0 \<le> y" using c(3) e(1) yd(1) by auto
  show "y \<le> 9999"
  proof (cases "yoe = 399 \<and> era = 24 \<and> m \<le> 2")
    case True
    then have "306 \<le> doy" using md(7) unfolding mp_def by auto
    then have "146037 \<le> doe" using True unfolding doy_def by (simp add: year_start_def)
    then show ?thesis using True dz(1) days unfolding z_def by simp
  qed (use c(3) e yd in auto)
  have s: "hh * 3600 + mm * 60 + ss = rm"
  proof -
    have "rm mod 60 = (rm mod 3600) mod 60" by (simp add: mod_mod_cancel)
    then show ?thesis unfolding c by simp
  qed
  have "(yoe + era * 400) div 400 = era" "(yoe + era * 400) mod 400 = yoe" using yd by simp_all
  moreover have "yoe * 365 + yoe div 4 - yoe div 100 + doy = doe" unfolding doy_def year_start_def by simp
  ultimately have "(yoe + era * 400) div 400 * 146097 + ((yoe + era * 400) mod 400 * 365 + ((yoe + era * 400) mod 400) div 4
      - ((yoe + era * 400) mod 400) div 100 + doy) - 719468 = days"
    using dz(1) unfolding z_def by simp
  moreover have "days * 86400 + rm = int t" unfolding days_def rm_def by simp
  ultimately show "let yy = (if m \<le> 2 then y - 1 else y); mp = (if m > 2 then m - 3 else m + 9)
      in (yy div 400 * 146097 + (yy mod 400 * 365 + (yy mod 400) div 4 - (yy mod 400) div 100 + ((153 * mp + 2) div 5 + d - 1)) - 719468) * 86400
         + hh * 3600 + mm * 60 + ss = int t"
    unfolding Let_def yy md(5) md(6) using s by simp
qed

lemma amz_date_parts:
  assumes "t < 253402300800"
  shows "parse_amz_date (amz_date t) = Some t" and "date_stamp t = take 8 (amz_date t)" and "length (amz_date t) = 16"
proof -
  obtain y m d hh mm ss where c: "civil t = (y, m, d, hh, mm, ss)" by (metis prod_cases6)
  note b = civil_parts[OF assms c]
  have l: "length (fmt_zero 4 y) = 4" "length (fmt_zero 2 m) = 2" "length (fmt_zero 2 d) = 2" "length (fmt_zero 2 hh) = 2"
    "length (fmt_zero 2 mm) = 2" "length (fmt_zero 2 ss) = 2"
    using b(1-12) by (simp_all add: fmt_zero_length)
  have s: "amz_date t = fmt_zero 4 y @ fmt_zero 2 m @ fmt_zero 2 d @ ''T'' @ fmt_zero 2 hh @ fmt_zero 2 mm @ fmt_zero 2 ss @ ''Z''"
    by (simp add: amz_date_def c)
  note p = parse_amz_parts[OF l s]
  have n: "parse_i64 (fmt_zero 4 y) = Some y" "parse_i64 (fmt_zero 2 m) = Some m" "parse_i64 (fmt_zero 2 d) = Some d"
    "parse_i64 (fmt_zero 2 hh) = Some hh" "parse_i64 (fmt_zero 2 mm) = Some mm" "parse_i64 (fmt_zero 2 ss) = Some ss"
    using b(1-12) by (simp_all add: parse_i64_fmt)
  show "parse_amz_date (amz_date t) = Some t"
    unfolding parse_amz_date_def Let_def p n using p(1-3) b(3-12) b(13)[unfolded Let_def] by simp
  show "date_stamp t = take 8 (amz_date t)" using l by (simp add: date_stamp_def s c)
  show "length (amz_date t) = 16" by (rule p(1))
qed

section \<open>Decoding a request\<close>

text \<open>
  \<open>String::from_utf8_lossy\<close>: how many bytes the next character or the next ill-formed piece takes, and which it is;
  a piece becomes U+FFFD.
\<close>

fun utf8_len :: "bytes \<Rightarrow> nat \<times> bool" where
  "utf8_len [] = (0, True)"
| "utf8_len (a # bs) =
     (let here = (\<lambda>n p. n < length bs \<and> p (bs ! n))
      in if a < 0x80 then (1, True)
         else if 0xC2 \<le> a \<and> a \<le> 0xDF then (if here 0 utf8_cont then (2, True) else (1, False))
         else if 0xE0 \<le> a \<and> a \<le> 0xEF then
           (if here 0 (\<lambda>b. if a = 0xE0 then 0xA0 \<le> b \<and> b \<le> 0xBF else if a = 0xED then 0x80 \<le> b \<and> b \<le> 0x9F else utf8_cont b)
            then (if here 1 utf8_cont then (3, True) else (2, False))
            else (1, False))
         else if 0xF0 \<le> a \<and> a \<le> 0xF4 then
           (if here 0 (\<lambda>b. if a = 0xF0 then 0x90 \<le> b \<and> b \<le> 0xBF else if a = 0xF4 then 0x80 \<le> b \<and> b \<le> 0x8F else utf8_cont b)
            then (if here 1 utf8_cont then (if here 2 utf8_cont then (4, True) else (3, False)) else (2, False))
            else (1, False))
         else (1, False))"

lemma utf8_len_pos: "bs \<noteq> [] \<Longrightarrow> 0 < fst (utf8_len bs)"
  by (cases bs) (simp_all add: Let_def)

function utf8_lossy :: "bytes \<Rightarrow> bytes" where
  "utf8_lossy bs =
     (if bs = [] then []
      else case utf8_len bs of (n, ok) \<Rightarrow> (if ok then take n bs else [0xEF, 0xBF, 0xBD]) @ utf8_lossy (drop n bs))"
  by auto
termination
proof (relation "measure length")
  fix bs :: bytes and n ok assume a: "bs \<noteq> []" "(n, ok) = utf8_len bs"
  then show "(drop n bs, bs) \<in> measure length" using utf8_len_pos[OF a(1)] by (simp flip: a(2))
qed simp

declare utf8_lossy.simps [simp del]

text \<open>The bytes of \<open>pct_decode\<close>; \<open>hex_val\<close> is the nibble.\<close>

fun pct_bytes :: "string \<Rightarrow> string" where
  "pct_bytes (c # a # b # r) =
     (if c = CHR ''%''
      then (case (hex_val a, hex_val b) of
              (Some hi, Some lo) \<Rightarrow> char_of (16 * hi + lo) # pct_bytes r
            | _ \<Rightarrow> CHR ''%'' # pct_bytes (a # b # r))
      else c # pct_bytes (a # b # r))"
| "pct_bytes (c # s) = c # pct_bytes s"
| "pct_bytes [] = []"

definition pct_decode :: "string \<Rightarrow> string" where
  "pct_decode s = map byte_char (utf8_lossy (str_bytes (pct_bytes s)))"

definition parse_query :: "string \<Rightarrow> (string \<times> string) list" where
  "parse_query qs =
     (if qs = [] then []
      else map (\<lambda>kv. case split_once CHR ''='' kv of
                       Some (k, v) \<Rightarrow> (pct_decode k, pct_decode v)
                     | None \<Rightarrow> (pct_decode kv, [])) (split_char CHR ''&'' qs))"

section \<open>Encoding and decoding\<close>

lemma utf8_lossy_valid: "utf8_valid bs \<Longrightarrow> utf8_lossy bs = bs"
proof (induction bs rule: utf8_valid.induct)
  case 1
  show ?case by (simp add: utf8_lossy.simps)
next
  case (2 a bs)
  obtain n where n: "utf8_len (a # bs) = (n, True)" "0 < n" "utf8_lossy (drop n (a # bs)) = drop n (a # bs)"
  proof (cases "a < 0x80")
    case True
    then show ?thesis using that[of 1] 2 by simp
  next
    case F1: False
    show ?thesis
    proof (cases "0xC2 \<le> a \<and> a \<le> 0xDF")
      case True
      then obtain b r where "bs = b # r" "utf8_cont b" "utf8_valid r" using "2.prems" F1 by (auto split: list.splits)
      then show ?thesis using that[of 2] "2.IH"(2)[OF F1 True] F1 True by simp
    next
      case F2: False
      show ?thesis
      proof (cases "0xE0 \<le> a \<and> a \<le> 0xEF")
        case True
        then obtain b c r where "bs = b # c # r" "utf8_cont c" "utf8_valid r"
          "if a = 0xE0 then 0xA0 \<le> b \<and> b \<le> 0xBF else if a = 0xED then 0x80 \<le> b \<and> b \<le> 0x9F else utf8_cont b"
          using "2.prems" F1 F2 by (auto split: list.splits)
        then show ?thesis using that[of 3] "2.IH"(3)[OF F1 F2 True] F1 F2 True by simp
      next
        case F3: False
        then have F4: "0xF0 \<le> a \<and> a \<le> 0xF4" using "2.prems" F1 F2 by (simp split: if_splits)
        then obtain b c d r where "bs = b # c # d # r" "utf8_cont c" "utf8_cont d" "utf8_valid r"
          "if a = 0xF0 then 0x90 \<le> b \<and> b \<le> 0xBF else if a = 0xF4 then 0x80 \<le> b \<and> b \<le> 0x8F else utf8_cont b"
          using "2.prems" F1 F2 F3 by (auto split: list.splits)
        then show ?thesis using that[of 4] "2.IH"(4)[OF F1 F2 F3 F4] F1 F2 F3 F4 by simp
      qed
    qed
  qed
  show ?case by (subst utf8_lossy.simps) (simp add: n(1,3) del: utf8_len.simps)
qed

lemma pct_bytes_plain: "c \<noteq> CHR ''%'' \<Longrightarrow> pct_bytes (c # r) = c # pct_bytes r"
  by (cases r; cases "tl r") auto

lemma hex_val_upper: "n < 16 \<Longrightarrow> hex_val (hex_upper n) = Some n"
  by (auto simp: hex_val_def hex_upper_def of_char_of)

lemma of_char_bound: "(of_char c :: nat) < 256"
  using of_char_mod_256[of c, where ?'a = nat] by (metis mod_less_divisor zero_less_numeral)

lemma pct_bytes_enc: "pct_bytes (enc_char e c @ r) = c # pct_bytes r"
proof -
  have "of_char c div 16 < (16 :: nat)" using of_char_bound[of c] by (simp add: less_mult_imp_div_less)
  moreover have "16 * (of_char c div 16) + of_char c mod 16 = (of_char c :: nat)" by simp
  moreover have "c \<noteq> CHR ''%''" if "is_unreserved c" using that by (auto simp: is_unreserved_def)
  ultimately show ?thesis
    by (auto simp: enc_char_def pct_bytes_plain hex_val_upper simp del: mult_div_mod_eq div_mult_mod_eq)
qed

lemma pct_bytes_uri: "pct_bytes (uri_encode s e) = s"
  by (induction s) (simp_all add: uri_encode_def pct_bytes_enc)

lemma pct_decode_uri: "is_utf8 s \<Longrightarrow> pct_decode (uri_encode s e) = s"
  by (simp add: pct_decode_def pct_bytes_uri is_utf8_def str_bytes_def utf8_lossy_valid o_def)

lemma uri_encode_inj: "uri_encode s e = uri_encode t e \<longleftrightarrow> s = t"
  using pct_bytes_uri by metis

text \<open>The characters an encoding can hold.\<close>

lemma enc_char_chars: "x \<in> set (enc_char e c) \<Longrightarrow> is_unreserved x \<or> x = CHR ''%'' \<or> x = CHR ''/'' \<and> \<not> e"
proof -
  have "is_unreserved (hex_upper n)" if "n < 16" for n using that by (auto simp: is_unreserved_def hex_upper_def of_char_of Let_def)
  moreover have "of_char c div 16 < (16 :: nat)" "of_char c mod 16 < (16 :: nat)" using of_char_bound[of c] by (simp_all add: less_mult_imp_div_less)
  ultimately show "x \<in> set (enc_char e c) \<Longrightarrow> is_unreserved x \<or> x = CHR ''%'' \<or> x = CHR ''/'' \<and> \<not> e"
    by (auto simp: enc_char_def split: if_splits)
qed

lemma uri_encode_chars:
  "CHR 0x0A \<notin> set (uri_encode s e)" "CHR ''&'' \<notin> set (uri_encode s e)" "CHR ''='' \<notin> set (uri_encode s e)" "CHR ''?'' \<notin> set (uri_encode s e)"
proof -
  have "is_unreserved x \<or> x = CHR ''%'' \<or> x = CHR ''/'' \<and> \<not> e" if "x \<in> set (uri_encode s e)" for x
    using that enc_char_chars by (auto simp: uri_encode_def)
  moreover have "\<not> is_unreserved x" if "x \<in> {CHR 0x0A, CHR ''&'', CHR ''='', CHR ''?''}" for x
    using that by (auto simp: is_unreserved_def)
  ultimately show "CHR 0x0A \<notin> set (uri_encode s e)" "CHR ''&'' \<notin> set (uri_encode s e)" "CHR ''='' \<notin> set (uri_encode s e)" "CHR ''?'' \<notin> set (uri_encode s e)"
    by force+
qed

section \<open>A signed request verifies\<close>

lemma hex_val_digit: "n < 16 \<Longrightarrow> hex_val (hex_digit n) = Some n"
  by (auto simp: hex_val_def hex_digit_def of_char_of)

lemma str_bytes_inj [simp]: "str_bytes a = str_bytes b \<longleftrightarrow> a = b"
  unfolding str_bytes_def by (metis byte_char_byte list.map_comp list.map_id map_idI o_apply)

lemma split_char_join_list: "xs \<noteq> [] \<Longrightarrow> \<forall>x \<in> set xs. c \<notin> set x \<Longrightarrow> split_char c (join [c] xs) = xs"
proof (induction xs)
  case (Cons x xs)
  then show ?case by (cases xs) (auto simp: split_char_none split_char_join)
qed simp

lemma parse_query_encoded:
  assumes "ps \<noteq> []" and "\<forall>(k, v) \<in> set ps. is_utf8 k \<and> is_utf8 v"
  shows "parse_query (join ''&'' (map (\<lambda>(k, v). uri_encode k True @ ''='' @ uri_encode v True) ps)) = ps"
proof -
  let ?f = "\<lambda>(k, v). uri_encode k True @ ''='' @ uri_encode v True"
  have s: "split_char CHR ''&'' (join ''&'' (map ?f ps)) = map ?f ps"
    using assms(1) uri_encode_chars by (intro split_char_join_list) auto
  have n: "join ''&'' (map ?f ps) \<noteq> []"
  proof
    assume "join ''&'' (map ?f ps) = []"
    then have "map ?f ps = [[]]" using s by simp
    then show False by (cases ps) auto
  qed
  let ?g = "\<lambda>kv. case split_once CHR ''='' kv of Some (k, v) \<Rightarrow> (pct_decode k, pct_decode v) | None \<Rightarrow> (pct_decode kv, [])"
  have g: "(?g \<circ> ?f) p = p" if "p \<in> set ps" for p
  proof (cases p)
    case (Pair k v)
    have "split_once CHR ''='' (uri_encode k True @ ''='' @ uri_encode v True) = Some (uri_encode k True, uri_encode v True)"
      using uri_encode_chars(3)[of k True] by (simp add: split_once_Some_iff)
    then show ?thesis using assms(2) that Pair by (auto simp: pct_decode_uri)
  qed
  have "map ?g (map ?f ps) = ps" unfolding map_map by (rule map_idI) (rule g)
  then show ?thesis unfolding parse_query_def s if_not_P[OF n] .
qed

definition ascii :: "string \<Rightarrow> bool" where
  "ascii s \<longleftrightarrow> list_all (\<lambda>c. (of_char c :: nat) < 128) s"

lemma ascii_append [simp]: "ascii (a @ b) \<longleftrightarrow> ascii a \<and> ascii b"
  by (simp add: ascii_def)

lemma ascii_utf8: "ascii s \<Longrightarrow> is_utf8 s"
proof (induction s)
  case (Cons c s)
  have "char_byte c < 0x80" using Cons.prems by (simp add: ascii_def char_byte_def word_less_nat_alt unat_of_nat)
  then show ?case using Cons by (simp add: ascii_def is_utf8_def)
qed (simp add: is_utf8_def)

lemma digits_ascii: "list_all is_ascii_digit s \<Longrightarrow> ascii s \<and> CHR ''/'' \<notin> set s \<and> CHR 0x0A \<notin> set s"
  by (auto simp: ascii_def list_all_iff is_ascii_digit_def)

lemma hex_bytes_ascii: "ascii (hex_bytes bs)" "x \<in> set (hex_bytes bs) \<Longrightarrow> hex_val x \<noteq> None"
proof -
  have d: "hex_val (hex_digit n) = Some n" "(of_char (hex_digit n) :: nat) < 128" if "n < 16" for n
    using that by (auto simp: hex_val_def hex_digit_def of_char_of)
  have "unat b div 16 < 16" for b :: u8 using unat_bounds(1)[of b] by (simp add: less_mult_imp_div_less)
  then show "ascii (hex_bytes bs)" "x \<in> set (hex_bytes bs) \<Longrightarrow> hex_val x \<noteq> None"
    using d by (auto simp: hex_bytes_def ascii_def list_all_iff)
qed

lemma amz_date_ascii:
  assumes "t < 253402300800"
  shows "ascii (amz_date t)" "CHR 0x0A \<notin> set (amz_date t)" "ascii (date_stamp t)" "CHR ''/'' \<notin> set (date_stamp t)"
    "\<forall>x \<in> set (date_stamp t). is_ascii_digit x" "\<forall>x \<in> set (amz_date t). \<not> is_whitespace x"
proof -
  obtain y m d hh mm ss where c: "civil t = (y, m, d, hh, mm, ss)" by (metis prod_cases6)
  note b = civil_parts(1,3,5,7,9,11)[OF assms c]
  note f = fmt_zero_digits(2)[OF b(1), of 4] fmt_zero_digits(2)[OF order_trans[OF _ b(2)], of 2] fmt_zero_digits(2)[OF order_trans[OF _ b(3)], of 2]
    fmt_zero_digits(2)[OF b(4), of 2] fmt_zero_digits(2)[OF b(5), of 2] fmt_zero_digits(2)[OF b(6), of 2]
  have d: "\<not> is_whitespace x" if "is_ascii_digit x" for x using that by (auto simp: is_ascii_digit_def is_whitespace_def)
  show "ascii (amz_date t)" "CHR 0x0A \<notin> set (amz_date t)" "ascii (date_stamp t)" "CHR ''/'' \<notin> set (date_stamp t)"
    using f digits_ascii by (auto simp: amz_date_def date_stamp_def c) (auto simp: ascii_def)
  show "\<forall>x \<in> set (date_stamp t). is_ascii_digit x" "\<forall>x \<in> set (amz_date t). \<not> is_whitespace x"
    using f d by (auto simp: amz_date_def date_stamp_def c list_all_iff) (auto simp: is_whitespace_def)
qed

lemma cred_parts:
  assumes "CHR ''/'' \<notin> set ak" "CHR ''/'' \<notin> set date" "CHR ''/'' \<notin> set region"
  shows "split_char CHR ''/'' (ak @ ''/'' @ scope_of date region) = [ak, date, region, SERVICE, AWS_REQUEST]"
  using assms by (simp add: scope_of_def split_char_join split_char_none SERVICE_def AWS_REQUEST_def)

end
