(* ===== verification/Sig_Verify.thy ===== *)
theory Sig_Verify
  imports Sig_V4
begin

text \<open>
  The correctness of the request signatures of \<open>Sig_V4\<close>: a presigned URL and an \<open>Authorization\<close> header verify on the
  server that decodes them, a signature is good for one request only, and a presigned URL has a bounded life.
\<close>

section \<open>What a server reads\<close>

text \<open>The path and the query of a request target, decoded as \<open>handle\<close> does.\<close>

definition server_view :: "string \<Rightarrow> string \<times> (string \<times> string) list" where
  "server_view url =
     (case split_once CHR ''?'' url of
        Some (p, q) \<Rightarrow> (pct_decode p, parse_query q)
      | None \<Rightarrow> (pct_decode url, parse_query []))"

text \<open>What the signature of a presigned request covers.\<close>

definition presigned_creq :: "string \<Rightarrow> string \<Rightarrow> string \<Rightarrow> (string \<times> string) list \<Rightarrow> string" where
  "presigned_creq method host path query = build_canonical_request method path (canonical_query query ''X-Amz-Signature'') host"

definition presigned_sts :: "sig_crypto \<Rightarrow> string \<Rightarrow> string \<Rightarrow> string \<Rightarrow> (string \<times> string) list \<Rightarrow> string \<Rightarrow> string \<Rightarrow> string \<Rightarrow> string" where
  "presigned_sts cr method host path query amzd date region =
     string_to_sign cr amzd (scope_of date region) (presigned_creq method host path query)"

text \<open>The inversion of an accepted presigned request.\<close>

lemma verify_presigned_Inr:
  assumes "verify_presigned cr method host path query lookup now = Inr ak"
  obtains cred amzd ex expires provided date region secret signed_at where
    "query_get ''X-Amz-Credential'' query = Some cred" "query_get ''X-Amz-Date'' query = Some amzd"
    "query_get ''X-Amz-Expires'' query = Some ex" "parse_uint 64 ex = Some expires" "0 < expires" "expires \<le> 604800"
    "query_get ''X-Amz-Signature'' query = Some provided"
    "split_char CHR ''/'' cred = [ak, date, region, SERVICE, AWS_REQUEST]"
    "lookup ak = Some secret" "parse_amz_date amzd = Some signed_at"
    "signed_at \<le> saturating_add now 300" "now \<le> saturating_add signed_at expires"
    "provided = signature_of cr secret date region (presigned_sts cr method host path query amzd date region)"
proof -
  obtain cred amzd ex expires provided where
    q: "query_get ''X-Amz-Credential'' query = Some cred" "query_get ''X-Amz-Date'' query = Some amzd"
    "query_get ''X-Amz-Expires'' query = Some ex" "parse_uint 64 ex = Some expires" "0 < expires" "expires \<le> 604800"
    "query_get ''X-Amz-Signature'' query = Some provided"
    using assms unfolding verify_presigned_def
    by (auto split: option.splits if_splits)
  obtain date region where c: "split_char CHR ''/'' cred = [ak, date, region, SERVICE, AWS_REQUEST]"
    using assms unfolding verify_presigned_def q option.case
    by (auto simp: Let_def split: option.splits if_splits list.splits)
  obtain secret where l: "lookup ak = Some secret"
    using assms unfolding verify_presigned_def q option.case c list.case
    by (auto simp: Let_def split: option.splits if_splits)
  obtain signed_at where p: "parse_amz_date amzd = Some signed_at"
    using assms unfolding verify_presigned_def q option.case c list.case l
    by (auto simp: Let_def split: option.splits if_splits)
  show ?thesis
  proof (rule that[OF q c l p])
    show "signed_at \<le> saturating_add now 300" "now \<le> saturating_add signed_at expires"
      "provided = signature_of cr secret date region (presigned_sts cr method host path query amzd date region)"
      using assms q(5,6) unfolding verify_presigned_def q option.case c list.case l p
      by (simp_all add: Let_def ct_eq_iff presigned_sts_def presigned_creq_def split: if_splits)
  qed
qed

lemma verify_presigned_intro:
  assumes "query_get ''X-Amz-Credential'' query = Some cred" "query_get ''X-Amz-Date'' query = Some amzd"
    "query_get ''X-Amz-Expires'' query = Some ex" "parse_uint 64 ex = Some expires" "0 < expires" "expires \<le> 604800"
    "query_get ''X-Amz-Signature'' query = Some provided"
    "split_char CHR ''/'' cred = [ak, date, region, SERVICE, AWS_REQUEST]"
    "lookup ak = Some secret" "parse_amz_date amzd = Some signed_at"
    "signed_at \<le> saturating_add now 300" "now \<le> saturating_add signed_at expires"
    "provided = signature_of cr secret date region (presigned_sts cr method host path query amzd date region)"
  shows "verify_presigned cr method host path query lookup now = Inr ak"
  using assms(5,6,11,12,13) unfolding verify_presigned_def assms(1-4,7-10) option.case list.case
  by (simp add: Let_def ct_eq_iff presigned_sts_def presigned_creq_def)

lemma presigned_params_parse:
  assumes "ascii ak" "ascii region" "t < 253402300800"
  shows "parse_query (join ''&'' (map (\<lambda>(k, v). uri_encode k True @ ''='' @ uri_encode v True)
           (presign_params ak region ex t @ [(''X-Amz-Signature'', hex_bytes sg)])))
         = presign_params ak region ex t @ [(''X-Amz-Signature'', hex_bytes sg)]"
proof (rule parse_query_encoded)
  have a: "ascii (show_nat ex)" using show_nat_digits digits_ascii by blast
  have k: "ascii ''X-Amz-Algorithm''" "ascii ''X-Amz-Credential''" "ascii ''X-Amz-Date''" "ascii ''X-Amz-Expires''"
    "ascii ''X-Amz-SignedHeaders''" "ascii ''X-Amz-Signature''" "ascii ALGORITHM" "ascii ''host''" "ascii ''/''" "ascii SERVICE" "ascii AWS_REQUEST"
    by (simp_all add: ascii_def ALGORITHM_def SERVICE_def AWS_REQUEST_def)
  have c: "ascii (ak @ ''/'' @ scope_of (date_stamp t) region)"
    unfolding scope_of_def using assms(1,2) amz_date_ascii(3)[OF assms(3)] k by (simp only: ascii_append)
  show "\<forall>(k, v) \<in> set (presign_params ak region ex t @ [(''X-Amz-Signature'', hex_bytes sg)]). is_utf8 k \<and> is_utf8 v"
    unfolding presign_params_def
    using ascii_utf8[OF a] ascii_utf8[OF c] k[THEN ascii_utf8] ascii_utf8[OF hex_bytes_ascii(1)] ascii_utf8[OF amz_date_ascii(1)[OF assms(3)]]
    by simp
qed (simp add: presign_params_def)

lemma presigned_url_read:
  fixes ex :: nat
  assumes "is_utf8 path" "ascii ak" "ascii region" "t < 253402300800"
  defines "params \<equiv> presign_params ak region ex t"
  shows "server_view (presign cr method host path ak secret region ex t)
         = (path, params @ [(''X-Amz-Signature'',
              signature_of cr secret (date_stamp t) region
                (presigned_sts cr method host path params (amz_date t) (date_stamp t) region))])"
proof -
  have f: "canonical_query params [] = canonical_query params ''X-Amz-Signature''"
    by (simp add: canonical_query_def params_def presign_params_def)
  show ?thesis
    unfolding server_view_def presign_def Let_def params_def[symmetric] f presigned_sts_def presigned_creq_def signature_of_def
    using uri_encode_chars(4)[of path False] assms(1) presigned_params_parse[OF assms(2-4), of ex, folded params_def]
    by (simp add: split_once_Some_iff[THEN iffD2] pct_decode_uri del: map_append)
qed

lemma presigned_sts_append:
  "presigned_sts cr method host path (q @ [(''X-Amz-Signature'', s)]) amzd date region = presigned_sts cr method host path q amzd date region"
  by (simp add: presigned_sts_def presigned_creq_def canonical_query_def)

lemma presigned_accepts:
  assumes "is_utf8 path" "ascii ak" "ascii region" "CHR ''/'' \<notin> set ak" "CHR ''/'' \<notin> set region"
    and "lookup ak = Some secret" "0 < ex" "ex \<le> 604800"
    and "t < 253402300800" "t \<le> now" "now \<le> t + ex"
  shows "case server_view (presign cr method host path ak secret region ex t) of (path', query) \<Rightarrow>
           path' = path \<and> verify_presigned cr method host path' query lookup now = Inr ak"
proof -
  let ?params = "presign_params ak region ex t" and ?d = "date_stamp t"
  let ?sg = "signature_of cr secret ?d region (presigned_sts cr method host path ?params (amz_date t) ?d region)"
  let ?q = "?params @ [(''X-Amz-Signature'', ?sg)]"
  have q: "query_get ''X-Amz-Credential'' ?q = Some (ak @ ''/'' @ scope_of ?d region)" "query_get ''X-Amz-Date'' ?q = Some (amz_date t)"
    "query_get ''X-Amz-Expires'' ?q = Some (show_nat ex)" "query_get ''X-Amz-Signature'' ?q = Some ?sg"
    by (simp_all add: query_get_def presign_params_def)
  have e: "parse_uint 64 (show_nat ex) = Some ex" using assms(8) by (simp add: parse_uint_show_nat)
  have s: "t \<le> saturating_add now 300" "now \<le> saturating_add t ex"
    using assms(8-11) by (simp_all add: saturating_add_def u64_max_def)
  have "verify_presigned cr method host path ?q lookup now = Inr ak"
    by (rule verify_presigned_intro[where lookup = lookup, OF q(1-3) e assms(7,8) q(4) cred_parts[OF assms(4) amz_date_ascii(4)[OF assms(9)] assms(5)] assms(6)
          amz_date_parts(1)[OF assms(9)] s])
       (simp only: presigned_sts_append)
  then show ?thesis unfolding presigned_url_read[OF assms(1-3,9)] by simp
qed

section \<open>What a signature binds\<close>

lemma append_sep_eq: "(c :: char) \<notin> set a \<Longrightarrow> c \<notin> set b \<Longrightarrow> a @ c # r = b @ c # s \<longleftrightarrow> a = b \<and> r = s"
  using split_once_Some_iff[of c] by (metis option.inject prod.inject)

lemma hex_bytes_inj: "hex_bytes a = hex_bytes b \<longleftrightarrow> a = b"
proof (induction a arbitrary: b)
  case Nil
  show ?case by (cases b) (simp_all add: hex_bytes_def)
next
  case (Cons x a)
  have d: "hex_digit m = hex_digit n \<longleftrightarrow> m = n" if "m < 16" "n < 16" for m n :: nat
    using that by (metis hex_val_digit option.inject)
  have u: "unat y div 16 < 16" for y :: u8 using unat_bounds(1)[of y] by (simp add: less_mult_imp_div_less)
  show ?case
  proof (cases b)
    case (Cons y bs)
    have "unat x div 16 = unat y div 16 \<and> unat x mod 16 = unat y mod 16 \<longleftrightarrow> x = y"
      by (metis div_mult_mod_eq word_unat_eq_iff)
    then show ?thesis using Cons.IH[of bs] Cons u by (simp add: hex_bytes_def d flip: conj_assoc)
  qed (simp add: hex_bytes_def)
qed

lemma join_inj:
  assumes "\<forall>x \<in> set xs. c \<notin> set x \<and> x \<noteq> []" "\<forall>x \<in> set ys. c \<notin> set x \<and> x \<noteq> []" "join [c] xs = join [c] ys"
  shows "xs = ys"
proof -
  have n: "join [c] zs = [] \<longleftrightarrow> zs = []" if "\<forall>x \<in> set zs. c \<notin> set x \<and> x \<noteq> []" for zs
    using that by (cases "([c], zs)" rule: join.cases) auto
  show ?thesis
  proof (cases "xs = [] \<or> ys = []")
    case True
    then show ?thesis using n[OF assms(1)] n[OF assms(2)] assms(3) by auto
  next
    case False
    then show ?thesis using split_char_join_list[of xs c] split_char_join_list[of ys c] assms by (metis (no_types, lifting))
  qed
qed

lemma canonical_query_mset:
  assumes "canonical_query p e = canonical_query q e"
  shows "mset (filter (\<lambda>(k, _). k \<noteq> e) p) = mset (filter (\<lambda>(k, _). k \<noteq> e) q)"
proof -
  let ?enc = "\<lambda>(k, v). (uri_encode k True, uri_encode v True)" and ?kv = "\<lambda>(k, v). k @ ''='' @ v"
  let ?s = "\<lambda>p. sort (map ?enc (filter (\<lambda>(k, _). k \<noteq> e) p))"
  have j: "map ?kv (?s p) = map ?kv (?s q)"
    using assms uri_encode_chars(2) unfolding canonical_query_def Let_def by (intro join_inj) auto
  have e: "k @ ''='' @ v = k' @ ''='' @ v' \<longleftrightarrow> (k, v) = (k', v')" if "CHR ''='' \<notin> set k" "CHR ''='' \<notin> set k'" for k v k' v'
    using append_sep_eq[OF that] by simp
  have "inj_on ?kv (set (?s p) \<union> set (?s q))"
    using e uri_encode_chars(3) by (intro inj_onI) (auto 0 3)
  then have "?s p = ?s q" by (rule inj_on_map_eq_map[THEN iffD1, OF _ j])
  then have "mset (?s p) = mset (?s q)" by simp
  then have i: "image_mset ?enc (mset (filter (\<lambda>(k, _). k \<noteq> e) p)) = image_mset ?enc (mset (filter (\<lambda>(k, _). k \<noteq> e) q))" by simp
  have "inj ?enc" by (auto simp: inj_on_def uri_encode_inj)
  then show ?thesis by (rule injD[OF multiset.inj_map i])
qed

lemma canonical_query_no_newline: "CHR 0x0A \<notin> set (canonical_query p e)"
proof -
  have "CHR 0x0A \<notin> set (join ''&'' xs)" if "\<forall>x \<in> set xs. CHR 0x0A \<notin> set x" for xs
    using that by (induction "''&''" xs rule: join.induct) auto
  then show ?thesis unfolding canonical_query_def Let_def using uri_encode_chars(1) by auto
qed

lemma presigned_creq_inj:
  assumes "presigned_creq m1 h1 p1 q1 = presigned_creq m2 h2 p2 q2"
    and "\<forall>s \<in> {m1, m2, h1, h2}. CHR 0x0A \<notin> set s"
  shows "m1 = m2 \<and> h1 = h2 \<and> p1 = p2 \<and> canonical_query q1 ''X-Amz-Signature'' = canonical_query q2 ''X-Amz-Signature''"
  using assms uri_encode_chars(1) canonical_query_no_newline
  by (simp add: presigned_creq_def build_canonical_request_def append_sep_eq uri_encode_inj)

lemma string_to_sign_inj:
  assumes "string_to_sign cr a s c = string_to_sign cr a' s c'" "length a = length a'"
  shows "a = a' \<and> cr_sha256 cr (str_bytes c) = cr_sha256 cr (str_bytes c')"
  using assms by (simp add: string_to_sign_def sha256_hex_def hex_bytes_inj)

text \<open>The parameters a presigned signature covers.\<close>

definition signed_params :: "(string \<times> string) list \<Rightarrow> (string \<times> string) list" where
  "signed_params query = filter (\<lambda>(k, _). k \<noteq> ''X-Amz-Signature'') query"

lemma parse_amz_date_length: "parse_amz_date s = Some t \<Longrightarrow> length s = 16"
  by (auto simp: parse_amz_date_def split: if_splits)

lemma verify_presigned_named:
  assumes "verify_presigned cr method host path query lookup now = Inr ak'"
    and "query_get ''X-Amz-Credential'' query = Some cred" "split_char CHR ''/'' cred = [ak, date, region, SERVICE, AWS_REQUEST]"
    and "lookup ak = Some secret" "query_get ''X-Amz-Date'' query = Some amzd"
  shows "query_get ''X-Amz-Signature'' query = Some (signature_of cr secret date region (presigned_sts cr method host path query amzd date region))
         \<and> length amzd = 16"
  using assms(2-5) by (rule_tac verify_presigned_Inr[OF assms(1)]) (auto dest: parse_amz_date_length)

section \<open>The \<open>Authorization\<close> header\<close>

lemma trim_start_id: "s \<noteq> [] \<Longrightarrow> \<not> is_whitespace (hd s) \<Longrightarrow> trim_start s = s"
  by (cases s) (simp_all add: trim_start_def)

lemma trim_end_id: "s \<noteq> [] \<Longrightarrow> \<not> is_whitespace (last s) \<Longrightarrow> trim_end s = s"
  by (cases s rule: rev_cases) (simp_all add: trim_end_def)

lemma str_trim_id: "\<not> is_whitespace (hd s) \<Longrightarrow> \<not> is_whitespace (last s) \<Longrightarrow> str_trim s = s"
  by (cases "s = []") (simp_all add: str_trim_def trim_start_id trim_end_id, simp add: trim_start_def trim_end_def)

lemma str_trim_no_ws: "\<forall>x \<in> set s. \<not> is_whitespace x \<Longrightarrow> str_trim s = s"
  by (cases "s = []") (simp add: str_trim_def trim_start_def trim_end_def, simp add: str_trim_id)

lemma str_trim_space: "str_trim (CHR '' '' # s) = str_trim s"
  by (simp add: str_trim_def trim_start_def is_whitespace_def)

lemma hex_bytes_clean: "x \<in> set (hex_bytes bs) \<Longrightarrow> x \<noteq> CHR '','' \<and> \<not> is_whitespace x"
  by (drule hex_bytes_ascii(2)) (auto simp: hex_val_def is_whitespace_def)

lemma auth_fold:
  assumes "CHR '','' \<notin> set cred" "cred \<noteq> []" "\<not> is_whitespace (last cred)" "CHR '','' \<notin> set shs" "shs \<noteq> []" "\<not> is_whitespace (last shs)"
    and "\<forall>x \<in> set sg. x \<noteq> CHR '','' \<and> \<not> is_whitespace x"
  shows "foldl auth_part (None, None, None)
           (split_char CHR '','' (str_trim ('' Credential='' @ cred @ '', SignedHeaders='' @ shs @ '', Signature='' @ sg)))
         = (Some cred, Some shs, Some sg)"
proof -
  have l: "\<not> is_whitespace (last (''Signature='' @ sg))" "\<not> is_whitespace (last (''Credential='' @ cred @ '', SignedHeaders='' @ shs @ '', Signature='' @ sg))"
    using assms(7) by (cases "sg = []"; simp add: is_whitespace_def)+
  have h: "\<not> is_whitespace (hd (''Credential='' @ r))" "\<not> is_whitespace (hd (''Signature='' @ r))" "\<not> is_whitespace (hd (''SignedHeaders='' @ r))" for r
    by (simp_all add: is_whitespace_def)
  have t: "str_trim ('' Credential='' @ cred @ '', SignedHeaders='' @ shs @ '', Signature='' @ sg)
         = ''Credential='' @ cred @ '', SignedHeaders='' @ shs @ '', Signature='' @ sg"
    using str_trim_id[OF h(1) l(2)] by (simp add: str_trim_space)
  have n: "CHR '','' \<notin> set sg" using assms(7) by blast
  have s: "split_char CHR '','' (''Credential='' @ cred @ '', SignedHeaders='' @ shs @ '', Signature='' @ sg)
         = [''Credential='' @ cred, '' SignedHeaders='' @ shs, '' Signature='' @ sg]"
    using split_char_join[of "CHR '',''" "''Credential='' @ cred" "'' SignedHeaders='' @ shs @ '', Signature='' @ sg"]
      split_char_join[of "CHR '',''" "'' SignedHeaders='' @ shs" "'' Signature='' @ sg"]
      split_char_none[of "CHR '',''" "''Credential='' @ cred"] split_char_none[of "CHR '',''" "'' SignedHeaders='' @ shs"]
      split_char_none[of "CHR '',''" "'' Signature='' @ sg"] assms(1,4) n
    by simp
  have p: "str_trim (''Credential='' @ cred) = ''Credential='' @ cred" "str_trim ('' SignedHeaders='' @ shs) = ''SignedHeaders='' @ shs"
    "str_trim ('' Signature='' @ sg) = ''Signature='' @ sg"
    using str_trim_id[OF h(1), of cred] str_trim_id[OF h(3), of shs] str_trim_id[OF h(2) l(1)] assms(2,3,5,6) by (simp_all add: str_trim_space)
  have a: "auth_part ps (''Credential='' @ cred) = (Some cred, fst (snd ps), snd (snd ps))"
    "auth_part ps ('' SignedHeaders='' @ shs) = (fst ps, Some shs, snd (snd ps))"
    "auth_part ps ('' Signature='' @ sg) = (fst ps, fst (snd ps), Some sg)" for ps
    unfolding auth_part_def p by (simp_all split: prod.splits)
  show ?thesis unfolding t s by (simp only: foldl.simps a fst_conv snd_conv)
qed

lemma scope_clean:
  assumes "CHR '','' \<notin> set region" "t < 253402300800"
  shows "CHR '','' \<notin> set (scope_of (date_stamp t) region)" "\<not> is_whitespace (last (ak @ ''/'' @ scope_of (date_stamp t) region))"
proof -
  have "CHR '','' \<notin> set (date_stamp t)" using amz_date_ascii(5)[OF assms(2)] by (auto simp: is_ascii_digit_def)
  then show "CHR '','' \<notin> set (scope_of (date_stamp t) region)" "\<not> is_whitespace (last (ak @ ''/'' @ scope_of (date_stamp t) region))"
    using assms(1) by (simp_all add: scope_of_def SERVICE_def AWS_REQUEST_def is_whitespace_def)
qed

lemma header_accepts:
  assumes "CHR ''/'' \<notin> set ak" "CHR ''/'' \<notin> set region" "CHR '','' \<notin> set ak" "CHR '','' \<notin> set region" "lookup ak = Some secret"
    and "str_trim host = host" "str_trim payload_hash = payload_hash" "t < 253402300800" "now \<le> t + 900" "t \<le> now + 900"
    and "sign_header cr method host path query payload_hash ak secret region t = (auth, amzd)"
    and "map_of headers ''x-amz-date'' = Some amzd" "map_of headers ''x-amz-content-sha256'' = Some payload_hash"
  shows "verify_header cr method host path query headers auth lookup now = Inr ak"
proof -
  let ?d = "date_stamp t" and ?shs = "''host;x-amz-content-sha256;x-amz-date''"
  let ?cred = "ak @ ''/'' @ scope_of ?d region"
  let ?ch = "''host:'' @ host @ NL @ ''x-amz-content-sha256:'' @ payload_hash @ NL @ ''x-amz-date:'' @ amz_date t @ NL"
  let ?sg = "signature_of cr secret ?d region (string_to_sign cr (amz_date t) (scope_of ?d region) (header_creq method path query ?ch ?shs payload_hash))"
  have z: "amzd = amz_date t" and u: "auth = ''AWS4-HMAC-SHA256'' @ '' Credential='' @ ?cred @ '', SignedHeaders='' @ ?shs @ '', Signature='' @ ?sg"
    using assms(11)[symmetric] unfolding sign_header_def Let_def prod.inject by simp_all
  have p: "strip_prefix ''AWS4-HMAC-SHA256'' auth = Some ('' Credential='' @ ?cred @ '', SignedHeaders='' @ ?shs @ '', Signature='' @ ?sg)"
    using u strip_prefix_Some_iff by blast
  have f: "foldl auth_part (None, None, None) (split_char CHR '','' (str_trim ('' Credential='' @ ?cred @ '', SignedHeaders='' @ ?shs @ '', Signature='' @ ?sg)))
         = (Some ?cred, Some ?shs, Some ?sg)"
    using assms(3) scope_clean[OF assms(4,8)] hex_bytes_clean by (intro auth_fold) (auto simp: signature_of_def is_whitespace_def)
  have c: "canonical_headers_of host headers ?shs = ?ch"
    using assms(6,7,12,13) str_trim_no_ws[OF amz_date_ascii(6)[OF assms(8)]] by (simp add: canonical_headers_of_def z)
  have k: "\<not> max now t - min now t > 900" using assms(9,10) by auto
  show ?thesis
    unfolding verify_header_def p option.case f prod.case cred_parts[OF assms(1) amz_date_ascii(4)[OF assms(8)] assms(2)] list.case
      assms(5,12,13) z amz_date_parts(1)[OF assms(8)] Let_def c
    using k by (simp add: ct_eq_iff)
qed

section \<open>Properties\<close>

text \<open>The order of the parameters does not matter.\<close>

lemma query_get_perm: "mset q = mset q' \<Longrightarrow> distinct (map fst q) \<Longrightarrow> query_get k q' = query_get k q"
  unfolding query_get_def by (metis map_of_inject_set mset_eq_setD mset_map mset_eq_imp_distinct_iff)

lemma canonical_query_perm: "mset q = mset q' \<Longrightarrow> canonical_query q' e = canonical_query q e"
  unfolding canonical_query_def Let_def by (simp add: sorted_list_of_multiset_mset[symmetric] del: sorted_list_of_multiset_mset)

lemma verify_presigned_perm:
  "mset q = mset q' \<Longrightarrow> distinct (map fst q) \<Longrightarrow>
     verify_presigned cr method host path q' lookup now = verify_presigned cr method host path q lookup now"
  unfolding verify_presigned_def by (simp only: query_get_perm[of q q'] canonical_query_perm[of q q'])

text \<open>A hash and a keyed hash to run the properties on, and a request that a key signed.\<close>

definition demo_crypto :: sig_crypto where
  "demo_crypto = \<lparr>cr_sha256 = (\<lambda>d. [foldl (\<lambda>h b. 31 * h + b) 7 d]), cr_hmac = (\<lambda>k d. [foldl (\<lambda>h b. 33 * h + b) 5 (k @ 1 # d)])\<rparr>"

definition demo_secret :: "string \<Rightarrow> string option" where
  "demo_secret ak = (if ak = ''AK1'' then Some ''top'' else None)"

definition demo_signed :: "string \<times> (string \<times> string) list" where
  "demo_signed = server_view (presign demo_crypto ''GET'' ''s3.test'' ''/b/a key'' ''AK1'' ''top'' ''eu'' 3600 1700000000)"

lemma demo_accepts:
  assumes "1700000000 \<le> now" "now \<le> 1700003600"
  shows "verify_presigned demo_crypto ''GET'' ''s3.test'' (fst demo_signed) (snd demo_signed) demo_secret now = Inr ''AK1''"
proof -
  have "case demo_signed of (p, q) \<Rightarrow> p = ''/b/a key'' \<and> verify_presigned demo_crypto ''GET'' ''s3.test'' p q demo_secret now = Inr ''AK1''"
    unfolding demo_signed_def using assms by (intro presigned_accepts) (simp_all add: ascii_utf8 ascii_def demo_secret_def)
  then show ?thesis unfolding case_prod_beta by blast
qed

lemma demo_params:
  "query_get ''X-Amz-Credential'' (snd demo_signed) = Some (''AK1/'' @ scope_of (date_stamp 1700000000) ''eu'')"
  "query_get ''X-Amz-Date'' (snd demo_signed) = Some (amz_date 1700000000)"
  "distinct (map fst (snd demo_signed))"
  unfolding demo_signed_def by (subst presigned_url_read; simp add: ascii_utf8 ascii_def query_get_def presign_params_def)+

text \<open>
  C20. A presigned URL works: the URL \<open>presign\<close> returns, taken apart and decoded by the server, verifies for the same method
  and host as the request of the signer's key, at every time from the signature on until it expires.
\<close>

theorem presigned_url_verifies:
  assumes "is_utf8 path" "ascii ak" "ascii region" "CHR ''/'' \<notin> set ak" "CHR ''/'' \<notin> set region"
    and "lookup ak = Some secret" "0 < ex" "ex \<le> 604800"
    and "t < 253402300800" "t \<le> now" "now \<le> t + ex"
  shows "case server_view (presign cr method host path ak secret region ex t) of (path', query) \<Rightarrow>
           path' = path \<and> verify_presigned cr method host path' query lookup now = Inr ak"
  using assms by (rule presigned_accepts)

theorem presigned_url_verifies_witness:
  "case server_view (presign demo_crypto ''PUT'' ''s3.test'' ''/b/100%'' ''AK1'' ''top'' ''eu'' 60 1700000000) of (path', query) \<Rightarrow>
     path' = ''/b/100%'' \<and> verify_presigned demo_crypto ''PUT'' ''s3.test'' path' query demo_secret 1700000060 = Inr ''AK1''"
  by (rule presigned_url_verifies) (simp_all add: ascii_utf8 ascii_def demo_secret_def)

text \<open>
  A captured presigned URL cannot live long: two times at which the same request is accepted are less than seven days
  and five minutes apart, whatever the query says.
\<close>

theorem presigned_validity_window:
  assumes "verify_presigned cr method host path query lookup now = Inr ak"
    and "verify_presigned cr method' host' path' query lookup' now' = Inr ak'"
  shows "now' \<le> now + 604800 + 300"
proof (rule verify_presigned_Inr[OF assms(1)])
  fix cred amzd ex expires provided date region secret signed_at
  assume "query_get ''X-Amz-Date'' query = Some amzd" "query_get ''X-Amz-Expires'' query = Some ex" "parse_uint 64 ex = Some expires"
    "expires \<le> 604800" "parse_amz_date amzd = Some signed_at" "signed_at \<le> saturating_add now 300"
  then show ?thesis
    by (rule_tac verify_presigned_Inr[OF assms(2)]) (auto simp: saturating_add_def split: if_splits)
qed

theorem presigned_validity_window_witness:
  "verify_presigned demo_crypto ''GET'' ''s3.test'' (fst demo_signed) (snd demo_signed) demo_secret 1700003600 = Inr ''AK1''
   \<and> (1700003600 :: nat) \<le> 1700000000 + 604800 + 300"
proof -
  have "verify_presigned demo_crypto ''GET'' ''s3.test'' (fst demo_signed) (snd demo_signed) demo_secret 1700000000 = Inr ''AK1''"
    and e: "verify_presigned demo_crypto ''GET'' ''s3.test'' (fst demo_signed) (snd demo_signed) demo_secret 1700003600 = Inr ''AK1''"
    by (simp_all add: demo_accepts)
  from presigned_validity_window[OF this] e show ?thesis by blast
qed

text \<open>
  C19. A signature grants one request: when two accepted presigned requests carry the same credential and the same
  signature, they have the same method, host, path and query parameters (up to their order and the signature itself), or
  the two strings that were hashed or keyed-hashed are different strings with the same digest.
\<close>

theorem presigned_signature_binds:
  assumes "verify_presigned cr m1 h1 p1 q1 lookup now1 = Inr ak" "verify_presigned cr m2 h2 p2 q2 lookup now2 = Inr ak'"
    and "query_get ''X-Amz-Credential'' q1 = Some cred" "query_get ''X-Amz-Credential'' q2 = Some cred"
    and "split_char CHR ''/'' cred = [ak, date, region, SERVICE, AWS_REQUEST]" "lookup ak = Some secret"
    and "query_get ''X-Amz-Date'' q1 = Some d1" "query_get ''X-Amz-Date'' q2 = Some d2"
    and "query_get ''X-Amz-Signature'' q1 = query_get ''X-Amz-Signature'' q2"
    and "\<forall>s \<in> {m1, m2, h1, h2}. CHR 0x0A \<notin> set s"
  shows "let c1 = presigned_creq m1 h1 p1 q1; c2 = presigned_creq m2 h2 p2 q2;
             s1 = presigned_sts cr m1 h1 p1 q1 d1 date region; s2 = presigned_sts cr m2 h2 p2 q2 d2 date region;
             key = signing_key cr secret date region
         in m1 = m2 \<and> h1 = h2 \<and> p1 = p2 \<and> mset (signed_params q1) = mset (signed_params q2)
            \<or> c1 \<noteq> c2 \<and> cr_sha256 cr (str_bytes c1) = cr_sha256 cr (str_bytes c2)
            \<or> s1 \<noteq> s2 \<and> cr_hmac cr key (str_bytes s1) = cr_hmac cr key (str_bytes s2)"
proof -
  have g1: "query_get ''X-Amz-Signature'' q1 = Some (signature_of cr secret date region (presigned_sts cr m1 h1 p1 q1 d1 date region))" "length d1 = 16"
    using verify_presigned_named[OF assms(1,3,5,6,7)] by simp_all
  have g2: "query_get ''X-Amz-Signature'' q2 = Some (signature_of cr secret date region (presigned_sts cr m2 h2 p2 q2 d2 date region))" "length d2 = 16"
    using verify_presigned_named[OF assms(2,4,5,6,8)] by simp_all
  have h: "cr_hmac cr (signing_key cr secret date region) (str_bytes (presigned_sts cr m1 h1 p1 q1 d1 date region))
         = cr_hmac cr (signing_key cr secret date region) (str_bytes (presigned_sts cr m2 h2 p2 q2 d2 date region))"
    using assms(9) g1(1) g2(1) by (simp add: signature_of_def hex_bytes_inj)
  have c: "cr_sha256 cr (str_bytes (presigned_creq m1 h1 p1 q1)) = cr_sha256 cr (str_bytes (presigned_creq m2 h2 p2 q2))"
    if "presigned_sts cr m1 h1 p1 q1 d1 date region = presigned_sts cr m2 h2 p2 q2 d2 date region"
    using string_to_sign_inj[OF that[unfolded presigned_sts_def]] g1(2) g2(2) by simp
  have e: "m1 = m2 \<and> h1 = h2 \<and> p1 = p2 \<and> mset (signed_params q1) = mset (signed_params q2)"
    if "presigned_creq m1 h1 p1 q1 = presigned_creq m2 h2 p2 q2"
    using presigned_creq_inj[OF that assms(10)] canonical_query_mset unfolding signed_params_def by blast
  show ?thesis unfolding Let_def using h c e by blast
qed

theorem presigned_signature_binds_witness:
  "let p = fst demo_signed; q = snd demo_signed; d = date_stamp 1700000000;
       c1 = presigned_creq ''GET'' ''s3.test'' p q; s1 = presigned_sts demo_crypto ''GET'' ''s3.test'' p q (amz_date 1700000000) d ''eu'';
       c2 = presigned_creq ''GET'' ''s3.test'' p (rev q); s2 = presigned_sts demo_crypto ''GET'' ''s3.test'' p (rev q) (amz_date 1700000000) d ''eu'';
       key = signing_key demo_crypto ''top'' d ''eu''
   in ''GET'' = ''GET'' \<and> ''s3.test'' = ''s3.test'' \<and> p = p \<and> mset (signed_params q) = mset (signed_params (rev q))
      \<or> c1 \<noteq> c2 \<and> cr_sha256 demo_crypto (str_bytes c1) = cr_sha256 demo_crypto (str_bytes c2)
      \<or> s1 \<noteq> s2 \<and> cr_hmac demo_crypto key (str_bytes s1) = cr_hmac demo_crypto key (str_bytes s2)"
  unfolding Let_def
proof (rule presigned_signature_binds[unfolded Let_def])
  let ?p = "fst demo_signed" and ?q = "snd demo_signed"
  show "verify_presigned demo_crypto ''GET'' ''s3.test'' ?p ?q demo_secret 1700000000 = Inr ''AK1''" by (rule demo_accepts) simp_all
  then show "verify_presigned demo_crypto ''GET'' ''s3.test'' ?p (rev ?q) demo_secret 1700000000 = Inr ''AK1''"
    using verify_presigned_perm[OF _ demo_params(3), of "rev ?q"] by simp
  show "split_char CHR ''/'' (''AK1/'' @ scope_of (date_stamp 1700000000) ''eu'') = [''AK1'', date_stamp 1700000000, ''eu'', SERVICE, AWS_REQUEST]"
    using cred_parts[of "''AK1''" "date_stamp 1700000000" "''eu''"] amz_date_ascii(4)[of 1700000000] by simp
  show "query_get ''X-Amz-Signature'' ?q = query_get ''X-Amz-Signature'' (rev ?q)"
    "query_get ''X-Amz-Credential'' (rev ?q) = Some (''AK1/'' @ scope_of (date_stamp 1700000000) ''eu'')"
    "query_get ''X-Amz-Date'' (rev ?q) = Some (amz_date 1700000000)"
    using query_get_perm[OF _ demo_params(3), of "rev ?q"] demo_params(1,2) by simp_all
qed (simp_all add: demo_params demo_secret_def)

end
