(* ===== verification/Obj_Cors.thy ===== *)
theory Obj_Cors
  imports Sig_V4
begin

text \<open>
  The CORS rules of a bucket, \<open>src/crates/jkbase-objectstore/src/cors.rs\<close>: the matching of origins, methods and headers
  that answers a browser's preflight and stamps a response, and the XML form of a configuration with its bounds. The
  lemmas show that a written configuration parses back and that the first matching rule decides.
\<close>

section \<open>Strings\<close>

text \<open>\<open>str::replace\<close> for a pattern that is not empty: matches from left to right, not overlapping.\<close>

function str_replace :: "string \<Rightarrow> string \<Rightarrow> string \<Rightarrow> string" where
  "str_replace p r [] = []"
| "str_replace p r (c # cs) =
     (if p \<noteq> [] \<and> starts_with p (c # cs) then r @ str_replace p r (drop (length p) (c # cs))
      else c # str_replace p r cs)"
  by pat_completeness auto
termination by (relation "measure (\<lambda>(p, r, s). length s)") auto

definition ascii_upper :: "char \<Rightarrow> char" where
  "ascii_upper c = (if (of_char c :: nat) \<in> {97..122} then char_of ((of_char c :: nat) - 32) else c)"

definition to_ascii_uppercase :: "string \<Rightarrow> string" where
  "to_ascii_uppercase s = map ascii_upper s"

definition eq_ignore_ascii_case :: "string \<Rightarrow> string \<Rightarrow> bool" where
  "eq_ignore_ascii_case a b \<longleftrightarrow> to_ascii_lowercase a = to_ascii_lowercase b"

text \<open>The text before the first occurrence of a pattern, and the text after it.\<close>

definition split_find :: "string \<Rightarrow> string \<Rightarrow> (string \<times> string) option" where
  "split_find p s = map_option (\<lambda>i. (take i s, drop (i + length p) s)) (str_find p s)"

lemma split_find_Some: "split_find p s = Some (a, b) \<Longrightarrow> s = a @ p @ b"
proof -
  have "str_find p s = Some i \<Longrightarrow> starts_with p (drop i s)" for i
  proof (induction s arbitrary: i)
    case (Cons c s)
    then show ?case by (auto split: if_splits)
  qed (auto simp: starts_with_iff split: if_splits)
  moreover assume h: "split_find p s = Some (a, b)"
  ultimately obtain i r where "a = take i s" "b = drop (i + length p) s" "drop i s = p @ r"
    by (auto simp: split_find_def starts_with_iff)
  then show "s = a @ p @ b" by (metis add.commute append_eq_conv_conj append_take_drop_id drop_drop)
qed

lemma split_find_length: "split_find p s = Some (a, b) \<Longrightarrow> length b \<le> length s - length p"
  by (drule split_find_Some) simp

section \<open>Matching\<close>

definition MAX_RULES :: nat where "MAX_RULES = 100"
definition MAX_LIST :: nat where "MAX_LIST = 100"
definition MAX_AGE_CEILING :: nat where "MAX_AGE_CEILING = 30 * 24 * 3600"
definition VALID_METHODS :: "string list" where "VALID_METHODS = [''GET'', ''PUT'', ''POST'', ''DELETE'', ''HEAD'']"

record preflight_grant =
  pf_allow_origin :: string
  pf_allow_methods :: string
  pf_allow_headers :: "string option"
  pf_max_age :: "nat option"
  pf_vary_origin :: bool

record actual_grant =
  ag_allow_origin :: string
  ag_expose_headers :: "string option"
  ag_vary_origin :: bool

definition origin_pattern_matches :: "string \<Rightarrow> string \<Rightarrow> bool" where
  "origin_pattern_matches pattern origin =
     (case split_once CHR ''*'' pattern of
        None \<Rightarrow> pattern = origin
      | Some (pre, post) \<Rightarrow>
          CHR ''*'' \<notin> set post \<and> length origin \<ge> length pre + length post \<and> starts_with pre origin \<and> ends_with post origin)"

definition wildcard_match_ci :: "string \<Rightarrow> string \<Rightarrow> bool" where
  "wildcard_match_ci pattern val =
     (case split_once CHR ''*'' pattern of
        None \<Rightarrow> eq_ignore_ascii_case pattern val
      | Some (pre, post) \<Rightarrow>
          CHR ''*'' \<notin> set post \<and> length val \<ge> length pre + length post
          \<and> eq_ignore_ascii_case (take (length pre) val) pre
          \<and> eq_ignore_ascii_case (drop (length val - length post) val) post)"

definition origin_grant :: "string \<Rightarrow> cors_rule \<Rightarrow> bool option" where
  "origin_grant origin rule =
     (let (star, matched) = foldl (\<lambda>(star, matched) pat.
            (if pat = ''*'' then (True, True)
             else if origin_pattern_matches pat origin then (star, True) else (star, matched)))
          (False, False) (allowed_origins rule)
      in if matched then Some star else None)"

definition header_allowed :: "cors_rule \<Rightarrow> string \<Rightarrow> bool" where
  "header_allowed rule h =
     (let h = str_trim h
      in list_ex (\<lambda>pat. let pat = str_trim pat in pat = ''*'' \<or> wildcard_match_ci pat h) (allowed_headers rule))"

definition method_allowed :: "cors_rule \<Rightarrow> string \<Rightarrow> bool" where
  "method_allowed rule m = list_ex (\<lambda>am. eq_ignore_ascii_case (str_trim am) m) (allowed_methods rule)"

fun match_preflight :: "cors_config \<Rightarrow> string \<Rightarrow> string \<Rightarrow> string list \<Rightarrow> preflight_grant option" where
  "match_preflight [] origin req_method req_headers = None"
| "match_preflight (rule # rules) origin req_method req_headers =
     (let m = to_ascii_uppercase (str_trim req_method)
      in case origin_grant origin rule of
           None \<Rightarrow> match_preflight rules origin req_method req_headers
         | Some star \<Rightarrow>
             (if \<not> method_allowed rule m then match_preflight rules origin req_method req_headers
              else if \<not> list_all (header_allowed rule) req_headers then match_preflight rules origin req_method req_headers
              else Some
                \<lparr>pf_allow_origin = (if star then ''*'' else origin),
                 pf_allow_methods = join '', '' (map (\<lambda>s. to_ascii_uppercase (str_trim s)) (allowed_methods rule)),
                 pf_allow_headers = (if req_headers = [] then None else Some (join '', '' req_headers)),
                 pf_max_age = max_age_seconds rule,
                 pf_vary_origin = (\<not> star)\<rparr>))"

fun match_actual :: "cors_config \<Rightarrow> string \<Rightarrow> string \<Rightarrow> actual_grant option" where
  "match_actual [] origin method = None"
| "match_actual (rule # rules) origin method =
     (let m = to_ascii_uppercase (str_trim method)
      in case origin_grant origin rule of
           None \<Rightarrow> match_actual rules origin method
         | Some star \<Rightarrow>
             (if \<not> method_allowed rule m then match_actual rules origin method
              else Some
                \<lparr>ag_allow_origin = (if star then ''*'' else origin),
                 ag_expose_headers = (if expose_headers rule = [] then None else Some (join '', '' (expose_headers rule))),
                 ag_vary_origin = (\<not> star)\<rparr>))"

section \<open>The XML form\<close>

definition xml_escape :: "string \<Rightarrow> string" where
  "xml_escape s =
     str_replace [CHR 0x22] ''&quot;'' (str_replace ''>'' ''&gt;'' (str_replace ''<'' ''&lt;'' (str_replace ''&'' ''&amp;'' s)))"

definition xml_unescape :: "string \<Rightarrow> string" where
  "xml_unescape s =
     str_replace ''&amp;'' ''&'' (str_replace ''&lt;'' ''<'' (str_replace ''&gt;'' ''>'' (str_replace ''&quot;'' [CHR 0x22] s)))"

definition open_tag :: "string \<Rightarrow> string" where "open_tag tag = ''<'' @ tag @ ''>''"
definition close_tag :: "string \<Rightarrow> string" where "close_tag tag = ''</'' @ tag @ ''>''"

function collect_tags :: "string \<Rightarrow> string \<Rightarrow> string list" where
  "collect_tags block tag =
     (case split_find (open_tag tag) block of
        None \<Rightarrow> []
      | Some (_, rst) \<Rightarrow>
          (case split_find (close_tag tag) rst of
             None \<Rightarrow> []
           | Some (inner, rst) \<Rightarrow>
               (let val = xml_unescape (str_trim inner)
                in (if val \<noteq> [] then [val] else []) @ collect_tags rst tag)))"
  by auto
termination
proof (relation "measure (\<lambda>(b, t). length b)")
  fix block tag x a rst y inner rst'
  assume "split_find (open_tag tag) block = Some x" "(a, rst) = x" "split_find (close_tag tag) rst = Some y" "(inner, rst') = y"
  then have "block = a @ open_tag tag @ rst" "rst = inner @ close_tag tag @ rst'" by (auto dest: split_find_Some)
  then show "((rst', tag), block, tag) \<in> measure (\<lambda>(b, t). length b)" by (simp add: open_tag_def)
qed simp

declare collect_tags.simps [simp del]

definition rule_of_block :: "string \<Rightarrow> cors_rule" where
  "rule_of_block block =
     \<lparr>allowed_origins = collect_tags block ''AllowedOrigin'',
      allowed_methods = collect_tags block ''AllowedMethod'',
      allowed_headers = collect_tags block ''AllowedHeader'',
      expose_headers = collect_tags block ''ExposeHeader'',
      max_age_seconds =
        (case collect_tags block ''MaxAgeSeconds'' of
           [] \<Rightarrow> None
         | s # _ \<Rightarrow> map_option (\<lambda>n. min n MAX_AGE_CEILING) (parse_uint 64 (str_trim s)))\<rparr>"

text \<open>The first method a rule may not name.\<close>

definition bad_method :: "string list \<Rightarrow> string option" where
  "bad_method ms = List.find (\<lambda>meth. to_ascii_uppercase (str_trim meth) \<notin> set VALID_METHODS) ms"

definition check_rule :: "cors_rule \<Rightarrow> string + unit" where
  "check_rule rule =
     (if allowed_origins rule = [] then Inl ''<CORSRule> requires at least one <AllowedOrigin>''
      else if allowed_methods rule = [] then Inl ''<CORSRule> requires at least one <AllowedMethod>''
      else (case bad_method (allowed_methods rule) of
        Some meth \<Rightarrow> Inl (''invalid <AllowedMethod>: '' @ meth)
      | None \<Rightarrow>
          (if length (allowed_origins rule) > MAX_LIST \<or> length (allowed_methods rule) > MAX_LIST
              \<or> length (allowed_headers rule) > MAX_LIST \<or> length (expose_headers rule) > MAX_LIST
           then Inl ''too many entries in a <CORSRule>''
           else Inr ())))"

function parse_rules :: "string \<Rightarrow> cors_config \<Rightarrow> string + cors_config" where
  "parse_rules rst rules =
     (case split_find ''<CORSRule>'' rst of
        None \<Rightarrow> Inr rules
      | Some (_, rst) \<Rightarrow>
          (case split_find ''</CORSRule>'' rst of
             None \<Rightarrow> Inl ''unterminated <CORSRule>''
           | Some (block, rst) \<Rightarrow>
               (let rule = rule_of_block block
                in case check_rule rule of
                     Inl e \<Rightarrow> Inl e
                   | Inr _ \<Rightarrow>
                       (let rules = rules @ [rule]
                        in if length rules > MAX_RULES then Inl ''too many <CORSRule> entries'' else parse_rules rst rules))))"
  by auto
termination
proof (relation "measure (\<lambda>(r, rs). length r)")
  fix r rules x a rst y block rst' rule z u w
  assume "split_find ''<CORSRule>'' r = Some x" "(a, rst) = x" "split_find ''</CORSRule>'' rst = Some y" "(block, rst') = y"
  then have "r = a @ ''<CORSRule>'' @ rst" "rst = block @ ''</CORSRule>'' @ rst'" by (auto dest!: split_find_Some)
  then show "((rst', w), r, rules) \<in> measure (\<lambda>(r, rs). length r)" by simp
qed simp

declare parse_rules.simps [simp del]

definition parse_cors_config_xml :: "string \<Rightarrow> string + cors_config" where
  "parse_cors_config_xml xml =
     (case parse_rules xml [] of
        Inl e \<Rightarrow> Inl e
      | Inr rules \<Rightarrow> if rules = [] then Inl ''CORSConfiguration requires at least one <CORSRule>'' else Inr rules)"

definition xml_element :: "string \<Rightarrow> string \<Rightarrow> string" where
  "xml_element tag v = open_tag tag @ v @ close_tag tag"

definition rule_to_xml :: "cors_rule \<Rightarrow> string" where
  "rule_to_xml r =
     ''<CORSRule>''
     @ concat (map (\<lambda>v. xml_element ''AllowedOrigin'' (xml_escape v)) (allowed_origins r))
     @ concat (map (\<lambda>v. xml_element ''AllowedMethod'' (xml_escape v)) (allowed_methods r))
     @ concat (map (\<lambda>v. xml_element ''AllowedHeader'' (xml_escape v)) (allowed_headers r))
     @ concat (map (\<lambda>v. xml_element ''ExposeHeader'' (xml_escape v)) (expose_headers r))
     @ (case max_age_seconds r of Some age \<Rightarrow> xml_element ''MaxAgeSeconds'' (show_nat age) | None \<Rightarrow> [])
     @ ''</CORSRule>''"

definition XML_DECL :: string where
  "XML_DECL = ''<?xml version='' @ [CHR 0x22] @ ''1.0'' @ [CHR 0x22] @ '' encoding='' @ [CHR 0x22] @ ''UTF-8'' @ [CHR 0x22] @ ''?>''"

definition XML_NS :: string where
  "XML_NS = '' xmlns='' @ [CHR 0x22] @ ''http://s3.amazonaws.com/doc/2006-03-01/'' @ [CHR 0x22] @ ''>''"

definition cors_config_to_xml :: "cors_config \<Rightarrow> string" where
  "cors_config_to_xml cfg = XML_DECL @ ''<CORSConfiguration'' @ XML_NS @ concat (map rule_to_xml cfg) @ ''</CORSConfiguration>''"

section \<open>Escaping\<close>

definition esc :: "char set \<Rightarrow> char \<Rightarrow> string" where
  "esc S c = (if c \<notin> S then [c] else if c = CHR ''&'' then ''&amp;'' else if c = CHR ''<'' then ''&lt;''
              else if c = CHR ''>'' then ''&gt;'' else if c = CHR 0x22 then ''&quot;'' else [c])"

lemma str_replace_char: "str_replace [x] r s = concat (map (\<lambda>c. if c = x then r else [c]) s)"
  by (induction s) (auto simp: starts_with_def)

lemma xml_escape_concat: "xml_escape s = concat (map (esc {CHR ''&'', CHR ''<'', CHR ''>'', CHR 0x22}) s)"
  unfolding xml_escape_def str_replace_char by (induction s) (auto simp: esc_def)

lemma replace_quot:
  "str_replace ''&quot;'' [CHR 0x22] (concat (map (esc {CHR ''&'', CHR ''<'', CHR ''>'', CHR 0x22}) s))
   = concat (map (esc {CHR ''&'', CHR ''<'', CHR ''>''}) s)"
  by (induction s) (auto simp: esc_def starts_with_def)

lemma replace_gt:
  "str_replace ''&gt;'' ''>'' (concat (map (esc {CHR ''&'', CHR ''<'', CHR ''>''}) s)) = concat (map (esc {CHR ''&'', CHR ''<''}) s)"
  by (induction s) (auto simp: esc_def starts_with_def)

lemma replace_lt:
  "str_replace ''&lt;'' ''<'' (concat (map (esc {CHR ''&'', CHR ''<''}) s)) = concat (map (esc {CHR ''&''}) s)"
  by (induction s) (auto simp: esc_def starts_with_def)

lemma replace_amp: "str_replace ''&amp;'' ''&'' (concat (map (esc {CHR ''&''}) s)) = s"
  by (induction s) (auto simp: esc_def starts_with_def)

lemma xml_unescape_escape: "xml_unescape (xml_escape s) = s"
  by (simp add: xml_unescape_def xml_escape_concat replace_quot replace_gt replace_lt replace_amp)

lemma xml_escape_no_lt: "CHR ''<'' \<notin> set (xml_escape s)"
  unfolding xml_escape_concat by (auto simp: esc_def split: if_splits)

lemma str_replace_absent: "x \<notin> set s \<Longrightarrow> str_replace (x # p) r s = s"
  by (induction s) (auto simp: starts_with_def)

lemma xml_unescape_digits: "list_all is_ascii_digit s \<Longrightarrow> xml_unescape s = s"
proof -
  assume "list_all is_ascii_digit s"
  then have "CHR ''&'' \<notin> set s" by (auto simp: list_all_iff is_ascii_digit_def)
  then show ?thesis by (simp add: xml_unescape_def str_replace_absent)
qed

text \<open>A string that trimming leaves alone.\<close>

definition trimmed :: "string \<Rightarrow> bool" where
  "trimmed s \<longleftrightarrow> s \<noteq> [] \<and> \<not> is_whitespace (hd s) \<and> \<not> is_whitespace (last s)"

lemma trimmed_trim: "trimmed s \<Longrightarrow> str_trim s = s"
proof -
  assume t: "trimmed s"
  then have "trim_start s = s" by (cases s) (auto simp: trimmed_def trim_start_def)
  moreover have "trim_end s = s" using t by (cases s rule: rev_cases) (auto simp: trimmed_def trim_end_def)
  ultimately show ?thesis by (simp add: str_trim_def)
qed

lemma trim_trimmed: "str_trim s \<noteq> [] \<Longrightarrow> trimmed (str_trim s)"
proof -
  assume n: "str_trim s \<noteq> []"
  let ?t = "trim_start s" and ?u = "dropWhile is_whitespace (rev (trim_start s))"
  have t: "?t \<noteq> []" using n by (auto simp: str_trim_def trim_end_def)
  have h: "\<not> is_whitespace (hd ?t)" using t unfolding trim_start_def by (rule hd_dropWhile)
  have u: "?u \<noteq> []" using n by (auto simp: str_trim_def trim_end_def)
  obtain z where "rev ?t = z @ ?u" by (metis takeWhile_dropWhile_id)
  then have "?t = rev ?u @ rev z" by (metis rev_append rev_rev_ident)
  then have "hd (rev ?u) = hd ?t" using u by (metis hd_append2 rev_is_Nil_conv)
  moreover have "last (rev ?u) = hd ?u" using u by (simp add: last_rev)
  ultimately show ?thesis using h hd_dropWhile[OF u] u unfolding trimmed_def str_trim_def trim_end_def by simp
qed

lemma replace_trimmed:
  assumes "p \<noteq> []" "r \<noteq> []" "\<not> is_whitespace (hd r)" "\<not> is_whitespace (last r)" "trimmed s"
  shows "trimmed (str_replace p r s)"
proof -
  have n: "str_replace p r u \<noteq> [] \<longleftrightarrow> u \<noteq> []" for u using assms(2) by (cases u) auto
  have l: "u \<noteq> [] \<Longrightarrow> \<not> is_whitespace (last u) \<Longrightarrow> \<not> is_whitespace (last (str_replace p r u))" for u
  proof (induction "length u" arbitrary: u rule: less_induct)
    case less
    obtain c cs where u: "u = c # cs" using less.prems(1) by (cases u) auto
    show ?case
    proof (cases "starts_with p u")
      case True
      let ?d = "drop (length p) u"
      have "\<not> is_whitespace (last (str_replace p r ?d))" if "?d \<noteq> []"
        using that less.prems less.hyps[of ?d] assms(1) u by (simp add: last_drop)
      then show ?thesis using True assms(1,2,4) n[of ?d] u by (cases "?d = []") simp_all
    next
      case False
      then show ?thesis using less u n[of cs] by (cases "cs = []") simp_all
    qed
  qed
  obtain c cs where s: "s = c # cs" using assms(5) by (cases s) (auto simp: trimmed_def)
  show ?thesis using assms(2,3,5) n[of s] l[of s] unfolding s by (auto simp: trimmed_def)
qed

lemma xml_unescape_trimmed: "trimmed s \<Longrightarrow> trimmed (xml_unescape s)"
  unfolding xml_unescape_def by (intro replace_trimmed) (auto simp: is_whitespace_def)

lemma xml_escape_trimmed: "trimmed s \<Longrightarrow> trimmed (xml_escape s)"
  unfolding xml_escape_def by (intro replace_trimmed) (auto simp: is_whitespace_def)

section \<open>Scanning\<close>

lemma split_find_hit: "split_find p (p @ s) = Some ([], s)"
proof -
  have "str_find p (p @ s) = Some 0" by (cases "p @ s") (auto simp: starts_with_iff intro: exI[of _ s])
  then show ?thesis by (simp add: split_find_def)
qed

lemma split_find_cons: "\<not> starts_with p (c # s) \<Longrightarrow> split_find p (c # s) = map_option (\<lambda>(x, y). (c # x, y)) (split_find p s)"
  by (cases "str_find p s") (simp_all add: split_find_def)

lemma split_find_skip:
  "x \<notin> set a \<Longrightarrow> split_find (x # p) (a @ s) = map_option (\<lambda>(u, v). (a @ u, v)) (split_find (x # p) s)"
proof (induction a)
  case (Cons c a)
  then have "\<not> starts_with (x # p) (c # a @ s)" by (auto simp: starts_with_iff)
  then show ?case using Cons by (simp add: split_find_cons option.map_comp o_def case_prod_beta')
qed (simp add: option.map_ident case_prod_unfold)

text \<open>A tag is a name without brackets and slashes.\<close>

definition tag_name :: "string \<Rightarrow> bool" where
  "tag_name t \<longleftrightarrow> t \<noteq> [] \<and> CHR ''<'' \<notin> set t \<and> CHR ''>'' \<notin> set t \<and> CHR ''/'' \<notin> set t"

lemma tag_differs: "CHR ''>'' \<notin> set t \<Longrightarrow> CHR ''>'' \<notin> set u \<Longrightarrow> t @ ''>'' @ r = u @ ''>'' @ s \<Longrightarrow> t = u"
  by (metis append_Cons append_Nil split_once_Some_iff option.inject prod.inject)

text \<open>Looking for a tag passes over the elements of other tags.\<close>

lemma skip_element:
  assumes "tag_name t" "tag_name u" "t \<noteq> u" "CHR ''<'' \<notin> set v"
  shows "split_find (open_tag u) (xml_element t v @ s) = map_option (\<lambda>(a, b). (xml_element t v @ a, b)) (split_find (open_tag u) s)"
    and "split_find (close_tag u) (xml_element t v @ s) = map_option (\<lambda>(a, b). (xml_element t v @ a, b)) (split_find (close_tag u) s)"
proof -
  have n: "CHR ''>'' \<notin> set t" "CHR ''>'' \<notin> set u" "CHR ''<'' \<notin> set (t @ ''>'' @ v)" "CHR ''<'' \<notin> set (''/'' @ t @ ''>'')"
    "t \<noteq> []" "u \<noteq> []" "hd t \<noteq> CHR ''/''" "hd u \<noteq> CHR ''/''"
    using assms by (auto simp: tag_name_def) (metis list.set_sel(1))+
  have d: "\<not> starts_with (open_tag u) (''<'' @ t @ ''>'' @ r)" "\<not> starts_with (close_tag u) (''</'' @ t @ ''>'' @ r)" for r
    using tag_differs[OF n(1,2)] assms(3) by (auto simp: starts_with_iff open_tag_def close_tag_def)
  have e: "\<not> starts_with (open_tag u) (''</'' @ r)" "\<not> starts_with (close_tag u) (''<'' @ t @ r)" for r
    using n(5-8) by (auto simp: starts_with_iff open_tag_def close_tag_def neq_Nil_conv)
  note f = split_find_skip[OF n(3), of "u @ ''>''"] split_find_skip[OF n(3), of "''/'' @ u @ ''>''"]
    split_find_skip[OF n(4), of "u @ ''>''"] split_find_skip[OF n(4), of "''/'' @ u @ ''>''"]
  show "split_find (open_tag u) (xml_element t v @ s) = map_option (\<lambda>(a, b). (xml_element t v @ a, b)) (split_find (open_tag u) s)"
    using d(1)[of "v @ close_tag t @ s"] e(1)[of "t @ ''>'' @ s"] f(1)[of "''</'' @ t @ ''>'' @ s"] f(3)[of s]
    by (simp add: xml_element_def open_tag_def close_tag_def split_find_cons option.map_comp o_def case_prod_beta')
  show "split_find (close_tag u) (xml_element t v @ s) = map_option (\<lambda>(a, b). (xml_element t v @ a, b)) (split_find (close_tag u) s)"
    using d(2)[of s] e(2)[of "''>'' @ v @ close_tag t @ s"] f(2)[of "''</'' @ t @ ''>'' @ s"] f(4)[of s]
    by (simp add: xml_element_def open_tag_def close_tag_def split_find_cons option.map_comp o_def case_prod_beta')
qed

section \<open>A configuration reads back\<close>

definition items_xml :: "(string \<times> string) list \<Rightarrow> string" where
  "items_xml its = concat (map (\<lambda>(t, v). xml_element t v) its)"

definition items_ok :: "(string \<times> string) list \<Rightarrow> bool" where
  "items_ok its \<longleftrightarrow> list_all (\<lambda>(t, v). tag_name t \<and> CHR ''<'' \<notin> set v) its"

lemma collect_items:
  "items_ok its \<Longrightarrow> tag_name u \<Longrightarrow>
     collect_tags (items_xml its) u = filter (\<lambda>v. v \<noteq> []) (map (\<lambda>(t, v). xml_unescape (str_trim v)) (filter (\<lambda>(t, v). t = u) its))"
proof (induction its)
  case Nil
  show ?case by (simp add: collect_tags.simps items_xml_def split_find_def open_tag_def)
next
  case (Cons it its)
  obtain t v where it: "it = (t, v)" by (cases it)
  have p: "tag_name t" "CHR ''<'' \<notin> set v" "items_ok its" using Cons.prems(1) it by (simp_all add: items_ok_def)
  have x: "items_xml (it # its) = xml_element t v @ items_xml its" by (simp add: items_xml_def it)
  show ?case
  proof (cases "t = u")
    case True
    have f: "split_find (open_tag u) (xml_element t v @ items_xml its) = Some ([], v @ close_tag u @ items_xml its)"
      using split_find_hit[of "open_tag u" "v @ close_tag u @ items_xml its"] True by (simp add: xml_element_def)
    have g: "split_find (close_tag u) (v @ close_tag u @ items_xml its) = Some (v, items_xml its)"
      using split_find_skip[OF p(2), of "''/'' @ u @ ''>''" "close_tag u @ items_xml its"] split_find_hit[of "close_tag u" "items_xml its"]
      by (simp add: close_tag_def)
    show ?thesis unfolding x collect_tags.simps[of "xml_element t v @ _"] f using g Cons.IH[OF p(3) Cons.prems(2)] True it by simp
  next
    case False
    note s = skip_element(1)[OF p(1) Cons.prems(2) False p(2), of "items_xml its"]
    have "collect_tags (xml_element t v @ items_xml its) u = collect_tags (items_xml its) u"
      unfolding collect_tags.simps[of "xml_element t v @ _"] collect_tags.simps[of "items_xml its"] s
      by (cases "split_find (open_tag u) (items_xml its)") (simp_all add: case_prod_beta')
    then show ?thesis using Cons.IH[OF p(3) Cons.prems(2)] False it x by simp
  qed
qed

lemma skip_items:
  "items_ok its \<Longrightarrow> tag_name u \<Longrightarrow> u \<notin> fst ` set its \<Longrightarrow>
     split_find (close_tag u) (items_xml its @ s) = map_option (\<lambda>(a, b). (items_xml its @ a, b)) (split_find (close_tag u) s)"
proof (induction its)
  case Nil
  show ?case by (simp add: items_xml_def case_prod_unfold option.map_ident)
next
  case (Cons it its)
  obtain t v where it: "it = (t, v)" by (cases it)
  have p: "tag_name t" "CHR ''<'' \<notin> set v" "items_ok its" "t \<noteq> u" "u \<notin> fst ` set its" using Cons.prems it by (auto simp: items_ok_def)
  have x: "items_xml (it # its) = xml_element t v @ items_xml its" by (simp add: items_xml_def it)
  show ?case
    using skip_element(2)[OF p(1) Cons.prems(2) p(4,2), of "items_xml its @ s"] Cons.IH[OF p(3) Cons.prems(2) p(5)]
    unfolding x by (simp add: option.map_comp o_def case_prod_beta')
qed

text \<open>The bounds of a rule and of a configuration.\<close>

definition rule_ok :: "cors_rule \<Rightarrow> bool" where
  "rule_ok r \<longleftrightarrow>
     allowed_origins r \<noteq> [] \<and> allowed_methods r \<noteq> []
     \<and> list_all (\<lambda>m. to_ascii_uppercase m \<in> {''GET'', ''PUT'', ''POST'', ''DELETE'', ''HEAD''}) (allowed_methods r)
     \<and> list_all (\<lambda>l. length l \<le> 100) [allowed_origins r, allowed_methods r, allowed_headers r, expose_headers r]
     \<and> list_all trimmed (allowed_origins r @ allowed_methods r @ allowed_headers r @ expose_headers r)
     \<and> pred_option (\<lambda>n. n \<le> 2592000) (max_age_seconds r)"

text \<open>They are what \<open>parse_cors_config_xml\<close> checks.\<close>

lemma rule_ok_iff:
  "rule_ok r \<longleftrightarrow> check_rule r = Inr ()
     \<and> list_all trimmed (allowed_origins r @ allowed_methods r @ allowed_headers r @ expose_headers r)
     \<and> pred_option (\<lambda>n. n \<le> MAX_AGE_CEILING) (max_age_seconds r)"
proof -
  have "bad_method ms = None \<longleftrightarrow> list_all (\<lambda>m. to_ascii_uppercase m \<in> {''GET'', ''PUT'', ''POST'', ''DELETE'', ''HEAD''}) ms"
    if "list_all trimmed ms" for ms
    using that by (auto simp: bad_method_def find_None_iff list_all_iff VALID_METHODS_def trimmed_trim)
  note b = this[of "allowed_methods r"]
  have "check_rule r = Inr () \<longleftrightarrow> allowed_origins r \<noteq> [] \<and> allowed_methods r \<noteq> [] \<and> bad_method (allowed_methods r) = None
      \<and> list_all (\<lambda>l. length l \<le> 100) [allowed_origins r, allowed_methods r, allowed_headers r, expose_headers r]"
    by (auto simp: check_rule_def MAX_LIST_def split: option.splits if_splits)
  then show ?thesis using b by (auto simp: rule_ok_def MAX_AGE_CEILING_def)
qed

definition cors_ok :: "cors_config \<Rightarrow> bool" where
  "cors_ok cfg \<longleftrightarrow> cfg \<noteq> [] \<and> length cfg \<le> MAX_RULES \<and> list_all rule_ok cfg"

definition rule_items :: "cors_rule \<Rightarrow> (string \<times> string) list" where
  "rule_items r =
     map (\<lambda>v. (''AllowedOrigin'', xml_escape v)) (allowed_origins r) @ map (\<lambda>v. (''AllowedMethod'', xml_escape v)) (allowed_methods r)
     @ map (\<lambda>v. (''AllowedHeader'', xml_escape v)) (allowed_headers r) @ map (\<lambda>v. (''ExposeHeader'', xml_escape v)) (expose_headers r)
     @ (case max_age_seconds r of Some age \<Rightarrow> [(''MaxAgeSeconds'', show_nat age)] | None \<Rightarrow> [])"

lemma rule_to_xml_items: "rule_to_xml r = ''<CORSRule>'' @ items_xml (rule_items r) @ ''</CORSRule>''"
  by (simp add: rule_to_xml_def items_xml_def rule_items_def o_def split: option.split)

lemma tag_names:
  "tag_name ''AllowedOrigin''" "tag_name ''AllowedMethod''" "tag_name ''AllowedHeader''" "tag_name ''ExposeHeader''" "tag_name ''MaxAgeSeconds''"
  "tag_name ''CORSRule''"
  by (simp_all add: tag_name_def)

lemma show_nat_clean: "CHR ''<'' \<notin> set (show_nat n)" "trimmed (show_nat n)"
proof -
  have d: "\<forall>c \<in> set (show_nat n). is_ascii_digit c" using show_nat_digits by (simp add: list_all_iff)
  then show "CHR ''<'' \<notin> set (show_nat n)" by (auto simp: is_ascii_digit_def)
  have "\<forall>c. is_ascii_digit c \<longrightarrow> \<not> is_whitespace c" by (auto simp: is_ascii_digit_def is_whitespace_def)
  then show "trimmed (show_nat n)" using d show_nat_digits by (simp add: trimmed_def)
qed

lemma rule_items_ok: "items_ok (rule_items r)" "''CORSRule'' \<notin> fst ` set (rule_items r)"
  using tag_names xml_escape_no_lt show_nat_clean(1) by (auto simp: items_ok_def rule_items_def list_all_iff split: option.splits)

lemma collected:
  "list_all trimmed vs \<Longrightarrow> filter (\<lambda>v. v \<noteq> []) (map (\<lambda>v. xml_unescape (str_trim (xml_escape v))) vs) = vs"
  by (induction vs) (auto simp: trimmed_trim xml_escape_trimmed xml_unescape_escape, auto simp: trimmed_def)

lemma rule_of_items: "rule_ok r \<Longrightarrow> rule_of_block (items_xml (rule_items r)) = r"
proof -
  assume ok: "rule_ok r"
  then have t: "list_all trimmed (allowed_origins r)" "list_all trimmed (allowed_methods r)" "list_all trimmed (allowed_headers r)"
    "list_all trimmed (expose_headers r)" by (simp_all add: rule_ok_iff)
  have f: "filter (\<lambda>(t, v). t = u) (map (\<lambda>v. (w, g v)) vs) = (if w = u then map (\<lambda>v. (w, g v)) vs else [])" for u w and g :: "string \<Rightarrow> string" and vs
    by (induction vs) auto
  note c = collect_items[OF rule_items_ok(1)[of r]]
  have o: "collect_tags (items_xml (rule_items r)) ''AllowedOrigin'' = allowed_origins r"
    "collect_tags (items_xml (rule_items r)) ''AllowedMethod'' = allowed_methods r"
    "collect_tags (items_xml (rule_items r)) ''AllowedHeader'' = allowed_headers r"
    "collect_tags (items_xml (rule_items r)) ''ExposeHeader'' = expose_headers r"
    using c[OF tag_names(1)] c[OF tag_names(2)] c[OF tag_names(3)] c[OF tag_names(4)] t
    by (cases "max_age_seconds r"; simp add: rule_items_def f o_def collected)+
  have a: "collect_tags (items_xml (rule_items r)) ''MaxAgeSeconds'' = (case max_age_seconds r of Some n \<Rightarrow> [show_nat n] | None \<Rightarrow> [])"
    using c[OF tag_names(5)] show_nat_clean(2) show_nat_digits
    by (cases "max_age_seconds r") (simp_all add: rule_items_def f o_def trimmed_trim xml_unescape_digits)
  have "parse_uint 64 (str_trim (show_nat n)) = Some n" if "n \<le> MAX_AGE_CEILING" for n
    using that by (simp add: trimmed_trim show_nat_clean(2) parse_uint_show_nat MAX_AGE_CEILING_def)
  then have m: "(case collect_tags (items_xml (rule_items r)) ''MaxAgeSeconds'' of [] \<Rightarrow> None
      | s # _ \<Rightarrow> map_option (\<lambda>n. min n MAX_AGE_CEILING) (parse_uint 64 (str_trim s))) = max_age_seconds r"
    using ok unfolding a by (cases "max_age_seconds r") (simp_all add: rule_ok_iff)
  show ?thesis unfolding rule_of_block_def o m by simp
qed

lemma parse_rules_xml:
  "list_all rule_ok cfg \<Longrightarrow> length acc + length cfg \<le> MAX_RULES \<Longrightarrow>
     parse_rules (concat (map rule_to_xml cfg) @ ''</CORSConfiguration>'') acc = Inr (acc @ cfg)"
proof (induction cfg arbitrary: acc)
  case Nil
  show ?case by (simp add: parse_rules.simps split_find_def starts_with_def)
next
  case (Cons r cfg)
  let ?rest = "concat (map rule_to_xml cfg) @ ''</CORSConfiguration>''"
  have f: "split_find ''<CORSRule>'' (concat (map rule_to_xml (r # cfg)) @ ''</CORSConfiguration>'') = Some ([], items_xml (rule_items r) @ ''</CORSRule>'' @ ?rest)"
    using split_find_hit[of "''<CORSRule>''" "items_xml (rule_items r) @ ''</CORSRule>'' @ ?rest"] by (simp add: rule_to_xml_items)
  have g: "split_find ''</CORSRule>'' (items_xml (rule_items r) @ ''</CORSRule>'' @ ?rest) = Some (items_xml (rule_items r), ?rest)"
    using skip_items[OF rule_items_ok(1) tag_names(6) rule_items_ok(2), of r "''</CORSRule>'' @ ?rest"] split_find_hit[of "''</CORSRule>''" ?rest]
    by (simp add: close_tag_def)
  have k: "rule_of_block (items_xml (rule_items r)) = r" "check_rule r = Inr ()" using Cons.prems(1) by (simp_all add: rule_of_items rule_ok_iff)
  have "parse_rules (concat (map rule_to_xml (r # cfg)) @ ''</CORSConfiguration>'') acc = parse_rules ?rest (acc @ [r])"
    unfolding parse_rules.simps[of "concat (map rule_to_xml (r # cfg)) @ _"] f using g k Cons.prems(2) by simp
  also have "\<dots> = Inr ((acc @ [r]) @ cfg)" using Cons.prems by (intro Cons.IH) simp_all
  finally show ?case by simp
qed

lemma parse_cors_xml: "cors_ok cfg \<Longrightarrow> parse_cors_config_xml (cors_config_to_xml cfg) = Inr cfg"
proof -
  assume ok: "cors_ok cfg"
  let ?r = "concat (map rule_to_xml cfg) @ ''</CORSConfiguration>''"
  have "split_find ''<CORSRule>'' (cors_config_to_xml cfg) = map_option (\<lambda>(a, b). (XML_DECL @ ''<CORSConfiguration'' @ XML_NS @ a, b)) (split_find ''<CORSRule>'' ?r)"
    unfolding cors_config_to_xml_def XML_DECL_def XML_NS_def
    by (simp add: split_find_cons starts_with_def option.map_comp o_def case_prod_beta')
  then have "parse_rules (cors_config_to_xml cfg) [] = parse_rules ?r []"
    unfolding parse_rules.simps[of "cors_config_to_xml cfg"] parse_rules.simps[of ?r]
    by (cases "split_find ''<CORSRule>'' ?r") (simp_all add: case_prod_beta')
  then show ?thesis using parse_rules_xml[of cfg "[]"] ok by (simp add: parse_cors_config_xml_def cors_ok_def)
qed

lemma collect_tags_trimmed: "list_all trimmed (collect_tags block tag)"
proof (induction block tag rule: collect_tags.induct)
  case (1 block tag)
  have v: "trimmed (xml_unescape (str_trim s))" if "xml_unescape (str_trim s) \<noteq> []" for s
  proof -
    have "str_trim s \<noteq> []" using that by (auto simp: xml_unescape_def)
    then show ?thesis by (simp add: trim_trimmed xml_unescape_trimmed)
  qed
  show ?case
  proof (cases "split_find (open_tag tag) block")
    case None
    then show ?thesis by (simp add: collect_tags.simps)
  next
    case s1: (Some p)
    obtain a rst where p: "p = (a, rst)" by (cases p)
    show ?thesis
    proof (cases "split_find (close_tag tag) rst")
      case None
      then show ?thesis using s1 p by (simp add: collect_tags.simps)
    next
      case s2: (Some q)
      obtain inner rst' where q: "q = (inner, rst')" by (cases q)
      have "list_all trimmed (collect_tags rst' tag)" by (rule 1) (use s1 s2 p q in auto)
      then show ?thesis using s1 s2 p q v[of inner] by (simp add: collect_tags.simps[of block] Let_def)
    qed
  qed
qed

lemma rule_of_block_ok: "check_rule (rule_of_block block) = Inr () \<Longrightarrow> rule_ok (rule_of_block block)"
  using collect_tags_trimmed by (simp add: rule_ok_iff rule_of_block_def pred_option_def split: list.split) auto

lemma parse_rules_ok:
  "list_all rule_ok acc \<Longrightarrow> length acc \<le> MAX_RULES \<Longrightarrow> parse_rules s acc = Inr cfg \<Longrightarrow> list_all rule_ok cfg \<and> length cfg \<le> MAX_RULES"
proof (induction s acc rule: parse_rules.induct)
  case (1 s acc)
  show ?case
  proof (cases "split_find ''<CORSRule>'' s")
    case None
    then show ?thesis using "1.prems" by (simp add: parse_rules.simps[of s])
  next
    case s1: (Some p)
    obtain a rst where p: "p = (a, rst)" by (cases p)
    obtain block rst' where s2: "split_find ''</CORSRule>'' rst = Some (block, rst')"
      using "1.prems"(3) s1 p unfolding parse_rules.simps[of s] by (simp split: option.splits) (metis surj_pair)
    have c: "check_rule (rule_of_block block) = Inr ()" and l: "length (acc @ [rule_of_block block]) \<le> MAX_RULES"
      and r: "parse_rules rst' (acc @ [rule_of_block block]) = Inr cfg"
      using "1.prems"(3) s1 p s2 unfolding parse_rules.simps[of s] by (simp_all add: Let_def split: sum.splits if_splits)
    show ?thesis
      by (rule "1.IH"[OF s1 p[symmetric] s2 refl refl c refl _ _ l r]) (use "1.prems"(1) rule_of_block_ok[OF c] l in simp_all)
  qed
qed

section \<open>Properties\<close>

text \<open>
  C21. What \<open>PutBucketCors\<close> accepts is within bounds - between one and a hundred rules, each with an origin and a method, only
  the methods S3 knows, at most a hundred entries per list, an age of at most thirty days - and it reads back: the XML
  that \<open>GetBucketCors\<close> writes for it parses to the same configuration, whatever characters its entries hold.
\<close>

theorem cors_config_roundtrip:
  assumes "parse_cors_config_xml xml = Inr cfg"
  shows "cors_ok cfg \<and> parse_cors_config_xml (cors_config_to_xml cfg) = Inr cfg"
proof -
  have "cors_ok cfg" using assms parse_rules_ok[of "[]" xml] by (auto simp: parse_cors_config_xml_def cors_ok_def split: sum.splits if_splits)
  then show ?thesis using parse_cors_xml by blast
qed

definition demo_cors :: cors_config where
  "demo_cors = [\<lparr>allowed_origins = [''https://*.a&b'', ''<x>''], allowed_methods = [''GET'', ''PUT''], allowed_headers = [''*''], expose_headers = [], max_age_seconds = Some 60\<rparr>]"

lemma demo_cors_accepted: "parse_cors_config_xml (cors_config_to_xml demo_cors) = Inr demo_cors"
proof (rule parse_cors_xml)
  show "cors_ok demo_cors"
    by (simp add: cors_ok_def rule_ok_def demo_cors_def check_rule_def bad_method_def VALID_METHODS_def to_ascii_uppercase_def
      ascii_upper_def str_trim_def trim_start_def trim_end_def is_whitespace_def trimmed_def MAX_RULES_def MAX_LIST_def MAX_AGE_CEILING_def)
qed

theorem cors_config_roundtrip_witness:
  "parse_cors_config_xml (cors_config_to_xml demo_cors) = Inr demo_cors \<and> cors_ok demo_cors"
  using cors_config_roundtrip[OF demo_cors_accepted] by blast

text \<open>An origin an entry admits: the origin itself, or what is between the two halves of an entry with one star.\<close>

definition origin_admitted :: "string \<Rightarrow> string \<Rightarrow> bool" where
  "origin_admitted pat origin \<longleftrightarrow>
     (CHR ''*'' \<notin> set pat \<and> pat = origin)
     \<or> (\<exists>pre mid post. pat = pre @ ''*'' @ post \<and> CHR ''*'' \<notin> set pre \<and> CHR ''*'' \<notin> set post \<and> origin = pre @ mid @ post)"

lemma origin_pattern_matches_iff: "origin_pattern_matches pat origin \<longleftrightarrow> origin_admitted pat origin"
proof (cases "split_once CHR ''*'' pat")
  case None
  then have "CHR ''*'' \<notin> set pat" by (simp add: split_once_None_iff)
  then show ?thesis unfolding origin_pattern_matches_def origin_admitted_def None by auto
next
  case (Some q)
  obtain pre post where q: "q = (pre, post)" by (cases q)
  have s: "pat = pre @ ''*'' @ post" "CHR ''*'' \<notin> set pre" using Some q by (simp_all add: split_once_Some_iff)
  have u: "pre' = pre \<and> post' = post" if "pat = pre' @ ''*'' @ post'" "CHR ''*'' \<notin> set pre'" for pre' post'
    using that split_once_Some_iff[of "CHR ''*''" pat pre' post'] Some q by simp
  have m: "length origin \<ge> length pre + length post \<and> starts_with pre origin \<and> ends_with post origin \<longleftrightarrow> (\<exists>mid. origin = pre @ mid @ post)"
  proof
    assume h: "length origin \<ge> length pre + length post \<and> starts_with pre origin \<and> ends_with post origin"
    then obtain a b where o: "origin = pre @ a" "origin = b @ post" unfolding starts_with_iff ends_with_iff by blast
    then have "take (length pre) b = pre" using h by (metis add_le_cancel_right append_eq_conv_conj length_append take_append take_all_iff append_Nil2 diff_is_0_eq' take_0)
    then have "origin = pre @ drop (length pre) b @ post" using o(2) by (metis append.assoc append_take_drop_id)
    then show "\<exists>mid. origin = pre @ mid @ post" by blast
  qed (auto simp: starts_with_iff ends_with_iff)
  have "CHR ''*'' \<in> set pat" using s(1) by simp
  then have "origin_admitted pat origin \<longleftrightarrow> CHR ''*'' \<notin> set post \<and> (\<exists>mid. origin = pre @ mid @ post)"
    unfolding origin_admitted_def using u s by blast
  then show ?thesis unfolding origin_pattern_matches_def Some q option.case prod.case m by blast
qed

lemma origin_grant_iff:
  "origin_grant origin rule =
     (if \<exists>pat \<in> set (allowed_origins rule). pat = ''*'' \<or> origin_admitted pat origin
      then Some (''*'' \<in> set (allowed_origins rule)) else None)"
proof -
  have "foldl (\<lambda>(star, matched) pat. (if pat = ''*'' then (True, True)
            else if origin_pattern_matches pat origin then (star, True) else (star, matched))) (s, m) ps
        = (s \<or> ''*'' \<in> set ps, m \<or> (\<exists>pat \<in> set ps. pat = ''*'' \<or> origin_admitted pat origin))" for s m ps
    by (induction ps arbitrary: s m) (auto simp: origin_pattern_matches_iff)
  then show ?thesis by (simp add: origin_grant_def)
qed

text \<open>The rule that answers a preflight.\<close>

definition rule_admits :: "string \<Rightarrow> string \<Rightarrow> string list \<Rightarrow> cors_rule \<Rightarrow> bool" where
  "rule_admits origin m hs rule \<longleftrightarrow>
     (\<exists>pat \<in> set (allowed_origins rule). pat = ''*'' \<or> origin_admitted pat origin)
     \<and> method_allowed rule (to_ascii_uppercase (str_trim m)) \<and> list_all (header_allowed rule) hs"

text \<open>
  A preflight is granted exactly when some rule admits its origin, its method and every header it asks for, and it is
  the first such rule that decides the answer: the origin is echoed, or a star if and only if that rule lists a bare star.
\<close>

theorem preflight_decided_by_first_rule:
  "match_preflight cfg origin m hs =
     map_option (\<lambda>rule.
       \<lparr>pf_allow_origin = (if ''*'' \<in> set (allowed_origins rule) then ''*'' else origin),
        pf_allow_methods = join '', '' (map (\<lambda>s. to_ascii_uppercase (str_trim s)) (allowed_methods rule)),
        pf_allow_headers = (if hs = [] then None else Some (join '', '' hs)),
        pf_max_age = max_age_seconds rule,
        pf_vary_origin = (''*'' \<notin> set (allowed_origins rule))\<rparr>)
       (List.find (rule_admits origin m hs) cfg)"
  by (induction cfg) (auto simp: origin_grant_iff rule_admits_def Let_def)

end
