(* ===== verification/Obj_Http.thy ===== *)
theory Obj_Http
  imports Obj_Cors Obj_Store_Ops
begin

text \<open>
  The S3 surface of the object store, \<open>src/crates/jkbase-objectstore/src/http.rs\<close>: its handlers over the operations of
  \<open>Obj_Store\<close>, with statuses, headers and XML bodies, conditional and ranged reads, and the routes. The parameters axum
  extracts from a request and the date formats of chrono are inputs.
\<close>

section \<open>Requests and responses\<close>

text \<open>
  A body that is streamed is a plan: the segments, the first byte and the number of bytes (\<open>body_stream\<close> reads it). A
  header value is \<open>None\<close> when it is not visible ASCII (\<open>to_str\<close> fails on it).
\<close>

datatype http_body = BodyEmpty | BodyText string | BodyStream "seg_ref list" nat nat

record http_response =
  rs_status :: nat
  rs_headers :: "(string \<times> string) list"
  rs_body :: http_body

type_synonym http_headers = "(string \<times> string option) list"

definition header_str :: "http_headers \<Rightarrow> string \<Rightarrow> string option" where
  "header_str headers name = Option.bind (map_of headers name) id"

text \<open>The date formats of the \<open>chrono\<close> crate.\<close>

record date_fmt =
  df_iso8601 :: "nat \<Rightarrow> string"
  df_http_date :: "nat \<Rightarrow> string"
  df_parse_http_date :: "string \<Rightarrow> nat option"

text \<open>What surrounds one request of the engine: digests, dates, the store's own inputs, the body as it is read, and whether the database can be read.\<close>

record http_env =
  he_sha256 :: "bytes \<Rightarrow> bytes"
  he_md5 :: "bytes \<Rightarrow> bytes"
  he_dates :: date_fmt
  he_req :: req_env
  he_others :: "nat \<Rightarrow> obj_store \<Rightarrow> obj_store"
  he_start :: instant
  he_reads :: "(instant \<times> body_read) list"
  he_all :: "string option"
  he_index :: bool

definition quoted :: "string \<Rightarrow> string" where "quoted etag = [CHR 0x22] @ etag @ [CHR 0x22]"

definition status_only :: "nat \<Rightarrow> http_response" where
  "status_only s = \<lparr>rs_status = s, rs_headers = [], rs_body = BodyEmpty\<rparr>"

definition xml_response :: "nat \<Rightarrow> string \<Rightarrow> http_response" where
  "xml_response s body = \<lparr>rs_status = s, rs_headers = [(''content-type'', ''application/xml'')], rs_body = BodyText body\<rparr>"

definition xml_ok :: "string \<Rightarrow> http_response" where "xml_ok body = xml_response 200 body"

definition error_xml :: "nat \<Rightarrow> string \<Rightarrow> string \<Rightarrow> http_response" where
  "error_xml s code msg =
     xml_response s (XML_DECL @ ''<Error><Code>'' @ code @ ''</Code><Message>'' @ xml_escape msg @ ''</Message></Error>'')"

definition error_status :: "object_error \<Rightarrow> nat \<times> string" where
  "error_status e =
     (case e of
        NoSuchBucket _ \<Rightarrow> (404, ''NoSuchBucket'')
      | NoSuchKey _ \<Rightarrow> (404, ''NoSuchKey'')
      | BucketAlreadyExists _ \<Rightarrow> (409, ''BucketAlreadyExists'')
      | BucketNotEmpty _ \<Rightarrow> (409, ''BucketNotEmpty'')
      | InvalidBucketName _ \<Rightarrow> (400, ''InvalidBucketName'')
      | InvalidKey k \<Rightarrow> (if length k > 1024 then (400, ''KeyTooLongError'') else (400, ''InvalidArgument''))
      | NoSuchUpload _ \<Rightarrow> (404, ''NoSuchUpload'')
      | InvalidArgument \<Rightarrow> (400, ''InvalidArgument'')
      | ObjTimeout \<Rightarrow> (408, ''RequestTimeout'')
      | ContentSha256Mismatch \<Rightarrow> (400, ''XAmzContentSHA256Mismatch'')
      | InvalidPartOrder \<Rightarrow> (400, ''InvalidPartOrder'')
      | EntityTooSmall _ \<Rightarrow> (400, ''EntityTooSmall'')
      | CorruptMeta _ \<Rightarrow> (500, ''InternalError'')
      | ObjIo \<Rightarrow> (500, ''InternalError''))"

text \<open>\<open>display\<close> is the text of an error; an internal error never shows its own.\<close>

definition s3_error :: "(object_error \<Rightarrow> string) \<Rightarrow> object_error \<Rightarrow> http_response" where
  "s3_error display e =
     (case error_status e of (s, code) \<Rightarrow>
        error_xml s code
          (case e of
             CorruptMeta _ \<Rightarrow> ''We encountered an internal error. Please try again.''
           | ObjIo \<Rightarrow> ''We encountered an internal error. Please try again.''
           | _ \<Rightarrow> display e))"

definition declared_len :: "http_headers \<Rightarrow> nat option" where
  "declared_len headers =
     (let v = (case map_of headers ''x-amz-decoded-content-length'' of Some v \<Rightarrow> Some v | None \<Rightarrow> map_of headers ''content-length'')
      in Option.bind (Option.bind v id) (parse_uint 64))"

definition extract_content_sha256 :: "http_headers \<Rightarrow> string option" where
  "extract_content_sha256 headers =
     (case header_str headers ''x-amz-content-sha256'' of
        None \<Rightarrow> None
      | Some v \<Rightarrow> (if length v = 64 \<and> list_all (\<lambda>c. hex_val c \<noteq> None) v then Some v else None))"

function parse_part_numbers :: "string \<Rightarrow> u32 list" where
  "parse_part_numbers rst =
     (case split_find ''<PartNumber>'' rst of
        None \<Rightarrow> []
      | Some (_, rst) \<Rightarrow>
          (case split_find ''</PartNumber>'' rst of
             Some (inner, after) \<Rightarrow>
               (case parse_uint 32 (str_trim inner) of Some n \<Rightarrow> [word_of_nat n] | None \<Rightarrow> [])
               @ parse_part_numbers (''</PartNumber>'' @ after)
           | None \<Rightarrow> []))"
  by auto
termination
proof (relation "measure length")
  fix s x a rst y inner after
  assume "split_find ''<PartNumber>'' s = Some x" "(a, rst) = x" "split_find ''</PartNumber>'' rst = Some y" "(inner, after) = y"
  then have "s = a @ ''<PartNumber>'' @ rst" "rst = inner @ ''</PartNumber>'' @ after" by (auto dest!: split_find_Some)
  then show "(''</PartNumber>'' @ after, s) \<in> measure length" by simp
qed simp

declare parse_part_numbers.simps [simp del]

definition content_type_of :: "http_headers \<Rightarrow> string" where
  "content_type_of headers = (case header_str headers ''content-type'' of Some v \<Rightarrow> v | None \<Rightarrow> ''application/octet-stream'')"

definition cache_control_of :: "http_headers \<Rightarrow> string option" where
  "cache_control_of headers =
     (case header_str headers ''cache-control'' of Some s \<Rightarrow> (if s \<noteq> [] \<and> length s \<le> 512 then Some s else None) | None \<Rightarrow> None)"

section \<open>Reading an object\<close>

text \<open>The builder keeps every header it is given; its failure branch (a stored value that is no header value) is not modelled.\<close>

definition build_object_response ::
  "http_env \<Rightarrow> nat \<Rightarrow> object_meta \<Rightarrow> http_body option \<Rightarrow> (nat \<times> nat \<times> nat) option \<Rightarrow> http_response" where
  "build_object_response en status m body content_range =
     \<lparr>rs_status = status,
      rs_headers =
        [(''content-type'', om_content_type m), (''etag'', quoted (om_etag m)),
         (''last-modified'', df_http_date (he_dates en) (om_last_modified m)), (''accept-ranges'', ''bytes'')]
        @ (case om_cache_control m of Some cc \<Rightarrow> [(''cache-control'', cc)] | None \<Rightarrow> [])
        @ (case content_range of
             Some (start, endb, tot) \<Rightarrow>
               [(''content-range'', ''bytes '' @ show_nat start @ ''-'' @ show_nat endb @ ''/'' @ show_nat tot),
                (''content-length'', show_nat (endb - start + 1))]
           | None \<Rightarrow> (if status \<noteq> 304 then [(''content-length'', show_nat (om_size m))] else [])),
      rs_body = (case body of Some b \<Rightarrow> b | None \<Rightarrow> BodyEmpty)\<rparr>"

definition range_not_satisfiable :: "nat \<Rightarrow> http_response" where
  "range_not_satisfiable tot =
     \<lparr>rs_status = 416, rs_headers = [(''content-range'', ''bytes */'' @ show_nat tot), (''accept-ranges'', ''bytes'')], rs_body = BodyEmpty\<rparr>"

datatype range_outcome = RangeFull | RangePartial nat nat | RangeUnsatisfiable

definition parse_range :: "string option \<Rightarrow> nat \<Rightarrow> range_outcome" where
  "parse_range h tot =
     (case h of None \<Rightarrow> RangeFull | Some spec \<Rightarrow>
     (case strip_prefix ''bytes='' (str_trim spec) of None \<Rightarrow> RangeFull | Some rst \<Rightarrow>
     (if CHR '','' \<in> set rst then RangeFull else
     (case split_once CHR ''-'' rst of None \<Rightarrow> RangeFull | Some (a, b) \<Rightarrow>
        (let a = str_trim a; b = str_trim b
         in if a = [] \<and> b = [] then RangeFull
            else if a = [] then
              (case parse_uint 64 b of
                 None \<Rightarrow> RangeFull
               | Some n \<Rightarrow> (if n = 0 then RangeUnsatisfiable
                            else if tot = 0 then RangeUnsatisfiable
                            else RangePartial (tot - min n tot) (tot - 1)))
            else if b = [] then
              (case parse_uint 64 a of
                 None \<Rightarrow> RangeFull
               | Some start \<Rightarrow> (if start < tot then RangePartial start (tot - 1) else RangeUnsatisfiable))
            else
              (case (parse_uint 64 a, parse_uint 64 b) of
                 (Some start, Some endb) \<Rightarrow>
                   (if start > endb \<or> start \<ge> tot then RangeUnsatisfiable else RangePartial start (min endb (tot - 1)))
               | _ \<Rightarrow> RangeFull))))))"

definition trim_matches_char :: "char \<Rightarrow> string \<Rightarrow> string" where
  "trim_matches_char c s = trim_end_char c (trim_start_char c s)"

definition if_none_match :: "string \<Rightarrow> string \<Rightarrow> bool" where
  "if_none_match header_val etag =
     (let ours = trim_matches_char (CHR 0x22) etag
      in list_ex (\<lambda>t. let t = str_trim t
                      in t = ''*'' \<or> trim_matches_char (CHR 0x22) (case strip_prefix ''W/'' t of Some r \<Rightarrow> r | None \<Rightarrow> t) = ours)
           (split_char CHR '','' header_val))"

definition not_modified :: "http_env \<Rightarrow> object_meta \<Rightarrow> http_headers \<Rightarrow> bool" where
  "not_modified en m headers =
     (case header_str headers ''if-none-match'' of
        Some inm \<Rightarrow> if_none_match inm (om_etag m)
      | None \<Rightarrow>
          (case Option.bind (header_str headers ''if-modified-since'') (\<lambda>ims. df_parse_http_date (he_dates en) (str_trim ims)) of
             Some since \<Rightarrow> om_last_modified m \<le> since
           | None \<Rightarrow> False))"

definition respond_object :: "http_env \<Rightarrow> object_meta \<Rightarrow> seg_ref list option \<Rightarrow> http_headers \<Rightarrow> http_response" where
  "respond_object en m object headers =
     (if not_modified en m headers then build_object_response en 304 m None None
      else
        let tot = om_size m
        in case object of
             None \<Rightarrow> build_object_response en 200 m None None
           | Some segs \<Rightarrow>
               (case parse_range (header_str headers ''range'') tot of
                  RangeFull \<Rightarrow> build_object_response en 200 m (Some (BodyStream segs 0 tot)) None
                | RangeUnsatisfiable \<Rightarrow> range_not_satisfiable tot
                | RangePartial start endb \<Rightarrow>
                    (let len = endb - start + 1
                     in build_object_response en 206 m (Some (BodyStream segs start len)) (Some (start, endb, tot)))))"

section \<open>Handlers\<close>

text \<open>A handler takes the parameters axum extracted; \<open>display\<close> is the text of an error.\<close>

type_synonym http_query = "(string, string) hmap"

definition upload_of :: "http_env \<Rightarrow> http_headers \<Rightarrow> upload_body" where
  "upload_of en headers =
     \<lparr>ub_start = he_start en, ub_reads = he_reads en, ub_sha256 = extract_content_sha256 headers, ub_len = declared_len headers\<rparr>"

definition put_dispatch ::
  "(object_error \<Rightarrow> string) \<Rightarrow> http_env \<Rightarrow> string \<Rightarrow> string \<Rightarrow> http_query \<Rightarrow> http_headers \<Rightarrow> obj_store \<Rightarrow> http_response \<times> obj_store" where
  "put_dispatch display en bucket key q headers st =
     (case (map_of q ''uploadId'', map_of q ''partNumber'') of
        (Some uid, Some pn) \<Rightarrow>
          (case parse_uint 32 pn of
             None \<Rightarrow> (s3_error display InvalidArgument, st)
           | Some n \<Rightarrow>
               (case upload_part_capped (he_sha256 en) (he_md5 en) (he_req en) bucket uid (word_of_nat n) (upload_of en headers) st of
                  (Inr etag, st) \<Rightarrow> (\<lparr>rs_status = 200, rs_headers = [(''etag'', quoted etag)], rs_body = BodyEmpty\<rparr>, st)
                | (Inl e, st) \<Rightarrow> (s3_error display e, st)))
      | _ \<Rightarrow>
          (case put_object_capped (he_sha256 en) (he_md5 en) (he_req en) bucket key (upload_of en headers)
                  (content_type_of headers) (cache_control_of headers) st of
             (Inr m, st) \<Rightarrow> (\<lparr>rs_status = 200, rs_headers = [(''etag'', quoted (om_etag m))], rs_body = BodyEmpty\<rparr>, st)
           | (Inl e, st) \<Rightarrow> (s3_error display e, st)))"

definition get_object_handler ::
  "(object_error \<Rightarrow> string) \<Rightarrow> http_env \<Rightarrow> string \<Rightarrow> string \<Rightarrow> http_headers \<Rightarrow> obj_store \<Rightarrow> http_response \<times> obj_store" where
  "get_object_handler display en bucket key headers st =
     (case get_object (he_others en) bucket key st of
        (Inr (m, segs), st) \<Rightarrow> (respond_object en m (Some segs) headers, st)
      | (Inl e, st) \<Rightarrow> (s3_error display e, st))"

definition head_object_handler ::
  "(object_error \<Rightarrow> string) \<Rightarrow> http_env \<Rightarrow> string \<Rightarrow> string \<Rightarrow> http_headers \<Rightarrow> obj_store \<Rightarrow> http_response" where
  "head_object_handler display en bucket key headers st =
     (case head_object bucket key st of
        Inr m \<Rightarrow> respond_object en m None headers
      | Inl e \<Rightarrow> s3_error display e)"

definition empty_or_error :: "(object_error \<Rightarrow> string) \<Rightarrow> nat \<Rightarrow> (object_error + unit) \<times> obj_store \<Rightarrow> http_response \<times> obj_store" where
  "empty_or_error display ok r =
     (case r of (Inr _, st) \<Rightarrow> (status_only ok, st) | (Inl e, st) \<Rightarrow> (s3_error display e, st))"

definition delete_dispatch ::
  "(object_error \<Rightarrow> string) \<Rightarrow> http_env \<Rightarrow> string \<Rightarrow> string \<Rightarrow> http_query \<Rightarrow> obj_store \<Rightarrow> http_response \<times> obj_store" where
  "delete_dispatch display en bucket key q st =
     (case map_of q ''uploadId'' of
        Some uid \<Rightarrow> empty_or_error display 204 (abort_multipart (he_req en) bucket uid st)
      | None \<Rightarrow> empty_or_error display 204 (delete_object (he_req en) bucket key st))"

definition xml_doc :: "string \<Rightarrow> string \<Rightarrow> string" where
  "xml_doc name body = XML_DECL @ ''<'' @ name @ XML_NS @ body @ close_tag name"

definition post_dispatch ::
  "(object_error \<Rightarrow> string) \<Rightarrow> http_env \<Rightarrow> string \<Rightarrow> string \<Rightarrow> http_query \<Rightarrow> http_headers \<Rightarrow> obj_store \<Rightarrow> http_response \<times> obj_store" where
  "post_dispatch display en bucket key q headers st =
     (if map_of q ''uploads'' \<noteq> None then
        (case create_multipart (he_req en) bucket key (content_type_of headers) (cache_control_of headers) st of
           (Inr uid, st) \<Rightarrow>
             (xml_ok (xml_doc ''InitiateMultipartUploadResult''
                (xml_element ''Bucket'' (xml_escape bucket) @ xml_element ''Key'' (xml_escape key)
                 @ xml_element ''UploadId'' (xml_escape uid))), st)
         | (Inl e, st) \<Rightarrow> (s3_error display e, st))
      else
        (case map_of q ''uploadId'' of
           Some uid \<Rightarrow>
             (case he_all en of
                None \<Rightarrow> (s3_error display InvalidArgument, st)
              | Some body \<Rightarrow>
                  (case complete_multipart (he_md5 en) (he_req en) bucket key uid
                          (parse_part_numbers (map byte_char (utf8_lossy (str_bytes body)))) st of
                     (Inr m, st) \<Rightarrow>
                       (xml_ok (xml_doc ''CompleteMultipartUploadResult''
                          (xml_element ''Bucket'' (xml_escape bucket) @ xml_element ''Key'' (xml_escape key)
                           @ xml_element ''ETag'' (xml_escape (quoted (om_etag m))))), st)
                   | (Inl e, st) \<Rightarrow> (s3_error display e, st)))
         | None \<Rightarrow> (s3_error display InvalidArgument, st)))"

definition create_bucket_handler :: "(object_error \<Rightarrow> string) \<Rightarrow> http_env \<Rightarrow> string \<Rightarrow> obj_store \<Rightarrow> http_response \<times> obj_store" where
  "create_bucket_handler display en bucket st = empty_or_error display 200 (create_bucket (he_req en) bucket st)"

definition delete_bucket_handler :: "(object_error \<Rightarrow> string) \<Rightarrow> http_env \<Rightarrow> string \<Rightarrow> obj_store \<Rightarrow> http_response \<times> obj_store" where
  "delete_bucket_handler display en bucket st = empty_or_error display 204 (delete_bucket (he_req en) bucket st)"

definition head_bucket :: "string \<Rightarrow> obj_store \<Rightarrow> http_response" where
  "head_bucket bucket st =
     status_only (case bucket_exists bucket st of Inr True \<Rightarrow> 200 | Inr False \<Rightarrow> 404 | Inl _ \<Rightarrow> 400)"

definition list_buckets_handler :: "(object_error \<Rightarrow> string) \<Rightarrow> http_env \<Rightarrow> obj_store \<Rightarrow> http_response" where
  "list_buckets_handler display en st =
     (case list_buckets (he_index en) st of
        Inr names \<Rightarrow>
          xml_ok (xml_doc ''ListAllMyBucketsResult''
            (xml_element ''Buckets'' (concat (map (\<lambda>n. xml_element ''Bucket'' (xml_element ''Name'' (xml_escape n))) names))))
      | Inl e \<Rightarrow> s3_error display e)"

definition show_bool :: "bool \<Rightarrow> string" where "show_bool b = (if b then ''true'' else ''false'')"

definition contents_xml :: "http_env \<Rightarrow> object_meta \<Rightarrow> string" where
  "contents_xml en m =
     xml_element ''Contents''
       (xml_element ''Key'' (xml_escape (om_key m)) @ xml_element ''LastModified'' (df_iso8601 (he_dates en) (om_last_modified m))
        @ xml_element ''ETag'' (xml_escape (quoted (om_etag m))) @ xml_element ''Size'' (show_nat (om_size m)))"

definition opt_element :: "string \<Rightarrow> string option \<Rightarrow> string" where
  "opt_element tag v = (case v of Some t \<Rightarrow> xml_element tag (xml_escape t) | None \<Rightarrow> [])"

definition list_multipart_uploads_handler :: "(object_error \<Rightarrow> string) \<Rightarrow> http_env \<Rightarrow> string \<Rightarrow> obj_store \<Rightarrow> http_response" where
  "list_multipart_uploads_handler display en bucket st =
     (case list_multipart_uploads bucket st of
        Inr uploads \<Rightarrow>
          xml_ok (xml_doc ''ListMultipartUploadsResult''
            (xml_element ''Bucket'' (xml_escape bucket)
             @ concat (map (\<lambda>u. xml_element ''Upload''
                 (xml_element ''Key'' (xml_escape (mu_key u)) @ xml_element ''UploadId'' (xml_escape (mu_upload_id u))
                  @ xml_element ''Initiated'' (df_iso8601 (he_dates en) (mu_initiated u)))) uploads)))
      | Inl e \<Rightarrow> s3_error display e)"

definition list_start :: "http_query \<Rightarrow> string option" where
  "list_start q =
     (case map_of q ''continuation-token'' of Some t \<Rightarrow> Some t
      | None \<Rightarrow> (case map_of q ''start-after'' of Some t \<Rightarrow> Some t | None \<Rightarrow> map_of q ''marker''))"

definition list_max_keys :: "http_query \<Rightarrow> nat" where
  "list_max_keys q =
     (let n = (case Option.bind (map_of q ''max-keys'') (parse_uint 64) of Some n \<Rightarrow> n | None \<Rightarrow> 1000)
      in min (max n 1) 1000)"

definition list_objects_handler :: "(object_error \<Rightarrow> string) \<Rightarrow> http_env \<Rightarrow> string \<Rightarrow> http_query \<Rightarrow> obj_store \<Rightarrow> http_response" where
  "list_objects_handler display en bucket q st =
     (if map_of q ''uploads'' \<noteq> None then list_multipart_uploads_handler display en bucket st
      else
        let prefix = (case map_of q ''prefix'' of Some p \<Rightarrow> p | None \<Rightarrow> []);
            start_after = list_start q;
            max_keys = list_max_keys q
        in case map_of q ''delimiter'' of
             Some (d # ds) \<Rightarrow>
               (case list_v2 bucket prefix (Some (d # ds)) start_after max_keys st of
                  Inr page \<Rightarrow>
                    xml_ok (xml_doc ''ListBucketResult''
                      (xml_element ''Name'' (xml_escape bucket) @ xml_element ''Prefix'' (xml_escape prefix)
                       @ xml_element ''Delimiter'' (xml_escape (d # ds)) @ xml_element ''MaxKeys'' (show_nat max_keys)
                       @ xml_element ''KeyCount'' (show_nat (length (lp_objects page) + length (lp_common_prefixes page)))
                       @ xml_element ''IsTruncated'' (show_bool (lp_is_truncated page))
                       @ opt_element ''NextContinuationToken'' (lp_next_continuation_token page)
                       @ concat (map (contents_xml en) (lp_objects page))
                       @ concat (map (\<lambda>p. xml_element ''CommonPrefixes'' (xml_element ''Prefix'' (xml_escape p))) (lp_common_prefixes page))))
                | Inl e \<Rightarrow> s3_error display e)
           | _ \<Rightarrow>
               (case list_objects bucket prefix start_after max_keys st of
                  Inr page \<Rightarrow>
                    xml_ok (xml_doc ''ListBucketResult''
                      (xml_element ''Name'' (xml_escape bucket) @ xml_element ''Prefix'' (xml_escape prefix)
                       @ xml_element ''MaxKeys'' (show_nat max_keys) @ xml_element ''KeyCount'' (show_nat (length (pg_objects page)))
                       @ xml_element ''IsTruncated'' (show_bool (pg_is_truncated page))
                       @ opt_element ''NextContinuationToken'' (pg_next_continuation_token page)
                       @ opt_element ''NextMarker'' (pg_next_continuation_token page)
                       @ opt_element ''ContinuationToken'' (map_of q ''continuation-token'')
                       @ opt_element ''StartAfter'' (map_of q ''start-after'')
                       @ concat (map (contents_xml en) (pg_objects page))))
                | Inl e \<Rightarrow> s3_error display e))"

text \<open>
  The routes of \<open>router\<close>. Which route a path takes is axum's; a path that takes none is answered 404 and a method a route
  does not have 405 (the \<open>Allow\<close> header axum adds to it is left out). A HEAD of a GET route is the GET without its body.
\<close>

datatype http_route = RouteRoot | RouteBucket string | RouteObject string string | RouteNone

definition strip_body :: "http_response \<Rightarrow> http_response" where "strip_body r = r\<lparr>rs_body := BodyEmpty\<rparr>"

definition router ::
  "(object_error \<Rightarrow> string) \<Rightarrow> http_env \<Rightarrow> string \<Rightarrow> http_route \<Rightarrow> http_query \<Rightarrow> http_headers \<Rightarrow> obj_store \<Rightarrow> http_response \<times> obj_store" where
  "router display en method rt q headers st =
     (case rt of
        RouteNone \<Rightarrow> (status_only 404, st)
      | RouteRoot \<Rightarrow>
          (if method = ''GET'' then (list_buckets_handler display en st, st)
           else if method = ''HEAD'' then (strip_body (list_buckets_handler display en st), st)
           else (status_only 405, st))
      | RouteBucket bucket \<Rightarrow>
          (if method = ''PUT'' then create_bucket_handler display en bucket st
           else if method = ''DELETE'' then delete_bucket_handler display en bucket st
           else if method = ''GET'' then (list_objects_handler display en bucket q st, st)
           else if method = ''HEAD'' then (head_bucket bucket st, st)
           else (status_only 405, st))
      | RouteObject bucket key \<Rightarrow>
          (if method = ''PUT'' then put_dispatch display en bucket key q headers st
           else if method = ''POST'' then post_dispatch display en bucket key q headers st
           else if method = ''GET'' then get_object_handler display en bucket key headers st
           else if method = ''HEAD'' then (head_object_handler display en bucket key headers st, st)
           else if method = ''DELETE'' then delete_dispatch display en bucket key q st
           else (status_only 405, st)))"

section \<open>Ranges\<close>

text \<open>The three forms of a byte range, the bytes they ask for, and how a client writes them.\<close>

datatype range_spec = FromTo nat nat | FromOn nat | LastN nat

fun range_of :: "range_spec \<Rightarrow> nat \<Rightarrow> (nat \<times> nat) option" where
  "range_of (FromTo a b) n = (if a \<le> b \<and> a < n then Some (a, min b (n - 1)) else None)"
| "range_of (FromOn a) n = (if a < n then Some (a, n - 1) else None)"
| "range_of (LastN k) n = (if 0 < k \<and> 0 < n then Some (n - min k n, n - 1) else None)"

fun print_range :: "range_spec \<Rightarrow> string" where
  "print_range (FromTo a b) = ''bytes='' @ show_nat a @ ''-'' @ show_nat b"
| "print_range (FromOn a) = ''bytes='' @ show_nat a @ ''-''"
| "print_range (LastN k) = ''bytes=-'' @ show_nat k"

fun range_wf :: "range_spec \<Rightarrow> bool" where
  "range_wf (FromTo a b) \<longleftrightarrow> a \<le> u64_max \<and> b \<le> u64_max"
| "range_wf (FromOn a) \<longleftrightarrow> a \<le> u64_max"
| "range_wf (LastN k) \<longleftrightarrow> k \<le> u64_max"

lemma show_nat_chars: "c \<in> set (show_nat n) \<Longrightarrow> is_ascii_digit c"
  using show_nat_digits by (simp add: list_all_iff)

lemma show_nat_range: "CHR ''-'' \<notin> set (show_nat n)" "CHR '','' \<notin> set (show_nat n)" "str_trim (show_nat n) = show_nat n" "show_nat n \<noteq> []"
  "n \<le> u64_max \<Longrightarrow> parse_uint 64 (show_nat n) = Some n"
proof -
  show "CHR ''-'' \<notin> set (show_nat n)" "CHR '','' \<notin> set (show_nat n)" by (auto dest!: show_nat_chars simp: is_ascii_digit_def)
  show "n \<le> u64_max \<Longrightarrow> parse_uint 64 (show_nat n) = Some n" by (simp add: parse_uint_show_nat u64_max_def)
qed (simp_all add: trimmed_trim show_nat_clean(2) show_nat_digits)

lemma trim_range: "str_trim (print_range spec) = print_range spec"
proof (rule trimmed_trim)
  have "\<not> is_whitespace (last (show_nat n))" for n using show_nat_clean(2) by (simp add: trimmed_def)
  then show "trimmed (print_range spec)" by (cases spec) (simp_all add: trimmed_def is_whitespace_def show_nat_range(4))
qed

lemma split_dash: "split_once CHR ''-'' (show_nat a @ ''-'' @ b) = Some (show_nat a, b)"
  by (simp add: split_once_Some_iff show_nat_range(1))

lemma parse_range_print:
  assumes "range_wf spec"
  shows "parse_range (Some (print_range spec)) n = (case range_of spec n of Some (a, b) \<Rightarrow> RangePartial a b | None \<Rightarrow> RangeUnsatisfiable)"
proof -
  have t: "str_trim [] = []" by (simp add: str_trim_def trim_start_def trim_end_def)
  obtain r where r: "print_range spec = ''bytes='' @ r" "CHR '','' \<notin> set r" using show_nat_range(2) by (cases spec) auto
  have p: "strip_prefix ''bytes='' (str_trim (print_range spec)) = Some r" using trim_range[of spec] r(1) by (simp only: strip_prefix_Some_iff)
  show ?thesis
  proof (cases spec)
    case (FromTo a b)
    then have "r = show_nat a @ ''-'' @ show_nat b" using r(1) by simp
    then have "split_once CHR ''-'' r = Some (show_nat a, show_nat b)" using split_dash by blast
    then show ?thesis unfolding parse_range_def option.case p if_not_P[OF r(2)] using FromTo assms by (simp add: show_nat_range)
  next
    case (FromOn a)
    then have "split_once CHR ''-'' r = Some (show_nat a, [])" using r(1) split_dash[of a "[]"] by simp
    then show ?thesis unfolding parse_range_def option.case p if_not_P[OF r(2)] using FromOn assms by (simp add: show_nat_range t)
  next
    case (LastN k)
    then have "r = ''-'' @ show_nat k" using r(1) by simp
    then have "split_once CHR ''-'' r = Some ([], show_nat k)" by simp
    then show ?thesis unfolding parse_range_def option.case p if_not_P[OF r(2)] using LastN assms by (simp add: show_nat_range t)
  qed
qed

lemma range_of_bounds: "range_of spec n = Some (a, b) \<Longrightarrow> a \<le> b \<and> b < n"
  by (cases spec) (auto split: if_splits)

text \<open>What a client receives when the stream is read from the files as they are.\<close>

definition received :: "http_response \<Rightarrow> obj_store \<Rightarrow> object_error + bytes" where
  "received r st =
     (case rs_body r of
        BodyEmpty \<Rightarrow> Inr []
      | BodyText t \<Rightarrow> Inr (str_bytes t)
      | BodyStream segs start len \<Rightarrow> body_stream segs start len (os_segs st))"

lemma get_object_alone:
  "store_row bucket key st = Inr row \<Longrightarrow>
     get_object (\<lambda>_ s. s) bucket key st = (Inr (or_meta row, or_segments row), pin_segs (or_segments row) st)"
proof -
  assume r: "store_row bucket key st = Inr row"
  then have "store_row bucket key (pin_segs (or_segments row) st) = Inr row"
    using store_row_cong[of "pin_segs (or_segments row) st" st bucket key] by (simp add: pin_segs_def)
  then show ?thesis using r by (simp add: get_object_def eval_nat_numeral Let_def)
qed

lemma map_of_append_skip: "k \<notin> fst ` set xs \<Longrightarrow> map_of (xs @ ys) k = map_of ys k"
  by (simp add: map_add_def map_of_eq_None_iff[symmetric] split: option.split)

text \<open>
  C17. A ranged GET returns the range: in every state the requests can reach, the answer to a GET with a single byte range
  (from-to, from-on or last-n) of an object that exists and that the client does not hold already carries exactly the bytes
  of that range, clipped to the object, with status 206, the range and its length in the headers; a range that holds no byte
  of the object is answered 416 without a body. Without a range the whole object is sent.
\<close>

theorem ranged_get_exact:
  assumes "sys_run sys_start s" and "store_row bucket key (sy_st s) = Inr row" and "om_size (or_meta row) \<le> u64_max"
    and "he_others en = (\<lambda>_ st. st)" and "\<not> not_modified en (or_meta row) headers" and "range_wf spec"
    and "header_str headers ''range'' = (if ranged then Some (print_range spec) else None)"
    and "get_object_handler display en bucket key headers (sy_st s) = (r, st')"
  shows "let d = whole (sy_body s) (or_segments row)
         in if ranged then
              (case range_of spec (length d) of
                 Some (a, b) \<Rightarrow> rs_status r = 206 \<and> received r st' = Inr (take (b - a + 1) (drop a d))
                   \<and> map_of (rs_headers r) ''content-range'' = Some (''bytes '' @ show_nat a @ ''-'' @ show_nat b @ ''/'' @ show_nat (length d))
                   \<and> map_of (rs_headers r) ''content-length'' = Some (show_nat (length (take (b - a + 1) (drop a d))))
               | None \<Rightarrow> rs_status r = 416 \<and> rs_body r = BodyEmpty)
            else rs_status r = 200 \<and> received r st' = Inr d \<and> map_of (rs_headers r) ''content-length'' = Some (show_nat (length d))"
proof -
  let ?segs = "or_segments row" and ?m = "or_meta row" and ?d = "whole (sy_body s) (or_segments row)"
  have n: "om_size ?m = length ?d" using object_reads[OF assms(1,2), of 0 0] by simp
  have g: "r = respond_object en ?m (Some ?segs) headers" "os_segs st' = os_segs (sy_st s)"
    using assms(8) get_object_alone[OF assms(2)] assms(4) by (auto simp: get_object_handler_def pin_segs_def)
  have b: "body_stream ?segs a k (os_segs st') = Inr (take k (drop a ?d))" if "a + k \<le> length ?d" for a k
    using object_reads[OF assms(1,2), of a k] that n assms(3) g(2) by simp
  note e = g(1)[unfolded respond_object_def if_not_P[OF assms(5)] assms(7) Let_def option.case n]
  show ?thesis
  proof (cases ranged)
    case False
    then show ?thesis
      using b[of 0 "length ?d"] e n by (simp add: parse_range_def build_object_response_def received_def Let_def map_of_append_skip split: option.split)
  next
    case True
    show ?thesis
    proof (cases "range_of spec (length ?d)")
      case None
      then show ?thesis using True e by (simp add: parse_range_print[OF assms(6)] range_not_satisfiable_def)
    next
      case (Some p)
      obtain x y where p: "p = (x, y)" by (cases p)
      have o: "x \<le> y" "y < length ?d" using range_of_bounds[of spec "length ?d" x y] Some p by simp_all
      then have "length (take (y - x + 1) (drop x ?d)) = y - x + 1" by simp
      then show ?thesis
        using True Some p e b[of x "y - x + 1"] o
        by (simp add: parse_range_print[OF assms(6)] build_object_response_def received_def map_of_append_skip Let_def split: option.split)
    qed
  qed
qed

definition demo_dates :: date_fmt where
  "demo_dates = \<lparr>df_iso8601 = show_nat, df_http_date = show_nat, df_parse_http_date = parse_uint 64\<rparr>"

definition demo_http :: http_env where
  "demo_http = \<lparr>he_sha256 = id, he_md5 = id, he_dates = demo_dates, he_req = demo_req, he_others = (\<lambda>_ st. st), he_start = 0, he_reads = [], he_all = None, he_index = True\<rparr>"

theorem ranged_get_exact_witness:
  "\<exists>r st'. get_object_handler (\<lambda>_. []) demo_http ''buk'' ''k'' [(''range'', Some ''bytes=1-9'')] demo5 = (r, st')
     \<and> rs_status r = 206 \<and> received r st' = Inr [2, 3] \<and> map_of (rs_headers r) ''content-range'' = Some ''bytes 1-2/3''"
proof -
  let ?h = "[(''range'', Some ''bytes=1-9'')] :: http_headers"
  obtain s where s: "sys_run sys_start s" "sy_st s = demo5" "sy_body s ''a1'' = Some [1, 2, 3]" by (rule demo_run)
  obtain r st' where g: "get_object_handler (\<lambda>_. []) demo_http ''buk'' ''k'' ?h (sy_st s) = (r, st')" by (metis surj_pair)
  have w: "whole (sy_body s) (or_segments demo_row) = [1, 2, 3]" using s(3) by (simp add: whole_def demo_row_def)
  have d: "show_nat 1 = ''1''" "show_nat 2 = ''2''" "show_nat 3 = ''3''" "show_nat 9 = ''9''" by code_simp+
  have "range_wf (FromTo 1 9)" "om_size (or_meta demo_row) \<le> u64_max" "header_str ?h ''range'' = (if True then Some (print_range (FromTo 1 9)) else None)"
    by (simp_all add: u64_max_def demo_row_def header_str_def d[simplified])
  moreover have "\<not> not_modified demo_http (or_meta demo_row) ?h" "he_others demo_http = (\<lambda>_ st. st)"
    by (simp_all add: not_modified_def header_str_def demo_http_def)
  ultimately show ?thesis
    using ranged_get_exact[OF s(1) _ _ _ _ _ _ g, of demo_row "FromTo 1 9" True] demo_rows(2) g s(2) w d by (auto simp: numeral_3_eq_3 numeral_2_eq_2)
qed

section \<open>Failed requests\<close>

lemma ixw_fail: "ixw res f st = (Inl e, st') \<Longrightarrow> object_view st' = object_view st"
  by (drule ixw_InlD) simp

lemma on_bucket_fail: "on_bucket bucket (ixw res f) st = (Inl e, st') \<Longrightarrow> object_view st' = object_view st"
  by (auto simp: on_bucket_def split: sum.splits dest: ixw_fail)

lemma then_reclaim_fail: "then_reclaim en f st = (Inl e, st') \<Longrightarrow> object_view st' = object_view st"
  by (auto simp: then_reclaim_def split: prod.splits sum.splits dest: ixw_fail)

lemma complete_fail: "complete_multipart md5 en bucket key u pns st = (Inl e, st') \<Longrightarrow> object_view st' = object_view st"
  by (auto simp: complete_multipart_def split: sum.splits dest: then_reclaim_fail)

lemma abort_fail: "abort_multipart en bucket u st = (Inl e, st') \<Longrightarrow> object_view st' = object_view st"
  by (auto simp: abort_multipart_def split: sum.splits dest: then_reclaim_fail)

lemma create_multipart_fail: "create_multipart en bucket key ct cc st = (Inl e, st') \<Longrightarrow> object_view st' = object_view st"
  by (auto simp: create_multipart_def on_bucket_def Let_def split: sum.splits prod.splits dest: ixw_fail)

lemma upload_part_fail:
  assumes "ix_ok (os_ix st)" and "re_id en \<notin># seg_places (os_ix st)"
    and "upload_part_capped sha256 md5 en bucket u pn b st = (Inl e, st')"
  shows "object_view st' = object_view st"
proof -
  obtain r st1 where w: "write_segment sha256 md5 en b st = (r, st1)" by fastforce
  note v = write_segment_spec[OF assms(1,2) w]
  have c: "object_view st2 = object_view st" if "commit_with en f st1 = (Inl x, st2)" for f x st2
  proof -
    obtain q st3 where q: "ixw (re_commit en) f st1 = (q, st3)" by fastforce
    then have "st3 = st1" "st2 = release en (re_id en) st3" using that by (auto simp: commit_with_def dest: ixw_InlD split: sum.splits)
    then show ?thesis using release_view(1)[of st1 en] v by simp
  qed
  show ?thesis using assms(3) v c by (auto simp: upload_part_capped_def w Let_def split: if_splits sum.splits bool.splits prod.splits)
qed

lemma put_fail:
  "ix_ok (os_ix st) \<Longrightarrow> re_id en \<notin># seg_places (os_ix st) \<Longrightarrow> length (body_of (ub_reads b)) \<le> u64_max \<Longrightarrow>
     put_object_capped sha256 md5 en bucket key b ct cc st = (Inl e, st') \<Longrightarrow> object_view st' = object_view st"
  using put_effect[of st en b sha256 md5 bucket key ct cc "Inl e" st'] by simp

lemma delete_fail: "ix_ok (os_ix st) \<Longrightarrow> delete_object en bucket key st = (Inl e, st') \<Longrightarrow> object_view st' = object_view st"
  using delete_effect[of st en bucket key "Inl e" st'] by simp

lemma pins_view: "object_view (st\<lparr>os_pins := p\<rparr>) = object_view st"
proof (intro ext view_cong)
  show "store_row b k (st\<lparr>os_pins := p\<rparr>) = store_row b k st" for b k by (rule store_row_cong) simp_all
qed (simp add: st_files_def)

lemma get_view: "get_object (\<lambda>_ s. s) bucket key st = (r, st') \<Longrightarrow> object_view st' = object_view st"
proof (cases "store_row bucket key st")
  case (Inr row)
  moreover assume "get_object (\<lambda>_ s. s) bucket key st = (r, st')"
  ultimately show ?thesis using get_object_alone[OF Inr] by (auto simp: pin_segs_def pins_view)
qed (simp add: get_object_def)

lemma error_status_ge: "400 \<le> fst (error_status e)"
  by (simp add: error_status_def split: object_error.split)

lemma s3_error_ge: "400 \<le> rs_status (s3_error display e)"
  using error_status_ge[of e] by (simp add: s3_error_def error_xml_def xml_response_def case_prod_beta)

lemmas http_ok = status_only_def xml_ok_def xml_response_def build_object_response_def

text \<open>
  C16. A request that is refused or fails changes no object: whatever the method, the route, the parameters, the headers and
  the point at which it failed - a bad name, a bad part number, a body cut short, a digest that does not match, an aborted
  transaction - when the status of the answer is 400 or more every object has the metadata and bytes it had before.
\<close>

theorem failed_request_changes_nothing:
  assumes "ix_ok (os_ix st)" and "re_id (he_req en) \<notin># seg_places (os_ix st)" and "length (body_of (he_reads en)) \<le> u64_max"
    and "he_others en = (\<lambda>_ st. st)"
    and "router display en method rt q headers st = (r, st')" and "400 \<le> rs_status r"
  shows "object_view st' = object_view st"
proof (cases rt)
  case (RouteBucket bucket)
  then show ?thesis
    using assms(5,6) by (auto simp: router_def create_bucket_handler_def delete_bucket_handler_def empty_or_error_def
      create_bucket_def delete_bucket_def status_only_def split: if_splits prod.splits sum.splits dest: on_bucket_fail)
next
  case (RouteObject bucket key)
  consider "method = ''PUT''" | "method = ''POST''" | "method = ''GET''" | "method = ''DELETE''" | "st' = st"
    using assms(5) RouteObject by (auto simp: router_def split: if_splits)
  then show ?thesis
  proof cases
    case 1
    then have "put_dispatch display en bucket key q headers st = (r, st')" using assms(5) RouteObject by (simp add: router_def)
    then show ?thesis
      using assms(6) upload_part_fail[OF assms(1,2)] put_fail[OF assms(1,2), of "upload_of en headers"] assms(3)
      by (auto simp: put_dispatch_def upload_of_def split: option.splits prod.splits sum.splits)
  next
    case 2
    then have "post_dispatch display en bucket key q headers st = (r, st')" using assms(5) RouteObject by (simp add: router_def)
    then show ?thesis
      using assms(6) by (auto simp: post_dispatch_def http_ok split: option.splits prod.splits sum.splits if_splits
        dest: create_multipart_fail complete_fail)
  next
    case 3
    then have "get_object_handler display en bucket key headers st = (r, st')" using assms(5) RouteObject by (simp add: router_def)
    then show ?thesis using assms(4) by (auto simp: get_object_handler_def split: prod.splits sum.splits dest: get_view)
  next
    case 4
    then have "delete_dispatch display en bucket key q st = (r, st')" using assms(5) RouteObject by (simp add: router_def)
    then show ?thesis
      using assms(6) delete_fail[OF assms(1)] by (auto simp: delete_dispatch_def empty_or_error_def status_only_def
        split: option.splits prod.splits sum.splits dest: abort_fail)
  qed simp
qed (use assms(5) in \<open>auto simp: router_def split: if_splits\<close>)

theorem failed_request_changes_nothing_witness:
  "rs_status (fst (router (\<lambda>_. []) demo_http ''PUT'' (RouteObject ''buk'' ''k'') [(''uploadId'', ''ab''), (''partNumber'', ''x'')] [] demo_old)) = 400
   \<and> object_view (snd (router (\<lambda>_. []) demo_http ''PUT'' (RouteObject ''buk'' ''k'') [(''uploadId'', ''ab''), (''partNumber'', ''x'')] [] demo_old))
     = object_view demo_old"
proof -
  obtain r st' where c: "router (\<lambda>_. []) demo_http ''PUT'' (RouteObject ''buk'' ''k'') [(''uploadId'', ''ab''), (''partNumber'', ''x'')] [] demo_old = (r, st')"
    by (metis surj_pair)
  have "parse_uint 32 ''x'' = None" by code_simp
  then have s: "rs_status r = 400"
    using c by (auto simp: router_def put_dispatch_def s3_error_def error_status_def error_xml_def xml_response_def)
  have "re_id (he_req demo_http) \<notin># seg_places (os_ix demo_old)" using demo_fresh by (simp add: demo_http_def demo_req_def)
  then have "object_view st' = object_view demo_old"
    using failed_request_changes_nothing[OF demo_old_ok _ _ _ c] s by (simp add: demo_http_def)
  then show ?thesis using c s by simp
qed

end
