(* ===== verification/Obj_Front.thy ===== *)
theory Obj_Front
  imports Obj_Http Sig_Verify
begin

text \<open>
  The tenant-facing front of the object store, \<open>src/crates/jkbase-server/src/objectstore_service.rs\<close>: authentication of a
  request and the project it belongs to, the usage record with its reservations against the quota, the request as a whole
  from URI to answer, CORS, and the console's handlers. The lookups of the control plane, the walk over a project's disk
  footprint and axum's reading of a URI are inputs.
\<close>

section \<open>Reading a request\<close>

definition QUOTA_TTL :: duration where "QUOTA_TTL = from_secs 3"
definition PROJECT_CACHE_CAP :: nat where "PROJECT_CACHE_CAP = 4096"
definition MAX_INFLIGHT_UPLOADS :: nat where "MAX_INFLIGHT_UPLOADS = 1000"

definition path_has_key :: "string \<Rightarrow> bool" where
  "path_has_key path = (case split_once CHR ''/'' (trim_start_char CHR ''/'' path) of Some (_, k) \<Rightarrow> k \<noteq> [] | None \<Rightarrow> False)"

definition is_object_write :: "string \<Rightarrow> string \<Rightarrow> bool" where
  "is_object_write method path \<longleftrightarrow> method = ''PUT'' \<and> path_has_key path"

definition object_key :: "string \<Rightarrow> (string \<times> string) option" where
  "object_key path =
     (case split_once CHR ''/'' (trim_start_char CHR ''/'' path) of
        None \<Rightarrow> None
      | Some (bucket, key) \<Rightarrow> if bucket = [] \<or> key = [] then None else Some (bucket, key))"

definition is_valid_project_id :: "string \<Rightarrow> bool" where
  "is_valid_project_id i \<longleftrightarrow> i \<noteq> [] \<and> length i \<le> 63
     \<and> list_all (\<lambda>c. let n = (of_char c :: nat) in 97 \<le> n \<and> n \<le> 122 \<or> 48 \<le> n \<and> n \<le> 57 \<or> c = CHR ''-'') i"

text \<open>The first path segment.\<close>

definition path_bucket :: "string \<Rightarrow> string" where
  "path_bucket path = hd (split_char CHR ''/'' (trim_start_char CHR ''/'' path))"

definition is_bucket_create :: "string \<Rightarrow> string \<Rightarrow> bool" where
  "is_bucket_create method path \<longleftrightarrow> method = ''PUT'' \<and> \<not> path_has_key path \<and> path_bucket path \<noteq> []"

definition has_param :: "string \<Rightarrow> (string \<times> string) list \<Rightarrow> bool" where
  "has_param k query = list_ex (\<lambda>(q, _). q = k) query"

definition is_create_multipart :: "string \<Rightarrow> (string \<times> string) list \<Rightarrow> bool" where
  "is_create_multipart method query \<longleftrightarrow> method = ''POST'' \<and> has_param ''uploads'' query"

definition is_complete_multipart :: "string \<Rightarrow> (string \<times> string) list \<Rightarrow> bool" where
  "is_complete_multipart method query \<longleftrightarrow> method = ''POST'' \<and> has_param ''uploadId'' query \<and> \<not> has_param ''uploads'' query"

definition is_upload_part :: "(string \<times> string) list \<Rightarrow> bool" where
  "is_upload_part query \<longleftrightarrow> has_param ''uploadId'' query \<and> has_param ''partNumber'' query"

definition write_len :: "http_headers \<Rightarrow> nat option" where
  "write_len h =
     (case Option.bind (header_str h ''content-length'') (parse_uint 64) of
        Some n \<Rightarrow> Some n
      | None \<Rightarrow> Option.bind (header_str h ''x-amz-decoded-content-length'') (parse_uint 64))"

definition lower_headers :: "http_headers \<Rightarrow> (string, string) hmap" where
  "lower_headers h = foldl (\<lambda>m (k, v). case v of Some s \<Rightarrow> hupd (to_ascii_lowercase k) s m | None \<Rightarrow> m) [] h"

text \<open>A body cut off at \<open>n\<close> bytes: the read that goes past them fails.\<close>

fun limit_reads :: "nat \<Rightarrow> (instant \<times> body_read) list \<Rightarrow> (instant \<times> body_read) list" where
  "limit_reads n [] = []"
| "limit_reads n ((t, r) # rs) =
     (case r of
        RChunk b ok \<Rightarrow> (if length b \<le> n then (t, r) # limit_reads (n - length b) rs else [(t, RFailed)])
      | _ \<Rightarrow> (t, r) # limit_reads n rs)"

section \<open>Usage\<close>

record quota_limits =
  ql_storage_bytes_max :: nat
  ql_bandwidth_bytes_per_month :: nat
  ql_build_seconds_per_month :: nat
  ql_max_objects :: nat
  ql_max_buckets :: nat

record usage =
  us_base_bytes :: nat
  us_base_objects :: nat
  us_base_buckets :: nat
  us_sampled_at :: instant
  us_reserved_bytes :: nat
  us_reserved_objects :: nat
  us_reserved_buckets :: nat

text \<open>\<open>Instant::now().checked_sub(QUOTA_TTL).unwrap_or_else(Instant::now)\<close>.\<close>

definition ttl_ago :: "instant \<Rightarrow> instant" where
  "ttl_ago now = (if QUOTA_TTL \<le> now then now - QUOTA_TTL else now)"

definition usage_new :: "instant \<Rightarrow> usage" where
  "usage_new now =
     \<lparr>us_base_bytes = 0, us_base_objects = 0, us_base_buckets = 0, us_sampled_at = ttl_ago now,
      us_reserved_bytes = 0, us_reserved_objects = 0, us_reserved_buckets = 0\<rparr>"

definition usage_stale :: "instant \<Rightarrow> usage \<Rightarrow> bool" where
  "usage_stale now u \<longleftrightarrow> now - us_sampled_at u > QUOTA_TTL"

text \<open>The end of a walk, under the lock: the sample replaces base and reservations unless a newer one did.\<close>

definition adopt_sample :: "instant \<Rightarrow> nat \<Rightarrow> nat \<Rightarrow> nat \<Rightarrow> usage \<Rightarrow> usage" where
  "adopt_sample now bytes buckets objects u =
     (if usage_stale now u
      then \<lparr>us_base_bytes = bytes, us_base_objects = objects, us_base_buckets = buckets, us_sampled_at = now,
            us_reserved_bytes = 0, us_reserved_objects = 0, us_reserved_buckets = 0\<rparr>
      else u)"

text \<open>A walk: when it was asked for, what it found - or that it failed - and when it ended.\<close>

record usage_walk =
  uw_start :: instant
  uw_bytes :: "nat option"
  uw_counts :: "(nat \<times> nat) option"
  uw_end :: instant

definition quota_unavailable :: http_response where
  "quota_unavailable = error_xml 500 ''InternalError'' ''quota check temporarily unavailable''"

definition refresh_if_stale :: "usage_walk \<Rightarrow> usage \<Rightarrow> http_response option \<times> usage" where
  "refresh_if_stale w u =
     (if \<not> usage_stale (uw_start w) u then (None, u)
      else (case uw_bytes w of
              None \<Rightarrow> (Some quota_unavailable, u)
            | Some bytes \<Rightarrow>
                (case uw_counts w of
                   None \<Rightarrow> (Some quota_unavailable, u)
                 | Some (buckets, objects) \<Rightarrow> (None, adopt_sample (uw_end w) bytes buckets objects u))))"

text \<open>The locked part of \<open>refresh_and_reserve\<close>.\<close>

definition reserve_usage :: "nat \<Rightarrow> bool \<Rightarrow> quota_limits \<Rightarrow> usage \<Rightarrow> http_response option \<times> usage" where
  "reserve_usage len adds_object quota u =
     (let projected_bytes = saturating_add (saturating_add (us_base_bytes u) (us_reserved_bytes u)) len
      in if len > 0 \<and> projected_bytes > ql_storage_bytes_max quota then
           (Some (error_xml 507 ''QuotaExceeded'' (''storage quota exceeded: would use '' @ show_nat projected_bytes
              @ '' bytes (data disks count at their full size), cap is '' @ show_nat (ql_storage_bytes_max quota))), u)
         else
           let projected_objs = saturating_add (saturating_add (us_base_objects u) (us_reserved_objects u)) 1
           in if adds_object \<and> projected_objs > ql_max_objects quota then
                (Some (error_xml 507 ''TooManyObjects'' (''object-count quota exceeded: would hold '' @ show_nat projected_objs
                   @ '' objects, cap is '' @ show_nat (ql_max_objects quota))), u)
              else
                let u = (if adds_object then u\<lparr>us_reserved_objects := saturating_add (us_reserved_objects u) 1\<rparr> else u)
                in (None, u\<lparr>us_reserved_bytes := saturating_add (us_reserved_bytes u) len\<rparr>))"

definition refresh_and_reserve :: "usage_walk \<Rightarrow> nat \<Rightarrow> bool \<Rightarrow> quota_limits \<Rightarrow> usage \<Rightarrow> http_response option \<times> usage" where
  "refresh_and_reserve w len adds_object quota u =
     (case refresh_if_stale w u of
        (Some resp, u) \<Rightarrow> (Some resp, u)
      | (None, u) \<Rightarrow> reserve_usage len adds_object quota u)"

definition reserve_bucket_usage :: "quota_limits \<Rightarrow> usage \<Rightarrow> http_response option \<times> usage" where
  "reserve_bucket_usage quota u =
     (let projected = saturating_add (saturating_add (us_base_buckets u) (us_reserved_buckets u)) 1
      in if projected > ql_max_buckets quota then
           (Some (error_xml 409 ''TooManyBuckets'' (''bucket quota exceeded: cap is '' @ show_nat (ql_max_buckets quota))), u)
         else (None, u\<lparr>us_reserved_buckets := saturating_add (us_reserved_buckets u) 1\<rparr>))"

definition reserve_bucket :: "usage_walk \<Rightarrow> quota_limits \<Rightarrow> usage \<Rightarrow> http_response option \<times> usage" where
  "reserve_bucket w quota u =
     (case refresh_if_stale w u of
        (Some resp, u) \<Rightarrow> (Some resp, u)
      | (None, u) \<Rightarrow> reserve_bucket_usage quota u)"

definition release_reservation :: "nat \<Rightarrow> bool \<Rightarrow> usage \<Rightarrow> usage" where
  "release_reservation len had_object u =
     (let u = u\<lparr>us_reserved_bytes := us_reserved_bytes u - len\<rparr>
      in if had_object then u\<lparr>us_reserved_objects := us_reserved_objects u - 1\<rparr> else u)"

definition release_bucket_reservation :: "usage \<Rightarrow> usage" where
  "release_bucket_reservation u = u\<lparr>us_reserved_buckets := us_reserved_buckets u - 1\<rparr>"

definition invalidate_usage_sample :: "instant \<Rightarrow> usage \<Rightarrow> usage" where
  "invalidate_usage_sample now u = u\<lparr>us_sampled_at := ttl_ago now\<rparr>"

section \<open>The service\<close>

text \<open>
  The stores on disk by project, and the entries the service has open: an entry is its usage record, its store is the one
  under the project's root (a root has one open store). What the control plane knows are lookups.
\<close>

record front =
  fr_stores :: "(string, obj_store) hmap"
  fr_entries :: "(string, usage) hmap"

record access_key =
  ak_project_id :: string
  ak_tenant_id :: string
  ak_secret_key :: string

record control_view =
  cv_access_key :: "string \<Rightarrow> access_key option"
  cv_owner :: "string \<Rightarrow> unit + string option option"
  cv_quota :: "string \<Rightarrow> quota_limits"
  cv_authenticate :: "string \<Rightarrow> unit + string option"

text \<open>
  \<open>get_project\<close> fails, finds nothing, or finds a project with or without a tenant.\<close>

definition owned_by :: "control_view \<Rightarrow> string \<Rightarrow> string \<Rightarrow> bool" where
  "owned_by cv tenant pid \<longleftrightarrow> cv_owner cv pid = Inr (Some (Some tenant))"

text \<open>
  What one request meets outside the service: the clocks, the engine's environment, the walk, how the store opens, which
  entry a full cache drops, and what axum makes of the URI. \<open>fe_empty\<close> is the store of a project that has none yet.
\<close>

record front_env =
  fe_crypto :: sig_crypto
  fe_public_host :: string
  fe_unix :: nat
  fe_instant :: instant
  fe_display :: "object_error \<Rightarrow> string"
  fe_http :: http_env
  fe_walk :: usage_walk
  fe_control :: control_view
  fe_current :: bool
  fe_open :: bool
  fe_empty :: obj_store
  fe_victim :: string
  fe_cors_body :: "string option"
  fe_uri_ok :: "string \<Rightarrow> bool"
  fe_route :: "string \<Rightarrow> http_route"
  fe_params :: "string \<Rightarrow> http_query"

definition host_candidates :: "string \<Rightarrow> string list" where
  "host_candidates public_host = [public_host, public_host @ '':443'', public_host @ '':80'']"

text \<open>\<open>project_entry\<close>: \<open>fe_current\<close> is \<open>is_current\<close> of a cached entry, \<open>fe_open\<close> whether the open succeeds.\<close>

definition project_entry :: "front_env \<Rightarrow> string \<Rightarrow> front \<Rightarrow> bool \<times> front" where
  "project_entry en pid fr =
     (if \<not> is_valid_project_id pid then (False, fr)
      else if map_of (fr_entries fr) pid \<noteq> None \<and> map_of (fr_stores fr) pid \<noteq> None \<and> fe_current en then (True, fr)
      else
        let entries = hdel pid (fr_entries fr)
        in if \<not> fe_open en then (False, fr\<lparr>fr_entries := entries\<rparr>)
           else
             let stores = (case map_of (fr_stores fr) pid of Some _ \<Rightarrow> fr_stores fr | None \<Rightarrow> hupd pid (fe_empty en) (fr_stores fr));
                 entries = (if length entries \<ge> PROJECT_CACHE_CAP then hdel (fe_victim en) entries else entries)
             in (True, \<lparr>fr_stores = stores, fr_entries = hupd pid (usage_new (fe_instant en)) entries\<rparr>))"

definition fr_store :: "front_env \<Rightarrow> string \<Rightarrow> front \<Rightarrow> obj_store" where
  "fr_store en pid fr = (case map_of (fr_stores fr) pid of Some st \<Rightarrow> st | None \<Rightarrow> fe_empty en)"

definition fr_usage :: "front_env \<Rightarrow> string \<Rightarrow> front \<Rightarrow> usage" where
  "fr_usage en pid fr = (case map_of (fr_entries fr) pid of Some u \<Rightarrow> u | None \<Rightarrow> usage_new (fe_instant en))"

definition set_store :: "string \<Rightarrow> obj_store \<Rightarrow> front \<Rightarrow> front" where
  "set_store pid st fr = fr\<lparr>fr_stores := hupd pid st (fr_stores fr)\<rparr>"

definition set_usage :: "string \<Rightarrow> usage \<Rightarrow> front \<Rightarrow> front" where
  "set_usage pid u fr = fr\<lparr>fr_entries := hupd pid u (fr_entries fr)\<rparr>"

record front_req =
  fq_method :: string
  fq_path :: string
  fq_query :: "string option"
  fq_headers :: http_headers

section \<open>Authentication\<close>

fun auth_loop :: "(string \<Rightarrow> string + string) \<Rightarrow> string list \<Rightarrow> string + string \<Rightarrow> string + string" where
  "auth_loop verify [] auth = auth"
| "auth_loop verify (host # hosts) auth =
     (case verify host of Inr k \<Rightarrow> Inr k | Inl e \<Rightarrow> auth_loop verify hosts (Inl e))"

definition authenticate :: "front_env \<Rightarrow> front_req \<Rightarrow> string \<Rightarrow> (string \<times> string) list \<Rightarrow> string + string" where
  "authenticate en rq path query =
     (let lookup_secret = (\<lambda>akid. map_option ak_secret_key (cv_access_key (fe_control en) akid));
          anonymous = Inl ''anonymous requests are not allowed'';
          hosts = host_candidates (fe_public_host en)
      in if has_param ''X-Amz-Signature'' query then
           auth_loop (\<lambda>host. verify_presigned (fe_crypto en) (fq_method rq) host path query lookup_secret (fe_unix en)) hosts anonymous
         else
           (case header_str (fq_headers rq) ''authorization'' of
              Some a \<Rightarrow>
                auth_loop (\<lambda>host. verify_header (fe_crypto en) (fq_method rq) host path query (lower_headers (fq_headers rq)) a
                             lookup_secret (fe_unix en)) hosts anonymous
            | None \<Rightarrow> anonymous))"

definition s3_access_denied :: "string \<Rightarrow> http_response" where
  "s3_access_denied msg = error_xml 403 ''AccessDenied'' msg"

section \<open>CORS at the front\<close>

definition preflight_denied :: http_response where "preflight_denied = status_only 403"

definition preflight_response :: "preflight_grant \<Rightarrow> http_response" where
  "preflight_response g =
     \<lparr>rs_status = 204,
      rs_headers =
        [(''access-control-allow-origin'', pf_allow_origin g), (''access-control-allow-methods'', pf_allow_methods g)]
        @ (case pf_allow_headers g of Some h \<Rightarrow> [(''access-control-allow-headers'', h)] | None \<Rightarrow> [])
        @ (case pf_max_age g of Some age \<Rightarrow> [(''access-control-max-age'', show_nat age)] | None \<Rightarrow> [])
        @ (if pf_vary_origin g then [(''vary'', ''Origin'')] else []),
      rs_body = BodyEmpty\<rparr>"

definition resolve_store_for_preflight :: "front_env \<Rightarrow> (string \<times> string) list \<Rightarrow> front \<Rightarrow> string option \<times> front" where
  "resolve_store_for_preflight en query fr =
     (case query_get ''X-Amz-Credential'' query of
        None \<Rightarrow> (None, fr)
      | Some cred \<Rightarrow>
          (case cv_access_key (fe_control en) (hd (split_char CHR ''/'' cred)) of
             None \<Rightarrow> (None, fr)
           | Some key \<Rightarrow>
               (if \<not> owned_by (fe_control en) (ak_tenant_id key) (ak_project_id key) then (None, fr)
                else if \<not> is_valid_project_id (ak_project_id key) \<or> map_of (fr_stores fr) (ak_project_id key) = None then (None, fr)
                else (case project_entry en (ak_project_id key) fr of
                        (True, fr) \<Rightarrow> (Some (ak_project_id key), fr)
                      | (False, fr) \<Rightarrow> (None, fr)))))"

definition handle_preflight ::
  "front_env \<Rightarrow> string \<Rightarrow> (string \<times> string) list \<Rightarrow> (string, string) hmap \<Rightarrow> front \<Rightarrow> http_response \<times> front" where
  "handle_preflight en bucket query headers fr =
     (case (map_of headers ''origin'', map_of headers ''access-control-request-method'') of
        (Some origin, Some req_method) \<Rightarrow>
          (case resolve_store_for_preflight en query fr of
             (None, fr) \<Rightarrow> (preflight_denied, fr)
           | (Some pid, fr) \<Rightarrow>
               (case get_bucket_cors bucket (fr_store en pid fr) of
                  Inr (Some cfg) \<Rightarrow>
                    (let req_headers = (case map_of headers ''access-control-request-headers'' of
                           Some s \<Rightarrow> filter (\<lambda>h. h \<noteq> []) (map str_trim (split_char CHR '','' s))
                         | None \<Rightarrow> [])
                     in case match_preflight cfg origin req_method req_headers of
                          Some grant \<Rightarrow> (preflight_response grant, fr)
                        | None \<Rightarrow> (preflight_denied, fr))
                | _ \<Rightarrow> (preflight_denied, fr)))
      | _ \<Rightarrow> (s3_access_denied ''anonymous requests are not allowed'', fr))"

definition handle_bucket_cors :: "front_env \<Rightarrow> string \<Rightarrow> string \<Rightarrow> obj_store \<Rightarrow> http_response \<times> obj_store" where
  "handle_bucket_cors en method bucket st =
     (case bucket_exists bucket st of
        Inl (InvalidBucketName _) \<Rightarrow> (error_xml 400 ''InvalidBucketName'' ''the specified bucket is not valid'', st)
      | there \<Rightarrow>
          (if method = ''GET'' then
             (case get_bucket_cors bucket st of
                Inr (Some cfg) \<Rightarrow> (xml_ok (cors_config_to_xml cfg), st)
              | Inr None \<Rightarrow> (error_xml 404 ''NoSuchCORSConfiguration'' ''the CORS configuration does not exist'', st)
              | Inl _ \<Rightarrow> (error_xml 500 ''InternalError'' ''could not read CORS configuration'', st))
           else if method = ''PUT'' then
             (if there \<noteq> Inr True then (error_xml 404 ''NoSuchBucket'' ''the specified bucket does not exist'', st)
              else (case fe_cors_body en of
                      None \<Rightarrow> (error_xml 400 ''MalformedXML'' ''CORS configuration body too large or unreadable'', st)
                    | Some body \<Rightarrow>
                        (case parse_cors_config_xml (map byte_char (utf8_lossy (str_bytes body))) of
                           Inl e \<Rightarrow> (error_xml 400 ''MalformedXML'' e, st)
                         | Inr cfg \<Rightarrow>
                             (case put_bucket_cors (he_req (fe_http en)) bucket cfg st of
                                (Inr _, st) \<Rightarrow> (status_only 200, st)
                              | (Inl _, st) \<Rightarrow> (error_xml 500 ''InternalError'' ''could not store CORS configuration'', st)))))
           else if method = ''DELETE'' then
             (case delete_bucket_cors (he_req (fe_http en)) bucket st of
                (Inr _, st) \<Rightarrow> (status_only 204, st)
              | (Inl _, st) \<Rightarrow> (error_xml 500 ''InternalError'' ''could not delete CORS configuration'', st))
           else (error_xml 405 ''MethodNotAllowed'' ''method not allowed on the ?cors subresource'', st)))"

text \<open>
  Headers are kept by name; \<open>HeaderValue::from_str\<close> refuses nothing the grants hold (a control character in a stored origin
  or header list apart, which is dropped: \<open>header_value_ok\<close>).
\<close>

definition header_value_ok :: "string \<Rightarrow> bool" where
  "header_value_ok s = list_all (\<lambda>c. let n = (of_char c :: nat) in n = 9 \<or> 32 \<le> n \<and> n \<noteq> 127) s"

definition hdr_insert :: "string \<Rightarrow> string \<Rightarrow> (string \<times> string) list \<Rightarrow> (string \<times> string) list" where
  "hdr_insert k v h = (if header_value_ok v then filter (\<lambda>x. fst x \<noteq> k) h @ [(k, v)] else h)"

definition append_vary_origin :: "(string \<times> string) list \<Rightarrow> (string \<times> string) list" where
  "append_vary_origin h =
     (case map_of h ''vary'' of
        Some cur \<Rightarrow>
          (if list_ex (\<lambda>p. str_trim p = ''origin'') (split_char CHR '','' (to_ascii_lowercase cur)) then h
           else hdr_insert ''vary'' (cur @ '', Origin'') h)
      | None \<Rightarrow> hdr_insert ''vary'' ''Origin'' h)"

definition apply_actual_cors :: "actual_grant \<Rightarrow> (string \<times> string) list \<Rightarrow> (string \<times> string) list" where
  "apply_actual_cors g h =
     (let h = hdr_insert ''access-control-allow-origin'' (ag_allow_origin g) h;
          h = (case ag_expose_headers g of Some e \<Rightarrow> hdr_insert ''access-control-expose-headers'' e h | None \<Rightarrow> h)
      in if ag_vary_origin g then append_vary_origin h else h)"

section \<open>A request\<close>

definition uri_encode_path :: "string \<Rightarrow> string" where
  "uri_encode_path s = concat (map (enc_char False) s)"

text \<open>The path the engine routes on.\<close>

definition set_canonical_path :: "front_env \<Rightarrow> front_req \<Rightarrow> string \<Rightarrow> string" where
  "set_canonical_path en rq decoded_path =
     (let canon = uri_encode_path decoded_path;
          pq = (case fq_query rq of Some q \<Rightarrow> canon @ ''?'' @ q | None \<Rightarrow> canon)
      in if fe_uri_ok en pq then canon else fq_path rq)"

definition is_success :: "nat \<Rightarrow> bool" where "is_success s \<longleftrightarrow> 200 \<le> s \<and> s < 300"

text \<open>Step 3a: a bucket slot for a bucket that is to be created; the answer, or whether a slot was taken.\<close>

definition gate_bucket :: "front_env \<Rightarrow> string \<Rightarrow> string \<Rightarrow> obj_store \<Rightarrow> quota_limits \<Rightarrow> usage \<Rightarrow> (http_response + bool) \<times> usage" where
  "gate_bucket en method path st quota u =
     (if is_bucket_create method path \<and> bucket_exists (path_bucket path) st \<noteq> Inr True then
        (case reserve_bucket (fe_walk en) quota u of
           (Some resp, u) \<Rightarrow> (Inl resp, u)
         | (None, u) \<Rightarrow> (Inr True, u))
      else (Inr False, u))"

text \<open>Step 3b.\<close>

definition gate_uploads :: "front_env \<Rightarrow> string \<Rightarrow> (string \<times> string) list \<Rightarrow> obj_store \<Rightarrow> http_response option" where
  "gate_uploads en method query st =
     (if is_create_multipart method query
         \<and> (case count_inflight_uploads (he_index (fe_http en)) MAX_INFLIGHT_UPLOADS st of Inr n \<Rightarrow> n | Inl _ \<Rightarrow> MAX_INFLIGHT_UPLOADS) \<ge> MAX_INFLIGHT_UPLOADS
      then Some (error_xml 503 ''SlowDown'' ''too many in-flight multipart uploads; complete or abort some first'')
      else None)"

text \<open>The size of the object at a key, if it can be told.\<close>

definition existing_size :: "(string \<times> string) option \<Rightarrow> obj_store \<Rightarrow> nat option" where
  "existing_size bk st =
     (case bk of None \<Rightarrow> None | Some (b, k) \<Rightarrow> (case object_size b k st of Inr sz \<Rightarrow> sz | Inl _ \<Rightarrow> None))"

text \<open>Step 3c: the answer, or the reservation and the cap of the body.\<close>

definition reserve_for ::
  "front_env \<Rightarrow> nat \<Rightarrow> bool \<Rightarrow> nat option \<Rightarrow> quota_limits \<Rightarrow> usage \<Rightarrow> (http_response + (nat \<times> bool) option \<times> nat option) \<times> usage" where
  "reserve_for en len adds_object cap quota u =
     (case refresh_and_reserve (fe_walk en) len adds_object quota u of
        (Some resp, u) \<Rightarrow> (Inl resp, u)
      | (None, u) \<Rightarrow> (Inr (Some (len, adds_object), cap), u))"

definition gate_write ::
  "front_env \<Rightarrow> front_req \<Rightarrow> string \<Rightarrow> (string \<times> string) list \<Rightarrow> obj_store \<Rightarrow> quota_limits \<Rightarrow> usage
   \<Rightarrow> (http_response + (nat \<times> bool) option \<times> nat option) \<times> usage" where
  "gate_write en rq path query st quota u =
     (if is_object_write (fq_method rq) path then
        (case write_len (fq_headers rq) of
           None \<Rightarrow> (Inl (error_xml 411 ''MissingContentLength'' ''object writes require a Content-Length''), u)
         | Some len \<Rightarrow>
             (if is_upload_part query then reserve_for en len False (Some len) quota u
              else
                let existing = existing_size (object_key path) st
                in reserve_for en (len - (case existing of Some n \<Rightarrow> n | None \<Rightarrow> 0)) (existing = None) (Some len) quota u))
      else if is_complete_multipart (fq_method rq) query then
        reserve_for en 0 (existing_size (object_key path) st = None) None quota u
      else (Inr (None, None), u))"

text \<open>Step 5: what the outcome does to the reservations.\<close>

definition reconcile :: "front_env \<Rightarrow> string \<Rightarrow> nat \<Rightarrow> (nat \<times> bool) option \<Rightarrow> bool \<Rightarrow> usage \<Rightarrow> usage" where
  "reconcile en method status reservation bucket_reserved u =
     (let u = (case reservation of
                 Some (len, had_object) \<Rightarrow> if is_success status then u else release_reservation len had_object u
               | None \<Rightarrow> u);
          u = (if bucket_reserved \<and> \<not> is_success status then release_bucket_reservation u else u)
      in if method = ''DELETE'' \<and> is_success status then invalidate_usage_sample (fe_instant en) u else u)"

text \<open>Step 6.\<close>

definition stamp_cors :: "string option \<Rightarrow> string \<Rightarrow> string \<Rightarrow> obj_store \<Rightarrow> http_response \<Rightarrow> http_response" where
  "stamp_cors origin method bucket st resp =
     (case origin of
        None \<Rightarrow> resp
      | Some origin \<Rightarrow>
          (case get_bucket_cors bucket st of
             Inr (Some cfg) \<Rightarrow>
               (case match_actual cfg origin method of
                  Some grant \<Rightarrow> resp\<lparr>rs_headers := apply_actual_cors grant (rs_headers resp)\<rparr>
                | None \<Rightarrow> resp)
           | _ \<Rightarrow> resp))"

text \<open>Steps 3 to 6, on the store and the usage of the project that was resolved.\<close>

definition serve ::
  "front_env \<Rightarrow> front_req \<Rightarrow> string \<Rightarrow> (string \<times> string) list \<Rightarrow> quota_limits \<Rightarrow> obj_store \<Rightarrow> usage \<Rightarrow> http_response \<times> obj_store \<times> usage" where
  "serve en rq path query quota st u =
     (case gate_bucket en (fq_method rq) path st quota u of
        (Inl resp, u) \<Rightarrow> (resp, st, u)
      | (Inr bucket_reserved, u) \<Rightarrow>
     (case gate_uploads en (fq_method rq) query st of
        Some resp \<Rightarrow> (resp, st, u)
      | None \<Rightarrow>
     (case gate_write en rq path query st quota u of
        (Inl resp, u) \<Rightarrow> (resp, st, u)
      | (Inr (reservation, body_cap), u) \<Rightarrow>
          (let uri_path = set_canonical_path en rq path;
               he = (case body_cap of
                       Some len \<Rightarrow> (fe_http en)\<lparr>he_reads := limit_reads len (he_reads (fe_http en))\<rparr>
                     | None \<Rightarrow> fe_http en);
               (resp, st) = router (fe_display en) he (fq_method rq) (fe_route en uri_path)
                              (fe_params en (case fq_query rq of Some q \<Rightarrow> q | None \<Rightarrow> [])) (fq_headers rq) st;
               u = reconcile en (fq_method rq) (rs_status resp) reservation bucket_reserved u
           in (stamp_cors (map_of (lower_headers (fq_headers rq)) ''origin'') (fq_method rq) (path_bucket path) st resp, st, u)))))"

definition handle :: "front_env \<Rightarrow> front_req \<Rightarrow> front \<Rightarrow> http_response \<times> front" where
  "handle en rq fr =
     (let path = pct_decode (fq_path rq);
          query = parse_query (case fq_query rq of Some q \<Rightarrow> q | None \<Rightarrow> []);
          bucket = path_bucket path;
          cv = fe_control en
      in if fq_method rq = ''OPTIONS'' then handle_preflight en bucket query (lower_headers (fq_headers rq)) fr
         else (case authenticate en rq path query of
           Inl e \<Rightarrow> (s3_access_denied e, fr)
         | Inr access_key_id \<Rightarrow>
         (case cv_access_key cv access_key_id of
           None \<Rightarrow> (s3_access_denied ''unknown access key'', fr)
         | Some key \<Rightarrow>
             (let pid = ak_project_id key
              in if \<not> owned_by cv (ak_tenant_id key) pid then
                   (s3_access_denied ''access key not valid for the current project owner'', fr)
                 else (case project_entry en pid fr of
                   (False, fr) \<Rightarrow> (error_xml 500 ''InternalError'' ''object store unavailable'', fr)
                 | (True, fr) \<Rightarrow>
                     (if \<not> path_has_key path \<and> has_param ''cors'' query then
                        (case handle_bucket_cors en (fq_method rq) bucket (fr_store en pid fr) of
                           (resp, st) \<Rightarrow> (resp, set_store pid st fr))
                      else
                        (case serve en rq path query (cv_quota cv pid) (fr_store en pid fr) (fr_usage en pid fr) of
                           (resp, st, u) \<Rightarrow> (resp, set_usage pid u (set_store pid st fr)))))))))"

section \<open>Whose store a request reaches\<close>

text \<open>The project a request is served for: the one its signature's key belongs to, if its tenant owns the project now.\<close>

definition served_project :: "front_env \<Rightarrow> front_req \<Rightarrow> string option" where
  "served_project en rq =
     (case authenticate en rq (pct_decode (fq_path rq)) (parse_query (case fq_query rq of Some q \<Rightarrow> q | None \<Rightarrow> [])) of
        Inl _ \<Rightarrow> None
      | Inr ak \<Rightarrow>
          (case cv_access_key (fe_control en) ak of
             None \<Rightarrow> None
           | Some key \<Rightarrow> if owned_by (fe_control en) (ak_tenant_id key) (ak_project_id key) then Some (ak_project_id key) else None))"

text \<open>A key signed this request for the service's host.\<close>

definition signed_by :: "front_env \<Rightarrow> front_req \<Rightarrow> string \<Rightarrow> bool" where
  "signed_by en rq ak \<longleftrightarrow>
     (let path = pct_decode (fq_path rq); query = parse_query (case fq_query rq of Some q \<Rightarrow> q | None \<Rightarrow> []);
          secret = (\<lambda>k. map_option ak_secret_key (cv_access_key (fe_control en) k))
      in \<exists>host \<in> set (host_candidates (fe_public_host en)).
           verify_presigned (fe_crypto en) (fq_method rq) host path query secret (fe_unix en) = Inr ak
           \<or> (\<exists>a. verify_header (fe_crypto en) (fq_method rq) host path query (lower_headers (fq_headers rq)) a secret (fe_unix en) = Inr ak))"

lemma auth_loop_Inr: "auth_loop verify hosts (Inl e) = Inr k \<Longrightarrow> \<exists>h \<in> set hosts. verify h = Inr k"
  by (induction hosts arbitrary: e) (auto split: sum.splits)

lemma authenticate_signed:
  "authenticate en rq (pct_decode (fq_path rq)) (parse_query (case fq_query rq of Some q \<Rightarrow> q | None \<Rightarrow> [])) = Inr ak \<Longrightarrow> signed_by en rq ak"
  by (auto simp: authenticate_def signed_by_def Let_def split: if_splits option.splits dest!: auth_loop_Inr)

lemma served_project_Some:
  assumes "served_project en rq = Some pid"
  obtains ak key where "signed_by en rq ak" "cv_access_key (fe_control en) ak = Some key" "ak_project_id key = pid"
    "owned_by (fe_control en) (ak_tenant_id key) pid"
  using assms authenticate_signed[of en rq]
  by (auto simp: served_project_def split: sum.splits option.splits if_splits)

text \<open>Two states that show one project the same store and the same entry.\<close>

definition same_project :: "string \<Rightarrow> front \<Rightarrow> front \<Rightarrow> bool" where
  "same_project pid fr fr2 \<longleftrightarrow> map_of (fr_stores fr) pid = map_of (fr_stores fr2) pid \<and> map_of (fr_entries fr) pid = map_of (fr_entries fr2) pid"

lemma project_entry_others: "project_entry en pid fr = (ok, fr') \<Longrightarrow> p \<noteq> pid \<Longrightarrow> map_of (fr_stores fr') p = map_of (fr_stores fr) p"
  by (auto simp: project_entry_def Let_def split: if_splits option.splits)

lemma project_entry_same:
  "same_project pid fr fr2 \<Longrightarrow> project_entry en pid fr = (ok, fr') \<Longrightarrow> project_entry en pid fr2 = (ok2, fr2') \<Longrightarrow>
     ok = ok2 \<and> same_project pid fr' fr2'"
  by (auto simp: same_project_def project_entry_def Let_def split: if_splits option.splits)

text \<open>The part of \<open>handle\<close> after the project is known.\<close>

definition handle_project :: "front_env \<Rightarrow> front_req \<Rightarrow> string \<Rightarrow> front \<Rightarrow> http_response \<times> front" where
  "handle_project en rq pid fr =
     (let path = pct_decode (fq_path rq); query = parse_query (case fq_query rq of Some q \<Rightarrow> q | None \<Rightarrow> [])
      in case project_entry en pid fr of
           (False, fr) \<Rightarrow> (error_xml 500 ''InternalError'' ''object store unavailable'', fr)
         | (True, fr) \<Rightarrow>
             (if \<not> path_has_key path \<and> has_param ''cors'' query then
                (case handle_bucket_cors en (fq_method rq) (path_bucket path) (fr_store en pid fr) of
                   (resp, st) \<Rightarrow> (resp, set_store pid st fr))
              else
                (case serve en rq path query (cv_quota (fe_control en) pid) (fr_store en pid fr) (fr_usage en pid fr) of
                   (resp, st, u) \<Rightarrow> (resp, set_usage pid u (set_store pid st fr)))))"

lemma handle_served:
  "fq_method rq \<noteq> ''OPTIONS'' \<Longrightarrow> served_project en rq = Some pid \<Longrightarrow> handle en rq fr = handle_project en rq pid fr"
  by (auto simp: served_project_def handle_def handle_project_def Let_def split: sum.splits option.splits if_splits)

lemma handle_refused:
  "fq_method rq \<noteq> ''OPTIONS'' \<Longrightarrow> served_project en rq = None \<Longrightarrow> handle en rq fr = (resp, fr') \<Longrightarrow> rs_status resp = 403 \<and> fr' = fr"
  by (auto simp: served_project_def handle_def Let_def s3_access_denied_def error_xml_def xml_response_def
      split: sum.splits option.splits if_splits)

lemma handle_project_others:
  assumes "handle_project en rq pid fr = (resp, fr')" "p \<noteq> pid"
  shows "map_of (fr_stores fr') p = map_of (fr_stores fr) p"
proof -
  obtain ok fr1 where e: "project_entry en pid fr = (ok, fr1)" by (metis surj_pair)
  have "map_of (fr_stores fr') p = map_of (fr_stores fr1) p"
    using assms e by (auto simp: handle_project_def Let_def set_store_def set_usage_def split: bool.splits if_splits prod.splits)
  then show ?thesis using project_entry_others[OF e assms(2)] by simp
qed

lemma handle_project_same:
  assumes "same_project pid fr fr2" "handle_project en rq pid fr = (resp, fr')" "handle_project en rq pid fr2 = (resp2, fr2')"
  shows "resp2 = resp \<and> same_project pid fr' fr2'"
proof -
  obtain ok fr1 where e: "project_entry en pid fr = (ok, fr1)" by (metis surj_pair)
  obtain ok2 fr12 where e2: "project_entry en pid fr2 = (ok2, fr12)" by (metis surj_pair)
  have s: "ok2 = ok" "same_project pid fr1 fr12" using project_entry_same[OF assms(1) e e2] by simp_all
  then have "fr_store en pid fr12 = fr_store en pid fr1" "fr_usage en pid fr12 = fr_usage en pid fr1"
    by (simp_all add: same_project_def fr_store_def fr_usage_def)
  then show ?thesis
    using assms(2,3) e e2 s
    by (auto simp: handle_project_def Let_def same_project_def set_store_def set_usage_def split: bool.splits if_splits prod.splits)
qed

text \<open>
  The one thing an unsigned preflight is told: the CORS rules of a bucket in the store of the project that the credential in
  its query belongs to, read against the origin, method and headers it asks about.
\<close>

definition preflight_told :: "front_env \<Rightarrow> front_req \<Rightarrow> front \<Rightarrow> http_response \<Rightarrow> bool" where
  "preflight_told en rq fr resp \<longleftrightarrow>
     (\<exists>cred key st cfg origin m hs grant.
        query_get ''X-Amz-Credential'' (parse_query (case fq_query rq of Some q \<Rightarrow> q | None \<Rightarrow> [])) = Some cred
        \<and> cv_access_key (fe_control en) (hd (split_char CHR ''/'' cred)) = Some key
        \<and> owned_by (fe_control en) (ak_tenant_id key) (ak_project_id key)
        \<and> map_of (fr_stores fr) (ak_project_id key) = Some st
        \<and> get_bucket_cors (path_bucket (pct_decode (fq_path rq))) st = Inr (Some cfg)
        \<and> map_of (lower_headers (fq_headers rq)) ''origin'' = Some origin
        \<and> map_of (lower_headers (fq_headers rq)) ''access-control-request-method'' = Some m
        \<and> match_preflight cfg origin m hs = Some grant \<and> resp = preflight_response grant)"

lemma project_entry_keeps_stores:
  "project_entry en pid fr = (ok, fr') \<Longrightarrow> map_of (fr_stores fr) pid \<noteq> None \<Longrightarrow> fr_stores fr' = fr_stores fr"
  by (auto simp: project_entry_def Let_def split: if_splits option.splits)

lemma resolve_store_for_preflight_keeps_stores: "fr_stores (snd (resolve_store_for_preflight en query fr)) = fr_stores fr"
  by (auto simp: resolve_store_for_preflight_def dest: project_entry_keeps_stores split: option.splits prod.splits bool.splits)

lemma resolve_store_for_preflight_Some:
  assumes "resolve_store_for_preflight en query fr = (Some pid, fr')"
  obtains cred key st where "query_get ''X-Amz-Credential'' query = Some cred"
    "cv_access_key (fe_control en) (hd (split_char CHR ''/'' cred)) = Some key" "ak_project_id key = pid"
    "owned_by (fe_control en) (ak_tenant_id key) pid" "map_of (fr_stores fr) pid = Some st"
  using assms by (auto simp: resolve_store_for_preflight_def split: option.splits prod.splits bool.splits if_splits)

lemma handle_preflight_reads_rules:
  assumes "fq_method rq = ''OPTIONS''" "handle en rq fr = (resp, fr')"
  shows "fr_stores fr' = fr_stores fr \<and> (rs_status resp = 403 \<or> preflight_told en rq fr resp)"
proof -
  let ?q = "parse_query (case fq_query rq of Some q \<Rightarrow> q | None \<Rightarrow> [])"
  let ?h = "lower_headers (fq_headers rq)"
  obtain p fr1 where r: "resolve_store_for_preflight en ?q fr = (p, fr1)" by (metis surj_pair)
  have s: "fr_stores fr1 = fr_stores fr" using resolve_store_for_preflight_keeps_stores[of en ?q fr] r by simp
  have h: "handle_preflight en (path_bucket (pct_decode (fq_path rq))) ?q ?h fr = (resp, fr')"
    using assms by (simp add: handle_def Let_def)
  have d: "rs_status preflight_denied = 403" "rs_status (s3_access_denied e) = 403" for e
    by (simp_all add: preflight_denied_def status_only_def s3_access_denied_def error_xml_def xml_response_def)
  show ?thesis
  proof (cases "\<exists>origin m pid cfg. map_of ?h ''origin'' = Some origin \<and> map_of ?h ''access-control-request-method'' = Some m \<and> p = Some pid
      \<and> get_bucket_cors (path_bucket (pct_decode (fq_path rq))) (fr_store en pid fr1) = Inr (Some cfg)")
    case False
    then show ?thesis using h r s d
      by (auto simp: handle_preflight_def split: option.splits sum.splits)
  next
    case True
    then obtain origin m pid cfg where o: "map_of ?h ''origin'' = Some origin" "map_of ?h ''access-control-request-method'' = Some m" "p = Some pid"
      and c: "get_bucket_cors (path_bucket (pct_decode (fq_path rq))) (fr_store en pid fr1) = Inr (Some cfg)" by blast
    obtain cred key st where k: "query_get ''X-Amz-Credential'' ?q = Some cred"
      "cv_access_key (fe_control en) (hd (split_char CHR ''/'' cred)) = Some key" "ak_project_id key = pid"
      "owned_by (fe_control en) (ak_tenant_id key) pid" "map_of (fr_stores fr) pid = Some st"
      using resolve_store_for_preflight_Some r o(3) by metis
    have "fr_store en pid fr1 = st" using s k(5) by (simp add: fr_store_def)
    with h r o c s d k show ?thesis
      by (fastforce simp: handle_preflight_def preflight_told_def Let_def split: option.splits)
  qed
qed

text \<open>
  C3. Tenants do not reach each other's objects. An OPTIONS request, which browsers never sign, changes no store and is answered
  403 or told the CORS rules of a bucket of the project its credential names, if the key's tenant owns that project now, and
  nothing else. Any other request that is not signed with the key of a project whose tenant owns the project now is answered
  403 and changes nothing. Otherwise the request is served for that project alone: the stores of all other projects stay as
  they are, and the answer and what becomes of the project's own store are the same whatever the other projects hold.
\<close>

theorem tenant_isolation:
  assumes "handle en rq fr = (resp, fr')"
  shows "if fq_method rq = ''OPTIONS'' then fr_stores fr' = fr_stores fr \<and> (rs_status resp = 403 \<or> preflight_told en rq fr resp)
         else case served_project en rq of
           None \<Rightarrow> rs_status resp = 403 \<and> fr' = fr
         | Some pid \<Rightarrow>
             (\<exists>ak key. signed_by en rq ak \<and> cv_access_key (fe_control en) ak = Some key \<and> ak_project_id key = pid
                \<and> owned_by (fe_control en) (ak_tenant_id key) pid)
             \<and> (\<forall>p. p \<noteq> pid \<longrightarrow> map_of (fr_stores fr') p = map_of (fr_stores fr) p)
             \<and> (\<forall>fr2. same_project pid fr fr2 \<longrightarrow>
                  fst (handle en rq fr2) = resp \<and> map_of (fr_stores (snd (handle en rq fr2))) pid = map_of (fr_stores fr') pid)"
proof (cases "fq_method rq = ''OPTIONS''")
  case True
  then show ?thesis using handle_preflight_reads_rules[OF True assms] by simp
next
  case m: False
  show ?thesis
  proof (cases "served_project en rq")
    case None
    then show ?thesis using handle_refused[OF m _ assms] m by simp
  next
    case (Some pid)
    note h = handle_served[OF m Some]
    have r: "handle_project en rq pid fr = (resp, fr')" using assms h by simp
    have s: "fst (handle en rq fr2) = resp \<and> map_of (fr_stores (snd (handle en rq fr2))) pid = map_of (fr_stores fr') pid"
      if "same_project pid fr fr2" for fr2
      using handle_project_same[OF that r, of "fst (handle en rq fr2)" "snd (handle en rq fr2)"] h by (simp add: same_project_def)
    obtain ak key where "signed_by en rq ak" "cv_access_key (fe_control en) ak = Some key" "ak_project_id key = pid"
      "owned_by (fe_control en) (ak_tenant_id key) pid" by (rule served_project_Some[OF Some])
    then show ?thesis using Some s m handle_project_others[OF r] by auto
  qed
qed

text \<open>A signed request of one project next to the store of another.\<close>

definition demo_url :: string where
  "demo_url = presign demo_crypto ''GET'' ''s3.test'' ''/b/a key'' ''AK1'' ''top'' ''eu'' 3600 1700000000"

definition demo_front_req :: front_req where
  "demo_front_req =
     \<lparr>fq_method = ''GET'', fq_path = fst (the (split_once CHR ''?'' demo_url)), fq_query = Some (snd (the (split_once CHR ''?'' demo_url))),
      fq_headers = []\<rparr>"

definition demo_walk :: usage_walk where
  "demo_walk = \<lparr>uw_start = 0, uw_bytes = Some 0, uw_counts = Some (0, 0), uw_end = 0\<rparr>"

definition demo_quota :: quota_limits where
  "demo_quota = \<lparr>ql_storage_bytes_max = 10, ql_bandwidth_bytes_per_month = 0, ql_build_seconds_per_month = 0, ql_max_objects = 5, ql_max_buckets = 5\<rparr>"

definition demo_control :: control_view where
  "demo_control =
     \<lparr>cv_access_key = (\<lambda>ak. if ak = ''AK1'' then Some \<lparr>ak_project_id = ''p1'', ak_tenant_id = ''t'', ak_secret_key = ''top''\<rparr> else None),
      cv_owner = (\<lambda>p. Inr (Some (Some ''t''))), cv_quota = (\<lambda>_. demo_quota), cv_authenticate = (\<lambda>_. Inr None)\<rparr>"

definition demo_front_env :: front_env where
  "demo_front_env =
     \<lparr>fe_crypto = demo_crypto, fe_public_host = ''s3.test'', fe_unix = 1700000100, fe_instant = 0, fe_display = (\<lambda>_. []), fe_http = demo_http,
      fe_walk = demo_walk, fe_control = demo_control, fe_current = True, fe_open = True, fe_empty = demo_old, fe_victim = [],
      fe_cors_body = None, fe_uri_ok = (\<lambda>_. True), fe_route = (\<lambda>_. RouteObject ''buk'' ''k''), fe_params = (\<lambda>_. [])\<rparr>"

definition demo_front :: front where
  "demo_front = \<lparr>fr_stores = [(''p2'', demo_old)], fr_entries = []\<rparr>"

lemma demo_served: "served_project demo_front_env demo_front_req = Some ''p1''"
proof -
  have u: "server_view demo_url = demo_signed" by (simp add: demo_url_def demo_signed_def)
  have "CHR ''?'' \<in> set demo_url" by (simp add: demo_url_def presign_def Let_def)
  then obtain p q where s: "split_once CHR ''?'' demo_url = Some (p, q)" by (metis split_once_None_iff option.exhaust surj_pair)
  have v: "pct_decode (fq_path demo_front_req) = fst demo_signed" "parse_query q = snd demo_signed" "fq_query demo_front_req = Some q"
    using u s by (simp_all add: server_view_def demo_front_req_def flip: u)
  have k: "(\<lambda>akid. map_option ak_secret_key (cv_access_key (fe_control demo_front_env) akid)) = demo_secret"
    by (auto simp: demo_front_env_def demo_control_def demo_secret_def)
  have m: "fq_method demo_front_req = ''GET''" "fe_crypto demo_front_env = demo_crypto" "fe_unix demo_front_env = 1700000100"
    "fe_public_host demo_front_env = ''s3.test''" by (simp_all add: demo_front_req_def demo_front_env_def)
  have x: "has_param ''X-Amz-Signature'' (snd demo_signed)"
    unfolding demo_signed_def by (subst presigned_url_read; simp add: ascii_utf8 ascii_def has_param_def)
  have "authenticate demo_front_env demo_front_req (fst demo_signed) (snd demo_signed) = Inr ''AK1''"
    unfolding authenticate_def Let_def k m if_P[OF x] using demo_accepts[of 1700000100] by (simp add: host_candidates_def)
  then show ?thesis unfolding served_project_def v option.case by (simp add: demo_front_env_def demo_control_def owned_by_def)
qed

theorem tenant_isolation_witness:
  "\<exists>resp fr'. handle demo_front_env demo_front_req demo_front = (resp, fr') \<and> served_project demo_front_env demo_front_req = Some ''p1''
     \<and> signed_by demo_front_env demo_front_req ''AK1'' \<and> map_of (fr_stores fr') ''p2'' = Some demo_old"
proof -
  obtain resp fr' where h: "handle demo_front_env demo_front_req demo_front = (resp, fr')" by (metis surj_pair)
  have m: "fq_method demo_front_req \<noteq> ''OPTIONS''" by (simp add: demo_front_req_def)
  have s: "map_of (fr_stores fr') ''p2'' = Some demo_old" and
    a: "\<exists>ak key. signed_by demo_front_env demo_front_req ak \<and> cv_access_key (fe_control demo_front_env) ak = Some key"
    using tenant_isolation[OF h] m demo_served by (auto simp: demo_front_def)
  then have "signed_by demo_front_env demo_front_req ''AK1''"
    by (auto simp: demo_front_env_def demo_control_def split: if_splits)
  then show ?thesis using h s demo_served by blast
qed

section \<open>Reservations\<close>

text \<open>What an accepted reservation does to the record, and what it was checked against.\<close>

lemma reserve_usage_None:
  assumes "reserve_usage len adds quota u = (None, u')" "us_base_bytes u + us_reserved_bytes u \<le> u64_max"
    "us_base_objects u + us_reserved_objects u \<le> u64_max" "ql_storage_bytes_max quota < u64_max" "ql_max_objects quota < u64_max"
  shows "us_base_bytes u' = us_base_bytes u \<and> us_base_objects u' = us_base_objects u
    \<and> us_reserved_bytes u' = us_reserved_bytes u + len \<and> us_reserved_objects u' = us_reserved_objects u + of_bool adds
    \<and> (len > 0 \<longrightarrow> us_base_bytes u + us_reserved_bytes u + len \<le> ql_storage_bytes_max quota)
    \<and> (adds \<longrightarrow> us_base_objects u + us_reserved_objects u + 1 \<le> ql_max_objects quota)"
proof -
  have c: "saturating_add (saturating_add x y) z \<le> q \<Longrightarrow> q < u64_max \<Longrightarrow> x + y + z \<le> q" for x y z q
    by (auto simp: saturating_add_def split: if_splits)
  have l: "len > 0 \<longrightarrow> us_base_bytes u + us_reserved_bytes u + len \<le> ql_storage_bytes_max quota"
    using assms(1,4) c[of "us_base_bytes u" "us_reserved_bytes u" len] by (auto simp: reserve_usage_def Let_def split: if_splits)
  have o: "adds \<longrightarrow> us_base_objects u + us_reserved_objects u + 1 \<le> ql_max_objects quota"
    using assms(1,5) c[of "us_base_objects u" "us_reserved_objects u" 1] by (auto simp: reserve_usage_def Let_def split: if_splits)
  have "u' = (if adds then u\<lparr>us_reserved_objects := saturating_add (us_reserved_objects u) 1\<rparr> else u)
              \<lparr>us_reserved_bytes := saturating_add (us_reserved_bytes u) len\<rparr>"
    using assms(1) by (auto simp: reserve_usage_def Let_def split: if_splits)
  moreover have "saturating_add (us_reserved_bytes u) len = us_reserved_bytes u + len" using l assms(2,4) by (cases "len > 0") (simp_all add: saturating_add_def)
  moreover have "adds \<longrightarrow> saturating_add (us_reserved_objects u) 1 = us_reserved_objects u + 1" using o assms(5) by (auto simp: saturating_add_def)
  ultimately show ?thesis using l o by simp
qed

definition demo_usage :: "instant \<Rightarrow> nat \<Rightarrow> usage" where
  "demo_usage t r = \<lparr>us_base_bytes = 0, us_base_objects = 0, us_base_buckets = 0, us_sampled_at = t,
     us_reserved_bytes = r, us_reserved_objects = 0, us_reserved_buckets = 0\<rparr>"

text \<open>
  A sample that is adopted while a write holds a reservation takes the reservation out of the record; when that write then
  fails, its release takes out the reservation of another write. Here one write reserves six of ten bytes, the footprint is
  walked, a second write reserves six, the first fails and is released, and a third reserves six: the second and the third
  are both in, and land twelve.
\<close>

lemma late_release_breaks_the_cap:
  "\<exists>u1 u2 u3. reserve_usage 6 False demo_quota (demo_usage 0 0) = (None, u1)
     \<and> usage_stale (Suc QUOTA_TTL) u1 \<and> reserve_usage 6 False demo_quota (adopt_sample (Suc QUOTA_TTL) 0 0 0 u1) = (None, u2)
     \<and> reserve_usage 6 False demo_quota (release_reservation 6 False u2) = (None, u3)
     \<and> ql_storage_bytes_max demo_quota < 6 + 6"
proof -
  have r: "reserve_usage 6 False demo_quota (demo_usage t 0) = (None, demo_usage t 6)" for t
    by (simp add: reserve_usage_def demo_quota_def demo_usage_def saturating_add_def u64_max_def Let_def)
  have "usage_stale (Suc QUOTA_TTL) (demo_usage 0 6)" by (simp add: usage_stale_def demo_usage_def)
  moreover have "adopt_sample (Suc QUOTA_TTL) 0 0 0 (demo_usage 0 6) = demo_usage (Suc QUOTA_TTL) 0"
    by (simp add: adopt_sample_def usage_stale_def demo_usage_def)
  moreover have "release_reservation 6 False (demo_usage t 6) = demo_usage t 0" for t by (simp add: release_reservation_def demo_usage_def)
  moreover have "ql_storage_bytes_max demo_quota < 6 + 6" by (simp add: demo_quota_def)
  ultimately show ?thesis using r[of 0] r[of "Suc QUOTA_TTL"]
    by (intro exI[of _ "demo_usage 0 6"] exI[of _ "demo_usage (Suc QUOTA_TTL) 6"]) simp
qed

section \<open>The console\<close>

datatype json = JStr string | JNum nat | JBool bool | JNull | JList "json list" | JObj "(string \<times> json) list"

datatype console_body = ConsoleEmpty | ConsoleJson json | ConsoleObject "(string \<times> string) list" "seg_ref list" nat

type_synonym console_response = "nat \<times> console_body"

definition json_error :: "nat \<Rightarrow> string \<Rightarrow> console_response" where
  "json_error status msg = (status, ConsoleJson (JObj [(''error'', JStr msg)]))"

definition console_internal :: console_response where "console_internal = json_error 500 ''internal error''"

definition reservation_json_error :: "http_response \<Rightarrow> console_response" where
  "reservation_json_error resp =
     (let status = rs_status resp
      in json_error status
           (if status = 409 then ''bucket quota exceeded''
            else if status = 507 then ''storage or object-count quota exceeded''
            else ''quota check temporarily unavailable''))"

text \<open>A key's last path segment as a file name.\<close>

definition filename_char :: "char \<Rightarrow> bool" where
  "filename_char c \<longleftrightarrow>
     (let n = (of_char c :: nat) in 65 \<le> n \<and> n \<le> 90 \<or> 97 \<le> n \<and> n \<le> 122 \<or> 48 \<le> n \<and> n \<le> 57) \<or> c \<in> set ''.-_ ()''"

text \<open>A character that is not ASCII is one underscore for all its bytes; the continuation bytes are dropped.\<close>

definition sanitize_filename :: "string \<Rightarrow> string" where
  "sanitize_filename key =
     (let base = last (split_char CHR ''/'' key);
          cleaned = map (\<lambda>c. if filename_char c then c else CHR ''_'') (filter (\<lambda>c. \<not> utf8_cont (char_byte c)) base);
          trimmed = str_trim cleaned
      in if trimmed = [] then ''download'' else trimmed)"

definition console_auth :: "front_env \<Rightarrow> http_headers \<Rightarrow> string \<Rightarrow> front \<Rightarrow> (console_response + unit) \<times> front" where
  "console_auth en headers pid fr =
     (case Option.bind (header_str headers ''authorization'') (strip_prefix ''Bearer '') of
        None \<Rightarrow> (Inl (json_error 401 ''missing bearer token''), fr)
      | Some t \<Rightarrow>
     (if str_trim t = [] then (Inl (json_error 401 ''missing bearer token''), fr) else
     (case cv_authenticate (fe_control en) (str_trim t) of
        Inl _ \<Rightarrow> (Inl (json_error 500 ''auth unavailable''), fr)
      | Inr None \<Rightarrow> (Inl (json_error 401 ''invalid token''), fr)
      | Inr (Some tenant) \<Rightarrow>
     (case cv_owner (fe_control en) pid of
        Inl _ \<Rightarrow> (Inl (json_error 500 ''lookup failed''), fr)
      | Inr owner \<Rightarrow>
          (if owner \<noteq> Some (Some tenant) then (Inl (json_error 404 ''project not found''), fr)
           else (case project_entry en pid fr of
                   (False, fr) \<Rightarrow> (Inl (json_error 500 ''object store unavailable''), fr)
                 | (True, fr) \<Rightarrow> (Inr (), fr)))))))"

text \<open>Every console handler starts with \<open>console_auth\<close> and then works on the project's store and usage.\<close>

definition console_call ::
  "front_env \<Rightarrow> http_headers \<Rightarrow> string \<Rightarrow> (obj_store \<Rightarrow> usage \<Rightarrow> console_response \<times> obj_store \<times> usage) \<Rightarrow> front \<Rightarrow> console_response \<times> front" where
  "console_call en headers pid f fr =
     (case console_auth en headers pid fr of
        (Inl r, fr) \<Rightarrow> (r, fr)
      | (Inr _, fr) \<Rightarrow>
          (case f (fr_store en pid fr) (fr_usage en pid fr) of (r, st, u) \<Rightarrow> (r, set_usage pid u (set_store pid st fr))))"

definition console_list_buckets :: "front_env \<Rightarrow> obj_store \<Rightarrow> usage \<Rightarrow> console_response \<times> obj_store \<times> usage" where
  "console_list_buckets en st u =
     ((case list_buckets (he_index (fe_http en)) st of
         Inr buckets \<Rightarrow> (200, ConsoleJson (JObj [(''buckets'', JList (map (\<lambda>name. JObj [(''name'', JStr name)]) buckets))]))
       | Inl e \<Rightarrow> console_internal), st, u)"

definition console_create_bucket :: "front_env \<Rightarrow> string \<Rightarrow> quota_limits \<Rightarrow> obj_store \<Rightarrow> usage \<Rightarrow> console_response \<times> obj_store \<times> usage" where
  "console_create_bucket en req_name quota st u =
     (let name = str_trim req_name;
          gate = (if bucket_exists name st \<noteq> Inr True
                  then (case reserve_bucket (fe_walk en) quota u of (Some resp, u) \<Rightarrow> (Some resp, False, u) | (None, u) \<Rightarrow> (None, True, u))
                  else (None, False, u))
      in case gate of
           (Some resp, _, u) \<Rightarrow> (reservation_json_error resp, st, u)
         | (None, reserved, u) \<Rightarrow>
             (case create_bucket (he_req (fe_http en)) name st of
                (Inr _, st) \<Rightarrow> ((201, ConsoleJson (JObj [(''name'', JStr name)])), st, u)
              | (Inl e, st) \<Rightarrow>
                  ((case e of
                      BucketAlreadyExists _ \<Rightarrow> json_error 409 ''bucket already exists''
                    | InvalidBucketName _ \<Rightarrow> json_error 400 (''invalid bucket name (3'' @ [CHR 0xE2, CHR 0x80, CHR 0x93] @ ''63 chars: lowercase letters, digits, hyphens)'')
                    | _ \<Rightarrow> console_internal), st, if reserved then release_bucket_reservation u else u)))"

definition console_delete_bucket :: "front_env \<Rightarrow> string \<Rightarrow> obj_store \<Rightarrow> usage \<Rightarrow> console_response \<times> obj_store \<times> usage" where
  "console_delete_bucket en bucket st u =
     (case delete_bucket (he_req (fe_http en)) bucket st of
        (Inr _, st) \<Rightarrow> ((204, ConsoleEmpty), st, invalidate_usage_sample (fe_instant en) u)
      | (Inl e, st) \<Rightarrow>
          ((case e of
              BucketNotEmpty _ \<Rightarrow> json_error 409 ''bucket not empty''
            | NoSuchBucket _ \<Rightarrow> json_error 404 ''bucket not found''
            | InvalidBucketName _ \<Rightarrow> json_error 400 ''invalid bucket name''
            | _ \<Rightarrow> console_internal), st, u))"

definition json_opt :: "string option \<Rightarrow> json" where "json_opt v = (case v of Some s \<Rightarrow> JStr s | None \<Rightarrow> JNull)"

definition console_list_objects :: "string \<Rightarrow> http_query \<Rightarrow> obj_store \<Rightarrow> usage \<Rightarrow> console_response \<times> obj_store \<times> usage" where
  "console_list_objects bucket q st u =
     (let prefix = (case map_of q ''prefix'' of Some p \<Rightarrow> p | None \<Rightarrow> []);
          delim = (case map_of q ''delimiter'' of Some d \<Rightarrow> d | None \<Rightarrow> ''/'');
          token = (case map_of q ''token'' of Some (c # cs) \<Rightarrow> Some (c # cs) | _ \<Rightarrow> None);
          max_keys = (case Option.bind (map_of q ''max_keys'') (parse_uint 64) of Some n \<Rightarrow> n | None \<Rightarrow> 100)
      in case list_v2 bucket prefix (if delim = [] then None else Some delim) token max_keys st of
           Inr page \<Rightarrow>
             ((200, ConsoleJson (JObj
                [(''prefixes'', JList (map JStr (lp_common_prefixes page))),
                 (''objects'', JList (map (\<lambda>m. JObj
                    [(''key'', JStr (om_key m)), (''size'', JNum (om_size m)), (''etag'', JStr (om_etag m)),
                     (''content_type'', JStr (om_content_type m)), (''last_modified'', JNum (om_last_modified m))]) (lp_objects page))),
                 (''is_truncated'', JBool (lp_is_truncated page)),
                 (''next_token'', json_opt (lp_next_continuation_token page))])), st, u)
         | Inl (NoSuchBucket _) \<Rightarrow> (json_error 404 ''bucket not found'', st, u)
         | Inl (InvalidBucketName _) \<Rightarrow> (json_error 400 ''invalid bucket name'', st, u)
         | Inl _ \<Rightarrow> (console_internal, st, u))"

definition console_key :: "string option \<Rightarrow> string option" where
  "console_key v = (case v of Some (c # cs) \<Rightarrow> Some (c # cs) | _ \<Rightarrow> None)"

definition console_get_object :: "front_env \<Rightarrow> string \<Rightarrow> http_query \<Rightarrow> obj_store \<Rightarrow> usage \<Rightarrow> console_response \<times> obj_store \<times> usage" where
  "console_get_object en bucket q st u =
     (case console_key (map_of q ''key'') of
        None \<Rightarrow> (json_error 400 ''missing key'', st, u)
      | Some key \<Rightarrow>
          (case get_object (he_others (fe_http en)) bucket key st of
             (Inr (m, segs), st) \<Rightarrow>
               (let disp = (if map_of q ''download'' = Some ''1'' \<or> map_of q ''download'' = Some ''true''
                            then ''attachment; filename='' @ [CHR 0x22] @ sanitize_filename key @ [CHR 0x22] else ''inline'')
                in ((200, ConsoleObject
                      [(''content-type'', om_content_type m), (''content-length'', show_nat (om_size m)),
                       (''etag'', quoted (om_etag m)), (''content-disposition'', disp)] segs (om_size m)), st, u))
           | (Inl e, st) \<Rightarrow>
               ((case e of
                   NoSuchKey _ \<Rightarrow> json_error 404 ''not found''
                 | NoSuchBucket _ \<Rightarrow> json_error 404 ''not found''
                 | InvalidKey _ \<Rightarrow> json_error 400 ''invalid request''
                 | InvalidBucketName _ \<Rightarrow> json_error 400 ''invalid request''
                 | _ \<Rightarrow> console_internal), st, u)))"

definition console_put_object ::
  "front_env \<Rightarrow> string \<Rightarrow> string \<Rightarrow> http_headers \<Rightarrow> quota_limits \<Rightarrow> obj_store \<Rightarrow> usage \<Rightarrow> console_response \<times> obj_store \<times> usage" where
  "console_put_object en bucket raw_query headers quota st u =
     (case console_key (query_get ''key'' (parse_query raw_query)) of
        None \<Rightarrow> (json_error 400 ''missing key'', st, u)
      | Some key \<Rightarrow>
     (case write_len headers of
        None \<Rightarrow> (json_error 411 ''upload requires a Content-Length'', st, u)
      | Some len \<Rightarrow>
     (let existing = existing_size (Some (bucket, key)) st;
          net_bytes = len - (case existing of Some n \<Rightarrow> n | None \<Rightarrow> 0)
      in case refresh_and_reserve (fe_walk en) net_bytes (existing = None) quota u of
           (Some resp, u) \<Rightarrow> (reservation_json_error resp, st, u)
         | (None, u) \<Rightarrow>
             (case put_object_capped (he_sha256 (fe_http en)) (he_md5 (fe_http en)) (he_req (fe_http en)) bucket key
                     \<lparr>ub_start = he_start (fe_http en), ub_reads = limit_reads len (he_reads (fe_http en)), ub_sha256 = None, ub_len = Some len\<rparr>
                     (content_type_of headers) None st of
                (Inr m, st) \<Rightarrow>
                  ((200, ConsoleJson (JObj [(''key'', JStr (om_key m)), (''size'', JNum (om_size m)), (''etag'', JStr (om_etag m))])), st, u)
              | (Inl e, st) \<Rightarrow>
                  ((case e of
                      NoSuchBucket _ \<Rightarrow> json_error 404 ''bucket not found''
                    | InvalidKey _ \<Rightarrow> json_error 400 ''invalid key (1 to 1024 bytes)''
                    | ObjTimeout \<Rightarrow> json_error 408 ''upload timed out''
                    | _ \<Rightarrow> console_internal), st, release_reservation net_bytes (existing = None) u)))))"

definition console_delete_object :: "front_env \<Rightarrow> string \<Rightarrow> http_query \<Rightarrow> obj_store \<Rightarrow> usage \<Rightarrow> console_response \<times> obj_store \<times> usage" where
  "console_delete_object en bucket q st u =
     (case console_key (map_of q ''key'') of
        None \<Rightarrow> (json_error 400 ''missing key'', st, u)
      | Some key \<Rightarrow>
          (case delete_object (he_req (fe_http en)) bucket key st of
             (Inr _, st) \<Rightarrow> ((204, ConsoleEmpty), st, invalidate_usage_sample (fe_instant en) u)
           | (Inl e, st) \<Rightarrow>
               ((case e of
                   NoSuchBucket _ \<Rightarrow> json_error 404 ''bucket not found''
                 | InvalidKey _ \<Rightarrow> json_error 400 ''invalid key (1 to 1024 bytes)''
                 | _ \<Rightarrow> console_internal), st, u)))"

text \<open>Without the token of the tenant that owns the project the console changes no store; with it only that project's.\<close>

lemma console_call_isolated:
  assumes "console_call en headers pid f fr = (r, fr')"
  shows "(\<forall>p. p \<noteq> pid \<longrightarrow> map_of (fr_stores fr') p = map_of (fr_stores fr) p)
    \<and> (map_of (fr_stores fr') pid \<noteq> map_of (fr_stores fr) pid \<longrightarrow>
        (\<exists>t tenant. header_str headers ''authorization'' = Some (''Bearer '' @ t)
           \<and> cv_authenticate (fe_control en) (str_trim t) = Inr (Some tenant) \<and> owned_by (fe_control en) tenant pid))"
proof -
  obtain a fr1 where c: "console_auth en headers pid fr = (a, fr1)" by (metis surj_pair)
  have o: "p \<noteq> pid \<Longrightarrow> map_of (fr_stores fr1) p = map_of (fr_stores fr) p" for p
    using c project_entry_others[of en pid fr _ _ p]
    by (auto simp: console_auth_def split: option.splits if_splits sum.splits prod.splits bool.splits)
  have i: "map_of (fr_stores fr1) pid = map_of (fr_stores fr) pid \<or> (\<exists>t tenant. header_str headers ''authorization'' = Some (''Bearer '' @ t)
           \<and> cv_authenticate (fe_control en) (str_trim t) = Inr (Some tenant) \<and> owned_by (fe_control en) tenant pid)"
    and a: "a = Inr () \<Longrightarrow> \<exists>t tenant. header_str headers ''authorization'' = Some (''Bearer '' @ t)
           \<and> cv_authenticate (fe_control en) (str_trim t) = Inr (Some tenant) \<and> owned_by (fe_control en) tenant pid"
    using c by (auto simp: console_auth_def owned_by_def bind_eq_Some_conv strip_prefix_Some_iff
      split: option.splits if_splits sum.splits prod.splits bool.splits)
  show ?thesis
  proof (cases a)
    case (Inl r')
    then show ?thesis using assms c o i by (auto simp: console_call_def)
  next
    case (Inr _)
    then show ?thesis using assms c o a by (auto simp: console_call_def set_store_def set_usage_def split: prod.splits)
  qed
qed

text \<open>A download's file name cannot leave its quotes: no quote, no control character and no separator survives.\<close>

lemma sanitize_filename_safe: "\<forall>c \<in> set (sanitize_filename key). filename_char c"
proof -
  have "set (str_trim s) \<subseteq> set s" for s
    unfolding str_trim_def trim_end_def trim_start_def by (metis set_dropWhileD set_rev subsetI)
  moreover have "\<forall>c \<in> set (map (\<lambda>c. if filename_char c then c else CHR ''_'') s). filename_char c" for s
    by (auto simp: filename_char_def)
  ultimately have "\<forall>c \<in> set (str_trim (map (\<lambda>c. if filename_char c then c else CHR ''_'') s)). filename_char c" for s by blast
  moreover have "\<forall>c \<in> set ''download''. filename_char c" by (simp add: filename_char_def)
  ultimately show ?thesis unfolding sanitize_filename_def Let_def by presburger
qed

end
