(* ===== verification/Obj_Quota.thy ===== *)
theory Obj_Quota
  imports Obj_Front "HOL-Library.Multiset"
begin

text \<open>
  The storage and object caps of a project under concurrent requests (\<open>src/crates/jkbase-server/src/objectstore_service.rs\<close>,
  \<open>handle\<close> from its quota steps on, over the engine of \<open>jkbase-objectstore\<close>). A request is taken in its two halves - the
  gates that reserve, and the router with the reconciliation - and other requests and the sweeps run between them. A ledger of
  slots and reservations carries the proof that the caps hold.
\<close>

section \<open>A ledger of sizes and reservations\<close>

















section \<open>What the engine's calls do to sizes\<close>











































section \<open>What a request does to sizes\<close>




lemma s3_error_not_success: "\<not> is_success (rs_status (s3_error display e))"
  using s3_error_ge[of display e] by (simp add: is_success_def)






section \<open>A request in its two halves\<close>

text \<open>
  What \<open>handle\<close> does before it hands a request to the router - the three gates - and what it does after: the router on the
  body cut off at the declared length, and the reconciliation of the reservation. Other requests run in between.
\<close>

record admitted =
  ad_env :: front_env
  ad_req :: front_req
  ad_path :: string
  ad_query :: "(string \<times> string) list"
  ad_reservation :: "(nat \<times> bool) option"
  ad_body_cap :: "nat option"
  ad_bucket :: bool

definition admit_request ::
  "front_env \<Rightarrow> front_req \<Rightarrow> string \<Rightarrow> (string \<times> string) list \<Rightarrow> quota_limits \<Rightarrow> obj_store \<Rightarrow> usage \<Rightarrow> (http_response + admitted) \<times> usage" where
  "admit_request en rq path query quota st u =
     (case gate_bucket en (fq_method rq) path st quota u of
        (Inl resp, u) \<Rightarrow> (Inl resp, u)
      | (Inr bucket_reserved, u) \<Rightarrow>
     (case gate_uploads en (fq_method rq) query st of
        Some resp \<Rightarrow> (Inl resp, u)
      | None \<Rightarrow>
     (case gate_write en rq path query st quota u of
        (Inl resp, u) \<Rightarrow> (Inl resp, u)
      | (Inr (reservation, body_cap), u) \<Rightarrow>
          (Inr \<lparr>ad_env = en, ad_req = rq, ad_path = path, ad_query = query, ad_reservation = reservation,
                ad_body_cap = body_cap, ad_bucket = bucket_reserved\<rparr>, u))))"

definition routed_env :: "admitted \<Rightarrow> http_env" where
  "routed_env a =
     (case ad_body_cap a of
        Some len \<Rightarrow> (fe_http (ad_env a))\<lparr>he_reads := limit_reads len (he_reads (fe_http (ad_env a)))\<rparr>
      | None \<Rightarrow> fe_http (ad_env a))"

definition route_taken :: "front_env \<Rightarrow> front_req \<Rightarrow> string \<Rightarrow> http_route" where
  "route_taken en rq path = fe_route en (set_canonical_path en rq path)"

definition params_seen :: "front_env \<Rightarrow> front_req \<Rightarrow> http_query" where
  "params_seen en rq = fe_params en (case fq_query rq of Some q \<Rightarrow> q | None \<Rightarrow> [])"

definition finish_request :: "admitted \<Rightarrow> obj_store \<Rightarrow> usage \<Rightarrow> http_response \<times> obj_store \<times> usage" where
  "finish_request a st u =
     (let en = ad_env a; rq = ad_req a;
          (resp, st) = router (fe_display en) (routed_env a) (fq_method rq) (route_taken en rq (ad_path a)) (params_seen en rq) (fq_headers rq) st;
          u = reconcile en (fq_method rq) (rs_status resp) (ad_reservation a) (ad_bucket a) u
      in (stamp_cors (map_of (lower_headers (fq_headers rq)) ''origin'') (fq_method rq) (path_bucket (ad_path a)) st resp, st, u))"

text \<open>The two halves, one after the other, are the request.\<close>

lemma serve_in_halves:
  "serve en rq path query quota st u =
     (case admit_request en rq path query quota st u of
        (Inl resp, u) \<Rightarrow> (resp, st, u)
      | (Inr a, u) \<Rightarrow> finish_request a st u)"
  by (auto simp: serve_def admit_request_def finish_request_def routed_env_def route_taken_def params_seen_def Let_def
      split: prod.splits sum.splits option.splits)

section \<open>Requests against the caps\<close>








subsection \<open>The ledgers of a record\<close>








text \<open>What an admitted request may do to the bytes of a slot, and to its objects, with what it reserved for that.\<close>

definition slot_of :: "admitted \<Rightarrow> string" where
  "slot_of a = (case object_key (ad_path a) of Some (b, k) \<Rightarrow> obj_key b k | None \<Rightarrow> [])"

definition writes_part :: "admitted \<Rightarrow> bool" where
  "writes_part a \<longleftrightarrow> is_object_write (fq_method (ad_req a)) (ad_path a) \<and> is_upload_part (ad_query a)"

definition bytes_entry :: "admitted \<Rightarrow> (string \<times> nat \<times> nat) multiset" where
  "bytes_entry a =
     (case ad_reservation a of None \<Rightarrow> {#}
      | Some (n, _) \<Rightarrow> {#(slot_of a, if writes_part a then 0 else case ad_body_cap a of Some len \<Rightarrow> len | None \<Rightarrow> 0, n)#})"

definition objects_entry :: "admitted \<Rightarrow> (string \<times> nat \<times> nat) multiset" where
  "objects_entry a =
     (case ad_reservation a of None \<Rightarrow> {#} | Some (_, adds) \<Rightarrow> {#(slot_of a, of_bool (\<not> writes_part a), of_bool adds)#})"

definition bytes_due :: "admitted list \<Rightarrow> (string \<times> nat \<times> nat) multiset" where "bytes_due fl = (\<Sum>a\<leftarrow>fl. bytes_entry a)"
definition objects_due :: "admitted list \<Rightarrow> (string \<times> nat \<times> nat) multiset" where "objects_due fl = (\<Sum>a\<leftarrow>fl. objects_entry a)"



subsection \<open>Admission\<close>

lemma due_append [simp]:
  "bytes_due (xs @ ys) = bytes_due xs + bytes_due ys" "objects_due (xs @ ys) = objects_due xs + objects_due ys"
  "bytes_due (a # xs) = bytes_entry a + bytes_due xs" "objects_due (a # xs) = objects_entry a + objects_due xs"
  "bytes_due [] = {#}" "objects_due [] = {#}"
  by (simp_all add: bytes_due_def objects_due_def)












subsection \<open>The rest of a request\<close>










subsection \<open>The caps hold\<close>
















end
