(* ===== verification/Fs_Tree.thy ===== *)
theory Fs_Tree
  imports Rust_Str
begin

text \<open>
  Deployment trees on the host's disk: directories, regular files and symbolic links (what unpacking
  a deployment archive creates), the reads and writes of \<open>crates/jkbase-server/src/layer_plan.rs\<close>
  that must not follow a link (\<open>is_real\<close>, \<open>read_regular\<close>, \<open>write_fresh\<close>, \<open>copy_entry\<close>), and the check
  \<open>validate_deployment_tree\<close> of \<open>crates/jkbase-control/src/api.rs\<close> a tree passes before it goes live.
  A file name is a \<open>str\<close>; I/O failures other than those the tree causes, and changes of the tree
  during an operation, are not modelled.
\<close>

section \<open>Nodes\<close>

text \<open>
  A directory lists its entries; the entries of one directory have distinct names (\<open>fs_wf\<close>). A
  link holds its target. \<open>host\<close> answers what a target names on the host once every link is followed.
\<close>

datatype fnode = FFile string | FDir "(string \<times> fnode) list" | FLink string

type_synonym fs_host = "string \<Rightarrow> fnode option"
type_synonym fs_entries = "(string \<times> fnode) list"

datatype deploy_error =
    EIo | ENotRegular string | ESymlink string | EParse string | ENoRuntime string
  | EUnsafeName string | ETooManyDrives nat | EBlobMissing string | EDigestMismatch string | EPanic

fun fs_wf :: "fnode \<Rightarrow> bool" and fs_wf_entries :: "fs_entries \<Rightarrow> bool" where
  "fs_wf (FFile b) = True"
| "fs_wf (FLink t) = True"
| "fs_wf (FDir es) = fs_wf_entries es"
| "fs_wf_entries [] = True"
| "fs_wf_entries ((n, e) # es) \<longleftrightarrow> n \<notin> fst ` set es \<and> fs_wf e \<and> fs_wf_entries es"

text \<open>The \<open>?\<close> operator: an error returns at once.\<close>

definition try_bind :: "'e + 'a \<Rightarrow> ('a \<Rightarrow> 'e + 'b) \<Rightarrow> 'e + 'b" where
  "try_bind r f = (case r of Inl e \<Rightarrow> Inl e | Inr a \<Rightarrow> f a)"

lemma try_bind_simps [simp]:
  "try_bind (Inl e) f = Inl e"
  "try_bind (Inr a) f = f a"
  by (simp_all add: try_bind_def)

lemma try_bind_Inr_iff [simp]: "try_bind r f = Inr b \<longleftrightarrow> (\<exists>a. r = Inr a \<and> f a = Inr b)"
  by (cases r) auto

lemma try_bind_Inl_iff: "try_bind r f = Inl e \<longleftrightarrow> r = Inl e \<or> (\<exists>a. r = Inr a \<and> f a = Inl e)"
  by (cases r) auto

lemma try_bind_cong [fundef_cong]:
  "r = r' \<Longrightarrow> (\<And>a. r' = Inr a \<Longrightarrow> f a = g a) \<Longrightarrow> try_bind r f = try_bind r' g"
  by (cases r') auto

section \<open>Reading\<close>

fun fs_entry :: "fnode \<Rightarrow> string \<Rightarrow> fnode option" where
  "fs_entry (FDir es) n = map_of es n"
| "fs_entry (FFile b) n = None"
| "fs_entry (FLink t) n = None"

fun fs_read_dir :: "fs_host \<Rightarrow> fnode \<Rightarrow> deploy_error + fs_entries" where
  "fs_read_dir host (FDir es) = Inr es"
| "fs_read_dir host (FFile b) = Inl EIo"
| "fs_read_dir host (FLink t) = (case host t of Some (FDir es) \<Rightarrow> Inr es | _ \<Rightarrow> Inl EIo)"

fun fs_read :: "fs_host \<Rightarrow> fnode \<Rightarrow> deploy_error + string" where
  "fs_read host (FFile b) = Inr b"
| "fs_read host (FDir es) = Inl EIo"
| "fs_read host (FLink t) = (case host t of Some (FFile b) \<Rightarrow> Inr b | _ \<Rightarrow> Inl EIo)"

definition is_symlink :: "fnode option \<Rightarrow> bool" where
  "is_symlink n = (case n of Some (FLink t) \<Rightarrow> True | _ \<Rightarrow> False)"

definition is_file :: "fnode option \<Rightarrow> bool" where
  "is_file n = (case n of Some (FFile b) \<Rightarrow> True | _ \<Rightarrow> False)"

definition is_dir :: "fnode option \<Rightarrow> bool" where
  "is_dir n = (case n of Some (FDir es) \<Rightarrow> True | _ \<Rightarrow> False)"

definition is_real :: "fnode option \<Rightarrow> bool \<Rightarrow> bool" where
  "is_real n want_dir \<longleftrightarrow>
     n \<noteq> None \<and> \<not> is_symlink n \<and> (if want_dir then is_dir n else is_file n)"

definition read_regular :: "fs_host \<Rightarrow> string \<Rightarrow> fnode option \<Rightarrow> deploy_error + string option" where
  "read_regular host path n =
     (case n of
        None \<Rightarrow> Inr None
      | Some m \<Rightarrow> if is_file n then map_sum id Some (fs_read host m) else Inl (ENotRegular path))"

section \<open>Writing and copying\<close>

text \<open>
  \<open>remove_dir_all\<close> and \<open>remove_file\<close> on an entry of a directory: neither follows a link, and each
  fails on the other kind (a link counts as a file for both).
\<close>

definition remove_file :: "string \<Rightarrow> fs_entries \<Rightarrow> deploy_error + fs_entries" where
  "remove_file n es = (if map_of es n = None \<or> is_dir (map_of es n) then Inl EIo else Inr (hdel n es))"

definition remove_dir_all :: "string \<Rightarrow> fs_entries \<Rightarrow> deploy_error + fs_entries" where
  "remove_dir_all n es = (if map_of es n = None \<or> is_file (map_of es n) then Inl EIo else Inr (hdel n es))"

definition create_new :: "string \<Rightarrow> string \<Rightarrow> fs_entries \<Rightarrow> deploy_error + fs_entries" where
  "create_new n b es = (if map_of es n \<noteq> None then Inl EIo else Inr (hupd n (FFile b) es))"

definition write_fresh :: "string \<Rightarrow> string \<Rightarrow> fs_entries \<Rightarrow> deploy_error + fs_entries" where
  "write_fresh n b es =
     try_bind
       (if is_dir (map_of es n) then remove_dir_all n es
        else if map_of es n \<noteq> None then remove_file n es else Inr es)
       (create_new n b)"

fun copy_entry :: "fs_host \<Rightarrow> fnode \<Rightarrow> deploy_error + fnode"
and copy_entries :: "fs_host \<Rightarrow> fs_entries \<Rightarrow> deploy_error + fs_entries" where
  "copy_entry host (FDir es) = try_bind (copy_entries host es) (\<lambda>es'. Inr (FDir es'))"
| "copy_entry host (FLink t) = Inr (FLink t)"
| "copy_entry host (FFile b) = try_bind (fs_read host (FFile b)) (\<lambda>b'. Inr (FFile b'))"
| "copy_entries host [] = Inr []"
| "copy_entries host ((n, e) # es) =
     try_bind (copy_entry host e) (\<lambda>e'.
     try_bind (copy_entries host es) (\<lambda>es'. Inr ((n, e') # es')))"

definition copy_dir_except :: "fs_host \<Rightarrow> fnode \<Rightarrow> string \<Rightarrow> deploy_error + fs_entries" where
  "copy_dir_except host src skip_top =
     try_bind (fs_read_dir host src) (\<lambda>es. copy_entries host (filter (\<lambda>e. fst e \<noteq> skip_top) es))"

section \<open>The activation check of a deployment tree\<close>

text \<open>
  \<open>validate_deployment_tree\<close> of \<open>jkbase-control/src/api.rs\<close>: no link at or under an entry whose
  name starts with an underscore, a directory right under \<open>_servers\<close> excepted.
\<close>

fun walk :: "bool \<Rightarrow> string \<Rightarrow> fnode \<Rightarrow> deploy_error + unit"
and walk_entries :: "bool \<Rightarrow> string \<Rightarrow> fs_entries \<Rightarrow> deploy_error + unit" where
  "walk rootfs_ok rel (FLink t) = Inl (ESymlink rel)"
| "walk rootfs_ok rel (FFile b) = Inr ()"
| "walk rootfs_ok rel (FDir es) = walk_entries rootfs_ok rel es"
| "walk_entries rootfs_ok rel [] = Inr ()"
| "walk_entries rootfs_ok rel ((n, e) # es) =
     (let child_is_rootfs = rootfs_ok \<and> is_dir (Some e)
      in if child_is_rootfs then walk_entries rootfs_ok rel es
         else try_bind (walk False (rel @ ''/'' @ n) e) (\<lambda>_. walk_entries rootfs_ok rel es))"

fun validate_entries :: "fs_entries \<Rightarrow> deploy_error + unit" where
  "validate_entries [] = Inr ()"
| "validate_entries ((n, e) # es) =
     (if \<not> starts_with ''_'' n then validate_entries es
      else try_bind (walk (n = ''_servers'') n e) (\<lambda>_. validate_entries es))"

definition validate_deployment_tree :: "fs_host \<Rightarrow> fnode \<Rightarrow> deploy_error + unit" where
  "validate_deployment_tree host d = try_bind (fs_read_dir host d) validate_entries"

section \<open>What the operations do\<close>

lemma is_symlink_simps [simp]:
  "\<not> is_symlink None" "is_symlink (Some (FLink t))" "\<not> is_symlink (Some (FFile b))" "\<not> is_symlink (Some (FDir es))"
  by (simp_all add: is_symlink_def)

lemma is_file_simps [simp]:
  "\<not> is_file None" "\<not> is_file (Some (FLink t))" "is_file (Some (FFile b))" "\<not> is_file (Some (FDir es))"
  by (simp_all add: is_file_def)

lemma is_dir_simps [simp]:
  "\<not> is_dir None" "\<not> is_dir (Some (FLink t))" "\<not> is_dir (Some (FFile b))" "is_dir (Some (FDir es))"
  by (simp_all add: is_dir_def)

lemma is_file_iff: "is_file n \<longleftrightarrow> (\<exists>b. n = Some (FFile b))"
  by (simp add: is_file_def split: option.splits fnode.splits)

lemma is_dir_iff: "is_dir n \<longleftrightarrow> (\<exists>es. n = Some (FDir es))"
  by (simp add: is_dir_def split: option.splits fnode.splits)

lemma is_symlink_iff: "is_symlink n \<longleftrightarrow> (\<exists>t. n = Some (FLink t))"
  by (simp add: is_symlink_def split: option.splits fnode.splits)

lemma is_real_dir_iff: "is_real n True \<longleftrightarrow> (\<exists>es. n = Some (FDir es))"
  by (auto simp: is_real_def is_dir_iff)

lemma is_real_file_iff: "is_real n False \<longleftrightarrow> (\<exists>b. n = Some (FFile b))"
  by (auto simp: is_real_def is_file_iff)

lemma read_regular_simps [simp]:
  "read_regular host p None = Inr None"
  "read_regular host p (Some (FFile b)) = Inr (Some b)"
  "read_regular host p (Some (FDir es)) = Inl (ENotRegular p)"
  "read_regular host p (Some (FLink t)) = Inl (ENotRegular p)"
  by (simp_all add: read_regular_def)

text \<open>A regular read never looks at what a link names.\<close>

lemma read_regular_host: "read_regular host p n = read_regular host' p n"
  by (cases "the n") (auto simp: read_regular_def is_file_def split: option.splits fnode.splits)

lemma write_fresh_ok: "write_fresh n b es = Inr (hupd n (FFile b) (hdel n es))"
proof (cases "map_of es n")
  case None
  then have "hdel n es = es"
    by (simp add: hdel_filter map_of_eq_None_iff filter_id_conv image_iff) (metis fst_conv)
  then show ?thesis using None by (simp add: write_fresh_def create_new_def)
next
  case (Some m)
  then show ?thesis
    by (cases m) (simp_all add: write_fresh_def create_new_def remove_file_def remove_dir_all_def)
qed

lemma copy_is_identity:
  "copy_entry host e = Inr e"
  "copy_entries host es = Inr es"
  by (induction e and es rule: fs_wf_fs_wf_entries.induct) simp_all

lemma copy_dir_except_FDir [simp]:
  "copy_dir_except host (FDir es) skip = Inr (filter (\<lambda>e. fst e \<noteq> skip) es)"
  by (simp add: copy_dir_except_def copy_is_identity)

lemma fs_wf_entries_distinct: "fs_wf_entries es \<Longrightarrow> distinct (map fst es)"
  by (induction es) (auto simp: image_iff, force)

lemma fs_wf_entries_map_of: "fs_wf_entries es \<Longrightarrow> map_of es n = Some e \<Longrightarrow> fs_wf e"
  by (induction es) (auto split: if_splits)

lemma map_of_filter_key: "map_of (filter (\<lambda>e. fst e \<noteq> k) es) n = (if n = k then None else map_of es n)"
  by (induction es) auto

subsection \<open>Accepted trees\<close>

text \<open>\<open>link_free\<close>: no link at the node or anywhere under it.\<close>

fun link_free :: "fnode \<Rightarrow> bool" and link_free_entries :: "fs_entries \<Rightarrow> bool" where
  "link_free (FFile b) = True"
| "link_free (FLink t) = False"
| "link_free (FDir es) = link_free_entries es"
| "link_free_entries [] = True"
| "link_free_entries ((n, e) # es) \<longleftrightarrow> link_free e \<and> link_free_entries es"

lemma walk_link_free:
  "walk False rel e = Inr () \<longleftrightarrow> link_free e"
  "walk_entries False rel es = Inr () \<longleftrightarrow> link_free_entries es"
  by (induction e and es arbitrary: rel and rel rule: link_free_link_free_entries.induct) simp_all

lemma link_free_map_of: "link_free_entries es \<Longrightarrow> map_of es n = Some e \<Longrightarrow> link_free e"
  by (induction es) (auto split: if_splits)

lemma walk_rootfs_entries:
  "walk_entries True rel es = Inr () \<longleftrightarrow> (\<forall>(n, e) \<in> set es. is_dir (Some e) \<or> link_free e)"
  by (induction es) (auto simp: Let_def walk_link_free split: if_splits)

lemma validate_entries_ok:
  assumes "validate_entries es = Inr ()" "map_of es n = Some e" "starts_with ''_'' n"
  shows "walk (n = ''_servers'') n e = Inr ()"
  using assms by (induction es rule: validate_entries.induct) (auto split: if_splits)

text \<open>
  In an accepted tree a platform entry holds no link at all; \<open>_servers\<close> is no link, and a link
  under it is inside one of its directories.
\<close>

lemma validated_sidecars:
  assumes "validate_deployment_tree host (FDir es) = Inr ()" "map_of es n = Some e" "starts_with ''_'' n"
  shows "if n = ''_servers'' then (\<forall>t. e \<noteq> FLink t) \<and> (\<forall>m c. fs_entry e m = Some c \<longrightarrow> is_dir (Some c) \<or> link_free c)
         else link_free e"
proof -
  have w: "walk (n = ''_servers'') n e = Inr ()"
    using assms validate_entries_ok by (simp add: validate_deployment_tree_def)
  show ?thesis
  proof (cases "n = ''_servers''")
    case True
    with w show ?thesis
      by (cases e) (auto simp: walk_rootfs_entries dest!: map_of_SomeD)
  next
    case False
    with w show ?thesis by (simp add: walk_link_free)
  qed
qed

end
