(* ===== verification/Layer_Plan.thy ===== *)
theory Layer_Plan
  imports Fs_Tree "HOL-Library.Char_ord" "HOL-Library.List_Lexorder"
begin

text \<open>
  The layer plan of a deployment, \<open>crates/jkbase-server/src/layer_plan.rs\<close>: which layer blobs a VM
  gets, in which order, and the device map (\<open>_layers.json\<close>, \<open>crates/jkbase-common/src/layers.rs\<close>)
  that tells the agent which device carries which layer; with the drives \<open>crates/jkbase-orch/src/vm.rs\<close>
  attaches. A \<open>BTreeMap\<close> is an association list; only look-ups in it matter here. Names of layer files
  of the store, written by the host, are plain file names.
\<close>

section \<open>Data\<close>

record verity_params =
  vp_root_hash :: string
  vp_salt :: string
  vp_data_size :: nat

record layer_desc =
  ld_digest :: string
  ld_file :: string
  ld_verity :: "verity_params option"

record platform_manifest =
  pm_base :: layer_desc
  pm_runtimes :: "(string, layer_desc) hmap"

record server_layer_info =
  sl_app_layer :: "string option"
  sl_app_digest :: "string option"
  sl_runtime :: "string option"

text \<open>
  A host path: a file of the layer store, a file of the deployment's \<open>_layers\<close> directory, or some
  other file (the agent's root image, the metadata image, the data disk).
\<close>

datatype host_path = StoreBlob string | AppBlob string | HostFile string

record blob_ref =
  br_path :: host_path
  br_digest :: string
  br_verity :: "verity_params option"

record runtime_layers =
  rl_schema :: nat
  rl_data_device :: "string option"
  rl_servers :: "(string, string list) hmap"
  rl_verity :: "(string, verity_params) hmap"
  rl_database :: "string list option"

record layer_plan =
  lp_layer_paths :: "host_path list"
  lp_runtime_layers :: runtime_layers

datatype image_content = ImgAll | AppNoDb | DbOnly

fun includes_app :: "image_content \<Rightarrow> bool" where
  "includes_app ImgAll = True"
| "includes_app AppNoDb = True"
| "includes_app DbOnly = False"

fun includes_db :: "image_content \<Rightarrow> bool" where
  "includes_db ImgAll = True"
| "includes_db AppNoDb = False"
| "includes_db DbOnly = True"

text \<open>
  What the code takes from outside: the host's files behind a link, SHA-256 in lower-case
  hexadecimal digits, and serde's readers of a server manifest and of \<open>platform.json\<close>.
\<close>

record layer_env =
  le_host :: fs_host
  le_sha256 :: "string \<Rightarrow> string"
  le_parse_info :: "string \<Rightarrow> server_layer_info option"
  le_parse_platform :: "string \<Rightarrow> platform_manifest option"

definition LAYERS_SCHEMA :: nat where
  "LAYERS_SCHEMA = 2"

definition runtime_layers_new :: runtime_layers where
  "runtime_layers_new =
     \<lparr>rl_schema = LAYERS_SCHEMA, rl_data_device = None, rl_servers = [], rl_verity = [], rl_database = None\<rparr>"

section \<open>Names\<close>

definition IMAGE_SELF_RUNTIME :: string where
  "IMAGE_SELF_RUNTIME = ''image/self''"

definition RHYPEDB_RUNTIME :: string where
  "RHYPEDB_RUNTIME = ''rhypedb''"

definition is_self_contained :: "server_layer_info \<Rightarrow> bool" where
  "is_self_contained s \<longleftrightarrow> sl_runtime s = Some IMAGE_SELF_RUNTIME"

definition server_lang :: "server_layer_info \<Rightarrow> string" where
  "server_lang s = (case sl_runtime s of Some l \<Rightarrow> l | None \<Rightarrow> ''bun'')"

definition device_node :: "nat \<Rightarrow> string" where
  "device_node i = ''/dev/vd'' @ [char_of (97 + (i mod 256) mod 26 :: nat)]"

definition is_ascii_hexdigit :: "char \<Rightarrow> bool" where
  "is_ascii_hexdigit c \<longleftrightarrow>
     (let n = of_char c :: nat in 48 \<le> n \<and> n \<le> 57 \<or> 65 \<le> n \<and> n \<le> 70 \<or> 97 \<le> n \<and> n \<le> 102)"

definition is_safe_layer_filename :: "string \<Rightarrow> bool" where
  "is_safe_layer_filename f \<longleftrightarrow>
     length f = length ''sha256-'' + 64 + length ''.erofs'' \<and>
     starts_with ''sha256-'' f \<and> ends_with ''.erofs'' f \<and>
     list_all is_ascii_hexdigit
       (take (length f - length ''.erofs'' - length ''sha256-'') (drop (length ''sha256-'') f))"

definition filename_to_digest :: "string \<Rightarrow> string" where
  "filename_to_digest f =
     (let hex = (case Option.bind (strip_prefix ''sha256-'' f) (strip_suffix ''.erofs'') of
                   Some h \<Rightarrow> h | None \<Rightarrow> f)
      in ''sha256:'' @ hex)"

text \<open>\<open>Path::file_stem\<close> and \<open>Path::extension\<close>: the last dot, unless it starts the name.\<close>

definition rsplit_file_at_dot :: "string \<Rightarrow> string \<times> string option" where
  "rsplit_file_at_dot f =
     (case rsplit_once CHR ''.'' f of
        None \<Rightarrow> (f, None)
      | Some (a, b) \<Rightarrow> if a = [] then (f, None) else (a, Some b))"

definition file_stem :: "string \<Rightarrow> string" where
  "file_stem f = fst (rsplit_file_at_dot f)"

definition extension :: "string \<Rightarrow> string option" where
  "extension f = snd (rsplit_file_at_dot f)"

section \<open>The plan\<close>

definition layer_plan_empty :: "bool \<Rightarrow> layer_plan" where
  "layer_plan_empty has_data_disk =
     \<lparr>lp_layer_paths = [],
      lp_runtime_layers = runtime_layers_new
        \<lparr>rl_data_device := (if has_data_disk then Some (device_node 2) else None)\<rparr>\<rparr>"

text \<open>The file a path names, \<open>Path::exists\<close> (which follows a link) and \<open>sha256_hex\<close>.\<close>

fun blob_node :: "fnode \<Rightarrow> fs_entries \<Rightarrow> host_path \<Rightarrow> fnode option" where
  "blob_node dep store (StoreBlob f) = map_of store f"
| "blob_node dep store (AppBlob f) = Option.bind (fs_entry dep ''_layers'') (\<lambda>d. fs_entry d f)"
| "blob_node dep store (HostFile f) = None"

definition path_exists :: "fs_host \<Rightarrow> fnode option \<Rightarrow> bool" where
  "path_exists host n = (case n of None \<Rightarrow> False | Some (FLink t) \<Rightarrow> host t \<noteq> None | Some _ \<Rightarrow> True)"

definition blob_sha256_hex :: "layer_env \<Rightarrow> fnode option \<Rightarrow> deploy_error + string" where
  "blob_sha256_hex env n =
     (case n of
        None \<Rightarrow> Inl EIo
      | Some m \<Rightarrow> try_bind (fs_read (le_host env) m) (\<lambda>b. Inr (le_sha256 env b)))"

definition read_platform :: "layer_env \<Rightarrow> fs_entries \<Rightarrow> deploy_error + platform_manifest" where
  "read_platform env store =
     (case map_of store ''platform.json'' of
        None \<Rightarrow> Inl EIo
      | Some m \<Rightarrow>
          try_bind (fs_read (le_host env) m) (\<lambda>b.
            case le_parse_platform env b of
              None \<Rightarrow> Inl (EParse ''platform.json'')
            | Some p \<Rightarrow> Inr p))"

fun read_servers :: "layer_env \<Rightarrow> fs_entries \<Rightarrow> string list \<Rightarrow> deploy_error + (string \<times> server_layer_info) list" where
  "read_servers env d [] = Inr []"
| "read_servers env d (p # ps) =
     try_bind (read_regular (le_host env) p (map_of d p)) (\<lambda>r.
       case r of
         None \<Rightarrow> read_servers env d ps
       | Some b \<Rightarrow>
           (case le_parse_info env b of
              None \<Rightarrow> Inl (EParse p)
            | Some info \<Rightarrow>
                try_bind (read_servers env d ps) (\<lambda>rest.
                  Inr (if sl_app_layer info \<noteq> None then (file_stem p, info) # rest else rest))))"

definition gather_servers :: "layer_env \<Rightarrow> fnode \<Rightarrow> image_content \<Rightarrow> deploy_error + (string \<times> server_layer_info) list" where
  "gather_servers env dep content =
     (if includes_app content \<and> is_real (fs_entry dep ''_servers'') True
      then try_bind (fs_read_dir (le_host env) (the (fs_entry dep ''_servers''))) (\<lambda>es.
             read_servers env es (sort (filter (\<lambda>p. extension p = Some ''json'') (map fst es))))
      else Inr [])"

definition plan_has_db :: "fnode \<Rightarrow> image_content \<Rightarrow> bool" where
  "plan_has_db dep content \<longleftrightarrow> includes_db content \<and> is_real (fs_entry dep ''_database.json'') False"

fun push_runtimes :: "platform_manifest \<Rightarrow> string list \<Rightarrow> blob_ref list \<times> (string, nat) hmap
    \<Rightarrow> deploy_error + blob_ref list \<times> (string, nat) hmap" where
  "push_runtimes pf [] st = Inr st"
| "push_runtimes pf (lang # langs) (order, idx) =
     (case map_of (pm_runtimes pf) lang of
        None \<Rightarrow> Inl (ENoRuntime lang)
      | Some desc \<Rightarrow>
          push_runtimes pf langs
            (order @ [\<lparr>br_path = StoreBlob (ld_file desc), br_digest = ld_digest desc, br_verity = ld_verity desc\<rparr>],
             hupd lang (length order) idx))"

fun push_apps :: "fnode \<Rightarrow> fs_entries \<Rightarrow> (string \<times> server_layer_info) list
    \<Rightarrow> blob_ref list \<times> (string, nat) hmap \<Rightarrow> deploy_error + blob_ref list \<times> (string, nat) hmap" where
  "push_apps dep store [] st = Inr st"
| "push_apps dep store ((name, s) # ss) (order, idx) =
     (case sl_app_layer s of
        None \<Rightarrow> Inl EPanic
      | Some f \<Rightarrow>
          if \<not> is_safe_layer_filename f then Inl (EUnsafeName f)
          else
            let digest = (case sl_app_digest s of Some d \<Rightarrow> d | None \<Rightarrow> filename_to_digest f);
                blob = AppBlob f
            in if is_symlink (blob_node dep store blob) \<or> is_symlink (fs_entry dep ''_layers'')
               then Inl (ESymlink f)
               else push_apps dep store ss
                      (order @ [\<lparr>br_path = blob, br_digest = digest, br_verity = None\<rparr>],
                       hupd name (length order) idx))"

definition plan_langs :: "(string \<times> server_layer_info) list \<Rightarrow> bool \<Rightarrow> string list" where
  "plan_langs servers has_db =
     remdups_adj (sort (map (server_lang \<circ> snd) (filter (\<lambda>(_, s). \<not> is_self_contained s) servers)
       @ (if has_db then [RHYPEDB_RUNTIME] else [])))"

record blob_order =
  bo_order :: "blob_ref list"
  bo_runtime_idx :: "(string, nat) hmap"
  bo_app_idx :: "(string, nat) hmap"
  bo_base_dev_idx :: "nat option"

definition any_layered :: "(string \<times> server_layer_info) list \<Rightarrow> bool \<Rightarrow> bool" where
  "any_layered servers has_db \<longleftrightarrow> has_db \<or> list_ex (\<lambda>(_, s). \<not> is_self_contained s) servers"

definition build_order :: "layer_env \<Rightarrow> fnode \<Rightarrow> fs_entries \<Rightarrow> (string \<times> server_layer_info) list \<Rightarrow> bool
    \<Rightarrow> deploy_error + blob_order" where
  "build_order env dep store servers has_db =
     try_bind
       (if any_layered servers has_db
        then try_bind (read_platform env store) (\<lambda>pf.
               let base = \<lparr>br_path = StoreBlob (ld_file (pm_base pf)), br_digest = ld_digest (pm_base pf),
                           br_verity = ld_verity (pm_base pf)\<rparr>
               in try_bind (push_runtimes pf (plan_langs servers has_db) ([base], []))
                    (\<lambda>(order, ridx). Inr (order, ridx, Some 0)))
        else Inr ([], [], None))
       (\<lambda>(order, ridx, bidx).
          try_bind (push_apps dep store servers (order, [])) (\<lambda>(order', aidx).
            Inr \<lparr>bo_order = order', bo_runtime_idx = ridx, bo_app_idx = aidx, bo_base_dev_idx = bidx\<rparr>))"

fun resolve_blobs :: "layer_env \<Rightarrow> fnode \<Rightarrow> fs_entries \<Rightarrow> bool \<Rightarrow> blob_ref list \<Rightarrow> deploy_error + host_path list" where
  "resolve_blobs env dep store verify [] = Inr []"
| "resolve_blobs env dep store verify (b # bs) =
     (let n = blob_node dep store (br_path b)
      in if \<not> path_exists (le_host env) n then Inl (EBlobMissing (br_digest b))
         else
           try_bind
             (if verify
              then let want = (case strip_prefix ''sha256:'' (br_digest b) of Some w \<Rightarrow> w | None \<Rightarrow> br_digest b)
                   in try_bind (blob_sha256_hex env n) (\<lambda>got.
                        if to_ascii_lowercase got = to_ascii_lowercase want then Inr ()
                        else Inl (EDigestMismatch want))
              else Inr ())
             (\<lambda>_. try_bind (resolve_blobs env dep store verify bs) (\<lambda>ps. Inr (br_path b # ps))))"

definition layer_dev :: "nat \<Rightarrow> string" where
  "layer_dev order_idx = device_node (2 + order_idx)"

definition index_dev :: "nat option \<Rightarrow> deploy_error + string" where
  "index_dev i = (case i of None \<Rightarrow> Inl EPanic | Some k \<Rightarrow> Inr (layer_dev k))"

definition server_layers :: "blob_order \<Rightarrow> string \<Rightarrow> server_layer_info \<Rightarrow> deploy_error + string list" where
  "server_layers bo name s =
     try_bind (index_dev (map_of (bo_app_idx bo) name)) (\<lambda>app_dev.
       if is_self_contained s then Inr [app_dev]
       else try_bind (index_dev (map_of (bo_runtime_idx bo) (server_lang s))) (\<lambda>runtime_dev.
            try_bind (index_dev (bo_base_dev_idx bo)) (\<lambda>base_dev.
              Inr [app_dev, runtime_dev, base_dev])))"

fun insert_servers :: "blob_order \<Rightarrow> (string \<times> server_layer_info) list \<Rightarrow> (string, string list) hmap
    \<Rightarrow> deploy_error + (string, string list) hmap" where
  "insert_servers bo [] m = Inr m"
| "insert_servers bo ((name, s) # ss) m =
     try_bind (server_layers bo name s) (\<lambda>layers. insert_servers bo ss (hupd name layers m))"

fun insert_verity :: "nat \<Rightarrow> blob_ref list \<Rightarrow> (string, verity_params) hmap \<Rightarrow> (string, verity_params) hmap" where
  "insert_verity i [] m = m"
| "insert_verity i (b # bs) m =
     insert_verity (Suc i) bs (case br_verity b of Some v \<Rightarrow> hupd (layer_dev i) v m | None \<Rightarrow> m)"

definition database_layers :: "blob_order \<Rightarrow> bool \<Rightarrow> deploy_error + string list option" where
  "database_layers bo has_db =
     (if has_db
      then try_bind (index_dev (map_of (bo_runtime_idx bo) RHYPEDB_RUNTIME)) (\<lambda>runtime_dev.
           try_bind (index_dev (bo_base_dev_idx bo)) (\<lambda>base_dev. Inr (Some [runtime_dev, base_dev])))
      else Inr None)"

definition compute_layer_plan_with :: "layer_env \<Rightarrow> fnode \<Rightarrow> fs_entries \<Rightarrow> bool \<Rightarrow> bool \<Rightarrow> image_content
    \<Rightarrow> deploy_error + layer_plan" where
  "compute_layer_plan_with env dep store has_data_disk verify content =
     try_bind (gather_servers env dep content) (\<lambda>servers.
       let has_db = plan_has_db dep content
       in if servers = [] \<and> \<not> has_db then Inr (layer_plan_empty has_data_disk)
          else
            try_bind (build_order env dep store servers has_db) (\<lambda>bo.
              let needed = 2 + length (bo_order bo) + (if has_data_disk then 1 else 0)
              in if \<not> needed \<le> 26 then Inl (ETooManyDrives needed)
                 else
                   try_bind (resolve_blobs env dep store verify (bo_order bo)) (\<lambda>paths.
                   try_bind (insert_servers bo servers []) (\<lambda>svs.
                   try_bind (database_layers bo has_db) (\<lambda>db.
                     Inr \<lparr>lp_layer_paths = paths,
                          lp_runtime_layers =
                            \<lparr>rl_schema = LAYERS_SCHEMA,
                             rl_data_device = (if has_data_disk then Some (device_node (2 + length paths)) else None),
                             rl_servers = svs, rl_verity = insert_verity 0 (bo_order bo) [],
                             rl_database = db\<rparr>\<rparr>)))))"

definition compute_layer_plan :: "layer_env \<Rightarrow> fnode \<Rightarrow> fs_entries \<Rightarrow> bool \<Rightarrow> bool \<Rightarrow> deploy_error + layer_plan" where
  "compute_layer_plan env dep store has_data_disk verify =
     compute_layer_plan_with env dep store has_data_disk verify ImgAll"

section \<open>The drives of the VM\<close>

text \<open>
  The drives \<open>VmInstance::start\<close> of \<open>jkbase-orch/src/vm.rs\<close> puts, in its order. Firecracker gives
  the guest \<open>/dev/vda\<close>, \<open>/dev/vdb\<close>, ... in put order, the root device first.
\<close>

record vm_config =
  vc_rootfs_path :: host_path
  vc_metadata_image_path :: "host_path option"
  vc_layer_paths :: "host_path list"
  vc_data_disk_path :: "host_path option"

record drive =
  dr_drive_id :: string
  dr_path_on_host :: host_path
  dr_is_root_device :: bool
  dr_is_read_only :: bool

fun layer_drives :: "nat \<Rightarrow> host_path list \<Rightarrow> drive list" where
  "layer_drives i [] = []"
| "layer_drives i (p # ps) =
     \<lparr>dr_drive_id = ''layer'' @ show_nat i, dr_path_on_host = p, dr_is_root_device = False, dr_is_read_only = True\<rparr>
     # layer_drives (Suc i) ps"

definition start_drives :: "vm_config \<Rightarrow> drive list" where
  "start_drives c =
     [\<lparr>dr_drive_id = ''rootfs'', dr_path_on_host = vc_rootfs_path c, dr_is_root_device = True, dr_is_read_only = True\<rparr>]
     @ (case vc_metadata_image_path c of
          None \<Rightarrow> []
        | Some m \<Rightarrow> [\<lparr>dr_drive_id = ''metadata'', dr_path_on_host = m, dr_is_root_device = False, dr_is_read_only = True\<rparr>])
     @ layer_drives 0 (vc_layer_paths c)
     @ (case vc_data_disk_path c of
          None \<Rightarrow> []
        | Some d \<Rightarrow> [\<lparr>dr_drive_id = ''data'', dr_path_on_host = d, dr_is_root_device = False, dr_is_read_only = False\<rparr>])"

text \<open>
  The guest's kernel names its virtio drives in the order they are attached, \<open>vda\<close> to \<open>vdz\<close>; the names are written out here,
  apart from the arithmetic by which the host computes them.
\<close>

definition kernel_drive_names :: "string list" where
  "kernel_drive_names = map (\<lambda>c. ''/dev/vd'' @ [c]) ''abcdefghijklmnopqrstuvwxyz''"

definition guest_drive :: "drive list \<Rightarrow> string \<Rightarrow> drive option" where
  "guest_drive ds dev = map_of (zip kernel_drive_names ds) dev"

section \<open>Devices\<close>

lemma device_node_inj: "i < 26 \<Longrightarrow> j < 26 \<Longrightarrow> device_node i = device_node j \<longleftrightarrow> i = j"
proof -
  assume "i < 26" "j < 26"
  then have "(of_char (char_of (97 + i) :: char) :: nat) = 97 + i" "(of_char (char_of (97 + j) :: char) :: nat) = 97 + j"
    by simp_all
  then show ?thesis
    using \<open>i < 26\<close> \<open>j < 26\<close> by (auto simp: device_node_def)
qed

text \<open>The host's names are the kernel's.\<close>

lemma kernel_drive_names_eq: "kernel_drive_names = map device_node [0..<26]"
  by code_simp

lemma length_layer_drives [simp]: "length (layer_drives i ps) = length ps"
  by (induction ps arbitrary: i) auto

lemma layer_drives_nth: "k < length ps \<Longrightarrow>
  layer_drives i ps ! k = \<lparr>dr_drive_id = ''layer'' @ show_nat (i + k), dr_path_on_host = ps ! k,
                            dr_is_root_device = False, dr_is_read_only = True\<rparr>"
  by (induction ps arbitrary: i k) (auto simp: nth_Cons' simp del: show_nat.simps)

lemma guest_drive_node:
  assumes "i < length ds" "length ds \<le> 26"
  shows "guest_drive ds (device_node i) = Some (ds ! i)"
proof -
  have d: "distinct (map fst (zip kernel_drive_names ds))"
    using assms(2) by (auto simp: kernel_drive_names_eq map_fst_zip_take distinct_map inj_on_def device_node_inj intro!: distinct_take)
  have "(device_node i, ds ! i) \<in> set (zip kernel_drive_names ds)"
    using assms by (auto simp: kernel_drive_names_eq set_zip intro!: exI[of _ i])
  with d show ?thesis
    unfolding guest_drive_def by (rule map_of_is_SomeI)
qed

section \<open>The blob order\<close>

text \<open>\<open>indexes Q order idx\<close>: every position the index gives is one of the order, and its blob is right.\<close>

definition indexes :: "(string \<Rightarrow> blob_ref \<Rightarrow> bool) \<Rightarrow> blob_ref list \<Rightarrow> (string, nat) hmap \<Rightarrow> bool" where
  "indexes Q order idx \<longleftrightarrow> (\<forall>k i. map_of idx k = Some i \<longrightarrow> i < length order \<and> Q k (order ! i))"

lemma indexes_Nil [simp]: "indexes Q order []"
  by (simp add: indexes_def)

lemma indexes_push: "indexes Q order idx \<Longrightarrow> Q k b \<Longrightarrow> indexes Q (order @ [b]) (hupd k (length order) idx)"
  by (auto simp: indexes_def nth_append less_SucI split: if_splits)

lemma indexes_append: "indexes Q order idx \<Longrightarrow> indexes Q (order @ xs) idx"
  by (auto simp: indexes_def nth_append trans_less_add1)

definition store_blob :: "layer_desc \<Rightarrow> blob_ref" where
  "store_blob d = \<lparr>br_path = StoreBlob (ld_file d), br_digest = ld_digest d, br_verity = ld_verity d\<rparr>"

definition app_blob :: "server_layer_info \<Rightarrow> string \<Rightarrow> blob_ref" where
  "app_blob s f =
     \<lparr>br_path = AppBlob f, br_digest = (case sl_app_digest s of Some d \<Rightarrow> d | None \<Rightarrow> filename_to_digest f),
      br_verity = None\<rparr>"

lemma push_runtimes_spec:
  assumes "push_runtimes pf langs (order, idx) = Inr (order', idx')"
    and "indexes (\<lambda>l b. \<exists>d. map_of (pm_runtimes pf) l = Some d \<and> b = store_blob d) order idx"
  shows "indexes (\<lambda>l b. \<exists>d. map_of (pm_runtimes pf) l = Some d \<and> b = store_blob d) order' idx'
    \<and> (\<exists>xs. order' = order @ xs) \<and> (\<forall>l. l \<in> set langs \<or> map_of idx l \<noteq> None \<longrightarrow> map_of idx' l \<noteq> None)"
  using assms
proof (induction langs arbitrary: order idx)
  case (Cons l langs)
  then obtain d where d: "map_of (pm_runtimes pf) l = Some d"
    by (auto split: option.splits)
  have "push_runtimes pf langs (order @ [store_blob d], hupd l (length order) idx) = Inr (order', idx')"
    using Cons.prems(1) d by (simp add: store_blob_def)
  moreover have "indexes (\<lambda>l b. \<exists>d. map_of (pm_runtimes pf) l = Some d \<and> b = store_blob d)
      (order @ [store_blob d]) (hupd l (length order) idx)"
    using Cons.prems(2) d by (intro indexes_push) auto
  ultimately show ?case using Cons.IH by fastforce
qed simp

lemma push_apps_spec:
  assumes "push_apps dep store ss (order, idx) = Inr (order', idx')"
    and "indexes (\<lambda>n b. \<exists>s f. map_of all n = Some s \<and> sl_app_layer s = Some f \<and> b = app_blob s f) order idx"
    and "\<And>n s. (n, s) \<in> set ss \<Longrightarrow> map_of all n = Some s"
  shows "indexes (\<lambda>n b. \<exists>s f. map_of all n = Some s \<and> sl_app_layer s = Some f \<and> b = app_blob s f) order' idx'
    \<and> (\<exists>xs. order' = order @ xs) \<and> (\<forall>n. n \<in> fst ` set ss \<or> map_of idx n \<noteq> None \<longrightarrow> map_of idx' n \<noteq> None)"
  using assms
proof (induction ss arbitrary: order idx)
  case (Cons p ss)
  obtain n s where p: "p = (n, s)" by (cases p)
  with Cons.prems(1) obtain f where f: "sl_app_layer s = Some f"
    and rest: "push_apps dep store ss (order @ [app_blob s f], hupd n (length order) idx) = Inr (order', idx')"
    by (auto simp: app_blob_def Let_def split: option.splits if_splits)
  have "map_of all n = Some s" using Cons.prems(3) p by simp
  then have "indexes (\<lambda>n b. \<exists>s f. map_of all n = Some s \<and> sl_app_layer s = Some f \<and> b = app_blob s f)
      (order @ [app_blob s f]) (hupd n (length order) idx)"
    using Cons.prems(2) f by (intro indexes_push) auto
  from Cons.IH[OF rest this] Cons.prems(3) p show ?case by auto
qed simp

text \<open>Every app blob of the order is a safely named file of the deployment, reached through no link.\<close>

lemma push_apps_safe:
  assumes "push_apps dep store ss (order, idx) = Inr (order', idx')"
    and "AppBlob f \<in> br_path ` set order' " "AppBlob f \<notin> br_path ` set order"
  shows "is_safe_layer_filename f \<and> \<not> is_symlink (blob_node dep store (AppBlob f))
    \<and> \<not> is_symlink (fs_entry dep ''_layers'')"
  using assms
proof (induction ss arbitrary: order idx)
  case (Cons p ss)
  obtain n s where p: "p = (n, s)" by (cases p)
  with Cons.prems(1) obtain g where g: "is_safe_layer_filename g" "\<not> is_symlink (blob_node dep store (AppBlob g))"
      "\<not> is_symlink (fs_entry dep ''_layers'')"
    and rest: "push_apps dep store ss (order @ [app_blob s g], hupd n (length order) idx) = Inr (order', idx')"
    by (auto simp: app_blob_def Let_def split: option.splits if_splits)
  show ?case
  proof (cases "f = g")
    case True then show ?thesis using g by simp
  next
    case False
    then have "AppBlob f \<notin> br_path ` set (order @ [app_blob s g])"
      using Cons.prems(3) by (auto simp: app_blob_def)
    from Cons.IH[OF rest Cons.prems(2) this] show ?thesis .
  qed
qed simp

lemma push_runtimes_store:
  assumes "push_runtimes pf langs (order, idx) = Inr (order', idx')" "AppBlob f \<notin> br_path ` set order"
  shows "AppBlob f \<notin> br_path ` set order'"
  using assms
proof (induction langs arbitrary: order idx)
  case (Cons l langs)
  from Cons.prems obtain d where
    "push_runtimes pf langs (order @ [store_blob d], hupd l (length order) idx) = Inr (order', idx')"
    by (auto simp: store_blob_def split: option.splits)
  then show ?case by (rule Cons.IH) (use Cons.prems(2) in \<open>auto simp: store_blob_def\<close>)
qed simp

lemma resolve_blobs_spec:
  assumes "resolve_blobs env dep store verify bs = Inr ps"
  shows "ps = map br_path bs \<and> (\<forall>b \<in> set bs. path_exists (le_host env) (blob_node dep store (br_path b))
    \<and> (verify \<longrightarrow> (\<exists>got. blob_sha256_hex env (blob_node dep store (br_path b)) = Inr got \<and>
         to_ascii_lowercase got =
           to_ascii_lowercase (case strip_prefix ''sha256:'' (br_digest b) of Some w \<Rightarrow> w | None \<Rightarrow> br_digest b))))"
  using assms
  by (induction bs arbitrary: ps) (auto simp: Let_def split: if_splits)

lemma set_plan_langs:
  "set (plan_langs servers has_db) =
     server_lang ` snd ` {p \<in> set servers. \<not> is_self_contained (snd p)} \<union> (if has_db then {RHYPEDB_RUNTIME} else {})"
  by (force simp: plan_langs_def)

section \<open>The device map\<close>

lemma build_order_cases:
  assumes "build_order env dep store servers has_db = Inr bo"
  obtains order ridx bidx order' aidx where
    "(if any_layered servers has_db
      then try_bind (read_platform env store) (\<lambda>pf.
             try_bind (push_runtimes pf (plan_langs servers has_db) ([store_blob (pm_base pf)], []))
                  (\<lambda>(order, ridx). Inr (order, ridx, Some 0)))
      else Inr ([], [], None)) = Inr (order, ridx, bidx)"
    "push_apps dep store servers (order, []) = Inr (order', aidx)"
    "bo = \<lparr>bo_order = order', bo_runtime_idx = ridx, bo_app_idx = aidx, bo_base_dev_idx = bidx\<rparr>"
  using assms unfolding build_order_def store_blob_def Let_def by auto

lemma build_order_spec:
  assumes "build_order env dep store servers has_db = Inr bo"
    and "distinct (map fst servers)"
  shows "indexes (\<lambda>n b. \<exists>s f. map_of servers n = Some s \<and> sl_app_layer s = Some f \<and> b = app_blob s f)
      (bo_order bo) (bo_app_idx bo)"
    and "\<And>n s. (n, s) \<in> set servers \<Longrightarrow> map_of (bo_app_idx bo) n \<noteq> None"
    and "any_layered servers has_db \<Longrightarrow> \<exists>pf. read_platform env store = Inr pf \<and>
      indexes (\<lambda>l b. \<exists>d. map_of (pm_runtimes pf) l = Some d \<and> b = store_blob d) (bo_order bo) (bo_runtime_idx bo) \<and>
      (\<forall>l \<in> set (plan_langs servers has_db). map_of (bo_runtime_idx bo) l \<noteq> None) \<and>
      bo_base_dev_idx bo = Some 0 \<and> bo_order bo \<noteq> [] \<and> bo_order bo ! 0 = store_blob (pm_base pf)"
    and "\<And>f. AppBlob f \<in> br_path ` set (bo_order bo) \<Longrightarrow>
      is_safe_layer_filename f \<and> \<not> is_symlink (blob_node dep store (AppBlob f)) \<and> \<not> is_symlink (fs_entry dep ''_layers'')"
proof -
  from assms(1) obtain order ridx bidx order' aidx where
    head: "(if any_layered servers has_db
        then try_bind (read_platform env store) (\<lambda>pf.
               try_bind (push_runtimes pf (plan_langs servers has_db) ([store_blob (pm_base pf)], []))
                    (\<lambda>(order, ridx). Inr (order, ridx, Some 0)))
        else Inr ([], [], None)) = Inr (order, ridx, bidx)"
    and apps: "push_apps dep store servers (order, []) = Inr (order', aidx)"
    and bo: "bo = \<lparr>bo_order = order', bo_runtime_idx = ridx, bo_app_idx = aidx, bo_base_dev_idx = bidx\<rparr>"
    by (rule build_order_cases)
  have dom: "\<And>n s. (n, s) \<in> set servers \<Longrightarrow> map_of servers n = Some s"
    using assms(2) by simp
  note A = push_apps_spec[OF apps indexes_Nil dom]
  show "indexes (\<lambda>n b. \<exists>s f. map_of servers n = Some s \<and> sl_app_layer s = Some f \<and> b = app_blob s f)
      (bo_order bo) (bo_app_idx bo)"
    using A by (simp add: bo)
  show "\<And>n s. (n, s) \<in> set servers \<Longrightarrow> map_of (bo_app_idx bo) n \<noteq> None"
    using A by (force simp: bo)
  obtain xs where xs: "order' = order @ xs" using A by blast
  show "any_layered servers has_db \<Longrightarrow> \<exists>pf. read_platform env store = Inr pf \<and>
      indexes (\<lambda>l b. \<exists>d. map_of (pm_runtimes pf) l = Some d \<and> b = store_blob d) (bo_order bo) (bo_runtime_idx bo) \<and>
      (\<forall>l \<in> set (plan_langs servers has_db). map_of (bo_runtime_idx bo) l \<noteq> None) \<and>
      bo_base_dev_idx bo = Some 0 \<and> bo_order bo \<noteq> [] \<and> bo_order bo ! 0 = store_blob (pm_base pf)"
  proof -
    assume "any_layered servers has_db"
    with head obtain pf where pf: "read_platform env store = Inr pf" "bidx = Some 0"
      "push_runtimes pf (plan_langs servers has_db) ([store_blob (pm_base pf)], []) = Inr (order, ridx)"
      by auto
    note R = push_runtimes_spec[OF pf(3) indexes_Nil]
    obtain ys where ys: "order = [store_blob (pm_base pf)] @ ys" using R by blast
    show ?thesis
      using indexes_append[of _ order ridx xs] R pf(1,2) xs ys by (auto simp: bo)
  qed
  have "AppBlob f \<notin> br_path ` set order" for f
  proof (cases "any_layered servers has_db")
    case True
    with head obtain pf where
      "push_runtimes pf (plan_langs servers has_db) ([store_blob (pm_base pf)], []) = Inr (order, ridx)" by auto
    then show ?thesis by (rule push_runtimes_store) (simp add: store_blob_def)
  qed (use head in auto)
  then show "\<And>f. AppBlob f \<in> br_path ` set (bo_order bo) \<Longrightarrow>
      is_safe_layer_filename f \<and> \<not> is_symlink (blob_node dep store (AppBlob f)) \<and> \<not> is_symlink (fs_entry dep ''_layers'')"
    using push_apps_safe[OF apps] by (simp add: bo)
qed

lemma insert_servers_spec:
  assumes "insert_servers bo ss m = Inr m'" "distinct (map fst ss)"
  shows "(\<forall>n s. (n, s) \<in> set ss \<longrightarrow> (\<exists>ds. server_layers bo n s = Inr ds \<and> map_of m' n = Some ds))
    \<and> (\<forall>n. n \<notin> fst ` set ss \<longrightarrow> map_of m' n = map_of m n)"
  using assms
proof (induction ss arbitrary: m)
  case (Cons p ss)
  obtain n s where p: "p = (n, s)" by (cases p)
  with Cons.prems obtain ds where "server_layers bo n s = Inr ds" "insert_servers bo ss (hupd n ds m) = Inr m'" by auto
  with Cons.IH[OF this(2)] Cons.prems(2) p show ?case by auto
qed simp

lemma layer_dev_inj: "i < 24 \<Longrightarrow> j < 24 \<Longrightarrow> layer_dev i = layer_dev j \<longleftrightarrow> i = j"
  by (simp add: layer_dev_def device_node_inj)

lemma insert_verity_other:
  "(\<And>k. k < length bs \<Longrightarrow> d \<noteq> layer_dev (i + k)) \<Longrightarrow> map_of (insert_verity i bs m) d = map_of m d"
proof (induction bs arbitrary: i m)
  case (Cons b bs)
  have "d \<noteq> layer_dev i" using Cons.prems[of 0] by simp
  moreover have "d \<noteq> layer_dev (Suc i + k)" if "k < length bs" for k
    using Cons.prems[of "Suc k"] that by simp
  ultimately show ?case by (simp add: Cons.IH split: option.splits)
qed simp

lemma insert_verity_nth:
  assumes "i + length bs \<le> 24" "k < length bs"
  shows "map_of (insert_verity i bs m) (layer_dev (i + k)) =
    (case br_verity (bs ! k) of Some v \<Rightarrow> Some v | None \<Rightarrow> map_of m (layer_dev (i + k)))"
  using assms
proof (induction bs arbitrary: i k m)
  case (Cons b bs)
  show ?case
  proof (cases k)
    case 0
    have "map_of (insert_verity (Suc i) bs m') (layer_dev i) = map_of m' (layer_dev i)" for m'
      using Cons.prems by (intro insert_verity_other) (simp add: layer_dev_inj)
    then show ?thesis using 0 by (simp split: option.splits)
  next
    case (Suc j)
    have "layer_dev (Suc (i + j)) \<noteq> layer_dev i" using Cons.prems Suc by (simp add: layer_dev_inj)
    then show ?thesis using Cons.IH[of "Suc i" j] Cons.prems Suc by (simp split: option.splits)
  qed
qed simp

section \<open>Server names\<close>

lemma rsplit_once_Some: "rsplit_once c s = Some (a, b) \<Longrightarrow> s = a @ c # b"
proof -
  assume "rsplit_once c s = Some (a, b)"
  then obtain x y where "split_once c (rev s) = Some (x, y)" "a = rev y" "b = rev x"
    by (auto simp: rsplit_once_def)
  then have "rev s = x @ c # y" "a = rev y" "b = rev x" by (simp_all add: split_once_Some_iff)
  then have "rev (rev s) = a @ c # b" by simp
  then show ?thesis by simp
qed

lemma json_name: "extension p = Some ''json'' \<Longrightarrow> p = file_stem p @ ''.json''"
  by (auto simp: extension_def file_stem_def rsplit_file_at_dot_def dest!: rsplit_once_Some
      split: option.splits if_splits)

lemma read_servers_names:
  assumes "read_servers env d ps = Inr rs"
  shows "set rs \<subseteq> {(n, s). n \<in> file_stem ` set ps \<and> sl_app_layer s \<noteq> None}
    \<and> (distinct (map file_stem ps) \<longrightarrow> distinct (map fst rs))"
  using assms
proof (induction ps arbitrary: rs)
  case (Cons p ps)
  from Cons.prems obtain r where r: "read_regular (le_host env) p (map_of d p) = Inr r" by auto
  show ?case
  proof (cases r)
    case None
    then show ?thesis using Cons r by auto
  next
    case (Some b)
    with Cons.prems r obtain info rest where rest: "read_servers env d ps = Inr rest"
      and rs: "rs = (if sl_app_layer info \<noteq> None then (file_stem p, info) # rest else rest)"
      by (auto split: option.splits)
    have sub: "fst ` set rest \<subseteq> file_stem ` set ps" using Cons.IH[OF rest] by auto
    show ?thesis using Cons.IH[OF rest] sub by (auto simp: rs)
  qed
qed simp

lemma gather_servers_names:
  assumes "gather_servers env dep content = Inr rs" "fs_wf dep"
  shows "distinct (map fst rs)" "\<And>n s. (n, s) \<in> set rs \<Longrightarrow> sl_app_layer s \<noteq> None"
proof -
  have *: "distinct (map fst rs) \<and> (\<forall>n s. (n, s) \<in> set rs \<longrightarrow> sl_app_layer s \<noteq> None)"
  proof (cases "includes_app content \<and> is_real (fs_entry dep ''_servers'') True")
    case True
    then obtain es where es: "fs_entry dep ''_servers'' = Some (FDir es)" by (auto simp: is_real_dir_iff)
    with True assms(1) have rd:
      "read_servers env es (sort (filter (\<lambda>p. extension p = Some ''json'') (map fst es))) = Inr rs"
      by (simp add: gather_servers_def)
    have "fs_wf (FDir es)"
      using es assms(2) by (cases dep) (auto dest: fs_wf_entries_map_of)
    then have "distinct (map fst es)" by (simp add: fs_wf_entries_distinct)
    moreover have "inj_on file_stem {p. extension p = Some ''json''}"
    proof (rule inj_onI)
      fix p q assume pq: "p \<in> {p. extension p = Some ''json''}" "q \<in> {p. extension p = Some ''json''}" "file_stem p = file_stem q"
      have "p = file_stem p @ ''.json''" by (rule json_name) (use pq in simp)
      also have "\<dots> = file_stem q @ ''.json''" by (simp only: pq(3))
      also have "\<dots> = q" by (rule json_name[symmetric]) (use pq in simp)
      finally show "p = q" .
    qed
    ultimately have "distinct (map file_stem (sort (filter (\<lambda>p. extension p = Some ''json'') (map fst es))))"
      unfolding distinct_map[of file_stem] by simp (erule inj_on_subset, blast)
    then show ?thesis using read_servers_names[OF rd] by auto
  next
    case False
    then show ?thesis using assms(1) by (auto simp: gather_servers_def)
  qed
  then show "distinct (map fst rs)" "\<And>n s. (n, s) \<in> set rs \<Longrightarrow> sl_app_layer s \<noteq> None" by blast+
qed

section \<open>The map the agent reads and the drives it gets\<close>

text \<open>The files a server's overlay is made of, top first, and those of the managed database.\<close>

definition overlay_files :: "deploy_error + platform_manifest \<Rightarrow> server_layer_info \<Rightarrow> host_path option list" where
  "overlay_files pf s =
     map_option AppBlob (sl_app_layer s) #
     (if is_self_contained s then []
      else case pf of
        Inl e \<Rightarrow> [None, None]
      | Inr p \<Rightarrow> [map_option (StoreBlob \<circ> ld_file) (map_of (pm_runtimes p) (server_lang s)),
                  Some (StoreBlob (ld_file (pm_base p)))])"

definition database_files :: "deploy_error + platform_manifest \<Rightarrow> host_path option list" where
  "database_files pf =
     (case pf of
        Inl e \<Rightarrow> [None, None]
      | Inr p \<Rightarrow> [map_option (StoreBlob \<circ> ld_file) (map_of (pm_runtimes p) RHYPEDB_RUNTIME),
                  Some (StoreBlob (ld_file (pm_base p)))])"

definition device_file :: "drive list \<Rightarrow> string \<Rightarrow> host_path option" where
  "device_file ds dev = map_option dr_path_on_host (guest_drive ds dev)"

text \<open>The VM is started with the plan's layers, a metadata image, and a data disk when one is reserved.\<close>

definition vm_runs_plan :: "layer_plan \<Rightarrow> bool \<Rightarrow> vm_config \<Rightarrow> bool" where
  "vm_runs_plan plan has_data_disk c \<longleftrightarrow>
     vc_layer_paths c = lp_layer_paths plan \<and> vc_metadata_image_path c \<noteq> None \<and>
     (vc_data_disk_path c \<noteq> None \<longleftrightarrow> has_data_disk)"

lemma length_start_drives:
  "vm_runs_plan plan dd c \<Longrightarrow>
   length (start_drives c) = 2 + length (lp_layer_paths plan) + (if dd then 1 else 0)"
  by (auto simp: vm_runs_plan_def start_drives_def split: option.splits)

lemma start_drives_layer:
  assumes "vm_runs_plan plan dd c" "i < length (lp_layer_paths plan)"
  shows "start_drives c ! (2 + i) = \<lparr>dr_drive_id = ''layer'' @ show_nat i, dr_path_on_host = lp_layer_paths plan ! i,
    dr_is_root_device = False, dr_is_read_only = True\<rparr>"
  using assms
  by (auto simp: vm_runs_plan_def start_drives_def nth_append layer_drives_nth simp del: show_nat.simps)

lemma device_file_layer:
  assumes "vm_runs_plan plan dd c" "length (start_drives c) \<le> 26" "i < length (lp_layer_paths plan)"
  shows "device_file (start_drives c) (layer_dev i) = Some (lp_layer_paths plan ! i)"
proof -
  have "2 + i < length (start_drives c)"
    using assms by (simp add: length_start_drives)
  then show ?thesis
    using guest_drive_node[of "2 + i" "start_drives c"] assms start_drives_layer[OF assms(1,3)]
    by (simp add: device_file_def layer_dev_def)
qed

lemma start_drives_data:
  assumes "vm_runs_plan plan True c"
  shows "\<exists>p. vc_data_disk_path c = Some p \<and> start_drives c ! (2 + length (lp_layer_paths plan)) =
    \<lparr>dr_drive_id = ''data'', dr_path_on_host = p, dr_is_root_device = False, dr_is_read_only = False\<rparr>"
  using assms by (auto simp: vm_runs_plan_def start_drives_def nth_append)

text \<open>What a successful plan is made of.\<close>

lemma compute_layer_plan_cases:
  assumes "compute_layer_plan_with env dep store dd verify content = Inr plan"
  obtains (empty) "gather_servers env dep content = Inr []" "\<not> plan_has_db dep content" "plan = layer_plan_empty dd"
  | (layered) servers bo svs db where
      "gather_servers env dep content = Inr servers"
      "build_order env dep store servers (plan_has_db dep content) = Inr bo"
      "2 + length (bo_order bo) + (if dd then 1 else 0) \<le> 26"
      "resolve_blobs env dep store verify (bo_order bo) = Inr (lp_layer_paths plan)"
      "insert_servers bo servers [] = Inr svs" "database_layers bo (plan_has_db dep content) = Inr db"
      "rl_servers (lp_runtime_layers plan) = svs" "rl_database (lp_runtime_layers plan) = db"
      "rl_verity (lp_runtime_layers plan) = insert_verity 0 (bo_order bo) []"
      "rl_schema (lp_runtime_layers plan) = LAYERS_SCHEMA"
      "rl_data_device (lp_runtime_layers plan) =
         (if dd then Some (device_node (2 + length (lp_layer_paths plan))) else None)"
proof -
  from assms obtain servers where s: "gather_servers env dep content = Inr servers"
    by (auto simp: compute_layer_plan_with_def)
  show thesis
  proof (cases "servers = [] \<and> \<not> plan_has_db dep content")
    case True
    then show ?thesis using assms s empty by (simp add: compute_layer_plan_with_def)
  next
    case False
    then show ?thesis
      using assms s by (auto simp: compute_layer_plan_with_def Let_def split: if_splits intro!: layered[OF s])
  qed
qed

section \<open>Agreement\<close>

lemma server_layers_files:
  assumes bo: "build_order env dep store servers has_db = Inr bo" and dist: "distinct (map fst servers)"
    and run: "vm_runs_plan plan dd c" "length (start_drives c) \<le> 26" "lp_layer_paths plan = map br_path (bo_order bo)"
    and mem: "(n, s) \<in> set servers" and ds: "server_layers bo n s = Inr ds"
  shows "map (device_file (start_drives c)) ds = overlay_files (read_platform env store) s"
    and "set ds \<subseteq> layer_dev ` {..<length (lp_layer_paths plan)}"
proof -
  note B = build_order_spec[OF bo dist]
  have dev: "device_file (start_drives c) (layer_dev i) = Some (br_path (bo_order bo ! i))"
    if "i < length (bo_order bo)" for i
    using device_file_layer[OF run(1,2)] run(3) that by simp
  from ds obtain i where i: "map_of (bo_app_idx bo) n = Some i"
    by (auto simp: server_layers_def index_dev_def split: option.splits)
  have "map_of servers n = Some s" using dist mem by simp
  moreover from B(1) i have "i < length (bo_order bo) \<and>
      (\<exists>s f. map_of servers n = Some s \<and> sl_app_layer s = Some f \<and> bo_order bo ! i = app_blob s f)"
    by (simp add: indexes_def)
  ultimately obtain f where f: "i < length (bo_order bo)" "sl_app_layer s = Some f" "bo_order bo ! i = app_blob s f"
    by auto
  have "map (device_file (start_drives c)) ds = overlay_files (read_platform env store) s
    \<and> set ds \<subseteq> layer_dev ` {..<length (lp_layer_paths plan)}"
  proof (cases "is_self_contained s")
    case True
    then show ?thesis
      using ds i f dev run(3) by (auto simp: server_layers_def index_dev_def overlay_files_def app_blob_def)
  next
    case False
    then have "any_layered servers has_db" using mem by (auto simp: any_layered_def list_ex_iff)
    from B(3)[OF this] obtain pf where pf: "read_platform env store = Inr pf"
      "indexes (\<lambda>l b. \<exists>d. map_of (pm_runtimes pf) l = Some d \<and> b = store_blob d) (bo_order bo) (bo_runtime_idx bo)"
      "bo_base_dev_idx bo = Some 0" "bo_order bo \<noteq> []" "bo_order bo ! 0 = store_blob (pm_base pf)" by blast
    from ds False obtain r where r: "map_of (bo_runtime_idx bo) (server_lang s) = Some r"
      by (auto simp: server_layers_def index_dev_def split: option.splits)
    with pf(2) obtain d where d: "r < length (bo_order bo)" "map_of (pm_runtimes pf) (server_lang s) = Some d"
      "bo_order bo ! r = store_blob d" by (auto simp: indexes_def)
    have ds': "ds = [layer_dev i, layer_dev r, layer_dev 0]"
      using ds i r pf(3) False by (simp add: server_layers_def index_dev_def)
    show ?thesis
      using f d pf dev False run(3) by (auto simp: ds' overlay_files_def app_blob_def store_blob_def)
  qed
  then show "map (device_file (start_drives c)) ds = overlay_files (read_platform env store) s"
    "set ds \<subseteq> layer_dev ` {..<length (lp_layer_paths plan)}" by simp_all
qed

lemma database_layers_files:
  assumes bo: "build_order env dep store servers True = Inr bo" and dist: "distinct (map fst servers)"
    and run: "vm_runs_plan plan dd c" "length (start_drives c) \<le> 26" "lp_layer_paths plan = map br_path (bo_order bo)"
    and db: "database_layers bo True = Inr db"
  shows "\<exists>ds. db = Some ds \<and> map (device_file (start_drives c)) ds = database_files (read_platform env store)
    \<and> set ds \<subseteq> layer_dev ` {..<length (lp_layer_paths plan)}"
proof -
  have dev: "device_file (start_drives c) (layer_dev i) = Some (br_path (bo_order bo ! i))"
    if "i < length (bo_order bo)" for i
    using device_file_layer[OF run(1,2)] run(3) that by simp
  have "any_layered servers True" by (simp add: any_layered_def)
  from build_order_spec(3)[OF bo dist this] obtain pf where pf: "read_platform env store = Inr pf"
    "indexes (\<lambda>l b. \<exists>d. map_of (pm_runtimes pf) l = Some d \<and> b = store_blob d) (bo_order bo) (bo_runtime_idx bo)"
    "bo_base_dev_idx bo = Some 0" "bo_order bo \<noteq> []" "bo_order bo ! 0 = store_blob (pm_base pf)" by blast
  from db obtain r where r: "map_of (bo_runtime_idx bo) RHYPEDB_RUNTIME = Some r"
    by (auto simp: database_layers_def index_dev_def split: option.splits)
  with pf(2) obtain d where d: "r < length (bo_order bo)" "map_of (pm_runtimes pf) RHYPEDB_RUNTIME = Some d"
    "bo_order bo ! r = store_blob d" by (auto simp: indexes_def)
  have "db = Some [layer_dev r, layer_dev 0]"
    using db r pf(3) by (simp add: database_layers_def index_dev_def)
  then show ?thesis
    using d pf dev run(3) by (auto simp: database_files_def store_blob_def)
qed

text \<open>Nothing in the plan panics: every index the device map asks for is there.\<close>

lemma plan_never_panics:
  assumes "build_order env dep store servers has_db = Inr bo" "distinct (map fst servers)" "(n, s) \<in> set servers"
  shows "server_layers bo n s \<noteq> Inl EPanic" "database_layers bo has_db \<noteq> Inl EPanic"
proof -
  note B = build_order_spec[OF assms(1,2)]
  obtain i where i: "map_of (bo_app_idx bo) n = Some i" using B(2)[OF assms(3)] by auto
  show "server_layers bo n s \<noteq> Inl EPanic"
  proof (cases "is_self_contained s")
    case True then show ?thesis using i by (simp add: server_layers_def index_dev_def)
  next
    case False
    then have "any_layered servers has_db" "server_lang s \<in> set (plan_langs servers has_db)"
      using assms(3) by (force simp: any_layered_def list_ex_iff set_plan_langs)+
    with B(3) show ?thesis using i by (auto simp: server_layers_def index_dev_def dest!: bspec)
  qed
  show "database_layers bo has_db \<noteq> Inl EPanic"
    using B(3) by (auto simp: database_layers_def index_dev_def any_layered_def set_plan_langs)
qed

lemma overlay_devices_read_only:
  assumes "vm_runs_plan plan dd c" "length (start_drives c) \<le> 26" "dev \<in> layer_dev ` {..<length (lp_layer_paths plan)}"
  shows "\<exists>d. guest_drive (start_drives c) dev = Some d \<and> dr_is_read_only d"
proof -
  from assms(3) obtain i where i: "dev = layer_dev i" "i < length (lp_layer_paths plan)" by auto
  then have "2 + i < length (start_drives c)" using assms by (simp add: length_start_drives)
  then show ?thesis
    using guest_drive_node[of "2 + i" "start_drives c"] start_drives_layer[OF assms(1) i(2)] assms(2) i(1)
    by (simp add: layer_dev_def)
qed

text \<open>C5. The device map baked for the agent and the drives the VM is started with agree: at most 26
  drives are attached; the devices of a server's overlay are, in order, the drives of its own app layer,
  its language's runtime and the base (or of its app layer alone when it is self-contained), and no
  other server is mapped; the database overlay is there exactly when the image includes a declared
  database, over the rhypedb runtime and the base; all of them are attached read-only, and the data
  device names the one writable drive, the data disk, exactly when there is one.\<close>

theorem layer_devices_agree:
  assumes wf: "fs_wf dep" and gs: "gather_servers env dep content = Inr servers"
    and plan: "compute_layer_plan_with env dep store dd verify content = Inr plan"
    and run: "vm_runs_plan plan dd c"
  shows "length (start_drives c) \<le> 26 \<and>
    (\<forall>n. map_option (map (device_file (start_drives c))) (map_of (rl_servers (lp_runtime_layers plan)) n) =
         map_option (overlay_files (read_platform env store)) (map_of servers n)) \<and>
    map_option (map (device_file (start_drives c))) (rl_database (lp_runtime_layers plan)) =
      (if plan_has_db dep content then Some (database_files (read_platform env store)) else None) \<and>
    (\<forall>dev \<in> \<Union> (set ` ran (map_of (rl_servers (lp_runtime_layers plan)))) \<union> set (case rl_database (lp_runtime_layers plan) of None \<Rightarrow> [] | Some ds \<Rightarrow> ds).
       \<exists>d. guest_drive (start_drives c) dev = Some d \<and> dr_is_read_only d) \<and>
    map_option (\<lambda>dev. map_option (\<lambda>d. (dr_path_on_host d, dr_is_read_only d)) (guest_drive (start_drives c) dev))
        (rl_data_device (lp_runtime_layers plan)) =
      map_option (\<lambda>p. Some (p, False)) (vc_data_disk_path c)"
  using plan
proof (cases rule: compute_layer_plan_cases)
  case empty
  then have len: "length (start_drives c) = 2 + (if dd then 1 else 0)" and s: "servers = []"
    using length_start_drives[OF run] gs by (simp_all add: layer_plan_empty_def)
  have dd: "guest_drive (start_drives c) (device_node 2) = Some (start_drives c ! 2)" if dd
    using guest_drive_node[of 2 "start_drives c"] len that by simp
  show ?thesis
  proof (cases dd)
    case True
    then show ?thesis using start_drives_data[of plan c] run dd len empty s
      by (auto simp: layer_plan_empty_def runtime_layers_new_def)
  next
    case False
    then show ?thesis using run len empty s
      by (auto simp: layer_plan_empty_def runtime_layers_new_def vm_runs_plan_def)
  qed
next
  case (layered servers' bo svs db)
  then have same: "servers' = servers" using gs by simp
  have paths: "lp_layer_paths plan = map br_path (bo_order bo)"
    using resolve_blobs_spec[OF layered(4)] by simp
  have len: "length (start_drives c) \<le> 26"
    using length_start_drives[OF run] layered(3) paths by simp
  have dist: "distinct (map fst servers)" by (rule gather_servers_names(1)[OF gs wf])
  note S = insert_servers_spec[OF layered(5)[unfolded same] dist]
  note F = server_layers_files[OF layered(2)[unfolded same] dist run len paths]
  have sv: "map_option (map (device_file (start_drives c))) (map_of svs n) =
      map_option (overlay_files (read_platform env store)) (map_of servers n)" for n
  proof (cases "map_of servers n")
    case None
    then have "n \<notin> fst ` set servers" by (simp add: map_of_eq_None_iff)
    then have "map_of svs n = None" using S by (metis map_of.simps(1))
    then show ?thesis using None by simp
  next
    case (Some s)
    then have "(n, s) \<in> set servers" by (rule map_of_SomeD)
    with S Some F(1) show ?thesis by fastforce
  qed
  have svd: "set ds \<subseteq> layer_dev ` {..<length (lp_layer_paths plan)}" if "map_of svs n = Some ds" for n ds
  proof -
    have "map_of servers n \<noteq> None" using sv[of n] that by (cases "map_of servers n") auto
    then obtain s where "(n, s) \<in> set servers" by (auto dest: map_of_SomeD)
    with S that F(2) show ?thesis by fastforce
  qed
  have db: "map_option (map (device_file (start_drives c))) db =
      (if plan_has_db dep content then Some (database_files (read_platform env store)) else None)
    \<and> set (case db of None \<Rightarrow> [] | Some ds \<Rightarrow> ds) \<subseteq> layer_dev ` {..<length (lp_layer_paths plan)}"
  proof (cases "plan_has_db dep content")
    case True
    have "build_order env dep store servers True = Inr bo" "database_layers bo True = Inr db"
      using layered(2,6) same True by simp_all
    from database_layers_files[OF this(1) dist run len paths this(2)] True show ?thesis by auto
  next
    case False
    then show ?thesis using layered(6) by (simp add: database_layers_def)
  qed
  have ro: "\<exists>d. guest_drive (start_drives c) dev = Some d \<and> dr_is_read_only d"
    if "dev \<in> \<Union> (set ` ran (map_of svs)) \<union> set (case db of None \<Rightarrow> [] | Some ds \<Rightarrow> ds)" for dev
  proof -
    have "dev \<in> layer_dev ` {..<length (lp_layer_paths plan)}"
      using that svd db by (auto simp: ran_def subset_iff)
    then show ?thesis by (rule overlay_devices_read_only[OF run len])
  qed
  have data: "map_option (\<lambda>dev. map_option (\<lambda>d. (dr_path_on_host d, dr_is_read_only d)) (guest_drive (start_drives c) dev))
        (rl_data_device (lp_runtime_layers plan)) = map_option (\<lambda>p. Some (p, False)) (vc_data_disk_path c)"
  proof (cases dd)
    case True
    have "2 + length (lp_layer_paths plan) < length (start_drives c)"
      using length_start_drives[OF run] True by simp
    from guest_drive_node[OF this len] start_drives_data[of plan c] run True show ?thesis
      by (auto simp: layered(11))
  next
    case False
    then show ?thesis using run by (auto simp: layered(11) vm_runs_plan_def)
  qed
  show ?thesis
    unfolding layered(7,8) by (intro conjI allI ballI len sv db[THEN conjunct1] data ro)
qed

section \<open>Verified blobs\<close>

lemma push_runtimes_elems:
  assumes "push_runtimes pf langs (order, idx) = Inr (order', idx')" "b \<in> set order'"
  shows "b \<in> set order \<or> (\<exists>l d. map_of (pm_runtimes pf) l = Some d \<and> b = store_blob d)"
  using assms
proof (induction langs arbitrary: order idx)
  case (Cons l langs)
  from Cons.prems obtain d where d: "map_of (pm_runtimes pf) l = Some d"
    "push_runtimes pf langs (order @ [store_blob d], hupd l (length order) idx) = Inr (order', idx')"
    by (auto simp: store_blob_def split: option.splits)
  from Cons.IH[OF d(2) Cons.prems(2)] d(1) show ?case by auto
qed simp

lemma push_apps_elems:
  assumes "push_apps dep store ss (order, idx) = Inr (order', idx')" "b \<in> set order'"
  shows "b \<in> set order \<or> (\<exists>n s f. (n, s) \<in> set ss \<and> sl_app_layer s = Some f \<and> b = app_blob s f)"
  using assms
proof (induction ss arbitrary: order idx)
  case (Cons p ss)
  obtain n s where p: "p = (n, s)" by (cases p)
  with Cons.prems obtain f where f: "sl_app_layer s = Some f"
    "push_apps dep store ss (order @ [app_blob s f], hupd n (length order) idx) = Inr (order', idx')"
    by (auto simp: app_blob_def Let_def split: option.splits if_splits)
  from Cons.IH[OF f(2) Cons.prems(2)] f(1) p show ?case by auto
qed simp

definition wanted_hash :: "string \<Rightarrow> string" where
  "wanted_hash digest = (case strip_prefix ''sha256:'' digest of Some w \<Rightarrow> w | None \<Rightarrow> digest)"

definition app_digest_of :: "server_layer_info \<Rightarrow> string \<Rightarrow> string" where
  "app_digest_of s f = (case sl_app_digest s of Some d \<Rightarrow> d | None \<Rightarrow> filename_to_digest f)"

lemma build_order_elems:
  assumes "build_order env dep store servers has_db = Inr bo" "b \<in> set (bo_order bo)"
  shows "(\<exists>n s f. (n, s) \<in> set servers \<and> sl_app_layer s = Some f \<and> b = app_blob s f)
    \<or> (\<exists>pf d. read_platform env store = Inr pf \<and> (d = pm_base pf \<or> (\<exists>l. map_of (pm_runtimes pf) l = Some d))
         \<and> b = store_blob d)"
proof -
  from assms(1) obtain order ridx bidx order' aidx where
    head: "(if any_layered servers has_db
        then try_bind (read_platform env store) (\<lambda>pf.
               try_bind (push_runtimes pf (plan_langs servers has_db) ([store_blob (pm_base pf)], []))
                    (\<lambda>(order, ridx). Inr (order, ridx, Some 0)))
        else Inr ([], [], None)) = Inr (order, ridx, bidx)"
    and apps: "push_apps dep store servers (order, []) = Inr (order', aidx)"
    and bo: "bo = \<lparr>bo_order = order', bo_runtime_idx = ridx, bo_app_idx = aidx, bo_base_dev_idx = bidx\<rparr>"
    by (rule build_order_cases)
  have mem: "b \<in> set order'" using assms(2) bo by simp
  have "\<exists>pf d. read_platform env store = Inr pf \<and> (d = pm_base pf \<or> (\<exists>l. map_of (pm_runtimes pf) l = Some d)) \<and> b = store_blob d"
    if "b \<in> set order"
  proof -
    from that head obtain pf where pf: "read_platform env store = Inr pf"
      "push_runtimes pf (plan_langs servers has_db) ([store_blob (pm_base pf)], []) = Inr (order, ridx)"
      by (auto split: if_splits)
    from push_runtimes_elems[OF pf(2) that] pf(1) show ?thesis by auto
  qed
  then show ?thesis using push_apps_elems[OF apps mem] by auto
qed

text \<open>C7. On a verified plan every attached layer was checked: it is either an app layer, a regular file
  of the deployment's own \<open>_layers\<close> directory with a content-addressed name, reached through no link,
  whose SHA-256 is the digest its server declares (or its name carries), or the base or a runtime of
  the platform manifest whose bytes have the manifest's digest.\<close>

theorem attached_blobs_verified:
  assumes wf: "fs_wf dep" and gs: "gather_servers env dep content = Inr servers"
    and plan: "compute_layer_plan_with env dep store dd True content = Inr plan"
    and mem: "p \<in> set (lp_layer_paths plan)"
  shows "(\<exists>n s f b. p = AppBlob f \<and> (n, s) \<in> set servers \<and> sl_app_layer s = Some f \<and> is_safe_layer_filename f \<and>
            blob_node dep store p = Some (FFile b) \<and>
            to_ascii_lowercase (le_sha256 env b) = to_ascii_lowercase (wanted_hash (app_digest_of s f)))
       \<or> (\<exists>pf d m b. read_platform env store = Inr pf \<and> (d = pm_base pf \<or> (\<exists>l. map_of (pm_runtimes pf) l = Some d)) \<and>
            p = StoreBlob (ld_file d) \<and> map_of store (ld_file d) = Some m \<and> fs_read (le_host env) m = Inr b \<and>
            to_ascii_lowercase (le_sha256 env b) = to_ascii_lowercase (wanted_hash (ld_digest d)))"
  using plan
proof (cases rule: compute_layer_plan_cases)
  case empty
  then show ?thesis using mem by (simp add: layer_plan_empty_def)
next
  case (layered servers' bo svs db)
  then have same: "servers' = servers" using gs by simp
  note R = resolve_blobs_spec[OF layered(4)]
  from mem R obtain b where b: "b \<in> set (bo_order bo)" "p = br_path b" by auto
  with R obtain got where got: "blob_sha256_hex env (blob_node dep store p) = Inr got"
    "to_ascii_lowercase got = to_ascii_lowercase (wanted_hash (br_digest b))"
    by (auto simp: wanted_hash_def)
  then obtain m c where m: "blob_node dep store p = Some m" "fs_read (le_host env) m = Inr c" "got = le_sha256 env c"
    by (auto simp: blob_sha256_hex_def split: option.splits)
  from build_order_elems[OF layered(2) b(1)] show ?thesis
  proof
    assume "\<exists>n s f. (n, s) \<in> set servers' \<and> sl_app_layer s = Some f \<and> b = app_blob s f"
    then obtain n s f where s: "(n, s) \<in> set servers" "sl_app_layer s = Some f" "b = app_blob s f"
      using same by blast
    then have "AppBlob f \<in> br_path ` set (bo_order bo)" using b by (auto simp: app_blob_def intro: rev_image_eqI)
    from build_order_spec(4)[OF layered(2) gather_servers_names(1)[OF layered(1) wf] this]
    have safe: "is_safe_layer_filename f" "\<not> is_symlink (blob_node dep store p)"
      using b s(3) by (simp_all add: app_blob_def)
    then have "m = FFile c" using m by (cases m) auto
    then show ?thesis using s safe m got b(2) by (auto simp: app_blob_def app_digest_of_def)
  next
    assume "\<exists>pf d. read_platform env store = Inr pf \<and> (d = pm_base pf \<or> (\<exists>l. map_of (pm_runtimes pf) l = Some d)) \<and> b = store_blob d"
    then obtain pf d where d: "read_platform env store = Inr pf" "d = pm_base pf \<or> (\<exists>l. map_of (pm_runtimes pf) l = Some d)"
      "b = store_blob d" by blast
    have "p = StoreBlob (ld_file d)" "br_digest b = ld_digest d" using b(2) d(3) by (simp_all add: store_blob_def)
    then show ?thesis using m got d(1,2) by auto
  qed
qed

section \<open>Examples\<close>

definition demo_app_file :: string where
  "demo_app_file = ''sha256-'' @ replicate 64 (CHR ''a'') @ ''.erofs''"

definition demo_layer_env :: layer_env where
  "demo_layer_env =
     \<lparr>le_host = (\<lambda>_. None), le_sha256 = (\<lambda>b. b),
      le_parse_info = (\<lambda>b. if b = ''api'' then Some \<lparr>sl_app_layer = Some demo_app_file, sl_app_digest = Some ''sha256:app'', sl_runtime = None\<rparr> else None),
      le_parse_platform = (\<lambda>b. Some \<lparr>pm_base = \<lparr>ld_digest = ''sha256:b0'', ld_file = ''base.erofs'', ld_verity = Some \<lparr>vp_root_hash = ''ab'', vp_salt = ''00'', vp_data_size = 4096\<rparr>\<rparr>,
        pm_runtimes = [(''bun'', \<lparr>ld_digest = ''sha256:b1'', ld_file = ''bun.erofs'', ld_verity = None\<rparr>),
                       (''rhypedb'', \<lparr>ld_digest = ''sha256:b2'', ld_file = ''rhypedb.erofs'', ld_verity = None\<rparr>)]\<rparr>)\<rparr>"

definition demo_dep :: fnode where
  "demo_dep =
     FDir [(''_servers'', FDir [(''api.json'', FFile ''api''), (''README'', FLink ''/etc/passwd'')]),
           (''_layers'', FDir [(demo_app_file, FFile ''app'')]),
           (''_database.json'', FFile ''db''),
           (''index.html'', FFile ''hello'')]"

definition demo_store :: fs_entries where
  "demo_store =
     [(''platform.json'', FFile ''pf''), (''base.erofs'', FFile ''b0''), (''bun.erofs'', FFile ''b1''),
      (''rhypedb.erofs'', FFile ''b2'')]"

definition demo_plan :: layer_plan where
  "demo_plan =
     (case compute_layer_plan_with demo_layer_env demo_dep demo_store True True ImgAll of
        Inr p \<Rightarrow> p | Inl e \<Rightarrow> layer_plan_empty False)"

definition demo_vm :: vm_config where
  "demo_vm = \<lparr>vc_rootfs_path = HostFile ''rootfs'', vc_metadata_image_path = Some (HostFile ''meta''),
     vc_layer_paths = lp_layer_paths demo_plan, vc_data_disk_path = Some (HostFile ''disk'')\<rparr>"

lemma demo_plan_computed:
  "is_ok (compute_layer_plan_with demo_layer_env demo_dep demo_store True True ImgAll)"
  by code_simp

lemma demo_plan_eq: "compute_layer_plan_with demo_layer_env demo_dep demo_store True True ImgAll = Inr demo_plan"
  using demo_plan_computed unfolding demo_plan_def by (auto split: sum.splits)

lemma demo_facts:
  "fs_wf demo_dep" "is_ok (gather_servers demo_layer_env demo_dep ImgAll)"
  "map_of (case gather_servers demo_layer_env demo_dep ImgAll of Inr s \<Rightarrow> s | Inl _ \<Rightarrow> []) ''api'' =
     Some \<lparr>sl_app_layer = Some demo_app_file, sl_app_digest = Some ''sha256:app'', sl_runtime = None\<rparr>"
  "vm_runs_plan demo_plan True demo_vm"
  by code_simp+

theorem layer_devices_agree_witness:
  "map (device_file (start_drives demo_vm)) (the (map_of (rl_servers (lp_runtime_layers demo_plan)) ''api'')) =
     [Some (AppBlob demo_app_file), Some (StoreBlob ''bun.erofs''), Some (StoreBlob ''base.erofs'')]"
proof -
  obtain ss where ss: "gather_servers demo_layer_env demo_dep ImgAll = Inr ss"
    using demo_facts(2) by (cases "gather_servers demo_layer_env demo_dep ImgAll") auto
  have api: "map_of ss ''api'' = Some \<lparr>sl_app_layer = Some demo_app_file, sl_app_digest = Some ''sha256:app'', sl_runtime = None\<rparr>"
    using demo_facts(3) by (simp add: ss)
  note agree = layer_devices_agree[OF demo_facts(1) ss demo_plan_eq demo_facts(4)]
  have m: "map_option (map (device_file (start_drives demo_vm))) (map_of (rl_servers (lp_runtime_layers demo_plan)) ''api'') =
      map_option (overlay_files (read_platform demo_layer_env demo_store)) (map_of ss ''api'')"
    using agree by blast
  moreover have "overlay_files (read_platform demo_layer_env demo_store)
      \<lparr>sl_app_layer = Some demo_app_file, sl_app_digest = Some ''sha256:app'', sl_runtime = None\<rparr> =
      [Some (AppBlob demo_app_file), Some (StoreBlob ''bun.erofs''), Some (StoreBlob ''base.erofs'')]"
    by code_simp
  ultimately show ?thesis
    by (cases "map_of (rl_servers (lp_runtime_layers demo_plan)) ''api''") (simp_all add: api)
qed

lemma demo_app_attached: "AppBlob demo_app_file \<in> set (lp_layer_paths demo_plan)"
  by code_simp

theorem attached_blobs_verified_witness:
  "\<exists>b. blob_node demo_dep demo_store (AppBlob demo_app_file) = Some (FFile b)"
proof -
  obtain ss where ss: "gather_servers demo_layer_env demo_dep ImgAll = Inr ss"
    using demo_facts(2) by (cases "gather_servers demo_layer_env demo_dep ImgAll") auto
  from attached_blobs_verified[OF demo_facts(1) ss demo_plan_eq demo_app_attached] show ?thesis by blast
qed

end
