(* ===== verification/Meta_Image.thy ===== *)
theory Meta_Image
  imports Layer_Plan
begin

text \<open>
  The metadata image of a VM, \<open>crates/jkbase-server/src/layer_plan.rs\<close>: staging the deployment tree
  for the app VM or the database VM, injecting the project's secrets and the storage credential into
  the manifests, and the control files the host writes last. The image's contents are its entries;
  \<open>mkfs\<close> and the rename that publishes it are outside the model. A manifest is the JSON document serde
  reads; its objects are association lists.
\<close>

section \<open>Documents and parameters\<close>

datatype json_value =
    JNull | JBool bool | JNum string | JStr string | JArr "json_value list" | JObj "(string \<times> json_value) list"

record storage_binding =
  sb_access_key_id :: string
  sb_secret_key :: string

text \<open>
  What the code takes from outside: the host's files behind a link and serde's reader and printers.
  The facts of the platform, of the database reach plane and of the L4 ports come as their documents.
\<close>

record image_env =
  ie_host :: fs_host
  ie_parse :: "string \<Rightarrow> json_value option"
  ie_print :: "json_value \<Rightarrow> string"
  ie_print_layers :: "runtime_layers \<Rightarrow> string"
  ie_print_paths :: "host_path list \<Rightarrow> string"

type_synonym secrets = "(string, string) hmap"

definition RESERVED_ENV :: "string list" where
  "RESERVED_ENV = [''PORT'', ''HOME'', ''HOSTNAME'', ''PATH'']"

section \<open>Staging the tree\<close>

text \<open>\<open>let _ = ...\<close>: a failed removal is ignored.\<close>

definition best_effort :: "(fs_entries \<Rightarrow> deploy_error + fs_entries) \<Rightarrow> fs_entries \<Rightarrow> fs_entries" where
  "best_effort f es = (case f es of Inl e \<Rightarrow> es | Inr es' \<Rightarrow> es')"

fun stage_deployment_tree :: "fs_host \<Rightarrow> fnode \<Rightarrow> fs_entries \<Rightarrow> image_content \<Rightarrow> deploy_error + fs_entries" where
  "stage_deployment_tree host dep stage DbOnly =
     try_bind (read_regular host ''_database.json'' (fs_entry dep ''_database.json'')) (\<lambda>r.
     try_bind (case r of None \<Rightarrow> Inr stage | Some b \<Rightarrow> write_fresh ''_database.json'' b stage) (\<lambda>stage1.
       let db_dir = fs_entry dep ''_database''
       in if is_symlink db_dir then Inl (ESymlink ''_database'')
          else if is_real db_dir True
          then try_bind (copy_dir_except host (the db_dir) '''') (\<lambda>es.
                 Inr (hupd ''_database'' (FDir es) stage1))
          else Inr stage1))"
| "stage_deployment_tree host dep stage content =
     try_bind (copy_dir_except host dep ''_layers'') (\<lambda>es.
       let stage1 = stage @ es
       in Inr (if \<not> includes_db content
               then best_effort (remove_dir_all ''_database'') (best_effort (remove_file ''_database.json'') stage1)
               else stage1))"

section \<open>Secrets\<close>

definition unsafe_secret :: "string \<Rightarrow> string \<Rightarrow> bool" where
  "unsafe_secret k v \<longleftrightarrow>
     k = [] \<or> list_ex (\<lambda>c. c \<in> {CHR ''='', CHR 0x00, CHR 0x0A, CHR 0x0D}) k \<or> CHR 0x00 \<in> set v"

definition server_skips :: "string \<Rightarrow> string \<Rightarrow> bool" where
  "server_skips k v \<longleftrightarrow> k \<in> set RESERVED_ENV \<or> unsafe_secret k v"

fun insert_secrets :: "(string \<Rightarrow> string \<Rightarrow> bool) \<Rightarrow> secrets \<Rightarrow> (string, json_value) hmap \<Rightarrow> (string, json_value) hmap" where
  "insert_secrets skip [] env = env"
| "insert_secrets skip ((k, v) # ss) env =
     insert_secrets skip ss (if skip k v then env else hupd k (JStr v) env)"

text \<open>
  The \<open>env\<close> object of a manifest with the secrets in it; \<open>None\<close> is \<open>continue\<close>: a manifest that is no
  object, or whose \<open>env\<close> is none, is left alone.
\<close>

definition inject_env :: "(string \<Rightarrow> string \<Rightarrow> bool) \<Rightarrow> secrets \<Rightarrow> json_value \<Rightarrow> (string \<times> json_value) list option" where
  "inject_env skip ss manifest =
     (case manifest of
        JObj obj \<Rightarrow>
          (case (case map_of obj ''env'' of None \<Rightarrow> JObj [] | Some e \<Rightarrow> e) of
             JObj env \<Rightarrow> Some (hupd ''env'' (JObj (insert_secrets skip ss env)) obj)
           | _ \<Rightarrow> None)
      | _ \<Rightarrow> None)"

fun inject_manifests :: "image_env \<Rightarrow> secrets \<Rightarrow> string list \<Rightarrow> fs_entries \<Rightarrow> deploy_error + fs_entries" where
  "inject_manifests ie ss [] es = Inr es"
| "inject_manifests ie ss (p # ps) es =
     (if extension p \<noteq> Some ''json'' then inject_manifests ie ss ps es
      else try_bind (read_regular (ie_host ie) p (map_of es p)) (\<lambda>r.
        case r of
          None \<Rightarrow> inject_manifests ie ss ps es
        | Some b \<Rightarrow>
            (case ie_parse ie b of
               None \<Rightarrow> Inl (EParse p)
             | Some j \<Rightarrow>
                 (case inject_env server_skips ss j of
                    None \<Rightarrow> inject_manifests ie ss ps es
                  | Some obj \<Rightarrow>
                      try_bind (write_fresh p (ie_print ie (JObj obj)) es) (inject_manifests ie ss ps)))))"

definition inject_secrets :: "image_env \<Rightarrow> secrets \<Rightarrow> fs_entries \<Rightarrow> deploy_error + fs_entries" where
  "inject_secrets ie ss stage =
     (let n = map_of stage ''_servers''
      in if \<not> is_real n True then (if is_symlink n then Inl (ESymlink ''_servers'') else Inr stage)
         else try_bind (fs_read_dir (ie_host ie) (the n)) (\<lambda>es.
              try_bind (inject_manifests ie ss (map fst es) es) (\<lambda>es'.
                Inr (hupd ''_servers'' (FDir es') stage))))"

definition credential_json :: "storage_binding \<Rightarrow> json_value" where
  "credential_json b =
     JObj [(''access_key_id'', JStr (sb_access_key_id b)), (''secret_key'', JStr (sb_secret_key b))]"

definition bind_credential :: "storage_binding option \<Rightarrow> (string \<times> json_value) list \<Rightarrow> (string \<times> json_value) list" where
  "bind_credential binding obj =
     (case binding of
        Some b \<Rightarrow> hupd ''storage_credential'' (credential_json b) obj
      | None \<Rightarrow> hdel ''storage_credential'' obj)"

fun inject_sidecars :: "image_env \<Rightarrow> secrets \<Rightarrow> storage_binding option \<Rightarrow> string list \<Rightarrow> fs_entries
    \<Rightarrow> deploy_error + fs_entries" where
  "inject_sidecars ie ss binding [] es = Inr es"
| "inject_sidecars ie ss binding (p # ps) es =
     (if extension p \<noteq> Some ''wasm'' then inject_sidecars ie ss binding ps es
      else
        let sidecar = file_stem p @ ''.json''
        in try_bind (read_regular (ie_host ie) sidecar (map_of es sidecar)) (\<lambda>r.
           try_bind
             (case r of
                Some b \<Rightarrow> (case ie_parse ie b of None \<Rightarrow> Inl (EParse sidecar) | Some j \<Rightarrow> Inr j)
              | None \<Rightarrow> Inr (JObj []))
             (\<lambda>j. case inject_env unsafe_secret ss j of
                    None \<Rightarrow> inject_sidecars ie ss binding ps es
                  | Some obj \<Rightarrow>
                      try_bind (write_fresh sidecar (ie_print ie (JObj (bind_credential binding obj))) es)
                        (inject_sidecars ie ss binding ps))))"

definition inject_function_secrets :: "image_env \<Rightarrow> secrets \<Rightarrow> storage_binding option \<Rightarrow> fs_entries
    \<Rightarrow> deploy_error + fs_entries" where
  "inject_function_secrets ie ss binding stage =
     (let n = map_of stage ''_functions''
      in if \<not> is_real n True then (if is_symlink n then Inl (ESymlink ''_functions'') else Inr stage)
         else try_bind (fs_read_dir (ie_host ie) (the n)) (\<lambda>es.
              try_bind (inject_sidecars ie ss binding (map fst es) es) (\<lambda>es'.
                Inr (hupd ''_functions'' (FDir es') stage))))"

section \<open>The image\<close>

definition write_fact :: "image_env \<Rightarrow> string \<Rightarrow> json_value option \<Rightarrow> fs_entries \<Rightarrow> deploy_error + fs_entries" where
  "write_fact ie f facts stage =
     (case facts of None \<Rightarrow> Inr stage | Some j \<Rightarrow> write_fresh f (ie_print ie j) stage)"

text \<open>
  \<open>build_metadata_image_with\<close>: the entries of the image that the final rename publishes, or the error
  that leaves the old image in place.
\<close>

definition build_metadata_image_with :: "image_env \<Rightarrow> fnode \<Rightarrow> layer_plan \<Rightarrow> secrets \<Rightarrow> json_value
    \<Rightarrow> storage_binding option \<Rightarrow> json_value option \<Rightarrow> json_value option \<Rightarrow> image_content \<Rightarrow> deploy_error + fs_entries" where
  "build_metadata_image_with ie dep plan ss platform binding db_reach l4_facts content =
     try_bind (stage_deployment_tree (ie_host ie) dep [] content) (\<lambda>st1.
     try_bind (if ss \<noteq> [] then inject_secrets ie ss st1 else Inr st1) (\<lambda>st2.
     try_bind (if ss \<noteq> [] \<or> binding \<noteq> None then inject_function_secrets ie ss binding st2 else Inr st2) (\<lambda>st3.
     try_bind (write_fresh ''_layers.json'' (ie_print_layers ie (lp_runtime_layers plan)) st3) (\<lambda>st4.
     try_bind (write_fresh ''_layerpaths.json'' (ie_print_paths ie (lp_layer_paths plan)) st4) (\<lambda>st5.
     try_bind (write_fresh ''_platform.json'' (ie_print ie platform) st5) (\<lambda>st6.
     try_bind (write_fact ie ''_db_reach.json'' db_reach st6) (\<lambda>st7.
       write_fact ie ''_l4.json'' l4_facts st7)))))))"

definition build_metadata_image :: "image_env \<Rightarrow> fnode \<Rightarrow> layer_plan \<Rightarrow> secrets \<Rightarrow> json_value
    \<Rightarrow> storage_binding option \<Rightarrow> json_value option \<Rightarrow> json_value option \<Rightarrow> deploy_error + fs_entries" where
  "build_metadata_image ie dep plan ss platform binding db_reach l4_facts =
     build_metadata_image_with ie dep plan ss platform binding db_reach l4_facts ImgAll"

section \<open>Reading the attach order back\<close>

text \<open>
  \<open>try_read_layer_paths\<close> and \<open>read_layer_paths\<close>: \<open>dump\<close> is what debugfs extracts of a file of an
  image (an error, absent, or its bytes), \<open>parse_paths\<close> serde's reader of a list of paths.
\<close>

definition try_read_layer_paths :: "('img \<Rightarrow> string \<Rightarrow> deploy_error + string option) \<Rightarrow> (string \<Rightarrow> host_path list option)
    \<Rightarrow> 'img option \<Rightarrow> deploy_error + host_path list" where
  "try_read_layer_paths dump parse_paths img =
     (case img of
        None \<Rightarrow> Inr []
      | Some i \<Rightarrow>
          try_bind (dump i ''_layerpaths.json'') (\<lambda>found.
            case found of
              None \<Rightarrow> Inr []
            | Some b \<Rightarrow> (case parse_paths b of None \<Rightarrow> Inl (EParse ''_layerpaths.json'') | Some v \<Rightarrow> Inr v)))"

definition read_layer_paths :: "('img \<Rightarrow> string \<Rightarrow> deploy_error + string option) \<Rightarrow> (string \<Rightarrow> host_path list option)
    \<Rightarrow> 'img option \<Rightarrow> host_path list" where
  "read_layer_paths dump parse_paths img =
     (case try_read_layer_paths dump parse_paths img of Inl e \<Rightarrow> [] | Inr v \<Rightarrow> v)"

section \<open>No link is followed\<close>

lemma inject_manifests_host: "inject_manifests (ie\<lparr>ie_host := h\<rparr>) ss ps es = inject_manifests ie ss ps es"
  by (induction ie ss ps es rule: inject_manifests.induct)
    (auto simp: read_regular_host[of h _ _ "ie_host _"] write_fresh_ok split: option.splits sum.splits
      intro!: try_bind_cong)

lemma inject_sidecars_host: "inject_sidecars (ie\<lparr>ie_host := h\<rparr>) ss b ps es = inject_sidecars ie ss b ps es"
  by (induction ie ss b ps es rule: inject_sidecars.induct)
    (auto simp: read_regular_host[of h _ _ "ie_host _"] write_fresh_ok Let_def split: option.splits sum.splits
      intro!: try_bind_cong)

lemma inject_secrets_host: "inject_secrets (ie\<lparr>ie_host := h\<rparr>) ss st = inject_secrets ie ss st"
  by (auto simp: inject_secrets_def Let_def is_real_dir_iff inject_manifests_host)

lemma inject_function_secrets_host:
  "inject_function_secrets (ie\<lparr>ie_host := h\<rparr>) ss b st = inject_function_secrets ie ss b st"
  by (auto simp: inject_function_secrets_def Let_def is_real_dir_iff inject_sidecars_host)

lemma stage_deployment_tree_host:
  "stage_deployment_tree h (FDir es) st content = stage_deployment_tree h' (FDir es) st content"
  by (cases content) (auto simp: read_regular_host[of h _ _ h'] is_real_dir_iff Let_def intro!: try_bind_cong)

text \<open>C6. Building a metadata image follows no link of the tenant's tree: whatever the files are that
  the links name on the host, the image (or the error) is the same. So neither another tenant's
  files nor the host's can end up in an image, however the deployed tree is shaped.\<close>

theorem image_follows_no_link:
  "build_metadata_image_with (ie\<lparr>ie_host := h\<rparr>) (FDir es) plan ss platform binding db_reach l4_facts content =
   build_metadata_image_with ie (FDir es) plan ss platform binding db_reach l4_facts content"
proof -
  have "write_fact (ie\<lparr>ie_host := h\<rparr>) = write_fact ie"
    by (auto simp: write_fact_def fun_eq_iff split: option.splits)
  then show ?thesis
    unfolding build_metadata_image_with_def
    by (simp add: stage_deployment_tree_host[of h es _ _ "ie_host ie"] inject_secrets_host
        inject_function_secrets_host cong: if_cong)
qed

section \<open>What an image holds\<close>

lemma map_of_write_fresh: "write_fresh f b es = Inr es' \<Longrightarrow> map_of es' = (map_of es)(f \<mapsto> FFile b)"
  by (auto simp: write_fresh_ok)

lemma write_fact_lookup:
  "write_fact ie f facts es = Inr es' \<Longrightarrow>
   map_of es' n = (if n = f \<and> facts \<noteq> None then Some (FFile (ie_print ie (the facts))) else map_of es n)"
  by (auto simp: write_fact_def map_of_write_fresh split: option.splits)

lemma inject_secrets_lookup:
  "inject_secrets ie ss st = Inr st' \<Longrightarrow> f \<noteq> ''_servers'' \<Longrightarrow> map_of st' f = map_of st f"
  by (auto simp: inject_secrets_def Let_def split: if_splits)

lemma inject_function_secrets_lookup:
  "inject_function_secrets ie ss b st = Inr st' \<Longrightarrow> f \<noteq> ''_functions'' \<Longrightarrow> map_of st' f = map_of st f"
  by (auto simp: inject_function_secrets_def Let_def split: if_splits)

text \<open>The entry of the tree that staging puts at a name.\<close>

definition staged_entry :: "fs_entries \<Rightarrow> image_content \<Rightarrow> string \<Rightarrow> fnode option" where
  "staged_entry es content f =
     (if \<not> includes_app content
      then (if f = ''_database.json'' then map_of es f
            else if f = ''_database''
            then (case map_of es f of Some (FDir ds) \<Rightarrow> Some (FDir (filter (\<lambda>e. fst e \<noteq> '''') ds)) | _ \<Rightarrow> None)
            else None)
      else if f = ''_layers'' then None
      else if \<not> includes_db content \<and>
        (f = ''_database.json'' \<and> \<not> is_dir (map_of es f) \<or> f = ''_database'' \<and> \<not> is_file (map_of es f))
      then None
      else map_of es f)"

lemma stage_deployment_tree_lookup:
  assumes "stage_deployment_tree host (FDir es) [] content = Inr st"
  shows "map_of st f = staged_entry es content f"
proof (cases content)
  case DbOnly
  show ?thesis
  proof (cases "map_of es ''_database.json''")
    case None
    then show ?thesis using assms DbOnly
      by (auto simp: staged_entry_def Let_def is_real_dir_iff split: if_splits option.splits fnode.splits)
  next
    case (Some m)
    then show ?thesis using assms DbOnly
      by (cases m) (auto simp: staged_entry_def Let_def is_real_dir_iff write_fresh_ok split: if_splits option.splits fnode.splits)
  qed
next
  case ImgAll
  then show ?thesis using assms by (auto simp: staged_entry_def map_of_filter_key)
next
  case AppNoDb
  have rf: "map_of (best_effort (remove_file n) x) k =
      (if k = n \<and> \<not> is_dir (map_of x n) then None else map_of x k)" for n x k
    by (auto simp: best_effort_def remove_file_def)
  have rd: "map_of (best_effort (remove_dir_all n) x) k =
      (if k = n \<and> \<not> is_file (map_of x n) then None else map_of x k)" for n x k
    by (auto simp: best_effort_def remove_dir_all_def)
  have st: "st = best_effort (remove_dir_all ''_database'') (best_effort (remove_file ''_database.json'')
      (filter (\<lambda>e. fst e \<noteq> ''_layers'') es))"
    using assms AppNoDb by simp
  show ?thesis
    unfolding st rd rf map_of_filter_key staged_entry_def
    by (cases "f = ''_database.json''"; cases "f = ''_database''") (simp_all add: AppNoDb)
qed

lemma build_metadata_image_cases:
  assumes "build_metadata_image_with ie dep plan ss platform binding db_reach l4_facts content = Inr img"
  obtains st1 st2 st3 where
    "stage_deployment_tree (ie_host ie) dep [] content = Inr st1"
    "(if ss \<noteq> [] then inject_secrets ie ss st1 else Inr st1) = Inr st2"
    "(if ss \<noteq> [] \<or> binding \<noteq> None then inject_function_secrets ie ss binding st2 else Inr st2) = Inr st3"
    "\<And>f. map_of img f =
       (if f = ''_l4.json'' \<and> l4_facts \<noteq> None then Some (FFile (ie_print ie (the l4_facts)))
        else if f = ''_db_reach.json'' \<and> db_reach \<noteq> None then Some (FFile (ie_print ie (the db_reach)))
        else if f = ''_platform.json'' then Some (FFile (ie_print ie platform))
        else if f = ''_layerpaths.json'' then Some (FFile (ie_print_paths ie (lp_layer_paths plan)))
        else if f = ''_layers.json'' then Some (FFile (ie_print_layers ie (lp_runtime_layers plan)))
        else map_of st3 f)"
proof -
  from assms obtain st1 st2 st3 st4 st5 st6 st7 where
    s: "stage_deployment_tree (ie_host ie) dep [] content = Inr st1"
    "(if ss \<noteq> [] then inject_secrets ie ss st1 else Inr st1) = Inr st2"
    "(if ss \<noteq> [] \<or> binding \<noteq> None then inject_function_secrets ie ss binding st2 else Inr st2) = Inr st3"
    and w: "write_fresh ''_layers.json'' (ie_print_layers ie (lp_runtime_layers plan)) st3 = Inr st4"
    "write_fresh ''_layerpaths.json'' (ie_print_paths ie (lp_layer_paths plan)) st4 = Inr st5"
    "write_fresh ''_platform.json'' (ie_print ie platform) st5 = Inr st6"
    "write_fact ie ''_db_reach.json'' db_reach st6 = Inr st7" "write_fact ie ''_l4.json'' l4_facts st7 = Inr img"
    unfolding build_metadata_image_with_def try_bind_Inr_iff by blast
  show thesis
    by (rule that[OF s]) (auto simp: write_fact_lookup[OF w(5)] write_fact_lookup[OF w(4)] map_of_write_fresh[OF w(3)]
        map_of_write_fresh[OF w(2)] map_of_write_fresh[OF w(1)])
qed

lemma image_lookup:
  assumes "build_metadata_image_with ie (FDir es) plan ss platform binding db_reach l4_facts content = Inr img"
    and "f \<noteq> ''_servers''" "f \<noteq> ''_functions''"
  shows "map_of img f =
       (if f = ''_l4.json'' \<and> l4_facts \<noteq> None then Some (FFile (ie_print ie (the l4_facts)))
        else if f = ''_db_reach.json'' \<and> db_reach \<noteq> None then Some (FFile (ie_print ie (the db_reach)))
        else if f = ''_platform.json'' then Some (FFile (ie_print ie platform))
        else if f = ''_layerpaths.json'' then Some (FFile (ie_print_paths ie (lp_layer_paths plan)))
        else if f = ''_layers.json'' then Some (FFile (ie_print_layers ie (lp_runtime_layers plan)))
        else staged_entry es content f)"
  using assms(1)
proof (rule build_metadata_image_cases)
  fix st1 st2 st3
  assume s: "stage_deployment_tree (ie_host ie) (FDir es) [] content = Inr st1"
    "(if ss \<noteq> [] then inject_secrets ie ss st1 else Inr st1) = Inr st2"
    "(if ss \<noteq> [] \<or> binding \<noteq> None then inject_function_secrets ie ss binding st2 else Inr st2) = Inr st3"
    and m: "\<And>f. map_of img f =
       (if f = ''_l4.json'' \<and> l4_facts \<noteq> None then Some (FFile (ie_print ie (the l4_facts)))
        else if f = ''_db_reach.json'' \<and> db_reach \<noteq> None then Some (FFile (ie_print ie (the db_reach)))
        else if f = ''_platform.json'' then Some (FFile (ie_print ie platform))
        else if f = ''_layerpaths.json'' then Some (FFile (ie_print_paths ie (lp_layer_paths plan)))
        else if f = ''_layers.json'' then Some (FFile (ie_print_layers ie (lp_runtime_layers plan)))
        else map_of st3 f)"
  have "map_of st3 f = map_of st2 f" using s(3) assms(3) by (auto simp: inject_function_secrets_lookup split: if_splits)
  moreover have "map_of st2 f = map_of st1 f" using s(2) assms(2) by (auto simp: inject_secrets_lookup split: if_splits)
  ultimately show ?thesis
    by (simp only: m stage_deployment_tree_lookup[OF s(1)])
qed

text \<open>C11. The control files of an image are the host's. The device map, the attach order and the
  platform's egress facts are always what the host wrote, and so are the reach facts and the L4 facts
  when the host has any, whatever the tenant's tree carries at their names: a file, a directory or a
  link. The image of a database VM has reach facts or L4 facts exactly when the host has them.\<close>

theorem control_files_exact:
  assumes "build_metadata_image_with ie (FDir es) plan ss platform binding db_reach l4_facts content = Inr img"
  shows "map_of img ''_layers.json'' = Some (FFile (ie_print_layers ie (lp_runtime_layers plan))) \<and>
    map_of img ''_layerpaths.json'' = Some (FFile (ie_print_paths ie (lp_layer_paths plan))) \<and>
    map_of img ''_platform.json'' = Some (FFile (ie_print ie platform)) \<and>
    (\<forall>j. db_reach = Some j \<longrightarrow> map_of img ''_db_reach.json'' = Some (FFile (ie_print ie j))) \<and>
    (\<forall>j. l4_facts = Some j \<longrightarrow> map_of img ''_l4.json'' = Some (FFile (ie_print ie j))) \<and>
    (content = DbOnly \<longrightarrow>
      map_of img ''_db_reach.json'' = map_option (FFile \<circ> ie_print ie) db_reach \<and>
      map_of img ''_l4.json'' = map_option (FFile \<circ> ie_print ie) l4_facts)"
  by (auto simp: image_lookup[OF assms] staged_entry_def)

section \<open>A dedicated database VM\<close>

lemma inject_secrets_absent: "map_of st ''_servers'' = None \<Longrightarrow> inject_secrets ie ss st = Inr st"
  by (simp add: inject_secrets_def is_real_def)

lemma inject_function_secrets_absent: "map_of st ''_functions'' = None \<Longrightarrow> inject_function_secrets ie ss b st = Inr st"
  by (simp add: inject_function_secrets_def is_real_def)

lemma db_image_entries:
  assumes "build_metadata_image_with ie (FDir es) plan ss platform binding db_reach l4_facts DbOnly = Inr img"
  shows "map_of img ''_servers'' = None" "map_of img ''_functions'' = None"
proof -
  have "map_of img ''_servers'' = None \<and> map_of img ''_functions'' = None"
    using assms
  proof (rule build_metadata_image_cases)
    fix st1 st2 st3
    assume s: "stage_deployment_tree (ie_host ie) (FDir es) [] DbOnly = Inr st1"
      "(if ss \<noteq> [] then inject_secrets ie ss st1 else Inr st1) = Inr st2"
      "(if ss \<noteq> [] \<or> binding \<noteq> None then inject_function_secrets ie ss binding st2 else Inr st2) = Inr st3"
      and m: "\<And>f. map_of img f =
       (if f = ''_l4.json'' \<and> l4_facts \<noteq> None then Some (FFile (ie_print ie (the l4_facts)))
        else if f = ''_db_reach.json'' \<and> db_reach \<noteq> None then Some (FFile (ie_print ie (the db_reach)))
        else if f = ''_platform.json'' then Some (FFile (ie_print ie platform))
        else if f = ''_layerpaths.json'' then Some (FFile (ie_print_paths ie (lp_layer_paths plan)))
        else if f = ''_layers.json'' then Some (FFile (ie_print_layers ie (lp_runtime_layers plan)))
        else map_of st3 f)"
    have 1: "map_of st1 ''_servers'' = None" "map_of st1 ''_functions'' = None"
      by (simp_all add: stage_deployment_tree_lookup[OF s(1)] staged_entry_def)
    then have "st2 = st1" using s(2) by (auto simp: inject_secrets_absent split: if_splits)
    moreover from this have "st3 = st2" using s(3) 1 by (auto simp: inject_function_secrets_absent split: if_splits)
    ultimately show ?thesis using 1 by (simp add: m)
  qed
  then show "map_of img ''_servers'' = None" "map_of img ''_functions'' = None" by simp_all
qed

lemma plan_database_None:
  assumes "compute_layer_plan_with env dep store dd verify AppNoDb = Inr plan"
  shows "rl_database (lp_runtime_layers plan) = None"
  using assms
  by (cases rule: compute_layer_plan_cases)
    (auto simp: layer_plan_empty_def runtime_layers_new_def plan_has_db_def database_layers_def)

lemma plan_servers_None:
  assumes "compute_layer_plan_with env dep store dd verify DbOnly = Inr plan"
  shows "rl_servers (lp_runtime_layers plan) = []"
  using assms
  by (cases rule: compute_layer_plan_cases)
    (auto simp: layer_plan_empty_def runtime_layers_new_def gather_servers_def)

text \<open>
  The image of a database VM, name by name: the host's five files, the database's manifest and its directory of the tree
  (without entries that have no name), and nothing else.
\<close>

definition db_image_entry :: "image_env \<Rightarrow> layer_plan \<Rightarrow> json_value \<Rightarrow> json_value option \<Rightarrow> json_value option \<Rightarrow> fs_entries \<Rightarrow> string \<Rightarrow> fnode option" where
  "db_image_entry ie plan platform db_reach l4_facts es f =
     (if f = ''_layers.json'' then Some (FFile (ie_print_layers ie (lp_runtime_layers plan)))
      else if f = ''_layerpaths.json'' then Some (FFile (ie_print_paths ie (lp_layer_paths plan)))
      else if f = ''_platform.json'' then Some (FFile (ie_print ie platform))
      else if f = ''_db_reach.json'' then map_option (FFile \<circ> ie_print ie) db_reach
      else if f = ''_l4.json'' then map_option (FFile \<circ> ie_print ie) l4_facts
      else if f = ''_database.json'' then map_of es f
      else if f = ''_database'' then (case map_of es f of Some (FDir ds) \<Rightarrow> Some (FDir (filter (\<lambda>e. fst e \<noteq> []) ds)) | _ \<Rightarrow> None)
      else None)"

lemma db_image_lookup:
  assumes "build_metadata_image_with ie (FDir es) plan ss platform binding db_reach l4_facts DbOnly = Inr img"
  shows "map_of img f = db_image_entry ie plan platform db_reach l4_facts es f"
proof (cases "f = ''_servers'' \<or> f = ''_functions''")
  case True
  then show ?thesis using db_image_entries[OF assms] by (auto simp: db_image_entry_def)
next
  case False
  then have n: "f \<noteq> ''_servers''" "f \<noteq> ''_functions''" by simp_all
  show ?thesis
    unfolding image_lookup[OF assms n] db_image_entry_def staged_entry_def
    by (cases db_reach; cases l4_facts; cases "f = ''_l4.json''"; cases "f = ''_db_reach.json''") simp_all
qed

text \<open>C12. A dedicated project is split cleanly. The image of its app VM maps no database overlay and
  carries neither a database manifest (no file and no link \<open>_database.json\<close>) nor a database directory
  (no directory and no link \<open>_database\<close>), so its agent cannot start a second database beside the real
  one. The image of its database VM maps no server, and it holds the host's control files, the manifest
  and the directory of the database as they are in the tree, and nothing else.\<close>

theorem dedicated_split:
  assumes "compute_layer_plan_with env (FDir es) store dd verify content = Inr plan"
    and img: "build_metadata_image_with ie (FDir es) plan ss platform binding db_reach l4_facts content = Inr img"
  shows "(content = AppNoDb \<longrightarrow>
      rl_database (lp_runtime_layers plan) = None \<and>
      (map_of img ''_database.json'' = None \<or> is_dir (map_of img ''_database.json'')) \<and>
      (map_of img ''_database'' = None \<or> is_file (map_of img ''_database''))) \<and>
    (content = DbOnly \<longrightarrow>
      rl_servers (lp_runtime_layers plan) = [] \<and>
      map_of img = db_image_entry ie plan platform db_reach l4_facts es)"
proof (intro conjI impI)
  assume c: "content = AppNoDb"
  show "rl_database (lp_runtime_layers plan) = None" using assms(1) c plan_database_None by simp
  show "map_of img ''_database.json'' = None \<or> is_dir (map_of img ''_database.json'')"
    "map_of img ''_database'' = None \<or> is_file (map_of img ''_database'')"
    using c by (simp_all add: image_lookup[OF img] staged_entry_def)
next
  assume c: "content = DbOnly"
  show "rl_servers (lp_runtime_layers plan) = []" using assms(1) c plan_servers_None by simp
  show "map_of img = db_image_entry ie plan platform db_reach l4_facts es"
    using db_image_lookup img c by auto
qed

section \<open>Secrets\<close>

lemma insert_secrets_lookup:
  assumes "hm_wf ss"
  shows "map_of (insert_secrets skip ss env) k =
    (case map_of ss k of Some v \<Rightarrow> if skip k v then map_of env k else Some (JStr v) | None \<Rightarrow> map_of env k)"
  using assms
proof (induction skip ss env rule: insert_secrets.induct)
  case (2 skip k' v ss env)
  then have "hm_wf ss" "map_of ss k' = None" by (auto simp: hm_wf_def map_of_eq_None_iff)
  then show ?case using 2(1) by (auto split: option.splits)
qed simp

lemma inject_manifests_step:
  assumes "inject_manifests ie ss (q # ps) es = Inr es'"
  shows "\<exists>es1. inject_manifests ie ss ps es1 = Inr es' \<and> (\<forall>p. p \<noteq> q \<longrightarrow> map_of es1 p = map_of es p)"
proof (cases "extension q = Some ''json''")
  case True
  with assms obtain r where r: "read_regular (ie_host ie) q (map_of es q) = Inr r" by auto
  show ?thesis
  proof (cases r)
    case None
    then show ?thesis using assms True r by auto
  next
    case (Some b)
    with assms True r obtain j where j: "ie_parse ie b = Some j" by (cases "ie_parse ie b") auto
    show ?thesis
      using assms True r Some j by (cases "inject_env server_skips ss j") (auto simp: write_fresh_ok)
  qed
qed (use assms in auto)

lemma inject_manifests_other:
  "inject_manifests ie ss ps es = Inr es' \<Longrightarrow> p \<notin> set ps \<Longrightarrow> map_of es' p = map_of es p"
proof (induction ps arbitrary: es)
  case (Cons q ps)
  from inject_manifests_step[OF Cons.prems(1)] Cons.IH Cons.prems(2) show ?case by fastforce
qed simp

lemma inject_manifests_hit:
  assumes "inject_manifests ie ss ps es = Inr es'" "distinct ps" "p \<in> set ps" "extension p = Some ''json''"
    and "map_of es p = Some (FFile b)" "ie_parse ie b = Some j" "inject_env server_skips ss j = Some obj"
  shows "map_of es' p = Some (FFile (ie_print ie (JObj obj)))"
  using assms
proof (induction ps arbitrary: es)
  case (Cons q ps)
  show ?case
  proof (cases "q = p")
    case True
    then have "inject_manifests ie ss ps (hupd p (FFile (ie_print ie (JObj obj))) (hdel p es)) = Inr es'"
      using Cons.prems by (simp add: write_fresh_ok)
    from inject_manifests_other[OF this, of p] Cons.prems(2) True show ?thesis by simp
  next
    case False
    then obtain es1 where "inject_manifests ie ss ps es1 = Inr es'" "map_of es1 p = map_of es p"
      using inject_manifests_step[OF Cons.prems(1)] by auto
    then show ?thesis using Cons.IH Cons.prems False by auto
  qed
qed simp

text \<open>C15. Injecting the secrets changes one thing. The manifest of a server keeps every field but
  \<open>env\<close>; in \<open>env\<close> every secret is set, over a build-time value of its name, and every other variable
  keeps its value, as do \<open>PORT\<close>, \<open>HOME\<close>, \<open>HOSTNAME\<close> and \<open>PATH\<close> whatever secrets carry these names.\<close>

theorem secrets_injected_exactly:
  assumes img: "build_metadata_image_with ie (FDir es) plan ss platform binding db_reach l4_facts content = Inr img"
    and "includes_app content" "ss \<noteq> []" "hm_wf ss" "fs_wf (FDir es)"
    and ds: "map_of es ''_servers'' = Some (FDir ds)"
    and p: "extension p = Some ''json''" "map_of ds p = Some (FFile b)" "ie_parse ie b = Some (JObj obj)"
    and env: "map_of obj ''env'' = Some (JObj env) \<or> map_of obj ''env'' = None \<and> env = []"
  shows "\<exists>ds' obj' env'. map_of img ''_servers'' = Some (FDir ds') \<and>
    map_of ds' p = Some (FFile (ie_print ie (JObj obj'))) \<and>
    map_of obj' = (map_of obj)(''env'' \<mapsto> JObj env') \<and>
    (\<forall>k. map_of env' k = (case map_of ss k of
       Some v \<Rightarrow> if server_skips k v then map_of env k else Some (JStr v) | None \<Rightarrow> map_of env k)) \<and>
    (\<forall>k \<in> {''PORT'', ''HOME'', ''HOSTNAME'', ''PATH''}. map_of env' k = map_of env k)"
  using img
proof (rule build_metadata_image_cases)
  fix st1 st2 st3
  assume s: "stage_deployment_tree (ie_host ie) (FDir es) [] content = Inr st1"
    "(if ss \<noteq> [] then inject_secrets ie ss st1 else Inr st1) = Inr st2"
    "(if ss \<noteq> [] \<or> binding \<noteq> None then inject_function_secrets ie ss binding st2 else Inr st2) = Inr st3"
    and m: "\<And>f. map_of img f =
       (if f = ''_l4.json'' \<and> l4_facts \<noteq> None then Some (FFile (ie_print ie (the l4_facts)))
        else if f = ''_db_reach.json'' \<and> db_reach \<noteq> None then Some (FFile (ie_print ie (the db_reach)))
        else if f = ''_platform.json'' then Some (FFile (ie_print ie platform))
        else if f = ''_layerpaths.json'' then Some (FFile (ie_print_paths ie (lp_layer_paths plan)))
        else if f = ''_layers.json'' then Some (FFile (ie_print_layers ie (lp_runtime_layers plan)))
        else map_of st3 f)"
  have 1: "map_of st1 ''_servers'' = Some (FDir ds)"
    using assms(2) ds by (simp add: stage_deployment_tree_lookup[OF s(1)] staged_entry_def)
  then obtain ds' where ds': "inject_manifests ie ss (map fst ds) ds = Inr ds'" "map_of st2 ''_servers'' = Some (FDir ds')"
    using s(2) assms(3) by (auto simp: inject_secrets_def is_real_def)
  have 3: "map_of img ''_servers'' = Some (FDir ds')"
    using s(3) ds'(2) inject_function_secrets_lookup[of ie ss binding st2 st3 "''_servers''"] by (simp add: m split: if_splits)
  define env' where "env' = insert_secrets server_skips ss env"
  have obj: "inject_env server_skips ss (JObj obj) = Some (hupd ''env'' (JObj env') obj)"
    using env by (auto simp: inject_env_def env'_def)
  have "distinct (map fst ds)"
    using assms(5) ds fs_wf_entries_map_of fs_wf_entries_distinct by fastforce
  moreover have "p \<in> set (map fst ds)" using p(2) by (force dest: map_of_SomeD)
  ultimately have 4: "map_of ds' p = Some (FFile (ie_print ie (JObj (hupd ''env'' (JObj env') obj))))"
    using inject_manifests_hit[OF ds'(1) _ _ p obj] by blast
  have 5: "map_of env' k = (case map_of ss k of
       Some v \<Rightarrow> if server_skips k v then map_of env k else Some (JStr v) | None \<Rightarrow> map_of env k)" for k
    unfolding env'_def by (rule insert_secrets_lookup[OF assms(4)])
  have 6: "map_of env' k = map_of env k" if "k \<in> {''PORT'', ''HOME'', ''HOSTNAME'', ''PATH''}" for k
    using that by (auto simp: 5 server_skips_def RESERVED_ENV_def split: option.splits)
  show ?thesis using 3 4 5 6 by (intro exI[of _ ds'] exI[of _ "hupd ''env'' (JObj env') obj"] exI[of _ env']) simp
qed

section \<open>Accepted trees\<close>

text \<open>
  The check at activation and the backstops of the image build agree: a tree that
  \<open>validate_deployment_tree\<close> accepted is refused by neither for a link.
\<close>

lemma read_regular_no_symlink: "read_regular h p n \<noteq> Inl (ESymlink x)"
  by (cases n; cases "the n") auto

lemma read_servers_no_symlink: "read_servers env d ps \<noteq> Inl (ESymlink x)"
proof (induction ps)
  case (Cons p ps)
  have "(case r of None \<Rightarrow> read_servers env d ps
       | Some b \<Rightarrow> (case le_parse_info env b of None \<Rightarrow> Inl (EParse p)
            | Some info \<Rightarrow> try_bind (read_servers env d ps) (\<lambda>rest.
                Inr (if sl_app_layer info \<noteq> None then (file_stem p, info) # rest else rest)))) \<noteq> Inl (ESymlink x)" for r
    using Cons by (auto simp: try_bind_Inl_iff split: option.splits)
  then show ?case
    by (simp add: try_bind_Inl_iff read_regular_no_symlink del: not_None_eq)
qed simp

lemma gather_servers_no_symlink: "gather_servers env dep content \<noteq> Inl (ESymlink x)"
  by (auto simp: gather_servers_def is_real_dir_iff read_servers_no_symlink)

lemma push_runtimes_no_symlink: "push_runtimes pf langs st \<noteq> Inl (ESymlink x)"
  by (induction pf langs st rule: push_runtimes.induct) (auto split: option.splits)

lemma fs_read_no_symlink: "fs_read h m \<noteq> Inl (ESymlink x)"
  by (cases m) (auto split: option.splits fnode.splits)

lemma read_platform_no_symlink: "read_platform env store \<noteq> Inl (ESymlink x)"
  by (auto simp: read_platform_def try_bind_Inl_iff fs_read_no_symlink split: option.splits)

lemma resolve_blobs_no_symlink: "resolve_blobs env dep store verify bs \<noteq> Inl (ESymlink x)"
  by (induction bs)
    (auto simp: Let_def try_bind_Inl_iff blob_sha256_hex_def fs_read_no_symlink split: option.splits if_splits)

lemma push_apps_no_symlink:
  assumes lf: "\<And>e. fs_entry dep ''_layers'' = Some e \<Longrightarrow> link_free e"
  shows "push_apps dep store ss st \<noteq> Inl (ESymlink x)"
proof -
  have l: "\<not> is_symlink (fs_entry dep ''_layers'')" using lf by (auto simp: is_symlink_iff)
  have b: "\<not> is_symlink (blob_node dep store (AppBlob f))" for f
  proof (cases "fs_entry dep ''_layers''")
    case (Some e)
    with lf have "link_free e" by simp
    then have "\<not> is_symlink (fs_entry e f)"
      by (cases e) (auto simp: is_symlink_iff dest: link_free_map_of)
    then show ?thesis using Some by simp
  qed simp
  show ?thesis using l b
    by (induction dep store ss st rule: push_apps.induct) (auto simp: Let_def split: option.splits if_splits)
qed

lemma build_order_no_symlink:
  assumes "\<And>e. fs_entry dep ''_layers'' = Some e \<Longrightarrow> link_free e"
  shows "build_order env dep store servers has_db \<noteq> Inl (ESymlink x)"
  unfolding build_order_def
  by (auto simp: try_bind_Inl_iff Let_def read_platform_no_symlink push_runtimes_no_symlink
      push_apps_no_symlink[OF assms] split: if_splits)

lemma server_layers_no_symlink: "insert_servers bo ss m \<noteq> Inl (ESymlink x)" "database_layers bo db \<noteq> Inl (ESymlink x)"
  by (induction bo ss m rule: insert_servers.induct)
    (auto simp: try_bind_Inl_iff server_layers_def index_dev_def database_layers_def split: option.splits if_splits)

lemma compute_layer_plan_no_symlink:
  assumes "\<And>e. fs_entry dep ''_layers'' = Some e \<Longrightarrow> link_free e"
  shows "compute_layer_plan_with env dep store dd verify content \<noteq> Inl (ESymlink x)"
  unfolding compute_layer_plan_with_def
  by (auto simp: try_bind_Inl_iff Let_def gather_servers_no_symlink build_order_no_symlink[OF assms]
      resolve_blobs_no_symlink server_layers_no_symlink split: if_splits)

lemma inject_manifests_no_symlink: "inject_manifests ie ss ps es \<noteq> Inl (ESymlink x)"
  by (induction ie ss ps es rule: inject_manifests.induct)
    (auto simp: try_bind_Inl_iff read_regular_no_symlink write_fresh_ok split: option.splits)

lemma inject_sidecars_no_symlink: "inject_sidecars ie ss b ps es \<noteq> Inl (ESymlink x)"
  by (induction ie ss b ps es rule: inject_sidecars.induct)
    (auto simp: try_bind_Inl_iff Let_def read_regular_no_symlink write_fresh_ok split: option.splits)

lemma stage_no_symlink:
  assumes "\<not> is_symlink (map_of es ''_database'')"
  shows "stage_deployment_tree h (FDir es) st content \<noteq> Inl (ESymlink x)"
  using assms
  by (cases content)
    (auto simp: try_bind_Inl_iff Let_def read_regular_no_symlink write_fresh_ok is_real_dir_iff split: option.splits)

lemma inject_secrets_no_symlink:
  "\<not> is_symlink (map_of st ''_servers'') \<Longrightarrow> inject_secrets ie ss st \<noteq> Inl (ESymlink x)"
  by (auto simp: inject_secrets_def Let_def is_real_dir_iff try_bind_Inl_iff inject_manifests_no_symlink)

lemma inject_function_secrets_no_symlink:
  "\<not> is_symlink (map_of st ''_functions'') \<Longrightarrow> inject_function_secrets ie ss b st \<noteq> Inl (ESymlink x)"
  by (auto simp: inject_function_secrets_def Let_def is_real_dir_iff try_bind_Inl_iff inject_sidecars_no_symlink)

lemma write_no_symlink: "write_fresh f b es \<noteq> Inl e" "write_fact ie f facts es \<noteq> Inl e"
  by (auto simp: write_fresh_ok write_fact_def split: option.splits)

lemma validated_no_link:
  assumes "validate_deployment_tree host (FDir es) = Inr ()" "starts_with ''_'' n"
  shows "\<not> is_symlink (map_of es n)"
proof
  assume "is_symlink (map_of es n)"
  then obtain t where "map_of es n = Some (FLink t)" by (auto simp: is_symlink_iff)
  from validated_sidecars[OF assms(1) this assms(2)] show False by (auto split: if_splits)
qed

lemma staged_no_link: "\<not> is_symlink (map_of es f) \<Longrightarrow> \<not> is_symlink (staged_entry es content f)"
  by (auto simp: staged_entry_def split: option.splits fnode.splits)

lemma build_image_no_symlink:
  assumes "\<And>f. f \<in> {''_database'', ''_servers'', ''_functions''} \<Longrightarrow> \<not> is_symlink (map_of es f)"
  shows "build_metadata_image_with ie (FDir es) plan ss platform binding db_reach l4_facts content \<noteq> Inl (ESymlink x)"
proof
  assume err: "build_metadata_image_with ie (FDir es) plan ss platform binding db_reach l4_facts content = Inl (ESymlink x)"
  have "\<exists>st1. stage_deployment_tree (ie_host ie) (FDir es) [] content = Inr st1 \<and>
    ((if ss \<noteq> [] then inject_secrets ie ss st1 else Inr st1) = Inl (ESymlink x) \<or>
     (\<exists>st2. (if ss \<noteq> [] then inject_secrets ie ss st1 else Inr st1) = Inr st2 \<and>
        (if ss \<noteq> [] \<or> binding \<noteq> None then inject_function_secrets ie ss binding st2 else Inr st2) = Inl (ESymlink x)))"
    using err stage_no_symlink[of es] assms(1)[of "''_database''"]
    unfolding build_metadata_image_with_def try_bind_Inl_iff by (simp add: write_no_symlink)
  then obtain st1 where st1: "stage_deployment_tree (ie_host ie) (FDir es) [] content = Inr st1"
    and cases: "(if ss \<noteq> [] then inject_secrets ie ss st1 else Inr st1) = Inl (ESymlink x) \<or>
     (\<exists>st2. (if ss \<noteq> [] then inject_secrets ie ss st1 else Inr st1) = Inr st2 \<and>
        (if ss \<noteq> [] \<or> binding \<noteq> None then inject_function_secrets ie ss binding st2 else Inr st2) = Inl (ESymlink x))"
    by blast
  have no: "\<not> is_symlink (map_of st1 ''_servers'')" "\<not> is_symlink (map_of st1 ''_functions'')"
    using assms by (simp_all add: stage_deployment_tree_lookup[OF st1] staged_no_link)
  from cases show False
  proof
    assume "(if ss \<noteq> [] then inject_secrets ie ss st1 else Inr st1) = Inl (ESymlink x)"
    then show False using inject_secrets_no_symlink[OF no(1)] by (simp split: if_splits)
  next
    assume "\<exists>st2. (if ss \<noteq> [] then inject_secrets ie ss st1 else Inr st1) = Inr st2 \<and>
        (if ss \<noteq> [] \<or> binding \<noteq> None then inject_function_secrets ie ss binding st2 else Inr st2) = Inl (ESymlink x)"
    then obtain st2 where 2: "(if ss \<noteq> [] then inject_secrets ie ss st1 else Inr st1) = Inr st2"
      "(if ss \<noteq> [] \<or> binding \<noteq> None then inject_function_secrets ie ss binding st2 else Inr st2) = Inl (ESymlink x)" by blast
    have "map_of st2 ''_functions'' = map_of st1 ''_functions''"
      using 2(1) by (auto simp: inject_secrets_lookup split: if_splits)
    with no(2) 2(2) show False using inject_function_secrets_no_symlink[of st2] by (simp split: if_splits)
  qed
qed

text \<open>A tree the activation check accepted is never refused afterwards for a link: neither the
  layer plan nor the image build of any of its VMs ends in the symlink error, with the secrets,
  the credential and the facts of any deploy.\<close>

theorem accepted_tree_not_refused:
  assumes "validate_deployment_tree host (FDir es) = Inr ()"
  shows "compute_layer_plan_with env (FDir es) store dd verify content \<noteq> Inl (ESymlink x) \<and>
    build_metadata_image_with ie (FDir es) plan ss platform binding db_reach l4_facts content \<noteq> Inl (ESymlink y)"
proof
  have "link_free e" if "fs_entry (FDir es) ''_layers'' = Some e" for e
    using validated_sidecars[OF assms, of "''_layers''" e] that by (simp add: starts_with_iff)
  then show "compute_layer_plan_with env (FDir es) store dd verify content \<noteq> Inl (ESymlink x)"
    by (rule compute_layer_plan_no_symlink)
  have "\<not> is_symlink (map_of es f)" if "f \<in> {''_database'', ''_servers'', ''_functions''}" for f
    using validated_no_link[OF assms, of f] that by (auto simp: starts_with_iff)
  then show "build_metadata_image_with ie (FDir es) plan ss platform binding db_reach l4_facts content \<noteq> Inl (ESymlink y)"
    by (rule build_image_no_symlink)
qed

section \<open>Facts and credentials the host does not have\<close>

text \<open>When the host has no such facts, a tenant's file at their name reaches the image of an app VM.\<close>

lemma absent_facts_pass_through:
  assumes "build_metadata_image_with ie (FDir es) plan ss platform binding None None content = Inr img" "includes_app content"
  shows "map_of img ''_db_reach.json'' = map_of es ''_db_reach.json'' \<and> map_of img ''_l4.json'' = map_of es ''_l4.json''"
  using assms(2) by (simp add: image_lookup[OF assms(1)] staged_entry_def)

text \<open>
  Without secrets and without a credential to bind, the function sidecars are not touched: a
  \<open>storage_credential\<close> the tenant's tree carries in one reaches the image.
\<close>

lemma unbound_sidecars_pass:
  assumes "build_metadata_image_with ie (FDir es) plan [] platform None db_reach l4_facts content = Inr img"
    and "includes_app content"
  shows "map_of img ''_functions'' = map_of es ''_functions''"
  using assms(1)
proof (rule build_metadata_image_cases)
  fix st1 st2 st3
  assume s: "stage_deployment_tree (ie_host ie) (FDir es) [] content = Inr st1"
    "(if [] \<noteq> [] then inject_secrets ie [] st1 else Inr st1) = Inr st2"
    "(if [] \<noteq> [] \<or> None \<noteq> None then inject_function_secrets ie [] None st2 else Inr st2) = Inr st3"
    and m: "\<And>f. map_of img f =
       (if f = ''_l4.json'' \<and> l4_facts \<noteq> None then Some (FFile (ie_print ie (the l4_facts)))
        else if f = ''_db_reach.json'' \<and> db_reach \<noteq> None then Some (FFile (ie_print ie (the db_reach)))
        else if f = ''_platform.json'' then Some (FFile (ie_print ie platform))
        else if f = ''_layerpaths.json'' then Some (FFile (ie_print_paths ie (lp_layer_paths plan)))
        else if f = ''_layers.json'' then Some (FFile (ie_print_layers ie (lp_runtime_layers plan)))
        else map_of st3 f)"
  have "map_of st1 ''_functions'' = map_of es ''_functions''"
    using assms(2) by (simp add: stage_deployment_tree_lookup[OF s(1)] staged_entry_def)
  then show ?thesis using s(2,3) by (simp add: m)
qed

section \<open>Examples\<close>

definition demo_image_env :: image_env where
  "demo_image_env =
     \<lparr>ie_host = (\<lambda>_. None),
      ie_parse = (\<lambda>b. if b = ''api'' then Some (JObj [(''name'', JStr ''api''), (''env'', JObj [(''PORT'', JStr ''3000'')])]) else None),
      ie_print = (\<lambda>j. case j of JObj ((k, JStr v) # _) \<Rightarrow> ''printed '' @ v | _ \<Rightarrow> ''printed''),
      ie_print_layers = (\<lambda>_. ''layers''), ie_print_paths = (\<lambda>_. ''paths'')\<rparr>"

definition demo_tree :: fs_entries where
  "demo_tree =
     [(''_servers'', FDir [(''api.json'', FFile ''api'')]), (''_database.json'', FFile ''db''),
      (''_l4.json'', FFile ''forged''), (''_layers.json'', FLink ''/etc/shadow''), (''index.html'', FFile ''hello'')]"

definition demo_secrets :: secrets where
  "demo_secrets = [(''API_KEY'', ''s3cret''), (''PORT'', ''1'')]"

definition demo_image :: "image_content \<Rightarrow> secrets \<Rightarrow> deploy_error + fs_entries" where
  "demo_image content ss =
     build_metadata_image_with demo_image_env (FDir demo_tree) (layer_plan_empty False) ss (JObj []) None None None content"

lemma demo_image_built:
  "is_ok (demo_image ImgAll demo_secrets)" "is_ok (demo_image AppNoDb [])"
  by code_simp+

lemma demo_image_Some:
  assumes "is_ok (demo_image content ss)"
  obtains img where
    "build_metadata_image_with demo_image_env (FDir demo_tree) (layer_plan_empty False) ss (JObj []) None None None content = Inr img"
  using assms unfolding demo_image_def
  by (cases "build_metadata_image_with demo_image_env (FDir demo_tree) (layer_plan_empty False) ss (JObj []) None None None content") auto

theorem control_files_exact_witness:
  "\<exists>img. build_metadata_image_with demo_image_env (FDir demo_tree) (layer_plan_empty False) demo_secrets (JObj []) None None
       (Some (JObj [(''key'', JStr ''k'')])) ImgAll = Inr img \<and>
     map_of img ''_layers.json'' = Some (FFile ''layers'') \<and> map_of img ''_l4.json'' = Some (FFile ''printed k'')"
proof -
  have "is_ok (build_metadata_image_with demo_image_env (FDir demo_tree) (layer_plan_empty False) demo_secrets (JObj []) None None
       (Some (JObj [(''key'', JStr ''k'')])) ImgAll)" by code_simp
  then obtain img where img: "build_metadata_image_with demo_image_env (FDir demo_tree) (layer_plan_empty False) demo_secrets (JObj [])
      None None (Some (JObj [(''key'', JStr ''k'')])) ImgAll = Inr img"
    by (cases "build_metadata_image_with demo_image_env (FDir demo_tree) (layer_plan_empty False) demo_secrets (JObj [])
      None None (Some (JObj [(''key'', JStr ''k'')])) ImgAll") auto
  from control_files_exact[OF img] img show ?thesis by (simp add: demo_image_env_def)
qed

lemma demo_app_plan:
  "compute_layer_plan_with demo_layer_env (FDir [(''_database.json'', FFile ''db'')]) [] False True AppNoDb =
   Inr (layer_plan_empty False)"
  by code_simp

theorem dedicated_split_witness:
  "\<exists>img. build_metadata_image_with demo_image_env (FDir [(''_database.json'', FFile ''db'')]) (layer_plan_empty False) [] (JObj [])
      None None None AppNoDb = Inr img \<and> \<not> is_file (map_of img ''_database.json'') \<and> \<not> is_dir (map_of img ''_database'')"
proof -
  have "is_ok (build_metadata_image_with demo_image_env (FDir [(''_database.json'', FFile ''db'')]) (layer_plan_empty False) [] (JObj [])
      None None None AppNoDb)" by code_simp
  then obtain img where img: "build_metadata_image_with demo_image_env (FDir [(''_database.json'', FFile ''db'')])
      (layer_plan_empty False) [] (JObj []) None None None AppNoDb = Inr img"
    by (cases "build_metadata_image_with demo_image_env (FDir [(''_database.json'', FFile ''db'')]) (layer_plan_empty False) []
      (JObj []) None None None AppNoDb") auto
  from dedicated_split[OF demo_app_plan img] img show ?thesis by (auto simp: is_file_iff is_dir_iff)
qed

lemma demo_tree_wf: "fs_wf (FDir demo_tree)" "hm_wf demo_secrets" "demo_secrets \<noteq> []"
  by code_simp+

lemma demo_secret_values:
  "map_of demo_secrets ''API_KEY'' = Some ''s3cret''" "\<not> server_skips ''API_KEY'' ''s3cret''"
  by code_simp+

theorem secrets_injected_exactly_witness:
  "\<exists>img ds' obj' env'. demo_image ImgAll demo_secrets = Inr img \<and> map_of img ''_servers'' = Some (FDir ds') \<and>
     map_of ds' ''api.json'' = Some (FFile (ie_print demo_image_env (JObj obj'))) \<and>
     map_of obj' ''env'' = Some (JObj env') \<and>
     map_of env' ''API_KEY'' = Some (JStr ''s3cret'') \<and> map_of env' ''PORT'' = Some (JStr ''3000'')"
proof -
  from demo_image_built(1) obtain img where img:
    "build_metadata_image_with demo_image_env (FDir demo_tree) (layer_plan_empty False) demo_secrets (JObj []) None None None ImgAll = Inr img"
    by (rule demo_image_Some)
  have f: "includes_app ImgAll" "map_of demo_tree ''_servers'' = Some (FDir [(''api.json'', FFile ''api'')])"
    "extension ''api.json'' = Some ''json''" "map_of [(''api.json'', FFile ''api'')] ''api.json'' = Some (FFile ''api'')"
    "ie_parse demo_image_env ''api'' = Some (JObj [(''name'', JStr ''api''), (''env'', JObj [(''PORT'', JStr ''3000'')])])"
    by code_simp+
  have e: "map_of [(''name'', JStr ''api''), (''env'', JObj [(''PORT'', JStr ''3000'')])] ''env'' = Some (JObj [(''PORT'', JStr ''3000'')]) \<or>
     map_of [(''name'', JStr ''api''), (''env'', JObj [(''PORT'', JStr ''3000'')])] ''env'' = None \<and> [(''PORT'', JStr ''3000'')] = []"
    by simp
  from secrets_injected_exactly[OF img f(1) demo_tree_wf(3,2,1) f(2-5) e] obtain ds' obj' env' where
    d: "map_of img ''_servers'' = Some (FDir ds')"
      "map_of ds' ''api.json'' = Some (FFile (ie_print demo_image_env (JObj obj')))"
      "map_of obj' = (map_of [(''name'', JStr ''api''), (''env'', JObj [(''PORT'', JStr ''3000'')])])(''env'' \<mapsto> JObj env')"
      "\<forall>k. map_of env' k = (case map_of demo_secrets k of
       Some v \<Rightarrow> if server_skips k v then map_of [(''PORT'', JStr ''3000'')] k else Some (JStr v) | None \<Rightarrow> map_of [(''PORT'', JStr ''3000'')] k)"
      "\<forall>k \<in> {''PORT'', ''HOME'', ''HOSTNAME'', ''PATH''}. map_of env' k = map_of [(''PORT'', JStr ''3000'')] k"
    by blast
  have "map_of env' ''API_KEY'' = Some (JStr ''s3cret'')" using d(4) by (simp add: demo_secret_values)
  moreover have "map_of env' ''PORT'' = Some (JStr ''3000'')" using d(5) by simp
  moreover have "map_of obj' ''env'' = Some (JObj env')" using d(3) by simp
  ultimately show ?thesis using d(1,2) img unfolding demo_image_def by blast
qed

definition demo_accepted :: fs_entries where
  "demo_accepted =
     [(''_servers'', FDir [(''api'', FDir [(''bin'', FLink ''/usr/bin'')]), (''api.json'', FFile ''api'')]),
      (''site'', FLink ''elsewhere'')]"

lemma demo_accepted_valid: "validate_deployment_tree (\<lambda>_. None) (FDir demo_accepted) = Inr ()"
  by code_simp

theorem accepted_tree_not_refused_witness:
  "compute_layer_plan_with demo_layer_env (FDir demo_accepted) demo_store False True ImgAll \<noteq> Inl (ESymlink ''api.json'') \<and>
   build_metadata_image_with demo_image_env (FDir demo_accepted) (layer_plan_empty False) demo_secrets (JObj []) None None None
     ImgAll \<noteq> Inl (ESymlink ''_servers'')"
  by (rule accepted_tree_not_refused[OF demo_accepted_valid])

end
