(* ===== verification/Layer_Mount.thy ===== *)
theory Layer_Mount
  imports Meta_Image
begin

text \<open>
  The agent's side of the layers: \<open>crates/jkbase-agent/src/dmverity.rs\<close> (a bounded run of
  \<open>veritysetup\<close>, the activation of a verity mapping) and, of \<open>crates/jkbase-agent/src/main.rs\<close>, the
  mounting of the layers the device map names, the branch of the boot that reads the map, and the
  guard against a second database. Whether a path exists, a child exits, a block reads back or a
  mount succeeds is asked of the guest's system (\<open>guest_env\<close>); closing a mapping is taken to succeed.
\<close>

section \<open>A bounded child process\<close>

text \<open>
  \<open>run_bounded\<close>: the child is polled every 50 ms. \<open>ch_exited t\<close> is the answer of \<open>try_wait\<close> at
  the time \<open>t\<close> (an error, or whether the child has exited); a sleep that begins at \<open>t\<close> may last longer
  than asked, by \<open>ch_oversleep t\<close>. The calls that block take time too: once the child has exited,
  \<open>wait_with_output\<close> reads its pipes to their end, for \<open>ch_drain t\<close>, and gives an error or whether the
  exit status was a success; on a timeout \<open>kill\<close> and \<open>wait\<close> return after \<open>ch_reap t\<close>, when the kernel
  has reaped the killed child.
\<close>

datatype io_error = IoOther | IoTimedOut

record child =
  ch_spawns :: bool
  ch_exited :: "instant \<Rightarrow> io_error + bool"
  ch_output :: "io_error + bool"
  ch_oversleep :: "instant \<Rightarrow> duration"
  ch_drain :: "instant \<Rightarrow> duration"
  ch_reap :: "instant \<Rightarrow> duration"

definition POLL_INTERVAL :: duration where
  "POLL_INTERVAL = from_millis 50"

function run_loop :: "child \<Rightarrow> duration \<Rightarrow> instant \<Rightarrow> instant \<Rightarrow> (io_error + bool) \<times> instant" where
  "run_loop ch timeout start now =
     (case ch_exited ch now of
        Inl e \<Rightarrow> (Inl e, now)
      | Inr done \<Rightarrow>
          if done then (ch_output ch, now + ch_drain ch now)
          else if now - start \<ge> timeout then (Inl IoTimedOut, now + ch_reap ch now)
          else run_loop ch timeout start (now + POLL_INTERVAL + ch_oversleep ch now))"
  by pat_completeness auto
termination
  by (relation "measure (\<lambda>(ch, timeout, start, now). start + timeout - now)")
    (auto simp: POLL_INTERVAL_def from_millis_def)

definition run_bounded :: "child \<Rightarrow> duration \<Rightarrow> instant \<Rightarrow> (io_error + bool) \<times> instant" where
  "run_bounded ch timeout now =
     (if \<not> ch_spawns ch then (Inl IoOther, now) else run_loop ch timeout now now)"

declare run_loop.simps [simp del]



section \<open>Activating a verity mapping\<close>

text \<open>
  What the guest's system answers: which paths exist, which are block devices, how \<open>veritysetup\<close>
  behaves for a device, a name and its parameters, whether the first block of the mapping reads back
  (the kernel checks it against the root hash), and whether a mount succeeds.
\<close>

record guest_env =
  ge_exists :: "string \<Rightarrow> bool"
  ge_block_device :: "string \<Rightarrow> bool"
  ge_open :: "string \<Rightarrow> string \<Rightarrow> string \<Rightarrow> nat \<Rightarrow> child"
  ge_first_block :: "string \<Rightarrow> string \<Rightarrow> nat \<Rightarrow> bool"
  ge_mount_erofs :: "string \<Rightarrow> string \<Rightarrow> bool"
  ge_now :: instant

definition VERITY_BLOCK_SIZE :: nat where
  "VERITY_BLOCK_SIZE = 4096"

definition VERITY_OPEN_TIMEOUT :: duration where
  "VERITY_OPEN_TIMEOUT = from_secs 30"

definition is_hex :: "string \<Rightarrow> bool" where
  "is_hex s \<longleftrightarrow> s \<noteq> [] \<and> list_all is_ascii_hexdigit s"

definition which_veritysetup :: "guest_env \<Rightarrow> string option" where
  "which_veritysetup ge =
     find (ge_exists ge) (map (\<lambda>d. d @ ''/veritysetup'') [''/usr/sbin'', ''/sbin'', ''/usr/bin'', ''/bin''])"

definition verity_available :: "guest_env \<Rightarrow> bool" where
  "verity_available ge \<longleftrightarrow> ge_exists ge ''/dev/mapper/control'' \<and> which_veritysetup ge \<noteq> None"

definition path_components :: "string \<Rightarrow> string list" where
  "path_components p = filter (\<lambda>c. c \<noteq> '''' \<and> c \<noteq> ''.'') (split_char (CHR ''/'') p)"

definition under_dev :: "string \<Rightarrow> bool" where
  "under_dev p \<longleftrightarrow> starts_with ''/'' p \<and> take 1 (path_components p) = [''dev''] \<and> ''..'' \<notin> set (path_components p)"

definition is_ascii_alphanumeric :: "char \<Rightarrow> bool" where
  "is_ascii_alphanumeric c \<longleftrightarrow>
     (let n = of_char c :: nat in 48 \<le> n \<and> n \<le> 57 \<or> 65 \<le> n \<and> n \<le> 90 \<or> 97 \<le> n \<and> n \<le> 122)"

definition mapper_name_ok :: "string \<Rightarrow> bool" where
  "mapper_name_ok name \<longleftrightarrow>
     name \<noteq> [] \<and> list_all (\<lambda>b. is_ascii_alphanumeric b \<or> b = CHR ''-'' \<or> b = CHR ''_'') name"

text \<open>
  \<open>activate\<close>: the mapper node to mount from, and the mappings that are active afterwards. A mapping
  whose first block does not read back is closed again when its handle is dropped.
\<close>

definition activate :: "guest_env \<Rightarrow> string \<Rightarrow> string \<Rightarrow> verity_params \<Rightarrow> string list
    \<Rightarrow> (io_error + string) \<times> string list" where
  "activate ge name data_dev params maps =
     (if \<not> is_hex (vp_root_hash params) then (Inl IoOther, maps)
      else if vp_data_size params = 0 \<or> vp_data_size params mod VERITY_BLOCK_SIZE \<noteq> 0 then (Inl IoOther, maps)
      else if \<not> mapper_name_ok name then (Inl IoOther, maps)
      else if \<not> under_dev data_dev \<or> \<not> ge_block_device ge data_dev then (Inl IoOther, maps)
      else if which_veritysetup ge = None then (Inl IoOther, maps)
      else
        (case fst (run_bounded (ge_open ge data_dev name (vp_root_hash params) (vp_data_size params))
                     VERITY_OPEN_TIMEOUT (ge_now ge)) of
           Inl e \<Rightarrow> (Inl e, maps)
         | Inr ok \<Rightarrow>
             if \<not> ok then (Inl IoOther, maps)
             else if \<not> ge_first_block ge data_dev (vp_root_hash params) (vp_data_size params)
             then (Inl IoOther, removeAll name (name # maps))
             else (Inr (''/dev/mapper/'' @ name), name # maps)))"

section \<open>Mounting the layers\<close>

definition path_file_name :: "string \<Rightarrow> string" where
  "path_file_name p = (if path_components p = [] \<or> last (path_components p) = ''..'' then ''dev'' else last (path_components p))"

definition verity_name :: "string \<Rightarrow> string" where
  "verity_name device = ''jkverity-'' @ path_file_name device"

definition mountpoint_for :: "string \<Rightarrow> string" where
  "mountpoint_for device = ''/tmp/layers/'' @ path_file_name device"

text \<open>\<open>mt_source\<close> records what the mount of a device was made from.\<close>

record layer_mount =
  mt_source :: string
  mt_point :: string

record mounts =
  ms_mounted :: "(string, layer_mount) hmap"
  ms_mappings :: "string list"

definition mount_device :: "guest_env \<Rightarrow> runtime_layers \<Rightarrow> string \<Rightarrow> mounts \<Rightarrow> mounts" where
  "mount_device ge rl device ms =
     (if map_of (ms_mounted ms) device \<noteq> None then ms
      else if \<not> ge_exists ge device then ms
      else
        let mp = mountpoint_for device
        in case map_of (rl_verity rl) device of
             Some params \<Rightarrow>
               (case activate ge (verity_name device) device params (ms_mappings ms) of
                  (Inl e, maps) \<Rightarrow> ms\<lparr>ms_mappings := maps\<rparr>
                | (Inr node, maps) \<Rightarrow>
                    if ge_mount_erofs ge node mp
                    then ms\<lparr>ms_mounted := hupd device \<lparr>mt_source = node, mt_point = mp\<rparr> (ms_mounted ms), ms_mappings := maps\<rparr>
                    else ms\<lparr>ms_mappings := removeAll (verity_name device) maps\<rparr>)
           | None \<Rightarrow>
               if ge_mount_erofs ge device mp
               then ms\<lparr>ms_mounted := hupd device \<lparr>mt_source = device, mt_point = mp\<rparr> (ms_mounted ms)\<rparr>
               else ms)"

fun resolve_dirs :: "(string, layer_mount) hmap \<Rightarrow> string list \<Rightarrow> string list option" where
  "resolve_dirs mounted [] = Some []"
| "resolve_dirs mounted (d # ds) =
     (case map_of mounted d of
        None \<Rightarrow> None
      | Some m \<Rightarrow> map_option ((#) (mt_point m)) (resolve_dirs mounted ds))"

definition nonempty_dirs :: "string list option \<Rightarrow> string list option" where
  "nonempty_dirs r = (case r of Some ds \<Rightarrow> if ds = [] then None else Some ds | None \<Rightarrow> None)"

definition mount_layers :: "guest_env \<Rightarrow> runtime_layers \<Rightarrow> (string, string list) hmap \<times> string list option \<times> mounts" where
  "mount_layers ge rl =
     (let layer_lists = map snd (rl_servers rl) @ (case rl_database rl of Some ds \<Rightarrow> [ds] | None \<Rightarrow> []);
          ms = fold (mount_device ge rl) (concat layer_lists) \<lparr>ms_mounted = [], ms_mappings = []\<rparr>;
          lm = List.map_filter (\<lambda>(name, ds).
                 map_option (Pair name) (nonempty_dirs (resolve_dirs (ms_mounted ms) ds))) (rl_servers rl);
          database = Option.bind (rl_database rl) (\<lambda>ds. nonempty_dirs (resolve_dirs (ms_mounted ms) ds))
      in (lm, database, ms))"

section \<open>Boot\<close>

record boot_result =
  bt_data_disk :: "string option"
  bt_layer_map :: "(string, string list) hmap"
  bt_db_lowerdirs :: "string list option"
  bt_mounts :: mounts

definition load_runtime_layers :: "(string \<Rightarrow> runtime_layers option) \<Rightarrow> fs_entries \<Rightarrow> runtime_layers option" where
  "load_runtime_layers parse img =
     (case map_of img ''_layers.json'' of Some (FFile b) \<Rightarrow> parse b | _ \<Rightarrow> None)"

definition boot_layers :: "guest_env \<Rightarrow> (string \<Rightarrow> runtime_layers option) \<Rightarrow> fs_entries \<Rightarrow> boot_result" where
  "boot_layers ge parse img =
     (case load_runtime_layers parse img of
        Some rl \<Rightarrow>
          if rl_schema rl > LAYERS_SCHEMA
          then \<lparr>bt_data_disk = rl_data_device rl, bt_layer_map = [], bt_db_lowerdirs = None,
                bt_mounts = \<lparr>ms_mounted = [], ms_mappings = []\<rparr>\<rparr>
          else (case mount_layers ge rl of (lm, db, ms) \<Rightarrow>
                  \<lparr>bt_data_disk = rl_data_device rl, bt_layer_map = lm, bt_db_lowerdirs = db, bt_mounts = ms\<rparr>)
      | None \<Rightarrow> \<lparr>bt_data_disk = Some ''/dev/vdc'', bt_layer_map = [], bt_db_lowerdirs = None,
                bt_mounts = \<lparr>ms_mounted = [], ms_mappings = []\<rparr>\<rparr>)"

text \<open>The guard against a second database: the overlay to start, and whether the leg to the sibling VM starts.\<close>

definition database_start :: "bool \<Rightarrow> string list option \<Rightarrow> string list option \<times> bool" where
  "database_start dedicated db_lowerdirs =
     (let db = (if dedicated \<and> db_lowerdirs \<noteq> None then None else db_lowerdirs)
      in (db, dedicated \<and> db = None))"

section \<open>Fail closed\<close>

text \<open>A mount made through a verity mapping pinned to the given parameters, whose first block read back.\<close>

definition verity_mounted :: "guest_env \<Rightarrow> string \<Rightarrow> verity_params \<Rightarrow> layer_mount \<Rightarrow> bool" where
  "verity_mounted ge device params m \<longleftrightarrow>
     mt_source m = ''/dev/mapper/'' @ verity_name device \<and> is_hex (vp_root_hash params) \<and>
     0 < vp_data_size params \<and> vp_data_size params mod VERITY_BLOCK_SIZE = 0 \<and>
     ge_first_block ge device (vp_root_hash params) (vp_data_size params)"

definition mounts_ok :: "guest_env \<Rightarrow> runtime_layers \<Rightarrow> mounts \<Rightarrow> bool" where
  "mounts_ok ge rl ms \<longleftrightarrow>
     (\<forall>d m. map_of (ms_mounted ms) d = Some m \<longrightarrow>
        mt_point m = mountpoint_for d \<and>
        (case map_of (rl_verity rl) d of Some v \<Rightarrow> verity_mounted ge d v m | None \<Rightarrow> mt_source m = d)) \<and>
     (\<forall>name \<in> set (ms_mappings ms). \<exists>d. map_of (ms_mounted ms) d \<noteq> None \<and> map_of (rl_verity rl) d \<noteq> None \<and>
        name = verity_name d)"

lemma activate_cases:
  "activate ge name dev v maps = (Inl e, maps') \<Longrightarrow> set maps' \<subseteq> set maps"
  "activate ge name dev v maps = (Inr node, maps') \<Longrightarrow>
     maps' = name # maps \<and> verity_mounted ge dev v \<lparr>mt_source = ''/dev/mapper/'' @ verity_name dev, mt_point = mp\<rparr>
     \<and> node = ''/dev/mapper/'' @ name"
  by (auto simp: activate_def verity_mounted_def split: if_splits sum.splits)

lemma mounts_ok_add:
  assumes "mounts_ok ge rl ms" "map_of (ms_mounted ms) device = None"
    and "mt_point m = mountpoint_for device"
    and "case map_of (rl_verity rl) device of Some v \<Rightarrow> verity_mounted ge device v m | None \<Rightarrow> mt_source m = device"
    and "\<And>name. name \<in> set maps \<Longrightarrow> name \<in> set (ms_mappings ms) \<or> map_of (rl_verity rl) device \<noteq> None \<and> name = verity_name device"
  shows "mounts_ok ge rl (ms\<lparr>ms_mounted := hupd device m (ms_mounted ms), ms_mappings := maps\<rparr>)"
  unfolding mounts_ok_def
proof (intro conjI allI impI ballI)
  fix d m'
  assume d: "map_of (ms_mounted (ms\<lparr>ms_mounted := hupd device m (ms_mounted ms), ms_mappings := maps\<rparr>)) d = Some m'"
  have old: "map_of (ms_mounted ms) d = Some m'" if "d \<noteq> device" using d that by simp
  show "mt_point m' = mountpoint_for d"
    using assms(1,3) d old unfolding mounts_ok_def by (cases "d = device") auto
  show "case map_of (rl_verity rl) d of Some v \<Rightarrow> verity_mounted ge d v m' | None \<Rightarrow> mt_source m' = d"
    using assms(1,4) d old unfolding mounts_ok_def by (cases "d = device") auto
next
  fix name
  assume "name \<in> set (ms_mappings (ms\<lparr>ms_mounted := hupd device m (ms_mounted ms), ms_mappings := maps\<rparr>))"
  then consider "name \<in> set (ms_mappings ms)" | "map_of (rl_verity rl) device \<noteq> None" "name = verity_name device"
    using assms(5) by auto
  then show "\<exists>d. map_of (ms_mounted (ms\<lparr>ms_mounted := hupd device m (ms_mounted ms), ms_mappings := maps\<rparr>)) d \<noteq> None \<and>
      map_of (rl_verity rl) d \<noteq> None \<and> name = verity_name d"
  proof cases
    case 1
    then obtain d where "map_of (ms_mounted ms) d \<noteq> None" "map_of (rl_verity rl) d \<noteq> None" "name = verity_name d"
      using assms(1) unfolding mounts_ok_def by blast
    then show ?thesis by (intro exI[of _ d]) simp
  next
    case 2
    then show ?thesis by (intro exI[of _ device]) simp
  qed
qed

lemma mount_device_ok:
  assumes "mounts_ok ge rl ms"
  shows "mounts_ok ge rl (mount_device ge rl device ms)"
proof (cases "map_of (ms_mounted ms) device \<noteq> None \<or> \<not> ge_exists ge device")
  case True
  then show ?thesis using assms by (auto simp: mount_device_def)
next
  case False
  then have fresh: "map_of (ms_mounted ms) device = None" "ge_exists ge device" by simp_all
  show ?thesis
  proof (cases "map_of (rl_verity rl) device")
    case None
    then have eq: "mount_device ge rl device ms =
        (if ge_mount_erofs ge device (mountpoint_for device)
         then ms\<lparr>ms_mounted := hupd device \<lparr>mt_source = device, mt_point = mountpoint_for device\<rparr> (ms_mounted ms)\<rparr> else ms)"
      using fresh by (simp add: mount_device_def Let_def)
    show ?thesis
      using mounts_ok_add[OF assms fresh(1), of "\<lparr>mt_source = device, mt_point = mountpoint_for device\<rparr>" "ms_mappings ms"] None assms
      unfolding eq by simp
  next
    case (Some v)
    obtain r maps where a: "activate ge (verity_name device) device v (ms_mappings ms) = (r, maps)"
      by (cases "activate ge (verity_name device) device v (ms_mappings ms)")
    show ?thesis
    proof (cases r)
      case (Inl e)
      then have "set maps \<subseteq> set (ms_mappings ms)" using a activate_cases(1) by simp
      moreover have "mount_device ge rl device ms = ms\<lparr>ms_mappings := maps\<rparr>"
        using fresh Some a Inl by (simp add: mount_device_def)
      ultimately show ?thesis using assms by (auto simp: mounts_ok_def)
    next
      case (Inr node)
      note ok = activate_cases(2)[OF a[unfolded Inr], of "mountpoint_for device"]
      show ?thesis
      proof (cases "ge_mount_erofs ge node (mountpoint_for device)")
        case True
        then have "mount_device ge rl device ms =
            ms\<lparr>ms_mounted := hupd device \<lparr>mt_source = node, mt_point = mountpoint_for device\<rparr> (ms_mounted ms), ms_mappings := maps\<rparr>"
          using fresh Some a Inr by (simp add: mount_device_def Let_def)
        then show ?thesis
          using mounts_ok_add[OF assms fresh(1), of "\<lparr>mt_source = node, mt_point = mountpoint_for device\<rparr>" maps] ok Some by auto
      next
        case False
        then have "mount_device ge rl device ms = ms\<lparr>ms_mappings := removeAll (verity_name device) maps\<rparr>"
          using fresh Some a Inr by (simp add: mount_device_def Let_def)
        then show ?thesis using assms ok by (auto simp: mounts_ok_def)
      qed
    qed
  qed
qed

lemma mount_devices_ok: "mounts_ok ge rl ms \<Longrightarrow> mounts_ok ge rl (fold (mount_device ge rl) ds ms)"
  by (induction ds arbitrary: ms) (auto simp: mount_device_ok)

lemma mount_layers_ok:
  assumes "mount_layers ge rl = (lm, db, ms)"
  shows "mounts_ok ge rl ms"
proof -
  have "mounts_ok ge rl \<lparr>ms_mounted = [], ms_mappings = []\<rparr>" by (simp add: mounts_ok_def)
  then show ?thesis using assms mount_devices_ok by (auto simp: mount_layers_def Let_def)
qed

lemma resolve_dirs_Some:
  "resolve_dirs mounted ds = Some dirs \<Longrightarrow>
   length dirs = length ds \<and> (\<forall>i < length ds. \<exists>m. map_of mounted (ds ! i) = Some m \<and> dirs ! i = mt_point m)"
proof (induction ds arbitrary: dirs)
  case (Cons d ds)
  then obtain m rest where "map_of mounted d = Some m" "resolve_dirs mounted ds = Some rest" "dirs = mt_point m # rest"
    by (auto split: option.splits)
  with Cons.IH[OF this(2)] show ?case by (auto simp: nth_Cons split: nat.splits)
qed simp

lemma mount_layers_server:
  assumes "mount_layers ge rl = (lm, db, ms)" "map_of lm n = Some dirs"
  shows "\<exists>ds. (n, ds) \<in> set (rl_servers rl) \<and> resolve_dirs (ms_mounted ms) ds = Some dirs"
proof -
  have lm: "lm = List.map_filter (\<lambda>(name, ds).
      map_option (Pair name) (nonempty_dirs (resolve_dirs (ms_mounted ms) ds))) (rl_servers rl)"
    using assms(1) by (auto simp: mount_layers_def Let_def)
  have "(n, dirs) \<in> set lm" using assms(2) by (rule map_of_SomeD)
  then obtain ds where "(n, ds) \<in> set (rl_servers rl)" "nonempty_dirs (resolve_dirs (ms_mounted ms) ds) = Some dirs"
    unfolding lm List.map_filter_def by auto
  then show ?thesis by (auto simp: nonempty_dirs_def split: option.splits if_splits)
qed

lemma mount_layers_dirs:
  assumes "mount_layers ge rl = (lm, db, ms)" "map_of lm n = Some dirs" "hm_wf (rl_servers rl)" "map_of (rl_servers rl) n = Some ds"
  shows "dirs = map mountpoint_for ds \<and> (\<forall>d \<in> set ds. \<exists>m. map_of (ms_mounted ms) d = Some m)"
proof -
  obtain ds' where ds': "(n, ds') \<in> set (rl_servers rl)" "resolve_dirs (ms_mounted ms) ds' = Some dirs"
    using mount_layers_server[OF assms(1,2)] by blast
  then have "map_of (rl_servers rl) n = Some ds'" using assms(3) hm_wf_map_of_iff by fast
  then have r: "resolve_dirs (ms_mounted ms) ds = Some dirs" using assms(4) ds'(2) by simp
  note R = resolve_dirs_Some[OF r] and M = mount_layers_ok[OF assms(1)]
  have "dirs = map mountpoint_for ds"
    using R M by (intro nth_equalityI) (auto simp: mounts_ok_def)
  then show ?thesis using R by (metis in_set_conv_nth)
qed

section \<open>From the host's plan to the guest's mounts\<close>

text \<open>
  A lowerdir of the agent carries a file of the host: it is the mount of the device under which the VM has that file attached,
  made from the device itself when there are no verity parameters, and otherwise from a mapping pinned to them.
\<close>

definition carries :: "guest_env \<Rightarrow> mounts \<Rightarrow> drive list \<Rightarrow> string \<Rightarrow> host_path \<Rightarrow> verity_params option \<Rightarrow> bool" where
  "carries ge ms drives dir file v \<longleftrightarrow>
     (\<exists>dev m. map_of (ms_mounted ms) dev = Some m \<and> mt_point m = dir \<and> device_file drives dev = Some file \<and>
        (case v of None \<Rightarrow> mt_source m = dev | Some params \<Rightarrow> verity_mounted ge dev params m))"

lemma insert_servers_wf: "insert_servers bo ss m = Inr m' \<Longrightarrow> hm_wf m \<Longrightarrow> hm_wf m'"
  by (induction bo ss m rule: insert_servers.induct) auto

lemma plan_server_devices:
  assumes wf: "fs_wf dep" and gs: "gather_servers env dep content = Inr servers"
    and plan: "compute_layer_plan_with env dep store dd verify content = Inr plan"
    and srv: "map_of servers n = Some s" "\<not> is_self_contained s"
    and pf: "read_platform env store = Inr pf" and run: "vm_runs_plan plan dd c"
  obtains a r f d where
    "map_of (rl_servers (lp_runtime_layers plan)) n = Some [layer_dev a, layer_dev r, layer_dev 0]"
    "sl_app_layer s = Some f" "map_of (pm_runtimes pf) (server_lang s) = Some d"
    "device_file (start_drives c) (layer_dev a) = Some (AppBlob f)"
    "device_file (start_drives c) (layer_dev r) = Some (StoreBlob (ld_file d))"
    "device_file (start_drives c) (layer_dev 0) = Some (StoreBlob (ld_file (pm_base pf)))"
    "map_of (rl_verity (lp_runtime_layers plan)) (layer_dev a) = None"
    "map_of (rl_verity (lp_runtime_layers plan)) (layer_dev r) = ld_verity d"
    "map_of (rl_verity (lp_runtime_layers plan)) (layer_dev 0) = ld_verity (pm_base pf)"
    "hm_wf (rl_servers (lp_runtime_layers plan))" "rl_schema (lp_runtime_layers plan) = LAYERS_SCHEMA"
  using plan
proof (cases rule: compute_layer_plan_cases)
  case empty
  then show ?thesis using gs srv by simp
next
  case (layered servers' bo svs db)
  then have same: "servers' = servers" using gs by simp
  have mem: "(n, s) \<in> set servers" using srv(1) by (rule map_of_SomeD)
  have dist: "distinct (map fst servers)" by (rule gather_servers_names(1)[OF gs wf])
  note B = build_order_spec[OF layered(2)[unfolded same] dist]
  have any: "any_layered servers (plan_has_db dep content)" using mem srv(2) by (auto simp: any_layered_def list_ex_iff)
  from B(3)[OF any] pf have P: "indexes (\<lambda>l b. \<exists>d. map_of (pm_runtimes pf) l = Some d \<and> b = store_blob d) (bo_order bo) (bo_runtime_idx bo)"
    "bo_base_dev_idx bo = Some 0" "bo_order bo \<noteq> []" "bo_order bo ! 0 = store_blob (pm_base pf)" by auto
  obtain ds where ds: "server_layers bo n s = Inr ds" "map_of svs n = Some ds"
    using insert_servers_spec[OF layered(5)[unfolded same] dist] mem by blast
  then obtain a r where ar: "map_of (bo_app_idx bo) n = Some a" "map_of (bo_runtime_idx bo) (server_lang s) = Some r"
    "ds = [layer_dev a, layer_dev r, layer_dev 0]"
    using srv(2) P(2) by (auto simp: server_layers_def index_dev_def split: option.splits)
  from B(1) ar(1) srv(1) obtain f where f: "a < length (bo_order bo)" "sl_app_layer s = Some f" "bo_order bo ! a = app_blob s f"
    by (fastforce simp: indexes_def)
  from P(1) ar(2) obtain d where d: "r < length (bo_order bo)" "map_of (pm_runtimes pf) (server_lang s) = Some d"
    "bo_order bo ! r = store_blob d" by (auto simp: indexes_def)
  have V: "map_of (insert_verity 0 (bo_order bo) []) (layer_dev i) = br_verity (bo_order bo ! i)" if "i < length (bo_order bo)" for i
    using insert_verity_nth[of 0 "bo_order bo" i "[]"] that layered(3) by (simp split: option.splits if_splits)
  have paths: "lp_layer_paths plan = map br_path (bo_order bo)" using resolve_blobs_spec[OF layered(4)] by simp
  have len: "length (start_drives c) \<le> 26" using length_start_drives[OF run] layered(3) paths by simp
  have F: "device_file (start_drives c) (layer_dev i) = Some (br_path (bo_order bo ! i))" if "i < length (bo_order bo)" for i
    using device_file_layer[OF run len] paths that by simp
  have w: "hm_wf svs" using insert_servers_wf[OF layered(5)] by simp
  show ?thesis
    by (rule that[of a r f d])
      (use ds(2) ar(3) f d V[OF f(1)] V[OF d(1)] V[of 0] F[OF f(1)] F[OF d(1)] F[of 0] P(3,4) w layered(7,9,10)
        in \<open>simp_all add: store_blob_def app_blob_def\<close>)
qed

text \<open>C4. From the host's plan to the guest: when the agent of a VM that was started with the layers of a
  plan and booted with its image starts a layered server, the three lowerdirs of its overlay are, in this
  order, a mount of the drive of the server's own app layer, one of the drive of the runtime the platform
  lists for its language, and one of the drive of the base. The runtime and the base, when the platform
  gives them verity parameters, are mounted from a mapping pinned to exactly these parameters, whose
  first block was read back, and never from the raw device. No mapping is left open whose layer is not
  mounted.\<close>

theorem shared_layers_verified:
  assumes wf: "fs_wf (FDir es)" and gs: "gather_servers env (FDir es) content = Inr servers"
    and plan: "compute_layer_plan_with env (FDir es) store dd verify content = Inr plan"
    and img: "build_metadata_image_with ie (FDir es) plan ss platform binding db_reach l4_facts content = Inr img"
    and parse: "parse (ie_print_layers ie (lp_runtime_layers plan)) = Some (lp_runtime_layers plan)"
    and run: "vm_runs_plan plan dd c"
    and srv: "map_of servers n = Some s" "\<not> is_self_contained s" and pf: "read_platform env store = Inr pf"
    and started: "map_of (bt_layer_map (boot_layers ge parse img)) n = Some dirs"
  shows "\<exists>app run base f d. dirs = [app, run, base] \<and> sl_app_layer s = Some f \<and> map_of (pm_runtimes pf) (server_lang s) = Some d \<and>
    carries ge (bt_mounts (boot_layers ge parse img)) (start_drives c) app (AppBlob f) None \<and>
    carries ge (bt_mounts (boot_layers ge parse img)) (start_drives c) run (StoreBlob (ld_file d)) (ld_verity d) \<and>
    carries ge (bt_mounts (boot_layers ge parse img)) (start_drives c) base (StoreBlob (ld_file (pm_base pf))) (ld_verity (pm_base pf)) \<and>
    (\<forall>name \<in> set (ms_mappings (bt_mounts (boot_layers ge parse img))).
       \<exists>dev. map_of (ms_mounted (bt_mounts (boot_layers ge parse img))) dev \<noteq> None \<and> name = verity_name dev)"
proof -
  define rl where "rl = lp_runtime_layers plan"
  obtain a r f d where P: "map_of (rl_servers rl) n = Some [layer_dev a, layer_dev r, layer_dev 0]"
    "sl_app_layer s = Some f" "map_of (pm_runtimes pf) (server_lang s) = Some d"
    "device_file (start_drives c) (layer_dev a) = Some (AppBlob f)"
    "device_file (start_drives c) (layer_dev r) = Some (StoreBlob (ld_file d))"
    "device_file (start_drives c) (layer_dev 0) = Some (StoreBlob (ld_file (pm_base pf)))"
    "map_of (rl_verity rl) (layer_dev a) = None" "map_of (rl_verity rl) (layer_dev r) = ld_verity d"
    "map_of (rl_verity rl) (layer_dev 0) = ld_verity (pm_base pf)" "hm_wf (rl_servers rl)" "rl_schema rl = LAYERS_SCHEMA"
    using plan_server_devices[OF wf gs plan srv pf run] unfolding rl_def by metis
  obtain lm db ms where mo: "mount_layers ge rl = (lm, db, ms)" by (cases "mount_layers ge rl")
  have "load_runtime_layers parse img = Some rl"
    by (simp add: load_runtime_layers_def image_lookup[OF img] parse rl_def)
  then have boot: "bt_layer_map (boot_layers ge parse img) = lm" "bt_mounts (boot_layers ge parse img) = ms"
    using P(11) mo by (simp_all add: boot_layers_def)
  note D = mount_layers_dirs[OF mo _ P(10,1)]
  have dirs: "dirs = map mountpoint_for [layer_dev a, layer_dev r, layer_dev 0]"
    "\<And>x. x \<in> {layer_dev a, layer_dev r, layer_dev 0} \<Longrightarrow> \<exists>m. map_of (ms_mounted ms) x = Some m"
    using D started unfolding boot by auto
  note M = mount_layers_ok[OF mo]
  have cr: "carries ge ms (start_drives c) (mountpoint_for x) fl (map_of (rl_verity rl) x)"
    if "x \<in> {layer_dev a, layer_dev r, layer_dev 0}" "device_file (start_drives c) x = Some fl" for x fl
    using dirs(2)[OF that(1)] that(2) M unfolding carries_def mounts_ok_def by fastforce
  have "carries ge ms (start_drives c) (mountpoint_for (layer_dev a)) (AppBlob f) None"
    "carries ge ms (start_drives c) (mountpoint_for (layer_dev r)) (StoreBlob (ld_file d)) (ld_verity d)"
    "carries ge ms (start_drives c) (mountpoint_for (layer_dev 0)) (StoreBlob (ld_file (pm_base pf))) (ld_verity (pm_base pf))"
    using cr[OF _ P(4)] cr[OF _ P(5)] cr[OF _ P(6)] P(7-9) by simp_all
  moreover have "\<forall>name \<in> set (ms_mappings ms). \<exists>dev. map_of (ms_mounted ms) dev \<noteq> None \<and> name = verity_name dev"
    using M unfolding mounts_ok_def by blast
  ultimately show ?thesis unfolding boot using P(2,3) dirs(1) by auto
qed

text \<open>The guard against a second database.\<close>

lemma one_database: "database_start dedicated db = (start, leg) \<Longrightarrow> \<not> (start \<noteq> None \<and> leg) \<and> (dedicated \<longrightarrow> start = None \<and> leg)"
  by (auto simp: database_start_def Let_def split: if_splits)

section \<open>Examples\<close>



definition prompt_child :: child where
  "prompt_child =
     \<lparr>ch_spawns = True, ch_exited = (\<lambda>_. Inr True), ch_output = Inr True, ch_oversleep = (\<lambda>_. 0), ch_drain = (\<lambda>_. 0), ch_reap = (\<lambda>_. 0)\<rparr>"

definition demo_guest :: guest_env where
  "demo_guest =
     \<lparr>ge_exists = (\<lambda>p. True), ge_block_device = (\<lambda>p. True), ge_open = (\<lambda>_ _ _ _. prompt_child),
      ge_first_block = (\<lambda>_ _ _. True), ge_mount_erofs = (\<lambda>_ _. True), ge_now = 0\<rparr>"

definition demo_sdep :: fs_entries where
  "demo_sdep =
     [(''_servers'', FDir [(''api.json'', FFile ''api'')]), (''_layers'', FDir [(demo_app_file, FFile ''app'')])]"

lemma demo_boot_plan: "is_ok (compute_layer_plan_with demo_layer_env (FDir demo_sdep) demo_store False True ImgAll)"
  by code_simp

lemma demo_boot_servers:
  "fs_wf (FDir demo_sdep)"
  "gather_servers demo_layer_env (FDir demo_sdep) ImgAll =
     Inr [(''api'', \<lparr>sl_app_layer = Some demo_app_file, sl_app_digest = Some ''sha256:app'', sl_runtime = None\<rparr>)]"
  by code_simp+

definition demo_bplan :: layer_plan where
  "demo_bplan =
     (case compute_layer_plan_with demo_layer_env (FDir demo_sdep) demo_store False True ImgAll of
        Inr p \<Rightarrow> p | Inl e \<Rightarrow> layer_plan_empty False)"

lemma demo_bplan_eq: "compute_layer_plan_with demo_layer_env (FDir demo_sdep) demo_store False True ImgAll = Inr demo_bplan"
  using demo_boot_plan unfolding demo_bplan_def by (auto split: sum.splits)

definition demo_base_verity :: verity_params where
  "demo_base_verity = \<lparr>vp_root_hash = ''ab'', vp_salt = ''00'', vp_data_size = 4096\<rparr>"

lemma demo_bplan_layers:
  "rl_servers (lp_runtime_layers demo_bplan) = [(''api'', [''/dev/vde'', ''/dev/vdd'', ''/dev/vdc''])]"
  "rl_database (lp_runtime_layers demo_bplan) = None" "rl_schema (lp_runtime_layers demo_bplan) = LAYERS_SCHEMA"
  by code_simp+

lemma demo_bplan_verity: "rl_verity (lp_runtime_layers demo_bplan) = [(''/dev/vdc'', demo_base_verity)]"
  by code_simp

definition demo_parse_layers :: "string \<Rightarrow> runtime_layers option" where
  "demo_parse_layers b = (if b = ''layers'' then Some (lp_runtime_layers demo_bplan) else None)"

definition demo_bimage :: fs_entries where
  "demo_bimage =
     (case build_metadata_image_with demo_image_env (FDir demo_sdep) demo_bplan [] (JObj []) None None None ImgAll of
        Inr p \<Rightarrow> p | Inl e \<Rightarrow> [])"

lemma demo_bimage_eq:
  "build_metadata_image_with demo_image_env (FDir demo_sdep) demo_bplan [] (JObj []) None None None ImgAll = Inr demo_bimage"
proof -
  have "is_ok (build_metadata_image_with demo_image_env (FDir demo_sdep) demo_bplan [] (JObj []) None None None ImgAll)"
    by code_simp
  then show ?thesis unfolding demo_bimage_def by (auto split: sum.splits)
qed

lemma demo_names:
  "path_file_name ''/dev/vdc'' = ''vdc''" "path_file_name ''/dev/vdd'' = ''vdd''" "path_file_name ''/dev/vde'' = ''vde''"
  "under_dev ''/dev/vdc''" "mapper_name_ok ''jkverity-vdc''" "is_hex ''ab''"
  by code_simp+

lemma demo_activated:
  "activate demo_guest ''jkverity-vdc'' ''/dev/vdc'' demo_base_verity [] = (Inr ''/dev/mapper/jkverity-vdc'', [''jkverity-vdc''])"
proof -
  have "run_bounded prompt_child VERITY_OPEN_TIMEOUT 0 = (Inr True, 0)"
    by (simp add: run_bounded_def prompt_child_def run_loop.simps)
  then show ?thesis
    by (simp add: activate_def demo_guest_def demo_base_verity_def demo_names VERITY_BLOCK_SIZE_def which_veritysetup_def)
qed

lemma demo_booted:
  "map_of (bt_layer_map (boot_layers demo_guest demo_parse_layers demo_bimage)) ''api'' =
     Some [''/tmp/layers/vde'', ''/tmp/layers/vdd'', ''/tmp/layers/vdc'']"
proof -
  have "load_runtime_layers demo_parse_layers demo_bimage = Some (lp_runtime_layers demo_bplan)"
    using image_lookup[OF demo_bimage_eq, of "''_layers.json''"]
    by (simp add: load_runtime_layers_def demo_parse_layers_def demo_image_env_def)
  moreover have "fst (mount_layers demo_guest (lp_runtime_layers demo_bplan)) =
      [(''api'', [''/tmp/layers/vde'', ''/tmp/layers/vdd'', ''/tmp/layers/vdc''])]"
    using demo_activated
    by (simp add: mount_layers_def demo_bplan_layers demo_bplan_verity mount_device_def mountpoint_for_def verity_name_def
        demo_names Let_def nonempty_dirs_def List.map_filter_def demo_guest_def)
  ultimately show ?thesis
    by (auto simp: boot_layers_def demo_bplan_layers split: prod.splits)
qed

definition demo_boot_vm :: vm_config where
  "demo_boot_vm = \<lparr>vc_rootfs_path = HostFile ''rootfs'', vc_metadata_image_path = Some (HostFile ''meta''),
     vc_layer_paths = lp_layer_paths demo_bplan, vc_data_disk_path = None\<rparr>"

theorem shared_layers_verified_witness:
  "carries demo_guest (bt_mounts (boot_layers demo_guest demo_parse_layers demo_bimage)) (start_drives demo_boot_vm)
     ''/tmp/layers/vde'' (AppBlob demo_app_file) None
   \<and> carries demo_guest (bt_mounts (boot_layers demo_guest demo_parse_layers demo_bimage)) (start_drives demo_boot_vm)
     ''/tmp/layers/vdc'' (StoreBlob ''base.erofs'') (Some demo_base_verity)"
proof -
  obtain pf where pf: "read_platform demo_layer_env demo_store = Inr pf" "ld_verity (pm_base pf) = Some demo_base_verity"
    "ld_file (pm_base pf) = ''base.erofs''"
    by (simp add: read_platform_def demo_layer_env_def demo_store_def demo_base_verity_def)
  have parse: "demo_parse_layers (ie_print_layers demo_image_env (lp_runtime_layers demo_bplan)) = Some (lp_runtime_layers demo_bplan)"
    by (simp add: demo_parse_layers_def demo_image_env_def)
  have run: "vm_runs_plan demo_bplan False demo_boot_vm" by (simp add: vm_runs_plan_def demo_boot_vm_def)
  have srv: "map_of [(''api'', \<lparr>sl_app_layer = Some demo_app_file, sl_app_digest = Some ''sha256:app'', sl_runtime = None\<rparr>)] ''api'' =
      Some \<lparr>sl_app_layer = Some demo_app_file, sl_app_digest = Some ''sha256:app'', sl_runtime = None\<rparr>"
    "\<not> is_self_contained \<lparr>sl_app_layer = Some demo_app_file, sl_app_digest = Some ''sha256:app'', sl_runtime = None\<rparr>"
    by (simp_all add: is_self_contained_def)
  from shared_layers_verified[OF demo_boot_servers(1,2) demo_bplan_eq demo_bimage_eq parse run srv pf(1) demo_booted] pf(2,3)
  show ?thesis by auto
qed

end
