(* ===== verification/Dns_Fwd.thy ===== *)
theory Dns_Fwd
  imports Wire Net_Parse Rust_Str L4_Egress
begin

text \<open>
  The DNS forwarder of the host, \<open>crates/jkbase-server/src/dns_forwarder.rs\<close>: the question of a query and
  the cache key, the choice of the resolver, the budget of an address (\<open>IpRateLimiter\<close>,
  \<open>db_gateway.rs\<close>), the response cache and the UDP and TCP handlers, composed as the events of a run.
  The library that parses the records of a response (hickory) is the parameter \<open>records\<close>; sockets are
  events; a timeout is an answer \<open>None\<close>. Logging, attribution for the log and the bind loop are left out.
  The constants below are those of the source.
\<close>

section \<open>Questions\<close>

definition DNS_PORT :: u16 where
  "DNS_PORT = 53"

definition MAX_UDP :: nat where
  "MAX_UDP = 4096"

definition DNS_HDR_LEN :: nat where
  "DNS_HDR_LEN = 12"

text \<open>
  A question: the lower-cased dotted name (by its character codes, each below 256), type, class, and
  the offset just past it.
\<close>

record question =
  qn_name :: "u8 list"
  qn_qtype :: nat
  qn_qclass :: nat
  qn_end :: nat

definition byte_lower :: "u8 \<Rightarrow> u8" where
  "byte_lower b = (if 65 \<le> unat b \<and> unat b \<le> 90 then word_of_nat (unat b + 32) else b)"

text \<open>The length of the name in UTF-8: two bytes for a code from 128 on.\<close>

definition name_len :: "u8 list \<Rightarrow> nat" where
  "name_len name = sum_list (map (\<lambda>b. if unat b < 128 then 1 else 2) name)"

text \<open>A label appended to the name, after a dot unless it is the first.\<close>

definition push_label :: "u8 list \<Rightarrow> bytes \<Rightarrow> u8 list" where
  "push_label name label = (if name \<noteq> [] then name @ [46] else name) @ map byte_lower label"

function parse_name :: "bytes \<Rightarrow> nat \<Rightarrow> u8 list \<Rightarrow> (u8 list \<times> nat) option" where
  "parse_name msg i name =
     (if length msg \<le> i then None
      else
        let len = unat (msg ! i)
        in if len = 0 then Some (name, i + 1)
           else if 0xC0 \<le> len then None
           else if 63 < len then None
           else
             let e = i + 1 + len
             in if length msg < e then None
                else
                  let name' = push_label name (take len (drop (i + 1) msg))
                  in if 255 < name_len name' then None else parse_name msg e name')"
  by pat_completeness auto
termination
  by (relation "measure (\<lambda>(msg, i, name). length msg - i)") auto

declare parse_name.simps [simp del]

definition parse_question :: "bytes \<Rightarrow> question option" where
  "parse_question msg =
     (if length msg < DNS_HDR_LEN then None
      else
        case parse_name msg DNS_HDR_LEN [] of
          None \<Rightarrow> None
        | Some (name, i) \<Rightarrow>
            if length msg < i + 4 then None
            else Some \<lparr>qn_name = name, qn_qtype = from_be [msg ! i, msg ! (i + 1)],
                       qn_qclass = from_be [msg ! (i + 2), msg ! (i + 3)], qn_end = i + 4\<rparr>)"

definition is_response :: "bytes \<Rightarrow> bool" where
  "is_response msg \<longleftrightarrow> msg ! 2 AND 0x80 \<noteq> 0"

definition qdcount :: "bytes \<Rightarrow> nat" where
  "qdcount msg = from_be [msg ! 4, msg ! 5]"

definition accept_query :: "bytes \<Rightarrow> question option" where
  "accept_query msg =
     (if length msg < DNS_HDR_LEN then None
      else if is_response msg then None
      else if qdcount msg \<noteq> 1 then None
      else parse_question msg)"

definition qkey :: "bytes \<Rightarrow> nat \<Rightarrow> bytes" where
  "qkey msg q_end = map byte_lower (take (min q_end (length msg) - DNS_HDR_LEN) (drop DNS_HDR_LEN msg))"

definition serve_from_cache :: "bytes \<Rightarrow> bytes \<Rightarrow> nat \<Rightarrow> bytes" where
  "serve_from_cache cached query q_end =
     (let out = (if 2 \<le> length cached then cached[0 := query ! 0, 1 := query ! 1] else cached)
      in if q_end \<le> length query \<and> q_end \<le> length out
         then take DNS_HDR_LEN out @ take (q_end - DNS_HDR_LEN) (drop DNS_HDR_LEN query) @ drop q_end out
         else out)"

section \<open>The upstream resolver\<close>

definition FALLBACK_UPSTREAM :: sock_addr where
  "FALLBACK_UPSTREAM = (V4 127 0 0 53, 53)"

definition DB_GATEWAY_IP :: ip_addr where
  "DB_GATEWAY_IP = V4 172 16 0 1"

fun is_ipv6 :: "ip_addr \<Rightarrow> bool" where
  "is_ipv6 (V4 a b c d) = False"
| "is_ipv6 (V6 a b c d e f g h) = True"

fun upstream_from_lines :: "string list \<Rightarrow> ip_addr \<Rightarrow> sock_addr option" where
  "upstream_from_lines [] self_ip = None"
| "upstream_from_lines (l # ls) self_ip =
     (case strip_prefix ''nameserver'' (str_trim l) of
        None \<Rightarrow> upstream_from_lines ls self_ip
      | Some rest \<Rightarrow>
          (case parse_ip_addr (str_trim rest) of
             None \<Rightarrow> upstream_from_lines ls self_ip
           | Some ip \<Rightarrow>
               if ip = self_ip \<or> is_ipv6 ip then upstream_from_lines ls self_ip
               else Some (ip, DNS_PORT)))"

definition upstream_from_resolv :: "string \<Rightarrow> ip_addr \<Rightarrow> sock_addr option" where
  "upstream_from_resolv content self_ip = upstream_from_lines (str_lines content) self_ip"

definition discover_upstream :: "string option \<Rightarrow> sock_addr" where
  "discover_upstream resolv_conf =
     (case upstream_from_resolv (case resolv_conf of Some c \<Rightarrow> c | None \<Rightarrow> '''') DB_GATEWAY_IP of
        Some u \<Rightarrow> u | None \<Rightarrow> FALLBACK_UPSTREAM)"

lemma upstream_from_lines_guard:
  "upstream_from_lines ls self = Some (ip, p) \<Longrightarrow> ip \<noteq> self \<and> \<not> is_ipv6 ip \<and> p = DNS_PORT"
proof (induction ls)
  case (Cons l ls)
  show ?case
  proof (cases "strip_prefix ''nameserver'' (str_trim l)")
    case None
    then show ?thesis using Cons by (simp del: strip_prefix.simps)
  next
    case (Some rest)
    show ?thesis
    proof (cases "parse_ip_addr (str_trim rest)")
      case None
      then show ?thesis using Cons Some by (simp del: strip_prefix.simps)
    next
      case (Some ip')
      then show ?thesis using Cons \<open>strip_prefix _ _ = Some rest\<close>
        by (cases "ip' = self \<or> is_ipv6 ip'") (auto simp del: strip_prefix.simps)
    qed
  qed
qed simp

text \<open>The loop guard: whatever \<open>/etc/resolv.conf\<close> holds, queries are never relayed to this forwarder.\<close>

lemma upstream_is_never_ourselves:
  "fst (discover_upstream conf) \<noteq> DB_GATEWAY_IP \<and> \<not> is_ipv6 (fst (discover_upstream conf)) \<and> snd (discover_upstream conf) = DNS_PORT"
proof (cases "upstream_from_resolv (case conf of Some c \<Rightarrow> c | None \<Rightarrow> '''') DB_GATEWAY_IP")
  case None
  then show ?thesis by (simp add: discover_upstream_def FALLBACK_UPSTREAM_def DB_GATEWAY_IP_def DNS_PORT_def)
next
  case (Some u)
  then show ?thesis
    using upstream_from_lines_guard[of _ DB_GATEWAY_IP "fst u" "snd u"]
    by (simp add: discover_upstream_def upstream_from_resolv_def)
qed

section \<open>What the cache key tells\<close>

lemma byte_lower_small: "unat b \<le> 63 \<Longrightarrow> byte_lower b = b"
  by (simp add: byte_lower_def)

lemma byte_lower_ge: "63 < unat b \<Longrightarrow> 63 < unat (byte_lower b)"
proof (cases "unat b \<le> 90")
  case True
  assume "63 < unat b"
  have "unat (word_of_nat (unat b + 32) :: u8) = (unat b + 32) mod 256" by (rule unat_byte)
  then show ?thesis using True \<open>63 < unat b\<close> unfolding byte_lower_def by auto
qed (simp add: byte_lower_def)

lemma byte_lower_eq_small: "byte_lower a = byte_lower b \<Longrightarrow> unat a \<le> 63 \<Longrightarrow> a = b"
  by (metis byte_lower_small byte_lower_ge not_le)

text \<open>The walk of the name reads the bytes up to its end only, and only up to case.\<close>

lemma parse_name_local:
  assumes "parse_name msg i name = Some (nm, e)" "e \<le> length msg'"
    and "\<And>k. i \<le> k \<Longrightarrow> k < e \<Longrightarrow> byte_lower (msg' ! k) = byte_lower (msg ! k)"
  shows "parse_name msg' i name = Some (nm, e) \<and> i < e \<and> e \<le> length msg"
  using assms
proof (induction msg i name rule: parse_name.induct)
  case (1 msg i name)
  define len where "len = unat (msg ! i)"
  define name' where "name' = push_label name (take len (drop (i + 1) msg))"
  from 1(2) have i: "i < length msg" by (subst (asm) parse_name.simps) (auto split: if_splits)
  show ?case
  proof (cases "len = 0")
    case True
    then have e: "e = i + 1" "nm = name" using 1(2) i by (subst (asm) parse_name.simps, simp add: len_def)+
    have "byte_lower (msg' ! i) = byte_lower (msg ! i)" using 1(4)[of i] e by simp
    then have "msg' ! i = msg ! i" using byte_lower_eq_small[of "msg ! i" "msg' ! i"] True by (simp add: len_def)
    then show ?thesis using e True i 1(3) by (subst parse_name.simps) (simp add: len_def)
  next
    case False
    from 1(2) False i have rec: "parse_name msg (i + 1 + len) name' = Some (nm, e)"
      and g: "len \<le> 63" "\<not> 0xC0 \<le> len" "i + 1 + len \<le> length msg" "name_len name' \<le> 255"
      by (subst (asm) parse_name.simps, simp add: Let_def len_def name'_def split: if_splits)+
    have pre: "\<not> length msg \<le> i" "unat (msg ! i) \<noteq> 0" "\<not> 0xC0 \<le> unat (msg ! i)" "\<not> 63 < unat (msg ! i)"
      "\<not> length msg < i + 1 + unat (msg ! i)" "\<not> 255 < name_len name'"
      using i False g by (simp_all add: len_def)
    have IH: "parse_name msg' (i + 1 + len) name' = Some (nm, e) \<and> i + 1 + len < e \<and> e \<le> length msg"
      using 1(1)[OF pre(1) refl pre(2,3,4) refl pre(5) refl] pre(6) rec 1(3,4)
      by (simp add: name'_def len_def)
    have "byte_lower (msg' ! i) = byte_lower (msg ! i)" using 1(4)[of i] IH by simp
    then have hd: "msg' ! i = msg ! i" using byte_lower_eq_small[of "msg ! i" "msg' ! i"] g(1) by (simp add: len_def)
    have seg: "map byte_lower (take len (drop (i + 1) msg')) = map byte_lower (take len (drop (i + 1) msg))"
      using 1(3,4) IH g(3) by (intro nth_equalityI) auto
    have nm': "push_label name (take len (drop (i + 1) msg')) = name'"
      unfolding push_label_def seg name'_def by (rule refl)
    have "parse_name msg' i name = parse_name msg' (i + 1 + len) name'"
      using hd pre 1(3) IH nm' by (subst parse_name.simps) (simp add: Let_def len_def)
    then show ?thesis using IH by simp
  qed
qed

lemma parse_question_bounds:
  assumes "parse_question msg = Some q"
  shows "DNS_HDR_LEN + 5 \<le> qn_end q \<and> qn_end q \<le> length msg"
proof -
  from assms obtain name i where p: "parse_name msg DNS_HDR_LEN [] = Some (name, i)" "i + 4 \<le> length msg" "qn_end q = i + 4"
    by (auto simp: parse_question_def split: if_splits option.splits)
  from p(2) have "i \<le> length msg" by simp
  from parse_name_local[OF p(1) this] p show ?thesis by simp
qed

lemma length_qkey: "qn_end q \<le> length msg \<Longrightarrow> length (qkey msg (qn_end q)) = qn_end q - DNS_HDR_LEN"
  by (simp add: qkey_def)

lemma qkey_nth:
  assumes "e \<le> length msg" "DNS_HDR_LEN \<le> k" "k < e"
  shows "qkey msg e ! (k - DNS_HDR_LEN) = byte_lower (msg ! k)"
  using assms by (simp add: qkey_def)

text \<open>
  Two questions with the same key ask for the same name, and their types and classes agree up to
  the case of the bytes read as letters.
\<close>

lemma qkey_determines:
  assumes q: "parse_question m = Some q" "parse_question m' = Some q'"
    and k: "qkey m (qn_end q) = qkey m' (qn_end q')"
  shows "qn_name q = qn_name q' \<and> qn_end q = qn_end q' \<and>
    (\<forall>j \<in> {4, 3, 2, 1}. byte_lower (m ! (qn_end q - j)) = byte_lower (m' ! (qn_end q - j)))"
proof -
  note b = parse_question_bounds[OF q(1)] parse_question_bounds[OF q(2)]
  have "length (qkey m (qn_end q)) = length (qkey m' (qn_end q'))" using k by simp
  then have "qn_end q - DNS_HDR_LEN = qn_end q' - DNS_HDR_LEN" using b by (simp add: length_qkey)
  then have e: "qn_end q = qn_end q'" using b by linarith
  have eq: "byte_lower (m ! j) = byte_lower (m' ! j)" if "DNS_HDR_LEN \<le> j" "j < qn_end q" for j
    using qkey_nth[of "qn_end q" m j] qkey_nth[of "qn_end q" m' j] k b that e by simp
  from q(1) obtain name i where p: "parse_name m DNS_HDR_LEN [] = Some (name, i)" "qn_end q = i + 4" "qn_name q = name"
    by (auto simp: parse_question_def split: if_splits option.splits)
  have "parse_name m' DNS_HDR_LEN [] = Some (name, i)"
    using parse_name_local[OF p(1), of m'] eq p(2) b e by simp
  then have "qn_name q' = name" using q(2) by (auto simp: parse_question_def split: if_splits)
  then show ?thesis using p(3) e eq b by auto
qed

text \<open>The reverse: questions whose bytes agree up to case share a key.\<close>

lemma qkey_cong:
  assumes "e \<le> length m" "e \<le> length m'" "\<And>j. DNS_HDR_LEN \<le> j \<Longrightarrow> j < e \<Longrightarrow> byte_lower (m ! j) = byte_lower (m' ! j)"
  shows "qkey m e = qkey m' e"
  using assms by (intro nth_equalityI) (auto simp: qkey_def)

text \<open>
  Lower-casing also reaches the type: type 65 (HTTPS) and type 97 have the same key.
\<close>

definition https_query :: "u8 \<Rightarrow> bytes" where
  "https_query ty = [0, 7, 1, 0, 0, 1, 0, 0, 0, 0, 0, 0, 1, 120, 0, 0, ty, 0, 1]"

lemma key_confuses_types:
  "map_option qn_qtype (parse_question (https_query 65)) = Some 65"
  "map_option qn_qtype (parse_question (https_query 97)) = Some 97"
  "qkey (https_query 65) 19 = qkey (https_query 97) 19"
  by (simp_all add: parse_question_def https_query_def parse_name.simps DNS_HDR_LEN_def qkey_def byte_lower_def
      push_label_def name_len_def from_be_def)

section \<open>Budgets\<close>

definition PER_IP_RATE_PER_SEC :: real where "PER_IP_RATE_PER_SEC = 50"
definition PER_IP_BURST :: real where "PER_IP_BURST = 200"
definition MAX_INFLIGHT :: nat where "MAX_INFLIGHT = 1024"
definition MAX_TCP_CONNS :: nat where "MAX_TCP_CONNS = 256"
definition PER_IP_TCP_MAX :: nat where "PER_IP_TCP_MAX = 16"
definition MAX_MSGS_PER_CONN :: nat where "MAX_MSGS_PER_CONN = 10000"

record ip_limiter =
  il_buckets :: "(ip_addr, real \<times> instant) hmap"
  il_rate_per_sec :: real
  il_burst :: real

definition il_new :: "real \<Rightarrow> real \<Rightarrow> ip_limiter" where
  "il_new rate burst = \<lparr>il_buckets = [], il_rate_per_sec = rate, il_burst = burst\<rparr>"

definition il_allow :: "ip_addr \<Rightarrow> instant \<Rightarrow> ip_limiter \<Rightarrow> bool \<times> ip_limiter" where
  "il_allow ip now l =
     (let (tokens0, last) = (case map_of (il_buckets l) ip of Some x \<Rightarrow> x | None \<Rightarrow> (il_burst l, now));
          refill = as_secs_f64 (now - last) * il_rate_per_sec l;
          tokens = min (tokens0 + refill) (il_burst l)
      in if 1 \<le> tokens then (True, l\<lparr>il_buckets := hupd ip (tokens - 1, now) (il_buckets l)\<rparr>)
         else (False, l\<lparr>il_buckets := hupd ip (tokens, now) (il_buckets l)\<rparr>))"

section \<open>The response cache\<close>

definition CACHE_MAX_ENTRIES :: nat where "CACHE_MAX_ENTRIES = 4096"
definition CACHE_MIN_TTL :: duration where "CACHE_MIN_TTL = from_secs 1"
definition CACHE_MAX_TTL :: duration where "CACHE_MAX_TTL = from_secs 3600"

type_synonym dns_cache = "(bytes, bytes \<times> instant) hmap"

definition cache_get :: "instant \<Rightarrow> bytes \<Rightarrow> dns_cache \<Rightarrow> bytes option \<times> dns_cache" where
  "cache_get now key m =
     (case map_of m key of
        None \<Rightarrow> (None, m)
      | Some (b, expiry) \<Rightarrow> if now < expiry then (Some b, m) else (None, hdel key m))"

text \<open>
  \<open>records\<close> is the hickory parser: whether each record of a response is an OPT record, and its TTL.
\<close>

type_synonym dns_records = "bytes \<Rightarrow> (bool \<times> nat) list option"

definition min_ttl :: "dns_records \<Rightarrow> bytes \<Rightarrow> duration option" where
  "min_ttl records resp =
     (case records resp of
        None \<Rightarrow> None
      | Some rs \<Rightarrow>
          (case map snd (filter (\<lambda>r. \<not> fst r) rs) of
             [] \<Rightarrow> Some CACHE_MIN_TTL
           | t # ts \<Rightarrow> Some (from_secs (foldl min t ts))))"

fun nearest_expiry :: "dns_cache \<Rightarrow> bytes option" where
  "nearest_expiry [] = None"
| "nearest_expiry ((k, v) # m) =
     (case nearest_expiry m of
        None \<Rightarrow> Some k
      | Some k' \<Rightarrow> if snd v \<le> snd (the (map_of m k')) then Some k else Some k')"

text \<open>Whole, not truncated, and NOERROR or NXDOMAIN.\<close>

definition cacheable :: "bytes \<Rightarrow> bool" where
  "cacheable resp \<longleftrightarrow>
     \<not> length resp < DNS_HDR_LEN \<and> \<not> (resp ! 2 AND 0x02 \<noteq> 0) \<and>
     (let rcode = resp ! 3 AND 0x0f in \<not> (rcode \<noteq> 0 \<and> rcode \<noteq> 3))"

text \<open>\<open>now\<close> is the clock at the sweep, \<open>now'\<close> at the insertion.\<close>

definition maybe_insert :: "dns_records \<Rightarrow> instant \<Rightarrow> instant \<Rightarrow> bytes \<Rightarrow> bytes \<Rightarrow> dns_cache \<Rightarrow> dns_cache" where
  "maybe_insert records now now' key resp m =
     (if \<not> cacheable resp then m
      else
        case min_ttl records resp of
          None \<Rightarrow> m
        | Some ttl0 \<Rightarrow>
            let ttl = max CACHE_MIN_TTL (min CACHE_MAX_TTL ttl0);
                ins = hupd key (resp, now' + ttl)
            in if CACHE_MAX_ENTRIES \<le> length m \<and> map_of m key = None
               then
                 let m1 = hretain (\<lambda>_ v. now < snd v) m
                 in if CACHE_MAX_ENTRIES \<le> length m1
                    then (case nearest_expiry m1 of None \<Rightarrow> m1 | Some k \<Rightarrow> ins (hdel k m1))
                    else ins m1
               else ins m)"

section \<open>The forwarder\<close>

record forwarder =
  fw_allowed_prefix :: "u8 \<times> u8 \<times> u8"
  fw_rate :: ip_limiter
  fw_inflight :: nat
  fw_tcp_conns :: nat
  fw_tcp_per_ip :: "(ip_addr, nat) hmap"
  fw_cache :: dns_cache
  fw_q_total :: nat
  fw_q_dropped :: nat
  fw_q_cache_hit :: nat
  fw_q_upstream_err :: nat

definition fw_new :: "string \<Rightarrow> forwarder" where
  "fw_new bind_ip =
     \<lparr>fw_allowed_prefix = (case parse_ipv4_addr bind_ip of Some (V4 a b c d) \<Rightarrow> (a, b, c) | _ \<Rightarrow> (172, 16, 0)),
      fw_rate = il_new PER_IP_RATE_PER_SEC PER_IP_BURST, fw_inflight = MAX_INFLIGHT, fw_tcp_conns = MAX_TCP_CONNS,
      fw_tcp_per_ip = [], fw_cache = [], fw_q_total = 0, fw_q_dropped = 0, fw_q_cache_hit = 0, fw_q_upstream_err = 0\<rparr>"

fun src_in_prefix :: "ip_addr \<Rightarrow> u8 \<times> u8 \<times> u8 \<Rightarrow> bool" where
  "src_in_prefix (V4 a b c d) prefix \<longleftrightarrow> (a, b, c) = prefix"
| "src_in_prefix (V6 a b c d e f g h) prefix = False"

definition src_allowed :: "forwarder \<Rightarrow> ip_addr \<Rightarrow> bool" where
  "src_allowed fw ip = src_in_prefix ip (fw_allowed_prefix fw)"

definition acquire_tcp_ip :: "ip_addr \<Rightarrow> forwarder \<Rightarrow> bool \<times> forwarder" where
  "acquire_tcp_ip ip fw =
     (let c = get_or_default 0 (fw_tcp_per_ip fw) ip
      in if PER_IP_TCP_MAX \<le> c then (False, fw\<lparr>fw_tcp_per_ip := hupd ip c (fw_tcp_per_ip fw)\<rparr>)
         else (True, fw\<lparr>fw_tcp_per_ip := hupd ip (c + 1) (fw_tcp_per_ip fw)\<rparr>))"

definition drop_tcp_ip :: "ip_addr \<Rightarrow> forwarder \<Rightarrow> forwarder" where
  "drop_tcp_ip ip fw =
     (case map_of (fw_tcp_per_ip fw) ip of
        None \<Rightarrow> fw
      | Some c \<Rightarrow>
          if c - 1 = 0 then fw\<lparr>fw_tcp_per_ip := hdel ip (fw_tcp_per_ip fw)\<rparr>
          else fw\<lparr>fw_tcp_per_ip := hupd ip (c - 1) (fw_tcp_per_ip fw)\<rparr>)"

definition dropped :: "forwarder \<Rightarrow> forwarder" where
  "dropped fw = fw\<lparr>fw_q_dropped := fw_q_dropped fw + 1\<rparr>"

subsection \<open>UDP\<close>

record udp_task =
  ut_query :: bytes
  ut_question :: "question option"
  ut_src :: sock_addr

text \<open>One turn of the loop of \<open>serve_udp\<close>: the task it spawns, if any.\<close>

definition udp_recv :: "instant \<Rightarrow> sock_addr \<Rightarrow> bytes \<Rightarrow> forwarder \<Rightarrow> udp_task option \<times> forwarder" where
  "udp_recv now src datagram fw =
     (let query = take MAX_UDP datagram
      in if \<not> src_allowed fw (fst src) then (None, fw)
         else if length query < DNS_HDR_LEN then (None, dropped fw)
         else
           case il_allow (fst src) now (fw_rate fw) of
             (ok, rate) \<Rightarrow>
               let fw = fw\<lparr>fw_rate := rate\<rparr>
               in if \<not> ok then (None, dropped fw)
                  else
                    let question = accept_query query
                    in if question = None \<and> is_response query then (None, dropped fw)
                       else (Some \<lparr>ut_query = query, ut_question = question, ut_src = src\<rparr>, fw))"

datatype outcome = QReply bytes | QDrop | QWait

definition lookup_cache :: "instant \<Rightarrow> bytes \<Rightarrow> question option \<Rightarrow> forwarder \<Rightarrow> bytes option \<times> forwarder" where
  "lookup_cache now query question fw =
     (case question of
        None \<Rightarrow> (None, fw)
      | Some q \<Rightarrow>
          (case cache_get now (qkey query (qn_end q)) (fw_cache fw) of
             (None, m) \<Rightarrow> (None, fw\<lparr>fw_cache := m\<rparr>)
           | (Some cached, m) \<Rightarrow>
               (Some (serve_from_cache cached query (qn_end q)),
                fw\<lparr>fw_cache := m, fw_q_cache_hit := fw_q_cache_hit fw + 1\<rparr>)))"

text \<open>From a query to the wait for the resolver; shared by the UDP and the TCP handler.\<close>

definition start_query :: "instant \<Rightarrow> bytes \<Rightarrow> question option \<Rightarrow> forwarder \<Rightarrow> outcome \<times> forwarder" where
  "start_query now query question fw =
     (case lookup_cache now query question (fw\<lparr>fw_q_total := fw_q_total fw + 1\<rparr>) of
        (Some out, fw) \<Rightarrow> (QReply out, fw)
      | (None, fw) \<Rightarrow>
          if fw_inflight fw = 0 then (QDrop, dropped fw)
          else (QWait, fw\<lparr>fw_inflight := fw_inflight fw - 1\<rparr>))"

definition store_answer :: "dns_records \<Rightarrow> instant \<Rightarrow> instant \<Rightarrow> bytes \<Rightarrow> question option \<Rightarrow> bytes \<Rightarrow> forwarder \<Rightarrow> forwarder" where
  "store_answer records now now' query question resp fw =
     (case question of
        None \<Rightarrow> fw
      | Some q \<Rightarrow> fw\<lparr>fw_cache := maybe_insert records now now' (qkey query (qn_end q)) resp (fw_cache fw)\<rparr>)"

definition upstream_udp :: "bytes option \<Rightarrow> bytes option" where
  "upstream_udp raw =
     (case raw of
        Some m \<Rightarrow> (let r = take MAX_UDP m in if DNS_HDR_LEN \<le> length r then Some r else None)
      | None \<Rightarrow> None)"

definition handle_udp_answer :: "dns_records \<Rightarrow> instant \<Rightarrow> instant \<Rightarrow> udp_task \<Rightarrow> bytes option \<Rightarrow> forwarder
    \<Rightarrow> bytes option \<times> forwarder" where
  "handle_udp_answer records now now' task raw fw =
     (let fw = fw\<lparr>fw_inflight := fw_inflight fw + 1\<rparr>
      in case upstream_udp raw of
           Some resp \<Rightarrow> (Some resp, store_answer records now now' (ut_query task) (ut_question task) resp fw)
         | None \<Rightarrow> (None, fw\<lparr>fw_q_upstream_err := fw_q_upstream_err fw + 1\<rparr>))"

subsection \<open>TCP\<close>

definition tcp_accept :: "instant \<Rightarrow> ip_addr \<Rightarrow> forwarder \<Rightarrow> bool \<times> forwarder" where
  "tcp_accept now ip fw =
     (if \<not> src_allowed fw ip then (False, fw)
      else
        case il_allow ip now (fw_rate fw) of
          (ok, rate) \<Rightarrow>
            let fw = fw\<lparr>fw_rate := rate\<rparr>
            in if \<not> ok then (False, dropped fw)
               else
                 case acquire_tcp_ip ip fw of
                   (False, fw) \<Rightarrow> (False, dropped fw)
                 | (True, fw) \<Rightarrow>
                     if fw_tcp_conns fw = 0 then (False, drop_tcp_ip ip fw)
                     else (True, fw\<lparr>fw_tcp_conns := fw_tcp_conns fw - 1\<rparr>))"

text \<open>One message of a connection; \<open>QDrop\<close> closes it. \<open>count\<close> counts the messages before it.\<close>

definition handle_tcp_msg :: "instant \<Rightarrow> ip_addr \<Rightarrow> nat \<Rightarrow> bytes \<Rightarrow> forwarder \<Rightarrow> outcome \<times> forwarder" where
  "handle_tcp_msg now ip count msg fw =
     (if length msg < DNS_HDR_LEN then (QDrop, fw)
      else if MAX_MSGS_PER_CONN < count + 1 then (QDrop, fw)
      else
        case il_allow ip now (fw_rate fw) of
          (ok, rate) \<Rightarrow>
            let fw = fw\<lparr>fw_rate := rate\<rparr>
            in if \<not> ok then (QDrop, dropped fw)
               else
                 let question = accept_query msg
                 in if question = None \<and> (is_response msg \<or> qdcount msg \<noteq> 1) then (QDrop, fw)
                    else start_query now msg question fw)"

definition upstream_tcp :: "bytes option \<Rightarrow> bytes option" where
  "upstream_tcp raw =
     (case raw of Some m \<Rightarrow> if DNS_HDR_LEN \<le> length m then Some m else None | None \<Rightarrow> None)"

definition handle_tcp_answer :: "dns_records \<Rightarrow> instant \<Rightarrow> instant \<Rightarrow> bytes \<Rightarrow> bytes option \<Rightarrow> forwarder
    \<Rightarrow> bytes option \<times> forwarder" where
  "handle_tcp_answer records now now' msg raw fw =
     (let fw = fw\<lparr>fw_inflight := fw_inflight fw + 1\<rparr>
      in case upstream_tcp raw of
           Some resp \<Rightarrow>
             if length resp \<le> 65535
             then (Some resp, store_answer records now now' msg (accept_query msg) resp fw)
             else (None, fw\<lparr>fw_q_upstream_err := fw_q_upstream_err fw + 1\<rparr>)
         | None \<Rightarrow> (None, fw\<lparr>fw_q_upstream_err := fw_q_upstream_err fw + 1\<rparr>))"

definition tcp_closed :: "ip_addr \<Rightarrow> forwarder \<Rightarrow> forwarder" where
  "tcp_closed ip fw = drop_tcp_ip ip (fw\<lparr>fw_tcp_conns := fw_tcp_conns fw + 1\<rparr>)"

section \<open>A run of the forwarder\<close>

text \<open>
  The tasks and connections of the process as events in any order: a datagram arrives, a spawned task
  starts, the resolver answers it (or the wait ends: \<open>None\<close>), a connection is accepted, brings a message,
  is answered, or ends. \<open>ds_relayed\<close> records, for the statements below, what the resolver answered: the
  key of the question, the answer, and the instant.
\<close>

record tcp_conn =
  tc_peer :: sock_addr
  tc_count :: nat
  tc_waiting :: "bytes option"

record dns_sys =
  ds_fw :: forwarder
  ds_tasks :: "udp_task list"
  ds_waiting :: "udp_task list"
  ds_conns :: "(nat, tcp_conn) hmap"
  ds_relayed :: "(bytes \<times> bytes \<times> instant) list"

datatype dns_event =
    UdpIn sock_addr bytes | UdpRun nat | UdpAnswer nat "bytes option"
  | TcpAccept nat sock_addr | TcpMsg nat bytes | TcpAnswer nat "bytes option" | TcpClose nat

datatype dns_out = ToGuest sock_addr bytes bytes | ToUpstream ip_addr bytes

definition list_remove :: "nat \<Rightarrow> 'a list \<Rightarrow> 'a list" where
  "list_remove i xs = take i xs @ drop (Suc i) xs"

definition relayed :: "bytes \<Rightarrow> question option \<Rightarrow> bytes \<Rightarrow> instant \<Rightarrow> (bytes \<times> bytes \<times> instant) list" where
  "relayed query question resp now =
     (case question of None \<Rightarrow> [] | Some q \<Rightarrow> [(qkey query (qn_end q), resp, now)])"

fun dns_step :: "dns_records \<Rightarrow> instant \<Rightarrow> dns_event \<Rightarrow> dns_sys \<Rightarrow> dns_out list \<times> dns_sys" where
  "dns_step records now (UdpIn src datagram) s =
     (case udp_recv now src datagram (ds_fw s) of
        (None, fw) \<Rightarrow> ([], s\<lparr>ds_fw := fw\<rparr>)
      | (Some t, fw) \<Rightarrow> ([], s\<lparr>ds_fw := fw, ds_tasks := ds_tasks s @ [t]\<rparr>))"
| "dns_step records now (UdpRun i) s =
     (if length (ds_tasks s) \<le> i then ([], s)
      else
        let t = ds_tasks s ! i; s = s\<lparr>ds_tasks := list_remove i (ds_tasks s)\<rparr>
        in case start_query now (ut_query t) (ut_question t) (ds_fw s) of
             (QReply out, fw) \<Rightarrow> ([ToGuest (ut_src t) (ut_query t) out], s\<lparr>ds_fw := fw\<rparr>)
           | (QDrop, fw) \<Rightarrow> ([], s\<lparr>ds_fw := fw\<rparr>)
           | (QWait, fw) \<Rightarrow>
               ([ToUpstream (fst (ut_src t)) (ut_query t)], s\<lparr>ds_fw := fw, ds_waiting := ds_waiting s @ [t]\<rparr>))"
| "dns_step records now (UdpAnswer i raw) s =
     (if length (ds_waiting s) \<le> i then ([], s)
      else
        let t = ds_waiting s ! i; s = s\<lparr>ds_waiting := list_remove i (ds_waiting s)\<rparr>
        in case handle_udp_answer records now now t raw (ds_fw s) of
             (Some resp, fw) \<Rightarrow>
               ([ToGuest (ut_src t) (ut_query t) resp],
                s\<lparr>ds_fw := fw, ds_relayed := relayed (ut_query t) (ut_question t) resp now @ ds_relayed s\<rparr>)
           | (None, fw) \<Rightarrow> ([], s\<lparr>ds_fw := fw\<rparr>))"
| "dns_step records now (TcpAccept c peer) s =
     (if map_of (ds_conns s) c \<noteq> None then ([], s)
      else
        case tcp_accept now (fst peer) (ds_fw s) of
          (True, fw) \<Rightarrow> ([], s\<lparr>ds_fw := fw, ds_conns := hupd c \<lparr>tc_peer = peer, tc_count = 0, tc_waiting = None\<rparr> (ds_conns s)\<rparr>)
        | (False, fw) \<Rightarrow> ([], s\<lparr>ds_fw := fw\<rparr>))"
| "dns_step records now (TcpMsg c msg) s =
     (case map_of (ds_conns s) c of
        None \<Rightarrow> ([], s)
      | Some k \<Rightarrow>
          if tc_waiting k \<noteq> None then ([], s)
          else
            case handle_tcp_msg now (fst (tc_peer k)) (tc_count k) msg (ds_fw s) of
              (QReply out, fw) \<Rightarrow>
                ([ToGuest (tc_peer k) msg out],
                 s\<lparr>ds_fw := fw, ds_conns := hupd c (k\<lparr>tc_count := tc_count k + 1\<rparr>) (ds_conns s)\<rparr>)
            | (QDrop, fw) \<Rightarrow> ([], s\<lparr>ds_fw := tcp_closed (fst (tc_peer k)) fw, ds_conns := hdel c (ds_conns s)\<rparr>)
            | (QWait, fw) \<Rightarrow>
                ([ToUpstream (fst (tc_peer k)) msg],
                 s\<lparr>ds_fw := fw, ds_conns := hupd c (k\<lparr>tc_count := tc_count k + 1, tc_waiting := Some msg\<rparr>) (ds_conns s)\<rparr>))"
| "dns_step records now (TcpAnswer c raw) s =
     (case map_of (ds_conns s) c of
        None \<Rightarrow> ([], s)
      | Some k \<Rightarrow>
          (case tc_waiting k of
             None \<Rightarrow> ([], s)
           | Some msg \<Rightarrow>
               (case handle_tcp_answer records now now msg raw (ds_fw s) of
                  (Some resp, fw) \<Rightarrow>
                    ([ToGuest (tc_peer k) msg resp],
                     s\<lparr>ds_fw := fw, ds_conns := hupd c (k\<lparr>tc_waiting := None\<rparr>) (ds_conns s),
                       ds_relayed := relayed msg (accept_query msg) resp now @ ds_relayed s\<rparr>)
                | (None, fw) \<Rightarrow> ([], s\<lparr>ds_fw := tcp_closed (fst (tc_peer k)) fw, ds_conns := hdel c (ds_conns s)\<rparr>))))"
| "dns_step records now (TcpClose c) s =
     (case map_of (ds_conns s) c of
        None \<Rightarrow> ([], s)
      | Some k \<Rightarrow>
          if tc_waiting k \<noteq> None then ([], s)
          else ([], s\<lparr>ds_fw := tcp_closed (fst (tc_peer k)) (ds_fw s), ds_conns := hdel c (ds_conns s)\<rparr>))"

definition dns_new :: "string \<Rightarrow> dns_sys" where
  "dns_new bind_ip = \<lparr>ds_fw = fw_new bind_ip, ds_tasks = [], ds_waiting = [], ds_conns = [], ds_relayed = []\<rparr>"

text \<open>The log of a run: what was sent, and when.\<close>

fun dns_run :: "dns_records \<Rightarrow> (dns_event \<times> instant) list \<Rightarrow> dns_sys \<Rightarrow> (instant \<times> dns_out) list \<times> dns_sys" where
  "dns_run records [] s = ([], s)"
| "dns_run records ((ev, now) # evs) s =
     (let (out, s1) = dns_step records now ev s; (sent, s2) = dns_run records evs s1 in (map (Pair now) out @ sent, s2))"

end
