(* ===== verification/Dns_Inv.thy ===== *)
theory Dns_Inv
  imports Dns_Fwd
begin

text \<open>
  The invariant of the DNS forwarder: what its pools, its pending queries and its cache hold, what each
  operation leaves alone, that every event keeps the invariant, and what a reply is made of.
\<close>

section \<open>Counting the rows of a map\<close>

definition cnt :: "('v \<Rightarrow> bool) \<Rightarrow> ('k, 'v) hmap \<Rightarrow> nat" where
  "cnt P m = length (filter (P \<circ> snd) m)"

lemma cnt_Nil [simp]: "cnt P [] = 0"
  by (simp add: cnt_def)

lemma hdel_absent: "map_of m c = None \<Longrightarrow> hdel c m = m"
  by (force simp: hdel_filter map_of_eq_None_iff filter_id_conv)

lemma hm_wf_Cons: "hm_wf ((c, k) # m) \<longleftrightarrow> map_of m c = None \<and> hm_wf m"
  by (simp add: hm_wf_def map_of_eq_None_iff)

lemma hdel_Cons: "hdel c ((c', k') # m) = (if c' = c then hdel c m else (c', k') # hdel c m)"
  by (simp add: hdel_filter)

lemma cnt_Cons: "cnt P ((c, k) # m) = (if P k then 1 else 0) + cnt P m"
  by (simp add: cnt_def)

lemma cnt_hdel: "hm_wf m \<Longrightarrow> map_of m c = Some k \<Longrightarrow> cnt P m = cnt P (hdel c m) + (if P k then 1 else 0)"
  by (induction m) (auto simp: hm_wf_Cons hdel_Cons cnt_Cons hdel_absent split: if_splits)

lemma cnt_hupd: "hm_wf m \<Longrightarrow> cnt P (hupd c k m) = cnt P (hdel c m) + (if P k then 1 else 0)"
  by (induction m) (auto simp: hm_wf_Cons hdel_Cons cnt_Cons hdel_absent split: if_splits)

lemma length_cnt: "length m = cnt (\<lambda>_. True) m"
  by (simp add: cnt_def comp_def)

section \<open>The invariant\<close>

text \<open>A query the listeners let through: from the bridge, no response, and parsed as it is.\<close>

definition query_ok :: "forwarder \<Rightarrow> ip_addr \<Rightarrow> bytes \<Rightarrow> bool" where
  "query_ok fw ip query \<longleftrightarrow> src_allowed fw ip \<and> DNS_HDR_LEN \<le> length query \<and> \<not> is_response query"

definition cache_ok :: "dns_cache \<Rightarrow> (bytes \<times> bytes \<times> instant) list \<Rightarrow> bool" where
  "cache_ok m rel \<longleftrightarrow>
     hm_wf m \<and> length m \<le> CACHE_MAX_ENTRIES \<and>
     (\<forall>k resp expiry. map_of m k = Some (resp, expiry) \<longrightarrow>
        (\<exists>t. (k, resp, t) \<in> set rel \<and> expiry \<le> t + CACHE_MAX_TTL))"

definition ip_conns :: "forwarder \<Rightarrow> ip_addr \<Rightarrow> nat" where
  "ip_conns fw ip = get_or_default 0 (fw_tcp_per_ip fw) ip"

definition pools_ok :: "dns_sys \<Rightarrow> bool" where
  "pools_ok s \<longleftrightarrow>
     hm_wf (ds_conns s) \<and>
     fw_inflight (ds_fw s) + length (ds_waiting s) + cnt (\<lambda>k. tc_waiting k \<noteq> None) (ds_conns s) = MAX_INFLIGHT \<and>
     fw_tcp_conns (ds_fw s) + length (ds_conns s) = MAX_TCP_CONNS \<and>
     (\<forall>ip. ip_conns (ds_fw s) ip = cnt (\<lambda>k. fst (tc_peer k) = ip) (ds_conns s)) \<and>
     (\<forall>ip. cnt (\<lambda>k. fst (tc_peer k) = ip) (ds_conns s) \<le> PER_IP_TCP_MAX)"

definition queries_ok :: "dns_sys \<Rightarrow> bool" where
  "queries_ok s \<longleftrightarrow>
     (\<forall>t \<in> set (ds_tasks s @ ds_waiting s).
        query_ok (ds_fw s) (fst (ut_src t)) (ut_query t) \<and> ut_question t = accept_query (ut_query t)) \<and>
     (\<forall>c k. map_of (ds_conns s) c = Some k \<longrightarrow>
        src_allowed (ds_fw s) (fst (tc_peer k)) \<and>
        (\<forall>msg. tc_waiting k = Some msg \<longrightarrow> query_ok (ds_fw s) (fst (tc_peer k)) msg))"

definition dns_inv :: "dns_sys \<Rightarrow> bool" where
  "dns_inv s \<longleftrightarrow> pools_ok s \<and> queries_ok s \<and> cache_ok (fw_cache (ds_fw s)) (ds_relayed s)"

lemmas dns_inv_defs = dns_inv_def pools_ok_def queries_ok_def

lemma accepted_not_response: "accept_query q = Some x \<Longrightarrow> \<not> is_response q \<and> DNS_HDR_LEN \<le> length q"
  by (auto simp: accept_query_def split: if_splits)

subsection \<open>The cache\<close>

lemma cache_ok_hdel: "cache_ok m rel \<Longrightarrow> cache_ok (hdel k m) rel"
  by (auto simp: cache_ok_def intro: le_trans[OF length_hdel_le])

lemma cache_ok_mono: "cache_ok m rel \<Longrightarrow> set rel \<subseteq> set rel' \<Longrightarrow> cache_ok m rel'"
  unfolding cache_ok_def by blast

lemma cache_get_cases:
  assumes "cache_get now key m = (r, m')"
  shows "(r = None \<or> (\<exists>b expiry. r = Some b \<and> map_of m key = Some (b, expiry) \<and> now < expiry)) \<and> (m' = m \<or> m' = hdel key m)"
  using assms by (auto simp: cache_get_def split: option.splits if_splits)

lemma cache_ok_insert:
  assumes "cache_ok m rel" "length m < CACHE_MAX_ENTRIES \<or> map_of m key \<noteq> None" "(key, resp, now) \<in> set rel" "ttl \<le> CACHE_MAX_TTL"
  shows "cache_ok (hupd key (resp, now + ttl) m) rel"
proof -
  have "length (hupd key (resp, now + ttl) m) \<le> CACHE_MAX_ENTRIES"
    using assms(1,2) by (auto simp: cache_ok_def length_hupd split: option.splits)
  moreover have "\<exists>t. (k, r, t) \<in> set rel \<and> e \<le> t + CACHE_MAX_TTL"
    if "map_of (hupd key (resp, now + ttl) m) k = Some (r, e)" for k r e
  proof (cases "k = key")
    case True
    then show ?thesis using that assms(3,4) by (intro exI[of _ now]) auto
  next
    case False
    then show ?thesis using that assms(1) by (auto simp: cache_ok_def)
  qed
  ultimately show ?thesis using assms(1) by (auto simp: cache_ok_def)
qed

lemma nearest_expiry_in: "nearest_expiry m = Some k \<Longrightarrow> map_of m k \<noteq> None"
  by (induction m arbitrary: k rule: nearest_expiry.induct) (auto split: option.splits if_splits)

lemma nearest_expiry_None: "nearest_expiry m = None \<longleftrightarrow> m = []"
  by (cases m rule: nearest_expiry.cases) (auto split: option.splits)

lemma cache_ok_hretain:
  assumes "cache_ok m rel"
  shows "cache_ok (hretain P m) rel"
proof -
  have "map_of (hretain P m) k = Some v \<Longrightarrow> map_of m k = Some v" for k v
    using assms by (auto simp: cache_ok_def hm_wf_map_of_iff dest!: map_of_SomeD subsetD[OF hretain_subset])
  moreover have "length (hretain P m) \<le> CACHE_MAX_ENTRIES"
    using assms length_hretain_le[of P m] by (simp add: cache_ok_def del: length_hretain_le)
  ultimately show ?thesis using assms by (auto simp: cache_ok_def)
qed

lemma cache_ok_maybe_insert:
  assumes "cache_ok m rel" "(key, resp, now') \<in> set rel"
  shows "cache_ok (maybe_insert records now now' key resp m) rel"
proof -
  define ttl where "ttl = max CACHE_MIN_TTL (min CACHE_MAX_TTL (the (min_ttl records resp)))"
  have ttl: "ttl \<le> CACHE_MAX_TTL" by (simp add: ttl_def CACHE_MIN_TTL_def CACHE_MAX_TTL_def from_secs_def)
  define m1 where "m1 = hretain (\<lambda>_ v. now < snd v) m"
  have m1: "cache_ok m1 rel" unfolding m1_def by (rule cache_ok_hretain[OF assms(1)])
  have A: "cache_ok (hupd key (resp, now' + ttl) m) rel" if "\<not> (CACHE_MAX_ENTRIES \<le> length m \<and> map_of m key = None)"
    using assms that ttl by (intro cache_ok_insert) auto
  have B: "cache_ok (hupd key (resp, now' + ttl) m1) rel" if "\<not> CACHE_MAX_ENTRIES \<le> length m1"
    using m1 assms(2) that ttl by (intro cache_ok_insert) auto
  have C: "cache_ok (hupd key (resp, now' + ttl) (hdel k m1)) rel" if nk: "nearest_expiry m1 = Some k" for k
  proof (intro cache_ok_insert cache_ok_hdel m1 assms(2) ttl disjI1)
    obtain v where "map_of m1 k = Some v" using nearest_expiry_in[OF nk] by blast
    then have "length (hdel k m1) < length m1"
      using m1 cnt_hdel[of m1 k v "\<lambda>_. True"] by (simp add: cache_ok_def length_cnt)
    then show "length (hdel k m1) < CACHE_MAX_ENTRIES" using m1 by (simp add: cache_ok_def)
  qed
  show ?thesis
  proof (cases "min_ttl records resp")
    case None
    then show ?thesis using assms(1) by (simp add: maybe_insert_def Let_def)
  next
    case (Some t0)
    have eq: "maybe_insert records now now' key resp m =
        (if \<not> cacheable resp then m
         else if CACHE_MAX_ENTRIES \<le> length m \<and> map_of m key = None
         then if CACHE_MAX_ENTRIES \<le> length m1
              then (case nearest_expiry m1 of None \<Rightarrow> m1 | Some k \<Rightarrow> hupd key (resp, now' + ttl) (hdel k m1))
              else hupd key (resp, now' + ttl) m1
         else hupd key (resp, now' + ttl) m)"
      unfolding maybe_insert_def Let_def m1_def ttl_def Some option.sel option.case by (rule refl)
    show ?thesis
      unfolding eq using A B C m1 assms(1) by (simp split: option.split)
  qed
qed

subsection \<open>What each operation leaves alone\<close>

lemma dropped_sel [simp]:
  "fw_allowed_prefix (dropped fw) = fw_allowed_prefix fw" "fw_rate (dropped fw) = fw_rate fw"
  "fw_inflight (dropped fw) = fw_inflight fw" "fw_tcp_conns (dropped fw) = fw_tcp_conns fw"
  "fw_tcp_per_ip (dropped fw) = fw_tcp_per_ip fw" "fw_cache (dropped fw) = fw_cache fw"
  by (simp_all add: dropped_def)

lemma src_allowed_cong: "fw_allowed_prefix fw' = fw_allowed_prefix fw \<Longrightarrow> src_allowed fw' = src_allowed fw"
  by (simp add: src_allowed_def fun_eq_iff)

lemma query_ok_cong: "fw_allowed_prefix fw' = fw_allowed_prefix fw \<Longrightarrow> query_ok fw' = query_ok fw"
  by (simp add: query_ok_def src_allowed_def fun_eq_iff)

text \<open>The fields of the pools.\<close>

definition same_pools :: "forwarder \<Rightarrow> forwarder \<Rightarrow> bool" where
  "same_pools fw fw' \<longleftrightarrow> fw_allowed_prefix fw' = fw_allowed_prefix fw \<and> fw_inflight fw' = fw_inflight fw \<and>
     fw_tcp_conns fw' = fw_tcp_conns fw \<and> fw_tcp_per_ip fw' = fw_tcp_per_ip fw"

lemma udp_recv_frame:
  assumes "udp_recv now src d fw = (t, fw')"
  shows "same_pools fw fw'" "fw_cache fw' = fw_cache fw"
    and "t = Some task \<Longrightarrow> query_ok fw (fst src) (ut_query task) \<and> ut_src task = src \<and> ut_question task = accept_query (ut_query task)"
  using assms
  by (auto simp: udp_recv_def same_pools_def Let_def query_ok_def dest: accepted_not_response split: if_splits prod.splits)

lemma lookup_cache_frame:
  assumes "lookup_cache now query question fw = (r, fw')"
  shows "same_pools fw fw'" "fw_rate fw' = fw_rate fw"
    and "cache_ok (fw_cache fw) rel \<Longrightarrow> cache_ok (fw_cache fw') rel"
    and "r = Some out \<Longrightarrow> \<exists>q cached expiry. question = Some q \<and> map_of (fw_cache fw) (qkey query (qn_end q)) = Some (cached, expiry) \<and>
      now < expiry \<and> out = serve_from_cache cached query (qn_end q)"
proof -
  have "same_pools fw fw' \<and> fw_rate fw' = fw_rate fw \<and> (cache_ok (fw_cache fw) rel \<longrightarrow> cache_ok (fw_cache fw') rel) \<and>
    (r = Some out \<longrightarrow> (\<exists>q cached expiry. question = Some q \<and> map_of (fw_cache fw) (qkey query (qn_end q)) = Some (cached, expiry) \<and>
      now < expiry \<and> out = serve_from_cache cached query (qn_end q)))"
  proof (cases question)
    case None
    then show ?thesis using assms by (auto simp: lookup_cache_def same_pools_def)
  next
    case (Some q)
    obtain b m where g: "cache_get now (qkey query (qn_end q)) (fw_cache fw) = (b, m)" by (cases "cache_get now (qkey query (qn_end q)) (fw_cache fw)")
    from cache_get_cases[OF g] Some g assms show ?thesis
      by (cases b) (auto simp: lookup_cache_def same_pools_def cache_ok_hdel)
  qed
  then show "same_pools fw fw'" "fw_rate fw' = fw_rate fw" "cache_ok (fw_cache fw) rel \<Longrightarrow> cache_ok (fw_cache fw') rel"
    "r = Some out \<Longrightarrow> \<exists>q cached expiry. question = Some q \<and> map_of (fw_cache fw) (qkey query (qn_end q)) = Some (cached, expiry) \<and>
      now < expiry \<and> out = serve_from_cache cached query (qn_end q)" by blast+
qed

lemma start_query_frame:
  assumes "start_query now query question fw = (r, fw')"
  shows "fw_allowed_prefix fw' = fw_allowed_prefix fw \<and> fw_tcp_conns fw' = fw_tcp_conns fw \<and>
      fw_tcp_per_ip fw' = fw_tcp_per_ip fw \<and> fw_rate fw' = fw_rate fw \<and>
      fw_inflight fw = fw_inflight fw' + (if r = QWait then 1 else 0)"
    and "cache_ok (fw_cache fw) rel \<Longrightarrow> cache_ok (fw_cache fw') rel"
    and "r = QReply out \<Longrightarrow> \<exists>q cached expiry. question = Some q \<and> map_of (fw_cache fw) (qkey query (qn_end q)) = Some (cached, expiry) \<and>
      now < expiry \<and> out = serve_from_cache cached query (qn_end q)"
proof -
  define fw0 where "fw0 = fw\<lparr>fw_q_total := fw_q_total fw + 1\<rparr>"
  obtain x fw1 where l: "lookup_cache now query question fw0 = (x, fw1)" by (cases "lookup_cache now query question fw0")
  note F = lookup_cache_frame[OF l]
  have c: "fw_cache fw0 = fw_cache fw" by (simp add: fw0_def)
  show "fw_allowed_prefix fw' = fw_allowed_prefix fw \<and> fw_tcp_conns fw' = fw_tcp_conns fw \<and>
      fw_tcp_per_ip fw' = fw_tcp_per_ip fw \<and> fw_rate fw' = fw_rate fw \<and>
      fw_inflight fw = fw_inflight fw' + (if r = QWait then 1 else 0)"
    using assms F(1,2) l by (auto simp: start_query_def fw0_def same_pools_def split: option.splits if_splits)
  show "cache_ok (fw_cache fw) rel \<Longrightarrow> cache_ok (fw_cache fw') rel"
    using assms F(3) l c by (auto simp: start_query_def fw0_def split: option.splits if_splits)
  show "\<exists>q cached expiry. question = Some q \<and> map_of (fw_cache fw) (qkey query (qn_end q)) = Some (cached, expiry) \<and>
      now < expiry \<and> out = serve_from_cache cached query (qn_end q)" if "r = QReply out"
  proof -
    have "x = Some out" using assms l that by (auto simp: start_query_def fw0_def split: option.splits if_splits)
    from F(4)[OF this] show ?thesis by (simp add: c)
  qed
qed

lemma store_answer_frame:
  "same_pools fw (store_answer records now now' query question resp fw)"
  "fw_rate (store_answer records now now' query question resp fw) = fw_rate fw"
  "cache_ok (fw_cache fw) rel \<Longrightarrow>
   cache_ok (fw_cache (store_answer records now now' query question resp fw)) (relayed query question resp now' @ rel)"
proof -
  show "same_pools fw (store_answer records now now' query question resp fw)"
    "fw_rate (store_answer records now now' query question resp fw) = fw_rate fw"
    by (simp_all add: store_answer_def same_pools_def split: option.splits)
  assume ok: "cache_ok (fw_cache fw) rel"
  show "cache_ok (fw_cache (store_answer records now now' query question resp fw)) (relayed query question resp now' @ rel)"
  proof (cases question)
    case None
    then show ?thesis using ok by (simp add: store_answer_def relayed_def)
  next
    case (Some q)
    have "cache_ok (fw_cache fw) (relayed query question resp now' @ rel)" using ok by (rule cache_ok_mono) simp
    then show ?thesis
      using cache_ok_maybe_insert[of "fw_cache fw" "relayed query question resp now' @ rel"] Some
      by (simp add: store_answer_def relayed_def)
  qed
qed

lemma handle_udp_answer_frame:
  assumes "handle_udp_answer records now now t raw fw = (r, fw')"
  shows "same_pools (fw\<lparr>fw_inflight := fw_inflight fw + 1\<rparr>) fw' \<and> fw_rate fw' = fw_rate fw \<and>
    (cache_ok (fw_cache fw) rel \<longrightarrow>
     cache_ok (fw_cache fw') (case r of Some resp \<Rightarrow> relayed (ut_query t) (ut_question t) resp now @ rel | None \<Rightarrow> rel)) \<and>
    (\<forall>resp. r = Some resp \<longrightarrow> upstream_udp raw = Some resp)"
  using assms store_answer_frame[where fw = "fw\<lparr>fw_inflight := fw_inflight fw + 1\<rparr>"]
  by (auto simp: handle_udp_answer_def Let_def same_pools_def split: option.splits)

lemma handle_tcp_answer_frame:
  assumes "handle_tcp_answer records now now msg raw fw = (r, fw')"
  shows "same_pools (fw\<lparr>fw_inflight := fw_inflight fw + 1\<rparr>) fw' \<and> fw_rate fw' = fw_rate fw \<and>
    (cache_ok (fw_cache fw) rel \<longrightarrow>
     cache_ok (fw_cache fw') (case r of Some resp \<Rightarrow> relayed msg (accept_query msg) resp now @ rel | None \<Rightarrow> rel)) \<and>
    (\<forall>resp. r = Some resp \<longrightarrow> upstream_tcp raw = Some resp)"
  using assms store_answer_frame[where fw = "fw\<lparr>fw_inflight := fw_inflight fw + 1\<rparr>"]
  by (auto simp: handle_tcp_answer_def Let_def same_pools_def split: option.splits if_splits)

lemma cnt_replace:
  "hm_wf m \<Longrightarrow> map_of m c = Some k \<Longrightarrow> cnt P (hupd c k' m) + (if P k then 1 else 0) = cnt P m + (if P k' then 1 else 0)"
  using cnt_hdel[of m c k P] cnt_hupd[of m P c k'] by simp

lemma cnt_new: "hm_wf m \<Longrightarrow> map_of m c = None \<Longrightarrow> cnt P (hupd c k m) = cnt P m + (if P k then 1 else 0)"
  using cnt_hupd[of m P c k] by (simp add: hdel_absent)

lemma drop_tcp_ip_frame:
  "ip_conns (drop_tcp_ip ip fw) x = ip_conns fw x - (if x = ip then 1 else 0)"
  "fw_allowed_prefix (drop_tcp_ip ip fw) = fw_allowed_prefix fw" "fw_inflight (drop_tcp_ip ip fw) = fw_inflight fw"
  "fw_tcp_conns (drop_tcp_ip ip fw) = fw_tcp_conns fw" "fw_cache (drop_tcp_ip ip fw) = fw_cache fw"
  "fw_rate (drop_tcp_ip ip fw) = fw_rate fw"
  by (auto simp: drop_tcp_ip_def ip_conns_def get_or_default_def split: option.splits)

lemma acquire_tcp_ip_frame:
  assumes "acquire_tcp_ip ip fw = (ok, fw')"
  shows "ip_conns fw' x = ip_conns fw x + (if ok \<and> x = ip then 1 else 0)" "ok \<Longrightarrow> ip_conns fw ip < PER_IP_TCP_MAX"
    and "fw_allowed_prefix fw' = fw_allowed_prefix fw \<and> fw_inflight fw' = fw_inflight fw \<and>
      fw_tcp_conns fw' = fw_tcp_conns fw \<and> fw_cache fw' = fw_cache fw \<and> fw_rate fw' = fw_rate fw"
  using assms
  by (auto simp: acquire_tcp_ip_def ip_conns_def get_or_default_def Let_def split: if_splits option.splits)

lemma tcp_accept_frame:
  assumes "tcp_accept now ip fw = (ok, fw')"
  shows "fw_allowed_prefix fw' = fw_allowed_prefix fw \<and> fw_inflight fw' = fw_inflight fw \<and> fw_cache fw' = fw_cache fw"
    and "fw_tcp_conns fw = fw_tcp_conns fw' + (if ok then 1 else 0)"
    and "ip_conns fw' x = ip_conns fw x + (if ok \<and> x = ip then 1 else 0)"
    and "ok \<Longrightarrow> ip_conns fw ip < PER_IP_TCP_MAX \<and> src_allowed fw ip"
proof -
  obtain a rate where al: "il_allow ip now (fw_rate fw) = (a, rate)" by (cases "il_allow ip now (fw_rate fw)")
  define fw1 where "fw1 = fw\<lparr>fw_rate := rate\<rparr>"
  obtain b fw2 where ac: "acquire_tcp_ip ip fw1 = (b, fw2)" by (cases "acquire_tcp_ip ip fw1")
  note A = acquire_tcp_ip_frame[OF ac]
  have f1: "fw_allowed_prefix fw1 = fw_allowed_prefix fw" "fw_inflight fw1 = fw_inflight fw" "fw_cache fw1 = fw_cache fw"
    "fw_tcp_conns fw1 = fw_tcp_conns fw" "\<And>x. ip_conns fw1 x = ip_conns fw x"
    by (simp_all add: fw1_def ip_conns_def)
  have d: "ip_conns (dropped g) x = ip_conns g x" "ip_conns (g\<lparr>fw_tcp_conns := n\<rparr>) x = ip_conns g x" for g x n
    by (simp_all add: ip_conns_def)
  consider (fence) "\<not> src_allowed fw ip" "ok = False" "fw' = fw"
    | (rate) "src_allowed fw ip" "\<not> a" "ok = False" "fw' = dropped fw1"
    | (slot) "src_allowed fw ip" "\<not> b" "ok = False" "fw' = dropped fw2"
    | (full) "src_allowed fw ip" b "fw_tcp_conns fw2 = 0" "ok = False" "fw' = drop_tcp_ip ip fw2"
    | (okay) "src_allowed fw ip" b "fw_tcp_conns fw2 \<noteq> 0" "ok = True" "fw' = fw2\<lparr>fw_tcp_conns := fw_tcp_conns fw2 - 1\<rparr>"
    using assms al ac by (cases b) (auto simp: tcp_accept_def Let_def fw1_def split: if_splits)
  then have "(fw_allowed_prefix fw' = fw_allowed_prefix fw \<and> fw_inflight fw' = fw_inflight fw \<and> fw_cache fw' = fw_cache fw) \<and>
    fw_tcp_conns fw = fw_tcp_conns fw' + (if ok then 1 else 0) \<and>
    (\<forall>x. ip_conns fw' x = ip_conns fw x + (if ok \<and> x = ip then 1 else 0)) \<and>
    (ok \<longrightarrow> ip_conns fw ip < PER_IP_TCP_MAX \<and> src_allowed fw ip)"
  proof cases
    case fence then show ?thesis by simp
  next
    case rate then show ?thesis by (simp add: f1 d)
  next
    case slot then show ?thesis using A by (simp add: f1 d)
  next
    case full then show ?thesis using A by (simp add: f1 drop_tcp_ip_frame)
  next
    case okay then show ?thesis using A by (auto simp: f1 d)
  qed
  then show "fw_allowed_prefix fw' = fw_allowed_prefix fw \<and> fw_inflight fw' = fw_inflight fw \<and> fw_cache fw' = fw_cache fw"
    "fw_tcp_conns fw = fw_tcp_conns fw' + (if ok then 1 else 0)"
    "ip_conns fw' x = ip_conns fw x + (if ok \<and> x = ip then 1 else 0)"
    "ok \<Longrightarrow> ip_conns fw ip < PER_IP_TCP_MAX \<and> src_allowed fw ip" by blast+
qed

lemma handle_tcp_msg_frame:
  assumes "handle_tcp_msg now ip n msg fw = (r, fw')"
  shows "fw_allowed_prefix fw' = fw_allowed_prefix fw \<and> fw_tcp_conns fw' = fw_tcp_conns fw \<and>
      (\<forall>x. ip_conns fw' x = ip_conns fw x) \<and> fw_inflight fw = fw_inflight fw' + (if r = QWait then 1 else 0)"
    and "cache_ok (fw_cache fw) rel \<Longrightarrow> cache_ok (fw_cache fw') rel"
    and "r \<noteq> QDrop \<Longrightarrow> DNS_HDR_LEN \<le> length msg \<and> \<not> is_response msg"
    and "r = QReply out \<Longrightarrow> \<exists>q cached expiry. accept_query msg = Some q \<and> map_of (fw_cache fw) (qkey msg (qn_end q)) = Some (cached, expiry) \<and>
      now < expiry \<and> out = serve_from_cache cached msg (qn_end q)"
proof -
  obtain a rate where al: "il_allow ip now (fw_rate fw) = (a, rate)" by (cases "il_allow ip now (fw_rate fw)")
  define fw1 where "fw1 = fw\<lparr>fw_rate := rate\<rparr>"
  obtain x fw2 where st: "start_query now msg (accept_query msg) fw1 = (x, fw2)" by (cases "start_query now msg (accept_query msg) fw1")
  note S = start_query_frame[OF st]
  consider (drop) "r = QDrop" "fw' = fw \<or> fw' = dropped fw1 \<or> fw' = fw1"
    | (start) "DNS_HDR_LEN \<le> length msg" "accept_query msg \<noteq> None \<or> \<not> is_response msg" "r = x" "fw' = fw2"
    using assms al st by (auto simp: handle_tcp_msg_def Let_def fw1_def split: if_splits)
  then have "(fw_allowed_prefix fw' = fw_allowed_prefix fw \<and> fw_tcp_conns fw' = fw_tcp_conns fw \<and>
      (\<forall>x. ip_conns fw' x = ip_conns fw x) \<and> fw_inflight fw = fw_inflight fw' + (if r = QWait then 1 else 0)) \<and>
    (cache_ok (fw_cache fw) rel \<longrightarrow> cache_ok (fw_cache fw') rel) \<and>
    (r \<noteq> QDrop \<longrightarrow> DNS_HDR_LEN \<le> length msg \<and> \<not> is_response msg) \<and>
    (r = QReply out \<longrightarrow> (\<exists>q cached expiry. accept_query msg = Some q \<and> map_of (fw_cache fw) (qkey msg (qn_end q)) = Some (cached, expiry) \<and>
      now < expiry \<and> out = serve_from_cache cached msg (qn_end q)))"
  proof cases
    case drop
    then show ?thesis by (auto simp: fw1_def ip_conns_def)
  next
    case start
    have "fw_cache fw1 = fw_cache fw" by (simp add: fw1_def)
    then show ?thesis using start S(1) S(2)[of rel] S(3)[of out] accepted_not_response[of msg]
      by (auto simp: fw1_def ip_conns_def)
  qed
  then show "fw_allowed_prefix fw' = fw_allowed_prefix fw \<and> fw_tcp_conns fw' = fw_tcp_conns fw \<and>
      (\<forall>x. ip_conns fw' x = ip_conns fw x) \<and> fw_inflight fw = fw_inflight fw' + (if r = QWait then 1 else 0)"
    "cache_ok (fw_cache fw) rel \<Longrightarrow> cache_ok (fw_cache fw') rel"
    "r \<noteq> QDrop \<Longrightarrow> DNS_HDR_LEN \<le> length msg \<and> \<not> is_response msg"
    "r = QReply out \<Longrightarrow> \<exists>q cached expiry. accept_query msg = Some q \<and> map_of (fw_cache fw) (qkey msg (qn_end q)) = Some (cached, expiry) \<and>
      now < expiry \<and> out = serve_from_cache cached msg (qn_end q)" by blast+
qed

lemma tcp_closed_frame:
  "ip_conns (tcp_closed ip fw) x = ip_conns fw x - (if x = ip then 1 else 0)"
  "fw_allowed_prefix (tcp_closed ip fw) = fw_allowed_prefix fw" "fw_inflight (tcp_closed ip fw) = fw_inflight fw"
  "fw_tcp_conns (tcp_closed ip fw) = fw_tcp_conns fw + 1" "fw_cache (tcp_closed ip fw) = fw_cache fw"
  "fw_rate (tcp_closed ip fw) = fw_rate fw"
  by (simp_all add: tcp_closed_def drop_tcp_ip_frame) (simp add: ip_conns_def)

subsection \<open>Every event keeps the invariant\<close>

lemma list_remove_set: "i < length xs \<Longrightarrow> set (list_remove i xs) \<subseteq> set xs \<and> length xs = length (list_remove i xs) + 1"
  by (auto simp: list_remove_def dest: in_set_takeD in_set_dropD)

lemma queries_ok_fw:
  assumes "queries_ok s" "fw_allowed_prefix fw = fw_allowed_prefix (ds_fw s)"
  shows "queries_ok (s\<lparr>ds_fw := fw\<rparr>)"
  using assms query_ok_cong[OF assms(2)] src_allowed_cong[OF assms(2)] by (simp add: queries_ok_def)

lemma udp_in_inv:
  assumes inv: "dns_inv s" and st: "dns_step records now (UdpIn src d) s = (out, s')"
  shows "dns_inv s'"
proof -
  obtain t fw where r: "udp_recv now src d (ds_fw s) = (t, fw)" by (cases "udp_recv now src d (ds_fw s)")
  note F = udp_recv_frame[OF r]
  have q: "queries_ok (s\<lparr>ds_fw := fw\<rparr>)" using inv F(1) by (intro queries_ok_fw) (simp_all add: dns_inv_def same_pools_def)
  have p: "pools_ok (s\<lparr>ds_fw := fw, ds_tasks := x\<rparr>)" for x
    using inv F(1) by (simp add: dns_inv_def pools_ok_def same_pools_def ip_conns_def)
  show ?thesis
  proof (cases t)
    case None
    then have "s' = s\<lparr>ds_fw := fw\<rparr>" using st r by simp
    then show ?thesis using q p[of "ds_tasks s"] inv F(2) by (simp add: dns_inv_def)
  next
    case (Some task)
    then have s': "s' = s\<lparr>ds_fw := fw, ds_tasks := ds_tasks s @ [task]\<rparr>" using st r by simp
    have "query_ok fw (fst (ut_src task)) (ut_query task)" "ut_question task = accept_query (ut_query task)"
      using F(3)[OF Some] F(1) query_ok_cong[of fw "ds_fw s"] by (simp_all add: same_pools_def)
    then have "queries_ok s'" using q unfolding s' queries_ok_def by auto
    then show ?thesis using p inv F(2) by (simp add: dns_inv_def s')
  qed
qed

lemma udp_run_inv:
  assumes inv: "dns_inv s" and st: "dns_step records now (UdpRun i) s = (out, s')"
  shows "dns_inv s'"
proof (cases "length (ds_tasks s) \<le> i")
  case True
  then show ?thesis using inv st by simp
next
  case False
  define t where "t = ds_tasks s ! i"
  define ts where "ts = list_remove i (ds_tasks s)"
  have t: "t \<in> set (ds_tasks s)" "set ts \<subseteq> set (ds_tasks s)"
    using False list_remove_set[of i "ds_tasks s"] by (auto simp: t_def ts_def)
  obtain r fw where q: "start_query now (ut_query t) (ut_question t) (ds_fw s) = (r, fw)"
    by (cases "start_query now (ut_query t) (ut_question t) (ds_fw s)")
  note F = start_query_frame[OF q]
  have cache: "cache_ok (fw_cache fw) (ds_relayed s)" using F(2) inv by (simp add: dns_inv_def)
  have qo: "queries_ok (s\<lparr>ds_fw := fw\<rparr>)" using inv F(1) by (intro queries_ok_fw) (simp_all add: dns_inv_def)
  show ?thesis
  proof (cases "r = QWait")
    case True
    then have s': "s' = s\<lparr>ds_tasks := ts, ds_fw := fw, ds_waiting := ds_waiting s @ [t]\<rparr>"
      using st False q by (simp add: t_def ts_def Let_def)
    have "pools_ok s'" using inv F(1) True unfolding s' by (simp add: dns_inv_def pools_ok_def ip_conns_def)
    moreover have "queries_ok s'" using qo t unfolding s' queries_ok_def by auto
    ultimately show ?thesis using cache by (simp add: dns_inv_def s')
  next
    case nw: False
    then have s': "s' = s\<lparr>ds_tasks := ts, ds_fw := fw\<rparr>"
      using st False q by (cases r) (simp_all add: t_def ts_def Let_def)
    have "pools_ok s'" using inv F(1) nw unfolding s' by (simp add: dns_inv_def pools_ok_def ip_conns_def)
    moreover have "queries_ok s'" using qo t unfolding s' queries_ok_def by auto
    ultimately show ?thesis using cache by (simp add: dns_inv_def s')
  qed
qed

lemma udp_answer_inv:
  assumes inv: "dns_inv s" and st: "dns_step records now (UdpAnswer i raw) s = (out, s')"
  shows "dns_inv s'"
proof (cases "length (ds_waiting s) \<le> i")
  case True
  then show ?thesis using inv st by simp
next
  case False
  define t where "t = ds_waiting s ! i"
  define ws where "ws = list_remove i (ds_waiting s)"
  have w: "set ws \<subseteq> set (ds_waiting s)" "length (ds_waiting s) = length ws + 1"
    using False list_remove_set[of i "ds_waiting s"] by (auto simp: ws_def)
  obtain r fw where a: "handle_udp_answer records now now t raw (ds_fw s) = (r, fw)"
    by (cases "handle_udp_answer records now now t raw (ds_fw s)")
  note F = handle_udp_answer_frame[OF a, of "ds_relayed s"]
  define rel where "rel = (case r of Some resp \<Rightarrow> relayed (ut_query t) (ut_question t) resp now @ ds_relayed s | None \<Rightarrow> ds_relayed s)"
  have s': "s' = s\<lparr>ds_waiting := ws, ds_fw := fw, ds_relayed := rel\<rparr>"
    using st False a by (cases r) (auto simp: t_def ws_def rel_def Let_def)
  have "queries_ok (s\<lparr>ds_fw := fw\<rparr>)" using inv F by (intro queries_ok_fw) (simp_all add: dns_inv_def same_pools_def)
  then have "queries_ok s'" using w unfolding s' queries_ok_def by auto
  moreover have "pools_ok s'"
    using inv F w unfolding s' by (simp add: dns_inv_def pools_ok_def same_pools_def ip_conns_def)
  moreover have "cache_ok (fw_cache fw) rel" using F inv by (simp add: dns_inv_def rel_def)
  ultimately show ?thesis by (simp add: dns_inv_def s')
qed

text \<open>A connection ends: its slots go back.\<close>

lemma close_pools:
  assumes inv: "pools_ok s" "map_of (ds_conns s) c = Some k"
    and fw: "fw_tcp_conns fw = fw_tcp_conns (ds_fw s)" "\<And>x. ip_conns fw x = ip_conns (ds_fw s) x"
      "fw_inflight fw = fw_inflight (ds_fw s) + (if tc_waiting k \<noteq> None then 1 else 0)"
  shows "pools_ok (s\<lparr>ds_fw := tcp_closed (fst (tc_peer k)) fw, ds_conns := hdel c (ds_conns s)\<rparr>)"
proof -
  have wf: "hm_wf (ds_conns s)" using inv by (simp add: pools_ok_def)
  note C = cnt_hdel[OF wf inv(2)]
  have 1: "fw_inflight fw + length (ds_waiting s) + cnt (\<lambda>k. tc_waiting k \<noteq> None) (hdel c (ds_conns s)) = MAX_INFLIGHT"
    using inv(1) fw(3) C[of "\<lambda>k. tc_waiting k \<noteq> None"] by (simp add: pools_ok_def split: if_splits)
  have 2: "fw_tcp_conns fw + 1 + length (hdel c (ds_conns s)) = MAX_TCP_CONNS"
    using inv(1) fw(1) C[of "\<lambda>_. True"] by (simp add: pools_ok_def length_cnt)
  have 3: "ip_conns fw x - (if x = fst (tc_peer k) then 1 else 0) = cnt (\<lambda>k. fst (tc_peer k) = x) (hdel c (ds_conns s))" for x
    using inv(1) fw(2)[of x] C[of "\<lambda>k. fst (tc_peer k) = x"] by (auto simp: pools_ok_def split: if_splits)
  have 4: "cnt (\<lambda>k. fst (tc_peer k) = x) (hdel c (ds_conns s)) \<le> PER_IP_TCP_MAX" for x
  proof -
    have "cnt (\<lambda>k. fst (tc_peer k) = x) (ds_conns s) \<le> PER_IP_TCP_MAX" using inv(1) by (simp add: pools_ok_def)
    then show ?thesis using C[of "\<lambda>k. fst (tc_peer k) = x"] by simp
  qed
  show ?thesis using 1 2 3 4 wf by (simp add: pools_ok_def tcp_closed_frame)
qed

lemma close_queries:
  assumes "queries_ok s" "fw_allowed_prefix fw = fw_allowed_prefix (ds_fw s)"
  shows "queries_ok (s\<lparr>ds_fw := tcp_closed ip fw, ds_conns := hdel c (ds_conns s)\<rparr>)"
proof -
  have "queries_ok (s\<lparr>ds_fw := tcp_closed ip fw\<rparr>)" using assms by (intro queries_ok_fw) (simp_all add: tcp_closed_frame)
  then show ?thesis by (simp add: queries_ok_def)
qed

lemma tcp_accept_inv:
  assumes inv: "dns_inv s" and st: "dns_step records now (TcpAccept c peer) s = (out, s')"
  shows "dns_inv s'"
proof (cases "map_of (ds_conns s) c")
  case (Some k)
  then show ?thesis using inv st by simp
next
  case None
  obtain ok fw where a: "tcp_accept now (fst peer) (ds_fw s) = (ok, fw)" by (cases "tcp_accept now (fst peer) (ds_fw s)")
  note F = tcp_accept_frame[OF a]
  have qo: "queries_ok (s\<lparr>ds_fw := fw\<rparr>)" using inv F(1) by (intro queries_ok_fw) (simp_all add: dns_inv_def)
  have cache: "cache_ok (fw_cache fw) (ds_relayed s)" using F(1) inv by (simp add: dns_inv_def)
  have wf: "hm_wf (ds_conns s)" using inv by (simp add: dns_inv_def pools_ok_def)
  show ?thesis
  proof (cases ok)
    case False
    then have s': "s' = s\<lparr>ds_fw := fw\<rparr>" using st None a by simp
    have "pools_ok s'" using inv F(1,2,3) False unfolding s' by (simp add: dns_inv_def pools_ok_def)
    then show ?thesis using qo cache by (simp add: dns_inv_def s')
  next
    case True
    define k where "k = \<lparr>tc_peer = peer, tc_count = 0, tc_waiting = None\<rparr>"
    have s': "s' = s\<lparr>ds_fw := fw, ds_conns := hupd c k (ds_conns s)\<rparr>" using st None a True by (simp add: k_def)
    note C = cnt_new[OF wf None, of _ k]
    have len: "length (hupd c k (ds_conns s)) = length (ds_conns s) + 1" using None by (simp add: length_hupd)
    have "ip_conns fw x = cnt (\<lambda>k. fst (tc_peer k) = x) (hupd c k (ds_conns s))
        \<and> cnt (\<lambda>k. fst (tc_peer k) = x) (hupd c k (ds_conns s)) \<le> PER_IP_TCP_MAX" for x
      using inv F(3)[of x] F(4)[OF True] C[of "\<lambda>k. fst (tc_peer k) = x"] True
      by (auto simp: dns_inv_def pools_ok_def k_def split: if_splits)
    then have "pools_ok s'"
      using inv F(1,2) True wf len C[of "\<lambda>k. tc_waiting k \<noteq> None"] unfolding s'
      by (simp add: dns_inv_def pools_ok_def k_def)
    moreover have "src_allowed fw (fst peer)" using F(1,4) True src_allowed_cong[of fw "ds_fw s"] by simp
    then have "queries_ok s'" using qo unfolding s' queries_ok_def by (auto simp: k_def)
    ultimately show ?thesis using cache by (simp add: dns_inv_def s')
  qed
qed

lemma update_pools:
  assumes inv: "pools_ok s" "map_of (ds_conns s) c = Some k" "tc_peer k' = tc_peer k"
    and fw: "fw_tcp_conns fw = fw_tcp_conns (ds_fw s)" "\<And>x. ip_conns fw x = ip_conns (ds_fw s) x"
      "fw_inflight fw + (if tc_waiting k' \<noteq> None then 1 else 0) = fw_inflight (ds_fw s) + (if tc_waiting k \<noteq> None then 1 else 0)"
  shows "pools_ok (s\<lparr>ds_fw := fw, ds_conns := hupd c k' (ds_conns s)\<rparr>)"
proof -
  have wf: "hm_wf (ds_conns s)" using inv by (simp add: pools_ok_def)
  note C = cnt_replace[OF wf inv(2), of _ k']
  have 1: "fw_inflight fw + length (ds_waiting s) + cnt (\<lambda>k. tc_waiting k \<noteq> None) (hupd c k' (ds_conns s)) = MAX_INFLIGHT"
    using inv(1) fw(3) C[of "\<lambda>k. tc_waiting k \<noteq> None"] by (auto simp: pools_ok_def split: if_splits)
  have 2: "length (hupd c k' (ds_conns s)) = length (ds_conns s)" using inv(2) by (simp add: length_hupd)
  have 3: "cnt (\<lambda>k. fst (tc_peer k) = x) (hupd c k' (ds_conns s)) = cnt (\<lambda>k. fst (tc_peer k) = x) (ds_conns s)" for x
    using C[of "\<lambda>k. fst (tc_peer k) = x"] inv(3) by simp
  show ?thesis using inv(1) fw(1,2) 1 2 3 wf by (simp add: pools_ok_def)
qed

lemma update_queries:
  assumes "queries_ok s" "map_of (ds_conns s) c = Some k" "tc_peer k' = tc_peer k"
    and "fw_allowed_prefix fw = fw_allowed_prefix (ds_fw s)"
    and "\<And>msg. tc_waiting k' = Some msg \<Longrightarrow> DNS_HDR_LEN \<le> length msg \<and> \<not> is_response msg"
  shows "queries_ok (s\<lparr>ds_fw := fw, ds_conns := hupd c k' (ds_conns s)\<rparr>)"
proof -
  have q: "queries_ok (s\<lparr>ds_fw := fw\<rparr>)" using assms by (intro queries_ok_fw) simp_all
  then have "src_allowed fw (fst (tc_peer k'))" using assms(2,3) by (simp add: queries_ok_def)
  then show ?thesis using q assms(5) by (auto simp: queries_ok_def query_ok_def)
qed

lemma tcp_msg_inv:
  assumes inv: "dns_inv s" and st: "dns_step records now (TcpMsg c msg) s = (out, s')"
  shows "dns_inv s'"
proof (cases "\<exists>k. map_of (ds_conns s) c = Some k \<and> tc_waiting k = None")
  case False
  then show ?thesis using inv st by (auto split: option.splits)
next
  case True
  then obtain k where k: "map_of (ds_conns s) c = Some k" "tc_waiting k = None" by blast
  obtain r fw where h: "handle_tcp_msg now (fst (tc_peer k)) (tc_count k) msg (ds_fw s) = (r, fw)"
    by (cases "handle_tcp_msg now (fst (tc_peer k)) (tc_count k) msg (ds_fw s)")
  note F = handle_tcp_msg_frame[OF h]
  have cache: "cache_ok (fw_cache fw) (ds_relayed s)" using F(2) inv by (simp add: dns_inv_def)
  have ok: "pools_ok s" "queries_ok s" using inv by (simp_all add: dns_inv_def)
  show ?thesis
  proof (cases "r = QDrop")
    case True
    then have s': "s' = s\<lparr>ds_fw := tcp_closed (fst (tc_peer k)) fw, ds_conns := hdel c (ds_conns s)\<rparr>"
      using st k h by simp
    have "pools_ok s'" unfolding s' using ok k F(1) True by (intro close_pools) auto
    moreover have "queries_ok s'" unfolding s' using ok F(1) by (intro close_queries) auto
    ultimately show ?thesis using cache by (simp add: dns_inv_def s' tcp_closed_frame)
  next
    case False
    define k' where "k' = k\<lparr>tc_count := tc_count k + 1, tc_waiting := (if r = QWait then Some msg else None)\<rparr>"
    have s': "s' = s\<lparr>ds_fw := fw, ds_conns := hupd c k' (ds_conns s)\<rparr>"
      using st k h False by (cases r; cases k) (auto simp: k'_def)
    have "pools_ok s'" unfolding s' using ok k F(1) by (intro update_pools[where k = k]) (auto simp: k'_def)
    moreover have "queries_ok s'" unfolding s' using ok k F(1) F(3)[OF False]
      by (intro update_queries[where k = k]) (auto simp: k'_def split: if_splits)
    ultimately show ?thesis using cache by (simp add: dns_inv_def s')
  qed
qed

lemma tcp_answer_inv:
  assumes inv: "dns_inv s" and st: "dns_step records now (TcpAnswer c raw) s = (out, s')"
  shows "dns_inv s'"
proof (cases "\<exists>k msg. map_of (ds_conns s) c = Some k \<and> tc_waiting k = Some msg")
  case False
  then show ?thesis using inv st by (auto split: option.splits)
next
  case True
  then obtain k msg where k: "map_of (ds_conns s) c = Some k" "tc_waiting k = Some msg" by blast
  obtain r fw where h: "handle_tcp_answer records now now msg raw (ds_fw s) = (r, fw)"
    by (cases "handle_tcp_answer records now now msg raw (ds_fw s)")
  note F = handle_tcp_answer_frame[OF h, of "ds_relayed s"]
  have ok: "pools_ok s" "queries_ok s" "cache_ok (fw_cache (ds_fw s)) (ds_relayed s)"
    using inv by (simp_all add: dns_inv_def)
  have fw: "fw_tcp_conns fw = fw_tcp_conns (ds_fw s)" "\<And>x. ip_conns fw x = ip_conns (ds_fw s) x"
    "fw_inflight fw = fw_inflight (ds_fw s) + 1" "fw_allowed_prefix fw = fw_allowed_prefix (ds_fw s)"
    using F by (simp_all add: same_pools_def ip_conns_def)
  show ?thesis
  proof (cases r)
    case None
    then have s': "s' = s\<lparr>ds_fw := tcp_closed (fst (tc_peer k)) fw, ds_conns := hdel c (ds_conns s)\<rparr>"
      using st k h by simp
    have "pools_ok s'" unfolding s' using ok k fw by (intro close_pools) auto
    moreover have "queries_ok s'" unfolding s' using ok fw by (intro close_queries) auto
    ultimately show ?thesis using F ok None by (simp add: dns_inv_def s' tcp_closed_frame)
  next
    case (Some resp)
    define k' where "k' = k\<lparr>tc_waiting := None\<rparr>"
    define s1 where "s1 = s\<lparr>ds_fw := fw, ds_conns := hupd c k' (ds_conns s)\<rparr>"
    have s': "s' = s1\<lparr>ds_relayed := relayed msg (accept_query msg) resp now @ ds_relayed s\<rparr>"
      using st k h Some by (auto simp: k'_def s1_def)
    have "pools_ok s1" unfolding s1_def using ok k fw by (intro update_pools[where k = k]) (auto simp: k'_def)
    moreover have "queries_ok s1" unfolding s1_def using ok k fw by (intro update_queries[where k = k]) (auto simp: k'_def)
    ultimately have "pools_ok s'" "queries_ok s'" by (simp_all add: s' pools_ok_def queries_ok_def)
    then show ?thesis using F ok Some by (simp add: dns_inv_def s' s1_def)
  qed
qed

lemma tcp_close_inv:
  assumes inv: "dns_inv s" and st: "dns_step records now (TcpClose c) s = (out, s')"
  shows "dns_inv s'"
proof (cases "\<exists>k. map_of (ds_conns s) c = Some k \<and> tc_waiting k = None")
  case False
  then show ?thesis using inv st by (auto split: option.splits)
next
  case True
  then obtain k where k: "map_of (ds_conns s) c = Some k" "tc_waiting k = None" by blast
  then have s': "s' = s\<lparr>ds_fw := tcp_closed (fst (tc_peer k)) (ds_fw s), ds_conns := hdel c (ds_conns s)\<rparr>"
    using st by simp
  have "pools_ok s'" unfolding s' using inv k by (intro close_pools) (auto simp: dns_inv_def)
  moreover have "queries_ok s'" unfolding s' using inv by (intro close_queries) (auto simp: dns_inv_def)
  ultimately show ?thesis using inv by (simp add: dns_inv_def s' tcp_closed_frame)
qed

lemma dns_step_inv:
  assumes "dns_inv s" "dns_step records now ev s = (out, s')"
  shows "dns_inv s'"
  using assms
  by (cases ev) (blast intro: udp_in_inv udp_run_inv udp_answer_inv tcp_accept_inv tcp_msg_inv tcp_answer_inv tcp_close_inv)+

lemma dns_new_inv: "dns_inv (dns_new b)"
  by (simp add: dns_inv_def pools_ok_def queries_ok_def cache_ok_def dns_new_def fw_new_def ip_conns_def get_or_default_def)

lemma dns_run_inv: "dns_inv s \<Longrightarrow> dns_run records evs s = (sent, s') \<Longrightarrow> dns_inv s'"
proof (induction evs arbitrary: s sent)
  case (Cons e evs)
  obtain ev now where e: "e = (ev, now)" by (cases e)
  obtain out s1 where st: "dns_step records now ev s = (out, s1)" by (cases "dns_step records now ev s")
  obtain sent1 where "dns_run records evs s1 = (sent1, s')"
    using Cons.prems(2) st by (auto simp: e split: prod.splits)
  then show ?case using Cons.IH dns_step_inv[OF Cons.prems(1) st] by blast
qed simp

section \<open>Replies\<close>

fun resolver_answer :: "dns_event \<Rightarrow> bytes option" where
  "resolver_answer (UdpAnswer i raw) = upstream_udp raw"
| "resolver_answer (TcpAnswer c raw) = upstream_tcp raw"
| "resolver_answer ev = None"

definition cached_reply :: "instant \<Rightarrow> (bytes \<times> bytes \<times> instant) list \<Rightarrow> bytes \<Rightarrow> bytes \<Rightarrow> bool" where
  "cached_reply now rel query reply \<longleftrightarrow>
     (\<exists>q cached t. accept_query query = Some q \<and> (qkey query (qn_end q), cached, t) \<in> set rel \<and>
        now < t + CACHE_MAX_TTL \<and> reply = serve_from_cache cached query (qn_end q))"

lemma cached_replyI:
  assumes "cache_ok m rel"
    and "\<exists>q cached expiry. accept_query query = Some q \<and> map_of m (qkey query (qn_end q)) = Some (cached, expiry) \<and>
      now < expiry \<and> out = serve_from_cache cached query (qn_end q)"
  shows "cached_reply now rel query out"
proof -
  from assms(2) obtain q cached expiry where h: "accept_query query = Some q"
    "map_of m (qkey query (qn_end q)) = Some (cached, expiry)" "now < expiry" "out = serve_from_cache cached query (qn_end q)" by blast
  from assms(1) h(2) obtain t where "(qkey query (qn_end q), cached, t) \<in> set rel" "expiry \<le> t + CACHE_MAX_TTL"
    unfolding cache_ok_def by blast
  then show ?thesis unfolding cached_reply_def using h by (intro exI[of _ q] exI[of _ cached] exI[of _ t]) auto
qed

definition reply_ok :: "instant \<Rightarrow> dns_event \<Rightarrow> dns_sys \<Rightarrow> sock_addr \<Rightarrow> bytes \<Rightarrow> bytes \<Rightarrow> bool" where
  "reply_ok now ev s dst query reply \<longleftrightarrow>
     query_ok (ds_fw s) (fst dst) query \<and> (resolver_answer ev = Some reply \<or> cached_reply now (ds_relayed s) query reply)"

lemma udp_run_reply:
  assumes inv: "dns_inv s" and st: "dns_step records now (UdpRun i) s = (out, s')" and r: "ToGuest dst query reply \<in> set out"
  shows "reply_ok now (UdpRun i) s dst query reply"
proof -
  define t where "t = ds_tasks s ! i"
  obtain r fw where q: "start_query now (ut_query t) (ut_question t) (ds_fw s) = (r, fw)"
    by (cases "start_query now (ut_query t) (ut_question t) (ds_fw s)")
  from st r q have i: "i < length (ds_tasks s)" and e: "dst = ut_src t" "query = ut_query t" "r = QReply reply"
    by (auto simp: Let_def t_def split: if_splits outcome.splits)
  have "t \<in> set (ds_tasks s)" using i by (simp add: t_def)
  then have t: "query_ok (ds_fw s) (fst (ut_src t)) (ut_query t)" "ut_question t = accept_query (ut_query t)"
    using inv by (simp_all add: dns_inv_def queries_ok_def)
  have "cached_reply now (ds_relayed s) query reply"
    using start_query_frame(3)[OF q e(3)] inv by (intro cached_replyI[of "fw_cache (ds_fw s)"]) (simp_all add: dns_inv_def t e)
  then show ?thesis using t e by (simp add: reply_ok_def)
qed

lemma udp_answer_reply:
  assumes inv: "dns_inv s" and st: "dns_step records now (UdpAnswer i raw) s = (out, s')" and r: "ToGuest dst query reply \<in> set out"
  shows "reply_ok now (UdpAnswer i raw) s dst query reply"
    and "ds_relayed s' = relayed query (accept_query query) reply now @ ds_relayed s"
proof -
  define t where "t = ds_waiting s ! i"
  obtain x fw where a: "handle_udp_answer records now now t raw (ds_fw s) = (x, fw)"
    by (cases "handle_udp_answer records now now t raw (ds_fw s)")
  from st r a have i: "i < length (ds_waiting s)" and e: "dst = ut_src t" "query = ut_query t" "x = Some reply"
    and rel: "ds_relayed s' = relayed (ut_query t) (ut_question t) reply now @ ds_relayed s"
    by (auto simp: Let_def t_def split: if_splits option.splits)
  have "t \<in> set (ds_waiting s)" using i by (simp add: t_def)
  then have t: "query_ok (ds_fw s) (fst (ut_src t)) (ut_query t)" "ut_question t = accept_query (ut_query t)"
    using inv by (simp_all add: dns_inv_def queries_ok_def)
  show "reply_ok now (UdpAnswer i raw) s dst query reply"
    using handle_udp_answer_frame[OF a] e t by (simp add: reply_ok_def)
  show "ds_relayed s' = relayed query (accept_query query) reply now @ ds_relayed s" using rel t e by simp
qed

lemma tcp_msg_reply:
  assumes inv: "dns_inv s" and st: "dns_step records now (TcpMsg c msg) s = (out, s')" and r: "ToGuest dst query reply \<in> set out"
  shows "reply_ok now (TcpMsg c msg) s dst query reply"
proof -
  from st r obtain k fw where k: "map_of (ds_conns s) c = Some k"
    and h: "handle_tcp_msg now (fst (tc_peer k)) (tc_count k) msg (ds_fw s) = (QReply reply, fw)"
    and e: "dst = tc_peer k" "query = msg"
    by (auto split: option.splits if_splits outcome.splits prod.splits)
  note F = handle_tcp_msg_frame[OF h]
  have "query_ok (ds_fw s) (fst dst) query"
    using F(3) inv k e by (auto simp: query_ok_def dns_inv_def queries_ok_def)
  moreover have "cached_reply now (ds_relayed s) query reply"
    using F(4) inv e by (intro cached_replyI[of "fw_cache (ds_fw s)"]) (simp_all add: dns_inv_def)
  ultimately show ?thesis by (simp add: reply_ok_def)
qed

lemma tcp_answer_reply:
  assumes inv: "dns_inv s" and st: "dns_step records now (TcpAnswer c raw) s = (out, s')" and r: "ToGuest dst query reply \<in> set out"
  shows "reply_ok now (TcpAnswer c raw) s dst query reply"
    and "ds_relayed s' = relayed query (accept_query query) reply now @ ds_relayed s"
proof -
  from st r obtain k fw where k: "map_of (ds_conns s) c = Some k" "tc_waiting k = Some query"
    and h: "handle_tcp_answer records now now query raw (ds_fw s) = (Some reply, fw)"
    and e: "dst = tc_peer k"
    by (auto split: option.splits prod.splits)
  have "query_ok (ds_fw s) (fst dst) query" using inv k e by (simp add: dns_inv_def queries_ok_def)
  then show "reply_ok now (TcpAnswer c raw) s dst query reply"
    using handle_tcp_answer_frame[OF h] by (simp add: reply_ok_def)
  show "ds_relayed s' = relayed query (accept_query query) reply now @ ds_relayed s"
    using st k h by auto
qed

lemma quiet_events:
  "dns_step records now (UdpIn src d) s = (out, s') \<Longrightarrow> out = [] \<and> ds_relayed s' = ds_relayed s"
  "dns_step records now (TcpAccept c peer) s = (out, s') \<Longrightarrow> out = [] \<and> ds_relayed s' = ds_relayed s"
  "dns_step records now (TcpClose c) s = (out, s') \<Longrightarrow> out = [] \<and> ds_relayed s' = ds_relayed s"
  by (auto split: option.splits prod.splits if_splits bool.splits)

lemma dns_step_reply:
  assumes "dns_inv s" "dns_step records now ev s = (out, s')" "ToGuest dst query reply \<in> set out"
  shows "reply_ok now ev s dst query reply"
proof (cases ev)
  case UdpIn then show ?thesis using assms quiet_events(1) by fastforce
next
  case UdpRun then show ?thesis using assms udp_run_reply by simp
next
  case UdpAnswer then show ?thesis using assms udp_answer_reply(1) by simp
next
  case TcpAccept then show ?thesis using assms quiet_events(2) by fastforce
next
  case TcpMsg then show ?thesis using assms tcp_msg_reply by simp
next
  case TcpAnswer then show ?thesis using assms tcp_answer_reply(1) by simp
next
  case TcpClose then show ?thesis using assms quiet_events(3) by fastforce
qed

text \<open>A row is added exactly when an answer is relayed.\<close>

lemma dns_step_relayed:
  assumes inv: "dns_inv s" and st: "dns_step records now ev s = (out, s')"
  shows "ds_relayed s' = ds_relayed s \<or>
    (\<exists>dst query reply. ToGuest dst query reply \<in> set out \<and> resolver_answer ev = Some reply \<and>
       ds_relayed s' = relayed query (accept_query query) reply now @ ds_relayed s)"
proof (cases ev)
  case (UdpIn src d) then show ?thesis using st quiet_events(1) by blast
next
  case (TcpAccept c peer) then show ?thesis using st quiet_events(2) by blast
next
  case (TcpClose c) then show ?thesis using st quiet_events(3) by blast
next
  case (UdpRun i)
  then show ?thesis using st by (auto simp: Let_def split: if_splits prod.splits outcome.splits)
next
  case (TcpMsg c msg)
  then show ?thesis using st by (auto split: option.splits if_splits prod.splits outcome.splits)
next
  case (UdpAnswer i raw)
  show ?thesis
  proof (cases "ds_relayed s' = ds_relayed s")
    case False
    with st UdpAnswer obtain reply
      where o: "ToGuest (ut_src (ds_waiting s ! i)) (ut_query (ds_waiting s ! i)) reply \<in> set out"
      and h: "handle_udp_answer records now now (ds_waiting s ! i) raw (ds_fw s) = (Some reply, ds_fw s')"
      by (auto simp: Let_def split: if_splits option.splits prod.splits)
    have "resolver_answer ev = Some reply" using handle_udp_answer_frame[OF h] UdpAnswer by simp
    then show ?thesis using o udp_answer_reply(2)[OF inv st[unfolded UdpAnswer] o] by blast
  qed simp
next
  case (TcpAnswer c raw)
  show ?thesis
  proof (cases "ds_relayed s' = ds_relayed s")
    case False
    with st TcpAnswer obtain query reply
      where o: "ToGuest (tc_peer (the (map_of (ds_conns s) c))) query reply \<in> set out"
      and h: "handle_tcp_answer records now now query raw (ds_fw s) = (Some reply, ds_fw s')"
      by (auto split: option.splits prod.splits)
    have "resolver_answer ev = Some reply" using handle_tcp_answer_frame[OF h] TcpAnswer by simp
    then show ?thesis using o tcp_answer_reply(2)[OF inv st[unfolded TcpAnswer] o] by blast
  qed simp
qed

end
