(* ===== verification/Dns_Runs.thy ===== *)
theory Dns_Runs
  imports Dns_Inv
begin

text \<open>
  Runs of the DNS forwarder: the query budget of an address as a limiter in the sense of \<open>L4_Egress\<close>,
  and the properties of every run.
\<close>

section \<open>The query budget of an address\<close>

text \<open>The tokens of an address at an instant, as the next \<open>allow\<close> would find them.\<close>

definition il_level :: "ip_limiter \<Rightarrow> ip_addr \<Rightarrow> instant \<Rightarrow> real" where
  "il_level l ip t =
     (case map_of (il_buckets l) ip of
        None \<Rightarrow> il_burst l
      | Some (tokens, since) \<Rightarrow> min (tokens + as_secs_f64 (t - since) * il_rate_per_sec l) (il_burst l))"

definition il_ok :: "ip_limiter \<Rightarrow> instant \<Rightarrow> bool" where
  "il_ok l t \<longleftrightarrow> il_rate_per_sec l = PER_IP_RATE_PER_SEC \<and> il_burst l = PER_IP_BURST \<and>
     (\<forall>ip tokens since. map_of (il_buckets l) ip = Some (tokens, since) \<longrightarrow> 0 \<le> tokens \<and> since \<le> t)"

lemmas per_ip_defs = PER_IP_RATE_PER_SEC_def PER_IP_BURST_def

lemma as_secs_nonneg: "0 \<le> as_secs_f64 d"
  by (simp add: as_secs_f64_def)

lemma il_level_nonneg: "il_ok l t \<Longrightarrow> 0 \<le> il_level l ip t"
  by (auto simp: il_ok_def il_level_def per_ip_defs as_secs_nonneg split: option.splits)

lemma il_ok_later: "il_ok l t \<Longrightarrow> t \<le> now \<Longrightarrow> il_ok l now"
  unfolding il_ok_def by (meson le_trans)

lemma il_level_later:
  assumes "il_ok l t" "t \<le> now"
  shows "il_level l ip now \<le> il_level l ip t + as_secs_f64 (now - t) * PER_IP_RATE_PER_SEC"
proof (cases "map_of (il_buckets l) ip")
  case None
  then show ?thesis by (simp add: il_level_def per_ip_defs as_secs_nonneg)
next
  case (Some b)
  obtain tokens since where b: "b = (tokens, since)" by (cases b)
  have "since \<le> t" "il_rate_per_sec l = PER_IP_RATE_PER_SEC" using assms(1) Some b by (auto simp: il_ok_def)
  moreover obtain d where "as_secs_f64 (now - t) = d" "0 \<le> d" "as_secs_f64 (now - since) = d + as_secs_f64 (t - since)"
    using as_secs_f64_diff[OF \<open>since \<le> t\<close> assms(2)] as_secs_nonneg[of "now - t"] by simp
  ultimately show ?thesis
    using Some b by (simp add: il_level_def min_def per_ip_defs algebra_simps)
qed

lemma il_allow_level:
  assumes "il_ok l t" "t \<le> now" "il_allow ip now l = (ok, l')"
  shows "il_ok l' now" "il_level l' ip now + (if ok then 1 else 0) = il_level l ip now" "x \<noteq> ip \<Longrightarrow> il_level l' x now = il_level l x now"
proof -
  have l: "il_ok l now" using il_ok_later assms by blast
  then have nn: "0 \<le> il_level l ip now" by (rule il_level_nonneg)
  have ok: "ok \<longleftrightarrow> 1 \<le> il_level l ip now"
    and l': "l' = l\<lparr>il_buckets := hupd ip (il_level l ip now - (if ok then 1 else 0), now) (il_buckets l)\<rparr>"
    using assms(3) by (auto simp: il_allow_def il_level_def Let_def as_secs_f64_def split: option.splits if_splits prod.splits)
  show "il_ok l' now" using l nn ok unfolding il_ok_def l' by auto
  show "il_level l' ip now + (if ok then 1 else 0) = il_level l ip now"
    using l nn unfolding l' by (auto simp: il_level_def as_secs_f64_def split: option.splits)
  show "x \<noteq> ip \<Longrightarrow> il_level l' x now = il_level l x now"
    unfolding l' by (simp add: il_level_def split: option.split)
qed

text \<open>What one event may do to the limiter: nothing, or one \<open>allow\<close> that a spent token requires.\<close>

definition spends :: "instant \<Rightarrow> ip_addr \<Rightarrow> bool \<Rightarrow> ip_limiter \<Rightarrow> ip_limiter \<Rightarrow> bool" where
  "spends now ip used l l' \<longleftrightarrow> (l' = l \<and> \<not> used) \<or> (\<exists>ok. il_allow ip now l = (ok, l') \<and> (used \<longrightarrow> ok))"

lemma spends_level:
  assumes "il_ok l t" "t \<le> now" "spends now ip used l l'"
  shows "il_ok l' now" "il_level l' x now + (if used \<and> x = ip then 1 else 0) \<le> il_level l x t + as_secs_f64 (now - t) * PER_IP_RATE_PER_SEC"
proof -
  have "il_ok l' now \<and> il_level l' x now + (if used \<and> x = ip then 1 else 0) \<le> il_level l x now"
  proof (cases "l' = l \<and> \<not> used")
    case True
    then show ?thesis using il_ok_later[OF assms(1,2)] by simp
  next
    case False
    then obtain ok where a: "il_allow ip now l = (ok, l')" "used \<longrightarrow> ok" using assms(3) by (auto simp: spends_def)
    show ?thesis using il_allow_level[OF assms(1,2) a(1)] a(2) by (cases ok; cases "x = ip") auto
  qed
  then show "il_ok l' now" "il_level l' x now + (if used \<and> x = ip then 1 else 0) \<le> il_level l x t + as_secs_f64 (now - t) * PER_IP_RATE_PER_SEC"
    using il_level_later[OF assms(1,2), of x] by simp_all
qed

lemma udp_recv_spends:
  "udp_recv now src d fw = (t, fw') \<Longrightarrow> spends now (fst src) (t \<noteq> None) (fw_rate fw) (fw_rate fw')"
  by (auto simp: udp_recv_def spends_def Let_def split: if_splits prod.splits)

lemma tcp_accept_spends:
  "tcp_accept now ip fw = (ok, fw') \<Longrightarrow> spends now ip False (fw_rate fw) (fw_rate fw')"
  by (auto simp: tcp_accept_def spends_def Let_def drop_tcp_ip_frame split: if_splits prod.splits bool.splits
      dest!: acquire_tcp_ip_frame(3))

lemma handle_tcp_msg_spends:
  "handle_tcp_msg now ip n msg fw = (r, fw') \<Longrightarrow> spends now ip (r = QWait) (fw_rate fw) (fw_rate fw')"
  by (auto simp: handle_tcp_msg_def spends_def Let_def split: if_splits prod.splits dest!: start_query_frame(1))

text \<open>
  The budget of an address: its tokens, and the spawned tasks that have paid but not yet asked.
\<close>

definition task_count :: "ip_addr \<Rightarrow> dns_sys \<Rightarrow> nat" where
  "task_count ip s = length (filter (\<lambda>t. fst (ut_src t) = ip) (ds_tasks s))"

definition query_level :: "ip_addr \<Rightarrow> dns_sys \<times> instant \<Rightarrow> real" where
  "query_level ip st = il_level (fw_rate (ds_fw (fst st))) ip (snd st) + real (task_count ip (fst st))"

fun asks :: "ip_addr \<Rightarrow> dns_out list \<Rightarrow> bool" where
  "asks ip [ToUpstream x query] \<longleftrightarrow> x = ip"
| "asks ip out = False"

definition dns_take :: "dns_records \<Rightarrow> ip_addr \<Rightarrow> dns_event \<Rightarrow> instant \<Rightarrow> dns_sys \<times> instant \<Rightarrow> bool \<times> dns_sys \<times> instant" where
  "dns_take records ip ev now st =
     (case dns_step records now ev (fst st) of (out, s') \<Rightarrow> (asks ip out, s', now))"

lemma count_list_remove:
  "i < length xs \<Longrightarrow> length (filter P xs) = length (filter P (list_remove i xs)) + (if P (xs ! i) then 1 else 0)"
  using arg_cong[OF id_take_nth_drop[of i xs], of "\<lambda>ys. length (filter P ys)"]
  by (simp add: list_remove_def del: append_take_drop_id)

definition step_spends :: "dns_records \<Rightarrow> ip_addr \<Rightarrow> instant \<Rightarrow> dns_sys \<Rightarrow> dns_out list \<Rightarrow> dns_sys \<Rightarrow> bool" where
  "step_spends records ip now s out s' \<longleftrightarrow>
     (\<exists>x used. spends now x used (fw_rate (ds_fw s)) (fw_rate (ds_fw s')) \<and>
        task_count ip s' + (if asks ip out then 1 else 0) \<le> task_count ip s + (if used \<and> x = ip then 1 else 0))"

lemma step_spends_quiet:
  "fw_rate (ds_fw s') = fw_rate (ds_fw s) \<Longrightarrow> task_count ip s' + (if asks ip out then 1 else 0) \<le> task_count ip s \<Longrightarrow>
   step_spends records ip now s out s'"
  unfolding step_spends_def spends_def by (intro exI[of _ False] exI) simp

lemma udp_run_spends:
  assumes st: "dns_step records now (UdpRun i) s = (out, s')"
  shows "step_spends records ip now s out s'"
proof (cases "i < length (ds_tasks s)")
  case False
  then show ?thesis using st by (intro step_spends_quiet) auto
next
  case True
  obtain r fw where q: "start_query now (ut_query (ds_tasks s ! i)) (ut_question (ds_tasks s ! i)) (ds_fw s) = (r, fw)"
    by (cases "start_query now (ut_query (ds_tasks s ! i)) (ut_question (ds_tasks s ! i)) (ds_fw s)")
  show ?thesis
    using st True q start_query_frame(1)[OF q] count_list_remove[OF True, of "\<lambda>t. fst (ut_src t) = ip"]
    by (intro step_spends_quiet) (auto simp: Let_def task_count_def split: outcome.splits)
qed

lemma answers_spend_nothing:
  "dns_step records now (UdpAnswer i raw) s = (out, s') \<Longrightarrow> step_spends records ip now s out s'"
  "dns_step records now (TcpAnswer c raw) s = (out, s') \<Longrightarrow> step_spends records ip now s out s'"
  "dns_step records now (TcpClose c) s = (out, s') \<Longrightarrow> step_spends records ip now s out s'"
  by (auto intro!: step_spends_quiet simp: Let_def task_count_def tcp_closed_frame split: if_splits option.splits prod.splits
      dest!: handle_udp_answer_frame handle_tcp_answer_frame)

lemma dns_step_spends:
  assumes st: "dns_step records now ev s = (out, s')"
  shows "step_spends records ip now s out s'"
proof (cases ev)
  case (UdpIn src d)
  obtain t fw where r: "udp_recv now src d (ds_fw s) = (t, fw)" by (cases "udp_recv now src d (ds_fw s)")
  have "task_count ip s' + (if asks ip out then 1 else 0) \<le> task_count ip s + (if t \<noteq> None \<and> fst src = ip then 1 else 0)
     \<and> fw_rate (ds_fw s') = fw_rate fw"
    using st UdpIn r udp_recv_frame(3)[OF r] by (cases t) (auto simp: task_count_def)
  then show ?thesis unfolding step_spends_def using udp_recv_spends[OF r] by (intro exI[of _ "t \<noteq> None"] exI[of _ "fst src"]) simp
next
  case (UdpRun i) then show ?thesis using st udp_run_spends by simp
next
  case (TcpAccept c peer)
  obtain ok fw where a: "tcp_accept now (fst peer) (ds_fw s) = (ok, fw)" by (cases "tcp_accept now (fst peer) (ds_fw s)")
  have "task_count ip s' + (if asks ip out then 1 else 0) = task_count ip s \<and> (s' = s \<or> fw_rate (ds_fw s') = fw_rate fw)"
    using st TcpAccept a by (cases ok) (auto simp: task_count_def split: if_splits)
  then show ?thesis unfolding step_spends_def using tcp_accept_spends[OF a]
    by (intro exI[of _ False] exI[of _ "fst peer"]) (auto simp: spends_def)
next
  case (TcpMsg c msg)
  show ?thesis
  proof (cases "\<exists>k. map_of (ds_conns s) c = Some k \<and> tc_waiting k = None")
    case False
    then show ?thesis using st TcpMsg by (intro step_spends_quiet) (auto split: option.splits)
  next
    case True
    then obtain k where k: "map_of (ds_conns s) c = Some k" "tc_waiting k = None" by blast
    obtain r fw where h: "handle_tcp_msg now (fst (tc_peer k)) (tc_count k) msg (ds_fw s) = (r, fw)"
      by (cases "handle_tcp_msg now (fst (tc_peer k)) (tc_count k) msg (ds_fw s)")
    have "task_count ip s' + (if asks ip out then 1 else 0) \<le> task_count ip s + (if r = QWait \<and> fst (tc_peer k) = ip then 1 else 0)
       \<and> fw_rate (ds_fw s') = fw_rate fw"
      using st TcpMsg k h by (cases r) (auto simp: task_count_def tcp_closed_frame)
    then show ?thesis unfolding step_spends_def using handle_tcp_msg_spends[OF h]
      by (intro exI[of _ "r = QWait"] exI[of _ "fst (tc_peer k)"]) simp
  qed
qed (use st answers_spend_nothing in simp_all)

interpretation dns: rate_limiter "dns_take records ip" "\<lambda>_ :: dns_event. 1"
  "\<lambda>st. il_ok (fw_rate (ds_fw (fst st))) (snd st)" "query_level ip" PER_IP_RATE_PER_SEC snd
  for records ip
proof (unfold_locales, goal_cases)
  case (1 st)
  then show ?case by (simp add: query_level_def il_level_nonneg)
next
  case (2 st ev now)
  obtain out s' where st: "dns_step records now ev (fst st) = (out, s')" by (cases "dns_step records now ev (fst st)")
  from dns_step_spends[OF st] 2 spends_level(1) show ?case
    unfolding step_spends_def by (fastforce simp: dns_take_def st)
next
  case (3 st now ev)
  then show ?case by (simp add: dns_take_def split: prod.splits)
next
  case (4 st ev now)
  obtain out s' where st: "dns_step records now ev (fst st) = (out, s')" by (cases "dns_step records now ev (fst st)")
  from dns_step_spends[OF st, of ip] obtain x used
    where sp: "spends now x used (fw_rate (ds_fw (fst st))) (fw_rate (ds_fw s'))"
      and tc: "task_count ip s' + (if asks ip out then 1 else 0) \<le> task_count ip (fst st) + (if used \<and> x = ip then 1 else 0)"
    unfolding step_spends_def by blast
  show ?case using spends_level(2)[OF 4(1,3) sp, of ip] tc
    by (auto simp: dns_take_def st query_level_def split: if_splits)
qed

section \<open>Runs\<close>

lemma handle_frame_prefix:
  "udp_recv now src d fw = (t, fw') \<Longrightarrow> fw_allowed_prefix fw' = fw_allowed_prefix fw"
  "start_query now query question fw = (r, fw') \<Longrightarrow> fw_allowed_prefix fw' = fw_allowed_prefix fw"
  "handle_udp_answer records now now task raw fw = (a, fw') \<Longrightarrow> fw_allowed_prefix fw' = fw_allowed_prefix fw"
  "handle_tcp_answer records now now msg raw fw = (a, fw') \<Longrightarrow> fw_allowed_prefix fw' = fw_allowed_prefix fw"
  "tcp_accept now ip fw = (ok, fw') \<Longrightarrow> fw_allowed_prefix fw' = fw_allowed_prefix fw"
  "handle_tcp_msg now ip n msg fw = (r, fw') \<Longrightarrow> fw_allowed_prefix fw' = fw_allowed_prefix fw"
  using udp_recv_frame(1)[of now src d fw t fw'] start_query_frame(1)[of now query question fw r fw']
    handle_udp_answer_frame[of records now task raw fw a fw'] handle_tcp_answer_frame[of records now msg raw fw a fw']
    tcp_accept_frame(1)[of now ip fw ok fw'] handle_tcp_msg_frame(1)[of now ip n msg fw r fw']
  by (simp_all add: same_pools_def)

lemma dns_step_prefix:
  "dns_step records now ev s = (out, s') \<Longrightarrow> fw_allowed_prefix (ds_fw s') = fw_allowed_prefix (ds_fw s)"
  by (cases ev) (auto simp: Let_def tcp_closed_frame split: if_splits option.splits prod.splits outcome.splits bool.splits
      dest!: handle_frame_prefix)

lemma dns_run_Cons:
  assumes "dns_run records ((ev, now) # evs) s = (sent, s')"
  obtains out s1 sent1 where "dns_step records now ev s = (out, s1)" "dns_run records evs s1 = (sent1, s')"
    "sent = map (Pair now) out @ sent1"
  using assms by (auto split: prod.splits)

lemma dns_run_prefix:
  "dns_run records evs s = (sent, s') \<Longrightarrow> fw_allowed_prefix (ds_fw s') = fw_allowed_prefix (ds_fw s)"
proof (induction evs arbitrary: s sent)
  case (Cons e evs)
  obtain ev now where e: "e = (ev, now)" by (cases e)
  from Cons.prems[unfolded e] show ?case
    by (rule dns_run_Cons) (use Cons.IH dns_step_prefix in fastforce)
qed simp

text \<open>An answer of the resolver that the log shows going out, under the key of its question.\<close>

definition logged :: "(dns_event \<times> instant) list \<Rightarrow> (instant \<times> dns_out) list \<Rightarrow> bytes \<Rightarrow> bytes \<Rightarrow> instant \<Rightarrow> bool" where
  "logged evs sent k resp t \<longleftrightarrow>
     (\<exists>dst query q ev. (t, ToGuest dst query resp) \<in> set sent \<and> (ev, t) \<in> set evs \<and> resolver_answer ev = Some resp \<and>
        accept_query query = Some q \<and> k = qkey query (qn_end q))"

lemma logged_later: "logged evs sent k resp t \<Longrightarrow> logged (e # evs) (xs @ sent) k resp t"
  unfolding logged_def by fastforce

lemma relayed_logged:
  "dns_inv s \<Longrightarrow> dns_run records evs s = (sent, s') \<Longrightarrow> (k, resp, t) \<in> set (ds_relayed s') \<Longrightarrow>
   (k, resp, t) \<in> set (ds_relayed s) \<or> logged evs sent k resp t"
proof (induction evs arbitrary: s sent)
  case (Cons e evs)
  obtain ev now where e: "e = (ev, now)" by (cases e)
  from Cons.prems(2)[unfolded e] obtain out s1 sent1 where st: "dns_step records now ev s = (out, s1)"
    and rn: "dns_run records evs s1 = (sent1, s')" and sent: "sent = map (Pair now) out @ sent1" by (rule dns_run_Cons)
  have inv1: "dns_inv s1" using dns_step_inv[OF Cons.prems(1) st] .
  from Cons.IH[OF inv1 rn Cons.prems(3)] show ?case
  proof
    assume "logged evs sent1 k resp t"
    then show ?thesis by (simp add: sent logged_later)
  next
    assume row: "(k, resp, t) \<in> set (ds_relayed s1)"
    show ?thesis
    proof (cases "ds_relayed s1 = ds_relayed s")
      case True
      then show ?thesis using row by simp
    next
      case False
      then obtain dst query reply where o: "ToGuest dst query reply \<in> set out" "resolver_answer ev = Some reply"
        "ds_relayed s1 = relayed query (accept_query query) reply now @ ds_relayed s"
        using dns_step_relayed[OF Cons.prems(1) st] by blast
      show ?thesis
      proof (cases "(k, resp, t) \<in> set (ds_relayed s)")
        case nw: False
        then obtain q where q: "accept_query query = Some q" "k = qkey query (qn_end q)" "resp = reply" "t = now"
          using row o(3) by (auto simp: relayed_def split: option.splits)
        then have "logged (e # evs) sent k resp t"
          unfolding logged_def using o(1,2) by (intro exI[of _ dst] exI[of _ query] exI[of _ q] exI[of _ ev]) (auto simp: e sent)
        then show ?thesis ..
      qed simp
    qed
  qed
qed simp

lemma accepted_question: "accept_query m = Some q \<Longrightarrow> parse_question m = Some q"
  by (simp add: accept_query_def split: if_splits)

section \<open>The properties\<close>

text \<open>
  C22. Every reply the forwarder sends goes to an address of its bridge network, in answer to a message
  that is not itself a response; and it is the answer the resolver just gave for it, or a cached one:
  an answer the resolver gave, and the forwarder relayed, earlier in the run and less than an hour
  ago, to a question of the same key and so of the same name, with the id and the question of the
  asker written over it.
\<close>

theorem dns_replies_sound:
  assumes run: "dns_run records evs (dns_new b) = (sent, s)"
    and st: "dns_step records now ev s = (out, s')" and r: "ToGuest dst query reply \<in> set out"
  shows "src_in_prefix (fst dst) (fw_allowed_prefix (fw_new b)) \<and> \<not> is_response query \<and>
    (resolver_answer ev = Some reply \<or>
     (\<exists>t dst' query' cached ev' q q'.
        (t, ToGuest dst' query' cached) \<in> set sent \<and> (ev', t) \<in> set evs \<and> resolver_answer ev' = Some cached \<and>
        now < t + CACHE_MAX_TTL \<and> accept_query query = Some q \<and> accept_query query' = Some q' \<and>
        qkey query (qn_end q) = qkey query' (qn_end q') \<and> qn_name q = qn_name q' \<and>
        reply = serve_from_cache cached query (qn_end q)))"
proof -
  have inv: "dns_inv s" using dns_run_inv[OF dns_new_inv run] .
  have rok: "reply_ok now ev s dst query reply" using dns_step_reply[OF inv st r] .
  have pre: "fw_allowed_prefix (ds_fw s) = fw_allowed_prefix (fw_new b)"
    using dns_run_prefix[OF run] by (simp add: dns_new_def)
  have "resolver_answer ev = Some reply \<or>
     (\<exists>t dst' query' cached ev' q q'.
        (t, ToGuest dst' query' cached) \<in> set sent \<and> (ev', t) \<in> set evs \<and> resolver_answer ev' = Some cached \<and>
        now < t + CACHE_MAX_TTL \<and> accept_query query = Some q \<and> accept_query query' = Some q' \<and>
        qkey query (qn_end q) = qkey query' (qn_end q') \<and> qn_name q = qn_name q' \<and>
        reply = serve_from_cache cached query (qn_end q))"
  proof (cases "resolver_answer ev = Some reply")
    case False
    then obtain q cached t where q: "accept_query query = Some q" "(qkey query (qn_end q), cached, t) \<in> set (ds_relayed s)"
      "now < t + CACHE_MAX_TTL" "reply = serve_from_cache cached query (qn_end q)"
      using rok unfolding reply_ok_def cached_reply_def by blast
    from relayed_logged[OF dns_new_inv run q(2)] obtain dst' query' q' ev'
      where l: "(t, ToGuest dst' query' cached) \<in> set sent" "(ev', t) \<in> set evs" "resolver_answer ev' = Some cached"
        "accept_query query' = Some q'" "qkey query (qn_end q) = qkey query' (qn_end q')"
      by (auto simp: logged_def dns_new_def)
    have "qn_name q = qn_name q'"
      using qkey_determines[OF accepted_question[OF q(1)] accepted_question[OF l(4)] l(5)] by blast
    then show ?thesis using q l by blast
  qed simp
  then show ?thesis using rok pre by (simp add: reply_ok_def query_ok_def src_allowed_def)
qed

text \<open>
  C23. In every run, whatever the order of datagrams, tasks, answers and connections: the permits of the
  resolver pool that are out are exactly the queries waiting for it, the connection slots that are
  out are exactly the open connections, the counts by address are exact and at most 16, and the cache
  holds at most 4096 answers, so no permit leaks on any path, error paths included.
\<close>

theorem dns_pools_exact:
  "pools_ok (snd (dns_run records evs (dns_new b))) \<and>
   length (fw_cache (ds_fw (snd (dns_run records evs (dns_new b))))) \<le> CACHE_MAX_ENTRIES"
proof -
  obtain sent s where r: "dns_run records evs (dns_new b) = (sent, s)" by (cases "dns_run records evs (dns_new b)")
  have "dns_inv s" using dns_run_inv[OF dns_new_inv r] .
  then show ?thesis by (simp add: r dns_inv_def cache_ok_def)
qed

fun to_upstream :: "ip_addr \<Rightarrow> dns_out \<Rightarrow> bool" where
  "to_upstream ip (ToUpstream x query) \<longleftrightarrow> x = ip"
| "to_upstream ip (ToGuest dst query reply) = False"

definition upstream_count :: "ip_addr \<Rightarrow> (instant \<times> dns_out) list \<Rightarrow> nat" where
  "upstream_count ip sent = length (filter (to_upstream ip \<circ> snd) sent)"

lemma dns_step_single: "dns_step records now ev s = (out, s') \<Longrightarrow> out = [] \<or> (\<exists>x. out = [x])"
  by (cases ev) (auto simp: Let_def split: if_splits option.splits prod.splits outcome.splits bool.splits)

lemma step_count:
  assumes "dns_step records now ev s = (out, s')"
  shows "upstream_count ip (map (Pair now) out) = (if asks ip out then 1 else 0)"
  using dns_step_single[OF assms]
proof
  assume "\<exists>x. out = [x]"
  then obtain x where "out = [x]" by blast
  then show ?thesis by (cases x) (simp_all add: upstream_count_def)
qed (simp add: upstream_count_def)

lemma limiter_counts_queries:
  "fst (limiter_run (dns_take records ip) (\<lambda>_. 1) (s, t) evs) = real (upstream_count ip (fst (dns_run records evs s)))"
proof (induction evs arbitrary: s t)
  case Nil
  then show ?case by (simp add: upstream_count_def)
next
  case (Cons e evs)
  obtain ev now where e: "e = (ev, now)" by (cases e)
  obtain out s1 where st: "dns_step records now ev s = (out, s1)" by (cases "dns_step records now ev s")
  have "upstream_count ip (map (Pair now) out @ sent) = (if asks ip out then 1 else 0) + upstream_count ip sent" for sent
    using step_count[OF st, of ip] by (simp add: upstream_count_def)
  then show ?case using Cons[of s1 now] by (simp add: e st dns_take_def split_beta)
qed

text \<open>
  C24. The queries of one address that reach the host's resolver, by UDP and TCP together and over any
  number of connections, are at most 200 plus 50 for each second of the run.
\<close>

theorem dns_rate_bound:
  assumes "chronological t evs"
  shows "real (upstream_count ip (fst (dns_run records evs (dns_new b))))
    \<le> PER_IP_BURST + as_secs_f64 (end_time t evs - t) * PER_IP_RATE_PER_SEC"
proof -
  have "il_ok (fw_rate (ds_fw (dns_new b))) t" "query_level ip (dns_new b, t) = PER_IP_BURST"
    by (simp_all add: il_ok_def dns_new_def fw_new_def il_new_def query_level_def il_level_def task_count_def)
  then show ?thesis
    using dns.run_bound[where ip = ip and records = records and s = "(dns_new b, t)" and rs = evs] assms by (simp add: limiter_counts_queries)
qed

text \<open>A guest asks twice for one name, once in capitals, and gets the relayed answer and then the cached one.\<close>

definition demo_dns_query :: "u8 \<Rightarrow> u8 \<Rightarrow> bytes" where
  "demo_dns_query i letter = [0, i, 1, 0, 0, 1, 0, 0, 0, 0, 0, 0, 1, letter, 0, 0, 1, 0, 1]"

definition demo_dns_answer :: bytes where
  "demo_dns_answer = [0, 7, 0x81, 0x80, 0, 1, 0, 0, 0, 0, 0, 0, 1, 120, 0, 0, 1, 0, 1]"

definition demo_dns_events :: "(dns_event \<times> instant) list" where
  "demo_dns_events =
     [(UdpIn (V4 172 16 0 5, 900) (demo_dns_query 7 120), 10), (UdpRun 0, 11),
      (UdpAnswer 0 (Some demo_dns_answer), 12), (UdpIn (V4 172 16 0 6, 901) (demo_dns_query 9 88), 13)]"

definition demo_dns_records :: dns_records where
  "demo_dns_records resp = Some []"

lemmas demo_dns_defs = demo_dns_query_def demo_dns_answer_def demo_dns_events_def demo_dns_records_def

lemma demo_fw_prefix: "fw_allowed_prefix (fw_new ''172.16.0.1'') = (172, 16, 0)"
  unfolding fw_new_def by code_simp

lemma demo_question:
  "accept_query (demo_dns_query i letter) = Some \<lparr>qn_name = [byte_lower letter], qn_qtype = 1, qn_qclass = 1, qn_end = 19\<rparr>"
  by (simp add: accept_query_def is_response_def qdcount_def parse_question_def demo_dns_query_def parse_name.simps
      DNS_HDR_LEN_def push_label_def name_len_def from_be_def)

lemmas dns_eval = dns_new_def udp_recv_def src_allowed_def demo_question il_allow_def start_query_def lookup_cache_def cache_get_def
  handle_udp_answer_def upstream_udp_def store_answer_def maybe_insert_def cacheable_def min_ttl_def relayed_def list_remove_def
  Let_def MAX_UDP_def DNS_HDR_LEN_def

lemma demo_query_size: "length (demo_dns_query i letter) = 19" "take 4096 (demo_dns_query i letter) = demo_dns_query i letter"
  "length demo_dns_answer = 19" "take 4096 demo_dns_answer = demo_dns_answer" "is_response (demo_dns_query i letter) = False"
  by (simp_all add: demo_dns_defs is_response_def)

lemma demo_keys: "qkey (demo_dns_query 9 88) 19 = qkey (demo_dns_query 7 120) 19"
  by (simp add: qkey_def demo_dns_query_def DNS_HDR_LEN_def byte_lower_def)

lemma demo_cached: "serve_from_cache demo_dns_answer (demo_dns_query 9 88) 19 = demo_dns_answer[1 := 9, 13 := 88]"
  by (simp add: serve_from_cache_def demo_dns_defs DNS_HDR_LEN_def)

lemma demo_cacheable: "demo_dns_answer ! 2 AND 2 = 0" "demo_dns_answer ! 3 AND 15 = 0"
  by (simp_all add: demo_dns_answer_def)

lemma demo_fw: "fw_new ''172.16.0.1'' =
  \<lparr>fw_allowed_prefix = (172, 16, 0), fw_rate = il_new 50 200, fw_inflight = 1024, fw_tcp_conns = 256, fw_tcp_per_ip = [],
   fw_cache = [], fw_q_total = 0, fw_q_dropped = 0, fw_q_cache_hit = 0, fw_q_upstream_err = 0\<rparr>"
  using demo_fw_prefix by (simp add: fw_new_def PER_IP_RATE_PER_SEC_def PER_IP_BURST_def MAX_INFLIGHT_def MAX_TCP_CONNS_def)

lemma demo_dns_reply:
  "fst (dns_step demo_dns_records 14 (UdpRun 0) (snd (dns_run demo_dns_records demo_dns_events (dns_new ''172.16.0.1'')))) =
   [ToGuest (V4 172 16 0 6, 901) (demo_dns_query 9 88) (demo_dns_answer[1 := 9, 13 := 88])]"
  by (simp add: dns_eval demo_fw demo_dns_events_def demo_dns_records_def demo_query_size demo_keys demo_cached demo_cacheable
      il_new_def as_secs_f64_def CACHE_MAX_ENTRIES_def CACHE_MIN_TTL_def CACHE_MAX_TTL_def from_secs_def)

theorem dns_replies_sound_witness:
  "\<exists>sent s out s'. dns_run demo_dns_records demo_dns_events (dns_new ''172.16.0.1'') = (sent, s) \<and>
     dns_step demo_dns_records 14 (UdpRun 0) s = (out, s') \<and>
     ToGuest (V4 172 16 0 6, 901) (demo_dns_query 9 88) (demo_dns_answer[1 := 9, 13 := 88]) \<in> set out \<and>
     src_in_prefix (V4 172 16 0 6) (fw_allowed_prefix (fw_new ''172.16.0.1'')) \<and>
     (\<exists>t dst' query' cached. (t, ToGuest dst' query' cached) \<in> set sent \<and> 14 < t + CACHE_MAX_TTL)"
proof -
  obtain sent s where run: "dns_run demo_dns_records demo_dns_events (dns_new ''172.16.0.1'') = (sent, s)" by (rule prod.exhaust)
  obtain out s' where st: "dns_step demo_dns_records 14 (UdpRun 0) s = (out, s')" by (rule prod.exhaust)
  have r: "ToGuest (V4 172 16 0 6, 901) (demo_dns_query 9 88) (demo_dns_answer[1 := 9, 13 := 88]) \<in> set out"
    using demo_dns_reply by (simp only: run st fst_conv snd_conv list.set insertI1)
  have "src_in_prefix (V4 172 16 0 6) (fw_allowed_prefix (fw_new ''172.16.0.1''))"
    "\<exists>t dst' query' cached. (t, ToGuest dst' query' cached) \<in> set sent \<and> 14 < t + CACHE_MAX_TTL"
    using dns_replies_sound[OF run st r] by (simp_all only: fst_conv resolver_answer.simps option.distinct) blast+
  then show ?thesis using run st r by blast
qed

theorem dns_rate_bound_witness:
  "chronological 10 demo_dns_events \<and>
   real (upstream_count (V4 172 16 0 5) (fst (dns_run demo_dns_records demo_dns_events (dns_new ''172.16.0.1''))))
     \<le> PER_IP_BURST + as_secs_f64 (end_time 10 demo_dns_events - 10) * PER_IP_RATE_PER_SEC"
  using dns_rate_bound[of 10 demo_dns_events "V4 172 16 0 5" demo_dns_records "''172.16.0.1''"]
  by (simp add: demo_dns_events_def del: dns_step.simps dns_run.simps)

end
