(* ===== verification/Spec2Isabelle.thy ===== *)
theory Spec2Isabelle
  imports L4_Seam Db_Preamble Fn_Egress Build_Egress Log_Ship Domain_Name Obj_Store_Ops Sig_Verify Obj_Quota Layer_Mount Dns_Runs
begin

text \<open>
  jkbase is a hosting platform: tenants' projects run in micro-VMs that boot on demand, behind a proxy
  that owns the public addresses. This development models the parts of it whose correctness is a
  matter of the platform's own logic, as HOL definitions that follow the Rust sources under
  \<open>src/crates\<close>, and proves what those parts promise.

  \<^bold>\<open>The parts and how they interact.\<close>

  The \<^emph>\<open>datagram plane\<close> carries UDP between a client and an application in a VM. The host's port
  (\<open>jkbase-proxy/src/l4_ingress.rs\<close>) keeps a table of flows, wakes the VM, and asks the shared plane
  (\<open>l4_plane.rs\<close>, built on the limiters of \<open>l4_egress.rs\<close>) before it admits a flow, boots a VM or lets
  a reply out. Host and VM exchange frames sealed under a port's secret
  (\<open>jkbase-common/src/l4_transit.rs\<close>). In the VM the agent (\<open>jkbase-agent/src/l4_forward.rs\<close>) opens
  them, waits for the application to bind, keeps its own flow map with an anti-replay window, and pumps
  the replies back.

  The \<^emph>\<open>database reach plane\<close> starts with a preamble the edge reads off a fresh connection
  (\<open>jkbase-common/src/db_preamble.rs\<close>, \<open>jkbase-proxy/src/db_preamble.rs\<close>).

  \<^emph>\<open>Egress\<close>: functions reach the network through a gate in the agent
  (\<open>jkbase-agent/src/function_egress.rs\<close>), builds through a proxy on the host
  (\<open>jkbase-server/src/egress.rs\<close>); both use the address test and allowlists of
  \<open>jkbase-common/src/egress.rs\<close> and the policies of \<open>config.rs\<close>. The gate records each decision in the
  agent's log sink.

  \<^emph>\<open>Logs\<close>: the agent's sink (\<open>jkbase-agent/src/log_sink.rs\<close>) is polled by the host's shipper
  (\<open>jkbase-server/src/log_shipper.rs\<close>), which appends to the store (\<open>jkbase-control/src/logstore.rs\<close>).

  \<^emph>\<open>Names\<close>: which domains a tenant may register (\<open>jkbase-control/src/domain_name.rs\<close>) and how the
  proxy maps a request's host to one (\<open>jkbase-common/src/routing.rs\<close>, \<open>jkbase-proxy/src/lib.rs\<close>).

  \<^emph>\<open>Object storage\<close>: each project has a store of buckets and objects (\<open>jkbase-objectstore\<close>). Its index
  (\<open>index.rs\<close>) is a database of metadata and manifests; the bytes are segment files (\<open>segments.rs\<close>);
  the requests (\<open>store.rs\<close>) write a segment, commit a row that names it, and reclaim what the row replaced,
  while readers hold pins on what they stream. Requests are signed (\<open>jkbase-sigv4\<close>): a presigned URL or an
  \<open>Authorization\<close> header over the canonical form of the request. The front (\<open>objectstore_service.rs\<close>) finds the
  project of the signing key, holds the request against the project's quota and hands it to the S3 handlers
  (\<open>http.rs\<close>) of that project's store.

  \<^emph>\<open>Deployments\<close>: a tenant's tree passes a check (\<open>api.rs\<close>) and goes live. For each VM of the project the
  host computes a layer plan (\<open>layer_plan.rs\<close>): which layer files are attached, in which order, and a map
  from servers to devices. It bakes the map, the manifests with the project's secrets and the host's own
  facts into a metadata image, and starts the VM with the drives in that order (\<open>vm.rs\<close>). The agent in the
  VM reads the map (\<open>main.rs\<close>), verifies the shared layers (\<open>dmverity.rs\<close>) and mounts each server's stack.

  \<^emph>\<open>Guest DNS\<close>: the host answers the queries of its VMs (\<open>dns_forwarder.rs\<close>) by relaying them to its own
  resolver, from a cache where it can, with a budget for each address and bounded pools.

  \<^bold>\<open>The theories.\<close>

  \<^item> \<open>Prelude\<close>: type names, times, hash maps as association lists, the lemmas all components share.
    \<open>Rust_Str\<close>, \<open>Wire\<close>, \<open>Net_Addr\<close>, \<open>Net_Parse\<close>: strings, big-endian bytes, addresses and their parsing,
    as the standard library has them.
  \<^item> \<open>L4_Egress\<close>: \<open>TokenBucket\<close>, \<open>RatioCredit\<close>, \<open>BoundedTtlMap\<close>. The bucket meets the interface
    \<open>rate_limiter\<close>, whose lemma bounds what any limiter admits; \<open>Limiter_Map\<close> lifts it to a bounded map
    of limiters. \<open>L4_Counters\<close>, \<open>L4_Flows\<close>, \<open>L4_Wake\<close>, \<open>L4_Caps\<close>, \<open>L4_Activity\<close>: the plane's groups of
    state, each with its operations and invariants; \<open>L4_Plane\<close> puts them together.
  \<^item> \<open>L4_Transit\<close>: frames; HMAC-SHA256 is a parameter of the model.
  \<^item> \<open>L4_Ingress\<close> models the port's operations, \<open>L4_Ingress_Inv\<close> proves its invariant, \<open>L4_Port_Run\<close>
    runs any number of ports on one plane as a step relation, \<open>L4_Port_Props\<close> draws the consequences.
  \<^item> \<open>Guest_Ports\<close>, \<open>L4_Forward\<close>, \<open>L4_Forward_Inv\<close>, \<open>L4_Forward_Props\<close>: the agent, likewise.
    \<open>L4_Seam\<close> and this theory join port and agent.
  \<^item> \<open>Db_Preamble\<close>: the preamble, its parser and its reader.
  \<^item> \<open>Net_Egress\<close>, \<open>Fn_Egress\<close>, \<open>Build_Egress\<close>: addresses and policies, the gate, the build proxy.
  \<^item> \<open>Log_Sink\<close>, \<open>Log_Store\<close>, \<open>Log_Ship\<close>: the log pipeline, each stage and the run of all three.
  \<^item> \<open>Domain_Name\<close>: names and host routing.
  \<^item> \<open>Obj_Index\<close>: the tables and transactions of the object index; \<open>Obj_Index_Inv\<close> proves that every segment
    keeps exactly one place through each of them (\<open>ix_moves\<close>); \<open>Obj_List\<close>: listings, against a reference
    that folds and sorts the whole bucket. \<open>Obj_Store\<close>: segment files and requests; \<open>Obj_Store_Run\<close>: any
    number of requests, sweeps, readers and restarts as a step relation; \<open>Obj_Store_Ops\<close>: the requests
    as updates of a map of objects, over the interface \<open>retiring_tx\<close> of a transaction.
  \<^item> \<open>Sig_V4\<close>: canonical requests, signing keys, dates, presigned URLs, signed headers and the decoding of a
    request; \<open>Sig_Verify\<close>: what is signed verifies, and what verifies was signed.
  \<^item> \<open>Obj_Cors\<close>: the CORS rules of a bucket, their XML and their matching. \<open>Obj_Http\<close>: the S3 handlers over the
    store. \<open>Obj_Front\<close>: a signed request from its URI to its answer, the project it reaches, the usage record
    and its reservations, and the console. \<open>Obj_Quota\<close>: the requests of a project against its caps, each in
    two halves - the gates, and the router with the reconciliation - as a step relation, with a ledger of what
    each slot and each reservation may still take. A gate is one step there, an upload of the console is not
    part of it, and a walk of the footprint while a request holds a reservation is excluded: such a walk can
    break the cap (\<open>late_release_breaks_the_cap\<close>).
  \<^item> \<open>Fs_Tree\<close>: deployment trees with links, the reads, writes and copies that do not follow them, and the
    activation check. \<open>Layer_Plan\<close>: the plan of a deployment and the drives of its VM, and that they agree.
    \<open>Meta_Image\<close>: staging, secrets and control files; \<open>Layer_Mount\<close>: the agent's mounts, composed with the
    host's plan and image.
  \<^item> \<open>Dns_Fwd\<close>: questions, cache, budgets and handlers of the DNS forwarder, and a run as a sequence of events;
    \<open>Dns_Inv\<close>: its invariant; \<open>Dns_Runs\<close>: what every run sends and how much, over \<open>rate_limiter\<close>.

  \<^bold>\<open>Conventions.\<close>

  A struct is a \<open>record\<close>, an enum a \<open>datatype\<close>, a method a function from the old state to the result and
  the new state. A \<open>HashMap\<close> is an association list read by \<open>map_of\<close> and written by \<open>hupd\<close> and \<open>hdel\<close>.
  Fixed-width integers are words where the code computes with wrap-around or bits; counters the code
  saturates or that count bytes of memory are naturals with the saturation written out. \<open>Instant\<close> and
  \<open>Duration\<close> are naturals in nanoseconds; \<open>f64\<close> quantities of the limiters are reals, so rounding is not
  modelled. Locks are taken for whole operations, so an operation is one step; where the code releases
  a lock or takes a number before one (the log sink's push, the port's boot), the operation is split
  there. Every loop is a structural or measured recursion, so every definition is total and no fuel is
  used; a stream that ends before a reader is done is a separate outcome.

  \<^bold>\<open>Parameters.\<close> HMAC, the JSON rendering of log lines, the system resolver, the outcome of connects and
  writes, clocks and random values are arguments; what a property needs of them (that rendering a line
  and parsing it again gives the line back) is a hypothesis of that property.
  A table of the object index is its rows in key order; a row that does not decode is a value of its own.
  A transaction that fails changes nothing. MD5, SHA-256 and HMAC are parameters no property restricts: a
  property that would need collision freedom exhibits the two colliding strings instead.

  \<^bold>\<open>Not modelled.\<close> Relaying of HTTP and of byte streams, TLS, certificates and ACME; VM lifecycle and
  Firecracker; the build orchestrator and the language toolchains; the HTTP handlers of the control
  plane; the command line and the SDK. They are process wiring and I/O around the parts above, or
  logic that lives in external programs.
\<close>

section \<open>Properties that span the host port and the agent\<close>

text \<open>
  C39. A client's datagrams reach the application, each once, unchanged and in order. Take a live
  flow of the port whose machine is up, and an agent that is ready, holds the port's secret and has
  the flow at the same epoch with a high-water mark no higher than the host's counter. If the frames
  the port emits for a sequence of datagrams of that client - each of them small enough to be sent -
  are handed to the agent in order, the agent hands the application exactly these payloads, in this order, all on the flow's socket.
\<close>

theorem datagrams_reach_guest_in_order:
  assumes "map_of (ps_flows st) src = Some f" and "ps_vm_dst st = Some dst"
    and "unat (fl_out_nonce f) + length ds < 2 ^ 64" and "ld_secret a = sp_transit_secret spec"
    and "ld_readiness a = Ready" and "map_of (ld_flows a) (fl_flow_id f) = Some g"
    and "lf_epoch g = fl_epoch f" and "lf_in_nonce_hw g \<le> fl_out_nonce f" and "length ens = length ds"
  shows "map snd (receive_stream hmac host (zip ens (send_stream hmac spec src ds st p)) a)
    = map (\<lambda>(d, _). (d, lf_sock g)) ds"
  by (rule stream_arrives[OF assms])

theorem datagrams_reach_guest_in_order_witness:
  "map snd (receive_stream first_byte_mac demo_host
      (zip [demo_env, demo_env] (send_stream first_byte_mac demo_spec demo_src [([1], 10), ([2, 3], 20)] seam_port (plane_new default_limits 0)))
      seam_agent) = [([1], 61001), ([2, 3], 61001)]"
proof -
  have f: "map_of (ps_flows seam_port) demo_src = Some demo_flow" "ps_vm_dst seam_port = Some (V4 10 0 0 5, 9000)"
    by (simp_all add: seam_port_def demo_live_def)
  have n: "fl_out_nonce demo_flow = 0" "fl_flow_id demo_flow = 7" "fl_epoch demo_flow = 1000"
    by (simp_all add: demo_flow_def flow_provisional_def)
  show ?thesis
    using datagrams_reach_guest_in_order[OF f, of "[([1], 10), ([2, 3], 20)]" seam_agent demo_spec _ "[demo_env, demo_env]"]
    by (simp add: n seam_agent_def)
qed

text \<open>
  The return leg. A reply of the application that fits a datagram leaves its pump sealed under
  the flow's id and epoch and the pump's counter, which then advances. At the host, on a project that
  is not under the kill-switch and a flow at that epoch, the reply passes the replay window exactly
  when that counter is above the flow's high-water mark; then the egress controls alone decide, and
  what goes to the client is the application's payload. Otherwise it is dropped as a replay and the
  port is unchanged.
\<close>

theorem reply_leg_window:
  assumes "map_of (ld_pumps a) pid = Some r" and "length d + 32 \<le> 65535" and "ld_secret a = sp_transit_secret spec"
    and "map_of (ps_by_flow_id st) (rp_flow_id r) = Some src" and "map_of (ps_flows st) src = Some f"
    and "fl_epoch f = rp_epoch r" and "\<not> is_reflection_suspected (pl_activity p) (sp_base_project spec)"
  shows "\<exists>frame a'. pump_reply hmac en pid d a = (Some (frame, rp_reply_to r), a')
    \<and> map_of (ld_pumps a') pid = Some (r\<lparr>rp_out_nonce := rp_out_nonce r + 1\<rparr>) \<and> ld_secret a' = ld_secret a
    \<and> return_frame hmac spec frame now st p =
        (if rp_out_nonce r \<le> fl_in_nonce_hw f then (None, st, pl_count NonceReplay p)
         else (case egress_controls spec src (length d) now (flow_heard (rp_out_nonce r) now f)
                      (st\<lparr>ps_flows := hupd src (flow_heard (rp_out_nonce r) now f) (ps_flows st)\<rparr>) p of
                 (None, st, p) \<Rightarrow> (None, st, p)
               | (Some s, st, p) \<Rightarrow> (Some (s, d), st, p)))"
  by (rule reply_frame_at_host[OF assms])

theorem reply_leg_window_witness:
  "\<exists>frame a' st' p'. pump_reply first_byte_mac demo_env 0 [1, 2] seam_agent = (Some (frame, demo_host), a')
    \<and> return_frame first_byte_mac demo_spec frame 5 demo_live (plane_new default_limits 0) = (Some (demo_src, [1, 2]), st', p')"
proof -
  let ?r = "\<lparr>rp_flow_id = 7, rp_epoch = 1000, rp_loopback = 61001, rp_reply_to = demo_host, rp_out_nonce = 1, rp_cancelled = False\<rparr>"
  let ?p = "plane_new default_limits 0" and ?f = "flow_heard 1 5 demo_flow"
  let ?st = "demo_live\<lparr>ps_flows := hupd demo_src ?f (ps_flows demo_live)\<rparr>"
  obtain b m where kb: "kb_check (real (per_source_bps (ps_egress demo_st))) (real (per_source_burst (ps_egress demo_st)))
      (V4 1 2 3 4) (real 2) 5 (ps_per_source demo_st) = (Some b, m)" using demo_source_bucket by blast
  obtain p2 where ag: "pl_try_egress_aggregate ''base'' (V4 1 2 3 4) 2 (ps_egress demo_st) 5 ?p = (Inr (), p2)"
    using demo_aggregate by blast
  have "fst (egress_controls demo_spec demo_src 2 5 ?f ?st ?p) = Some demo_src"
    by (rule egress_controls_admits)
      (use kb ag in \<open>simp_all add: demo_live_def demo_src_def\<close>, simp_all add: demo_spec_def)
  moreover have "length [1 :: u8, 2] = 2" by simp
  ultimately have "fst (egress_controls demo_spec demo_src (length [1 :: u8, 2]) 5 ?f ?st ?p) = Some demo_src" by (simp only:)
  then obtain st' p' where e: "egress_controls demo_spec demo_src (length [1 :: u8, 2]) 5 ?f ?st ?p = (Some demo_src, st', p')"
    using prod.collapse by metis
  have s: "\<not> is_reflection_suspected (pl_activity ?p) (sp_base_project demo_spec)"
    by (simp add: is_reflection_suspected_def plane_new_def activity_new_def)
  have r: "map_of (ld_pumps seam_agent) 0 = Some ?r" by (simp add: seam_agent_def)
  have n: "fl_in_nonce_hw demo_flow = 0" "fl_epoch demo_flow = 1000" by (simp_all add: demo_flow_def flow_provisional_def)
  have "\<exists>frame a'. pump_reply first_byte_mac demo_env 0 [1, 2] seam_agent = (Some (frame, demo_host), a')
    \<and> return_frame first_byte_mac demo_spec frame 5 demo_live ?p = (Some (demo_src, [1, 2]), st', p')"
  proof -
    have h: "length [1 :: u8, 2] + 32 \<le> 65535" "ld_secret seam_agent = sp_transit_secret demo_spec"
      "map_of (ps_by_flow_id demo_live) (rp_flow_id ?r) = Some demo_src" "map_of (ps_flows demo_live) demo_src = Some demo_flow"
      "fl_epoch demo_flow = rp_epoch ?r"
      using n by (simp_all add: seam_agent_def demo_live_def)
    from reply_leg_window[OF r h s, of first_byte_mac demo_env 5] show ?thesis using n e by auto
  qed
  then show ?thesis by blast
qed

text \<open>
  C40. A pump that starts over is not heard until it has caught up. Take a flow the host still holds, with a high-water
  mark \<open>h\<close> of the replies it has seen, that the agent has lost (it was swept, or recycled because the map was full). The
  next datagram the host sends on it makes the agent create the flow anew and reaches the application; but the pump of the
  new entry counts from 1 again, and the first \<open>h\<close> replies the application gives through it are all dropped at the host.
\<close>

theorem recreated_pump_is_silenced:
  assumes "agent_inv a" and "ld_readiness a = Ready" and "map_of (ld_flows a) (fl_flow_id f) = None"
    and "open_loopback en (fl_flow_id f) (fst (make_room en a)) = Some s" and "ld_secret a = sp_transit_secret spec"
    and "map_of (ps_by_flow_id st) (fl_flow_id f) = Some src" and "map_of (ps_flows st) src = Some f"
    and "\<not> is_reflection_suspected (pl_activity p) (sp_base_project spec)"
    and "hdr = \<lparr>h_flow_id = fl_flow_id f, h_epoch = fl_epoch f, h_nonce = n\<rparr>"
    and "\<forall>(en, d, now) \<in> set ds. length d + 32 \<le> 65535" and "length ds \<le> unat (fl_in_nonce_hw f)"
  shows "\<exists>a' g. on_inbound hmac en (l4_seal hmac (sp_transit_secret spec) HostToAgent hdr payload) host a = ([(hdr, payload, s)], a')
    \<and> map_of (ld_flows a') (fl_flow_id f) = Some g
    \<and> reply_stream hmac spec (lf_pump g) ds a' st p = replicate (length ds) None"
proof -
  let ?a = "spawn_flow en hdr host s (fst (make_room en a))" and ?pid = "ld_next_pump (fst (make_room en a))"
  have i: "on_inbound hmac en (l4_seal hmac (ld_secret a) HostToAgent hdr payload) host a = ([(hdr, payload, s)], ?a)"
    using inbound_recreates[OF assms(1) _ assms(2), of hdr en s hmac payload host] assms(3,4,9) by simp
  have "same_gate ?a a"
    using deliver_inv[OF assms(1), of hmac en "l4_seal hmac (ld_secret a) HostToAgent hdr payload" host] i assms(2)
    by (simp add: on_inbound_def)
  then have sec: "ld_secret ?a = sp_transit_secret spec" using assms(5) by (simp add: same_gate_def)
  have pump: "map_of (ld_pumps ?a) ?pid =
      Some \<lparr>rp_flow_id = fl_flow_id f, rp_epoch = fl_epoch f, rp_loopback = s, rp_reply_to = host, rp_out_nonce = 1, rp_cancelled = False\<rparr>"
    using assms(9) by (simp add: spawn_flow_def)
  have "reply_stream hmac spec ?pid ds ?a st p = replicate (length ds) None"
    by (rule blackout[OF pump assms(10) sec, where src = src and f = f]) (use assms(6-8,11) in simp_all)
  then show ?thesis using i assms(5,9) by (intro exI[of _ ?a]) (simp add: spawn_flow_def)
qed

theorem recreated_pump_is_silenced_witness:
  "\<exists>a' g. on_inbound first_byte_mac demo_env
      (l4_seal first_byte_mac (sp_transit_secret demo_spec) HostToAgent \<lparr>h_flow_id = 7, h_epoch = 1000, h_nonce = 5\<rparr> [9]) demo_host lost_agent
      = ([(\<lparr>h_flow_id = 7, h_epoch = 1000, h_nonce = 5\<rparr>, [9], 40000)], a')
    \<and> map_of (ld_flows a') 7 = Some g
    \<and> reply_stream first_byte_mac demo_spec (lf_pump g) [(demo_env, [1], 5), (demo_env, [2], 6)] a'
        (demo_live\<lparr>ps_flows := [(demo_src, demo_flow\<lparr>fl_in_nonce_hw := 90\<rparr>)]\<rparr>) (plane_new default_limits 0) = [None, None]"
proof -
  let ?f = "demo_flow\<lparr>fl_in_nonce_hw := 90\<rparr>" and ?st = "demo_live\<lparr>ps_flows := [(demo_src, demo_flow\<lparr>fl_in_nonce_hw := 90\<rparr>)]\<rparr>"
  let ?p = "plane_new default_limits 0" and ?ds = "[(demo_env, [1 :: u8], 5 :: nat), (demo_env, [2], 6)]"
  have n: "fl_flow_id ?f = 7" "fl_epoch ?f = 1000" "fl_in_nonce_hw ?f = 90" by (simp_all add: demo_flow_def flow_provisional_def)
  have h: "map_of (ps_by_flow_id ?st) (fl_flow_id ?f) = Some demo_src" "map_of (ps_flows ?st) demo_src = Some ?f"
    by (simp_all add: n demo_live_def)
  have s: "\<not> is_reflection_suspected (pl_activity ?p) (sp_base_project demo_spec)"
    by (simp add: is_reflection_suspected_def plane_new_def activity_new_def)
  have d: "\<forall>(en, d, now) \<in> set ?ds. length d + 32 \<le> 65535" "length ?ds \<le> unat (fl_in_nonce_hw ?f)" by (simp_all add: n)
  have r: "replicate (length ?ds) None = [None, None]" by (simp add: numeral_2_eq_2)
  from recreated_pump_is_silenced[OF lost_agent_facts(1,2,3,4,5) h s HOL.refl d, of first_byte_mac 5 "[9]" demo_host]
  show ?thesis unfolding n r .
qed

text \<open>
  The agent's reaper trails the host's. Let the agent derive its idle time from the host's
  window of \<open>n\<close> seconds (at least the five of a provisional flow), and let the host's last sight of the
  flow be at most \<open>skew\<close> after the agent's and the agent's clock at most \<open>skew'\<close> ahead, together no more
  than the headroom of 60 seconds. Then as long as the host keeps the flow, the agent's sweep does not
  take it.
\<close>

theorem agent_reaper_trails_host:
  assumes "flow_keeps spec now f" and "sp_idle_timeout spec = from_secs n" and "5 \<le> n"
    and "flow_idle_ttl_for n = Some (ld_flow_idle_ttl a)"
    and "lf_last_seen g = elapsed_ms (ld_base a) seen" and "ld_base a \<le> seen"
    and "fl_last_seen f \<le> seen + skew" and "en_now en \<le> now + skew'" and "skew + skew' \<le> from_secs 60"
    and "en_now en - ld_base a < 2 ^ 64" and "seen \<le> en_now en" and "n < 2 ^ 50"
  shows "\<not> flow_idle en a g"
proof -
  have t: "ld_flow_idle_ttl a = (n + 60) * 1000000000"
    using assms(3,4) by (auto simp: flow_idle_ttl_for_def FLOW_IDLE_HEADROOM_SECS_def from_secs_def Let_def split: if_splits)
  have "flow_timeout spec f \<le> n * 1000000000"
    using assms(2,3) by (cases "fl_kind f") (simp_all add: flow_timeout_def PROVISIONAL_IDLE_def from_secs_def)
  then have "now < fl_last_seen f + n * 1000000000" using assms(1) by (simp add: flow_keeps_def)
  then have d: "en_now en < seen + (n + 60) * 1000000000"
    using assms(7-9) by (simp add: from_secs_def)
  have e: "elapsed_ms (ld_base a) x = (x - ld_base a) div 1000000" if "x \<le> en_now en" for x
    using that assms(10) by (simp add: elapsed_ms_def)
  have "(en_now en - ld_base a) div 1000000 \<le> (seen - ld_base a + (n + 60) * 1000 * 1000000) div 1000000"
    using d assms(6) by (intro div_le_mono) simp
  also have "\<dots> = (n + 60) * 1000 + (seen - ld_base a) div 1000000" by (rule div_mult_self1) simp
  finally have "elapsed_ms (ld_base a) (en_now en) - lf_last_seen g \<le> (n + 60) * 1000"
    using e[of seen] e[of "en_now en"] assms(5,11) by (simp add: le_diff_conv)
  moreover have "(ld_flow_idle_ttl a div 1000000) mod 2 ^ 64 = (n + 60) * 1000"
    using t assms(12) by simp
  ultimately show ?thesis by (simp add: flow_idle_def)
qed

theorem agent_reaper_trails_host_witness:
  "\<not> flow_idle (demo_env\<lparr>en_now := from_secs 110\<rparr>) (seam_agent\<lparr>ld_flow_idle_ttl := from_secs 90\<rparr>)
     \<lparr>lf_epoch = 1000, lf_sock = 61001, lf_in_nonce_hw = 0, lf_last_seen = 30000, lf_pump = 0\<rparr>"
  by (rule agent_reaper_trails_host[where spec = demo_spec and now = "from_secs 100" and f = "demo_flow\<lparr>fl_last_seen := from_secs 80, fl_kind := Established\<rparr>"
        and n = 30 and seen = "from_secs 30" and skew = "from_secs 50" and skew' = "from_secs 10"])
    (simp_all add: flow_keeps_def flow_timeout_def demo_flow_def flow_provisional_def PROVISIONAL_IDLE_def from_secs_def
      demo_spec_def flow_idle_ttl_for_def FLOW_IDLE_HEADROOM_SECS_def elapsed_ms_def seam_agent_def demo_agent_def u64_max_def)

end
